(* ===== verification/Prelude.thy ===== *)
theory Prelude
  imports Main "HOL-Library.Word" "HOL-Library.State_Monad"
begin

text \<open>
  Shared ground of the development: the names of the C scalar types, the
  collections of facts the component proofs draw on, and the generic lemmas on
  words, lists and the state monad that more than one component uses.

  \<^item> \<open>guchar\<close>, \<open>guint16\<close> and \<open>guint32\<close> are machine words of their width;
    \<open>gsize\<close> is a natural number (a size of an object that exists in memory;
    the bound that keeps it below the width of the C type is proved where
    sizes are computed, see \<open>Buffers\<close>).
  \<^item> A \<open>char *\<close> is \<open>cstr\<close>: \<open>None\<close> is the NULL pointer and \<open>Some s\<close> points to
    the bytes \<open>s\<close> followed by a NUL.
  \<^item> An object that the code reaches through more than one pointer has an address, \<open>addr\<close>.
\<close>

unbundle bit_operations_syntax

type_synonym guchar = "8 word"
type_synonym guint16 = "16 word"
type_synonym guint32 = "32 word"
type_synonym gsize = nat
type_synonym bytes = "guchar list"
type_synonym cstr = "bytes option"
type_synonym addr = nat

named_theorems writer_intros \<open>what a writer appends, one rule per writer\<close>
named_theorems agree_intros \<open>readers that agree whatever their uninitialised locals hold\<close>
named_theorems reader_intros \<open>a reader is local, one rule per reader\<close>
named_theorems nobuf_intros \<open>computations that keep away from the input buffer\<close>
named_theorems keeps_intros \<open>computations that keep a predicate of the session\<close>
named_theorems reads_simps \<open>what a reader yields on its wire format\<close>

subsection \<open>Sizes\<close>

text \<open>
  Sizes are natural numbers; where the code may take a larger from a smaller one the
  wrap-around of the 64 bit \<open>gsize\<close> is written out.
\<close>

definition gsize_sub :: "gsize \<Rightarrow> gsize \<Rightarrow> gsize" where
  "gsize_sub a b = (if b \<le> a then a - b else 2 ^ 64 + a - b)"

lemma gsize_sub_le [simp]: "b \<le> a \<Longrightarrow> gsize_sub a b = a - b"
  by (simp add: gsize_sub_def)

subsection \<open>Big-endian words\<close>

lemma word16_join_bytes:
  "push_bit 8 (ucast (ucast (drop_bit 8 v) :: guchar)) OR ucast (ucast v :: guchar) = (v :: guint16)"
  by (rule bit_word_eqI) (auto simp: bit_simps)

lemma word16_high_byte:
  "(ucast (drop_bit 8 (push_bit 8 (ucast (x :: guchar)) OR ucast (y :: guchar) :: guint16)) :: guchar) = x"
proof (rule bit_word_eqI)
  fix n
  assume "n < LENGTH(8)"
  moreover have "\<not> bit y (8 + n)"
    using bit_imp_le_length [of y "8 + n"] by auto
  ultimately show "bit (ucast (drop_bit 8 (push_bit 8 (ucast (x :: guchar)) OR ucast (y :: guchar) :: guint16)) :: guchar) n
      = bit x n"
    by (simp add: bit_simps)
qed

lemma word16_low_byte:
  "(ucast (push_bit 8 (ucast (x :: guchar)) OR ucast (y :: guchar) :: guint16) :: guchar) = y"
  by (rule bit_word_eqI) (auto simp: bit_simps)

lemma word32_join_bytes:
  "push_bit 24 (ucast (ucast (drop_bit 24 v) :: guchar))
   OR push_bit 16 (ucast (ucast (drop_bit 16 v) :: guchar))
   OR push_bit 8 (ucast (ucast (drop_bit 8 v) :: guchar))
   OR ucast (ucast v :: guchar) = (v :: guint32)"
proof (rule bit_word_eqI)
  fix n
  assume "n < LENGTH(32)"
  then consider "n < 8" | "8 \<le> n" "n < 16" | "16 \<le> n" "n < 24" | "24 \<le> n" "n < 32"
    by fastforce
  then show "bit (push_bit 24 (ucast (ucast (drop_bit 24 v) :: guchar))
     OR push_bit 16 (ucast (ucast (drop_bit 16 v) :: guchar))
     OR push_bit 8 (ucast (ucast (drop_bit 8 v) :: guchar))
     OR ucast (ucast v :: guchar) :: guint32) n = bit v n"
    by cases (auto simp: bit_simps)
qed

lemma and_255: "(x :: 'a :: len word) AND 255 = take_bit 8 x"
proof -
  have "(255 :: 'a word) = mask 8"
    by (simp add: mask_eq_exp_minus_1)
  then show ?thesis
    by (simp add: take_bit_eq_mask)
qed

lemma byte_mask [simp]: "(x :: guchar) AND 255 = x"
  unfolding and_255 by (rule bit_word_eqI) (auto simp: bit_simps)

lemma ucast_mask [simp]: "(ucast ((v :: 'a :: len word) AND 255) :: guchar) = ucast v"
  unfolding and_255 by (rule bit_word_eqI) (auto simp: bit_simps)

subsection \<open>Lists\<close>

lemma nth_append_length_plus [simp]: "(pre @ xs) ! (length pre + i) = xs ! i"
  by (simp add: nth_append)

lemma nth_append_Suc_length [simp]: "(pre @ x # y # zs) ! Suc (length pre) = y"
  using nth_append_length_plus [of pre "x # y # zs" 1] by simp

lemma take_drop_append_exact [simp]:
  "take (length xs) (drop (length pre) (pre @ xs @ post)) = xs"
  by simp

lemma butlast_list_update_snoc:
  "length xs = n \<Longrightarrow> (xs @ y # zs)[n := x] = xs @ x # zs"
  by (simp add: list_update_append)

subsection \<open>Strings of C\<close>

text \<open>The bytes a C string function sees in memory: everything before the first NUL.\<close>

definition c_string :: "bytes \<Rightarrow> bytes" where
  "c_string m = takeWhile (\<lambda>c. c \<noteq> 0) m"

text \<open>A proper C string has no NUL among its bytes.\<close>

definition cstr_ok :: "cstr \<Rightarrow> bool" where
  "cstr_ok s = (case s of None \<Rightarrow> True | Some bs \<Rightarrow> (0 :: guchar) \<notin> set bs)"

lemma cstr_ok_simps [simp]:
  "cstr_ok None" "cstr_ok (Some bs) \<longleftrightarrow> 0 \<notin> set bs"
  by (simp_all add: cstr_ok_def)

lemma c_string_id [simp]: "0 \<notin> set m \<Longrightarrow> c_string m = m"
  unfolding c_string_def by (rule takeWhile_eq_all_conv [THEN iffD2]) auto

lemma c_string_no_nul [simp]: "0 \<notin> set (c_string m)"
  unfolding c_string_def by (auto dest: set_takeWhileD)

lemma c_string_length: "length (c_string m) \<le> length m"
  unfolding c_string_def by (rule length_takeWhile_le)

subsection \<open>The state monad\<close>

abbreviation exec_state :: "('s, 'a) state \<Rightarrow> 's \<Rightarrow> 's" where
  "exec_state m s \<equiv> snd (run_state m s)"

abbreviation eval_state :: "('s, 'a) state \<Rightarrow> 's \<Rightarrow> 'a" where
  "eval_state m s \<equiv> fst (run_state m s)"

end
