(* ===== verification/Buffers.thy ===== *)
theory Buffers
  imports Prelude
begin

text \<open>
  The put and get buffers of \<^verbatim>\<open>src/src/common.c\<close> and the basic types that are
  read from and written to them: \<open>guint16\<close>, \<open>guint32\<close>, \<open>gboolean\<close>,
  \<open>mwString\<close> and \<open>mwOpaque\<close>.

  A put buffer is a block of memory that grows; a byte of it that has not been
  written since \<open>g_malloc\<close> is \<open>None\<close>. A get buffer is a cursor over a block of
  bytes with a sticky error flag. Writers and readers are state-monad actions on
  the buffer, composed as the C functions call each other. What a writer appends
  is stated by \<open>writes\<close>, and that a reader depends on the bytes it consumes
  only, never on what follows them, by \<open>reader\<close>; both are closed under
  sequencing, so every compound type of \<open>Common\<close> and \<open>Messages\<close> gets its facts
  by composition. The locale \<open>codec\<close> is the interface a pair of put and get
  functions offers, with the round trip and the rejection of truncated input
  proved once from its laws.
\<close>

subsection \<open>Memory blocks\<close>

type_synonym memory = "guchar option list"

text \<open>\<open>memcpy(block + off, src, length src)\<close>.\<close>

definition mem_write :: "nat \<Rightarrow> bytes \<Rightarrow> memory \<Rightarrow> memory" where
  "mem_write off src m = take off m @ map Some src @ drop (off + length src) m"

lemma length_mem_write [simp]:
  "off + length src \<le> length m \<Longrightarrow> length (mem_write off src m) = length m"
  by (simp add: mem_write_def)

lemma take_mem_write:
  "off + length src \<le> length m \<Longrightarrow>
   take (off + length src) (mem_write off src m) = take off m @ map Some src"
  by (simp add: mem_write_def)

subsection \<open>Put buffers\<close>

record mwPutBuffer =
  pb_buf :: memory
  pb_len :: gsize
  pb_ptr :: nat
  pb_rem :: gsize

definition BUFFER_USED :: "mwPutBuffer \<Rightarrow> gsize" where
  "BUFFER_USED b = pb_len b - pb_rem b"

text \<open>The doubling loop of \<open>ensure_buffer\<close>; \<open>len\<close> is never zero when it is entered.\<close>

function grow_len :: "gsize \<Rightarrow> gsize \<Rightarrow> gsize \<Rightarrow> gsize" where
  "grow_len len used needed =
     (if 0 < len \<and> len - used < needed then grow_len (2 * len) used needed else len)"
  by pat_completeness auto
termination
  by (relation "measure (\<lambda>(len, used, needed). used + needed - len)") auto

declare grow_len.simps [simp del]

definition ensure_buffer :: "mwPutBuffer \<Rightarrow> gsize \<Rightarrow> mwPutBuffer" where
  "ensure_buffer b needed =
     (if pb_rem b < needed
      then let len = pb_len b; used = BUFFER_USED b;
               len = (if len = 0 then 1024 else len);
               len = grow_len len used needed;
               buf = take used (pb_buf b) @ replicate (len - used) None
           in \<lparr>pb_buf = buf, pb_len = len, pb_ptr = used, pb_rem = len - used\<rparr>
      else b)"

definition mwPutBuffer_new :: mwPutBuffer where
  "mwPutBuffer_new = \<lparr>pb_buf = [], pb_len = 0, pb_ptr = 0, pb_rem = 0\<rparr>"

text \<open>
  \<open>memcpy(b->ptr, data, len); b->ptr += len; b->rem -= len;\<close> after the space
  has been ensured: the common tail of every writer.
\<close>

definition pb_append :: "bytes \<Rightarrow> mwPutBuffer \<Rightarrow> mwPutBuffer" where
  "pb_append bs b =
     (let b = ensure_buffer b (length bs)
      in b\<lparr>pb_buf := mem_write (pb_ptr b) bs (pb_buf b),
           pb_ptr := pb_ptr b + length bs,
           pb_rem := pb_rem b - length bs\<rparr>)"

definition mwPutBuffer_write :: "bytes \<Rightarrow> (mwPutBuffer, unit) state" where
  "mwPutBuffer_write data =
     (if length data = 0 then State_Monad.return ()
      else State_Monad.update (pb_append data))"

subsubsection \<open>Invariant and contents\<close>

definition pb_ok :: "mwPutBuffer \<Rightarrow> bool" where
  "pb_ok b \<longleftrightarrow> length (pb_buf b) = pb_len b \<and> pb_rem b \<le> pb_len b
     \<and> pb_ptr b = BUFFER_USED b \<and> None \<notin> set (take (pb_ptr b) (pb_buf b))"

definition pb_contents :: "mwPutBuffer \<Rightarrow> bytes" where
  "pb_contents b = map the (take (BUFFER_USED b) (pb_buf b))"

lemma pb_ok_new [simp]: "pb_ok mwPutBuffer_new"
  by (simp add: pb_ok_def mwPutBuffer_new_def BUFFER_USED_def)

lemma pb_len_new [simp]: "pb_len mwPutBuffer_new = 0"
  by (simp add: mwPutBuffer_new_def)

lemma pb_contents_new [simp]: "pb_contents mwPutBuffer_new = []"
  by (simp add: pb_contents_def mwPutBuffer_new_def BUFFER_USED_def)

lemma grow_len_fits:
  "0 < len \<Longrightarrow> used \<le> len \<Longrightarrow>
   used + needed \<le> grow_len len used needed \<and> len \<le> grow_len len used needed"
proof (induction len used needed rule: grow_len.induct)
  case (1 len used needed)
  show ?case
  proof (cases "len - used < needed")
    case True
    with 1 have "used + needed \<le> grow_len (2 * len) used needed
        \<and> 2 * len \<le> grow_len (2 * len) used needed"
      by simp
    with True "1.prems" show ?thesis
      by (subst (1 2) grow_len.simps) simp
  next
    case False
    with "1.prems" show ?thesis
      by (subst (1 2) grow_len.simps) simp
  qed
qed

lemma grow_len_bound:
  "0 < len \<Longrightarrow> used \<le> len \<Longrightarrow>
   grow_len len used needed = len \<or> grow_len len used needed < 2 * (used + needed)"
proof (induction len used needed rule: grow_len.induct)
  case (1 len used needed)
  show ?case
  proof (cases "len - used < needed")
    case True
    with 1 have "grow_len (2 * len) used needed = 2 * len
        \<or> grow_len (2 * len) used needed < 2 * (used + needed)"
      by simp
    with True "1.prems" show ?thesis
      by (subst (1 2) grow_len.simps) auto
  next
    case False
    then show ?thesis
      by (subst (1 2) grow_len.simps) simp
  qed
qed

lemma ensure_buffer_spec:
  assumes "pb_ok b"
  shows "pb_ok (ensure_buffer b n)" and "pb_contents (ensure_buffer b n) = pb_contents b"
    and "n \<le> pb_rem (ensure_buffer b n)"
proof -
  let ?len = "if pb_len b = 0 then 1024 else pb_len b"
  let ?used = "BUFFER_USED b"
  from assms have used: "?used \<le> ?len" and ul: "?used \<le> length (pb_buf b)"
    by (auto simp: pb_ok_def BUFFER_USED_def)
  have fits: "?used + n \<le> grow_len ?len ?used n"
    using grow_len_fits [of ?len ?used n] used by simp
  show "pb_ok (ensure_buffer b n)"
    using assms fits ul by (auto simp: ensure_buffer_def pb_ok_def BUFFER_USED_def mem_write_def Let_def)
  show "pb_contents (ensure_buffer b n) = pb_contents b"
    using assms fits ul
    by (auto simp: ensure_buffer_def pb_contents_def BUFFER_USED_def mem_write_def Let_def)
  show "n \<le> pb_rem (ensure_buffer b n)"
    using fits by (auto simp: ensure_buffer_def Let_def)
qed

lemma pb_append_spec:
  assumes "pb_ok b"
  shows "pb_ok (pb_append bs b)" and "pb_contents (pb_append bs b) = pb_contents b @ bs"
proof -
  define c where "c = ensure_buffer b (length bs)"
  have ok: "pb_ok c" and cont: "pb_contents c = pb_contents b" and sp: "length bs \<le> pb_rem c"
    using ensure_buffer_spec [OF assms] by (simp_all add: c_def)
  have le: "pb_ptr c + length bs \<le> length (pb_buf c)"
    using ok sp by (auto simp: pb_ok_def BUFFER_USED_def)
  have used: "BUFFER_USED (pb_append bs b) = pb_ptr c + length bs"
    using ok sp by (auto simp: pb_append_def c_def [symmetric] Let_def BUFFER_USED_def pb_ok_def)
  have tk: "take (pb_ptr c + length bs) (mem_write (pb_ptr c) bs (pb_buf c))
      = take (pb_ptr c) (pb_buf c) @ map Some bs"
    by (rule take_mem_write [OF le])
  show "pb_ok (pb_append bs b)"
    unfolding pb_ok_def used
    using ok sp le tk by (auto simp: pb_append_def c_def [symmetric] Let_def pb_ok_def)
  show "pb_contents (pb_append bs b) = pb_contents b @ bs"
    unfolding pb_contents_def used
    using ok tk cont [symmetric]
    by (simp add: pb_append_def c_def [symmetric] Let_def pb_contents_def pb_ok_def)
qed

subsection \<open>Opaques\<close>

record mwOpaque =
  op_len :: gsize
  op_data :: "bytes option"

text \<open>
  The block behind \<open>data\<close> holds at least \<open>len\<close> bytes; it may hold more (a
  decrypted opaque keeps its padding behind \<open>len\<close>).
\<close>

definition opaque_ok :: "mwOpaque \<Rightarrow> bool" where
  "opaque_ok o' = (case op_data o' of None \<Rightarrow> op_len o' = 0 | Some d \<Rightarrow> op_len o' \<le> length d)"

definition opaque_bytes :: "mwOpaque \<Rightarrow> bytes" where
  "opaque_bytes o' = (case op_data o' of None \<Rightarrow> [] | Some d \<Rightarrow> take (op_len o') d)"

definition opaque_of :: "bytes \<Rightarrow> mwOpaque" where
  "opaque_of bs = \<lparr>op_len = length bs, op_data = (if bs = [] then None else Some bs)\<rparr>"

lemma opaque_ok_of [simp]: "opaque_ok (opaque_of bs)"
  by (simp add: opaque_ok_def opaque_of_def)

lemma opaque_bytes_of [simp]: "opaque_bytes (opaque_of bs) = bs"
  by (simp add: opaque_bytes_def opaque_of_def)

lemma op_len_of [simp]: "op_len (opaque_of bs) = length bs"
  by (simp add: opaque_of_def)

lemma length_opaque_bytes [simp]: "opaque_ok o' \<Longrightarrow> length (opaque_bytes o') = op_len o'"
  by (auto simp: opaque_ok_def opaque_bytes_def split: option.splits)

definition mwOpaque_clear :: "mwOpaque \<Rightarrow> mwOpaque" where
  "mwOpaque_clear o' = o'\<lparr>op_data := None, op_len := 0\<rparr>"

definition mwOpaque_clone :: "mwOpaque option \<Rightarrow> mwOpaque" where
  "mwOpaque_clone from =
     (case from of
        None \<Rightarrow> \<lparr>op_len = 0, op_data = None\<rparr>
      | Some f \<Rightarrow> \<lparr>op_len = op_len f,
                   op_data = (if op_len f \<noteq> 0 then map_option (take (op_len f)) (op_data f) else None)\<rparr>)"

lemma mwOpaque_clone_eq: "opaque_ok f \<Longrightarrow> mwOpaque_clone (Some f) = opaque_of (opaque_bytes f)"
  by (auto simp: mwOpaque_clone_def opaque_of_def opaque_ok_def opaque_bytes_def split: option.splits)

text \<open>
  \<open>mwPutBuffer_finalize\<close> hands the block over; its bytes past \<open>len\<close> are
  whatever \<open>malloc\<close> left there and are not modelled.
\<close>

definition mwPutBuffer_finalize :: "mwPutBuffer \<Rightarrow> mwOpaque" where
  "mwPutBuffer_finalize from =
     \<lparr>op_len = BUFFER_USED from,
      op_data = (if pb_len from = 0 then None else Some (pb_contents from))\<rparr>"

lemma mwPutBuffer_finalize_spec:
  assumes "pb_ok b"
  shows "opaque_ok (mwPutBuffer_finalize b)"
    and "opaque_bytes (mwPutBuffer_finalize b) = pb_contents b"
  using assms
  by (auto simp: opaque_ok_def opaque_bytes_def mwPutBuffer_finalize_def pb_contents_def
      pb_ok_def BUFFER_USED_def)

subsection \<open>Writers of the basic types\<close>

definition MW16_PUT :: "guint16 \<Rightarrow> bytes" where
  "MW16_PUT val = [ucast (drop_bit 8 val AND 255), ucast (val AND 255)]"

definition MW32_PUT :: "guint32 \<Rightarrow> bytes" where
  "MW32_PUT val = [ucast (drop_bit 24 val AND 255), ucast (drop_bit 16 val AND 255),
                   ucast (drop_bit 8 val AND 255), ucast (val AND 255)]"

definition guint16_put :: "guint16 \<Rightarrow> (mwPutBuffer, unit) state" where
  "guint16_put val = State_Monad.update (pb_append (MW16_PUT val))"

definition guint32_put :: "guint32 \<Rightarrow> (mwPutBuffer, unit) state" where
  "guint32_put val = State_Monad.update (pb_append (MW32_PUT val))"

definition gboolean_put :: "bool \<Rightarrow> (mwPutBuffer, unit) state" where
  "gboolean_put val = State_Monad.update (pb_append [of_bool val])"

definition mwString_put :: "cstr \<Rightarrow> (mwPutBuffer, unit) state" where
  "mwString_put val =
     (let len = (case val of None \<Rightarrow> 0 | Some s \<Rightarrow> length s)
      in do {
        guint16_put (of_nat len);
        if len \<noteq> 0 then State_Monad.update (pb_append (the val)) else State_Monad.return ()
      })"

definition mwOpaque_put :: "mwOpaque option \<Rightarrow> (mwPutBuffer, unit) state" where
  "mwOpaque_put ov =
     (case ov of
        None \<Rightarrow> guint32_put 0
      | Some o' \<Rightarrow>
          let len = op_len o'
          in if len \<noteq> 0 \<and> op_data o' = None then State_Monad.return ()
             else do {
               guint32_put (of_nat len);
               if len \<noteq> 0 then State_Monad.update (pb_append (take len (the (op_data o'))))
               else State_Monad.return ()
             })"

subsubsection \<open>What the writers append\<close>

definition writes :: "(mwPutBuffer, unit) state \<Rightarrow> bytes \<Rightarrow> bool" where
  "writes m bs \<longleftrightarrow>
     (\<forall>b. pb_ok b \<longrightarrow> pb_ok (exec_state m b) \<and> pb_contents (exec_state m b) = pb_contents b @ bs)"

lemma writes_okD: "writes m bs \<Longrightarrow> pb_ok b \<Longrightarrow> pb_ok (exec_state m b)"
  by (simp add: writes_def)

lemma writes_contentsD:
  "writes m bs \<Longrightarrow> pb_ok b \<Longrightarrow> pb_contents (exec_state m b) = pb_contents b @ bs"
  by (simp add: writes_def)

lemma writes_return [writer_intros]: "writes (State_Monad.return ()) []"
  by (simp add: writes_def)

lemma writes_append [writer_intros]: "writes (State_Monad.update (pb_append bs)) bs"
  by (simp add: writes_def State_Monad.update_def pb_append_spec)

lemma writes_bind [writer_intros]:
  "writes m as \<Longrightarrow> writes (k ()) bs \<Longrightarrow> writes (State_Monad.bind m k) (as @ bs)"
  by (auto simp: writes_def split: prod.splits)

lemma writes_if [writer_intros]:
  "(c \<Longrightarrow> writes m as) \<Longrightarrow> (\<not> c \<Longrightarrow> writes n bs) \<Longrightarrow>
   writes (if c then m else n) (if c then as else bs)"
  by simp

lemma writes_cong: "writes m as \<Longrightarrow> as = bs \<Longrightarrow> writes m bs"
  by simp

definition string_wire :: "cstr \<Rightarrow> bytes" where
  "string_wire s = (case s of None \<Rightarrow> MW16_PUT 0 | Some bs \<Rightarrow> MW16_PUT (of_nat (length bs)) @ bs)"

definition opaque_wire :: "bytes \<Rightarrow> bytes" where
  "opaque_wire bs = MW32_PUT (of_nat (length bs)) @ bs"

lemma writes_guint16 [writer_intros]: "writes (guint16_put v) (MW16_PUT v)"
  unfolding guint16_put_def by (rule writes_append)

lemma writes_guint32 [writer_intros]: "writes (guint32_put v) (MW32_PUT v)"
  unfolding guint32_put_def by (rule writes_append)

lemma writes_gboolean [writer_intros]: "writes (gboolean_put v) [of_bool v]"
  unfolding gboolean_put_def by (rule writes_append)

lemma writes_write [writer_intros]: "writes (mwPutBuffer_write bs) bs"
  unfolding mwPutBuffer_write_def
  by (rule writes_cong, rule writer_intros) (rule writer_intros | simp)+

lemma writes_string [writer_intros]: "writes (mwString_put s) (string_wire s)"
proof -
  have "writes (mwString_put s) (MW16_PUT (of_nat (case s of None \<Rightarrow> 0 | Some x \<Rightarrow> length x))
      @ (if (case s of None \<Rightarrow> 0 | Some x \<Rightarrow> length x) \<noteq> 0 then the s else []))"
    unfolding mwString_put_def Let_def by (intro writer_intros)
  then show ?thesis
    by (rule writes_cong) (auto simp: string_wire_def split: option.splits)
qed

lemma writes_opaque [writer_intros]:
  assumes "opaque_ok o'"
  shows "writes (mwOpaque_put (Some o')) (opaque_wire (opaque_bytes o'))"
proof -
  have nn: "\<not> (op_len o' \<noteq> 0 \<and> op_data o' = None)"
    using assms by (auto simp: opaque_ok_def)
  have "writes (mwOpaque_put (Some o')) (MW32_PUT (of_nat (op_len o'))
      @ (if op_len o' \<noteq> 0 then take (op_len o') (the (op_data o')) else []))"
    unfolding mwOpaque_put_def option.case Let_def if_not_P [OF nn] by (intro writer_intros)
  moreover have "(if op_len o' \<noteq> 0 then take (op_len o') (the (op_data o')) else []) = opaque_bytes o'"
    using assms by (auto simp: opaque_ok_def opaque_bytes_def split: option.splits)
  ultimately show ?thesis
    using assms by (auto simp: opaque_wire_def)
qed

lemma writes_opaque_NULL [writer_intros]: "writes (mwOpaque_put None) (opaque_wire [])"
  by (simp add: mwOpaque_put_def opaque_wire_def writes_guint32)

subsection \<open>Get buffers\<close>

record mwGetBuffer =
  gb_buf :: bytes
  gb_len :: gsize
  gb_ptr :: nat
  gb_rem :: gsize
  gb_wrap :: bool
  gb_error :: bool

definition mwGetBuffer_new :: "mwOpaque option \<Rightarrow> mwGetBuffer" where
  "mwGetBuffer_new ov =
     (let b = \<lparr>gb_buf = [], gb_len = 0, gb_ptr = 0, gb_rem = 0, gb_wrap = False, gb_error = False\<rparr>
      in case ov of
           None \<Rightarrow> b
         | Some o' \<Rightarrow> if op_len o' \<noteq> 0
                     then b\<lparr>gb_buf := opaque_bytes o', gb_len := op_len o', gb_rem := op_len o'\<rparr>
                     else b)"

definition mwGetBuffer_wrap :: "mwOpaque option \<Rightarrow> mwGetBuffer" where
  "mwGetBuffer_wrap ov =
     (let b = \<lparr>gb_buf = [], gb_len = 0, gb_ptr = 0, gb_rem = 0, gb_wrap = False, gb_error = False\<rparr>;
          b = (case ov of
                 None \<Rightarrow> b
               | Some o' \<Rightarrow> if op_len o' \<noteq> 0
                           then b\<lparr>gb_buf := opaque_bytes o', gb_len := op_len o', gb_rem := op_len o'\<rparr>
                           else b)
      in b\<lparr>gb_wrap := True\<rparr>)"

text \<open>\<open>b->ptr += n; b->rem -= n;\<close>\<close>

definition gb_skip :: "nat \<Rightarrow> mwGetBuffer \<Rightarrow> mwGetBuffer" where
  "gb_skip n b = b\<lparr>gb_ptr := gb_ptr b + n, gb_rem := gb_rem b - n\<rparr>"

text \<open>The bytes \<open>b->ptr[0..n)\<close>, copied out and passed over.\<close>

definition gb_fetch :: "nat \<Rightarrow> (mwGetBuffer, bytes) state" where
  "gb_fetch n = State (\<lambda>b. (take n (drop (gb_ptr b) (gb_buf b)), gb_skip n b))"

definition mwGetBuffer_read :: "gsize \<Rightarrow> (mwGetBuffer, bytes) state" where
  "mwGetBuffer_read len = do {
     b \<leftarrow> State_Monad.get;
     if gb_error b then State_Monad.return []
     else if len = 0 then State_Monad.return []
     else gb_fetch (if gb_rem b < len then gb_rem b else len)
   }"

definition mwGetBuffer_advance :: "gsize \<Rightarrow> (mwGetBuffer, gsize) state" where
  "mwGetBuffer_advance len = do {
     b \<leftarrow> State_Monad.get;
     if gb_error b then State_Monad.return 0
     else if len = 0 then State_Monad.return 0
     else let len = (if gb_rem b < len then gb_rem b else len)
          in do { State_Monad.set (gb_skip len b); State_Monad.return len }
   }"

definition mwGetBuffer_reset :: "mwGetBuffer \<Rightarrow> mwGetBuffer" where
  "mwGetBuffer_reset b = b\<lparr>gb_rem := gb_len b, gb_ptr := 0, gb_error := False\<rparr>"

definition mwGetBuffer_remaining :: "mwGetBuffer \<Rightarrow> gsize" where
  "mwGetBuffer_remaining b = gb_rem b"

definition mwGetBuffer_error :: "(mwGetBuffer, bool) state" where
  "mwGetBuffer_error = do { b \<leftarrow> State_Monad.get; State_Monad.return (gb_error b) }"

definition check_buffer :: "gsize \<Rightarrow> (mwGetBuffer, bool) state" where
  "check_buffer needed = do {
     b \<leftarrow> State_Monad.get;
     State_Monad.set (if gb_error b then b else b\<lparr>gb_error := gb_rem b < needed\<rparr>);
     b \<leftarrow> State_Monad.get;
     State_Monad.return (\<not> gb_error b)
   }"

subsection \<open>Readers of the basic types\<close>

text \<open>
  A reader takes the value its out parameter had before the call and returns the
  one it has afterwards: on an error the C code leaves \<open>*val\<close> alone.
\<close>

definition MW16_GET :: "bytes \<Rightarrow> guint16" where
  "MW16_GET m = push_bit 8 (ucast (m ! 0 AND 255)) OR ucast (m ! 1 AND 255)"

definition MW32_GET :: "bytes \<Rightarrow> guint32" where
  "MW32_GET m = push_bit 24 (ucast (m ! 0 AND 255)) OR push_bit 16 (ucast (m ! 1 AND 255))
                OR push_bit 8 (ucast (m ! 2 AND 255)) OR ucast (m ! 3 AND 255)"

definition guint16_get :: "guint16 \<Rightarrow> (mwGetBuffer, guint16) state" where
  "guint16_get val = do {
     e \<leftarrow> mwGetBuffer_error;
     if e then State_Monad.return val
     else do {
       ok \<leftarrow> check_buffer 2;
       if \<not> ok then State_Monad.return val
       else do { m \<leftarrow> gb_fetch 2; State_Monad.return (MW16_GET m) }
     }
   }"

definition guint32_get :: "guint32 \<Rightarrow> (mwGetBuffer, guint32) state" where
  "guint32_get val = do {
     e \<leftarrow> mwGetBuffer_error;
     if e then State_Monad.return val
     else do {
       ok \<leftarrow> check_buffer 4;
       if \<not> ok then State_Monad.return val
       else do { m \<leftarrow> gb_fetch 4; State_Monad.return (MW32_GET m) }
     }
   }"

definition gboolean_get :: "bool \<Rightarrow> (mwGetBuffer, bool) state" where
  "gboolean_get val = do {
     e \<leftarrow> mwGetBuffer_error;
     if e then State_Monad.return val
     else do {
       ok \<leftarrow> check_buffer 1;
       if \<not> ok then State_Monad.return val
       else do { m \<leftarrow> gb_fetch 1; State_Monad.return (m ! 0 \<noteq> 0) }
     }
   }"

text \<open>The peek functions read from \<open>b->buf\<close> (16 and 32 bit) or \<open>b->ptr\<close> (boolean).\<close>

definition guint16_peek :: "mwGetBuffer \<Rightarrow> guint16" where
  "guint16_peek b = (if 2 \<le> gb_rem b then MW16_GET (gb_buf b) else 0)"

definition guint32_peek :: "mwGetBuffer \<Rightarrow> guint32" where
  "guint32_peek b = (if 4 \<le> gb_rem b then MW32_GET (gb_buf b) else 0)"

definition gboolean_peek :: "mwGetBuffer \<Rightarrow> bool" where
  "gboolean_peek b = (if 1 \<le> gb_rem b then gb_buf b ! gb_ptr b \<noteq> 0 else False)"

definition mw_streq :: "cstr \<Rightarrow> cstr \<Rightarrow> bool" where
  "mw_streq a b =
     (case (a, b) of (Some x, Some y) \<Rightarrow> x = y | (None, None) \<Rightarrow> True | _ \<Rightarrow> False)"

definition mwString_get :: "(mwGetBuffer, cstr) state" where
  "mwString_get = do {
     e \<leftarrow> mwGetBuffer_error;
     if e then State_Monad.return None
     else do {
       len \<leftarrow> guint16_get 0;
       ok \<leftarrow> check_buffer (unat len);
       if \<not> ok then State_Monad.return None
       else if len \<noteq> 0 then do { m \<leftarrow> gb_fetch (unat len); State_Monad.return (Some (c_string m)) }
       else State_Monad.return None
     }
   }"

definition mwOpaque_get :: "(mwGetBuffer, mwOpaque) state" where
  "mwOpaque_get = do {
     e \<leftarrow> mwGetBuffer_error;
     if e then State_Monad.return \<lparr>op_len = 0, op_data = None\<rparr>
     else do {
       tmp \<leftarrow> guint32_get 0;
       ok \<leftarrow> check_buffer (unat tmp);
       if \<not> ok then State_Monad.return \<lparr>op_len = 0, op_data = None\<rparr>
       else if 0 < tmp
         then do { m \<leftarrow> gb_fetch (unat tmp);
                   State_Monad.return \<lparr>op_len = unat tmp, op_data = Some m\<rparr> }
       else State_Monad.return \<lparr>op_len = unat tmp, op_data = None\<rparr>
     }
   }"

subsubsection \<open>Buffers in the middle of their data\<close>

definition gb_ok :: "mwGetBuffer \<Rightarrow> bool" where
  "gb_ok b \<longleftrightarrow> gb_len b = length (gb_buf b) \<and> gb_ptr b + gb_rem b = gb_len b"

text \<open>The error-free buffer that has consumed \<open>pre\<close> and has \<open>post\<close> left.\<close>

definition gbuf :: "bool \<Rightarrow> bytes \<Rightarrow> bytes \<Rightarrow> mwGetBuffer" where
  "gbuf w pre post = \<lparr>gb_buf = pre @ post, gb_len = length pre + length post,
     gb_ptr = length pre, gb_rem = length post, gb_wrap = w, gb_error = False\<rparr>"

lemma gb_ok_gbuf [simp]: "gb_ok (gbuf w pre post)"
  by (simp add: gb_ok_def gbuf_def)

lemma gbuf_sel [simp]:
  "gb_error (gbuf w pre post) = False" "gb_rem (gbuf w pre post) = length post"
  "gb_ptr (gbuf w pre post) = length pre" "gb_buf (gbuf w pre post) = pre @ post"
  "gb_len (gbuf w pre post) = length pre + length post" "gb_wrap (gbuf w pre post) = w"
  by (simp_all add: gbuf_def)

lemma gb_ok_cases:
  assumes "gb_ok b" "\<not> gb_error b"
  obtains w pre post where "b = gbuf w pre post"
proof -
  have "b = gbuf (gb_wrap b) (take (gb_ptr b) (gb_buf b)) (drop (gb_ptr b) (gb_buf b))"
    using assms by (auto simp: gbuf_def gb_ok_def intro!: mwGetBuffer.equality)
  then show ?thesis by (rule that)
qed

lemma gbuf_no_error [simp]: "(gbuf w pre post)\<lparr>gb_error := False\<rparr> = gbuf w pre post"
  by (simp add: gbuf_def)

lemma mwGetBuffer_wrap_gbuf:
  "opaque_ok o' \<Longrightarrow> mwGetBuffer_wrap (Some o') = gbuf True [] (opaque_bytes o')"
  by (auto simp: mwGetBuffer_wrap_def gbuf_def Let_def opaque_ok_def opaque_bytes_def split: option.splits)

lemma mwGetBuffer_new_gbuf:
  "opaque_ok o' \<Longrightarrow> mwGetBuffer_new (Some o') = gbuf False [] (opaque_bytes o')"
  by (auto simp: mwGetBuffer_new_def gbuf_def Let_def opaque_ok_def opaque_bytes_def split: option.splits)

lemma run_error_gbuf [simp]: "run_state mwGetBuffer_error b = (gb_error b, b)"
  by (simp add: mwGetBuffer_error_def)

lemma run_check_gbuf:
  "run_state (check_buffer n) (gbuf w pre post) =
     (n \<le> length post, if n \<le> length post then gbuf w pre post
                       else (gbuf w pre post)\<lparr>gb_error := True\<rparr>)"
  by (auto simp: check_buffer_def)

lemma run_check_error [simp]: "gb_error b \<Longrightarrow> run_state (check_buffer n) b = (False, b)"
  by (simp add: check_buffer_def)

lemma run_fetch_gbuf [simp]:
  "run_state (gb_fetch (length c)) (gbuf w pre (c @ r)) = (c, gbuf w (pre @ c) r)"
  by (simp add: gb_fetch_def gb_skip_def gbuf_def)

subsubsection \<open>Readers depend on what they consume only\<close>

text \<open>
  A reader leaves a failed buffer alone; on a healthy buffer it either fails, with
  the buffer still describing the same block, or consumes a prefix \<open>c\<close> of what is
  left, and then bytes appended to the input change neither the value nor \<open>c\<close>.
\<close>

definition reader :: "(mwGetBuffer, 'a) state \<Rightarrow> bool" where
  "reader m \<longleftrightarrow>
     (\<forall>b. gb_error b \<longrightarrow> exec_state m b = b) \<and>
     (\<forall>w pre p.
        (gb_error (exec_state m (gbuf w pre p)) \<and> gb_ok (exec_state m (gbuf w pre p))
          \<and> gb_buf (exec_state m (gbuf w pre p)) = pre @ p)
        \<or> (\<exists>x c r. p = c @ r \<and>
             (\<forall>q. run_state m (gbuf w pre (p @ q)) = (x, gbuf w (pre @ c) (r @ q)))))"

lemma reader_sticky: "reader m \<Longrightarrow> gb_error b \<Longrightarrow> exec_state m b = b"
  by (simp add: reader_def)

lemma readerE:
  assumes "reader m"
  obtains (fail) "gb_error (exec_state m (gbuf w pre p))" "gb_ok (exec_state m (gbuf w pre p))"
      "gb_buf (exec_state m (gbuf w pre p)) = pre @ p"
  | (eats) x c r where "p = c @ r"
      "\<And>q. run_state m (gbuf w pre (p @ q)) = (x, gbuf w (pre @ c) (r @ q))"
  using assms unfolding reader_def by blast

lemma readerI:
  assumes "\<And>b. gb_error b \<Longrightarrow> exec_state m b = b"
    and "\<And>w pre p. (gb_error (exec_state m (gbuf w pre p)) \<and> gb_ok (exec_state m (gbuf w pre p))
          \<and> gb_buf (exec_state m (gbuf w pre p)) = pre @ p)
        \<or> (\<exists>x c r. p = c @ r \<and>
             (\<forall>q. run_state m (gbuf w pre (p @ q)) = (x, gbuf w (pre @ c) (r @ q))))"
  shows "reader m"
  using assms unfolding reader_def by blast

text \<open>A step that consumes nothing, or fails.\<close>

lemma reader_stillI:
  assumes "\<And>b. gb_error b \<Longrightarrow> exec_state m b = b"
    and "\<And>w pre p. (gb_error (exec_state m (gbuf w pre p)) \<and> gb_ok (exec_state m (gbuf w pre p))
          \<and> gb_buf (exec_state m (gbuf w pre p)) = pre @ p)
        \<or> (\<exists>x. \<forall>q. run_state m (gbuf w pre (p @ q)) = (x, gbuf w pre (p @ q)))"
  shows "reader m"
proof (rule readerI)
  fix w pre p
  show "(gb_error (exec_state m (gbuf w pre p)) \<and> gb_ok (exec_state m (gbuf w pre p))
          \<and> gb_buf (exec_state m (gbuf w pre p)) = pre @ p)
        \<or> (\<exists>x c r. p = c @ r \<and>
             (\<forall>q. run_state m (gbuf w pre (p @ q)) = (x, gbuf w (pre @ c) (r @ q))))"
    using assms(2) [of w pre p] by (metis append_Nil append_Nil2)
qed (fact assms(1))

lemma reader_return [reader_intros]: "reader (State_Monad.return x)"
  by (rule reader_stillI) auto

lemma reader_bind [reader_intros]:
  assumes m: "reader m" and k: "\<And>x. reader (k x)"
  shows "reader (State_Monad.bind m k)"
proof (rule readerI)
  fix b :: mwGetBuffer
  assume "gb_error b"
  with reader_sticky [OF m] reader_sticky [OF k] show "exec_state (State_Monad.bind m k) b = b"
    by (cases "run_state m b") force
next
  fix w pre p
  let ?b = "gbuf w pre p" and ?mk = "State_Monad.bind m k"
  show "(gb_error (exec_state ?mk ?b) \<and> gb_ok (exec_state ?mk ?b) \<and> gb_buf (exec_state ?mk ?b) = pre @ p)
    \<or> (\<exists>x c r. p = c @ r \<and>
         (\<forall>q. run_state ?mk (gbuf w pre (p @ q)) = (x, gbuf w (pre @ c) (r @ q))))"
    using m
  proof (cases rule: readerE [where w = w and pre = pre and p = p])
    case fail
    with reader_sticky [OF k] have "exec_state ?mk ?b = exec_state m ?b"
      by (cases "run_state m ?b") force
    with fail show ?thesis by simp
  next
    case (eats x c r)
    have step: "run_state ?mk (gbuf w pre (p @ q)) = run_state (k x) (gbuf w (pre @ c) (r @ q))" for q
      by (simp add: eats(2))
    have step0: "run_state ?mk ?b = run_state (k x) (gbuf w (pre @ c) r)"
      using step [of "[]"] by simp
    show ?thesis
      using k [of x]
    proof (cases rule: readerE [where w = w and pre = "pre @ c" and p = r])
      case fail
      then show ?thesis
        unfolding step0 using \<open>p = c @ r\<close> by simp
    next
      case (eats y c' r')
      have "p = (c @ c') @ r'"
        using \<open>p = c @ r\<close> eats(1) by simp
      moreover have "run_state ?mk (gbuf w pre (p @ q)) = (y, gbuf w (pre @ c @ c') (r' @ q))" for q
        unfolding step by (simp add: eats(2))
      ultimately show ?thesis by blast
    qed
  qed
qed

lemma reader_if [reader_intros]:
  "(c \<Longrightarrow> reader m) \<Longrightarrow> (\<not> c \<Longrightarrow> reader n) \<Longrightarrow> reader (if c then m else n)"
  by simp

lemma reader_error [reader_intros]: "reader mwGetBuffer_error"
  by (rule reader_stillI) auto

text \<open>The two-step idiom of all basic readers: check for \<open>n\<close> bytes, then take them.\<close>

lemma reader_checked_fetch:
  "reader (do { ok \<leftarrow> check_buffer n;
                if \<not> ok then State_Monad.return v
                else do { m \<leftarrow> gb_fetch n; State_Monad.return (f m) } })"
  (is "reader ?m")
proof (rule readerI)
  fix b :: mwGetBuffer
  assume "gb_error b"
  then show "exec_state ?m b = b" by simp
next
  fix w pre and p :: bytes
  show "(gb_error (exec_state ?m (gbuf w pre p)) \<and> gb_ok (exec_state ?m (gbuf w pre p))
      \<and> gb_buf (exec_state ?m (gbuf w pre p)) = pre @ p)
    \<or> (\<exists>x c r. p = c @ r \<and> (\<forall>q. run_state ?m (gbuf w pre (p @ q)) = (x, gbuf w (pre @ c) (r @ q))))"
  proof (cases "n \<le> length p")
    case True
    define c r where "c = take n p" and "r = drop n p"
    with True have p: "p = c @ r" and n: "n = length c" by auto
    have "run_state ?m (gbuf w pre (p @ q)) = (f c, gbuf w (pre @ c) (r @ q))" for q
      by (simp add: p n run_check_gbuf)
    with p show ?thesis by blast
  next
    case False
    then show ?thesis by (simp add: run_check_gbuf gb_ok_def)
  qed
qed

lemma reader_check [reader_intros]: "reader (check_buffer n)"
  by (rule reader_stillI) (auto simp: run_check_gbuf gb_ok_def)

lemma reader_guint16 [reader_intros]: "reader (guint16_get v)"
  unfolding guint16_get_def by (intro reader_intros reader_checked_fetch)

lemma reader_guint32 [reader_intros]: "reader (guint32_get v)"
  unfolding guint32_get_def by (intro reader_intros reader_checked_fetch)

lemma reader_gboolean [reader_intros]: "reader (gboolean_get v)"
  unfolding gboolean_get_def by (intro reader_intros reader_checked_fetch)

lemma mwString_get_alt:
  "mwString_get = do {
     e \<leftarrow> mwGetBuffer_error;
     if e then State_Monad.return None
     else do {
       len \<leftarrow> guint16_get 0;
       ok \<leftarrow> check_buffer (unat len);
       if \<not> ok then State_Monad.return None
       else do { m \<leftarrow> gb_fetch (unat len);
                 State_Monad.return (if len \<noteq> 0 then Some (c_string m) else None) }
     }
   }"
  unfolding mwString_get_def
  by (intro state_ext) (auto simp: gb_fetch_def gb_skip_def split: prod.splits)

lemma mwOpaque_get_alt:
  "mwOpaque_get = do {
     e \<leftarrow> mwGetBuffer_error;
     if e then State_Monad.return (opaque_of [])
     else do {
       tmp \<leftarrow> guint32_get 0;
       ok \<leftarrow> check_buffer (unat tmp);
       if \<not> ok then State_Monad.return (opaque_of [])
       else do { m \<leftarrow> gb_fetch (unat tmp);
                 State_Monad.return
                   \<lparr>op_len = unat tmp, op_data = (if 0 < tmp then Some m else None)\<rparr> }
     }
   }"
  unfolding mwOpaque_get_def
  by (intro state_ext)
    (auto simp: gb_fetch_def gb_skip_def opaque_of_def word_gt_0 split: prod.splits)

lemma reader_string [reader_intros]: "reader mwString_get"
  unfolding mwString_get_alt by (intro reader_intros reader_checked_fetch)

lemma reader_opaque [reader_intros]: "reader mwOpaque_get"
  unfolding mwOpaque_get_alt by (intro reader_intros reader_checked_fetch)

subsubsection \<open>Reading back what was written\<close>

lemma MW16_GET_PUT [simp]: "MW16_GET (MW16_PUT v) = v"
  by (simp add: MW16_GET_def MW16_PUT_def word16_join_bytes)

lemma MW32_GET_PUT [simp]: "MW32_GET (MW32_PUT v) = v"
  by (simp add: MW32_GET_def MW32_PUT_def word32_join_bytes numeral_2_eq_2 numeral_3_eq_3)

lemma length_MW16_PUT [simp]: "length (MW16_PUT v) = 2"
  by (simp add: MW16_PUT_def)

lemma length_MW32_PUT [simp]: "length (MW32_PUT v) = 4"
  by (simp add: MW32_PUT_def)

lemma MW16_PUT_nonempty [simp]: "MW16_PUT v \<noteq> []"
  by (simp add: MW16_PUT_def)

lemma MW32_PUT_nonempty [simp]: "MW32_PUT v \<noteq> []"
  by (simp add: MW32_PUT_def)

lemma run_checked_fetch:
  "run_state (check_buffer (length c)) (gbuf w pre (c @ r)) = (True, gbuf w pre (c @ r))"
  by (simp add: run_check_gbuf)

lemma guint16_get_wire [reads_simps]:
  "run_state (guint16_get v0) (gbuf w pre (MW16_PUT v @ post)) = (v, gbuf w (pre @ MW16_PUT v) post)"
  using run_checked_fetch [of "MW16_PUT v" w pre post] run_fetch_gbuf [of "MW16_PUT v" w pre post]
  by (simp add: guint16_get_def)

lemma guint32_get_wire [reads_simps]:
  "run_state (guint32_get v0) (gbuf w pre (MW32_PUT v @ post)) = (v, gbuf w (pre @ MW32_PUT v) post)"
  using run_checked_fetch [of "MW32_PUT v" w pre post] run_fetch_gbuf [of "MW32_PUT v" w pre post]
  by (simp add: guint32_get_def)

lemma gboolean_get_wire [reads_simps]:
  "run_state (gboolean_get v0) (gbuf w pre (of_bool v # post)) = (v, gbuf w (pre @ [of_bool v]) post)"
  using run_checked_fetch [of "[of_bool v]" w pre post] run_fetch_gbuf [of "[of_bool v]" w pre post]
  by (simp add: gboolean_get_def)

lemma gboolean_get_wire_lit [reads_simps]:
  "run_state (gboolean_get v0) (gbuf w pre (1 # post)) = (True, gbuf w (pre @ [1]) post)"
  "run_state (gboolean_get v0) (gbuf w pre (0 # post)) = (False, gbuf w (pre @ [0]) post)"
  using gboolean_get_wire [of v0 w pre True post] gboolean_get_wire [of v0 w pre False post]
  by simp_all

definition string_valid :: "cstr \<Rightarrow> bool" where
  "string_valid s \<longleftrightarrow> cstr_ok s \<and> (case s of None \<Rightarrow> True | Some bs \<Rightarrow> length bs < 2 ^ 16)"

definition string_norm :: "cstr \<Rightarrow> cstr" where
  "string_norm s = (if s = Some [] then None else s)"

definition opaque_valid :: "mwOpaque \<Rightarrow> bool" where
  "opaque_valid o' \<longleftrightarrow> opaque_ok o' \<and> op_len o' < 2 ^ 32"

definition opaque_norm :: "mwOpaque \<Rightarrow> mwOpaque" where
  "opaque_norm o' = opaque_of (opaque_bytes o')"

lemma unat_of_nat16: "n < 65536 \<Longrightarrow> unat (of_nat n :: guint16) = n"
  by (simp add: unat_of_nat)

lemma unat_of_nat32: "n < 4294967296 \<Longrightarrow> unat (of_nat n :: guint32) = n"
  by (simp add: unat_of_nat)

lemma mwString_get_wire [reads_simps]:
  assumes "string_valid s"
  shows "run_state mwString_get (gbuf w pre (string_wire s @ post))
    = (string_norm s, gbuf w (pre @ string_wire s) post)"
proof -
  define bs where "bs = (case s of None \<Rightarrow> [] | Some x \<Rightarrow> x)"
  have wire: "string_wire s = MW16_PUT (of_nat (length bs)) @ bs"
    by (simp add: string_wire_def bs_def split: option.split)
  have len: "unat (of_nat (length bs) :: guint16) = length bs"
    using assms by (intro unat_of_nat16) (auto simp: bs_def string_valid_def split: option.splits)
  have nz: "(of_nat (length bs) :: guint16) \<noteq> 0 \<longleftrightarrow> bs \<noteq> []"
    by (simp only: unat_eq_0 [symmetric] len length_0_conv)
  have norm: "string_norm s = (if bs = [] then None else Some (c_string bs))"
    using assms by (auto simp: string_norm_def bs_def string_valid_def split: option.splits)
  show ?thesis
    by (simp add: mwString_get_alt wire guint16_get_wire len run_checked_fetch nz norm)
qed

lemma mwOpaque_get_wire:
  assumes "length bs < 2 ^ 32"
  shows "run_state mwOpaque_get (gbuf w pre (opaque_wire bs @ post))
    = (opaque_of bs, gbuf w (pre @ opaque_wire bs) post)"
proof -
  have len: "unat (of_nat (length bs) :: guint32) = length bs"
    using assms by (intro unat_of_nat32) simp
  have nz: "(0 < (of_nat (length bs) :: guint32)) \<longleftrightarrow> bs \<noteq> []"
    by (simp only: word_neq_0_conv [symmetric] unat_eq_0 [symmetric] len length_0_conv)
  show ?thesis
    by (simp add: mwOpaque_get_alt opaque_wire_def guint32_get_wire len run_checked_fetch nz opaque_of_def)
qed

lemma mwOpaque_get_wire_valid [reads_simps]:
  "opaque_valid o' \<Longrightarrow> run_state mwOpaque_get (gbuf w pre (opaque_wire (opaque_bytes o') @ post))
    = (opaque_norm o', gbuf w (pre @ opaque_wire (opaque_bytes o')) post)"
  by (simp add: mwOpaque_get_wire opaque_valid_def opaque_norm_def)

subsubsection \<open>Safety of every reader\<close>

text \<open>
  Whatever the bytes are, a reader keeps the cursor inside the block it was given
  and never replaces the block.
\<close>

lemma reader_safe:
  assumes "reader m" and "gb_ok b"
  shows "gb_ok (exec_state m b)" and "gb_buf (exec_state m b) = gb_buf b"
proof -
  have "gb_ok (exec_state m b) \<and> gb_buf (exec_state m b) = gb_buf b"
  proof (cases "gb_error b")
    case True
    with assms show ?thesis by (simp add: reader_sticky)
  next
    case False
    with assms obtain w pre p where b: "b = gbuf w pre p"
      by (auto elim: gb_ok_cases)
    show ?thesis
      using assms(1)
    proof (cases rule: readerE [where w = w and pre = pre and p = p])
      case (eats x c r)
      from eats(2) [of "[]"] eats(1) show ?thesis by (simp add: b)
    qed (simp_all add: b)
  qed
  then show "gb_ok (exec_state m b)" and "gb_buf (exec_state m b) = gb_buf b" by auto
qed

subsubsection \<open>Uninitialised locals\<close>

text \<open>
  Two readers agree when they differ on input only that the first one rejects.
  Readers that fill an uninitialised local agree for all values it may have held.
\<close>

definition agrees :: "(mwGetBuffer, 'a) state \<Rightarrow> (mwGetBuffer, 'a) state \<Rightarrow> bool" where
  "agrees m n \<longleftrightarrow> (\<forall>b. \<not> gb_error (exec_state m b) \<longrightarrow> run_state m b = run_state n b)"

lemma agreesD: "agrees m n \<Longrightarrow> \<not> gb_error (exec_state m b) \<Longrightarrow> run_state m b = run_state n b"
  by (simp add: agrees_def)

lemma agrees_refl [agree_intros]: "agrees m m"
  by (simp add: agrees_def)

lemma agrees_bind [agree_intros]:
  assumes m: "agrees m m'" and k: "\<And>x. agrees (k x) (k' x)" and r: "\<And>x. reader (k x)"
  shows "agrees (State_Monad.bind m k) (State_Monad.bind m' k')"
  unfolding agrees_def
proof (intro allI impI)
  fix b
  assume ok: "\<not> gb_error (exec_state (State_Monad.bind m k) b)"
  obtain x b' where mb: "run_state m b = (x, b')" by fastforce
  have "\<not> gb_error b'"
    using ok reader_sticky [OF r, of b'] by (auto simp: mb)
  with m mb have "run_state m' b = (x, b')"
    by (simp add: agrees_def)
  with ok k [of x] show "run_state (State_Monad.bind m k) b = run_state (State_Monad.bind m' k') b"
    by (simp add: agrees_def mb)
qed

lemma agrees_if [agree_intros]:
  "(c \<Longrightarrow> agrees m m') \<Longrightarrow> (\<not> c \<Longrightarrow> agrees n n') \<Longrightarrow>
   agrees (if c then m else n) (if c then m' else n')"
  by simp

text \<open>The guard at the head of most readers: its first branch is taken on a failed buffer only.\<close>

lemma agrees_guard [agree_intros]:
  assumes "reader m" and "agrees n n'"
  shows "agrees (do { e \<leftarrow> mwGetBuffer_error; if e then m else n })
                (do { e \<leftarrow> mwGetBuffer_error; if e then m' else n' })"
  using assms(2) reader_sticky [OF assms(1)] by (auto simp: agrees_def)

lemma agrees_basic [agree_intros]:
  "agrees (guint16_get v16) (guint16_get v16')"
  "agrees (guint32_get v32) (guint32_get v32')"
  "agrees (gboolean_get v) (gboolean_get v')"
  by (auto simp: agrees_def guint16_get_def guint32_get_def gboolean_get_def check_buffer_def)

subsection \<open>The interface of a put/get pair\<close>

text \<open>
  \<open>valid\<close> is what the wire format can carry, \<open>zero\<close> the freshly allocated
  (\<open>g_new0\<close>) value the reader fills, and \<open>norm\<close> what the reader makes of a value:
  an empty string comes back as NULL, a field that is not sent as zero. Some
  writers put a \<open>tail\<close> behind the part that their reader takes.
\<close>

locale tail_codec =
  fixes put :: "'a \<Rightarrow> (mwPutBuffer, unit) state"
    and get :: "'b \<Rightarrow> (mwGetBuffer, 'b) state"
    and wire :: "'a \<Rightarrow> bytes"
    and tail :: "'a \<Rightarrow> bytes"
    and valid :: "'a \<Rightarrow> bool"
    and zero :: 'b
    and norm :: "'a \<Rightarrow> 'b"
  assumes put_writes: "valid x \<Longrightarrow> writes (put x) (wire x @ tail x)"
    and get_reader: "reader (get y)"
    and get_wire: "valid x \<Longrightarrow> run_state (get zero) (gbuf w pre (wire x @ post))
          = (norm x, gbuf w (pre @ wire x) post)"
begin

lemma put_contents:
  "valid x \<Longrightarrow>
   opaque_bytes (mwPutBuffer_finalize (exec_state (put x) mwPutBuffer_new)) = wire x @ tail x"
  using put_writes [of x]
  by (simp add: mwPutBuffer_finalize_spec(2) writes_okD writes_contentsD)

lemma put_opaque_ok:
  "valid x \<Longrightarrow> opaque_ok (mwPutBuffer_finalize (exec_state (put x) mwPutBuffer_new))"
  using put_writes [of x] by (simp add: mwPutBuffer_finalize_spec(1) writes_okD)

lemma round_trip:
  assumes "valid x"
  shows "run_state (get zero)
      (mwGetBuffer_wrap (Some (mwPutBuffer_finalize (exec_state (put x) mwPutBuffer_new))))
    = (norm x, gbuf True (wire x) (tail x))"
  using get_wire [OF assms, of True "[]" "tail x"] assms
  by (simp add: mwGetBuffer_wrap_gbuf put_contents put_opaque_ok)

lemma truncated:
  assumes "valid x" and "n < length (wire x)"
  shows "gb_error (exec_state (get zero) (gbuf w pre (take n (wire x))))"
  using get_reader [of zero]
proof (cases rule: readerE [where w = w and pre = pre and p = "take n (wire x)"])
  case fail
  then show ?thesis by simp
next
  case (eats y c r)
  have "run_state (get zero) (gbuf w pre (wire x)) = (y, gbuf w (pre @ c) (r @ drop n (wire x)))"
    using eats(2) [of "drop n (wire x)"] by simp
  moreover have "run_state (get zero) (gbuf w pre (wire x)) = (norm x, gbuf w (pre @ wire x) [])"
    using get_wire [OF assms(1), of w pre "[]"] by simp
  ultimately have "gbuf w (pre @ c) (r @ drop n (wire x)) = gbuf w (pre @ wire x) []"
    by simp
  then have "length (r @ drop n (wire x)) = 0"
    by (metis gbuf_sel(2) list.size(3))
  with assms(2) show ?thesis by simp
qed

end

text \<open>A pair that reads back all it writes, into a value of the same type.\<close>

locale codec =
  fixes put :: "'a \<Rightarrow> (mwPutBuffer, unit) state"
    and get :: "'a \<Rightarrow> (mwGetBuffer, 'a) state"
    and wire :: "'a \<Rightarrow> bytes"
    and valid :: "'a \<Rightarrow> bool"
    and zero :: 'a
    and norm :: "'a \<Rightarrow> 'a"
  assumes put_writes_all: "valid x \<Longrightarrow> writes (put x) (wire x)"
    and get_is_reader: "reader (get y)"
    and get_reads: "valid x \<Longrightarrow> run_state (get zero) (gbuf w pre (wire x @ post))
          = (norm x, gbuf w (pre @ wire x) post)"

sublocale codec \<subseteq> tail_codec put get wire "\<lambda>_. []" valid zero norm
  by unfold_locales (simp_all add: put_writes_all get_is_reader get_reads)

interpretation guint16: codec guint16_put guint16_get MW16_PUT "\<lambda>_. True" 0 "\<lambda>v. v"
  by unfold_locales (simp_all add: writer_intros reader_intros reads_simps)

interpretation guint32: codec guint32_put guint32_get MW32_PUT "\<lambda>_. True" 0 "\<lambda>v. v"
  by unfold_locales (simp_all add: writer_intros reader_intros reads_simps)

interpretation gboolean: codec gboolean_put gboolean_get "\<lambda>v. [of_bool v]" "\<lambda>_. True" False "\<lambda>v. v"
  by unfold_locales (simp_all add: writer_intros reader_intros reads_simps)

interpretation mwString: codec mwString_put "\<lambda>_. mwString_get" string_wire string_valid None string_norm
  by unfold_locales (simp_all add: writer_intros reader_intros reads_simps)

interpretation mwOpaque: codec "\<lambda>o'. mwOpaque_put (Some o')" "\<lambda>_. mwOpaque_get"
  "\<lambda>o'. opaque_wire (opaque_bytes o')" opaque_valid "opaque_of []" opaque_norm
  by unfold_locales
    (simp_all add: writer_intros reader_intros reads_simps opaque_valid_def)

subsection \<open>Properties\<close>

lemma grow_len_max:
  assumes "0 < len" and "used \<le> len"
  shows "grow_len len used n \<le> max len (2 * (used + n))"
  using grow_len_bound [OF assms, of n] by auto

lemma ensure_buffer_len:
  assumes "pb_ok b"
  shows "pb_len (ensure_buffer b n) \<le> Max {1024, pb_len b, 2 * (BUFFER_USED b + n)}"
proof -
  have "BUFFER_USED b \<le> pb_len b"
    by (simp add: BUFFER_USED_def)
  then show ?thesis
    using grow_len_max [of "if pb_len b = 0 then 1024 else pb_len b" "BUFFER_USED b" n]
    by (auto simp: ensure_buffer_def Let_def)
qed

lemma BUFFER_USED_contents: "pb_ok b \<Longrightarrow> BUFFER_USED b = length (pb_contents b)"
  by (simp add: pb_ok_def pb_contents_def BUFFER_USED_def)

text \<open>
  C39: writing appends. From a consistent buffer, \<open>mwPutBuffer_write\<close> reaches a
  consistent buffer whose contents are the old contents followed by exactly the
  data; no byte that \<open>malloc\<close> left uninitialised is ever part of the contents, and
  the capacity stays below twice what is needed (or at the initial 1024).
\<close>

theorem mwPutBuffer_write_appends:
  assumes "pb_ok b"
  shows "pb_ok (exec_state (mwPutBuffer_write data) b)
    \<and> pb_contents (exec_state (mwPutBuffer_write data) b) = pb_contents b @ data
    \<and> pb_len (exec_state (mwPutBuffer_write data) b)
        \<le> Max {1024, pb_len b, 2 * (length (pb_contents b) + length data)}"
proof -
  have "pb_len (exec_state (mwPutBuffer_write data) b)
        \<le> Max {1024, pb_len b, 2 * (BUFFER_USED b + length data)}"
    using ensure_buffer_len [OF assms, of "length data"]
    by (auto simp: mwPutBuffer_write_def pb_append_def State_Monad.update_def Let_def)
  with assms writes_write [of data] show ?thesis
    by (simp add: writes_def BUFFER_USED_contents)
qed

theorem mwPutBuffer_write_appends_witness:
  "pb_ok mwPutBuffer_new \<and> pb_ok (exec_state (mwPutBuffer_write (replicate 3000 7)) mwPutBuffer_new)
   \<and> pb_contents (exec_state (mwPutBuffer_write (replicate 3000 7)) mwPutBuffer_new) = [] @ replicate 3000 7
   \<and> pb_len (exec_state (mwPutBuffer_write (replicate 3000 7)) mwPutBuffer_new) \<le> Max {1024, 0, 6000}"
  using mwPutBuffer_write_appends [of mwPutBuffer_new "replicate 3000 7"] by simp

text \<open>
  Strings. Every string that fits the 16 bit length field (and, being a C
  string, has no NUL inside) is read back as it was, the empty one as NULL, and
  the reader stops exactly behind it.
\<close>

theorem mwString_round_trip:
  assumes "string_valid s"
  shows "run_state mwString_get (mwGetBuffer_wrap (Some (mwPutBuffer_finalize
      (exec_state (do { mwString_put s; mwPutBuffer_write rest }) mwPutBuffer_new))))
    = (string_norm s, gbuf True (string_wire s) rest)"
proof -
  let ?b = "exec_state (do { mwString_put s; mwPutBuffer_write rest }) mwPutBuffer_new"
  have w: "writes (do { mwString_put s; mwPutBuffer_write rest }) (string_wire s @ rest)"
    by (intro writer_intros)
  then have "opaque_ok (mwPutBuffer_finalize ?b)"
    and "opaque_bytes (mwPutBuffer_finalize ?b) = string_wire s @ rest"
    using mwPutBuffer_finalize_spec [of ?b] writes_okD [OF w, of mwPutBuffer_new]
      writes_contentsD [OF w, of mwPutBuffer_new] by simp_all
  with assms show ?thesis
    using mwString_get_wire [of s True "[]" rest] by (simp add: mwGetBuffer_wrap_gbuf)
qed

theorem mwString_round_trip_witness:
  "string_valid (Some [104, 105]) \<and> run_state mwString_get (mwGetBuffer_wrap (Some (mwPutBuffer_finalize
      (exec_state (do { mwString_put (Some [104, 105]); mwPutBuffer_write [0, 1] }) mwPutBuffer_new))))
    = (Some [104, 105], gbuf True (string_wire (Some [104, 105])) [0, 1])"
  using mwString_round_trip [of "Some [104, 105]" "[0, 1]"]
  by (simp add: string_valid_def string_norm_def)

text \<open>
  C40: the length of a string is cut to 16 bits by \<open>mwString_put\<close> while all of its
  bytes are written: after a string of 65536 bytes the reader sees NULL and takes
  the string's own bytes for the next fields.
\<close>

theorem mwString_put_overlong:
  assumes "length s = 65536"
  shows "run_state mwString_get (mwGetBuffer_wrap (Some (mwPutBuffer_finalize
      (exec_state (mwString_put (Some s)) mwPutBuffer_new))))
    = (None, gbuf True (MW16_PUT 0) s)"
proof -
  let ?b = "exec_state (mwString_put (Some s)) mwPutBuffer_new"
  have zero: "(of_nat (length s) :: guint16) = 0"
    using assms by simp
  have wire: "string_wire (Some s) = string_wire None @ s"
    by (simp add: string_wire_def zero)
  have "pb_ok ?b" and "pb_contents ?b = string_wire (Some s)"
    using writes_string [of "Some s"] by (simp_all add: writes_def)
  then have "opaque_ok (mwPutBuffer_finalize ?b)"
    and "opaque_bytes (mwPutBuffer_finalize ?b) = string_wire None @ s"
    using mwPutBuffer_finalize_spec [of ?b] by (simp_all add: wire)
  then show ?thesis
    using mwString_get_wire [of None True "[]" s]
    by (simp add: mwGetBuffer_wrap_gbuf string_valid_def string_norm_def string_wire_def)
qed

theorem mwString_put_overlong_witness:
  "length (replicate 65536 (65 :: guchar)) = 65536
   \<and> run_state mwString_get (mwGetBuffer_wrap (Some (mwPutBuffer_finalize
      (exec_state (mwString_put (Some (replicate 65536 65))) mwPutBuffer_new))))
    = (None, gbuf True (MW16_PUT 0) (replicate 65536 65))"
  using mwString_put_overlong [of "replicate 65536 65"] by (simp only: length_replicate)

end
