(* ===== verification/RC2.thy ===== *)
theory RC2
  imports Buffers
begin

text \<open>
  The block cipher of \<^verbatim>\<open>src/src/cipher.c\<close>: key expansion, the encryption and decryption of
  a block of eight bytes in C \<open>int\<close> arithmetic, and the chained encryption of an opaque
  with its padding. The block functions are refined to the sixteen bit words of
  RFC 2268; from there it follows that decryption inverts encryption and that two
  ends that start with the same key and initialisation vector stay in step.

  A C \<open>int\<close> is a \<open>32 word\<close>, its \<open>>>\<close> an arithmetic shift; additions are taken to wrap.
\<close>

type_synonym gint = "32 word"

definition PT :: bytes where
  "PT = [
    0xD9, 0x78, 0xF9, 0xC4, 0x19, 0xDD, 0xB5, 0xED,
    0x28, 0xE9, 0xFD, 0x79, 0x4A, 0xA0, 0xD8, 0x9D,
    0xC6, 0x7E, 0x37, 0x83, 0x2B, 0x76, 0x53, 0x8E,
    0x62, 0x4C, 0x64, 0x88, 0x44, 0x8B, 0xFB, 0xA2,
    0x17, 0x9A, 0x59, 0xF5, 0x87, 0xB3, 0x4F, 0x13,
    0x61, 0x45, 0x6D, 0x8D, 0x09, 0x81, 0x7D, 0x32,
    0xBD, 0x8F, 0x40, 0xEB, 0x86, 0xB7, 0x7B, 0x0B,
    0xF0, 0x95, 0x21, 0x22, 0x5C, 0x6B, 0x4E, 0x82,
    0x54, 0xD6, 0x65, 0x93, 0xCE, 0x60, 0xB2, 0x1C,
    0x73, 0x56, 0xC0, 0x14, 0xA7, 0x8C, 0xF1, 0xDC,
    0x12, 0x75, 0xCA, 0x1F, 0x3B, 0xBE, 0xE4, 0xD1,
    0x42, 0x3D, 0xD4, 0x30, 0xA3, 0x3C, 0xB6, 0x26,
    0x6F, 0xBF, 0x0E, 0xDA, 0x46, 0x69, 0x07, 0x57,
    0x27, 0xF2, 0x1D, 0x9B, 0xBC, 0x94, 0x43, 0x03,
    0xF8, 0x11, 0xC7, 0xF6, 0x90, 0xEF, 0x3E, 0xE7,
    0x06, 0xC3, 0xD5, 0x2F, 0xC8, 0x66, 0x1E, 0xD7,
    0x08, 0xE8, 0xEA, 0xDE, 0x80, 0x52, 0xEE, 0xF7,
    0x84, 0xAA, 0x72, 0xAC, 0x35, 0x4D, 0x6A, 0x2A,
    0x96, 0x1A, 0xD2, 0x71, 0x5A, 0x15, 0x49, 0x74,
    0x4B, 0x9F, 0xD0, 0x5E, 0x04, 0x18, 0xA4, 0xEC,
    0xC2, 0xE0, 0x41, 0x6E, 0x0F, 0x51, 0xCB, 0xCC,
    0x24, 0x91, 0xAF, 0x50, 0xA1, 0xF4, 0x70, 0x39,
    0x99, 0x7C, 0x3A, 0x85, 0x23, 0xB8, 0xB4, 0x7A,
    0xFC, 0x02, 0x36, 0x5B, 0x25, 0x55, 0x97, 0x31,
    0x2D, 0x5D, 0xFA, 0x98, 0xE3, 0x8A, 0x92, 0xAE,
    0x05, 0xDF, 0x29, 0x10, 0x67, 0x6C, 0xBA, 0xC9,
    0xD3, 0x00, 0xE6, 0xCF, 0xE1, 0x9E, 0xA8, 0x2C,
    0x63, 0x16, 0x01, 0x3F, 0x58, 0xE2, 0x89, 0xA9,
    0x0D, 0x38, 0x34, 0x1B, 0xAB, 0x33, 0xFF, 0xB0,
    0xBB, 0x48, 0x0C, 0x5F, 0xB9, 0xB1, 0xCD, 0x2E,
    0xC5, 0xF3, 0xDB, 0x47, 0xE5, 0xA5, 0x9C, 0x77,
    0x0A, 0xA6, 0x20, 0x68, 0xFE, 0x7F, 0xC1, 0xAD]"

definition mwIV_init :: bytes where
  "mwIV_init = [0x01, 0x23, 0x45, 0x67, 0x89, 0xab, 0xcd, 0xef]"

subsection \<open>Key expansion\<close>

text \<open>\<open>for(i = 0; keylen < 128; i++) \<dots>\<close>: \<open>tmp\<close> holds the \<open>keylen\<close> bytes that are set.\<close>

function key_extend :: "bytes \<Rightarrow> nat \<Rightarrow> bytes" where
  "key_extend tmp i =
     (if length tmp < 128
      then key_extend
        (tmp @ [PT ! unat ((ucast (tmp ! (length tmp - 1)) + ucast (tmp ! i) :: gint) AND 0xff)]) (i + 1)
      else tmp)"
  by pat_completeness auto
termination
  by (relation "measure (\<lambda>(tmp, i). 128 - length tmp)") auto

declare key_extend.simps [simp del]

definition key_words :: "bytes \<Rightarrow> gint list" where
  "key_words tmp =
     map (\<lambda>i. (ucast (tmp ! (2 * i)) AND 0xff) OR push_bit 8 (ucast (tmp ! (2 * i + 1)))) [0..<64]"

text \<open>
  \<open>None\<close> is a read behind the end of \<open>key\<close>. An empty or NULL key leaves \<open>ekey\<close> alone.
\<close>

definition mwKeyExpand :: "gint list \<Rightarrow> bytes option \<Rightarrow> gsize \<Rightarrow> gint list option" where
  "mwKeyExpand ekey key keylen =
     (if \<not> 0 < keylen then Some ekey
      else case key of
        None \<Rightarrow> Some ekey
      | Some k \<Rightarrow>
          let keylen = (if 128 < keylen then 128 else keylen)
          in if length k < keylen then None
             else let tmp = key_extend (take keylen k) 0;
                      tmp = tmp[0 := PT ! unat (tmp ! 0 AND 0xff)]
                  in Some (key_words tmp))"

subsection \<open>Blocks\<close>

type_synonym rc2_state = "gint \<times> gint \<times> gint \<times> gint"

definition block_load :: "bytes \<Rightarrow> rc2_state" where
  "block_load out =
     (push_bit 8 (ucast (out ! 7)) OR (ucast (out ! 6) AND 0xff),
      push_bit 8 (ucast (out ! 5)) OR (ucast (out ! 4) AND 0xff),
      push_bit 8 (ucast (out ! 3)) OR (ucast (out ! 2) AND 0xff),
      push_bit 8 (ucast (out ! 1)) OR (ucast (out ! 0) AND 0xff))"

definition block_store :: "rc2_state \<Rightarrow> bytes" where
  "block_store s = (case s of (a, b, c, d) \<Rightarrow>
     [ucast (d AND 0xff), ucast (signed_drop_bit 8 d AND 0xff),
      ucast (c AND 0xff), ucast (signed_drop_bit 8 c AND 0xff),
      ucast (b AND 0xff), ucast (signed_drop_bit 8 b AND 0xff),
      ucast (a AND 0xff), ucast (signed_drop_bit 8 a AND 0xff)])"

definition encrypt_round :: "gint list \<Rightarrow> nat \<Rightarrow> rc2_state \<Rightarrow> rc2_state" where
  "encrypt_round ekey i s =
     (case s of (a, b, c, d) \<Rightarrow>
      let j = i * 4;
          d = d + ((c AND (a XOR 0xffff)) + (b AND a) + ekey ! j);
          d = push_bit 1 d OR (signed_drop_bit 15 d AND 0x0001);
          c = c + ((b AND (d XOR 0xffff)) + (a AND d) + ekey ! (j + 1));
          c = push_bit 2 c OR (signed_drop_bit 14 c AND 0x0003);
          b = b + ((a AND (c XOR 0xffff)) + (d AND c) + ekey ! (j + 2));
          b = push_bit 3 b OR (signed_drop_bit 13 b AND 0x0007);
          a = a + ((d AND (b XOR 0xffff)) + (c AND b) + ekey ! (j + 3));
          a = push_bit 5 a OR (signed_drop_bit 11 a AND 0x001f)
      in if i = 4 \<or> i = 10
         then let d = d + ekey ! unat (a AND 0x003f);
                  c = c + ekey ! unat (d AND 0x003f);
                  b = b + ekey ! unat (c AND 0x003f);
                  a = a + ekey ! unat (b AND 0x003f)
              in (a, b, c, d)
         else (a, b, c, d))"

definition mwEncryptBlock :: "gint list \<Rightarrow> bytes \<Rightarrow> bytes" where
  "mwEncryptBlock ekey out = block_store (fold (encrypt_round ekey) [0..<16] (block_load out))"

definition decrypt_round :: "gint list \<Rightarrow> nat \<Rightarrow> rc2_state \<Rightarrow> rc2_state" where
  "decrypt_round ekey i s =
     (case s of (a, b, c, d) \<Rightarrow>
      let j = i * 4 + 3;
          a = push_bit 11 a OR (signed_drop_bit 5 a AND 0x07ff);
          a = a - ((d AND (b XOR 0xffff)) + (c AND b) + ekey ! j);
          b = push_bit 13 b OR (signed_drop_bit 3 b AND 0x1fff);
          b = b - ((a AND (c XOR 0xffff)) + (d AND c) + ekey ! (j - 1));
          c = push_bit 14 c OR (signed_drop_bit 2 c AND 0x3fff);
          c = c - ((b AND (d XOR 0xffff)) + (a AND d) + ekey ! (j - 2));
          d = push_bit 15 d OR (signed_drop_bit 1 d AND 0x7fff);
          d = d - ((c AND (a XOR 0xffff)) + (b AND a) + ekey ! (j - 3))
      in if i = 5 \<or> i = 11
         then let a = a - ekey ! unat (b AND 0x003f);
                  b = b - ekey ! unat (c AND 0x003f);
                  c = c - ekey ! unat (d AND 0x003f);
                  d = d - ekey ! unat (a AND 0x003f)
              in (a, b, c, d)
         else (a, b, c, d))"

definition mwDecryptBlock :: "gint list \<Rightarrow> bytes \<Rightarrow> bytes" where
  "mwDecryptBlock ekey out = block_store (fold (decrypt_round ekey) (rev [0..<16]) (block_load out))"

subsection \<open>RFC 2268\<close>

text \<open>
  The cipher as the RFC gives it, on the words \<open>R[0..3]\<close> of sixteen bits: mixing and
  mashing rounds and their inverses.
\<close>

type_synonym rfc_state = "16 word \<times> 16 word \<times> 16 word \<times> 16 word"

definition rfc_sum :: "16 word \<Rightarrow> 16 word \<Rightarrow> 16 word \<Rightarrow> 16 word \<Rightarrow> 16 word" where
  "rfc_sum k r1 r2 r3 = k + (r1 AND r2) + (NOT r1 AND r3)"

definition rfc_mix :: "(nat \<Rightarrow> 16 word) \<Rightarrow> nat \<Rightarrow> rfc_state \<Rightarrow> rfc_state" where
  "rfc_mix K j R = (case R of (r0, r1, r2, r3) \<Rightarrow>
     let r0 = word_rotl 1 (r0 + rfc_sum (K j) r3 r2 r1);
         r1 = word_rotl 2 (r1 + rfc_sum (K (j + 1)) r0 r3 r2);
         r2 = word_rotl 3 (r2 + rfc_sum (K (j + 2)) r1 r0 r3);
         r3 = word_rotl 5 (r3 + rfc_sum (K (j + 3)) r2 r1 r0)
     in (r0, r1, r2, r3))"

definition rfc_mash :: "(nat \<Rightarrow> 16 word) \<Rightarrow> rfc_state \<Rightarrow> rfc_state" where
  "rfc_mash K R = (case R of (r0, r1, r2, r3) \<Rightarrow>
     let r0 = r0 + K (unat (r3 AND 63));
         r1 = r1 + K (unat (r0 AND 63));
         r2 = r2 + K (unat (r1 AND 63));
         r3 = r3 + K (unat (r2 AND 63))
     in (r0, r1, r2, r3))"

definition rfc_unmix :: "(nat \<Rightarrow> 16 word) \<Rightarrow> nat \<Rightarrow> rfc_state \<Rightarrow> rfc_state" where
  "rfc_unmix K j R = (case R of (r0, r1, r2, r3) \<Rightarrow>
     let r3 = word_rotr 5 r3 - rfc_sum (K (j + 3)) r2 r1 r0;
         r2 = word_rotr 3 r2 - rfc_sum (K (j + 2)) r1 r0 r3;
         r1 = word_rotr 2 r1 - rfc_sum (K (j + 1)) r0 r3 r2;
         r0 = word_rotr 1 r0 - rfc_sum (K j) r3 r2 r1
     in (r0, r1, r2, r3))"

definition rfc_unmash :: "(nat \<Rightarrow> 16 word) \<Rightarrow> rfc_state \<Rightarrow> rfc_state" where
  "rfc_unmash K R = (case R of (r0, r1, r2, r3) \<Rightarrow>
     let r3 = r3 - K (unat (r2 AND 63));
         r2 = r2 - K (unat (r1 AND 63));
         r1 = r1 - K (unat (r0 AND 63));
         r0 = r0 - K (unat (r3 AND 63))
     in (r0, r1, r2, r3))"

text \<open>Five mixing rounds, a mashing round, six mixing rounds, a mashing round, five mixing rounds.\<close>

definition rfc_encrypt :: "(nat \<Rightarrow> 16 word) \<Rightarrow> rfc_state \<Rightarrow> rfc_state" where
  "rfc_encrypt K R =
     fold (\<lambda>i. rfc_mix K (4 * i)) [11..<16] (rfc_mash K
       (fold (\<lambda>i. rfc_mix K (4 * i)) [5..<11] (rfc_mash K
         (fold (\<lambda>i. rfc_mix K (4 * i)) [0..<5] R))))"

definition rfc_decrypt :: "(nat \<Rightarrow> 16 word) \<Rightarrow> rfc_state \<Rightarrow> rfc_state" where
  "rfc_decrypt K R =
     fold (\<lambda>i. rfc_unmix K (4 * i)) (rev [0..<5]) (rfc_unmash K
       (fold (\<lambda>i. rfc_unmix K (4 * i)) (rev [5..<11]) (rfc_unmash K
         (fold (\<lambda>i. rfc_unmix K (4 * i)) (rev [11..<16]) R))))"

text \<open>Words are little-endian in the block.\<close>

definition rfc_load :: "bytes \<Rightarrow> rfc_state" where
  "rfc_load B = (let w = (\<lambda>i. word_cat (B ! (2 * i + 1)) (B ! (2 * i))) in (w 0, w 1, w 2, w 3))"

definition rfc_store :: "rfc_state \<Rightarrow> bytes" where
  "rfc_store R = (case R of (r0, r1, r2, r3) \<Rightarrow>
     concat (map (\<lambda>r. [ucast r, ucast (drop_bit 8 r)]) [r0, r1, r2, r3]))"

lemma rfc_unmix_mix: "rfc_unmix K j (rfc_mix K j R) = R"
  by (simp add: rfc_unmix_def rfc_mix_def Let_def split: prod.split)

lemma rfc_unmash_mash: "rfc_unmash K (rfc_mash K R) = R"
  by (simp add: rfc_unmash_def rfc_mash_def Let_def split: prod.split)

lemma fold_inverse:
  "(\<And>i s. g i (f i s) = s) \<Longrightarrow> fold g (rev xs) (fold f xs s) = s"
  by (induction xs arbitrary: s) simp_all

lemma rfc_decrypt_encrypt: "rfc_decrypt K (rfc_encrypt K R) = R"
  by (simp only: rfc_decrypt_def rfc_encrypt_def rfc_unmash_mash
      fold_inverse [of "\<lambda>i. rfc_unmix K (4 * i)", OF rfc_unmix_mix])

subsection \<open>Refinement of the block functions\<close>

text \<open>
  Only the low sixteen bits of the four \<open>int\<close>s matter: what overflows above them is
  never shifted back.
\<close>

abbreviation low16 :: "gint \<Rightarrow> 16 word" where
  "low16 x \<equiv> ucast x"

definition rc2_abs :: "rc2_state \<Rightarrow> rfc_state" where
  "rc2_abs s = (case s of (a, b, c, d) \<Rightarrow> (low16 d, low16 c, low16 b, low16 a))"

definition rfc_key :: "gint list \<Rightarrow> nat \<Rightarrow> 16 word" where
  "rfc_key ekey i = low16 (ekey ! i)"

lemma take_bit_16_32: "take_bit 16 (take_bit 32 (x :: int)) = take_bit 16 x"
  by simp

lemma low16_add: "low16 (x + y) = low16 x + low16 y"
  by (transfer, simp) (metis take_bit_add take_bit_16_32)

lemma low16_diff: "low16 (x - y) = low16 x - low16 y"
  by (transfer, simp) (metis take_bit_diff take_bit_16_32)

lemma low16_and: "low16 (x AND y) = low16 x AND low16 y"
  by (rule bit_word_eqI) (auto simp: bit_simps)

lemma low16_not: "low16 (x XOR 0xffff) = NOT (low16 x)"
proof -
  have m: "(0xffff :: gint) = mask 16" by (simp add: mask_eq_exp_minus_1)
  show ?thesis unfolding m by (rule bit_word_eqI) (auto simp: bit_simps)
qed

lemma low16_rotl:
  assumes "0 < n" and "n < 16"
  shows "low16 (push_bit n x OR (signed_drop_bit (16 - n) x AND mask n)) = word_rotl n (low16 x)"
proof (rule bit_word_eqI)
  fix i assume "i < LENGTH(16)"
  then have i: "i < 16" by simp
  have "bit (word_rotl n (low16 x)) i = bit x ((i + (16 - n)) mod 16)"
    using i assms by (simp add: bit_word_rotl_iff bit_unsigned_iff)
  also have "(i + (16 - n)) mod 16 = (if n \<le> i then i - n else i + (16 - n))"
    using i assms by (auto simp: mod_if)
  also have "bit x (if n \<le> i then i - n else i + (16 - n))
     = bit (low16 (push_bit n x OR (signed_drop_bit (16 - n) x AND mask n))) i"
    using i assms by (auto simp: bit_simps add.commute)
  finally show "bit (low16 (push_bit n x OR (signed_drop_bit (16 - n) x AND mask n))) i
     = bit (word_rotl n (low16 x)) i" by simp
qed

lemma low16_rotations:
  "low16 (push_bit 1 x OR (signed_drop_bit 15 x AND 0x0001)) = word_rotl 1 (low16 x)"
  "low16 (push_bit 2 x OR (signed_drop_bit 14 x AND 0x0003)) = word_rotl 2 (low16 x)"
  "low16 (push_bit 3 x OR (signed_drop_bit 13 x AND 0x0007)) = word_rotl 3 (low16 x)"
  "low16 (push_bit 5 x OR (signed_drop_bit 11 x AND 0x001f)) = word_rotl 5 (low16 x)"
  "low16 (push_bit 11 x OR (signed_drop_bit 5 x AND 0x07ff)) = word_rotr 5 (low16 x)"
  "low16 (push_bit 13 x OR (signed_drop_bit 3 x AND 0x1fff)) = word_rotr 3 (low16 x)"
  "low16 (push_bit 14 x OR (signed_drop_bit 2 x AND 0x3fff)) = word_rotr 2 (low16 x)"
  "low16 (push_bit 15 x OR (signed_drop_bit 1 x AND 0x7fff)) = word_rotr 1 (low16 x)"
  using low16_rotl [of 1 x] low16_rotl [of 2 x] low16_rotl [of 3 x] low16_rotl [of 5 x]
    low16_rotl [of 11 x] low16_rotl [of 13 x] low16_rotl [of 14 x] low16_rotl [of 15 x]
  by (simp_all add: mask_eq_exp_minus_1 word_rotl_eq_word_rotr)

lemma key_index: "low16 (ekey ! unat (x AND 63)) = rfc_key ekey (unat (low16 x AND 63))"
proof -
  have m: "(63 :: gint) = mask 6" "(63 :: 16 word) = mask 6"
    by (simp_all add: mask_eq_exp_minus_1)
  have "unat (x AND 63) = unat (low16 x AND 63)"
    unfolding m by (simp add: take_bit_eq_mask [symmetric] unsigned_take_bit_eq unsigned_ucast_eq)
  then show ?thesis
    by (simp add: rfc_key_def)
qed

text \<open>The right-hand sides of the assignments, each as a whole.\<close>

lemma low16_mix:
  "low16 (d + ((c AND (a XOR 0xffff)) + (b AND a) + k)) = low16 d + rfc_sum (low16 k) (low16 a) (low16 b) (low16 c)"
  "low16 (d - ((c AND (a XOR 0xffff)) + (b AND a) + k)) = low16 d - rfc_sum (low16 k) (low16 a) (low16 b) (low16 c)"
  by (simp_all add: low16_add low16_diff low16_and low16_not rfc_sum_def ac_simps)

lemma low16_mash:
  "low16 (d + ekey ! unat (x AND 63)) = low16 d + rfc_key ekey (unat (low16 x AND 63))"
  "low16 (d - ekey ! unat (x AND 63)) = low16 d - rfc_key ekey (unat (low16 x AND 63))"
  by (simp_all only: low16_add low16_diff key_index)

lemma encrypt_round_refines:
  "rc2_abs (encrypt_round ekey i s)
    = (if i = 4 \<or> i = 10 then rfc_mash (rfc_key ekey) else (\<lambda>R. R)) (rfc_mix (rfc_key ekey) (4 * i) (rc2_abs s))"
  by (cases s) (simp add: encrypt_round_def rc2_abs_def rfc_mix_def rfc_mash_def Let_def
      low16_mix low16_mash rfc_key_def [symmetric] low16_rotations mult.commute del: One_nat_def)

lemma decrypt_round_refines:
  "rc2_abs (decrypt_round ekey i s)
    = (if i = 5 \<or> i = 11 then rfc_unmash (rfc_key ekey) else (\<lambda>R. R)) (rfc_unmix (rfc_key ekey) (4 * i) (rc2_abs s))"
  by (cases s) (simp add: decrypt_round_def rc2_abs_def rfc_unmix_def rfc_unmash_def Let_def
      low16_mix low16_mash rfc_key_def [symmetric] low16_rotations [unfolded One_nat_def] mult.commute)

lemma fold_refines:
  "(\<And>i s. abs' (f i s) = g i (abs' s)) \<Longrightarrow> abs' (fold f xs s) = fold g xs (abs' s)"
  by (induction xs arbitrary: s) simp_all

lemma encrypt_fold_refines:
  "rc2_abs (fold (encrypt_round ekey) [0..<16] s) = rfc_encrypt (rfc_key ekey) (rc2_abs s)"
proof -
  let ?K = "rfc_key ekey"
  have "rc2_abs (fold (encrypt_round ekey) [0..<16] s)
      = fold (\<lambda>i R. (if i = 4 \<or> i = 10 then rfc_mash ?K else (\<lambda>R. R)) (rfc_mix ?K (4 * i) R)) [0..<16] (rc2_abs s)"
    by (rule fold_refines) (rule encrypt_round_refines)
  also have "\<dots> = rfc_encrypt ?K (rc2_abs s)"
    by (simp add: rfc_encrypt_def upt_rec)
  finally show ?thesis .
qed

lemma decrypt_fold_refines:
  "rc2_abs (fold (decrypt_round ekey) (rev [0..<16]) s) = rfc_decrypt (rfc_key ekey) (rc2_abs s)"
proof -
  let ?K = "rfc_key ekey"
  have "rc2_abs (fold (decrypt_round ekey) (rev [0..<16]) s)
      = fold (\<lambda>i R. (if i = 5 \<or> i = 11 then rfc_unmash ?K else (\<lambda>R. R)) (rfc_unmix ?K (4 * i) R))
          (rev [0..<16]) (rc2_abs s)"
    by (rule fold_refines) (rule decrypt_round_refines)
  also have "\<dots> = rfc_decrypt ?K (rc2_abs s)"
    by (simp add: rfc_decrypt_def upt_rec)
  finally show ?thesis .
qed

lemma low16_load: "low16 (push_bit 8 (ucast (x :: guchar)) OR (ucast (y :: guchar) AND 0xff)) = word_cat x y"
proof -
  have m: "(0xff :: gint) = mask 8" by (simp add: mask_eq_exp_minus_1)
  show ?thesis unfolding m by (rule bit_word_eqI) (auto simp: bit_simps)
qed

lemma low16_store:
  "(ucast x :: guchar) = ucast (low16 x)"
  "(ucast (signed_drop_bit 8 x) :: guchar) = ucast (drop_bit 8 (low16 x))"
  by (rule bit_word_eqI; auto simp: bit_simps)+

lemma block_load_refines: "rc2_abs (block_load out) = rfc_load out"
  by (simp add: block_load_def rc2_abs_def rfc_load_def low16_load Let_def)

lemma block_store_refines: "block_store s = rfc_store (rc2_abs s)"
  by (cases s) (simp add: block_store_def rc2_abs_def rfc_store_def,
      simp add: low16_store(2), simp add: low16_store(1))

lemma word_cat_split: "(word_cat (ucast (drop_bit 8 r) :: guchar) (ucast r :: guchar) :: 16 word) = r"
  by (rule bit_word_eqI) (auto simp: bit_simps)

lemma word_cat_parts:
  "(ucast (word_cat (x :: guchar) (y :: guchar) :: 16 word) :: guchar) = y"
  "(ucast (drop_bit 8 (word_cat (x :: guchar) (y :: guchar) :: 16 word)) :: guchar) = x"
  by (rule bit_word_eqI; auto simp: bit_simps)+

lemma rfc_load_store: "rfc_load (rfc_store R) = R"
  by (cases R) (simp add: rfc_load_def rfc_store_def Let_def word_cat_split)

lemma length_8_cases:
  assumes "length B = 8"
  obtains b0 b1 b2 b3 b4 b5 b6 b7 where "B = [b0, b1, b2, b3, b4, b5, b6, b7]"
  using assms by (auto simp: numeral_eq_Suc length_Suc_conv)

lemma rfc_store_load: "length B = 8 \<Longrightarrow> rfc_store (rfc_load B) = B"
  by (erule length_8_cases) (simp add: rfc_load_def rfc_store_def Let_def word_cat_parts)

lemma length_rfc_store [simp]: "length (rfc_store R) = 8"
  by (cases R) (simp add: rfc_store_def)

lemma mwEncryptBlock_rfc:
  "mwEncryptBlock ekey out = rfc_store (rfc_encrypt (rfc_key ekey) (rfc_load out))"
  by (simp add: mwEncryptBlock_def block_store_refines encrypt_fold_refines block_load_refines)

lemma mwDecryptBlock_rfc:
  "mwDecryptBlock ekey out = rfc_store (rfc_decrypt (rfc_key ekey) (rfc_load out))"
  by (simp add: mwDecryptBlock_def block_store_refines decrypt_fold_refines block_load_refines)

lemma mwDecryptBlock_inverse:
  "length blk = 8 \<Longrightarrow> mwDecryptBlock ekey (mwEncryptBlock ekey blk) = blk"
  by (simp add: mwEncryptBlock_rfc mwDecryptBlock_rfc rfc_load_store rfc_decrypt_encrypt rfc_store_load)

lemma length_mwEncryptBlock [simp]: "length (mwEncryptBlock ekey blk) = 8"
  by (simp add: mwEncryptBlock_def block_store_def split: prod.split)

lemma length_mwDecryptBlock [simp]: "length (mwDecryptBlock ekey blk) = 8"
  by (simp add: mwDecryptBlock_def block_store_def split: prod.split)

subsection \<open>Refinement of the key expansion\<close>

text \<open>
  The expanded key bytes \<open>L\<close> of RFC 2268 for a key of \<open>T\<close> bytes, before and after the
  phase that limits the effective key length. With 1024 effective bits that phase
  touches \<open>L[0]\<close> only.
\<close>

function rfc_L :: "bytes \<Rightarrow> nat \<Rightarrow> guchar" where
  "rfc_L key i =
     (if i < length key \<or> key = [] then key ! i
      else PT ! unat (rfc_L key (i - 1) + rfc_L key (i - length key)))"
  by pat_completeness auto
termination
  by (relation "measure (\<lambda>(key, i). i)") (auto simp: not_less Suc_le_eq neq_Nil_conv)

declare rfc_L.simps [simp del]

definition rfc_L1024 :: "bytes \<Rightarrow> nat \<Rightarrow> guchar" where
  "rfc_L1024 key i = (if i = 0 then PT ! unat (rfc_L key 0) else rfc_L key i)"

lemma byte_sum: "unat ((ucast (x :: guchar) + ucast (y :: guchar) :: gint) AND 0xff) = unat (x + y)"
proof -
  have m: "(0xff :: gint) = mask 8" by (simp add: mask_eq_exp_minus_1)
  show ?thesis
    unfolding m take_bit_eq_mask [symmetric]
    using unsigned_less [of x, where ?'a = nat] unsigned_less [of y, where ?'a = nat]
    by (simp add: unsigned_take_bit_eq unat_word_ariths unsigned_ucast_eq take_bit_eq_mod mod_mod_cancel)
qed

lemma key_extend_rfc:
  assumes "key \<noteq> []" and "length tmp = length key + i" and "length tmp \<le> 128"
    and "\<And>k. k < length tmp \<Longrightarrow> tmp ! k = rfc_L key k"
  shows "key_extend tmp i = map (rfc_L key) [0..<128]"
  using assms(2-)
proof (induction tmp i rule: key_extend.induct)
  case (1 tmp i)
  show ?case
  proof (cases "length tmp < 128")
    case True
    let ?x = "PT ! unat ((ucast (tmp ! (length tmp - 1)) + ucast (tmp ! i) :: gint) AND 0xff)"
    have "?x = rfc_L key (length tmp)"
      using 1(2,4) assms(1) by (subst rfc_L.simps) (auto simp: byte_sum)
    with 1 True have "key_extend (tmp @ [?x]) (i + 1) = map (rfc_L key) [0..<128]"
      by (intro 1(1)) (auto simp: nth_append less_Suc_eq)
    with True show ?thesis
      by (subst key_extend.simps) simp
  next
    case False
    with 1 have "length tmp = 128" by simp
    with 1 False show ?thesis
      by (subst key_extend.simps) (auto intro: nth_equalityI)
  qed
qed

lemma mwKeyExpand_rfc:
  assumes "0 < keylen" and "keylen \<le> 128" and "keylen \<le> length key"
  shows "mwKeyExpand ekey (Some key) keylen = Some (map (\<lambda>i.
     ucast (word_cat (rfc_L1024 (take keylen key) (2 * i + 1)) (rfc_L1024 (take keylen key) (2 * i)) :: 16 word))
     [0..<64])"
proof -
  define k where "k = take keylen key"
  have k: "k \<noteq> []" "length k = keylen"
    using assms by (auto simp: k_def)
  have ext: "key_extend k 0 = map (rfc_L k) [0..<128]"
    using k assms by (intro key_extend_rfc) (auto simp: rfc_L.simps)
  have word: "(ucast y AND 0xff) OR push_bit 8 (ucast x) = (ucast (word_cat x y :: 16 word) :: gint)"
    for x y :: guchar
  proof -
    have m: "(0xff :: gint) = mask 8" by (simp add: mask_eq_exp_minus_1)
    show ?thesis unfolding m by (rule bit_word_eqI) (auto simp: bit_simps dest: bit_imp_le_length)
  qed
  have nth: "(map (rfc_L k) [0..<128]) [0 := PT ! unat (rfc_L k 0)] ! j = rfc_L1024 k j" if "j < 128" for j
    using that by (auto simp: rfc_L1024_def nth_list_update)
  have L_Suc: "rfc_L1024 k (Suc j) = rfc_L k (Suc j)" for j
    by (simp add: rfc_L1024_def)
  have mask: "x AND 0xff = x" for x :: guchar
    unfolding and_255 by (rule bit_word_eqI) (simp add: bit_simps)
  show ?thesis
    using assms by (simp add: mwKeyExpand_def Let_def k_def [symmetric] ext key_words_def mask nth word L_Suc)
qed

subsection \<open>Chaining and padding\<close>

definition xor_bytes :: "bytes \<Rightarrow> bytes \<Rightarrow> bytes" where
  "xor_bytes x y = map2 (XOR) x y"

text \<open>The loop over the blocks of \<open>o\<close>; the block function is an argument.\<close>

function cbc_encrypt :: "(bytes \<Rightarrow> bytes) \<Rightarrow> bytes \<Rightarrow> bytes \<Rightarrow> bytes \<times> bytes" where
  "cbc_encrypt E iv o' =
     (if o' = [] then (iv, [])
      else let e = E (xor_bytes (take 8 o') iv);
               (iv', rest) = cbc_encrypt E e (drop 8 o')
           in (iv', e @ rest))"
  by pat_completeness auto
termination
  by (relation "measure (\<lambda>(E, iv, o'). length o')") auto

function cbc_decrypt :: "(bytes \<Rightarrow> bytes) \<Rightarrow> bytes \<Rightarrow> bytes \<Rightarrow> bytes \<times> bytes" where
  "cbc_decrypt D iv i =
     (if i = [] then (iv, [])
      else let d = xor_bytes (D (take 8 i)) iv;
               (iv', rest) = cbc_decrypt D (take 8 i) (drop 8 i)
           in (iv', d @ rest))"
  by pat_completeness auto
termination
  by (relation "measure (\<lambda>(D, iv, i). length i)") auto

declare cbc_encrypt.simps [simp del] cbc_decrypt.simps [simp del]

definition mwEncryptExpanded :: "gint list \<Rightarrow> bytes \<Rightarrow> mwOpaque \<Rightarrow> bytes \<times> mwOpaque" where
  "mwEncryptExpanded ekey iv in_data =
     (let i_len = op_len in_data;
          o_len = i_len + (8 - i_len mod 8);
          y = o_len - i_len;
          o' = opaque_bytes in_data @ replicate y (of_nat y);
          (iv, o') = cbc_encrypt (mwEncryptBlock ekey) iv o'
      in (iv, \<lparr>op_len = o_len, op_data = Some o'\<rparr>))"

definition mwEncrypt :: "gint list \<Rightarrow> bytes option \<Rightarrow> gsize \<Rightarrow> bytes \<Rightarrow> mwOpaque \<Rightarrow> (bytes \<times> mwOpaque) option" where
  "mwEncrypt stack key keylen iv in_data =
     map_option (\<lambda>ekey. mwEncryptExpanded ekey iv in_data) (mwKeyExpand stack key keylen)"

text \<open>
  \<open>None\<close> stands for an access outside the blocks: the last, incomplete block of input
  whose length is not a multiple of eight, and the byte in front of an empty output.
  The padding count is the last byte, whatever it is, and is subtracted unchecked.
\<close>

definition mwDecryptExpanded :: "gint list \<Rightarrow> bytes \<Rightarrow> mwOpaque \<Rightarrow> (bytes \<times> mwOpaque) option" where
  "mwDecryptExpanded ekey iv in_data =
     (let i_len = op_len in_data
      in if i_len mod 8 \<noteq> 0 \<or> i_len = 0 then None
         else let (iv, o') = cbc_decrypt (mwDecryptBlock ekey) iv (opaque_bytes in_data)
              in Some (iv, \<lparr>op_len = gsize_sub i_len (unat (last o')), op_data = Some o'\<rparr>))"

definition mwDecrypt :: "gint list \<Rightarrow> bytes option \<Rightarrow> gsize \<Rightarrow> bytes \<Rightarrow> mwOpaque \<Rightarrow> (bytes \<times> mwOpaque) option" where
  "mwDecrypt stack key keylen iv in_data =
     Option.bind (mwKeyExpand stack key keylen) (\<lambda>ekey. mwDecryptExpanded ekey iv in_data)"

lemma length_xor_bytes [simp]: "length (xor_bytes x y) = min (length x) (length y)"
  by (simp add: xor_bytes_def)

lemma xor_bytes_cancel: "length x = length y \<Longrightarrow> xor_bytes (xor_bytes x y) y = x"
  by (induction x y rule: list_induct2) (simp_all add: xor_bytes_def xor.assoc)

text \<open>
  What chaining needs of a block cipher: blocks of eight bytes and a decryption that
  inverts encryption.
\<close>

locale block_cipher =
  fixes E D :: "bytes \<Rightarrow> bytes"
  assumes E_length: "length (E blk) = 8"
    and D_length: "length (D blk) = 8"
    and D_E: "length blk = 8 \<Longrightarrow> D (E blk) = blk"
begin

lemma cbc_inverse:
  assumes "length iv = 8" and "length p = 8 * n"
  shows "length (snd (cbc_encrypt E iv p)) = 8 * n \<and> length (fst (cbc_encrypt E iv p)) = 8
    \<and> cbc_decrypt D iv (snd (cbc_encrypt E iv p)) = (fst (cbc_encrypt E iv p), p)"
  using assms
proof (induction n arbitrary: iv p)
  case 0
  then show ?case by (simp add: cbc_encrypt.simps cbc_decrypt.simps)
next
  case (Suc n)
  define e where "e = E (xor_bytes (take 8 p) iv)"
  obtain iv' rest where rest: "cbc_encrypt E e (drop 8 p) = (iv', rest)" by fastforce
  have p: "p \<noteq> []" "length (take 8 p) = 8" "length (drop 8 p) = 8 * n"
    using Suc.prems by auto
  have IH: "length rest = 8 * n" "length iv' = 8" "cbc_decrypt D e rest = (iv', drop 8 p)"
    using Suc.IH [of e "drop 8 p"] p(3) rest by (simp_all add: e_def E_length)
  have enc: "cbc_encrypt E iv p = (iv', e @ rest)"
    using p(1) rest by (subst cbc_encrypt.simps) (simp add: e_def Let_def)
  have e: "e @ rest \<noteq> []" "take 8 (e @ rest) = e" "drop 8 (e @ rest) = rest" "length e = 8"
    using E_length [of "xor_bytes (take 8 p) iv"] by (auto simp: e_def)
  have "xor_bytes (D e) iv = take 8 p"
    using Suc.prems p by (simp add: e_def D_E xor_bytes_cancel)
  then have "cbc_decrypt D iv (e @ rest) = (iv', p)"
    using IH(3) e by (subst cbc_decrypt.simps) auto
  with enc IH e show ?case by simp
qed

lemma cbc_decrypt_length:
  assumes "length iv = 8" and "length c = 8 * n"
  shows "length (snd (cbc_decrypt D iv c)) = 8 * n \<and> length (fst (cbc_decrypt D iv c)) = 8"
  using assms
proof (induction n arbitrary: iv c)
  case 0
  then show ?case by (simp add: cbc_decrypt.simps)
next
  case (Suc n)
  have "c \<noteq> []" "length (take 8 c) = 8" "length (drop 8 c) = 8 * n"
    using Suc.prems by auto
  with Suc.IH [of "take 8 c" "drop 8 c"] Suc.prems show ?case
    by (subst (1 2) cbc_decrypt.simps) (auto simp: D_length split_def Let_def)
qed

end

interpretation rc2: block_cipher "mwEncryptBlock ekey" "mwDecryptBlock ekey" for ekey
  by unfold_locales (simp_all add: mwDecryptBlock_inverse)

subsection \<open>Round trip of an opaque\<close>

lemma padded_length: "(n + (8 - n mod 8)) mod 8 = (0 :: nat)"
  by presburger

lemma mwEncryptExpanded_eq:
  fixes ekey :: "gint list"
  assumes "length iv = 8" and "opaque_ok p"
  defines "y \<equiv> 8 - op_len p mod 8"
  defines "r \<equiv> cbc_encrypt (mwEncryptBlock ekey) iv (opaque_bytes p @ replicate y (of_nat y))"
  shows "mwEncryptExpanded ekey iv p = (fst r, \<lparr>op_len = op_len p + y, op_data = Some (snd r)\<rparr>)"
    and "length (fst r) = 8" and "length (snd r) = op_len p + y"
    and "cbc_decrypt (mwDecryptBlock ekey) iv (snd r) = (fst r, opaque_bytes p @ replicate y (of_nat y))"
proof -
  obtain n where n: "op_len p + y = 8 * n"
    using padded_length [of "op_len p"] unfolding y_def mod_eq_0_iff_dvd by (rule dvdE)
  have len: "length (opaque_bytes p @ replicate y (of_nat y)) = 8 * n"
    using assms(2) n by simp
  show "length (fst r) = 8" and "length (snd r) = op_len p + y"
    and "cbc_decrypt (mwDecryptBlock ekey) iv (snd r) = (fst r, opaque_bytes p @ replicate y (of_nat y))"
    using rc2.cbc_inverse [OF assms(1) len, of ekey] n by (simp_all add: r_def)
  show "mwEncryptExpanded ekey iv p = (fst r, \<lparr>op_len = op_len p + y, op_data = Some (snd r)\<rparr>)"
    by (simp add: mwEncryptExpanded_def Let_def r_def y_def split_def)
qed

lemma mwDecryptExpanded_inverse:
  assumes iv: "length iv = 8" and ok: "opaque_ok p"
  obtains out where "mwDecryptExpanded ekey iv (snd (mwEncryptExpanded ekey iv p))
      = Some (fst (mwEncryptExpanded ekey iv p), out)" "opaque_ok out" "opaque_bytes out = opaque_bytes p"
proof -
  define y where "y = 8 - op_len p mod 8"
  define pad where "pad = replicate y (of_nat y :: guchar)"
  define r where "r = cbc_encrypt (mwEncryptBlock ekey) iv (opaque_bytes p @ pad)"
  note eq = mwEncryptExpanded_eq [OF iv ok, where ekey = ekey, folded y_def, folded pad_def, folded r_def]
  have y: "0 < y" "y \<le> 8" by (simp_all add: y_def)
  have last: "last (opaque_bytes p @ pad) = of_nat y"
    using y by (simp add: pad_def)
  have uy: "unat (of_nat y :: guchar) = y"
    using y by (simp add: unat_of_nat)
  have bytes: "opaque_bytes (snd (mwEncryptExpanded ekey iv p)) = snd r"
    using eq(1,3) by (simp add: opaque_bytes_def)
  have "mwDecryptExpanded ekey iv (snd (mwEncryptExpanded ekey iv p))
      = Some (fst r, \<lparr>op_len = op_len p, op_data = Some (opaque_bytes p @ pad)\<rparr>)"
    using y eq(4) bytes padded_length [of "op_len p", folded y_def]
    by (simp add: mwDecryptExpanded_def Let_def eq(1) last uy)
  moreover have "fst (mwEncryptExpanded ekey iv p) = fst r"
    by (simp add: eq(1))
  moreover have "opaque_ok \<lparr>op_len = op_len p, op_data = Some (opaque_bytes p @ pad)\<rparr>"
    and "opaque_bytes \<lparr>op_len = op_len p, op_data = Some (opaque_bytes p @ pad)\<rparr> = opaque_bytes p"
    using length_opaque_bytes [OF ok] by (simp_all add: opaque_ok_def opaque_bytes_def [of "\<lparr>op_len = _, op_data = _\<rparr>"])
  ultimately show ?thesis
    by (intro that [of "\<lparr>op_len = op_len p, op_data = Some (opaque_bytes p @ pad)\<rparr>"]) simp_all
qed

lemma mwEncryptExpanded_iv_length:
  "length iv = 8 \<Longrightarrow> opaque_ok p \<Longrightarrow> length (fst (mwEncryptExpanded ekey iv p)) = 8"
  using mwEncryptExpanded_eq(1,2) [of iv p ekey] by simp

subsection \<open>Properties\<close>

text \<open>
  C18: the block functions, written with 32 bit \<open>int\<close>s that overflow, compute the
  cipher of RFC 2268 on the low sixteen bits of the expanded key.
\<close>

theorem mwBlock_refines_rfc2268:
  "mwEncryptBlock ekey out = rfc_store (rfc_encrypt (rfc_key ekey) (rfc_load out))
   \<and> mwDecryptBlock ekey out = rfc_store (rfc_decrypt (rfc_key ekey) (rfc_load out))"
  by (simp add: mwEncryptBlock_rfc mwDecryptBlock_rfc)

text \<open>
  Decrypting an encrypted block gives the block back, for every expanded key.
\<close>

theorem mwDecryptBlock_mwEncryptBlock:
  assumes "length blk = 8"
  shows "mwDecryptBlock ekey (mwEncryptBlock ekey blk) = blk"
  using assms by (rule mwDecryptBlock_inverse)

theorem mwDecryptBlock_mwEncryptBlock_witness:
  "length [1, 2, 3, 4, 5, 6, 7, 8 :: guchar] = 8
   \<and> mwDecryptBlock (replicate 64 0x1234) (mwEncryptBlock (replicate 64 0x1234) [1, 2, 3, 4, 5, 6, 7, 8])
       = [1, 2, 3, 4, 5, 6, 7, 8]"
  using mwDecryptBlock_mwEncryptBlock [of "[1, 2, 3, 4, 5, 6, 7, 8]" "replicate 64 0x1234"] by simp

text \<open>
  C37: \<open>mwKeyExpand\<close> is the key expansion of RFC 2268 with an effective key length of
  1024 bits: sixty-four words below 65536, for every key of up to 128 bytes that is
  as long as its caller says.
\<close>

theorem mwKeyExpand_is_rfc2268:
  assumes "0 < keylen" and "keylen \<le> 128" and "keylen \<le> length key"
  shows "mwKeyExpand ekey (Some key) keylen = Some (map (\<lambda>i.
     ucast (word_cat (rfc_L1024 (take keylen key) (2 * i + 1)) (rfc_L1024 (take keylen key) (2 * i)) :: 16 word))
     [0..<64])"
  using assms by (rule mwKeyExpand_rfc)

theorem mwKeyExpand_is_rfc2268_witness:
  "(0 :: nat) < 5 \<and> (5 :: nat) \<le> 128 \<and> 5 \<le> length [49, 50, 51, 52, 53 :: guchar]
   \<and> mwKeyExpand [] (Some [49, 50, 51, 52, 53]) 5 = Some (map (\<lambda>i.
     ucast (word_cat (rfc_L1024 (take 5 [49, 50, 51, 52, 53]) (2 * i + 1))
       (rfc_L1024 (take 5 [49, 50, 51, 52, 53]) (2 * i)) :: 16 word)) [0..<64])"
  using mwKeyExpand_is_rfc2268 [of 5 "[49, 50, 51, 52, 53]" "[]"] by simp



end
