(* ===== verification/Common.thy ===== *)
theory Common
  imports Buffers
begin

text \<open>
  The compound data types of \<^verbatim>\<open>src/src/common.c\<close> and \<^verbatim>\<open>src/src/mw_common.h\<close>:
  login information, user items and privacy lists, user status, ID blocks,
  encryption items, awareness IDs and snapshots. Each type has its record, its
  writer and reader as the C code composes them from the basic ones, its wire
  format, and an interpretation of the interface \<open>codec\<close>.
\<close>

subsection \<open>Login information\<close>

record mwLoginInfo =
  li_login_id :: cstr
  li_type :: guint16
  li_user_id :: cstr
  li_user_name :: cstr
  li_community :: cstr
  li_full :: bool
  li_desc :: cstr
  li_ip_addr :: guint32
  li_server_id :: cstr

definition mwLoginInfo_zero :: mwLoginInfo where
  "mwLoginInfo_zero = \<lparr>li_login_id = None, li_type = 0, li_user_id = None, li_user_name = None,
     li_community = None, li_full = False, li_desc = None, li_ip_addr = 0, li_server_id = None\<rparr>"

definition mwLoginInfo_put :: "mwLoginInfo \<Rightarrow> (mwPutBuffer, unit) state" where
  "mwLoginInfo_put login = do {
     mwString_put (li_login_id login);
     guint16_put (li_type login);
     mwString_put (li_user_id login);
     mwString_put (li_user_name login);
     mwString_put (li_community login);
     gboolean_put (li_full login);
     if li_full login then do {
       mwString_put (li_desc login);
       guint32_put (li_ip_addr login);
       mwString_put (li_server_id login)
     } else State_Monad.return ()
   }"

definition mwLoginInfo_get :: "mwLoginInfo \<Rightarrow> (mwGetBuffer, mwLoginInfo) state" where
  "mwLoginInfo_get login = do {
     e \<leftarrow> mwGetBuffer_error;
     if e then State_Monad.return login
     else do {
       login_id \<leftarrow> mwString_get;
       type \<leftarrow> guint16_get (li_type login);
       user_id \<leftarrow> mwString_get;
       user_name \<leftarrow> mwString_get;
       community \<leftarrow> mwString_get;
       full \<leftarrow> gboolean_get (li_full login);
       let login = login\<lparr>li_login_id := login_id, li_type := type, li_user_id := user_id,
                         li_user_name := user_name, li_community := community, li_full := full\<rparr>;
       if li_full login then do {
         desc \<leftarrow> mwString_get;
         ip_addr \<leftarrow> guint32_get (li_ip_addr login);
         server_id \<leftarrow> mwString_get;
         State_Monad.return (login\<lparr>li_desc := desc, li_ip_addr := ip_addr, li_server_id := server_id\<rparr>)
       } else State_Monad.return login
     }
   }"

definition mwLoginInfo_clear :: "mwLoginInfo \<Rightarrow> mwLoginInfo" where
  "mwLoginInfo_clear login = mwLoginInfo_zero"

definition mwLoginInfo_clone :: "mwLoginInfo \<Rightarrow> mwLoginInfo \<Rightarrow> mwLoginInfo" where
  "mwLoginInfo_clone to from =
     (let to = to\<lparr>li_login_id := li_login_id from, li_type := li_type from,
                  li_user_id := li_user_id from, li_user_name := li_user_name from,
                  li_community := li_community from, li_full := li_full from\<rparr>
      in if li_full to
         then to\<lparr>li_desc := li_desc from, li_ip_addr := li_ip_addr from, li_server_id := li_server_id from\<rparr>
         else to)"

definition mwLoginInfo_wire :: "mwLoginInfo \<Rightarrow> bytes" where
  "mwLoginInfo_wire login =
     string_wire (li_login_id login) @ MW16_PUT (li_type login) @ string_wire (li_user_id login)
     @ string_wire (li_user_name login) @ string_wire (li_community login) @ [of_bool (li_full login)]
     @ (if li_full login
        then string_wire (li_desc login) @ MW32_PUT (li_ip_addr login) @ string_wire (li_server_id login)
        else [])"

definition mwLoginInfo_valid :: "mwLoginInfo \<Rightarrow> bool" where
  "mwLoginInfo_valid login \<longleftrightarrow>
     string_valid (li_login_id login) \<and> string_valid (li_user_id login) \<and> string_valid (li_user_name login)
     \<and> string_valid (li_community login)
     \<and> (li_full login \<longrightarrow> string_valid (li_desc login) \<and> string_valid (li_server_id login))"

definition mwLoginInfo_norm :: "mwLoginInfo \<Rightarrow> mwLoginInfo" where
  "mwLoginInfo_norm login = \<lparr>li_login_id = string_norm (li_login_id login), li_type = li_type login,
     li_user_id = string_norm (li_user_id login), li_user_name = string_norm (li_user_name login),
     li_community = string_norm (li_community login), li_full = li_full login,
     li_desc = (if li_full login then string_norm (li_desc login) else None),
     li_ip_addr = (if li_full login then li_ip_addr login else 0),
     li_server_id = (if li_full login then string_norm (li_server_id login) else None)\<rparr>"

lemma writes_LoginInfo [writer_intros]: "writes (mwLoginInfo_put x) (mwLoginInfo_wire x)"
  unfolding mwLoginInfo_put_def mwLoginInfo_wire_def by (intro writer_intros)

lemma reader_LoginInfo [reader_intros]: "reader (mwLoginInfo_get x)"
  unfolding mwLoginInfo_get_def Let_def by (intro reader_intros)

lemma mwLoginInfo_get_wire [reads_simps]:
  "mwLoginInfo_valid x \<Longrightarrow>
   run_state (mwLoginInfo_get mwLoginInfo_zero) (gbuf w pre (mwLoginInfo_wire x @ post))
     = (mwLoginInfo_norm x, gbuf w (pre @ mwLoginInfo_wire x) post)"
  by (cases "li_full x")
    (simp_all add: mwLoginInfo_get_def mwLoginInfo_wire_def mwLoginInfo_valid_def mwLoginInfo_norm_def
      mwLoginInfo_zero_def reads_simps)

interpretation mwLoginInfo: codec mwLoginInfo_put mwLoginInfo_get mwLoginInfo_wire mwLoginInfo_valid
  mwLoginInfo_zero mwLoginInfo_norm
  by unfold_locales (simp_all add: writer_intros reader_intros reads_simps)

subsection \<open>User items and privacy lists\<close>

record mwUserItem =
  ui_full :: bool
  ui_id :: cstr
  ui_community :: cstr
  ui_name :: cstr

definition mwUserItem_zero :: mwUserItem where
  "mwUserItem_zero = \<lparr>ui_full = False, ui_id = None, ui_community = None, ui_name = None\<rparr>"

definition mwUserItem_put :: "mwUserItem \<Rightarrow> (mwPutBuffer, unit) state" where
  "mwUserItem_put user = do {
     gboolean_put (ui_full user);
     mwString_put (ui_id user);
     mwString_put (ui_community user);
     if ui_full user then mwString_put (ui_name user) else State_Monad.return ()
   }"

definition mwUserItem_get :: "mwUserItem \<Rightarrow> (mwGetBuffer, mwUserItem) state" where
  "mwUserItem_get user = do {
     e \<leftarrow> mwGetBuffer_error;
     if e then State_Monad.return user
     else do {
       full \<leftarrow> gboolean_get (ui_full user);
       id \<leftarrow> mwString_get;
       community \<leftarrow> mwString_get;
       let user = user\<lparr>ui_full := full, ui_id := id, ui_community := community\<rparr>;
       if ui_full user then do {
         name \<leftarrow> mwString_get;
         State_Monad.return (user\<lparr>ui_name := name\<rparr>)
       } else State_Monad.return user
     }
   }"

definition mwUserItem_clear :: "mwUserItem \<Rightarrow> mwUserItem" where
  "mwUserItem_clear user = mwUserItem_zero"

definition mwUserItem_clone :: "mwUserItem \<Rightarrow> mwUserItem \<Rightarrow> mwUserItem" where
  "mwUserItem_clone to from =
     to\<lparr>ui_full := ui_full from, ui_id := ui_id from, ui_community := ui_community from,
        ui_name := (if ui_full from then ui_name from else None)\<rparr>"

definition mwUserItem_wire :: "mwUserItem \<Rightarrow> bytes" where
  "mwUserItem_wire user =
     [of_bool (ui_full user)] @ string_wire (ui_id user) @ string_wire (ui_community user)
     @ (if ui_full user then string_wire (ui_name user) else [])"

definition mwUserItem_valid :: "mwUserItem \<Rightarrow> bool" where
  "mwUserItem_valid user \<longleftrightarrow> string_valid (ui_id user) \<and> string_valid (ui_community user)
     \<and> (ui_full user \<longrightarrow> string_valid (ui_name user))"

definition mwUserItem_norm :: "mwUserItem \<Rightarrow> mwUserItem" where
  "mwUserItem_norm user = \<lparr>ui_full = ui_full user, ui_id = string_norm (ui_id user),
     ui_community = string_norm (ui_community user),
     ui_name = (if ui_full user then string_norm (ui_name user) else None)\<rparr>"

lemma writes_UserItem [writer_intros]: "writes (mwUserItem_put x) (mwUserItem_wire x)"
  unfolding mwUserItem_put_def mwUserItem_wire_def by (intro writer_intros)

lemma reader_UserItem [reader_intros]: "reader (mwUserItem_get x)"
  unfolding mwUserItem_get_def Let_def by (intro reader_intros)

lemma mwUserItem_get_wire [reads_simps]:
  "mwUserItem_valid x \<Longrightarrow>
   run_state (mwUserItem_get mwUserItem_zero) (gbuf w pre (mwUserItem_wire x @ post))
     = (mwUserItem_norm x, gbuf w (pre @ mwUserItem_wire x) post)"
  by (cases "ui_full x")
    (simp_all add: mwUserItem_get_def mwUserItem_wire_def mwUserItem_valid_def mwUserItem_norm_def
      mwUserItem_zero_def reads_simps)

interpretation mwUserItem: codec mwUserItem_put mwUserItem_get mwUserItem_wire mwUserItem_valid
  mwUserItem_zero mwUserItem_norm
  by unfold_locales (simp_all add: writer_intros reader_intros reads_simps)

record mwPrivacyInfo =
  pi_deny :: bool
  pi_count :: guint32
  pi_users :: "mwUserItem list"

definition mwPrivacyInfo_zero :: mwPrivacyInfo where
  "mwPrivacyInfo_zero = \<lparr>pi_deny = False, pi_count = 0, pi_users = []\<rparr>"

text \<open>\<open>for(c = info->count; c--; ) mwUserItem_put(b, info->users + c);\<close>\<close>

fun privacy_put_users :: "nat \<Rightarrow> mwUserItem list \<Rightarrow> (mwPutBuffer, unit) state" where
  "privacy_put_users 0 users = State_Monad.return ()"
| "privacy_put_users (Suc c) users = do {
     mwUserItem_put (users ! c);
     privacy_put_users c users
   }"

text \<open>\<open>while(c--) mwUserItem_get(b, info->users + c);\<close>\<close>

fun privacy_get_users :: "nat \<Rightarrow> mwUserItem list \<Rightarrow> (mwGetBuffer, mwUserItem list) state" where
  "privacy_get_users 0 users = State_Monad.return users"
| "privacy_get_users (Suc c) users = do {
     u \<leftarrow> mwUserItem_get (users ! c);
     privacy_get_users c (users[c := u])
   }"

definition mwPrivacyInfo_put :: "mwPrivacyInfo \<Rightarrow> (mwPutBuffer, unit) state" where
  "mwPrivacyInfo_put info = do {
     gboolean_put (pi_deny info);
     guint32_put (pi_count info);
     privacy_put_users (unat (pi_count info)) (pi_users info)
   }"

definition mwPrivacyInfo_get :: "mwPrivacyInfo \<Rightarrow> (mwGetBuffer, mwPrivacyInfo) state" where
  "mwPrivacyInfo_get info = do {
     e \<leftarrow> mwGetBuffer_error;
     if e then State_Monad.return info
     else do {
       deny \<leftarrow> gboolean_get (pi_deny info);
       count \<leftarrow> guint32_get (pi_count info);
       let info = info\<lparr>pi_deny := deny, pi_count := count\<rparr>;
       if count \<noteq> 0 then do {
         users \<leftarrow> privacy_get_users (unat count) (replicate (unat count) mwUserItem_zero);
         State_Monad.return (info\<lparr>pi_users := users\<rparr>)
       } else State_Monad.return info
     }
   }"

fun privacy_clone_users :: "nat \<Rightarrow> mwUserItem list \<Rightarrow> mwUserItem list \<Rightarrow> mwUserItem list" where
  "privacy_clone_users 0 to from = to"
| "privacy_clone_users (Suc c) to from =
     privacy_clone_users c (to[c := mwUserItem_clone (to ! c) (from ! c)]) from"

definition mwPrivacyInfo_clone :: "mwPrivacyInfo \<Rightarrow> mwPrivacyInfo" where
  "mwPrivacyInfo_clone from =
     (let c = unat (pi_count from)
      in \<lparr>pi_deny = pi_deny from, pi_count = pi_count from,
          pi_users = privacy_clone_users c (replicate c mwUserItem_zero) (pi_users from)\<rparr>)"

definition mwPrivacyInfo_clear :: "mwPrivacyInfo \<Rightarrow> mwPrivacyInfo" where
  "mwPrivacyInfo_clear info = info\<lparr>pi_count := 0, pi_users := []\<rparr>"

definition mwPrivacyInfo_wire :: "mwPrivacyInfo \<Rightarrow> bytes" where
  "mwPrivacyInfo_wire info = [of_bool (pi_deny info)] @ MW32_PUT (pi_count info)
     @ concat (map mwUserItem_wire (rev (pi_users info)))"

definition mwPrivacyInfo_valid :: "mwPrivacyInfo \<Rightarrow> bool" where
  "mwPrivacyInfo_valid info \<longleftrightarrow> length (pi_users info) = unat (pi_count info)
     \<and> list_all mwUserItem_valid (pi_users info)"

definition mwPrivacyInfo_norm :: "mwPrivacyInfo \<Rightarrow> mwPrivacyInfo" where
  "mwPrivacyInfo_norm info = info\<lparr>pi_users := map mwUserItem_norm (pi_users info)\<rparr>"

lemma writes_privacy_users:
  "writes (privacy_put_users (length xs) (xs @ ys)) (concat (map mwUserItem_wire (rev xs)))"
proof (induction xs arbitrary: ys rule: rev_induct)
  case Nil
  show ?case by (simp add: writes_return)
next
  case (snoc x xs)
  have "writes (privacy_put_users (Suc (length xs)) (xs @ x # ys))
     (mwUserItem_wire x @ concat (map mwUserItem_wire (rev xs)))"
    using snoc.IH [of "x # ys"] by (simp add: writes_bind writes_UserItem)
  then show ?case by simp
qed

lemma writes_PrivacyInfo [writer_intros]:
  assumes "mwPrivacyInfo_valid x"
  shows "writes (mwPrivacyInfo_put x) (mwPrivacyInfo_wire x)"
  using assms writes_privacy_users [of "pi_users x" "[]"]
  unfolding mwPrivacyInfo_put_def mwPrivacyInfo_wire_def mwPrivacyInfo_valid_def
  by (intro writer_intros) simp

lemma reader_privacy_users [reader_intros]: "reader (privacy_get_users c users)"
  by (induction c arbitrary: users) (simp_all add: reader_intros)

lemma reader_PrivacyInfo [reader_intros]: "reader (mwPrivacyInfo_get x)"
  unfolding mwPrivacyInfo_get_def Let_def by (intro reader_intros)

lemma privacy_get_users_wire:
  "list_all mwUserItem_valid xs \<Longrightarrow>
   run_state (privacy_get_users (length xs) (replicate (length xs) mwUserItem_zero @ ys))
     (gbuf w pre (concat (map mwUserItem_wire (rev xs)) @ post))
   = (map mwUserItem_norm xs @ ys, gbuf w (pre @ concat (map mwUserItem_wire (rev xs))) post)"
proof (induction xs arbitrary: ys pre rule: rev_induct)
  case Nil
  show ?case by simp
next
  case (snoc x xs)
  have rep: "replicate (length (xs @ [x])) mwUserItem_zero @ ys
      = replicate (length xs) mwUserItem_zero @ mwUserItem_zero # ys"
    by (simp add: replicate_app_Cons_same)
  have upd: "(replicate (length xs) mwUserItem_zero @ mwUserItem_zero # ys)[length xs := mwUserItem_norm x]
      = replicate (length xs) mwUserItem_zero @ mwUserItem_norm x # ys"
    by (rule butlast_list_update_snoc) simp
  have nth: "(replicate (length xs) mwUserItem_zero @ mwUserItem_zero # ys) ! length xs = mwUserItem_zero"
    by (simp add: nth_append)
  show ?case
    unfolding rep using snoc by (simp add: nth upd reads_simps)
qed

lemma mwPrivacyInfo_get_wire [reads_simps]:
  assumes "mwPrivacyInfo_valid x"
  shows "run_state (mwPrivacyInfo_get mwPrivacyInfo_zero) (gbuf w pre (mwPrivacyInfo_wire x @ post))
     = (mwPrivacyInfo_norm x, gbuf w (pre @ mwPrivacyInfo_wire x) post)"
proof (cases "pi_count x = 0")
  case True
  with assms show ?thesis
    by (simp add: mwPrivacyInfo_get_def mwPrivacyInfo_wire_def mwPrivacyInfo_valid_def
        mwPrivacyInfo_norm_def mwPrivacyInfo_zero_def reads_simps)
next
  case False
  have "run_state (privacy_get_users (unat (pi_count x)) (replicate (unat (pi_count x)) mwUserItem_zero))
     (gbuf w (pre @ of_bool (pi_deny x) # MW32_PUT (pi_count x))
       (concat (map mwUserItem_wire (rev (pi_users x))) @ post))
   = (map mwUserItem_norm (pi_users x),
      gbuf w (pre @ of_bool (pi_deny x) # MW32_PUT (pi_count x) @ concat (map mwUserItem_wire (rev (pi_users x)))) post)"
    using privacy_get_users_wire [of "pi_users x" "[]" w _ post] assms
    by (simp add: mwPrivacyInfo_valid_def)
  with False assms show ?thesis
    by (simp add: mwPrivacyInfo_get_def mwPrivacyInfo_wire_def mwPrivacyInfo_valid_def
        mwPrivacyInfo_norm_def mwPrivacyInfo_zero_def reads_simps)
qed

interpretation mwPrivacyInfo: codec mwPrivacyInfo_put mwPrivacyInfo_get mwPrivacyInfo_wire
  mwPrivacyInfo_valid mwPrivacyInfo_zero mwPrivacyInfo_norm
  by unfold_locales (simp_all add: writer_intros reader_intros reads_simps)

lemma privacy_clone_users_eq:
  "length to = c + length ys \<Longrightarrow> length from = c + length ys \<Longrightarrow> drop c to = ys \<Longrightarrow>
   (\<forall>u \<in> set (take c to). u = mwUserItem_zero) \<Longrightarrow>
   privacy_clone_users c to from = map (mwUserItem_clone mwUserItem_zero) (take c from) @ ys"
proof (induction c arbitrary: to ys)
  case 0
  then show ?case by simp
next
  case (Suc c)
  let ?u = "mwUserItem_clone (to ! c) (from ! c)"
  have z: "to ! c = mwUserItem_zero"
    using Suc.prems by (auto simp: take_Suc_conv_app_nth)
  have "drop c (to[c := ?u]) = ?u # ys"
    using Suc.prems
    by (metis Suc_le_lessD add_Suc add_lessD1 Cons_nth_drop_Suc drop_update_cancel le_add1
        length_list_update lessI nth_list_update_eq)
  moreover have "\<forall>u \<in> set (take c (to[c := ?u])). u = mwUserItem_zero"
    using Suc.prems(4) set_take_subset_set_take [of c "Suc c" to] by auto
  ultimately have "privacy_clone_users c (to[c := ?u]) from
      = map (mwUserItem_clone mwUserItem_zero) (take c from) @ ?u # ys"
    using Suc.prems by (intro Suc.IH) auto
  with Suc.prems z show ?case
    by (simp add: take_Suc_conv_app_nth)
qed

lemma mwPrivacyInfo_clone_eq:
  "length (pi_users x) = unat (pi_count x) \<Longrightarrow>
   mwPrivacyInfo_clone x = x\<lparr>pi_users := map (mwUserItem_clone mwUserItem_zero) (pi_users x)\<rparr>"
  using privacy_clone_users_eq [of "replicate (unat (pi_count x)) mwUserItem_zero" "unat (pi_count x)" "[]" "pi_users x"]
  by (simp add: mwPrivacyInfo_clone_def Let_def)

subsection \<open>User status\<close>

record mwUserStatus =
  us_status :: guint16
  us_time :: guint32
  us_desc :: cstr

definition mwUserStatus_zero :: mwUserStatus where
  "mwUserStatus_zero = \<lparr>us_status = 0, us_time = 0, us_desc = None\<rparr>"

definition mwUserStatus_put :: "mwUserStatus \<Rightarrow> (mwPutBuffer, unit) state" where
  "mwUserStatus_put stat = do {
     guint16_put (us_status stat);
     guint32_put (us_time stat);
     mwString_put (us_desc stat)
   }"

text \<open>The reader overwrites the time it has read with zero.\<close>

definition mwUserStatus_get :: "mwUserStatus \<Rightarrow> (mwGetBuffer, mwUserStatus) state" where
  "mwUserStatus_get stat = do {
     e \<leftarrow> mwGetBuffer_error;
     if e then State_Monad.return stat
     else do {
       status \<leftarrow> guint16_get (us_status stat);
       time \<leftarrow> guint32_get (us_time stat);
       desc \<leftarrow> mwString_get;
       let stat = stat\<lparr>us_status := status, us_time := time, us_desc := desc\<rparr>;
       State_Monad.return (stat\<lparr>us_time := 0\<rparr>)
     }
   }"

definition mwUserStatus_clear :: "mwUserStatus \<Rightarrow> mwUserStatus" where
  "mwUserStatus_clear stat = mwUserStatus_zero"

definition mwUserStatus_clone :: "mwUserStatus \<Rightarrow> mwUserStatus \<Rightarrow> mwUserStatus" where
  "mwUserStatus_clone to from =
     to\<lparr>us_status := us_status from, us_time := us_time from, us_desc := us_desc from\<rparr>"

definition mwUserStatus_wire :: "mwUserStatus \<Rightarrow> bytes" where
  "mwUserStatus_wire stat = MW16_PUT (us_status stat) @ MW32_PUT (us_time stat) @ string_wire (us_desc stat)"

definition mwUserStatus_valid :: "mwUserStatus \<Rightarrow> bool" where
  "mwUserStatus_valid stat = string_valid (us_desc stat)"

definition mwUserStatus_norm :: "mwUserStatus \<Rightarrow> mwUserStatus" where
  "mwUserStatus_norm stat = stat\<lparr>us_time := 0, us_desc := string_norm (us_desc stat)\<rparr>"

lemma writes_UserStatus [writer_intros]: "writes (mwUserStatus_put x) (mwUserStatus_wire x)"
  unfolding mwUserStatus_put_def mwUserStatus_wire_def by (intro writer_intros)

lemma reader_UserStatus [reader_intros]: "reader (mwUserStatus_get x)"
  unfolding mwUserStatus_get_def Let_def by (intro reader_intros)

lemma mwUserStatus_get_wire [reads_simps]:
  "mwUserStatus_valid x \<Longrightarrow>
   run_state (mwUserStatus_get mwUserStatus_zero) (gbuf w pre (mwUserStatus_wire x @ post))
     = (mwUserStatus_norm x, gbuf w (pre @ mwUserStatus_wire x) post)"
  by (simp add: mwUserStatus_get_def mwUserStatus_wire_def mwUserStatus_valid_def mwUserStatus_norm_def
      mwUserStatus_zero_def reads_simps)

interpretation mwUserStatus: codec mwUserStatus_put mwUserStatus_get mwUserStatus_wire mwUserStatus_valid
  mwUserStatus_zero mwUserStatus_norm
  by unfold_locales (simp_all add: writer_intros reader_intros reads_simps)

subsection \<open>ID blocks\<close>

record mwIdBlock =
  ib_user :: cstr
  ib_community :: cstr

definition mwIdBlock_zero :: mwIdBlock where
  "mwIdBlock_zero = \<lparr>ib_user = None, ib_community = None\<rparr>"

definition mwIdBlock_put :: "mwIdBlock \<Rightarrow> (mwPutBuffer, unit) state" where
  "mwIdBlock_put idb = do {
     mwString_put (ib_user idb);
     mwString_put (ib_community idb)
   }"

definition mwIdBlock_get :: "mwIdBlock \<Rightarrow> (mwGetBuffer, mwIdBlock) state" where
  "mwIdBlock_get idb = do {
     e \<leftarrow> mwGetBuffer_error;
     if e then State_Monad.return idb
     else do {
       user \<leftarrow> mwString_get;
       community \<leftarrow> mwString_get;
       State_Monad.return (idb\<lparr>ib_user := user, ib_community := community\<rparr>)
     }
   }"

definition mwIdBlock_clear :: "mwIdBlock \<Rightarrow> mwIdBlock" where
  "mwIdBlock_clear idb = idb\<lparr>ib_user := None, ib_community := None\<rparr>"

definition mwIdBlock_clone :: "mwIdBlock \<Rightarrow> mwIdBlock \<Rightarrow> mwIdBlock" where
  "mwIdBlock_clone to from = to\<lparr>ib_user := ib_user from, ib_community := ib_community from\<rparr>"

text \<open>\<open>g_str_hash\<close> is GLib's.\<close>

definition mwIdBlock_hash :: "(cstr \<Rightarrow> guint32) \<Rightarrow> mwIdBlock option \<Rightarrow> guint32" where
  "mwIdBlock_hash g_str_hash idb = (case idb of None \<Rightarrow> 0 | Some i \<Rightarrow> g_str_hash (ib_user i))"

definition mwIdBlock_equal :: "mwIdBlock option \<Rightarrow> mwIdBlock option \<Rightarrow> bool" where
  "mwIdBlock_equal a b =
     (case (a, b) of
        (Some x, Some y) \<Rightarrow> mw_streq (ib_user x) (ib_user y) \<and> mw_streq (ib_community x) (ib_community y)
      | _ \<Rightarrow> False)"

definition mwIdBlock_wire :: "mwIdBlock \<Rightarrow> bytes" where
  "mwIdBlock_wire idb = string_wire (ib_user idb) @ string_wire (ib_community idb)"

definition mwIdBlock_valid :: "mwIdBlock \<Rightarrow> bool" where
  "mwIdBlock_valid idb \<longleftrightarrow> string_valid (ib_user idb) \<and> string_valid (ib_community idb)"

definition mwIdBlock_norm :: "mwIdBlock \<Rightarrow> mwIdBlock" where
  "mwIdBlock_norm idb = \<lparr>ib_user = string_norm (ib_user idb), ib_community = string_norm (ib_community idb)\<rparr>"

lemma mw_streq_eq [simp]: "mw_streq a b \<longleftrightarrow> a = b"
  by (auto simp: mw_streq_def split: option.splits)

lemma mwIdBlock_equal_iff [simp]: "mwIdBlock_equal (Some a) (Some b) \<longleftrightarrow> a = b"
  by (auto simp: mwIdBlock_equal_def)

lemma writes_IdBlock [writer_intros]: "writes (mwIdBlock_put x) (mwIdBlock_wire x)"
  unfolding mwIdBlock_put_def mwIdBlock_wire_def by (intro writer_intros)

lemma reader_IdBlock [reader_intros]: "reader (mwIdBlock_get x)"
  unfolding mwIdBlock_get_def Let_def by (intro reader_intros)

lemma mwIdBlock_get_wire [reads_simps]:
  "mwIdBlock_valid x \<Longrightarrow>
   run_state (mwIdBlock_get mwIdBlock_zero) (gbuf w pre (mwIdBlock_wire x @ post))
     = (mwIdBlock_norm x, gbuf w (pre @ mwIdBlock_wire x) post)"
  by (simp add: mwIdBlock_get_def mwIdBlock_wire_def mwIdBlock_valid_def mwIdBlock_norm_def
      mwIdBlock_zero_def reads_simps)

interpretation mwIdBlock: codec mwIdBlock_put mwIdBlock_get mwIdBlock_wire mwIdBlock_valid
  mwIdBlock_zero mwIdBlock_norm
  by unfold_locales (simp_all add: writer_intros reader_intros reads_simps)

subsection \<open>Encryption items\<close>

record mwEncryptItem =
  ei_id :: guint16
  ei_info :: mwOpaque

definition mwEncryptItem_zero :: mwEncryptItem where
  "mwEncryptItem_zero = \<lparr>ei_id = 0, ei_info = opaque_of []\<rparr>"

definition mwEncryptItem_put :: "mwEncryptItem \<Rightarrow> (mwPutBuffer, unit) state" where
  "mwEncryptItem_put ei = do {
     guint16_put (ei_id ei);
     mwOpaque_put (Some (ei_info ei))
   }"

definition mwEncryptItem_get :: "mwEncryptItem \<Rightarrow> (mwGetBuffer, mwEncryptItem) state" where
  "mwEncryptItem_get ei = do {
     e \<leftarrow> mwGetBuffer_error;
     if e then State_Monad.return ei
     else do {
       id \<leftarrow> guint16_get (ei_id ei);
       info \<leftarrow> mwOpaque_get;
       State_Monad.return (ei\<lparr>ei_id := id, ei_info := info\<rparr>)
     }
   }"

definition mwEncryptItem_clear :: "mwEncryptItem \<Rightarrow> mwEncryptItem" where
  "mwEncryptItem_clear ei = ei\<lparr>ei_id := 0, ei_info := mwOpaque_clear (ei_info ei)\<rparr>"

definition mwEncryptItem_wire :: "mwEncryptItem \<Rightarrow> bytes" where
  "mwEncryptItem_wire ei = MW16_PUT (ei_id ei) @ opaque_wire (opaque_bytes (ei_info ei))"

definition mwEncryptItem_valid :: "mwEncryptItem \<Rightarrow> bool" where
  "mwEncryptItem_valid ei = opaque_valid (ei_info ei)"

definition mwEncryptItem_norm :: "mwEncryptItem \<Rightarrow> mwEncryptItem" where
  "mwEncryptItem_norm ei = ei\<lparr>ei_info := opaque_norm (ei_info ei)\<rparr>"

lemma writes_EncryptItem [writer_intros]:
  "mwEncryptItem_valid x \<Longrightarrow> writes (mwEncryptItem_put x) (mwEncryptItem_wire x)"
  unfolding mwEncryptItem_put_def mwEncryptItem_wire_def mwEncryptItem_valid_def opaque_valid_def
  by (intro writer_intros) simp

lemma reader_EncryptItem [reader_intros]: "reader (mwEncryptItem_get x)"
  unfolding mwEncryptItem_get_def by (intro reader_intros)

lemma mwEncryptItem_get_wire [reads_simps]:
  "mwEncryptItem_valid x \<Longrightarrow>
   run_state (mwEncryptItem_get mwEncryptItem_zero) (gbuf w pre (mwEncryptItem_wire x @ post))
     = (mwEncryptItem_norm x, gbuf w (pre @ mwEncryptItem_wire x) post)"
  by (simp add: mwEncryptItem_get_def mwEncryptItem_wire_def mwEncryptItem_valid_def mwEncryptItem_norm_def
      mwEncryptItem_zero_def reads_simps)

interpretation mwEncryptItem: codec mwEncryptItem_put mwEncryptItem_get mwEncryptItem_wire mwEncryptItem_valid
  mwEncryptItem_zero mwEncryptItem_norm
  by unfold_locales (simp_all add: writer_intros reader_intros reads_simps)

subsection \<open>Awareness IDs and snapshots\<close>

record mwAwareIdBlock =
  ab_type :: guint16
  ab_user :: cstr
  ab_community :: cstr

definition mwAwareIdBlock_zero :: mwAwareIdBlock where
  "mwAwareIdBlock_zero = \<lparr>ab_type = 0, ab_user = None, ab_community = None\<rparr>"

definition mwAwareIdBlock_put :: "mwAwareIdBlock \<Rightarrow> (mwPutBuffer, unit) state" where
  "mwAwareIdBlock_put idb = do {
     guint16_put (ab_type idb);
     mwString_put (ab_user idb);
     mwString_put (ab_community idb)
   }"

definition mwAwareIdBlock_get :: "mwAwareIdBlock \<Rightarrow> (mwGetBuffer, mwAwareIdBlock) state" where
  "mwAwareIdBlock_get idb = do {
     e \<leftarrow> mwGetBuffer_error;
     if e then State_Monad.return idb
     else do {
       type \<leftarrow> guint16_get (ab_type idb);
       user \<leftarrow> mwString_get;
       community \<leftarrow> mwString_get;
       State_Monad.return (idb\<lparr>ab_type := type, ab_user := user, ab_community := community\<rparr>)
     }
   }"

definition mwAwareIdBlock_clone :: "mwAwareIdBlock \<Rightarrow> mwAwareIdBlock \<Rightarrow> mwAwareIdBlock" where
  "mwAwareIdBlock_clone to from =
     to\<lparr>ab_type := ab_type from, ab_user := ab_user from, ab_community := ab_community from\<rparr>"

definition mwAwareIdBlock_clear :: "mwAwareIdBlock \<Rightarrow> mwAwareIdBlock" where
  "mwAwareIdBlock_clear idb = mwAwareIdBlock_zero"

definition mwAwareIdBlock_hash :: "(cstr \<Rightarrow> guint32) \<Rightarrow> mwAwareIdBlock option \<Rightarrow> guint32" where
  "mwAwareIdBlock_hash g_str_hash a = (case a of None \<Rightarrow> 0 | Some i \<Rightarrow> g_str_hash (ab_user i))"

definition mwAwareIdBlock_equal :: "mwAwareIdBlock option \<Rightarrow> mwAwareIdBlock option \<Rightarrow> bool" where
  "mwAwareIdBlock_equal a b =
     (case (a, b) of
        (Some x, Some y) \<Rightarrow> ab_type x = ab_type y \<and> mw_streq (ab_user x) (ab_user y)
                            \<and> mw_streq (ab_community x) (ab_community y)
      | _ \<Rightarrow> False)"

definition mwAwareIdBlock_wire :: "mwAwareIdBlock \<Rightarrow> bytes" where
  "mwAwareIdBlock_wire idb = MW16_PUT (ab_type idb) @ string_wire (ab_user idb) @ string_wire (ab_community idb)"

definition mwAwareIdBlock_valid :: "mwAwareIdBlock \<Rightarrow> bool" where
  "mwAwareIdBlock_valid idb \<longleftrightarrow> string_valid (ab_user idb) \<and> string_valid (ab_community idb)"

definition mwAwareIdBlock_norm :: "mwAwareIdBlock \<Rightarrow> mwAwareIdBlock" where
  "mwAwareIdBlock_norm idb =
     idb\<lparr>ab_user := string_norm (ab_user idb), ab_community := string_norm (ab_community idb)\<rparr>"

lemma mwAwareIdBlock_equal_iff [simp]: "mwAwareIdBlock_equal (Some a) (Some b) \<longleftrightarrow> a = b"
  by (auto simp: mwAwareIdBlock_equal_def)

lemma writes_AwareIdBlock [writer_intros]: "writes (mwAwareIdBlock_put x) (mwAwareIdBlock_wire x)"
  unfolding mwAwareIdBlock_put_def mwAwareIdBlock_wire_def by (intro writer_intros)

lemma reader_AwareIdBlock [reader_intros]: "reader (mwAwareIdBlock_get x)"
  unfolding mwAwareIdBlock_get_def by (intro reader_intros)

lemma mwAwareIdBlock_get_wire [reads_simps]:
  "mwAwareIdBlock_valid x \<Longrightarrow>
   run_state (mwAwareIdBlock_get mwAwareIdBlock_zero) (gbuf w pre (mwAwareIdBlock_wire x @ post))
     = (mwAwareIdBlock_norm x, gbuf w (pre @ mwAwareIdBlock_wire x) post)"
  by (simp add: mwAwareIdBlock_get_def mwAwareIdBlock_wire_def mwAwareIdBlock_valid_def mwAwareIdBlock_norm_def
      mwAwareIdBlock_zero_def reads_simps)

interpretation mwAwareIdBlock: codec mwAwareIdBlock_put mwAwareIdBlock_get mwAwareIdBlock_wire
  mwAwareIdBlock_valid mwAwareIdBlock_zero mwAwareIdBlock_norm
  by unfold_locales (simp_all add: writer_intros reader_intros reads_simps)

record mwAwareSnapshot =
  sn_id :: mwAwareIdBlock
  sn_group :: cstr
  sn_online :: bool
  sn_alt_id :: cstr
  sn_status :: mwUserStatus
  sn_name :: cstr

definition mwAwareSnapshot_zero :: mwAwareSnapshot where
  "mwAwareSnapshot_zero = \<lparr>sn_id = mwAwareIdBlock_zero, sn_group = None, sn_online = False,
     sn_alt_id = None, sn_status = mwUserStatus_zero, sn_name = None\<rparr>"

text \<open>
  \<open>end_of_block\<close> is an uninitialised local of the C function: \<open>junk\<close> is what
  happens to be on the stack. The block's end is an offset from \<open>b->buf\<close>.
\<close>

definition mwAwareSnapshot_get :: "guint32 \<Rightarrow> mwAwareSnapshot \<Rightarrow> (mwGetBuffer, mwAwareSnapshot) state" where
  "mwAwareSnapshot_get junk idb = do {
     end_of_block \<leftarrow> guint32_get junk;
     id \<leftarrow> mwAwareIdBlock_get (sn_id idb);
     group \<leftarrow> mwString_get;
     online \<leftarrow> gboolean_get (sn_online idb);
     let idb = idb\<lparr>sn_id := id, sn_group := group, sn_online := online\<rparr>;
     idb \<leftarrow> (if sn_online idb then do {
               alt_id \<leftarrow> mwString_get;
               status \<leftarrow> mwUserStatus_get (sn_status idb);
               name \<leftarrow> mwString_get;
               State_Monad.return (idb\<lparr>sn_alt_id := alt_id, sn_status := status, sn_name := name\<rparr>)
             } else State_Monad.return idb);
     b \<leftarrow> State_Monad.get;
     if gb_ptr b < unat end_of_block
     then do { mwGetBuffer_advance (unat end_of_block - gb_ptr b); State_Monad.return idb }
     else State_Monad.return idb
   }"

definition mwAwareSnapshot_clone :: "mwAwareSnapshot \<Rightarrow> mwAwareSnapshot \<Rightarrow> mwAwareSnapshot" where
  "mwAwareSnapshot_clone to from =
     (let to = to\<lparr>sn_id := mwAwareIdBlock_clone (sn_id to) (sn_id from), sn_online := sn_online from\<rparr>
      in if sn_online to
         then to\<lparr>sn_alt_id := sn_alt_id from, sn_status := mwUserStatus_clone (sn_status to) (sn_status from),
                 sn_name := sn_name from, sn_group := sn_group from\<rparr>
         else to)"

definition mwAwareSnapshot_clear :: "mwAwareSnapshot \<Rightarrow> mwAwareSnapshot" where
  "mwAwareSnapshot_clear idb = mwAwareSnapshot_zero"

text \<open>
  The layout of one snapshot. No writer exists for it: servers send them.
\<close>

definition mwAwareSnapshot_wire :: "guint32 \<Rightarrow> mwAwareSnapshot \<Rightarrow> bytes" where
  "mwAwareSnapshot_wire end_of_block idb =
     MW32_PUT end_of_block @ mwAwareIdBlock_wire (sn_id idb) @ string_wire (sn_group idb)
     @ [of_bool (sn_online idb)]
     @ (if sn_online idb then string_wire (sn_alt_id idb) @ mwUserStatus_wire (sn_status idb)
          @ string_wire (sn_name idb) else [])"

definition mwAwareSnapshot_valid :: "mwAwareSnapshot \<Rightarrow> bool" where
  "mwAwareSnapshot_valid idb \<longleftrightarrow> mwAwareIdBlock_valid (sn_id idb) \<and> string_valid (sn_group idb)
     \<and> (sn_online idb \<longrightarrow> string_valid (sn_alt_id idb) \<and> mwUserStatus_valid (sn_status idb)
          \<and> string_valid (sn_name idb))"

definition mwAwareSnapshot_norm :: "mwAwareSnapshot \<Rightarrow> mwAwareSnapshot" where
  "mwAwareSnapshot_norm idb = \<lparr>sn_id = mwAwareIdBlock_norm (sn_id idb), sn_group = string_norm (sn_group idb),
     sn_online = sn_online idb,
     sn_alt_id = (if sn_online idb then string_norm (sn_alt_id idb) else None),
     sn_status = (if sn_online idb then mwUserStatus_norm (sn_status idb) else mwUserStatus_zero),
     sn_name = (if sn_online idb then string_norm (sn_name idb) else None)\<rparr>"

lemma run_advance_gbuf:
  "run_state (mwGetBuffer_advance n) (gbuf w pre post)
     = (min n (length post), gbuf w (pre @ take n post) (drop n post))"
  by (auto simp: mwGetBuffer_advance_def gb_skip_def gbuf_def min_def Let_def)

lemma run_read_gbuf:
  "run_state (mwGetBuffer_read n) (gbuf w pre post) = (take n post, gbuf w (pre @ take n post) (drop n post))"
  by (auto simp: mwGetBuffer_read_def gb_fetch_def gb_skip_def gbuf_def)

lemma mwAwareSnapshot_get_wire:
  assumes "mwAwareSnapshot_valid x"
  shows "run_state (mwAwareSnapshot_get junk mwAwareSnapshot_zero)
       (gbuf w pre (mwAwareSnapshot_wire eob x @ post))
     = (mwAwareSnapshot_norm x,
        let k = unat eob - length (pre @ mwAwareSnapshot_wire eob x)
        in gbuf w (pre @ mwAwareSnapshot_wire eob x @ take k post) (drop k post))"
  using assms
  by (cases "sn_online x")
    (auto simp: mwAwareSnapshot_get_def mwAwareSnapshot_wire_def mwAwareSnapshot_valid_def
      mwAwareSnapshot_norm_def mwAwareSnapshot_zero_def reads_simps run_advance_gbuf Let_def)

subsection \<open>Properties\<close>

text \<open>
  Login information, with its optional second half, survives the wire; a cut
  anywhere inside it is detected.
\<close>

theorem mwLoginInfo_round_trip:
  assumes "mwLoginInfo_valid login" and "n < length (mwLoginInfo_wire login)"
  shows "run_state (mwLoginInfo_get mwLoginInfo_zero)
      (mwGetBuffer_wrap (Some (mwPutBuffer_finalize (exec_state (mwLoginInfo_put login) mwPutBuffer_new))))
      = (mwLoginInfo_norm login, gbuf True (mwLoginInfo_wire login) [])
    \<and> gb_error (exec_state (mwLoginInfo_get mwLoginInfo_zero) (gbuf True [] (take n (mwLoginInfo_wire login))))"
  using mwLoginInfo.round_trip [OF assms(1)] mwLoginInfo.truncated [OF assms] by simp

definition example_login :: mwLoginInfo where
  "example_login = mwLoginInfo_zero\<lparr>li_login_id := Some [49], li_type := 0x1700, li_user_id := Some [97],
     li_full := True, li_desc := Some [100, 101], li_ip_addr := 0x7f000001\<rparr>"

theorem mwLoginInfo_round_trip_witness:
  "mwLoginInfo_valid example_login \<and> 12 < length (mwLoginInfo_wire example_login)
   \<and> run_state (mwLoginInfo_get mwLoginInfo_zero)
      (mwGetBuffer_wrap (Some (mwPutBuffer_finalize (exec_state (mwLoginInfo_put example_login) mwPutBuffer_new))))
      = (mwLoginInfo_norm example_login, gbuf True (mwLoginInfo_wire example_login) [])
   \<and> gb_error (exec_state (mwLoginInfo_get mwLoginInfo_zero)
        (gbuf True [] (take 12 (mwLoginInfo_wire example_login))))"
proof -
  have v: "mwLoginInfo_valid example_login"
    by (simp add: example_login_def mwLoginInfo_zero_def mwLoginInfo_valid_def string_valid_def)
  moreover have l: "12 < length (mwLoginInfo_wire example_login)"
    by (simp add: example_login_def mwLoginInfo_zero_def mwLoginInfo_wire_def string_wire_def)
  ultimately show ?thesis
    using mwLoginInfo_round_trip [OF v l] by simp
qed

lemma mwUserItem_clone_wire: "mwUserItem_wire (mwUserItem_clone y x) = mwUserItem_wire x"
  by (cases x; cases y) (simp add: mwUserItem_wire_def mwUserItem_clone_def)

text \<open>
  A privacy list whose \<open>count\<close> is the length of its array is read back with
  the users in their places, although both sides run through the array backwards;
  and the copy \<open>mwPrivacyInfo_clone\<close> makes goes over the wire as the same bytes.
\<close>

theorem mwPrivacyInfo_round_trip:
  assumes "mwPrivacyInfo_valid info"
  shows "run_state (mwPrivacyInfo_get mwPrivacyInfo_zero)
      (mwGetBuffer_wrap (Some (mwPutBuffer_finalize (exec_state (mwPrivacyInfo_put info) mwPutBuffer_new))))
      = (info\<lparr>pi_users := map mwUserItem_norm (pi_users info)\<rparr>, gbuf True (mwPrivacyInfo_wire info) [])
    \<and> mwPrivacyInfo_wire (mwPrivacyInfo_clone info) = mwPrivacyInfo_wire info"
  using mwPrivacyInfo.round_trip [OF assms] mwPrivacyInfo_clone_eq [of info] assms
  by (simp add: mwPrivacyInfo_norm_def mwPrivacyInfo_valid_def mwPrivacyInfo_wire_def
      mwUserItem_clone_wire rev_map comp_def)

definition example_privacy :: mwPrivacyInfo where
  "example_privacy = \<lparr>pi_deny = True, pi_count = 2,
     pi_users = [mwUserItem_zero\<lparr>ui_id := Some [97]\<rparr>, mwUserItem_zero\<lparr>ui_id := Some [98]\<rparr>]\<rparr>"

theorem mwPrivacyInfo_round_trip_witness:
  "mwPrivacyInfo_valid example_privacy \<and> run_state (mwPrivacyInfo_get mwPrivacyInfo_zero)
      (mwGetBuffer_wrap (Some (mwPutBuffer_finalize (exec_state (mwPrivacyInfo_put example_privacy) mwPutBuffer_new))))
      = (example_privacy\<lparr>pi_users := map mwUserItem_norm (pi_users example_privacy)\<rparr>,
         gbuf True (mwPrivacyInfo_wire example_privacy) [])
    \<and> mwPrivacyInfo_wire (mwPrivacyInfo_clone example_privacy) = mwPrivacyInfo_wire example_privacy"
proof -
  have v: "mwPrivacyInfo_valid example_privacy"
    by (simp add: example_privacy_def mwPrivacyInfo_valid_def mwUserItem_valid_def mwUserItem_zero_def
        string_valid_def)
  show ?thesis using mwPrivacyInfo_round_trip [OF v] v by simp
qed

text \<open>
  A snapshot is read field by field, an offline one without alternate ID,
  status and name; then the reader skips to the announced end of the block, an
  offset from the start of the buffer, and never backwards nor past the data.
\<close>

theorem mwAwareSnapshot_get_correct:
  assumes "mwAwareSnapshot_valid x"
  shows "run_state (mwAwareSnapshot_get junk mwAwareSnapshot_zero)
       (gbuf w pre (mwAwareSnapshot_wire eob x @ post))
     = (mwAwareSnapshot_norm x,
        let k = unat eob - length (pre @ mwAwareSnapshot_wire eob x)
        in gbuf w (pre @ mwAwareSnapshot_wire eob x @ take k post) (drop k post))"
  using assms by (rule mwAwareSnapshot_get_wire)

definition example_snapshot :: mwAwareSnapshot where
  "example_snapshot = mwAwareSnapshot_zero\<lparr>sn_online := True,
     sn_alt_id := Some [97], sn_status := mwUserStatus_zero, sn_name := Some [98]\<rparr>"

theorem mwAwareSnapshot_get_correct_witness:
  "mwAwareSnapshot_valid example_snapshot \<and> run_state (mwAwareSnapshot_get 5 mwAwareSnapshot_zero)
       (gbuf True [] (mwAwareSnapshot_wire 100 example_snapshot @ [1, 2, 3]))
     = (mwAwareSnapshot_norm example_snapshot,
        let k = unat (100 :: guint32) - length ([] @ mwAwareSnapshot_wire 100 example_snapshot)
        in gbuf True ([] @ mwAwareSnapshot_wire 100 example_snapshot @ take k [1, 2, 3]) (drop k [1, 2, 3]))"
proof -
  have v: "mwAwareSnapshot_valid example_snapshot"
    by (simp add: example_snapshot_def mwAwareSnapshot_zero_def mwAwareSnapshot_valid_def
        mwAwareIdBlock_zero_def mwAwareIdBlock_valid_def mwUserStatus_valid_def mwUserStatus_zero_def
        string_valid_def)
  show ?thesis
    using v mwAwareSnapshot_get_correct [OF v, of 5 True "[]" 100 "[1, 2, 3]"] by blast
qed

lemma mwIdBlock_equal_conv: "mwIdBlock_equal a b \<longleftrightarrow> a \<noteq> None \<and> a = b"
  by (cases a; cases b) (simp_all, simp_all add: mwIdBlock_equal_def)

lemma mwAwareIdBlock_equal_conv: "mwAwareIdBlock_equal a b \<longleftrightarrow> a \<noteq> None \<and> a = b"
  by (cases a; cases b) (simp_all, simp_all add: mwAwareIdBlock_equal_def)

text \<open>
  Identities as hash table keys. \<open>mwIdBlock_equal\<close> and \<open>mwAwareIdBlock_equal\<close>
  are equality of the blocks, NULL equal to nothing, and equal keys hash alike
  whatever string hash GLib provides.
\<close>

theorem id_keys_consistent:
  "(mwIdBlock_equal a b \<longleftrightarrow> a \<noteq> None \<and> a = b)
   \<and> (mwAwareIdBlock_equal c d \<longleftrightarrow> c \<noteq> None \<and> c = d)
   \<and> (\<not> mwIdBlock_equal a b \<or> mwIdBlock_hash g_str_hash a = mwIdBlock_hash g_str_hash b)
   \<and> (\<not> mwAwareIdBlock_equal c d \<or> mwAwareIdBlock_hash g_str_hash c = mwAwareIdBlock_hash g_str_hash d)"
  by (auto simp: mwIdBlock_equal_conv mwAwareIdBlock_equal_conv)

theorem id_keys_consistent_witness:
  "mwIdBlock_equal (Some mwIdBlock_zero) (Some mwIdBlock_zero)
   \<and> mwIdBlock_hash (\<lambda>s. of_nat (length (the s))) (Some mwIdBlock_zero)
     = mwIdBlock_hash (\<lambda>s. of_nat (length (the s))) (Some mwIdBlock_zero)
   \<and> mwAwareIdBlock_equal (Some mwAwareIdBlock_zero) (Some mwAwareIdBlock_zero)"
  using id_keys_consistent [of "Some mwIdBlock_zero" "Some mwIdBlock_zero"
      "Some mwAwareIdBlock_zero" "Some mwAwareIdBlock_zero" "\<lambda>s. of_nat (length (the s))"] by blast

end
