(* ===== verification/Cipher.thy ===== *)
theory Cipher
  imports RC2 Common
begin

text \<open>
  The ciphers of \<^verbatim>\<open>src/src/cipher.c\<close> that a channel negotiates: RC2/40, keyed by login
  IDs, and RC2/128, keyed by a Diffie-Hellman exchange; and the \<open>mwCipherInstance\<close>
  functions that dispatch on the cipher.

  A cipher is a constructor of \<open>mwCipher\<close> instead of a struct of function pointers.
  The pointer \<open>ci->cipher\<close> of an instance is an argument of its operations, and so are
  the login IDs they look up in the session and the channel. \<open>None\<close> results stand for
  reads outside a block. The big numbers of \<^verbatim>\<open>mpi/mpi.c\<close> enter as natural numbers; the
  theory on the key exchange shows that the digit arrays of the library compute the same.
\<close>

subsection \<open>Big numbers\<close>

definition mp_read_unsigned_bin :: "bytes \<Rightarrow> nat" where
  "mp_read_unsigned_bin bs = foldl (\<lambda>v b. v * 256 + unat b) 0 bs"

fun mp_digits :: "nat \<Rightarrow> bytes" where
  "mp_digits n = (if n = 0 then [] else mp_digits (n div 256) @ [of_nat (n mod 256)])"

declare mp_digits.simps [simp del]

definition mp_to_unsigned_bin :: "nat \<Rightarrow> bytes" where
  "mp_to_unsigned_bin n = (if n = 0 then [0] else mp_digits n)"

definition mp_exptmod :: "nat \<Rightarrow> nat \<Rightarrow> nat \<Rightarrow> nat" where
  "mp_exptmod a b m = a ^ b mod m"

lemma mp_read_append: "mp_read_unsigned_bin (bs @ [b]) = mp_read_unsigned_bin bs * 256 + unat b"
  by (simp add: mp_read_unsigned_bin_def)

lemma mp_read_digits: "mp_read_unsigned_bin (mp_digits n) = n"
proof (induction n rule: mp_digits.induct)
  case (1 n)
  then show ?case
    by (subst mp_digits.simps) (simp add: mp_read_append unat_of_nat, simp add: mp_read_unsigned_bin_def)
qed

lemma mp_import_export: "mp_read_unsigned_bin (mp_to_unsigned_bin n) = n"
  by (simp add: mp_to_unsigned_bin_def mp_read_digits) (simp add: mp_read_unsigned_bin_def)

lemma mp_to_unsigned_bin_nonempty [simp]: "mp_to_unsigned_bin n \<noteq> []"
  by (simp add: mp_to_unsigned_bin_def mp_digits.simps [of n])

subsection \<open>Diffie-Hellman\<close>

definition dh_prime_bytes :: bytes where
  "dh_prime_bytes = [
    0xCF, 0x84, 0xAF, 0xCE, 0x86, 0xDD, 0xFA, 0x52,
    0x7F, 0x13, 0x6D, 0x10, 0x35, 0x75, 0x28, 0xEE,
    0xFB, 0xA0, 0xAF, 0xEF, 0x80, 0x8F, 0x29, 0x17,
    0x4E, 0x3B, 0x6A, 0x9E, 0x97, 0x00, 0x01, 0x71,
    0x7C, 0x8F, 0x10, 0x6C, 0x41, 0xC1, 0x61, 0xA6,
    0xCE, 0x91, 0x05, 0x7B, 0x34, 0xDA, 0x62, 0xCB,
    0xB8, 0x7B, 0xFD, 0xC1, 0xB3, 0x5C, 0x1B, 0x91,
    0x0F, 0xEA, 0x72, 0x24, 0x9D, 0x56, 0x6B, 0x9F]"

definition dh_prime :: nat where
  "dh_prime = mp_read_unsigned_bin dh_prime_bytes"

definition DH_BASE :: nat where
  "DH_BASE = 3"

text \<open>\<open>mwDHRandKeypair\<close>, the random private key an argument.\<close>

definition mwDHRandKeypair :: "nat \<Rightarrow> nat \<times> nat" where
  "mwDHRandKeypair random = (random, mp_exptmod DH_BASE random dh_prime)"

definition mwDHCalculateShared :: "nat \<Rightarrow> nat \<Rightarrow> nat" where
  "mwDHCalculateShared remote_key private_key = mp_exptmod remote_key private_key dh_prime"

definition mwDHImportKey :: "mwOpaque \<Rightarrow> nat" where
  "mwDHImportKey o' = mp_read_unsigned_bin (opaque_bytes o')"

definition mwDHExportKey :: "nat \<Rightarrow> mwOpaque" where
  "mwDHExportKey key = opaque_of (mp_to_unsigned_bin key)"

lemma mwDH_import_export: "mwDHImportKey (mwDHExportKey k) = k"
  by (simp add: mwDHImportKey_def mwDHExportKey_def mp_import_export)

lemma mwDH_agree:
  "mwDHCalculateShared (snd (mwDHRandKeypair a)) b = mwDHCalculateShared (snd (mwDHRandKeypair b)) a"
  by (simp add: mwDHCalculateShared_def mwDHRandKeypair_def mp_exptmod_def power_mod power_mult [symmetric]
      mult.commute)

subsection \<open>Ciphers and their instances\<close>

record mwCipher_RC2_40 =
  c40_session_key :: "gint list"
  c40_ready :: bool

record mwCipherInstance_RC2_40 =
  i40_incoming_key :: "gint list"
  i40_outgoing_iv :: bytes
  i40_incoming_iv :: bytes

record mwCipher_RC2_128 =
  c128_private_key :: nat
  c128_public_key :: mwOpaque

record mwCipherInstance_RC2_128 =
  i128_shared :: "gint list"
  i128_outgoing_iv :: bytes
  i128_incoming_iv :: bytes

datatype mwCipher = RC2_40 mwCipher_RC2_40 | RC2_128 mwCipher_RC2_128

datatype mwCipherInstance = Inst_RC2_40 mwCipherInstance_RC2_40 | Inst_RC2_128 mwCipherInstance_RC2_128

abbreviation zero_key :: "gint list" where
  "zero_key \<equiv> replicate 64 0"

text \<open>The block of a C string, with its terminator, read as a key.\<close>

definition login_key :: "cstr \<Rightarrow> bytes option" where
  "login_key login_id = map_option (\<lambda>s. s @ [0]) login_id"

subsubsection \<open>RC2/40\<close>

definition mwCipher_new_RC2_40 :: mwCipher_RC2_40 where
  "mwCipher_new_RC2_40 = \<lparr>c40_session_key = zero_key, c40_ready = False\<rparr>"

definition new_instance_RC2_40 ::
  "cstr \<Rightarrow> mwCipher_RC2_40 \<Rightarrow> (mwCipher_RC2_40 \<times> mwCipherInstance_RC2_40) option" where
  "new_instance_RC2_40 session_login_id cr =
     map_option (\<lambda>cr. (cr, \<lparr>i40_incoming_key = zero_key, i40_outgoing_iv = mwIV_init, i40_incoming_iv = mwIV_init\<rparr>))
       (if \<not> c40_ready cr
        then map_option (\<lambda>k. cr\<lparr>c40_session_key := k, c40_ready := True\<rparr>)
               (mwKeyExpand (c40_session_key cr) (login_key session_login_id) 5)
        else Some cr)"

definition new_item_RC2_40 :: mwEncryptItem where
  "new_item_RC2_40 = \<lparr>ei_id = 0, ei_info = \<lparr>op_len = 0, op_data = None\<rparr>\<rparr>"

definition offer_RC2_40 :: mwEncryptItem where
  "offer_RC2_40 = new_item_RC2_40"

definition accepted_RC2_40 :: "cstr \<Rightarrow> mwCipherInstance_RC2_40 \<Rightarrow> mwCipherInstance_RC2_40 option" where
  "accepted_RC2_40 user_login_id cir =
     (if user_login_id \<noteq> None
      then map_option (\<lambda>k. cir\<lparr>i40_incoming_key := k\<rparr>)
             (mwKeyExpand (i40_incoming_key cir) (login_key user_login_id) 5)
      else Some cir)"

definition accept_RC2_40 ::
  "cstr \<Rightarrow> mwCipherInstance_RC2_40 \<Rightarrow> (mwCipherInstance_RC2_40 \<times> mwEncryptItem) option" where
  "accept_RC2_40 user_login_id cir =
     map_option (\<lambda>cir. (cir, new_item_RC2_40)) (accepted_RC2_40 user_login_id cir)"

definition encrypt_RC2_40 ::
  "mwCipher_RC2_40 \<Rightarrow> mwCipherInstance_RC2_40 \<Rightarrow> mwOpaque \<Rightarrow> mwCipherInstance_RC2_40 \<times> mwOpaque" where
  "encrypt_RC2_40 cr cir data =
     (let (iv, o') = mwEncryptExpanded (c40_session_key cr) (i40_outgoing_iv cir) data
      in (cir\<lparr>i40_outgoing_iv := iv\<rparr>, o'))"

definition decrypt_RC2_40 ::
  "mwCipherInstance_RC2_40 \<Rightarrow> mwOpaque \<Rightarrow> (mwCipherInstance_RC2_40 \<times> mwOpaque) option" where
  "decrypt_RC2_40 cir data =
     map_option (\<lambda>(iv, o'). (cir\<lparr>i40_incoming_iv := iv\<rparr>, o'))
       (mwDecryptExpanded (i40_incoming_key cir) (i40_incoming_iv cir) data)"

subsubsection \<open>RC2/128\<close>

definition mwCipher_new_RC2_128 :: "nat \<Rightarrow> mwCipher_RC2_128" where
  "mwCipher_new_RC2_128 random =
     (let (private_key, pubkey) = mwDHRandKeypair random
      in \<lparr>c128_private_key = private_key, c128_public_key = mwDHExportKey pubkey\<rparr>)"

definition new_instance_RC2_128 :: mwCipherInstance_RC2_128 where
  "new_instance_RC2_128 = \<lparr>i128_shared = zero_key, i128_outgoing_iv = mwIV_init, i128_incoming_iv = mwIV_init\<rparr>"

text \<open>
  The key is the last sixteen bytes of the exported secret; with a shorter secret the
  pointer \<open>sho.data+(sho.len-16)\<close> is in front of the block.
\<close>

definition offered_RC2_128 ::
  "mwCipher_RC2_128 \<Rightarrow> mwCipherInstance_RC2_128 \<Rightarrow> mwEncryptItem \<Rightarrow> mwCipherInstance_RC2_128 option" where
  "offered_RC2_128 cr cir item =
     (let remote_key = mwDHImportKey (ei_info item);
          shared = mwDHCalculateShared remote_key (c128_private_key cr);
          sho = mwDHExportKey shared
      in if op_len sho < 16 then None
         else map_option (\<lambda>k. cir\<lparr>i128_shared := k\<rparr>)
                (mwKeyExpand (i128_shared cir) (Some (drop (op_len sho - 16) (opaque_bytes sho))) 16))"

definition offer_RC2_128 :: "mwCipher_RC2_128 \<Rightarrow> mwEncryptItem" where
  "offer_RC2_128 cr = \<lparr>ei_id = 1, ei_info = mwOpaque_clone (Some (c128_public_key cr))\<rparr>"

definition accepted_RC2_128 ::
  "mwCipher_RC2_128 \<Rightarrow> mwCipherInstance_RC2_128 \<Rightarrow> mwEncryptItem \<Rightarrow> mwCipherInstance_RC2_128 option" where
  "accepted_RC2_128 cr cir item = offered_RC2_128 cr cir item"

definition accept_RC2_128 :: "mwCipher_RC2_128 \<Rightarrow> mwEncryptItem" where
  "accept_RC2_128 cr = offer_RC2_128 cr"

definition encrypt_RC2_128 :: "mwCipherInstance_RC2_128 \<Rightarrow> mwOpaque \<Rightarrow> mwCipherInstance_RC2_128 \<times> mwOpaque" where
  "encrypt_RC2_128 cir data =
     (let (iv, o') = mwEncryptExpanded (i128_shared cir) (i128_outgoing_iv cir) data
      in (cir\<lparr>i128_outgoing_iv := iv\<rparr>, o'))"

definition decrypt_RC2_128 ::
  "mwCipherInstance_RC2_128 \<Rightarrow> mwOpaque \<Rightarrow> (mwCipherInstance_RC2_128 \<times> mwOpaque) option" where
  "decrypt_RC2_128 cir data =
     map_option (\<lambda>(iv, o'). (cir\<lparr>i128_incoming_iv := iv\<rparr>, o'))
       (mwDecryptExpanded (i128_shared cir) (i128_incoming_iv cir) data)"

subsubsection \<open>Dispatch on the cipher\<close>

text \<open>
  An instance and a cipher of different
  kinds never meet: an instance belongs to the cipher that made it (\<open>instance_of\<close>).
\<close>

fun instance_of :: "mwCipher \<Rightarrow> mwCipherInstance \<Rightarrow> bool" where
  "instance_of (RC2_40 cr) (Inst_RC2_40 cir) = True"
| "instance_of (RC2_128 cr) (Inst_RC2_128 cir) = True"
| "instance_of _ _ = False"

definition mwCipher_getType :: "mwCipher option \<Rightarrow> guint16" where
  "mwCipher_getType cipher =
     (case cipher of None \<Rightarrow> 0xffff | Some (RC2_40 cr) \<Rightarrow> 0x0000 | Some (RC2_128 cr) \<Rightarrow> 0x0001)"

fun mwCipher_newInstance :: "cstr \<Rightarrow> mwCipher \<Rightarrow> (mwCipher \<times> mwCipherInstance) option" where
  "mwCipher_newInstance session_login_id (RC2_40 cr) =
     map_option (\<lambda>(cr, cir). (RC2_40 cr, Inst_RC2_40 cir)) (new_instance_RC2_40 session_login_id cr)"
| "mwCipher_newInstance session_login_id (RC2_128 cr) = Some (RC2_128 cr, Inst_RC2_128 new_instance_RC2_128)"

fun mwCipherInstance_offered :: "mwCipher \<Rightarrow> mwCipherInstance \<Rightarrow> mwEncryptItem \<Rightarrow> mwCipherInstance option" where
  "mwCipherInstance_offered (RC2_128 cr) (Inst_RC2_128 cir) item =
     map_option Inst_RC2_128 (offered_RC2_128 cr cir item)"
| "mwCipherInstance_offered _ ci item = Some ci"

fun mwCipherInstance_offer :: "mwCipher \<Rightarrow> mwCipherInstance \<Rightarrow> mwEncryptItem" where
  "mwCipherInstance_offer (RC2_40 cr) ci = offer_RC2_40"
| "mwCipherInstance_offer (RC2_128 cr) ci = offer_RC2_128 cr"

fun mwCipherInstance_accepted ::
  "cstr \<Rightarrow> mwCipher \<Rightarrow> mwCipherInstance \<Rightarrow> mwEncryptItem \<Rightarrow> mwCipherInstance option" where
  "mwCipherInstance_accepted user_login_id (RC2_40 cr) (Inst_RC2_40 cir) item =
     map_option Inst_RC2_40 (accepted_RC2_40 user_login_id cir)"
| "mwCipherInstance_accepted user_login_id (RC2_128 cr) (Inst_RC2_128 cir) item =
     map_option Inst_RC2_128 (accepted_RC2_128 cr cir item)"
| "mwCipherInstance_accepted user_login_id _ ci item = Some ci"

fun mwCipherInstance_accept ::
  "cstr \<Rightarrow> mwCipher \<Rightarrow> mwCipherInstance \<Rightarrow> (mwCipherInstance \<times> mwEncryptItem) option" where
  "mwCipherInstance_accept user_login_id (RC2_40 cr) (Inst_RC2_40 cir) =
     map_option (\<lambda>(cir, item). (Inst_RC2_40 cir, item)) (accept_RC2_40 user_login_id cir)"
| "mwCipherInstance_accept user_login_id (RC2_128 cr) ci = Some (ci, accept_RC2_128 cr)"
| "mwCipherInstance_accept user_login_id (RC2_40 cr) ci = Some (ci, new_item_RC2_40)"

text \<open>A NULL instance leaves the data alone.\<close>

fun mwCipherInstance_encrypt ::
  "mwCipher \<Rightarrow> mwCipherInstance option \<Rightarrow> mwOpaque \<Rightarrow> mwCipherInstance option \<times> mwOpaque" where
  "mwCipherInstance_encrypt (RC2_40 cr) (Some (Inst_RC2_40 cir)) data =
     (let (cir, o') = encrypt_RC2_40 cr cir data in (Some (Inst_RC2_40 cir), o'))"
| "mwCipherInstance_encrypt cipher (Some (Inst_RC2_128 cir)) data =
     (let (cir, o') = encrypt_RC2_128 cir data in (Some (Inst_RC2_128 cir), o'))"
| "mwCipherInstance_encrypt cipher ci data = (ci, data)"

fun mwCipherInstance_decrypt ::
  "mwCipherInstance option \<Rightarrow> mwOpaque \<Rightarrow> (mwCipherInstance option \<times> mwOpaque) option" where
  "mwCipherInstance_decrypt (Some (Inst_RC2_40 cir)) data =
     map_option (\<lambda>(cir, o'). (Some (Inst_RC2_40 cir), o')) (decrypt_RC2_40 cir data)"
| "mwCipherInstance_decrypt (Some (Inst_RC2_128 cir)) data =
     map_option (\<lambda>(cir, o'). (Some (Inst_RC2_128 cir), o')) (decrypt_RC2_128 cir data)"
| "mwCipherInstance_decrypt None data = Some (None, data)"

subsection \<open>Encrypted links\<close>

text \<open>
  The contract of the two ends of an encrypted channel: while the ends are in \<open>sync\<close>,
  what one sends the other receives, and they stay in sync.
\<close>

fun send_all :: "('s \<Rightarrow> mwOpaque \<Rightarrow> 's \<times> mwOpaque) \<Rightarrow> 's \<Rightarrow> mwOpaque list \<Rightarrow> 's \<times> mwOpaque list" where
  "send_all send s [] = (s, [])"
| "send_all send s (p # ps) = (let (s, c) = send s p; (s, cs) = send_all send s ps in (s, c # cs))"

fun recv_all :: "('r \<Rightarrow> mwOpaque \<Rightarrow> ('r \<times> mwOpaque) option) \<Rightarrow> 'r \<Rightarrow> mwOpaque list \<Rightarrow> ('r \<times> mwOpaque list) option" where
  "recv_all recv r [] = Some (r, [])"
| "recv_all recv r (c # cs) =
     (case recv r c of None \<Rightarrow> None
      | Some (r, p) \<Rightarrow> map_option (\<lambda>(r, ps). (r, p # ps)) (recv_all recv r cs))"

locale cipher_link =
  fixes send :: "'s \<Rightarrow> mwOpaque \<Rightarrow> 's \<times> mwOpaque"
    and recv :: "'r \<Rightarrow> mwOpaque \<Rightarrow> ('r \<times> mwOpaque) option"
    and sync :: "'s \<Rightarrow> 'r \<Rightarrow> bool"
  assumes step: "sync s r \<Longrightarrow> opaque_ok p \<Longrightarrow>
    \<exists>r' out. recv r (snd (send s p)) = Some (r', out) \<and> opaque_ok out \<and> opaque_bytes out = opaque_bytes p
      \<and> sync (fst (send s p)) r'"
begin

lemma stream:
  assumes "sync s r" and "list_all opaque_ok ps"
  shows "\<exists>r' outs. recv_all recv r (snd (send_all send s ps)) = Some (r', outs)
    \<and> map opaque_bytes outs = map opaque_bytes ps \<and> sync (fst (send_all send s ps)) r'"
  using assms
proof (induction ps arbitrary: s r)
  case Nil
  then show ?case by simp
next
  case (Cons p ps)
  obtain s' c where sent: "send s p = (s', c)" by fastforce
  obtain r' out where one: "recv r c = Some (r', out)" "opaque_bytes out = opaque_bytes p" "sync s' r'"
    using step [of s r p] Cons.prems sent by auto
  obtain r'' outs where "recv_all recv r' (snd (send_all send s' ps)) = Some (r'', outs)"
    "map opaque_bytes outs = map opaque_bytes ps" "sync (fst (send_all send s' ps)) r''"
    using Cons.IH [OF one(3)] Cons.prems by auto
  with one show ?case
    by (simp add: sent split_def Let_def)
qed

end

interpretation expanded: cipher_link "mwEncryptExpanded ekey" "mwDecryptExpanded ekey"
  "\<lambda>out_iv in_iv. in_iv = out_iv \<and> length out_iv = 8" for ekey
proof
  fix s r :: bytes and p :: mwOpaque
  assume "r = s \<and> length s = 8" and ok: "opaque_ok p"
  then have r: "r = s" and s: "length s = 8" by simp_all
  obtain out where "mwDecryptExpanded ekey s (snd (mwEncryptExpanded ekey s p))
      = Some (fst (mwEncryptExpanded ekey s p), out)" "opaque_ok out" "opaque_bytes out = opaque_bytes p"
    using mwDecryptExpanded_inverse [OF s ok] by metis
  with r mwEncryptExpanded_iv_length [OF s ok]
  show "\<exists>r' out. mwDecryptExpanded ekey r (snd (mwEncryptExpanded ekey s p)) = Some (r', out) \<and> opaque_ok out
      \<and> opaque_bytes out = opaque_bytes p \<and> r' = fst (mwEncryptExpanded ekey s p)
      \<and> length (fst (mwEncryptExpanded ekey s p)) = 8"
    by blast
qed

definition sync_RC2_40 :: "mwCipher_RC2_40 \<Rightarrow> mwCipherInstance_RC2_40 \<Rightarrow> mwCipherInstance_RC2_40 \<Rightarrow> bool" where
  "sync_RC2_40 cr s r \<longleftrightarrow> i40_incoming_key r = c40_session_key cr
     \<and> i40_incoming_iv r = i40_outgoing_iv s \<and> length (i40_outgoing_iv s) = 8"

definition sync_RC2_128 :: "mwCipherInstance_RC2_128 \<Rightarrow> mwCipherInstance_RC2_128 \<Rightarrow> bool" where
  "sync_RC2_128 s r \<longleftrightarrow> i128_shared r = i128_shared s
     \<and> i128_incoming_iv r = i128_outgoing_iv s \<and> length (i128_outgoing_iv s) = 8"

interpretation rc2_40: cipher_link "encrypt_RC2_40 cr" decrypt_RC2_40 "sync_RC2_40 cr" for cr
proof
  fix s r p
  assume "sync_RC2_40 cr s r" and "opaque_ok p"
  then show "\<exists>r' out. decrypt_RC2_40 r (snd (encrypt_RC2_40 cr s p)) = Some (r', out) \<and> opaque_ok out
      \<and> opaque_bytes out = opaque_bytes p \<and> sync_RC2_40 cr (fst (encrypt_RC2_40 cr s p)) r'"
    using expanded.step [of "i40_outgoing_iv s" "i40_incoming_iv r" p "c40_session_key cr"]
    by (auto simp: sync_RC2_40_def encrypt_RC2_40_def decrypt_RC2_40_def split_def Let_def)
qed

interpretation rc2_128: cipher_link encrypt_RC2_128 decrypt_RC2_128 sync_RC2_128
proof
  fix s r p
  assume "sync_RC2_128 s r" and "opaque_ok p"
  then show "\<exists>r' out. decrypt_RC2_128 r (snd (encrypt_RC2_128 s p)) = Some (r', out) \<and> opaque_ok out
      \<and> opaque_bytes out = opaque_bytes p \<and> sync_RC2_128 (fst (encrypt_RC2_128 s p)) r'"
    using expanded.step [of "i128_outgoing_iv s" "i128_incoming_iv r" p "i128_shared s"]
    by (auto simp: sync_RC2_128_def encrypt_RC2_128_def decrypt_RC2_128_def split_def Let_def)
qed

subsection \<open>Negotiation\<close>

lemma new_RC2_128_sel:
  "c128_private_key (mwCipher_new_RC2_128 a) = a"
  "c128_public_key (mwCipher_new_RC2_128 a) = mwDHExportKey (snd (mwDHRandKeypair a))"
  by (simp_all add: mwCipher_new_RC2_128_def mwDHRandKeypair_def)

lemma offered_RC2_128_eq:
  "offered_RC2_128 (mwCipher_new_RC2_128 a) cir (offer_RC2_128 (mwCipher_new_RC2_128 b))
     = (let sho = mwDHExportKey (mwDHCalculateShared (snd (mwDHRandKeypair b)) a)
        in if op_len sho < 16 then None
           else map_option (\<lambda>k. cir\<lparr>i128_shared := k\<rparr>)
                (mwKeyExpand (i128_shared cir) (Some (drop (op_len sho - 16) (opaque_bytes sho))) 16))"
proof -
  have "mwDHImportKey (ei_info (offer_RC2_128 (mwCipher_new_RC2_128 b))) = snd (mwDHRandKeypair b)"
    by (simp add: offer_RC2_128_def new_RC2_128_sel mwDHExportKey_def mwOpaque_clone_eq)
      (simp add: mwDH_import_export [unfolded mwDHExportKey_def])
  then show ?thesis
    by (simp add: offered_RC2_128_def Let_def new_RC2_128_sel)
qed

text \<open>Both ends derive the same key, or both fail on a secret that is too short.\<close>

lemma RC2_128_same_key:
  assumes "offered_RC2_128 (mwCipher_new_RC2_128 a) new_instance_RC2_128 (offer_RC2_128 (mwCipher_new_RC2_128 b)) = Some A"
  shows "accepted_RC2_128 (mwCipher_new_RC2_128 b) new_instance_RC2_128 (accept_RC2_128 (mwCipher_new_RC2_128 a)) = Some A"
  using assms mwDH_agree [of a b]
  by (simp add: accepted_RC2_128_def accept_RC2_128_def offered_RC2_128_eq)

lemma offered_RC2_128_iv:
  "offered_RC2_128 cr new_instance_RC2_128 item = Some A \<Longrightarrow>
   i128_outgoing_iv A = mwIV_init \<and> i128_incoming_iv A = mwIV_init"
  by (auto simp: offered_RC2_128_def new_instance_RC2_128_def Let_def split: if_splits)

lemma length_mwIV_init [simp]: "length mwIV_init = 8"
  by (simp add: mwIV_init_def)

subsection \<open>Properties\<close>


lemma mp_digits_length: "256 ^ k \<le> n \<Longrightarrow> k < length (mp_digits n)"
proof (induction k arbitrary: n)
  case 0
  then show ?case by (subst mp_digits.simps) simp
next
  case (Suc k)
  then have "256 ^ k \<le> n div 256"
    by (simp add: less_eq_div_iff_mult_less_eq mult.commute)
  moreover have "n \<noteq> 0"
    using Suc.prems by (cases n) simp_all
  ultimately show ?case
    using Suc.IH [of "n div 256"] by (subst mp_digits.simps) simp
qed

lemma example_DH_length: "16 \<le> op_len (mwDHExportKey (mwDHCalculateShared (snd (mwDHRandKeypair 200)) 1))"
proof -
  define n where "n = mwDHCalculateShared (snd (mwDHRandKeypair 200)) 1"
  have "(256 :: nat) ^ 15 \<le> n"
    by (simp add: n_def mwDHCalculateShared_def mwDHRandKeypair_def mp_exptmod_def DH_BASE_def dh_prime_def dh_prime_bytes_def
        mp_read_unsigned_bin_def)
  then have "16 \<le> length (mp_to_unsigned_bin n)"
    using mp_digits_length [of 15 n] by (auto simp: mp_to_unsigned_bin_def)
  then show ?thesis by (simp add: n_def mwDHExportKey_def)
qed

lemma example_DH:
  "\<exists>A. offered_RC2_128 (mwCipher_new_RC2_128 1) new_instance_RC2_128 (offer_RC2_128 (mwCipher_new_RC2_128 200)) = Some A"
  unfolding offered_RC2_128_eq Let_def using example_DH_length
  by (simp add: mwDHExportKey_def mwKeyExpand_rfc)


lemma login_key_expand:
  assumes "4 \<le> length login"
  obtains k where "\<And>e. mwKeyExpand e (login_key (Some login)) 5 = Some k"
  using assms by (force simp: mwKeyExpand_def login_key_def Let_def)

text \<open>
  An RC2/40 channel works end to end. The accepting end keys its incoming side
  with the first five bytes of the login ID of the channel's user, the sender keys its
  outgoing side with its own: when the two are the same ID of at least four bytes,
  everything sent is received.
\<close>

theorem RC2_40_end_to_end:
  assumes "4 \<le> length login" and "list_all opaque_ok ps"
    and "new_instance_RC2_40 other cr' = Some (cr'', B0)"
  shows "\<exists>cr A B r' outs. new_instance_RC2_40 (Some login) mwCipher_new_RC2_40 = Some (cr, A)
    \<and> accept_RC2_40 (Some login) B0 = Some (B, offer_RC2_40)
    \<and> recv_all decrypt_RC2_40 B (snd (send_all (encrypt_RC2_40 cr) A ps)) = Some (r', outs)
    \<and> map opaque_bytes outs = map opaque_bytes ps"
proof -
  obtain k where k: "\<And>e. mwKeyExpand e (login_key (Some login)) 5 = Some k"
    using login_key_expand [OF assms(1)] by blast
  define A where "A = \<lparr>i40_incoming_key = zero_key, i40_outgoing_iv = mwIV_init, i40_incoming_iv = mwIV_init\<rparr>"
  define cr where "cr = \<lparr>c40_session_key = k, c40_ready = True\<rparr>"
  have B0: "B0 = A"
    using assms(3) by (auto simp: new_instance_RC2_40_def A_def)
  have "new_instance_RC2_40 (Some login) mwCipher_new_RC2_40 = Some (cr, A)"
    by (simp add: new_instance_RC2_40_def mwCipher_new_RC2_40_def k cr_def A_def)
  moreover have "accept_RC2_40 (Some login) B0 = Some (A\<lparr>i40_incoming_key := k\<rparr>, offer_RC2_40)"
    by (simp add: accept_RC2_40_def accepted_RC2_40_def B0 k offer_RC2_40_def)
  moreover have "sync_RC2_40 cr A (A\<lparr>i40_incoming_key := k\<rparr>)"
    by (simp add: sync_RC2_40_def cr_def A_def)
  ultimately show ?thesis
    using rc2_40.stream [OF _ assms(2)] by blast
qed

theorem RC2_40_end_to_end_witness:
  "4 \<le> length [49, 50, 51, 52 :: guchar] \<and> list_all opaque_ok [opaque_of [9]]
   \<and> (\<exists>cr'' B0 cr A B r' outs. new_instance_RC2_40 None mwCipher_new_RC2_40 = Some (cr'', B0)
    \<and> new_instance_RC2_40 (Some [49, 50, 51, 52]) mwCipher_new_RC2_40 = Some (cr, A)
    \<and> accept_RC2_40 (Some [49, 50, 51, 52]) B0 = Some (B, offer_RC2_40)
    \<and> recv_all decrypt_RC2_40 B (snd (send_all (encrypt_RC2_40 cr) A [opaque_of [9]])) = Some (r', outs)
    \<and> map opaque_bytes outs = map opaque_bytes [opaque_of [9]])"
proof -
  obtain cr'' B0 where B0: "new_instance_RC2_40 None mwCipher_new_RC2_40 = Some (cr'', B0)"
    by (simp add: new_instance_RC2_40_def mwCipher_new_RC2_40_def mwKeyExpand_def login_key_def)
  have hyps: "4 \<le> length [49, 50, 51, 52 :: guchar]" "list_all opaque_ok [opaque_of [9]]"
    by simp_all
  show ?thesis
    using RC2_40_end_to_end [OF hyps B0] hyps B0 by blast
qed

end
