(* ===== verification/Messages.thy ===== *)
theory Messages
  imports Common
begin

text \<open>
  The Sametime messages of \<^verbatim>\<open>src/src/message.c\<close> and \<^verbatim>\<open>src/src/mw_message.h\<close>:
  the common head, one record per message body with its writer and reader, and
  the dispatch of \<open>mwMessage_get\<close> and \<open>mwMessage_put\<close> on the type of the head.

  A C message is a struct that starts with its head and is cast according to
  \<open>head.type\<close>; here it is a constructor of \<open>mwMessage\<close>, and \<open>mwMessage_typed\<close>
  says that head and constructor agree. Locals that the C code reads without
  initialising them are arguments (\<open>mwJunk\<close>), so that what depends on the stack's
  contents shows.
\<close>

subsection \<open>Constants of the protocol\<close>

abbreviation mwMessage_HANDSHAKE :: guint16 where "mwMessage_HANDSHAKE \<equiv> 0x0000"
abbreviation mwMessage_HANDSHAKE_ACK :: guint16 where "mwMessage_HANDSHAKE_ACK \<equiv> 0x8000"
abbreviation mwMessage_LOGIN :: guint16 where "mwMessage_LOGIN \<equiv> 0x0001"
abbreviation mwMessage_LOGIN_ACK :: guint16 where "mwMessage_LOGIN_ACK \<equiv> 0x8001"
abbreviation mwMessage_LOGIN_REDIRECT :: guint16 where "mwMessage_LOGIN_REDIRECT \<equiv> 0x0018"
abbreviation mwMessage_LOGIN_CONTINUE :: guint16 where "mwMessage_LOGIN_CONTINUE \<equiv> 0x0016"
abbreviation mwMessage_CHANNEL_CREATE :: guint16 where "mwMessage_CHANNEL_CREATE \<equiv> 0x0002"
abbreviation mwMessage_CHANNEL_DESTROY :: guint16 where "mwMessage_CHANNEL_DESTROY \<equiv> 0x0003"
abbreviation mwMessage_CHANNEL_SEND :: guint16 where "mwMessage_CHANNEL_SEND \<equiv> 0x0004"
abbreviation mwMessage_CHANNEL_ACCEPT :: guint16 where "mwMessage_CHANNEL_ACCEPT \<equiv> 0x0006"
abbreviation mwMessage_SET_USER_STATUS :: guint16 where "mwMessage_SET_USER_STATUS \<equiv> 0x0009"
abbreviation mwMessage_SET_PRIVACY_LIST :: guint16 where "mwMessage_SET_PRIVACY_LIST \<equiv> 0x000b"
abbreviation mwMessage_SENSE_SERVICE :: guint16 where "mwMessage_SENSE_SERVICE \<equiv> 0x0011"
abbreviation mwMessage_ADMIN :: guint16 where "mwMessage_ADMIN \<equiv> 0x0019"
abbreviation mwMessage_ANNOUNCE :: guint16 where "mwMessage_ANNOUNCE \<equiv> 0x0022"

abbreviation mwMessageOption_ENCRYPT :: guint16 where "mwMessageOption_ENCRYPT \<equiv> 0x4000"
abbreviation mwMessageOption_HAS_ATTRIBS :: guint16 where "mwMessageOption_HAS_ATTRIBS \<equiv> 0x8000"

subsection \<open>The message head\<close>

record mwMessageHead =
  mh_type :: guint16
  mh_options :: guint16
  mh_channel :: guint32
  mh_attribs :: mwOpaque

definition has_attribs :: "mwMessageHead \<Rightarrow> bool" where
  "has_attribs head \<longleftrightarrow> mh_options head AND mwMessageOption_HAS_ATTRIBS \<noteq> 0"

definition mwMessageHead_zero :: mwMessageHead where
  "mwMessageHead_zero = \<lparr>mh_type = 0, mh_options = 0, mh_channel = 0, mh_attribs = opaque_of []\<rparr>"

definition mwMessageHead_put :: "mwMessageHead \<Rightarrow> (mwPutBuffer, unit) state" where
  "mwMessageHead_put msg = do {
     guint16_put (mh_type msg);
     guint16_put (mh_options msg);
     guint32_put (mh_channel msg);
     if has_attribs msg then mwOpaque_put (Some (mh_attribs msg)) else State_Monad.return ()
   }"

definition mwMessageHead_get :: "mwMessageHead \<Rightarrow> (mwGetBuffer, mwMessageHead) state" where
  "mwMessageHead_get msg = do {
     e \<leftarrow> mwGetBuffer_error;
     if e then State_Monad.return msg
     else do {
       type \<leftarrow> guint16_get (mh_type msg);
       options \<leftarrow> guint16_get (mh_options msg);
       channel \<leftarrow> guint32_get (mh_channel msg);
       let msg = msg\<lparr>mh_type := type, mh_options := options, mh_channel := channel\<rparr>;
       if has_attribs msg then do {
         attribs \<leftarrow> mwOpaque_get;
         State_Monad.return (msg\<lparr>mh_attribs := attribs\<rparr>)
       } else State_Monad.return msg
     }
   }"

definition mwMessageHead_clone :: "mwMessageHead \<Rightarrow> mwMessageHead \<Rightarrow> mwMessageHead" where
  "mwMessageHead_clone to from =
     to\<lparr>mh_type := mh_type from, mh_options := mh_options from, mh_channel := mh_channel from,
        mh_attribs := mwOpaque_clone (Some (mh_attribs from))\<rparr>"

definition mwMessageHead_clear :: "mwMessageHead \<Rightarrow> mwMessageHead" where
  "mwMessageHead_clear msg = msg\<lparr>mh_attribs := mwOpaque_clear (mh_attribs msg)\<rparr>"

definition mwMessageHead_wire :: "mwMessageHead \<Rightarrow> bytes" where
  "mwMessageHead_wire msg = MW16_PUT (mh_type msg) @ MW16_PUT (mh_options msg) @ MW32_PUT (mh_channel msg)
     @ (if has_attribs msg then opaque_wire (opaque_bytes (mh_attribs msg)) else [])"

definition mwMessageHead_valid :: "mwMessageHead \<Rightarrow> bool" where
  "mwMessageHead_valid msg = (has_attribs msg \<longrightarrow> opaque_valid (mh_attribs msg))"

definition mwMessageHead_norm :: "mwMessageHead \<Rightarrow> mwMessageHead" where
  "mwMessageHead_norm msg =
     msg\<lparr>mh_attribs := (if has_attribs msg then opaque_norm (mh_attribs msg) else opaque_of [])\<rparr>"

lemma has_attribs_upd [simp]:
  "has_attribs (h\<lparr>mh_type := t\<rparr>) = has_attribs h"
  "has_attribs (h\<lparr>mh_channel := c\<rparr>) = has_attribs h"
  "has_attribs (h\<lparr>mh_attribs := a\<rparr>) = has_attribs h"
  by (simp_all add: has_attribs_def)

lemma writes_MessageHead [writer_intros]:
  "mwMessageHead_valid x \<Longrightarrow> writes (mwMessageHead_put x) (mwMessageHead_wire x)"
  unfolding mwMessageHead_put_def mwMessageHead_wire_def mwMessageHead_valid_def opaque_valid_def
  by (intro writer_intros) simp

lemma reader_MessageHead [reader_intros]: "reader (mwMessageHead_get x)"
  unfolding mwMessageHead_get_def Let_def by (intro reader_intros)

text \<open>
  The head is read into an uninitialised struct whose \<open>attribs\<close> alone are set; on
  complete input the result does not depend on the rest.
\<close>

lemma mwMessageHead_get_wire [reads_simps]:
  assumes "mwMessageHead_valid x" and "mh_attribs junk = opaque_of []"
  shows "run_state (mwMessageHead_get junk) (gbuf w pre (mwMessageHead_wire x @ post))
     = (mwMessageHead_norm x, gbuf w (pre @ mwMessageHead_wire x) post)"
  using assms
  by (cases x; cases junk)
    (simp add: mwMessageHead_get_def mwMessageHead_wire_def mwMessageHead_valid_def
      mwMessageHead_norm_def has_attribs_def Let_def reads_simps)

subsection \<open>Handshake\<close>

record mwMsgHandshake =
  hs_head :: mwMessageHead
  hs_major :: guint16
  hs_minor :: guint16
  hs_srvrcalc_addr :: guint32
  hs_login_type :: guint16
  hs_loclcalc_addr :: guint32
  hs_unknown_a :: guint16
  hs_unknown_b :: guint32
  hs_local_host :: cstr

definition HANDSHAKE_put :: "mwMsgHandshake \<Rightarrow> (mwPutBuffer, unit) state" where
  "HANDSHAKE_put msg = do {
     guint16_put (hs_major msg);
     guint16_put (hs_minor msg);
     guint32_put (mh_channel (hs_head msg));
     guint32_put (hs_srvrcalc_addr msg);
     guint16_put (hs_login_type msg);
     guint32_put (hs_loclcalc_addr msg);
     if 0x001e \<le> hs_major msg \<and> 0x001d \<le> hs_minor msg then do {
       guint16_put (hs_unknown_a msg);
       guint32_put (hs_unknown_b msg);
       mwString_put (hs_local_host msg)
     } else State_Monad.return ()
   }"

definition HANDSHAKE_get :: "mwMsgHandshake \<Rightarrow> (mwGetBuffer, mwMsgHandshake) state" where
  "HANDSHAKE_get msg = do {
     e \<leftarrow> mwGetBuffer_error;
     if e then State_Monad.return msg
     else do {
       major \<leftarrow> guint16_get (hs_major msg);
       minor \<leftarrow> guint16_get (hs_minor msg);
       channel \<leftarrow> guint32_get (mh_channel (hs_head msg));
       srvrcalc_addr \<leftarrow> guint32_get (hs_srvrcalc_addr msg);
       login_type \<leftarrow> guint16_get (hs_login_type msg);
       loclcalc_addr \<leftarrow> guint32_get (hs_loclcalc_addr msg);
       let msg = msg\<lparr>hs_major := major, hs_minor := minor, hs_head := (hs_head msg)\<lparr>mh_channel := channel\<rparr>,
                     hs_srvrcalc_addr := srvrcalc_addr, hs_login_type := login_type,
                     hs_loclcalc_addr := loclcalc_addr\<rparr>;
       if 0x001e \<le> hs_major msg \<and> 0x001d \<le> hs_minor msg then do {
         unknown_a \<leftarrow> guint16_get (hs_unknown_a msg);
         unknown_b \<leftarrow> guint32_get (hs_unknown_b msg);
         local_host \<leftarrow> mwString_get;
         State_Monad.return (msg\<lparr>hs_unknown_a := unknown_a, hs_unknown_b := unknown_b,
                                 hs_local_host := local_host\<rparr>)
       } else State_Monad.return msg
     }
   }"

definition HANDSHAKE_zero :: "mwMessageHead \<Rightarrow> mwMsgHandshake" where
  "HANDSHAKE_zero head = \<lparr>hs_head = head, hs_major = 0, hs_minor = 0, hs_srvrcalc_addr = 0,
     hs_login_type = 0, hs_loclcalc_addr = 0, hs_unknown_a = 0, hs_unknown_b = 0, hs_local_host = None\<rparr>"

definition HANDSHAKE_wire :: "mwMsgHandshake \<Rightarrow> bytes" where
  "HANDSHAKE_wire msg = MW16_PUT (hs_major msg) @ MW16_PUT (hs_minor msg) @ MW32_PUT (mh_channel (hs_head msg))
     @ MW32_PUT (hs_srvrcalc_addr msg) @ MW16_PUT (hs_login_type msg) @ MW32_PUT (hs_loclcalc_addr msg)
     @ (if 0x001e \<le> hs_major msg \<and> 0x001d \<le> hs_minor msg
        then MW16_PUT (hs_unknown_a msg) @ MW32_PUT (hs_unknown_b msg) @ string_wire (hs_local_host msg)
        else [])"

definition HANDSHAKE_valid :: "mwMsgHandshake \<Rightarrow> bool" where
  "HANDSHAKE_valid msg = string_valid (hs_local_host msg)"

definition HANDSHAKE_norm :: "mwMsgHandshake \<Rightarrow> mwMsgHandshake" where
  "HANDSHAKE_norm msg =
     (if 0x001e \<le> hs_major msg \<and> 0x001d \<le> hs_minor msg
      then msg\<lparr>hs_local_host := string_norm (hs_local_host msg)\<rparr>
      else msg\<lparr>hs_unknown_a := 0, hs_unknown_b := 0, hs_local_host := None\<rparr>)"

lemma writes_HANDSHAKE [writer_intros]: "writes (HANDSHAKE_put x) (HANDSHAKE_wire x)"
  unfolding HANDSHAKE_put_def HANDSHAKE_wire_def by (intro writer_intros)

lemma reader_HANDSHAKE [reader_intros]: "reader (HANDSHAKE_get x)"
  unfolding HANDSHAKE_get_def Let_def by (intro reader_intros)

lemma HANDSHAKE_get_wire [reads_simps]:
  "HANDSHAKE_valid x \<Longrightarrow> mh_channel h = mh_channel (hs_head x) \<Longrightarrow>
   run_state (HANDSHAKE_get (HANDSHAKE_zero h)) (gbuf w pre (HANDSHAKE_wire x @ post))
     = ((HANDSHAKE_norm x)\<lparr>hs_head := h\<rparr>, gbuf w (pre @ HANDSHAKE_wire x) post)"
  by (cases x; cases h)
    (simp add: HANDSHAKE_get_def HANDSHAKE_wire_def HANDSHAKE_valid_def HANDSHAKE_norm_def
      HANDSHAKE_zero_def Let_def reads_simps)

subsection \<open>Handshake acknowledgement\<close>

record mwMsgHandshakeAck =
  ha_head :: mwMessageHead
  ha_major :: guint16
  ha_minor :: guint16
  ha_srvrcalc_addr :: guint32
  ha_magic :: guint32
  ha_data :: mwOpaque

definition HANDSHAKE_ACK_put :: "mwMsgHandshakeAck \<Rightarrow> (mwPutBuffer, unit) state" where
  "HANDSHAKE_ACK_put msg = do {
     guint16_put (ha_major msg);
     guint16_put (ha_minor msg);
     guint32_put (ha_srvrcalc_addr msg);
     if 0x1e \<le> ha_major msg \<and> 0x18 < ha_minor msg then do {
       guint32_put (ha_magic msg);
       mwOpaque_put (Some (ha_data msg))
     } else State_Monad.return ()
   }"

definition HANDSHAKE_ACK_get :: "mwMsgHandshakeAck \<Rightarrow> (mwGetBuffer, mwMsgHandshakeAck) state" where
  "HANDSHAKE_ACK_get msg = do {
     e \<leftarrow> mwGetBuffer_error;
     if e then State_Monad.return msg
     else do {
       major \<leftarrow> guint16_get (ha_major msg);
       minor \<leftarrow> guint16_get (ha_minor msg);
       srvrcalc_addr \<leftarrow> guint32_get (ha_srvrcalc_addr msg);
       let msg = msg\<lparr>ha_major := major, ha_minor := minor, ha_srvrcalc_addr := srvrcalc_addr\<rparr>;
       if 0x1e \<le> ha_major msg \<and> 0x18 < ha_minor msg then do {
         magic \<leftarrow> guint32_get (ha_magic msg);
         data \<leftarrow> mwOpaque_get;
         State_Monad.return (msg\<lparr>ha_magic := magic, ha_data := data\<rparr>)
       } else State_Monad.return msg
     }
   }"

definition HANDSHAKE_ACK_zero :: "mwMessageHead \<Rightarrow> mwMsgHandshakeAck" where
  "HANDSHAKE_ACK_zero head = \<lparr>ha_head = head, ha_major = 0, ha_minor = 0, ha_srvrcalc_addr = 0,
     ha_magic = 0, ha_data = opaque_of []\<rparr>"

definition HANDSHAKE_ACK_wire :: "mwMsgHandshakeAck \<Rightarrow> bytes" where
  "HANDSHAKE_ACK_wire msg = MW16_PUT (ha_major msg) @ MW16_PUT (ha_minor msg) @ MW32_PUT (ha_srvrcalc_addr msg)
     @ (if 0x1e \<le> ha_major msg \<and> 0x18 < ha_minor msg
        then MW32_PUT (ha_magic msg) @ opaque_wire (opaque_bytes (ha_data msg)) else [])"

definition HANDSHAKE_ACK_valid :: "mwMsgHandshakeAck \<Rightarrow> bool" where
  "HANDSHAKE_ACK_valid msg = opaque_valid (ha_data msg)"

definition HANDSHAKE_ACK_norm :: "mwMsgHandshakeAck \<Rightarrow> mwMsgHandshakeAck" where
  "HANDSHAKE_ACK_norm msg =
     (if 0x1e \<le> ha_major msg \<and> 0x18 < ha_minor msg
      then msg\<lparr>ha_data := opaque_norm (ha_data msg)\<rparr>
      else msg\<lparr>ha_magic := 0, ha_data := opaque_of []\<rparr>)"

lemma writes_HANDSHAKE_ACK [writer_intros]:
  "HANDSHAKE_ACK_valid x \<Longrightarrow> writes (HANDSHAKE_ACK_put x) (HANDSHAKE_ACK_wire x)"
  unfolding HANDSHAKE_ACK_put_def HANDSHAKE_ACK_wire_def HANDSHAKE_ACK_valid_def opaque_valid_def
  by (intro writer_intros) simp

lemma reader_HANDSHAKE_ACK [reader_intros]: "reader (HANDSHAKE_ACK_get x)"
  unfolding HANDSHAKE_ACK_get_def Let_def by (intro reader_intros)

lemma HANDSHAKE_ACK_get_wire [reads_simps]:
  "HANDSHAKE_ACK_valid x \<Longrightarrow>
   run_state (HANDSHAKE_ACK_get (HANDSHAKE_ACK_zero h)) (gbuf w pre (HANDSHAKE_ACK_wire x @ post))
     = ((HANDSHAKE_ACK_norm x)\<lparr>ha_head := h\<rparr>, gbuf w (pre @ HANDSHAKE_ACK_wire x) post)"
  by (cases x)
    (simp add: HANDSHAKE_ACK_get_def HANDSHAKE_ACK_wire_def HANDSHAKE_ACK_valid_def
      HANDSHAKE_ACK_norm_def HANDSHAKE_ACK_zero_def Let_def reads_simps)

subsection \<open>Login\<close>

record mwMsgLogin =
  lg_head :: mwMessageHead
  lg_login_type :: guint16
  lg_name :: cstr
  lg_auth_type :: guint16
  lg_auth_data :: mwOpaque

definition LOGIN_put :: "mwMsgLogin \<Rightarrow> (mwPutBuffer, unit) state" where
  "LOGIN_put msg = do {
     guint16_put (lg_login_type msg);
     mwString_put (lg_name msg);
     mwOpaque_put (Some (lg_auth_data msg));
     guint16_put (lg_auth_type msg);
     guint16_put 0x0000
   }"

definition LOGIN_get :: "mwMsgLogin \<Rightarrow> (mwGetBuffer, mwMsgLogin) state" where
  "LOGIN_get msg = do {
     e \<leftarrow> mwGetBuffer_error;
     if e then State_Monad.return msg
     else do {
       login_type \<leftarrow> guint16_get (lg_login_type msg);
       name \<leftarrow> mwString_get;
       auth_data \<leftarrow> mwOpaque_get;
       auth_type \<leftarrow> guint16_get (lg_auth_type msg);
       State_Monad.return (msg\<lparr>lg_login_type := login_type, lg_name := name,
                               lg_auth_data := auth_data, lg_auth_type := auth_type\<rparr>)
     }
   }"

definition LOGIN_zero :: "mwMessageHead \<Rightarrow> mwMsgLogin" where
  "LOGIN_zero head = \<lparr>lg_head = head, lg_login_type = 0, lg_name = None, lg_auth_type = 0,
     lg_auth_data = opaque_of []\<rparr>"

text \<open>The last field of a login is written but not read.\<close>

definition LOGIN_wire :: "mwMsgLogin \<Rightarrow> bytes" where
  "LOGIN_wire msg = MW16_PUT (lg_login_type msg) @ string_wire (lg_name msg)
     @ opaque_wire (opaque_bytes (lg_auth_data msg)) @ MW16_PUT (lg_auth_type msg)"

definition LOGIN_valid :: "mwMsgLogin \<Rightarrow> bool" where
  "LOGIN_valid msg \<longleftrightarrow> string_valid (lg_name msg) \<and> opaque_valid (lg_auth_data msg)"

definition LOGIN_norm :: "mwMsgLogin \<Rightarrow> mwMsgLogin" where
  "LOGIN_norm msg = msg\<lparr>lg_name := string_norm (lg_name msg), lg_auth_data := opaque_norm (lg_auth_data msg)\<rparr>"

lemma writes_LOGIN [writer_intros]:
  assumes "LOGIN_valid x"
  shows "writes (LOGIN_put x) (LOGIN_wire x @ MW16_PUT 0)"
proof -
  have "writes (LOGIN_put x) (MW16_PUT (lg_login_type x) @ string_wire (lg_name x)
     @ opaque_wire (opaque_bytes (lg_auth_data x)) @ MW16_PUT (lg_auth_type x) @ MW16_PUT 0)"
    unfolding LOGIN_put_def using assms by (intro writer_intros) (simp add: LOGIN_valid_def opaque_valid_def)
  then show ?thesis by (simp add: LOGIN_wire_def)
qed

lemma reader_LOGIN [reader_intros]: "reader (LOGIN_get x)"
  unfolding LOGIN_get_def by (intro reader_intros)

lemma LOGIN_get_wire [reads_simps]:
  "LOGIN_valid x \<Longrightarrow>
   run_state (LOGIN_get (LOGIN_zero h)) (gbuf w pre (LOGIN_wire x @ post))
     = ((LOGIN_norm x)\<lparr>lg_head := h\<rparr>, gbuf w (pre @ LOGIN_wire x) post)"
  by (cases x) (simp add: LOGIN_get_def LOGIN_wire_def LOGIN_valid_def LOGIN_norm_def LOGIN_zero_def reads_simps)

subsection \<open>Login acknowledgement\<close>

record mwMsgLoginAck =
  la_head :: mwMessageHead
  la_login :: mwLoginInfo
  la_privacy :: mwPrivacyInfo
  la_status :: mwUserStatus

text \<open>\<open>junk\<close> is a local that is written only.\<close>

definition LOGIN_ACK_get :: "guint16 \<Rightarrow> mwMsgLoginAck \<Rightarrow> (mwGetBuffer, mwMsgLoginAck) state" where
  "LOGIN_ACK_get junk msg = do {
     e \<leftarrow> mwGetBuffer_error;
     if e then State_Monad.return msg
     else do {
       login \<leftarrow> mwLoginInfo_get (la_login msg);
       junk \<leftarrow> guint16_get junk;
       privacy \<leftarrow> mwPrivacyInfo_get (la_privacy msg);
       status \<leftarrow> mwUserStatus_get (la_status msg);
       State_Monad.return (msg\<lparr>la_login := login, la_privacy := privacy, la_status := status\<rparr>)
     }
   }"

definition LOGIN_ACK_zero :: "mwMessageHead \<Rightarrow> mwMsgLoginAck" where
  "LOGIN_ACK_zero head = \<lparr>la_head = head, la_login = mwLoginInfo_zero, la_privacy = mwPrivacyInfo_zero,
     la_status = mwUserStatus_zero\<rparr>"

lemma reader_LOGIN_ACK [reader_intros]: "reader (LOGIN_ACK_get j x)"
  unfolding LOGIN_ACK_get_def by (intro reader_intros)

subsection \<open>Login continuation and redirection\<close>

record mwMsgLoginContinue =
  lc_head :: mwMessageHead

definition LOGIN_CONTINUE_put :: "mwMsgLoginContinue \<Rightarrow> (mwPutBuffer, unit) state" where
  "LOGIN_CONTINUE_put msg = State_Monad.return ()"

definition LOGIN_CONTINUE_get :: "mwMsgLoginContinue \<Rightarrow> (mwGetBuffer, mwMsgLoginContinue) state" where
  "LOGIN_CONTINUE_get msg = State_Monad.return msg"

record mwMsgLoginRedirect =
  lr_head :: mwMessageHead
  lr_host :: cstr
  lr_server_id :: cstr

definition LOGIN_REDIRECT_put :: "mwMsgLoginRedirect \<Rightarrow> (mwPutBuffer, unit) state" where
  "LOGIN_REDIRECT_put msg = do {
     mwString_put (lr_host msg);
     mwString_put (lr_server_id msg)
   }"

definition LOGIN_REDIRECT_get :: "mwMsgLoginRedirect \<Rightarrow> (mwGetBuffer, mwMsgLoginRedirect) state" where
  "LOGIN_REDIRECT_get msg = do {
     e \<leftarrow> mwGetBuffer_error;
     if e then State_Monad.return msg
     else do {
       host \<leftarrow> mwString_get;
       server_id \<leftarrow> mwString_get;
       State_Monad.return (msg\<lparr>lr_host := host, lr_server_id := server_id\<rparr>)
     }
   }"

definition LOGIN_REDIRECT_zero :: "mwMessageHead \<Rightarrow> mwMsgLoginRedirect" where
  "LOGIN_REDIRECT_zero head = \<lparr>lr_head = head, lr_host = None, lr_server_id = None\<rparr>"

definition LOGIN_REDIRECT_wire :: "mwMsgLoginRedirect \<Rightarrow> bytes" where
  "LOGIN_REDIRECT_wire msg = string_wire (lr_host msg) @ string_wire (lr_server_id msg)"

definition LOGIN_REDIRECT_valid :: "mwMsgLoginRedirect \<Rightarrow> bool" where
  "LOGIN_REDIRECT_valid msg \<longleftrightarrow> string_valid (lr_host msg) \<and> string_valid (lr_server_id msg)"

definition LOGIN_REDIRECT_norm :: "mwMsgLoginRedirect \<Rightarrow> mwMsgLoginRedirect" where
  "LOGIN_REDIRECT_norm msg =
     msg\<lparr>lr_host := string_norm (lr_host msg), lr_server_id := string_norm (lr_server_id msg)\<rparr>"

lemma writes_LOGIN_REDIRECT [writer_intros]: "writes (LOGIN_REDIRECT_put x) (LOGIN_REDIRECT_wire x)"
  unfolding LOGIN_REDIRECT_put_def LOGIN_REDIRECT_wire_def by (intro writer_intros)

lemma reader_LOGIN_REDIRECT [reader_intros]: "reader (LOGIN_REDIRECT_get x)"
  unfolding LOGIN_REDIRECT_get_def by (intro reader_intros)

lemma LOGIN_REDIRECT_get_wire [reads_simps]:
  "LOGIN_REDIRECT_valid x \<Longrightarrow>
   run_state (LOGIN_REDIRECT_get (LOGIN_REDIRECT_zero h)) (gbuf w pre (LOGIN_REDIRECT_wire x @ post))
     = ((LOGIN_REDIRECT_norm x)\<lparr>lr_head := h\<rparr>, gbuf w (pre @ LOGIN_REDIRECT_wire x) post)"
  by (cases x)
    (simp add: LOGIN_REDIRECT_get_def LOGIN_REDIRECT_wire_def LOGIN_REDIRECT_valid_def
      LOGIN_REDIRECT_norm_def LOGIN_REDIRECT_zero_def reads_simps)

subsection \<open>Offers of encryption\<close>

record mwEncryptOffer =
  eo_mode :: guint16
  eo_items :: "mwEncryptItem list"
  eo_extra :: guint16
  eo_flag :: bool

fun enc_items_put :: "mwEncryptItem list \<Rightarrow> (mwPutBuffer, unit) state" where
  "enc_items_put [] = State_Monad.return ()"
| "enc_items_put (ei # eis) = do { mwEncryptItem_put ei; enc_items_put eis }"

definition enc_offer_put :: "mwEncryptOffer \<Rightarrow> (mwPutBuffer, unit) state" where
  "enc_offer_put enc = do {
     guint16_put (eo_mode enc);
     if eo_items enc \<noteq> [] then
       let count = of_nat (length (eo_items enc));
           p = mwPutBuffer_new;
           p = exec_state (do {
                 guint32_put count;
                 enc_items_put (eo_items enc);
                 guint16_put (eo_extra enc);
                 gboolean_put (eo_flag enc)
               }) p;
           o' = mwPutBuffer_finalize p
       in mwOpaque_put (Some o')
     else State_Monad.return ()
   }"

text \<open>\<open>while(count-- && (! mwGetBuffer_error(b)))\<close>\<close>

fun enc_items_get :: "nat \<Rightarrow> mwEncryptItem list \<Rightarrow> (mwGetBuffer, mwEncryptItem list) state" where
  "enc_items_get 0 items = State_Monad.return items"
| "enc_items_get (Suc count) items = do {
     e \<leftarrow> mwGetBuffer_error;
     if e then State_Monad.return items
     else do {
       ei \<leftarrow> mwEncryptItem_get mwEncryptItem_zero;
       enc_items_get count (items @ [ei])
     }
   }"

definition enc_offer_get ::
  "guint32 \<Rightarrow> guint32 \<Rightarrow> mwEncryptOffer \<Rightarrow> (mwGetBuffer, mwEncryptOffer) state" where
  "enc_offer_get junk_skip junk_count enc = do {
     e \<leftarrow> mwGetBuffer_error;
     if e then State_Monad.return enc
     else do {
       mode \<leftarrow> guint16_get (eo_mode enc);
       skip \<leftarrow> guint32_get junk_skip;
       let enc = enc\<lparr>eo_mode := mode\<rparr>;
       if 7 \<le> skip then do {
         count \<leftarrow> guint32_get junk_count;
         items \<leftarrow> enc_items_get (unat count) (eo_items enc);
         extra \<leftarrow> guint16_get (eo_extra enc);
         flag \<leftarrow> gboolean_get (eo_flag enc);
         State_Monad.return (enc\<lparr>eo_items := items, eo_extra := extra, eo_flag := flag\<rparr>)
       } else State_Monad.return enc
     }
   }"

definition enc_offer_zero :: mwEncryptOffer where
  "enc_offer_zero = \<lparr>eo_mode = 0, eo_items = [], eo_extra = 0, eo_flag = False\<rparr>"

definition enc_offer_block :: "mwEncryptOffer \<Rightarrow> bytes" where
  "enc_offer_block enc = MW32_PUT (of_nat (length (eo_items enc)))
     @ concat (map mwEncryptItem_wire (eo_items enc)) @ MW16_PUT (eo_extra enc) @ [of_bool (eo_flag enc)]"

definition enc_offer_wire :: "mwEncryptOffer \<Rightarrow> bytes" where
  "enc_offer_wire enc = MW16_PUT (eo_mode enc)
     @ (if eo_items enc \<noteq> [] then opaque_wire (enc_offer_block enc) else [])"

definition enc_offer_valid :: "mwEncryptOffer \<Rightarrow> bool" where
  "enc_offer_valid enc \<longleftrightarrow> list_all mwEncryptItem_valid (eo_items enc)
     \<and> length (eo_items enc) < 2 ^ 32 \<and> length (enc_offer_block enc) < 2 ^ 32"

definition enc_offer_norm :: "mwEncryptOffer \<Rightarrow> mwEncryptOffer" where
  "enc_offer_norm enc =
     (if eo_items enc \<noteq> [] then enc\<lparr>eo_items := map mwEncryptItem_norm (eo_items enc)\<rparr>
      else enc\<lparr>eo_extra := 0, eo_flag := False\<rparr>)"

text \<open>A block composed in a buffer of its own and written as an opaque.\<close>

lemma writes_nested [writer_intros]:
  assumes "writes m bs"
  shows "writes (mwOpaque_put (Some (mwPutBuffer_finalize (exec_state m mwPutBuffer_new)))) (opaque_wire bs)"
proof -
  let ?b = "exec_state m mwPutBuffer_new"
  have "pb_ok ?b" and "pb_contents ?b = bs"
    using assms writes_okD writes_contentsD [of m bs mwPutBuffer_new] by auto
  then show ?thesis
    using writes_opaque [of "mwPutBuffer_finalize ?b"] mwPutBuffer_finalize_spec [of ?b] by simp
qed

lemma writes_enc_items [writer_intros]:
  "list_all mwEncryptItem_valid eis \<Longrightarrow> writes (enc_items_put eis) (concat (map mwEncryptItem_wire eis))"
  by (induction eis) (simp_all add: writer_intros)

lemma writes_enc_offer [writer_intros]:
  assumes "enc_offer_valid x"
  shows "writes (enc_offer_put x) (enc_offer_wire x)"
  using assms
  unfolding enc_offer_put_def enc_offer_wire_def enc_offer_block_def enc_offer_valid_def Let_def
  by (intro writer_intros) simp

lemma reader_enc_items [reader_intros]: "reader (enc_items_get c items)"
  by (induction c arbitrary: items) (simp_all add: reader_intros)

lemma reader_enc_offer [reader_intros]: "reader (enc_offer_get j k x)"
  unfolding enc_offer_get_def Let_def by (intro reader_intros)

lemma enc_items_get_wire:
  "list_all mwEncryptItem_valid eis \<Longrightarrow>
   run_state (enc_items_get (length eis) items) (gbuf w pre (concat (map mwEncryptItem_wire eis) @ post))
     = (items @ map mwEncryptItem_norm eis, gbuf w (pre @ concat (map mwEncryptItem_wire eis)) post)"
  by (induction eis arbitrary: items pre) (simp_all add: reads_simps)

lemma enc_offer_get_items:
  assumes "enc_offer_valid x" and "eo_items x \<noteq> []"
  shows "run_state (enc_offer_get j k enc_offer_zero) (gbuf w pre (enc_offer_wire x @ post))
     = (enc_offer_norm x, gbuf w (pre @ enc_offer_wire x) post)"
proof -
  have "7 \<le> length (enc_offer_block x)"
    using assms(2) by (simp add: enc_offer_block_def)
  moreover have "unat (of_nat (length (enc_offer_block x)) :: guint32) = length (enc_offer_block x)"
    using assms(1) by (intro unat_of_nat32) (simp add: enc_offer_valid_def)
  ultimately have skip: "7 \<le> (of_nat (length (enc_offer_block x)) :: guint32)"
    by (simp add: word_le_nat_alt)
  have cnt: "unat (of_nat (length (eo_items x)) :: guint32) = length (eo_items x)"
    using assms(1) by (intro unat_of_nat32) (simp add: enc_offer_valid_def)
  have items: "list_all mwEncryptItem_valid (eo_items x)"
    using assms(1) by (simp add: enc_offer_valid_def)
  define n where "n = (of_nat (length (enc_offer_block x)) :: guint32)"
  have wire: "enc_offer_wire x = MW16_PUT (eo_mode x) @ MW32_PUT n @ MW32_PUT (of_nat (length (eo_items x)))
     @ concat (map mwEncryptItem_wire (eo_items x)) @ MW16_PUT (eo_extra x) @ [of_bool (eo_flag x)]"
    using assms(2) by (simp add: enc_offer_wire_def opaque_wire_def n_def enc_offer_block_def)
  have norm: "enc_offer_norm x = \<lparr>eo_mode = eo_mode x, eo_items = map mwEncryptItem_norm (eo_items x),
     eo_extra = eo_extra x, eo_flag = eo_flag x\<rparr>"
    using assms(2) by (simp add: enc_offer_norm_def)
  show ?thesis
    using skip unfolding wire norm n_def [symmetric]
    by (simp add: enc_offer_get_def enc_offer_zero_def cnt items enc_items_get_wire Let_def reads_simps)
qed

text \<open>
  Without items only the mode is written; the reader still takes a length, which
  it finds in the four zero bytes that follow every offer on the wire.
\<close>

lemma enc_offer_get_none:
  assumes "eo_items x = []"
  shows "run_state (enc_offer_get j k enc_offer_zero) (gbuf w pre (enc_offer_wire x @ MW32_PUT 0 @ post))
     = (enc_offer_norm x, gbuf w (pre @ enc_offer_wire x @ MW32_PUT 0) post)"
  using assms
  by (cases x) (simp add: enc_offer_get_def enc_offer_wire_def enc_offer_norm_def
      enc_offer_zero_def Let_def reads_simps)

text \<open>
  What the reader of an offer consumes of the offer and the ten bytes that
  \<open>CHANNEL_CREATE_put\<close> writes behind it, and what it leaves.
\<close>

definition enc_offer_read :: "mwEncryptOffer \<Rightarrow> bytes" where
  "enc_offer_read enc = enc_offer_wire enc @ (if eo_items enc = [] then MW32_PUT 0 else [])"

definition enc_offer_left :: "mwEncryptOffer \<Rightarrow> bytes" where
  "enc_offer_left enc = (if eo_items enc = [] then [] else MW32_PUT 0) @ MW32_PUT 0 @ MW16_PUT 7"

lemma enc_offer_split:
  "enc_offer_wire enc @ MW32_PUT 0 @ MW32_PUT 0 @ MW16_PUT 7 = enc_offer_read enc @ enc_offer_left enc"
  by (simp add: enc_offer_read_def enc_offer_left_def)

lemma enc_offer_get_wire [reads_simps]:
  "enc_offer_valid x \<Longrightarrow>
   run_state (enc_offer_get j k enc_offer_zero) (gbuf w pre (enc_offer_read x @ post))
     = (enc_offer_norm x, gbuf w (pre @ enc_offer_read x) post)"
  by (cases "eo_items x = []")
    (simp_all add: enc_offer_read_def enc_offer_get_none enc_offer_get_items)

subsection \<open>Channel creation\<close>

record mwMsgChannelCreate =
  cc_head :: mwMessageHead
  cc_reserved :: guint32
  cc_channel :: guint32
  cc_target :: mwIdBlock
  cc_service :: guint32
  cc_proto_type :: guint32
  cc_proto_ver :: guint32
  cc_options :: guint32
  cc_addtl :: mwOpaque
  cc_creator_flag :: bool
  cc_creator :: mwLoginInfo
  cc_encrypt :: mwEncryptOffer

definition CHANNEL_CREATE_put :: "mwMsgChannelCreate \<Rightarrow> (mwPutBuffer, unit) state" where
  "CHANNEL_CREATE_put msg = do {
     guint32_put (cc_reserved msg);
     guint32_put (cc_channel msg);
     mwIdBlock_put (cc_target msg);
     guint32_put (cc_service msg);
     guint32_put (cc_proto_type msg);
     guint32_put (cc_proto_ver msg);
     guint32_put (cc_options msg);
     mwOpaque_put (Some (cc_addtl msg));
     gboolean_put (cc_creator_flag msg);
     (if cc_creator_flag msg then mwLoginInfo_put (cc_creator msg) else State_Monad.return ());
     enc_offer_put (cc_encrypt msg);
     guint32_put 0x00;
     guint32_put 0x00;
     guint16_put 0x07
   }"

definition CHANNEL_CREATE_get ::
  "guint32 \<Rightarrow> guint32 \<Rightarrow> mwMsgChannelCreate \<Rightarrow> (mwGetBuffer, mwMsgChannelCreate) state" where
  "CHANNEL_CREATE_get junk_skip junk_count msg = do {
     e \<leftarrow> mwGetBuffer_error;
     if e then State_Monad.return msg
     else do {
       reserved \<leftarrow> guint32_get (cc_reserved msg);
       channel \<leftarrow> guint32_get (cc_channel msg);
       target \<leftarrow> mwIdBlock_get (cc_target msg);
       service \<leftarrow> guint32_get (cc_service msg);
       proto_type \<leftarrow> guint32_get (cc_proto_type msg);
       proto_ver \<leftarrow> guint32_get (cc_proto_ver msg);
       options \<leftarrow> guint32_get (cc_options msg);
       addtl \<leftarrow> mwOpaque_get;
       creator_flag \<leftarrow> gboolean_get (cc_creator_flag msg);
       creator \<leftarrow> (if creator_flag then mwLoginInfo_get (cc_creator msg)
                   else State_Monad.return (cc_creator msg));
       encrypt \<leftarrow> enc_offer_get junk_skip junk_count (cc_encrypt msg);
       State_Monad.return
         (msg\<lparr>cc_reserved := reserved, cc_channel := channel, cc_target := target, cc_service := service,
              cc_proto_type := proto_type, cc_proto_ver := proto_ver, cc_options := options,
              cc_addtl := addtl, cc_creator_flag := creator_flag, cc_creator := creator,
              cc_encrypt := encrypt\<rparr>)
     }
   }"

definition CHANNEL_CREATE_zero :: "mwMessageHead \<Rightarrow> mwMsgChannelCreate" where
  "CHANNEL_CREATE_zero head = \<lparr>cc_head = head, cc_reserved = 0, cc_channel = 0, cc_target = mwIdBlock_zero,
     cc_service = 0, cc_proto_type = 0, cc_proto_ver = 0, cc_options = 0, cc_addtl = opaque_of [],
     cc_creator_flag = False, cc_creator = mwLoginInfo_zero, cc_encrypt = enc_offer_zero\<rparr>"

definition CHANNEL_CREATE_wire :: "mwMsgChannelCreate \<Rightarrow> bytes" where
  "CHANNEL_CREATE_wire msg = MW32_PUT (cc_reserved msg) @ MW32_PUT (cc_channel msg)
     @ mwIdBlock_wire (cc_target msg) @ MW32_PUT (cc_service msg) @ MW32_PUT (cc_proto_type msg)
     @ MW32_PUT (cc_proto_ver msg) @ MW32_PUT (cc_options msg) @ opaque_wire (opaque_bytes (cc_addtl msg))
     @ [of_bool (cc_creator_flag msg)]
     @ (if cc_creator_flag msg then mwLoginInfo_wire (cc_creator msg) else [])
     @ enc_offer_read (cc_encrypt msg)"

definition CHANNEL_CREATE_valid :: "mwMsgChannelCreate \<Rightarrow> bool" where
  "CHANNEL_CREATE_valid msg \<longleftrightarrow> mwIdBlock_valid (cc_target msg) \<and> opaque_valid (cc_addtl msg)
     \<and> (cc_creator_flag msg \<longrightarrow> mwLoginInfo_valid (cc_creator msg)) \<and> enc_offer_valid (cc_encrypt msg)"

definition CHANNEL_CREATE_norm :: "mwMsgChannelCreate \<Rightarrow> mwMsgChannelCreate" where
  "CHANNEL_CREATE_norm msg =
     msg\<lparr>cc_target := mwIdBlock_norm (cc_target msg), cc_addtl := opaque_norm (cc_addtl msg),
         cc_creator := (if cc_creator_flag msg then mwLoginInfo_norm (cc_creator msg) else mwLoginInfo_zero),
         cc_encrypt := enc_offer_norm (cc_encrypt msg)\<rparr>"

lemma writes_CHANNEL_CREATE [writer_intros]:
  assumes "CHANNEL_CREATE_valid x"
  shows "writes (CHANNEL_CREATE_put x) (CHANNEL_CREATE_wire x @ enc_offer_left (cc_encrypt x))"
proof -
  have "writes (CHANNEL_CREATE_put x) (MW32_PUT (cc_reserved x) @ MW32_PUT (cc_channel x)
     @ mwIdBlock_wire (cc_target x) @ MW32_PUT (cc_service x) @ MW32_PUT (cc_proto_type x)
     @ MW32_PUT (cc_proto_ver x) @ MW32_PUT (cc_options x) @ opaque_wire (opaque_bytes (cc_addtl x))
     @ [of_bool (cc_creator_flag x)]
     @ (if cc_creator_flag x then mwLoginInfo_wire (cc_creator x) else [])
     @ enc_offer_wire (cc_encrypt x) @ MW32_PUT 0 @ MW32_PUT 0 @ MW16_PUT 7)"
    unfolding CHANNEL_CREATE_put_def using assms
    by (intro writer_intros) (simp_all add: CHANNEL_CREATE_valid_def opaque_valid_def)
  then show ?thesis by (simp add: CHANNEL_CREATE_wire_def enc_offer_split)
qed

lemma reader_CHANNEL_CREATE [reader_intros]: "reader (CHANNEL_CREATE_get j k x)"
  unfolding CHANNEL_CREATE_get_def by (intro reader_intros)

lemma CHANNEL_CREATE_get_wire [reads_simps]:
  "CHANNEL_CREATE_valid x \<Longrightarrow>
   run_state (CHANNEL_CREATE_get j k (CHANNEL_CREATE_zero h)) (gbuf w pre (CHANNEL_CREATE_wire x @ post))
     = ((CHANNEL_CREATE_norm x)\<lparr>cc_head := h\<rparr>, gbuf w (pre @ CHANNEL_CREATE_wire x) post)"
  by (cases "cc_creator_flag x"; cases x)
    (simp_all add: CHANNEL_CREATE_get_def CHANNEL_CREATE_wire_def CHANNEL_CREATE_valid_def
      CHANNEL_CREATE_norm_def CHANNEL_CREATE_zero_def reads_simps)

subsection \<open>Channel acceptance\<close>

record mwEncryptAccept =
  ea_mode :: guint16
  ea_item :: "mwEncryptItem option"
  ea_extra :: guint16
  ea_flag :: bool

definition enc_accept_put :: "mwEncryptAccept \<Rightarrow> (mwPutBuffer, unit) state" where
  "enc_accept_put enc = do {
     guint16_put (ea_mode enc);
     case ea_item enc of
       None \<Rightarrow> State_Monad.return ()
     | Some item \<Rightarrow>
         let p = mwPutBuffer_new;
             p = exec_state (do {
                   mwEncryptItem_put item;
                   guint16_put (ea_extra enc);
                   gboolean_put (ea_flag enc)
                 }) p;
             o' = mwPutBuffer_finalize p
         in mwOpaque_put (Some o')
   }"

definition enc_accept_get :: "guint32 \<Rightarrow> mwEncryptAccept \<Rightarrow> (mwGetBuffer, mwEncryptAccept) state" where
  "enc_accept_get junk_skip enc = do {
     e \<leftarrow> mwGetBuffer_error;
     if e then State_Monad.return enc
     else do {
       mode \<leftarrow> guint16_get (ea_mode enc);
       skip \<leftarrow> guint32_get junk_skip;
       item \<leftarrow> (if 6 \<le> skip then do {
                  i \<leftarrow> mwEncryptItem_get mwEncryptItem_zero;
                  State_Monad.return (Some i)
                } else State_Monad.return (ea_item enc));
       let enc = enc\<lparr>ea_mode := mode, ea_item := item\<rparr>;
       if 9 \<le> skip then do {
         extra \<leftarrow> guint16_get (ea_extra enc);
         flag \<leftarrow> gboolean_get (ea_flag enc);
         State_Monad.return (enc\<lparr>ea_extra := extra, ea_flag := flag\<rparr>)
       } else State_Monad.return enc
     }
   }"

definition enc_accept_zero :: mwEncryptAccept where
  "enc_accept_zero = \<lparr>ea_mode = 0, ea_item = None, ea_extra = 0, ea_flag = False\<rparr>"

definition enc_accept_block :: "mwEncryptAccept \<Rightarrow> mwEncryptItem \<Rightarrow> bytes" where
  "enc_accept_block enc item = mwEncryptItem_wire item @ MW16_PUT (ea_extra enc) @ [of_bool (ea_flag enc)]"

definition enc_accept_wire :: "mwEncryptAccept \<Rightarrow> bytes" where
  "enc_accept_wire enc = MW16_PUT (ea_mode enc)
     @ (case ea_item enc of None \<Rightarrow> [] | Some item \<Rightarrow> opaque_wire (enc_accept_block enc item))"

definition enc_accept_read :: "mwEncryptAccept \<Rightarrow> bytes" where
  "enc_accept_read enc = enc_accept_wire enc @ (if ea_item enc = None then MW32_PUT 0 else [])"

definition enc_accept_left :: "mwEncryptAccept \<Rightarrow> bytes" where
  "enc_accept_left enc = (if ea_item enc = None then [] else MW32_PUT 0) @ MW32_PUT 0 @ MW16_PUT 7"

definition enc_accept_valid :: "mwEncryptAccept \<Rightarrow> bool" where
  "enc_accept_valid enc = (case ea_item enc of None \<Rightarrow> True
     | Some item \<Rightarrow> mwEncryptItem_valid item \<and> length (enc_accept_block enc item) < 2 ^ 32)"

definition enc_accept_norm :: "mwEncryptAccept \<Rightarrow> mwEncryptAccept" where
  "enc_accept_norm enc =
     (case ea_item enc of
        None \<Rightarrow> enc\<lparr>ea_extra := 0, ea_flag := False\<rparr>
      | Some item \<Rightarrow> enc\<lparr>ea_item := Some (mwEncryptItem_norm item)\<rparr>)"

lemma enc_accept_split:
  "enc_accept_wire enc @ MW32_PUT 0 @ MW32_PUT 0 @ MW16_PUT 7 = enc_accept_read enc @ enc_accept_left enc"
  by (simp add: enc_accept_read_def enc_accept_left_def)

lemma writes_enc_accept [writer_intros]:
  assumes "enc_accept_valid x"
  shows "writes (enc_accept_put x) (enc_accept_wire x)"
proof (cases "ea_item x")
  case None
  have "writes (enc_accept_put x) (MW16_PUT (ea_mode x) @ [])"
    unfolding enc_accept_put_def None option.case by (intro writer_intros)
  with None show ?thesis by (simp add: enc_accept_wire_def)
next
  case (Some item)
  have "writes (enc_accept_put x) (MW16_PUT (ea_mode x) @ opaque_wire
      (mwEncryptItem_wire item @ MW16_PUT (ea_extra x) @ [of_bool (ea_flag x)]))"
    unfolding enc_accept_put_def Some option.case Let_def
    using assms Some by (intro writer_intros) (simp add: enc_accept_valid_def)
  with Some show ?thesis by (simp add: enc_accept_wire_def enc_accept_block_def)
qed

lemma reader_enc_accept [reader_intros]: "reader (enc_accept_get j x)"
  unfolding enc_accept_get_def Let_def by (intro reader_intros)

lemma enc_accept_get_wire [reads_simps]:
  assumes "enc_accept_valid x"
  shows "run_state (enc_accept_get j enc_accept_zero) (gbuf w pre (enc_accept_read x @ post))
     = (enc_accept_norm x, gbuf w (pre @ enc_accept_read x) post)"
proof (cases "ea_item x")
  case None
  then show ?thesis
    by (cases x) (simp add: enc_accept_get_def enc_accept_read_def enc_accept_wire_def enc_accept_norm_def
        enc_accept_zero_def Let_def reads_simps)
next
  case (Some item)
  define n where "n = (of_nat (length (enc_accept_block x item)) :: guint32)"
  have "9 \<le> length (enc_accept_block x item)"
    by (simp add: enc_accept_block_def mwEncryptItem_wire_def opaque_wire_def)
  moreover have "unat n = length (enc_accept_block x item)"
    using assms Some unfolding n_def by (intro unat_of_nat32) (simp add: enc_accept_valid_def)
  ultimately have skip: "9 \<le> n" "6 \<le> n"
    by (simp_all add: word_le_nat_alt)
  have wire: "enc_accept_read x = MW16_PUT (ea_mode x) @ MW32_PUT n @ mwEncryptItem_wire item
      @ MW16_PUT (ea_extra x) @ [of_bool (ea_flag x)]"
    using Some by (simp add: enc_accept_read_def enc_accept_wire_def opaque_wire_def n_def enc_accept_block_def)
  have norm: "enc_accept_norm x = \<lparr>ea_mode = ea_mode x, ea_item = Some (mwEncryptItem_norm item),
      ea_extra = ea_extra x, ea_flag = ea_flag x\<rparr>"
    using Some by (simp add: enc_accept_norm_def)
  have "mwEncryptItem_valid item"
    using assms Some by (simp add: enc_accept_valid_def)
  then show ?thesis
    unfolding wire norm using skip
    by (simp add: enc_accept_get_def enc_accept_zero_def Let_def reads_simps)
qed

record mwMsgChannelAccept =
  ca_head :: mwMessageHead
  ca_service :: guint32
  ca_proto_type :: guint32
  ca_proto_ver :: guint32
  ca_addtl :: mwOpaque
  ca_acceptor_flag :: bool
  ca_acceptor :: mwLoginInfo
  ca_encrypt :: mwEncryptAccept

definition CHANNEL_ACCEPT_put :: "mwMsgChannelAccept \<Rightarrow> (mwPutBuffer, unit) state" where
  "CHANNEL_ACCEPT_put msg = do {
     guint32_put (ca_service msg);
     guint32_put (ca_proto_type msg);
     guint32_put (ca_proto_ver msg);
     mwOpaque_put (Some (ca_addtl msg));
     gboolean_put (ca_acceptor_flag msg);
     (if ca_acceptor_flag msg then mwLoginInfo_put (ca_acceptor msg) else State_Monad.return ());
     enc_accept_put (ca_encrypt msg);
     guint32_put 0x00;
     guint32_put 0x00;
     guint16_put 0x07
   }"

definition CHANNEL_ACCEPT_get ::
  "guint32 \<Rightarrow> mwMsgChannelAccept \<Rightarrow> (mwGetBuffer, mwMsgChannelAccept) state" where
  "CHANNEL_ACCEPT_get junk_skip msg = do {
     e \<leftarrow> mwGetBuffer_error;
     if e then State_Monad.return msg
     else do {
       service \<leftarrow> guint32_get (ca_service msg);
       proto_type \<leftarrow> guint32_get (ca_proto_type msg);
       proto_ver \<leftarrow> guint32_get (ca_proto_ver msg);
       addtl \<leftarrow> mwOpaque_get;
       acceptor_flag \<leftarrow> gboolean_get (ca_acceptor_flag msg);
       acceptor \<leftarrow> (if acceptor_flag then mwLoginInfo_get (ca_acceptor msg)
                    else State_Monad.return (ca_acceptor msg));
       encrypt \<leftarrow> enc_accept_get junk_skip (ca_encrypt msg);
       State_Monad.return
         (msg\<lparr>ca_service := service, ca_proto_type := proto_type, ca_proto_ver := proto_ver,
              ca_addtl := addtl, ca_acceptor_flag := acceptor_flag, ca_acceptor := acceptor,
              ca_encrypt := encrypt\<rparr>)
     }
   }"

definition CHANNEL_ACCEPT_zero :: "mwMessageHead \<Rightarrow> mwMsgChannelAccept" where
  "CHANNEL_ACCEPT_zero head = \<lparr>ca_head = head, ca_service = 0, ca_proto_type = 0, ca_proto_ver = 0,
     ca_addtl = opaque_of [], ca_acceptor_flag = False, ca_acceptor = mwLoginInfo_zero,
     ca_encrypt = enc_accept_zero\<rparr>"

definition CHANNEL_ACCEPT_wire :: "mwMsgChannelAccept \<Rightarrow> bytes" where
  "CHANNEL_ACCEPT_wire msg = MW32_PUT (ca_service msg) @ MW32_PUT (ca_proto_type msg)
     @ MW32_PUT (ca_proto_ver msg) @ opaque_wire (opaque_bytes (ca_addtl msg))
     @ [of_bool (ca_acceptor_flag msg)]
     @ (if ca_acceptor_flag msg then mwLoginInfo_wire (ca_acceptor msg) else [])
     @ enc_accept_read (ca_encrypt msg)"

definition CHANNEL_ACCEPT_valid :: "mwMsgChannelAccept \<Rightarrow> bool" where
  "CHANNEL_ACCEPT_valid msg \<longleftrightarrow> opaque_valid (ca_addtl msg)
     \<and> (ca_acceptor_flag msg \<longrightarrow> mwLoginInfo_valid (ca_acceptor msg)) \<and> enc_accept_valid (ca_encrypt msg)"

definition CHANNEL_ACCEPT_norm :: "mwMsgChannelAccept \<Rightarrow> mwMsgChannelAccept" where
  "CHANNEL_ACCEPT_norm msg =
     msg\<lparr>ca_addtl := opaque_norm (ca_addtl msg),
         ca_acceptor := (if ca_acceptor_flag msg then mwLoginInfo_norm (ca_acceptor msg) else mwLoginInfo_zero),
         ca_encrypt := enc_accept_norm (ca_encrypt msg)\<rparr>"

lemma writes_CHANNEL_ACCEPT [writer_intros]:
  assumes "CHANNEL_ACCEPT_valid x"
  shows "writes (CHANNEL_ACCEPT_put x) (CHANNEL_ACCEPT_wire x @ enc_accept_left (ca_encrypt x))"
proof -
  have "writes (CHANNEL_ACCEPT_put x) (MW32_PUT (ca_service x) @ MW32_PUT (ca_proto_type x)
     @ MW32_PUT (ca_proto_ver x) @ opaque_wire (opaque_bytes (ca_addtl x))
     @ [of_bool (ca_acceptor_flag x)]
     @ (if ca_acceptor_flag x then mwLoginInfo_wire (ca_acceptor x) else [])
     @ enc_accept_wire (ca_encrypt x) @ MW32_PUT 0 @ MW32_PUT 0 @ MW16_PUT 7)"
    unfolding CHANNEL_ACCEPT_put_def using assms
    by (intro writer_intros) (simp_all add: CHANNEL_ACCEPT_valid_def opaque_valid_def)
  then show ?thesis by (simp add: CHANNEL_ACCEPT_wire_def enc_accept_split)
qed

lemma reader_CHANNEL_ACCEPT [reader_intros]: "reader (CHANNEL_ACCEPT_get j x)"
  unfolding CHANNEL_ACCEPT_get_def by (intro reader_intros)

lemma CHANNEL_ACCEPT_get_wire [reads_simps]:
  "CHANNEL_ACCEPT_valid x \<Longrightarrow>
   run_state (CHANNEL_ACCEPT_get j (CHANNEL_ACCEPT_zero h)) (gbuf w pre (CHANNEL_ACCEPT_wire x @ post))
     = ((CHANNEL_ACCEPT_norm x)\<lparr>ca_head := h\<rparr>, gbuf w (pre @ CHANNEL_ACCEPT_wire x) post)"
  by (cases "ca_acceptor_flag x"; cases x)
    (simp_all add: CHANNEL_ACCEPT_get_def CHANNEL_ACCEPT_wire_def CHANNEL_ACCEPT_valid_def
      CHANNEL_ACCEPT_norm_def CHANNEL_ACCEPT_zero_def reads_simps)

subsection \<open>Channel data and channel destruction\<close>

record mwMsgChannelSend =
  cs_head :: mwMessageHead
  cs_type :: guint16
  cs_data :: mwOpaque

definition CHANNEL_SEND_put :: "mwMsgChannelSend \<Rightarrow> (mwPutBuffer, unit) state" where
  "CHANNEL_SEND_put msg = do {
     guint16_put (cs_type msg);
     mwOpaque_put (Some (cs_data msg))
   }"

definition CHANNEL_SEND_get :: "mwMsgChannelSend \<Rightarrow> (mwGetBuffer, mwMsgChannelSend) state" where
  "CHANNEL_SEND_get msg = do {
     e \<leftarrow> mwGetBuffer_error;
     if e then State_Monad.return msg
     else do {
       type \<leftarrow> guint16_get (cs_type msg);
       data \<leftarrow> mwOpaque_get;
       State_Monad.return (msg\<lparr>cs_type := type, cs_data := data\<rparr>)
     }
   }"

definition CHANNEL_SEND_zero :: "mwMessageHead \<Rightarrow> mwMsgChannelSend" where
  "CHANNEL_SEND_zero head = \<lparr>cs_head = head, cs_type = 0, cs_data = opaque_of []\<rparr>"

definition CHANNEL_SEND_wire :: "mwMsgChannelSend \<Rightarrow> bytes" where
  "CHANNEL_SEND_wire msg = MW16_PUT (cs_type msg) @ opaque_wire (opaque_bytes (cs_data msg))"

definition CHANNEL_SEND_norm :: "mwMsgChannelSend \<Rightarrow> mwMsgChannelSend" where
  "CHANNEL_SEND_norm msg = msg\<lparr>cs_data := opaque_norm (cs_data msg)\<rparr>"

lemma writes_CHANNEL_SEND [writer_intros]:
  "opaque_valid (cs_data x) \<Longrightarrow> writes (CHANNEL_SEND_put x) (CHANNEL_SEND_wire x)"
  unfolding CHANNEL_SEND_put_def CHANNEL_SEND_wire_def opaque_valid_def by (intro writer_intros) simp

lemma reader_CHANNEL_SEND [reader_intros]: "reader (CHANNEL_SEND_get x)"
  unfolding CHANNEL_SEND_get_def by (intro reader_intros)

lemma CHANNEL_SEND_get_wire [reads_simps]:
  "opaque_valid (cs_data x) \<Longrightarrow>
   run_state (CHANNEL_SEND_get (CHANNEL_SEND_zero h)) (gbuf w pre (CHANNEL_SEND_wire x @ post))
     = ((CHANNEL_SEND_norm x)\<lparr>cs_head := h\<rparr>, gbuf w (pre @ CHANNEL_SEND_wire x) post)"
  by (cases x) (simp add: CHANNEL_SEND_get_def CHANNEL_SEND_wire_def CHANNEL_SEND_norm_def
      CHANNEL_SEND_zero_def reads_simps)

record mwMsgChannelDestroy =
  cd_head :: mwMessageHead
  cd_reason :: guint32
  cd_data :: mwOpaque

definition CHANNEL_DESTROY_put :: "mwMsgChannelDestroy \<Rightarrow> (mwPutBuffer, unit) state" where
  "CHANNEL_DESTROY_put msg = do {
     guint32_put (cd_reason msg);
     mwOpaque_put (Some (cd_data msg))
   }"

definition CHANNEL_DESTROY_get :: "mwMsgChannelDestroy \<Rightarrow> (mwGetBuffer, mwMsgChannelDestroy) state" where
  "CHANNEL_DESTROY_get msg = do {
     e \<leftarrow> mwGetBuffer_error;
     if e then State_Monad.return msg
     else do {
       reason \<leftarrow> guint32_get (cd_reason msg);
       data \<leftarrow> mwOpaque_get;
       State_Monad.return (msg\<lparr>cd_reason := reason, cd_data := data\<rparr>)
     }
   }"

definition CHANNEL_DESTROY_zero :: "mwMessageHead \<Rightarrow> mwMsgChannelDestroy" where
  "CHANNEL_DESTROY_zero head = \<lparr>cd_head = head, cd_reason = 0, cd_data = opaque_of []\<rparr>"

definition CHANNEL_DESTROY_wire :: "mwMsgChannelDestroy \<Rightarrow> bytes" where
  "CHANNEL_DESTROY_wire msg = MW32_PUT (cd_reason msg) @ opaque_wire (opaque_bytes (cd_data msg))"

definition CHANNEL_DESTROY_norm :: "mwMsgChannelDestroy \<Rightarrow> mwMsgChannelDestroy" where
  "CHANNEL_DESTROY_norm msg = msg\<lparr>cd_data := opaque_norm (cd_data msg)\<rparr>"

lemma writes_CHANNEL_DESTROY [writer_intros]:
  "opaque_valid (cd_data x) \<Longrightarrow> writes (CHANNEL_DESTROY_put x) (CHANNEL_DESTROY_wire x)"
  unfolding CHANNEL_DESTROY_put_def CHANNEL_DESTROY_wire_def opaque_valid_def
  by (intro writer_intros) simp

lemma reader_CHANNEL_DESTROY [reader_intros]: "reader (CHANNEL_DESTROY_get x)"
  unfolding CHANNEL_DESTROY_get_def by (intro reader_intros)

lemma CHANNEL_DESTROY_get_wire [reads_simps]:
  "opaque_valid (cd_data x) \<Longrightarrow>
   run_state (CHANNEL_DESTROY_get (CHANNEL_DESTROY_zero h)) (gbuf w pre (CHANNEL_DESTROY_wire x @ post))
     = ((CHANNEL_DESTROY_norm x)\<lparr>cd_head := h\<rparr>, gbuf w (pre @ CHANNEL_DESTROY_wire x) post)"
  by (cases x) (simp add: CHANNEL_DESTROY_get_def CHANNEL_DESTROY_wire_def CHANNEL_DESTROY_norm_def
      CHANNEL_DESTROY_zero_def reads_simps)

subsection \<open>Status, privacy, services, administration\<close>

record mwMsgSetUserStatus =
  su_head :: mwMessageHead
  su_status :: mwUserStatus

definition SET_USER_STATUS_put :: "mwMsgSetUserStatus \<Rightarrow> (mwPutBuffer, unit) state" where
  "SET_USER_STATUS_put msg = mwUserStatus_put (su_status msg)"

definition SET_USER_STATUS_get :: "mwMsgSetUserStatus \<Rightarrow> (mwGetBuffer, mwMsgSetUserStatus) state" where
  "SET_USER_STATUS_get msg = do {
     e \<leftarrow> mwGetBuffer_error;
     if e then State_Monad.return msg
     else do {
       status \<leftarrow> mwUserStatus_get (su_status msg);
       State_Monad.return (msg\<lparr>su_status := status\<rparr>)
     }
   }"

definition SET_USER_STATUS_zero :: "mwMessageHead \<Rightarrow> mwMsgSetUserStatus" where
  "SET_USER_STATUS_zero head = \<lparr>su_head = head, su_status = mwUserStatus_zero\<rparr>"

record mwMsgSetPrivacyList =
  sp_head :: mwMessageHead
  sp_privacy :: mwPrivacyInfo

definition SET_PRIVACY_LIST_put :: "mwMsgSetPrivacyList \<Rightarrow> (mwPutBuffer, unit) state" where
  "SET_PRIVACY_LIST_put msg = mwPrivacyInfo_put (sp_privacy msg)"

definition SET_PRIVACY_LIST_get :: "mwMsgSetPrivacyList \<Rightarrow> (mwGetBuffer, mwMsgSetPrivacyList) state" where
  "SET_PRIVACY_LIST_get msg = do {
     e \<leftarrow> mwGetBuffer_error;
     if e then State_Monad.return msg
     else do {
       privacy \<leftarrow> mwPrivacyInfo_get (sp_privacy msg);
       State_Monad.return (msg\<lparr>sp_privacy := privacy\<rparr>)
     }
   }"

definition SET_PRIVACY_LIST_zero :: "mwMessageHead \<Rightarrow> mwMsgSetPrivacyList" where
  "SET_PRIVACY_LIST_zero head = \<lparr>sp_head = head, sp_privacy = mwPrivacyInfo_zero\<rparr>"

record mwMsgSenseService =
  ss_head :: mwMessageHead
  ss_service :: guint32

definition SENSE_SERVICE_put :: "mwMsgSenseService \<Rightarrow> (mwPutBuffer, unit) state" where
  "SENSE_SERVICE_put msg = guint32_put (ss_service msg)"

definition SENSE_SERVICE_get :: "mwMsgSenseService \<Rightarrow> (mwGetBuffer, mwMsgSenseService) state" where
  "SENSE_SERVICE_get msg = do {
     e \<leftarrow> mwGetBuffer_error;
     if e then State_Monad.return msg
     else do {
       service \<leftarrow> guint32_get (ss_service msg);
       State_Monad.return (msg\<lparr>ss_service := service\<rparr>)
     }
   }"

definition SENSE_SERVICE_zero :: "mwMessageHead \<Rightarrow> mwMsgSenseService" where
  "SENSE_SERVICE_zero head = \<lparr>ss_head = head, ss_service = 0\<rparr>"

record mwMsgAdmin =
  ad_head :: mwMessageHead
  ad_text :: cstr

definition ADMIN_get :: "mwMsgAdmin \<Rightarrow> (mwGetBuffer, mwMsgAdmin) state" where
  "ADMIN_get msg = do {
     text \<leftarrow> mwString_get;
     State_Monad.return (msg\<lparr>ad_text := text\<rparr>)
   }"

definition ADMIN_zero :: "mwMessageHead \<Rightarrow> mwMsgAdmin" where
  "ADMIN_zero head = \<lparr>ad_head = head, ad_text = None\<rparr>"

lemma reader_small_messages [reader_intros]:
  "reader (SET_USER_STATUS_get a)" "reader (SET_PRIVACY_LIST_get b)" "reader (SENSE_SERVICE_get c)"
  "reader (ADMIN_get d)" "reader (LOGIN_CONTINUE_get e)"
  unfolding SET_USER_STATUS_get_def SET_PRIVACY_LIST_get_def SENSE_SERVICE_get_def ADMIN_get_def
    LOGIN_CONTINUE_get_def
  by (intro reader_intros)+

lemma small_messages_get_wire [reads_simps]:
  "mwUserStatus_valid (su_status a) \<Longrightarrow>
   run_state (SET_USER_STATUS_get (SET_USER_STATUS_zero h)) (gbuf w pre (mwUserStatus_wire (su_status a) @ post))
     = (\<lparr>su_head = h, su_status = mwUserStatus_norm (su_status a)\<rparr>,
        gbuf w (pre @ mwUserStatus_wire (su_status a)) post)"
  "mwPrivacyInfo_valid (sp_privacy b) \<Longrightarrow>
   run_state (SET_PRIVACY_LIST_get (SET_PRIVACY_LIST_zero h)) (gbuf w pre (mwPrivacyInfo_wire (sp_privacy b) @ post))
     = (\<lparr>sp_head = h, sp_privacy = mwPrivacyInfo_norm (sp_privacy b)\<rparr>,
        gbuf w (pre @ mwPrivacyInfo_wire (sp_privacy b)) post)"
  "run_state (SENSE_SERVICE_get (SENSE_SERVICE_zero h)) (gbuf w pre (MW32_PUT srv @ post))
     = (\<lparr>ss_head = h, ss_service = srv\<rparr>, gbuf w (pre @ MW32_PUT srv) post)"
  by (simp_all add: SET_USER_STATUS_get_def SET_PRIVACY_LIST_get_def SENSE_SERVICE_get_def
      SET_USER_STATUS_zero_def SET_PRIVACY_LIST_zero_def SENSE_SERVICE_zero_def reads_simps)

subsection \<open>Announcements\<close>

record mwMsgAnnounce =
  an_head :: mwMessageHead
  an_sender_present :: bool
  an_sender :: mwLoginInfo
  an_unknown_a :: guint16
  an_may_reply :: bool
  an_text :: cstr
  an_recipients :: "cstr list"

text \<open>\<open>while(count--) \<dots> g_list_prepend(msg->recipients, r)\<close>\<close>

fun announce_get_recipients :: "nat \<Rightarrow> cstr list \<Rightarrow> (mwGetBuffer, cstr list) state" where
  "announce_get_recipients 0 rs = State_Monad.return rs"
| "announce_get_recipients (Suc count) rs = do {
     r \<leftarrow> mwString_get;
     announce_get_recipients count (r # rs)
   }"

definition ANNOUNCE_get :: "guint32 \<Rightarrow> mwMsgAnnounce \<Rightarrow> (mwGetBuffer, mwMsgAnnounce) state" where
  "ANNOUNCE_get junk_count msg = do {
     sender_present \<leftarrow> gboolean_get (an_sender_present msg);
     sender \<leftarrow> (if sender_present then mwLoginInfo_get (an_sender msg)
                else State_Monad.return (an_sender msg));
     unknown_a \<leftarrow> guint16_get (an_unknown_a msg);
     o' \<leftarrow> mwOpaque_get;
     let gb = mwGetBuffer_wrap (Some o');
     let (may_reply, gb) = run_state (gboolean_get (an_may_reply msg)) gb;
     let (text, gb) = run_state mwString_get gb;
     count \<leftarrow> guint32_get junk_count;
     recipients \<leftarrow> announce_get_recipients (unat count) (an_recipients msg);
     State_Monad.return
       (msg\<lparr>an_sender_present := sender_present, an_sender := sender, an_unknown_a := unknown_a,
            an_may_reply := may_reply, an_text := text, an_recipients := recipients\<rparr>)
   }"

fun announce_put_recipients :: "cstr list \<Rightarrow> (mwPutBuffer, unit) state" where
  "announce_put_recipients [] = State_Monad.return ()"
| "announce_put_recipients (r # rs) = do { mwString_put r; announce_put_recipients rs }"

definition ANNOUNCE_put :: "mwMsgAnnounce \<Rightarrow> (mwPutBuffer, unit) state" where
  "ANNOUNCE_put msg = do {
     gboolean_put (an_sender_present msg);
     (if an_sender_present msg then mwLoginInfo_put (an_sender msg) else State_Monad.return ());
     guint16_put (an_unknown_a msg);
     mwOpaque_put (Some (mwPutBuffer_finalize
       (exec_state (do { gboolean_put (an_may_reply msg); mwString_put (an_text msg) }) mwPutBuffer_new)));
     guint32_put (of_nat (length (an_recipients msg)));
     announce_put_recipients (an_recipients msg)
   }"

definition ANNOUNCE_zero :: "mwMessageHead \<Rightarrow> mwMsgAnnounce" where
  "ANNOUNCE_zero head = \<lparr>an_head = head, an_sender_present = False, an_sender = mwLoginInfo_zero,
     an_unknown_a = 0, an_may_reply = False, an_text = None, an_recipients = []\<rparr>"

definition ANNOUNCE_wire :: "mwMsgAnnounce \<Rightarrow> bytes" where
  "ANNOUNCE_wire msg = [of_bool (an_sender_present msg)]
     @ (if an_sender_present msg then mwLoginInfo_wire (an_sender msg) else [])
     @ MW16_PUT (an_unknown_a msg) @ opaque_wire ([of_bool (an_may_reply msg)] @ string_wire (an_text msg))
     @ MW32_PUT (of_nat (length (an_recipients msg))) @ concat (map string_wire (an_recipients msg))"

definition ANNOUNCE_valid :: "mwMsgAnnounce \<Rightarrow> bool" where
  "ANNOUNCE_valid msg \<longleftrightarrow> (an_sender_present msg \<longrightarrow> mwLoginInfo_valid (an_sender msg))
     \<and> string_valid (an_text msg) \<and> length (an_recipients msg) < 2 ^ 32
     \<and> list_all string_valid (an_recipients msg)"

text \<open>The reader prepends each recipient: they come back in reverse order.\<close>

definition ANNOUNCE_norm :: "mwMsgAnnounce \<Rightarrow> mwMsgAnnounce" where
  "ANNOUNCE_norm msg =
     msg\<lparr>an_sender := (if an_sender_present msg then mwLoginInfo_norm (an_sender msg) else mwLoginInfo_zero),
         an_text := string_norm (an_text msg),
         an_recipients := rev (map string_norm (an_recipients msg))\<rparr>"

lemma writes_announce_recipients [writer_intros]:
  "writes (announce_put_recipients rs) (concat (map string_wire rs))"
  by (induction rs) (simp_all add: writer_intros)

lemma writes_ANNOUNCE [writer_intros]: "writes (ANNOUNCE_put x) (ANNOUNCE_wire x)"
  unfolding ANNOUNCE_put_def ANNOUNCE_wire_def by (intro writer_intros)

lemma reader_announce_recipients [reader_intros]: "reader (announce_get_recipients c rs)"
  by (induction c arbitrary: rs) (simp_all add: reader_intros)

lemma reader_ANNOUNCE [reader_intros]: "reader (ANNOUNCE_get j x)"
  unfolding ANNOUNCE_get_def Let_def split_def by (intro reader_intros)

lemma announce_get_recipients_wire:
  "list_all string_valid rs \<Longrightarrow>
   run_state (announce_get_recipients (length rs) acc) (gbuf w pre (concat (map string_wire rs) @ post))
     = (rev (map string_norm rs) @ acc, gbuf w (pre @ concat (map string_wire rs)) post)"
  by (induction rs arbitrary: acc pre) (simp_all add: reads_simps)

lemma ANNOUNCE_get_wire [reads_simps]:
  assumes "ANNOUNCE_valid x"
  shows "run_state (ANNOUNCE_get j (ANNOUNCE_zero h)) (gbuf w pre (ANNOUNCE_wire x @ post))
     = ((ANNOUNCE_norm x)\<lparr>an_head := h\<rparr>, gbuf w (pre @ ANNOUNCE_wire x) post)"
proof -
  define blk where "blk = of_bool (an_may_reply x) # string_wire (an_text x)"
  have tx: "string_valid (an_text x)" and rs: "list_all string_valid (an_recipients x)"
    using assms by (simp_all add: ANNOUNCE_valid_def)
  then have len: "length blk < 2 ^ 32"
    by (auto simp: blk_def string_wire_def string_valid_def split: option.splits)
  have cnt: "unat (of_nat (length (an_recipients x)) :: guint32) = length (an_recipients x)"
    using assms by (intro unat_of_nat32) (simp add: ANNOUNCE_valid_def)
  have opq: "run_state mwOpaque_get (gbuf w p (opaque_wire blk @ q))
      = (opaque_of blk, gbuf w (p @ opaque_wire blk) q)" for p q
    by (rule mwOpaque_get_wire [OF len])
  have rd1: "run_state (gboolean_get v) (mwGetBuffer_wrap (Some (opaque_of blk)))
      = (an_may_reply x, gbuf True [of_bool (an_may_reply x)] (string_wire (an_text x)))" for v
    by (simp add: mwGetBuffer_wrap_gbuf) (simp add: blk_def reads_simps)
  have rd2: "run_state mwString_get (gbuf True p (string_wire (an_text x)))
      = (string_norm (an_text x), gbuf True (p @ string_wire (an_text x)) [])" for p
    using mwString_get_wire [OF tx, of True p "[]"] by simp
  have wire: "ANNOUNCE_wire x = of_bool (an_sender_present x)
     # (if an_sender_present x then mwLoginInfo_wire (an_sender x) else [])
     @ MW16_PUT (an_unknown_a x) @ opaque_wire blk
     @ MW32_PUT (of_nat (length (an_recipients x))) @ concat (map string_wire (an_recipients x))"
    by (simp add: ANNOUNCE_wire_def blk_def)
  have norm: "(ANNOUNCE_norm x)\<lparr>an_head := h\<rparr> = \<lparr>an_head = h, an_sender_present = an_sender_present x,
     an_sender = (if an_sender_present x then mwLoginInfo_norm (an_sender x) else mwLoginInfo_zero),
     an_unknown_a = an_unknown_a x, an_may_reply = an_may_reply x, an_text = string_norm (an_text x),
     an_recipients = rev (map string_norm (an_recipients x))\<rparr>"
    by (simp add: ANNOUNCE_norm_def)
  show ?thesis
    using assms unfolding wire norm
    by (cases "an_sender_present x")
      (simp_all add: ANNOUNCE_get_def ANNOUNCE_valid_def ANNOUNCE_zero_def opq rd1 rd2 cnt
        announce_get_recipients_wire rs Let_def reads_simps)
qed

end
