(* ===== verification/Message_Dispatch.thy ===== *)
theory Message_Dispatch
  imports Messages
begin

text \<open>
  The general functions of \<^verbatim>\<open>src/src/message.c\<close>: \<open>mwMessage_new\<close>, \<open>mwMessage_get\<close>
  and \<open>mwMessage_put\<close>, which switch on the type in the head. The main results are
  that a message written by \<open>mwMessage_put\<close> is read back by \<open>mwMessage_get\<close> with no
  byte of it misread, whatever garbage the uninitialised locals of the readers
  hold, and that no input makes the parser leave its block.
\<close>

datatype mwMessage =
    Handshake mwMsgHandshake
  | HandshakeAck mwMsgHandshakeAck
  | Login mwMsgLogin
  | LoginRedirect mwMsgLoginRedirect
  | LoginContinue mwMsgLoginContinue
  | LoginAck mwMsgLoginAck
  | ChannelCreate mwMsgChannelCreate
  | ChannelDestroy mwMsgChannelDestroy
  | ChannelSend mwMsgChannelSend
  | ChannelAccept mwMsgChannelAccept
  | SetUserStatus mwMsgSetUserStatus
  | SetPrivacyList mwMsgSetPrivacyList
  | SenseService mwMsgSenseService
  | Admin mwMsgAdmin
  | Announce mwMsgAnnounce

primrec mwMessage_head :: "mwMessage \<Rightarrow> mwMessageHead" where
  "mwMessage_head (Handshake m) = hs_head m"
| "mwMessage_head (HandshakeAck m) = ha_head m"
| "mwMessage_head (Login m) = lg_head m"
| "mwMessage_head (LoginRedirect m) = lr_head m"
| "mwMessage_head (LoginContinue m) = lc_head m"
| "mwMessage_head (LoginAck m) = la_head m"
| "mwMessage_head (ChannelCreate m) = cc_head m"
| "mwMessage_head (ChannelDestroy m) = cd_head m"
| "mwMessage_head (ChannelSend m) = cs_head m"
| "mwMessage_head (ChannelAccept m) = ca_head m"
| "mwMessage_head (SetUserStatus m) = su_head m"
| "mwMessage_head (SetPrivacyList m) = sp_head m"
| "mwMessage_head (SenseService m) = ss_head m"
| "mwMessage_head (Admin m) = ad_head m"
| "mwMessage_head (Announce m) = an_head m"

text \<open>The type code of the struct behind a \<open>struct mwMessage *\<close>.\<close>

primrec mwMessage_code :: "mwMessage \<Rightarrow> guint16" where
  "mwMessage_code (Handshake m) = mwMessage_HANDSHAKE"
| "mwMessage_code (HandshakeAck m) = mwMessage_HANDSHAKE_ACK"
| "mwMessage_code (Login m) = mwMessage_LOGIN"
| "mwMessage_code (LoginRedirect m) = mwMessage_LOGIN_REDIRECT"
| "mwMessage_code (LoginContinue m) = mwMessage_LOGIN_CONTINUE"
| "mwMessage_code (LoginAck m) = mwMessage_LOGIN_ACK"
| "mwMessage_code (ChannelCreate m) = mwMessage_CHANNEL_CREATE"
| "mwMessage_code (ChannelDestroy m) = mwMessage_CHANNEL_DESTROY"
| "mwMessage_code (ChannelSend m) = mwMessage_CHANNEL_SEND"
| "mwMessage_code (ChannelAccept m) = mwMessage_CHANNEL_ACCEPT"
| "mwMessage_code (SetUserStatus m) = mwMessage_SET_USER_STATUS"
| "mwMessage_code (SetPrivacyList m) = mwMessage_SET_PRIVACY_LIST"
| "mwMessage_code (SenseService m) = mwMessage_SENSE_SERVICE"
| "mwMessage_code (Admin m) = mwMessage_ADMIN"
| "mwMessage_code (Announce m) = mwMessage_ANNOUNCE"

definition mwMessage_typed :: "mwMessage \<Rightarrow> bool" where
  "mwMessage_typed msg \<longleftrightarrow> mh_type (mwMessage_head msg) = mwMessage_code msg"

text \<open>\<open>g_new0\<close> of the struct that belongs to a type code, with the given head.\<close>

definition mwMessage_alloc :: "guint16 \<Rightarrow> mwMessageHead \<Rightarrow> mwMessage option" where
  "mwMessage_alloc type head =
    (if type = mwMessage_HANDSHAKE then Some (Handshake (HANDSHAKE_zero head))
     else if type = mwMessage_HANDSHAKE_ACK then Some (HandshakeAck (HANDSHAKE_ACK_zero head))
     else if type = mwMessage_LOGIN then Some (Login (LOGIN_zero head))
     else if type = mwMessage_LOGIN_REDIRECT then Some (LoginRedirect (LOGIN_REDIRECT_zero head))
     else if type = mwMessage_LOGIN_CONTINUE then Some (LoginContinue \<lparr>lc_head = head\<rparr>)
     else if type = mwMessage_LOGIN_ACK then Some (LoginAck (LOGIN_ACK_zero head))
     else if type = mwMessage_CHANNEL_CREATE then Some (ChannelCreate (CHANNEL_CREATE_zero head))
     else if type = mwMessage_CHANNEL_DESTROY then Some (ChannelDestroy (CHANNEL_DESTROY_zero head))
     else if type = mwMessage_CHANNEL_SEND then Some (ChannelSend (CHANNEL_SEND_zero head))
     else if type = mwMessage_CHANNEL_ACCEPT then Some (ChannelAccept (CHANNEL_ACCEPT_zero head))
     else if type = mwMessage_SET_USER_STATUS then Some (SetUserStatus (SET_USER_STATUS_zero head))
     else if type = mwMessage_SET_PRIVACY_LIST then Some (SetPrivacyList (SET_PRIVACY_LIST_zero head))
     else if type = mwMessage_SENSE_SERVICE then Some (SenseService (SENSE_SERVICE_zero head))
     else if type = mwMessage_ADMIN then Some (Admin (ADMIN_zero head))
     else if type = mwMessage_ANNOUNCE then Some (Announce (ANNOUNCE_zero head))
     else None)"

definition mwMessage_new :: "guint16 \<Rightarrow> mwMessage option" where
  "mwMessage_new type = mwMessage_alloc type (mwMessageHead_zero\<lparr>mh_type := type\<rparr>)"

text \<open>
  What the stack holds where \<open>mwMessage_get\<close> and the body readers leave a local
  uninitialised.
\<close>

record mwJunk =
  jk_head :: mwMessageHead
  jk_ack :: guint16
  jk_skip :: guint32
  jk_count :: guint32

primrec mwMessage_body_get :: "mwJunk \<Rightarrow> mwMessage \<Rightarrow> (mwGetBuffer, mwMessage) state" where
  "mwMessage_body_get j (Handshake m) = do { m \<leftarrow> HANDSHAKE_get m; State_Monad.return (Handshake m) }"
| "mwMessage_body_get j (HandshakeAck m) =
     do { m \<leftarrow> HANDSHAKE_ACK_get m; State_Monad.return (HandshakeAck m) }"
| "mwMessage_body_get j (Login m) = do { m \<leftarrow> LOGIN_get m; State_Monad.return (Login m) }"
| "mwMessage_body_get j (LoginRedirect m) =
     do { m \<leftarrow> LOGIN_REDIRECT_get m; State_Monad.return (LoginRedirect m) }"
| "mwMessage_body_get j (LoginContinue m) =
     do { m \<leftarrow> LOGIN_CONTINUE_get m; State_Monad.return (LoginContinue m) }"
| "mwMessage_body_get j (LoginAck m) =
     do { m \<leftarrow> LOGIN_ACK_get (jk_ack j) m; State_Monad.return (LoginAck m) }"
| "mwMessage_body_get j (ChannelCreate m) =
     do { m \<leftarrow> CHANNEL_CREATE_get (jk_skip j) (jk_count j) m; State_Monad.return (ChannelCreate m) }"
| "mwMessage_body_get j (ChannelDestroy m) =
     do { m \<leftarrow> CHANNEL_DESTROY_get m; State_Monad.return (ChannelDestroy m) }"
| "mwMessage_body_get j (ChannelSend m) =
     do { m \<leftarrow> CHANNEL_SEND_get m; State_Monad.return (ChannelSend m) }"
| "mwMessage_body_get j (ChannelAccept m) =
     do { m \<leftarrow> CHANNEL_ACCEPT_get (jk_skip j) m; State_Monad.return (ChannelAccept m) }"
| "mwMessage_body_get j (SetUserStatus m) =
     do { m \<leftarrow> SET_USER_STATUS_get m; State_Monad.return (SetUserStatus m) }"
| "mwMessage_body_get j (SetPrivacyList m) =
     do { m \<leftarrow> SET_PRIVACY_LIST_get m; State_Monad.return (SetPrivacyList m) }"
| "mwMessage_body_get j (SenseService m) =
     do { m \<leftarrow> SENSE_SERVICE_get m; State_Monad.return (SenseService m) }"
| "mwMessage_body_get j (Admin m) = do { m \<leftarrow> ADMIN_get m; State_Monad.return (Admin m) }"
| "mwMessage_body_get j (Announce m) =
     do { m \<leftarrow> ANNOUNCE_get (jk_count j) m; State_Monad.return (Announce m) }"

text \<open>
  The head is read into a local struct of which only \<open>attribs\<close> is set. An unknown
  type yields NULL; an error in the body is logged and the message is returned all
  the same.
\<close>

definition mwMessage_get :: "mwJunk \<Rightarrow> (mwGetBuffer, mwMessage option) state" where
  "mwMessage_get j = do {
     head \<leftarrow> mwMessageHead_get ((jk_head j)\<lparr>mh_attribs := \<lparr>op_len = 0, op_data = None\<rparr>\<rparr>);
     e \<leftarrow> mwGetBuffer_error;
     if e then State_Monad.return None
     else (case mwMessage_alloc (mh_type head) (mwMessageHead_clone mwMessageHead_zero head) of
             None \<Rightarrow> State_Monad.return None
           | Some msg \<Rightarrow> do { msg \<leftarrow> mwMessage_body_get j msg; State_Monad.return (Some msg) })
   }"

text \<open>
  \<open>LOGIN_ACK\<close> and \<open>ADMIN\<close> are sent by servers only: the writer has no case for them
  and puts the bare head.
\<close>

primrec mwMessage_body_put :: "mwMessage \<Rightarrow> (mwPutBuffer, unit) state" where
  "mwMessage_body_put (Handshake m) = HANDSHAKE_put m"
| "mwMessage_body_put (HandshakeAck m) = HANDSHAKE_ACK_put m"
| "mwMessage_body_put (Login m) = LOGIN_put m"
| "mwMessage_body_put (LoginRedirect m) = LOGIN_REDIRECT_put m"
| "mwMessage_body_put (LoginContinue m) = LOGIN_CONTINUE_put m"
| "mwMessage_body_put (LoginAck m) = State_Monad.return ()"
| "mwMessage_body_put (ChannelCreate m) = CHANNEL_CREATE_put m"
| "mwMessage_body_put (ChannelDestroy m) = CHANNEL_DESTROY_put m"
| "mwMessage_body_put (ChannelSend m) = CHANNEL_SEND_put m"
| "mwMessage_body_put (ChannelAccept m) = CHANNEL_ACCEPT_put m"
| "mwMessage_body_put (SetUserStatus m) = SET_USER_STATUS_put m"
| "mwMessage_body_put (SetPrivacyList m) = SET_PRIVACY_LIST_put m"
| "mwMessage_body_put (SenseService m) = SENSE_SERVICE_put m"
| "mwMessage_body_put (Admin m) = State_Monad.return ()"
| "mwMessage_body_put (Announce m) = ANNOUNCE_put m"

definition mwMessage_put :: "mwMessage \<Rightarrow> (mwPutBuffer, unit) state" where
  "mwMessage_put msg = do {
     mwMessageHead_put (mwMessage_head msg);
     mwMessage_body_put msg
   }"

subsection \<open>The wire format of a message\<close>

primrec mwMessage_body_wire :: "mwMessage \<Rightarrow> bytes" where
  "mwMessage_body_wire (Handshake m) = HANDSHAKE_wire m"
| "mwMessage_body_wire (HandshakeAck m) = HANDSHAKE_ACK_wire m"
| "mwMessage_body_wire (Login m) = LOGIN_wire m"
| "mwMessage_body_wire (LoginRedirect m) = LOGIN_REDIRECT_wire m"
| "mwMessage_body_wire (LoginContinue m) = []"
| "mwMessage_body_wire (LoginAck m) = []"
| "mwMessage_body_wire (ChannelCreate m) = CHANNEL_CREATE_wire m"
| "mwMessage_body_wire (ChannelDestroy m) = CHANNEL_DESTROY_wire m"
| "mwMessage_body_wire (ChannelSend m) = CHANNEL_SEND_wire m"
| "mwMessage_body_wire (ChannelAccept m) = CHANNEL_ACCEPT_wire m"
| "mwMessage_body_wire (SetUserStatus m) = mwUserStatus_wire (su_status m)"
| "mwMessage_body_wire (SetPrivacyList m) = mwPrivacyInfo_wire (sp_privacy m)"
| "mwMessage_body_wire (SenseService m) = MW32_PUT (ss_service m)"
| "mwMessage_body_wire (Admin m) = []"
| "mwMessage_body_wire (Announce m) = ANNOUNCE_wire m"

text \<open>Bytes that a writer puts behind what the reader of the same type takes.\<close>

fun mwMessage_tail :: "mwMessage \<Rightarrow> bytes" where
  "mwMessage_tail (Login m) = MW16_PUT 0"
| "mwMessage_tail (ChannelCreate m) = enc_offer_left (cc_encrypt m)"
| "mwMessage_tail (ChannelAccept m) = enc_accept_left (ca_encrypt m)"
| "mwMessage_tail _ = []"

definition mwMessage_wire :: "mwMessage \<Rightarrow> bytes" where
  "mwMessage_wire msg = mwMessageHead_wire (mwMessage_head msg) @ mwMessage_body_wire msg"

primrec mwMessage_body_valid :: "mwMessage \<Rightarrow> bool" where
  "mwMessage_body_valid (Handshake m) = HANDSHAKE_valid m"
| "mwMessage_body_valid (HandshakeAck m) = HANDSHAKE_ACK_valid m"
| "mwMessage_body_valid (Login m) = LOGIN_valid m"
| "mwMessage_body_valid (LoginRedirect m) = LOGIN_REDIRECT_valid m"
| "mwMessage_body_valid (LoginContinue m) = True"
| "mwMessage_body_valid (LoginAck m) = False"
| "mwMessage_body_valid (ChannelCreate m) = CHANNEL_CREATE_valid m"
| "mwMessage_body_valid (ChannelDestroy m) = opaque_valid (cd_data m)"
| "mwMessage_body_valid (ChannelSend m) = opaque_valid (cs_data m)"
| "mwMessage_body_valid (ChannelAccept m) = CHANNEL_ACCEPT_valid m"
| "mwMessage_body_valid (SetUserStatus m) = mwUserStatus_valid (su_status m)"
| "mwMessage_body_valid (SetPrivacyList m) = mwPrivacyInfo_valid (sp_privacy m)"
| "mwMessage_body_valid (SenseService m) = True"
| "mwMessage_body_valid (Admin m) = False"
| "mwMessage_body_valid (Announce m) = ANNOUNCE_valid m"

text \<open>Messages the client can send: every type but the two of the server's.\<close>

definition mwMessage_valid :: "mwMessage \<Rightarrow> bool" where
  "mwMessage_valid msg \<longleftrightarrow> mwMessage_typed msg \<and> mwMessageHead_valid (mwMessage_head msg)
     \<and> mwMessage_body_valid msg"

primrec mwMessage_norm :: "mwMessage \<Rightarrow> mwMessage" where
  "mwMessage_norm (Handshake m) = Handshake ((HANDSHAKE_norm m)\<lparr>hs_head := mwMessageHead_norm (hs_head m)\<rparr>)"
| "mwMessage_norm (HandshakeAck m) =
     HandshakeAck ((HANDSHAKE_ACK_norm m)\<lparr>ha_head := mwMessageHead_norm (ha_head m)\<rparr>)"
| "mwMessage_norm (Login m) = Login ((LOGIN_norm m)\<lparr>lg_head := mwMessageHead_norm (lg_head m)\<rparr>)"
| "mwMessage_norm (LoginRedirect m) =
     LoginRedirect ((LOGIN_REDIRECT_norm m)\<lparr>lr_head := mwMessageHead_norm (lr_head m)\<rparr>)"
| "mwMessage_norm (LoginContinue m) = LoginContinue \<lparr>lc_head = mwMessageHead_norm (lc_head m)\<rparr>"
| "mwMessage_norm (LoginAck m) = LoginAck m"
| "mwMessage_norm (ChannelCreate m) =
     ChannelCreate ((CHANNEL_CREATE_norm m)\<lparr>cc_head := mwMessageHead_norm (cc_head m)\<rparr>)"
| "mwMessage_norm (ChannelDestroy m) =
     ChannelDestroy ((CHANNEL_DESTROY_norm m)\<lparr>cd_head := mwMessageHead_norm (cd_head m)\<rparr>)"
| "mwMessage_norm (ChannelSend m) =
     ChannelSend ((CHANNEL_SEND_norm m)\<lparr>cs_head := mwMessageHead_norm (cs_head m)\<rparr>)"
| "mwMessage_norm (ChannelAccept m) =
     ChannelAccept ((CHANNEL_ACCEPT_norm m)\<lparr>ca_head := mwMessageHead_norm (ca_head m)\<rparr>)"
| "mwMessage_norm (SetUserStatus m) =
     SetUserStatus \<lparr>su_head = mwMessageHead_norm (su_head m), su_status = mwUserStatus_norm (su_status m)\<rparr>"
| "mwMessage_norm (SetPrivacyList m) =
     SetPrivacyList \<lparr>sp_head = mwMessageHead_norm (sp_head m), sp_privacy = mwPrivacyInfo_norm (sp_privacy m)\<rparr>"
| "mwMessage_norm (SenseService m) =
     SenseService \<lparr>ss_head = mwMessageHead_norm (ss_head m), ss_service = ss_service m\<rparr>"
| "mwMessage_norm (Admin m) = Admin m"
| "mwMessage_norm (Announce m) = Announce ((ANNOUNCE_norm m)\<lparr>an_head := mwMessageHead_norm (an_head m)\<rparr>)"

lemma writes_Message_body:
  "mwMessage_body_valid msg \<Longrightarrow>
   writes (mwMessage_body_put msg) (mwMessage_body_wire msg @ mwMessage_tail msg)"
  by (cases msg)
    (simp_all add: writer_intros LOGIN_CONTINUE_put_def SET_USER_STATUS_put_def
      SET_PRIVACY_LIST_put_def SENSE_SERVICE_put_def)

lemma writes_Message [writer_intros]:
  "mwMessage_valid msg \<Longrightarrow> writes (mwMessage_put msg) (mwMessage_wire msg @ mwMessage_tail msg)"
  unfolding mwMessage_put_def mwMessage_wire_def mwMessage_valid_def append_assoc
  by (intro writer_intros writes_Message_body) simp_all

lemma reader_Message_body [reader_intros]: "reader (mwMessage_body_get j msg)"
  by (cases msg) (simp_all add: reader_intros)

lemma reader_Message [reader_intros]: "reader (mwMessage_get j)"
  unfolding mwMessage_get_def
  by (intro reader_intros) (auto split: option.split intro!: reader_intros)

lemma opaque_norm_ok [simp]:
  "opaque_ok (opaque_norm o')" "opaque_of (opaque_bytes (opaque_norm o')) = opaque_norm o'"
  by (auto simp: opaque_norm_def opaque_ok_def opaque_of_def opaque_bytes_def)

lemma mwMessageHead_clone_norm:
  "mwMessageHead_clone to (mwMessageHead_norm h) = mwMessageHead_norm h"
  by (cases to; cases h)
    (simp add: mwMessageHead_clone_def mwMessageHead_norm_def mwOpaque_clone_eq has_attribs_def)

lemma mwMessageHead_norm_sel [simp]:
  "mh_type (mwMessageHead_norm h) = mh_type h"
  "mh_options (mwMessageHead_norm h) = mh_options h"
  "mh_channel (mwMessageHead_norm h) = mh_channel h"
  by (simp_all add: mwMessageHead_norm_def)

lemma mwMessage_alloc_head:
  "mwMessage_alloc type head = Some msg \<Longrightarrow> mwMessage_head msg = head \<and> mwMessage_code msg = type"
  by (auto simp: mwMessage_alloc_def HANDSHAKE_zero_def HANDSHAKE_ACK_zero_def LOGIN_zero_def
      LOGIN_REDIRECT_zero_def LOGIN_ACK_zero_def CHANNEL_CREATE_zero_def CHANNEL_DESTROY_zero_def
      CHANNEL_SEND_zero_def CHANNEL_ACCEPT_zero_def SET_USER_STATUS_zero_def SET_PRIVACY_LIST_zero_def
      SENSE_SERVICE_zero_def ADMIN_zero_def ANNOUNCE_zero_def split: if_splits)

text \<open>What the body reader makes of the body of a message it is given the empty struct of.\<close>

lemma mwMessage_body_get_wire:
  assumes "mwMessage_body_valid msg"
  shows "\<exists>msg0. mwMessage_alloc (mwMessage_code msg) (mwMessageHead_norm (mwMessage_head msg)) = Some msg0 \<and>
     run_state (mwMessage_body_get j msg0) (gbuf w pre (mwMessage_body_wire msg @ post))
       = (mwMessage_norm msg, gbuf w (pre @ mwMessage_body_wire msg) post)"
  using assms
  by (cases msg) (simp_all add: mwMessage_alloc_def reads_simps LOGIN_CONTINUE_get_def)

lemma mwMessage_get_wire [reads_simps]:
  assumes "mwMessage_valid msg"
  shows "run_state (mwMessage_get j) (gbuf w pre (mwMessage_wire msg @ post))
     = (Some (mwMessage_norm msg), gbuf w (pre @ mwMessage_wire msg) post)"
proof -
  let ?h = "mwMessage_head msg"
  have ty: "mh_type ?h = mwMessage_code msg" and hv: "mwMessageHead_valid ?h"
    and bv: "mwMessage_body_valid msg"
    using assms by (simp_all add: mwMessage_valid_def mwMessage_typed_def)
  obtain msg0 where alloc: "mwMessage_alloc (mwMessage_code msg) (mwMessageHead_norm ?h) = Some msg0"
    and body: "run_state (mwMessage_body_get j msg0)
        (gbuf w (pre @ mwMessageHead_wire ?h) (mwMessage_body_wire msg @ post))
      = (mwMessage_norm msg, gbuf w ((pre @ mwMessageHead_wire ?h) @ mwMessage_body_wire msg) post)"
    using mwMessage_body_get_wire [OF bv] by blast
  have attr: "mh_attribs ((jk_head j)\<lparr>mh_attribs := \<lparr>op_len = 0, op_data = None\<rparr>\<rparr>) = opaque_of []"
    by (simp add: opaque_of_def)
  show ?thesis
    using body
    by (simp add: mwMessage_get_def mwMessage_wire_def mwMessageHead_get_wire [OF hv attr]
        mwMessageHead_clone_norm ty alloc)
qed

interpretation mwMessage: tail_codec mwMessage_put "\<lambda>_. mwMessage_get j"
  mwMessage_wire mwMessage_tail mwMessage_valid None "\<lambda>msg. Some (mwMessage_norm msg)" for j
  by unfold_locales (simp_all add: writer_intros reader_intros reads_simps)

text \<open>
  The body readers keep the type of the head and the struct, so that the casts on
  \<open>type\<close> that follow a parse are to the struct that was allocated.
\<close>

lemma mwMessage_body_get_code:
  "mwMessage_code (eval_state (mwMessage_body_get j msg) b) = mwMessage_code msg"
  by (cases msg) (simp_all add: split_def)

lemma body_get_heads:
  "mh_type (hs_head (eval_state (HANDSHAKE_get m1) b)) = mh_type (hs_head m1)"
  "ha_head (eval_state (HANDSHAKE_ACK_get m2) b) = ha_head m2"
  "lg_head (eval_state (LOGIN_get m3) b) = lg_head m3"
  "lr_head (eval_state (LOGIN_REDIRECT_get m4) b) = lr_head m4"
  "la_head (eval_state (LOGIN_ACK_get k m5) b) = la_head m5"
  "cc_head (eval_state (CHANNEL_CREATE_get k1 k2 m6) b) = cc_head m6"
  "cd_head (eval_state (CHANNEL_DESTROY_get m7) b) = cd_head m7"
  "cs_head (eval_state (CHANNEL_SEND_get m8) b) = cs_head m8"
  "ca_head (eval_state (CHANNEL_ACCEPT_get k1 m9) b) = ca_head m9"
  "su_head (eval_state (SET_USER_STATUS_get m10) b) = su_head m10"
  "sp_head (eval_state (SET_PRIVACY_LIST_get m11) b) = sp_head m11"
  "ss_head (eval_state (SENSE_SERVICE_get m12) b) = ss_head m12"
  "ad_head (eval_state (ADMIN_get m13) b) = ad_head m13"
  "an_head (eval_state (ANNOUNCE_get k1 m14) b) = an_head m14"
  by (simp_all add: HANDSHAKE_get_def HANDSHAKE_ACK_get_def LOGIN_get_def LOGIN_REDIRECT_get_def
      LOGIN_ACK_get_def CHANNEL_CREATE_get_def CHANNEL_DESTROY_get_def CHANNEL_SEND_get_def
      CHANNEL_ACCEPT_get_def SET_USER_STATUS_get_def SET_PRIVACY_LIST_get_def SENSE_SERVICE_get_def
      ADMIN_get_def ANNOUNCE_get_def split_def Let_def)

lemma mwMessage_body_get_type:
  "mh_type (mwMessage_head (eval_state (mwMessage_body_get j msg) b)) = mh_type (mwMessage_head msg)"
  by (cases msg) (simp_all add: split_def body_get_heads LOGIN_CONTINUE_get_def)

lemma mwMessage_get_typed:
  "eval_state (mwMessage_get j) b = Some msg \<Longrightarrow> mwMessage_typed msg"
  using mwMessage_body_get_code mwMessage_body_get_type
  by (force simp: mwMessage_get_def mwMessage_typed_def split_def mwMessageHead_clone_def
      split: if_splits option.splits dest!: mwMessage_alloc_head)

subsection \<open>Uninitialised locals do not show in a complete message\<close>

lemma agrees_head [agree_intros]:
  "agrees (mwMessageHead_get (h\<lparr>mh_attribs := a\<rparr>)) (mwMessageHead_get (h'\<lparr>mh_attribs := a\<rparr>))"
  unfolding mwMessageHead_get_def Let_def
  by (cases h; cases h') (simp only: mwMessageHead.simps, intro agree_intros reader_intros)

lemma agrees_bodies [agree_intros]:
  "agrees (LOGIN_ACK_get k m1) (LOGIN_ACK_get k' m1)"
  "agrees (enc_offer_get s c eo) (enc_offer_get s' c' eo)"
  "agrees (enc_accept_get s ea) (enc_accept_get s' ea)"
  "agrees (ANNOUNCE_get c m4) (ANNOUNCE_get c' m4)"
  unfolding LOGIN_ACK_get_def enc_offer_get_def enc_accept_get_def ANNOUNCE_get_def Let_def split_def
  by (intro agree_intros reader_intros)+

lemma agrees_channel_bodies [agree_intros]:
  "agrees (CHANNEL_CREATE_get s c m2) (CHANNEL_CREATE_get s' c' m2)"
  "agrees (CHANNEL_ACCEPT_get s m3) (CHANNEL_ACCEPT_get s' m3)"
  unfolding CHANNEL_CREATE_get_def CHANNEL_ACCEPT_get_def
  by (intro agree_intros reader_intros)+

lemma agrees_Message_body [agree_intros]:
  "agrees (mwMessage_body_get j msg) (mwMessage_body_get j' msg)"
  by (cases msg) (simp_all, (intro agree_intros reader_intros)+)

lemma agrees_Message: "agrees (mwMessage_get j) (mwMessage_get j')"
  unfolding mwMessage_get_def
  by (intro agree_intros reader_intros)
    (auto split: option.split intro!: agree_intros reader_intros)

subsection \<open>Properties\<close>

text \<open>
  C3: every message the client can send (type code and struct in agreement, each
  string and opaque short enough for its length field) is read back by
  \<open>mwMessage_get\<close> from the bytes \<open>mwMessage_put\<close> produced: the same message up to
  \<open>mwMessage_norm\<close> (an empty string becomes NULL, fields that are not sent become
  zero, the recipients of an announcement are reversed), with no error, and with
  only the writer's trailing filler bytes left; whatever the uninitialised locals
  \<open>j\<close> of the readers hold.
\<close>

theorem mwMessage_round_trip:
  assumes "mwMessage_valid msg"
  shows "run_state (mwMessage_get j)
      (mwGetBuffer_wrap (Some (mwPutBuffer_finalize (exec_state (mwMessage_put msg) mwPutBuffer_new))))
    = (Some (mwMessage_norm msg), gbuf True (mwMessage_wire msg) (mwMessage_tail msg))"
  using assms by (rule mwMessage.round_trip)

definition example_create :: mwMessage where
  "example_create = ChannelCreate
     \<lparr>cc_head = mwMessageHead_zero\<lparr>mh_type := mwMessage_CHANNEL_CREATE\<rparr>, cc_reserved = 0, cc_channel = 1,
      cc_target = \<lparr>ib_user = Some [97, 98], ib_community = None\<rparr>, cc_service = 0x1000, cc_proto_type = 0x1000,
      cc_proto_ver = 3, cc_options = 0, cc_addtl = opaque_of [1, 2, 3], cc_creator_flag = False,
      cc_creator = mwLoginInfo_zero,
      cc_encrypt = \<lparr>eo_mode = 2, eo_items = [\<lparr>ei_id = 1, ei_info = opaque_of [7]\<rparr>],
                    eo_extra = 2, eo_flag = False\<rparr>\<rparr>"

definition example_junk :: mwJunk where
  "example_junk = \<lparr>jk_head = mwMessageHead_zero\<lparr>mh_channel := 99\<rparr>, jk_ack = 1, jk_skip = 200, jk_count = 3\<rparr>"

lemma example_create_valid: "mwMessage_valid example_create"
  by (simp add: example_create_def mwMessage_valid_def mwMessage_typed_def mwMessageHead_valid_def
      mwMessageHead_zero_def has_attribs_def CHANNEL_CREATE_valid_def mwIdBlock_valid_def opaque_valid_def
      string_valid_def enc_offer_valid_def enc_offer_block_def mwEncryptItem_valid_def
      mwEncryptItem_wire_def opaque_wire_def)

theorem mwMessage_round_trip_witness:
  "mwMessage_valid example_create \<and> run_state (mwMessage_get example_junk)
      (mwGetBuffer_wrap (Some (mwPutBuffer_finalize (exec_state (mwMessage_put example_create) mwPutBuffer_new))))
    = (Some (mwMessage_norm example_create),
       gbuf True (mwMessage_wire example_create) (mwMessage_tail example_create))"
  using mwMessage_round_trip [OF example_create_valid] example_create_valid by simp

text \<open>
  C23: a message cut short anywhere in the part its reader takes is noticed: the
  buffer is in error after \<open>mwMessage_get\<close>.
\<close>

theorem mwMessage_truncated:
  assumes "mwMessage_valid msg" and "n < length (mwMessage_wire msg)"
  shows "gb_error (exec_state (mwMessage_get j) (gbuf w pre (take n (mwMessage_wire msg))))"
  using assms by (rule mwMessage.truncated)

lemma example_create_length: "40 < length (mwMessage_wire example_create)"
  by (simp add: example_create_def mwMessage_wire_def mwMessageHead_wire_def mwMessageHead_zero_def
      has_attribs_def CHANNEL_CREATE_wire_def mwIdBlock_wire_def string_wire_def opaque_wire_def
      enc_offer_read_def enc_offer_wire_def enc_offer_block_def mwEncryptItem_wire_def)

theorem mwMessage_truncated_witness:
  "mwMessage_valid example_create \<and> 40 < length (mwMessage_wire example_create)
   \<and> gb_error (exec_state (mwMessage_get example_junk) (gbuf True [] (take 40 (mwMessage_wire example_create))))"
  using mwMessage_truncated [of example_create 40 example_junk True "[]"] example_create_valid
  by (simp add: example_create_length)

text \<open>
  C24: on any input whatever \<open>mwMessage_get\<close> keeps the cursor inside the block it
  was given and the block unchanged, and what it returns is a struct of the type
  its head names, so that the dispatch by casts that follows is safe.
\<close>

theorem mwMessage_get_safe:
  assumes "gb_ok b"
  shows "gb_ok (exec_state (mwMessage_get j) b) \<and> gb_buf (exec_state (mwMessage_get j) b) = gb_buf b
    \<and> (case eval_state (mwMessage_get j) b of None \<Rightarrow> True | Some msg \<Rightarrow> mwMessage_typed msg)"
  using reader_safe [OF reader_Message assms, of j] mwMessage_get_typed [of j b]
  by (simp split: option.split)

theorem mwMessage_get_safe_witness:
  "gb_ok (gbuf True [] [0, 3, 255]) \<and> gb_ok (exec_state (mwMessage_get example_junk) (gbuf True [] [0, 3, 255]))
   \<and> gb_buf (exec_state (mwMessage_get example_junk) (gbuf True [] [0, 3, 255])) = [0, 3, 255]
   \<and> (case eval_state (mwMessage_get example_junk) (gbuf True [] [0, 3, 255]) of
        None \<Rightarrow> True | Some msg \<Rightarrow> mwMessage_typed msg)"
  using mwMessage_get_safe [of "gbuf True [] [0, 3, 255]" example_junk] by simp

text \<open>
  C25: the readers leave several locals uninitialised and read them after a failed
  get; a message that is parsed without error does not depend on what they held.
\<close>

theorem mwMessage_get_no_junk:
  assumes "\<not> gb_error (exec_state (mwMessage_get j) b)"
  shows "run_state (mwMessage_get j) b = run_state (mwMessage_get j') b"
  using agreesD [OF agrees_Message assms] .

lemma example_create_parses:
  "\<not> gb_error (exec_state (mwMessage_get j) (gbuf True [] (mwMessage_wire example_create)))"
  using mwMessage_get_wire [OF example_create_valid, of j True "[]" "[]"] by simp

theorem mwMessage_get_no_junk_witness:
  "\<not> gb_error (exec_state (mwMessage_get example_junk) (gbuf True [] (mwMessage_wire example_create)))
   \<and> run_state (mwMessage_get example_junk) (gbuf True [] (mwMessage_wire example_create))
       = run_state (mwMessage_get (example_junk\<lparr>jk_skip := 0\<rparr>)) (gbuf True [] (mwMessage_wire example_create))"
  using mwMessage_get_no_junk [OF example_create_parses] example_create_parses by simp

end
