(* ===== verification/Session_State.thy ===== *)
theory Session_State
  imports Cipher Message_Dispatch "HOL-Library.AList"
begin

text \<open>
  The state that sessions, channels and services share (\<^verbatim>\<open>src/src/session.c\<close>,
  \<^verbatim>\<open>src/src/channel.c\<close>, \<^verbatim>\<open>src/src/service.c\<close>), and the environment they run in.

  Operations are computations over the session record. A channel pointer is the
  channel's ID, the channels of a session are the heap; dereferencing a channel that
  was removed (and freed) sets \<open>ss_fault\<close>. The client's handler and the function
  pointers of the services are an \<open>env\<close>: arbitrary computations over the same state,
  in whose field \<open>ss_client\<close> they keep what is theirs. The order in which a hash table
  is traversed is a function of the environment, too.
\<close>

datatype mwSessionState =
    mwSession_STARTING | mwSession_HANDSHAKE | mwSession_HANDSHAKE_ACK | mwSession_LOGIN
  | mwSession_LOGIN_REDIR | mwSession_LOGIN_ACK | mwSession_STARTED | mwSession_STOPPING
  | mwSession_STOPPED | mwSession_UNKNOWN | mwSession_LOGIN_CONT

datatype mwChannelState =
    mwChannel_NEW | mwChannel_INIT | mwChannel_WAIT | mwChannel_OPEN | mwChannel_DESTROY
  | mwChannel_ERROR | mwChannel_UNKNOWN

datatype mwServiceState =
    mwServiceState_STOPPED | mwServiceState_STOPPING | mwServiceState_STARTED
  | mwServiceState_STARTING | mwServiceState_ERROR | mwServiceState_UNKNOWN

datatype mwChannelStatField =
    mwChannelStat_MSG_SENT | mwChannelStat_MSG_RECV | mwChannelStat_U_BYTES_SENT
  | mwChannelStat_U_BYTES_RECV | mwChannelStat_OPENED_AT | mwChannelStat_CLOSED_AT

abbreviation mwEncrypt_NONE :: guint16 where "mwEncrypt_NONE \<equiv> 0x0000"
abbreviation mwEncrypt_WHATEVER :: guint16 where "mwEncrypt_WHATEVER \<equiv> 0x0001"
abbreviation mwEncrypt_ALL :: guint16 where "mwEncrypt_ALL \<equiv> 0x0002"
abbreviation mwEncrypt_RC2_40 :: guint16 where "mwEncrypt_RC2_40 \<equiv> 0x1000"
abbreviation mwEncrypt_RC2_128 :: guint16 where "mwEncrypt_RC2_128 \<equiv> 0x2000"

abbreviation mwAuthType_RC2_40 :: guint16 where "mwAuthType_RC2_40 \<equiv> 0x0002"
abbreviation mwAuthType_RC2_128 :: guint16 where "mwAuthType_RC2_128 \<equiv> 0x0004"

abbreviation MW_MASTER_CHANNEL_ID :: guint32 where "MW_MASTER_CHANNEL_ID \<equiv> 0x00000000"
abbreviation ERR_FAILURE :: guint32 where "ERR_FAILURE \<equiv> 0x80000000"
abbreviation ERR_REQUEST_INVALID :: guint32 where "ERR_REQUEST_INVALID \<equiv> 0x80000001"
abbreviation ERR_SERVICE_NO_SUPPORT :: guint32 where "ERR_SERVICE_NO_SUPPORT \<equiv> 0x8000000d"
abbreviation CONNECTION_BROKEN :: guint32 where "CONNECTION_BROKEN \<equiv> 0x80000221"

text \<open>The \<open>gpointer\<close> that goes with a session state, and the values of properties.\<close>

datatype state_info = Info_uint guint32 | Info_str cstr

datatype property_value = Prop_uint guint32 | Prop_str bytes

record mwChannel =
  ch_state :: mwChannelState
  ch_user :: mwLoginInfo
  ch_reserved :: guint32
  ch_id :: guint32
  ch_service :: guint32
  ch_proto_type :: guint32
  ch_proto_ver :: guint32
  ch_options :: guint32
  ch_addtl_create :: mwOpaque
  ch_addtl_accept :: mwOpaque
  ch_supported :: "(guint32 \<times> mwCipherInstance) list option"
  ch_offered_policy :: guint16
  ch_policy :: guint16
  ch_cipher :: "mwCipherInstance option"
  ch_stats :: "(mwChannelStatField \<times> nat) list"
  ch_outgoing_queue :: "mwMsgChannelSend list"
  ch_incoming_queue :: "mwMsgChannelSend list"
  ch_srvc_data :: "nat option"

record mwService =
  sv_type :: guint32
  sv_state :: mwServiceState

text \<open>
  \<open>ss_buf\<close> holds the \<open>buf_used\<close> bytes at the start of \<open>buf\<close>; \<open>ss_counter\<close> is the counter of
  the channel set.
\<close>

record 'c mwSession =
  ss_state :: mwSessionState
  ss_state_info :: state_info
  ss_buf :: bytes
  ss_buf_len :: gsize
  ss_login :: mwLoginInfo
  ss_status :: mwUserStatus
  ss_privacy :: mwPrivacyInfo
  ss_channels :: "(guint32 \<times> mwChannel) list"
  ss_counter :: guint32
  ss_services :: "(guint32 \<times> mwService) list"
  ss_ciphers :: "(guint32 \<times> mwCipher) list"
  ss_attributes :: "(string \<times> property_value) list"
  ss_client :: 'c
  ss_fault :: bool

type_synonym ('c, 'a) M = "('c mwSession, 'a) state"

record 'c env =
  e_io_write :: "bytes \<Rightarrow> ('c, gint) M"
  e_io_close :: "('c, unit) M"
  e_on_stateChange :: "(mwSessionState \<Rightarrow> state_info \<Rightarrow> ('c, unit) M) option"
  e_on_setPrivacyInfo :: "('c, unit) M option"
  e_on_setUserStatus :: "('c, unit) M option"
  e_on_admin :: "(cstr \<Rightarrow> ('c, unit) M) option"
  e_on_announce :: "(mwLoginInfo \<Rightarrow> bool \<Rightarrow> cstr \<Rightarrow> ('c, unit) M) option"
  e_start :: "guint32 \<Rightarrow> ('c, unit) M option"
  e_stop :: "guint32 \<Rightarrow> ('c, unit) M option"
  e_recv_create :: "guint32 \<Rightarrow> (guint32 \<Rightarrow> mwMsgChannelCreate \<Rightarrow> ('c, unit) M) option"
  e_recv_accept :: "guint32 \<Rightarrow> (guint32 \<Rightarrow> mwMsgChannelAccept \<Rightarrow> ('c, unit) M) option"
  e_recv_destroy :: "guint32 \<Rightarrow> (guint32 \<Rightarrow> mwMsgChannelDestroy \<Rightarrow> ('c, unit) M) option"
  e_recv :: "guint32 \<Rightarrow> (guint32 \<Rightarrow> guint16 \<Rightarrow> mwOpaque \<Rightarrow> ('c, unit) M) option"
  e_order :: "guint32 list \<Rightarrow> guint32 list"
  e_time :: "('c, nat) M"
  e_mwKeyRandom :: "gsize \<Rightarrow> ('c, bytes) M"
  e_dh_random :: "('c, nat) M"
  e_junk :: "('c, mwJunk) M"

subsection \<open>Small steps\<close>

definition gets :: "('c mwSession \<Rightarrow> 'a) \<Rightarrow> ('c, 'a) M" where
  "gets f = State (\<lambda>s. (f s, s))"

definition modify :: "('c mwSession \<Rightarrow> 'c mwSession) \<Rightarrow> ('c, unit) M" where
  "modify f = State (\<lambda>s. ((), f s))"

definition optionally :: "('c, unit) M option \<Rightarrow> ('c, unit) M" where
  "optionally h = (case h of None \<Rightarrow> State_Monad.return () | Some m \<Rightarrow> m)"

fun for_each :: "('a \<Rightarrow> ('c, unit) M) \<Rightarrow> 'a list \<Rightarrow> ('c, unit) M" where
  "for_each f [] = State_Monad.return ()"
| "for_each f (x # xs) = do { f x; for_each f xs }"

lemma run_gets [simp]: "run_state (gets f) s = (f s, s)"
  by (simp add: gets_def)

lemma run_modify [simp]: "run_state (modify f) s = ((), f s)"
  by (simp add: modify_def)

lemma optionally_simps [simp]:
  "optionally None = State_Monad.return ()" "optionally (Some m) = m"
  by (simp_all add: optionally_def)

text \<open>The memory behind a channel pointer.\<close>

definition fault :: "('c, unit) M" where
  "fault = modify (\<lambda>s. s\<lparr>ss_fault := True\<rparr>)"

definition mwChannel_zero :: mwChannel where
  "mwChannel_zero = \<lparr>ch_state = mwChannel_NEW, ch_user = mwLoginInfo_zero, ch_reserved = 0, ch_id = 0,
     ch_service = 0, ch_proto_type = 0, ch_proto_ver = 0, ch_options = 0, ch_addtl_create = opaque_of [],
     ch_addtl_accept = opaque_of [], ch_supported = None, ch_offered_policy = 0, ch_policy = 0,
     ch_cipher = None, ch_stats = [], ch_outgoing_queue = [], ch_incoming_queue = [],
     ch_srvc_data = None\<rparr>"

definition chan_deref :: "guint32 \<Rightarrow> ('c, mwChannel) M" where
  "chan_deref chan = do {
     c \<leftarrow> gets (\<lambda>s. map_of (ss_channels s) chan);
     case c of Some ch \<Rightarrow> State_Monad.return ch
     | None \<Rightarrow> do { fault; State_Monad.return mwChannel_zero }
   }"

definition chan_update :: "guint32 \<Rightarrow> (mwChannel \<Rightarrow> mwChannel) \<Rightarrow> ('c, unit) M" where
  "chan_update chan f = do {
     ch \<leftarrow> chan_deref chan;
     modify (\<lambda>s. if map_of (ss_channels s) chan = None then s
                 else s\<lparr>ss_channels := AList.update chan (f ch) (ss_channels s)\<rparr>)
   }"

subsection \<open>An environment for examples\<close>

text \<open>A client that records what is written, and services without functions of their own.\<close>

definition log_env :: "bytes list env" where
  "log_env = \<lparr>
     e_io_write = (\<lambda>b. do { modify (\<lambda>s. s\<lparr>ss_client := ss_client s @ [b]\<rparr>); State_Monad.return 0 }),
     e_io_close = State_Monad.return (),
     e_on_stateChange = None, e_on_setPrivacyInfo = None, e_on_setUserStatus = None,
     e_on_admin = None, e_on_announce = None,
     e_start = (\<lambda>_. None), e_stop = (\<lambda>_. None),
     e_recv_create = (\<lambda>_. None), e_recv_accept = (\<lambda>_. None), e_recv_destroy = (\<lambda>_. None),
     e_recv = (\<lambda>_. None), e_order = (\<lambda>ks. ks), e_time = State_Monad.return 0,
     e_mwKeyRandom = (\<lambda>n. State_Monad.return (replicate n 7)), e_dh_random = State_Monad.return 5,
     e_junk = State_Monad.return \<lparr>jk_head = mwMessageHead_zero, jk_ack = 0, jk_skip = 0, jk_count = 0\<rparr>\<rparr>"

end
