(* ===== verification/Session_Core.thy ===== *)
theory Session_Core
  imports Session_State
begin

text \<open>
  The part of \<^verbatim>\<open>src/src/session.c\<close> that channels and services build on: properties, the state
  of the session, sending a message, and the tables of services and ciphers.
\<close>

subsection \<open>Properties\<close>

definition property_set :: "string \<Rightarrow> property_value \<Rightarrow> ('c, unit) M" where
  "property_set key val = modify (\<lambda>s. s\<lparr>ss_attributes := AList.update key val (ss_attributes s)\<rparr>)"

definition property_get :: "string \<Rightarrow> ('c, property_value option) M" where
  "property_get key = gets (\<lambda>s. map_of (ss_attributes s) key)"

definition property_del :: "string \<Rightarrow> ('c, unit) M" where
  "property_del key = modify (\<lambda>s. s\<lparr>ss_attributes := AList.delete key (ss_attributes s)\<rparr>)"

text \<open>
  \<open>GUINT(property_get(s, key))\<close>, NULL being zero, and the property used as a string. A
  property of the other kind is a pointer used as a number, or the converse: a client
  error that is given the value zero, or NULL, here.
\<close>

definition property_uint :: "string \<Rightarrow> ('c, guint32) M" where
  "property_uint key = do {
     v \<leftarrow> property_get key;
     State_Monad.return (case v of Some (Prop_uint n) \<Rightarrow> n | _ \<Rightarrow> 0)
   }"

definition property_str :: "string \<Rightarrow> ('c, cstr) M" where
  "property_str key = do {
     v \<leftarrow> property_get key;
     State_Monad.return (case v of Some (Prop_str b) \<Rightarrow> Some b | _ \<Rightarrow> None)
   }"

definition session_defaults :: "('c, unit) M" where
  "session_defaults = do {
     property_set ''client.version.major'' (Prop_uint 0x001e);
     property_set ''client.version.minor'' (Prop_uint 0x001d);
     property_set ''client.id'' (Prop_uint 0x1700)
   }"

definition mwSession_zero :: "'c \<Rightarrow> 'c mwSession" where
  "mwSession_zero client = \<lparr>ss_state = mwSession_STOPPED, ss_state_info = Info_uint 0, ss_buf = [],
     ss_buf_len = 0, ss_login = mwLoginInfo_zero, ss_status = mwUserStatus_zero,
     ss_privacy = mwPrivacyInfo_zero, ss_channels = [], ss_counter = 0, ss_services = [], ss_ciphers = [],
     ss_attributes = [], ss_client = client, ss_fault = False\<rparr>"

definition mwSession_new :: "'c \<Rightarrow> 'c mwSession" where
  "mwSession_new client = exec_state session_defaults (mwSession_zero client)"

subsection \<open>State and connection\<close>

definition session_buf_free :: "('c, unit) M" where
  "session_buf_free = modify (\<lambda>s. s\<lparr>ss_buf := [], ss_buf_len := 0\<rparr>)"

definition mwSession_getState :: "('c, mwSessionState) M" where
  "mwSession_getState = gets ss_state"

definition mwSession_isStarting :: "mwSessionState \<Rightarrow> bool" where
  "mwSession_isStarting st \<longleftrightarrow> st \<in> {mwSession_STARTING, mwSession_HANDSHAKE, mwSession_HANDSHAKE_ACK,
     mwSession_LOGIN, mwSession_LOGIN_ACK, mwSession_LOGIN_REDIR, mwSession_LOGIN_CONT}"

definition session_state :: "'c env \<Rightarrow> mwSessionState \<Rightarrow> state_info \<Rightarrow> ('c, unit) M" where
  "session_state env st info = do {
     cur \<leftarrow> mwSession_getState;
     if cur = st then State_Monad.return ()
     else do {
       modify (\<lambda>s. s\<lparr>ss_state := st, ss_state_info := info\<rparr>);
       optionally (map_option (\<lambda>h. h st info) (e_on_stateChange env))
     }
   }"

definition SET_USER_STATUS_recv :: "'c env \<Rightarrow> mwMsgSetUserStatus \<Rightarrow> ('c, unit) M" where
  "SET_USER_STATUS_recv env msg = do {
     modify (\<lambda>s. s\<lparr>ss_status := mwUserStatus_clone (mwUserStatus_clear (ss_status s)) (su_status msg)\<rparr>);
     optionally (e_on_setUserStatus env)
   }"

definition mwSession_render :: "mwMessage \<Rightarrow> mwOpaque" where
  "mwSession_render msg =
     (let o' = mwPutBuffer_finalize (exec_state (mwMessage_put msg) mwPutBuffer_new)
      in mwPutBuffer_finalize (exec_state (mwOpaque_put (Some o')) mwPutBuffer_new))"

definition mwSession_send :: "'c env \<Rightarrow> mwMessage \<Rightarrow> ('c, gint) M" where
  "mwSession_send env msg = do {
     ret \<leftarrow> e_io_write env (opaque_bytes (mwSession_render msg));
     (if ret = 0
      then (case msg of SetUserStatus m \<Rightarrow> SET_USER_STATUS_recv env m | _ \<Rightarrow> State_Monad.return ())
      else State_Monad.return ());
     State_Monad.return ret
   }"

definition mwSession_sendKeepalive :: "'c env \<Rightarrow> ('c, gint) M" where
  "mwSession_sendKeepalive env = e_io_write env [0x80]"

abbreviation msg_head :: "guint16 \<Rightarrow> mwMessageHead" where
  "msg_head type \<equiv> mwMessageHead_zero\<lparr>mh_type := type\<rparr>"

definition mwSession_forceLogin :: "'c env \<Rightarrow> ('c, gint) M" where
  "mwSession_forceLogin env = do {
     st \<leftarrow> mwSession_getState;
     if st \<noteq> mwSession_LOGIN_REDIR then State_Monad.return (- 1)
     else do {
       session_state env mwSession_LOGIN_CONT (Info_uint 0);
       mwSession_send env (LoginContinue \<lparr>lc_head = msg_head mwMessage_LOGIN_CONTINUE\<rparr>)
     }
   }"

definition mwSession_sendAnnounce :: "'c env \<Rightarrow> bool \<Rightarrow> cstr \<Rightarrow> cstr list \<Rightarrow> ('c, gint) M" where
  "mwSession_sendAnnounce env may_reply txt recipients = do {
     st \<leftarrow> mwSession_getState;
     if st \<noteq> mwSession_STARTED then State_Monad.return (- 1)
     else mwSession_send env (Announce ((ANNOUNCE_zero (msg_head mwMessage_ANNOUNCE))
            \<lparr>an_recipients := recipients, an_may_reply := may_reply, an_text := txt\<rparr>))
   }"

definition mwSession_setPrivacyInfo :: "'c env \<Rightarrow> mwPrivacyInfo \<Rightarrow> ('c, gint) M" where
  "mwSession_setPrivacyInfo env privacy = mwSession_send env
     (SetPrivacyList ((SET_PRIVACY_LIST_zero (msg_head mwMessage_SET_PRIVACY_LIST))
        \<lparr>sp_privacy := mwPrivacyInfo_clone privacy\<rparr>))"

definition mwSession_setUserStatus :: "'c env \<Rightarrow> mwUserStatus \<Rightarrow> ('c, gint) M" where
  "mwSession_setUserStatus env stat = mwSession_send env
     (SetUserStatus ((SET_USER_STATUS_zero (msg_head mwMessage_SET_USER_STATUS))
        \<lparr>su_status := mwUserStatus_clone mwUserStatus_zero stat\<rparr>))"

subsection \<open>Services and ciphers\<close>

definition mwSession_getService :: "guint32 \<Rightarrow> ('c, mwService option) M" where
  "mwSession_getService srv = gets (\<lambda>s. map_of (ss_services s) srv)"

definition mwSession_getServices :: "'c env \<Rightarrow> ('c, guint32 list) M" where
  "mwSession_getServices env = gets (\<lambda>s. e_order env (map fst (ss_services s)))"

definition mwSession_senseService :: "'c env \<Rightarrow> guint32 \<Rightarrow> ('c, unit) M" where
  "mwSession_senseService env srvc = do {
     st \<leftarrow> mwSession_getState;
     if srvc = 0 \<or> st \<noteq> mwSession_STARTED then State_Monad.return ()
     else do {
       mwSession_send env (SenseService ((SENSE_SERVICE_zero (msg_head mwMessage_SENSE_SERVICE))
         \<lparr>ss_service := srvc\<rparr>));
       State_Monad.return ()
     }
   }"

definition mwSession_addService :: "'c env \<Rightarrow> mwService \<Rightarrow> ('c, bool) M" where
  "mwSession_addService env srv = do {
     old \<leftarrow> mwSession_getService (sv_type srv);
     if old \<noteq> None then State_Monad.return False
     else do {
       modify (\<lambda>s. s\<lparr>ss_services := AList.update (sv_type srv) srv (ss_services s)\<rparr>);
       st \<leftarrow> mwSession_getState;
       (if st = mwSession_STARTED then mwSession_senseService env (sv_type srv) else State_Monad.return ());
       State_Monad.return True
     }
   }"

definition mwSession_removeService :: "guint32 \<Rightarrow> ('c, mwService option) M" where
  "mwSession_removeService srv = do {
     svc \<leftarrow> mwSession_getService srv;
     (if svc \<noteq> None then modify (\<lambda>s. s\<lparr>ss_services := AList.delete srv (ss_services s)\<rparr>)
      else State_Monad.return ());
     State_Monad.return svc
   }"

definition mwSession_getCipher :: "guint16 \<Rightarrow> ('c, mwCipher option) M" where
  "mwSession_getCipher c = gets (\<lambda>s. map_of (ss_ciphers s) (ucast c))"

definition mwSession_addCipher :: "mwCipher \<Rightarrow> ('c, bool) M" where
  "mwSession_addCipher c = do {
     old \<leftarrow> mwSession_getCipher (mwCipher_getType (Some c));
     if old \<noteq> None then State_Monad.return False
     else do {
       modify (\<lambda>s. s\<lparr>ss_ciphers := AList.update (ucast (mwCipher_getType (Some c))) c (ss_ciphers s)\<rparr>);
       State_Monad.return True
     }
   }"

definition mwSession_removeCipher :: "guint16 \<Rightarrow> ('c, mwCipher option) M" where
  "mwSession_removeCipher c = do {
     ciph \<leftarrow> mwSession_getCipher c;
     (if ciph \<noteq> None then modify (\<lambda>s. s\<lparr>ss_ciphers := AList.delete (ucast c) (ss_ciphers s)\<rparr>)
      else State_Monad.return ());
     State_Monad.return ciph
   }"

definition mwSession_getCiphers :: "'c env \<Rightarrow> ('c, guint32 list) M" where
  "mwSession_getCiphers env = gets (\<lambda>s. e_order env (map fst (ss_ciphers s)))"

end
