(* ===== verification/Service.thy ===== *)
theory Service
  imports Session_Core
begin

text \<open>
  The life cycle of a service, \<^verbatim>\<open>src/src/service.c\<close>. A service is named by its type, the key
  under which the session holds it; operations on a service that is not there are the
  NULL cases of the C functions. The functions that pass a message on to a service are
  in \<open>Channel\<close>, because they may destroy the channel.
\<close>

definition service_set_state :: "guint32 \<Rightarrow> mwServiceState \<Rightarrow> ('c, unit) M" where
  "service_set_state srvc st = modify (\<lambda>s. case map_of (ss_services s) srvc of
     None \<Rightarrow> s | Some sv \<Rightarrow> s\<lparr>ss_services := AList.update srvc (sv\<lparr>sv_state := st\<rparr>) (ss_services s)\<rparr>)"

definition mwService_getState :: "guint32 \<Rightarrow> ('c, mwServiceState) M" where
  "mwService_getState srvc = do {
     sv \<leftarrow> mwSession_getService srvc;
     State_Monad.return (case sv of None \<Rightarrow> mwServiceState_STOPPED | Some sv \<Rightarrow> sv_state sv)
   }"

definition MW_SERVICE_IS_LIVE :: "mwServiceState \<Rightarrow> bool" where
  "MW_SERVICE_IS_LIVE st \<longleftrightarrow> st = mwServiceState_STARTING \<or> st = mwServiceState_STARTED"

definition MW_SERVICE_IS_DEAD :: "mwServiceState \<Rightarrow> bool" where
  "MW_SERVICE_IS_DEAD st \<longleftrightarrow> st = mwServiceState_STOPPING \<or> st = mwServiceState_STOPPED"

definition mwService_init :: "guint32 \<Rightarrow> mwService option" where
  "mwService_init type = (if type = 0 then None else Some \<lparr>sv_type = type, sv_state = mwServiceState_STOPPED\<rparr>)"

definition mwService_started :: "guint32 \<Rightarrow> ('c, unit) M" where
  "mwService_started srvc = service_set_state srvc mwServiceState_STARTED"

definition mwService_stopped :: "guint32 \<Rightarrow> ('c, unit) M" where
  "mwService_stopped srvc = do {
     st \<leftarrow> mwService_getState srvc;
     if st \<noteq> mwServiceState_STOPPED then service_set_state srvc mwServiceState_STOPPED
     else State_Monad.return ()
   }"

definition mwService_start :: "'c env \<Rightarrow> guint32 \<Rightarrow> ('c, unit) M" where
  "mwService_start env srvc = do {
     sv \<leftarrow> mwSession_getService srvc;
     st \<leftarrow> mwService_getState srvc;
     if sv = None \<or> st \<noteq> mwServiceState_STOPPED then State_Monad.return ()
     else do {
       service_set_state srvc mwServiceState_STARTING;
       case e_start env srvc of Some start \<Rightarrow> start | None \<Rightarrow> mwService_started srvc
     }
   }"

definition mwService_error :: "'c env \<Rightarrow> guint32 \<Rightarrow> ('c, unit) M" where
  "mwService_error env srvc = do {
     sv \<leftarrow> mwSession_getService srvc;
     st \<leftarrow> mwService_getState srvc;
     if sv = None \<or> MW_SERVICE_IS_DEAD st then State_Monad.return ()
     else do {
       service_set_state srvc mwServiceState_ERROR;
       case e_stop env srvc of Some stop \<Rightarrow> stop | None \<Rightarrow> mwService_stopped srvc
     }
   }"

definition mwService_stop :: "'c env \<Rightarrow> guint32 \<Rightarrow> ('c, unit) M" where
  "mwService_stop env srvc = do {
     sv \<leftarrow> mwSession_getService srvc;
     st \<leftarrow> mwService_getState srvc;
     if sv = None \<or> MW_SERVICE_IS_DEAD st then State_Monad.return ()
     else do {
       service_set_state srvc mwServiceState_STOPPING;
       case e_stop env srvc of Some stop \<Rightarrow> stop | None \<Rightarrow> mwService_stopped srvc
     }
   }"

subsection \<open>The states of the services of a session\<close>

definition srv_state :: "'c mwSession \<Rightarrow> guint32 \<Rightarrow> mwServiceState option" where
  "srv_state s srvc = map_option sv_state (map_of (ss_services s) srvc)"

lemma run_service_set_state [simp]:
  "srv_state (exec_state (service_set_state srvc st) s) =
     (if srv_state s srvc = None then srv_state s else (srv_state s)(srvc \<mapsto> st))"
  by (auto simp: service_set_state_def srv_state_def update_conv fun_eq_iff split: option.splits)

lemma run_getService [simp]: "run_state (mwSession_getService srvc) s = (map_of (ss_services s) srvc, s)"
  by (simp add: mwSession_getService_def)

lemma run_service_getState [simp]:
  "run_state (mwService_getState srvc) s =
     (case srv_state s srvc of None \<Rightarrow> mwServiceState_STOPPED | Some st \<Rightarrow> st, s)"
  by (simp add: mwService_getState_def srv_state_def split: option.split)

lemma srv_state_None_iff: "map_of (ss_services s) srvc = None \<longleftrightarrow> srv_state s srvc = None"
  by (simp add: srv_state_def)

text \<open>
  The contract of a service's own functions: \<open>start\<close> leaves the service starting or
  started, \<open>stop\<close> leaves it stopping or stopped, and neither touches another service.
\<close>

definition start_contract :: "'c env \<Rightarrow> guint32 \<Rightarrow> bool" where
  "start_contract env srvc \<longleftrightarrow> (\<forall>m s. e_start env srvc = Some m \<and> srv_state s srvc = Some mwServiceState_STARTING
     \<longrightarrow> (\<exists>st. MW_SERVICE_IS_LIVE st \<and> srv_state (exec_state m s) = (srv_state s)(srvc \<mapsto> st)))"

definition stop_contract :: "'c env \<Rightarrow> guint32 \<Rightarrow> bool" where
  "stop_contract env srvc \<longleftrightarrow> (\<forall>m s. e_stop env srvc = Some m \<and> srv_state s srvc \<noteq> None
     \<longrightarrow> (\<exists>st. MW_SERVICE_IS_DEAD st \<and> srv_state (exec_state m s) = (srv_state s)(srvc \<mapsto> st)))"

lemma mwService_stopped_state:
  "srv_state s srvc \<noteq> None \<Longrightarrow>
   srv_state (exec_state (mwService_stopped srvc) s) = (srv_state s)(srvc \<mapsto> mwServiceState_STOPPED)"
  by (auto simp: mwService_stopped_def fun_eq_iff)

lemma mwService_started_state:
  "srv_state s srvc \<noteq> None \<Longrightarrow>
   srv_state (exec_state (mwService_started srvc) s) = (srv_state s)(srvc \<mapsto> mwServiceState_STARTED)"
  by (auto simp: mwService_started_def)

lemma stop_handler_state:
  assumes "stop_contract env srvc" and "srv_state s srvc \<noteq> None"
  shows "\<exists>st. MW_SERVICE_IS_DEAD st \<and> srv_state (exec_state (case e_stop env srvc of Some stop \<Rightarrow> stop
     | None \<Rightarrow> mwService_stopped srvc) s) = (srv_state s)(srvc \<mapsto> st)"
proof (cases "e_stop env srvc")
  case None
  then show ?thesis
    using mwService_stopped_state [OF assms(2)]
    by (auto simp: MW_SERVICE_IS_DEAD_def intro!: exI [of _ mwServiceState_STOPPED])
next
  case (Some m)
  with assms show ?thesis
    unfolding stop_contract_def by auto
qed

lemma mwService_stop_state:
  assumes "stop_contract env srvc" and "srv_state s srvc = Some st0"
  shows "\<exists>st. MW_SERVICE_IS_DEAD st \<and> srv_state (exec_state (mwService_stop env srvc) s) = (srv_state s)(srvc \<mapsto> st)"
proof (cases "MW_SERVICE_IS_DEAD st0")
  case True
  with assms(2) show ?thesis
    by (auto simp: mwService_stop_def fun_upd_idem_iff intro!: exI [of _ st0])
next
  case False
  define s1 where "s1 = exec_state (service_set_state srvc mwServiceState_STOPPING) s"
  have s1: "srv_state s1 = (srv_state s)(srvc \<mapsto> mwServiceState_STOPPING)"
    using assms(2) by (simp add: s1_def)
  have "exec_state (mwService_stop env srvc) s =
     exec_state (case e_stop env srvc of Some stop \<Rightarrow> stop | None \<Rightarrow> mwService_stopped srvc) s1"
    using False assms(2) by (simp add: mwService_stop_def s1_def srv_state_None_iff split_def split: option.split)
  with stop_handler_state [OF assms(1), of s1] s1 show ?thesis
    by auto
qed

lemma mwService_error_state:
  assumes "stop_contract env srvc" and "srv_state s srvc = Some st0"
  shows "\<exists>st. MW_SERVICE_IS_DEAD st \<and> srv_state (exec_state (mwService_error env srvc) s) = (srv_state s)(srvc \<mapsto> st)"
proof (cases "MW_SERVICE_IS_DEAD st0")
  case True
  with assms(2) show ?thesis
    by (auto simp: mwService_error_def fun_upd_idem_iff intro!: exI [of _ st0])
next
  case False
  define s1 where "s1 = exec_state (service_set_state srvc mwServiceState_ERROR) s"
  have s1: "srv_state s1 = (srv_state s)(srvc \<mapsto> mwServiceState_ERROR)"
    using assms(2) by (simp add: s1_def)
  have "exec_state (mwService_error env srvc) s =
     exec_state (case e_stop env srvc of Some stop \<Rightarrow> stop | None \<Rightarrow> mwService_stopped srvc) s1"
    using False assms(2) by (simp add: mwService_error_def s1_def srv_state_None_iff split_def split: option.split)
  with stop_handler_state [OF assms(1), of s1] s1 show ?thesis
    by auto
qed

lemma mwService_start_state:
  assumes "start_contract env srvc" and "srv_state s srvc = Some st0"
  shows "\<exists>st. (if st0 = mwServiceState_STOPPED then MW_SERVICE_IS_LIVE st else st = st0)
     \<and> srv_state (exec_state (mwService_start env srvc) s) = (srv_state s)(srvc \<mapsto> st)"
proof (cases "st0 = mwServiceState_STOPPED")
  case False
  with assms(2) show ?thesis
    by (auto simp: mwService_start_def fun_upd_idem_iff)
next
  case True
  define s1 where "s1 = exec_state (service_set_state srvc mwServiceState_STARTING) s"
  have s1: "srv_state s1 = (srv_state s)(srvc \<mapsto> mwServiceState_STARTING)"
    using assms(2) by (simp add: s1_def)
  have run: "exec_state (mwService_start env srvc) s =
     exec_state (case e_start env srvc of Some start \<Rightarrow> start | None \<Rightarrow> mwService_started srvc) s1"
    using True assms(2) by (simp add: mwService_start_def s1_def srv_state_None_iff split_def split: option.split)
  show ?thesis
  proof (cases "e_start env srvc")
    case None
    with run s1 True show ?thesis
      using mwService_started_state [of s1 srvc] by (auto simp: MW_SERVICE_IS_LIVE_def)
  next
    case (Some m)
    with assms(1) s1 obtain st where "MW_SERVICE_IS_LIVE st" "srv_state (exec_state m s1) = (srv_state s1)(srvc \<mapsto> st)"
      unfolding start_contract_def by (metis fun_upd_same)
    with Some run s1 True show ?thesis by auto
  qed
qed

subsection \<open>Calls in any order\<close>

text \<open>The life cycle as a transition system: clients, sessions and services call in any order.\<close>

inductive service_call :: "'c env \<Rightarrow> guint32 \<Rightarrow> 'c mwSession \<Rightarrow> 'c mwSession \<Rightarrow> bool"
  for env srvc where
  start: "service_call env srvc s (exec_state (mwService_start env srvc) s)"
| stop: "service_call env srvc s (exec_state (mwService_stop env srvc) s)"
| error: "service_call env srvc s (exec_state (mwService_error env srvc) s)"

inductive_simps service_call_iff: "service_call env srvc s t"

definition srv_at_rest :: "mwServiceState option \<Rightarrow> bool" where
  "srv_at_rest st \<longleftrightarrow> (\<exists>x. st = Some x \<and> (MW_SERVICE_IS_LIVE x \<or> MW_SERVICE_IS_DEAD x))"

lemma service_call_at_rest:
  assumes "start_contract env srvc" and "stop_contract env srvc"
    and "service_call env srvc s t" and "srv_at_rest (srv_state s srvc)"
  shows "srv_at_rest (srv_state t srvc) \<and> (\<forall>other. other \<noteq> srvc \<longrightarrow> srv_state t other = srv_state s other)"
proof -
  from assms(4) obtain x where x: "srv_state s srvc = Some x" "MW_SERVICE_IS_LIVE x \<or> MW_SERVICE_IS_DEAD x"
    by (auto simp: srv_at_rest_def)
  from assms(3) show ?thesis
  proof cases
    case start
    with mwService_start_state [OF assms(1) x(1)] x show ?thesis
      by (auto simp: srv_at_rest_def split: if_splits)
  next
    case stop
    with mwService_stop_state [OF assms(2) x(1)] show ?thesis by (auto simp: srv_at_rest_def)
  next
    case error
    with mwService_error_state [OF assms(2) x(1)] show ?thesis by (auto simp: srv_at_rest_def)
  qed
qed

subsection \<open>Properties\<close>


lemma log_env_contracts: "start_contract log_env srvc" "stop_contract log_env srvc"
  by (simp_all add: start_contract_def stop_contract_def log_env_def)

definition example_services :: "bytes list mwSession" where
  "example_services = (mwSession_zero [])\<lparr>ss_services :=
     [(0x1000, \<lparr>sv_type = 0x1000, sv_state = mwServiceState_STOPPED\<rparr>),
      (0x1001, \<lparr>sv_type = 0x1001, sv_state = mwServiceState_STARTED\<rparr>)]\<rparr>"


end
