(* ===== verification/Channel.thy ===== *)
theory Channel
  imports Service
begin

text \<open>
  Channels, \<^verbatim>\<open>src/src/channel.c\<close>: their creation and negotiation, sending and receiving with
  the queues of a channel that is not open yet, and the functions of \<^verbatim>\<open>src/src/service.c\<close>
  that hand a channel's messages to its service.

  A cipher instance finds its cipher in the session's table, under the type of the
  instance; a cipher that is taken out of the session while an instance is in use is
  outside the model and counts as a fault.
\<close>

definition mwChannel_idIsOutgoing :: "guint32 \<Rightarrow> bool" where
  "mwChannel_idIsOutgoing id' \<longleftrightarrow> \<not> (0x80000000 AND id' \<noteq> 0)"

definition channel_state :: "guint32 \<Rightarrow> mwChannelState \<Rightarrow> ('c, unit) M" where
  "channel_state chan st = chan_update chan (\<lambda>ch. if ch_state ch = st then ch else ch\<lparr>ch_state := st\<rparr>)"

definition get_stat :: "mwChannel \<Rightarrow> mwChannelStatField \<Rightarrow> nat" where
  "get_stat ch field = (case map_of (ch_stats ch) field of None \<Rightarrow> 0 | Some v \<Rightarrow> v)"

definition set_stat :: "guint32 \<Rightarrow> mwChannelStatField \<Rightarrow> nat \<Rightarrow> ('c, unit) M" where
  "set_stat chan field val = chan_update chan (\<lambda>ch. ch\<lparr>ch_stats := AList.update field val (ch_stats ch)\<rparr>)"

definition incr_stat :: "guint32 \<Rightarrow> mwChannelStatField \<Rightarrow> nat \<Rightarrow> ('c, unit) M" where
  "incr_stat chan field incr = do { ch \<leftarrow> chan_deref chan; set_stat chan field (get_stat ch field + incr) }"

definition timestamp_stat :: "'c env \<Rightarrow> guint32 \<Rightarrow> mwChannelStatField \<Rightarrow> ('c, unit) M" where
  "timestamp_stat env chan field = do { t \<leftarrow> e_time env; set_stat chan field t }"

subsection \<open>Supported ciphers\<close>

fun instance_type :: "mwCipherInstance \<Rightarrow> guint32" where
  "instance_type (Inst_RC2_40 cir) = 0"
| "instance_type (Inst_RC2_128 cir) = 1"

definition instance_cipher :: "mwCipherInstance \<Rightarrow> ('c, mwCipher option) M" where
  "instance_cipher ci = do {
     c \<leftarrow> gets (\<lambda>s. map_of (ss_ciphers s) (instance_type ci));
     (if c = None then fault else State_Monad.return ());
     State_Monad.return c
   }"

definition get_supported :: "guint32 \<Rightarrow> guint16 \<Rightarrow> ('c, mwCipherInstance option) M" where
  "get_supported chan id' = do {
     ch \<leftarrow> chan_deref chan;
     State_Monad.return (Option.bind (ch_supported ch) (\<lambda>t. map_of t (ucast id')))
   }"

definition put_supported :: "guint32 \<Rightarrow> mwCipherInstance \<Rightarrow> ('c, unit) M" where
  "put_supported chan ci = chan_update chan
     (\<lambda>ch. ch\<lparr>ch_supported := map_option (AList.update (instance_type ci) ci) (ch_supported ch)\<rparr>)"

definition mwChannel_addSupportedCipherInstance :: "guint32 \<Rightarrow> mwCipherInstance \<Rightarrow> ('c, unit) M" where
  "mwChannel_addSupportedCipherInstance chan ci = put_supported chan ci"

definition mwChannel_getSupportedCipherInstances :: "'c env \<Rightarrow> guint32 \<Rightarrow> ('c, mwCipherInstance list) M" where
  "mwChannel_getSupportedCipherInstances env chan = do {
     ch \<leftarrow> chan_deref chan;
     State_Monad.return (case ch_supported ch of None \<Rightarrow> []
       | Some t \<Rightarrow> List.map_filter (map_of t) (e_order env (map fst t)))
   }"

text \<open>\<open>mwCipher_newInstance(cipher, chan)\<close> for a cipher of the session.\<close>

definition session_newInstance :: "guint32 \<Rightarrow> ('c, mwCipherInstance option) M" where
  "session_newInstance cid = do {
     r \<leftarrow> gets (\<lambda>s. Option.bind (map_of (ss_ciphers s) cid) (mwCipher_newInstance (li_login_id (ss_login s))));
     case r of
       None \<Rightarrow> do { fault; State_Monad.return None }
     | Some (cipher, ci) \<Rightarrow> do {
         modify (\<lambda>s. s\<lparr>ss_ciphers := AList.update cid cipher (ss_ciphers s)\<rparr>);
         State_Monad.return (Some ci)
       }
   }"

definition mwChannel_populateSupportedCipherInstances :: "'c env \<Rightarrow> guint32 \<Rightarrow> ('c, unit) M" where
  "mwChannel_populateSupportedCipherInstances env chan = do {
     cids \<leftarrow> mwSession_getCiphers env;
     for_each (\<lambda>cid. do {
       ci \<leftarrow> session_newInstance cid;
       (case ci of None \<Rightarrow> State_Monad.return () | Some ci \<Rightarrow> put_supported chan ci)
     }) cids
   }"

definition mwChannel_selectCipherInstance :: "guint32 \<Rightarrow> mwCipherInstance option \<Rightarrow> ('c, unit) M" where
  "mwChannel_selectCipherInstance chan ci = chan_update chan (\<lambda>ch.
     if ch_supported ch = None then ch
     else ch\<lparr>ch_cipher := ci,
             ch_policy := (case ci of None \<Rightarrow> mwEncrypt_NONE
                           | Some (Inst_RC2_40 _) \<Rightarrow> mwEncrypt_RC2_40
                           | Some (Inst_RC2_128 _) \<Rightarrow> mwEncrypt_RC2_128),
             ch_supported := None\<rparr>)"

subsection \<open>Channels of a session\<close>

definition mwChannel_newIncoming :: "guint32 \<Rightarrow> ('c, guint32) M" where
  "mwChannel_newIncoming id' = do {
     modify (\<lambda>s. s\<lparr>ss_channels := AList.update id'
        (mwChannel_zero\<lparr>ch_state := mwChannel_NEW, ch_id := id', ch_supported := Some []\<rparr>) (ss_channels s)\<rparr>);
     channel_state id' mwChannel_WAIT;
     State_Monad.return id'
   }"

text \<open>
  \<open>do { id = ++cs->counter; } while(g_hash_table_lookup(cs->map, id));\<close> with fuel: one
  attempt more than there are channels.
\<close>

fun next_channel_id :: "nat \<Rightarrow> guint32 list \<Rightarrow> guint32 \<Rightarrow> guint32 option" where
  "next_channel_id 0 used counter = None"
| "next_channel_id (Suc n) used counter =
     (let counter = counter + 1
      in if counter \<in> set used then next_channel_id n used counter else Some counter)"

definition mwChannel_newOutgoing :: "('c, guint32 option) M" where
  "mwChannel_newOutgoing = do {
     id' \<leftarrow> gets (\<lambda>s. next_channel_id (Suc (length (ss_channels s))) (map fst (ss_channels s)) (ss_counter s));
     case id' of
       None \<Rightarrow> State_Monad.return None
     | Some id' \<Rightarrow> do {
         modify (\<lambda>s. s\<lparr>ss_counter := id'\<rparr>);
         chan \<leftarrow> mwChannel_newIncoming id';
         channel_state chan mwChannel_INIT;
         State_Monad.return (Some chan)
       }
   }"

definition mwChannel_find :: "guint32 \<Rightarrow> ('c, guint32 option) M" where
  "mwChannel_find chan = gets (\<lambda>s. if map_of (ss_channels s) chan = None then None else Some chan)"

definition mwChannel_getService :: "guint32 \<Rightarrow> ('c, mwService option) M" where
  "mwChannel_getService chan = do { ch \<leftarrow> chan_deref chan; mwSession_getService (ch_service ch) }"

text \<open>The setters work in state \<open>INIT\<close> only.\<close>

definition channel_set :: "guint32 \<Rightarrow> (mwChannel \<Rightarrow> mwChannel) \<Rightarrow> ('c, unit) M" where
  "channel_set chan f = chan_update chan (\<lambda>ch. if ch_state ch = mwChannel_INIT then f ch else ch)"

definition mwChannel_setService :: "guint32 \<Rightarrow> mwService \<Rightarrow> ('c, unit) M" where
  "mwChannel_setService chan srvc = channel_set chan (\<lambda>ch. ch\<lparr>ch_service := sv_type srvc\<rparr>)"

definition mwChannel_setProtoType :: "guint32 \<Rightarrow> guint32 \<Rightarrow> ('c, unit) M" where
  "mwChannel_setProtoType chan proto_type = channel_set chan (\<lambda>ch. ch\<lparr>ch_proto_type := proto_type\<rparr>)"

definition mwChannel_setProtoVer :: "guint32 \<Rightarrow> guint32 \<Rightarrow> ('c, unit) M" where
  "mwChannel_setProtoVer chan proto_ver = channel_set chan (\<lambda>ch. ch\<lparr>ch_proto_ver := proto_ver\<rparr>)"

definition mwChannel_setOptions :: "guint32 \<Rightarrow> guint32 \<Rightarrow> ('c, unit) M" where
  "mwChannel_setOptions chan options = channel_set chan (\<lambda>ch. ch\<lparr>ch_options := options\<rparr>)"

text \<open>
  What a service attaches to a channel is the address of an object of its own; no service of the
  library passes a function to clean it up.
\<close>

definition mwChannel_getServiceData :: "guint32 \<Rightarrow> ('c, nat option) M" where
  "mwChannel_getServiceData chan = do { ch \<leftarrow> chan_deref chan; State_Monad.return (ch_srvc_data ch) }"

definition mwChannel_setServiceData :: "guint32 \<Rightarrow> nat option \<Rightarrow> ('c, unit) M" where
  "mwChannel_setServiceData chan data = chan_update chan (\<lambda>ch. ch\<lparr>ch_srvc_data := data\<rparr>)"

definition mwChannel_removeServiceData :: "guint32 \<Rightarrow> ('c, unit) M" where
  "mwChannel_removeServiceData chan = chan_update chan (\<lambda>ch. ch\<lparr>ch_srvc_data := None\<rparr>)"

definition mwChannel_destroy :: "'c env \<Rightarrow> guint32 \<Rightarrow> guint32 \<Rightarrow> mwOpaque option \<Rightarrow> ('c, gint) M" where
  "mwChannel_destroy env chan reason info = do {
     channel_state chan (if reason \<noteq> 0 then mwChannel_ERROR else mwChannel_DESTROY);
     ch \<leftarrow> chan_deref chan;
     let msg = (CHANNEL_DESTROY_zero ((msg_head mwMessage_CHANNEL_DESTROY)\<lparr>mh_channel := ch_id ch\<rparr>))
           \<lparr>cd_reason := reason,
            cd_data := (case info of None \<Rightarrow> opaque_of [] | Some i \<Rightarrow> mwOpaque_clone (Some i))\<rparr>;
     modify (\<lambda>s. s\<lparr>ss_channels := AList.delete (ch_id ch) (ss_channels s)\<rparr>);
     mwSession_send env (ChannelDestroy msg)
   }"

subsection \<open>Receiving and sending\<close>

definition mwService_recv ::
  "'c env \<Rightarrow> mwService option \<Rightarrow> guint32 \<Rightarrow> guint16 \<Rightarrow> mwOpaque \<Rightarrow> ('c, unit) M" where
  "mwService_recv env srvc chan msg_type data =
     (case srvc of None \<Rightarrow> State_Monad.return ()
      | Some s \<Rightarrow> optionally (map_option (\<lambda>recv. recv chan msg_type data) (e_recv env (sv_type s))))"

text \<open>Decryption through the channel's cipher instance; none leaves the data as it is.\<close>

definition channel_decrypt :: "guint32 \<Rightarrow> mwOpaque \<Rightarrow> ('c, mwOpaque) M" where
  "channel_decrypt chan data = do {
     ch \<leftarrow> chan_deref chan;
     case mwCipherInstance_decrypt (ch_cipher ch) data of
       None \<Rightarrow> do { fault; State_Monad.return data }
     | Some (ci, out) \<Rightarrow> do {
         chan_update chan (\<lambda>ch. ch\<lparr>ch_cipher := ci\<rparr>);
         State_Monad.return out
       }
   }"

definition channel_recv :: "'c env \<Rightarrow> guint32 \<Rightarrow> mwMsgChannelSend \<Rightarrow> ('c, unit) M" where
  "channel_recv env chan msg = do {
     srvc \<leftarrow> mwChannel_getService chan;
     incr_stat chan mwChannelStat_MSG_RECV 1;
     if mh_options (cs_head msg) AND mwMessageOption_ENCRYPT \<noteq> 0 then do {
       data \<leftarrow> channel_decrypt chan (mwOpaque_clone (Some (cs_data msg)));
       mwService_recv env srvc chan (cs_type msg) data
     } else mwService_recv env srvc chan (cs_type msg) (cs_data msg)
   }"

text \<open>
  The loops run over the queues as they are when \<open>flush_channel\<close> is called: an open
  channel queues nothing. The queues are freed with the channel, so each turn needs it
  still to be there.
\<close>

definition flush_channel :: "'c env \<Rightarrow> guint32 \<Rightarrow> ('c, unit) M" where
  "flush_channel env chan = do {
     ch \<leftarrow> chan_deref chan;
     for_each (\<lambda>msg. do { channel_recv env chan msg; chan_deref chan; State_Monad.return () })
       (ch_incoming_queue ch);
     chan_update chan (\<lambda>ch. ch\<lparr>ch_incoming_queue := []\<rparr>);
     ch \<leftarrow> chan_deref chan;
     for_each (\<lambda>msg. do { mwSession_send env (ChannelSend msg); chan_deref chan; State_Monad.return () })
       (ch_outgoing_queue ch);
     chan_update chan (\<lambda>ch. ch\<lparr>ch_outgoing_queue := []\<rparr>)
   }"

definition channel_open :: "'c env \<Rightarrow> guint32 \<Rightarrow> ('c, unit) M" where
  "channel_open env chan = do {
     channel_state chan mwChannel_OPEN;
     timestamp_stat env chan mwChannelStat_OPENED_AT;
     flush_channel env chan
   }"

definition queue_outgoing :: "guint32 \<Rightarrow> mwMsgChannelSend \<Rightarrow> ('c, unit) M" where
  "queue_outgoing chan msg = chan_update chan (\<lambda>ch. ch\<lparr>ch_outgoing_queue := ch_outgoing_queue ch @ [msg]\<rparr>)"

definition queue_incoming :: "guint32 \<Rightarrow> mwMsgChannelSend \<Rightarrow> ('c, unit) M" where
  "queue_incoming chan msg =
     (let m = \<lparr>cs_head = mwMessageHead_clone mwMessageHead_zero (cs_head msg), cs_type = cs_type msg,
               cs_data = mwOpaque_clone (Some (cs_data msg))\<rparr>
      in chan_update chan (\<lambda>ch. ch\<lparr>ch_incoming_queue := ch_incoming_queue ch @ [m]\<rparr>))"

definition channel_send :: "'c env \<Rightarrow> guint32 \<Rightarrow> mwMsgChannelSend \<Rightarrow> ('c, gint) M" where
  "channel_send env chan msg = do {
     ch \<leftarrow> chan_deref chan;
     if ch_state ch = mwChannel_OPEN then mwSession_send env (ChannelSend msg)
     else do { queue_outgoing chan msg; State_Monad.return 0 }
   }"

definition channel_encrypt :: "guint32 \<Rightarrow> mwCipherInstance \<Rightarrow> mwOpaque \<Rightarrow> ('c, mwOpaque) M" where
  "channel_encrypt chan ci data = do {
     cipher \<leftarrow> instance_cipher ci;
     case cipher of
       None \<Rightarrow> State_Monad.return data
     | Some cipher \<Rightarrow> (let (ci, out) = mwCipherInstance_encrypt cipher (Some ci) data
         in do { chan_update chan (\<lambda>ch. ch\<lparr>ch_cipher := ci\<rparr>); State_Monad.return out })
   }"

definition mwChannel_sendEncrypted ::
  "'c env \<Rightarrow> guint32 \<Rightarrow> guint32 \<Rightarrow> mwOpaque \<Rightarrow> bool \<Rightarrow> ('c, gint) M" where
  "mwChannel_sendEncrypted env chan type data encrypt = do {
     ch \<leftarrow> chan_deref chan;
     let msg = \<lparr>cs_head = (msg_head mwMessage_CHANNEL_SEND)\<lparr>mh_channel := ch_id ch\<rparr>, cs_type = ucast type,
                cs_data = mwOpaque_clone (Some data)\<rparr>;
     msg \<leftarrow> (case ch_cipher ch of
       Some ci \<Rightarrow> if encrypt then do {
           out \<leftarrow> channel_encrypt chan ci (cs_data msg);
           State_Monad.return (msg\<lparr>cs_head := (cs_head msg)\<lparr>mh_options := mwMessageOption_ENCRYPT\<rparr>, cs_data := out\<rparr>)
         } else State_Monad.return msg
     | None \<Rightarrow> State_Monad.return msg);
     channel_send env chan msg
   }"

definition mwChannel_send :: "'c env \<Rightarrow> guint32 \<Rightarrow> guint32 \<Rightarrow> mwOpaque \<Rightarrow> ('c, gint) M" where
  "mwChannel_send env chan type data = mwChannel_sendEncrypted env chan type data True"

definition mwChannel_recv :: "'c env \<Rightarrow> guint32 \<Rightarrow> mwMsgChannelSend \<Rightarrow> ('c, unit) M" where
  "mwChannel_recv env chan msg = do {
     ch \<leftarrow> chan_deref chan;
     if ch_state ch = mwChannel_OPEN then channel_recv env chan msg else queue_incoming chan msg
   }"

subsection \<open>Creating and accepting\<close>

definition offer_items :: "mwCipherInstance list \<Rightarrow> ('c, mwEncryptItem list) M" where
  "offer_items cis = gets (\<lambda>s. List.map_filter
     (\<lambda>ci. map_option (\<lambda>c. mwCipherInstance_offer c ci) (map_of (ss_ciphers s) (instance_type ci))) cis)"

definition mwChannel_create :: "'c env \<Rightarrow> guint32 \<Rightarrow> ('c, gint) M" where
  "mwChannel_create env chan = do {
     ch \<leftarrow> chan_deref chan;
     if ch_state ch \<noteq> mwChannel_INIT \<or> \<not> mwChannel_idIsOutgoing (ch_id ch) then State_Monad.return (- 1)
     else do {
       l \<leftarrow> mwChannel_getSupportedCipherInstances env chan;
       for_each (\<lambda>ci. do { instance_cipher ci; State_Monad.return () }) l;
       items \<leftarrow> offer_items l;
       let policy = (if l \<noteq> [] then mwEncrypt_WHATEVER else mwEncrypt_NONE);
       chan_update chan (\<lambda>ch. ch\<lparr>ch_offered_policy := policy\<rparr>);
       ret \<leftarrow> mwSession_send env (ChannelCreate ((CHANNEL_CREATE_zero (msg_head mwMessage_CHANNEL_CREATE))
         \<lparr>cc_channel := ch_id ch,
          cc_target := \<lparr>ib_user = li_user_id (ch_user ch), ib_community = li_community (ch_user ch)\<rparr>,
          cc_service := ch_service ch, cc_proto_type := ch_proto_type ch, cc_proto_ver := ch_proto_ver ch,
          cc_options := ch_options ch, cc_addtl := mwOpaque_clone (Some (ch_addtl_create ch)),
          cc_encrypt := \<lparr>eo_mode = policy, eo_items = items, eo_extra = policy, eo_flag = False\<rparr>\<rparr>));
       channel_state chan (if ret \<noteq> 0 then mwChannel_ERROR else mwChannel_WAIT);
       State_Monad.return ret
     }
   }"

text \<open>The automatic choice of a cipher in \<open>mwChannel_accept\<close>.\<close>

definition accept_select :: "'c env \<Rightarrow> guint32 \<Rightarrow> guint16 \<Rightarrow> ('c, unit) M" where
  "accept_select env chan offered =
     (if offered = mwEncrypt_NONE then mwChannel_selectCipherInstance chan None
      else if offered = mwEncrypt_RC2_40 then do {
        ci \<leftarrow> get_supported chan 0;
        mwChannel_selectCipherInstance chan ci
      } else if offered = mwEncrypt_RC2_128 then do {
        ci \<leftarrow> get_supported chan 1;
        mwChannel_selectCipherInstance chan ci
      } else do {
        l \<leftarrow> mwChannel_getSupportedCipherInstances env chan;
        mwChannel_selectCipherInstance chan (if l \<noteq> [] then Some (last l) else None)
      })"

text \<open>\<open>mwCipherInstance_accept(chan->cipher)\<close>\<close>

definition accept_item :: "guint32 \<Rightarrow> mwCipherInstance \<Rightarrow> ('c, mwEncryptItem option) M" where
  "accept_item chan ci = do {
     ch \<leftarrow> chan_deref chan;
     cipher \<leftarrow> instance_cipher ci;
     case Option.bind cipher (\<lambda>c. mwCipherInstance_accept (li_login_id (ch_user ch)) c ci) of
       None \<Rightarrow> do { fault; State_Monad.return None }
     | Some (ci, item) \<Rightarrow> do {
         chan_update chan (\<lambda>ch. ch\<lparr>ch_cipher := Some ci\<rparr>);
         State_Monad.return (Some item)
       }
   }"

definition mwChannel_accept :: "'c env \<Rightarrow> guint32 \<Rightarrow> ('c, gint) M" where
  "mwChannel_accept env chan = do {
     ch \<leftarrow> chan_deref chan;
     if mwChannel_idIsOutgoing (ch_id ch) \<or> ch_state ch \<noteq> mwChannel_WAIT then State_Monad.return (- 1)
     else do {
       (if ch_cipher ch = None then accept_select env chan (ch_offered_policy ch) else State_Monad.return ());
       ch \<leftarrow> chan_deref chan;
       item \<leftarrow> (case ch_cipher ch of None \<Rightarrow> State_Monad.return None | Some ci \<Rightarrow> accept_item chan ci);
       ret \<leftarrow> mwSession_send env (ChannelAccept
         ((CHANNEL_ACCEPT_zero ((msg_head mwMessage_CHANNEL_ACCEPT)\<lparr>mh_channel := ch_id ch\<rparr>))
          \<lparr>ca_service := ch_service ch, ca_proto_type := ch_proto_type ch, ca_proto_ver := ch_proto_ver ch,
           ca_addtl := mwOpaque_clone (Some (ch_addtl_accept ch)),
           ca_encrypt := \<lparr>ea_mode = ch_policy ch, ea_item = item, ea_extra = ch_offered_policy ch, ea_flag = False\<rparr>\<rparr>));
       (if ret \<noteq> 0 then channel_state chan mwChannel_ERROR else channel_open env chan);
       State_Monad.return ret
     }
   }"

subsection \<open>Messages for a channel\<close>

definition mwService_recvCreate ::
  "'c env \<Rightarrow> mwService \<Rightarrow> guint32 \<Rightarrow> mwMsgChannelCreate \<Rightarrow> ('c, unit) M" where
  "mwService_recvCreate env s chan msg = do {
     ch \<leftarrow> chan_deref chan;
     if ch_id ch \<noteq> cc_channel msg then State_Monad.return ()
     else (case e_recv_create env (sv_type s) of
        Some recv_create \<Rightarrow> recv_create chan msg
      | None \<Rightarrow> do { mwChannel_destroy env chan ERR_FAILURE None; State_Monad.return () })
   }"

definition mwService_recvAccept ::
  "'c env \<Rightarrow> mwService \<Rightarrow> guint32 \<Rightarrow> mwMsgChannelAccept \<Rightarrow> ('c, unit) M" where
  "mwService_recvAccept env s chan msg = do {
     ch \<leftarrow> chan_deref chan;
     if ch_id ch \<noteq> mh_channel (ca_head msg) then State_Monad.return ()
     else optionally (map_option (\<lambda>recv_accept. recv_accept chan msg) (e_recv_accept env (sv_type s)))
   }"

definition mwService_recvDestroy ::
  "'c env \<Rightarrow> mwService \<Rightarrow> guint32 \<Rightarrow> mwMsgChannelDestroy \<Rightarrow> ('c, unit) M" where
  "mwService_recvDestroy env s chan msg = do {
     ch \<leftarrow> chan_deref chan;
     if ch_id ch \<noteq> mh_channel (cd_head msg) then State_Monad.return ()
     else optionally (map_option (\<lambda>recv_destroy. recv_destroy chan msg) (e_recv_destroy env (sv_type s)))
   }"

text \<open>One turn of the loop over the ciphers that are offered.\<close>

definition recv_offer :: "guint32 \<Rightarrow> mwEncryptItem \<Rightarrow> ('c, unit) M" where
  "recv_offer chan ei = do {
     cipher \<leftarrow> mwSession_getCipher (ei_id ei);
     if cipher = None then State_Monad.return ()
     else do {
       ci \<leftarrow> session_newInstance (ucast (ei_id ei));
       cipher \<leftarrow> mwSession_getCipher (ei_id ei);
       case Option.bind cipher (\<lambda>c. Option.bind ci (\<lambda>ci. mwCipherInstance_offered c ci ei)) of
         None \<Rightarrow> fault
       | Some ci \<Rightarrow> mwChannel_addSupportedCipherInstance chan ci
     }
   }"

definition mwChannel_recvCreate :: "'c env \<Rightarrow> guint32 \<Rightarrow> mwMsgChannelCreate \<Rightarrow> ('c, unit) M" where
  "mwChannel_recvCreate env chan msg = do {
     ch \<leftarrow> chan_deref chan;
     if ch_id ch \<noteq> cc_channel msg then State_Monad.return ()
     else if mwChannel_idIsOutgoing (ch_id ch) then do {
       mwChannel_destroy env chan ERR_REQUEST_INVALID None;
       State_Monad.return ()
     } else do {
       chan_update chan (\<lambda>ch. ch\<lparr>ch_offered_policy := eo_mode (cc_encrypt msg)\<rparr>);
       for_each (recv_offer chan) (eo_items (cc_encrypt msg));
       chan_update chan (\<lambda>ch. ch\<lparr>ch_user := mwLoginInfo_clone (ch_user ch) (cc_creator msg),
         ch_service := cc_service msg, ch_proto_type := cc_proto_type msg, ch_proto_ver := cc_proto_ver msg\<rparr>);
       srvc \<leftarrow> mwSession_getService (cc_service msg);
       case srvc of
         Some s \<Rightarrow> mwService_recvCreate env s chan msg
       | None \<Rightarrow> do { mwChannel_destroy env chan ERR_SERVICE_NO_SUPPORT None; State_Monad.return () }
     }
   }"

definition channel_reject :: "'c env \<Rightarrow> guint32 \<Rightarrow> guint32 \<Rightarrow> ('c, unit) M" where
  "channel_reject env chan reason = do { mwChannel_destroy env chan reason None; State_Monad.return () }"

text \<open>
  The last part of \<open>mwChannel_recvAccept\<close>: the channel is read again after the service's
  function returns, even if that function destroyed it.
\<close>

definition accept_finish :: "'c env \<Rightarrow> mwService \<Rightarrow> guint32 \<Rightarrow> mwMsgChannelAccept \<Rightarrow> ('c, unit) M" where
  "accept_finish env srvc chan msg = do {
     channel_state chan mwChannel_OPEN;
     mwService_recvAccept env srvc chan msg;
     ch \<leftarrow> chan_deref chan;
     if ch_state ch = mwChannel_OPEN then channel_open env chan else State_Monad.return ()
   }"

definition mwChannel_recvAccept :: "'c env \<Rightarrow> guint32 \<Rightarrow> mwMsgChannelAccept \<Rightarrow> ('c, unit) M" where
  "mwChannel_recvAccept env chan msg = do {
     ch \<leftarrow> chan_deref chan;
     if ch_id ch \<noteq> mh_channel (ca_head msg) then State_Monad.return ()
     else if \<not> mwChannel_idIsOutgoing (ch_id ch) then channel_reject env chan ERR_REQUEST_INVALID
     else if ch_state ch \<noteq> mwChannel_WAIT then channel_reject env chan ERR_REQUEST_INVALID
     else do {
       chan_update chan (\<lambda>ch. ch\<lparr>ch_user := mwLoginInfo_clone (ch_user ch) (ca_acceptor msg)\<rparr>);
       srvc \<leftarrow> mwSession_getService (ch_service ch);
       case srvc of
         None \<Rightarrow> channel_reject env chan ERR_SERVICE_NO_SUPPORT
       | Some srvc \<Rightarrow> do {
           chan_update chan (\<lambda>ch. ch\<lparr>ch_policy := ea_mode (ca_encrypt msg)\<rparr>);
           case ea_item (ca_encrypt msg) of
             None \<Rightarrow> do { mwChannel_selectCipherInstance chan None; accept_finish env srvc chan msg }
           | Some item \<Rightarrow>
               if ea_mode (ca_encrypt msg) = 0
               then do { mwChannel_selectCipherInstance chan None; accept_finish env srvc chan msg }
               else do {
                 ci \<leftarrow> get_supported chan (ei_id item);
                 case ci of
                   None \<Rightarrow> channel_reject env chan ERR_REQUEST_INVALID
                 | Some ci \<Rightarrow> do {
                     ch \<leftarrow> chan_deref chan;
                     cipher \<leftarrow> instance_cipher ci;
                     case Option.bind cipher
                         (\<lambda>c. mwCipherInstance_accepted (li_login_id (ch_user ch)) c ci item) of
                       None \<Rightarrow> fault
                     | Some ci \<Rightarrow> do {
                         mwChannel_selectCipherInstance chan (Some ci);
                         accept_finish env srvc chan msg
                       }
                   }
               }
         }
     }
   }"

definition mwChannel_recvDestroy :: "'c env \<Rightarrow> guint32 \<Rightarrow> mwMsgChannelDestroy \<Rightarrow> ('c, unit) M" where
  "mwChannel_recvDestroy env chan msg = do {
     ch \<leftarrow> chan_deref chan;
     if ch_id ch \<noteq> mh_channel (cd_head msg) then State_Monad.return ()
     else do {
       channel_state chan (if cd_reason msg \<noteq> 0 then mwChannel_ERROR else mwChannel_DESTROY);
       srvc \<leftarrow> mwChannel_getService chan;
       (case srvc of None \<Rightarrow> State_Monad.return () | Some s \<Rightarrow> mwService_recvDestroy env s chan msg);
       ch \<leftarrow> chan_deref chan;
       modify (\<lambda>s. s\<lparr>ss_channels := AList.delete (ch_id ch) (ss_channels s)\<rparr>)
     }
   }"

subsection \<open>Running on a channel that is there\<close>

lemma run_chan_deref [simp]:
  "map_of (ss_channels s) c = Some ch \<Longrightarrow> run_state (chan_deref c) s = (ch, s)"
  by (simp add: chan_deref_def)

lemma run_chan_update [simp]:
  "map_of (ss_channels s) c = Some ch \<Longrightarrow> run_state (chan_update c f) s
     = ((), s\<lparr>ss_channels := AList.update c (f ch) (ss_channels s)\<rparr>)"
  by (simp add: chan_update_def)

lemma map_of_update [simp]: "map_of (AList.update k v al) k = Some v"
  by (simp add: update_conv)

lemma map_of_update_other [simp]: "k' \<noteq> k \<Longrightarrow> map_of (AList.update k v al) k' = map_of al k'"
  by (simp add: update_conv)

lemma AList_update_new: "k \<notin> fst ` set al \<Longrightarrow> AList.update k v al = al @ [(k, v)]"
  by (induction al) auto

subsection \<open>Channel IDs\<close>

lemma next_channel_id_None:
  "next_channel_id n used c = None \<Longrightarrow> \<forall>i \<in> {1..n}. c + of_nat i \<in> set used"
proof (induction n arbitrary: c)
  case 0
  then show ?case by simp
next
  case (Suc n)
  then have "c + 1 \<in> set used" "next_channel_id n used (c + 1) = None"
    by (auto simp: Let_def split: if_splits)
  with Suc.IH [of "c + 1"] have IH: "\<forall>i \<in> {1..n}. c + 1 + of_nat i \<in> set used" by blast
  show ?case
  proof
    fix i
    assume i: "i \<in> {1..Suc n}"
    show "c + of_nat i \<in> set used"
    proof (cases "i = 1")
      case True
      with \<open>c + 1 \<in> set used\<close> show ?thesis by simp
    next
      case False
      with i obtain j where "i = Suc j" "j \<in> {1..n}" by (cases i) auto
      with IH show ?thesis by (simp add: add.assoc)
    qed
  qed
qed

lemma next_channel_id_Some:
  "next_channel_id n used c = Some x \<Longrightarrow>
   x \<notin> set used \<and> (\<exists>k. 0 < k \<and> k \<le> n \<and> x = c + of_nat k \<and> (\<forall>i. 0 < i \<and> i < k \<longrightarrow> c + of_nat i \<in> set used))"
proof (induction n arbitrary: c)
  case 0
  then show ?case by simp
next
  case (Suc n)
  show ?case
  proof (cases "c + 1 \<in> set used")
    case False
    with Suc.prems show ?thesis by (auto simp: Let_def intro!: exI [of _ 1])
  next
    case True
    with Suc.prems have "next_channel_id n used (c + 1) = Some x" by (simp add: Let_def)
    from Suc.IH [OF this] obtain k where k: "x \<notin> set used" "0 < k" "k \<le> n" "x = c + 1 + of_nat k"
      "\<And>i. 0 < i \<Longrightarrow> i < k \<Longrightarrow> c + 1 + of_nat i \<in> set used" by blast
    have "c + of_nat i \<in> set used" if "0 < i" "i < Suc k" for i
      using that True k(5) [of "i - 1"] by (cases "i = 1") (auto simp: of_nat_diff)
    with k show ?thesis by (auto intro!: exI [of _ "Suc k"])
  qed
qed

lemma next_channel_id_enough:
  assumes "length used < 2 ^ 32"
  obtains x where "next_channel_id (Suc (length used)) used c = Some x"
proof (cases "next_channel_id (Suc (length used)) used c")
  case None
  let ?I = "{1..Suc (length used)}"
  have sub: "(\<lambda>i. c + of_nat i) ` ?I \<subseteq> set used"
    using next_channel_id_None [OF None] by auto
  have "inj_on (\<lambda>i. c + (of_nat i :: guint32)) ?I"
  proof (rule inj_onI)
    fix i j
    assume ij: "i \<in> ?I" "j \<in> ?I" and "c + (of_nat i :: guint32) = c + of_nat j"
    then have "(of_nat i :: guint32) = of_nat j" by simp
    then have "take_bit 32 i = take_bit 32 j"
      by (simp add: word_of_nat_eq_iff)
    then have "i mod 2 ^ 32 = j mod 2 ^ 32" by (simp add: take_bit_eq_mod)
    moreover have "i \<le> 2 ^ 32" "j \<le> 2 ^ 32" "0 < i" "0 < j"
      using ij assms by auto
    ultimately show "i = j"
      by (cases "i = 2 ^ 32"; cases "j = 2 ^ 32") auto
  qed
  then have "card ?I \<le> card (set used)"
    using card_mono [OF _ sub] by (simp add: card_image)
  then have False using card_length [of used] by simp
  then show ?thesis ..
qed (use that in blast)

subsection \<open>Properties\<close>

text \<open>
  C26: as long as not every ID is taken, \<open>mwChannel_newOutgoing\<close> returns a channel under
  the first free ID after the counter, searching in the circle of the 32 bit IDs. The
  channel is added to those there are, which stay as they were, ready to be set up.
\<close>

theorem mwChannel_newOutgoing_fresh:
  assumes "length (ss_channels s) < 2 ^ 32"
  shows "\<exists>chan ch k. run_state mwChannel_newOutgoing s
      = (Some chan, s\<lparr>ss_counter := chan, ss_channels := ss_channels s @ [(chan, ch)]\<rparr>)
    \<and> chan \<notin> fst ` set (ss_channels s) \<and> ch_id ch = chan \<and> ch_state ch = mwChannel_INIT
    \<and> chan = ss_counter s + of_nat k \<and> 0 < k \<and> k \<le> Suc (length (ss_channels s))
    \<and> (\<forall>i. 0 < i \<and> i < k \<longrightarrow> ss_counter s + of_nat i \<in> fst ` set (ss_channels s))"
proof -
  let ?used = "map fst (ss_channels s)"
  obtain x where x: "next_channel_id (Suc (length (ss_channels s))) ?used (ss_counter s) = Some x"
    using next_channel_id_enough [of ?used] assms by auto
  from next_channel_id_Some [OF x] obtain k where k: "x \<notin> fst ` set (ss_channels s)" "0 < k"
    "k \<le> Suc (length (ss_channels s))" "x = ss_counter s + of_nat k"
    "\<And>i. 0 < i \<Longrightarrow> i < k \<Longrightarrow> ss_counter s + of_nat i \<in> fst ` set (ss_channels s)" by auto
  define ch where "ch = mwChannel_zero\<lparr>ch_state := mwChannel_INIT, ch_id := x, ch_supported := Some []\<rparr>"
  have "run_state mwChannel_newOutgoing s
      = (Some x, s\<lparr>ss_counter := x, ss_channels := AList.update x ch (ss_channels s)\<rparr>)"
    using x by (simp add: mwChannel_newOutgoing_def mwChannel_newIncoming_def channel_state_def ch_def update_last
        mwChannel_zero_def)
  then have "run_state mwChannel_newOutgoing s
      = (Some x, s\<lparr>ss_counter := x, ss_channels := ss_channels s @ [(x, ch)]\<rparr>)"
    by (simp add: AList_update_new k(1))
  then show ?thesis
    using k by (intro exI [of _ x] exI [of _ ch] exI [of _ k]) (simp add: ch_def)
qed

definition example_channels :: "bytes list mwSession" where
  "example_channels = (mwSession_zero [])\<lparr>ss_counter := 0xffffffff,
     ss_channels := [(0, mwChannel_zero), (1, mwChannel_zero\<lparr>ch_id := 1\<rparr>)]\<rparr>"

theorem mwChannel_newOutgoing_fresh_witness:
  "length (ss_channels example_channels) < 2 ^ 32
   \<and> (\<exists>chan ch k. run_state mwChannel_newOutgoing example_channels
        = (Some chan, example_channels\<lparr>ss_counter := chan, ss_channels := ss_channels example_channels @ [(chan, ch)]\<rparr>)
    \<and> chan \<notin> fst ` set (ss_channels example_channels) \<and> ch_id ch = chan \<and> ch_state ch = mwChannel_INIT
    \<and> chan = ss_counter example_channels + of_nat k \<and> 0 < k \<and> k \<le> Suc (length (ss_channels example_channels))
    \<and> (\<forall>i. 0 < i \<and> i < k \<longrightarrow> ss_counter example_channels + of_nat i \<in> fst ` set (ss_channels example_channels)))"
proof -
  have len: "length (ss_channels example_channels) < 2 ^ 32"
    by (simp add: example_channels_def)
  show ?thesis
    using mwChannel_newOutgoing_fresh [OF len] len by (intro conjI)
qed

subsubsection \<open>Order of messages\<close>

text \<open>Functions of the client that keep to the client's own data, such as writing to a socket.\<close>

definition client_only :: "('c, 'a) M \<Rightarrow> bool" where
  "client_only m \<longleftrightarrow> (\<exists>f. \<forall>s. run_state m s = (fst (f (ss_client s)), s\<lparr>ss_client := snd (f (ss_client s))\<rparr>))"

lemma client_only_return [simp]: "client_only (State_Monad.return x)"
  unfolding client_only_def by (rule exI [of _ "\<lambda>c. (x, c)"]) simp

lemma client_only_run:
  "client_only m \<Longrightarrow> ss_client t = ss_client s
   \<Longrightarrow> run_state m t = (eval_state m s, t\<lparr>ss_client := ss_client (exec_state m s)\<rparr>)"
  unfolding client_only_def by auto

lemma client_only_channels:
  assumes "client_only m"
  shows "exec_state m (u\<lparr>ss_channels := x\<rparr>) = (exec_state m u)\<lparr>ss_channels := x\<rparr>"
  using client_only_run [OF assms, of "u\<lparr>ss_channels := x\<rparr>" u] client_only_run [OF assms refl, of u]
  by (metis (no_types, lifting) mwSession.update_convs(8) mwSession.update_convs(13) mwSession.surjective
      mwSession.ext_inject snd_conv)

definition channel_send_all :: "'c env \<Rightarrow> guint32 \<Rightarrow> mwMsgChannelSend list \<Rightarrow> ('c, unit) M" where
  "channel_send_all env chan msgs = for_each (\<lambda>msg. do { channel_send env chan msg; State_Monad.return () }) msgs"

lemma channel_send_all_queued:
  assumes "map_of (ss_channels s) c = Some ch" and "ch_state ch \<noteq> mwChannel_OPEN"
  shows "run_state (channel_send_all env c msgs) s = ((), s\<lparr>ss_channels :=
     AList.update c (ch\<lparr>ch_outgoing_queue := ch_outgoing_queue ch @ msgs\<rparr>) (ss_channels s)\<rparr>)"
  using assms
proof (induction msgs arbitrary: s ch)
  case Nil
  then show ?case by (simp add: channel_send_all_def update_triv)
next
  case (Cons m ms)
  show ?case
    using Cons.prems Cons.IH [of "s\<lparr>ss_channels := AList.update c
        (ch\<lparr>ch_outgoing_queue := ch_outgoing_queue ch @ [m]\<rparr>) (ss_channels s)\<rparr>"
        "ch\<lparr>ch_outgoing_queue := ch_outgoing_queue ch @ [m]\<rparr>"]
    by (simp add: channel_send_all_def channel_send_def queue_outgoing_def update_last)
qed

text \<open>Writing messages, with whatever else is done to the channel table in between left out.\<close>

fun write_all :: "'c env \<Rightarrow> mwMsgChannelSend list \<Rightarrow> ('c, unit) M" where
  "write_all env [] = State_Monad.return ()"
| "write_all env (m # ms) = do { mwSession_send env (ChannelSend m); write_all env ms }"

lemma client_only_bind:
  assumes "client_only m" and "\<And>x. client_only (k x)"
  shows "client_only (State_Monad.bind m k)"
proof -
  obtain f where f: "\<And>s. run_state m s = (fst (f (ss_client s)), s\<lparr>ss_client := snd (f (ss_client s))\<rparr>)"
    using assms(1) unfolding client_only_def by blast
  obtain g where g: "\<And>x s. run_state (k x) s = (fst (g x (ss_client s)), s\<lparr>ss_client := snd (g x (ss_client s))\<rparr>)"
    using assms(2) unfolding client_only_def by metis
  show ?thesis
    unfolding client_only_def
    by (rule exI [of _ "\<lambda>c. g (fst (f c)) (snd (f c))"]) (simp add: f g)
qed

lemma client_only_send:
  assumes "\<And>b. client_only (e_io_write env b)"
  shows "client_only (mwSession_send env (ChannelSend m))" and "client_only (write_all env ms)"
proof -
  show send: "client_only (mwSession_send env (ChannelSend m))" for m
    unfolding mwSession_send_def by (auto intro!: client_only_bind assms)
  show "client_only (write_all env ms)"
    by (induction ms) (auto intro!: client_only_bind send)
qed

lemma run_write_all:
  assumes "\<And>b. client_only (e_io_write env b)" and "map_of (ss_channels s) c = Some ch"
  shows "run_state (for_each (\<lambda>m. do { mwSession_send env (ChannelSend m); chan_deref c; State_Monad.return () }) ms) s
      = run_state (write_all env ms) s"
    and "ch_state ch = mwChannel_OPEN \<Longrightarrow> run_state (channel_send_all env c ms) s = run_state (write_all env ms) s"
proof -
  have "\<forall>m. \<exists>f. \<forall>s. run_state (mwSession_send env (ChannelSend m)) s = (fst (f (ss_client s)), s\<lparr>ss_client := snd (f (ss_client s))\<rparr>)"
    using client_only_send(1) [OF assms(1)] unfolding client_only_def by blast
  then obtain g where one: "\<And>m s. run_state (mwSession_send env (ChannelSend m)) s
      = (fst (g m (ss_client s)), s\<lparr>ss_client := snd (g m (ss_client s))\<rparr>)"
    by metis
  show "run_state (for_each (\<lambda>m. do { mwSession_send env (ChannelSend m); chan_deref c; State_Monad.return () }) ms) s
      = run_state (write_all env ms) s"
    using assms(2) by (induction ms arbitrary: s) (simp_all add: one)
  show "run_state (channel_send_all env c ms) s = run_state (write_all env ms) s" if "ch_state ch = mwChannel_OPEN"
    unfolding channel_send_all_def using assms(2)
    by (induction ms arbitrary: s) (simp_all add: that channel_send_def one)
qed

lemma write_all_append: "write_all env (xs @ ys) = do { write_all env xs; write_all env ys }"
  by (induction xs) simp_all

lemma channel_open_run:
  assumes "\<And>b. client_only (e_io_write env b)" and "client_only (e_time env)"
    and "map_of (ss_channels s) c = Some ch" and "ch_incoming_queue ch = []"
  defines "opened \<equiv> ch\<lparr>ch_state := mwChannel_OPEN,
      ch_stats := AList.update mwChannelStat_OPENED_AT (eval_state (e_time env) s) (ch_stats ch),
      ch_outgoing_queue := []\<rparr>"
  shows "run_state (channel_open env c)
      (s\<lparr>ss_channels := AList.update c (ch\<lparr>ch_outgoing_queue := q\<rparr>) (ss_channels s)\<rparr>)
    = ((), (exec_state (do { e_time env; write_all env q }) s)\<lparr>ss_channels := AList.update c opened (ss_channels s)\<rparr>)"
proof -
  define t cl where "t = eval_state (e_time env) s" and "cl = ss_client (exec_state (e_time env) s)"
  define cl' where "cl' = ss_client (exec_state (write_all env q) (s\<lparr>ss_client := cl\<rparr>))"
  have time: "run_state (e_time env) u = (t, u\<lparr>ss_client := cl\<rparr>)" if "ss_client u = ss_client s" for u
    using client_only_run [OF assms(2) that] by (simp add: cl_def t_def)
  have written: "run_state (write_all env q) u = ((), u\<lparr>ss_client := cl'\<rparr>)" if "ss_client u = cl" for u
    using client_only_run [OF client_only_send(2) [OF assms(1)], of u "s\<lparr>ss_client := cl\<rparr>"] that
    by (simp add: cl'_def)
  show ?thesis
    using assms(4) unfolding opened_def
    by (cases ch) (simp add: channel_open_def channel_state_def timestamp_stat_def set_stat_def flush_channel_def time
        run_write_all(1) [OF assms(1)] written update_last t_def [symmetric])
qed

lemma send_then_open:
  assumes "\<And>b. client_only (e_io_write env b)" and "client_only (e_time env)"
    and "map_of (ss_channels s) c = Some ch" and "ch_state ch \<noteq> mwChannel_OPEN" and "ch_incoming_queue ch = []"
  shows "exec_state (do { channel_send_all env c msgs; channel_open env c }) s
    = exec_state (do { channel_open env c; channel_send_all env c msgs }) s"
proof -
  note opn = channel_open_run [OF assms(1,2,3,5)]
  have triv: "s\<lparr>ss_channels := AList.update c (ch\<lparr>ch_outgoing_queue := ch_outgoing_queue ch\<rparr>) (ss_channels s)\<rparr> = s"
    using assms(3) by (simp add: update_triv)
  have comm: "exec_state (write_all env msgs) (u\<lparr>ss_channels := x\<rparr>) = (exec_state (write_all env msgs) u)\<lparr>ss_channels := x\<rparr>"
    for u x
    by (rule client_only_channels) (rule client_only_send(2) [OF assms(1)])
  show ?thesis
    using opn [of "ch_outgoing_queue ch @ msgs"] opn [of "ch_outgoing_queue ch", unfolded triv]
      channel_send_all_queued [OF assms(3,4)] run_write_all(2) [OF assms(1)]
    by (simp add: write_all_append split_def comm)
qed


text \<open>
  C27: a message sent before its channel is open is not lost and does not overtake:
  sending any messages and then opening the channel ends in the same state, with the
  same bytes written in the same order, as opening it first and sending them then;
  whatever was queued before, and provided no incoming messages wait.
\<close>

theorem channel_send_before_open:
  assumes "\<And>b. client_only (e_io_write env b)" and "client_only (e_time env)"
    and "map_of (ss_channels s) chan = Some ch" and "ch_state ch \<noteq> mwChannel_OPEN" and "ch_incoming_queue ch = []"
  shows "exec_state (do { channel_send_all env chan msgs; channel_open env chan }) s
    = exec_state (do { channel_open env chan; channel_send_all env chan msgs }) s"
  using assms by (rule send_then_open)

lemma log_env_client_only: "client_only (e_io_write log_env b)" "client_only (e_time log_env)"
  unfolding client_only_def
  by (rule exI [of _ "\<lambda>c. (0, c @ [b])"], simp add: log_env_def) (rule exI [of _ "\<lambda>c. (0, c)"], simp add: log_env_def)

definition example_send :: mwMsgChannelSend where
  "example_send = \<lparr>cs_head = (msg_head mwMessage_CHANNEL_SEND)\<lparr>mh_channel := 1\<rparr>, cs_type = 7, cs_data = opaque_of [1]\<rparr>"

theorem channel_send_before_open_witness:
  "(\<forall>b. client_only (e_io_write log_env b)) \<and> client_only (e_time log_env)
   \<and> map_of (ss_channels example_channels) 1 = Some (mwChannel_zero\<lparr>ch_id := 1\<rparr>)
   \<and> exec_state (do { channel_send_all log_env 1 [example_send]; channel_open log_env 1 }) example_channels
     = exec_state (do { channel_open log_env 1; channel_send_all log_env 1 [example_send] }) example_channels"
proof -
  have ch: "map_of (ss_channels example_channels) 1 = Some (mwChannel_zero\<lparr>ch_id := 1\<rparr>)"
    by (simp add: example_channels_def)
  have "ch_state (mwChannel_zero\<lparr>ch_id := 1\<rparr>) \<noteq> mwChannel_OPEN" "ch_incoming_queue (mwChannel_zero\<lparr>ch_id := 1\<rparr>) = []"
    by (simp_all add: mwChannel_zero_def)
  from channel_send_before_open [OF log_env_client_only ch this] show ?thesis
    using log_env_client_only ch by blast
qed

end
