(* ===== verification/Session.thy ===== *)
theory Session
  imports Channel
begin

text \<open>
  The session of \<^verbatim>\<open>src/src/session.c\<close>: starting and stopping, the authentication data of a
  login, the handlers of the messages a server sends, and \<open>session_process\<close>, which
  parses one message and dispatches it.
\<close>

subsection \<open>Starting and stopping\<close>

definition mwSession_stop :: "'c env \<Rightarrow> guint32 \<Rightarrow> ('c, unit) M" where
  "mwSession_stop env reason = do {
     st \<leftarrow> mwSession_getState;
     if st = mwSession_STOPPED \<or> st = mwSession_STOPPING then State_Monad.return ()
     else do {
       session_state env mwSession_STOPPING (Info_uint reason);
       services \<leftarrow> mwSession_getServices env;
       for_each (mwService_stop env) services;
       mwSession_send env (ChannelDestroy
         ((CHANNEL_DESTROY_zero ((msg_head mwMessage_CHANNEL_DESTROY)\<lparr>mh_channel := MW_MASTER_CHANNEL_ID\<rparr>))
          \<lparr>cd_reason := reason\<rparr>));
       session_buf_free;
       e_io_close env;
       session_state env mwSession_STOPPED (Info_uint reason)
     }
   }"

definition mwSession_start :: "'c env \<Rightarrow> ('c, unit) M" where
  "mwSession_start env = do {
     st \<leftarrow> mwSession_getState;
     if st \<noteq> mwSession_STOPPED then State_Monad.return ()
     else do {
       session_state env mwSession_STARTING (Info_uint 0);
       major \<leftarrow> property_uint ''client.version.major'';
       minor \<leftarrow> property_uint ''client.version.minor'';
       login_type \<leftarrow> property_uint ''client.id'';
       ip \<leftarrow> property_uint ''client.ip'';
       local_host \<leftarrow> property_str ''client.host'';
       let msg = (HANDSHAKE_zero (msg_head mwMessage_HANDSHAKE))
         \<lparr>hs_major := ucast major, hs_minor := ucast minor, hs_login_type := ucast login_type,
          hs_loclcalc_addr := ip\<rparr>;
       let msg = (if 0x001e \<le> hs_major msg \<and> 0x001d \<le> hs_minor msg
                  then msg\<lparr>hs_unknown_a := 0x0100, hs_local_host := local_host\<rparr> else msg);
       ret \<leftarrow> mwSession_send env (Handshake msg);
       if ret \<noteq> 0 then mwSession_stop env CONNECTION_BROKEN
       else session_state env mwSession_HANDSHAKE (Info_uint 0)
     }
   }"

subsection \<open>Authentication data\<close>

text \<open>A NULL password is dereferenced by \<open>strlen\<close>.\<close>

definition compose_auth_rc2_40 :: "'c env \<Rightarrow> cstr \<Rightarrow> ('c, mwOpaque) M" where
  "compose_auth_rc2_40 env pass = do {
     key \<leftarrow> e_mwKeyRandom env 5;
     (case pass of
       None \<Rightarrow> do { fault; State_Monad.return (opaque_of []) }
     | Some pw \<Rightarrow>
         (case mwEncrypt zero_key (Some key) 5 mwIV_init \<lparr>op_len = length pw, op_data = Some pw\<rparr> of
            None \<Rightarrow> do { fault; State_Monad.return (opaque_of []) }
          | Some (iv, b) \<Rightarrow> State_Monad.return (mwPutBuffer_finalize (exec_state (do {
                mwOpaque_put (Some \<lparr>op_len = 5, op_data = Some key\<rparr>);
                mwOpaque_put (Some b)
              }) mwPutBuffer_new))))
   }"

definition compose_auth_rc2_128 :: "'c env \<Rightarrow> cstr \<Rightarrow> guint32 \<Rightarrow> mwOpaque \<Rightarrow> ('c, mwOpaque) M" where
  "compose_auth_rc2_128 env pass magic rkey = do {
     random \<leftarrow> e_dh_random env;
     let (private, public) = mwDHRandKeypair random;
     let shared = mwDHCalculateShared (mwDHImportKey rkey) private;
     let a = mwPutBuffer_finalize (exec_state (do { guint32_put magic; mwString_put pass }) mwPutBuffer_new);
     let b = mwDHExportKey shared;
     case (if op_len b < 16 then None
           else mwEncrypt zero_key (Some (drop (op_len b - 16) (opaque_bytes b))) 16 mwIV_init a) of
       None \<Rightarrow> do { fault; State_Monad.return (opaque_of []) }
     | Some (iv, c) \<Rightarrow> State_Monad.return (mwPutBuffer_finalize (exec_state (do {
           guint16_put 0x0001;
           mwOpaque_put (Some (mwDHExportKey public));
           mwOpaque_put (Some c)
         }) mwPutBuffer_new))
   }"

subsection \<open>Messages from the server\<close>

definition HANDSHAKE_ACK_recv :: "'c env \<Rightarrow> mwMsgHandshakeAck \<Rightarrow> ('c, unit) M" where
  "HANDSHAKE_ACK_recv env msg = do {
     st \<leftarrow> mwSession_getState;
     if st \<noteq> mwSession_HANDSHAKE \<and> st \<noteq> mwSession_LOGIN_CONT then State_Monad.return ()
     else if st = mwSession_LOGIN_CONT then do {
       session_state env mwSession_HANDSHAKE_ACK (Info_uint 0);
       session_state env mwSession_LOGIN (Info_uint 0)
     } else do {
       session_state env mwSession_HANDSHAKE_ACK (Info_uint 0);
       property_set ''server.version.major'' (Prop_uint (ucast (ha_major msg)));
       property_set ''server.version.minor'' (Prop_uint (ucast (ha_minor msg)));
       login_type \<leftarrow> property_uint ''client.id'';
       name \<leftarrow> property_str ''session.auth.user'';
       pw \<leftarrow> property_str ''session.auth.password'';
       let rc2_128 = (64 \<le> op_len (ha_data msg));
       auth_data \<leftarrow> (if rc2_128 then compose_auth_rc2_128 env pw (ha_magic msg) (ha_data msg)
                     else compose_auth_rc2_40 env pw);
       ret \<leftarrow> mwSession_send env (Login ((LOGIN_zero (msg_head mwMessage_LOGIN))
         \<lparr>lg_login_type := ucast login_type, lg_name := name,
          lg_auth_type := (if rc2_128 then mwAuthType_RC2_128 else mwAuthType_RC2_40),
          lg_auth_data := auth_data\<rparr>));
       if ret = 0 then session_state env mwSession_LOGIN (Info_uint 0) else State_Monad.return ()
     }
   }"

definition LOGIN_ACK_recv :: "'c env \<Rightarrow> mwMsgLoginAck \<Rightarrow> ('c, unit) M" where
  "LOGIN_ACK_recv env msg = do {
     st \<leftarrow> mwSession_getState;
     if st \<noteq> mwSession_LOGIN then State_Monad.return ()
     else do {
       modify (\<lambda>s. s\<lparr>ss_login := mwLoginInfo_clone (mwLoginInfo_clear (ss_login s)) (la_login msg)\<rparr>);
       session_state env mwSession_LOGIN_ACK (Info_uint 0);
       services \<leftarrow> mwSession_getServices env;
       for_each (mwService_start env) services;
       session_state env mwSession_STARTED (Info_uint 0)
     }
   }"

definition CHANNEL_CREATE_recv :: "'c env \<Rightarrow> mwMsgChannelCreate \<Rightarrow> ('c, unit) M" where
  "CHANNEL_CREATE_recv env msg = do {
     chan \<leftarrow> mwChannel_newIncoming (cc_channel msg);
     mwChannel_recvCreate env chan msg
   }"

definition CHANNEL_ACCEPT_recv :: "'c env \<Rightarrow> mwMsgChannelAccept \<Rightarrow> ('c, unit) M" where
  "CHANNEL_ACCEPT_recv env msg = do {
     chan \<leftarrow> mwChannel_find (mh_channel (ca_head msg));
     case chan of None \<Rightarrow> State_Monad.return () | Some chan \<Rightarrow> mwChannel_recvAccept env chan msg
   }"

definition CHANNEL_DESTROY_recv :: "'c env \<Rightarrow> mwMsgChannelDestroy \<Rightarrow> ('c, unit) M" where
  "CHANNEL_DESTROY_recv env msg =
     (if mh_channel (cd_head msg) = MW_MASTER_CHANNEL_ID then mwSession_stop env (cd_reason msg)
      else do {
        chan \<leftarrow> mwChannel_find (mh_channel (cd_head msg));
        case chan of None \<Rightarrow> State_Monad.return () | Some chan \<Rightarrow> mwChannel_recvDestroy env chan msg
      })"

definition CHANNEL_SEND_recv :: "'c env \<Rightarrow> mwMsgChannelSend \<Rightarrow> ('c, unit) M" where
  "CHANNEL_SEND_recv env msg = do {
     chan \<leftarrow> mwChannel_find (mh_channel (cs_head msg));
     case chan of None \<Rightarrow> State_Monad.return () | Some chan \<Rightarrow> mwChannel_recv env chan msg
   }"

definition SET_PRIVACY_LIST_recv :: "'c env \<Rightarrow> mwMsgSetPrivacyList \<Rightarrow> ('c, unit) M" where
  "SET_PRIVACY_LIST_recv env msg = do {
     modify (\<lambda>s. s\<lparr>ss_privacy := mwPrivacyInfo_clone (sp_privacy msg)\<rparr>);
     optionally (e_on_setPrivacyInfo env)
   }"

definition SENSE_SERVICE_recv :: "'c env \<Rightarrow> mwMsgSenseService \<Rightarrow> ('c, unit) M" where
  "SENSE_SERVICE_recv env msg = do {
     srvc \<leftarrow> mwSession_getService (ss_service msg);
     if srvc \<noteq> None then mwService_start env (ss_service msg) else State_Monad.return ()
   }"

definition ADMIN_recv :: "'c env \<Rightarrow> mwMsgAdmin \<Rightarrow> ('c, unit) M" where
  "ADMIN_recv env msg = optionally (map_option (\<lambda>h. h (ad_text msg)) (e_on_admin env))"

definition ANNOUNCE_recv :: "'c env \<Rightarrow> mwMsgAnnounce \<Rightarrow> ('c, unit) M" where
  "ANNOUNCE_recv env msg =
     optionally (map_option (\<lambda>h. h (an_sender msg) (an_may_reply msg) (an_text msg)) (e_on_announce env))"

definition LOGIN_REDIRECT_recv :: "'c env \<Rightarrow> mwMsgLoginRedirect \<Rightarrow> ('c, unit) M" where
  "LOGIN_REDIRECT_recv env msg = session_state env mwSession_LOGIN_REDIR (Info_str (lr_host msg))"

fun session_dispatch :: "'c env \<Rightarrow> mwMessage \<Rightarrow> ('c, unit) M" where
  "session_dispatch env (HandshakeAck m) = HANDSHAKE_ACK_recv env m"
| "session_dispatch env (LoginRedirect m) = LOGIN_REDIRECT_recv env m"
| "session_dispatch env (LoginAck m) = LOGIN_ACK_recv env m"
| "session_dispatch env (ChannelCreate m) = CHANNEL_CREATE_recv env m"
| "session_dispatch env (ChannelDestroy m) = CHANNEL_DESTROY_recv env m"
| "session_dispatch env (ChannelSend m) = CHANNEL_SEND_recv env m"
| "session_dispatch env (ChannelAccept m) = CHANNEL_ACCEPT_recv env m"
| "session_dispatch env (SetPrivacyList m) = SET_PRIVACY_LIST_recv env m"
| "session_dispatch env (SetUserStatus m) = SET_USER_STATUS_recv env m"
| "session_dispatch env (SenseService m) = SENSE_SERVICE_recv env m"
| "session_dispatch env (Admin m) = ADMIN_recv env m"
| "session_dispatch env (Announce m) = ANNOUNCE_recv env m"
| "session_dispatch env _ = State_Monad.return ()"

text \<open>A parse error is logged; the message, if there is one, is dispatched all the same.\<close>

definition session_process :: "'c env \<Rightarrow> bytes \<Rightarrow> ('c, unit) M" where
  "session_process env buf =
     (if length buf = 0 then State_Monad.return ()
      else do {
        j \<leftarrow> e_junk env;
        case eval_state (mwMessage_get j)
            (mwGetBuffer_wrap (Some \<lparr>op_len = length buf, op_data = Some buf\<rparr>)) of
          None \<Rightarrow> State_Monad.return ()
        | Some msg \<Rightarrow> session_dispatch env msg
      })"

subsection \<open>What a server makes of the authentication data\<close>

text \<open>
  The server's side of the two exchanges, as the protocol has it: the readers of
  \<open>Buffers\<close> on the blob, and the decryption of \<open>RC2\<close> under the key it finds or
  derives.
\<close>

definition server_auth_rc2_40 :: "mwOpaque \<Rightarrow> bytes option" where
  "server_auth_rc2_40 auth =
     (let (key, c) = eval_state (do { k \<leftarrow> mwOpaque_get; c \<leftarrow> mwOpaque_get; State_Monad.return (k, c) })
            (mwGetBuffer_wrap (Some auth))
      in map_option (\<lambda>(iv, p). opaque_bytes p) (mwDecrypt zero_key (op_data key) 5 mwIV_init c))"

definition server_auth_rc2_128 :: "nat \<Rightarrow> mwOpaque \<Rightarrow> (guint32 \<times> cstr) option" where
  "server_auth_rc2_128 private auth =
     (let (public, c) = eval_state (do { guint16_get 0; k \<leftarrow> mwOpaque_get; c \<leftarrow> mwOpaque_get; State_Monad.return (k, c) })
            (mwGetBuffer_wrap (Some auth));
          sho = mwDHExportKey (mwDHCalculateShared (mwDHImportKey public) private)
      in map_option (\<lambda>(iv, p). eval_state (do { m \<leftarrow> guint32_get 0; s \<leftarrow> mwString_get; State_Monad.return (m, s) })
             (mwGetBuffer_wrap (Some p)))
           (mwDecrypt zero_key (Some (drop (op_len sho - 16) (opaque_bytes sho))) 16 mwIV_init c))"

lemma writes_finalize:
  assumes "writes m bs"
  shows "opaque_ok (mwPutBuffer_finalize (exec_state m mwPutBuffer_new))"
    and "opaque_bytes (mwPutBuffer_finalize (exec_state m mwPutBuffer_new)) = bs"
  using writes_okD [OF assms] writes_contentsD [OF assms]
  by (simp_all add: mwPutBuffer_finalize_spec)

lemma wrap_finalize:
  assumes "writes m bs" and "a = mwPutBuffer_finalize (exec_state m mwPutBuffer_new)"
  shows "mwGetBuffer_wrap (Some a) = gbuf True [] bs"
  unfolding assms(2) mwGetBuffer_wrap_gbuf [OF writes_finalize(1) [OF assms(1)]] writes_finalize(2) [OF assms(1)] ..

text \<open>\<open>mwDecrypt\<close> undoes \<open>mwEncrypt\<close> under the same key, and the result fits its length field.\<close>

lemma mwEncrypt_inverse:
  assumes "0 < n" and "n \<le> 128" and "length key = n" and "opaque_ok p" and "op_len p < 2 ^ 31"
  shows "\<exists>iv c iv' out. mwEncrypt zero_key (Some key) n mwIV_init p = Some (iv, c) \<and> opaque_valid c
    \<and> mwDecrypt zero_key (Some key) n mwIV_init (opaque_norm c) = Some (iv', out)
    \<and> opaque_ok out \<and> opaque_bytes out = opaque_bytes p"
proof -
  obtain ekey where ekey: "\<And>k0. mwKeyExpand k0 (Some key) n = Some ekey"
    using mwKeyExpand_rfc [of n key] assms(1-3) by simp
  define c where "c = snd (mwEncryptExpanded ekey mwIV_init p)"
  obtain out where out: "mwDecryptExpanded ekey mwIV_init c = Some (fst (mwEncryptExpanded ekey mwIV_init p), out)"
    "opaque_ok out" "opaque_bytes out = opaque_bytes p"
    using mwDecryptExpanded_inverse [OF length_mwIV_init assms(4), of ekey] by (auto simp: c_def)
  have c: "op_len c = op_len p + (8 - op_len p mod 8)" "opaque_ok c"
    using mwEncryptExpanded_eq(1,3) [OF length_mwIV_init assms(4), of ekey] by (simp_all add: c_def opaque_ok_def)
  then have "opaque_valid c" using assms(5) by (simp add: opaque_valid_def)
  have "mwDecryptExpanded ekey mwIV_init (opaque_norm c) = mwDecryptExpanded ekey mwIV_init c"
    using c(2) by (simp add: mwDecryptExpanded_def opaque_norm_def Let_def)
  with out ekey \<open>opaque_valid c\<close> show ?thesis
    by (intro exI [of _ "fst (mwEncryptExpanded ekey mwIV_init p)"] exI [of _ c] exI [of _ out])
      (auto simp: mwEncrypt_def mwDecrypt_def c_def)
qed

lemma mp_digits_bound: "n < 256 ^ k \<Longrightarrow> length (mp_digits n) \<le> k"
proof (induction k arbitrary: n)
  case 0
  then show ?case by (simp add: mp_digits.simps [of 0])
next
  case (Suc k)
  have "n div 256 < 256 ^ k"
    using Suc.prems by (simp add: div_less_iff_less_mult mult.commute)
  with Suc.IH show ?case by (subst mp_digits.simps) simp
qed

lemma mwDHExportKey_valid: "opaque_valid (mwDHExportKey (snd (mwDHRandKeypair a)))"
proof -
  let ?n = "snd (mwDHRandKeypair a)"
  have "dh_prime < 256 ^ 64" "0 < dh_prime"
    by (simp_all add: dh_prime_def dh_prime_bytes_def mp_read_unsigned_bin_def)
  then have "?n < 256 ^ 64"
    unfolding mwDHRandKeypair_def mp_exptmod_def snd_conv
    by (meson less_trans mod_less_divisor)
  then have "length (mp_to_unsigned_bin ?n) \<le> 64"
    using mp_digits_bound by (simp add: mp_to_unsigned_bin_def)
  then show ?thesis by (simp add: mwDHExportKey_def opaque_valid_def)
qed

subsection \<open>Properties\<close>

text \<open>
  The authentication data of an RC2/40 login is what the server expects: two
  opaques, the random key and the password under it, from which the server recovers
  the password.
\<close>

theorem compose_auth_rc2_40_readable:
  assumes "length (eval_state (e_mwKeyRandom env 5) s) = 5" and "length pw < 2 ^ 31"
  shows "server_auth_rc2_40 (eval_state (compose_auth_rc2_40 env (Some pw)) s) = Some pw"
proof -
  define key where "key = eval_state (e_mwKeyRandom env 5) s"
  define p where "p = \<lparr>op_len = length pw, op_data = Some pw\<rparr>"
  have key: "length key = 5" using assms(1) by (simp add: key_def)
  have p: "opaque_ok p" "op_len p < 2 ^ 31" "opaque_bytes p = pw"
    using assms(2) by (simp_all add: p_def opaque_ok_def opaque_bytes_def)
  obtain iv c iv' out where c: "mwEncrypt zero_key (Some key) 5 mwIV_init p = Some (iv, c)" "opaque_valid c"
    "mwDecrypt zero_key (Some key) 5 mwIV_init (opaque_norm c) = Some (iv', out)" "opaque_bytes out = pw"
    using mwEncrypt_inverse [OF _ _ key p(1,2)] p(3) by auto
  define k where "k = \<lparr>op_len = 5, op_data = Some key\<rparr>"
  have k: "opaque_valid k" "opaque_bytes k = key" "op_data (opaque_norm k) = Some key"
    using key by (auto simp: k_def opaque_valid_def opaque_ok_def opaque_bytes_def opaque_norm_def opaque_of_def)
  let ?m = "do { mwOpaque_put (Some k); mwOpaque_put (Some c) }"
  have w: "writes ?m (opaque_wire key @ opaque_wire (opaque_bytes c) @ [])"
    using k c(2) by (auto intro!: writer_intros simp: opaque_valid_def simp flip: k(2))
  have "eval_state (compose_auth_rc2_40 env (Some pw)) s = mwPutBuffer_finalize (exec_state ?m mwPutBuffer_new)"
    using c(1) by (simp add: compose_auth_rc2_40_def split_def k_def key_def p_def)
  note wrap_finalize [OF w this]
  moreover have "run_state mwOpaque_get (gbuf True [] (opaque_wire key @ opaque_wire (opaque_bytes c) @ []))
      = (opaque_norm k, gbuf True (opaque_wire key) (opaque_wire (opaque_bytes c) @ []))"
    using mwOpaque_get_wire_valid [OF k(1), of True "[]"] k(2) by simp
  moreover have "run_state mwOpaque_get (gbuf True (opaque_wire key) (opaque_wire (opaque_bytes c) @ []))
      = (opaque_norm c, gbuf True (opaque_wire key @ opaque_wire (opaque_bytes c)) [])"
    using mwOpaque_get_wire_valid [OF c(2), of True "opaque_wire key" "[]"] by simp
  ultimately show ?thesis
    using c(3,4) k(3)
    by (simp add: server_auth_rc2_40_def)
qed

theorem compose_auth_rc2_40_readable_witness:
  "length (eval_state (e_mwKeyRandom log_env 5) (mwSession_zero [])) = 5
   \<and> length [112, 119 :: guchar] < 2 ^ 31
   \<and> server_auth_rc2_40 (eval_state (compose_auth_rc2_40 log_env (Some [112, 119])) (mwSession_zero [])) = Some [112, 119]"
proof -
  have hyps: "length (eval_state (e_mwKeyRandom log_env 5) (mwSession_zero [])) = 5" "length [112, 119 :: guchar] < 2 ^ 31"
    by (simp_all add: log_env_def)
  show ?thesis
    using compose_auth_rc2_40_readable [OF hyps] hyps by (intro conjI)
qed

text \<open>
  C32: the authentication data of an RC2/128 login, too: the server, which sent its
  Diffie-Hellman key and a number in the acknowledgement of the handshake, derives the
  same key from the client's public key and finds the number and the password.
\<close>

theorem compose_auth_rc2_128_readable:
  assumes "eval_state (e_dh_random env) s = a" and "string_valid (Some pw)"
    and "rkey = mwDHExportKey (snd (mwDHRandKeypair b))"
    and "16 \<le> op_len (mwDHExportKey (mwDHCalculateShared (snd (mwDHRandKeypair b)) a))"
  shows "server_auth_rc2_128 b (eval_state (compose_auth_rc2_128 env (Some pw) magic rkey) s)
    = Some (magic, string_norm (Some pw))"
proof -
  define sho where "sho = mwDHExportKey (mwDHCalculateShared (snd (mwDHRandKeypair b)) a)"
  define key where "key = drop (op_len sho - 16) (opaque_bytes sho)"
  define public where "public = mwDHExportKey (snd (mwDHRandKeypair a))"
  let ?put = "do { guint32_put magic; mwString_put (Some pw) }"
  define p where "p = mwPutBuffer_finalize (exec_state ?put mwPutBuffer_new)"
  have w: "writes ?put (MW32_PUT magic @ string_wire (Some pw))"
    by (intro writer_intros)
  have p: "opaque_ok p" "opaque_bytes p = MW32_PUT magic @ string_wire (Some pw)"
    unfolding p_def by (rule writes_finalize [OF w])+
  have plen: "op_len p < 2 ^ 31"
    using length_opaque_bytes [OF p(1)] assms(2) by (simp add: p(2) string_wire_def string_valid_def)
  have "opaque_ok sho" by (simp add: sho_def mwDHExportKey_def)
  then have key: "length key = 16"
    using assms(4) by (simp add: key_def sho_def [symmetric])
  obtain iv c iv' out where c: "mwEncrypt zero_key (Some key) 16 mwIV_init p = Some (iv, c)" "opaque_valid c"
    "mwDecrypt zero_key (Some key) 16 mwIV_init (opaque_norm c) = Some (iv', out)"
    "opaque_ok out" "opaque_bytes out = opaque_bytes p"
    using mwEncrypt_inverse [OF _ _ key p(1) plen] by auto
  have public: "opaque_valid public" "mwDHImportKey (opaque_norm public) = snd (mwDHRandKeypair a)"
    using mwDHExportKey_valid [of a] mwDH_import_export [of "snd (mwDHRandKeypair a)"]
    by (simp_all add: public_def opaque_norm_def mwDHExportKey_def)
  let ?m = "do { guint16_put 0x0001; mwOpaque_put (Some public); mwOpaque_put (Some c) }"
  let ?w1 = "opaque_wire (opaque_bytes public)" and ?w2 = "opaque_wire (opaque_bytes c)"
  have wm: "writes ?m (MW16_PUT 1 @ ?w1 @ ?w2)"
    using public(1) c(2) by (intro writer_intros) (simp_all add: opaque_valid_def)
  have run: "eval_state (compose_auth_rc2_128 env (Some pw) magic rkey) s
      = mwPutBuffer_finalize (exec_state ?m mwPutBuffer_new)"
    using c(1) assms(1,4)
    by (simp add: compose_auth_rc2_128_def split_def Let_def assms(3) mwDH_import_export p_def key_def sho_def public_def
        mwDHRandKeypair_def)
  have shared: "mwDHExportKey (mwDHCalculateShared (mwDHImportKey (opaque_norm public)) b) = sho"
    by (simp only: public(2) mwDH_agree [of a b] sho_def)
  have get: "run_state (guint16_get 0) (gbuf True [] (MW16_PUT 1 @ ?w1 @ ?w2)) = (1, gbuf True (MW16_PUT 1) (?w1 @ ?w2))"
    "run_state mwOpaque_get (gbuf True (MW16_PUT 1) (?w1 @ ?w2)) = (opaque_norm public, gbuf True (MW16_PUT 1 @ ?w1) ?w2)"
    "run_state mwOpaque_get (gbuf True (MW16_PUT 1 @ ?w1) ?w2) = (opaque_norm c, gbuf True (MW16_PUT 1 @ ?w1 @ ?w2) [])"
    using guint16_get_wire [of 0 True "[]" 1 "?w1 @ ?w2"]
      mwOpaque_get_wire_valid [OF public(1), of True "MW16_PUT 1" ?w2]
      mwOpaque_get_wire_valid [OF c(2), of True "MW16_PUT 1 @ ?w1" "[]"] by simp_all
  have inner: "mwGetBuffer_wrap (Some out) = gbuf True [] (MW32_PUT magic @ string_wire (Some pw))"
    using c(4,5) p(2) by (simp add: mwGetBuffer_wrap_gbuf)
  show ?thesis
    using c(3) guint32_get_wire [of 0 True "[]" magic "string_wire (Some pw)"]
      mwString_get_wire [OF assms(2), of True "MW32_PUT magic" "[]"]
    by (simp add: server_auth_rc2_128_def wrap_finalize [OF wm run] get shared key_def [symmetric] inner)
qed

definition auth_env :: "bytes list env" where
  "auth_env = log_env\<lparr>e_dh_random := State_Monad.return 1\<rparr>"

theorem compose_auth_rc2_128_readable_witness:
  "eval_state (e_dh_random auth_env) (mwSession_zero []) = 1 \<and> string_valid (Some [112, 119])
   \<and> mwDHExportKey (snd (mwDHRandKeypair 200)) = mwDHExportKey (snd (mwDHRandKeypair 200))
   \<and> 16 \<le> op_len (mwDHExportKey (mwDHCalculateShared (snd (mwDHRandKeypair 200)) 1))
   \<and> server_auth_rc2_128 200 (eval_state (compose_auth_rc2_128 auth_env (Some [112, 119]) 0x1234
        (mwDHExportKey (snd (mwDHRandKeypair 200)))) (mwSession_zero []))
      = Some (0x1234, string_norm (Some [112, 119]))"
proof -
  have hyps: "eval_state (e_dh_random auth_env) (mwSession_zero []) = 1" "string_valid (Some [112, 119])"
    by (simp_all add: auth_env_def string_valid_def)
  show ?thesis
    using compose_auth_rc2_128_readable [OF hyps refl example_DH_length, of "0x1234"] hyps example_DH_length
    by (intro conjI refl)
qed

end
