(* ===== verification/Framing.thy ===== *)
theory Framing
  imports Session
begin

text \<open>
  How the bytes of the connection become messages (\<open>mwSession_recv\<close> and the functions
  below it in \<^verbatim>\<open>src/src/session.c\<close>). The bytes arrive in pieces of any size; a message may be
  spread over several of them, with even its length field cut. The main result is that
  the pieces do not matter: the messages processed are those of the concatenation.
\<close>

subsection \<open>The input buffer\<close>

definition session_recv_cont :: "'c env \<Rightarrow> bytes \<Rightarrow> ('c, gsize) M" where
  "session_recv_cont env b = do {
     s \<leftarrow> State_Monad.get;
     let n = length b;
     let x = ss_buf_len s - length (ss_buf s);
     if n < x then do {
       modify (\<lambda>s. s\<lparr>ss_buf := ss_buf s @ b\<rparr>);
       State_Monad.return 0
     } else do {
       let buf = ss_buf s @ take x b;
       let b = drop x b;
       let n = n - x;
       if ss_buf_len s = 4 then do {
         let x = unat (guint32_peek (mwGetBuffer_wrap (Some \<lparr>op_len = 4, op_data = Some buf\<rparr>)));
         if n < x then do {
           modify (\<lambda>s. s\<lparr>ss_buf := take 4 buf @ b, ss_buf_len := x + 4\<rparr>);
           State_Monad.return 0
         } else do {
           session_buf_free;
           session_process env (take x b);
           State_Monad.return (n - x)
         }
       } else do {
         session_process env (drop 4 buf);
         session_buf_free;
         State_Monad.return n
       }
     }
   }"

definition session_recv_empty :: "'c env \<Rightarrow> bytes \<Rightarrow> ('c, gsize) M" where
  "session_recv_empty env b = do {
     let n = length b;
     if n < 4 then do {
       modify (\<lambda>s. s\<lparr>ss_buf := b, ss_buf_len := 4\<rparr>);
       State_Monad.return 0
     } else do {
       let x = unat (guint32_peek (mwGetBuffer_wrap (Some \<lparr>op_len = n, op_data = Some b\<rparr>)));
       if x = 0 then State_Monad.return (n - 4)
       else if n < x + 4 then do {
         modify (\<lambda>s. s\<lparr>ss_buf := b, ss_buf_len := x + 4\<rparr>);
         State_Monad.return 0
       } else do {
         session_process env (take x (drop 4 b));
         State_Monad.return (n - 4 - x)
       }
     }
   }"

definition keepalive :: "guchar \<Rightarrow> bool" where
  "keepalive c \<longleftrightarrow> c AND 0x80 \<noteq> 0"

definition session_recv :: "'c env \<Rightarrow> bytes \<Rightarrow> ('c, gsize) M" where
  "session_recv env b = do {
     buf_len \<leftarrow> gets ss_buf_len;
     let b = (if buf_len = 0 then dropWhile keepalive b else b);
     if length b = 0 then State_Monad.return 0
     else if 0 < buf_len then session_recv_cont env b
     else session_recv_empty env b
   }"

text \<open>The loop may not end if handlers interfere with the buffer: \<open>None\<close>.\<close>

partial_function (option) mwSession_recv :: "'c env \<Rightarrow> bytes \<Rightarrow> 'c mwSession \<Rightarrow> 'c mwSession option" where
  "mwSession_recv env b s =
     (if b = [] then Some s
      else (case run_state (session_recv env b) s of
        (remain, s) \<Rightarrow> mwSession_recv env (drop (length b - remain) b) s))"

subsection \<open>Computations that keep away from the buffer\<close>

definition buf_free :: "'c mwSession \<Rightarrow> 'c mwSession" where
  "buf_free s = s\<lparr>ss_buf := [], ss_buf_len := 0\<rparr>"

definition nobuf :: "('c, 'a) M \<Rightarrow> bool" where
  "nobuf m \<longleftrightarrow> (\<forall>s. run_state m (buf_free s) = (fst (run_state m s), buf_free (snd (run_state m s))))"

lemma buf_free_simps [simp]:
  "buf_free (buf_free s) = buf_free s"
  "ss_state (buf_free s) = ss_state s" "ss_channels (buf_free s) = ss_channels s"
  "ss_services (buf_free s) = ss_services s" "ss_ciphers (buf_free s) = ss_ciphers s"
  "ss_login (buf_free s) = ss_login s" "ss_counter (buf_free s) = ss_counter s"
  "ss_attributes (buf_free s) = ss_attributes s" "ss_status (buf_free s) = ss_status s"
  "ss_buf (buf_free s) = []" "ss_buf_len (buf_free s) = 0" "ss_client (buf_free s) = ss_client s"
  by (simp_all add: buf_free_def)

lemma nobuf_return [nobuf_intros]: "nobuf (State_Monad.return x)"
  by (simp add: nobuf_def)

lemma nobuf_bind [nobuf_intros]: "nobuf m \<Longrightarrow> (\<And>x. nobuf (k x)) \<Longrightarrow> nobuf (State_Monad.bind m k)"
  by (simp add: nobuf_def split_def)

lemma nobuf_if [nobuf_intros]:
  "(c \<Longrightarrow> nobuf m) \<Longrightarrow> (\<not> c \<Longrightarrow> nobuf n) \<Longrightarrow> nobuf (if c then m else n)"
  by simp

lemma nobuf_option [nobuf_intros]:
  "nobuf m \<Longrightarrow> (\<And>x. y = Some x \<Longrightarrow> nobuf (k x)) \<Longrightarrow> nobuf (case y of None \<Rightarrow> m | Some x \<Rightarrow> k x)"
  by (simp split: option.split)

lemma nobuf_prod [nobuf_intros]: "(\<And>x z. nobuf (k x z)) \<Longrightarrow> nobuf (case y of (x, z) \<Rightarrow> k x z)"
  by (simp split: prod.split)

lemma nobuf_for_each [nobuf_intros]: "(\<And>x. nobuf (f x)) \<Longrightarrow> nobuf (for_each f xs)"
  by (induction xs) (simp_all add: nobuf_return nobuf_bind)

lemma nobuf_gets: "(\<And>s. f (buf_free s) = f s) \<Longrightarrow> nobuf (gets f)"
  by (simp add: nobuf_def)

lemma nobuf_modify: "(\<And>s. f (buf_free s) = buf_free (f s)) \<Longrightarrow> nobuf (modify f)"
  by (simp add: nobuf_def)

lemma nobuf_optionally: "(\<And>m. h = Some m \<Longrightarrow> nobuf m) \<Longrightarrow> nobuf (optionally h)"
  by (cases h) (simp_all add: nobuf_return)

lemma nobuf_optionally_map [nobuf_intros]:
  "(\<And>h. oh = Some h \<Longrightarrow> nobuf (g h)) \<Longrightarrow> nobuf (optionally (map_option g oh))"
  by (cases oh) (simp_all add: nobuf_return)

text \<open>
  The struct of a session is private to the library: the functions of clients and
  services can reach the input buffer only by calling \<open>mwSession_recv\<close> from inside a
  callback, which this hypothesis excludes, or by stopping the session.
\<close>

definition env_nobuf :: "'c env \<Rightarrow> bool" where
  "env_nobuf env \<longleftrightarrow> (\<forall>b. nobuf (e_io_write env b)) \<and> nobuf (e_io_close env)
     \<and> (\<forall>h st i. e_on_stateChange env = Some h \<longrightarrow> nobuf (h st i))
     \<and> (\<forall>m. e_on_setPrivacyInfo env = Some m \<longrightarrow> nobuf m)
     \<and> (\<forall>m. e_on_setUserStatus env = Some m \<longrightarrow> nobuf m)
     \<and> (\<forall>h t. e_on_admin env = Some h \<longrightarrow> nobuf (h t))
     \<and> (\<forall>h a b c. e_on_announce env = Some h \<longrightarrow> nobuf (h a b c))
     \<and> (\<forall>v m. e_start env v = Some m \<longrightarrow> nobuf m) \<and> (\<forall>v m. e_stop env v = Some m \<longrightarrow> nobuf m)
     \<and> (\<forall>v h c m. e_recv_create env v = Some h \<longrightarrow> nobuf (h c m))
     \<and> (\<forall>v h c m. e_recv_accept env v = Some h \<longrightarrow> nobuf (h c m))
     \<and> (\<forall>v h c m. e_recv_destroy env v = Some h \<longrightarrow> nobuf (h c m))
     \<and> (\<forall>v h c t d. e_recv env v = Some h \<longrightarrow> nobuf (h c t d))
     \<and> nobuf (e_time env) \<and> (\<forall>n. nobuf (e_mwKeyRandom env n)) \<and> nobuf (e_dh_random env) \<and> nobuf (e_junk env)"

lemma env_nobufU:
  assumes "env_nobuf env"
  shows "nobuf (e_io_write env b)" "nobuf (e_io_close env)" "nobuf (e_time env)"
    "nobuf (e_mwKeyRandom env n)" "nobuf (e_dh_random env)" "nobuf (e_junk env)"
  using assms by (auto simp: env_nobuf_def)

lemma env_nobufC:
  assumes "env_nobuf env"
  shows "e_on_stateChange env = Some h1 \<Longrightarrow> nobuf (h1 st i)"
    "e_on_setPrivacyInfo env = Some m1 \<Longrightarrow> nobuf m1" "e_on_setUserStatus env = Some m1 \<Longrightarrow> nobuf m1"
    "e_on_admin env = Some h2 \<Longrightarrow> nobuf (h2 t)" "e_on_announce env = Some h3 \<Longrightarrow> nobuf (h3 a b' c)"
    "e_start env v = Some m1 \<Longrightarrow> nobuf m1" "e_stop env v = Some m1 \<Longrightarrow> nobuf m1"
    "e_recv_create env v = Some h4 \<Longrightarrow> nobuf (h4 ch mc)" "e_recv_accept env v = Some h5 \<Longrightarrow> nobuf (h5 ch ma)"
    "e_recv_destroy env v = Some h6 \<Longrightarrow> nobuf (h6 ch md)" "e_recv env v = Some h7 \<Longrightarrow> nobuf (h7 ch ty d)"
  using assms by (auto simp: env_nobuf_def)

subsubsection \<open>The library's own operations\<close>

lemma nobuf_properties [nobuf_intros]:
  "nobuf (property_set k v)" "nobuf (property_get k)" "nobuf (property_uint k)" "nobuf (property_str k)"
proof -
  show "nobuf (property_set k v)"
    unfolding property_set_def by (rule nobuf_modify) (simp add: buf_free_def)
  show get: "nobuf (property_get k)" for k
    unfolding property_get_def by (rule nobuf_gets) simp
  show "nobuf (property_uint k)" "nobuf (property_str k)"
    unfolding property_uint_def property_str_def by (intro nobuf_intros get)+
qed

lemma nobuf_core [nobuf_intros]:
  "nobuf fault" "nobuf (chan_deref c)" "nobuf (chan_update c f)" "nobuf session_buf_free"
  "nobuf mwSession_getState" "nobuf (mwSession_getService v)" "nobuf (mwSession_getServices env)"
  "nobuf (mwSession_getCipher cid)" "nobuf (mwSession_getCiphers env)"
proof -
  show f: "nobuf fault"
    unfolding fault_def by (rule nobuf_modify) (simp add: buf_free_def)
  show d: "nobuf (chan_deref c)"
    unfolding chan_deref_def by (intro nobuf_intros f nobuf_gets) simp
  show "nobuf (chan_update c f)"
    unfolding chan_update_def by (intro nobuf_intros d nobuf_modify) (simp add: buf_free_def)
  show "nobuf session_buf_free"
    unfolding session_buf_free_def by (rule nobuf_modify) (simp add: buf_free_def)
  show "nobuf mwSession_getState" "nobuf (mwSession_getService v)" "nobuf (mwSession_getServices env)"
    "nobuf (mwSession_getCipher cid)" "nobuf (mwSession_getCiphers env)"
    unfolding mwSession_getState_def mwSession_getService_def mwSession_getServices_def
      mwSession_getCipher_def mwSession_getCiphers_def by (rule nobuf_gets; simp)+
qed

lemma nobuf_session_core [nobuf_intros]:
  assumes "env_nobuf env"
  shows "nobuf (session_state env st i)" "nobuf (SET_USER_STATUS_recv env m)" "nobuf (mwSession_send env msg)"
proof -
  note U = env_nobufU [OF assms] and C = env_nobufC [OF assms]
  have set: "nobuf (modify (\<lambda>s. s\<lparr>ss_state := st, ss_state_info := i\<rparr>))" for st i
    by (rule nobuf_modify) (simp add: buf_free_def)
  show "nobuf (session_state env st i)"
    unfolding session_state_def by (intro nobuf_intros set U; erule C)
  have stat: "nobuf (modify (\<lambda>s. s\<lparr>ss_status := f (ss_status s)\<rparr>))" for f
    by (rule nobuf_modify) (simp add: buf_free_def)
  show u: "nobuf (SET_USER_STATUS_recv env m)" for m
    unfolding SET_USER_STATUS_recv_def by (intro nobuf_intros stat nobuf_optionally; erule C)
  have sent: "nobuf (case msg of SetUserStatus m \<Rightarrow> SET_USER_STATUS_recv env m | _ \<Rightarrow> State_Monad.return ())"
    by (cases msg) (simp_all add: u nobuf_return)
  show "nobuf (mwSession_send env msg)"
    unfolding mwSession_send_def by (intro nobuf_intros U sent)
qed

lemma nobuf_service [nobuf_intros]:
  assumes "env_nobuf env"
  shows "nobuf (mwService_start env v)" "nobuf (mwService_stop env v)"
proof -
  note U = env_nobufU [OF assms] and C = env_nobufC [OF assms]
  have set: "nobuf (service_set_state v st)" for v st
    unfolding service_set_state_def by (rule nobuf_modify) (simp add: buf_free_def split: option.split)
  have get: "nobuf (mwService_getState v)" for v
    unfolding mwService_getState_def by (intro nobuf_intros)
  show "nobuf (mwService_start env v)"
    unfolding mwService_start_def mwService_started_def by (intro nobuf_intros set get U; erule C)
  show "nobuf (mwService_stop env v)"
    unfolding mwService_stop_def mwService_stopped_def by (intro nobuf_intros set get U; erule C)
qed

lemma nobuf_channel_local [nobuf_intros]:
  "nobuf (channel_state c st)" "nobuf (set_stat c fld v)" "nobuf (incr_stat c fld v)" "nobuf (instance_cipher ci)"
  "nobuf (get_supported c cid)" "nobuf (put_supported c ci)" "nobuf (mwChannel_selectCipherInstance c cio)"
  "nobuf (mwChannel_getSupportedCipherInstances env c)" "nobuf (session_newInstance k)"
  "nobuf (mwChannel_newIncoming c)" "nobuf (mwChannel_find c)" "nobuf (mwChannel_getService c)"
  "nobuf (queue_incoming c m)" "nobuf (queue_outgoing c m)" "nobuf (channel_decrypt c d)"
proof -
  show cs: "nobuf (channel_state c st)" for c st
    unfolding channel_state_def by (intro nobuf_intros)
  show st: "nobuf (set_stat c fld v)" for v
    unfolding set_stat_def by (intro nobuf_intros)
  show "nobuf (incr_stat c fld v)"
    unfolding incr_stat_def by (intro nobuf_intros st)
  show "nobuf (instance_cipher ci)"
    unfolding instance_cipher_def by (intro nobuf_intros nobuf_gets) simp
  show "nobuf (get_supported c cid)" "nobuf (put_supported c ci)" "nobuf (mwChannel_selectCipherInstance c cio)"
    "nobuf (mwChannel_getSupportedCipherInstances env c)" "nobuf (mwChannel_getService c)"
    "nobuf (queue_incoming c m)" "nobuf (queue_outgoing c m)" "nobuf (channel_decrypt c d)"
    unfolding get_supported_def put_supported_def mwChannel_selectCipherInstance_def
      mwChannel_getSupportedCipherInstances_def mwChannel_getService_def queue_incoming_def
      queue_outgoing_def channel_decrypt_def Let_def
    by (intro nobuf_intros)+
  show "nobuf (mwChannel_find c)"
    unfolding mwChannel_find_def by (rule nobuf_gets) simp
  show "nobuf (session_newInstance k)"
    unfolding session_newInstance_def
    by (intro nobuf_intros nobuf_gets nobuf_modify) (simp_all add: buf_free_def)
  show "nobuf (mwChannel_newIncoming c)"
    unfolding mwChannel_newIncoming_def
    by (intro nobuf_intros nobuf_modify cs) (simp add: buf_free_def)
qed

lemma nobuf_channel [nobuf_intros]:
  assumes "env_nobuf env"
  shows "nobuf (mwChannel_destroy env c r o')" "nobuf (mwService_recv env srv c t d)"
    "nobuf (channel_recv env c m)" "nobuf (flush_channel env c)" "nobuf (channel_open env c)"
    "nobuf (mwChannel_recv env c m)" "nobuf (channel_reject env c r)"
proof -
  note U = env_nobufU [OF assms] and C = env_nobufC [OF assms]
  note S = nobuf_session_core [OF assms]
  have del: "nobuf (modify (\<lambda>s. s\<lparr>ss_channels := AList.delete k (ss_channels s)\<rparr>))" for k
    by (rule nobuf_modify) (simp add: buf_free_def)
  show ds: "nobuf (mwChannel_destroy env c r o')" for r o'
    unfolding mwChannel_destroy_def Let_def by (intro nobuf_intros S del)
  show r: "nobuf (mwService_recv env srv c t d)" for srv t d
    unfolding mwService_recv_def by (intro nobuf_intros U; erule C)
  show cr: "nobuf (channel_recv env c m)" for m
    unfolding channel_recv_def by (intro nobuf_intros r)
  show fl: "nobuf (flush_channel env c)"
    unfolding flush_channel_def by (intro nobuf_intros cr S)
  show "nobuf (channel_open env c)"
    unfolding channel_open_def timestamp_stat_def by (intro nobuf_intros fl U; erule C)
  show "nobuf (mwChannel_recv env c m)"
    unfolding mwChannel_recv_def by (intro nobuf_intros cr)
  show "nobuf (channel_reject env c r)"
    unfolding channel_reject_def by (intro nobuf_intros ds)
qed

lemma nobuf_channel_messages [nobuf_intros]:
  assumes "env_nobuf env"
  shows "nobuf (mwChannel_recvCreate env c mc)" "nobuf (mwChannel_recvAccept env c ma)"
    "nobuf (mwChannel_recvDestroy env c md)"
proof -
  note U = env_nobufU [OF assms] and C = env_nobufC [OF assms]
  note S = nobuf_session_core [OF assms] nobuf_channel [OF assms]
  have del: "nobuf (modify (\<lambda>s. s\<lparr>ss_channels := AList.delete k (ss_channels s)\<rparr>))" for k
    by (rule nobuf_modify) (simp add: buf_free_def)
  have ro: "nobuf (recv_offer c ei)" for ei
    unfolding recv_offer_def mwChannel_addSupportedCipherInstance_def by (intro nobuf_intros)
  show "nobuf (mwChannel_recvCreate env c mc)"
    unfolding mwChannel_recvCreate_def mwService_recvCreate_def by (intro nobuf_intros S ro; erule C)
  have af: "nobuf (accept_finish env srv c ma)" for srv
    unfolding accept_finish_def mwService_recvAccept_def by (intro nobuf_intros S U; erule C)
  show "nobuf (mwChannel_recvAccept env c ma)"
    unfolding mwChannel_recvAccept_def by (intro nobuf_intros S af)
  show "nobuf (mwChannel_recvDestroy env c md)"
    unfolding mwChannel_recvDestroy_def mwService_recvDestroy_def by (intro nobuf_intros S del; erule C)
qed

lemma nobuf_session_process:
  assumes "env_nobuf env"
  shows "nobuf (session_process env b)"
proof -
  note U = env_nobufU [OF assms] and C = env_nobufC [OF assms]
  note S = nobuf_session_core [OF assms] nobuf_service [OF assms] nobuf_channel [OF assms]
    nobuf_channel_messages [OF assms]
  have stop: "nobuf (mwSession_stop env r)" for r
    unfolding mwSession_stop_def by (intro nobuf_intros S U; erule C)
  have auth: "nobuf (compose_auth_rc2_40 env pw)" "nobuf (compose_auth_rc2_128 env pw mg k)" for pw mg k
    unfolding compose_auth_rc2_40_def compose_auth_rc2_128_def Let_def by (intro nobuf_intros U; erule C)+
  have login: "nobuf (modify (\<lambda>s. s\<lparr>ss_login := f (ss_login s)\<rparr>))" for f
    by (rule nobuf_modify) (simp add: buf_free_def)
  have privacy: "nobuf (modify (\<lambda>s. s\<lparr>ss_privacy := v\<rparr>))" for v
    by (rule nobuf_modify) (simp add: buf_free_def)
  have "nobuf (HANDSHAKE_ACK_recv env m)" for m
    unfolding HANDSHAKE_ACK_recv_def Let_def by (intro nobuf_intros S auth)
  moreover have "nobuf (LOGIN_REDIRECT_recv env m)" for m
    unfolding LOGIN_REDIRECT_recv_def by (intro S)
  moreover have "nobuf (LOGIN_ACK_recv env m)" for m
    unfolding LOGIN_ACK_recv_def by (intro nobuf_intros S login)
  moreover have "nobuf (CHANNEL_CREATE_recv env m)" for m
    unfolding CHANNEL_CREATE_recv_def by (intro nobuf_intros S)
  moreover have "nobuf (CHANNEL_ACCEPT_recv env m)" for m
    unfolding CHANNEL_ACCEPT_recv_def by (intro nobuf_intros S)
  moreover have "nobuf (CHANNEL_DESTROY_recv env m)" for m
    unfolding CHANNEL_DESTROY_recv_def by (intro nobuf_intros S stop)
  moreover have "nobuf (CHANNEL_SEND_recv env m)" for m
    unfolding CHANNEL_SEND_recv_def by (intro nobuf_intros S)
  moreover have "nobuf (SET_PRIVACY_LIST_recv env m)" for m
    unfolding SET_PRIVACY_LIST_recv_def by (intro nobuf_intros privacy nobuf_optionally; erule C)
  moreover have "nobuf (SENSE_SERVICE_recv env m)" for m
    unfolding SENSE_SERVICE_recv_def by (intro nobuf_intros S)
  moreover have "nobuf (ADMIN_recv env m)" for m
    unfolding ADMIN_recv_def by (intro nobuf_intros; erule C)
  moreover have "nobuf (ANNOUNCE_recv env m)" for m
    unfolding ANNOUNCE_recv_def by (intro nobuf_intros; erule C)
  ultimately have "nobuf (session_dispatch env msg)" for msg
    by (cases msg) (simp_all add: S nobuf_return)
  note dispatch = this
  show ?thesis
    unfolding session_process_def by (intro nobuf_intros dispatch U)
qed

subsection \<open>The messages of a stream\<close>

abbreviation frame_len :: "bytes \<Rightarrow> nat" where
  "frame_len bs \<equiv> unat (MW32_GET bs)"

text \<open>
  The specification: the complete messages at the start of a stream of bytes, without
  their length fields, and the bytes of the message that is not complete.
\<close>

function split_stream :: "bytes \<Rightarrow> bytes list \<times> bytes" where
  "split_stream bs =
     (let bs = dropWhile keepalive bs
      in if length bs < 4 \<or> length bs < frame_len bs + 4 then ([], bs)
         else (case split_stream (drop (frame_len bs + 4) bs) of
           (frames, rest) \<Rightarrow> (take (frame_len bs) (drop 4 bs) # frames, rest)))"
  by auto
termination
proof (relation "measure length")
  fix bs :: bytes and xs
  assume "xs = dropWhile keepalive bs" "\<not> (length xs < 4 \<or> length xs < frame_len xs + 4)"
  then show "(drop (frame_len xs + 4) xs, bs) \<in> measure length"
    using length_dropWhile_le [of keepalive bs] by auto
qed simp

declare split_stream.simps [simp del]

definition split_after :: "bytes list \<Rightarrow> bytes list \<times> bytes \<Rightarrow> bytes list \<times> bytes" where
  "split_after fs r = (fs @ fst r, snd r)"

lemma split_after_simps [simp]:
  "split_after [] r = r" "split_after fs (split_after gs r) = split_after (fs @ gs) r"
  by (simp_all add: split_after_def)

lemma MW32_GET_append [simp]: "4 \<le> length p \<Longrightarrow> MW32_GET (p @ q) = MW32_GET p"
  unfolding MW32_GET_def by (subst (1 2 3 4) nth_append) auto

lemma split_stream_skip: "split_stream (dropWhile keepalive bs) = split_stream bs"
  by (simp add: split_stream.simps [of bs] split_stream.simps [of "dropWhile keepalive bs"])

lemma dropWhile_start: "bs \<noteq> [] \<Longrightarrow> \<not> keepalive (hd bs) \<Longrightarrow> dropWhile keepalive bs = bs"
  by (cases bs) auto

lemma split_stream_frame:
  assumes "\<not> keepalive (hd bs)" and "4 \<le> length bs" and "frame_len bs + 4 \<le> length bs"
  shows "split_stream bs =
    split_after [take (frame_len bs) (drop 4 bs)] (split_stream (drop (frame_len bs + 4) bs))"
proof -
  have "bs \<noteq> []" using assms(2) by auto
  then show ?thesis
    using assms dropWhile_start [of bs]
    by (simp add: split_stream.simps [of bs] Let_def split_after_def split_def)
qed

text \<open>What the buffer of a session may hold between two calls.\<close>

definition framing_ok :: "'c mwSession \<Rightarrow> bytes \<Rightarrow> bool" where
  "framing_ok s p \<longleftrightarrow> ss_buf s = p
     \<and> (if p = [] then ss_buf_len s = 0
        else \<not> keepalive (hd p)
          \<and> (if length p < 4 then ss_buf_len s = 4
             else ss_buf_len s = frame_len p + 4 \<and> length p < frame_len p + 4))"

lemma guint32_peek_wrap [simp]:
  "4 \<le> length b \<Longrightarrow> length b = n \<Longrightarrow> guint32_peek (mwGetBuffer_wrap (Some \<lparr>op_len = n, op_data = Some b\<rparr>)) = MW32_GET b"
  by (auto simp: guint32_peek_def mwGetBuffer_wrap_gbuf opaque_ok_def gbuf_def opaque_bytes_def)

definition step_ok :: "'c env \<Rightarrow> bytes \<Rightarrow> bytes \<Rightarrow> 'c mwSession \<Rightarrow> gsize \<times> 'c mwSession \<Rightarrow> bool" where
  "step_ok env p b s r \<longleftrightarrow> fst r < length b
     \<and> (\<exists>fs p'. framing_ok (snd r) p'
          \<and> buf_free (snd r) = exec_state (for_each (session_process env) fs) (buf_free s)
          \<and> split_stream (p @ b) = split_after fs (split_stream (p' @ drop (length b - fst r) b)))"

lemma step_okI:
  "remain < length b \<Longrightarrow> framing_ok t p'
   \<Longrightarrow> buf_free t = exec_state (for_each (session_process env) fs) (buf_free s)
   \<Longrightarrow> split_stream (p @ b) = split_after fs (split_stream (p' @ drop (length b - remain) b))
   \<Longrightarrow> step_ok env p b s (remain, t)"
  unfolding step_ok_def by auto

lemma session_process_Nil [simp]: "session_process env [] = State_Monad.return ()"
  by (simp add: session_process_def)

lemma nobuf_exec: "nobuf m \<Longrightarrow> exec_state m (buf_free s) = buf_free (exec_state m s)"
  by (simp add: nobuf_def)

lemma framing_ok_empty [simp]: "framing_ok s [] \<longleftrightarrow> buf_free s = s"
  unfolding framing_ok_def buf_free_def by (cases s) auto

lemma session_recv_empty_step:
  assumes "env_nobuf env" and "framing_ok s []" and "b \<noteq> []" and "\<not> keepalive (hd b)"
  shows "step_ok env [] b s (run_state (session_recv_empty env b) s)"
proof -
  have s: "buf_free s = s" using assms(2) by simp
  have keep: "buf_free (s\<lparr>ss_buf := x, ss_buf_len := y\<rparr>) = s" for x y
    using s by (simp add: buf_free_def)
  consider "length b < 4" | "4 \<le> length b" "frame_len b = 0"
    | "4 \<le> length b" "frame_len b \<noteq> 0" "length b < frame_len b + 4"
    | "4 \<le> length b" "frame_len b \<noteq> 0" "frame_len b + 4 \<le> length b"
    by linarith
  then show ?thesis
  proof cases
    case 1
    then have run: "run_state (session_recv_empty env b) s = (0, s\<lparr>ss_buf := b, ss_buf_len := 4\<rparr>)"
      by (simp add: session_recv_empty_def)
    show ?thesis
      unfolding run using 1 assms(3,4) s
      by (intro step_okI [where fs = "[]" and p' = b]) (simp_all add: keep framing_ok_def)
  next
    case 2
    then have run: "run_state (session_recv_empty env b) s = (length b - 4, s)"
      by (simp add: session_recv_empty_def)
    show ?thesis
      unfolding run using 2 assms(3,4) s split_stream_frame [of b]
      by (intro step_okI [where fs = "[[]]" and p' = "[]"]) simp_all
  next
    case 3
    then have run: "run_state (session_recv_empty env b) s
        = (0, s\<lparr>ss_buf := b, ss_buf_len := frame_len b + 4\<rparr>)"
      by (simp add: session_recv_empty_def)
    show ?thesis
      unfolding run using 3 assms(3,4) s
      by (intro step_okI [where fs = "[]" and p' = b]) (simp_all add: keep framing_ok_def)
  next
    case 4
    define m where "m = session_process env (take (frame_len b) (drop 4 b))"
    have run: "run_state (session_recv_empty env b) s = (length b - 4 - frame_len b, exec_state m s)"
      using 4 by (simp add: session_recv_empty_def m_def split_def Let_def)
    have free: "buf_free (exec_state m s) = exec_state m s"
      using nobuf_exec [OF nobuf_session_process [OF assms(1)], of "take (frame_len b) (drop 4 b)" s] s
      by (simp add: m_def)
    show ?thesis
      unfolding run using 4 assms(3,4) s split_stream_frame [of b]
      by (intro step_okI [where fs = "[take (frame_len b) (drop 4 b)]" and p' = "[]"])
        (simp_all add: free split_def m_def [symmetric] add.commute)
  qed
qed

lemma session_recv_cont_step:
  assumes "env_nobuf env" and "framing_ok s p" and "p \<noteq> []" and "b \<noteq> []"
  shows "step_ok env p b s (run_state (session_recv_cont env b) s)"
proof -
  define x where "x = ss_buf_len s - length p"
  have p: "ss_buf s = p" "\<not> keepalive (hd p)" using assms(2,3) by (simp_all add: framing_ok_def)
  have hd: "\<not> keepalive (hd (p @ q))" for q using p(2) assms(3) by simp
  have keep: "buf_free (t\<lparr>ss_buf := u, ss_buf_len := v\<rparr>) = buf_free t" "buf_free (t\<lparr>ss_buf := u\<rparr>) = buf_free t"
    for t :: "'a mwSession" and u v by (simp_all add: buf_free_def)
  have free: "run_state session_buf_free t = ((), buf_free t)" for t :: "'a mwSession"
    by (simp add: session_buf_free_def buf_free_def)
  have proc: "exec_state (session_process env f) (buf_free t) = buf_free (exec_state (session_process env f) t)" for f t
    by (rule nobuf_exec [OF nobuf_session_process [OF assms(1)]])
  consider "length b < x"
    | "x \<le> length b" "length p < 4" "length b - x < frame_len (p @ take x b)"
    | "x \<le> length b" "length p < 4" "frame_len (p @ take x b) \<le> length b - x"
    | "x \<le> length b" "4 \<le> length p"
    by linarith
  then show ?thesis
  proof cases
    case 1
    then have run: "run_state (session_recv_cont env b) s = (0, s\<lparr>ss_buf := p @ b\<rparr>)"
      by (simp add: session_recv_cont_def p x_def)
    have "framing_ok (s\<lparr>ss_buf := p @ b\<rparr>) (p @ b)"
      using assms(2,3) 1 by (auto simp: framing_ok_def x_def hd split: if_splits)
    then show ?thesis
      unfolding run using assms(4) by (intro step_okI [where fs = "[]" and p' = "p @ b"]) (simp_all add: keep)
  next
    case 2
    then have len: "ss_buf_len s = 4" "x = 4 - length p" "length (p @ take x b) = 4"
      using assms(2,3) by (auto simp: framing_ok_def x_def)
    have run: "run_state (session_recv_cont env b) s
        = (0, s\<lparr>ss_buf := p @ b, ss_buf_len := frame_len (p @ take x b) + 4\<rparr>)"
      using 2 len by (simp add: session_recv_cont_def p Let_def)
    have len': "MW32_GET (p @ b) = MW32_GET (p @ take x b)"
      using MW32_GET_append [of "p @ take x b" "drop x b"] len(3) by simp
    show ?thesis
      unfolding run using assms(3,4) 2 len p(2)
      by (intro step_okI [where fs = "[]" and p' = "p @ b"]) (auto simp: keep framing_ok_def hd len')
  next
    case 3
    then have len: "ss_buf_len s = 4" "x = 4 - length p" "length (p @ take x b) = 4"
      using assms(2,3) by (auto simp: framing_ok_def x_def)
    define y where "y = frame_len (p @ take x b)"
    have len': "frame_len (p @ b) = y"
      using MW32_GET_append [of "p @ take x b" "drop x b"] len(3) by (simp add: y_def)
    have run: "run_state (session_recv_cont env b) s
        = (length b - x - y, exec_state (session_process env (take y (drop x b))) (buf_free s))"
      using 3 len by (simp add: session_recv_cont_def p Let_def y_def free split_def)
    have y: "y + 4 - length p = x + y" "y + 4 \<le> length p + length b" "length b - (length b - x - y) = x + y"
      using 3 len by (simp_all add: y_def)
    have "split_stream (p @ b) = split_after [take y (drop x b)] (split_stream (drop (x + y) b))"
      using split_stream_frame [of "p @ b"] hd 3 len(2) y by (simp add: len')
    then show ?thesis
      unfolding run using assms(4) 3 len y
      by (intro step_okI [where fs = "[take y (drop x b)]" and p' = "[]"]) (auto simp: proc split_def)
  next
    case 4
    then have len: "ss_buf_len s = frame_len p + 4" "x = frame_len p + 4 - length p" "0 < x"
      using assms(2,3) by (auto simp: framing_ok_def x_def)
    have ne: "ss_buf_len s \<noteq> 4"
      using assms(2,3) 4 by (auto simp: framing_ok_def)
    define f where "f = drop 4 (p @ take x b)"
    have run: "run_state (session_recv_cont env b) s
        = (length b - x, buf_free (exec_state (session_process env f) s))"
      using 4 len ne by (simp add: session_recv_cont_def p Let_def x_def f_def free split_def)
    have f: "f = take (frame_len p) (drop 4 (p @ b))"
      using 4 len by (simp add: f_def)
    have "split_stream (p @ b) = split_after [f] (split_stream (drop x b))"
      using split_stream_frame [of "p @ b"] hd 4 len f by simp
    then show ?thesis
      unfolding run using assms(4) 4 len
      by (intro step_okI [where fs = "[f]" and p' = "[]"]) (auto simp: proc split_def)
  qed
qed

lemma session_recv_step:
  assumes "env_nobuf env" and "framing_ok s p" and "b \<noteq> []"
  shows "step_ok env p b s (run_state (session_recv env b) s)"
proof (cases "p = []")
  case False
  then have "0 < ss_buf_len s"
    using assms(2) by (auto simp: framing_ok_def split: if_splits)
  then have "run_state (session_recv env b) s = run_state (session_recv_cont env b) s"
    using assms(3) by (simp add: session_recv_def)
  with session_recv_cont_step [OF assms(1,2) False assms(3)] show ?thesis by simp
next
  case True
  define b' where "b' = dropWhile keepalive b"
  have len: "ss_buf_len s = 0" and s: "buf_free s = s"
    using assms(2) True by (simp_all add: framing_ok_def) (simp add: buf_free_def)
  have b: "b = takeWhile keepalive b @ b'" by (simp add: b'_def)
  have run: "run_state (session_recv env b) s = (if b' = [] then (0, s) else run_state (session_recv_empty env b') s)"
    using len by (simp add: session_recv_def b'_def Let_def)
  show ?thesis
  proof (cases "b' = []")
    case True
    with split_stream_skip [of b] have "split_stream b = split_stream []"
      by (simp only: b'_def)
    with True \<open>p = []\<close> assms(3) s show ?thesis
      unfolding run by (auto intro!: step_okI [where fs = "[]" and p' = "[]"])
  next
    case False
    then have "\<not> keepalive (hd b')"
      unfolding b'_def by (rule hd_dropWhile)
    with False assms(1,2) \<open>p = []\<close> have "step_ok env [] b' s (run_state (session_recv_empty env b') s)"
      using session_recv_empty_step by blast
    moreover have "length b' \<le> length b" by (simp add: b'_def length_dropWhile_le)
    moreover have "drop (length b - n) b = drop (length b' - n) b'" if "n < length b'" for n
      using that by (subst (2) b, subst b) simp
    moreover have "split_stream b' = split_stream b" by (simp add: b'_def split_stream_skip)
    ultimately show ?thesis
      unfolding run step_ok_def using False \<open>p = []\<close> by auto
  qed
qed

lemma split_stream_append:
  "split_stream (b @ c) = split_after (fst (split_stream b)) (split_stream (snd (split_stream b) @ c))"
proof (induction b rule: split_stream.induct)
  case (1 b)
  define b' where "b' = dropWhile keepalive b"
  have app: "split_stream (b @ c) = split_stream (b' @ c)"
  proof (cases "b' = []")
    case True
    then have "dropWhile keepalive (b @ c) = dropWhile keepalive c"
      by (simp add: b'_def dropWhile_append)
    with True split_stream_skip [of "b @ c"] split_stream_skip [of c] show ?thesis by simp
  next
    case False
    then have "dropWhile keepalive (b @ c) = b' @ c"
      by (auto simp: b'_def dropWhile_append)
    with split_stream_skip [of "b @ c"] show ?thesis by simp
  qed
  show ?case
  proof (cases "length b' < 4 \<or> length b' < frame_len b' + 4")
    case True
    then have "split_stream b = ([], b')"
      by (simp add: split_stream.simps [of b] b'_def Let_def)
    with app show ?thesis by simp
  next
    case False
    then have "b' \<noteq> []" by auto
    then have hd: "\<not> keepalive (hd b')"
      unfolding b'_def by (rule hd_dropWhile)
    have b: "split_stream b = split_after [take (frame_len b') (drop 4 b')] (split_stream (drop (frame_len b' + 4) b'))"
      using split_stream_frame [OF hd] False by (simp add: split_stream_skip b'_def [symmetric] flip: split_stream_skip [of b])
    have bc: "split_stream (b' @ c) = split_after [take (frame_len b') (drop 4 b')]
        (split_stream (drop (frame_len b' + 4) b' @ c))"
      using split_stream_frame [of "b' @ c"] hd \<open>b' \<noteq> []\<close> False by simp
    have IH: "split_stream (drop (frame_len b' + 4) b' @ c)
        = split_after (fst (split_stream (drop (frame_len b' + 4) b')))
            (split_stream (snd (split_stream (drop (frame_len b' + 4) b')) @ c))"
      using 1 [OF b'_def False] .
    show ?thesis
      unfolding app bc IH b by (simp add: split_after_def)
  qed
qed

lemma for_each_append [simp]: "for_each f (xs @ ys) = do { for_each f xs; for_each f ys }"
  by (induction xs) simp_all

lemma split_stream_rest: "framing_ok s p \<Longrightarrow> split_stream p = ([], p)"
  by (cases "p = []") (auto simp: split_stream.simps [of p] split_stream.simps [of "[]"] framing_ok_def dropWhile_start)

lemma mwSession_recv_splits:
  assumes "env_nobuf env" and "framing_ok s p"
  shows "\<exists>t. mwSession_recv env b s = Some t
    \<and> buf_free t = exec_state (for_each (session_process env) (fst (split_stream (p @ b)))) (buf_free s)
    \<and> framing_ok t (snd (split_stream (p @ b)))"
  using assms(2)
proof (induction b arbitrary: s p rule: length_induct)
  case (1 b)
  show ?case
  proof (cases "b = []")
    case True
    with 1(2) split_stream_rest [OF 1(2)] show ?thesis
      by (simp add: mwSession_recv.simps [of env "[]"])
  next
    case False
    obtain remain t where r: "run_state (session_recv env b) s = (remain, t)" by fastforce
    from session_recv_step [OF assms(1) 1(2) False] obtain fs p' where
      st: "remain < length b" "framing_ok t p'"
        "buf_free t = exec_state (for_each (session_process env) fs) (buf_free s)"
        "split_stream (p @ b) = split_after fs (split_stream (p' @ drop (length b - remain) b))"
      unfolding step_ok_def r by auto
    define b' where "b' = drop (length b - remain) b"
    have "length b' < length b" using st(1) by (simp add: b'_def)
    with 1(1) st(2) obtain u where u: "mwSession_recv env b' t = Some u"
        "buf_free u = exec_state (for_each (session_process env) (fst (split_stream (p' @ b')))) (buf_free t)"
        "framing_ok u (snd (split_stream (p' @ b')))"
      by blast
    have "mwSession_recv env b s = mwSession_recv env b' t"
      using False r by (simp add: mwSession_recv.simps [of env b] b'_def)
    with u st(3,4) show ?thesis
      by (simp add: b'_def [symmetric] split_after_def split_def)
  qed
qed

lemma framing_ok_unique: "framing_ok s p \<Longrightarrow> framing_ok t p \<Longrightarrow> buf_free s = buf_free t \<Longrightarrow> s = t"
  unfolding framing_ok_def buf_free_def by (cases s; cases t) (auto split: if_splits)

lemma framing_ok_buf: "framing_ok s p \<Longrightarrow> ss_buf s = p"
  by (simp add: framing_ok_def)

text \<open>A connection: the pieces are received one after the other.\<close>

fun mwSession_recv_all :: "'c env \<Rightarrow> bytes list \<Rightarrow> 'c mwSession \<Rightarrow> 'c mwSession option" where
  "mwSession_recv_all env [] s = Some s"
| "mwSession_recv_all env (b # bs) s = Option.bind (mwSession_recv env b s) (mwSession_recv_all env bs)"

lemma mwSession_recv_append:
  assumes "env_nobuf env" and "framing_ok s p"
  shows "mwSession_recv env (b @ c) s = Option.bind (mwSession_recv env b s) (mwSession_recv env c)"
proof -
  let ?proc = "\<lambda>fs. exec_state (for_each (session_process env) fs)"
  obtain t where t: "mwSession_recv env b s = Some t"
      "buf_free t = ?proc (fst (split_stream (p @ b))) (buf_free s)" "framing_ok t (snd (split_stream (p @ b)))"
    using mwSession_recv_splits [OF assms] by blast
  obtain u where u: "mwSession_recv env c t = Some u"
      "buf_free u = ?proc (fst (split_stream (snd (split_stream (p @ b)) @ c))) (buf_free t)"
      "framing_ok u (snd (split_stream (snd (split_stream (p @ b)) @ c)))"
    using mwSession_recv_splits [OF assms(1) t(3)] by blast
  obtain v where v: "mwSession_recv env (b @ c) s = Some v"
      "buf_free v = ?proc (fst (split_stream (p @ b @ c))) (buf_free s)" "framing_ok v (snd (split_stream (p @ b @ c)))"
    using mwSession_recv_splits [OF assms] by blast
  have "split_stream (p @ b @ c)
      = split_after (fst (split_stream (p @ b))) (split_stream (snd (split_stream (p @ b)) @ c))"
    using split_stream_append [of "p @ b" c] by simp
  with t u v have "framing_ok v (ss_buf u)" "buf_free v = buf_free u" "framing_ok u (ss_buf u)"
    using framing_ok_buf [OF u(3)] by (simp_all add: split_after_def split_def)
  then have "v = u" by (intro framing_ok_unique [of v "ss_buf u" u])
  with t(1) u(1) v(1) show ?thesis by simp
qed

lemma mwSession_recv_all_concat:
  assumes "env_nobuf env" and "framing_ok s p"
  shows "mwSession_recv_all env pieces s = mwSession_recv env (concat pieces) s"
  using assms(2)
proof (induction pieces arbitrary: s p)
  case Nil
  then show ?case by (simp add: mwSession_recv.simps [of env "[]"])
next
  case (Cons b bs)
  obtain t where "mwSession_recv env b s = Some t" "framing_ok t (snd (split_stream (p @ b)))"
    using mwSession_recv_splits [OF assms(1) Cons.prems] by blast
  with Cons.IH [of t] mwSession_recv_append [OF assms(1) Cons.prems, of b "concat bs"] show ?case by simp
qed

subsection \<open>A message through the connection\<close>

lemma mwSession_render_bytes:
  assumes "mwMessage_valid msg" and "length (mwMessage_wire msg @ mwMessage_tail msg) < 2 ^ 32"
  shows "opaque_bytes (mwSession_render msg) = opaque_wire (mwMessage_wire msg @ mwMessage_tail msg)"
proof -
  let ?o = "mwPutBuffer_finalize (exec_state (mwMessage_put msg) mwPutBuffer_new)"
  have o: "opaque_ok ?o" "opaque_bytes ?o = mwMessage_wire msg @ mwMessage_tail msg"
    using mwMessage.put_opaque_ok [OF assms(1)] mwMessage.put_contents [OF assms(1)] by simp_all
  then have "opaque_valid ?o"
    using assms(2) length_opaque_bytes [OF o(1)] by (simp add: opaque_valid_def)
  with mwOpaque.put_contents [of ?o] o show ?thesis
    by (simp add: mwSession_render_def Let_def)
qed

lemma keepalive_iff: "keepalive c \<longleftrightarrow> bit c 7"
  using and_exp_eq_0_iff_not_bit [of c 7] by (simp add: keepalive_def)

lemma split_stream_keepalive: "keepalive c \<Longrightarrow> split_stream (c # rest) = split_stream rest"
  using split_stream_skip [of "c # rest"] split_stream_skip [of rest] by simp

lemma split_stream_opaque:
  assumes "length bs < 2 ^ 31"
  shows "split_stream (opaque_wire bs @ rest) = split_after [bs] (split_stream rest)"
proof -
  let ?w = "opaque_wire bs @ rest" and ?n = "of_nat (length bs) :: guint32"
  have n: "unat ?n = length bs"
    using assms by (simp add: unsigned_of_nat take_bit_nat_eq_self)
  then have len: "frame_len ?w = length bs"
    by (simp add: opaque_wire_def)
  have "bit ?n 31 = bit (unat ?n) 31"
    by (simp add: bit_unsigned_iff)
  then have "\<not> bit ?n 31"
    using assms unfolding n by (simp add: bit_iff_odd)
  then have "\<not> keepalive (hd ?w)"
    by (simp add: keepalive_iff opaque_wire_def MW32_PUT_def bit_simps)
  then show ?thesis
    using split_stream_frame [of ?w] len by (simp add: opaque_wire_def)
qed

lemma session_process_wire:
  assumes "mwMessage_valid msg"
  shows "session_process env (mwMessage_wire msg @ mwMessage_tail msg)
    = do { e_junk env; session_dispatch env (mwMessage_norm msg) }"
proof -
  have "eval_state (mwMessage_get j) (gbuf True [] (mwMessage_wire msg @ mwMessage_tail msg))
      = Some (mwMessage_norm msg)" for j
    using mwMessage_get_wire [OF assms, of j True "[]" "mwMessage_tail msg"] by simp
  moreover have "mwMessage_wire msg \<noteq> []"
    by (simp add: mwMessage_wire_def mwMessageHead_wire_def MW16_PUT_def)
  ultimately show ?thesis
    by (simp add: session_process_def mwGetBuffer_wrap_gbuf opaque_ok_def opaque_bytes_def)
qed

lemma log_env_nobuf: "env_nobuf log_env"
proof -
  have w: "nobuf (modify (\<lambda>s. s\<lparr>ss_client := ss_client s @ [b]\<rparr>))" for b :: bytes
    by (rule nobuf_modify) (simp add: buf_free_def)
  have "nobuf (e_io_write log_env b)" for b
    unfolding log_env_def by (simp, intro nobuf_intros w)
  then show ?thesis
    by (simp add: env_nobuf_def log_env_def nobuf_return)
qed

lemma framing_ok_zero [simp]: "framing_ok (mwSession_zero c) []"
  by (simp add: buf_free_def mwSession_zero_def)

subsection \<open>Properties\<close>

text \<open>
  C4: from any state of the input buffer the library leaves behind, \<open>mwSession_recv\<close>
  returns on any bytes, processes exactly the messages that \<open>split_stream\<close> finds in the
  buffered bytes followed by the new ones, in order, and buffers the rest.
\<close>

theorem mwSession_recv_correct:
  assumes "env_nobuf env" and "framing_ok s p" and "split_stream (p @ b) = (frames, rest)"
  shows "\<exists>t. mwSession_recv env b s = Some t
    \<and> buf_free t = exec_state (for_each (session_process env) frames) (buf_free s)
    \<and> framing_ok t rest"
  using mwSession_recv_splits [OF assms(1,2), of b] assms(3) by simp

lemma example_split: "split_stream ([] @ [0x80, 0, 0, 0, 1, 42, 0, 0]) = ([[42]], [0, 0])"
  by (simp add: split_stream.simps keepalive_def MW32_GET_def)

theorem mwSession_recv_correct_witness:
  "env_nobuf log_env \<and> framing_ok (mwSession_zero []) []
   \<and> split_stream ([] @ [0x80, 0, 0, 0, 1, 42, 0, 0]) = ([[42]], [0, 0])
   \<and> (\<exists>t. mwSession_recv log_env [0x80, 0, 0, 0, 1, 42, 0, 0] (mwSession_zero []) = Some t
        \<and> buf_free t = exec_state (for_each (session_process log_env) [[42]]) (buf_free (mwSession_zero []))
        \<and> framing_ok t [0, 0])"
  using mwSession_recv_correct [OF log_env_nobuf framing_ok_zero example_split]
  by (intro conjI log_env_nobuf framing_ok_zero example_split)

text \<open>
  C17: how the connection cuts the bytes into pieces does not matter: receiving the
  pieces one after the other ends in the same session state as receiving them at
  once, and both return.
\<close>

theorem mwSession_recv_pieces:
  assumes "env_nobuf env" and "framing_ok s p" and "concat pieces = b"
  shows "mwSession_recv_all env pieces s = mwSession_recv env b s \<and> mwSession_recv env b s \<noteq> None"
  using mwSession_recv_all_concat [OF assms(1,2), of pieces] mwSession_recv_splits [OF assms(1,2), of b]
    assms(3) by auto

theorem mwSession_recv_pieces_witness:
  "env_nobuf log_env \<and> framing_ok (mwSession_zero []) []
   \<and> concat [[0x80, 0, 0], [0], [1, 42, 0], [0]] = [0x80, 0, 0, 0, 1, 42, 0, 0 :: guchar]
   \<and> mwSession_recv_all log_env [[0x80, 0, 0], [0], [1, 42, 0], [0]] (mwSession_zero [])
       = mwSession_recv log_env [0x80, 0, 0, 0, 1, 42, 0, 0] (mwSession_zero [])
   \<and> mwSession_recv log_env [0x80, 0, 0, 0, 1, 42, 0, 0] (mwSession_zero []) \<noteq> None"
  using mwSession_recv_pieces [OF log_env_nobuf framing_ok_zero,
      of "[[0x80, 0, 0], [0], [1, 42, 0], [0]]" "[0x80, 0, 0, 0, 1, 42, 0, 0]"] log_env_nobuf framing_ok_zero
  by simp

end
