(* ===== verification/Invariants.thy ===== *)
theory Invariants
  imports Session
begin

text \<open>
  Invariants of a session, proved once for all of them. The locale \<open>channel_invariant\<close>
  says which elementary changes of the state an invariant must survive; every
  operation of channels and services then keeps it, whatever the callbacks do as long
  as they keep it, too. \<open>session_invariant\<close> adds the state of the session, and with it
  \<open>session_process\<close>. The interpretations are the consistency of the tables of
  channels and of services, the state of the session itself, and the state of the client.
\<close>

subsection \<open>Computations that keep a predicate\<close>

definition keeps :: "('c mwSession \<Rightarrow> bool) \<Rightarrow> ('c, 'a) M \<Rightarrow> bool" where
  "keeps P m \<longleftrightarrow> (\<forall>s. P s \<longrightarrow> P (exec_state m s))"

lemma keepsD: "keeps P m \<Longrightarrow> P s \<Longrightarrow> P (exec_state m s)"
  by (simp add: keeps_def)

lemma keeps_return [keeps_intros]: "keeps P (State_Monad.return x)"
  by (simp add: keeps_def)

lemma keeps_bind [keeps_intros]:
  "keeps P m \<Longrightarrow> (\<And>x. keeps P (k x)) \<Longrightarrow> keeps P (State_Monad.bind m k)"
  by (simp add: keeps_def split_def)

lemma keeps_bind2:
  "keeps P (State_Monad.bind m k) \<Longrightarrow> (\<And>x y. keeps P (r x y))
   \<Longrightarrow> keeps P (State_Monad.bind m (\<lambda>x. State_Monad.bind (k x) (r x)))"
  by (simp add: keeps_def split_def)

lemma keeps_if [keeps_intros]:
  "(c \<Longrightarrow> keeps P m) \<Longrightarrow> (\<not> c \<Longrightarrow> keeps P n) \<Longrightarrow> keeps P (if c then m else n)"
  by simp

lemma keeps_option [keeps_intros]:
  "keeps P m \<Longrightarrow> (\<And>x. y = Some x \<Longrightarrow> keeps P (k x)) \<Longrightarrow> keeps P (case y of None \<Rightarrow> m | Some x \<Rightarrow> k x)"
  by (simp split: option.split)

lemma keeps_prod [keeps_intros]: "(\<And>x z. keeps P (k x z)) \<Longrightarrow> keeps P (case y of (x, z) \<Rightarrow> k x z)"
  by (simp split: prod.split)

lemma keeps_for_each [keeps_intros]: "(\<And>x. keeps P (f x)) \<Longrightarrow> keeps P (for_each f xs)"
  by (induction xs) (simp_all add: keeps_return keeps_bind)

lemma keeps_gets [keeps_intros]: "keeps P (gets f)"
  by (simp add: keeps_def)

lemma keeps_modify: "(\<And>s. P s \<Longrightarrow> P (f s)) \<Longrightarrow> keeps P (modify f)"
  by (simp add: keeps_def)

lemma keeps_optionally: "(\<And>m. h = Some m \<Longrightarrow> keeps P m) \<Longrightarrow> keeps P (optionally h)"
  by (cases h) (simp_all add: keeps_return)

lemma keeps_optionally_map [keeps_intros]:
  "(\<And>h. oh = Some h \<Longrightarrow> keeps P (g h)) \<Longrightarrow> keeps P (optionally (map_option g oh))"
  by (cases oh) (simp_all add: keeps_return)

text \<open>The functions of the environment keep the predicate.\<close>

definition env_keeps :: "('c mwSession \<Rightarrow> bool) \<Rightarrow> 'c env \<Rightarrow> bool" where
  "env_keeps P env \<longleftrightarrow> (\<forall>b. keeps P (e_io_write env b)) \<and> keeps P (e_io_close env)
     \<and> (\<forall>h st i. e_on_stateChange env = Some h \<longrightarrow> keeps P (h st i))
     \<and> (\<forall>m. e_on_setPrivacyInfo env = Some m \<longrightarrow> keeps P m)
     \<and> (\<forall>m. e_on_setUserStatus env = Some m \<longrightarrow> keeps P m)
     \<and> (\<forall>h t. e_on_admin env = Some h \<longrightarrow> keeps P (h t))
     \<and> (\<forall>h a b c. e_on_announce env = Some h \<longrightarrow> keeps P (h a b c))
     \<and> (\<forall>v m. e_start env v = Some m \<longrightarrow> keeps P m) \<and> (\<forall>v m. e_stop env v = Some m \<longrightarrow> keeps P m)
     \<and> (\<forall>v h c m. e_recv_create env v = Some h \<longrightarrow> keeps P (h c m))
     \<and> (\<forall>v h c m. e_recv_accept env v = Some h \<longrightarrow> keeps P (h c m))
     \<and> (\<forall>v h c m. e_recv_destroy env v = Some h \<longrightarrow> keeps P (h c m))
     \<and> (\<forall>v h c t d. e_recv env v = Some h \<longrightarrow> keeps P (h c t d))
     \<and> keeps P (e_time env) \<and> (\<forall>n. keeps P (e_mwKeyRandom env n)) \<and> keeps P (e_dh_random env)
     \<and> keeps P (e_junk env)"

lemma env_keepsU:
  assumes "env_keeps P env"
  shows "keeps P (e_io_write env b)" "keeps P (e_io_close env)" "keeps P (e_time env)"
    "keeps P (e_mwKeyRandom env n)" "keeps P (e_dh_random env)" "keeps P (e_junk env)"
  using assms by (auto simp: env_keeps_def)

lemma env_keepsC:
  assumes "env_keeps P env"
  shows "e_on_stateChange env = Some h1 \<Longrightarrow> keeps P (h1 st i)"
    "e_on_setPrivacyInfo env = Some m1 \<Longrightarrow> keeps P m1" "e_on_setUserStatus env = Some m1 \<Longrightarrow> keeps P m1"
    "e_on_admin env = Some h2 \<Longrightarrow> keeps P (h2 t)" "e_on_announce env = Some h3 \<Longrightarrow> keeps P (h3 a b' c)"
    "e_start env v = Some m1 \<Longrightarrow> keeps P m1" "e_stop env v = Some m1 \<Longrightarrow> keeps P m1"
    "e_recv_create env v = Some h4 \<Longrightarrow> keeps P (h4 ch mc)" "e_recv_accept env v = Some h5 \<Longrightarrow> keeps P (h5 ch ma)"
    "e_recv_destroy env v = Some h6 \<Longrightarrow> keeps P (h6 ch md)" "e_recv env v = Some h7 \<Longrightarrow> keeps P (h7 ch ty d)"
  using assms by (auto simp: env_keeps_def)

subsection \<open>What channels and services keep\<close>

locale channel_invariant =
  fixes P :: "'c mwSession \<Rightarrow> bool"
  assumes frame: "P s \<Longrightarrow> ss_state t = ss_state s \<Longrightarrow> ss_channels t = ss_channels s
      \<Longrightarrow> ss_services t = ss_services s \<Longrightarrow> ss_client t = ss_client s \<Longrightarrow> P t"
    and update: "P s \<Longrightarrow> map_of (ss_channels s) chan = Some ch \<Longrightarrow> ch_id ch' = ch_id ch
      \<Longrightarrow> P (s\<lparr>ss_channels := AList.update chan ch' (ss_channels s)\<rparr>)"
    and insert: "P s \<Longrightarrow> ch_id ch = chan \<Longrightarrow> P (s\<lparr>ss_channels := AList.update chan ch (ss_channels s)\<rparr>)"
    and delete: "P s \<Longrightarrow> P (s\<lparr>ss_channels := AList.delete chan (ss_channels s)\<rparr>)"
    and service: "P s \<Longrightarrow> map_of (ss_services s) v = Some sv
      \<Longrightarrow> P (s\<lparr>ss_services := AList.update v (sv\<lparr>sv_state := st\<rparr>) (ss_services s)\<rparr>)"
begin

lemma keeps_frame:
  "(\<And>s. ss_state (f s) = ss_state s) \<Longrightarrow> (\<And>s. ss_channels (f s) = ss_channels s)
   \<Longrightarrow> (\<And>s. ss_services (f s) = ss_services s) \<Longrightarrow> (\<And>s. ss_client (f s) = ss_client s) \<Longrightarrow> keeps P (modify f)"
  by (rule keeps_modify) (auto intro: frame)

lemma keeps_fault: "keeps P fault"
  unfolding fault_def by (rule keeps_frame) simp_all

lemma keeps_chan_deref: "keeps P (chan_deref c)"
  unfolding chan_deref_def by (intro keeps_intros keeps_fault)

lemma keeps_delete: "keeps P (modify (\<lambda>s. s\<lparr>ss_channels := AList.delete k (ss_channels s)\<rparr>))"
  by (rule keeps_modify) (rule delete)

lemma keeps_chan_update:
  assumes "\<And>ch. ch_id (f ch) = ch_id ch"
  shows "keeps P (chan_update c f)"
  unfolding keeps_def
proof (intro allI impI)
  fix s
  assume P: "P s"
  show "P (exec_state (chan_update c f) s)"
  proof (cases "map_of (ss_channels s) c")
    case None
    with keepsD [OF keeps_fault P] show ?thesis
      by (simp add: chan_update_def chan_deref_def split_def) (simp add: fault_def)
  next
    case (Some ch)
    with update [OF P Some, of "f ch"] assms show ?thesis
      by (simp add: chan_update_def chan_deref_def)
  qed
qed

lemmas keeps_base = keeps_fault keeps_chan_deref keeps_chan_update keeps_delete

lemma keeps_properties:
  "keeps P (property_set k v)" "keeps P (property_uint k)" "keeps P (property_str k)"
proof -
  show "keeps P (property_set k v)"
    unfolding property_set_def by (rule keeps_frame) simp_all
  show "keeps P (property_uint k)" "keeps P (property_str k)"
    unfolding property_uint_def property_str_def property_get_def by (intro keeps_intros)+
qed

lemma keeps_tables:
  "keeps P mwSession_getState" "keeps P (mwSession_getService v)" "keeps P (mwSession_getServices env)"
  "keeps P (mwSession_getCipher cid)" "keeps P (mwSession_getCiphers env)" "keeps P (mwChannel_find c)"
  unfolding mwSession_getState_def mwSession_getService_def mwSession_getServices_def
    mwSession_getCipher_def mwSession_getCiphers_def mwChannel_find_def by (rule keeps_gets)+

lemma keeps_send:
  assumes "env_keeps P env"
  shows "keeps P (SET_USER_STATUS_recv env m)" "keeps P (mwSession_send env msg)"
proof -
  note U = env_keepsU [OF assms] and C = env_keepsC [OF assms]
  have stat: "keeps P (modify (\<lambda>s. s\<lparr>ss_status := f (ss_status s)\<rparr>))" for f
    by (rule keeps_frame) simp_all
  show u: "keeps P (SET_USER_STATUS_recv env m)" for m
    unfolding SET_USER_STATUS_recv_def by (intro keeps_intros stat keeps_optionally; erule C)
  have sent: "keeps P (case msg of SetUserStatus m \<Rightarrow> SET_USER_STATUS_recv env m | _ \<Rightarrow> State_Monad.return ())"
    by (cases msg) (simp_all add: u keeps_return)
  show "keeps P (mwSession_send env msg)"
    unfolding mwSession_send_def by (intro keeps_intros U sent)
qed

lemma keeps_service_state:
  "keeps P (service_set_state v st)" "keeps P (mwService_getState v)"
  "keeps P (mwService_started v)" "keeps P (mwService_stopped v)"
proof -
  show set: "keeps P (service_set_state v st)" for st
    unfolding service_set_state_def by (rule keeps_modify) (auto split: option.split intro: service)
  show get: "keeps P (mwService_getState v)"
    unfolding mwService_getState_def by (intro keeps_intros keeps_tables)
  show "keeps P (mwService_started v)" "keeps P (mwService_stopped v)"
    unfolding mwService_started_def mwService_stopped_def by (intro keeps_intros set get)+
qed

lemma keeps_service:
  assumes "env_keeps P env"
  shows "keeps P (mwService_start env v)" "keeps P (mwService_stop env v)" "keeps P (mwService_error env v)"
proof -
  note U = env_keepsU [OF assms] and C = env_keepsC [OF assms]
  show "keeps P (mwService_start env v)" "keeps P (mwService_stop env v)" "keeps P (mwService_error env v)"
    unfolding mwService_start_def mwService_started_def mwService_stop_def mwService_error_def
      mwService_stopped_def
    by ((intro keeps_intros keeps_service_state keeps_tables; erule C)+)
qed

lemma keeps_channel_local:
  "keeps P (channel_state c st)" "keeps P (set_stat c fld v)" "keeps P (incr_stat c fld v)"
  "keeps P (instance_cipher ci)" "keeps P (get_supported c cid)" "keeps P (put_supported c ci)"
  "keeps P (mwChannel_selectCipherInstance c cio)" "keeps P (mwChannel_getSupportedCipherInstances env c)"
  "keeps P (session_newInstance k)" "keeps P (mwChannel_getService c)" "keeps P (queue_incoming c m)"
  "keeps P (queue_outgoing c m)" "keeps P (channel_decrypt c d)" "keeps P (channel_encrypt c ci d)"
  unfolding channel_state_def set_stat_def incr_stat_def instance_cipher_def get_supported_def put_supported_def
    mwChannel_selectCipherInstance_def mwChannel_getSupportedCipherInstances_def session_newInstance_def
    mwChannel_getService_def queue_incoming_def queue_outgoing_def channel_decrypt_def channel_encrypt_def Let_def
  by ((intro keeps_intros keeps_base keeps_tables keeps_frame; simp)+)

lemma keeps_newIncoming: "keeps P (mwChannel_newIncoming c)"
proof -
  have new: "keeps P (modify (\<lambda>s. s\<lparr>ss_channels := AList.update c
      (mwChannel_zero\<lparr>ch_state := mwChannel_NEW, ch_id := c, ch_supported := Some []\<rparr>) (ss_channels s)\<rparr>))"
    by (rule keeps_modify) (simp add: insert)
  show ?thesis
    unfolding mwChannel_newIncoming_def by (intro keeps_intros new keeps_channel_local)
qed

lemma keeps_newOutgoing: "keeps P mwChannel_newOutgoing"
proof -
  have counter: "keeps P (modify (\<lambda>s. s\<lparr>ss_counter := n\<rparr>))" for n
    by (rule keeps_frame) simp_all
  show ?thesis
    unfolding mwChannel_newOutgoing_def by (intro keeps_intros counter keeps_newIncoming keeps_channel_local)
qed

lemmas keeps_small = keeps_base keeps_properties keeps_tables keeps_channel_local keeps_newIncoming

lemma keeps_channel:
  assumes "env_keeps P env"
  shows "keeps P (mwChannel_destroy env c r o')" "keeps P (mwService_recv env srv c t d)"
    "keeps P (channel_recv env c m)" "keeps P (flush_channel env c)" "keeps P (channel_open env c)"
    "keeps P (mwChannel_recv env c m)" "keeps P (channel_reject env c r)"
    "keeps P (mwChannel_sendEncrypted env c ty d e)"
proof -
  note U = env_keepsU [OF assms] and C = env_keepsC [OF assms]
  note S = keeps_small keeps_send [OF assms]
  show ds: "keeps P (mwChannel_destroy env c r o')" for r o'
    unfolding mwChannel_destroy_def Let_def by (intro keeps_intros S)
  show r: "keeps P (mwService_recv env srv c t d)" for srv t d
    unfolding mwService_recv_def by (intro keeps_intros U; erule C)
  show cr: "keeps P (channel_recv env c m)" for m
    unfolding channel_recv_def by (intro keeps_intros r S)
  show fl: "keeps P (flush_channel env c)"
    unfolding flush_channel_def by (intro keeps_intros cr S; simp)
  show "keeps P (channel_open env c)"
    unfolding channel_open_def timestamp_stat_def by (intro keeps_intros fl U S)
  show "keeps P (mwChannel_recv env c m)"
    unfolding mwChannel_recv_def by (intro keeps_intros cr S)
  show "keeps P (channel_reject env c r)"
    unfolding channel_reject_def by (intro keeps_intros ds)
  show "keeps P (mwChannel_sendEncrypted env c ty d e)"
    unfolding mwChannel_sendEncrypted_def channel_send_def Let_def by (intro keeps_intros S)
qed

lemma keeps_negotiation:
  assumes "env_keeps P env"
  shows "keeps P (mwChannel_create env c)" "keeps P (mwChannel_accept env c)"
proof -
  note S = keeps_small keeps_send [OF assms] keeps_channel [OF assms]
  have off: "keeps P (offer_items cis)" for cis
    unfolding offer_items_def by (rule keeps_gets)
  show "keeps P (mwChannel_create env c)"
    unfolding mwChannel_create_def Let_def by (intro keeps_intros off S; simp)
  have item: "keeps P (accept_item c ci)" for ci
    unfolding accept_item_def by (intro keeps_intros S; simp)
  have sel: "keeps P (accept_select env c pol)" for pol
    unfolding accept_select_def by (intro keeps_intros S)
  show "keeps P (mwChannel_accept env c)"
    unfolding mwChannel_accept_def by (intro keeps_intros sel item S)
qed

lemma keeps_channel_messages:
  assumes "env_keeps P env"
  shows "keeps P (CHANNEL_CREATE_recv env mc)" "keeps P (CHANNEL_ACCEPT_recv env ma)"
    "keeps P (mwChannel_recvDestroy env c md)" "keeps P (CHANNEL_SEND_recv env ms)"
proof -
  note U = env_keepsU [OF assms] and C = env_keepsC [OF assms]
  note S = keeps_small keeps_send [OF assms] keeps_channel [OF assms]
  have ro: "keeps P (recv_offer c ei)" for c ei
    unfolding recv_offer_def mwChannel_addSupportedCipherInstance_def by (intro keeps_intros S)
  have user: "keeps P (chan_update c (\<lambda>ch. ch\<lparr>ch_user := f (ch_user ch), ch_service := v,
      ch_proto_type := pt, ch_proto_ver := pv\<rparr>))" for c f v pt pv
    by (rule keeps_chan_update) simp
  show "keeps P (CHANNEL_CREATE_recv env mc)"
    unfolding CHANNEL_CREATE_recv_def mwChannel_recvCreate_def mwService_recvCreate_def
    by (intro keeps_intros ro user S; (erule C | simp))
  have af: "keeps P (accept_finish env srv c ma)" for srv c
    unfolding accept_finish_def mwService_recvAccept_def by (intro keeps_intros S; erule C)
  show "keeps P (CHANNEL_ACCEPT_recv env ma)"
    unfolding CHANNEL_ACCEPT_recv_def mwChannel_recvAccept_def by (intro keeps_intros af S; simp)
  show "keeps P (mwChannel_recvDestroy env c md)"
    unfolding mwChannel_recvDestroy_def mwService_recvDestroy_def by (intro keeps_intros S; erule C)
  show "keeps P (CHANNEL_SEND_recv env ms)"
    unfolding CHANNEL_SEND_recv_def by (intro keeps_intros S)
qed

text \<open>The messages whose handlers do not touch the state of the session.\<close>

lemma keeps_other_messages:
  assumes "env_keeps P env"
  shows "keeps P (SET_PRIVACY_LIST_recv env mp)" "keeps P (SENSE_SERVICE_recv env mn)"
    "keeps P (ADMIN_recv env md)" "keeps P (ANNOUNCE_recv env mo)"
    "keeps P (compose_auth_rc2_40 env pw)" "keeps P (compose_auth_rc2_128 env pw mg k)"
    "keeps P (session_buf_free)"
    "keeps P (modify (\<lambda>s. s\<lparr>ss_login := f (ss_login s)\<rparr>))"
proof -
  note U = env_keepsU [OF assms] and C = env_keepsC [OF assms]
  note S = keeps_small keeps_service [OF assms]
  have privacy: "keeps P (modify (\<lambda>s. s\<lparr>ss_privacy := v\<rparr>))" for v
    by (rule keeps_frame) simp_all
  show "keeps P (SET_PRIVACY_LIST_recv env mp)"
    unfolding SET_PRIVACY_LIST_recv_def by (intro keeps_intros privacy keeps_optionally; erule C)
  show "keeps P (SENSE_SERVICE_recv env mn)"
    unfolding SENSE_SERVICE_recv_def by (intro keeps_intros S)
  show "keeps P (ADMIN_recv env md)" "keeps P (ANNOUNCE_recv env mo)"
    unfolding ADMIN_recv_def ANNOUNCE_recv_def by ((intro keeps_intros; erule C)+)
  show "keeps P (compose_auth_rc2_40 env pw)" "keeps P (compose_auth_rc2_128 env pw mg k)"
    unfolding compose_auth_rc2_40_def compose_auth_rc2_128_def Let_def by (intro keeps_intros S U)+
  show "keeps P session_buf_free" "keeps P (modify (\<lambda>s. s\<lparr>ss_login := f (ss_login s)\<rparr>))"
    unfolding session_buf_free_def by (rule keeps_frame; simp)+
qed

end

subsection \<open>What a session keeps\<close>

locale session_invariant = channel_invariant +
  assumes state: "P s \<Longrightarrow> P (s\<lparr>ss_state := st, ss_state_info := info\<rparr>)"
begin

lemma keeps_state:
  assumes "env_keeps P env"
  shows "keeps P (session_state env st i)" "keeps P (mwSession_stop env r)"
proof -
  note U = env_keepsU [OF assms] and C = env_keepsC [OF assms]
  note S = keeps_tables keeps_service [OF assms] keeps_send [OF assms] keeps_other_messages [OF assms]
  have set: "keeps P (modify (\<lambda>s. s\<lparr>ss_state := st, ss_state_info := i\<rparr>))" for st i
    by (rule keeps_modify) (rule state)
  show st: "keeps P (session_state env st i)" for st i
    unfolding session_state_def by (intro keeps_intros set keeps_tables; erule C)
  show "keeps P (mwSession_stop env r)"
    unfolding mwSession_stop_def by (intro keeps_intros st S U)
qed

lemma keeps_process:
  assumes "env_keeps P env"
  shows "keeps P (session_process env b)"
proof -
  note U = env_keepsU [OF assms]
  note S = keeps_state [OF assms] keeps_small keeps_service [OF assms] keeps_send [OF assms]
    keeps_channel_messages [OF assms] keeps_other_messages [OF assms]
  have "keeps P (HANDSHAKE_ACK_recv env m)" for m
    unfolding HANDSHAKE_ACK_recv_def Let_def by (intro keeps_intros S)
  moreover have "keeps P (LOGIN_REDIRECT_recv env m)" for m
    unfolding LOGIN_REDIRECT_recv_def by (intro S)
  moreover have "keeps P (LOGIN_ACK_recv env m)" for m
    unfolding LOGIN_ACK_recv_def by (intro keeps_intros S)
  moreover have "keeps P (CHANNEL_DESTROY_recv env m)" for m
    unfolding CHANNEL_DESTROY_recv_def by (intro keeps_intros S)
  ultimately have "keeps P (session_dispatch env msg)" for msg
    by (cases msg) (simp_all add: S keeps_return)
  note dispatch = this
  show ?thesis
    unfolding session_process_def by (intro keeps_intros dispatch U)
qed

end

subsection \<open>The tables\<close>

text \<open>Every channel is found under its own ID, every service under its own type, once.\<close>

definition channels_ok :: "'c mwSession \<Rightarrow> bool" where
  "channels_ok s \<longleftrightarrow> distinct (map fst (ss_channels s)) \<and> (\<forall>(k, ch) \<in> set (ss_channels s). ch_id ch = k)"

definition services_ok :: "'c mwSession \<Rightarrow> bool" where
  "services_ok s \<longleftrightarrow> distinct (map fst (ss_services s)) \<and> (\<forall>(k, sv) \<in> set (ss_services s). sv_type sv = k)"

lemma in_update: "(k, v) \<in> set (AList.update k' v' al) \<Longrightarrow> (k = k' \<and> v = v') \<or> (k, v) \<in> set al"
  by (induction al) (auto split: if_splits)

lemma in_delete: "x \<in> set (AList.delete k al) \<Longrightarrow> x \<in> set al"
  by (induction al) (auto split: if_splits)

interpretation channels: session_invariant channels_ok
proof
  show "channels_ok (s\<lparr>ss_channels := AList.update chan ch' (ss_channels s)\<rparr>)"
    if "channels_ok s" "map_of (ss_channels s) chan = Some ch" "ch_id ch' = ch_id ch"
    for s :: "'a mwSession" and chan ch ch'
    using that map_of_SomeD [OF that(2)] by (auto simp: channels_ok_def distinct_update dest!: in_update)
  show "channels_ok (s\<lparr>ss_channels := AList.update chan ch (ss_channels s)\<rparr>)"
    if "channels_ok s" "ch_id ch = chan" for s :: "'a mwSession" and chan ch
    using that by (auto simp: channels_ok_def distinct_update dest!: in_update)
  show "channels_ok (s\<lparr>ss_channels := AList.delete chan (ss_channels s)\<rparr>)"
    if "channels_ok s" for s :: "'a mwSession" and chan
    using that by (auto simp: channels_ok_def distinct_delete dest!: in_delete)
qed (auto simp: channels_ok_def)

interpretation services: session_invariant services_ok
proof
  show "services_ok (s\<lparr>ss_services := AList.update v (sv\<lparr>sv_state := st\<rparr>) (ss_services s)\<rparr>)"
    if "services_ok s" "map_of (ss_services s) v = Some sv" for s :: "'a mwSession" and v sv st
    using that map_of_SomeD [OF that(2)] by (auto simp: services_ok_def distinct_update dest!: in_update)
qed (auto simp: services_ok_def)

interpretation state: channel_invariant "\<lambda>s. ss_state s = st" for st
  by unfold_locales auto

text \<open>What is the client's own is only changed by the client.\<close>

interpretation client: session_invariant "\<lambda>s. Q (ss_client s)" for Q
  by unfold_locales simp_all

end
