(* ===== verification/Lifecycle.thy ===== *)
theory Lifecycle
  imports Invariants
begin

text \<open>
  The life of a session: which message moves it from which state to which, that a
  login ends in a started session with its services running, that stopping stops
  everything, and that no sequence of calls breaks the tables of channels and services.
\<close>

subsection \<open>Well-behaved clients\<close>

text \<open>
  Writing, closing and being told about a new state only concern the client's own
  data; none of the callbacks starts or stops the session; traversing a hash table
  visits every key.
\<close>

definition quiet_io :: "'c env \<Rightarrow> bool" where
  "quiet_io env \<longleftrightarrow> (\<forall>b. client_only (e_io_write env b)) \<and> client_only (e_io_close env)
     \<and> (\<forall>h st i. e_on_stateChange env = Some h \<longrightarrow> client_only (h st i))"

definition env_stateless :: "'c env \<Rightarrow> bool" where
  "env_stateless env \<longleftrightarrow> (\<forall>st. env_keeps (\<lambda>s. ss_state s = st) env)"

definition visits_all :: "'c env \<Rightarrow> bool" where
  "visits_all env \<longleftrightarrow> (\<forall>ks. set (e_order env ks) = set ks)"

subsection \<open>The state machine\<close>

text \<open>The states a session may be in after a message.\<close>

fun session_next :: "mwMessage \<Rightarrow> mwSessionState \<Rightarrow> mwSessionState set" where
  "session_next (HandshakeAck m) st =
     (if st = mwSession_HANDSHAKE then {mwSession_HANDSHAKE_ACK, mwSession_LOGIN}
      else if st = mwSession_LOGIN_CONT then {mwSession_LOGIN} else {st})"
| "session_next (LoginRedirect m) st = {mwSession_LOGIN_REDIR}"
| "session_next (LoginAck m) st = (if st = mwSession_LOGIN then {mwSession_STARTED} else {st})"
| "session_next (ChannelDestroy m) st =
     (if mh_channel (cd_head m) = MW_MASTER_CHANNEL_ID \<and> st \<noteq> mwSession_STOPPING then {mwSession_STOPPED} else {st})"
| "session_next _ st = {st}"

lemma stateless_exec:
  "(\<And>st. keeps (\<lambda>s. ss_state s = st) m) \<Longrightarrow> ss_state (exec_state m s) = ss_state s"
  unfolding keeps_def by blast

lemma stateless_state_change:
  assumes "env_stateless env"
  shows "ss_state (exec_state (session_state env st i) s) = st"
proof -
  have "keeps (\<lambda>s. ss_state s = st) (optionally (map_option (\<lambda>h. h st i) (e_on_stateChange env)))" for st'
    using assms env_keepsC(1) unfolding env_stateless_def by (intro keeps_optionally_map) blast
  then show ?thesis
    by (simp add: session_state_def mwSession_getState_def keeps_def)
qed

lemma stateless_ops:
  assumes "env_stateless env"
  shows "ss_state (exec_state (property_set k v) s) = ss_state s"
    "ss_state (exec_state (property_uint k) s) = ss_state s"
    "ss_state (exec_state (property_str k) s) = ss_state s"
    "ss_state (exec_state (mwSession_send env msg) s) = ss_state s"
    "ss_state (exec_state (mwService_start env w) s) = ss_state s"
    "ss_state (exec_state (for_each (mwService_start env) ws) s) = ss_state s"
    "ss_state (exec_state (compose_auth_rc2_40 env pw) s) = ss_state s"
    "ss_state (exec_state (compose_auth_rc2_128 env pw mg rk) s) = ss_state s"
  using assms unfolding env_stateless_def
  by (auto intro!: stateless_exec state.keeps_properties state.keeps_send state.keeps_service
      state.keeps_other_messages keeps_intros)

lemma mwSession_stop_STOPPED:
  assumes "env_stateless env" and "ss_state s \<noteq> mwSession_STOPPING"
  shows "ss_state (exec_state (mwSession_stop env r) s) = mwSession_STOPPED"
  using assms
  by (simp add: mwSession_stop_def mwSession_getState_def split_def stateless_state_change)

lemma HANDSHAKE_ACK_next:
  assumes "env_stateless env"
  shows "ss_state (exec_state (HANDSHAKE_ACK_recv env m) s) \<in> session_next (HandshakeAck m) (ss_state s)"
proof -
  note run = HANDSHAKE_ACK_recv_def mwSession_getState_def split_def Let_def
    stateless_state_change [OF assms] stateless_ops [OF assms]
  consider "ss_state s = mwSession_HANDSHAKE" | "ss_state s = mwSession_LOGIN_CONT"
    | "ss_state s \<noteq> mwSession_HANDSHAKE" "ss_state s \<noteq> mwSession_LOGIN_CONT" by blast
  then show ?thesis
    by cases (simp_all add: run)
qed

lemma LOGIN_ACK_next:
  assumes "env_stateless env"
  shows "ss_state (exec_state (LOGIN_ACK_recv env m) s) \<in> session_next (LoginAck m) (ss_state s)"
  using assms by (simp add: LOGIN_ACK_recv_def mwSession_getState_def mwSession_getServices_def split_def
      stateless_state_change)

lemma CHANNEL_DESTROY_next:
  assumes "env_stateless env"
  shows "ss_state (exec_state (CHANNEL_DESTROY_recv env m) s) \<in> session_next (ChannelDestroy m) (ss_state s)"
proof (cases "mh_channel (cd_head m) = MW_MASTER_CHANNEL_ID")
  case True
  then show ?thesis
    using mwSession_stop_STOPPED [OF assms, of s "cd_reason m"]
    by (auto simp: CHANNEL_DESTROY_recv_def mwSession_stop_def mwSession_getState_def)
next
  case False
  have "keeps (\<lambda>s. ss_state s = st) (CHANNEL_DESTROY_recv env m)" for st
    using assms False unfolding env_stateless_def CHANNEL_DESTROY_recv_def
    by (auto intro!: keeps_intros state.keeps_tables state.keeps_channel_messages)
  with False show ?thesis by (simp add: stateless_exec)
qed

lemma session_dispatch_next:
  assumes "env_stateless env"
  shows "ss_state (exec_state (session_dispatch env msg) s) \<in> session_next msg (ss_state s)"
proof -
  have K: "env_keeps (\<lambda>s. ss_state s = st) env" for st
    using assms by (simp add: env_stateless_def)
  note S = state.keeps_channel_messages [OF K] state.keeps_other_messages [OF K] state.keeps_send [OF K]
  note L = HANDSHAKE_ACK_next LOGIN_ACK_next CHANNEL_DESTROY_next
  show ?thesis
    using L [OF assms] assms
    by (cases msg) (simp_all add: stateless_exec S LOGIN_REDIRECT_recv_def stateless_state_change)
qed

subsection \<open>All services\<close>

lemma mwService_absent [simp]:
  "srv_state s v = None \<Longrightarrow> run_state (mwService_stop env v) s = ((), s)"
  "srv_state s v = None \<Longrightarrow> run_state (mwService_start env v) s = ((), s)"
  by (simp_all add: mwService_stop_def mwService_start_def srv_state_None_iff)

definition srv_dead :: "mwServiceState option \<Rightarrow> bool" where
  "srv_dead o' \<longleftrightarrow> (case o' of None \<Rightarrow> True | Some st \<Rightarrow> MW_SERVICE_IS_DEAD st)"

definition srv_live :: "mwServiceState option \<Rightarrow> bool" where
  "srv_live o' \<longleftrightarrow> (case o' of None \<Rightarrow> False | Some st \<Rightarrow> MW_SERVICE_IS_LIVE st)"

lemma stop_all:
  assumes "\<And>v. stop_contract env v" and "v \<in> set vs \<or> srv_dead (srv_state s v)"
  shows "srv_dead (srv_state (exec_state (for_each (mwService_stop env) vs) s) v)"
  using assms(2)
proof (induction vs arbitrary: s)
  case Nil
  then show ?case by simp
next
  case (Cons w vs)
  define t where "t = exec_state (mwService_stop env w) s"
  have "v \<in> set vs \<or> srv_dead (srv_state t v)"
  proof (cases "srv_state s w")
    case None
    with Cons.prems show ?thesis by (auto simp: t_def srv_dead_def)
  next
    case (Some st)
    from mwService_stop_state [OF assms(1) Some] Cons.prems show ?thesis
      by (auto simp: t_def srv_dead_def split: if_splits)
  qed
  with Cons.IH [of t] show ?case by (simp add: t_def split_def)
qed

lemma start_all:
  assumes "\<And>v. start_contract env v"
    and "v \<in> set vs \<and> srv_state s v = Some mwServiceState_STOPPED \<or> srv_live (srv_state s v)"
  shows "srv_live (srv_state (exec_state (for_each (mwService_start env) vs) s) v)"
  using assms(2)
proof (induction vs arbitrary: s)
  case Nil
  then show ?case by simp
next
  case (Cons w vs)
  define t where "t = exec_state (mwService_start env w) s"
  have "v \<in> set vs \<and> srv_state t v = Some mwServiceState_STOPPED \<or> srv_live (srv_state t v)"
  proof (cases "srv_state s w")
    case None
    with Cons.prems show ?thesis by (auto simp: t_def srv_live_def)
  next
    case (Some st)
    from mwService_start_state [OF assms(1) Some] Cons.prems show ?thesis
      by (auto simp: t_def srv_live_def Some split: if_splits)
  qed
  with Cons.IH [of t] show ?case by (simp add: t_def split_def)
qed

lemma quiet_session_state:
  assumes "quiet_io env"
  shows "\<exists>st' i' c. exec_state (session_state env st i) s = s\<lparr>ss_state := st', ss_state_info := i', ss_client := c\<rparr> \<and> st' = st"
proof (cases "ss_state s = st")
  case True
  then show ?thesis
    by (auto simp: session_state_def mwSession_getState_def intro!: exI [of _ "ss_state_info s"] exI [of _ "ss_client s"])
next
  case False
  let ?s = "s\<lparr>ss_state := st, ss_state_info := i\<rparr>"
  have "client_only (optionally (map_option (\<lambda>h. h st i) (e_on_stateChange env)))"
    using assms by (cases "e_on_stateChange env") (auto simp: quiet_io_def)
  from client_only_run [OF this refl, of ?s] False show ?thesis
    by (simp add: session_state_def mwSession_getState_def) (metis snd_conv)
qed

lemma srv_state_frame: "ss_services t = ss_services s \<Longrightarrow> srv_state t = srv_state s"
  by (simp add: srv_state_def fun_eq_iff)

lemma quiet_state_frame:
  assumes "quiet_io env"
  shows "srv_state (exec_state (session_state env st i) s) = srv_state s"
    "ss_services (exec_state (session_state env st i) s) = ss_services s"
    "ss_buf (exec_state (session_state env st i) s) = ss_buf s"
    "ss_buf_len (exec_state (session_state env st i) s) = ss_buf_len s"
    "ss_state (exec_state (session_state env st i) s) = st"
  using quiet_session_state [OF assms, of st i s] by (auto intro: srv_state_frame)

lemma client_only_frame:
  assumes "client_only m"
  shows "srv_state (exec_state m s) = srv_state s" "ss_services (exec_state m s) = ss_services s"
    "ss_buf (exec_state m s) = ss_buf s" "ss_buf_len (exec_state m s) = ss_buf_len s"
    "ss_state (exec_state m s) = ss_state s"
  using client_only_run [OF assms refl, of s]
  by (metis (no_types, lifting) mwSession.ext_inject mwSession.surjective mwSession.update_convs(13) snd_conv srv_state_frame)+

lemma client_only_send_destroy:
  assumes "quiet_io env"
  shows "client_only (mwSession_send env (ChannelDestroy m))"
  using assms unfolding mwSession_send_def quiet_io_def by (auto intro!: client_only_bind)

subsection \<open>Properties\<close>

text \<open>
  C22: stopping a session that is not stopped leaves it in state \<open>STOPPED\<close> with an empty
  input buffer and every service stopping or stopped, whatever state it was in.
\<close>

theorem mwSession_stop_complete:
  assumes "quiet_io env" and "visits_all env" and "\<And>v. stop_contract env v"
    and "ss_state s \<noteq> mwSession_STOPPED" and "ss_state s \<noteq> mwSession_STOPPING"
    and "t = exec_state (mwSession_stop env reason) s"
  shows "ss_state t = mwSession_STOPPED \<and> ss_buf t = [] \<and> ss_buf_len t = 0 \<and> (\<forall>v. srv_dead (srv_state t v))"
proof -
  note frame = quiet_state_frame [OF assms(1)]
  define s1 where "s1 = exec_state (session_state env mwSession_STOPPING (Info_uint reason)) s"
  define s2 where "s2 = exec_state (for_each (mwService_stop env) (e_order env (map fst (ss_services s)))) s1"
  have dead: "srv_dead (srv_state s2 v)" for v
  proof -
    have "v \<in> set (e_order env (map fst (ss_services s))) \<or> srv_dead (srv_state s1 v)"
    proof (cases "srv_state s v")
      case None
      then show ?thesis by (simp add: s1_def frame srv_dead_def)
    next
      case (Some st)
      then have "v \<in> fst ` set (ss_services s)"
        by (auto simp: srv_state_def dest: map_of_SomeD intro: rev_image_eqI)
      with assms(2) show ?thesis by (simp add: visits_all_def)
    qed
    with stop_all [OF assms(3)] show ?thesis by (simp add: s2_def)
  qed
  have io: "client_only (e_io_close env)" using assms(1) by (simp add: quiet_io_def)
  note send = client_only_frame [OF client_only_send_destroy [OF assms(1)]] and close = client_only_frame [OF io]
  define d where "d = (CHANNEL_DESTROY_zero ((msg_head mwMessage_CHANNEL_DESTROY)\<lparr>mh_channel := MW_MASTER_CHANNEL_ID\<rparr>))\<lparr>cd_reason := reason\<rparr>"
  have "t = exec_state (do { mwSession_send env (ChannelDestroy d); session_buf_free; e_io_close env;
      session_state env mwSession_STOPPED (Info_uint reason) }) s2"
    using assms(4,5) by (simp add: assms(6) mwSession_stop_def mwSession_getState_def mwSession_getServices_def split_def
        s2_def s1_def d_def frame)
  with dead show ?thesis
    by (simp add: split_def frame close session_buf_free_def srv_state_def) (simp add: srv_state_def [symmetric] send)
qed

lemma log_env_keeps:
  assumes "\<And>b. keeps P (e_io_write log_env b)"
  shows "env_keeps P log_env"
  using assms by (simp add: env_keeps_def log_env_def keeps_return)

lemma log_env_well_behaved:
  "quiet_io log_env" "visits_all log_env" "env_stateless log_env"
proof -
  show "quiet_io log_env"
    using log_env_client_only by (auto simp: quiet_io_def) (simp_all add: log_env_def)
  show "visits_all log_env"
    by (simp add: visits_all_def log_env_def)
  have "keeps (\<lambda>s. ss_state s = st) (e_io_write log_env b)" for st b
    by (simp add: keeps_def log_env_def)
  then show "env_stateless log_env"
    unfolding env_stateless_def by (auto intro: log_env_keeps)
qed

definition example_started :: "bytes list mwSession" where
  "example_started = example_services\<lparr>ss_state := mwSession_STARTED, ss_buf := [0, 0], ss_buf_len := 4\<rparr>"

theorem mwSession_stop_complete_witness:
  "quiet_io log_env \<and> visits_all log_env \<and> (\<forall>v. stop_contract log_env v)
   \<and> ss_state example_started \<noteq> mwSession_STOPPED \<and> ss_state example_started \<noteq> mwSession_STOPPING
   \<and> ss_state (exec_state (mwSession_stop log_env 0) example_started) = mwSession_STOPPED
   \<and> ss_buf (exec_state (mwSession_stop log_env 0) example_started) = []
   \<and> ss_buf_len (exec_state (mwSession_stop log_env 0) example_started) = 0
   \<and> (\<forall>v. srv_dead (srv_state (exec_state (mwSession_stop log_env 0) example_started) v))"
proof -
  have st: "ss_state example_started \<noteq> mwSession_STOPPED" "ss_state example_started \<noteq> mwSession_STOPPING"
    by (simp_all add: example_started_def)
  show ?thesis
    using mwSession_stop_complete [OF log_env_well_behaved(1,2) log_env_contracts(2) st refl, of 0]
      st log_env_well_behaved(1,2) log_env_contracts(2) by (intro conjI allI) simp_all
qed

text \<open>
  C20: the state machine of the session. Every message, whatever its contents, moves the
  session only along the edges of \<open>session_next\<close>: in particular a session is started by
  the acknowledgement of a login it sent and by nothing else, and a stopped session
  stays stopped unless the server redirects its login.
\<close>

theorem session_dispatch_transitions:
  assumes "env_stateless env"
  shows "ss_state (exec_state (session_dispatch env msg) s) \<in> session_next msg (ss_state s)"
  using assms by (rule session_dispatch_next)

theorem session_dispatch_transitions_witness:
  "env_stateless log_env
   \<and> ss_state (exec_state (session_dispatch log_env (LoginContinue \<lparr>lc_head = msg_head mwMessage_LOGIN_CONTINUE\<rparr>))
       example_started) \<in> session_next (LoginContinue \<lparr>lc_head = msg_head mwMessage_LOGIN_CONTINUE\<rparr>) mwSession_STARTED"
  using session_dispatch_transitions [OF log_env_well_behaved(3),
      of "LoginContinue \<lparr>lc_head = msg_head mwMessage_LOGIN_CONTINUE\<rparr>" example_started] log_env_well_behaved(3)
  by (simp add: example_started_def)

lemma mwSession_start_HANDSHAKE:
  assumes "env_stateless env" and "\<And>b s. eval_state (e_io_write env b) s = 0" and "ss_state s = mwSession_STOPPED"
  shows "ss_state (exec_state (mwSession_start env) s) = mwSession_HANDSHAKE"
  using assms(3) by (simp add: mwSession_start_def mwSession_getState_def split_def Let_def assms(2) mwSession_send_def
      stateless_state_change [OF assms(1)])

lemma HANDSHAKE_ACK_LOGIN:
  assumes "env_stateless env" and "\<And>b s. eval_state (e_io_write env b) s = 0" and "ss_state s = mwSession_HANDSHAKE"
  shows "ss_state (exec_state (HANDSHAKE_ACK_recv env m) s) = mwSession_LOGIN"
  using assms(3) by (simp add: HANDSHAKE_ACK_recv_def mwSession_getState_def split_def Let_def assms(2) mwSession_send_def
      stateless_state_change [OF assms(1)])

lemma LOGIN_ACK_services:
  assumes "quiet_io env" and "visits_all env" and "\<And>v. start_contract env v"
    and "ss_state s = mwSession_LOGIN" and "srv_state s v = Some mwServiceState_STOPPED"
  shows "srv_live (srv_state (exec_state (LOGIN_ACK_recv env m) s) v)"
proof -
  note frame = quiet_state_frame [OF assms(1)]
  define s1 where "s1 = exec_state (session_state env mwSession_LOGIN_ACK (Info_uint 0))
      (s\<lparr>ss_login := mwLoginInfo_clone (mwLoginInfo_clear (ss_login s)) (la_login m)\<rparr>)"
  have s1: "srv_state s1 v = Some mwServiceState_STOPPED" "ss_services s1 = ss_services s"
    using assms(5) by (simp_all add: s1_def frame) (simp add: srv_state_def)
  have "v \<in> fst ` set (ss_services s)"
    using assms(5) by (auto simp: srv_state_def dest: map_of_SomeD intro: rev_image_eqI)
  then have "srv_live (srv_state (exec_state (for_each (mwService_start env) (e_order env (map fst (ss_services s)))) s1) v)"
    using assms(2) s1(1) by (intro start_all assms(3)) (simp add: visits_all_def)
  then show ?thesis
    using assms(4) s1(2) by (simp add: LOGIN_ACK_recv_def mwSession_getState_def mwSession_getServices_def split_def frame
        s1_def [symmetric])
qed

text \<open>
  C21: a login runs through. Starting a stopped session, the acknowledgement of the
  handshake and the acknowledgement of the login take it through \<open>HANDSHAKE\<close> and \<open>LOGIN\<close>
  to \<open>STARTED\<close>, and every service that was stopped is then starting or started, as long
  as the connection takes what is written.
\<close>

theorem login_completes:
  assumes "env_stateless env" and "quiet_io env" and "visits_all env" and "\<And>v. start_contract env v"
    and "\<And>b s. eval_state (e_io_write env b) s = 0" and "ss_state s = mwSession_STOPPED"
    and "t1 = exec_state (mwSession_start env) s"
    and "t2 = exec_state (session_dispatch env (HandshakeAck ack)) t1"
    and "t3 = exec_state (session_dispatch env (LoginAck login)) t2"
  shows "ss_state t1 = mwSession_HANDSHAKE \<and> ss_state t2 = mwSession_LOGIN \<and> ss_state t3 = mwSession_STARTED
    \<and> (\<forall>v. srv_state t2 v = Some mwServiceState_STOPPED \<longrightarrow> srv_live (srv_state t3 v))"
proof -
  have t1: "ss_state t1 = mwSession_HANDSHAKE"
    unfolding assms(7) by (rule mwSession_start_HANDSHAKE [OF assms(1,5,6)])
  have t2: "ss_state t2 = mwSession_LOGIN"
    unfolding assms(8) session_dispatch.simps by (rule HANDSHAKE_ACK_LOGIN [OF assms(1,5) t1])
  have "ss_state t3 = mwSession_STARTED"
    using LOGIN_ACK_next [OF assms(1), of login t2] t2 by (simp add: assms(9))
  moreover have "srv_live (srv_state t3 v)" if "srv_state t2 v = Some mwServiceState_STOPPED" for v
    unfolding assms(9) session_dispatch.simps by (rule LOGIN_ACK_services [OF assms(2-4) t2 that])
  ultimately show ?thesis
    using t1 t2 by blast
qed

definition example_ack :: mwMsgHandshakeAck where
  "example_ack = HANDSHAKE_ACK_zero (msg_head mwMessage_HANDSHAKE_ACK)"

definition example_login_ack :: mwMsgLoginAck where
  "example_login_ack = LOGIN_ACK_zero (msg_head mwMessage_LOGIN_ACK)"

theorem login_completes_witness:
  "env_stateless log_env \<and> quiet_io log_env \<and> visits_all log_env \<and> (\<forall>v. start_contract log_env v)
   \<and> (\<forall>b s. eval_state (e_io_write log_env b) s = 0) \<and> ss_state example_services = mwSession_STOPPED
   \<and> (\<exists>t1 t2 t3. t1 = exec_state (mwSession_start log_env) example_services
      \<and> t2 = exec_state (session_dispatch log_env (HandshakeAck example_ack)) t1
      \<and> t3 = exec_state (session_dispatch log_env (LoginAck example_login_ack)) t2
      \<and> ss_state t1 = mwSession_HANDSHAKE \<and> ss_state t2 = mwSession_LOGIN \<and> ss_state t3 = mwSession_STARTED)"
proof -
  have io: "eval_state (e_io_write log_env b) s = 0" for b s by (simp add: log_env_def)
  have st: "ss_state example_services = mwSession_STOPPED" by (simp add: example_services_def mwSession_zero_def)
  show ?thesis
    using login_completes [OF log_env_well_behaved(3,1,2) log_env_contracts(1) io st refl refl refl]
      log_env_well_behaved log_env_contracts(1) io st by blast
qed

subsection \<open>Every sequence of calls\<close>

text \<open>
  The calls a client, its services and the connection make, in any order and with any
  arguments, from a new session on.
\<close>

inductive session_call :: "'c env \<Rightarrow> 'c mwSession \<Rightarrow> 'c mwSession \<Rightarrow> bool" for env where
  process: "session_call env s (exec_state (session_process env b) s)"
| start: "session_call env s (exec_state (mwSession_start env) s)"
| stop: "session_call env s (exec_state (mwSession_stop env r) s)"
| newOutgoing: "session_call env s (exec_state mwChannel_newOutgoing s)"
| create: "session_call env s (exec_state (mwChannel_create env c) s)"
| accept: "session_call env s (exec_state (mwChannel_accept env c) s)"
| send: "session_call env s (exec_state (mwChannel_send env c ty d) s)"
| destroy: "session_call env s (exec_state (mwChannel_destroy env c r i) s)"
| addService: "session_call env s (exec_state (mwSession_addService env sv) s)"
| removeService: "session_call env s (exec_state (mwSession_removeService v) s)"
| start_service: "session_call env s (exec_state (mwService_start env v) s)"
| stop_service: "session_call env s (exec_state (mwService_stop env v) s)"
| error_service: "session_call env s (exec_state (mwService_error env v) s)"

definition tables_ok :: "'c mwSession \<Rightarrow> bool" where
  "tables_ok s \<longleftrightarrow> channels_ok s \<and> services_ok s"

interpretation tables: session_invariant tables_ok
proof
  show "tables_ok (s\<lparr>ss_services := AList.update v (sv\<lparr>sv_state := st\<rparr>) (ss_services s)\<rparr>)"
    if "tables_ok s" "map_of (ss_services s) v = Some sv" for s :: "'a mwSession" and v sv st
    using that services.service by (auto simp: tables_ok_def channels_ok_def)
  show "tables_ok (s\<lparr>ss_channels := AList.update chan ch' (ss_channels s)\<rparr>)"
    if "tables_ok s" "map_of (ss_channels s) chan = Some ch" "ch_id ch' = ch_id ch"
    for s :: "'a mwSession" and chan ch ch'
    using that channels.update by (auto simp: tables_ok_def services_ok_def)
  show "tables_ok (s\<lparr>ss_channels := AList.update chan ch (ss_channels s)\<rparr>)"
    if "tables_ok s" "ch_id ch = chan" for s :: "'a mwSession" and chan ch
    using that channels.insert by (auto simp: tables_ok_def services_ok_def)
  show "tables_ok (s\<lparr>ss_channels := AList.delete chan (ss_channels s)\<rparr>)"
    if "tables_ok s" for s :: "'a mwSession" and chan
    using that channels.delete by (auto simp: tables_ok_def services_ok_def)
qed (auto simp: tables_ok_def channels_ok_def services_ok_def)

lemma keeps_tables_addService:
  assumes "env_keeps tables_ok env"
  shows "keeps tables_ok (mwSession_addService env sv)"
proof -
  have add: "keeps tables_ok (modify (\<lambda>s. s\<lparr>ss_services := AList.update (sv_type sv) sv (ss_services s)\<rparr>))"
    by (rule keeps_modify) (auto simp: tables_ok_def channels_ok_def services_ok_def distinct_update dest!: in_update)
  show ?thesis
    unfolding mwSession_addService_def mwSession_senseService_def
    by (intro keeps_intros add tables.keeps_tables tables.keeps_send assms)
qed

lemma keeps_tables_removeService: "keeps tables_ok (mwSession_removeService v)"
proof -
  have del: "keeps tables_ok (modify (\<lambda>s. s\<lparr>ss_services := AList.delete v (ss_services s)\<rparr>))"
    by (rule keeps_modify) (auto simp: tables_ok_def channels_ok_def services_ok_def distinct_delete dest!: in_delete)
  show ?thesis
    unfolding mwSession_removeService_def by (intro keeps_intros del tables.keeps_tables)
qed

lemma keeps_tables_start:
  assumes "env_keeps tables_ok env"
  shows "keeps tables_ok (mwSession_start env)"
  unfolding mwSession_start_def Let_def
  by (intro keeps_intros tables.keeps_tables tables.keeps_properties tables.keeps_send tables.keeps_state assms)

lemma session_call_tables:
  assumes "env_keeps tables_ok env" and "session_call env s t" and "tables_ok s"
  shows "tables_ok t"
  using assms(2,3)
proof cases
  case send
  with assms show ?thesis
    unfolding mwChannel_send_def using keepsD tables.keeps_channel(8) by blast
qed (use assms in \<open>auto intro!: keepsD tables.keeps_process keeps_tables_start tables.keeps_state tables.keeps_newOutgoing
    tables.keeps_negotiation tables.keeps_channel keeps_tables_addService keeps_tables_removeService tables.keeps_service\<close>)

lemma tables_ok_new: "tables_ok (mwSession_new c)"
  by (simp add: mwSession_new_def session_defaults_def property_set_def mwSession_zero_def tables_ok_def
      channels_ok_def services_ok_def)

text \<open>
  C19: in every state that a new session reaches by any sequence of calls and received
  messages, the tables are consistent: no ID and no type twice, and every channel and
  every service found under its own key, so that the channel a handler looks up is the
  one the message names.
\<close>

theorem session_tables_consistent:
  assumes "env_keeps tables_ok env" and "(session_call env)\<^sup>*\<^sup>* (mwSession_new client) s"
  shows "tables_ok s \<and> (\<forall>c ch. map_of (ss_channels s) c = Some ch \<longrightarrow> ch_id ch = c)
    \<and> (\<forall>v sv. map_of (ss_services s) v = Some sv \<longrightarrow> sv_type sv = v)"
proof -
  have "tables_ok s"
    using assms(2)
  proof (induction rule: rtranclp_induct)
    case base
    show ?case by (rule tables_ok_new)
  next
    case (step s t)
    with session_call_tables [OF assms(1)] show ?case by blast
  qed
  then show ?thesis
    by (auto simp: tables_ok_def channels_ok_def services_ok_def dest!: map_of_SomeD)
qed

theorem session_tables_consistent_witness:
  "env_keeps tables_ok log_env
   \<and> (session_call log_env)\<^sup>*\<^sup>* (mwSession_new []) (exec_state mwChannel_newOutgoing (mwSession_new []))
   \<and> tables_ok (exec_state mwChannel_newOutgoing (mwSession_new [] :: bytes list mwSession))"
proof -
  have keeps: "env_keeps tables_ok log_env"
    by (rule log_env_keeps) (simp add: keeps_def log_env_def tables_ok_def channels_ok_def services_ok_def)
  have call: "(session_call log_env)\<^sup>*\<^sup>* (mwSession_new []) (exec_state mwChannel_newOutgoing (mwSession_new []))"
    by (rule r_into_rtranclp) (rule session_call.newOutgoing)
  show ?thesis
    using session_tables_consistent [OF keeps call] keeps call by blast
qed

end
