(* ===== verification/Delivery.thy ===== *)
theory Delivery
  imports Framing Lifecycle
begin

text \<open>
  Two sessions and the connection between them, step by step: what a sequence of messages
  looks like on the wire and what the receiving session does with it, and what becomes of data
  sent on an open channel at either end.
\<close>

section \<open>Messages across a connection\<close>

text \<open>
  What one end writes to a connection: rendered messages and keep-alives
  (\<open>mwSession_send\<close>, \<open>mwSession_sendKeepalive\<close>), the latter as \<open>None\<close>.
\<close>

definition connection_bytes :: "mwMessage option list \<Rightarrow> bytes" where
  "connection_bytes items =
     concat (map (\<lambda>i. case i of None \<Rightarrow> [0x80] | Some m \<Rightarrow> opaque_bytes (mwSession_render m)) items)"

text \<open>A message that fits the wire format and the 31 bits left of its length field.\<close>

definition sendable :: "mwMessage \<Rightarrow> bool" where
  "sendable msg \<longleftrightarrow> mwMessage_valid msg \<and> length (mwMessage_wire msg @ mwMessage_tail msg) < 2 ^ 31"

lemma render_sendable:
  "sendable msg \<Longrightarrow> opaque_bytes (mwSession_render msg) = opaque_wire (mwMessage_wire msg @ mwMessage_tail msg)"
  using mwSession_render_bytes [of msg] by (simp add: sendable_def)

lemma split_connection:
  assumes "\<forall>m. Some m \<in> set items \<longrightarrow> sendable m"
  shows "split_stream (connection_bytes items)
    = (map (\<lambda>m. mwMessage_wire m @ mwMessage_tail m) (List.map_filter (\<lambda>i. i) items), [])"
  using assms
proof (induction items)
  case Nil
  then show ?case by (simp add: connection_bytes_def split_stream.simps [of "[]"] map_filter_simps)
next
  case (Cons i items)
  then have IH: "split_stream (connection_bytes items)
      = (map (\<lambda>m. mwMessage_wire m @ mwMessage_tail m) (List.map_filter (\<lambda>i. i) items), [])" by simp
  show ?case
  proof (cases i)
    case None
    have "keepalive 0x80" by (simp add: keepalive_def)
    with IH None show ?thesis
      using split_stream_keepalive [of "0x80" "connection_bytes items"]
      by (simp add: connection_bytes_def map_filter_simps)
  next
    case (Some m)
    with Cons.prems have m: "sendable m" by simp
    then have "split_stream (opaque_wire (mwMessage_wire m @ mwMessage_tail m) @ connection_bytes items)
        = split_after [mwMessage_wire m @ mwMessage_tail m] (split_stream (connection_bytes items))"
      by (intro split_stream_opaque) (simp add: sendable_def)
    with Some m IH show ?thesis
      by (simp add: connection_bytes_def render_sendable split_after_def map_filter_simps)
  qed
qed

lemma process_sendable:
  assumes "\<forall>m \<in> set msgs. sendable m"
  shows "for_each (session_process env) (map (\<lambda>m. mwMessage_wire m @ mwMessage_tail m) msgs)
    = for_each (\<lambda>m. do { e_junk env; session_dispatch env (mwMessage_norm m) }) msgs"
  using assms by (induction msgs) (simp_all add: sendable_def session_process_wire)

lemma example_create_sendable: "sendable example_create"
  unfolding sendable_def using example_create_valid
  by (simp add: example_create_def mwMessage_wire_def mwMessageHead_wire_def mwMessageHead_zero_def
      has_attribs_def CHANNEL_CREATE_wire_def mwIdBlock_wire_def string_wire_def opaque_wire_def
      enc_offer_read_def enc_offer_wire_def enc_offer_block_def mwEncryptItem_wire_def enc_offer_left_def)

section \<open>Data across a channel\<close>

text \<open>
  The cipher instances at the two ends of a channel are in sync: both have none, or
  the receiver's decrypts what the sender's encrypts.
\<close>

fun in_sync :: "mwCipher \<Rightarrow> mwCipherInstance option \<Rightarrow> mwCipherInstance option \<Rightarrow> bool" where
  "in_sync c None None = True"
| "in_sync (RC2_40 cr) (Some (Inst_RC2_40 a)) (Some (Inst_RC2_40 b)) = sync_RC2_40 cr a b"
| "in_sync (RC2_128 cr) (Some (Inst_RC2_128 a)) (Some (Inst_RC2_128 b)) = sync_RC2_128 a b"
| "in_sync _ _ _ = False"

lemma encrypt_length:
  assumes "opaque_ok p"
  shows "length iv = 8 \<Longrightarrow> opaque_ok (snd (mwEncryptExpanded k iv p)) \<and> op_len (snd (mwEncryptExpanded k iv p)) \<le> op_len p + 8"
  using mwEncryptExpanded_eq(1,3) [OF _ assms, of iv k] by (simp add: opaque_ok_def)

lemma in_sync_step:
  assumes "in_sync cipher (Some a) b" and "opaque_ok p"
    and "mwCipherInstance_encrypt cipher (Some a) p = (a', enc)"
  shows "opaque_ok enc \<and> op_len enc \<le> op_len p + 8
    \<and> (\<exists>b' out. mwCipherInstance_decrypt b (opaque_norm enc) = Some (b', out) \<and> opaque_ok out
         \<and> opaque_bytes out = opaque_bytes p \<and> in_sync cipher a' b')"
proof -
  have norm: "mwDecryptExpanded k iv (opaque_norm e) = mwDecryptExpanded k iv e" if "opaque_ok e" for k iv e
    using that by (simp add: mwDecryptExpanded_def opaque_norm_def Let_def)
  from assms(1) show ?thesis
  proof (cases rule: in_sync.elims(2))
    case (2 cr x y)
    then have "length (i40_outgoing_iv x) = 8" by (simp add: sync_RC2_40_def)
    with encrypt_length [OF assms(2)] have "opaque_ok enc \<and> op_len enc \<le> op_len p + 8"
      using 2 assms(3) by (auto simp: encrypt_RC2_40_def split_def Let_def)
    moreover have "decrypt_RC2_40 y (opaque_norm enc) = decrypt_RC2_40 y enc"
      using calculation norm by (simp add: decrypt_RC2_40_def)
    ultimately show ?thesis
      using 2 assms(3) rc2_40.step [of cr x y p] assms(2) by (auto simp: split_def Let_def)
  next
    case (3 cr x y)
    then have "length (i128_outgoing_iv x) = 8" by (simp add: sync_RC2_128_def)
    with encrypt_length [OF assms(2)] have "opaque_ok enc \<and> op_len enc \<le> op_len p + 8"
      using 3 assms(3) by (auto simp: encrypt_RC2_128_def split_def Let_def)
    moreover have "decrypt_RC2_128 y (opaque_norm enc) = decrypt_RC2_128 y enc"
      using calculation norm by (simp add: decrypt_RC2_128_def)
    ultimately show ?thesis
      using 3 assms(3) rc2_128.step [of x y p] assms(2) by (auto simp: split_def Let_def)
  qed simp_all
qed

text \<open>The message \<open>mwChannel_send\<close> composes, and the sender's cipher instance after it.\<close>

definition channel_message ::
  "mwCipher \<Rightarrow> mwChannel \<Rightarrow> guint32 \<Rightarrow> mwOpaque \<Rightarrow> mwCipherInstance option \<times> mwMsgChannelSend" where
  "channel_message cipher ch type data =
     (let d = mwOpaque_clone (Some data); head = (msg_head mwMessage_CHANNEL_SEND)\<lparr>mh_channel := ch_id ch\<rparr>
      in case ch_cipher ch of
           None \<Rightarrow> (None, \<lparr>cs_head = head, cs_type = ucast type, cs_data = d\<rparr>)
         | Some ci \<Rightarrow> (case mwCipherInstance_encrypt cipher (Some ci) d of
             (ci, out) \<Rightarrow> (ci, \<lparr>cs_head = head\<lparr>mh_options := mwMessageOption_ENCRYPT\<rparr>, cs_type = ucast type, cs_data = out\<rparr>)))"

text \<open>A connection that takes every write and enters it into the client's own data.\<close>

definition writes_to :: "'c env \<Rightarrow> (bytes \<Rightarrow> 'c \<Rightarrow> 'c) \<Rightarrow> bool" where
  "writes_to env wr \<longleftrightarrow> (\<forall>b s. run_state (e_io_write env b) s = (0, s\<lparr>ss_client := wr b (ss_client s)\<rparr>))"

lemma log_env_writes [simp]: "writes_to log_env (\<lambda>b c. c @ [b])"
  by (simp add: writes_to_def log_env_def)

lemma writes_to_send:
  "writes_to env wr \<Longrightarrow> run_state (mwSession_send env (ChannelSend m)) s
    = (0, s\<lparr>ss_client := wr (opaque_bytes (mwSession_render (ChannelSend m))) (ss_client s)\<rparr>)"
  by (simp add: mwSession_send_def writes_to_def)

lemma update_same: "map_of al k = Some v \<Longrightarrow> AList.update k v al = al"
  by (induction al) auto

lemma mwChannel_send_run:
  assumes "map_of (ss_channels s) c = Some ch" and "ch_state ch = mwChannel_OPEN"
    and "\<And>ci. ch_cipher ch = Some ci \<Longrightarrow> map_of (ss_ciphers s) (instance_type ci) = Some cipher"
    and "channel_message cipher ch type data = (ci', m)" and "writes_to env wr"
  shows "run_state (mwChannel_send env c type data) s
    = (0, s\<lparr>ss_channels := AList.update c (ch\<lparr>ch_cipher := ci'\<rparr>) (ss_channels s),
           ss_client := wr (opaque_bytes (mwSession_render (ChannelSend m))) (ss_client s)\<rparr>)"
proof (cases "ch_cipher ch")
  case None
  then have m: "ci' = None" "m = \<lparr>cs_head = (msg_head mwMessage_CHANNEL_SEND)\<lparr>mh_channel := ch_id ch\<rparr>,
      cs_type = ucast type, cs_data = mwOpaque_clone (Some data)\<rparr>"
    using assms(4) by (auto simp: channel_message_def Let_def)
  have "ch\<lparr>ch_cipher := None\<rparr> = ch"
    using None by (cases ch) simp
  then have "AList.update c (ch\<lparr>ch_cipher := None\<rparr>) (ss_channels s) = ss_channels s"
    using assms(1) by (simp add: update_same)
  with None assms(1,2) m show ?thesis
    by (simp add: mwChannel_send_def mwChannel_sendEncrypted_def channel_send_def writes_to_send [OF assms(5)] Let_def)
next
  case (Some ci)
  let ?e = "mwCipherInstance_encrypt cipher (Some ci) (mwOpaque_clone (Some data))"
  have "ci' = fst ?e" "m = \<lparr>cs_head = (msg_head mwMessage_CHANNEL_SEND)\<lparr>mh_channel := ch_id ch, mh_options := mwMessageOption_ENCRYPT\<rparr>,
      cs_type = ucast type, cs_data = snd ?e\<rparr>"
    using assms(4) Some by (auto simp: channel_message_def Let_def split: prod.splits)
  then show ?thesis
    using Some assms(1-3)
    by (simp add: mwChannel_send_def mwChannel_sendEncrypted_def channel_send_def writes_to_send [OF assms(5)]
        channel_encrypt_def instance_cipher_def split_def Let_def)
qed

lemma channel_message_sendable:
  assumes "opaque_ok data" and "op_len data < 2 ^ 30" and "in_sync cipher (ch_cipher ch) b"
    and "channel_message cipher ch type data = (ci', m)"
  shows "sendable (ChannelSend m)"
    and "mwMessage_norm (ChannelSend m) = ChannelSend (m\<lparr>cs_data := opaque_norm (cs_data m)\<rparr>)"
proof -
  let ?d = "mwOpaque_clone (Some data)"
  have d: "opaque_ok ?d" "op_len ?d = op_len data"
    using assms(1) by (simp_all add: mwOpaque_clone_eq)
  have m: "opaque_ok (cs_data m) \<and> op_len (cs_data m) \<le> op_len data + 8"
  proof (cases "ch_cipher ch")
    case None
    with assms(4) d show ?thesis by (auto simp: channel_message_def Let_def)
  next
    case (Some a)
    obtain a' enc where e: "mwCipherInstance_encrypt cipher (Some a) ?d = (a', enc)" by fastforce
    with in_sync_step [OF assms(3) [unfolded Some] d(1) e] assms(4) Some d(2) show ?thesis
      by (auto simp: channel_message_def Let_def)
  qed
  then have data: "opaque_valid (cs_data m)"
    using assms(2) by (simp add: opaque_valid_def)
  have h: "mh_type (cs_head m) = mwMessage_CHANNEL_SEND" "\<not> has_attribs (cs_head m)" "mh_attribs (cs_head m) = opaque_of []"
    using assms(4)
    by (auto simp: channel_message_def Let_def has_attribs_def mwMessageHead_zero_def split: option.splits prod.splits)
  show "sendable (ChannelSend m)"
    using data h m length_opaque_bytes [of "cs_data m"] assms(2)
    by (simp add: sendable_def mwMessage_valid_def mwMessage_typed_def mwMessageHead_valid_def mwMessage_wire_def
        mwMessageHead_wire_def CHANNEL_SEND_wire_def opaque_wire_def)
  show "mwMessage_norm (ChannelSend m) = ChannelSend (m\<lparr>cs_data := opaque_norm (cs_data m)\<rparr>)"
    using h by (cases m) (simp add: CHANNEL_SEND_norm_def mwMessageHead_norm_def)
qed

lemma CHANNEL_SEND_recv_run:
  assumes "mh_channel (cs_head m) = c" and "map_of (ss_channels r) c = Some ch" and "ch_state ch = mwChannel_OPEN"
    and "map_of (ss_services r) (ch_service ch) = Some sv" and "e_recv env (sv_type sv) = Some recv"
    and "opaque_ok (cs_data m)"
    and "if mh_options (cs_head m) AND mwMessageOption_ENCRYPT \<noteq> 0
         then mwCipherInstance_decrypt (ch_cipher ch) (opaque_norm (cs_data m)) = Some (b', out)
         else b' = ch_cipher ch \<and> out = cs_data m"
  shows "exec_state (CHANNEL_SEND_recv env m) r = exec_state (recv c (cs_type m) out) (r\<lparr>ss_channels :=
    AList.update c (ch\<lparr>ch_stats := AList.update mwChannelStat_MSG_RECV (get_stat ch mwChannelStat_MSG_RECV + 1) (ch_stats ch),
      ch_cipher := b'\<rparr>) (ss_channels r)\<rparr>)"
proof -
  have clone: "mwOpaque_clone (Some (cs_data m)) = opaque_norm (cs_data m)"
    using assms(6) by (simp add: mwOpaque_clone_eq opaque_norm_def)
  have same: "ch\<lparr>ch_stats := st, ch_cipher := ch_cipher ch\<rparr> = ch\<lparr>ch_stats := st\<rparr>" for st
    by (cases ch) simp
  have swap: "ch\<lparr>ch_cipher := b', ch_stats := st\<rparr> = ch\<lparr>ch_stats := st, ch_cipher := b'\<rparr>" for st
    by (cases ch) simp
  show ?thesis
    using assms(1-5,7)
    by (cases "mh_options (cs_head m) AND mwMessageOption_ENCRYPT = 0")
      (simp_all add: CHANNEL_SEND_recv_def mwChannel_find_def mwChannel_recv_def channel_recv_def mwChannel_getService_def
        mwSession_getService_def incr_stat_def set_stat_def mwService_recv_def channel_decrypt_def clone same swap
        update_last)
qed

lemma channel_message_decrypts:
  assumes "opaque_ok data" and "in_sync cipher (ch_cipher ch) b" and "channel_message cipher ch type data = (ci, m)"
  defines "m' \<equiv> m\<lparr>cs_data := opaque_norm (cs_data m)\<rparr>"
  shows "\<exists>b' out. (if mh_options (cs_head m') AND mwMessageOption_ENCRYPT \<noteq> 0
         then mwCipherInstance_decrypt b (opaque_norm (cs_data m')) = Some (b', out)
         else b' = b \<and> out = cs_data m')
    \<and> opaque_ok out \<and> opaque_bytes out = opaque_bytes data \<and> in_sync cipher ci b'"
proof -
  let ?d = "mwOpaque_clone (Some data)"
  have m': "cs_head m' = cs_head m" "cs_data m' = opaque_norm (cs_data m)"
    by (simp_all add: m'_def)
  have d: "opaque_ok ?d" "opaque_bytes ?d = opaque_bytes data"
    using assms(1) by (simp_all add: mwOpaque_clone_eq)
  show ?thesis
  proof (cases "ch_cipher ch")
    case None
    with assms(3) have m: "ci = None" "mh_options (cs_head m) = 0" "cs_data m = ?d"
      by (auto simp: channel_message_def Let_def mwMessageHead_zero_def)
    have "b = None" using assms(2) None by (cases cipher; cases b) auto
    with m d show ?thesis by (simp add: opaque_norm_def m')
  next
    case (Some a)
    obtain a' enc where e: "mwCipherInstance_encrypt cipher (Some a) ?d = (a', enc)" by fastforce
    with assms(3) Some have m: "ci = a'" "mh_options (cs_head m) = mwMessageOption_ENCRYPT" "cs_data m = enc"
      by (auto simp: channel_message_def Let_def)
    have "opaque_norm (opaque_norm enc) = opaque_norm enc" by (simp add: opaque_norm_def)
    with in_sync_step [OF assms(2) [unfolded Some] d(1) e] m d(2) show ?thesis by (auto simp: m')
  qed
qed

text \<open>The session that receives the messages of one end, in any pieces.\<close>

lemma recv_messages:
  assumes "env_nobuf env" and "framing_ok s []" and "\<forall>m \<in> set msgs. sendable m"
    and "concat pieces = concat (map (\<lambda>m. opaque_bytes (mwSession_render m)) msgs)"
  shows "mwSession_recv_all env pieces s
    = Some (exec_state (for_each (\<lambda>m. do { e_junk env; session_dispatch env (mwMessage_norm m) }) msgs) s)"
proof -
  have conn: "connection_bytes (map Some msgs) = concat pieces"
    by (simp add: connection_bytes_def assms(4) comp_def)
  have items: "List.map_filter (\<lambda>i. i) (map Some msgs) = msgs"
    by (simp add: List.map_filter_def comp_def)
  have "split_stream (concat pieces) = (map (\<lambda>m. mwMessage_wire m @ mwMessage_tail m) msgs, [])"
    using split_connection [of "map Some msgs"] assms(3) by (auto simp: conn items)
  then obtain t where "mwSession_recv env (concat pieces) s = Some t" "framing_ok t []"
    "buf_free t = exec_state (for_each (\<lambda>m. do { e_junk env; session_dispatch env (mwMessage_norm m) }) msgs) (buf_free s)"
    using mwSession_recv_splits [OF assms(1,2), of "concat pieces"]
    by (auto simp: process_sendable [OF assms(3)])
  then show ?thesis
    using mwSession_recv_all_concat [OF assms(1,2), of pieces] assms(2) by simp
qed

text \<open>
  One message of a channel at the receiving session: the service's function runs on the
  decrypted data, after the counter of messages and the cipher instance have changed.
\<close>

definition chan_received :: "guint32 \<Rightarrow> mwChannel \<Rightarrow> mwCipherInstance option \<Rightarrow> 'c mwSession \<Rightarrow> 'c mwSession" where
  "chan_received c ch b s = s\<lparr>ss_channels := AList.update c (ch\<lparr>ch_stats := AList.update mwChannelStat_MSG_RECV
      (get_stat ch mwChannelStat_MSG_RECV + 1) (ch_stats ch), ch_cipher := b\<rparr>) (ss_channels s)\<rparr>"

lemma channel_step:
  assumes "map_of (ss_channels r) c = Some ch'" and "ch_state ch' = mwChannel_OPEN" and "ch_id ch = c"
    and "map_of (ss_services r) (ch_service ch') = Some sv" and "e_recv env (sv_type sv) = Some recv"
    and "client_only (e_junk env)"
    and "in_sync cipher (ch_cipher ch) (ch_cipher ch')" and "opaque_ok data" and "op_len data < 2 ^ 30"
    and "channel_message cipher ch type data = (ci, m)"
  shows "\<exists>b out. exec_state (do { e_junk env; session_dispatch env (mwMessage_norm (ChannelSend m)) }) r
      = exec_state (recv c (ucast type) out) (chan_received c ch' b (exec_state (e_junk env) r))
    \<and> opaque_ok out \<and> opaque_bytes out = opaque_bytes data \<and> in_sync cipher ci b"
proof -
  note send = channel_message_sendable [OF assms(8,9,7,10)]
  let ?m = "m\<lparr>cs_data := opaque_norm (cs_data m)\<rparr>"
  obtain b out where dec: "if mh_options (cs_head ?m) AND mwMessageOption_ENCRYPT \<noteq> 0
         then mwCipherInstance_decrypt (ch_cipher ch') (opaque_norm (cs_data ?m)) = Some (b, out)
         else b = ch_cipher ch' \<and> out = cs_data ?m"
      "opaque_ok out" "opaque_bytes out = opaque_bytes data" "in_sync cipher ci b"
    using channel_message_decrypts [OF assms(8,7,10)] by blast
  define cl where "cl = ss_client (exec_state (e_junk env) r)"
  have junk: "exec_state (e_junk env) r = r\<lparr>ss_client := cl\<rparr>"
    using client_only_run [OF assms(6) refl, of r] by (metis cl_def snd_conv)
  have chan: "mh_channel (cs_head m) = c" "cs_type m = ucast type"
    using assms(3,10) by (auto simp: channel_message_def Let_def split: option.splits prod.splits)
  have "exec_state (CHANNEL_SEND_recv env ?m) (r\<lparr>ss_client := cl\<rparr>)
      = exec_state (recv c (ucast type) out) (chan_received c ch' b (r\<lparr>ss_client := cl\<rparr>))"
    using CHANNEL_SEND_recv_run [OF _ _ _ _ _ _ dec(1), of c "r\<lparr>ss_client := cl\<rparr>" sv env recv] assms(1-5) chan
    by (simp add: chan_received_def opaque_norm_def [of "cs_data m"])
  with dec(2-4) send(2) show ?thesis
    by (intro exI [of _ b] exI [of _ out]) (simp add: split_def junk)
qed

text \<open>The server passes a message on under the identifier that the channel has at the other end.\<close>

definition relabel :: "guint32 \<Rightarrow> mwMsgChannelSend \<Rightarrow> mwMsgChannelSend" where
  "relabel c m = m\<lparr>cs_head := (cs_head m)\<lparr>mh_channel := c\<rparr>\<rparr>"

lemma channel_message_relabel:
  "channel_message cipher ch t d = (ci, m) \<Longrightarrow> channel_message cipher (ch\<lparr>ch_id := c\<rparr>) t d = (ci, relabel c m)"
  by (auto simp: channel_message_def relabel_def Let_def split: option.splits prod.splits)

abbreviation render_send :: "mwMsgChannelSend \<Rightarrow> bytes" where
  "render_send m \<equiv> opaque_bytes (mwSession_render (ChannelSend m))"

lemma encrypt_instance_type:
  "mwCipherInstance_encrypt cipher (Some i) d = (Some i', out) \<Longrightarrow> instance_type i' = instance_type i"
  by (cases cipher; cases i) (auto simp: encrypt_RC2_40_def encrypt_RC2_128_def Let_def split: prod.splits)

lemma channel_message_instance:
  assumes "channel_message cipher ch t d = (Some i', m)"
  shows "\<exists>i. ch_cipher ch = Some i \<and> instance_type i' = instance_type i"
  using assms encrypt_instance_type
  by (auto simp: channel_message_def Let_def split: option.splits prod.splits)

end
