(* ===== verification/Service_Slot.thy ===== *)
theory Service_Slot
  imports Delivery
begin

text \<open>
  What the services of \<^verbatim>\<open>src/src/srvc_*.c\<close> have in common. A service keeps its own state
  behind the \<open>struct mwService\<close> it starts with; in the model that state is a part of what
  belongs to the client, \<open>ss_client\<close>, which the service reaches through a \<open>slot\<close>. The laws
  of a slot are the locale \<open>service_slot\<close>; the session of a client with several services
  has one slot for each.

  Pointers to functions and data that the client passes to a service are numbers; the code
  behind a number is an argument of the model.
\<close>

record ('c, 's) slot =
  sl_get :: "'c \<Rightarrow> 's"
  sl_put :: "'s \<Rightarrow> 'c \<Rightarrow> 'c"

definition srvc_get :: "('c, 's) slot \<Rightarrow> ('s \<Rightarrow> 'a) \<Rightarrow> ('c, 'a) M" where
  "srvc_get sl f = gets (\<lambda>s. f (sl_get sl (ss_client s)))"

definition srvc_modify :: "('c, 's) slot \<Rightarrow> ('s \<Rightarrow> 's) \<Rightarrow> ('c, unit) M" where
  "srvc_modify sl f = modify (\<lambda>s. s\<lparr>ss_client := sl_put sl (f (sl_get sl (ss_client s))) (ss_client s)\<rparr>)"

text \<open>The state of the service in a session.\<close>

definition srvc_of :: "('c, 's) slot \<Rightarrow> 'c mwSession \<Rightarrow> 's" where
  "srvc_of sl s = sl_get sl (ss_client s)"

definition srvc_set :: "('c, 's) slot \<Rightarrow> 's \<Rightarrow> 'c mwSession \<Rightarrow> 'c mwSession" where
  "srvc_set sl x s = s\<lparr>ss_client := sl_put sl x (ss_client s)\<rparr>"

lemma srvc_set_other [simp]:
  "ss_channels (srvc_set sl x s) = ss_channels s" "ss_services (srvc_set sl x s) = ss_services s"
  "ss_ciphers (srvc_set sl x s) = ss_ciphers s" "ss_fault (srvc_set sl x s) = ss_fault s"
  "ss_state (srvc_set sl x s) = ss_state s" "ss_client (srvc_set sl x s) = sl_put sl x (ss_client s)"
  by (simp_all add: srvc_set_def)

lemma run_srvc_modify [simp]: "run_state (srvc_modify sl f) s = ((), srvc_set sl (f (srvc_of sl s)) s)"
  by (simp add: srvc_modify_def srvc_set_def srvc_of_def)

lemma srvc_of_cong: "ss_client t = ss_client s \<Longrightarrow> srvc_of sl t = srvc_of sl s"
  by (simp add: srvc_of_def)

lemma srvc_of_updates [simp]:
  "srvc_of sl (s\<lparr>ss_channels := x\<rparr>) = srvc_of sl s" "srvc_of sl (s\<lparr>ss_fault := y\<rparr>) = srvc_of sl s"
  by (simp_all add: srvc_of_def)

lemma run_srvc_get [simp]: "run_state (srvc_get sl f) s = (f (srvc_of sl s), s)"
  by (simp add: srvc_get_def srvc_of_def)

locale service_slot =
  fixes sl :: "('c, 's) slot"
  assumes get_put: "sl_get sl (sl_put sl x c) = x"
    and put_get: "sl_put sl (sl_get sl c) c = c"
    and put_put: "sl_put sl x (sl_put sl y c) = sl_put sl x c"
begin

lemma srvc_of_set [simp]: "srvc_of sl (srvc_set sl x s) = x"
  by (simp add: srvc_of_def get_put)

lemma srvc_set_set [simp]: "srvc_set sl x (srvc_set sl y s) = srvc_set sl x s"
  by (simp add: srvc_set_def put_put)

lemma srvc_set_same: "x = srvc_of sl s \<Longrightarrow> srvc_set sl x s = s"
  by (simp add: srvc_set_def srvc_of_def put_get)

lemma srvc_set_fault: "srvc_set sl x s\<lparr>ss_fault := y\<rparr> = srvc_set sl x (s\<lparr>ss_fault := y\<rparr>)"
  by (simp add: srvc_set_def)

text \<open>A computation keeps a predicate of the service's state as soon as its changes do.\<close>

lemma keeps_srvc_modify:
  assumes "\<And>x. Q x \<Longrightarrow> Q (f x)"
  shows "keeps (\<lambda>s. Q (srvc_of sl s)) (srvc_modify sl f)"
  using assms by (simp add: keeps_def)

end

lemma keeps_srvc_get [keeps_intros]: "keeps P (srvc_get sl f)"
  unfolding srvc_get_def by (rule keeps_gets)

text \<open>
  Predicates of the service's state survive every operation of the library that does not
  call back into the client.
\<close>

interpretation srvc: session_invariant "\<lambda>s. Q (srvc_of sl s)" for Q sl
  unfolding srvc_of_def by (rule client.session_invariant_axioms)

text \<open>The service that a channel is set to.\<close>

definition service_of :: "guint32 \<Rightarrow> mwService" where
  "service_of type = \<lparr>sv_type = type, sv_state = mwServiceState_UNKNOWN\<rparr>"

text \<open>Rendering with a put buffer.\<close>

definition put_opaque :: "(mwPutBuffer, unit) state \<Rightarrow> mwOpaque" where
  "put_opaque m = mwPutBuffer_finalize (exec_state m mwPutBuffer_new)"

lemma put_opaque_writes:
  assumes "writes m bs"
  shows "opaque_bytes (put_opaque m) = bs" "opaque_ok (put_opaque m)"
  using assms by (simp_all add: put_opaque_def mwPutBuffer_finalize_spec writes_okD writes_contentsD)

definition mwChannel_isIncoming :: "guint32 \<Rightarrow> ('c, bool) M" where
  "mwChannel_isIncoming chan = do { ch \<leftarrow> chan_deref chan; State_Monad.return (\<not> mwChannel_idIsOutgoing (ch_id ch)) }"

definition mwChannel_isOutgoing :: "guint32 \<Rightarrow> ('c, bool) M" where
  "mwChannel_isOutgoing chan = do { ch \<leftarrow> chan_deref chan; State_Monad.return (mwChannel_idIsOutgoing (ch_id ch)) }"

definition mwChannel_isState :: "guint32 \<Rightarrow> mwChannelState \<Rightarrow> ('c, bool) M" where
  "mwChannel_isState chan st = do { ch \<leftarrow> chan_deref chan; State_Monad.return (ch_state ch = st) }"

definition mwChannel_getUser :: "guint32 \<Rightarrow> ('c, mwLoginInfo) M" where
  "mwChannel_getUser chan = do { ch \<leftarrow> chan_deref chan; State_Monad.return (ch_user ch) }"

text \<open>Writing to the buffer that \<open>mwChannel_getAddtlCreate\<close> points to.\<close>

definition mwChannel_setAddtlCreate :: "guint32 \<Rightarrow> mwOpaque \<Rightarrow> ('c, unit) M" where
  "mwChannel_setAddtlCreate chan data = chan_update chan (\<lambda>ch. ch\<lparr>ch_addtl_create := data\<rparr>)"

definition mwChannel_setAddtlAccept :: "guint32 \<Rightarrow> mwOpaque \<Rightarrow> ('c, unit) M" where
  "mwChannel_setAddtlAccept chan data = chan_update chan (\<lambda>ch. ch\<lparr>ch_addtl_accept := data\<rparr>)"

definition ERR_SUCCESS :: guint32 where "ERR_SUCCESS = 0"

text \<open>Sending on a channel and closing it run no code of the client but the function that writes.\<close>

lemma keeps_channel_write:
  assumes "\<And>b. keeps (\<lambda>s. Q (srvc_of sl s)) (e_io_write env b)"
  shows "keeps (\<lambda>s. Q (srvc_of sl s)) (mwChannel_sendEncrypted env c t d e)"
    and "keeps (\<lambda>s. Q (srvc_of sl s)) (mwChannel_destroy env c r i)"
proof -
  have send: "keeps (\<lambda>s. Q (srvc_of sl s)) (mwSession_send env (ChannelSend m))"
    "keeps (\<lambda>s. Q (srvc_of sl s)) (mwSession_send env (ChannelDestroy m'))" for m m'
    unfolding mwSession_send_def by (intro keeps_intros assms; simp add: keeps_return)+
  show "keeps (\<lambda>s. Q (srvc_of sl s)) (mwChannel_sendEncrypted env c t d e)"
    unfolding mwChannel_sendEncrypted_def channel_send_def Let_def
    by (intro keeps_intros srvc.keeps_small send)
  show "keeps (\<lambda>s. Q (srvc_of sl s)) (mwChannel_destroy env c r i)"
    unfolding mwChannel_destroy_def Let_def by (intro keeps_intros srvc.keeps_small send)
qed

section \<open>What services call stays away from the input buffer\<close>

lemma nobuf_slot [nobuf_intros]: "nobuf (srvc_get sl f)" "nobuf (srvc_modify sl g)"
  unfolding srvc_get_def srvc_modify_def by (rule nobuf_gets nobuf_modify; simp add: buf_free_def)+

lemma nobuf_channel_fields [nobuf_intros]:
  "nobuf (mwChannel_isIncoming c)" "nobuf (mwChannel_isOutgoing c)" "nobuf (mwChannel_isState c st)"
  "nobuf (mwChannel_getUser c)" "nobuf (mwChannel_setAddtlCreate c d)" "nobuf (mwChannel_setAddtlAccept c d)"
  "nobuf (mwChannel_getServiceData c)" "nobuf (mwChannel_setServiceData c x)" "nobuf (mwChannel_removeServiceData c)"
  "nobuf (mwChannel_setService c srv)" "nobuf (mwChannel_setProtoType c n)" "nobuf (mwChannel_setProtoVer c n)"
  "nobuf (mwChannel_setOptions c n)"
  unfolding mwChannel_isIncoming_def mwChannel_isOutgoing_def mwChannel_isState_def mwChannel_getUser_def
    mwChannel_setAddtlCreate_def mwChannel_setAddtlAccept_def mwChannel_getServiceData_def mwChannel_setServiceData_def
    mwChannel_removeServiceData_def mwChannel_setService_def mwChannel_setProtoType_def mwChannel_setProtoVer_def
    mwChannel_setOptions_def channel_set_def
  by (intro nobuf_intros)+

lemma nobuf_newOutgoing [nobuf_intros]: "nobuf mwChannel_newOutgoing"
proof -
  have "nobuf (modify (\<lambda>s. s\<lparr>ss_counter := n\<rparr>))" for n
    by (rule nobuf_modify) (simp add: buf_free_def)
  then show ?thesis
    unfolding mwChannel_newOutgoing_def by (intro nobuf_intros nobuf_gets) simp_all
qed

lemma nobuf_service_state [nobuf_intros]: "nobuf (mwService_started v)" "nobuf (mwService_stopped v)"
proof -
  have set: "nobuf (service_set_state v st)" for st
    unfolding service_set_state_def by (rule nobuf_modify) (simp add: buf_free_def split: option.split)
  have get: "nobuf (mwService_getState v)"
    unfolding mwService_getState_def by (intro nobuf_intros)
  show "nobuf (mwService_started v)" "nobuf (mwService_stopped v)"
    unfolding mwService_started_def mwService_stopped_def by (intro nobuf_intros set get)+
qed

lemma nobuf_channel_calls [nobuf_intros]:
  assumes "env_nobuf env"
  shows "nobuf (mwChannel_sendEncrypted env c t d e)" "nobuf (mwChannel_send env c t d)"
    "nobuf (mwChannel_create env c)" "nobuf (mwChannel_accept env c)"
    "nobuf (mwChannel_populateSupportedCipherInstances env c)"
proof -
  note S = nobuf_session_core [OF assms] nobuf_channel [OF assms] env_nobufU [OF assms]
  show enc: "nobuf (mwChannel_sendEncrypted env c t d e)" for e
    unfolding mwChannel_sendEncrypted_def channel_send_def channel_encrypt_def Let_def by (intro nobuf_intros S)
  then show "nobuf (mwChannel_send env c t d)" by (simp add: mwChannel_send_def)
  have off: "nobuf (offer_items cis)" for cis
    unfolding offer_items_def by (rule nobuf_gets) simp
  show "nobuf (mwChannel_create env c)"
    unfolding mwChannel_create_def Let_def by (intro nobuf_intros off S)
  have item: "nobuf (accept_item c ci)" for ci
    unfolding accept_item_def by (intro nobuf_intros S)
  have sel: "nobuf (accept_select env c pol)" for pol
    unfolding accept_select_def by (intro nobuf_intros S)
  show "nobuf (mwChannel_accept env c)"
    unfolding mwChannel_accept_def Let_def by (intro nobuf_intros sel item S)
  show "nobuf (mwChannel_populateSupportedCipherInstances env c)"
    unfolding mwChannel_populateSupportedCipherInstances_def by (intro nobuf_intros S)
qed

end
