(* ===== verification/Srvc_FT.thy ===== *)
theory Srvc_FT
  imports Service_Slot
begin

text \<open>
  The file transfer service, \<^verbatim>\<open>src/src/srvc_ft.c\<close>. Transfers live from \<open>mwFileTransfer_new\<close>
  to \<open>mwFileTransfer_free\<close>, and just as long they are in the list of the service; so that
  list is the heap of transfers, and following the address of a transfer that is not in it
  sets \<open>ss_fault\<close>. The functions take the environment, the slot of the service and the
  handler of the client, whose functions may be missing.
\<close>

section \<open>State\<close>

definition mwService_FILE_TRANSFER :: guint32 where "mwService_FILE_TRANSFER = 0x00000038"
definition FT_PROTOCOL_TYPE :: guint32 where "FT_PROTOCOL_TYPE = 0x00000000"
definition FT_PROTOCOL_VER :: guint32 where "FT_PROTOCOL_VER = 0x00000001"
definition msg_TRANSFER :: guint32 where "msg_TRANSFER = 0x0001"
definition msg_RECEIVED :: guint32 where "msg_RECEIVED = 0x0002"
definition mwFileTransfer_SUCCESS :: guint32 where "mwFileTransfer_SUCCESS = 0x00000000"
definition mwFileTransfer_REJECTED :: guint32 where "mwFileTransfer_REJECTED = 0x08000606"

datatype mwFileTransferState =
    mwFileTransfer_NEW | mwFileTransfer_PENDING | mwFileTransfer_OPEN | mwFileTransfer_CANCEL_LOCAL
  | mwFileTransfer_CANCEL_REMOTE | mwFileTransfer_DONE | mwFileTransfer_ERROR | mwFileTransfer_UNKNOWN

record mwFileTransfer =
  ft_channel :: "guint32 option"
  ft_who :: mwIdBlock
  ft_st :: mwFileTransferState
  ft_filename :: cstr
  ft_message :: cstr
  ft_size :: guint32
  ft_remaining :: guint32

text \<open>\<open>fs_handler\<close> says whether the handler is still set; \<open>fs_next\<close> is the next free address.\<close>

record mwServiceFileTransfer =
  fs_handler :: bool
  fs_transfers :: "(addr \<times> mwFileTransfer) list"
  fs_next :: addr

record 'c mwFileTransferHandler =
  fth_offered :: "(addr \<Rightarrow> ('c, unit) M) option"
  fth_opened :: "(addr \<Rightarrow> ('c, unit) M) option"
  fth_closed :: "(addr \<Rightarrow> guint32 \<Rightarrow> ('c, unit) M) option"
  fth_recv :: "(addr \<Rightarrow> mwOpaque \<Rightarrow> ('c, unit) M) option"
  fth_ack :: "(addr \<Rightarrow> ('c, unit) M) option"
  fth_clear :: "('c, unit) M option"

type_synonym 'c ft_slot = "('c, mwServiceFileTransfer) slot"

definition mwFileTransfer_zero :: mwFileTransfer where
  "mwFileTransfer_zero = \<lparr>ft_channel = None, ft_who = mwIdBlock_zero, ft_st = mwFileTransfer_NEW,
     ft_filename = None, ft_message = None, ft_size = 0, ft_remaining = 0\<rparr>"

definition ft_deref :: "'c ft_slot \<Rightarrow> addr \<Rightarrow> ('c, mwFileTransfer) M" where
  "ft_deref sl a = do {
     ft \<leftarrow> srvc_get sl (\<lambda>fs. map_of (fs_transfers fs) a);
     case ft of Some ft \<Rightarrow> State_Monad.return ft
     | None \<Rightarrow> do { fault; State_Monad.return mwFileTransfer_zero }
   }"

definition ft_update :: "'c ft_slot \<Rightarrow> addr \<Rightarrow> (mwFileTransfer \<Rightarrow> mwFileTransfer) \<Rightarrow> ('c, unit) M" where
  "ft_update sl a f = do {
     ft \<leftarrow> ft_deref sl a;
     srvc_modify sl (\<lambda>fs. if map_of (fs_transfers fs) a = None then fs
                          else fs\<lparr>fs_transfers := AList.update a (f ft) (fs_transfers fs)\<rparr>)
   }"

section \<open>Transfers\<close>

definition login_into_id :: "mwLoginInfo \<Rightarrow> mwIdBlock" where
  "login_into_id from = \<lparr>ib_user = li_user_id from, ib_community = li_community from\<rparr>"

definition ft_state :: "'c ft_slot \<Rightarrow> addr \<Rightarrow> mwFileTransferState \<Rightarrow> ('c, unit) M" where
  "ft_state sl ft state = do {
     f \<leftarrow> ft_deref sl ft;
     if ft_st f = state then State_Monad.return () else ft_update sl ft (\<lambda>f. f\<lparr>ft_st := state\<rparr>)
   }"

definition mwFileTransfer_getState :: "'c ft_slot \<Rightarrow> addr \<Rightarrow> ('c, mwFileTransferState) M" where
  "mwFileTransfer_getState sl ft = do { f \<leftarrow> ft_deref sl ft; State_Monad.return (ft_st f) }"

definition mwFileTransfer_getUser :: "'c ft_slot \<Rightarrow> addr \<Rightarrow> ('c, mwIdBlock) M" where
  "mwFileTransfer_getUser sl ft = do { f \<leftarrow> ft_deref sl ft; State_Monad.return (ft_who f) }"

definition mwFileTransfer_getMessage :: "'c ft_slot \<Rightarrow> addr \<Rightarrow> ('c, cstr) M" where
  "mwFileTransfer_getMessage sl ft = do { f \<leftarrow> ft_deref sl ft; State_Monad.return (ft_message f) }"

definition mwFileTransfer_getFileName :: "'c ft_slot \<Rightarrow> addr \<Rightarrow> ('c, cstr) M" where
  "mwFileTransfer_getFileName sl ft = do { f \<leftarrow> ft_deref sl ft; State_Monad.return (ft_filename f) }"

definition mwFileTransfer_getFileSize :: "'c ft_slot \<Rightarrow> addr \<Rightarrow> ('c, guint32) M" where
  "mwFileTransfer_getFileSize sl ft = do { f \<leftarrow> ft_deref sl ft; State_Monad.return (ft_size f) }"

definition mwFileTransfer_getRemaining :: "'c ft_slot \<Rightarrow> addr \<Rightarrow> ('c, guint32) M" where
  "mwFileTransfer_getRemaining sl ft = do { f \<leftarrow> ft_deref sl ft; State_Monad.return (ft_remaining f) }"

definition mwServiceFileTransfer_getTransfers :: "'c ft_slot \<Rightarrow> ('c, addr list) M" where
  "mwServiceFileTransfer_getTransfers sl = srvc_get sl (\<lambda>fs. map fst (fs_transfers fs))"

definition mwFileTransfer_new :: "'c ft_slot \<Rightarrow> mwIdBlock \<Rightarrow> cstr \<Rightarrow> cstr \<Rightarrow> guint32 \<Rightarrow> ('c, addr) M" where
  "mwFileTransfer_new sl who msg filename filesize = do {
     a \<leftarrow> srvc_get sl fs_next;
     srvc_modify sl (\<lambda>fs. fs\<lparr>fs_next := Suc a, fs_transfers :=
       (a, mwFileTransfer_zero\<lparr>ft_who := mwIdBlock_clone mwIdBlock_zero who, ft_filename := filename,
             ft_message := msg, ft_size := filesize, ft_remaining := filesize\<rparr>) # fs_transfers fs\<rparr>);
     ft_state sl a mwFileTransfer_NEW;
     State_Monad.return a
   }"

definition mwFileTransfer_close ::
  "'c env \<Rightarrow> 'c ft_slot \<Rightarrow> 'c mwFileTransferHandler \<Rightarrow> addr \<Rightarrow> guint32 \<Rightarrow> ('c, gint) M" where
  "mwFileTransfer_close env sl h ft code = do {
     f \<leftarrow> ft_deref sl ft;
     (if ft_st f = mwFileTransfer_OPEN then ft_state sl ft mwFileTransfer_CANCEL_LOCAL else State_Monad.return ());
     ret \<leftarrow> (case ft_channel f of
         None \<Rightarrow> State_Monad.return 0
       | Some chan \<Rightarrow> do {
           ret \<leftarrow> mwChannel_destroy env chan code None;
           ft_update sl ft (\<lambda>f. f\<lparr>ft_channel := None\<rparr>);
           State_Monad.return ret
         });
     handler \<leftarrow> srvc_get sl fs_handler;
     if handler then do {
       optionally (map_option (\<lambda>ft_closed. ft_closed ft code) (fth_closed h));
       State_Monad.return ret
     } else State_Monad.return ret
   }"

text \<open>The transfer leaves the list before its channel is destroyed and its memory freed.\<close>

definition mwFileTransfer_free :: "'c env \<Rightarrow> 'c ft_slot \<Rightarrow> addr \<Rightarrow> ('c, unit) M" where
  "mwFileTransfer_free env sl ft = do {
     f \<leftarrow> ft_deref sl ft;
     srvc_modify sl (\<lambda>fs. fs\<lparr>fs_transfers := AList.delete ft (fs_transfers fs)\<rparr>);
     case ft_channel f of
       None \<Rightarrow> State_Monad.return ()
     | Some chan \<Rightarrow> do { mwChannel_destroy env chan mwFileTransfer_SUCCESS None; State_Monad.return () }
   }"

definition mwFileTransfer_accept ::
  "'c env \<Rightarrow> 'c ft_slot \<Rightarrow> 'c mwFileTransferHandler \<Rightarrow> addr \<Rightarrow> ('c, gint) M" where
  "mwFileTransfer_accept env sl h ft = do {
     f \<leftarrow> ft_deref sl ft;
     case ft_channel f of
       None \<Rightarrow> State_Monad.return (- 1)
     | Some chan \<Rightarrow> do {
         incoming \<leftarrow> (if ft_st f = mwFileTransfer_PENDING then mwChannel_isIncoming chan else State_Monad.return False);
         wait \<leftarrow> (if incoming then mwChannel_isState chan mwChannel_WAIT else State_Monad.return False);
         handler \<leftarrow> srvc_get sl fs_handler;
         if \<not> wait \<or> \<not> handler then State_Monad.return (- 1)
         else do {
           ret \<leftarrow> mwChannel_accept env chan;
           if ret \<noteq> 0 then do { mwFileTransfer_close env sl h ft ERR_FAILURE; State_Monad.return ret }
           else do {
             ft_state sl ft mwFileTransfer_OPEN;
             optionally (map_option (\<lambda>ft_opened. ft_opened ft) (fth_opened h));
             State_Monad.return ret
           }
         }
       }
   }"

text \<open>
  \<open>mwChannel_newOutgoing\<close> always finds an identifier; the branch without one stands for the
  endless loop it would be.
\<close>

definition ft_create_chan :: "'c env \<Rightarrow> 'c ft_slot \<Rightarrow> addr \<Rightarrow> ('c, unit) M" where
  "ft_create_chan env sl ft = do {
     f \<leftarrow> ft_deref sl ft;
     if ft_st f \<noteq> mwFileTransfer_NEW \<or> ft_channel f \<noteq> None then State_Monad.return ()
     else do {
       chan \<leftarrow> mwChannel_newOutgoing;
       case chan of
         None \<Rightarrow> State_Monad.return ()
       | Some chan \<Rightarrow> do {
           mwChannel_setService chan (service_of mwService_FILE_TRANSFER);
           mwChannel_setProtoType chan FT_PROTOCOL_TYPE;
           mwChannel_setProtoVer chan FT_PROTOCOL_VER;
           mwChannel_populateSupportedCipherInstances env chan;
           chan_update chan (\<lambda>ch. ch\<lparr>ch_user := (ch_user ch)\<lparr>li_user_id := ib_user (ft_who f),
             li_community := ib_community (ft_who f)\<rparr>\<rparr>);
           mwChannel_setAddtlCreate chan (put_opaque (do {
             guint32_put 0;
             mwString_put (ft_filename f);
             mwString_put (ft_message f);
             guint32_put (ft_size f);
             guint32_put 0;
             guint16_put 0
           }));
           ret \<leftarrow> mwChannel_create env chan;
           if ret \<noteq> 0 then ft_update sl ft (\<lambda>f. f\<lparr>ft_channel := None\<rparr>)
           else do {
             ft_update sl ft (\<lambda>f. f\<lparr>ft_channel := Some chan\<rparr>);
             mwChannel_setServiceData chan (Some ft)
           }
         }
     }
   }"

definition mwFileTransfer_offer ::
  "'c env \<Rightarrow> 'c ft_slot \<Rightarrow> 'c mwFileTransferHandler \<Rightarrow> addr \<Rightarrow> ('c, gint) M" where
  "mwFileTransfer_offer env sl h ft = do {
     f \<leftarrow> ft_deref sl ft;
     handler \<leftarrow> srvc_get sl fs_handler;
     if ft_channel f \<noteq> None \<or> ft_st f \<noteq> mwFileTransfer_NEW \<or> \<not> handler then State_Monad.return (- 1)
     else do {
       ft_create_chan env sl ft;
       f \<leftarrow> ft_deref sl ft;
       if ft_channel f \<noteq> None then do { ft_state sl ft mwFileTransfer_PENDING; State_Monad.return 0 }
       else do {
         ft_state sl ft mwFileTransfer_ERROR;
         mwFileTransfer_close env sl h ft ERR_FAILURE;
         State_Monad.return 0
       }
     }
   }"

definition mwFileTransfer_send :: "'c env \<Rightarrow> 'c ft_slot \<Rightarrow> addr \<Rightarrow> mwOpaque \<Rightarrow> ('c, gint) M" where
  "mwFileTransfer_send env sl ft data = do {
     f \<leftarrow> ft_deref sl ft;
     if ft_st f \<noteq> mwFileTransfer_OPEN then State_Monad.return (- 1)
     else case ft_channel f of
       None \<Rightarrow> State_Monad.return (- 1)
     | Some chan \<Rightarrow> do {
         outgoing \<leftarrow> mwChannel_isOutgoing chan;
         if \<not> outgoing then State_Monad.return (- 1)
         else if unat (ft_remaining f) < op_len data then State_Monad.return (- 1)
         else do {
           ret \<leftarrow> mwChannel_send env chan msg_TRANSFER data;
           (if ret = 0 then ft_update sl ft (\<lambda>f. f\<lparr>ft_remaining := ft_remaining f - of_nat (op_len data)\<rparr>)
           else State_Monad.return ());
           State_Monad.return ret
         }
       }
   }"

definition mwFileTransfer_ack :: "'c env \<Rightarrow> 'c ft_slot \<Rightarrow> addr \<Rightarrow> ('c, gint) M" where
  "mwFileTransfer_ack env sl ft = do {
     f \<leftarrow> ft_deref sl ft;
     case ft_channel f of
       None \<Rightarrow> State_Monad.return (- 1)
     | Some chan \<Rightarrow> do {
         incoming \<leftarrow> mwChannel_isIncoming chan;
         if \<not> incoming then State_Monad.return (- 1)
         else mwChannel_sendEncrypted env chan msg_RECEIVED (opaque_of []) False
       }
   }"

section \<open>Messages\<close>

text \<open>
  The locals of the reader that stay uninitialised on a short buffer are only used when there
  was no error, so their first value does not matter.
\<close>

definition ft_recv_channelCreate ::
  "'c env \<Rightarrow> 'c ft_slot \<Rightarrow> 'c mwFileTransferHandler \<Rightarrow> guint32 \<Rightarrow> mwMsgChannelCreate \<Rightarrow> ('c, unit) M" where
  "ft_recv_channelCreate env sl h chan msg = do {
     handler \<leftarrow> srvc_get sl fs_handler;
     if \<not> handler then State_Monad.return ()
     else
       let ((fnm, txt', size), b) = run_state (do {
             guint32_get 0;
             fnm \<leftarrow> mwString_get;
             txt' \<leftarrow> mwString_get;
             size \<leftarrow> guint32_get 0;
             guint32_get 0;
             State_Monad.return (fnm, txt', size)
           }) (mwGetBuffer_wrap (Some (cc_addtl msg)))
       in if gb_error b then do { mwChannel_destroy env chan ERR_FAILURE None; State_Monad.return () }
          else do {
            user \<leftarrow> mwChannel_getUser chan;
            ft \<leftarrow> mwFileTransfer_new sl (login_into_id user) txt' fnm size;
            ft_update sl ft (\<lambda>f. f\<lparr>ft_channel := Some chan\<rparr>);
            ft_state sl ft mwFileTransfer_PENDING;
            mwChannel_setServiceData chan (Some ft);
            optionally (map_option (\<lambda>ft_offered. ft_offered ft) (fth_offered h))
          }
   }"

definition ft_recv_channelAccept ::
  "'c ft_slot \<Rightarrow> 'c mwFileTransferHandler \<Rightarrow> guint32 \<Rightarrow> mwMsgChannelAccept \<Rightarrow> ('c, unit) M" where
  "ft_recv_channelAccept sl h chan msg = do {
     handler \<leftarrow> srvc_get sl fs_handler;
     if \<not> handler then State_Monad.return ()
     else do {
       ft \<leftarrow> mwChannel_getServiceData chan;
       case ft of
         None \<Rightarrow> State_Monad.return ()
       | Some ft \<Rightarrow> do {
           ft_state sl ft mwFileTransfer_OPEN;
           optionally (map_option (\<lambda>ft_opened. ft_opened ft) (fth_opened h))
         }
     }
   }"

definition ft_recv_channelDestroy ::
  "'c env \<Rightarrow> 'c ft_slot \<Rightarrow> 'c mwFileTransferHandler \<Rightarrow> guint32 \<Rightarrow> mwMsgChannelDestroy \<Rightarrow> ('c, unit) M" where
  "ft_recv_channelDestroy env sl h chan msg = do {
     let code = cd_reason msg;
     handler \<leftarrow> srvc_get sl fs_handler;
     if \<not> handler then State_Monad.return ()
     else do {
       ft \<leftarrow> mwChannel_getServiceData chan;
       case ft of
         None \<Rightarrow> State_Monad.return ()
       | Some ft \<Rightarrow> do {
           ft_update sl ft (\<lambda>f. f\<lparr>ft_channel := None\<rparr>);
           st \<leftarrow> mwFileTransfer_getState sl ft;
           (if st \<noteq> mwFileTransfer_DONE then ft_state sl ft mwFileTransfer_CANCEL_REMOTE else State_Monad.return ());
           mwFileTransfer_close env sl h ft code;
           State_Monad.return ()
         }
     }
   }"

text \<open>The two message functions follow \<open>srvc->handler\<close> without a check.\<close>

definition ft_handler_deref :: "'c ft_slot \<Rightarrow> ('c, unit) M" where
  "ft_handler_deref sl = do {
     handler \<leftarrow> srvc_get sl fs_handler;
     if handler then State_Monad.return () else fault
   }"

definition recv_TRANSFER :: "'c ft_slot \<Rightarrow> 'c mwFileTransferHandler \<Rightarrow> addr \<Rightarrow> mwOpaque \<Rightarrow> ('c, unit) M" where
  "recv_TRANSFER sl h ft data = do {
     f \<leftarrow> ft_deref sl ft;
     if ft_st f \<noteq> mwFileTransfer_OPEN then State_Monad.return ()
     else if unat (ft_remaining f) < op_len data then State_Monad.return ()
     else do {
       ft_update sl ft (\<lambda>f. f\<lparr>ft_remaining := ft_remaining f - of_nat (op_len data)\<rparr>);
       f \<leftarrow> ft_deref sl ft;
       (if ft_remaining f = 0 then ft_state sl ft mwFileTransfer_DONE else State_Monad.return ());
       ft_handler_deref sl;
       optionally (map_option (\<lambda>ft_recv. ft_recv ft data) (fth_recv h))
     }
   }"

definition recv_RECEIVED :: "'c env \<Rightarrow> 'c ft_slot \<Rightarrow> 'c mwFileTransferHandler \<Rightarrow> addr \<Rightarrow> ('c, unit) M" where
  "recv_RECEIVED env sl h ft = do {
     f \<leftarrow> ft_deref sl ft;
     (if ft_remaining f = 0 then ft_state sl ft mwFileTransfer_DONE else State_Monad.return ());
     ft_handler_deref sl;
     optionally (map_option (\<lambda>ft_ack. ft_ack ft) (fth_ack h));
     f \<leftarrow> ft_deref sl ft;
     if ft_remaining f = 0 then do { mwFileTransfer_close env sl h ft mwFileTransfer_SUCCESS; State_Monad.return () }
     else State_Monad.return ()
   }"

definition ft_recv ::
  "'c env \<Rightarrow> 'c ft_slot \<Rightarrow> 'c mwFileTransferHandler \<Rightarrow> guint32 \<Rightarrow> guint16 \<Rightarrow> mwOpaque \<Rightarrow> ('c, unit) M" where
  "ft_recv env sl h chan type data = do {
     ft \<leftarrow> mwChannel_getServiceData chan;
     case ft of
       None \<Rightarrow> State_Monad.return ()
     | Some ft \<Rightarrow>
         if ucast type = msg_TRANSFER then recv_TRANSFER sl h ft data
         else if ucast type = msg_RECEIVED then recv_RECEIVED env sl h ft
         else State_Monad.return ()
   }"

section \<open>The service\<close>

definition ft_clear :: "'c ft_slot \<Rightarrow> 'c mwFileTransferHandler \<Rightarrow> ('c, unit) M" where
  "ft_clear sl h = do {
     handler \<leftarrow> srvc_get sl fs_handler;
     (if handler then optionally (fth_clear h) else State_Monad.return ());
     srvc_modify sl (\<lambda>fs. fs\<lparr>fs_handler := False\<rparr>)
   }"

definition ft_start :: "('c, unit) M" where
  "ft_start = mwService_started mwService_FILE_TRANSFER"

text \<open>
  \<open>while(srvc->transfers) mwFileTransfer_free(srvc->transfers->data);\<close> with one turn for each
  transfer in the list. Freeing a transfer calls no function of the handler, so the list only
  shrinks unless the write function of the connection adds to it.
\<close>

fun ft_free_all :: "'c env \<Rightarrow> 'c ft_slot \<Rightarrow> nat \<Rightarrow> ('c, unit) M" where
  "ft_free_all env sl 0 = State_Monad.return ()"
| "ft_free_all env sl (Suc n) = do {
     fts \<leftarrow> mwServiceFileTransfer_getTransfers sl;
     case fts of
       [] \<Rightarrow> State_Monad.return ()
     | ft # _ \<Rightarrow> do { mwFileTransfer_free env sl ft; ft_free_all env sl n }
   }"

definition ft_stop :: "'c env \<Rightarrow> 'c ft_slot \<Rightarrow> ('c, unit) M" where
  "ft_stop env sl = do {
     fts \<leftarrow> mwServiceFileTransfer_getTransfers sl;
     ft_free_all env sl (length fts);
     mwService_stopped mwService_FILE_TRANSFER
   }"

definition mwServiceFileTransfer_new :: mwServiceFileTransfer where
  "mwServiceFileTransfer_new = \<lparr>fs_handler = True, fs_transfers = [], fs_next = 0\<rparr>"

text \<open>The functions that \<open>mwServiceFileTransfer_new\<close> enters into its \<open>struct mwService\<close>.\<close>

definition ft_install :: "'c ft_slot \<Rightarrow> 'c mwFileTransferHandler \<Rightarrow> 'c env \<Rightarrow> 'c env" where
  "ft_install sl h env = env\<lparr>
     e_start := (e_start env)(mwService_FILE_TRANSFER \<mapsto> ft_start),
     e_stop := (e_stop env)(mwService_FILE_TRANSFER \<mapsto> ft_stop env sl),
     e_recv_create := (e_recv_create env)(mwService_FILE_TRANSFER \<mapsto> ft_recv_channelCreate env sl h),
     e_recv_accept := (e_recv_accept env)(mwService_FILE_TRANSFER \<mapsto> ft_recv_channelAccept sl h),
     e_recv_destroy := (e_recv_destroy env)(mwService_FILE_TRANSFER \<mapsto> ft_recv_channelDestroy env sl h),
     e_recv := (e_recv env)(mwService_FILE_TRANSFER \<mapsto> ft_recv env sl h)\<rparr>"

section \<open>What the service keeps\<close>

text \<open>
  Every transfer has its own address, counts what remains within its size, and is done only
  when nothing remains.
\<close>

definition transfer_ok :: "mwFileTransfer \<Rightarrow> bool" where
  "transfer_ok f \<longleftrightarrow> ft_remaining f \<le> ft_size f \<and> (ft_st f = mwFileTransfer_DONE \<longrightarrow> ft_remaining f = 0)"

definition ft_ok :: "mwServiceFileTransfer \<Rightarrow> bool" where
  "ft_ok fs \<longleftrightarrow> distinct (map fst (fs_transfers fs))
     \<and> (\<forall>(a, f) \<in> set (fs_transfers fs). a < fs_next fs \<and> transfer_ok f)"

lemma ft_ok_at: "ft_ok fs \<Longrightarrow> map_of (fs_transfers fs) a = Some f \<Longrightarrow> a < fs_next fs \<and> transfer_ok f"
  by (auto simp: ft_ok_def dest!: map_of_SomeD)

lemma ft_ok_update:
  assumes "ft_ok fs" and "map_of (fs_transfers fs) a = Some f" and "transfer_ok f'"
  shows "ft_ok (fs\<lparr>fs_transfers := AList.update a f' (fs_transfers fs)\<rparr>)"
  using assms map_of_SomeD [OF assms(2)] by (auto simp: ft_ok_def distinct_update dest!: in_update)

lemma ft_ok_delete: "ft_ok fs \<Longrightarrow> ft_ok (fs\<lparr>fs_transfers := AList.delete a (fs_transfers fs)\<rparr>)"
  by (auto simp: ft_ok_def distinct_delete dest!: in_delete)

lemma ft_ok_new:
  "ft_ok fs \<Longrightarrow> transfer_ok f \<Longrightarrow> ft_ok (fs\<lparr>fs_next := Suc (fs_next fs), fs_transfers := (fs_next fs, f) # fs_transfers fs\<rparr>)"
  by (force simp: ft_ok_def)

definition handler_keeps :: "('c mwSession \<Rightarrow> bool) \<Rightarrow> 'c mwFileTransferHandler \<Rightarrow> bool" where
  "handler_keeps P h \<longleftrightarrow> (\<forall>f a. fth_offered h = Some f \<longrightarrow> keeps P (f a)) \<and> (\<forall>f a. fth_opened h = Some f \<longrightarrow> keeps P (f a))
     \<and> (\<forall>f a c. fth_closed h = Some f \<longrightarrow> keeps P (f a c)) \<and> (\<forall>f a d. fth_recv h = Some f \<longrightarrow> keeps P (f a d))
     \<and> (\<forall>f a. fth_ack h = Some f \<longrightarrow> keeps P (f a)) \<and> (\<forall>m. fth_clear h = Some m \<longrightarrow> keeps P m)"

lemma handler_keepsD:
  assumes "handler_keeps P h"
  shows "fth_offered h = Some f1 \<Longrightarrow> keeps P (f1 a)" "fth_opened h = Some f1 \<Longrightarrow> keeps P (f1 a)"
    "fth_closed h = Some f2 \<Longrightarrow> keeps P (f2 a c)" "fth_recv h = Some f3 \<Longrightarrow> keeps P (f3 a d)"
    "fth_ack h = Some f1 \<Longrightarrow> keeps P (f1 a)" "fth_clear h = Some m \<Longrightarrow> keeps P m"
  using assms by (auto simp: handler_keeps_def)

text \<open>The transfer behind an address, and the session with that transfer replaced.\<close>

definition ft_at :: "'c ft_slot \<Rightarrow> 'c mwSession \<Rightarrow> addr \<Rightarrow> mwFileTransfer option" where
  "ft_at sl s a = map_of (fs_transfers (srvc_of sl s)) a"

definition ft_put :: "'c ft_slot \<Rightarrow> addr \<Rightarrow> mwFileTransfer \<Rightarrow> 'c mwSession \<Rightarrow> 'c mwSession" where
  "ft_put sl a f s = srvc_set sl ((srvc_of sl s)\<lparr>fs_transfers := AList.update a f (fs_transfers (srvc_of sl s))\<rparr>) s"

lemma run_ft_deref: "run_state (ft_deref sl a) s
    = (case ft_at sl s a of Some f \<Rightarrow> (f, s) | None \<Rightarrow> (mwFileTransfer_zero, s\<lparr>ss_fault := True\<rparr>))"
  by (simp add: ft_deref_def ft_at_def fault_def split: option.split)

lemma run_ft_update: "run_state (ft_update sl a g) s
    = (case ft_at sl s a of Some f \<Rightarrow> ((), ft_put sl a (g f) s)
       | None \<Rightarrow> ((), srvc_set sl (srvc_of sl s) (s\<lparr>ss_fault := True\<rparr>)))"
  by (simp add: ft_update_def run_ft_deref ft_put_def ft_at_def split: option.split)

locale ft_slot = service_slot sl for sl :: "'c ft_slot"
begin

lemma ft_at_put [simp]: "ft_at sl (ft_put sl a f s) = (ft_at sl s)(a \<mapsto> f)"
  by (rule ext) (simp add: ft_at_def ft_put_def update_conv')

lemma ft_put_put [simp]: "ft_put sl a f (ft_put sl a g s) = ft_put sl a f s"
  by (simp add: ft_put_def update_last)

lemma ft_put_same: "ft_at sl s a = Some f \<Longrightarrow> ft_put sl a f s = s"
  by (simp add: ft_put_def ft_at_def update_same srvc_set_same)

abbreviation ok :: "'c mwSession \<Rightarrow> bool" where
  "ok \<equiv> \<lambda>s. ft_ok (srvc_of sl s)"

lemma ok_put: "ok s \<Longrightarrow> ft_at sl s a = Some f \<Longrightarrow> transfer_ok f' \<Longrightarrow> ok (ft_put sl a f' s)"
  by (simp add: ft_put_def ft_at_def ft_ok_update)

lemma keeps_ft_deref [keeps_intros]: "keeps ok (ft_deref sl a)"
  by (simp add: keeps_def run_ft_deref split: option.split)

lemma keeps_ft_update:
  assumes "\<And>f. transfer_ok f \<Longrightarrow> transfer_ok (g f)"
  shows "keeps ok (ft_update sl a g)"
  using assms ft_ok_at by (auto simp: keeps_def run_ft_update ft_at_def ok_put split: option.split)

lemma keeps_ft_state [keeps_intros]: "st \<noteq> mwFileTransfer_DONE \<Longrightarrow> keeps ok (ft_state sl a st)"
  unfolding ft_state_def by (intro keeps_intros keeps_ft_update) (simp add: transfer_ok_def)

end

context ft_slot
begin

lemma keeps_ft_set [keeps_intros]: "keeps ok (ft_update sl a (\<lambda>f. f\<lparr>ft_channel := c\<rparr>))"
  by (rule keeps_ft_update) (simp add: transfer_ok_def)

lemma keeps_ft_getters [keeps_intros]:
  "keeps ok (mwFileTransfer_getState sl a)" "keeps ok (mwServiceFileTransfer_getTransfers sl)"
  unfolding mwFileTransfer_getState_def mwServiceFileTransfer_getTransfers_def by (intro keeps_intros)+

lemma keeps_ft_new [keeps_intros]: "keeps ok (mwFileTransfer_new sl who m fnm n)"
proof -
  let ?f = "mwFileTransfer_zero\<lparr>ft_who := mwIdBlock_clone mwIdBlock_zero who, ft_filename := fnm,
      ft_message := m, ft_size := n, ft_remaining := n\<rparr>"
  have f: "transfer_ok ?f" by (simp add: transfer_ok_def mwFileTransfer_zero_def)
  have "ok (exec_state (mwFileTransfer_new sl who m fnm n) s)" if "ok s" for s
  proof -
    from ft_ok_new [OF that f]
    have "ok (srvc_set sl ((srvc_of sl s)\<lparr>fs_next := Suc (fs_next (srvc_of sl s)),
        fs_transfers := (fs_next (srvc_of sl s), ?f) # fs_transfers (srvc_of sl s)\<rparr>) s)" by simp
    from keepsD [OF keeps_ft_state this, of mwFileTransfer_NEW] show ?thesis
      by (simp add: mwFileTransfer_new_def split_def)
  qed
  then show ?thesis by (simp add: keeps_def)
qed

end

text \<open>
  The service with the code of the client, which has to keep the invariant, too. The function
  that writes to the connection may not call back into the service.
\<close>

locale ft_service = ft_slot +
  fixes env :: "'a env" and h :: "'a mwFileTransferHandler"
  assumes env: "env_keeps ok env" and h: "handler_keeps ok h"
    and wr: "keeps (\<lambda>s. srvc_of sl s = x) (e_io_write env b)"
begin

lemmas E = srvc.keeps_channel [OF env] srvc.keeps_negotiation [OF env] srvc.keeps_small srvc.keeps_newOutgoing

lemma keeps_close [keeps_intros]: "keeps ok (mwFileTransfer_close env sl h a code)"
  unfolding mwFileTransfer_close_def by (intro keeps_intros E) (simp_all add: handler_keepsD [OF h])

lemma keeps_free [keeps_intros]: "keeps ok (mwFileTransfer_free env sl a)"
  unfolding mwFileTransfer_free_def by (intro keeps_intros E keeps_srvc_modify ft_ok_delete)

lemma keeps_accept: "keeps ok (mwFileTransfer_accept env sl h a)"
  unfolding mwFileTransfer_accept_def mwChannel_isIncoming_def mwChannel_isState_def
  by (intro keeps_intros E) (simp_all add: handler_keepsD [OF h])

end

context ft_service
begin

lemma keeps_ack: "keeps ok (mwFileTransfer_ack env sl a)"
  unfolding mwFileTransfer_ack_def mwChannel_isIncoming_def by (intro keeps_intros E)

lemma keeps_create_chan [keeps_intros]: "keeps ok (ft_create_chan env sl a)"
  unfolding ft_create_chan_def mwChannel_setService_def mwChannel_setProtoType_def mwChannel_setProtoVer_def
    mwChannel_setAddtlCreate_def mwChannel_setServiceData_def channel_set_def mwChannel_populateSupportedCipherInstances_def
  by (intro keeps_intros E) simp_all

lemma keeps_offer: "keeps ok (mwFileTransfer_offer env sl h a)"
  unfolding mwFileTransfer_offer_def by (intro keeps_intros E) simp_all

lemma keeps_recv_channelCreate: "keeps ok (ft_recv_channelCreate env sl h c m)"
  unfolding ft_recv_channelCreate_def mwChannel_getUser_def mwChannel_setServiceData_def Let_def split_def
  by (intro keeps_intros E) (simp_all add: handler_keepsD [OF h])

lemma keeps_recv_channelAccept: "keeps ok (ft_recv_channelAccept sl h c m')"
  unfolding ft_recv_channelAccept_def mwChannel_getServiceData_def
  by (intro keeps_intros E) (simp_all add: handler_keepsD [OF h])

lemma keeps_recv_channelDestroy: "keeps ok (ft_recv_channelDestroy env sl h c m'')"
  unfolding ft_recv_channelDestroy_def mwChannel_getServiceData_def Let_def
  by (intro keeps_intros E) simp_all

end

text \<open>A transfer after a piece of data, at the receiving end.\<close>

definition ft_sent :: "mwFileTransfer \<Rightarrow> mwOpaque \<Rightarrow> mwFileTransfer" where
  "ft_sent f d = f\<lparr>ft_remaining := ft_remaining f - of_nat (op_len d)\<rparr>"

definition ft_took :: "mwFileTransfer \<Rightarrow> mwOpaque \<Rightarrow> mwFileTransfer" where
  "ft_took f d = (if ft_remaining (ft_sent f d) = 0 then (ft_sent f d)\<lparr>ft_st := mwFileTransfer_DONE\<rparr> else ft_sent f d)"

lemma unat_sent: "op_len d \<le> unat (ft_remaining f) \<Longrightarrow> unat (ft_remaining (ft_sent f d)) = unat (ft_remaining f) - op_len d"
proof -
  assume le: "op_len d \<le> unat (ft_remaining f)"
  have "op_len d < 2 ^ 32"
    by (rule order.strict_trans1 [OF le]) (use unsigned_less [of "ft_remaining f"] in simp)
  then have "unat (of_nat (op_len d) :: guint32) = op_len d" by (simp add: unat_of_nat)
  with le show ?thesis by (simp add: ft_sent_def unat_sub word_le_nat_alt)
qed

lemma transfer_ok_sent:
  assumes "transfer_ok f" and "op_len d \<le> unat (ft_remaining f)"
  shows "transfer_ok (ft_sent f d)" "transfer_ok (ft_took f d)"
proof -
  have "ft_remaining (ft_sent f d) \<le> ft_size f"
    using assms unat_sent [OF assms(2)] by (auto simp: transfer_ok_def word_le_nat_alt)
  moreover have "ft_st f = mwFileTransfer_DONE \<Longrightarrow> ft_remaining (ft_sent f d) = 0"
    using assms unat_sent [OF assms(2)] by (simp add: transfer_ok_def unat_eq_zero flip: unat_eq_zero)
  ultimately show "transfer_ok (ft_sent f d)" "transfer_ok (ft_took f d)"
    by (auto simp: transfer_ok_def ft_took_def ft_sent_def)
qed

context ft_slot
begin

lemma run_ft_state:
  "ft_at sl s a = Some f \<Longrightarrow> run_state (ft_state sl a st) s = ((), ft_put sl a (f\<lparr>ft_st := st\<rparr>) s)"
proof -
  assume f: "ft_at sl s a = Some f"
  have "f\<lparr>ft_st := ft_st f\<rparr> = f" by (cases f) simp
  with f show ?thesis
    by (auto simp: ft_state_def run_ft_deref run_ft_update ft_put_same)
qed

lemma run_recv_TRANSFER:
  assumes "ft_at sl s a = Some f"
  shows "run_state (recv_TRANSFER sl h a d) s
    = (if ft_st f \<noteq> mwFileTransfer_OPEN \<or> unat (ft_remaining f) < op_len d then ((), s)
       else run_state (do { ft_handler_deref sl; optionally (map_option (\<lambda>recv. recv a d) (fth_recv h)) })
         (ft_put sl a (ft_took f d) s))"
  using assms by (simp add: recv_TRANSFER_def run_ft_deref run_ft_update run_ft_state ft_took_def ft_sent_def)

text \<open>What \<open>recv_RECEIVED\<close> does to a transfer before it calls the client.\<close>

lemma run_received:
  assumes "ft_at sl s a = Some f"
  shows "run_state (recv_RECEIVED env sl h a) s
    = run_state (do {
        ft_handler_deref sl;
        optionally (map_option (\<lambda>ft_ack. ft_ack a) (fth_ack h));
        f \<leftarrow> ft_deref sl a;
        if ft_remaining f = 0 then do { mwFileTransfer_close env sl h a mwFileTransfer_SUCCESS; State_Monad.return () }
        else State_Monad.return ()
      }) (if ft_remaining f = 0 then ft_put sl a (f\<lparr>ft_st := mwFileTransfer_DONE\<rparr>) s else s)"
  using assms by (simp add: recv_RECEIVED_def run_ft_deref run_ft_state)

end

context ft_service
begin

lemma keeps_handler_deref [keeps_intros]: "keeps ok (ft_handler_deref sl)"
  unfolding ft_handler_deref_def by (intro keeps_intros E)

lemma keeps_recv_TRANSFER [keeps_intros]: "keeps ok (recv_TRANSFER sl h a d)"
proof -
  have cont: "keeps ok (do { ft_handler_deref sl; optionally (map_option (\<lambda>recv. recv a d) (fth_recv h)) })"
    by (intro keeps_intros) (simp_all add: handler_keepsD [OF h])
  have "ok (exec_state (recv_TRANSFER sl h a d) s)" if s: "ok s" for s
  proof (cases "ft_at sl s a")
    case None
    with s show ?thesis
      by (simp add: recv_TRANSFER_def run_ft_deref mwFileTransfer_zero_def)
  next
    case (Some f)
    with s have f: "transfer_ok f" by (auto simp: ft_at_def dest: ft_ok_at)
    show ?thesis
    proof (cases "ft_st f \<noteq> mwFileTransfer_OPEN \<or> unat (ft_remaining f) < op_len d")
      case True
      with Some s show ?thesis by (auto simp: run_recv_TRANSFER)
    next
      case False
      with transfer_ok_sent(2) [OF f, of d] ok_put [OF s Some] have "ok (ft_put sl a (ft_took f d) s)" by simp
      from keepsD [OF cont this] Some False show ?thesis by (simp add: run_recv_TRANSFER)
    qed
  qed
  then show ?thesis by (simp add: keeps_def)
qed

lemma keeps_recv_RECEIVED [keeps_intros]: "keeps ok (recv_RECEIVED env sl h a)"
proof -
  have first: "keeps ok (do { f \<leftarrow> ft_deref sl a;
      (if ft_remaining f = 0 then ft_state sl a mwFileTransfer_DONE else State_Monad.return ()) })"
    unfolding keeps_def
  proof (intro allI impI)
    fix s
    assume s: "ok s"
    have "transfer_ok (f\<lparr>ft_st := mwFileTransfer_DONE\<rparr>)" if "ft_remaining f = 0" for f
      using that by (simp add: transfer_ok_def)
    with s ok_put [OF s] show "ok (exec_state (do { f \<leftarrow> ft_deref sl a;
        (if ft_remaining f = 0 then ft_state sl a mwFileTransfer_DONE else State_Monad.return ()) }) s)"
      by (cases "ft_at sl s a")
        (simp_all add: run_ft_deref run_ft_state ft_state_def run_ft_update ft_at_def
          mwFileTransfer_zero_def)
  qed
  show ?thesis
    unfolding recv_RECEIVED_def
    by (rule keeps_bind2 [OF first], intro keeps_intros) (simp_all add: handler_keepsD [OF h])
qed

lemma keeps_recv: "keeps ok (ft_recv env sl h c t d)"
  unfolding ft_recv_def mwChannel_getServiceData_def by (intro keeps_intros E)

lemma keeps_ft_clear: "keeps ok (ft_clear sl h)"
proof -
  have "keeps ok (srvc_modify sl (\<lambda>fs. fs\<lparr>fs_handler := False\<rparr>))"
    by (rule keeps_srvc_modify) (simp add: ft_ok_def)
  then show ?thesis
    unfolding ft_clear_def by (intro keeps_intros keeps_optionally; simp add: handler_keepsD(6) [OF h])
qed

lemma keeps_ft_stop: "keeps ok (ft_stop env sl)"
proof -
  have "keeps ok (ft_free_all env sl n)" for n
  proof (induction n)
    case (Suc n)
    have "keeps ok (case fts of [] \<Rightarrow> State_Monad.return ()
        | ft # _ \<Rightarrow> do { mwFileTransfer_free env sl ft; ft_free_all env sl n })" for fts
      using Suc by (cases fts) (simp_all add: keeps_return keeps_bind keeps_free)
    then show ?case by (simp add: keeps_bind keeps_ft_getters)
  qed (simp add: keeps_return)
  note all = this
  show ?thesis
    unfolding ft_stop_def by (intro keeps_intros all srvc.keeps_service_state)
qed

end

context ft_service
begin

lemma keeps_send: "keeps ok (mwFileTransfer_send env sl a d)"
proof -
  have "ok (exec_state (mwFileTransfer_send env sl a d) s)" if s: "ok s" for s
  proof (cases "ft_at sl s a")
    case None
    with s show ?thesis by (simp add: mwFileTransfer_send_def run_ft_deref mwFileTransfer_zero_def)
  next
    case (Some f)
    with s have f: "transfer_ok f" by (auto simp: ft_at_def dest: ft_ok_at)
    have same: "srvc_of sl (exec_state (mwChannel_send env c msg_TRANSFER d) t) = srvc_of sl s"
      if "srvc_of sl t = srvc_of sl s" for t c
      using keepsD [OF keeps_channel_write(1) [of "\<lambda>x. x = srvc_of sl s", OF wr, of c msg_TRANSFER d True] that]
      by (simp add: mwChannel_send_def)
    have sent: "ok (ft_put sl a (ft_sent f d) (exec_state (mwChannel_send env c msg_TRANSFER d) t))"
      "ft_at sl (exec_state (mwChannel_send env c msg_TRANSFER d) t) a = Some f"
      "ok (exec_state (mwChannel_send env c msg_TRANSFER d) t)"
      if "srvc_of sl t = srvc_of sl s" and "op_len d \<le> unat (ft_remaining f)" for t c
      using same [OF that(1), of c] s Some transfer_ok_sent(1) [OF f that(2)]
      by (auto simp: ft_at_def intro!: ok_put)
    show ?thesis
      using s Some sent
      by (auto simp: mwFileTransfer_send_def run_ft_deref run_ft_update mwChannel_isOutgoing_def chan_deref_def fault_def
          split_def not_less ft_sent_def split: option.split)
  qed
  then show ?thesis by (simp add: keeps_def)
qed

lemma env_keeps_install: "env_keeps ok (ft_install sl h env)"
  using env keeps_recv_channelCreate keeps_recv_channelAccept keeps_recv_channelDestroy keeps_recv keeps_ft_stop
    srvc.keeps_service_state(3)
  unfolding env_keeps_def ft_install_def ft_start_def by simp

lemma wr_install: "keeps (\<lambda>s. srvc_of sl s = x) (e_io_write (ft_install sl h env) b)"
  using wr by (simp add: ft_install_def)

end

context ft_service
begin

text \<open>Stopping the service frees every transfer.\<close>

lemma transfers_free:
  "fs_transfers (srvc_of sl (exec_state (mwFileTransfer_free env sl a) s)) = AList.delete a (fs_transfers (srvc_of sl s))"
proof -
  have "fs_transfers (srvc_of sl (exec_state (mwChannel_destroy env c r i) t)) = fs_transfers (srvc_of sl t)" for c r i t
    using keepsD [OF keeps_channel_write(2) [of "\<lambda>x. x = srvc_of sl t", OF wr]] by fastforce
  then show ?thesis
    by (simp add: mwFileTransfer_free_def run_ft_deref split_def ft_at_def split: option.split)
qed

lemma transfers_free_all:
  "length (fs_transfers (srvc_of sl s)) \<le> n \<Longrightarrow> fs_transfers (srvc_of sl (exec_state (ft_free_all env sl n) s)) = []"
proof (induction n arbitrary: s)
  case (Suc n)
  show ?case
  proof (cases "fs_transfers (srvc_of sl s)")
    case Nil
    then show ?thesis by (simp add: mwServiceFileTransfer_getTransfers_def)
  next
    case (Cons x xs)
    have "length (AList.delete (fst x) (x # xs)) \<le> length xs"
      using length_delete_le [of "fst x" xs] by (cases x) simp
    with Cons Suc.prems have
      "length (fs_transfers (srvc_of sl (exec_state (mwFileTransfer_free env sl (fst x)) s))) \<le> n"
      by (simp add: transfers_free)
    from Suc.IH [OF this] Cons show ?thesis
      by (simp add: mwServiceFileTransfer_getTransfers_def split_def)
  qed
qed simp

lemma ft_stop_empties: "fs_transfers (srvc_of sl (exec_state (ft_stop env sl) s)) = []"
proof -
  have "fs_transfers (srvc_of sl (exec_state (mwService_stopped v) t)) = fs_transfers (srvc_of sl t)" for v t
    using keepsD [OF srvc.keeps_service_state(4) [of "\<lambda>x. x = srvc_of sl t"]] by fastforce
  with transfers_free_all show ?thesis
    by (simp add: ft_stop_def mwServiceFileTransfer_getTransfers_def split_def)
qed

end

section \<open>Any sequence of calls\<close>

datatype ft_call =
    FT_new mwIdBlock cstr cstr guint32
  | FT_offer addr
  | FT_accept addr
  | FT_close addr guint32
  | FT_free addr
  | FT_send addr mwOpaque
  | FT_ack addr
  | FT_stop
  | FT_message bytes

fun ft_call_run :: "'c env \<Rightarrow> 'c ft_slot \<Rightarrow> 'c mwFileTransferHandler \<Rightarrow> ft_call \<Rightarrow> ('c, unit) M" where
  "ft_call_run env sl h (FT_new who m f n) = do { mwFileTransfer_new sl who m f n; State_Monad.return () }"
| "ft_call_run env sl h (FT_offer a) = do { mwFileTransfer_offer env sl h a; State_Monad.return () }"
| "ft_call_run env sl h (FT_accept a) = do { mwFileTransfer_accept env sl h a; State_Monad.return () }"
| "ft_call_run env sl h (FT_close a code) = do { mwFileTransfer_close env sl h a code; State_Monad.return () }"
| "ft_call_run env sl h (FT_free a) = mwFileTransfer_free env sl a"
| "ft_call_run env sl h (FT_send a d) = do { mwFileTransfer_send env sl a d; State_Monad.return () }"
| "ft_call_run env sl h (FT_ack a) = do { mwFileTransfer_ack env sl a; State_Monad.return () }"
| "ft_call_run env sl h FT_stop = mwService_stop env mwService_FILE_TRANSFER"
| "ft_call_run env sl h (FT_message b) = session_process env b"

context ft_service
begin

lemma keeps_call: "keeps ok (ft_call_run env sl h call)"
  by (cases call)
    (simp_all add: keeps_bind keeps_return keeps_ft_new keeps_offer keeps_accept keeps_close keeps_free keeps_send
      keeps_ack srvc.keeps_service [OF env] srvc.keeps_process [OF env])

end

text \<open>
  Claim C7: whatever sequence of calls of the client and messages of the connection, and
  whatever the client's functions do that keeps the same property, the transfers of the
  service have distinct addresses, never have more remaining than their size, and are done
  only when nothing remains; stopping the service leaves none.
\<close>

theorem ft_transfers_consistent:
  assumes "service_slot sl" and "ft_ok (srvc_of sl s)"
    and "env_keeps (\<lambda>s. ft_ok (srvc_of sl s)) env" and "handler_keeps (\<lambda>s. ft_ok (srvc_of sl s)) h"
    and "\<forall>b x. keeps (\<lambda>s. srvc_of sl s = x) (e_io_write env b)"
    and "t = exec_state (for_each (ft_call_run (ft_install sl h env) sl h) calls) s"
  shows "ft_ok (srvc_of sl t) \<and> fs_transfers (srvc_of sl (exec_state (ft_stop (ft_install sl h env) sl) t)) = []"
proof -
  have base: "ft_service sl env h"
    using assms(1,3-5) by (simp add: ft_service_def ft_slot_def ft_service_axioms_def)
  then have full: "ft_service sl (ft_install sl h env) h"
    using ft_service.env_keeps_install [OF base] ft_service.wr_install [OF base]
    by (simp add: ft_service_def ft_service_axioms_def)
  have "keeps (\<lambda>s. ft_ok (srvc_of sl s)) (for_each (ft_call_run (ft_install sl h env) sl h) calls)"
    by (intro keeps_for_each ft_service.keeps_call [OF full])
  from keepsD [OF this assms(2)] ft_service.ft_stop_empties [OF full] show ?thesis
    unfolding assms(6) by simp
qed

subsection \<open>A client that records\<close>

text \<open>
  A client with the file transfer service that records what is written, what its functions
  are told, and acknowledges every piece of data.
\<close>

record ft_client =
  fc_ft :: mwServiceFileTransfer
  fc_wire :: "bytes list"
  fc_recv :: "(addr \<times> bytes) list"
  fc_ack :: "addr list"
  fc_closed :: "(addr \<times> guint32) list"

definition ftc_slot :: "ft_client ft_slot" where
  "ftc_slot = \<lparr>sl_get = fc_ft, sl_put = (\<lambda>x c. c\<lparr>fc_ft := x\<rparr>)\<rparr>"

definition ftc_env :: "ft_client env" where
  "ftc_env = \<lparr>
     e_io_write = (\<lambda>b. do { modify (\<lambda>s. s\<lparr>ss_client := (ss_client s)\<lparr>fc_wire := fc_wire (ss_client s) @ [b]\<rparr>\<rparr>);
                           State_Monad.return 0 }),
     e_io_close = State_Monad.return (),
     e_on_stateChange = None, e_on_setPrivacyInfo = None, e_on_setUserStatus = None,
     e_on_admin = None, e_on_announce = None,
     e_start = (\<lambda>_. None), e_stop = (\<lambda>_. None),
     e_recv_create = (\<lambda>_. None), e_recv_accept = (\<lambda>_. None), e_recv_destroy = (\<lambda>_. None),
     e_recv = (\<lambda>_. None), e_order = (\<lambda>ks. ks), e_time = State_Monad.return 0,
     e_mwKeyRandom = (\<lambda>n. State_Monad.return (replicate n 7)), e_dh_random = State_Monad.return 5,
     e_junk = State_Monad.return \<lparr>jk_head = mwMessageHead_zero, jk_ack = 0, jk_skip = 0, jk_count = 0\<rparr>\<rparr>"

definition ft_no_handler :: "'c mwFileTransferHandler" where
  "ft_no_handler = \<lparr>fth_offered = None, fth_opened = None, fth_closed = None, fth_recv = None, fth_ack = None,
     fth_clear = None\<rparr>"

definition ftc_handler :: "ft_client mwFileTransferHandler" where
  "ftc_handler = \<lparr>
     fth_offered = Some (\<lambda>a. do { mwFileTransfer_accept ftc_env ftc_slot ft_no_handler a; State_Monad.return () }),
     fth_opened = None,
     fth_closed = Some (\<lambda>a code. modify (\<lambda>s. s\<lparr>ss_client := (ss_client s)\<lparr>fc_closed := fc_closed (ss_client s) @ [(a, code)]\<rparr>\<rparr>)),
     fth_recv = Some (\<lambda>a d. do {
       modify (\<lambda>s. s\<lparr>ss_client := (ss_client s)\<lparr>fc_recv := fc_recv (ss_client s) @ [(a, opaque_bytes d)]\<rparr>\<rparr>);
       mwFileTransfer_ack ftc_env ftc_slot a;
       State_Monad.return () }),
     fth_ack = Some (\<lambda>a. modify (\<lambda>s. s\<lparr>ss_client := (ss_client s)\<lparr>fc_ack := fc_ack (ss_client s) @ [a]\<rparr>\<rparr>)),
     fth_clear = None\<rparr>"

interpretation ftc: ft_slot ftc_slot
  by unfold_locales (simp_all add: ftc_slot_def)

text \<open>The service without a handler, and then with this one.\<close>

interpretation ftc_silent: ft_service ftc_slot ftc_env ft_no_handler
  by unfold_locales
    (auto simp: env_keeps_def handler_keeps_def ftc_env_def ft_no_handler_def ftc_slot_def srvc_of_def keeps_def)

interpretation ftc_recording: ft_service ftc_slot ftc_env ftc_handler
proof
  have log: "keeps (\<lambda>s. ft_ok (srvc_of ftc_slot s)) (modify (\<lambda>s. s\<lparr>ss_client := f s (ss_client s)\<rparr>))"
    if "\<And>s c. fc_ft (f s c) = fc_ft c" for f
    using that by (auto simp: keeps_def ftc_slot_def srvc_of_def)
  show "handler_keeps (\<lambda>s. ft_ok (srvc_of ftc_slot s)) ftc_handler"
    using ftc_silent.keeps_accept ftc_silent.keeps_ack
    by (auto simp: handler_keeps_def ftc_handler_def intro!: keeps_bind keeps_return log)
qed (rule ftc_silent.env ftc_silent.wr)+

definition ftc_start :: "ft_client mwSession" where
  "ftc_start = (mwSession_zero \<lparr>fc_ft = mwServiceFileTransfer_new, fc_wire = [], fc_recv = [], fc_ack = [], fc_closed = []\<rparr>)
     \<lparr>ss_services := [(mwService_FILE_TRANSFER, service_of mwService_FILE_TRANSFER)]\<rparr>"

lemma ftc_start_ok: "ft_ok (srvc_of ftc_slot ftc_start)"
  by (simp add: ftc_start_def ftc_slot_def srvc_of_def mwServiceFileTransfer_new_def ft_ok_def mwSession_zero_def)

theorem ft_transfers_consistent_witness:
  "service_slot ftc_slot \<and> ft_ok (srvc_of ftc_slot ftc_start)
   \<and> env_keeps (\<lambda>s. ft_ok (srvc_of ftc_slot s)) ftc_env \<and> handler_keeps (\<lambda>s. ft_ok (srvc_of ftc_slot s)) ftc_handler
   \<and> (\<forall>b x. keeps (\<lambda>s. srvc_of ftc_slot s = x) (e_io_write ftc_env b))
   \<and> ft_ok (srvc_of ftc_slot (exec_state (for_each (ft_call_run (ft_install ftc_slot ftc_handler ftc_env) ftc_slot ftc_handler)
        [FT_new mwIdBlock_zero None (Some [65]) 10, FT_offer 0, FT_free 0]) ftc_start))"
proof (intro conjI)
  show slot: "service_slot ftc_slot" by (rule ftc.service_slot_axioms)
  show wr: "\<forall>b x. keeps (\<lambda>s. srvc_of ftc_slot s = x) (e_io_write ftc_env b)"
    using ftc_silent.wr by blast
  show "ft_ok (srvc_of ftc_slot (exec_state (for_each (ft_call_run (ft_install ftc_slot ftc_handler ftc_env) ftc_slot ftc_handler)
        [FT_new mwIdBlock_zero None (Some [65]) 10, FT_offer 0, FT_free 0]) ftc_start))"
    by (rule conjunct1 [OF ft_transfers_consistent [OF slot ftc_start_ok ftc_silent.env ftc_recording.h wr refl]])
qed (rule ftc_start_ok ftc_silent.env ftc_recording.h)+

end
