(* ===== verification/FT_Delivery.thy ===== *)
theory FT_Delivery
  imports Srvc_FT
begin

text \<open>
  A file transfer between two clients: what \<open>mwFileTransfer_send\<close> writes at one end and what
  the service at the other end makes of it, through the channels, ciphers, messages and the
  framing of the connection.
\<close>

section \<open>A file across a connection\<close>

subsection \<open>The input buffer\<close>

definition ft_handler_nobuf :: "'c mwFileTransferHandler \<Rightarrow> bool" where
  "ft_handler_nobuf h \<longleftrightarrow> (\<forall>f a. fth_offered h = Some f \<longrightarrow> nobuf (f a)) \<and> (\<forall>f a. fth_opened h = Some f \<longrightarrow> nobuf (f a))
     \<and> (\<forall>f a c. fth_closed h = Some f \<longrightarrow> nobuf (f a c)) \<and> (\<forall>f a d. fth_recv h = Some f \<longrightarrow> nobuf (f a d))
     \<and> (\<forall>f a. fth_ack h = Some f \<longrightarrow> nobuf (f a))"

lemma nobuf_transfer [nobuf_intros]:
  "nobuf (ft_deref sl a)" "nobuf (ft_update sl a g)" "nobuf (ft_state sl a st)" "nobuf (mwFileTransfer_getState sl a)"
  "nobuf (mwFileTransfer_new sl who m f n)" "nobuf (mwServiceFileTransfer_getTransfers sl)" "nobuf (ft_handler_deref sl)"
proof -
  show d: "nobuf (ft_deref sl a)" for a
    unfolding ft_deref_def by (intro nobuf_intros)
  show u: "nobuf (ft_update sl a g)" for a g
    unfolding ft_update_def by (intro nobuf_intros d)
  show st: "nobuf (ft_state sl a st)" for a st
    unfolding ft_state_def by (intro nobuf_intros d u)
  show "nobuf (mwFileTransfer_getState sl a)" "nobuf (mwServiceFileTransfer_getTransfers sl)" "nobuf (ft_handler_deref sl)"
    "nobuf (mwFileTransfer_new sl who m f n)"
    unfolding mwFileTransfer_getState_def mwServiceFileTransfer_getTransfers_def ft_handler_deref_def mwFileTransfer_new_def
    by (intro nobuf_intros d st)+
qed

lemma nobuf_ft_calls:
  assumes "env_nobuf env" and "ft_handler_nobuf h"
  shows "nobuf (mwFileTransfer_close env sl h a code)" "nobuf (mwFileTransfer_accept env sl h a)"
    "nobuf (mwFileTransfer_free env sl a)" "nobuf (mwFileTransfer_ack env sl a)" "nobuf (ft_free_all env sl n)"
proof -
  note S = nobuf_intros nobuf_channel [OF assms(1)] nobuf_channel_calls [OF assms(1)]
  show cl: "nobuf (mwFileTransfer_close env sl h a code)" for a code
    unfolding mwFileTransfer_close_def
    by (intro S) (use assms(2) in \<open>simp_all add: ft_handler_nobuf_def\<close>)
  show "nobuf (mwFileTransfer_accept env sl h a)"
    unfolding mwFileTransfer_accept_def
    by (intro S cl) (use assms(2) in \<open>simp_all add: ft_handler_nobuf_def\<close>)
  show fr: "nobuf (mwFileTransfer_free env sl a)" for a
    unfolding mwFileTransfer_free_def by (intro S)
  show "nobuf (mwFileTransfer_ack env sl a)"
    unfolding mwFileTransfer_ack_def by (intro S)
  show "nobuf (ft_free_all env sl n)"
    by (induction n) (auto intro!: S fr split: list.split)
qed

lemma env_nobuf_ft:
  assumes "env_nobuf env" and "ft_handler_nobuf h"
  shows "env_nobuf (ft_install sl h env)"
proof -
  note S = nobuf_intros nobuf_channel [OF assms(1)] nobuf_channel_calls [OF assms(1)] nobuf_ft_calls [OF assms]
  have "nobuf (ft_recv_channelCreate env sl h c m)" for c m
    unfolding ft_recv_channelCreate_def Let_def split_def
    by (intro S) (use assms(2) in \<open>simp_all add: ft_handler_nobuf_def\<close>)
  moreover have "nobuf (ft_recv_channelAccept sl h c m)" for c m
    unfolding ft_recv_channelAccept_def
    by (intro S) (use assms(2) in \<open>simp_all add: ft_handler_nobuf_def\<close>)
  moreover have "nobuf (ft_recv_channelDestroy env sl h c m)" for c m
    unfolding ft_recv_channelDestroy_def Let_def by (intro S)
  moreover have "nobuf (ft_recv env sl h c t d)" for c t d
    unfolding ft_recv_def recv_TRANSFER_def recv_RECEIVED_def
    by (intro S) (use assms(2) in \<open>simp_all add: ft_handler_nobuf_def\<close>)
  moreover have "nobuf (ft_stop env sl)" "nobuf ft_start"
    unfolding ft_stop_def ft_start_def by (intro S)+
  ultimately show ?thesis
    using assms(1) unfolding env_nobuf_def ft_install_def by simp
qed

lemma ftc_env_nobuf: "env_nobuf ftc_env" "ft_handler_nobuf ft_no_handler" "ft_handler_nobuf ftc_handler"
proof -
  have log: "nobuf (modify (\<lambda>s. s\<lparr>ss_client := f (ss_client s)\<rparr>))" for f :: "ft_client \<Rightarrow> ft_client"
    by (rule nobuf_modify) (simp add: buf_free_def)
  show env: "env_nobuf ftc_env"
    unfolding env_nobuf_def ftc_env_def by (auto intro!: nobuf_intros log)
  show none: "ft_handler_nobuf ft_no_handler"
    by (simp add: ft_handler_nobuf_def ft_no_handler_def)
  show "ft_handler_nobuf ftc_handler"
    using nobuf_ft_calls [OF env none]
    by (auto simp: ft_handler_nobuf_def ftc_handler_def intro!: nobuf_intros log)
qed

subsection \<open>The two ends\<close>

text \<open>A transfer that is open over an open channel, with the cipher instance of that channel.\<close>

definition ft_sending ::
  "mwCipher \<Rightarrow> guint32 \<Rightarrow> addr \<Rightarrow> mwFileTransfer \<Rightarrow> mwCipherInstance option \<Rightarrow> ft_client mwSession \<Rightarrow> bool" where
  "ft_sending cipher c a f ci s \<longleftrightarrow> mwChannel_idIsOutgoing c \<and> fs_handler (srvc_of ftc_slot s)
     \<and> ft_at ftc_slot s a = Some f \<and> ft_st f = mwFileTransfer_OPEN \<and> ft_channel f = Some c
     \<and> (case map_of (ss_channels s) c of None \<Rightarrow> False
        | Some ch \<Rightarrow> ch_state ch = mwChannel_OPEN \<and> ch_id ch = c \<and> ch_cipher ch = ci \<and> ch_srvc_data ch = Some a
            \<and> (case map_of (ss_services s) (ch_service ch) of None \<Rightarrow> False
               | Some sv \<Rightarrow> sv_type sv = mwService_FILE_TRANSFER))
     \<and> (case ci of None \<Rightarrow> True | Some i \<Rightarrow> map_of (ss_ciphers s) (instance_type i) = Some cipher)"

definition ft_receiving ::
  "guint32 \<Rightarrow> addr \<Rightarrow> mwFileTransfer \<Rightarrow> mwCipherInstance option \<Rightarrow> ft_client mwSession \<Rightarrow> bool" where
  "ft_receiving c b f ci r \<longleftrightarrow> \<not> mwChannel_idIsOutgoing c \<and> fs_handler (srvc_of ftc_slot r)
     \<and> ft_at ftc_slot r b = Some f \<and> ft_channel f = Some c
     \<and> (case map_of (ss_channels r) c of None \<Rightarrow> False
        | Some ch \<Rightarrow> ch_state ch = mwChannel_OPEN \<and> ch_id ch = c \<and> ch_cipher ch = ci \<and> ch_srvc_data ch = Some b
            \<and> (case map_of (ss_services r) (ch_service ch) of None \<Rightarrow> False
               | Some sv \<Rightarrow> sv_type sv = mwService_FILE_TRANSFER))"

lemma ftc_env_writes: "writes_to ftc_env (\<lambda>b c. c\<lparr>fc_wire := fc_wire c @ [b]\<rparr>)"
  by (simp add: writes_to_def ftc_env_def)

lemma ftc_of [simp]: "srvc_of ftc_slot s = fc_ft (ss_client s)"
  by (simp add: srvc_of_def ftc_slot_def)

lemma ftc_set [simp]: "srvc_set ftc_slot x s = s\<lparr>ss_client := (ss_client s)\<lparr>fc_ft := x\<rparr>\<rparr>"
  by (simp add: srvc_set_def ftc_slot_def)

lemma sender_step:
  assumes "ft_sending cipher c a f ci s" and "op_len d \<le> unat (ft_remaining f)"
  obtains ch ci' m where "ch_cipher ch = ci" "channel_message cipher ch msg_TRANSFER d = (ci', m)"
    "ft_sending cipher c a (ft_sent f d) ci' (exec_state (mwFileTransfer_send ftc_env ftc_slot a d) s)"
    "eval_state (mwFileTransfer_send ftc_env ftc_slot a d) s = 0"
    "fc_wire (ss_client (exec_state (mwFileTransfer_send ftc_env ftc_slot a d) s)) = fc_wire (ss_client s) @ [render_send m]"
proof -
  obtain ch where ch: "map_of (ss_channels s) c = Some ch" "ch_state ch = mwChannel_OPEN" "ch_id ch = c" "ch_cipher ch = ci"
    using assms(1) by (auto simp: ft_sending_def split: option.splits)
  obtain ci' m where m: "channel_message cipher ch msg_TRANSFER d = (ci', m)" by fastforce
  have ciph: "map_of (ss_ciphers s) (instance_type i) = Some cipher" if "ch_cipher ch = Some i" for i
    using assms(1) ch(4) that by (simp add: ft_sending_def split: option.splits)
  have inst: "ci' = Some i \<Longrightarrow> map_of (ss_ciphers s) (instance_type i) = Some cipher" for i
    using channel_message_instance [of cipher ch msg_TRANSFER d i m] m ciph by auto
  have send: "run_state (mwChannel_send ftc_env c msg_TRANSFER d) s
      = (0, s\<lparr>ss_channels := AList.update c (ch\<lparr>ch_cipher := ci'\<rparr>) (ss_channels s),
           ss_client := (ss_client s)\<lparr>fc_wire := fc_wire (ss_client s) @ [render_send m]\<rparr>\<rparr>)"
    using mwChannel_send_run [OF ch(1,2) _ m ftc_env_writes] ciph by simp
  have run: "run_state (mwFileTransfer_send ftc_env ftc_slot a d) s = (0, ft_put ftc_slot a (ft_sent f d)
      (s\<lparr>ss_channels := AList.update c (ch\<lparr>ch_cipher := ci'\<rparr>) (ss_channels s),
         ss_client := (ss_client s)\<lparr>fc_wire := fc_wire (ss_client s) @ [render_send m]\<rparr>\<rparr>))"
    using assms ch
    by (simp add: mwFileTransfer_send_def ft_sending_def run_ft_deref run_ft_update mwChannel_isOutgoing_def chan_deref_def
        send ft_at_def ft_sent_def)
  show ?thesis
  proof (rule that [OF ch(4) m])
    show "ft_sending cipher c a (ft_sent f d) ci' (exec_state (mwFileTransfer_send ftc_env ftc_slot a d) s)"
      unfolding run using assms(1) ch inst
      by (simp add: ft_sending_def ft_at_def ft_put_def ft_sent_def split: option.splits)
  qed (simp_all add: run ft_put_def)
qed

text \<open>The acknowledgement that the receiving client writes.\<close>

definition ft_ack_message :: "guint32 \<Rightarrow> mwMsgChannelSend" where
  "ft_ack_message c = \<lparr>cs_head = (msg_head mwMessage_CHANNEL_SEND)\<lparr>mh_channel := c\<rparr>, cs_type = 2,
     cs_data = opaque_of []\<rparr>"

lemma run_ft_ack:
  assumes "ft_receiving c b f ci r"
  shows "run_state (mwFileTransfer_ack ftc_env ftc_slot b) r
    = (0, r\<lparr>ss_client := (ss_client r)\<lparr>fc_wire := fc_wire (ss_client r) @ [render_send (ft_ack_message c)]\<rparr>\<rparr>)"
proof -
  obtain ch where ch: "map_of (ss_channels r) c = Some ch" "ch_state ch = mwChannel_OPEN" "ch_id ch = c"
    using assms by (auto simp: ft_receiving_def split: option.splits)
  have f: "ft_at ftc_slot r b = Some f" "ft_channel f = Some c" "\<not> mwChannel_idIsOutgoing c"
    using assms by (simp_all add: ft_receiving_def)
  have "mwOpaque_clone (Some (opaque_of [])) = opaque_of []" by (simp add: mwOpaque_clone_eq)
  then have m: "\<lparr>cs_head = (msg_head mwMessage_CHANNEL_SEND)\<lparr>mh_channel := c\<rparr>, cs_type = ucast msg_RECEIVED,
      cs_data = mwOpaque_clone (Some (opaque_of []))\<rparr> = ft_ack_message c"
    by (simp add: ft_ack_message_def msg_RECEIVED_def)
  show ?thesis
    using ch f
    by (simp add: mwFileTransfer_ack_def run_ft_deref mwChannel_isIncoming_def chan_deref_def mwChannel_sendEncrypted_def
        channel_send_def m writes_to_send [OF ftc_env_writes] Let_def split: option.split)
qed

lemma ft_receiving_put:
  assumes "ft_receiving c b f ci r" and "ft_channel f' = Some c"
  shows "ft_receiving c b f' ci (ft_put ftc_slot b f' r)"
  using assms by (simp add: ft_receiving_def ft_put_def ft_at_def cong: option.case_cong)

lemma ft_receiving_client:
  "fc_ft cl = fc_ft (ss_client r) \<Longrightarrow> ft_receiving c b f ci (r\<lparr>ss_client := cl\<rparr>) = ft_receiving c b f ci r"
  by (simp add: ft_receiving_def ft_at_def cong: option.case_cong)

lemma ft_took_channel [simp]: "ft_channel (ft_took f d) = ft_channel f"
  by (simp add: ft_took_def ft_sent_def)

lemma run_ft_recv_TRANSFER:
  assumes "ft_receiving c b f ci r" and "ft_st f = mwFileTransfer_OPEN" and "op_len d \<le> unat (ft_remaining f)"
  shows "run_state (ft_recv ftc_env ftc_slot ftc_handler c 1 d) r
    = ((), (ft_put ftc_slot b (ft_took f d) r)\<lparr>ss_client := (ss_client (ft_put ftc_slot b (ft_took f d) r))
        \<lparr>fc_recv := fc_recv (ss_client r) @ [(b, opaque_bytes d)],
         fc_wire := fc_wire (ss_client r) @ [render_send (ft_ack_message c)]\<rparr>\<rparr>)"
proof -
  obtain ch where ch: "map_of (ss_channels r) c = Some ch" "ch_srvc_data ch = Some b"
    using assms by (auto simp: ft_receiving_def split: option.splits)
  have f: "ft_at ftc_slot r b = Some f" "fs_handler (fc_ft (ss_client r))" "ft_channel f = Some c"
    using assms(1) by (simp_all add: ft_receiving_def)
  let ?r = "ft_put ftc_slot b (ft_took f d) r"
  let ?r' = "?r\<lparr>ss_client := (ss_client ?r)\<lparr>fc_recv := fc_recv (ss_client ?r) @ [(b, opaque_bytes d)]\<rparr>\<rparr>"
  have "ft_receiving c b (ft_took f d) ci ?r"
    using ft_receiving_put [OF assms(1)] f(3) by simp
  then have "ft_receiving c b (ft_took f d) ci ?r'" by (simp add: ft_receiving_client)
  note ack = run_ft_ack [OF this]
  have "run_state (ft_recv ftc_env ftc_slot ftc_handler c 1 d) r = run_state (recv_TRANSFER ftc_slot ftc_handler b d) r"
    using ch by (simp add: ft_recv_def mwChannel_getServiceData_def chan_deref_def msg_TRANSFER_def)
  also have "\<dots> = run_state (do { mwFileTransfer_ack ftc_env ftc_slot b; State_Monad.return () }) ?r'"
    using ftc.run_recv_TRANSFER [OF f(1)] assms(2,3) f(2)
    by (simp add: ft_handler_deref_def ft_put_def ftc_handler_def)
  finally show ?thesis by (simp only: run_state_bind ack split) (simp add: ft_put_def)
qed

text \<open>The environment of a client with the service.\<close>

definition ftc_full :: "ft_client env" where
  "ftc_full = ft_install ftc_slot ftc_handler ftc_env"

definition ft_process :: "mwMsgChannelSend \<Rightarrow> (ft_client, unit) M" where
  "ft_process m = do { e_junk ftc_full; session_dispatch ftc_full (mwMessage_norm (ChannelSend m)) }"

lemma ftc_full_simps:
  "e_recv ftc_full mwService_FILE_TRANSFER = Some (ft_recv ftc_env ftc_slot ftc_handler)"
  "client_only (e_junk ftc_full)" "exec_state (e_junk ftc_full) s = s" "env_nobuf ftc_full"
  using env_nobuf_ft [OF ftc_env_nobuf(1,3), of ftc_slot]
  by (simp_all add: ftc_full_def ft_install_def ftc_env_def)

lemma ft_receiving_received:
  assumes "ft_receiving c b f ci r" and "map_of (ss_channels r) c = Some ch"
  shows "ft_receiving c b f ci' (chan_received c ch ci' r)"
  using assms by (simp add: ft_receiving_def chan_received_def ft_at_def cong: option.case_cong)

lemma receiver_step:
  assumes r: "ft_receiving c b f ci r" and sync: "in_sync cipher (ch_cipher ch) ci"
    and d: "opaque_ok d" "op_len d < 2 ^ 30" and m: "channel_message cipher ch msg_TRANSFER d = (ci', m)"
    and f: "ft_st f = mwFileTransfer_OPEN" "op_len d \<le> unat (ft_remaining f)"
  obtains ci2 where "ft_receiving c b (ft_took f d) ci2 (exec_state (ft_process (relabel c m)) r)" "in_sync cipher ci' ci2"
    "fc_recv (ss_client (exec_state (ft_process (relabel c m)) r)) = fc_recv (ss_client r) @ [(b, opaque_bytes d)]"
    "fc_wire (ss_client (exec_state (ft_process (relabel c m)) r)) = fc_wire (ss_client r) @ [render_send (ft_ack_message c)]"
    "sendable (ChannelSend (relabel c m))"
proof -
  obtain ch' sv where ch': "map_of (ss_channels r) c = Some ch'" "ch_state ch' = mwChannel_OPEN" "ch_cipher ch' = ci"
      "map_of (ss_services r) (ch_service ch') = Some sv" "sv_type sv = mwService_FILE_TRANSFER"
    using r by (auto simp: ft_receiving_def split: option.splits)
  let ?ch = "ch\<lparr>ch_id := c\<rparr>"
  note m' = channel_message_relabel [OF m, of c]
  have sync': "in_sync cipher (ch_cipher ?ch) (ch_cipher ch')" using sync ch'(3) by simp
  obtain ci2 out where step: "exec_state (ft_process (relabel c m)) r
      = exec_state (ft_recv ftc_env ftc_slot ftc_handler c (ucast msg_TRANSFER) out) (chan_received c ch' ci2 r)"
      "opaque_ok out" "opaque_bytes out = opaque_bytes d" "in_sync cipher ci' ci2"
    using channel_step [OF ch'(1,2) _ ch'(4) _ ftc_full_simps(2) sync' d m'] ftc_full_simps(1) ch'(5)
    by (auto simp: ft_process_def ftc_full_simps(3))
  have out: "op_len out = op_len d"
    using step(2,3) d(1) by (metis length_opaque_bytes)
  have took: "ft_took f out = ft_took f d"
    using out by (simp add: ft_took_def ft_sent_def)
  have rcv: "ft_receiving c b f ci2 (chan_received c ch' ci2 r)"
    by (rule ft_receiving_received [OF r ch'(1)])
  have chf: "ft_channel f = Some c" using r by (simp add: ft_receiving_def)
  have le: "op_len out \<le> unat (ft_remaining f)" using f(2) out by simp
  note run = run_ft_recv_TRANSFER [OF rcv f(1) le, unfolded took step(3)]
  have final: "exec_state (ft_process (relabel c m)) r
      = (let t = ft_put ftc_slot b (ft_took f d) (chan_received c ch' ci2 r) in t\<lparr>ss_client := (ss_client t)
        \<lparr>fc_recv := fc_recv (ss_client r) @ [(b, opaque_bytes d)],
         fc_wire := fc_wire (ss_client r) @ [render_send (ft_ack_message c)]\<rparr>\<rparr>)"
    using run step(1) by (simp add: msg_TRANSFER_def Let_def chan_received_def)
  show ?thesis
  proof (rule that [OF _ step(4)])
    show "ft_receiving c b (ft_took f d) ci2 (exec_state (ft_process (relabel c m)) r)"
      unfolding final Let_def using ft_receiving_put [OF rcv, of "ft_took f d"] chf by (simp add: ft_receiving_client)
    show "sendable (ChannelSend (relabel c m))"
      by (rule channel_message_sendable(1) [OF d _ m']) (use sync in simp)
  qed (simp_all add: final Let_def)
qed

abbreviation ft_total :: "mwOpaque list \<Rightarrow> nat" where
  "ft_total ds \<equiv> sum_list (map op_len ds)"

lemma took_remaining: "ft_remaining (ft_took g d) = ft_remaining (ft_sent g d)"
  by (simp add: ft_took_def)

lemma sent_folds:
  assumes "ft_total ds \<le> unat (ft_remaining f)"
  shows "unat (ft_remaining (foldl ft_sent f ds)) = unat (ft_remaining f) - ft_total ds"
    and "ft_remaining g = ft_remaining f \<Longrightarrow> ft_remaining (foldl ft_took g ds) = ft_remaining (foldl ft_sent f ds)"
proof -
  show "unat (ft_remaining (foldl ft_sent f ds)) = unat (ft_remaining f) - ft_total ds"
    using assms by (induction ds arbitrary: f) (auto simp: unat_sent)
  show "ft_remaining g = ft_remaining f \<Longrightarrow> ft_remaining (foldl ft_took g ds) = ft_remaining (foldl ft_sent f ds)"
  proof (induction ds arbitrary: f g)
    case (Cons d ds)
    have "ft_remaining (ft_took g d) = ft_remaining (ft_sent f d)"
      using Cons.prems by (simp add: took_remaining ft_sent_def)
    from Cons.IH [OF this] show ?case by simp
  qed simp
qed

text \<open>The receiving end is done exactly when the last piece is in.\<close>

lemma took_done:
  assumes "ds \<noteq> []" and "ft_remaining (foldl ft_took g ds) = 0"
  shows "ft_st (foldl ft_took g ds) = mwFileTransfer_DONE"
proof -
  obtain es d where ds: "ds = es @ [d]" using assms(1) by (cases ds rule: rev_cases) auto
  with assms(2) show ?thesis by (simp add: took_remaining) (simp add: ft_took_def)
qed

lemma ft_stream:
  assumes "ft_sending cipher c a f ci s" and "ft_receiving c' b g ci' r" and "in_sync cipher ci ci'"
    and "ft_remaining g = ft_remaining f" and "ft_remaining g \<noteq> 0 \<Longrightarrow> ft_st g = mwFileTransfer_OPEN"
    and "\<forall>d \<in> set ds. opaque_ok d \<and> 0 < op_len d \<and> op_len d < 2 ^ 30" and "ft_total ds \<le> unat (ft_remaining f)"
  shows "\<exists>ms ci1 ci2. length ms = length ds \<and> (\<forall>m \<in> set ms. sendable (ChannelSend (relabel c' m)))
    \<and> ft_sending cipher c a (foldl ft_sent f ds) ci1 (exec_state (for_each (ft_call_run ftc_env ftc_slot ftc_handler) (map (FT_send a) ds)) s)
    \<and> fc_wire (ss_client (exec_state (for_each (ft_call_run ftc_env ftc_slot ftc_handler) (map (FT_send a) ds)) s))
        = fc_wire (ss_client s) @ map render_send ms
    \<and> ft_receiving c' b (foldl ft_took g ds) ci2 (exec_state (for_each ft_process (map (relabel c') ms)) r)
    \<and> in_sync cipher ci1 ci2
    \<and> fc_recv (ss_client (exec_state (for_each ft_process (map (relabel c') ms)) r))
        = fc_recv (ss_client r) @ map (\<lambda>d. (b, opaque_bytes d)) ds
    \<and> fc_wire (ss_client (exec_state (for_each ft_process (map (relabel c') ms)) r))
        = fc_wire (ss_client r) @ replicate (length ds) (render_send (ft_ack_message c'))"
  using assms
proof (induction ds arbitrary: f g ci ci' s r)
  case Nil
  then show ?case by (intro exI [of _ "[]"]) auto
next
  case (Cons d ds)
  have d: "opaque_ok d" "0 < op_len d" "op_len d < 2 ^ 30" "op_len d \<le> unat (ft_remaining f)"
    using Cons.prems(6,7) by simp_all
  have "ft_remaining f \<noteq> 0" using d(2,4) by auto
  then have g: "ft_st g = mwFileTransfer_OPEN" "op_len d \<le> unat (ft_remaining g)"
    using Cons.prems(4,5) d(4) by simp_all
  obtain ch ci1 m where send: "ch_cipher ch = ci" "channel_message cipher ch msg_TRANSFER d = (ci1, m)"
    "ft_sending cipher c a (ft_sent f d) ci1 (exec_state (mwFileTransfer_send ftc_env ftc_slot a d) s)"
    "fc_wire (ss_client (exec_state (mwFileTransfer_send ftc_env ftc_slot a d) s)) = fc_wire (ss_client s) @ [render_send m]"
    using sender_step [OF Cons.prems(1) d(4)] by metis
  have sync: "in_sync cipher (ch_cipher ch) ci'" using Cons.prems(3) send(1) by simp
  obtain ci2 where recv: "ft_receiving c' b (ft_took g d) ci2 (exec_state (ft_process (relabel c' m)) r)" "in_sync cipher ci1 ci2"
    "fc_recv (ss_client (exec_state (ft_process (relabel c' m)) r)) = fc_recv (ss_client r) @ [(b, opaque_bytes d)]"
    "fc_wire (ss_client (exec_state (ft_process (relabel c' m)) r)) = fc_wire (ss_client r) @ [render_send (ft_ack_message c')]"
    "sendable (ChannelSend (relabel c' m))"
    using receiver_step [OF Cons.prems(2) sync d(1,3) send(2) g] by metis
  have rem: "ft_remaining (ft_took g d) = ft_remaining (ft_sent f d)"
    using Cons.prems(4) by (simp add: took_remaining ft_sent_def)
  have opn: "ft_st (ft_took g d) = mwFileTransfer_OPEN" if "ft_remaining (ft_took g d) \<noteq> 0"
    using that g(1) by (simp add: took_remaining) (simp add: ft_took_def ft_sent_def)
  have total: "ft_total ds \<le> unat (ft_remaining (ft_sent f d))"
    using Cons.prems(7) by (simp add: unat_sent [OF d(4)])
  obtain ms ci3 ci4 where IH: "length ms = length ds" "\<forall>m \<in> set ms. sendable (ChannelSend (relabel c' m))"
    "ft_sending cipher c a (foldl ft_sent (ft_sent f d) ds) ci3 (exec_state (for_each (ft_call_run ftc_env ftc_slot ftc_handler) (map (FT_send a) ds))
       (exec_state (mwFileTransfer_send ftc_env ftc_slot a d) s))"
    "fc_wire (ss_client (exec_state (for_each (ft_call_run ftc_env ftc_slot ftc_handler) (map (FT_send a) ds))
       (exec_state (mwFileTransfer_send ftc_env ftc_slot a d) s)))
        = fc_wire (ss_client s) @ [render_send m] @ map render_send ms"
    "ft_receiving c' b (foldl ft_took (ft_took g d) ds) ci4 (exec_state (for_each ft_process (map (relabel c') ms))
       (exec_state (ft_process (relabel c' m)) r))"
    "in_sync cipher ci3 ci4"
    "fc_recv (ss_client (exec_state (for_each ft_process (map (relabel c') ms)) (exec_state (ft_process (relabel c' m)) r)))
        = fc_recv (ss_client r) @ [(b, opaque_bytes d)] @ map (\<lambda>d. (b, opaque_bytes d)) ds"
    "fc_wire (ss_client (exec_state (for_each ft_process (map (relabel c') ms)) (exec_state (ft_process (relabel c' m)) r)))
        = fc_wire (ss_client r) @ [render_send (ft_ack_message c')] @ replicate (length ds) (render_send (ft_ack_message c'))"
    using Cons.IH [OF send(3) recv(1,2) rem opn _ total] Cons.prems(6) unfolding send(4) recv(3,4) append_assoc by auto
  then show ?case
    using recv(5) by (intro exI [of _ "m # ms"] exI [of _ ci3] exI [of _ ci4]) (simp add: split_def)
qed

subsection \<open>Acknowledgements\<close>

lemma ft_ack_sendable: "sendable (ChannelSend (ft_ack_message c))"
  and ft_ack_norm: "mwMessage_norm (ChannelSend (ft_ack_message c)) = ChannelSend (ft_ack_message c)"
  by (simp_all add: sendable_def ft_ack_message_def mwMessage_valid_def mwMessage_typed_def mwMessageHead_valid_def
      mwMessage_wire_def mwMessageHead_wire_def CHANNEL_SEND_wire_def opaque_wire_def opaque_valid_def has_attribs_def
      mwMessageHead_zero_def CHANNEL_SEND_norm_def mwMessageHead_norm_def opaque_norm_def)

lemma ft_process_ack: "ft_process (ft_ack_message c) = do { e_junk ftc_full; CHANNEL_SEND_recv ftc_full (ft_ack_message c) }"
  unfolding ft_process_def ft_ack_norm by simp

text \<open>The first acknowledgement after everything is sent ends the transfer.\<close>

definition ft_ended :: "guint32 \<Rightarrow> addr \<Rightarrow> mwFileTransfer \<Rightarrow> ft_client mwSession \<Rightarrow> ft_client mwSession \<Rightarrow> bool" where
  "ft_ended c a f s t \<longleftrightarrow> ft_at ftc_slot t a = Some (f\<lparr>ft_st := mwFileTransfer_DONE, ft_channel := None\<rparr>)
     \<and> map_of (ss_channels t) c = None
     \<and> fc_ack (ss_client t) = fc_ack (ss_client s) @ [a]
     \<and> fc_closed (ss_client t) = fc_closed (ss_client s) @ [(a, mwFileTransfer_SUCCESS)]"

lemma run_recv_RECEIVED:
  assumes "ft_at ftc_slot s a = Some f" and "fs_handler (fc_ft (ss_client s))" and "ft_channel f = Some c"
    and "map_of (ss_channels s) c = Some ch" and "ch_id ch = c" and "ft_remaining f = 0"
  shows "ft_ended c a f s (exec_state (recv_RECEIVED ftc_env ftc_slot ftc_handler a) s)"
proof -
  have w: "run_state (e_io_write ftc_env b) t = (0, t\<lparr>ss_client := (ss_client t)\<lparr>fc_wire := fc_wire (ss_client t) @ [b]\<rparr>\<rparr>)"
    for b t by (simp add: ftc_env_def)
  show ?thesis
    using assms
    by (simp add: ft_ended_def ftc.run_received ft_handler_deref_def ftc_handler_def run_ft_deref run_ft_update
        mwFileTransfer_close_def mwChannel_destroy_def channel_state_def chan_update_def chan_deref_def
        mwSession_send_def w ft_put_def ft_at_def Let_def mwFileTransfer_SUCCESS_def delete_conv' update_last)
qed

lemma ack_step:
  assumes "ft_sending cipher c a f ci s" and "ft_remaining f = 0"
  shows "ft_ended c a f s (exec_state (ft_process (ft_ack_message c)) s)"
proof -
  obtain ch sv where ch: "map_of (ss_channels s) c = Some ch" "ch_state ch = mwChannel_OPEN" "ch_id ch = c"
      "ch_srvc_data ch = Some a" "map_of (ss_services s) (ch_service ch) = Some sv" "sv_type sv = mwService_FILE_TRANSFER"
    using assms(1) by (auto simp: ft_sending_def split: option.splits)
  have f: "ft_at ftc_slot s a = Some f" "fs_handler (fc_ft (ss_client s))" "ft_channel f = Some c"
    using assms(1) by (simp_all add: ft_sending_def)
  let ?t = "chan_received c ch (ch_cipher ch) s"
  let ?m = "ft_ack_message c"
  have e: "e_recv ftc_full (sv_type sv) = Some (ft_recv ftc_env ftc_slot ftc_handler)"
    using ftc_full_simps(1) ch(6) by metis
  have "exec_state (CHANNEL_SEND_recv ftc_full ?m) s
      = exec_state (ft_recv ftc_env ftc_slot ftc_handler c (cs_type ?m) (cs_data ?m)) ?t"
    unfolding chan_received_def
    by (rule CHANNEL_SEND_recv_run [OF _ ch(1,2,5) e]) (simp_all add: ft_ack_message_def mwMessageHead_zero_def)
  moreover have "exec_state (ft_recv ftc_env ftc_slot ftc_handler c (cs_type ?m) (cs_data ?m)) ?t
      = exec_state (recv_RECEIVED ftc_env ftc_slot ftc_handler a) ?t"
    using ch(4)
    by (simp add: ft_recv_def mwChannel_getServiceData_def chan_deref_def chan_received_def ft_ack_message_def
        msg_TRANSFER_def msg_RECEIVED_def)
  moreover have "ft_ended c a f ?t (exec_state (recv_RECEIVED ftc_env ftc_slot ftc_handler a) ?t)"
    by (rule run_recv_RECEIVED [where ch = "the (map_of (ss_channels ?t) c)"]) (use f ch(3) assms(2) in \<open>simp_all add: chan_received_def ft_at_def\<close>)
  ultimately show ?thesis
    by (simp add: ft_process_ack ftc_full_simps(3) split_def ft_ended_def chan_received_def)
qed

lemma ack_dropped:
  assumes "map_of (ss_channels s) c = None"
  shows "exec_state (for_each ft_process (replicate n (ft_ack_message c))) s = s"
proof -
  have "exec_state (ft_process (ft_ack_message c)) s = s"
    using assms by (simp add: ft_process_ack ftc_full_simps(3) split_def CHANNEL_SEND_recv_def mwChannel_find_def)
      (simp add: ft_ack_message_def)
  then show ?thesis by (induction n) (simp_all add: split_def)
qed

lemma nobuf_ft_sends: "nobuf (for_each (ft_call_run ftc_env ftc_slot ftc_handler) (map (FT_send a) ds))"
proof -
  note S = nobuf_intros nobuf_channel_calls [OF ftc_env_nobuf(1)]
  have "nobuf (mwFileTransfer_send ftc_env ftc_slot a d)" for d
    unfolding mwFileTransfer_send_def by (intro S)
  then show ?thesis by (induction ds) (simp_all add: nobuf_bind nobuf_return)
qed

lemma recv_ft_messages:
  assumes "framing_ok s []" and "\<forall>m \<in> set ms. sendable (ChannelSend m)" and "concat pieces = concat (map render_send ms)"
  shows "mwSession_recv_all ftc_full pieces s = Some (exec_state (for_each ft_process ms) s)"
proof -
  have "for_each ft_process ms
      = for_each (\<lambda>m. do { e_junk ftc_full; session_dispatch ftc_full (mwMessage_norm m) }) (map ChannelSend ms)"
    by (induction ms) (simp_all add: ft_process_def)
  with recv_messages [OF ftc_full_simps(4) assms(1), of "map ChannelSend ms" pieces] assms(2,3) show ?thesis
    by (simp add: comp_def)
qed

text \<open>
  Claim C5: a file sent in pieces arrives. Two clients have an open transfer over channels whose
  cipher instances are in sync. However the sending client cuts the file into pieces, and however
  the connection cuts the bytes, the receiving client is told each piece once and in order, its
  transfer is then done with nothing remaining, and it has written one acknowledgement for
  each piece. When the sending client receives these, its transfer is done, too, the channel is
  closed and \<open>ft_closed\<close> is called once; but only the first of the acknowledgements is
  reported to \<open>ft_ack\<close>.
\<close>

theorem file_transfer_delivers:
  assumes "ft_sending cipher c a f ci s" and "ft_receiving c' b g ci' r" and "in_sync cipher ci ci'"
    and "framing_ok s []" and "framing_ok r []"
    and "ft_remaining g = ft_remaining f" and "ft_st g = mwFileTransfer_OPEN"
    and "\<forall>d \<in> set ds. opaque_ok d \<and> 0 < op_len d \<and> op_len d < 2 ^ 30"
    and "ds \<noteq> []" and "sum_list (map op_len ds) = unat (ft_remaining f)"
    and "s' = exec_state (for_each (ft_call_run ftc_env ftc_slot ftc_handler) (map (FT_send a) ds)) s"
  shows "\<exists>ms f' g' s'' r'. fc_wire (ss_client s') = fc_wire (ss_client s) @ map render_send ms
    \<and> (\<forall>pieces. concat pieces = concat (map (\<lambda>m. render_send (relabel c' m)) ms) \<longrightarrow>
         mwSession_recv_all ftc_full pieces r = Some r')
    \<and> fc_recv (ss_client r') = fc_recv (ss_client r) @ map (\<lambda>d. (b, opaque_bytes d)) ds
    \<and> ft_at ftc_slot r' b = Some g' \<and> ft_remaining g' = 0 \<and> ft_st g' = mwFileTransfer_DONE
    \<and> fc_wire (ss_client r') = fc_wire (ss_client r) @ replicate (length ds) (render_send (ft_ack_message c'))
    \<and> ft_at ftc_slot s' a = Some f' \<and> ft_remaining f' = 0
    \<and> (\<forall>pieces. concat pieces = concat (replicate (length ds) (render_send (relabel c (ft_ack_message c')))) \<longrightarrow>
         mwSession_recv_all ftc_full pieces s' = Some s'')
    \<and> ft_ended c a f' s' s''"
proof -
  have op: "ft_remaining g \<noteq> 0 \<Longrightarrow> ft_st g = mwFileTransfer_OPEN" by (rule assms(7))
  have le: "ft_total ds \<le> unat (ft_remaining f)" using assms(10) by simp
  obtain ms ci1 ci2 where st: "\<forall>m \<in> set ms. sendable (ChannelSend (relabel c' m))"
    "ft_sending cipher c a (foldl ft_sent f ds) ci1 s'"
    "fc_wire (ss_client s') = fc_wire (ss_client s) @ map render_send ms"
    "ft_receiving c' b (foldl ft_took g ds) ci2 (exec_state (for_each ft_process (map (relabel c') ms)) r)"
    "fc_recv (ss_client (exec_state (for_each ft_process (map (relabel c') ms)) r))
        = fc_recv (ss_client r) @ map (\<lambda>d. (b, opaque_bytes d)) ds"
    "fc_wire (ss_client (exec_state (for_each ft_process (map (relabel c') ms)) r))
        = fc_wire (ss_client r) @ replicate (length ds) (render_send (ft_ack_message c'))"
    using ft_stream [OF assms(1-3,6) op assms(8) le] unfolding assms(11) by blast
  have rem: "ft_remaining (foldl ft_sent f ds) = 0" "ft_remaining (foldl ft_took g ds) = 0"
    using sent_folds(1) [OF le] sent_folds(2) [OF le assms(6)] assms(10) by (simp_all add: unat_eq_zero)
  note fin = took_done [OF assms(9) rem(2)]
  let ?acks = "replicate (length ds) (ft_ack_message c)"
  have ended: "ft_ended c a (foldl ft_sent f ds) s' (exec_state (for_each ft_process ?acks) s')"
    using ack_step [OF st(2) rem(1)] ack_dropped assms(9) by (cases ds) (auto simp: ft_ended_def split_def)
  have label: "relabel c (ft_ack_message c') = ft_ack_message c"
    by (simp add: relabel_def ft_ack_message_def)
  have "framing_ok s' []"
    using nobuf_ft_sends assms(4) unfolding assms(11) nobuf_def by (metis framing_ok_empty snd_conv)
  then have acks: "mwSession_recv_all ftc_full pieces s' = Some (exec_state (for_each ft_process ?acks) s')"
    if "concat pieces = concat (replicate (length ds) (render_send (relabel c (ft_ack_message c'))))" for pieces
    using recv_ft_messages [of s' ?acks pieces] ft_ack_sendable that by (simp add: label)
  have recv: "mwSession_recv_all ftc_full pieces r = Some (exec_state (for_each ft_process (map (relabel c') ms)) r)"
    if "concat pieces = concat (map (\<lambda>m. render_send (relabel c' m)) ms)" for pieces
    using recv_ft_messages [OF assms(5), of "map (relabel c') ms" pieces] st(1) that by (simp add: comp_def)
  have at: "ft_at ftc_slot s' a = Some (foldl ft_sent f ds)"
    "ft_at ftc_slot (exec_state (for_each ft_process (map (relabel c') ms)) r) b = Some (foldl ft_took g ds)"
    using st(2,4) by (simp_all add: ft_sending_def ft_receiving_def)
  show ?thesis
    using st(3,5,6) recv at rem fin acks ended by (intro exI conjI) (assumption | blast)+
qed

definition ft_example_instance :: mwCipherInstance_RC2_40 where
  "ft_example_instance = \<lparr>i40_incoming_key = zero_key, i40_outgoing_iv = mwIV_init, i40_incoming_iv = mwIV_init\<rparr>"

definition ft_example_cipher :: mwCipher where
  "ft_example_cipher = RC2_40 \<lparr>c40_session_key = zero_key, c40_ready = True\<rparr>"

definition ft_example_transfer :: "guint32 \<Rightarrow> mwFileTransfer" where
  "ft_example_transfer c = mwFileTransfer_zero\<lparr>ft_channel := Some c, ft_st := mwFileTransfer_OPEN, ft_size := 3, ft_remaining := 3\<rparr>"

definition ft_example_end :: "guint32 \<Rightarrow> ft_client mwSession" where
  "ft_example_end c = (mwSession_zero \<lparr>fc_ft = \<lparr>fs_handler = True, fs_transfers = [(0, ft_example_transfer c)], fs_next = 1\<rparr>,
       fc_wire = [], fc_recv = [], fc_ack = [], fc_closed = []\<rparr>)
     \<lparr>ss_channels := [(c, mwChannel_zero\<lparr>ch_state := mwChannel_OPEN, ch_id := c, ch_service := mwService_FILE_TRANSFER,
         ch_cipher := Some (Inst_RC2_40 ft_example_instance), ch_srvc_data := Some 0\<rparr>)],
      ss_ciphers := [(0, ft_example_cipher)],
      ss_services := [(mwService_FILE_TRANSFER, service_of mwService_FILE_TRANSFER)]\<rparr>"

lemma ft_example_ok:
  "ft_sending ft_example_cipher 1 0 (ft_example_transfer 1) (Some (Inst_RC2_40 ft_example_instance)) (ft_example_end 1)"
  "ft_receiving 0x80000001 0 (ft_example_transfer 0x80000001) (Some (Inst_RC2_40 ft_example_instance)) (ft_example_end 0x80000001)"
  "in_sync ft_example_cipher (Some (Inst_RC2_40 ft_example_instance)) (Some (Inst_RC2_40 ft_example_instance))"
  "framing_ok (ft_example_end c) []" "ft_remaining (ft_example_transfer c) = 3"
  "ft_st (ft_example_transfer c) = mwFileTransfer_OPEN"
  by (simp_all add: ft_sending_def ft_receiving_def ft_example_end_def ft_example_transfer_def ft_at_def
      ft_example_cipher_def ft_example_instance_def mwChannel_idIsOutgoing_def mwSession_zero_def service_of_def
      sync_RC2_40_def buf_free_def)

theorem file_transfer_delivers_witness:
  "\<exists>ms g' s'' r' f'. mwSession_recv_all ftc_full
        (map (\<lambda>b. [b]) (concat (map (\<lambda>m. render_send (relabel 0x80000001 m)) ms))) (ft_example_end 0x80000001) = Some r'
    \<and> fc_recv (ss_client r') = [(0, [1, 2]), (0, [3])]
    \<and> ft_at ftc_slot r' 0 = Some g' \<and> ft_remaining g' = 0 \<and> ft_st g' = mwFileTransfer_DONE
    \<and> ft_ended 1 0 f' (exec_state (for_each (ft_call_run ftc_env ftc_slot ftc_handler)
        (map (FT_send 0) [opaque_of [1, 2], opaque_of [3]])) (ft_example_end 1)) s''"
proof -
  let ?ds = "[opaque_of [1, 2], opaque_of [3]]"
  have ds: "\<forall>d \<in> set ?ds. opaque_ok d \<and> 0 < op_len d \<and> op_len d < 2 ^ 30" by simp
  have total: "sum_list (map op_len ?ds) = unat (ft_remaining (ft_example_transfer 1))"
    by (simp add: ft_example_ok(5))
  have single: "concat (map (\<lambda>b. [b]) bs) = bs" for bs :: bytes by simp
  have start: "fc_recv (ss_client (ft_example_end c)) = []" for c
    by (simp add: ft_example_end_def mwSession_zero_def)
  have same: "ft_remaining (ft_example_transfer 0x80000001) = ft_remaining (ft_example_transfer 1)"
    by (simp only: ft_example_ok(5))
  obtain ms f' g' s'' r' where *: "\<forall>pieces. concat pieces = concat (map (\<lambda>m. render_send (relabel 0x80000001 m)) ms) \<longrightarrow>
      mwSession_recv_all ftc_full pieces (ft_example_end 0x80000001) = Some r'"
    "fc_recv (ss_client r') = fc_recv (ss_client (ft_example_end 0x80000001)) @ map (\<lambda>d. (0, opaque_bytes d)) ?ds"
    "ft_at ftc_slot r' 0 = Some g'" "ft_remaining g' = 0" "ft_st g' = mwFileTransfer_DONE"
    "ft_ended 1 0 f' (exec_state (for_each (ft_call_run ftc_env ftc_slot ftc_handler)
        (map (FT_send 0) ?ds)) (ft_example_end 1)) s''"
    using file_transfer_delivers [OF ft_example_ok(1-4,4) same ft_example_ok(6) ds _ total refl] by blast
  have "mwSession_recv_all ftc_full (map (\<lambda>b. [b]) (concat (map (\<lambda>m. render_send (relabel 0x80000001 m)) ms)))
      (ft_example_end 0x80000001) = Some r'"
    by (rule mp [OF spec [OF *(1)]]) (rule single)
  moreover have "fc_recv (ss_client r') = [(0, [1, 2]), (0, [3])]"
    by (simp add: *(2) start)
  ultimately show ?thesis
    using *(3-6) by (intro exI conjI)
qed

end
