(* ===== verification/Service_Heap.thy ===== *)
theory Service_Heap
  imports Service_Slot "HOL-Library.While_Combinator"
begin

text \<open>
  The objects a service allocates for its client (requests, searches, conversations, address
  books, places). They live in a \<open>heap\<close>, a table from addresses with the next address to
  give out, which is a part of the service's state; following an address that is not in
  the table sets \<open>ss_fault\<close>. The first section cuts such parts out of a slot.
\<close>

section \<open>Parts of a slot\<close>

definition part :: "('c, 's) slot \<Rightarrow> ('s \<Rightarrow> 'p) \<Rightarrow> (('p \<Rightarrow> 'p) \<Rightarrow> 's \<Rightarrow> 's) \<Rightarrow> ('c, 'p) slot" where
  "part sl g u = \<lparr>sl_get = (\<lambda>c. g (sl_get sl c)), sl_put = (\<lambda>x c. sl_put sl (u (\<lambda>_. x) (sl_get sl c)) c)\<rparr>"

locale record_field =
  fixes g :: "'s \<Rightarrow> 'p" and u :: "('p \<Rightarrow> 'p) \<Rightarrow> 's \<Rightarrow> 's"
  assumes get_upd: "g (u f x) = f (g x)"
    and upd_get: "u (\<lambda>_. g x) x = x"
    and upd_upd: "u f (u h x) = u (\<lambda>p. f (h p)) x"
begin

lemma part_slot: "service_slot sl \<Longrightarrow> service_slot (part sl g u)"
  unfolding service_slot_def part_def by (simp add: get_upd upd_get upd_upd)

end

lemma srvc_of_part [simp]: "srvc_of (part sl g u) s = g (srvc_of sl s)"
  by (simp add: srvc_of_def part_def)

lemma srvc_set_part [simp]: "srvc_set (part sl g u) x s = srvc_set sl (u (\<lambda>_. x) (srvc_of sl s)) s"
  by (simp add: srvc_set_def srvc_of_def part_def)

section \<open>Heaps\<close>

record 'o heap =
  hp_objs :: "(addr \<times> 'o) list"
  hp_next :: addr

definition heap_empty :: "'o heap" where
  "heap_empty = \<lparr>hp_objs = [], hp_next = 1\<rparr>"

abbreviation heap_at :: "'o heap \<Rightarrow> addr \<Rightarrow> 'o option" where
  "heap_at h a \<equiv> map_of (hp_objs h) a"

definition heap_set :: "addr \<Rightarrow> 'o \<Rightarrow> 'o heap \<Rightarrow> 'o heap" where
  "heap_set a x h = h\<lparr>hp_objs := AList.update a x (hp_objs h)\<rparr>"

definition heap_deref :: "('c, 'o heap) slot \<Rightarrow> 'o \<Rightarrow> addr \<Rightarrow> ('c, 'o) M" where
  "heap_deref hs z a = do {
     x \<leftarrow> srvc_get hs (\<lambda>h. heap_at h a);
     case x of Some x \<Rightarrow> State_Monad.return x
     | None \<Rightarrow> do { fault; State_Monad.return z }
   }"

definition heap_update :: "('c, 'o heap) slot \<Rightarrow> addr \<Rightarrow> ('o \<Rightarrow> 'o) \<Rightarrow> ('c, unit) M" where
  "heap_update hs a f = do {
     x \<leftarrow> srvc_get hs (\<lambda>h. heap_at h a);
     case x of Some x \<Rightarrow> srvc_modify hs (heap_set a (f x))
     | None \<Rightarrow> fault
   }"

definition heap_new :: "('c, 'o heap) slot \<Rightarrow> 'o \<Rightarrow> ('c, addr) M" where
  "heap_new hs x = do {
     a \<leftarrow> srvc_get hs hp_next;
     srvc_modify hs (\<lambda>h. h\<lparr>hp_objs := (a, x) # hp_objs h, hp_next := Suc a\<rparr>);
     State_Monad.return a
   }"

text \<open>Freeing an object that is not there (any more) is a fault, too.\<close>

definition heap_free :: "('c, 'o heap) slot \<Rightarrow> addr \<Rightarrow> ('c, unit) M" where
  "heap_free hs a = do {
     x \<leftarrow> srvc_get hs (\<lambda>h. heap_at h a);
     if x = None then fault else srvc_modify hs (\<lambda>h. h\<lparr>hp_objs := AList.delete a (hp_objs h)\<rparr>)
   }"

definition objs_ok :: "'o heap \<Rightarrow> bool" where
  "objs_ok h \<longleftrightarrow> distinct (map fst (hp_objs h)) \<and> (\<forall>a \<in> fst ` set (hp_objs h). a < hp_next h)"

abbreviation heap_dom :: "'o heap \<Rightarrow> addr set" where
  "heap_dom h \<equiv> fst ` set (hp_objs h)"

lemma heap_at_dom: "heap_at h a = None \<longleftrightarrow> a \<notin> heap_dom h"
  by (simp add: map_of_eq_None_iff)

lemma heap_dom_set: "heap_dom (heap_set a x h) = insert a (heap_dom h)"
  by (simp add: heap_set_def dom_update)

lemma heap_dom_set_same [simp]: "heap_at h a = Some y \<Longrightarrow> heap_dom (heap_set a x h) = heap_dom h"
  using heap_at_dom [of h a] by (simp add: heap_dom_set insert_absorb)

lemma heap_at_set [simp]: "heap_at (heap_set a x h) b = (if b = a then Some x else heap_at h b)"
  by (simp add: heap_set_def update_conv')

lemma heap_set_set [simp]: "heap_set a x (heap_set a y h) = heap_set a x h"
proof -
  have "AList.update a x (AList.update a y al) = AList.update a x al" for al :: "(nat \<times> 'a) list"
    by (induction al) auto
  then show ?thesis by (simp add: heap_set_def)
qed

lemma heap_set_same: "heap_at h a = Some x \<Longrightarrow> heap_set a x h = h"
  by (simp add: heap_set_def update_same)

lemma objs_ok_empty [simp]: "objs_ok heap_empty" "hp_objs heap_empty = []"
  by (simp_all add: objs_ok_def heap_empty_def)

lemma objs_ok_set: "objs_ok h \<Longrightarrow> heap_at h a = Some y \<Longrightarrow> objs_ok (heap_set a x h)"
  using heap_dom_set_same [of h a y x] by (auto simp: objs_ok_def heap_set_def distinct_update)

lemma objs_ok_new: "objs_ok h \<Longrightarrow> objs_ok (h\<lparr>hp_objs := (hp_next h, x) # hp_objs h, hp_next := Suc (hp_next h)\<rparr>)"
  by (auto simp: objs_ok_def)

lemma heap_new_fresh: "objs_ok h \<Longrightarrow> hp_next h \<notin> heap_dom h"
  by (auto simp: objs_ok_def)

lemma objs_ok_delete: "objs_ok h \<Longrightarrow> objs_ok (h\<lparr>hp_objs := AList.delete a (hp_objs h)\<rparr>)"
  by (auto simp: objs_ok_def distinct_delete dest!: in_delete)

lemma heap_dom_delete [simp]: "fst ` set (AList.delete a al) = fst ` set al - {a}"
  by (induction al) auto

text \<open>Runs.\<close>

lemma run_heap_deref: "run_state (heap_deref hs z a) s
    = (case heap_at (srvc_of hs s) a of Some x \<Rightarrow> (x, s) | None \<Rightarrow> (z, s\<lparr>ss_fault := True\<rparr>))"
  by (simp add: heap_deref_def fault_def split: option.split)

lemma run_heap_update: "run_state (heap_update hs a f) s
    = (case heap_at (srvc_of hs s) a of Some x \<Rightarrow> ((), srvc_set hs (heap_set a (f x) (srvc_of hs s)) s)
       | None \<Rightarrow> ((), s\<lparr>ss_fault := True\<rparr>))"
  by (simp add: heap_update_def fault_def split: option.split)

lemma run_heap_new: "run_state (heap_new hs x) s
    = (let h = srvc_of hs s in (hp_next h, srvc_set hs (h\<lparr>hp_objs := (hp_next h, x) # hp_objs h, hp_next := Suc (hp_next h)\<rparr>) s))"
  by (simp add: heap_new_def Let_def)

lemma run_heap_free: "run_state (heap_free hs a) s
    = (if heap_at (srvc_of hs s) a = None then ((), s\<lparr>ss_fault := True\<rparr>)
       else ((), srvc_set hs ((srvc_of hs s)\<lparr>hp_objs := AList.delete a (hp_objs (srvc_of hs s))\<rparr>) s))"
  by (simp add: heap_free_def fault_def)

lemma nobuf_heap [nobuf_intros]:
  "nobuf (heap_deref hs z a)" "nobuf (heap_update hs a f)" "nobuf (heap_new hs x)" "nobuf (heap_free hs a)"
  unfolding heap_deref_def heap_update_def heap_new_def heap_free_def by (intro nobuf_intros)+

section \<open>The channel of a service\<close>

text \<open>
  Most services ask the server for a channel when they start; their functions
  \<open>make_channel\<close> differ in the numbers of the service and of its protocol.
\<close>

definition make_service_channel :: "'c env \<Rightarrow> guint32 \<Rightarrow> guint32 \<Rightarrow> guint32 \<Rightarrow> ('c, guint32 option) M" where
  "make_service_channel env type proto ver = do {
     chan \<leftarrow> mwChannel_newOutgoing;
     case chan of
       None \<Rightarrow> State_Monad.return None
     | Some chan \<Rightarrow> do {
         mwChannel_setService chan (service_of type);
         mwChannel_setProtoType chan proto;
         mwChannel_setProtoVer chan ver;
         ret \<leftarrow> mwChannel_create env chan;
         State_Monad.return (if ret \<noteq> 0 then None else Some chan)
       }
   }"

text \<open>Sending on the channel of a service, which may be missing.\<close>

definition srvc_send :: "'c env \<Rightarrow> guint32 option \<Rightarrow> guint32 \<Rightarrow> mwOpaque \<Rightarrow> ('c, gint) M" where
  "srvc_send env chan type data =
     (case chan of None \<Rightarrow> State_Monad.return (- 1) | Some chan \<Rightarrow> mwChannel_send env chan type data)"

definition MW_SERVICE_IS_STARTED :: "guint32 \<Rightarrow> ('c, bool) M" where
  "MW_SERVICE_IS_STARTED type = do { st \<leftarrow> mwService_getState type; State_Monad.return (st = mwServiceState_STARTED) }"

lemma nobuf_service_calls [nobuf_intros]:
  assumes "env_nobuf env"
  shows "nobuf (make_service_channel env t p v)" "nobuf (srvc_send env c ty d)" "nobuf (MW_SERVICE_IS_STARTED t)"
    "nobuf (mwSession_senseService env t)"
proof -
  have st: "nobuf (mwService_getState t)"
    unfolding mwService_getState_def by (intro nobuf_intros)
  show "nobuf (make_service_channel env t p v)" "nobuf (srvc_send env c ty d)" "nobuf (MW_SERVICE_IS_STARTED t)"
    "nobuf (mwSession_senseService env t)"
    unfolding make_service_channel_def srvc_send_def MW_SERVICE_IS_STARTED_def mwSession_senseService_def
    by (intro nobuf_intros assms st)+
qed

text \<open>Predicates of the client are kept by all of these.\<close>

lemma keeps_fields:
  "keeps (\<lambda>s. Q (srvc_of sl s)) (mwChannel_isIncoming c)" "keeps (\<lambda>s. Q (srvc_of sl s)) (mwChannel_isOutgoing c)"
  "keeps (\<lambda>s. Q (srvc_of sl s)) (mwChannel_isState c st)" "keeps (\<lambda>s. Q (srvc_of sl s)) (mwChannel_getUser c)"
  "keeps (\<lambda>s. Q (srvc_of sl s)) (mwChannel_setAddtlCreate c d)" "keeps (\<lambda>s. Q (srvc_of sl s)) (mwChannel_setAddtlAccept c d)"
  "keeps (\<lambda>s. Q (srvc_of sl s)) (mwChannel_getServiceData c)" "keeps (\<lambda>s. Q (srvc_of sl s)) (mwChannel_setServiceData c x)"
  "keeps (\<lambda>s. Q (srvc_of sl s)) (mwChannel_removeServiceData c)" "keeps (\<lambda>s. Q (srvc_of sl s)) (mwChannel_setService c srv)"
  "keeps (\<lambda>s. Q (srvc_of sl s)) (mwChannel_setProtoType c n)" "keeps (\<lambda>s. Q (srvc_of sl s)) (mwChannel_setProtoVer c n)"
  "keeps (\<lambda>s. Q (srvc_of sl s)) (mwChannel_setOptions c n)" "keeps (\<lambda>s. Q (srvc_of sl s)) (MW_SERVICE_IS_STARTED t)"
  "keeps (\<lambda>s. Q (srvc_of sl s)) fault"
  unfolding mwChannel_isIncoming_def mwChannel_isOutgoing_def mwChannel_isState_def mwChannel_getUser_def
    mwChannel_setAddtlCreate_def mwChannel_setAddtlAccept_def mwChannel_getServiceData_def mwChannel_setServiceData_def
    mwChannel_removeServiceData_def mwChannel_setService_def mwChannel_setProtoType_def mwChannel_setProtoVer_def
    mwChannel_setOptions_def channel_set_def MW_SERVICE_IS_STARTED_def
  by (intro keeps_intros srvc.keeps_small srvc.keeps_service_state; simp)+

lemma keeps_service_calls:
  assumes "env_keeps (\<lambda>s. Q (srvc_of sl s)) env"
  shows "keeps (\<lambda>s. Q (srvc_of sl s)) (make_service_channel env t p v)" "keeps (\<lambda>s. Q (srvc_of sl s)) (srvc_send env ch ty d)"
    "keeps (\<lambda>s. Q (srvc_of sl s)) (mwSession_senseService env t)" "keeps (\<lambda>s. Q (srvc_of sl s)) (mwChannel_send env c ty d)"
    "keeps (\<lambda>s. Q (srvc_of sl s)) (mwChannel_populateSupportedCipherInstances env c)"
  unfolding make_service_channel_def srvc_send_def mwChannel_send_def mwSession_senseService_def
    mwChannel_populateSupportedCipherInstances_def
  by (intro keeps_intros keeps_fields srvc.keeps_small srvc.keeps_newOutgoing srvc.keeps_send [OF assms]
      srvc.keeps_negotiation [OF assms] srvc.keeps_channel [OF assms])+

lemmas srvc_calls = keeps_fields srvc.keeps_small srvc.keeps_newOutgoing srvc.keeps_service_state

lemma keeps_heap_deref: "keeps (\<lambda>s. Q (srvc_of sl s)) (heap_deref hs z a)"
  by (simp add: keeps_def run_heap_deref split: option.split)

lemma heap_delete_set [simp]: "AList.delete a (AList.update a x al) = AList.delete a al"
  by (induction al) auto

section \<open>Loops that call back\<close>

text \<open>
  Some services free their objects in a loop that calls functions of the client, which may make
  new ones. The loop is a \<open>while_option\<close>; one that does not end is given the value of a fault.
\<close>

definition while_do :: "('c mwSession \<Rightarrow> bool) \<Rightarrow> ('c, unit) M \<Rightarrow> ('c, unit) M" where
  "while_do b m = State (\<lambda>s. case while_option b (exec_state m) s of
     Some t \<Rightarrow> ((), t) | None \<Rightarrow> ((), s\<lparr>ss_fault := True\<rparr>))"

lemma run_while_do: "run_state (while_do b m) s
    = (case while_option b (exec_state m) s of Some t \<Rightarrow> ((), t) | None \<Rightarrow> ((), s\<lparr>ss_fault := True\<rparr>))"
  by (simp add: while_do_def)

lemma keeps_while_do: "keeps P m \<Longrightarrow> keeps P fault \<Longrightarrow> keeps P (while_do b m)"
  by (auto simp: keeps_def run_while_do fault_def elim: while_option_rule [rotated] split: option.split)

lemma nobuf_while_do:
  assumes "nobuf m" and "\<And>s. b (buf_free s) = b s"
  shows "nobuf (while_do b m)"
proof -
  have w: "while_option b (exec_state m) (buf_free s) = map_option buf_free (while_option b (exec_state m) s)" for s
    using assms by (intro while_option_commute [symmetric]) (simp_all add: nobuf_def)
  have f: "(buf_free s)\<lparr>ss_fault := x\<rparr> = buf_free (s\<lparr>ss_fault := x\<rparr>)" for s :: "'a mwSession" and x
    by (simp add: buf_free_def)
  show ?thesis
    by (simp add: nobuf_def run_while_do w f split: option.split)
qed

text \<open>Such a loop ends where its body shortens a list, and then the list is empty.\<close>

lemma while_do_empties:
  assumes "\<And>s. P s \<Longrightarrow> l s \<noteq> [] \<Longrightarrow> P (exec_state m s) \<and> length (l (exec_state m s)) < length (l s)" and "P s"
  shows "P (exec_state (while_do (\<lambda>s. l s \<noteq> []) m) s) \<and> l (exec_state (while_do (\<lambda>s. l s \<noteq> []) m) s) = []"
proof -
  obtain t where t: "while_option (\<lambda>s. l s \<noteq> []) (exec_state m) s = Some t"
    using measure_while_option_Some [of P "\<lambda>s. l s \<noteq> []" "exec_state m" "\<lambda>s. length (l s)"] assms by blast
  have "P t" by (rule while_option_rule [where P = P, OF _ t assms(2)]) (use assms(1) in blast)
  with t while_option_stop [OF t] show ?thesis
    by (simp add: run_while_do)
qed

section \<open>A client that records what it writes\<close>

text \<open>The environment of examples, for any record of the client.\<close>

definition plain_env :: "(bytes \<Rightarrow> 'c \<Rightarrow> 'c) \<Rightarrow> 'c env" where
  "plain_env wr = \<lparr>
     e_io_write = (\<lambda>b. do { modify (\<lambda>s. s\<lparr>ss_client := wr b (ss_client s)\<rparr>); State_Monad.return 0 }),
     e_io_close = State_Monad.return (),
     e_on_stateChange = None, e_on_setPrivacyInfo = None, e_on_setUserStatus = None,
     e_on_admin = None, e_on_announce = None,
     e_start = (\<lambda>_. None), e_stop = (\<lambda>_. None),
     e_recv_create = (\<lambda>_. None), e_recv_accept = (\<lambda>_. None), e_recv_destroy = (\<lambda>_. None),
     e_recv = (\<lambda>_. None), e_order = (\<lambda>ks. ks), e_time = State_Monad.return 0,
     e_mwKeyRandom = (\<lambda>n. State_Monad.return (replicate n 7)), e_dh_random = State_Monad.return 5,
     e_junk = State_Monad.return \<lparr>jk_head = mwMessageHead_zero, jk_ack = 0, jk_skip = 0, jk_count = 0\<rparr>\<rparr>"

lemma plain_env_writes [simp]: "writes_to (plain_env wr) wr"
  by (simp add: writes_to_def plain_env_def)

lemma plain_env_keeps:
  assumes "\<And>b c. Q (sl_get sl (wr b c)) = Q (sl_get sl c)"
  shows "env_keeps (\<lambda>s. Q (srvc_of sl s)) (plain_env wr)"
  using assms by (simp add: env_keeps_def plain_env_def keeps_def srvc_of_def)

lemma plain_env_nobuf: "env_nobuf (plain_env wr)"
proof -
  have "nobuf (modify (\<lambda>s. s\<lparr>ss_client := wr b (ss_client s)\<rparr>))" for b
    by (rule nobuf_modify) (simp add: buf_free_def)
  then show ?thesis
    unfolding env_nobuf_def plain_env_def by (auto intro!: nobuf_intros)
qed

lemma plain_env_junk [simp]: "run_state (e_junk (plain_env wr)) s
    = (\<lparr>jk_head = mwMessageHead_zero, jk_ack = 0, jk_skip = 0, jk_count = 0\<rparr>, s)"
  by (simp add: plain_env_def)

section \<open>Reading what a server sends\<close>

lemma reader_truncated:
  assumes "reader m" and "run_state m (gbuf w pre wire) = (x, gbuf w (pre @ wire) [])" and "n < length wire"
  shows "gb_error (exec_state m (gbuf w pre (take n wire)))"
  using assms(1)
proof (cases rule: readerE [where w = w and pre = pre and p = "take n wire"])
  case (eats y c r)
  have "run_state m (gbuf w pre (take n wire @ drop n wire)) = (y, gbuf w (pre @ c) (r @ drop n wire))"
    by (rule eats(2))
  with assms(2) have "gbuf w (pre @ c) (r @ drop n wire) = gbuf w (pre @ wire) []" by simp
  with assms(3) show ?thesis by (simp add: gbuf_def)
qed simp

lemma gb_error_gbuf [simp]: "gb_error (gbuf w pre post) = False"
  by (simp add: gbuf_def)

end
