(* ===== verification/Srvc_IM.thy ===== *)
theory Srvc_IM
  imports Service_Heap Srvc_FT
begin

text \<open>
  The instant messaging service, \<^verbatim>\<open>src/src/srvc_im.c\<close>: conversations, each over a channel of
  its own, text and data messages, long messages in segments, invitations to places.
  Conversations live in a heap next to the list of the service. The handler of the client
  is an argument; what its \<open>conversation_recv\<close> gets as a type and a pointer is one value
  of \<open>im_send\<close>.
\<close>

section \<open>State\<close>

definition mwService_IM :: guint32 where "mwService_IM = 0x00001000"
definition IM_PROTOCOL_TYPE :: guint32 where "IM_PROTOCOL_TYPE = 0x00001000"
definition IM_PROTOCOL_VER :: guint32 where "IM_PROTOCOL_VER = 0x00000003"
definition mwImAddtlA_NORMAL :: guint32 where "mwImAddtlA_NORMAL = 0x00000001"
definition mwImAddtlB_PRECONF :: guint32 where "mwImAddtlB_PRECONF = 0x00000019"
definition mwImAddtlC_NORMAL :: guint32 where "mwImAddtlC_NORMAL = 0x00000002"
definition msg_MESSAGE :: guint32 where "msg_MESSAGE = 0x0064"
definition BREAKUP :: nat where "BREAKUP = 2048"

definition mwIm_TEXT :: guint32 where "mwIm_TEXT = 0x00000001"
definition mwIm_DATA :: guint32 where "mwIm_DATA = 0x00000002"

definition mwImData_TYPING :: guint32 where "mwImData_TYPING = 0x00000001"
definition mwImData_SUBJECT :: guint32 where "mwImData_SUBJECT = 0x00000003"
definition mwImData_HTML :: guint32 where "mwImData_HTML = 0x00000004"
definition mwImData_MIME :: guint32 where "mwImData_MIME = 0x00000005"
definition mwImData_TIMESTAMP :: guint32 where "mwImData_TIMESTAMP = 0x00000006"
definition mwImData_INVITE :: guint32 where "mwImData_INVITE = 0x0000000a"
definition mwImData_MULTI_START :: guint32 where "mwImData_MULTI_START = 0x00001388"
definition mwImData_MULTI_STOP :: guint32 where "mwImData_MULTI_STOP = 0x00001389"

definition mwImClient_PLAIN :: guint32 where "mwImClient_PLAIN = 0x00000001"
definition mwImClient_NOTESBUDDY :: guint32 where "mwImClient_NOTESBUDDY = 0x00033453"

definition mwStatus_BUSY :: guint16 where "mwStatus_BUSY = 0x0080"
definition ERR_CLIENT_USER_DND :: guint32 where "ERR_CLIENT_USER_DND = 0x80002001"
definition ERR_IM_NOT_REGISTERED :: guint32 where "ERR_IM_NOT_REGISTERED = 0x80002005"

datatype mwImSendType =
    mwImSend_PLAIN | mwImSend_TYPING | mwImSend_HTML | mwImSend_SUBJECT | mwImSend_MIME | mwImSend_TIMESTAMP

datatype im_send =
    Send_PLAIN cstr | Send_TYPING bool | Send_HTML cstr | Send_SUBJECT cstr | Send_MIME cstr | Send_TIMESTAMP cstr

datatype mwConversationState =
    mwConversation_CLOSED | mwConversation_PENDING | mwConversation_OPEN | mwConversation_UNKNOWN

text \<open>\<open>cv_multi\<close> is the \<open>GString\<close> of an incoming message in segments.\<close>

record mwConversation =
  cv_channel :: "guint32 option"
  cv_target :: mwIdBlock
  cv_ext_id :: bool
  cv_state :: mwConversationState
  cv_features :: guint32
  cv_multi :: "bytes option"
  cv_multi_type :: mwImSendType

record mwServiceIm =
  im_features :: guint32
  im_handler :: bool
  im_objs :: "mwConversation heap"
  im_convs :: "addr list"

record 'c mwImHandler =
  imh_opened :: "(addr \<Rightarrow> ('c, unit) M) option"
  imh_closed :: "(addr \<Rightarrow> guint32 \<Rightarrow> ('c, unit) M) option"
  imh_recv :: "(addr \<Rightarrow> im_send \<Rightarrow> ('c, unit) M) option"
  imh_place_invite :: "(addr \<Rightarrow> cstr \<Rightarrow> cstr \<Rightarrow> cstr \<Rightarrow> ('c, unit) M) option"
  imh_clear :: "('c, unit) M option"

type_synonym 'c im_slot = "('c, mwServiceIm) slot"

definition im_heap :: "'c im_slot \<Rightarrow> ('c, mwConversation heap) slot" where
  "im_heap sl = part sl im_objs im_objs_update"

definition mwConversation_zero :: mwConversation where
  "mwConversation_zero = \<lparr>cv_channel = None, cv_target = mwIdBlock_zero, cv_ext_id = False, cv_state = mwConversation_CLOSED,
     cv_features = 0, cv_multi = None, cv_multi_type = mwImSend_PLAIN\<rparr>"

definition conv_deref :: "'c im_slot \<Rightarrow> addr \<Rightarrow> ('c, mwConversation) M" where
  "conv_deref sl = heap_deref (im_heap sl) mwConversation_zero"

definition conv_update :: "'c im_slot \<Rightarrow> addr \<Rightarrow> (mwConversation \<Rightarrow> mwConversation) \<Rightarrow> ('c, unit) M" where
  "conv_update sl = heap_update (im_heap sl)"

text \<open>A new conversation at the front of the list.\<close>

definition conv_new :: "'c im_slot \<Rightarrow> mwConversation \<Rightarrow> ('c, addr) M" where
  "conv_new sl cv = do {
     a \<leftarrow> heap_new (im_heap sl) cv;
     srvc_modify sl (\<lambda>im. im\<lparr>im_convs := a # im_convs im\<rparr>);
     State_Monad.return a
   }"

section \<open>Conversations\<close>

fun convo_find_in :: "'c im_slot \<Rightarrow> mwIdBlock \<Rightarrow> addr list \<Rightarrow> ('c, addr option) M" where
  "convo_find_in sl to' [] = State_Monad.return None"
| "convo_find_in sl to' (a # l) = do {
     c \<leftarrow> conv_deref sl a;
     if mwIdBlock_equal (Some (cv_target c)) (Some to') then State_Monad.return (Some a) else convo_find_in sl to' l
   }"

definition convo_find_by_user :: "'c im_slot \<Rightarrow> mwIdBlock \<Rightarrow> ('c, addr option) M" where
  "convo_find_by_user sl to' = do { l \<leftarrow> srvc_get sl im_convs; convo_find_in sl to' l }"

definition convo_set_state :: "'c im_slot \<Rightarrow> addr \<Rightarrow> mwConversationState \<Rightarrow> ('c, unit) M" where
  "convo_set_state sl conv state = do {
     c \<leftarrow> conv_deref sl conv;
     if cv_state c \<noteq> state then conv_update sl conv (\<lambda>c. c\<lparr>cv_state := state\<rparr>) else State_Monad.return ()
   }"

definition mwServiceIm_findConversation :: "'c im_slot \<Rightarrow> mwIdBlock \<Rightarrow> ('c, addr option) M" where
  "mwServiceIm_findConversation sl to' = convo_find_by_user sl to'"

definition mwServiceIm_getConversation :: "'c im_slot \<Rightarrow> mwIdBlock \<Rightarrow> ('c, addr) M" where
  "mwServiceIm_getConversation sl to' = do {
     c \<leftarrow> convo_find_by_user sl to';
     case c of
       Some c \<Rightarrow> State_Monad.return c
     | None \<Rightarrow> do {
         features \<leftarrow> srvc_get sl im_features;
         conv_new sl (mwConversation_zero\<lparr>cv_target := mwIdBlock_clone mwIdBlock_zero to',
           cv_state := mwConversation_CLOSED, cv_features := features\<rparr>)
       }
   }"

definition convo_create_chan :: "'c env \<Rightarrow> 'c im_slot \<Rightarrow> addr \<Rightarrow> ('c, unit) M" where
  "convo_create_chan env sl conv = do {
     c \<leftarrow> conv_deref sl conv;
     if cv_state c \<noteq> mwConversation_PENDING \<or> cv_channel c \<noteq> None then State_Monad.return ()
     else do {
       chan \<leftarrow> mwChannel_newOutgoing;
       case chan of
         None \<Rightarrow> State_Monad.return ()
       | Some chan \<Rightarrow> do {
           mwChannel_setService chan (service_of mwService_IM);
           mwChannel_setProtoType chan IM_PROTOCOL_TYPE;
           mwChannel_setProtoVer chan IM_PROTOCOL_VER;
           mwChannel_populateSupportedCipherInstances env chan;
           chan_update chan (\<lambda>ch. ch\<lparr>ch_user := (ch_user ch)\<lparr>li_user_id := ib_user (cv_target c),
             li_community := ib_community (cv_target c)\<rparr>\<rparr>);
           mwChannel_setAddtlCreate chan (put_opaque (do {
             guint32_put mwImAddtlA_NORMAL;
             guint32_put (cv_features c)
           }));
           ret \<leftarrow> mwChannel_create env chan;
           if ret \<noteq> 0 then conv_update sl conv (\<lambda>c. c\<lparr>cv_channel := None\<rparr>)
           else do {
             conv_update sl conv (\<lambda>c. c\<lparr>cv_channel := Some chan\<rparr>);
             mwChannel_setServiceData chan (Some conv)
           }
         }
     }
   }"

definition mwConversation_open :: "'c env \<Rightarrow> 'c im_slot \<Rightarrow> addr \<Rightarrow> ('c, unit) M" where
  "mwConversation_open env sl conv = do {
     c \<leftarrow> conv_deref sl conv;
     if cv_state c \<noteq> mwConversation_CLOSED then State_Monad.return ()
     else do {
       convo_set_state sl conv mwConversation_PENDING;
       convo_create_chan env sl conv
     }
   }"

definition convo_opened :: "'c im_slot \<Rightarrow> 'c mwImHandler \<Rightarrow> addr \<Rightarrow> ('c, unit) M" where
  "convo_opened sl h conv = do {
     convo_set_state sl conv mwConversation_OPEN;
     handler \<leftarrow> srvc_get sl im_handler;
     if handler then optionally (map_option (\<lambda>opened. opened conv) (imh_opened h)) else State_Monad.return ()
   }"

text \<open>The conversation leaves the list and is freed; a \<open>GString\<close> it still has is not.\<close>

definition convo_free :: "'c im_slot \<Rightarrow> addr \<Rightarrow> ('c, unit) M" where
  "convo_free sl conv = do {
     conv_deref sl conv;
     srvc_modify sl (\<lambda>im. im\<lparr>im_convs := removeAll conv (im_convs im)\<rparr>);
     heap_free (im_heap sl) conv
   }"

text \<open>
  The client is told before the channel is destroyed, and the conversation is read again after
  it.
\<close>

definition mwConversation_close :: "'c env \<Rightarrow> 'c im_slot \<Rightarrow> 'c mwImHandler \<Rightarrow> addr \<Rightarrow> guint32 \<Rightarrow> ('c, unit) M" where
  "mwConversation_close env sl h conv reason = do {
     convo_set_state sl conv mwConversation_CLOSED;
     handler \<leftarrow> srvc_get sl im_handler;
     (if handler then optionally (map_option (\<lambda>closed. closed conv reason) (imh_closed h)) else State_Monad.return ());
     c \<leftarrow> conv_deref sl conv;
     case cv_channel c of
       None \<Rightarrow> State_Monad.return ()
     | Some chan \<Rightarrow> do {
         mwChannel_destroy env chan reason None;
         conv_update sl conv (\<lambda>c. c\<lparr>cv_channel := None\<rparr>)
       }
   }"

definition mwConversation_free :: "'c env \<Rightarrow> 'c im_slot \<Rightarrow> 'c mwImHandler \<Rightarrow> addr \<Rightarrow> ('c, unit) M" where
  "mwConversation_free env sl h conv = do {
     c \<leftarrow> conv_deref sl conv;
     (if cv_state c \<noteq> mwConversation_CLOSED then mwConversation_close env sl h conv ERR_SUCCESS else State_Monad.return ());
     convo_free sl conv
   }"

definition send_accept :: "'c env \<Rightarrow> 'c im_slot \<Rightarrow> addr \<Rightarrow> ('c, gint) M" where
  "send_accept env sl conv = do {
     c \<leftarrow> conv_deref sl conv;
     stat \<leftarrow> gets ss_status;
     case cv_channel c of
       None \<Rightarrow> State_Monad.return (- 1)
     | Some chan \<Rightarrow> do {
         mwChannel_setAddtlAccept chan (put_opaque (do {
           guint32_put mwImAddtlA_NORMAL;
           guint32_put (cv_features c);
           guint32_put mwImAddtlC_NORMAL;
           mwUserStatus_put stat
         }));
         mwChannel_accept env chan
       }
   }"

section \<open>Channels\<close>

text \<open>
  What becomes of a channel that is offered: the code it is rejected with, or the features of
  the new conversation. \<open>handler->place_invite\<close> is followed without a check of the handler.
\<close>

datatype im_offer = Offer_reject guint32 | Offer_take guint32

definition im_place_invite :: "'c im_slot \<Rightarrow> 'c mwImHandler \<Rightarrow> ('c, bool) M" where
  "im_place_invite sl h = do {
     handler \<leftarrow> srvc_get sl im_handler;
     (if handler then State_Monad.return () else fault);
     State_Monad.return (imh_place_invite h \<noteq> None)
   }"

definition im_offered ::
  "'c im_slot \<Rightarrow> 'c mwImHandler \<Rightarrow> guint32 \<Rightarrow> mwMsgChannelCreate \<Rightarrow> ('c, im_offer) M" where
  "im_offered sl h chan msg = do {
     ch \<leftarrow> chan_deref chan;
     if ch_service ch \<noteq> mwService_IM \<or> ch_proto_type ch \<noteq> IM_PROTOCOL_TYPE \<or> ch_proto_ver ch \<noteq> IM_PROTOCOL_VER
     then State_Monad.return (Offer_reject ERR_SERVICE_NO_SUPPORT)
     else do {
       let ((x, y), b) = run_state (do { x \<leftarrow> guint32_get 0; y \<leftarrow> guint32_get 0; State_Monad.return (x, y) })
                           (mwGetBuffer_wrap (Some (cc_addtl msg)));
       features \<leftarrow> srvc_get sl im_features;
       stat \<leftarrow> gets ss_status;
       if gb_error b then State_Monad.return (Offer_reject ERR_FAILURE)
       else if x \<noteq> mwImAddtlA_NORMAL then State_Monad.return (Offer_reject ERR_IM_NOT_REGISTERED)
       else if y = mwImAddtlB_PRECONF then do {
         invite \<leftarrow> im_place_invite sl h;
         State_Monad.return (if invite then Offer_take y else Offer_reject ERR_IM_NOT_REGISTERED)
       }
       else if y \<noteq> mwImClient_PLAIN \<and> y \<noteq> features then State_Monad.return (Offer_reject ERR_IM_NOT_REGISTERED)
       else if us_status stat = mwStatus_BUSY then State_Monad.return (Offer_reject ERR_CLIENT_USER_DND)
       else State_Monad.return (Offer_take y)
     }
   }"

definition im_recv_channelCreate ::
  "'c env \<Rightarrow> 'c im_slot \<Rightarrow> 'c mwImHandler \<Rightarrow> guint32 \<Rightarrow> mwMsgChannelCreate \<Rightarrow> ('c, unit) M" where
  "im_recv_channelCreate env sl h chan msg = do {
     offer \<leftarrow> im_offered sl h chan msg;
     case offer of
       Offer_reject code \<Rightarrow> do { mwChannel_destroy env chan code None; State_Monad.return () }
     | Offer_take y \<Rightarrow> do {
         user \<leftarrow> mwChannel_getUser chan;
         c \<leftarrow> conv_new sl mwConversation_zero;
         conv_update sl c (\<lambda>c. c\<lparr>cv_channel := Some chan\<rparr>);
         conv_update sl c (\<lambda>c. c\<lparr>cv_target := mwIdBlock_clone (cv_target c) (login_into_id user)\<rparr>);
         conv_update sl c (\<lambda>c. c\<lparr>cv_features := y\<rparr>);
         convo_set_state sl c mwConversation_PENDING;
         mwChannel_setServiceData chan (Some c);
         ret \<leftarrow> send_accept env sl c;
         if ret \<noteq> 0 then mwConversation_free env sl h c else convo_opened sl h c
       }
   }"

definition im_recv_channelAccept ::
  "'c env \<Rightarrow> 'c im_slot \<Rightarrow> 'c mwImHandler \<Rightarrow> guint32 \<Rightarrow> mwMsgChannelAccept \<Rightarrow> ('c, unit) M" where
  "im_recv_channelAccept env sl h chan msg = do {
     conv \<leftarrow> mwChannel_getServiceData chan;
     case conv of
       None \<Rightarrow> do { mwChannel_destroy env chan ERR_FAILURE None; State_Monad.return () }
     | Some conv \<Rightarrow> convo_opened sl h conv
   }"

definition im_recv_channelDestroy ::
  "'c env \<Rightarrow> 'c im_slot \<Rightarrow> 'c mwImHandler \<Rightarrow> guint32 \<Rightarrow> mwMsgChannelDestroy \<Rightarrow> ('c, unit) M" where
  "im_recv_channelDestroy env sl h chan msg = do {
     conv \<leftarrow> mwChannel_getServiceData chan;
     case conv of
       None \<Rightarrow> State_Monad.return ()
     | Some conv \<Rightarrow> do {
         conv_update sl conv (\<lambda>c. c\<lparr>cv_channel := None\<rparr>);
         error \<leftarrow> mwChannel_isState chan mwChannel_ERROR;
         c \<leftarrow> conv_deref sl conv;
         if error \<and> cv_features c \<noteq> mwImClient_PLAIN
            \<and> (cd_reason msg = ERR_IM_NOT_REGISTERED \<or> cd_reason msg = ERR_SERVICE_NO_SUPPORT)
         then do {
           conv_update sl conv (\<lambda>c. c\<lparr>cv_features := mwImClient_PLAIN\<rparr>);
           convo_create_chan env sl conv
         }
         else mwConversation_close env sl h conv (cd_reason msg)
       }
   }"

section \<open>Incoming messages\<close>

definition convo_recv :: "'c im_slot \<Rightarrow> 'c mwImHandler \<Rightarrow> addr \<Rightarrow> im_send \<Rightarrow> ('c, unit) M" where
  "convo_recv sl h conv msg = do {
     conv_deref sl conv;
     handler \<leftarrow> srvc_get sl im_handler;
     if handler then optionally (map_option (\<lambda>recv. recv conv msg) (imh_recv h)) else State_Monad.return ()
   }"

definition convo_multi_start :: "'c im_slot \<Rightarrow> addr \<Rightarrow> ('c, unit) M" where
  "convo_multi_start sl conv = do {
     c \<leftarrow> conv_deref sl conv;
     if cv_multi c \<noteq> None then State_Monad.return () else conv_update sl conv (\<lambda>c. c\<lparr>cv_multi := Some []\<rparr>)
   }"

text \<open>The type of a message in segments with the text collected, which ends at its first NUL.\<close>

fun im_send_of :: "mwImSendType \<Rightarrow> cstr \<Rightarrow> im_send" where
  "im_send_of mwImSend_PLAIN str = Send_PLAIN str"
| "im_send_of mwImSend_TYPING str = Send_TYPING (str \<noteq> None)"
| "im_send_of mwImSend_HTML str = Send_HTML str"
| "im_send_of mwImSend_SUBJECT str = Send_SUBJECT str"
| "im_send_of mwImSend_MIME str = Send_MIME str"
| "im_send_of mwImSend_TIMESTAMP str = Send_TIMESTAMP str"

definition convo_multi_stop :: "'c im_slot \<Rightarrow> 'c mwImHandler \<Rightarrow> addr \<Rightarrow> ('c, unit) M" where
  "convo_multi_stop sl h conv = do {
     c \<leftarrow> conv_deref sl conv;
     case cv_multi c of
       None \<Rightarrow> State_Monad.return ()
     | Some multi \<Rightarrow> do {
         convo_recv sl h conv (im_send_of (cv_multi_type c) (Some (c_string multi)));
         conv_update sl conv (\<lambda>c. c\<lparr>cv_multi := None\<rparr>)
       }
   }"

definition recv_text :: "'c im_slot \<Rightarrow> 'c mwImHandler \<Rightarrow> guint32 \<Rightarrow> mwGetBuffer \<Rightarrow> ('c, unit) M" where
  "recv_text sl h chan b =
     (case eval_state mwString_get b of
        None \<Rightarrow> State_Monad.return ()
      | Some str \<Rightarrow> do {
          conv \<leftarrow> mwChannel_getServiceData chan;
          case conv of
            None \<Rightarrow> State_Monad.return ()
          | Some conv \<Rightarrow> do {
              c \<leftarrow> conv_deref sl conv;
              case cv_multi c of
                Some multi \<Rightarrow> conv_update sl conv (\<lambda>c. c\<lparr>cv_multi := Some (multi @ str)\<rparr>)
              | None \<Rightarrow> convo_recv sl h conv (Send_PLAIN (Some str))
            }
        })"

text \<open>
  The local \<open>with_who\<close> is uninitialised; what it holds when its reading fails is an argument.
  The target of the conversation is read into before the get buffer is looked at.
\<close>

definition invite_get :: "guint16 \<Rightarrow> mwIdBlock \<Rightarrow> (mwGetBuffer, mwIdBlock \<times> cstr \<times> cstr \<times> cstr) state" where
  "invite_get junk target = do {
     mwGetBuffer_advance 4;
     title \<leftarrow> mwString_get;
     msg \<leftarrow> mwString_get;
     mwGetBuffer_advance 19;
     name \<leftarrow> mwString_get;
     mwString_get;
     mwString_get;
     with_who \<leftarrow> guint16_get junk;
     if with_who \<noteq> 0 \<and> ib_user target = None then do {
       user \<leftarrow> mwString_get;
       mwString_get;
       community \<leftarrow> mwString_get;
       State_Monad.return (\<lparr>ib_user = user, ib_community = community\<rparr>, msg, title, name)
     } else State_Monad.return (target, msg, title, name)
   }"

definition convo_invite :: "'c env \<Rightarrow> 'c im_slot \<Rightarrow> 'c mwImHandler \<Rightarrow> addr \<Rightarrow> mwOpaque \<Rightarrow> ('c, unit) M" where
  "convo_invite env sl h conv o' = do {
     handler \<leftarrow> srvc_get sl im_handler;
     case imh_place_invite h of
       None \<Rightarrow> State_Monad.return ()
     | Some place_invite \<Rightarrow>
         if \<not> handler then State_Monad.return ()
         else do {
           c \<leftarrow> conv_deref sl conv;
           junk \<leftarrow> e_junk env;
           let ((target, msg, title, name), b) = run_state (invite_get (ucast (jk_count junk)) (cv_target c)) (mwGetBuffer_wrap (Some o'));
           conv_update sl conv (\<lambda>c. c\<lparr>cv_target := target\<rparr>);
           if gb_error b then State_Monad.return () else place_invite conv msg title name
         }
   }"

text \<open>\<open>g_strndup\<close> of the data of an opaque.\<close>

definition opaque_str :: "mwOpaque \<Rightarrow> cstr" where
  "opaque_str o' = (case op_data o' of None \<Rightarrow> None | Some d \<Rightarrow> Some (c_string (take (op_len o') d)))"

text \<open>A piece of data goes to the segments collected, with its type, or to the client.\<close>

definition convo_piece :: "'c im_slot \<Rightarrow> 'c mwImHandler \<Rightarrow> addr \<Rightarrow> mwImSendType \<Rightarrow> mwOpaque \<Rightarrow> ('c, unit) M" where
  "convo_piece sl h conv type o' = do {
     c \<leftarrow> conv_deref sl conv;
     case cv_multi c of
       Some multi \<Rightarrow> conv_update sl conv (\<lambda>c. c\<lparr>cv_multi := Some (multi @ opaque_bytes o'), cv_multi_type := type\<rparr>)
     | None \<Rightarrow> convo_recv sl h conv (im_send_of type (opaque_str o'))
   }"

definition recv_data :: "'c env \<Rightarrow> 'c im_slot \<Rightarrow> 'c mwImHandler \<Rightarrow> guint32 \<Rightarrow> mwGetBuffer \<Rightarrow> ('c, unit) M" where
  "recv_data env sl h chan b = (
     let ((type, subtype, o'), b) = run_state (do {
           type \<leftarrow> guint32_get 0;
           subtype \<leftarrow> guint32_get 0;
           o' \<leftarrow> mwOpaque_get;
           State_Monad.return (type, subtype, o') }) b
     in if gb_error b then State_Monad.return ()
        else do {
          conv \<leftarrow> mwChannel_getServiceData chan;
          case conv of
            None \<Rightarrow> State_Monad.return ()
          | Some conv \<Rightarrow>
              if type = mwImData_TYPING then convo_recv sl h conv (Send_TYPING (subtype = 0))
              else if type = mwImData_HTML then
                (if op_len o' \<noteq> 0 then convo_piece sl h conv mwImSend_HTML o' else State_Monad.return ())
              else if type = mwImData_SUBJECT then convo_recv sl h conv (Send_SUBJECT (opaque_str o'))
              else if type = mwImData_MIME then convo_piece sl h conv mwImSend_MIME o'
              else if type = mwImData_TIMESTAMP then State_Monad.return ()
              else if type = mwImData_INVITE then convo_invite env sl h conv o'
              else if type = mwImData_MULTI_START then convo_multi_start sl conv
              else if type = mwImData_MULTI_STOP then convo_multi_stop sl h conv
              else State_Monad.return ()
        })"

definition im_recv ::
  "'c env \<Rightarrow> 'c im_slot \<Rightarrow> 'c mwImHandler \<Rightarrow> guint32 \<Rightarrow> guint16 \<Rightarrow> mwOpaque \<Rightarrow> ('c, unit) M" where
  "im_recv env sl h chan type data =
     (if ucast type \<noteq> msg_MESSAGE then State_Monad.return ()
      else let (mt, b) = run_state (guint32_get 0) (mwGetBuffer_wrap (Some data))
           in if gb_error b then State_Monad.return ()
              else if mt = mwIm_TEXT then recv_text sl h chan b
              else if mt = mwIm_DATA then recv_data env sl h chan b
              else State_Monad.return ())"

section \<open>The service\<close>

text \<open>The loops over \<open>srvc->convs\<close>.\<close>

definition im_each_conv :: "'c im_slot \<Rightarrow> (addr \<Rightarrow> ('c, unit) M) \<Rightarrow> ('c, unit) M" where
  "im_each_conv sl f = while_do (\<lambda>s. im_convs (srvc_of sl s) \<noteq> []) (do { l \<leftarrow> srvc_get sl im_convs; f (hd l) })"

definition im_clear :: "'c im_slot \<Rightarrow> 'c mwImHandler \<Rightarrow> ('c, unit) M" where
  "im_clear sl h = do {
     im_each_conv sl (convo_free sl);
     handler \<leftarrow> srvc_get sl im_handler;
     (if handler then optionally (imh_clear h) else State_Monad.return ());
     srvc_modify sl (\<lambda>im. im\<lparr>im_handler := False\<rparr>)
   }"

definition im_start :: "('c, unit) M" where
  "im_start = mwService_started mwService_IM"

definition im_stop :: "'c env \<Rightarrow> 'c im_slot \<Rightarrow> 'c mwImHandler \<Rightarrow> ('c, unit) M" where
  "im_stop env sl h = do {
     im_each_conv sl (mwConversation_free env sl h);
     mwService_stopped mwService_IM
   }"

definition mwServiceIm_new :: mwServiceIm where
  "mwServiceIm_new = \<lparr>im_features = mwImClient_PLAIN, im_handler = True, im_objs = heap_empty, im_convs = []\<rparr>"

definition im_install :: "'c im_slot \<Rightarrow> 'c mwImHandler \<Rightarrow> 'c env \<Rightarrow> 'c env" where
  "im_install sl h env = env\<lparr>
     e_start := (e_start env)(mwService_IM \<mapsto> im_start),
     e_stop := (e_stop env)(mwService_IM \<mapsto> im_stop env sl h),
     e_recv_create := (e_recv_create env)(mwService_IM \<mapsto> im_recv_channelCreate env sl h),
     e_recv_accept := (e_recv_accept env)(mwService_IM \<mapsto> im_recv_channelAccept env sl h),
     e_recv_destroy := (e_recv_destroy env)(mwService_IM \<mapsto> im_recv_channelDestroy env sl h),
     e_recv := (e_recv env)(mwService_IM \<mapsto> im_recv env sl h)\<rparr>"

fun im_supported :: "guint32 \<Rightarrow> mwImSendType \<Rightarrow> bool" where
  "im_supported features mwImSend_PLAIN = True"
| "im_supported features mwImSend_TYPING = True"
| "im_supported features mwImSend_SUBJECT = (features = mwImClient_NOTESBUDDY)"
| "im_supported features mwImSend_HTML = (features = mwImClient_NOTESBUDDY)"
| "im_supported features mwImSend_MIME = (features = mwImClient_NOTESBUDDY)"
| "im_supported features mwImSend_TIMESTAMP = False"

definition mwServiceIm_supports :: "'c im_slot \<Rightarrow> mwImSendType \<Rightarrow> ('c, bool) M" where
  "mwServiceIm_supports sl type = srvc_get sl (\<lambda>im.
     if type = mwImSend_TIMESTAMP then im_features im = mwImClient_NOTESBUDDY else im_supported (im_features im) type)"

definition mwServiceIm_setClientType :: "'c im_slot \<Rightarrow> guint32 \<Rightarrow> ('c, unit) M" where
  "mwServiceIm_setClientType sl type = srvc_modify sl (\<lambda>im. im\<lparr>im_features := type\<rparr>)"

definition mwServiceIm_getClientType :: "'c im_slot \<Rightarrow> ('c, guint32) M" where
  "mwServiceIm_getClientType sl = srvc_get sl im_features"

definition mwConversation_supports :: "'c im_slot \<Rightarrow> addr \<Rightarrow> mwImSendType \<Rightarrow> ('c, bool) M" where
  "mwConversation_supports sl conv type = do { c \<leftarrow> conv_deref sl conv; State_Monad.return (im_supported (cv_features c) type) }"

definition mwConversation_getState :: "'c im_slot \<Rightarrow> addr \<Rightarrow> ('c, mwConversationState) M" where
  "mwConversation_getState sl conv = do { c \<leftarrow> conv_deref sl conv; State_Monad.return (cv_state c) }"

definition mwConversation_getClientType :: "'c im_slot \<Rightarrow> addr \<Rightarrow> ('c, guint32) M" where
  "mwConversation_getClientType sl conv = do { c \<leftarrow> conv_deref sl conv; State_Monad.return (cv_features c) }"

definition mwConversation_getTarget :: "'c im_slot \<Rightarrow> addr \<Rightarrow> ('c, mwIdBlock) M" where
  "mwConversation_getTarget sl conv = do { c \<leftarrow> conv_deref sl conv; State_Monad.return (cv_target c) }"

definition mwConversation_getTargetInfo :: "'c im_slot \<Rightarrow> addr \<Rightarrow> ('c, mwLoginInfo option) M" where
  "mwConversation_getTargetInfo sl conv = do {
     c \<leftarrow> conv_deref sl conv;
     case cv_channel c of
       None \<Rightarrow> State_Monad.return None
     | Some chan \<Rightarrow> do { user \<leftarrow> mwChannel_getUser chan; State_Monad.return (Some user) }
   }"

section \<open>Outgoing messages\<close>

definition im_send_payload :: "'c env \<Rightarrow> 'c im_slot \<Rightarrow> addr \<Rightarrow> mwOpaque \<Rightarrow> ('c, gint) M" where
  "im_send_payload env sl conv o' = do {
     c \<leftarrow> conv_deref sl conv;
     case cv_channel c of
       None \<Rightarrow> State_Monad.return (- 1)
     | Some chan \<Rightarrow> mwChannel_sendEncrypted env chan msg_MESSAGE o' (\<not> cv_ext_id c)
   }"

definition data_payload :: "guint32 \<Rightarrow> guint32 \<Rightarrow> mwOpaque option \<Rightarrow> mwOpaque" where
  "data_payload type subtype data = put_opaque (do {
     guint32_put mwIm_DATA;
     guint32_put type;
     guint32_put subtype;
     mwOpaque_put data
   })"

definition convo_send_data :: "'c env \<Rightarrow> 'c im_slot \<Rightarrow> addr \<Rightarrow> guint32 \<Rightarrow> guint32 \<Rightarrow> mwOpaque option \<Rightarrow> ('c, gint) M" where
  "convo_send_data env sl conv type subtype data = im_send_payload env sl conv (data_payload type subtype data)"

definition convo_send_multi_start :: "'c env \<Rightarrow> 'c im_slot \<Rightarrow> addr \<Rightarrow> ('c, gint) M" where
  "convo_send_multi_start env sl conv = convo_send_data env sl conv mwImData_MULTI_START 0 None"

definition convo_send_multi_stop :: "'c env \<Rightarrow> 'c im_slot \<Rightarrow> addr \<Rightarrow> ('c, gint) M" where
  "convo_send_multi_stop env sl conv = convo_send_data env sl conv mwImData_MULTI_STOP 0 None"

function send_segments :: "(bytes \<Rightarrow> ('c, gint) M) \<Rightarrow> bytes \<Rightarrow> ('c, gint) M" where
  "send_segments send buf =
     (if buf = [] then State_Monad.return 0
      else do {
        ret \<leftarrow> send (take BREAKUP buf);
        if ret \<noteq> 0 then State_Monad.return ret else send_segments send (drop BREAKUP buf)
      })"
  by auto
termination
  by (relation "measure (\<lambda>(send, buf). length buf)") (auto simp: BREAKUP_def)

definition convo_sendSegmented :: "'c env \<Rightarrow> 'c im_slot \<Rightarrow> addr \<Rightarrow> bytes \<Rightarrow> (bytes \<Rightarrow> ('c, gint) M) \<Rightarrow> ('c, gint) M" where
  "convo_sendSegmented env sl conv message send = do {
     ret \<leftarrow> convo_send_multi_start env sl conv;
     ret \<leftarrow> (if ret \<noteq> 0 then State_Monad.return ret else send_segments send message);
     if ret \<noteq> 0 then State_Monad.return ret else convo_send_multi_stop env sl conv
   }"

definition text_payload :: "cstr \<Rightarrow> mwOpaque" where
  "text_payload str = put_opaque (do { guint32_put mwIm_TEXT; mwString_put str })"

definition convo_sendText :: "'c env \<Rightarrow> 'c im_slot \<Rightarrow> addr \<Rightarrow> cstr \<Rightarrow> ('c, gint) M" where
  "convo_sendText env sl conv str = im_send_payload env sl conv (text_payload str)"

definition convo_sendTyping :: "'c env \<Rightarrow> 'c im_slot \<Rightarrow> addr \<Rightarrow> bool \<Rightarrow> ('c, gint) M" where
  "convo_sendTyping env sl conv typing = convo_send_data env sl conv mwImData_TYPING (of_bool (\<not> typing)) None"

text \<open>The opaque that points to a C string.\<close>

definition str_opaque :: "bytes \<Rightarrow> mwOpaque" where
  "str_opaque str = \<lparr>op_len = length str, op_data = Some (str @ [0])\<rparr>"

definition convo_sendSubject :: "'c env \<Rightarrow> 'c im_slot \<Rightarrow> addr \<Rightarrow> bytes \<Rightarrow> ('c, gint) M" where
  "convo_sendSubject env sl conv subject = convo_send_data env sl conv mwImData_SUBJECT 0 (Some (str_opaque subject))"

text \<open>
  \<open>convo_sendHtml\<close> and \<open>convo_sendMime\<close> call themselves for the segments, which are at most
  \<open>BREAKUP\<close> bytes long and go out at once.
\<close>

definition convo_sendLong :: "'c env \<Rightarrow> 'c im_slot \<Rightarrow> guint32 \<Rightarrow> addr \<Rightarrow> bytes \<Rightarrow> ('c, gint) M" where
  "convo_sendLong env sl type conv str =
     (let send = (\<lambda>seg. convo_send_data env sl conv type 0 (Some (str_opaque seg)))
      in if BREAKUP < length str then convo_sendSegmented env sl conv str send else send str)"

definition convo_sendHtml :: "'c env \<Rightarrow> 'c im_slot \<Rightarrow> addr \<Rightarrow> bytes \<Rightarrow> ('c, gint) M" where
  "convo_sendHtml env sl conv html = convo_sendLong env sl mwImData_HTML conv html"

definition convo_sendMime :: "'c env \<Rightarrow> 'c im_slot \<Rightarrow> addr \<Rightarrow> bytes \<Rightarrow> ('c, gint) M" where
  "convo_sendMime env sl conv mime = convo_sendLong env sl mwImData_MIME conv mime"

text \<open>The length of a missing string is a fault.\<close>

definition with_str :: "cstr \<Rightarrow> (bytes \<Rightarrow> ('c, gint) M) \<Rightarrow> ('c, gint) M" where
  "with_str str f = (case str of None \<Rightarrow> do { fault; State_Monad.return (- 1) } | Some s \<Rightarrow> f s)"

definition mwConversation_send :: "'c env \<Rightarrow> 'c im_slot \<Rightarrow> addr \<Rightarrow> im_send \<Rightarrow> ('c, gint) M" where
  "mwConversation_send env sl conv msg = do {
     c \<leftarrow> conv_deref sl conv;
     if cv_state c \<noteq> mwConversation_OPEN \<or> cv_channel c = None then State_Monad.return (- 1)
     else case msg of
       Send_PLAIN str \<Rightarrow> convo_sendText env sl conv str
     | Send_TYPING typing \<Rightarrow> convo_sendTyping env sl conv typing
     | Send_SUBJECT str \<Rightarrow> with_str str (convo_sendSubject env sl conv)
     | Send_HTML str \<Rightarrow> with_str str (convo_sendHtml env sl conv)
     | Send_MIME str \<Rightarrow> with_str str (convo_sendMime env sl conv)
     | Send_TIMESTAMP _ \<Rightarrow> State_Monad.return (- 1)
   }"

section \<open>What the service keeps\<close>

text \<open>The list of the service has every conversation that lives, and each of them once.\<close>

definition im_ok :: "mwServiceIm \<Rightarrow> bool" where
  "im_ok im \<longleftrightarrow> objs_ok (im_objs im) \<and> distinct (im_convs im) \<and> set (im_convs im) = heap_dom (im_objs im)"

interpretation im_objs: record_field im_objs im_objs_update
  by unfold_locales simp_all

lemma im_ok_new: "im_ok mwServiceIm_new"
  by (simp add: im_ok_def mwServiceIm_new_def)

locale im_slot = service_slot sl for sl :: "'c im_slot"
begin

abbreviation ok :: "'c mwSession \<Rightarrow> bool" where
  "ok \<equiv> \<lambda>s. im_ok (srvc_of sl s)"

lemma heap_slot: "service_slot (im_heap sl)"
  unfolding im_heap_def by (rule im_objs.part_slot) (rule service_slot_axioms)

lemma keeps_conv_deref [keeps_intros]: "keeps (\<lambda>s. Q (srvc_of sl s)) (conv_deref sl a)"
  unfolding conv_deref_def by (rule keeps_heap_deref)

lemma keeps_conv_update [keeps_intros]: "keeps ok (conv_update sl a f)"
  by (auto simp: keeps_def conv_update_def im_heap_def run_heap_update im_ok_def objs_ok_set split: option.split)

lemma keeps_conv_new [keeps_intros]: "keeps ok (conv_new sl cv)"
  using objs_ok_new heap_new_fresh
  by (auto simp: keeps_def conv_new_def im_heap_def run_heap_new im_ok_def split_def Let_def)

lemma keeps_convo_free [keeps_intros]: "keeps ok (convo_free sl a)"
proof -
  have "im_ok im \<Longrightarrow> im_ok (im\<lparr>im_convs := removeAll a (im_convs im),
      im_objs := (im_objs im)\<lparr>hp_objs := AList.delete a (hp_objs (im_objs im))\<rparr>\<rparr>)" for im
    by (auto simp: im_ok_def objs_ok_delete distinct_removeAll)
  moreover have "im_ok im \<Longrightarrow> heap_at (im_objs im) a = None \<Longrightarrow> im_ok (im\<lparr>im_convs := removeAll a (im_convs im)\<rparr>)" for im
    by (auto simp: im_ok_def distinct_removeAll map_of_eq_None_iff)
  ultimately show ?thesis
    by (auto simp: keeps_def convo_free_def conv_deref_def im_heap_def run_heap_deref run_heap_free split: option.split)
qed

lemma keeps_find [keeps_intros]: "keeps ok (convo_find_by_user sl to')"
proof -
  have "keeps ok (convo_find_in sl to' l)" for l
    by (induction l) (simp_all add: keeps_return keeps_bind keeps_conv_deref keeps_if)
  then show ?thesis unfolding convo_find_by_user_def by (intro keeps_intros)
qed

lemma keeps_set_state [keeps_intros]: "keeps ok (convo_set_state sl a st)"
  unfolding convo_set_state_def by (intro keeps_intros)

lemma keeps_getConversation: "keeps ok (mwServiceIm_getConversation sl to')"
  unfolding mwServiceIm_getConversation_def by (intro keeps_intros)

end

text \<open>The functions of the client keep it, too.\<close>

definition im_handler_keeps :: "('c mwSession \<Rightarrow> bool) \<Rightarrow> 'c mwImHandler \<Rightarrow> bool" where
  "im_handler_keeps P h \<longleftrightarrow> (\<forall>f a. imh_opened h = Some f \<longrightarrow> keeps P (f a))
     \<and> (\<forall>f a r. imh_closed h = Some f \<longrightarrow> keeps P (f a r)) \<and> (\<forall>f a m. imh_recv h = Some f \<longrightarrow> keeps P (f a m))
     \<and> (\<forall>f a m t n. imh_place_invite h = Some f \<longrightarrow> keeps P (f a m t n)) \<and> (\<forall>f. imh_clear h = Some f \<longrightarrow> keeps P f)"

locale im_service = im_slot +
  fixes env :: "'a env" and h :: "'a mwImHandler"
  assumes env: "env_keeps ok env" and handler: "im_handler_keeps ok h"
begin

lemmas E = srvc_calls srvc.keeps_channel [OF env] srvc.keeps_negotiation [OF env] keeps_service_calls [OF env]
  srvc.keeps_service [OF env] env_keepsU [OF env]

lemma keeps_handler [keeps_intros]:
  "keeps ok (optionally (map_option (\<lambda>f. f a) (imh_opened h)))"
  "keeps ok (optionally (map_option (\<lambda>f. f a r) (imh_closed h)))"
  "keeps ok (optionally (map_option (\<lambda>f. f a m) (imh_recv h)))" "keeps ok (optionally (imh_clear h))"
  using handler
  by (auto simp: im_handler_keeps_def optionally_def intro: keeps_return split: option.split)

lemma keeps_handler_set [keeps_intros]: "keeps ok (srvc_modify sl (\<lambda>im. im\<lparr>im_handler := b\<rparr>))"
  by (rule keeps_srvc_modify) (simp add: im_ok_def)

lemma keeps_create_chan [keeps_intros]: "keeps ok (convo_create_chan env sl a)"
  unfolding convo_create_chan_def by (intro keeps_intros E) simp

lemma keeps_open: "keeps ok (mwConversation_open env sl a)"
  unfolding mwConversation_open_def by (intro keeps_intros)

lemma keeps_opened [keeps_intros]: "keeps ok (convo_opened sl h a)"
  unfolding convo_opened_def by (intro keeps_intros)

lemma keeps_close [keeps_intros]: "keeps ok (mwConversation_close env sl h a r)"
  unfolding mwConversation_close_def by (intro keeps_intros E)

lemma keeps_conv_free [keeps_intros]: "keeps ok (mwConversation_free env sl h a)"
  unfolding mwConversation_free_def by (intro keeps_intros E)

lemma keeps_send_accept [keeps_intros]: "keeps ok (send_accept env sl a)"
  unfolding send_accept_def by (intro keeps_intros E)

lemma keeps_offered [keeps_intros]: "keeps ok (im_offered sl h c m)"
  unfolding im_offered_def im_place_invite_def Let_def split_def by (intro keeps_intros E)

lemma keeps_create: "keeps ok (im_recv_channelCreate env sl h c mc)"
proof -
  have offer: "keeps ok (case offer of Offer_reject code \<Rightarrow> f code | Offer_take y \<Rightarrow> g y)"
    if "\<And>code. keeps ok (f code)" and "\<And>y. keeps ok (g y)" for offer and f g :: "guint32 \<Rightarrow> ('a, unit) M"
    using that by (cases offer) simp_all
  show ?thesis
    unfolding im_recv_channelCreate_def by (intro keeps_intros E offer)
qed

lemma keeps_accept: "keeps ok (im_recv_channelAccept env sl h c ma)"
  unfolding im_recv_channelAccept_def by (intro keeps_intros E)

lemma keeps_destroy: "keeps ok (im_recv_channelDestroy env sl h c md)"
  unfolding im_recv_channelDestroy_def by (intro keeps_intros E)

lemma keeps_convo_recv [keeps_intros]: "keeps ok (convo_recv sl h a m)"
  unfolding convo_recv_def by (intro keeps_intros)

lemma keeps_recv: "keeps ok (im_recv env sl h c t data)"
proof -
  have "keeps ok (convo_invite env sl h a o')" for a o'
    unfolding convo_invite_def Let_def split_def
    by (intro keeps_intros E) (use handler in \<open>simp_all add: im_handler_keeps_def\<close>)
  then show ?thesis
    unfolding im_recv_def recv_text_def recv_data_def convo_piece_def convo_multi_start_def convo_multi_stop_def Let_def split_def
    by (intro keeps_intros E)
qed

lemma keeps_each: "(\<And>a. keeps ok (f a)) \<Longrightarrow> keeps ok (im_each_conv sl f)"
  unfolding im_each_conv_def by (intro keeps_while_do keeps_intros keeps_fields) 

lemma keeps_stop: "keeps ok (im_stop env sl h)"
  unfolding im_stop_def by (intro keeps_intros keeps_each E)

lemma keeps_clear: "keeps ok (im_clear sl h)"
  unfolding im_clear_def by (intro keeps_intros keeps_each E)

lemma keeps_send: "keeps ok (mwConversation_send env sl a m)"
proof -
  have p: "keeps ok (im_send_payload env sl a o')" for o'
    unfolding im_send_payload_def by (intro keeps_intros E)
  have seg: "keeps ok (send_segments f str)" if "\<And>x. keeps ok (f x)" for f str
    using that by (induction f str rule: send_segments.induct) (subst send_segments.simps, auto intro!: keeps_intros)
  have l: "keeps ok (convo_sendLong env sl t a str)" for t str
    unfolding convo_sendLong_def convo_sendSegmented_def convo_send_multi_start_def convo_send_multi_stop_def
      convo_send_data_def Let_def by (intro keeps_intros p seg)
  show ?thesis
    unfolding mwConversation_send_def convo_sendText_def convo_sendTyping_def convo_sendSubject_def convo_sendHtml_def
      convo_sendMime_def convo_send_data_def with_str_def
    by (auto intro!: keeps_intros p l keeps_fields split: im_send.split)
qed

lemma env_install: "env_keeps ok (im_install sl h env)"
  using env keeps_create keeps_accept keeps_destroy keeps_recv keeps_stop srvc.keeps_service_state
  unfolding env_keeps_def im_install_def im_start_def by simp

end

section \<open>Calls and messages\<close>

datatype im_call =
    IM_get mwIdBlock
  | IM_open addr
  | IM_close addr guint32
  | IM_free addr
  | IM_send addr im_send
  | IM_clientType guint32
  | IM_stop
  | IM_message bytes

fun im_call_run :: "'c env \<Rightarrow> 'c im_slot \<Rightarrow> 'c mwImHandler \<Rightarrow> im_call \<Rightarrow> ('c, unit) M" where
  "im_call_run env sl h (IM_get who) = do { mwServiceIm_getConversation sl who; State_Monad.return () }"
| "im_call_run env sl h (IM_open a) = mwConversation_open env sl a"
| "im_call_run env sl h (IM_close a r) = mwConversation_close env sl h a r"
| "im_call_run env sl h (IM_free a) = mwConversation_free env sl h a"
| "im_call_run env sl h (IM_send a m) = do { mwConversation_send env sl a m; State_Monad.return () }"
| "im_call_run env sl h (IM_clientType t) = mwServiceIm_setClientType sl t"
| "im_call_run env sl h IM_stop = mwService_stop env mwService_IM"
| "im_call_run env sl h (IM_message b) = session_process env b"

context im_service
begin

lemma keeps_call: "keeps ok (im_call_run env sl h call)"
proof -
  have "keeps ok (mwServiceIm_setClientType sl t)" for t
    unfolding mwServiceIm_setClientType_def by (rule keeps_srvc_modify) (simp add: im_ok_def)
  then show ?thesis
    by (cases call)
      (simp_all add: keeps_bind keeps_return keeps_getConversation keeps_open keeps_close keeps_conv_free keeps_send
        srvc.keeps_service [OF env] srvc.keeps_process [OF env])
qed

end

text \<open>
  A connection whose writes, and a client whose \<open>conversation_closed\<close>, leave the service
  alone: then stopping the service ends, and frees every conversation.
\<close>

locale im_quiet = im_service +
  assumes wr: "keeps (\<lambda>s. srvc_of sl s = x) (e_io_write env b)"
    and closed: "imh_closed h = Some f \<Longrightarrow> keeps (\<lambda>s. srvc_of sl s = x) (f a r)"
begin

abbreviation "has_convs l \<equiv> \<lambda>s. im_convs (srvc_of sl s) = l"

lemma has_convs_calls:
  "keeps (has_convs l) (mwChannel_destroy env c r i)" "keeps (has_convs l) (conv_update sl a g)"
  "keeps (has_convs l) (optionally (map_option (\<lambda>f. f a r) (imh_closed h)))"
proof -
  show "keeps (has_convs l) (mwChannel_destroy env c r i)"
    using keeps_channel_write(2) [of "\<lambda>y. y = x" for x, OF wr] by (fastforce simp: keeps_def)
  show "keeps (has_convs l) (conv_update sl a g)"
    by (auto simp: keeps_def conv_update_def im_heap_def run_heap_update split: option.split)
  show "keeps (has_convs l) (optionally (map_option (\<lambda>f. f a r) (imh_closed h)))"
    using closed by (fastforce simp: keeps_def optionally_def split: option.split)
qed

lemma convs_free: "im_convs (srvc_of sl (exec_state (mwConversation_free env sl h a) s)) = removeAll a (im_convs (srvc_of sl s))"
proof -
  have "keeps (has_convs l) (mwConversation_close env sl h a ERR_SUCCESS)" for l
    unfolding mwConversation_close_def convo_set_state_def
    by (intro keeps_intros has_convs_calls keeps_conv_deref)
  then have "keeps (has_convs l) (do { c \<leftarrow> conv_deref sl a;
      if cv_state c \<noteq> mwConversation_CLOSED then mwConversation_close env sl h a ERR_SUCCESS else State_Monad.return () })" for l
    by (intro keeps_intros keeps_conv_deref)
  from keepsD [OF this refl] have close: "im_convs (srvc_of sl (exec_state (do { c \<leftarrow> conv_deref sl a;
      if cv_state c \<noteq> mwConversation_CLOSED then mwConversation_close env sl h a ERR_SUCCESS else State_Monad.return () }) s))
      = im_convs (srvc_of sl s)" .
  have free: "im_convs (srvc_of sl (exec_state (convo_free sl a) t)) = removeAll a (im_convs (srvc_of sl t))" for t
    by (auto simp: convo_free_def conv_deref_def im_heap_def run_heap_deref run_heap_free split: option.split)
  show ?thesis
    using close by (simp add: mwConversation_free_def State_Monad.bind_assoc split_def free)
qed

lemma im_stop_empties: "im_convs (srvc_of sl (exec_state (im_stop env sl h) s)) = []"
proof -
  let ?m = "do { l \<leftarrow> srvc_get sl im_convs; mwConversation_free env sl h (hd l) }"
  have less: "length (im_convs (srvc_of sl (exec_state ?m t))) < length (im_convs (srvc_of sl t))"
    if "im_convs (srvc_of sl t) \<noteq> []" for t
    using that length_removeAll_less [of "hd (im_convs (srvc_of sl t))"] by (simp add: convs_free)
  have "im_convs (srvc_of sl (exec_state (im_each_conv sl (mwConversation_free env sl h)) s)) = []"
    unfolding im_each_conv_def
    using while_do_empties [where P = "\<lambda>_. True" and l = "\<lambda>s. im_convs (srvc_of sl s)" and m = ?m] less by blast
  with keepsD [OF srvc.keeps_service_state(4) [of "\<lambda>im. im_convs im = []"]] show ?thesis
    by (simp add: im_stop_def split_def)
qed

lemma quiet_install: "im_quiet sl (im_install sl h env) h"
  using env_install handler wr closed im_slot_axioms
  by (simp add: im_quiet_def im_quiet_axioms_def im_service_def im_service_axioms_def im_install_def)

end

text \<open>
  Claim C8: whatever sequence of calls of the client and messages of the connection, and
  whatever the client's functions do that keeps the same property, the conversations the
  service has in its list are those that live, each once and each at an address of its own;
  and, if \<open>conversation_closed\<close> leaves the service alone, stopping it ends and leaves none.
\<close>

theorem im_conversations_consistent:
  assumes "service_slot sl" and "im_ok (srvc_of sl s)"
    and "env_keeps (\<lambda>s. im_ok (srvc_of sl s)) env" and "im_handler_keeps (\<lambda>s. im_ok (srvc_of sl s)) h"
    and "\<forall>b x. keeps (\<lambda>s. srvc_of sl s = x) (e_io_write env b)"
    and "\<forall>f x a r. imh_closed h = Some f \<longrightarrow> keeps (\<lambda>s. srvc_of sl s = x) (f a r)"
    and "t = exec_state (for_each (im_call_run (im_install sl h env) sl h) calls) s"
  shows "im_ok (srvc_of sl t) \<and> im_convs (srvc_of sl (exec_state (im_stop (im_install sl h env) sl h) t)) = []
    \<and> heap_dom (im_objs (srvc_of sl (exec_state (im_stop (im_install sl h env) sl h) t))) = {}"
proof -
  have "im_quiet sl env h"
    using assms(1,3-6) by (simp add: im_quiet_def im_quiet_axioms_def im_service_def im_slot_def im_service_axioms_def)
  then have full: "im_quiet sl (im_install sl h env) h"
    by (rule im_quiet.quiet_install)
  then have serv: "im_service sl (im_install sl h env) h"
    by (simp add: im_quiet_def)
  have "keeps (\<lambda>s. im_ok (srvc_of sl s)) (for_each (im_call_run (im_install sl h env) sl h) calls)"
    by (intro keeps_for_each im_service.keeps_call [OF serv])
  then have t: "im_ok (srvc_of sl t)" unfolding assms(7) by (rule keepsD) (rule assms(2))
  from keepsD [OF im_service.keeps_stop [OF serv] t] im_quiet.im_stop_empties [OF full, of t] t show ?thesis
    by (simp add: im_ok_def)
qed

section \<open>A client that records\<close>

datatype im_event =
    Ev_opened addr
  | Ev_closed addr guint32
  | Ev_recv addr im_send
  | Ev_invite addr cstr cstr cstr

record im_client =
  imc_im :: mwServiceIm
  imc_wire :: "bytes list"
  imc_log :: "im_event list"

definition imc_slot :: "im_client im_slot" where
  "imc_slot = \<lparr>sl_get = imc_im, sl_put = (\<lambda>x c. c\<lparr>imc_im := x\<rparr>)\<rparr>"

definition imc_env :: "im_client env" where
  "imc_env = plain_env (\<lambda>b c. c\<lparr>imc_wire := imc_wire c @ [b]\<rparr>)"

definition imc_note :: "im_event \<Rightarrow> (im_client, unit) M" where
  "imc_note e = modify (\<lambda>s. s\<lparr>ss_client := (ss_client s)\<lparr>imc_log := imc_log (ss_client s) @ [e]\<rparr>\<rparr>)"

definition imc_handler :: "im_client mwImHandler" where
  "imc_handler = \<lparr>
     imh_opened = Some (\<lambda>a. imc_note (Ev_opened a)),
     imh_closed = Some (\<lambda>a r. imc_note (Ev_closed a r)),
     imh_recv = Some (\<lambda>a m. imc_note (Ev_recv a m)),
     imh_place_invite = Some (\<lambda>a m t n. imc_note (Ev_invite a m t n)),
     imh_clear = None\<rparr>"

lemma imc_of [simp]: "srvc_of imc_slot s = imc_im (ss_client s)"
  by (simp add: srvc_of_def imc_slot_def)

lemma imc_set [simp]: "srvc_set imc_slot x s = s\<lparr>ss_client := (ss_client s)\<lparr>imc_im := x\<rparr>\<rparr>"
  by (simp add: srvc_set_def imc_slot_def)

lemma imc_note_keeps: "keeps (\<lambda>s. Q (srvc_of imc_slot s)) (imc_note e)"
  by (simp add: keeps_def imc_note_def)

interpretation imc: im_quiet imc_slot imc_env imc_handler
proof
  show "env_keeps (\<lambda>s. im_ok (srvc_of imc_slot s)) imc_env"
    unfolding imc_env_def by (rule plain_env_keeps) (simp add: imc_slot_def)
  show "im_handler_keeps (\<lambda>s. im_ok (srvc_of imc_slot s)) imc_handler"
    using imc_note_keeps by (simp add: im_handler_keeps_def imc_handler_def)
  show "keeps (\<lambda>s. srvc_of imc_slot s = x) (e_io_write imc_env b)" for x b
    by (simp add: keeps_def imc_env_def plain_env_def)
  show "keeps (\<lambda>s. srvc_of imc_slot s = x) (f a r)" if "imh_closed imc_handler = Some f" for f x a r
    using that imc_note_keeps [of "\<lambda>y. y = x"] by (auto simp: imc_handler_def)
qed (simp_all add: imc_slot_def)

definition imc_start :: "im_client mwSession" where
  "imc_start = (mwSession_zero \<lparr>imc_im = mwServiceIm_new, imc_wire = [], imc_log = []\<rparr>)
     \<lparr>ss_services := [(mwService_IM, service_of mwService_IM)]\<rparr>"

theorem im_conversations_consistent_witness:
  "im_ok (srvc_of imc_slot imc_start)
   \<and> im_convs (srvc_of imc_slot (exec_state (im_stop (im_install imc_slot imc_handler imc_env) imc_slot imc_handler)
       (exec_state (for_each (im_call_run (im_install imc_slot imc_handler imc_env) imc_slot imc_handler)
         [IM_get mwIdBlock_zero, IM_open 1, IM_message [1, 2, 3]]) imc_start))) = []"
proof -
  have start: "im_ok (srvc_of imc_slot imc_start)"
    using im_ok_new by (simp add: imc_start_def mwSession_zero_def)
  have wr: "\<forall>b x. keeps (\<lambda>s. srvc_of imc_slot s = x) (e_io_write imc_env b)"
    using imc.wr by blast
  have cl: "\<forall>f x a r. imh_closed imc_handler = Some f \<longrightarrow> keeps (\<lambda>s. srvc_of imc_slot s = x) (f a r)"
    using imc.closed by blast
  show ?thesis
    using im_conversations_consistent [OF imc.service_slot_axioms start imc.env imc.handler wr cl refl] start by blast
qed

end
