(* ===== verification/IM_Delivery.thy ===== *)
theory IM_Delivery
  imports Srvc_IM
begin

text \<open>
  Instant messages from one client to another: what \<open>mwConversation_send\<close> puts on the
  channel is a list of pieces, what \<open>im_recv\<close> makes of the pieces is the message again,
  and the channel carries each of them whatever its cipher and however the
  connection cuts the bytes.
\<close>

section \<open>Pieces\<close>

datatype im_piece = Piece_text bytes | Piece_data guint32 guint32 bytes

fun piece_wire :: "im_piece \<Rightarrow> bytes" where
  "piece_wire (Piece_text s) = MW32_PUT mwIm_TEXT @ string_wire (Some s)"
| "piece_wire (Piece_data t u bs) = MW32_PUT mwIm_DATA @ MW32_PUT t @ MW32_PUT u @ opaque_wire bs"

lemmas im_types = mwIm_TEXT_def mwIm_DATA_def mwImData_TYPING_def mwImData_SUBJECT_def mwImData_HTML_def mwImData_MIME_def
  mwImData_TIMESTAMP_def mwImData_INVITE_def mwImData_MULTI_START_def mwImData_MULTI_STOP_def

definition str_piece :: "bytes \<Rightarrow> bool" where
  "str_piece bs \<longleftrightarrow> bs \<noteq> [] \<and> 0 \<notin> set bs"

fun piece_ok :: "im_piece \<Rightarrow> bool" where
  "piece_ok (Piece_text s) \<longleftrightarrow> str_piece s \<and> length s < 2 ^ 16"
| "piece_ok (Piece_data t u bs) \<longleftrightarrow> length bs < 2 ^ 29
     \<and> (if t \<in> {mwImData_HTML, mwImData_MIME, mwImData_SUBJECT} then str_piece bs
        else t \<in> {mwImData_TYPING, mwImData_MULTI_START, mwImData_MULTI_STOP})"

text \<open>What a conversation makes of a piece: its next state, and what its client is told.\<close>

definition im_collect :: "mwConversation \<Rightarrow> mwImSendType \<Rightarrow> bytes \<Rightarrow> mwConversation \<times> im_send list" where
  "im_collect cv type bs = (case cv_multi cv of
     Some m \<Rightarrow> (cv\<lparr>cv_multi := Some (m @ bs), cv_multi_type := type\<rparr>, [])
   | None \<Rightarrow> (cv, [im_send_of type (Some bs)]))"

fun im_take :: "mwConversation \<Rightarrow> im_piece \<Rightarrow> mwConversation \<times> im_send list" where
  "im_take cv (Piece_text s) = (case cv_multi cv of
     Some m \<Rightarrow> (cv\<lparr>cv_multi := Some (m @ s)\<rparr>, []) | None \<Rightarrow> (cv, [Send_PLAIN (Some s)]))"
| "im_take cv (Piece_data t u bs) =
     (if t = mwImData_TYPING then (cv, [Send_TYPING (u = 0)])
      else if t = mwImData_SUBJECT then (cv, [Send_SUBJECT (Some bs)])
      else if t = mwImData_HTML then im_collect cv mwImSend_HTML bs
      else if t = mwImData_MIME then im_collect cv mwImSend_MIME bs
      else if t = mwImData_MULTI_START then (if cv_multi cv = None then cv\<lparr>cv_multi := Some []\<rparr> else cv, [])
      else case cv_multi cv of
        None \<Rightarrow> (cv, [])
      | Some m \<Rightarrow> (cv\<lparr>cv_multi := None\<rparr>, [im_send_of (cv_multi_type cv) (Some (c_string m))]))"

definition im_took :: "addr \<Rightarrow> mwConversation \<times> im_send list \<Rightarrow> im_client mwSession \<Rightarrow> im_client mwSession" where
  "im_took a x r = r\<lparr>ss_client := \<lparr>imc_im = (imc_im (ss_client r))\<lparr>im_objs := heap_set a (fst x) (im_objs (imc_im (ss_client r)))\<rparr>,
     imc_wire = imc_wire (ss_client r), imc_log = imc_log (ss_client r) @ map (Ev_recv a) (snd x)\<rparr>\<rparr>"

lemma im_took_same: "heap_at (im_objs (imc_im (ss_client r))) a = Some cv \<Longrightarrow>
    im_took a (cv, evs) r = r\<lparr>ss_client := \<lparr>imc_im = imc_im (ss_client r), imc_wire = imc_wire (ss_client r),
      imc_log = imc_log (ss_client r) @ map (Ev_recv a) evs\<rparr>\<rparr>"
  by (simp add: im_took_def heap_set_same)

text \<open>The service of the receiving client.\<close>

lemma run_convo_recv:
  assumes "im_handler (imc_im (ss_client r))" and "heap_at (im_objs (imc_im (ss_client r))) a = Some cv"
  shows "run_state (convo_recv imc_slot imc_handler a m) r = ((), im_took a (cv, [m]) r)"
  using assms
  by (cases "ss_client r")
    (simp add: convo_recv_def conv_deref_def run_heap_deref im_heap_def imc_handler_def imc_note_def optionally_def im_took_same)

lemma run_conv_deref:
  "heap_at (im_objs (imc_im (ss_client r))) a = Some cv \<Longrightarrow> run_state (conv_deref imc_slot a) r = (cv, r)"
  by (simp add: conv_deref_def run_heap_deref im_heap_def)

lemma run_conv_update:
  "heap_at (im_objs (imc_im (ss_client r))) a = Some cv \<Longrightarrow> run_state (conv_update imc_slot a f) r = ((), im_took a (f cv, []) r)"
  by (cases "ss_client r") (simp add: conv_update_def run_heap_update im_heap_def im_took_def)

lemma run_convo_piece:
  assumes "im_handler (imc_im (ss_client r))" and "heap_at (im_objs (imc_im (ss_client r))) a = Some cv" and "str_piece bs"
  shows "run_state (convo_piece imc_slot imc_handler a type (opaque_of bs)) r = ((), im_took a (im_collect cv type bs) r)"
  using assms
  by (auto simp: convo_piece_def run_conv_deref [OF assms(2)] run_conv_update [OF assms(2)] run_convo_recv [OF assms(1,2)]
      im_collect_def opaque_str_def opaque_of_def str_piece_def opaque_bytes_def split: option.split)

lemma im_took_took: "im_took a (cv', evs') (im_took a (cv, evs) r) = im_took a (cv', evs @ evs') r"
  by (simp add: im_took_def heap_set_def)

lemma im_took_idle: "heap_at (im_objs (imc_im (ss_client r))) a = Some cv \<Longrightarrow> im_took a (cv, []) r = r"
  by (simp add: im_took_same)

lemma im_took_at [simp]: "heap_at (im_objs (imc_im (ss_client (im_took a (cv, evs) r)))) a = Some cv"
  by (simp add: im_took_def)

lemma recv_piece:
  assumes "im_handler (imc_im (ss_client r))" and "heap_at (im_objs (imc_im (ss_client r))) a = Some cv"
    and "map_of (ss_channels r) c = Some ch" and "ch_srvc_data ch = Some a"
    and "opaque_ok out" and "opaque_bytes out = piece_wire p" and "piece_ok p"
  shows "exec_state (im_recv imc_env imc_slot imc_handler c 0x64 out) r = im_took a (im_take cv p) r"
proof -
  have sd: "run_state (mwChannel_getServiceData c) r = (Some a, r)"
    using assms(3,4) by (simp add: mwChannel_getServiceData_def chan_deref_def)
  have wrap: "mwGetBuffer_wrap (Some out) = gbuf True [] (piece_wire p)"
    using mwGetBuffer_wrap_gbuf [OF assms(5)] assms(6) by simp
  note run = run_conv_deref [OF assms(2)] run_conv_update [OF assms(2)] run_convo_recv [OF assms(1,2)]
    run_convo_piece [OF assms(1,2)] sd
  show ?thesis
  proof (cases p)
    case (Piece_text s)
    then have s: "string_valid (Some s)" "s \<noteq> []" using assms(7) by (simp_all add: string_valid_def str_piece_def)
    have get: "run_state mwString_get (gbuf True pre (string_wire (Some s))) = (Some s, gbuf True (pre @ string_wire (Some s)) [])" for pre
      using mwString_get_wire [OF s(1), of True pre "[]"] s(2) by (simp add: string_norm_def)
    show ?thesis
      by (simp add: im_recv_def msg_MESSAGE_def wrap Piece_text guint32_get_wire im_types recv_text_def get run split: option.split)
  next
    case (Piece_data t u bs)
    then have get: "run_state mwOpaque_get (gbuf True pre (opaque_wire bs)) = (opaque_of bs, gbuf True (pre @ opaque_wire bs) [])" for pre
      using mwOpaque_get_wire [of bs True pre "[]"] assms(7) by simp
    have str: "opaque_str (opaque_of bs) = Some bs" "op_len (opaque_of bs) \<noteq> 0" if "str_piece bs"
      using that by (simp_all add: opaque_str_def opaque_of_def str_piece_def)
    have recv: "im_recv imc_env imc_slot imc_handler c 0x64 out = recv_data imc_env imc_slot imc_handler c
        (gbuf True (MW32_PUT mwIm_DATA) (MW32_PUT t @ MW32_PUT u @ opaque_wire bs))"
      by (simp add: im_recv_def msg_MESSAGE_def wrap Piece_data guint32_get_wire) (simp add: im_types)
    show ?thesis
      using assms(7)
      by (auto simp: recv recv_data_def Piece_data guint32_get_wire get run str im_types convo_multi_start_def convo_multi_stop_def
          im_took_took im_took_idle [OF assms(2)] run_conv_update [OF im_took_at] str_piece_def split: option.split if_splits)
  qed
qed

section \<open>Messages as pieces\<close>

function im_segments :: "bytes \<Rightarrow> bytes list" where
  "im_segments buf = (if buf = [] then [] else take BREAKUP buf # im_segments (drop BREAKUP buf))"
  by auto
termination
  by (relation "measure length") (auto simp: BREAKUP_def)

declare im_segments.simps [simp del] send_segments.simps [simp del]

definition long_pieces :: "guint32 \<Rightarrow> bytes \<Rightarrow> im_piece list" where
  "long_pieces t s = (if BREAKUP < length s
     then Piece_data mwImData_MULTI_START 0 [] # map (Piece_data t 0) (im_segments s) @ [Piece_data mwImData_MULTI_STOP 0 []]
     else [Piece_data t 0 s])"

fun im_pieces :: "im_send \<Rightarrow> im_piece list" where
  "im_pieces (Send_PLAIN (Some s)) = [Piece_text s]"
| "im_pieces (Send_TYPING t) = [Piece_data mwImData_TYPING (of_bool (\<not> t)) []]"
| "im_pieces (Send_SUBJECT (Some s)) = [Piece_data mwImData_SUBJECT 0 s]"
| "im_pieces (Send_HTML (Some s)) = long_pieces mwImData_HTML s"
| "im_pieces (Send_MIME (Some s)) = long_pieces mwImData_MIME s"
| "im_pieces _ = []"

text \<open>Messages that arrive as they were sent.\<close>

fun im_send_ok :: "im_send \<Rightarrow> bool" where
  "im_send_ok (Send_PLAIN (Some s)) \<longleftrightarrow> str_piece s \<and> length s < 2 ^ 16"
| "im_send_ok (Send_TYPING t) \<longleftrightarrow> True"
| "im_send_ok (Send_SUBJECT (Some s)) \<longleftrightarrow> str_piece s \<and> length s < 2 ^ 29"
| "im_send_ok (Send_HTML (Some s)) \<longleftrightarrow> str_piece s"
| "im_send_ok (Send_MIME (Some s)) \<longleftrightarrow> str_piece s"
| "im_send_ok _ \<longleftrightarrow> False"

fun im_takes :: "mwConversation \<Rightarrow> im_piece list \<Rightarrow> mwConversation \<times> im_send list" where
  "im_takes cv [] = (cv, [])"
| "im_takes cv (p # ps) = (let (cv1, e) = im_take cv p; (cv2, es) = im_takes cv1 ps in (cv2, e @ es))"

lemma im_takes_append:
  "im_takes cv (ps @ qs) = (let (cv1, e) = im_takes cv ps; (cv2, es) = im_takes cv1 qs in (cv2, e @ es))"
  by (induction ps arbitrary: cv) (simp_all add: split_def Let_def)

lemma concat_segments: "concat (im_segments s) = s"
  by (induction s rule: im_segments.induct) (subst im_segments.simps, simp)

lemma segments_ok: "seg \<in> set (im_segments s) \<Longrightarrow> 0 \<notin> set s \<Longrightarrow> str_piece seg \<and> length seg \<le> BREAKUP"
proof (induction s rule: im_segments.induct)
  case (1 s)
  have ne: "s \<noteq> []" and seg: "seg = take BREAKUP s \<or> seg \<in> set (im_segments (drop BREAKUP s))"
    using 1(2) im_segments.simps [of s] by (auto split: if_splits)
  have "str_piece (take BREAKUP s)"
    using ne 1(3) by (auto simp: str_piece_def BREAKUP_def dest: in_set_takeD)
  with 1(1) [OF ne] seg 1(3) show ?case
    by (auto dest: in_set_dropD)
qed

lemma takes_segments:
  assumes "t = mwImData_HTML \<and> type = mwImSend_HTML \<or> t = mwImData_MIME \<and> type = mwImSend_MIME"
  shows "cv_multi cv = Some m \<Longrightarrow> segs \<noteq> [] \<Longrightarrow>
    im_takes cv (map (Piece_data t 0) segs) = (cv\<lparr>cv_multi := Some (m @ concat segs), cv_multi_type := type\<rparr>, [])"
proof (induction segs arbitrary: cv m)
  case (Cons seg segs)
  have step: "im_take cv (Piece_data t 0 seg) = (cv\<lparr>cv_multi := Some (m @ seg), cv_multi_type := type\<rparr>, [])"
    using assms Cons.prems(1) by (auto simp: im_types im_collect_def)
  show ?case
  proof (cases segs)
    case Nil
    then show ?thesis by (simp add: step del: im_take.simps)
  next
    case (Cons x xs)
    then show ?thesis
      using Cons.IH [of "cv\<lparr>cv_multi := Some (m @ seg), cv_multi_type := type\<rparr>" "m @ seg"]
      by (simp add: step Let_def del: im_take.simps im_takes.simps(2)) (simp add: step del: im_take.simps)
  qed
qed simp

lemma takes_long:
  assumes "t = mwImData_HTML \<and> type = mwImSend_HTML \<or> t = mwImData_MIME \<and> type = mwImSend_MIME"
    and "cv_multi cv = None" and "str_piece s"
  shows "\<exists>ty. im_takes cv (long_pieces t s) = (cv\<lparr>cv_multi_type := ty\<rparr>, [im_send_of type (Some s)])"
proof (cases "BREAKUP < length s")
  case False
  with assms show ?thesis
    by (intro exI [of _ "cv_multi_type cv"]) (auto simp: long_pieces_def im_types im_collect_def)
next
  case True
  let ?cv = "cv\<lparr>cv_multi := Some []\<rparr>"
  have ne: "im_segments s \<noteq> []"
    using True by (subst im_segments.simps) auto
  have st: "im_take cv (Piece_data mwImData_MULTI_START 0 []) = (?cv, [])"
    using assms(2) by (simp add: im_types)
  have mid: "im_takes ?cv (map (Piece_data t 0) (im_segments s))
      = (?cv\<lparr>cv_multi := Some s, cv_multi_type := type\<rparr>, [])"
    using takes_segments [OF assms(1) _ ne, of ?cv "[]"] by (simp add: concat_segments)
  have fin: "im_take (cv\<lparr>cv_multi := Some s, cv_multi_type := type\<rparr>) (Piece_data mwImData_MULTI_STOP 0 [])
      = (cv\<lparr>cv_multi_type := type\<rparr>, [im_send_of type (Some s)])"
    using assms(2,3) by (cases cv) (simp add: im_types str_piece_def)
  show ?thesis
    using True by (intro exI [of _ type]) (simp add: long_pieces_def st mid fin im_takes_append del: im_take.simps)
qed

lemma takes_message:
  assumes "im_send_ok m" and "cv_multi cv = None"
  shows "\<exists>ty. im_takes cv (im_pieces m) = (cv\<lparr>cv_multi_type := ty\<rparr>, [m])"
proof -
  have same: "cv\<lparr>cv_multi_type := cv_multi_type cv\<rparr> = cv" by simp
  show ?thesis
    using assms takes_long [of mwImData_HTML mwImSend_HTML cv] takes_long [of mwImData_MIME mwImSend_MIME cv]
    by (cases m rule: im_pieces.cases) (auto simp: im_types intro: exI [of _ "cv_multi_type cv"])
qed

lemma takes_messages:
  assumes "\<forall>m \<in> set ms. im_send_ok m" and "cv_multi cv = None"
  shows "\<exists>ty. im_takes cv (concat (map im_pieces ms)) = (cv\<lparr>cv_multi_type := ty\<rparr>, ms)"
  using assms
proof (induction ms arbitrary: cv)
  case Nil
  show ?case by (intro exI [of _ "cv_multi_type cv"]) simp
next
  case (Cons m ms)
  obtain ty where m: "im_takes cv (im_pieces m) = (cv\<lparr>cv_multi_type := ty\<rparr>, [m])"
    using takes_message [of m cv] Cons.prems by auto
  obtain ty' where "im_takes (cv\<lparr>cv_multi_type := ty\<rparr>) (concat (map im_pieces ms)) = (cv\<lparr>cv_multi_type := ty'\<rparr>, ms)"
    using Cons.IH [of "cv\<lparr>cv_multi_type := ty\<rparr>"] Cons.prems by auto
  with m show ?case by (auto simp: im_takes_append)
qed

lemma long_pieces_ok:
  assumes "t \<in> {mwImData_HTML, mwImData_MIME}" and "str_piece s" and "p \<in> set (long_pieces t s)"
  shows "piece_ok p"
proof -
  have seg: "piece_ok (Piece_data t 0 x)" if "x \<in> set (im_segments s) \<or> x = s \<and> length s \<le> BREAKUP" for x
    using that segments_ok [of x s] assms(1,2) by (auto simp: str_piece_def BREAKUP_def)
  have ends: "piece_ok (Piece_data mwImData_MULTI_START 0 [])" "piece_ok (Piece_data mwImData_MULTI_STOP 0 [])"
    by (simp_all add: im_types)
  show ?thesis
    using assms(3) seg ends by (auto simp: long_pieces_def simp del: piece_ok.simps split: if_splits)
qed

lemma pieces_ok: "im_send_ok m \<Longrightarrow> p \<in> set (im_pieces m) \<Longrightarrow> piece_ok p"
  using long_pieces_ok [of mwImData_HTML _ p] long_pieces_ok [of mwImData_MIME _ p]
  by (cases m rule: im_pieces.cases) (auto simp: im_types str_piece_def)

section \<open>The two ends\<close>

definition im_at :: "im_client mwSession \<Rightarrow> addr \<Rightarrow> mwConversation option" where
  "im_at s a = heap_at (im_objs (imc_im (ss_client s))) a"

text \<open>A conversation that is open over an open channel, with the cipher instance of that channel.\<close>

definition im_sending ::
  "mwCipher \<Rightarrow> guint32 \<Rightarrow> addr \<Rightarrow> mwCipherInstance option \<Rightarrow> im_client mwSession \<Rightarrow> bool" where
  "im_sending cipher c a ci s \<longleftrightarrow>
     (case im_at s a of None \<Rightarrow> False
      | Some cv \<Rightarrow> cv_state cv = mwConversation_OPEN \<and> cv_channel cv = Some c \<and> \<not> cv_ext_id cv)
     \<and> (case map_of (ss_channels s) c of None \<Rightarrow> False
        | Some ch \<Rightarrow> ch_state ch = mwChannel_OPEN \<and> ch_id ch = c \<and> ch_cipher ch = ci)
     \<and> (case ci of None \<Rightarrow> True | Some i \<Rightarrow> map_of (ss_ciphers s) (instance_type i) = Some cipher)"

definition im_receiving ::
  "guint32 \<Rightarrow> addr \<Rightarrow> mwConversation \<Rightarrow> mwCipherInstance option \<Rightarrow> im_client mwSession \<Rightarrow> bool" where
  "im_receiving c b cv ci r \<longleftrightarrow> im_handler (imc_im (ss_client r)) \<and> im_at r b = Some cv
     \<and> (case map_of (ss_channels r) c of None \<Rightarrow> False
        | Some ch \<Rightarrow> ch_state ch = mwChannel_OPEN \<and> ch_cipher ch = ci \<and> ch_srvc_data ch = Some b
            \<and> (case map_of (ss_services r) (ch_service ch) of None \<Rightarrow> False | Some sv \<Rightarrow> sv_type sv = mwService_IM))"

definition imc_full :: "im_client env" where
  "imc_full = im_install imc_slot imc_handler imc_env"

definition im_process :: "mwMsgChannelSend \<Rightarrow> (im_client, unit) M" where
  "im_process m = do { e_junk imc_full; session_dispatch imc_full (mwMessage_norm (ChannelSend m)) }"

lemma imc_full_simps:
  "e_recv imc_full mwService_IM = Some (im_recv imc_env imc_slot imc_handler)"
  "client_only (e_junk imc_full)" "exec_state (e_junk imc_full) s = s"
  by (simp_all add: imc_full_def im_install_def imc_env_def plain_env_def)

lemma payload_step:
  assumes "im_sending cipher c a ci s"
  obtains ch ci' m where "ch_cipher ch = ci" "channel_message cipher ch msg_MESSAGE d = (ci', m)"
    "im_sending cipher c a ci' (exec_state (im_send_payload imc_env imc_slot a d) s)"
    "eval_state (im_send_payload imc_env imc_slot a d) s = 0"
    "imc_wire (ss_client (exec_state (im_send_payload imc_env imc_slot a d) s)) = imc_wire (ss_client s) @ [render_send m]"
proof -
  obtain ch cv where ch: "map_of (ss_channels s) c = Some ch" "ch_state ch = mwChannel_OPEN" "ch_id ch = c" "ch_cipher ch = ci"
    and cv: "im_at s a = Some cv" "cv_channel cv = Some c" "\<not> cv_ext_id cv"
    using assms by (auto simp: im_sending_def split: option.splits)
  obtain ci' m where m: "channel_message cipher ch msg_MESSAGE d = (ci', m)" by fastforce
  have ciph: "map_of (ss_ciphers s) (instance_type i) = Some cipher" if "ch_cipher ch = Some i" for i
    using assms ch(4) that by (simp add: im_sending_def split: option.splits)
  have inst: "ci' = Some i \<Longrightarrow> map_of (ss_ciphers s) (instance_type i) = Some cipher" for i
    using channel_message_instance [of cipher ch msg_MESSAGE d i m] m ciph by auto
  have wr: "writes_to imc_env (\<lambda>b c. c\<lparr>imc_wire := imc_wire c @ [b]\<rparr>)" by (simp add: imc_env_def)
  have send: "run_state (mwChannel_send imc_env c msg_MESSAGE d) s
      = (0, s\<lparr>ss_channels := AList.update c (ch\<lparr>ch_cipher := ci'\<rparr>) (ss_channels s),
           ss_client := (ss_client s)\<lparr>imc_wire := imc_wire (ss_client s) @ [render_send m]\<rparr>\<rparr>)"
    using mwChannel_send_run [OF ch(1,2) _ m wr] ciph by simp
  have run: "run_state (im_send_payload imc_env imc_slot a d) s
      = (0, s\<lparr>ss_channels := AList.update c (ch\<lparr>ch_cipher := ci'\<rparr>) (ss_channels s),
           ss_client := (ss_client s)\<lparr>imc_wire := imc_wire (ss_client s) @ [render_send m]\<rparr>\<rparr>)"
    using cv send by (simp add: im_send_payload_def run_conv_deref im_at_def mwChannel_send_def)
  show ?thesis
    by (rule that [OF ch(4) m]) (use assms ch inst in \<open>simp_all add: run im_sending_def im_at_def split: option.splits\<close>)
qed

lemma piece_step:
  assumes r: "im_receiving c b cv ci r" and sync: "in_sync cipher (ch_cipher ch) ci"
    and d: "opaque_ok d" "op_len d < 2 ^ 30" and m: "channel_message cipher ch msg_MESSAGE d = (ci', m)"
    and p: "opaque_bytes d = piece_wire p" "piece_ok p"
  obtains ci2 where "im_receiving c b (fst (im_take cv p)) ci2 (exec_state (im_process (relabel c m)) r)" "in_sync cipher ci' ci2"
    "imc_log (ss_client (exec_state (im_process (relabel c m)) r)) = imc_log (ss_client r) @ map (Ev_recv b) (snd (im_take cv p))"
    "sendable (ChannelSend (relabel c m))"
proof -
  obtain ch' sv where ch': "map_of (ss_channels r) c = Some ch'" "ch_state ch' = mwChannel_OPEN" "ch_cipher ch' = ci"
      "map_of (ss_services r) (ch_service ch') = Some sv" "sv_type sv = mwService_IM" "ch_srvc_data ch' = Some b"
    and at: "im_handler (imc_im (ss_client r))" "heap_at (im_objs (imc_im (ss_client r))) b = Some cv"
    using r by (auto simp: im_receiving_def im_at_def split: option.splits)
  let ?ch = "ch\<lparr>ch_id := c\<rparr>"
  note m' = channel_message_relabel [OF m, of c]
  have sync': "in_sync cipher (ch_cipher ?ch) (ch_cipher ch')" using sync ch'(3) by simp
  obtain ci2 out where step: "exec_state (im_process (relabel c m)) r
      = exec_state (im_recv imc_env imc_slot imc_handler c (ucast msg_MESSAGE) out) (chan_received c ch' ci2 r)"
      "opaque_ok out" "opaque_bytes out = opaque_bytes d" "in_sync cipher ci' ci2"
    using channel_step [OF ch'(1,2) _ ch'(4) _ imc_full_simps(2) sync' d m'] imc_full_simps(1) ch'(5)
    by (auto simp: im_process_def imc_full_simps(3))
  have "exec_state (im_recv imc_env imc_slot imc_handler c 0x64 out) (chan_received c ch' ci2 r)
      = im_took b (im_take cv p) (chan_received c ch' ci2 r)"
    by (rule recv_piece [OF _ _ _ _ step(2) _ p(2), where ch = "ch'\<lparr>ch_stats := AList.update mwChannelStat_MSG_RECV
          (get_stat ch' mwChannelStat_MSG_RECV + 1) (ch_stats ch'), ch_cipher := ci2\<rparr>"])
      (use at ch'(6) step(3) p(1) in \<open>simp_all add: chan_received_def\<close>)
  then have final: "exec_state (im_process (relabel c m)) r = im_took b (im_take cv p) (chan_received c ch' ci2 r)"
    using step(1) by (simp add: msg_MESSAGE_def)
  show ?thesis
  proof (rule that [OF _ step(4)])
    show "im_receiving c b (fst (im_take cv p)) ci2 (exec_state (im_process (relabel c m)) r)"
      using ch' at(1) by (simp add: final im_receiving_def im_at_def im_took_def chan_received_def)
    show "sendable (ChannelSend (relabel c m))"
      by (rule channel_message_sendable(1) [OF d _ m']) (use sync in simp)
  qed (simp_all add: final im_took_def chan_received_def)
qed

section \<open>Sending\<close>

text \<open>
  A computation of the sending client that succeeds and makes the other client take the given
  pieces.
\<close>

definition carried ::
  "mwCipher \<Rightarrow> guint32 \<Rightarrow> addr \<Rightarrow> guint32 \<Rightarrow> addr \<Rightarrow> (im_client, gint) M \<Rightarrow> mwConversation \<times> im_send list
   \<Rightarrow> im_client mwSession \<Rightarrow> im_client mwSession \<Rightarrow> mwMsgChannelSend list \<Rightarrow> bool" where
  "carried cipher c a c' b m x s r ms \<longleftrightarrow> eval_state m s = 0
     \<and> imc_wire (ss_client (exec_state m s)) = imc_wire (ss_client s) @ map render_send ms
     \<and> (\<forall>x \<in> set ms. sendable (ChannelSend (relabel c' x)))
     \<and> (\<exists>ci1 ci2. im_sending cipher c a ci1 (exec_state m s)
          \<and> im_receiving c' b (fst x) ci2 (exec_state (for_each im_process (map (relabel c') ms)) r)
          \<and> in_sync cipher ci1 ci2)
     \<and> imc_log (ss_client (exec_state (for_each im_process (map (relabel c') ms)) r))
         = imc_log (ss_client r) @ map (Ev_recv b) (snd x)"

definition carries ::
  "mwCipher \<Rightarrow> guint32 \<Rightarrow> addr \<Rightarrow> guint32 \<Rightarrow> addr \<Rightarrow> (im_client, gint) M \<Rightarrow> im_piece list \<Rightarrow> bool" where
  "carries cipher c a c' b m ps \<longleftrightarrow> (\<forall>ci s ci' cv r.
     im_sending cipher c a ci s \<longrightarrow> im_receiving c' b cv ci' r \<longrightarrow> in_sync cipher ci ci' \<longrightarrow>
     (\<exists>ms. carried cipher c a c' b m (im_takes cv ps) s r ms))"

lemma carriesI:
  assumes "\<And>ci s ci' cv r. im_sending cipher c a ci s \<Longrightarrow> im_receiving c' b cv ci' r \<Longrightarrow> in_sync cipher ci ci'
    \<Longrightarrow> \<exists>ms. carried cipher c a c' b m (im_takes cv ps) s r ms"
  shows "carries cipher c a c' b m ps"
  using assms unfolding carries_def by blast

lemma carriesE:
  assumes "carries cipher c a c' b m ps" and "im_sending cipher c a ci s" and "im_receiving c' b cv ci' r" and "in_sync cipher ci ci'"
  obtains ms where "carried cipher c a c' b m (im_takes cv ps) s r ms"
  using assms unfolding carries_def by blast

lemma carries_return: "carries cipher c a c' b (State_Monad.return 0) []"
  by (rule carriesI, rule exI [of _ "[]"]) (auto simp: carried_def)

lemma exec_for_each_append:
  "exec_state (for_each f (xs @ ys)) s = exec_state (for_each f ys) (exec_state (for_each f xs) s)"
  by (induction xs arbitrary: s) (simp_all add: split_def)

lemma carries_then:
  assumes "carries cipher c a c' b m ps" and "carries cipher c a c' b n qs"
  shows "carries cipher c a c' b (do { ret \<leftarrow> m; if ret \<noteq> 0 then State_Monad.return ret else n }) (ps @ qs)"
proof (rule carriesI)
  fix ci s ci' cv r
  assume "im_sending cipher c a ci s" "im_receiving c' b cv ci' r" "in_sync cipher ci ci'"
  with assms(1) obtain ms where 1: "carried cipher c a c' b m (im_takes cv ps) s r ms"
    by (rule carriesE)
  then obtain ci1 ci2 where "im_sending cipher c a ci1 (exec_state m s)"
      "im_receiving c' b (fst (im_takes cv ps)) ci2 (exec_state (for_each im_process (map (relabel c') ms)) r)"
      "in_sync cipher ci1 ci2"
    unfolding carried_def by blast
  with assms(2) obtain ns where 2: "carried cipher c a c' b n (im_takes (fst (im_takes cv ps)) qs) (exec_state m s)
      (exec_state (for_each im_process (map (relabel c') ms)) r) ns"
    by (rule carriesE)
  have run: "run_state (do { ret \<leftarrow> m; if ret \<noteq> 0 then State_Monad.return ret else n }) s = run_state n (exec_state m s)"
    using 1 by (simp add: carried_def split_def)
  show "\<exists>ms. carried cipher c a c' b (do { ret \<leftarrow> m; if ret \<noteq> 0 then State_Monad.return ret else n }) (im_takes cv (ps @ qs)) s r ms"
    by (rule exI [of _ "ms @ ns"])
      (use 1 2 in \<open>auto simp: carried_def run im_takes_append split_def Let_def exec_for_each_append\<close>)
qed

lemma carries_payload:
  assumes "opaque_ok d" and "opaque_bytes d = piece_wire p" and "piece_ok p"
  shows "carries cipher c a c' b (im_send_payload imc_env imc_slot a d) [p]"
proof (rule carriesI)
  fix ci s ci' cv r
  assume A: "im_sending cipher c a ci s" "im_receiving c' b cv ci' r" "in_sync cipher ci ci'"
  let ?s = "exec_state (im_send_payload imc_env imc_slot a d) s"
  have len: "op_len d < 2 ^ 30"
    using assms length_opaque_bytes [of d]
    by (cases p) (auto simp: opaque_wire_def string_wire_def split: if_splits)
  obtain ch ci1 m where m: "ch_cipher ch = ci" "channel_message cipher ch msg_MESSAGE d = (ci1, m)" "im_sending cipher c a ci1 ?s"
      "eval_state (im_send_payload imc_env imc_slot a d) s = 0" "imc_wire (ss_client ?s) = imc_wire (ss_client s) @ [render_send m]"
    using payload_step [OF A(1)] by metis
  obtain ci2 where "im_receiving c' b (fst (im_take cv p)) ci2 (exec_state (im_process (relabel c' m)) r)" "in_sync cipher ci1 ci2"
    "imc_log (ss_client (exec_state (im_process (relabel c' m)) r)) = imc_log (ss_client r) @ map (Ev_recv b) (snd (im_take cv p))"
    "sendable (ChannelSend (relabel c' m))"
    using piece_step [OF A(2) A(3) [folded m(1)] assms(1) len m(2) assms(2,3)] by metis
  with m show "\<exists>ms. carried cipher c a c' b (im_send_payload imc_env imc_slot a d) (im_takes cv [p]) s r ms"
    by (intro exI [of _ "[m]"]) (auto simp: carried_def split_def Let_def)
qed

lemma carries_cong:
  assumes "carries cipher c a c' b n ps" and "\<And>ci s. im_sending cipher c a ci s \<Longrightarrow> run_state m s = run_state n s"
  shows "carries cipher c a c' b m ps"
proof (rule carriesI)
  fix ci s ci' cv r
  assume A: "im_sending cipher c a ci s" "im_receiving c' b cv ci' r" "in_sync cipher ci ci'"
  from assms(1) A obtain ms where "carried cipher c a c' b n (im_takes cv ps) s r ms" by (rule carriesE)
  with assms(2) [OF A(1)] show "\<exists>ms. carried cipher c a c' b m (im_takes cv ps) s r ms"
    by (auto simp: carried_def)
qed

lemma carries_text:
  assumes "piece_ok (Piece_text s)"
  shows "carries cipher c a c' b (convo_sendText imc_env imc_slot a (Some s)) [Piece_text s]"
proof -
  have "writes (do { guint32_put mwIm_TEXT; mwString_put (Some s) }) (piece_wire (Piece_text s))"
    unfolding piece_wire.simps by (intro writer_intros)
  from put_opaque_writes [OF this] show ?thesis
    unfolding convo_sendText_def text_payload_def using assms by (intro carries_payload)
qed

lemma carries_data:
  assumes "piece_ok (Piece_data t u bs)" and "d = Some (str_opaque bs) \<or> bs = [] \<and> d = None"
  shows "carries cipher c a c' b (convo_send_data imc_env imc_slot a t u d) [Piece_data t u bs]"
proof -
  have "opaque_ok (str_opaque bs)" "opaque_bytes (str_opaque bs) = bs"
    by (simp_all add: str_opaque_def opaque_ok_def opaque_bytes_def)
  then have "writes (mwOpaque_put d) (opaque_wire bs)"
    using assms(2) writes_opaque [of "str_opaque bs"] writes_opaque_NULL by auto
  then have "writes (do { guint32_put mwIm_DATA; guint32_put t; guint32_put u; mwOpaque_put d }) (piece_wire (Piece_data t u bs))"
    unfolding piece_wire.simps by (intro writer_intros)
  from put_opaque_writes [OF this] show ?thesis
    unfolding convo_send_data_def data_payload_def using assms(1) by (intro carries_payload)
qed

lemma carries_segments:
  assumes "\<And>seg. seg \<in> set (im_segments s) \<Longrightarrow> carries cipher c a c' b (send seg) [Piece_data t 0 seg]"
  shows "carries cipher c a c' b (send_segments send s) (map (Piece_data t 0) (im_segments s))"
  using assms
proof (induction s rule: im_segments.induct)
  case (1 s)
  show ?case
  proof (cases "s = []")
    case True
    then show ?thesis using carries_return by (simp add: send_segments.simps im_segments.simps [of "[]"])
  next
    case False
    then have seg: "im_segments s = take BREAKUP s # im_segments (drop BREAKUP s)"
      by (simp add: im_segments.simps [of s])
    show ?thesis
      using False carries_then [OF 1(2) 1(1) [OF False 1(2)], of "take BREAKUP s"]
      by (simp add: seg send_segments.simps [of send s])
  qed
qed

lemma carries_long:
  assumes "t \<in> {mwImData_HTML, mwImData_MIME}" and "str_piece s"
  shows "carries cipher c a c' b (convo_sendLong imc_env imc_slot t a s) (long_pieces t s)"
proof -
  have data: "carries cipher c a c' b (convo_send_data imc_env imc_slot a t 0 (Some (str_opaque seg))) [Piece_data t 0 seg]"
    if "Piece_data t 0 seg \<in> set (long_pieces t s)" for seg
    using carries_data [OF long_pieces_ok [OF assms that]] by blast
  show ?thesis
  proof (cases "BREAKUP < length s")
    case False
    then show ?thesis using data [of s] by (simp add: convo_sendLong_def long_pieces_def Let_def)
  next
    case True
    let ?send = "\<lambda>seg. convo_send_data imc_env imc_slot a t 0 (Some (str_opaque seg))"
    have st: "carries cipher c a c' b (convo_send_multi_start imc_env imc_slot a) [Piece_data mwImData_MULTI_START 0 []]"
      "carries cipher c a c' b (convo_send_multi_stop imc_env imc_slot a) [Piece_data mwImData_MULTI_STOP 0 []]"
      unfolding convo_send_multi_start_def convo_send_multi_stop_def by (rule carries_data; simp add: im_types)+
    have mid: "carries cipher c a c' b (send_segments ?send s) (map (Piece_data t 0) (im_segments s))"
      by (rule carries_segments) (rule data, simp add: long_pieces_def True)
    from carries_then [OF carries_then [OF st(1) mid] st(2)] True show ?thesis
      by (simp add: convo_sendLong_def convo_sendSegmented_def long_pieces_def Let_def)
  qed
qed

lemma carries_send:
  assumes "im_send_ok m"
  shows "carries cipher c a c' b (mwConversation_send imc_env imc_slot a m) (im_pieces m)"
proof (rule carries_cong)
  let ?n = "case m of Send_PLAIN str \<Rightarrow> convo_sendText imc_env imc_slot a str
     | Send_TYPING typing \<Rightarrow> convo_sendTyping imc_env imc_slot a typing
     | Send_SUBJECT str \<Rightarrow> with_str str (convo_sendSubject imc_env imc_slot a)
     | Send_HTML str \<Rightarrow> with_str str (convo_sendHtml imc_env imc_slot a)
     | Send_MIME str \<Rightarrow> with_str str (convo_sendMime imc_env imc_slot a)
     | Send_TIMESTAMP _ \<Rightarrow> State_Monad.return (- 1)"
  show "run_state (mwConversation_send imc_env imc_slot a m) s = run_state ?n s" if "im_sending cipher c a ci s" for ci s
    using that by (auto simp: mwConversation_send_def im_sending_def im_at_def run_conv_deref split: option.splits)
  show "carries cipher c a c' b ?n (im_pieces m)"
    using assms carries_text carries_data [of _ _ _ "Some (str_opaque _)"] carries_long
    by (cases m rule: im_pieces.cases)
      (auto simp: with_str_def convo_sendHtml_def convo_sendMime_def convo_sendSubject_def convo_sendTyping_def im_types
        intro!: carries_data carries_text)
qed

section \<open>Across a connection\<close>

fun im_send_all :: "addr \<Rightarrow> im_send list \<Rightarrow> (im_client, gint) M" where
  "im_send_all a [] = State_Monad.return 0"
| "im_send_all a (m # ms) = do {
     ret \<leftarrow> mwConversation_send imc_env imc_slot a m;
     if ret \<noteq> 0 then State_Monad.return ret else im_send_all a ms
   }"

lemma carries_all: "\<forall>m \<in> set ms. im_send_ok m \<Longrightarrow> carries cipher c a c' b (im_send_all a ms) (concat (map im_pieces ms))"
  by (induction ms) (simp_all add: carries_return carries_then carries_send)

lemma nobuf_conv [nobuf_intros]:
  "nobuf (conv_deref sl a)" "nobuf (conv_update sl a f)" "nobuf (conv_new sl cv)" "nobuf (convo_set_state sl a st)" "nobuf (convo_free sl a)"
  unfolding conv_deref_def conv_update_def conv_new_def convo_set_state_def convo_free_def by (intro nobuf_intros)+

lemma imc_nobuf [nobuf_intros]: "nobuf (imc_note e)" "nobuf (convo_recv sl imc_handler a m)" "nobuf (convo_opened sl imc_handler a)"
proof -
  show log: "nobuf (imc_note e)" for e
    unfolding imc_note_def by (rule nobuf_modify) (simp add: buf_free_def)
  show "nobuf (convo_recv sl imc_handler a m)" "nobuf (convo_opened sl imc_handler a)"
    unfolding convo_recv_def convo_opened_def imc_handler_def optionally_def by (auto intro!: nobuf_intros log)
qed

lemma imc_env_nobuf: "env_nobuf imc_env"
  unfolding imc_env_def by (rule plain_env_nobuf)

lemma nobuf_im_calls [nobuf_intros]:
  "nobuf (convo_create_chan imc_env sl a)" "nobuf (mwConversation_close imc_env sl imc_handler a r)"
  "nobuf (mwConversation_free imc_env sl imc_handler a)" "nobuf (send_accept imc_env sl a)"
proof -
  note S = nobuf_intros nobuf_channel [OF imc_env_nobuf] nobuf_channel_calls [OF imc_env_nobuf]
  have closed: "nobuf (optionally (map_option (\<lambda>f. f a r) (imh_closed imc_handler)))" for r
    by (simp add: imc_handler_def optionally_def imc_nobuf)
  show "nobuf (convo_create_chan imc_env sl a)"
    unfolding convo_create_chan_def by (intro S)
  show close: "nobuf (mwConversation_close imc_env sl imc_handler a r)" for r
    unfolding mwConversation_close_def by (intro S closed)
  show "nobuf (mwConversation_free imc_env sl imc_handler a)"
    unfolding mwConversation_free_def by (intro S close)
  show "nobuf (send_accept imc_env sl a)"
    unfolding send_accept_def by (intro S nobuf_gets) simp_all
qed

lemma imc_full_nobuf: "env_nobuf imc_full"
proof -
  note S = nobuf_intros nobuf_channel [OF imc_env_nobuf] nobuf_channel_calls [OF imc_env_nobuf] env_nobufU [OF imc_env_nobuf]
  have stat: "nobuf (gets ss_status)" by (rule nobuf_gets) simp
  have flt: "nobuf fault" unfolding fault_def by (rule nobuf_modify) (simp add: buf_free_def)
  have off: "nobuf (im_offered sl imc_handler c m)" for sl c m
    unfolding im_offered_def im_place_invite_def Let_def split_def by (intro S stat flt)
  have offer: "nobuf (case x of Offer_reject code \<Rightarrow> f code | Offer_take y \<Rightarrow> g y)"
    if "\<And>code. nobuf (f code)" "\<And>y. nobuf (g y)" for x and f g :: "guint32 \<Rightarrow> (im_client, unit) M"
    using that by (cases x) simp_all
  have "nobuf (im_recv_channelCreate imc_env imc_slot imc_handler c m)" for c m
    unfolding im_recv_channelCreate_def by (intro S off offer)
  moreover have "nobuf (im_recv_channelAccept imc_env imc_slot imc_handler c m)" for c m
    unfolding im_recv_channelAccept_def by (intro S)
  moreover have "nobuf (im_recv_channelDestroy imc_env imc_slot imc_handler c m)" for c m
    unfolding im_recv_channelDestroy_def by (intro S)
  moreover have inv: "nobuf (convo_invite imc_env imc_slot imc_handler a o')" for a o'
    unfolding convo_invite_def imc_handler_def Let_def split_def by (simp, intro S)
  moreover have "nobuf (im_recv imc_env imc_slot imc_handler c t d)" for c t d
    unfolding im_recv_def recv_text_def recv_data_def convo_piece_def convo_multi_start_def convo_multi_stop_def Let_def split_def
    by (intro S inv)
  moreover have "nobuf (im_stop imc_env imc_slot imc_handler)" "nobuf im_start"
    unfolding im_stop_def im_start_def im_each_conv_def
    by (intro S nobuf_while_do; simp add: buf_free_def)+
  ultimately show ?thesis
    using imc_env_nobuf unfolding env_nobuf_def imc_full_def im_install_def by simp
qed

text \<open>
  Claim C6: conversations deliver. Two clients have an open conversation over channels whose
  cipher instances are in sync. Every message the first one sends with \<open>mwConversation_send\<close>
  (text of less than 65536 bytes, typing notifications, subjects, and HTML or MIME of any length, which
  goes out in segments) is accepted, and however the connection cuts the bytes,
  \<open>conversation_recv\<close> of the other client is called once for each message, in order, with the
  message itself; afterwards no segments are left over.
\<close>

theorem conversation_delivers:
  assumes "im_sending cipher c a ci s" and "im_receiving c' b cv ci' r" and "in_sync cipher ci ci'"
    and "framing_ok r []" and "cv_multi cv = None" and "\<forall>m \<in> set ms. im_send_ok m"
  shows "\<exists>ws r' cv'. eval_state (im_send_all a ms) s = 0
    \<and> imc_wire (ss_client (exec_state (im_send_all a ms) s)) = imc_wire (ss_client s) @ map render_send ws
    \<and> (\<forall>pieces. concat pieces = concat (map (\<lambda>m. render_send (relabel c' m)) ws) \<longrightarrow>
         mwSession_recv_all imc_full pieces r = Some r')
    \<and> imc_log (ss_client r') = imc_log (ss_client r) @ map (Ev_recv b) ms
    \<and> im_at r' b = Some cv' \<and> cv_multi cv' = None"
proof -
  obtain ws where ws: "carried cipher c a c' b (im_send_all a ms) (im_takes cv (concat (map im_pieces ms))) s r ws"
    using carries_all [OF assms(6)] assms(1-3) by (rule carriesE)
  obtain ty where t: "im_takes cv (concat (map im_pieces ms)) = (cv\<lparr>cv_multi_type := ty\<rparr>, ms)"
    using takes_messages [OF assms(6,5)] by blast
  have each: "for_each im_process ns
      = for_each (\<lambda>m. do { e_junk imc_full; session_dispatch imc_full (mwMessage_norm m) }) (map ChannelSend ns)" for ns
    by (induction ns) (simp_all add: im_process_def)
  have recv: "mwSession_recv_all imc_full pieces r = Some (exec_state (for_each im_process (map (relabel c') ws)) r)"
    if "concat pieces = concat (map (\<lambda>m. render_send (relabel c' m)) ws)" for pieces
    using recv_messages [OF imc_full_nobuf assms(4), of "map ChannelSend (map (relabel c') ws)" pieces] that ws
    by (auto simp: carried_def each comp_def)
  show ?thesis
    by (rule exI [of _ ws], rule exI, rule exI [of _ "cv\<lparr>cv_multi_type := ty\<rparr>"])
      (use ws recv assms(5) in \<open>auto simp: carried_def t im_receiving_def\<close>)
qed

definition im_example_instance :: mwCipherInstance_RC2_40 where
  "im_example_instance = \<lparr>i40_incoming_key = zero_key, i40_outgoing_iv = mwIV_init, i40_incoming_iv = mwIV_init\<rparr>"

definition im_example_cipher :: mwCipher where
  "im_example_cipher = RC2_40 \<lparr>c40_session_key = zero_key, c40_ready = True\<rparr>"

definition im_example_conv :: "guint32 \<Rightarrow> mwConversation" where
  "im_example_conv c = mwConversation_zero\<lparr>cv_channel := Some c, cv_state := mwConversation_OPEN\<rparr>"

definition im_example_end :: "guint32 \<Rightarrow> im_client mwSession" where
  "im_example_end c = (mwSession_zero \<lparr>imc_im = \<lparr>im_features = mwImClient_PLAIN, im_handler = True,
         im_objs = \<lparr>hp_objs = [(0, im_example_conv c)], hp_next = 1\<rparr>, im_convs = [0]\<rparr>, imc_wire = [], imc_log = []\<rparr>)
     \<lparr>ss_channels := [(c, mwChannel_zero\<lparr>ch_state := mwChannel_OPEN, ch_id := c, ch_service := mwService_IM,
         ch_cipher := Some (Inst_RC2_40 im_example_instance), ch_srvc_data := Some 0\<rparr>)],
      ss_ciphers := [(0, im_example_cipher)],
      ss_services := [(mwService_IM, service_of mwService_IM)]\<rparr>"

lemma im_example_ok:
  "im_sending im_example_cipher 1 0 (Some (Inst_RC2_40 im_example_instance)) (im_example_end 1)"
  "im_receiving 0x80000001 0 (im_example_conv 0x80000001) (Some (Inst_RC2_40 im_example_instance)) (im_example_end 0x80000001)"
  "in_sync im_example_cipher (Some (Inst_RC2_40 im_example_instance)) (Some (Inst_RC2_40 im_example_instance))"
  "framing_ok (im_example_end c) []" "cv_multi (im_example_conv c) = None" "imc_log (ss_client (im_example_end c)) = []"
  by (simp_all add: im_sending_def im_receiving_def im_example_end_def im_example_conv_def im_at_def mwConversation_zero_def
      im_example_cipher_def im_example_instance_def mwSession_zero_def service_of_def sync_RC2_40_def buf_free_def)

theorem conversation_delivers_witness:
  "\<exists>ws r'. mwSession_recv_all imc_full (map (\<lambda>b. [b]) (concat (map (\<lambda>m. render_send (relabel 0x80000001 m)) ws)))
       (im_example_end 0x80000001) = Some r'
     \<and> imc_log (ss_client r') = [Ev_recv 0 (Send_TYPING True), Ev_recv 0 (Send_PLAIN (Some [104, 105])),
         Ev_recv 0 (Send_HTML (Some (replicate 5000 65)))]"
proof -
  let ?ms = "[Send_TYPING True, Send_PLAIN (Some [104, 105]), Send_HTML (Some (replicate 5000 65))]"
  have "\<forall>m \<in> set ?ms. im_send_ok m" by (simp add: str_piece_def)
  from conversation_delivers [OF im_example_ok(1-5) this]
  obtain ws r' where *: "\<forall>pieces. concat pieces = concat (map (\<lambda>m. render_send (relabel 0x80000001 m)) ws) \<longrightarrow>
      mwSession_recv_all imc_full pieces (im_example_end 0x80000001) = Some r'"
    "imc_log (ss_client r') = imc_log (ss_client (im_example_end 0x80000001)) @ map (Ev_recv 0) ?ms"
    by blast
  have single: "concat (map (\<lambda>b. [b]) bs) = bs" for bs :: bytes by simp
  show ?thesis
    using mp [OF spec [OF *(1)] single] *(2)
    by (intro exI [of _ ws] exI [of _ r']) (simp add: im_example_ok(6))
qed

text \<open>
  Text that arrives in segments is reported with the type of the last message in segments, since
  \<open>convo_multi_start\<close> does not reset it: after HTML, text is reported as HTML.
\<close>

lemma segmented_text_type:
  assumes "cv_multi cv = None" and "0 \<notin> set (concat ss)"
  shows "im_takes cv (Piece_data mwImData_MULTI_START 0 [] # map Piece_text ss @ [Piece_data mwImData_MULTI_STOP 0 []])
    = (cv, [im_send_of (cv_multi_type cv) (Some (concat ss))])"
proof -
  have mid: "cv_multi cv = Some m \<Longrightarrow> im_takes cv (map Piece_text ss) = (cv\<lparr>cv_multi := Some (m @ concat ss)\<rparr>, [])" for cv m ss
    by (induction ss arbitrary: cv m) simp_all
  show ?thesis
    using assms by (cases cv) (auto simp: im_types im_takes_append mid)
qed

end
