(* ===== verification/Membership.thy ===== *)
theory Membership
  imports Service_Heap
begin

text \<open>
  Who is in which list. The awareness service keeps two tables of things that lists of the client
  share: the users of the lists, and the attributes they watch. Both have the same
  shape, of which this theory has the invariant and the changes: a table \<open>t\<close> from keys to
  addresses, the things \<open>E\<close> at these addresses with their key and the lists they are members
  of, and the rows \<open>R\<close> of each list.
\<close>

type_synonym 'k things = "addr \<Rightarrow> ('k \<times> addr list) option"
type_synonym 'k rows = "addr \<Rightarrow> ('k \<times> addr) list option"

text \<open>
  The table has every thing under its own key; a thing has the lists, once each, that have it
  in their rows; rows have one thing for each key.
\<close>

definition member_ok :: "('k \<times> addr) list \<Rightarrow> 'k things \<Rightarrow> 'k rows \<Rightarrow> bool" where
  "member_ok t E R \<longleftrightarrow> distinct (map fst t)
     \<and> (\<forall>k e. (k, e) \<in> set t \<longleftrightarrow> (\<exists>m. E e = Some (k, m)))
     \<and> (\<forall>e k m. E e = Some (k, m) \<longrightarrow> distinct m \<and> (\<forall>L. L \<in> set m \<longleftrightarrow> (\<exists>rows. R L = Some rows \<and> (k, e) \<in> set rows)))
     \<and> (\<forall>L rows. R L = Some rows \<longrightarrow> distinct (map fst rows) \<and> (\<forall>(k, e) \<in> set rows. \<exists>m. E e = Some (k, m)))"

lemma member_okD:
  assumes "member_ok t E R"
  shows "distinct (map fst t)" "(k, e) \<in> set t \<longleftrightarrow> (\<exists>m. E e = Some (k, m))"
    "E e = Some (k, m) \<Longrightarrow> distinct m" "E e = Some (k, m) \<Longrightarrow> L \<in> set m \<longleftrightarrow> (\<exists>rows. R L = Some rows \<and> (k, e) \<in> set rows)"
    "R L = Some rows \<Longrightarrow> distinct (map fst rows)" "R L = Some rows \<Longrightarrow> (k, e) \<in> set rows \<Longrightarrow> \<exists>m. E e = Some (k, m)"
  using assms unfolding member_ok_def by fastforce+

lemma member_ok_find:
  assumes "member_ok t E R"
  shows "map_of t k = Some e \<longleftrightarrow> (\<exists>m. E e = Some (k, m))" "R L = Some rows \<Longrightarrow> map_of rows k = Some e \<longleftrightarrow> (k, e) \<in> set rows"
  using member_okD [OF assms] by (metis map_of_eq_Some_iff)+

lemma member_ok_empty: "member_ok [] (\<lambda>_. None) (\<lambda>_. None)"
  by (simp add: member_ok_def)

lemma member_ok_new_list:
  "member_ok t E R \<Longrightarrow> R L = None \<Longrightarrow> member_ok t E (R(L \<mapsto> []))"
  unfolding member_ok_def by (auto split: if_splits; fastforce)

lemma member_ok_free_list:
  "member_ok t E R \<Longrightarrow> R L = Some [] \<Longrightarrow> member_ok t E (R(L := None))"
  unfolding member_ok_def by (auto split: if_splits; fastforce)

lemma set_update_row:
  "distinct (map fst al) \<Longrightarrow> k \<notin> fst ` set al \<Longrightarrow> set (AList.update k v al) = insert (k, v) (set al)"
  by (induction al) auto

lemma set_delete_row:
  "distinct (map fst al) \<Longrightarrow> set (AList.delete k al) = {x \<in> set al. fst x \<noteq> k}"
  by (induction al) auto

text \<open>A list takes a thing: one that is there, or a new one.\<close>

lemma member_ok_join:
  assumes "member_ok t E R" and "E e = Some (k, m)" and "R L = Some rows" and "k \<notin> fst ` set rows"
    and "distinct m'" and "set m' = insert L (set m)"
  shows "member_ok t (E(e \<mapsto> (k, m'))) (R(L \<mapsto> AList.update k e rows))"
proof -
  note D = member_okD [OF assms(1)]
  have rows: "set (AList.update k e rows) = insert (k, e) (set rows)"
    using set_update_row [of rows k e] D(5) [OF assms(3)] assms(4) by blast
  have dis: "distinct (map fst (AList.update k e rows))"
    using D(5) [OF assms(3)] by (rule distinct_update)
  show ?thesis
    unfolding member_ok_def
  proof (intro conjI allI impI)
    show "(k', e') \<in> set t \<longleftrightarrow> (\<exists>n. (E(e \<mapsto> (k, m'))) e' = Some (k', n))" for k' e'
      using D(2) [of k' e'] assms(2) by auto
    show "distinct n" if "(E(e \<mapsto> (k, m'))) e' = Some (k', n)" for e' k' n
      using that D(3) assms(5) by (auto split: if_splits)
    show "L' \<in> set n \<longleftrightarrow> (\<exists>r. (R(L \<mapsto> AList.update k e rows)) L' = Some r \<and> (k', e') \<in> set r)"
      if "(E(e \<mapsto> (k, m'))) e' = Some (k', n)" for e' k' n L'
    proof (cases "e' = e")
      case True
      with that have "k' = k" "n = m'" by auto
      then show ?thesis using D(4) [OF assms(2), of L'] assms(3,6) True by (auto simp: rows)
    next
      case False
      with that have "E e' = Some (k', n)" by simp
      from D(4) [OF this, of L'] assms(3) False show ?thesis by (auto simp: rows)
    qed
    show "distinct (map fst r)" if "(R(L \<mapsto> AList.update k e rows)) L' = Some r" for L' r
      using that D(5) dis by (auto split: if_splits)
    show "\<forall>(k', e') \<in> set r. \<exists>n. (E(e \<mapsto> (k, m'))) e' = Some (k', n)"
      if "(R(L \<mapsto> AList.update k e rows)) L' = Some r" for L' r
    proof -
      have "(k', e') \<in> set r \<Longrightarrow> \<exists>n. E e' = Some (k', n)" for k' e'
        using that D(6) [of L' r k' e'] D(6) [OF assms(3), of k' e'] assms(2) rows by (auto split: if_splits)
      with assms(2) show ?thesis by fastforce
    qed
  qed (rule D(1))
qed

lemma member_ok_add:
  assumes "member_ok t E R" and "E e = None" and "map_of t k = None"
  shows "member_ok (AList.update k e t) (E(e \<mapsto> (k, []))) R"
proof -
  note D = member_okD [OF assms(1)]
  have t: "set (AList.update k e t) = insert (k, e) (set t)"
    using set_update_row [of t k e] D(1) assms(3) by (simp add: map_of_eq_None_iff)
  have no: "(k', e) \<notin> set rows" if "R L = Some rows" for L rows k'
    using D(6) [OF that] assms(2) by fastforce
  show ?thesis
    unfolding member_ok_def
  proof (intro conjI allI impI)
    show "distinct (map fst (AList.update k e t))" using D(1) by (rule distinct_update)
    show "(k', e') \<in> set (AList.update k e t) \<longleftrightarrow> (\<exists>n. (E(e \<mapsto> (k, []))) e' = Some (k', n))" for k' e'
      using D(2) [of k' e'] assms(2) t by auto
    show "distinct n" if "(E(e \<mapsto> (k, []))) e' = Some (k', n)" for e' k' n
      using that D(3) by (auto split: if_splits)
    show "L' \<in> set n \<longleftrightarrow> (\<exists>r. R L' = Some r \<and> (k', e') \<in> set r)" if "(E(e \<mapsto> (k, []))) e' = Some (k', n)" for e' k' n L'
      using that D(4) [of e' k' n L'] no by (auto split: if_splits)
    show "distinct (map fst r)" if "R L' = Some r" for L' r
      using D(5) [OF that] .
    show "\<forall>(k', e') \<in> set r. \<exists>n. (E(e \<mapsto> (k, []))) e' = Some (k', n)" if "R L' = Some r" for L' r
      using D(6) [OF that] no [OF that] by (auto split: if_splits)
  qed
qed

text \<open>A list gives one thing up.\<close>

lemma member_ok_leave:
  assumes "member_ok t E R" and "E e = Some (k, m)" and "R L = Some rows" and "map_of rows k = Some e"
  shows "member_ok t (E(e \<mapsto> (k, remove1 L m))) (R(L \<mapsto> AList.delete k rows))"
proof -
  note D = member_okD [OF assms(1)]
  have rows: "set (AList.delete k rows) = {x \<in> set rows. fst x \<noteq> k}"
    using set_delete_row [of rows k] D(5) [OF assms(3)] by blast
  have only: "(k, e') \<in> set rows \<Longrightarrow> e' = e" for e'
    using member_ok_find(2) [OF assms(1,3)] assms(4) by (metis option.inject)
  have other: "(k', e) \<in> set r \<Longrightarrow> k' = k" if "R L' = Some r" for L' r k'
    using D(6) [OF that] assms(2) by fastforce
  show ?thesis
    unfolding member_ok_def
  proof (intro conjI allI impI)
    show "(k', e') \<in> set t \<longleftrightarrow> (\<exists>n. (E(e \<mapsto> (k, remove1 L m))) e' = Some (k', n))" for k' e'
      using D(2) [of k' e'] assms(2) by auto
    show "distinct n" if "(E(e \<mapsto> (k, remove1 L m))) e' = Some (k', n)" for e' k' n
      using that D(3) assms(2) by (auto split: if_splits)
    show "L' \<in> set n \<longleftrightarrow> (\<exists>r. (R(L \<mapsto> AList.delete k rows)) L' = Some r \<and> (k', e') \<in> set r)"
      if "(E(e \<mapsto> (k, remove1 L m))) e' = Some (k', n)" for e' k' n L'
    proof (cases "e' = e")
      case True
      with that have n: "k' = k" "n = remove1 L m" by auto
      show ?thesis
        using D(3) [OF assms(2)] D(4) [OF assms(2), of L'] assms(3) by (auto simp: n True rows)
    next
      case False
      with that have E: "E e' = Some (k', n)" by simp
      have "k' \<noteq> k" if "(k', e') \<in> set rows" using that only False by blast
      then show ?thesis
        using D(4) [OF E, of L'] assms(3) by (auto simp: rows)
    qed
    show "distinct (map fst r)" if "(R(L \<mapsto> AList.delete k rows)) L' = Some r" for L' r
      using that D(5) distinct_delete [OF D(5) [OF assms(3)], of k] by (auto split: if_splits)
    show "\<forall>(k', e') \<in> set r. \<exists>n. (E(e \<mapsto> (k, remove1 L m))) e' = Some (k', n)"
      if "(R(L \<mapsto> AList.delete k rows)) L' = Some r" for L' r
    proof -
      have "set r \<subseteq> set (the (R L'))" "R L' \<noteq> None"
        using that assms(3) rows by (auto split: if_splits)
      then show ?thesis
        using D(6) [of L' "the (R L')"] other [of L' "the (R L')"] by fastforce
    qed
  qed (rule D(1))
qed

text \<open>A list gives everything up.\<close>

fun drop_rows :: "addr \<Rightarrow> ('k \<times> addr) list \<Rightarrow> 'k things \<Rightarrow> 'k things" where
  "drop_rows L [] E = E"
| "drop_rows L ((k, e) # rows) E = drop_rows L rows (E(e := map_option (\<lambda>(k, m). (k, remove1 L m)) (E e)))"

lemma member_ok_drop:
  "member_ok t E R \<Longrightarrow> R L = Some rows \<Longrightarrow> member_ok t (drop_rows L rows E) (R(L \<mapsto> []))"
proof (induction rows arbitrary: E R)
  case Nil
  then show ?case by (simp add: map_upd_triv)
next
  case (Cons x rows)
  obtain k e where x: "x = (k, e)" by fastforce
  obtain m where m: "E e = Some (k, m)"
    using member_okD(6) [OF Cons.prems, of k e] by (auto simp: x)
  have "k \<notin> fst ` set rows"
    using member_okD(5) [OF Cons.prems] by (simp add: x)
  then have rows: "AList.delete k (x # rows) = rows"
    by (simp add: x delete_id)
  have "member_ok t (E(e \<mapsto> (k, remove1 L m))) (R(L \<mapsto> rows))"
    using member_ok_leave [OF Cons.prems(1) m Cons.prems(2)] rows by (simp add: x)
  from Cons.IH [OF this fun_upd_same] show ?case
    by (simp only: x drop_rows.simps m option.map prod.case fun_upd_upd)
qed

text \<open>Things that nobody has are dropped.\<close>

lemma member_ok_dead:
  assumes "member_ok t E R" and "\<And>k e. (k, e) \<in> set dead \<Longrightarrow> E e = Some (k, [])"
  shows "member_ok (filter (\<lambda>(k, e). (k, e) \<notin> set dead) t) (\<lambda>e. if e \<in> snd ` set dead then None else E e) R"
proof -
  note D = member_okD [OF assms(1)]
  have gone: "e \<in> snd ` set dead \<longleftrightarrow> (k, e) \<in> set dead" if "E e = Some (k, m)" for k e m
    using assms(2) that by force
  have free: "e \<notin> snd ` set dead" if "R L = Some rows" "(k, e) \<in> set rows" for L rows k e
  proof
    assume "e \<in> snd ` set dead"
    then obtain k' where k': "(k', e) \<in> set dead" by force
    from assms(2) [OF k'] D(6) [OF that] have e: "E e = Some (k, [])" by auto
    from D(4) [OF e, of L] that show False by auto
  qed
  show ?thesis
    unfolding member_ok_def
  proof (intro conjI allI impI)
    show "distinct (map fst (filter (\<lambda>(k, e). (k, e) \<notin> set dead) t))"
      using D(1) by (rule distinct_map_filter)
    show "(k, e) \<in> set (filter (\<lambda>(k, e). (k, e) \<notin> set dead) t)
        \<longleftrightarrow> (\<exists>m. (if e \<in> snd ` set dead then None else E e) = Some (k, m))" for k e
      using D(2) [of k e] gone [of e k] by auto
    show "distinct m" if "(if e \<in> snd ` set dead then None else E e) = Some (k, m)" for e k m
      using that D(3) by (auto split: if_splits)
    show "L \<in> set m \<longleftrightarrow> (\<exists>rows. R L = Some rows \<and> (k, e) \<in> set rows)"
      if "(if e \<in> snd ` set dead then None else E e) = Some (k, m)" for e k m L
      using that D(4) by (metis option.distinct(1))
    show "distinct (map fst rows)" if "R L = Some rows" for L rows
      using D(5) [OF that] .
    show "\<forall>(k, e) \<in> set rows. \<exists>m. (if e \<in> snd ` set dead then None else E e) = Some (k, m)" if "R L = Some rows" for L rows
      using D(6) [OF that] free [OF that] by fastforce
  qed
qed

end
