(* ===== verification/Srvc_Aware.thy ===== *)
theory Srvc_Aware
  imports Membership
begin

text \<open>
  The awareness service, \<^verbatim>\<open>src/src/srvc_aware.c\<close>: the client keeps lists of users (and
  groups) whose presence it wants to know; the service merges the lists into one table of entries, of
  which the server is told, and passes what the server reports to the lists that have the entry.
  Attributes of users are watched in the same way.

  Entries, watched attributes and lists live in one heap each, since the tables of the service
  and those of its lists share them. The table of a list is missing (\<open>NULL\<close>) at first, and
  \<open>mwAwareList_removeAllAware\<close> and \<open>mwAwareList_unwatchAllAttributes\<close> destroy it
  without resetting the pointer: following that pointer is a fault. The functions of
  the client are an argument, by the number of the handler of a list; the order in which GLib visits
  a table is that of the environment and of \<open>ac_order\<close>.
\<close>

section \<open>State\<close>

definition mwService_AWARE :: guint32 where "mwService_AWARE = 0x00000011"
definition AWARE_PROTOCOL_TYPE :: guint32 where "AWARE_PROTOCOL_TYPE = 0x00000011"
definition AWARE_PROTOCOL_VER :: guint32 where "AWARE_PROTOCOL_VER = 0x00030005"
definition msg_AWARE_ADD :: guint32 where "msg_AWARE_ADD = 0x0068"
definition msg_AWARE_REMOVE :: guint32 where "msg_AWARE_REMOVE = 0x0069"
definition msg_OPT_DO_SET :: guint32 where "msg_OPT_DO_SET = 0x00c9"
definition msg_OPT_DO_UNSET :: guint32 where "msg_OPT_DO_UNSET = 0x00ca"
definition msg_OPT_WATCH :: guint32 where "msg_OPT_WATCH = 0x00cb"
definition msg_AWARE_SNAPSHOT :: guint32 where "msg_AWARE_SNAPSHOT = 0x01f4"
definition msg_AWARE_UPDATE :: guint32 where "msg_AWARE_UPDATE = 0x01f5"
definition msg_AWARE_GROUP :: guint32 where "msg_AWARE_GROUP = 0x01f6"
definition msg_OPT_GOT_SET :: guint32 where "msg_OPT_GOT_SET = 0x0259"
definition msg_OPT_GOT_UNSET :: guint32 where "msg_OPT_GOT_UNSET = 0x025a"
definition mwAware_GROUP :: guint16 where "mwAware_GROUP = 0x0003"

record mwAwareAttribute =
  aa_key :: guint32
  aa_data :: mwOpaque

record attrib_entry =
  at_key :: guint32
  at_membership :: "addr list"

record aware_entry =
  ae_aware :: mwAwareSnapshot
  ae_membership :: "addr list"
  ae_attribs :: "(guint32 \<times> mwAwareAttribute) list"

datatype 'k table = No_table | Table "('k \<times> addr) list" | Freed_table

record mwAwareList =
  al_entries :: "mwAwareIdBlock table"
  al_attribs :: "guint32 table"
  al_handler :: "nat option"

record mwServiceAware =
  aw_entries :: "(mwAwareIdBlock \<times> addr) list option"
  aw_attribs :: "(guint32 \<times> addr) list option"
  aw_lists :: "addr list"
  aw_channel :: "guint32 option"
  aw_eobjs :: "aware_entry heap"
  aw_aobjs :: "attrib_entry heap"
  aw_lobjs :: "mwAwareList heap"

record 'c mwAwareListHandler =
  alh_on_aware :: "(addr \<Rightarrow> mwAwareSnapshot \<Rightarrow> ('c, unit) M) option"
  alh_on_attrib :: "(addr \<Rightarrow> mwAwareIdBlock \<Rightarrow> mwAwareAttribute \<Rightarrow> ('c, unit) M) option"
  alh_clear :: "(addr \<Rightarrow> ('c, unit) M) option"

record 'c aware_code =
  ac_handler :: "nat \<Rightarrow> 'c mwAwareListHandler"
  ac_order :: "mwAwareIdBlock list \<Rightarrow> mwAwareIdBlock list"

type_synonym 'c aware_slot = "('c, mwServiceAware) slot"

definition aware_entry_zero :: aware_entry where
  "aware_entry_zero = \<lparr>ae_aware = mwAwareSnapshot_zero, ae_membership = [], ae_attribs = []\<rparr>"

definition attrib_entry_zero :: attrib_entry where
  "attrib_entry_zero = \<lparr>at_key = 0, at_membership = []\<rparr>"

definition mwAwareList_zero :: mwAwareList where
  "mwAwareList_zero = \<lparr>al_entries = No_table, al_attribs = No_table, al_handler = None\<rparr>"

definition aw_eheap :: "'c aware_slot \<Rightarrow> ('c, aware_entry heap) slot" where
  "aw_eheap sl = part sl aw_eobjs aw_eobjs_update"

definition aw_aheap :: "'c aware_slot \<Rightarrow> ('c, attrib_entry heap) slot" where
  "aw_aheap sl = part sl aw_aobjs aw_aobjs_update"

definition aw_lheap :: "'c aware_slot \<Rightarrow> ('c, mwAwareList heap) slot" where
  "aw_lheap sl = part sl aw_lobjs aw_lobjs_update"

definition ent_deref :: "'c aware_slot \<Rightarrow> addr \<Rightarrow> ('c, aware_entry) M" where
  "ent_deref sl = heap_deref (aw_eheap sl) aware_entry_zero"

definition ent_update :: "'c aware_slot \<Rightarrow> addr \<Rightarrow> (aware_entry \<Rightarrow> aware_entry) \<Rightarrow> ('c, unit) M" where
  "ent_update sl = heap_update (aw_eheap sl)"

definition att_deref :: "'c aware_slot \<Rightarrow> addr \<Rightarrow> ('c, attrib_entry) M" where
  "att_deref sl = heap_deref (aw_aheap sl) attrib_entry_zero"

definition att_update :: "'c aware_slot \<Rightarrow> addr \<Rightarrow> (attrib_entry \<Rightarrow> attrib_entry) \<Rightarrow> ('c, unit) M" where
  "att_update sl = heap_update (aw_aheap sl)"

definition list_deref :: "'c aware_slot \<Rightarrow> addr \<Rightarrow> ('c, mwAwareList) M" where
  "list_deref sl = heap_deref (aw_lheap sl) mwAwareList_zero"

definition list_update_at :: "'c aware_slot \<Rightarrow> addr \<Rightarrow> (mwAwareList \<Rightarrow> mwAwareList) \<Rightarrow> ('c, unit) M" where
  "list_update_at sl = heap_update (aw_lheap sl)"

text \<open>The contents of the table of a list, behind whatever its pointer is.\<close>

fun table_rows :: "'k table \<Rightarrow> ('k \<times> addr) list" where
  "table_rows (Table t) = t"
| "table_rows _ = []"

text \<open>A table that is not \<open>NULL\<close> is followed.\<close>

definition table_deref :: "'k table \<Rightarrow> ('c, ('k \<times> addr) list) M" where
  "table_deref t = (case t of Freed_table \<Rightarrow> do { fault; State_Monad.return [] } | _ \<Rightarrow> State_Monad.return (table_rows t))"

text \<open>
  The walk along a \<open>GList\<close> whose elements are distinct, where the body may change the
  list: the link of the current element has to be there when the walk goes on.
\<close>

definition walk :: "('c mwSession \<Rightarrow> 'a list option) \<Rightarrow> ('a \<Rightarrow> ('c, unit) M) \<Rightarrow> ('c, unit) M" where
  "walk get f = State (\<lambda>s. case while_option (\<lambda>(l, s). l \<noteq> [])
       (\<lambda>(l, s). let t = exec_state (f (hd l)) s in case get t of
          None \<Rightarrow> ([], t\<lparr>ss_fault := True\<rparr>)
        | Some l' \<Rightarrow> if hd l \<in> set l' then (tl (dropWhile (\<lambda>x. x \<noteq> hd l) l'), t) else ([], t\<lparr>ss_fault := True\<rparr>))
       (case get s of None \<Rightarrow> [] | Some l \<Rightarrow> l, s) of
     Some (_, t) \<Rightarrow> ((), t) | None \<Rightarrow> ((), s\<lparr>ss_fault := True\<rparr>))"

definition membership_of :: "'c aware_slot \<Rightarrow> addr \<Rightarrow> 'c mwSession \<Rightarrow> addr list option" where
  "membership_of sl e s = map_option ae_membership (heap_at (aw_eobjs (srvc_of sl s)) e)"

section \<open>Entries\<close>

definition aware_find :: "'c aware_slot \<Rightarrow> mwAwareIdBlock \<Rightarrow> ('c, addr option) M" where
  "aware_find sl srch = srvc_get sl (\<lambda>aw. case aw_entries aw of None \<Rightarrow> None | Some t \<Rightarrow> map_of t srch)"

definition list_aware_find :: "'c aware_slot \<Rightarrow> addr \<Rightarrow> mwAwareIdBlock \<Rightarrow> ('c, addr option) M" where
  "list_aware_find sl list srch = do {
     al \<leftarrow> list_deref sl list;
     t \<leftarrow> table_deref (al_entries al);
     State_Monad.return (map_of t srch)
   }"

fun put_ids :: "mwAwareIdBlock list \<Rightarrow> (mwPutBuffer, unit) state" where
  "put_ids [] = State_Monad.return ()"
| "put_ids (i # is) = do { mwAwareIdBlock_put i; put_ids is }"

definition compose_list :: "mwAwareIdBlock list \<Rightarrow> (mwPutBuffer, unit) state" where
  "compose_list id_list = do { guint32_put (of_nat (length id_list)); put_ids id_list }"

definition send_add :: "'c env \<Rightarrow> guint32 option \<Rightarrow> mwAwareIdBlock list \<Rightarrow> ('c, gint) M" where
  "send_add env chan id_list = (case chan of
     None \<Rightarrow> State_Monad.return 0
   | Some chan \<Rightarrow> mwChannel_send env chan msg_AWARE_ADD (put_opaque (compose_list id_list)))"

definition send_rem :: "'c env \<Rightarrow> guint32 option \<Rightarrow> mwAwareIdBlock list \<Rightarrow> ('c, gint) M" where
  "send_rem env chan id_list = (case chan of
     None \<Rightarrow> State_Monad.return 0
   | Some chan \<Rightarrow> mwChannel_send env chan msg_AWARE_REMOVE (put_opaque (compose_list id_list)))"

definition aware_live :: "('c, bool) M" where
  "aware_live = do { st \<leftarrow> mwService_getState mwService_AWARE; State_Monad.return (MW_SERVICE_IS_LIVE st) }"

text \<open>
  The entries that no list has any more leave the table; what \<open>g_hash_table_foreach_steal\<close> visits
  and \<open>collect_dead\<close> takes. Every entry of the table is in the heap (\<open>aware_ok\<close> below).
\<close>

definition dead_entries :: "'c aware_code \<Rightarrow> mwServiceAware \<Rightarrow> (mwAwareIdBlock \<times> addr) list" where
  "dead_entries code aw = (case aw_entries aw of None \<Rightarrow> []
   | Some t \<Rightarrow> List.map_filter (\<lambda>i. case map_of t i of None \<Rightarrow> None | Some e \<Rightarrow>
       (case heap_at (aw_eobjs aw) e of None \<Rightarrow> None | Some ae \<Rightarrow> if ae_membership ae = [] then Some (i, e) else None))
       (ac_order code (map fst t)))"

definition remove_unused :: "'c env \<Rightarrow> 'c aware_slot \<Rightarrow> 'c aware_code \<Rightarrow> ('c, gint) M" where
  "remove_unused env sl code = do {
     dead \<leftarrow> srvc_get sl (dead_entries code);
     srvc_modify sl (\<lambda>aw. aw\<lparr>aw_entries := map_option (filter (\<lambda>(i, e). (i, e) \<notin> set dead)) (aw_entries aw)\<rparr>);
     if dead = [] then State_Monad.return 0
     else do {
       live \<leftarrow> aware_live;
       ret \<leftarrow> (if live then do {
           chan \<leftarrow> srvc_get sl aw_channel;
           ret \<leftarrow> send_rem env chan (map fst dead);
           State_Monad.return (if ret \<noteq> 0 then 1 else 0)
         } else State_Monad.return 0);
       for_each (\<lambda>(i, e). heap_free (aw_eheap sl) e) dead;
       State_Monad.return ret
     }
   }"

fun put_keys :: "guint32 list \<Rightarrow> (mwPutBuffer, unit) state" where
  "put_keys [] = State_Monad.return ()"
| "put_keys (k # ks) = do { guint32_put k; put_keys ks }"

definition send_attrib_list :: "'c env \<Rightarrow> 'c aware_slot \<Rightarrow> ('c, gint) M" where
  "send_attrib_list env sl = do {
     chan \<leftarrow> srvc_get sl aw_channel;
     keys \<leftarrow> srvc_get sl (\<lambda>aw. case aw_attribs aw of None \<Rightarrow> [] | Some t \<Rightarrow> e_order env (map fst t));
     case chan of
       None \<Rightarrow> State_Monad.return 0
     | Some chan \<Rightarrow> mwChannel_send env chan msg_OPT_WATCH (put_opaque (do {
         guint32_put 0;
         guint32_put (of_nat (length keys));
         put_keys keys
       }))
   }"

definition dead_attribs :: "'c env \<Rightarrow> mwServiceAware \<Rightarrow> (guint32 \<times> addr) list" where
  "dead_attribs env aw = (case aw_attribs aw of None \<Rightarrow> []
   | Some t \<Rightarrow> List.map_filter (\<lambda>k. case map_of t k of None \<Rightarrow> None | Some a \<Rightarrow>
       (case heap_at (aw_aobjs aw) a of None \<Rightarrow> None | Some at \<Rightarrow> if at_membership at = [] then Some (k, a) else None))
       (e_order env (map fst t)))"

definition remove_unused_attrib :: "'c env \<Rightarrow> 'c aware_slot \<Rightarrow> ('c, gint) M" where
  "remove_unused_attrib env sl = do {
     dead \<leftarrow> srvc_get sl (dead_attribs env);
     srvc_modify sl (\<lambda>aw. aw\<lparr>aw_attribs := map_option (filter (\<lambda>(k, a). (k, a) \<notin> set dead)) (aw_attribs aw)\<rparr>);
     for_each (\<lambda>(k, a). heap_free (aw_aheap sl) a) dead;
     live \<leftarrow> aware_live;
     if live then send_attrib_list env sl else State_Monad.return 0
   }"

text \<open>The identities of all entries, as \<open>map_collect_values\<close> visits them.\<close>

definition all_ids :: "'c aware_code \<Rightarrow> mwServiceAware \<Rightarrow> mwAwareIdBlock list" where
  "all_ids code aw = (case aw_entries aw of None \<Rightarrow> [] | Some t \<Rightarrow>
     List.map_filter (\<lambda>i. case map_of t i of None \<Rightarrow> None
       | Some e \<Rightarrow> map_option (\<lambda>ae. sn_id (ae_aware ae)) (heap_at (aw_eobjs aw) e)) (ac_order code (map fst t)))"

definition aware_recv_accept ::
  "'c env \<Rightarrow> 'c aware_slot \<Rightarrow> 'c aware_code \<Rightarrow> guint32 \<Rightarrow> mwMsgChannelAccept \<Rightarrow> ('c, unit) M" where
  "aware_recv_accept env sl code chan msg = do {
     channel \<leftarrow> srvc_get sl aw_channel;
     if channel = None \<or> channel \<noteq> Some chan then State_Monad.return ()
     else do {
       st \<leftarrow> mwService_getState mwService_AWARE;
       if st = mwServiceState_STARTING then do {
         ids \<leftarrow> srvc_get sl (all_ids code);
         send_add env (Some chan) ids;
         send_attrib_list env sl;
         mwService_started mwService_AWARE
       } else do { mwChannel_destroy env chan ERR_FAILURE None; State_Monad.return () }
     }
   }"

definition aware_recv_destroy :: "'c env \<Rightarrow> 'c aware_slot \<Rightarrow> guint32 \<Rightarrow> mwMsgChannelDestroy \<Rightarrow> ('c, unit) M" where
  "aware_recv_destroy env sl chan msg = do {
     srvc_modify sl (\<lambda>aw. aw\<lparr>aw_channel := None\<rparr>);
     mwService_stop env mwService_AWARE
   }"

text \<open>The handler of a list, if it has one.\<close>

definition list_handler :: "'c aware_slot \<Rightarrow> 'c aware_code \<Rightarrow> addr \<Rightarrow> ('c, 'c mwAwareListHandler option) M" where
  "list_handler sl code list = do {
     al \<leftarrow> list_deref sl list;
     State_Monad.return (map_option (ac_handler code) (al_handler al))
   }"

definition status_recv :: "'c aware_slot \<Rightarrow> 'c aware_code \<Rightarrow> mwAwareSnapshot \<Rightarrow> ('c, unit) M" where
  "status_recv sl code idb = do {
     aware \<leftarrow> aware_find sl (sn_id idb);
     case aware of
       None \<Rightarrow> State_Monad.return ()
     | Some aware \<Rightarrow> do {
         ent_update sl aware (\<lambda>ae. ae\<lparr>ae_aware := mwAwareSnapshot_clone (mwAwareSnapshot_clear (ae_aware ae)) idb\<rparr>);
         walk (membership_of sl aware) (\<lambda>alist. do {
           handler \<leftarrow> list_handler sl code alist;
           optionally (Option.bind handler (\<lambda>h. map_option (\<lambda>on_aware. on_aware alist idb) (alh_on_aware h)))
         })
       }
   }"

definition attrib_recv :: "'c aware_slot \<Rightarrow> 'c aware_code \<Rightarrow> mwAwareIdBlock \<Rightarrow> mwAwareAttribute \<Rightarrow> ('c, unit) M" where
  "attrib_recv sl code idb attrib = do {
     aware \<leftarrow> aware_find sl idb;
     case aware of
       None \<Rightarrow> State_Monad.return ()
     | Some aware \<Rightarrow> do {
         let old = \<lparr>aa_key = aa_key attrib, aa_data = mwOpaque_clone (Some (aa_data attrib))\<rparr>;
         ent_update sl aware (\<lambda>ae. ae\<lparr>ae_attribs := AList.update (aa_key attrib) old (ae_attribs ae)\<rparr>);
         walk (membership_of sl aware) (\<lambda>list. do {
           handler \<leftarrow> list_handler sl code list;
           case Option.bind handler alh_on_attrib of
             None \<Rightarrow> State_Monad.return ()
           | Some on_attrib \<Rightarrow> do {
               al \<leftarrow> list_deref sl list;
               t \<leftarrow> table_deref (al_attribs al);
               if map_of t (aa_key attrib) = None then State_Monad.return () else on_attrib list idb old
             }
         })
       }
   }"

section \<open>Lists\<close>

definition list_add :: "'c aware_slot \<Rightarrow> addr \<Rightarrow> mwAwareIdBlock \<Rightarrow> ('c, bool) M" where
  "list_add sl list i =
     (if ab_user i = None \<or> ab_user i = Some [] then State_Monad.return False
      else do {
        al \<leftarrow> list_deref sl list;
        (if al_entries al = No_table then list_update_at sl list (\<lambda>al. al\<lparr>al_entries := Table []\<rparr>) else State_Monad.return ());
        aware \<leftarrow> list_aware_find sl list i;
        if aware \<noteq> None then State_Monad.return False
        else do {
          aware \<leftarrow> aware_find sl i;
          aware \<leftarrow> (case aware of
              Some aware \<Rightarrow> State_Monad.return aware
            | None \<Rightarrow> do {
                aware \<leftarrow> heap_new (aw_eheap sl) (aware_entry_zero\<lparr>ae_aware :=
                  mwAwareSnapshot_zero\<lparr>sn_id := mwAwareIdBlock_clone mwAwareIdBlock_zero i\<rparr>\<rparr>);
                srvc_modify sl (\<lambda>aw. aw\<lparr>aw_entries := map_option (AList.update i aware) (aw_entries aw)\<rparr>);
                State_Monad.return aware
              });
          ent_update sl aware (\<lambda>ae. ae\<lparr>ae_membership := ae_membership ae @ [list]\<rparr>);
          list_update_at sl list (\<lambda>al. al\<lparr>al_entries := Table (AList.update i aware (table_rows (al_entries al)))\<rparr>);
          State_Monad.return True
        }
      })"

fun list_add_all :: "'c aware_slot \<Rightarrow> addr \<Rightarrow> mwAwareIdBlock list \<Rightarrow> mwAwareIdBlock list \<Rightarrow> ('c, mwAwareIdBlock list) M" where
  "list_add_all sl list [] additions = State_Monad.return additions"
| "list_add_all sl list (i # ids) additions = do {
     added \<leftarrow> list_add sl list i;
     list_add_all sl list ids (if added then i # additions else additions)
   }"

definition mwAwareList_addAware :: "'c env \<Rightarrow> 'c aware_slot \<Rightarrow> addr \<Rightarrow> mwAwareIdBlock list \<Rightarrow> ('c, gint) M" where
  "mwAwareList_addAware env sl list id_list = do {
     additions \<leftarrow> list_add_all sl list id_list [];
     live \<leftarrow> aware_live;
     if live \<and> additions \<noteq> [] then do { chan \<leftarrow> srvc_get sl aw_channel; send_add env chan additions }
     else State_Monad.return 0
   }"

definition group_member_recv :: "'c env \<Rightarrow> 'c aware_slot \<Rightarrow> mwAwareSnapshot \<Rightarrow> ('c, unit) M" where
  "group_member_recv env sl idb = do {
     grp \<leftarrow> aware_find sl \<lparr>ab_type = mwAware_GROUP, ab_user = sn_group idb, ab_community = None\<rparr>;
     case grp of
       None \<Rightarrow> State_Monad.return ()
     | Some grp \<Rightarrow> walk (membership_of sl grp) (\<lambda>m. do { mwAwareList_addAware env sl m [sn_id idb]; State_Monad.return () })
   }"

section \<open>Messages of the server\<close>

text \<open>The local \<open>end_of_block\<close> of \<open>mwAwareSnapshot_get\<close> is uninitialised.\<close>

fun recv_snapshots ::
  "'c env \<Rightarrow> 'c aware_slot \<Rightarrow> 'c aware_code \<Rightarrow> guint32 \<Rightarrow> nat \<Rightarrow> mwGetBuffer \<Rightarrow> ('c, unit) M" where
  "recv_snapshots env sl code junk 0 b = State_Monad.return ()"
| "recv_snapshots env sl code junk (Suc count) b =
     (let (snap, b) = run_state (mwAwareSnapshot_get junk mwAwareSnapshot_zero) b
      in if gb_error b then State_Monad.return ()
         else do {
           (if sn_group snap \<noteq> None then group_member_recv env sl snap else State_Monad.return ());
           status_recv sl code snap;
           recv_snapshots env sl code junk count b
         })"

definition recv_SNAPSHOT :: "'c env \<Rightarrow> 'c aware_slot \<Rightarrow> 'c aware_code \<Rightarrow> mwGetBuffer \<Rightarrow> ('c, unit) M" where
  "recv_SNAPSHOT env sl code b = do {
     junk \<leftarrow> e_junk env;
     let (count, b) = run_state (guint32_get (jk_count junk)) b;
     recv_snapshots env sl code (jk_skip junk) (unat count) b
   }"

definition recv_UPDATE :: "'c env \<Rightarrow> 'c aware_slot \<Rightarrow> 'c aware_code \<Rightarrow> mwGetBuffer \<Rightarrow> ('c, unit) M" where
  "recv_UPDATE env sl code b = do {
     junk \<leftarrow> e_junk env;
     let (snap, b) = run_state (mwAwareSnapshot_get (jk_skip junk) mwAwareSnapshot_zero) b;
     (if sn_group snap \<noteq> None then group_member_recv env sl snap else State_Monad.return ());
     if gb_error b then State_Monad.return () else status_recv sl code snap
   }"

text \<open>
  The local \<open>idb\<close> of the next two is uninitialised, and \<open>mwAwareIdBlock_get\<close> leaves it alone
  when the buffer is in error: looking it up and clearing it then follows wild pointers.
  Other locals that may not be read have the values of the environment.
\<close>

definition recv_OPT_GOT_SET :: "'c env \<Rightarrow> 'c aware_slot \<Rightarrow> 'c aware_code \<Rightarrow> mwGetBuffer \<Rightarrow> ('c, unit) M" where
  "recv_OPT_GOT_SET env sl code b = do {
     j \<leftarrow> e_junk env;
     let b = exec_state (guint32_get 0) b;
     if gb_error b then fault
     else do {
       let (idb, b) = run_state (mwAwareIdBlock_get \<lparr>ab_type = jk_ack j, ab_user = None, ab_community = None\<rparr>) b;
       let ((check, key), b) = run_state (do {
             guint32_get 0;
             check \<leftarrow> guint32_get (jk_skip j);
             guint32_get 0;
             key \<leftarrow> guint32_get (jk_count j);
             State_Monad.return (check, key) }) b;
       let data = (if check \<noteq> 0 then eval_state mwOpaque_get b else \<lparr>op_len = 0, op_data = None\<rparr>);
       attrib_recv sl code idb \<lparr>aa_key = key, aa_data = data\<rparr>
     }
   }"

definition recv_OPT_GOT_UNSET :: "'c env \<Rightarrow> 'c aware_slot \<Rightarrow> 'c aware_code \<Rightarrow> mwGetBuffer \<Rightarrow> ('c, unit) M" where
  "recv_OPT_GOT_UNSET env sl code b = do {
     j \<leftarrow> e_junk env;
     let b = exec_state (guint32_get 0) b;
     if gb_error b then fault
     else do {
       let (idb, b) = run_state (mwAwareIdBlock_get \<lparr>ab_type = jk_ack j, ab_user = None, ab_community = None\<rparr>) b;
       let key = eval_state (guint32_get 0) b;
       attrib_recv sl code idb \<lparr>aa_key = key, aa_data = \<lparr>op_len = 0, op_data = None\<rparr>\<rparr>
     }
   }"

definition aware_recv ::
  "'c env \<Rightarrow> 'c aware_slot \<Rightarrow> 'c aware_code \<Rightarrow> guint32 \<Rightarrow> guint16 \<Rightarrow> mwOpaque \<Rightarrow> ('c, unit) M" where
  "aware_recv env sl code chan type data = do {
     channel \<leftarrow> srvc_get sl aw_channel;
     if channel \<noteq> Some chan then State_Monad.return ()
     else let b = mwGetBuffer_wrap (Some data); type = ucast type
          in if type = msg_AWARE_SNAPSHOT then recv_SNAPSHOT env sl code b
             else if type = msg_AWARE_UPDATE then recv_UPDATE env sl code b
             else if type = msg_OPT_GOT_SET then recv_OPT_GOT_SET env sl code b
             else if type = msg_OPT_GOT_UNSET then recv_OPT_GOT_UNSET env sl code b
             else State_Monad.return ()
   }"

section \<open>Operations on lists\<close>

definition mwAwareList_new :: "'c aware_slot \<Rightarrow> nat \<Rightarrow> ('c, addr) M" where
  "mwAwareList_new sl handler = do {
     al \<leftarrow> heap_new (aw_lheap sl) (mwAwareList_zero\<lparr>al_handler := Some handler\<rparr>);
     srvc_modify sl (\<lambda>aw. aw\<lparr>aw_lists := al # aw_lists aw\<rparr>);
     State_Monad.return al
   }"

definition mwAwareList_removeAware ::
  "'c env \<Rightarrow> 'c aware_slot \<Rightarrow> 'c aware_code \<Rightarrow> addr \<Rightarrow> mwAwareIdBlock list \<Rightarrow> ('c, gint) M" where
  "mwAwareList_removeAware env sl code list id_list = do {
     for_each (\<lambda>i. do {
       aware \<leftarrow> list_aware_find sl list i;
       case aware of
         None \<Rightarrow> State_Monad.return ()
       | Some aware \<Rightarrow> do {
           ent_update sl aware (\<lambda>ae. ae\<lparr>ae_membership := remove1 list (ae_membership ae)\<rparr>);
           list_update_at sl list (\<lambda>al. al\<lparr>al_entries := Table (AList.delete i (table_rows (al_entries al)))\<rparr>)
         }
     }) id_list;
     remove_unused env sl code
   }"

definition mwAwareList_removeAllAware :: "'c env \<Rightarrow> 'c aware_slot \<Rightarrow> 'c aware_code \<Rightarrow> addr \<Rightarrow> ('c, gint) M" where
  "mwAwareList_removeAllAware env sl code list = do {
     al \<leftarrow> list_deref sl list;
     (if al_entries al = No_table then State_Monad.return ()
      else do {
        t \<leftarrow> table_deref (al_entries al);
        for_each (\<lambda>(i, e). ent_update sl e (\<lambda>ae. ae\<lparr>ae_membership := remove1 list (ae_membership ae)\<rparr>)) t;
        list_update_at sl list (\<lambda>al. al\<lparr>al_entries := Freed_table\<rparr>)
      });
     remove_unused env sl code
   }"

definition watch_add :: "'c aware_slot \<Rightarrow> addr \<Rightarrow> guint32 \<Rightarrow> ('c, unit) M" where
  "watch_add sl list key = do {
     al \<leftarrow> list_deref sl list;
     (if al_attribs al = No_table then list_update_at sl list (\<lambda>al. al\<lparr>al_attribs := Table []\<rparr>) else State_Monad.return ());
     al \<leftarrow> list_deref sl list;
     t \<leftarrow> table_deref (al_attribs al);
     if map_of t key \<noteq> None then State_Monad.return ()
     else do {
       watch \<leftarrow> srvc_get sl (\<lambda>aw. case aw_attribs aw of None \<Rightarrow> None | Some t \<Rightarrow> map_of t key);
       watch \<leftarrow> (case watch of
           Some watch \<Rightarrow> State_Monad.return watch
         | None \<Rightarrow> do {
             watch \<leftarrow> heap_new (aw_aheap sl) (attrib_entry_zero\<lparr>at_key := key\<rparr>);
             srvc_modify sl (\<lambda>aw. aw\<lparr>aw_attribs := map_option (AList.update key watch) (aw_attribs aw)\<rparr>);
             State_Monad.return watch
           });
       list_update_at sl list (\<lambda>al. al\<lparr>al_attribs := Table (AList.update key watch (table_rows (al_attribs al)))\<rparr>);
       att_update sl watch (\<lambda>at. at\<lparr>at_membership := list # at_membership at\<rparr>)
     }
   }"

definition watch_remove :: "'c aware_slot \<Rightarrow> addr \<Rightarrow> guint32 \<Rightarrow> ('c, unit) M" where
  "watch_remove sl list key = do {
     al \<leftarrow> list_deref sl list;
     t \<leftarrow> table_deref (al_attribs al);
     case map_of t key of
       None \<Rightarrow> State_Monad.return ()
     | Some watch \<Rightarrow> do {
         list_update_at sl list (\<lambda>al. al\<lparr>al_attribs := Table (AList.delete key (table_rows (al_attribs al)))\<rparr>);
         att_update sl watch (\<lambda>at. at\<lparr>at_membership := remove1 list (at_membership at)\<rparr>)
       }
   }"

text \<open>
  The loops over an array of keys advance the pointer but never read the next key: with a first key
  that is not zero they do not end. Both call \<open>watch_add\<close>.
\<close>

definition watch_array :: "'c aware_slot \<Rightarrow> addr \<Rightarrow> guint32 \<Rightarrow> ('c, unit) M" where
  "watch_array sl list k = while_do (\<lambda>_. k \<noteq> 0) (watch_add sl list k)"

definition mwAwareList_watchAttributeArray :: "'c env \<Rightarrow> 'c aware_slot \<Rightarrow> addr \<Rightarrow> guint32 list option \<Rightarrow> ('c, gint) M" where
  "mwAwareList_watchAttributeArray env sl list keys = (case keys of
     None \<Rightarrow> State_Monad.return 0
   | Some keys \<Rightarrow> do { watch_array sl list (hd (keys @ [0])); send_attrib_list env sl })"

definition mwAwareList_unwatchAttributeArray :: "'c env \<Rightarrow> 'c aware_slot \<Rightarrow> addr \<Rightarrow> guint32 list option \<Rightarrow> ('c, gint) M" where
  "mwAwareList_unwatchAttributeArray env sl list keys = (case keys of
     None \<Rightarrow> State_Monad.return 0
   | Some keys \<Rightarrow> do { watch_array sl list (hd (keys @ [0])); remove_unused_attrib env sl })"

text \<open>The keys that are passed as arguments, up to the first zero.\<close>

definition mwAwareList_watchAttributes :: "'c env \<Rightarrow> 'c aware_slot \<Rightarrow> addr \<Rightarrow> guint32 list \<Rightarrow> ('c, gint) M" where
  "mwAwareList_watchAttributes env sl list keys = do {
     for_each (watch_add sl list) (takeWhile (\<lambda>k. k \<noteq> 0) keys);
     send_attrib_list env sl
   }"

definition mwAwareList_unwatchAttributes :: "'c env \<Rightarrow> 'c aware_slot \<Rightarrow> addr \<Rightarrow> guint32 list \<Rightarrow> ('c, gint) M" where
  "mwAwareList_unwatchAttributes env sl list keys = do {
     for_each (watch_remove sl list) (takeWhile (\<lambda>k. k \<noteq> 0) keys);
     remove_unused_attrib env sl
   }"

definition mwAwareList_unwatchAllAttributes :: "'c env \<Rightarrow> 'c aware_slot \<Rightarrow> addr \<Rightarrow> ('c, gint) M" where
  "mwAwareList_unwatchAllAttributes env sl list = do {
     al \<leftarrow> list_deref sl list;
     (if al_attribs al = No_table then State_Monad.return ()
      else do {
        t \<leftarrow> table_deref (al_attribs al);
        for_each (\<lambda>(k, a). att_update sl a (\<lambda>at. at\<lparr>at_membership := remove1 list (at_membership at)\<rparr>)) t;
        list_update_at sl list (\<lambda>al. al\<lparr>al_attribs := Freed_table\<rparr>)
      });
     remove_unused_attrib env sl
   }"

text \<open>
  The array with its final zero, and how far from its start the pointer is that is returned:
  \<open>collect_attrib_keys\<close> advances the very variable.
\<close>

definition mwAwareList_getWatchedAttributes :: "'c env \<Rightarrow> 'c aware_slot \<Rightarrow> addr \<Rightarrow> ('c, (guint32 list \<times> nat) option) M" where
  "mwAwareList_getWatchedAttributes env sl list = do {
     al \<leftarrow> list_deref sl list;
     if al_attribs al = No_table then State_Monad.return None
     else do {
       t \<leftarrow> table_deref (al_attribs al);
       State_Monad.return (Some (e_order env (map fst t) @ [0], length t))
     }
   }"

definition mwAwareList_free :: "'c env \<Rightarrow> 'c aware_slot \<Rightarrow> 'c aware_code \<Rightarrow> addr \<Rightarrow> ('c, unit) M" where
  "mwAwareList_free env sl code list = do {
     handler \<leftarrow> list_handler sl code list;
     srvc_modify sl (\<lambda>aw. aw\<lparr>aw_lists := removeAll list (aw_lists aw)\<rparr>);
     (case Option.bind handler alh_clear of
        None \<Rightarrow> State_Monad.return ()
      | Some clear \<Rightarrow> do {
          clear list;
          list_update_at sl list (\<lambda>al. al\<lparr>al_handler := None\<rparr>)
        });
     mwAwareList_unwatchAllAttributes env sl list;
     mwAwareList_removeAllAware env sl code list;
     heap_free (aw_lheap sl) list
   }"

section \<open>The service\<close>

definition aware_clear :: "'c env \<Rightarrow> 'c aware_slot \<Rightarrow> 'c aware_code \<Rightarrow> ('c, unit) M" where
  "aware_clear env sl code = do {
     while_do (\<lambda>s. aw_lists (srvc_of sl s) \<noteq> []) (do { l \<leftarrow> srvc_get sl aw_lists; mwAwareList_free env sl code (hd l) });
     t \<leftarrow> srvc_get sl aw_entries;
     for_each (\<lambda>(i, e). heap_free (aw_eheap sl) e) (case t of None \<Rightarrow> [] | Some t \<Rightarrow> t);
     srvc_modify sl (\<lambda>aw. aw\<lparr>aw_entries := None\<rparr>);
     t \<leftarrow> srvc_get sl aw_attribs;
     for_each (\<lambda>(k, a). heap_free (aw_aheap sl) a) (case t of None \<Rightarrow> [] | Some t \<Rightarrow> t);
     srvc_modify sl (\<lambda>aw. aw\<lparr>aw_attribs := None\<rparr>)
   }"

definition make_blist :: "'c env \<Rightarrow> ('c, guint32 option) M" where
  "make_blist env = make_service_channel env mwService_AWARE AWARE_PROTOCOL_TYPE AWARE_PROTOCOL_VER"

definition aware_start :: "'c env \<Rightarrow> 'c aware_slot \<Rightarrow> ('c, unit) M" where
  "aware_start env sl = do {
     chan \<leftarrow> make_blist env;
     case chan of
       None \<Rightarrow> mwService_stopped mwService_AWARE
     | Some _ \<Rightarrow> srvc_modify sl (\<lambda>aw. aw\<lparr>aw_channel := chan\<rparr>)
   }"

definition aware_stop :: "'c env \<Rightarrow> 'c aware_slot \<Rightarrow> ('c, unit) M" where
  "aware_stop env sl = do {
     chan \<leftarrow> srvc_get sl aw_channel;
     (case chan of
        None \<Rightarrow> State_Monad.return ()
      | Some chan \<Rightarrow> do {
          mwChannel_destroy env chan ERR_SUCCESS None;
          srvc_modify sl (\<lambda>aw. aw\<lparr>aw_channel := None\<rparr>)
        });
     mwService_stopped mwService_AWARE
   }"

definition mwServiceAware_new :: mwServiceAware where
  "mwServiceAware_new = \<lparr>aw_entries = Some [], aw_attribs = Some [], aw_lists = [], aw_channel = None,
     aw_eobjs = heap_empty, aw_aobjs = heap_empty, aw_lobjs = heap_empty\<rparr>"

definition aware_install_state :: "'c aware_slot \<Rightarrow> 'c env \<Rightarrow> 'c env" where
  "aware_install_state sl env = env\<lparr>e_start := (e_start env)(mwService_AWARE \<mapsto> aware_start env sl),
     e_stop := (e_stop env)(mwService_AWARE \<mapsto> aware_stop env sl)\<rparr>"

definition aware_install :: "'c aware_slot \<Rightarrow> 'c aware_code \<Rightarrow> 'c env \<Rightarrow> 'c env" where
  "aware_install sl code env0 =
     (let env = aware_install_state sl env0
      in env\<lparr>e_recv_accept := (e_recv_accept env)(mwService_AWARE \<mapsto> aware_recv_accept env sl code),
             e_recv_destroy := (e_recv_destroy env)(mwService_AWARE \<mapsto> aware_recv_destroy env sl),
             e_recv := (e_recv env)(mwService_AWARE \<mapsto> aware_recv env sl code)\<rparr>)"

section \<open>Attributes and status\<close>

definition attribute_payload :: "guint32 \<Rightarrow> mwOpaque \<Rightarrow> mwOpaque" where
  "attribute_payload key data = put_opaque (do {
     guint32_put 0;
     guint32_put (of_nat (op_len data));
     guint32_put 0;
     guint32_put key;
     mwOpaque_put (Some data)
   })"

definition mwServiceAware_setAttribute :: "'c env \<Rightarrow> 'c aware_slot \<Rightarrow> guint32 \<Rightarrow> mwOpaque \<Rightarrow> ('c, gint) M" where
  "mwServiceAware_setAttribute env sl key data = do {
     chan \<leftarrow> srvc_get sl aw_channel;
     srvc_send env chan msg_OPT_DO_SET (attribute_payload key data)
   }"

definition attribute_boolean :: "bool \<Rightarrow> mwOpaque" where
  "attribute_boolean val = put_opaque (do { gboolean_put False; gboolean_put val })"

definition attribute_integer :: "guint32 \<Rightarrow> mwOpaque" where
  "attribute_integer val = put_opaque (guint32_put val)"

definition attribute_string :: "cstr \<Rightarrow> mwOpaque" where
  "attribute_string str = put_opaque (mwString_put str)"

definition mwServiceAware_setAttributeBoolean :: "'c env \<Rightarrow> 'c aware_slot \<Rightarrow> guint32 \<Rightarrow> bool \<Rightarrow> ('c, gint) M" where
  "mwServiceAware_setAttributeBoolean env sl key val = mwServiceAware_setAttribute env sl key (attribute_boolean val)"

definition mwServiceAware_setAttributeInteger :: "'c env \<Rightarrow> 'c aware_slot \<Rightarrow> guint32 \<Rightarrow> guint32 \<Rightarrow> ('c, gint) M" where
  "mwServiceAware_setAttributeInteger env sl key val = mwServiceAware_setAttribute env sl key (attribute_integer val)"

definition mwServiceAware_setAttributeString :: "'c env \<Rightarrow> 'c aware_slot \<Rightarrow> guint32 \<Rightarrow> cstr \<Rightarrow> ('c, gint) M" where
  "mwServiceAware_setAttributeString env sl key str = mwServiceAware_setAttribute env sl key (attribute_string str)"

definition mwServiceAware_unsetAttribute :: "'c env \<Rightarrow> 'c aware_slot \<Rightarrow> guint32 \<Rightarrow> ('c, gint) M" where
  "mwServiceAware_unsetAttribute env sl key = do {
     chan \<leftarrow> srvc_get sl aw_channel;
     srvc_send env chan msg_OPT_DO_UNSET (put_opaque (do { guint32_put 0; guint32_put key }))
   }"

text \<open>The local \<open>ret\<close> is uninitialised, and stays so for an attribute without data.\<close>

definition mwAwareAttribute_asBoolean :: "bool \<Rightarrow> mwAwareAttribute option \<Rightarrow> bool" where
  "mwAwareAttribute_asBoolean junk attrib = (case attrib of None \<Rightarrow> False | Some attrib \<Rightarrow>
     let b = mwGetBuffer_wrap (Some (aa_data attrib)); len = op_len (aa_data attrib)
     in if 4 \<le> len then eval_state (guint32_get 0) b \<noteq> 0
        else if 2 \<le> len then eval_state (guint16_get 0) b \<noteq> 0
        else if len \<noteq> 0 then eval_state (gboolean_get junk) b
        else junk)"

definition mwAwareAttribute_asInteger :: "mwAwareAttribute option \<Rightarrow> guint32" where
  "mwAwareAttribute_asInteger attrib = (case attrib of None \<Rightarrow> 0 | Some attrib \<Rightarrow>
     let b = mwGetBuffer_wrap (Some (aa_data attrib)); len = op_len (aa_data attrib)
     in if 4 \<le> len then eval_state (guint32_get 0) b
        else if len = 3 then ucast (eval_state (do { gboolean_get False; guint16_get 0 }) b)
        else if len = 2 then ucast (eval_state (guint16_get 0) b)
        else if len \<noteq> 0 then of_bool (eval_state (gboolean_get False) b)
        else 0)"

definition mwAwareAttribute_asString :: "mwAwareAttribute option \<Rightarrow> cstr" where
  "mwAwareAttribute_asString attrib = (case attrib of None \<Rightarrow> None | Some attrib \<Rightarrow>
     eval_state mwString_get (mwGetBuffer_wrap (Some (aa_data attrib))))"

definition mwServiceAware_setStatus :: "'c aware_slot \<Rightarrow> 'c aware_code \<Rightarrow> mwAwareIdBlock \<Rightarrow> mwUserStatus \<Rightarrow> ('c, unit) M" where
  "mwServiceAware_setStatus sl code user stat = status_recv sl code \<lparr>sn_id = user, sn_group = None, sn_online = True,
     sn_alt_id = None, sn_status = stat, sn_name = None\<rparr>"

definition mwServiceAware_getAttribute :: "'c aware_slot \<Rightarrow> mwAwareIdBlock \<Rightarrow> guint32 \<Rightarrow> ('c, mwAwareAttribute option) M" where
  "mwServiceAware_getAttribute sl user key =
     (if key = 0 then State_Monad.return None
      else do {
        aware \<leftarrow> aware_find sl user;
        case aware of
          None \<Rightarrow> State_Monad.return None
        | Some aware \<Rightarrow> do { ae \<leftarrow> ent_deref sl aware; State_Monad.return (map_of (ae_attribs ae) key) }
      })"

definition mwServiceAware_getText :: "'c aware_slot \<Rightarrow> mwAwareIdBlock \<Rightarrow> ('c, cstr) M" where
  "mwServiceAware_getText sl user = do {
     aware \<leftarrow> aware_find sl user;
     case aware of
       None \<Rightarrow> State_Monad.return None
     | Some aware \<Rightarrow> do { ae \<leftarrow> ent_deref sl aware; State_Monad.return (us_desc (sn_status (ae_aware ae))) }
   }"

section \<open>What the service keeps\<close>

definition ent_things :: "mwServiceAware \<Rightarrow> mwAwareIdBlock things" where
  "ent_things aw e = map_option (\<lambda>ae. (sn_id (ae_aware ae), ae_membership ae)) (heap_at (aw_eobjs aw) e)"

definition ent_rows :: "mwServiceAware \<Rightarrow> mwAwareIdBlock rows" where
  "ent_rows aw L = map_option (\<lambda>al. table_rows (al_entries al)) (heap_at (aw_lobjs aw) L)"

definition att_things :: "mwServiceAware \<Rightarrow> guint32 things" where
  "att_things aw a = map_option (\<lambda>at. (at_key at, at_membership at)) (heap_at (aw_aobjs aw) a)"

definition att_rows :: "mwServiceAware \<Rightarrow> guint32 rows" where
  "att_rows aw L = map_option (\<lambda>al. table_rows (al_attribs al)) (heap_at (aw_lobjs aw) L)"

text \<open>
  In the middle of an operation: the lists of the service live, and both kinds of memberships
  are consistent. Between the operations nothing is in a table that no list has.
\<close>

definition aware_mid :: "mwServiceAware \<Rightarrow> bool" where
  "aware_mid aw \<longleftrightarrow> objs_ok (aw_eobjs aw) \<and> objs_ok (aw_aobjs aw) \<and> objs_ok (aw_lobjs aw)
     \<and> (case aw_entries aw of None \<Rightarrow> False | Some t \<Rightarrow> member_ok t (ent_things aw) (ent_rows aw))
     \<and> (case aw_attribs aw of None \<Rightarrow> False | Some t \<Rightarrow> member_ok t (att_things aw) (att_rows aw))"

definition lists_ok :: "mwServiceAware \<Rightarrow> bool" where
  "lists_ok aw \<longleftrightarrow> distinct (aw_lists aw) \<and> set (aw_lists aw) = heap_dom (aw_lobjs aw)"

definition ents_used :: "mwServiceAware \<Rightarrow> bool" where
  "ents_used aw \<longleftrightarrow> (\<forall>e k m. ent_things aw e = Some (k, m) \<longrightarrow> m \<noteq> [])"

definition atts_used :: "mwServiceAware \<Rightarrow> bool" where
  "atts_used aw \<longleftrightarrow> (\<forall>a k m. att_things aw a = Some (k, m) \<longrightarrow> m \<noteq> [])"

definition aware_ok :: "mwServiceAware \<Rightarrow> bool" where
  "aware_ok aw \<longleftrightarrow> aware_mid aw \<and> lists_ok aw \<and> ents_used aw \<and> atts_used aw"

lemma aware_ok_new: "aware_ok mwServiceAware_new"
  by (simp add: aware_ok_def aware_mid_def lists_ok_def ents_used_def atts_used_def mwServiceAware_new_def member_ok_def
      ent_things_def ent_rows_def att_things_def att_rows_def)

text \<open>Changes of the heaps as functions of the state.\<close>

definition aw_ent :: "addr \<Rightarrow> aware_entry \<Rightarrow> mwServiceAware \<Rightarrow> mwServiceAware" where
  "aw_ent e x aw = aw\<lparr>aw_eobjs := heap_set e x (aw_eobjs aw)\<rparr>"

definition aw_att :: "addr \<Rightarrow> attrib_entry \<Rightarrow> mwServiceAware \<Rightarrow> mwServiceAware" where
  "aw_att a x aw = aw\<lparr>aw_aobjs := heap_set a x (aw_aobjs aw)\<rparr>"

definition aw_lst :: "addr \<Rightarrow> mwAwareList \<Rightarrow> mwServiceAware \<Rightarrow> mwServiceAware" where
  "aw_lst L x aw = aw\<lparr>aw_lobjs := heap_set L x (aw_lobjs aw)\<rparr>"

lemma aw_changes [simp]:
  "aw_entries (aw_ent e x aw) = aw_entries aw" "aw_entries (aw_att a y aw) = aw_entries aw" "aw_entries (aw_lst L z aw) = aw_entries aw"
  "aw_attribs (aw_ent e x aw) = aw_attribs aw" "aw_attribs (aw_att a y aw) = aw_attribs aw" "aw_attribs (aw_lst L z aw) = aw_attribs aw"
  "aw_lists (aw_ent e x aw) = aw_lists aw" "aw_lists (aw_att a y aw) = aw_lists aw" "aw_lists (aw_lst L z aw) = aw_lists aw"
  "aw_channel (aw_ent e x aw) = aw_channel aw" "aw_channel (aw_att a y aw) = aw_channel aw" "aw_channel (aw_lst L z aw) = aw_channel aw"
  "aw_eobjs (aw_ent e x aw) = heap_set e x (aw_eobjs aw)" "aw_eobjs (aw_att a y aw) = aw_eobjs aw" "aw_eobjs (aw_lst L z aw) = aw_eobjs aw"
  "aw_aobjs (aw_ent e x aw) = aw_aobjs aw" "aw_aobjs (aw_att a y aw) = heap_set a y (aw_aobjs aw)" "aw_aobjs (aw_lst L z aw) = aw_aobjs aw"
  "aw_lobjs (aw_ent e x aw) = aw_lobjs aw" "aw_lobjs (aw_att a y aw) = aw_lobjs aw" "aw_lobjs (aw_lst L z aw) = heap_set L z (aw_lobjs aw)"
  by (simp_all add: aw_ent_def aw_att_def aw_lst_def)

lemma things_changes [simp]:
  "ent_things (aw_ent e x aw) = (ent_things aw)(e \<mapsto> (sn_id (ae_aware x), ae_membership x))"
  "ent_things (aw_att a y aw) = ent_things aw" "ent_things (aw_lst L z aw) = ent_things aw"
  "att_things (aw_att a y aw) = (att_things aw)(a \<mapsto> (at_key y, at_membership y))"
  "att_things (aw_ent e x aw) = att_things aw" "att_things (aw_lst L z aw) = att_things aw"
  "ent_rows (aw_lst L z aw) = (ent_rows aw)(L \<mapsto> table_rows (al_entries z))"
  "ent_rows (aw_ent e x aw) = ent_rows aw" "ent_rows (aw_att a y aw) = ent_rows aw"
  "att_rows (aw_lst L z aw) = (att_rows aw)(L \<mapsto> table_rows (al_attribs z))"
  "att_rows (aw_ent e x aw) = att_rows aw" "att_rows (aw_att a y aw) = att_rows aw"
  by (auto simp: ent_things_def att_things_def ent_rows_def att_rows_def)

lemma things_fields [simp]:
  "ent_things (aw\<lparr>aw_entries := t\<rparr>) = ent_things aw" "att_things (aw\<lparr>aw_entries := t\<rparr>) = att_things aw"
  "ent_rows (aw\<lparr>aw_entries := t\<rparr>) = ent_rows aw" "att_rows (aw\<lparr>aw_entries := t\<rparr>) = att_rows aw"
  "ent_things (aw\<lparr>aw_attribs := u\<rparr>) = ent_things aw" "att_things (aw\<lparr>aw_attribs := u\<rparr>) = att_things aw"
  "ent_rows (aw\<lparr>aw_attribs := u\<rparr>) = ent_rows aw" "att_rows (aw\<lparr>aw_attribs := u\<rparr>) = att_rows aw"
  "ent_things (aw\<lparr>aw_lists := l\<rparr>) = ent_things aw" "att_things (aw\<lparr>aw_lists := l\<rparr>) = att_things aw"
  "ent_rows (aw\<lparr>aw_lists := l\<rparr>) = ent_rows aw" "att_rows (aw\<lparr>aw_lists := l\<rparr>) = att_rows aw"
  "ent_things (aw\<lparr>aw_channel := c\<rparr>) = ent_things aw" "att_things (aw\<lparr>aw_channel := c\<rparr>) = att_things aw"
  "ent_rows (aw\<lparr>aw_channel := c\<rparr>) = ent_rows aw" "att_rows (aw\<lparr>aw_channel := c\<rparr>) = att_rows aw"
  by (auto simp: ent_things_def att_things_def ent_rows_def att_rows_def)

interpretation aw_eobjs: record_field aw_eobjs aw_eobjs_update by unfold_locales simp_all
interpretation aw_aobjs: record_field aw_aobjs aw_aobjs_update by unfold_locales simp_all
interpretation aw_lobjs: record_field aw_lobjs aw_lobjs_update by unfold_locales simp_all

lemma aware_midE:
  assumes "aware_mid aw"
  obtains t u where "aw_entries aw = Some t" "member_ok t (ent_things aw) (ent_rows aw)"
    "aw_attribs aw = Some u" "member_ok u (att_things aw) (att_rows aw)"
    "objs_ok (aw_eobjs aw)" "objs_ok (aw_aobjs aw)" "objs_ok (aw_lobjs aw)"
  using assms by (auto simp: aware_mid_def split: option.splits)

lemma aware_midI:
  assumes "aw_entries aw = Some t" and "member_ok t (ent_things aw) (ent_rows aw)"
    and "aw_attribs aw = Some u" and "member_ok u (att_things aw) (att_rows aw)"
    and "objs_ok (aw_eobjs aw)" and "objs_ok (aw_aobjs aw)" and "objs_ok (aw_lobjs aw)"
  shows "aware_mid aw"
  using assms by (simp add: aware_mid_def)

lemma things_at:
  "heap_at (aw_eobjs aw) e = Some ae \<Longrightarrow> ent_things aw e = Some (sn_id (ae_aware ae), ae_membership ae)"
  "heap_at (aw_aobjs aw) a = Some at \<Longrightarrow> att_things aw a = Some (at_key at, at_membership at)"
  "heap_at (aw_lobjs aw) L = Some al \<Longrightarrow> ent_rows aw L = Some (table_rows (al_entries al))"
  "heap_at (aw_lobjs aw) L = Some al \<Longrightarrow> att_rows aw L = Some (table_rows (al_attribs al))"
  by (simp_all add: ent_things_def att_things_def ent_rows_def att_rows_def)

text \<open>Changes of a list that leave its rows alone, and of an entry that leave its membership alone.\<close>

lemma mid_lst:
  assumes "aware_mid aw" and "heap_at (aw_lobjs aw) L = Some al"
    and "table_rows (al_entries al') = table_rows (al_entries al)" and "table_rows (al_attribs al') = table_rows (al_attribs al)"
  shows "aware_mid (aw_lst L al' aw)"
  using assms(1)
proof (rule aware_midE)
  fix t u
  assume A: "aw_entries aw = Some t" "member_ok t (ent_things aw) (ent_rows aw)"
    "aw_attribs aw = Some u" "member_ok u (att_things aw) (att_rows aw)"
    "objs_ok (aw_eobjs aw)" "objs_ok (aw_aobjs aw)" "objs_ok (aw_lobjs aw)"
  have "(ent_rows aw)(L \<mapsto> table_rows (al_entries al')) = ent_rows aw" "(att_rows aw)(L \<mapsto> table_rows (al_attribs al')) = att_rows aw"
    using things_at(3,4) [OF assms(2)] assms(3,4) by (auto simp: fun_eq_iff)
  with A objs_ok_set [OF _ assms(2)] show ?thesis by (intro aware_midI [of _ t u]) simp_all
qed

lemma mid_ent:
  assumes "aware_mid aw" and "heap_at (aw_eobjs aw) e = Some ae"
    and "sn_id (ae_aware ae') = sn_id (ae_aware ae)" and "ae_membership ae' = ae_membership ae"
  shows "aware_mid (aw_ent e ae' aw)"
  using assms(1)
proof (rule aware_midE)
  fix t u
  assume A: "aw_entries aw = Some t" "member_ok t (ent_things aw) (ent_rows aw)"
    "aw_attribs aw = Some u" "member_ok u (att_things aw) (att_rows aw)"
    "objs_ok (aw_eobjs aw)" "objs_ok (aw_aobjs aw)" "objs_ok (aw_lobjs aw)"
  have "(ent_things aw)(e \<mapsto> (sn_id (ae_aware ae'), ae_membership ae')) = ent_things aw"
    using things_at(1) [OF assms(2)] assms(3,4) by (auto simp: fun_eq_iff)
  with A objs_ok_set [OF _ assms(2)] show ?thesis by (intro aware_midI [of _ t u]) simp_all
qed

text \<open>A list takes an entry that the service has.\<close>

lemma mid_join:
  assumes "aware_mid aw" and "heap_at (aw_eobjs aw) e = Some ae" and "heap_at (aw_lobjs aw) L = Some al"
    and "map_of (table_rows (al_entries al)) (sn_id (ae_aware ae)) = None"
    and "sn_id (ae_aware ae') = sn_id (ae_aware ae)" and "ae_membership ae' = ae_membership ae @ [L]"
    and "table_rows (al_entries al') = AList.update (sn_id (ae_aware ae)) e (table_rows (al_entries al))"
    and "table_rows (al_attribs al') = table_rows (al_attribs al)"
  shows "aware_mid (aw_lst L al' (aw_ent e ae' aw))"
  using assms(1)
proof (rule aware_midE)
  fix t u
  assume A: "aw_entries aw = Some t" "member_ok t (ent_things aw) (ent_rows aw)"
    "aw_attribs aw = Some u" "member_ok u (att_things aw) (att_rows aw)"
    "objs_ok (aw_eobjs aw)" "objs_ok (aw_aobjs aw)" "objs_ok (aw_lobjs aw)"
  note at = things_at(1) [OF assms(2)] things_at(3,4) [OF assms(3)]
  note D = member_okD [OF A(2)]
  have k: "sn_id (ae_aware ae) \<notin> fst ` set (table_rows (al_entries al))"
    using assms(4) by (simp add: map_of_eq_None_iff)
  have L: "L \<notin> set (ae_membership ae)"
    using D(4) [OF at(1), of L] at(2) k by force
  have dis: "distinct (ae_membership ae @ [L])" using D(3) [OF at(1)] L by simp
  have "set (ae_membership ae @ [L]) = insert L (set (ae_membership ae))" by auto
  note ent = member_ok_join [OF A(2) at(1,2) k dis this]
  have "(att_rows aw)(L \<mapsto> table_rows (al_attribs al')) = att_rows aw"
    using at(3) assms(8) by (auto simp: fun_eq_iff)
  with A ent assms(5-8) objs_ok_set [OF _ assms(2)] objs_ok_set [OF _ assms(3)] show ?thesis
    by (intro aware_midI [of _ t u]) simp_all
qed

text \<open>A list gives an entry up.\<close>

lemma mid_leave:
  assumes "aware_mid aw" and "heap_at (aw_eobjs aw) e = Some ae" and "heap_at (aw_lobjs aw) L = Some al"
    and "map_of (table_rows (al_entries al)) k = Some e"
    and "sn_id (ae_aware ae') = sn_id (ae_aware ae)" and "ae_membership ae' = remove1 L (ae_membership ae)"
    and "table_rows (al_entries al') = AList.delete k (table_rows (al_entries al))"
    and "table_rows (al_attribs al') = table_rows (al_attribs al)"
  shows "aware_mid (aw_lst L al' (aw_ent e ae' aw))"
  using assms(1)
proof (rule aware_midE)
  fix t u
  assume A: "aw_entries aw = Some t" "member_ok t (ent_things aw) (ent_rows aw)"
    "aw_attribs aw = Some u" "member_ok u (att_things aw) (att_rows aw)"
    "objs_ok (aw_eobjs aw)" "objs_ok (aw_aobjs aw)" "objs_ok (aw_lobjs aw)"
  note at = things_at(1) [OF assms(2)] things_at(3,4) [OF assms(3)]
  have "(k, e) \<in> set (table_rows (al_entries al))"
    using assms(4) by (rule map_of_SomeD)
  then have k: "sn_id (ae_aware ae) = k"
    using member_okD(6) [OF A(2) at(2)] at(1) by fastforce
  note ent = member_ok_leave [OF A(2) at(1) [unfolded k] at(2) assms(4)]
  have "(att_rows aw)(L \<mapsto> table_rows (al_attribs al')) = att_rows aw"
    using at(3) assms(8) by (auto simp: fun_eq_iff)
  with A ent assms(5-8) k objs_ok_set [OF _ assms(2)] objs_ok_set [OF _ assms(3)] show ?thesis
    by (intro aware_midI [of _ t u]) simp_all
qed

text \<open>The same for a watched attribute.\<close>

lemma mid_watch:
  assumes "aware_mid aw" and "heap_at (aw_aobjs aw) a = Some at" and "heap_at (aw_lobjs aw) L = Some al"
    and "map_of (table_rows (al_attribs al)) (at_key at) = None"
    and "at_key at' = at_key at" and "at_membership at' = L # at_membership at"
    and "table_rows (al_attribs al') = AList.update (at_key at) a (table_rows (al_attribs al))"
    and "table_rows (al_entries al') = table_rows (al_entries al)"
  shows "aware_mid (aw_att a at' (aw_lst L al' aw))"
  using assms(1)
proof (rule aware_midE)
  fix t u
  assume A: "aw_entries aw = Some t" "member_ok t (ent_things aw) (ent_rows aw)"
    "aw_attribs aw = Some u" "member_ok u (att_things aw) (att_rows aw)"
    "objs_ok (aw_eobjs aw)" "objs_ok (aw_aobjs aw)" "objs_ok (aw_lobjs aw)"
  note at = things_at(2) [OF assms(2)] things_at(4,3) [OF assms(3)]
  note D = member_okD [OF A(4)]
  have k: "at_key at \<notin> fst ` set (table_rows (al_attribs al))"
    using assms(4) by (simp add: map_of_eq_None_iff)
  have L: "L \<notin> set (at_membership at)"
    using D(4) [OF at(1), of L] at(2) k by force
  have dis: "distinct (L # at_membership at)" using D(3) [OF at(1)] L by simp
  have "set (L # at_membership at) = insert L (set (at_membership at))" by auto
  note att = member_ok_join [OF A(4) at(1,2) k dis this]
  have "(ent_rows aw)(L \<mapsto> table_rows (al_entries al')) = ent_rows aw"
    using at(3) assms(8) by (auto simp: fun_eq_iff)
  with A att assms(5-8) objs_ok_set [OF _ assms(2)] objs_ok_set [OF _ assms(3)] show ?thesis
    by (intro aware_midI [of _ t u]) simp_all
qed

lemma mid_unwatch:
  assumes "aware_mid aw" and "heap_at (aw_aobjs aw) a = Some at" and "heap_at (aw_lobjs aw) L = Some al"
    and "map_of (table_rows (al_attribs al)) k = Some a"
    and "at_key at' = at_key at" and "at_membership at' = remove1 L (at_membership at)"
    and "table_rows (al_attribs al') = AList.delete k (table_rows (al_attribs al))"
    and "table_rows (al_entries al') = table_rows (al_entries al)"
  shows "aware_mid (aw_att a at' (aw_lst L al' aw))"
  using assms(1)
proof (rule aware_midE)
  fix t u
  assume A: "aw_entries aw = Some t" "member_ok t (ent_things aw) (ent_rows aw)"
    "aw_attribs aw = Some u" "member_ok u (att_things aw) (att_rows aw)"
    "objs_ok (aw_eobjs aw)" "objs_ok (aw_aobjs aw)" "objs_ok (aw_lobjs aw)"
  note at = things_at(2) [OF assms(2)] things_at(4,3) [OF assms(3)]
  have "(k, a) \<in> set (table_rows (al_attribs al))"
    using assms(4) by (rule map_of_SomeD)
  then have k: "at_key at = k"
    using member_okD(6) [OF A(4) at(2)] at(1) by fastforce
  note att = member_ok_leave [OF A(4) at(1) [unfolded k] at(2) assms(4)]
  have "(ent_rows aw)(L \<mapsto> table_rows (al_entries al')) = ent_rows aw"
    using at(3) assms(8) by (auto simp: fun_eq_iff)
  with A att assms(5-8) k objs_ok_set [OF _ assms(2)] objs_ok_set [OF _ assms(3)] show ?thesis
    by (intro aware_midI [of _ t u]) simp_all
qed

text \<open>New entries, attributes and lists.\<close>

definition heap_add :: "'o \<Rightarrow> 'o heap \<Rightarrow> 'o heap" where
  "heap_add x h = h\<lparr>hp_objs := (hp_next h, x) # hp_objs h, hp_next := Suc (hp_next h)\<rparr>"

lemma heap_add_simps [simp]:
  "heap_at (heap_add x h) a = (if a = hp_next h then Some x else heap_at h a)" "heap_dom (heap_add x h) = insert (hp_next h) (heap_dom h)"
  by (simp_all add: heap_add_def)

lemma objs_ok_add: "objs_ok h \<Longrightarrow> objs_ok (heap_add x h)"
  unfolding heap_add_def by (rule objs_ok_new)

lemma heap_next_None: "objs_ok h \<Longrightarrow> heap_at h (hp_next h) = None"
  using heap_new_fresh by (simp add: heap_at_dom)

lemma mid_new_ent:
  assumes "aware_mid aw" and "aw_entries aw = Some t" and "map_of t k = None" and "sn_id (ae_aware x) = k" and "ae_membership x = []"
  shows "aware_mid (aw\<lparr>aw_eobjs := heap_add x (aw_eobjs aw), aw_entries := Some (AList.update k (hp_next (aw_eobjs aw)) t)\<rparr>)"
  using assms(1)
proof (rule aware_midE)
  fix t' u
  let ?a = "hp_next (aw_eobjs aw)"
  let ?aw = "aw\<lparr>aw_eobjs := heap_add x (aw_eobjs aw), aw_entries := Some (AList.update k ?a t)\<rparr>"
  assume A: "aw_entries aw = Some t'" "member_ok t' (ent_things aw) (ent_rows aw)"
    "aw_attribs aw = Some u" "member_ok u (att_things aw) (att_rows aw)"
    "objs_ok (aw_eobjs aw)" "objs_ok (aw_aobjs aw)" "objs_ok (aw_lobjs aw)"
  have "ent_things aw ?a = None" using heap_next_None [OF A(5)] by (simp add: ent_things_def)
  then have "member_ok (AList.update k ?a t) ((ent_things aw)(?a \<mapsto> (k, []))) (ent_rows aw)"
    using A(1,2) assms(2,3) by (intro member_ok_add) auto
  moreover have "ent_things ?aw = (ent_things aw)(?a \<mapsto> (k, []))" "ent_rows ?aw = ent_rows aw"
    "att_things ?aw = att_things aw" "att_rows ?aw = att_rows aw"
    using assms(4,5) by (auto simp: ent_things_def ent_rows_def att_things_def att_rows_def)
  ultimately show ?thesis
    using A objs_ok_add by (intro aware_midI [of _ "AList.update k ?a t" u]) simp_all
qed

lemma mid_new_att:
  assumes "aware_mid aw" and "aw_attribs aw = Some u" and "map_of u k = None" and "at_key x = k" and "at_membership x = []"
  shows "aware_mid (aw\<lparr>aw_aobjs := heap_add x (aw_aobjs aw), aw_attribs := Some (AList.update k (hp_next (aw_aobjs aw)) u)\<rparr>)"
  using assms(1)
proof (rule aware_midE)
  fix t u'
  let ?a = "hp_next (aw_aobjs aw)"
  let ?aw = "aw\<lparr>aw_aobjs := heap_add x (aw_aobjs aw), aw_attribs := Some (AList.update k ?a u)\<rparr>"
  assume A: "aw_entries aw = Some t" "member_ok t (ent_things aw) (ent_rows aw)"
    "aw_attribs aw = Some u'" "member_ok u' (att_things aw) (att_rows aw)"
    "objs_ok (aw_eobjs aw)" "objs_ok (aw_aobjs aw)" "objs_ok (aw_lobjs aw)"
  have "att_things aw ?a = None" using heap_next_None [OF A(6)] by (simp add: att_things_def)
  then have "member_ok (AList.update k ?a u) ((att_things aw)(?a \<mapsto> (k, []))) (att_rows aw)"
    using A(3,4) assms(2,3) by (intro member_ok_add) auto
  moreover have "att_things ?aw = (att_things aw)(?a \<mapsto> (k, []))" "ent_rows ?aw = ent_rows aw"
    "ent_things ?aw = ent_things aw" "att_rows ?aw = att_rows aw"
    using assms(4,5) by (auto simp: ent_things_def ent_rows_def att_things_def att_rows_def)
  ultimately show ?thesis
    using A objs_ok_add by (intro aware_midI [of _ t "AList.update k ?a u"]) simp_all
qed

lemma mid_new_list:
  assumes "aware_mid aw" and "table_rows (al_entries x) = []" and "table_rows (al_attribs x) = []"
  shows "aware_mid (aw\<lparr>aw_lobjs := heap_add x (aw_lobjs aw), aw_lists := l\<rparr>)"
  using assms(1)
proof (rule aware_midE)
  fix t u
  let ?L = "hp_next (aw_lobjs aw)" and ?aw = "aw\<lparr>aw_lobjs := heap_add x (aw_lobjs aw), aw_lists := l\<rparr>"
  assume A: "aw_entries aw = Some t" "member_ok t (ent_things aw) (ent_rows aw)"
    "aw_attribs aw = Some u" "member_ok u (att_things aw) (att_rows aw)"
    "objs_ok (aw_eobjs aw)" "objs_ok (aw_aobjs aw)" "objs_ok (aw_lobjs aw)"
  have "ent_rows aw ?L = None" "att_rows aw ?L = None"
    using heap_next_None [OF A(7)] by (simp_all add: ent_rows_def att_rows_def)
  note rows = member_ok_new_list [OF A(2) this(1)] member_ok_new_list [OF A(4) this(2)]
  have "ent_rows ?aw = (ent_rows aw)(?L \<mapsto> [])" "att_rows ?aw = (att_rows aw)(?L \<mapsto> [])"
    "ent_things ?aw = ent_things aw" "att_things ?aw = att_things aw"
    using assms(2,3) by (auto simp: ent_things_def ent_rows_def att_things_def att_rows_def)
  with A rows objs_ok_add show ?thesis by (intro aware_midI [of _ t u]) simp_all
qed

text \<open>A list is freed once it has no rows.\<close>

definition heap_drop :: "addr \<Rightarrow> 'o heap \<Rightarrow> 'o heap" where
  "heap_drop a h = h\<lparr>hp_objs := AList.delete a (hp_objs h)\<rparr>"

lemma heap_drop_simps [simp]:
  "heap_at (heap_drop a h) b = (if b = a then None else heap_at h b)" "heap_dom (heap_drop a h) = heap_dom h - {a}"
  by (simp_all add: heap_drop_def delete_conv')

lemma heap_drop_gone: "heap_at h a = None \<Longrightarrow> heap_drop a h = h"
  by (simp add: heap_drop_def delete_id map_of_eq_None_iff)

lemma heap_drops [simp]: "heap_at (fold heap_drop as h) b = (if b \<in> set as then None else heap_at h b)"
  by (induction as arbitrary: h) auto

lemma objs_ok_drops: "objs_ok h \<Longrightarrow> objs_ok (fold heap_drop as h)"
  by (induction as arbitrary: h) (auto simp: heap_drop_def intro: objs_ok_delete)

lemma mid_free_list:
  assumes "aware_mid aw" and "heap_at (aw_lobjs aw) L = Some al" and "table_rows (al_entries al) = []" and "table_rows (al_attribs al) = []"
  shows "aware_mid (aw\<lparr>aw_lobjs := heap_drop L (aw_lobjs aw)\<rparr>)"
  using assms(1)
proof (rule aware_midE)
  fix t u
  let ?aw = "aw\<lparr>aw_lobjs := heap_drop L (aw_lobjs aw)\<rparr>"
  assume A: "aw_entries aw = Some t" "member_ok t (ent_things aw) (ent_rows aw)"
    "aw_attribs aw = Some u" "member_ok u (att_things aw) (att_rows aw)"
    "objs_ok (aw_eobjs aw)" "objs_ok (aw_aobjs aw)" "objs_ok (aw_lobjs aw)"
  have "ent_rows aw L = Some []" "att_rows aw L = Some []"
    using things_at(3,4) [OF assms(2)] assms(3,4) by simp_all
  note rows = member_ok_free_list [OF A(2) this(1)] member_ok_free_list [OF A(4) this(2)]
  have "ent_rows ?aw = (ent_rows aw)(L := None)" "att_rows ?aw = (att_rows aw)(L := None)"
    "ent_things ?aw = ent_things aw" "att_things ?aw = att_things aw"
    by (auto simp: ent_things_def ent_rows_def att_things_def att_rows_def)
  with A rows objs_ok_drops [OF A(7), of "[L]"] show ?thesis by (intro aware_midI [of _ t u]) simp_all
qed

text \<open>A list gives up all its entries, or all its attributes.\<close>

definition ent_change :: "addr \<Rightarrow> (aware_entry \<Rightarrow> aware_entry) \<Rightarrow> mwServiceAware \<Rightarrow> mwServiceAware" where
  "ent_change e f aw = (case heap_at (aw_eobjs aw) e of None \<Rightarrow> aw | Some ae \<Rightarrow> aw_ent e (f ae) aw)"

definition att_change :: "addr \<Rightarrow> (attrib_entry \<Rightarrow> attrib_entry) \<Rightarrow> mwServiceAware \<Rightarrow> mwServiceAware" where
  "att_change a f aw = (case heap_at (aw_aobjs aw) a of None \<Rightarrow> aw | Some at \<Rightarrow> aw_att a (f at) aw)"

definition list_change :: "addr \<Rightarrow> (mwAwareList \<Rightarrow> mwAwareList) \<Rightarrow> mwServiceAware \<Rightarrow> mwServiceAware" where
  "list_change L f aw = (case heap_at (aw_lobjs aw) L of None \<Rightarrow> aw | Some al \<Rightarrow> aw_lst L (f al) aw)"

abbreviation drop_ents :: "addr \<Rightarrow> (mwAwareIdBlock \<times> addr) list \<Rightarrow> mwServiceAware \<Rightarrow> mwServiceAware" where
  "drop_ents L \<equiv> fold (\<lambda>(i, e). ent_change e (\<lambda>ae. ae\<lparr>ae_membership := remove1 L (ae_membership ae)\<rparr>))"

abbreviation drop_atts :: "addr \<Rightarrow> (guint32 \<times> addr) list \<Rightarrow> mwServiceAware \<Rightarrow> mwServiceAware" where
  "drop_atts L \<equiv> fold (\<lambda>(k, a). att_change a (\<lambda>at. at\<lparr>at_membership := remove1 L (at_membership at)\<rparr>))"

lemma drop_ents_state:
  "ent_things (drop_ents L rows aw) = drop_rows L rows (ent_things aw) \<and> ent_rows (drop_ents L rows aw) = ent_rows aw
   \<and> att_things (drop_ents L rows aw) = att_things aw \<and> att_rows (drop_ents L rows aw) = att_rows aw
   \<and> aw_entries (drop_ents L rows aw) = aw_entries aw \<and> aw_attribs (drop_ents L rows aw) = aw_attribs aw
   \<and> aw_lists (drop_ents L rows aw) = aw_lists aw
   \<and> aw_aobjs (drop_ents L rows aw) = aw_aobjs aw \<and> aw_lobjs (drop_ents L rows aw) = aw_lobjs aw
   \<and> (objs_ok (aw_eobjs aw) \<longrightarrow> objs_ok (aw_eobjs (drop_ents L rows aw)))"
proof (induction rows arbitrary: aw)
  case (Cons x rows)
  obtain k e where x: "x = (k, e)" by fastforce
  let ?aw = "ent_change e (\<lambda>ae. ae\<lparr>ae_membership := remove1 L (ae_membership ae)\<rparr>) aw"
  have "ent_things ?aw = (ent_things aw)(e := map_option (\<lambda>(k, m). (k, remove1 L m)) (ent_things aw e))"
    by (auto simp: ent_change_def ent_things_def split: option.split)
  moreover have "ent_rows ?aw = ent_rows aw" "att_things ?aw = att_things aw" "att_rows ?aw = att_rows aw"
    "aw_entries ?aw = aw_entries aw" "aw_attribs ?aw = aw_attribs aw" "aw_aobjs ?aw = aw_aobjs aw" "aw_lobjs ?aw = aw_lobjs aw"
    "aw_lists ?aw = aw_lists aw" "objs_ok (aw_eobjs aw) \<longrightarrow> objs_ok (aw_eobjs ?aw)"
    by (auto simp: ent_change_def objs_ok_set split: option.split)
  ultimately show ?case using Cons.IH [of ?aw] by (simp add: x fun_upd_def)
qed simp

lemma drop_atts_state:
  "att_things (drop_atts L rows aw) = drop_rows L rows (att_things aw) \<and> ent_rows (drop_atts L rows aw) = ent_rows aw
   \<and> ent_things (drop_atts L rows aw) = ent_things aw \<and> att_rows (drop_atts L rows aw) = att_rows aw
   \<and> aw_entries (drop_atts L rows aw) = aw_entries aw \<and> aw_attribs (drop_atts L rows aw) = aw_attribs aw
   \<and> aw_lists (drop_atts L rows aw) = aw_lists aw
   \<and> aw_eobjs (drop_atts L rows aw) = aw_eobjs aw \<and> aw_lobjs (drop_atts L rows aw) = aw_lobjs aw
   \<and> (objs_ok (aw_aobjs aw) \<longrightarrow> objs_ok (aw_aobjs (drop_atts L rows aw)))"
proof (induction rows arbitrary: aw)
  case (Cons x rows)
  obtain k a where x: "x = (k, a)" by fastforce
  let ?aw = "att_change a (\<lambda>at. at\<lparr>at_membership := remove1 L (at_membership at)\<rparr>) aw"
  have "att_things ?aw = (att_things aw)(a := map_option (\<lambda>(k, m). (k, remove1 L m)) (att_things aw a))"
    by (auto simp: att_change_def att_things_def split: option.split)
  moreover have "ent_rows ?aw = ent_rows aw" "ent_things ?aw = ent_things aw" "att_rows ?aw = att_rows aw"
    "aw_entries ?aw = aw_entries aw" "aw_attribs ?aw = aw_attribs aw" "aw_eobjs ?aw = aw_eobjs aw" "aw_lobjs ?aw = aw_lobjs aw"
    "aw_lists ?aw = aw_lists aw" "objs_ok (aw_aobjs aw) \<longrightarrow> objs_ok (aw_aobjs ?aw)"
    by (auto simp: att_change_def objs_ok_set split: option.split)
  ultimately show ?case using Cons.IH [of ?aw] by (simp add: x fun_upd_def)
qed simp

lemma mid_drop_ents:
  assumes "aware_mid aw" and "heap_at (aw_lobjs aw) L = Some al" and "table_rows (al_entries al') = []"
    and "table_rows (al_attribs al') = table_rows (al_attribs al)"
  shows "aware_mid (aw_lst L al' (drop_ents L (table_rows (al_entries al)) aw))"
  using assms(1)
proof (rule aware_midE)
  fix t u
  assume A: "aw_entries aw = Some t" "member_ok t (ent_things aw) (ent_rows aw)"
    "aw_attribs aw = Some u" "member_ok u (att_things aw) (att_rows aw)"
    "objs_ok (aw_eobjs aw)" "objs_ok (aw_aobjs aw)" "objs_ok (aw_lobjs aw)"
  note ent = member_ok_drop [OF A(2) things_at(3) [OF assms(2)]]
  have "(att_rows aw)(L \<mapsto> table_rows (al_attribs al')) = att_rows aw"
    using things_at(4) [OF assms(2)] assms(4) by (auto simp: fun_eq_iff)
  with A ent assms(3,4) objs_ok_set [OF _ assms(2)] show ?thesis
    by (intro aware_midI [of _ t u]) (simp_all add: drop_ents_state)
qed

lemma mid_drop_atts:
  assumes "aware_mid aw" and "heap_at (aw_lobjs aw) L = Some al" and "table_rows (al_attribs al') = []"
    and "table_rows (al_entries al') = table_rows (al_entries al)"
  shows "aware_mid (aw_lst L al' (drop_atts L (table_rows (al_attribs al)) aw))"
  using assms(1)
proof (rule aware_midE)
  fix t u
  assume A: "aw_entries aw = Some t" "member_ok t (ent_things aw) (ent_rows aw)"
    "aw_attribs aw = Some u" "member_ok u (att_things aw) (att_rows aw)"
    "objs_ok (aw_eobjs aw)" "objs_ok (aw_aobjs aw)" "objs_ok (aw_lobjs aw)"
  note att = member_ok_drop [OF A(4) things_at(4) [OF assms(2)]]
  have "(ent_rows aw)(L \<mapsto> table_rows (al_entries al')) = ent_rows aw"
    using things_at(3) [OF assms(2)] assms(4) by (auto simp: fun_eq_iff)
  with A att assms(3,4) objs_ok_set [OF _ assms(2)] show ?thesis
    by (intro aware_midI [of _ t u]) (simp_all add: drop_atts_state)
qed

text \<open>Entries and attributes that no list has are collected.\<close>

definition collect_ents :: "'c aware_code \<Rightarrow> mwServiceAware \<Rightarrow> mwServiceAware" where
  "collect_ents code aw = aw\<lparr>aw_entries := map_option (filter (\<lambda>(i, e). (i, e) \<notin> set (dead_entries code aw))) (aw_entries aw),
     aw_eobjs := fold heap_drop (map snd (dead_entries code aw)) (aw_eobjs aw)\<rparr>"

definition collect_atts :: "'c env \<Rightarrow> mwServiceAware \<Rightarrow> mwServiceAware" where
  "collect_atts env aw = aw\<lparr>aw_attribs := map_option (filter (\<lambda>(k, a). (k, a) \<notin> set (dead_attribs env aw))) (aw_attribs aw),
     aw_aobjs := fold heap_drop (map snd (dead_attribs env aw)) (aw_aobjs aw)\<rparr>"

lemma set_map_filter: "set (List.map_filter f xs) = {y. \<exists>x \<in> set xs. f x = Some y}"
  by (induction xs) (auto split: option.split)

lemma unused_row:
  "(case x of None \<Rightarrow> None | Some e \<Rightarrow> (case h e of None \<Rightarrow> None | Some ae \<Rightarrow> if P ae then Some (i, e) else None)) = Some (k, e')
   \<longleftrightarrow> i = k \<and> x = Some e' \<and> (\<exists>ae. h e' = Some ae \<and> P ae)"
  by (cases x) (auto split: option.split)

lemma dead_entries_iff:
  assumes "aware_mid aw"
  shows "(k, e) \<in> set (dead_entries code aw) \<Longrightarrow> ent_things aw e = Some (k, [])"
    and "(\<And>ks. set (ac_order code ks) = set ks) \<Longrightarrow> ent_things aw e = Some (k, []) \<Longrightarrow> (k, e) \<in> set (dead_entries code aw)"
proof -
  obtain t where t: "aw_entries aw = Some t" "member_ok t (ent_things aw) (ent_rows aw)"
    using assms by (rule aware_midE)
  show "ent_things aw e = Some (k, [])" if dead: "(k, e) \<in> set (dead_entries code aw)"
  proof -
    obtain ae where ae: "map_of t k = Some e" "heap_at (aw_eobjs aw) e = Some ae" "ae_membership ae = []"
      using dead by (auto simp: dead_entries_def t(1) set_map_filter unused_row)
    with member_ok_find(1) [OF t(2), of k e] things_at(1) [OF ae(2)] show ?thesis by auto
  qed
  show "(k, e) \<in> set (dead_entries code aw)" if order: "\<And>ks. set (ac_order code ks) = set ks" and e: "ent_things aw e = Some (k, [])"
  proof -
    obtain ae where ae: "heap_at (aw_eobjs aw) e = Some ae" "ae_membership ae = []"
      using e by (auto simp: ent_things_def)
    have k: "map_of t k = Some e" using member_ok_find(1) [OF t(2), of k e] e by auto
    then have "k \<in> fst ` set t" by (metis map_of_SomeD fst_conv imageI)
    with k ae order show ?thesis
      by (auto simp: dead_entries_def t(1) set_map_filter unused_row)
  qed
qed

lemma dead_attribs_iff:
  assumes "aware_mid aw"
  shows "(k, a) \<in> set (dead_attribs env aw) \<Longrightarrow> att_things aw a = Some (k, [])"
    and "(\<And>ks. set (e_order env ks) = set ks) \<Longrightarrow> att_things aw a = Some (k, []) \<Longrightarrow> (k, a) \<in> set (dead_attribs env aw)"
proof -
  obtain u where t: "aw_attribs aw = Some u" "member_ok u (att_things aw) (att_rows aw)"
    using assms by (rule aware_midE)
  show "att_things aw a = Some (k, [])" if dead: "(k, a) \<in> set (dead_attribs env aw)"
  proof -
    obtain at where at: "map_of u k = Some a" "heap_at (aw_aobjs aw) a = Some at" "at_membership at = []"
      using dead by (auto simp: dead_attribs_def t(1) set_map_filter unused_row)
    with member_ok_find(1) [OF t(2), of k a] things_at(2) [OF at(2)] show ?thesis by auto
  qed
  show "(k, a) \<in> set (dead_attribs env aw)" if order: "\<And>ks. set (e_order env ks) = set ks" and e: "att_things aw a = Some (k, [])"
  proof -
    obtain at where at: "heap_at (aw_aobjs aw) a = Some at" "at_membership at = []"
      using e by (auto simp: att_things_def)
    have k: "map_of u k = Some a" using member_ok_find(1) [OF t(2), of k a] e by auto
    then have "k \<in> fst ` set u" by (metis map_of_SomeD fst_conv imageI)
    with k at order show ?thesis
      by (auto simp: dead_attribs_def t(1) set_map_filter unused_row)
  qed
qed

lemma collect_ents_things:
  "ent_things (collect_ents code aw) = (\<lambda>e. if e \<in> snd ` set (dead_entries code aw) then None else ent_things aw e)"
  "ent_rows (collect_ents code aw) = ent_rows aw" "att_things (collect_ents code aw) = att_things aw"
  "att_rows (collect_ents code aw) = att_rows aw"
  by (auto simp: collect_ents_def ent_things_def ent_rows_def att_things_def att_rows_def)

lemma collect_atts_things:
  "att_things (collect_atts env aw) = (\<lambda>a. if a \<in> snd ` set (dead_attribs env aw) then None else att_things aw a)"
  "ent_rows (collect_atts env aw) = ent_rows aw" "ent_things (collect_atts env aw) = ent_things aw"
  "att_rows (collect_atts env aw) = att_rows aw"
  by (auto simp: collect_atts_def ent_things_def ent_rows_def att_things_def att_rows_def)

lemma mid_collect_ents:
  assumes "aware_mid aw"
  shows "aware_mid (collect_ents code aw)" and "(\<And>ks. set (ac_order code ks) = set ks) \<Longrightarrow> ents_used (collect_ents code aw)"
    and "atts_used aw \<Longrightarrow> atts_used (collect_ents code aw)"
proof -
  obtain t u where A: "aw_entries aw = Some t" "member_ok t (ent_things aw) (ent_rows aw)"
    "aw_attribs aw = Some u" "member_ok u (att_things aw) (att_rows aw)"
    "objs_ok (aw_eobjs aw)" "objs_ok (aw_aobjs aw)" "objs_ok (aw_lobjs aw)"
    using assms by (rule aware_midE)
  note dead = member_ok_dead [OF A(2), of "dead_entries code aw", OF dead_entries_iff(1) [OF assms]]
  show "aware_mid (collect_ents code aw)"
    by (rule aware_midI [of _ "filter (\<lambda>(i, e). (i, e) \<notin> set (dead_entries code aw)) t" u])
      (use A dead objs_ok_drops [OF A(5)] in \<open>simp_all add: collect_ents_things\<close>, simp_all add: collect_ents_def)
  show "ents_used (collect_ents code aw)" if "\<And>ks. set (ac_order code ks) = set ks"
    using dead_entries_iff(2) [OF assms that] by (fastforce simp: ents_used_def collect_ents_things image_iff split: if_splits)
  show "atts_used aw \<Longrightarrow> atts_used (collect_ents code aw)"
    by (simp add: atts_used_def collect_ents_things)
qed

lemma mid_collect_atts:
  assumes "aware_mid aw"
  shows "aware_mid (collect_atts env aw)" and "(\<And>ks. set (e_order env ks) = set ks) \<Longrightarrow> atts_used (collect_atts env aw)"
    and "ents_used aw \<Longrightarrow> ents_used (collect_atts env aw)"
proof -
  obtain t u where A: "aw_entries aw = Some t" "member_ok t (ent_things aw) (ent_rows aw)"
    "aw_attribs aw = Some u" "member_ok u (att_things aw) (att_rows aw)"
    "objs_ok (aw_eobjs aw)" "objs_ok (aw_aobjs aw)" "objs_ok (aw_lobjs aw)"
    using assms by (rule aware_midE)
  note dead = member_ok_dead [OF A(4), of "dead_attribs env aw", OF dead_attribs_iff(1) [OF assms]]
  show "aware_mid (collect_atts env aw)"
    by (rule aware_midI [of _ t "filter (\<lambda>(k, a). (k, a) \<notin> set (dead_attribs env aw)) u"])
      (use A dead objs_ok_drops [OF A(6)] in \<open>simp_all add: collect_atts_things\<close>, simp_all add: collect_atts_def)
  show "atts_used (collect_atts env aw)" if "\<And>ks. set (e_order env ks) = set ks"
    using dead_attribs_iff(2) [OF assms that] by (fastforce simp: atts_used_def collect_atts_things image_iff split: if_splits)
  show "ents_used aw \<Longrightarrow> ents_used (collect_atts env aw)"
    by (simp add: ents_used_def collect_atts_things)
qed

section \<open>What operations do to the state\<close>

text \<open>The operations that run no code of the client, as functions of the state of the service.\<close>

definition lst_at :: "mwServiceAware \<Rightarrow> addr \<Rightarrow> mwAwareList" where
  "lst_at aw L = (case heap_at (aw_lobjs aw) L of None \<Rightarrow> mwAwareList_zero | Some al \<Rightarrow> al)"

definition ent_find :: "mwServiceAware \<Rightarrow> mwAwareIdBlock \<Rightarrow> addr option" where
  "ent_find aw i = (case aw_entries aw of None \<Rightarrow> None | Some t \<Rightarrow> map_of t i)"

definition att_find :: "mwServiceAware \<Rightarrow> guint32 \<Rightarrow> addr option" where
  "att_find aw k = (case aw_attribs aw of None \<Rightarrow> None | Some t \<Rightarrow> map_of t k)"

definition join_ent :: "addr \<Rightarrow> mwAwareIdBlock \<Rightarrow> addr \<Rightarrow> mwServiceAware \<Rightarrow> mwServiceAware" where
  "join_ent L i e aw = list_change L (\<lambda>al. al\<lparr>al_entries := Table (AList.update i e (table_rows (al_entries al)))\<rparr>)
     (ent_change e (\<lambda>ae. ae\<lparr>ae_membership := ae_membership ae @ [L]\<rparr>) aw)"

definition new_ent :: "mwAwareIdBlock \<Rightarrow> mwServiceAware \<Rightarrow> mwServiceAware" where
  "new_ent i aw = aw\<lparr>aw_eobjs := heap_add (aware_entry_zero\<lparr>ae_aware :=
       mwAwareSnapshot_zero\<lparr>sn_id := mwAwareIdBlock_clone mwAwareIdBlock_zero i\<rparr>\<rparr>) (aw_eobjs aw),
     aw_entries := map_option (AList.update i (hp_next (aw_eobjs aw))) (aw_entries aw)\<rparr>"

definition with_table :: "addr \<Rightarrow> mwServiceAware \<Rightarrow> mwServiceAware" where
  "with_table L aw = (if al_entries (lst_at aw L) = No_table then list_change L (\<lambda>al. al\<lparr>al_entries := Table []\<rparr>) aw else aw)"

definition add_ent :: "addr \<Rightarrow> mwAwareIdBlock \<Rightarrow> mwServiceAware \<Rightarrow> bool \<times> mwServiceAware" where
  "add_ent L i aw =
     (if ab_user i = None \<or> ab_user i = Some [] then (False, aw)
      else let aw = with_table L aw
           in if map_of (table_rows (al_entries (lst_at aw L))) i \<noteq> None then (False, aw)
              else case ent_find aw i of
                Some e \<Rightarrow> (True, join_ent L i e aw)
              | None \<Rightarrow> (True, join_ent L i (hp_next (aw_eobjs aw)) (new_ent i aw)))"

definition join_att :: "addr \<Rightarrow> guint32 \<Rightarrow> addr \<Rightarrow> mwServiceAware \<Rightarrow> mwServiceAware" where
  "join_att L k a aw = att_change a (\<lambda>at. at\<lparr>at_membership := L # at_membership at\<rparr>)
     (list_change L (\<lambda>al. al\<lparr>al_attribs := Table (AList.update k a (table_rows (al_attribs al)))\<rparr>) aw)"

definition new_att :: "guint32 \<Rightarrow> mwServiceAware \<Rightarrow> mwServiceAware" where
  "new_att k aw = aw\<lparr>aw_aobjs := heap_add (attrib_entry_zero\<lparr>at_key := k\<rparr>) (aw_aobjs aw),
     aw_attribs := map_option (AList.update k (hp_next (aw_aobjs aw))) (aw_attribs aw)\<rparr>"

definition with_watch :: "addr \<Rightarrow> mwServiceAware \<Rightarrow> mwServiceAware" where
  "with_watch L aw = (if al_attribs (lst_at aw L) = No_table then list_change L (\<lambda>al. al\<lparr>al_attribs := Table []\<rparr>) aw else aw)"

definition add_att :: "addr \<Rightarrow> guint32 \<Rightarrow> mwServiceAware \<Rightarrow> mwServiceAware" where
  "add_att L k aw =
     (let aw = with_watch L aw
      in if map_of (table_rows (al_attribs (lst_at aw L))) k \<noteq> None then aw
         else case att_find aw k of
           Some a \<Rightarrow> join_att L k a aw
         | None \<Rightarrow> join_att L k (hp_next (aw_aobjs aw)) (new_att k aw))"

definition leave_ent :: "addr \<Rightarrow> mwAwareIdBlock \<Rightarrow> mwServiceAware \<Rightarrow> mwServiceAware" where
  "leave_ent L i aw = (case map_of (table_rows (al_entries (lst_at aw L))) i of
     None \<Rightarrow> aw
   | Some e \<Rightarrow> list_change L (\<lambda>al. al\<lparr>al_entries := Table (AList.delete i (table_rows (al_entries al)))\<rparr>)
       (ent_change e (\<lambda>ae. ae\<lparr>ae_membership := remove1 L (ae_membership ae)\<rparr>) aw))"

definition leave_att :: "addr \<Rightarrow> guint32 \<Rightarrow> mwServiceAware \<Rightarrow> mwServiceAware" where
  "leave_att L k aw = (case map_of (table_rows (al_attribs (lst_at aw L))) k of
     None \<Rightarrow> aw
   | Some a \<Rightarrow> att_change a (\<lambda>at. at\<lparr>at_membership := remove1 L (at_membership at)\<rparr>)
       (list_change L (\<lambda>al. al\<lparr>al_attribs := Table (AList.delete k (table_rows (al_attribs al)))\<rparr>) aw))"

definition leave_ents :: "addr \<Rightarrow> mwServiceAware \<Rightarrow> mwServiceAware" where
  "leave_ents L aw = (if al_entries (lst_at aw L) = No_table then aw
     else list_change L (\<lambda>al. al\<lparr>al_entries := Freed_table\<rparr>) (drop_ents L (table_rows (al_entries (lst_at aw L))) aw))"

definition leave_atts :: "addr \<Rightarrow> mwServiceAware \<Rightarrow> mwServiceAware" where
  "leave_atts L aw = (if al_attribs (lst_at aw L) = No_table then aw
     else list_change L (\<lambda>al. al\<lparr>al_attribs := Freed_table\<rparr>) (drop_atts L (table_rows (al_attribs (lst_at aw L))) aw))"

locale aware_slot = service_slot sl for sl :: "'c aware_slot"
begin

abbreviation ok :: "'c mwSession \<Rightarrow> bool" where
  "ok \<equiv> \<lambda>s. aware_ok (srvc_of sl s)"

lemma run_ent:
  assumes "heap_at (aw_eobjs (srvc_of sl s)) e = Some ae"
  shows "run_state (ent_deref sl e) s = (ae, s)" "run_state (ent_update sl e f) s = ((), srvc_set sl (aw_ent e (f ae) (srvc_of sl s)) s)"
  using assms by (simp_all add: ent_deref_def ent_update_def run_heap_deref run_heap_update aw_eheap_def aw_ent_def)

lemma run_att:
  assumes "heap_at (aw_aobjs (srvc_of sl s)) a = Some at"
  shows "run_state (att_update sl a f) s = ((), srvc_set sl (aw_att a (f at) (srvc_of sl s)) s)"
  using assms by (simp add: att_update_def run_heap_update aw_aheap_def aw_att_def)

lemma run_lst:
  assumes "heap_at (aw_lobjs (srvc_of sl s)) L = Some al"
  shows "run_state (list_deref sl L) s = (al, s)" "run_state (list_update_at sl L f) s = ((), srvc_set sl (aw_lst L (f al) (srvc_of sl s)) s)"
  using assms by (simp_all add: list_deref_def list_update_at_def run_heap_deref run_heap_update aw_lheap_def aw_lst_def)

lemma run_new:
  "run_state (heap_new (aw_eheap sl) x) s
    = (hp_next (aw_eobjs (srvc_of sl s)), srvc_set sl ((srvc_of sl s)\<lparr>aw_eobjs := heap_add x (aw_eobjs (srvc_of sl s))\<rparr>) s)"
  "run_state (heap_new (aw_aheap sl) y) s
    = (hp_next (aw_aobjs (srvc_of sl s)), srvc_set sl ((srvc_of sl s)\<lparr>aw_aobjs := heap_add y (aw_aobjs (srvc_of sl s))\<rparr>) s)"
  "run_state (heap_new (aw_lheap sl) z) s
    = (hp_next (aw_lobjs (srvc_of sl s)), srvc_set sl ((srvc_of sl s)\<lparr>aw_lobjs := heap_add z (aw_lobjs (srvc_of sl s))\<rparr>) s)"
  by (simp_all add: run_heap_new aw_eheap_def aw_aheap_def aw_lheap_def heap_add_def Let_def)

lemma table_deref_state: "srvc_of sl (exec_state (table_deref t) s) = srvc_of sl s" "eval_state (table_deref t) s = table_rows t"
  by (cases t; simp add: table_deref_def fault_def)+

lemma list_aware_find_run:
  assumes "heap_at (aw_lobjs (srvc_of sl s)) L = Some al"
  shows "eval_state (list_aware_find sl L i) s = map_of (table_rows (al_entries al)) i"
    and "srvc_of sl (exec_state (list_aware_find sl L i) s) = srvc_of sl s"
  using assms by (simp_all add: list_aware_find_def run_lst split_def table_deref_state)

lemma state_changes:
  "srvc_of sl (exec_state (ent_update sl e f) s) = ent_change e f (srvc_of sl s)"
  "srvc_of sl (exec_state (att_update sl a g) s) = att_change a g (srvc_of sl s)"
  "srvc_of sl (exec_state (list_update_at sl L h) s) = list_change L h (srvc_of sl s)"
  by (simp_all add: ent_update_def att_update_def list_update_at_def run_heap_update aw_eheap_def aw_aheap_def aw_lheap_def
      ent_change_def att_change_def list_change_def aw_ent_def aw_att_def aw_lst_def split: option.split)

lemma deref_state:
  "srvc_of sl (exec_state (list_deref sl L) s) = srvc_of sl s" "eval_state (list_deref sl L) s = lst_at (srvc_of sl s) L"
  by (simp_all add: list_deref_def run_heap_deref aw_lheap_def lst_at_def split: option.split)

lemma find_run: "run_state (aware_find sl i) s = (ent_find (srvc_of sl s) i, s)"
  by (simp add: aware_find_def ent_find_def)

lemma list_find_state:
  "srvc_of sl (exec_state (list_aware_find sl L i) s) = srvc_of sl s"
  "eval_state (list_aware_find sl L i) s = map_of (table_rows (al_entries (lst_at (srvc_of sl s) L))) i"
  by (simp_all add: list_aware_find_def split_def table_deref_state deref_state)

lemmas state = state_changes deref_state find_run list_find_state table_deref_state run_new split_def

lemma list_add_state:
  "eval_state (list_add sl L i) s = fst (add_ent L i (srvc_of sl s))"
  "srvc_of sl (exec_state (list_add sl L i) s) = snd (add_ent L i (srvc_of sl s))"
  by (auto simp: list_add_def add_ent_def with_table_def join_ent_def new_ent_def state Let_def split: option.split)

lemma watch_add_state: "srvc_of sl (exec_state (watch_add sl L k) s) = add_att L k (srvc_of sl s)"
  by (auto simp: watch_add_def add_att_def with_watch_def join_att_def new_att_def att_find_def state Let_def split: option.split)

lemma watch_remove_state: "srvc_of sl (exec_state (watch_remove sl L k) s) = leave_att L k (srvc_of sl s)"
  by (auto simp: watch_remove_def leave_att_def state split: option.split)

end

section \<open>The invariant\<close>

text \<open>What an operation on memberships leaves alone.\<close>

definition lists_same :: "mwServiceAware \<Rightarrow> mwServiceAware \<Rightarrow> bool" where
  "lists_same aw aw' \<longleftrightarrow> aw_lists aw' = aw_lists aw \<and> heap_dom (aw_lobjs aw') = heap_dom (aw_lobjs aw)"

lemma lists_same_ok: "lists_same aw aw' \<Longrightarrow> lists_ok aw \<Longrightarrow> lists_ok aw'"
  by (simp add: lists_same_def lists_ok_def)

lemma lists_same_trans: "lists_same x y \<Longrightarrow> lists_same y z \<Longrightarrow> lists_same x z"
  by (simp add: lists_same_def)

lemma lists_same_refl [simp]: "lists_same aw aw"
  by (simp add: lists_same_def)

lemma lists_same_change [simp]:
  "lists_same aw (list_change L f aw)" "lists_same aw (ent_change e g aw)" "lists_same aw (att_change a h aw)"
  by (auto simp: lists_same_def list_change_def ent_change_def att_change_def split: option.split)

lemma lists_same_ops:
  "lists_same aw (snd (add_ent L i aw))" "lists_same aw (add_att L k aw)" "lists_same aw (leave_ent L i aw)"
  "lists_same aw (leave_att L k aw)" "lists_same aw (leave_ents L aw)" "lists_same aw (leave_atts L aw)"
  "lists_same aw (collect_ents code aw)" "lists_same aw (collect_atts env aw)"
proof -
  note S = lists_same_trans [OF _ lists_same_change(1)] lists_same_trans [OF _ lists_same_change(2)] lists_same_trans [OF _ lists_same_change(3)]
  have new: "lists_same aw (new_ent i aw)" "lists_same aw (new_att k aw)" for aw
    by (simp_all add: new_ent_def new_att_def lists_same_def)
  have tab: "lists_same aw (with_table L aw)" "lists_same aw (with_watch L aw)" by (simp_all add: with_table_def with_watch_def)
  have join: "lists_same x y \<Longrightarrow> lists_same x (join_ent L i e y)" "lists_same x y \<Longrightarrow> lists_same x (join_att L k e y)" for e x y
    by (simp_all add: join_ent_def join_att_def S)
  show "lists_same aw (snd (add_ent L i aw))" "lists_same aw (add_att L k aw)"
    unfolding add_ent_def add_att_def Let_def
    by (auto intro!: join tab lists_same_trans [OF tab(1) new(1)] lists_same_trans [OF tab(2) new(2)] split: option.split)
  show "lists_same aw (leave_ent L i aw)" "lists_same aw (leave_att L k aw)"
    by (simp_all add: leave_ent_def leave_att_def S split: option.split)
  have drop: "lists_same aw (drop_ents L rows aw)" "lists_same aw (drop_atts L rows' aw)" for rows rows'
    using drop_ents_state [of L rows aw] drop_atts_state [of L rows' aw] by (simp_all add: lists_same_def)
  show "lists_same aw (leave_ents L aw)" "lists_same aw (leave_atts L aw)"
    by (simp_all add: leave_ents_def leave_atts_def S(1) drop)
  show "lists_same aw (collect_ents code aw)" "lists_same aw (collect_atts env aw)"
    by (simp_all add: lists_same_def collect_ents_def collect_atts_def)
qed

lemma lst_at_live: "heap_at (aw_lobjs aw) L = Some al \<Longrightarrow> lst_at aw L = al"
  by (simp add: lst_at_def)

lemma ent_find_ok:
  assumes "aware_mid aw" and "ent_find aw i = Some e"
  obtains ae where "heap_at (aw_eobjs aw) e = Some ae" "sn_id (ae_aware ae) = i"
proof -
  obtain t where "aw_entries aw = Some t" "member_ok t (ent_things aw) (ent_rows aw)"
    using assms(1) by (rule aware_midE)
  with member_ok_find(1) [of t "ent_things aw" "ent_rows aw" i e] assms(2) obtain m where "ent_things aw e = Some (i, m)"
    by (auto simp: ent_find_def)
  then show ?thesis using that by (auto simp: ent_things_def)
qed

lemma att_find_ok:
  assumes "aware_mid aw" and "att_find aw k = Some a"
  obtains at where "heap_at (aw_aobjs aw) a = Some at" "at_key at = k"
proof -
  obtain u where "aw_attribs aw = Some u" "member_ok u (att_things aw) (att_rows aw)"
    using assms(1) by (rule aware_midE)
  with member_ok_find(1) [of u "att_things aw" "att_rows aw" k a] assms(2) obtain m where "att_things aw a = Some (k, m)"
    by (auto simp: att_find_def)
  then show ?thesis using that by (auto simp: att_things_def)
qed

lemma with_table_ok:
  assumes "aware_mid aw" and "heap_at (aw_lobjs aw) L = Some al"
  obtains al' where "aware_mid (with_table L aw)" "heap_at (aw_lobjs (with_table L aw)) L = Some al'"
    "ent_things (with_table L aw) = ent_things aw" "att_things (with_table L aw) = att_things aw"
    "aw_eobjs (with_table L aw) = aw_eobjs aw"
proof (cases "al_entries al = No_table")
  case True
  let ?al = "al\<lparr>al_entries := Table []\<rparr>"
  have aw: "with_table L aw = aw_lst L ?al aw"
    using True assms(2) by (simp add: with_table_def lst_at_def list_change_def)
  have "aware_mid (aw_lst L ?al aw)" by (rule mid_lst [OF assms]) (simp_all add: True)
  with that [of ?al] show ?thesis by (simp add: aw)
next
  case False
  with assms that [of al] show ?thesis by (simp add: with_table_def lst_at_def)
qed

lemma with_watch_ok:
  assumes "aware_mid aw" and "heap_at (aw_lobjs aw) L = Some al"
  obtains al' where "aware_mid (with_watch L aw)" "heap_at (aw_lobjs (with_watch L aw)) L = Some al'"
    "ent_things (with_watch L aw) = ent_things aw" "att_things (with_watch L aw) = att_things aw"
    "aw_aobjs (with_watch L aw) = aw_aobjs aw"
proof (cases "al_attribs al = No_table")
  case True
  let ?al = "al\<lparr>al_attribs := Table []\<rparr>"
  have aw: "with_watch L aw = aw_lst L ?al aw"
    using True assms(2) by (simp add: with_watch_def lst_at_def list_change_def)
  have "aware_mid (aw_lst L ?al aw)" by (rule mid_lst [OF assms]) (simp_all add: True)
  with that [of ?al] show ?thesis by (simp add: aw)
next
  case False
  with assms that [of al] show ?thesis by (simp add: with_watch_def lst_at_def)
qed

lemma join_ent_ok:
  assumes "aware_mid aw" and "heap_at (aw_lobjs aw) L = Some al" and "heap_at (aw_eobjs aw) e = Some ae" and "sn_id (ae_aware ae) = i"
    and "map_of (table_rows (al_entries al)) i = None"
  shows "aware_mid (join_ent L i e aw)" "ent_things (join_ent L i e aw) = (ent_things aw)(e \<mapsto> (i, ae_membership ae @ [L]))"
    "att_things (join_ent L i e aw) = att_things aw"
proof -
  let ?ae = "ae\<lparr>ae_membership := ae_membership ae @ [L]\<rparr>"
  let ?al = "al\<lparr>al_entries := Table (AList.update i e (table_rows (al_entries al)))\<rparr>"
  have aw: "join_ent L i e aw = aw_lst L ?al (aw_ent e ?ae aw)"
    using assms by (simp add: join_ent_def ent_change_def list_change_def)
  show "aware_mid (join_ent L i e aw)"
    unfolding aw by (rule mid_join [OF assms(1,3,2)]) (use assms(4,5) in simp_all)
  show "ent_things (join_ent L i e aw) = (ent_things aw)(e \<mapsto> (i, ae_membership ae @ [L]))"
    "att_things (join_ent L i e aw) = att_things aw"
    using assms(4) by (simp_all add: aw)
qed

lemma join_att_ok:
  assumes "aware_mid aw" and "heap_at (aw_lobjs aw) L = Some al" and "heap_at (aw_aobjs aw) a = Some at" and "at_key at = k"
    and "map_of (table_rows (al_attribs al)) k = None"
  shows "aware_mid (join_att L k a aw)" "att_things (join_att L k a aw) = (att_things aw)(a \<mapsto> (k, L # at_membership at))"
    "ent_things (join_att L k a aw) = ent_things aw"
proof -
  let ?at = "at\<lparr>at_membership := L # at_membership at\<rparr>"
  let ?al = "al\<lparr>al_attribs := Table (AList.update k a (table_rows (al_attribs al)))\<rparr>"
  have aw: "join_att L k a aw = aw_att a ?at (aw_lst L ?al aw)"
    using assms by (simp add: join_att_def att_change_def list_change_def)
  show "aware_mid (join_att L k a aw)"
    unfolding aw by (rule mid_watch [OF assms(1,3,2)]) (use assms(4,5) in simp_all)
  show "att_things (join_att L k a aw) = (att_things aw)(a \<mapsto> (k, L # at_membership at))"
    "ent_things (join_att L k a aw) = ent_things aw"
    using assms(4) by (simp_all add: aw)
qed

lemma aware_okI:
  assumes "aware_ok aw" and "lists_same aw aw'" and "aware_mid aw'" and "ents_used aw'" and "atts_used aw'"
  shows "aware_ok aw'"
  using assms lists_same_ok unfolding aware_ok_def by blast

lemma used_upd:
  "ents_used aw \<Longrightarrow> m \<noteq> [] \<Longrightarrow> ent_things aw' = (ent_things aw)(e \<mapsto> (k, m)) \<Longrightarrow> ents_used aw'"
  "atts_used aw \<Longrightarrow> m \<noteq> [] \<Longrightarrow> att_things aw' = (att_things aw)(a \<mapsto> (k', m)) \<Longrightarrow> atts_used aw'"
  "ents_used aw \<Longrightarrow> ent_things aw' = ent_things aw \<Longrightarrow> ents_used aw'"
  "atts_used aw \<Longrightarrow> att_things aw' = att_things aw \<Longrightarrow> atts_used aw'"
  by (auto simp: ents_used_def atts_used_def split: if_splits)

lemma add_ent_ok:
  assumes "aware_ok aw" and "L \<in> heap_dom (aw_lobjs aw)"
  shows "aware_ok (snd (add_ent L i aw))"
proof -
  obtain al where al: "heap_at (aw_lobjs aw) L = Some al" using assms(2) heap_at_dom by (metis option.exhaust)
  have mid: "aware_mid aw" "ents_used aw" "atts_used aw" using assms(1) by (simp_all add: aware_ok_def)
  let ?aw = "with_table L aw"
  obtain al' where T: "aware_mid ?aw" "heap_at (aw_lobjs ?aw) L = Some al'" "ent_things ?aw = ent_things aw"
    "att_things ?aw = att_things aw" "aw_eobjs ?aw = aw_eobjs aw"
    using with_table_ok [OF mid(1) al] .
  have lst: "lst_at ?aw L = al'" using T(2) by (rule lst_at_live)
  have used: "ents_used ?aw" "atts_used ?aw" using mid(2,3) T(3,4) used_upd(3,4) by blast+
  have "aware_mid (snd (add_ent L i aw)) \<and> ents_used (snd (add_ent L i aw)) \<and> atts_used (snd (add_ent L i aw))"
  proof (cases "ab_user i = None \<or> ab_user i = Some [] \<or> map_of (table_rows (al_entries al')) i \<noteq> None")
    case True
    with mid T(1) used show ?thesis by (auto simp: add_ent_def lst Let_def)
  next
    case new: False
    then have no: "map_of (table_rows (al_entries al')) i = None" by simp
    show ?thesis
    proof (cases "ent_find ?aw i")
      case (Some e)
      obtain ae where ae: "heap_at (aw_eobjs ?aw) e = Some ae" "sn_id (ae_aware ae) = i"
        using ent_find_ok [OF T(1) Some] .
      note J = join_ent_ok [OF T(1,2) ae no]
      have "snd (add_ent L i aw) = join_ent L i e ?aw" using new Some by (auto simp: add_ent_def lst Let_def)
      with J used_upd(1) [OF used(1) _ J(2)] used_upd(4) [OF used(2) J(3)] show ?thesis by simp
    next
      case None
      let ?e = "hp_next (aw_eobjs ?aw)" and ?n = "new_ent i ?aw"
      let ?ae = "aware_entry_zero\<lparr>ae_aware := mwAwareSnapshot_zero\<lparr>sn_id := mwAwareIdBlock_clone mwAwareIdBlock_zero i\<rparr>\<rparr>"
      obtain t where t: "aw_entries ?aw = Some t" using T(1) by (rule aware_midE)
      have id: "mwAwareIdBlock_clone mwAwareIdBlock_zero i = i"
        by (cases i) (simp add: mwAwareIdBlock_clone_def mwAwareIdBlock_zero_def)
      have n: "aware_mid ?n" "heap_at (aw_lobjs ?n) L = Some al'" "heap_at (aw_eobjs ?n) ?e = Some ?ae"
        using mid_new_ent [OF T(1) t, of i ?ae] None T(2)
        by (simp_all add: new_ent_def t ent_find_def aware_entry_zero_def id)
      note J = join_ent_ok [OF n _ no, unfolded aware_entry_zero_def, simplified, OF id]
      have th: "ent_things (join_ent L i ?e ?n) = (ent_things ?aw)(?e \<mapsto> (i, [L]))" "att_things (join_ent L i ?e ?n) = att_things ?aw"
        unfolding J by (auto simp: new_ent_def ent_things_def att_things_def)
      have "snd (add_ent L i aw) = join_ent L i ?e ?n" using new None by (auto simp: add_ent_def lst Let_def)
      with J(1) used_upd(1) [OF used(1) _ th(1)] used_upd(4) [OF used(2) th(2)] show ?thesis by simp
    qed
  qed
  then show ?thesis using aware_okI [OF assms(1) lists_same_ops(1)] by blast
qed

lemma add_att_ok:
  assumes "aware_ok aw" and "L \<in> heap_dom (aw_lobjs aw)"
  shows "aware_ok (add_att L k aw)"
proof -
  obtain al where al: "heap_at (aw_lobjs aw) L = Some al" using assms(2) heap_at_dom by (metis option.exhaust)
  have mid: "aware_mid aw" "ents_used aw" "atts_used aw" using assms(1) by (simp_all add: aware_ok_def)
  let ?aw = "with_watch L aw"
  obtain al' where T: "aware_mid ?aw" "heap_at (aw_lobjs ?aw) L = Some al'" "ent_things ?aw = ent_things aw"
    "att_things ?aw = att_things aw" "aw_aobjs ?aw = aw_aobjs aw"
    using with_watch_ok [OF mid(1) al] .
  have lst: "lst_at ?aw L = al'" using T(2) by (rule lst_at_live)
  have used: "ents_used ?aw" "atts_used ?aw" using mid(2,3) T(3,4) used_upd(3,4) by blast+
  have "aware_mid (add_att L k aw) \<and> ents_used (add_att L k aw) \<and> atts_used (add_att L k aw)"
  proof (cases "map_of (table_rows (al_attribs al')) k")
    case (Some a)
    with T(1) used show ?thesis by (auto simp: add_att_def lst Let_def)
  next
    case no: None
    show ?thesis
    proof (cases "att_find ?aw k")
      case (Some a)
      obtain at where at: "heap_at (aw_aobjs ?aw) a = Some at" "at_key at = k"
        using att_find_ok [OF T(1) Some] .
      note J = join_att_ok [OF T(1,2) at no]
      have "add_att L k aw = join_att L k a ?aw" using no Some by (auto simp: add_att_def lst Let_def)
      with J used_upd(2) [OF used(2) _ J(2)] used_upd(3) [OF used(1) J(3)] show ?thesis by simp
    next
      case None
      let ?a = "hp_next (aw_aobjs ?aw)" and ?n = "new_att k ?aw"
      obtain t u where u: "aw_attribs ?aw = Some u" using T(1) by (rule aware_midE)
      have n: "aware_mid ?n" "heap_at (aw_lobjs ?n) L = Some al'" "heap_at (aw_aobjs ?n) ?a = Some (attrib_entry_zero\<lparr>at_key := k\<rparr>)"
        using mid_new_att [OF T(1) u, of k "attrib_entry_zero\<lparr>at_key := k\<rparr>"] None T(2)
        by (simp_all add: new_att_def u att_find_def attrib_entry_zero_def)
      note J = join_att_ok [OF n _ no, unfolded attrib_entry_zero_def, simplified]
      have th: "att_things (join_att L k ?a ?n) = (att_things ?aw)(?a \<mapsto> (k, [L]))" "ent_things (join_att L k ?a ?n) = ent_things ?aw"
        unfolding J by (auto simp: new_att_def ent_things_def att_things_def)
      have "add_att L k aw = join_att L k ?a ?n" using no None by (auto simp: add_att_def lst Let_def)
      with J(1) used_upd(2) [OF used(2) _ th(1)] used_upd(3) [OF used(1) th(2)] show ?thesis by simp
    qed
  qed
  then show ?thesis using aware_okI [OF assms(1) lists_same_ops(2)] by blast
qed

text \<open>Leaving keeps the memberships consistent; it may leave things that nobody has.\<close>

lemma row_alive:
  assumes "aware_mid aw" and "heap_at (aw_lobjs aw) L = Some al"
  shows "map_of (table_rows (al_entries al)) i = Some e \<Longrightarrow> \<exists>ae. heap_at (aw_eobjs aw) e = Some ae"
    and "map_of (table_rows (al_attribs al)) k = Some a \<Longrightarrow> \<exists>at. heap_at (aw_aobjs aw) a = Some at"
proof -
  obtain t u where A: "member_ok t (ent_things aw) (ent_rows aw)" "member_ok u (att_things aw) (att_rows aw)"
    using assms(1) by (rule aware_midE)
  show "map_of (table_rows (al_entries al)) i = Some e \<Longrightarrow> \<exists>ae. heap_at (aw_eobjs aw) e = Some ae"
    using member_okD(6) [OF A(1) things_at(3) [OF assms(2)], of i e, OF map_of_SomeD] by (auto simp: ent_things_def)
  show "map_of (table_rows (al_attribs al)) k = Some a \<Longrightarrow> \<exists>at. heap_at (aw_aobjs aw) a = Some at"
    using member_okD(6) [OF A(2) things_at(4) [OF assms(2)], of k a, OF map_of_SomeD] by (auto simp: att_things_def)
qed

lemma leave_mid:
  assumes "aware_mid aw" and "L \<in> heap_dom (aw_lobjs aw)"
  shows "aware_mid (leave_ent L i aw)" "aware_mid (leave_att L k aw)" "aware_mid (leave_ents L aw)" "aware_mid (leave_atts L aw)"
proof -
  obtain al where al: "heap_at (aw_lobjs aw) L = Some al" using assms(2) heap_at_dom by (metis option.exhaust)
  note lst = lst_at_live [OF al]
  show "aware_mid (leave_ent L i aw)"
  proof (cases "map_of (table_rows (al_entries al)) i")
    case (Some e)
    then obtain ae where ae: "heap_at (aw_eobjs aw) e = Some ae" using row_alive(1) [OF assms(1) al] by blast
    show ?thesis
      using mid_leave [OF assms(1) ae al Some] Some ae al by (simp add: leave_ent_def lst ent_change_def list_change_def)
  qed (simp add: leave_ent_def lst assms(1))
  show "aware_mid (leave_att L k aw)"
  proof (cases "map_of (table_rows (al_attribs al)) k")
    case (Some a)
    then obtain at where at: "heap_at (aw_aobjs aw) a = Some at" using row_alive(2) [OF assms(1) al] by blast
    show ?thesis
      using mid_unwatch [OF assms(1) at al Some] Some at al by (simp add: leave_att_def lst att_change_def list_change_def)
  qed (simp add: leave_att_def lst assms(1))
  show "aware_mid (leave_ents L aw)"
    using mid_drop_ents [OF assms(1) al] al assms(1) drop_ents_state [of L "table_rows (al_entries al)" aw]
    by (simp add: leave_ents_def lst list_change_def)
  show "aware_mid (leave_atts L aw)"
    using mid_drop_atts [OF assms(1) al] al assms(1) drop_atts_state [of L "table_rows (al_attribs al)" aw]
    by (simp add: leave_atts_def lst list_change_def)
qed

lemma leave_used:
  "atts_used aw \<Longrightarrow> atts_used (leave_ent L i aw)" "atts_used aw \<Longrightarrow> atts_used (leave_ents L aw)"
  "ents_used aw \<Longrightarrow> ents_used (leave_att L k aw)" "ents_used aw \<Longrightarrow> ents_used (leave_atts L aw)"
proof -
  have ch: "att_things (list_change L f aw) = att_things aw" "ent_things (list_change L f aw) = ent_things aw"
    "att_things (ent_change e g aw) = att_things aw" "ent_things (att_change a h aw) = ent_things aw" for e a f g h aw
    by (simp_all add: list_change_def ent_change_def att_change_def split: option.split)
  have dr: "att_things (drop_ents L rows aw) = att_things aw" "ent_things (drop_atts L rows' aw) = ent_things aw" for rows rows' aw
    using drop_ents_state drop_atts_state by blast+
  show "atts_used aw \<Longrightarrow> atts_used (leave_ent L i aw)" "atts_used aw \<Longrightarrow> atts_used (leave_ents L aw)"
    "ents_used aw \<Longrightarrow> ents_used (leave_att L k aw)" "ents_used aw \<Longrightarrow> ents_used (leave_atts L aw)"
    by (simp_all add: atts_used_def ents_used_def leave_ent_def leave_att_def leave_ents_def leave_atts_def ch dr split: option.split)
qed

text \<open>Freeing a list, after it has left the list of the service.\<close>

definition free_list :: "'c env \<Rightarrow> 'c aware_code \<Rightarrow> addr \<Rightarrow> mwServiceAware \<Rightarrow> mwServiceAware" where
  "free_list env code L aw =
     (let aw = collect_ents code (leave_ents L (collect_atts env (leave_atts L aw)))
      in aw\<lparr>aw_lobjs := heap_drop L (aw_lobjs aw)\<rparr>)"

lemma leave_rows:
  "heap_at (aw_lobjs aw) L = Some al \<Longrightarrow> \<exists>al'. heap_at (aw_lobjs (leave_atts L aw)) L = Some al' \<and> table_rows (al_attribs al') = []"
  "heap_at (aw_lobjs aw) L = Some al \<Longrightarrow> \<exists>al'. heap_at (aw_lobjs (leave_ents L aw)) L = Some al' \<and> table_rows (al_entries al') = []
     \<and> al_attribs al' = al_attribs al"
  using drop_ents_state [of L "table_rows (al_entries al)" aw] drop_atts_state [of L "table_rows (al_attribs al)" aw]
  by (auto simp: leave_atts_def leave_ents_def lst_at_def list_change_def)

lemma collect_lobjs [simp]:
  "aw_lobjs (collect_ents code aw) = aw_lobjs aw" "aw_lobjs (collect_atts env aw) = aw_lobjs aw"
  "aw_lists (collect_ents code aw) = aw_lists aw" "aw_lists (collect_atts env aw) = aw_lists aw"
  by (simp_all add: collect_ents_def collect_atts_def)

lemma free_list_ok:
  assumes "aware_mid aw" and "ents_used aw" and "L \<in> heap_dom (aw_lobjs aw)"
    and "distinct (aw_lists aw)" and "set (aw_lists aw) = heap_dom (aw_lobjs aw) - {L}"
    and order: "\<And>ks. set (e_order env ks) = set ks" "\<And>ks. set (ac_order code ks) = set ks"
  shows "aware_ok (free_list env code L aw)"
proof -
  let ?a = "leave_atts L aw" let ?b = "collect_atts env ?a" let ?c = "leave_ents L ?b" let ?d = "collect_ents code ?c"
  have same: "lists_same aw ?a" "lists_same ?a ?b" "lists_same ?b ?c" "lists_same ?c ?d"
    by (rule lists_same_ops)+
  then have all: "lists_same aw ?d" "L \<in> heap_dom (aw_lobjs ?b)"
    using assms(3) by (simp_all add: lists_same_def)
  have a: "aware_mid ?a" "ents_used ?a" using leave_mid(4) [OF assms(1,3)] leave_used(4) [OF assms(2)] .
  note b = mid_collect_atts(1) [OF a(1)] mid_collect_atts(2) [OF a(1) order(1)]
  have c: "aware_mid ?c" "atts_used ?c" using leave_mid(3) [OF b(1) all(2)] leave_used(2) [OF b(2)] .
  note d = mid_collect_ents(1) [OF c(1)] mid_collect_ents(2) [OF c(1) order(2)] mid_collect_ents(3) [OF c(1,2)]
  obtain al where "heap_at (aw_lobjs aw) L = Some al" using assms(3) heap_at_dom by (metis option.exhaust)
  from leave_rows(1) [OF this] obtain al1 where al1: "heap_at (aw_lobjs ?b) L = Some al1" "table_rows (al_attribs al1) = []"
    by auto
  from leave_rows(2) [OF al1(1)] al1(2) obtain al2 where
    "heap_at (aw_lobjs ?d) L = Some al2" "table_rows (al_entries al2) = []" "table_rows (al_attribs al2) = []"
    by auto
  note m = mid_free_list [OF d(1) this]
  have "ents_used (free_list env code L aw)" "atts_used (free_list env code L aw)"
    using d(2,3) by (simp_all add: free_list_def Let_def ents_used_def atts_used_def ent_things_def att_things_def)
  moreover have "lists_ok (free_list env code L aw)"
    using all(1) assms(4,5) by (simp add: free_list_def Let_def lists_ok_def lists_same_def)
  ultimately show ?thesis
    using m by (simp add: aware_ok_def free_list_def Let_def)
qed

lemma dom_same: "lists_same aw aw' \<Longrightarrow> heap_dom (aw_lobjs aw') = heap_dom (aw_lobjs aw)"
  by (simp add: lists_same_def)

lemma add_ents_ok:
  "aware_ok aw \<Longrightarrow> L \<in> heap_dom (aw_lobjs aw) \<Longrightarrow> aware_ok (fold (\<lambda>i aw. snd (add_ent L i aw)) ids aw)"
proof (induction ids arbitrary: aw)
  case (Cons i ids)
  show ?case
    using Cons.IH [OF add_ent_ok [OF Cons.prems], of i] Cons.prems(2) dom_same [OF lists_same_ops(1)] by (metis fold_simps(2))
qed simp

lemma add_atts_ok:
  "aware_ok aw \<Longrightarrow> L \<in> heap_dom (aw_lobjs aw) \<Longrightarrow> aware_ok (fold (add_att L) ks aw)"
proof (induction ks arbitrary: aw)
  case (Cons k ks)
  show ?case
    using Cons.IH [OF add_att_ok [OF Cons.prems], of k] Cons.prems(2) dom_same [OF lists_same_ops(2)] by (metis fold_simps(2))
qed simp

lemma leave_some_mid:
  assumes "L \<in> heap_dom (aw_lobjs aw)"
  shows "aware_mid aw \<and> atts_used aw \<Longrightarrow> aware_mid (fold (leave_ent L) ids aw) \<and> atts_used (fold (leave_ent L) ids aw)"
    and "aware_mid aw \<and> ents_used aw \<Longrightarrow> aware_mid (fold (leave_att L) ks aw) \<and> ents_used (fold (leave_att L) ks aw)"
    and "lists_same aw (fold (leave_ent L) ids aw)" "lists_same aw (fold (leave_att L) ks aw)"
proof -
  show "aware_mid aw \<and> atts_used aw \<Longrightarrow> aware_mid (fold (leave_ent L) ids aw) \<and> atts_used (fold (leave_ent L) ids aw)"
    using assms
  proof (induction ids arbitrary: aw)
    case (Cons i ids)
    then have "L \<in> heap_dom (aw_lobjs (leave_ent L i aw))" using dom_same [OF lists_same_ops(3)] by blast
    with Cons leave_mid(1) leave_used(1) show ?case by simp
  qed simp
  show "aware_mid aw \<and> ents_used aw \<Longrightarrow> aware_mid (fold (leave_att L) ks aw) \<and> ents_used (fold (leave_att L) ks aw)"
    using assms
  proof (induction ks arbitrary: aw)
    case (Cons k ks)
    then have "L \<in> heap_dom (aw_lobjs (leave_att L k aw))" using dom_same [OF lists_same_ops(4)] by blast
    with Cons leave_mid(2) leave_used(3) show ?case by simp
  qed simp
  show "lists_same aw (fold (leave_ent L) ids aw)"
    by (induction ids arbitrary: aw) (auto intro: lists_same_trans [OF lists_same_ops(3)])
  show "lists_same aw (fold (leave_att L) ks aw)"
    by (induction ks arbitrary: aw) (auto intro: lists_same_trans [OF lists_same_ops(4)])
qed

lemma collect_ents_ok:
  assumes "aware_ok aw" and "lists_same aw aw'" and "aware_mid aw'" and "atts_used aw'" and "\<And>ks. set (ac_order code ks) = set ks"
  shows "aware_ok (collect_ents code aw')"
  using aware_okI [OF assms(1) lists_same_trans [OF assms(2) lists_same_ops(7)]] mid_collect_ents [OF assms(3)] assms(4,5) by blast

lemma collect_atts_ok:
  assumes "aware_ok aw" and "lists_same aw aw'" and "aware_mid aw'" and "ents_used aw'" and "\<And>ks. set (e_order env ks) = set ks"
  shows "aware_ok (collect_atts env aw')"
  using aware_okI [OF assms(1) lists_same_trans [OF assms(2) lists_same_ops(8)]] mid_collect_atts [OF assms(3)] assms(4,5) by blast

section \<open>Walks\<close>

lemma run_walk: "run_state (walk get f) s = (case while_option (\<lambda>(l, s). l \<noteq> [])
       (\<lambda>(l, s). let t = exec_state (f (hd l)) s in case get t of
          None \<Rightarrow> ([], t\<lparr>ss_fault := True\<rparr>)
        | Some l' \<Rightarrow> if hd l \<in> set l' then (tl (dropWhile (\<lambda>x. x \<noteq> hd l) l'), t) else ([], t\<lparr>ss_fault := True\<rparr>))
       (case get s of None \<Rightarrow> [] | Some l \<Rightarrow> l, s) of
     Some (_, t) \<Rightarrow> ((), t) | None \<Rightarrow> ((), s\<lparr>ss_fault := True\<rparr>))"
  by (simp add: walk_def)

text \<open>A walk visits elements of the list only, as it is at that moment.\<close>

lemma keeps_walk:
  fixes get :: "'c mwSession \<Rightarrow> 'x list option"
  assumes "\<And>s l x. P s \<Longrightarrow> get s = Some l \<Longrightarrow> x \<in> set l \<Longrightarrow> P (exec_state (f x) s)"
    and "\<And>s. P s \<Longrightarrow> P (s\<lparr>ss_fault := True\<rparr>)"
  shows "keeps P (walk get f)"
  unfolding keeps_def
proof (intro allI impI)
  fix s
  assume s: "P s"
  let ?b = "\<lambda>(l, s :: 'c mwSession). l \<noteq> []"
  let ?c = "\<lambda>(l, s). let t = exec_state (f (hd l)) s in case get t of
          None \<Rightarrow> ([], t\<lparr>ss_fault := True\<rparr>)
        | Some l' \<Rightarrow> if hd l \<in> set l' then (tl (dropWhile (\<lambda>x. x \<noteq> hd l) l'), t) else ([], t\<lparr>ss_fault := True\<rparr>)"
  let ?I = "\<lambda>(l, s). P s \<and> (\<forall>x \<in> set l. \<exists>l'. get s = Some l' \<and> x \<in> set l')"
  show "P (exec_state (walk get f) s)"
  proof (cases "while_option ?b ?c (case get s of None \<Rightarrow> [] | Some l \<Rightarrow> l, s)")
    case None
    with s assms(2) show ?thesis by (simp add: run_walk)
  next
    case (Some r)
    have "?I r"
    proof (rule while_option_rule [where P = ?I, OF _ Some])
      fix x
      assume x: "?I x" "?b x"
      obtain l t where lt: "x = (l, t)" by fastforce
      have hd: "hd l \<in> set l" using x(2) lt by simp
      with x(1) lt obtain l' where "get t = Some l'" "hd l \<in> set l'" by blast
      then have "P (exec_state (f (hd l)) t)" using assms(1) x(1) lt by blast
      with assms(2) show "?I (?c x)"
        by (auto simp: lt Let_def split: option.split dest!: list.set_sel(2) [rotated] set_dropWhileD)
    qed (use s in \<open>cases "get s"; simp\<close>)
    then show ?thesis by (cases r) (simp add: run_walk Some)
  qed
qed

lemma keeps_walk_each: "(\<And>x. keeps P (f x)) \<Longrightarrow> (\<And>s. P s \<Longrightarrow> P (s\<lparr>ss_fault := True\<rparr>)) \<Longrightarrow> keeps P (walk get f)"
  by (rule keeps_walk) (auto dest: keepsD)

text \<open>A body that leaves the list alone is run for each element in turn.\<close>

lemma walk_for_each:
  fixes get :: "'c mwSession \<Rightarrow> 'x list option"
  assumes "get s = Some l" and "distinct l" and "Q s"
    and "\<And>x s. x \<in> set l \<Longrightarrow> get s = Some l \<Longrightarrow> Q s \<Longrightarrow> get (exec_state (f x) s) = Some l \<and> Q (exec_state (f x) s)"
  shows "exec_state (walk get f) s = exec_state (for_each f l) s"
proof -
  let ?b = "\<lambda>(l, s :: 'c mwSession). l \<noteq> []"
  let ?c = "\<lambda>(l, s). let t = exec_state (f (hd l)) s in case get t of
          None \<Rightarrow> ([], t\<lparr>ss_fault := True\<rparr>)
        | Some l' \<Rightarrow> if hd l \<in> set l' then (tl (dropWhile (\<lambda>x. x \<noteq> hd l) l'), t) else ([], t\<lparr>ss_fault := True\<rparr>)"
  have "while_option ?b ?c (r, s) = Some ([], exec_state (for_each f r) s)" if "l = p @ r" and "get s = Some l" and "Q s" for p r s
    using that
  proof (induction r arbitrary: p s)
    case Nil
    then show ?case by (simp add: while_option_unfold)
  next
    case (Cons x r)
    have x: "x \<in> set l" "x \<notin> set p" using Cons.prems(1) assms(2) by auto
    have get: "get (exec_state (f x) s) = Some l" "Q (exec_state (f x) s)" using assms(4) x(1) Cons.prems(2,3) by blast+
    have "dropWhile (\<lambda>y. y \<noteq> x) l = x # r"
      using Cons.prems(1) x(2) by (subst Cons.prems(1), subst dropWhile_append2) auto
    with get x(1) have "?c (x # r, s) = (r, exec_state (f x) s)" by (simp add: Let_def)
    with Cons.IH [of "p @ [x]" "exec_state (f x) s"] Cons.prems get show ?case
      by (subst while_option_unfold) (simp add: split_def)
  qed
  from this [of "[]" l s] assms(1,3) show ?thesis by (simp add: run_walk)
qed

section \<open>Every operation keeps the invariant\<close>

text \<open>
  The functions of the client for status and attributes keep the invariant; those that are told
  of the end of a list, and the connection, leave the service alone. GLib visits every key of a
  table.
\<close>

definition aware_code_keeps :: "('c mwSession \<Rightarrow> bool) \<Rightarrow> 'c aware_code \<Rightarrow> bool" where
  "aware_code_keeps P code \<longleftrightarrow> (\<forall>n f L i. alh_on_aware (ac_handler code n) = Some f \<longrightarrow> keeps P (f L i))
     \<and> (\<forall>n f L i a. alh_on_attrib (ac_handler code n) = Some f \<longrightarrow> keeps P (f L i a))"

locale aware_service = aware_slot +
  fixes env :: "'a env" and code :: "'a aware_code"
  assumes env: "env_keeps ok env" and handlers: "aware_code_keeps ok code"
    and clear: "alh_clear (ac_handler code n) = Some f \<Longrightarrow> keeps (\<lambda>s. srvc_of sl s = x) (f L)"
    and wr: "keeps (\<lambda>s. srvc_of sl s = x) (e_io_write env b)"
    and order: "set (e_order env ks) = set ks" "set (ac_order code is) = set is"
begin

lemma send_same [simp]: "srvc_of sl (exec_state (mwChannel_send env c t d) s) = srvc_of sl s"
  using keepsD [OF keeps_channel_write(1) [of "\<lambda>x. x = srvc_of sl s", OF wr, of c t d True]] by (simp add: mwChannel_send_def)

lemma live_same [simp]: "srvc_of sl (exec_state aware_live s) = srvc_of sl s"
  using keepsD [OF srvc.keeps_service_state(2) [of "\<lambda>x. x = srvc_of sl s"]] by (simp add: aware_live_def split_def)

lemma sends_same [simp]:
  "srvc_of sl (exec_state (send_add env c ids) s) = srvc_of sl s" "srvc_of sl (exec_state (send_rem env c ids) s) = srvc_of sl s"
  "srvc_of sl (exec_state (send_attrib_list env sl) s) = srvc_of sl s"
  by (simp_all add: send_add_def send_rem_def send_attrib_list_def split: option.split)

lemma free_heap:
  "srvc_of sl (exec_state (heap_free (aw_eheap sl) e) s) = (srvc_of sl s)\<lparr>aw_eobjs := heap_drop e (aw_eobjs (srvc_of sl s))\<rparr>"
  "srvc_of sl (exec_state (heap_free (aw_aheap sl) a) s) = (srvc_of sl s)\<lparr>aw_aobjs := heap_drop a (aw_aobjs (srvc_of sl s))\<rparr>"
  "srvc_of sl (exec_state (heap_free (aw_lheap sl) L) s) = (srvc_of sl s)\<lparr>aw_lobjs := heap_drop L (aw_lobjs (srvc_of sl s))\<rparr>"
  by (auto simp: run_heap_free aw_eheap_def aw_aheap_def aw_lheap_def heap_drop_gone) (simp_all add: heap_drop_def)

lemma free_all:
  "srvc_of sl (exec_state (for_each (\<lambda>(i, e). heap_free (aw_eheap sl) e) dead) s)
     = (srvc_of sl s)\<lparr>aw_eobjs := fold heap_drop (map snd dead) (aw_eobjs (srvc_of sl s))\<rparr>"
  "srvc_of sl (exec_state (for_each (\<lambda>(k, a). heap_free (aw_aheap sl) a) dead') s)
     = (srvc_of sl s)\<lparr>aw_aobjs := fold heap_drop (map snd dead') (aw_aobjs (srvc_of sl s))\<rparr>"
proof -
  show "srvc_of sl (exec_state (for_each (\<lambda>(i, e). heap_free (aw_eheap sl) e) dead) s)
     = (srvc_of sl s)\<lparr>aw_eobjs := fold heap_drop (map snd dead) (aw_eobjs (srvc_of sl s))\<rparr>"
    by (induction dead arbitrary: s) (simp_all add: split_def free_heap)
  show "srvc_of sl (exec_state (for_each (\<lambda>(k, a). heap_free (aw_aheap sl) a) dead') s)
     = (srvc_of sl s)\<lparr>aw_aobjs := fold heap_drop (map snd dead') (aw_aobjs (srvc_of sl s))\<rparr>"
    by (induction dead' arbitrary: s) (simp_all add: split_def free_heap)
qed

lemmas free_all_beta = free_all [unfolded split_def]

lemma remove_unused_state: "srvc_of sl (exec_state (remove_unused env sl code) s) = collect_ents code (srvc_of sl s)"
proof (cases "dead_entries code (srvc_of sl s) = []")
  case True
  have "filter (\<lambda>x. True) = (\<lambda>t. t :: (mwAwareIdBlock \<times> addr) list)" by (simp add: fun_eq_iff)
  with True show ?thesis by (simp add: remove_unused_def collect_ents_def split_def)
next
  case False
  then show ?thesis by (simp add: remove_unused_def collect_ents_def split_def free_all_beta)
qed

lemma remove_unused_attrib_state: "srvc_of sl (exec_state (remove_unused_attrib env sl) s) = collect_atts env (srvc_of sl s)"
  by (simp add: remove_unused_attrib_def split_def free_all_beta collect_atts_def)

lemma add_all_state:
  "srvc_of sl (exec_state (list_add_all sl L ids adds) s) = fold (\<lambda>i aw. snd (add_ent L i aw)) ids (srvc_of sl s)"
  by (induction ids arbitrary: adds s) (simp_all add: split_def list_add_state)

lemma addAware_state:
  "srvc_of sl (exec_state (mwAwareList_addAware env sl L ids) s) = fold (\<lambda>i aw. snd (add_ent L i aw)) ids (srvc_of sl s)"
  by (simp add: mwAwareList_addAware_def split_def add_all_state)

lemma each_state:
  "srvc_of sl (exec_state (for_each f xs) s) = fold g xs (srvc_of sl s)"
  if "\<And>x s. srvc_of sl (exec_state (f x) s) = g x (srvc_of sl s)" for f g xs
  by (induction xs arbitrary: s) (simp_all add: split_def that)

lemma removeAware_state:
  "srvc_of sl (exec_state (mwAwareList_removeAware env sl code L ids) s) = collect_ents code (fold (leave_ent L) ids (srvc_of sl s))"
proof -
  have one: "srvc_of sl (exec_state (do { aware \<leftarrow> list_aware_find sl L i; case aware of None \<Rightarrow> State_Monad.return ()
       | Some aware \<Rightarrow> do {
           ent_update sl aware (\<lambda>ae. ae\<lparr>ae_membership := remove1 L (ae_membership ae)\<rparr>);
           list_update_at sl L (\<lambda>al. al\<lparr>al_entries := Table (AList.delete i (table_rows (al_entries al)))\<rparr>)
         } }) s) = leave_ent L i (srvc_of sl s)" for i s
    by (simp add: split_def leave_ent_def state split: option.split)
  show ?thesis
    unfolding mwAwareList_removeAware_def by (simp add: split_def remove_unused_state each_state [OF one])
qed

lemma removeAll_state:
  "srvc_of sl (exec_state (mwAwareList_removeAllAware env sl code L) s) = collect_ents code (leave_ents L (srvc_of sl s))"
proof -
  have "srvc_of sl (exec_state (for_each (\<lambda>(i, e). ent_update sl e g) t) s) = fold (\<lambda>(i, e). ent_change e g) t (srvc_of sl s)" for g t s
    by (rule each_state) (simp add: split_def state_changes)
  note each = this [unfolded split_def]
  show ?thesis
    by (simp add: mwAwareList_removeAllAware_def leave_ents_def split_def remove_unused_state state each)
qed

lemma unwatchAll_state:
  "srvc_of sl (exec_state (mwAwareList_unwatchAllAttributes env sl L) s) = collect_atts env (leave_atts L (srvc_of sl s))"
proof -
  have "srvc_of sl (exec_state (for_each (\<lambda>(k, a). att_update sl a g) t) s) = fold (\<lambda>(k, a). att_change a g) t (srvc_of sl s)" for g t s
    by (rule each_state) (simp add: split_def state_changes)
  note each = this [unfolded split_def]
  show ?thesis
    by (simp add: mwAwareList_unwatchAllAttributes_def leave_atts_def split_def remove_unused_attrib_state state each)
qed

lemma watch_state:
  "srvc_of sl (exec_state (mwAwareList_watchAttributes env sl L ks) s) = fold (add_att L) (takeWhile (\<lambda>k. k \<noteq> 0) ks) (srvc_of sl s)"
  "srvc_of sl (exec_state (mwAwareList_unwatchAttributes env sl L ks) s)
     = collect_atts env (fold (leave_att L) (takeWhile (\<lambda>k. k \<noteq> 0) ks) (srvc_of sl s))"
  by (simp_all add: mwAwareList_watchAttributes_def mwAwareList_unwatchAttributes_def split_def remove_unused_attrib_state
      each_state [OF watch_add_state] each_state [OF watch_remove_state])

end

lemma clone_snapshot_id: "sn_id (mwAwareSnapshot_clone (mwAwareSnapshot_clear x) idb) = sn_id idb"
  by (cases "sn_id idb") (simp add: mwAwareSnapshot_clone_def mwAwareSnapshot_clear_def mwAwareSnapshot_zero_def
      mwAwareIdBlock_clone_def mwAwareIdBlock_zero_def Let_def)

lemma ent_change_ok:
  assumes "aware_ok aw" and "\<And>ae. heap_at (aw_eobjs aw) e = Some ae \<Longrightarrow> sn_id (ae_aware (f ae)) = sn_id (ae_aware ae) \<and> ae_membership (f ae) = ae_membership ae"
  shows "aware_ok (ent_change e f aw)"
proof (cases "heap_at (aw_eobjs aw) e")
  case None
  with assms(1) show ?thesis by (simp add: ent_change_def)
next
  case (Some ae)
  then have aw: "ent_change e f aw = aw_ent e (f ae) aw" by (simp add: ent_change_def)
  have mid: "aware_mid aw" "ents_used aw" "atts_used aw" using assms(1) by (simp_all add: aware_ok_def)
  have th: "ent_things (aw_ent e (f ae) aw) = ent_things aw" "att_things (aw_ent e (f ae) aw) = att_things aw"
    using things_at(1) [OF Some] assms(2) [OF Some] by (auto simp: fun_eq_iff)
  have "lists_same aw (aw_ent e (f ae) aw)" using aw by (metis lists_same_change(2))
  then show ?thesis
    unfolding aw using mid_ent [OF mid(1) Some] assms(2) [OF Some] used_upd(3) [OF mid(2) th(1)] used_upd(4) [OF mid(3) th(2)]
    by (intro aware_okI [OF assms(1)]) simp_all
qed

lemma membership_live:
  assumes "aware_ok (srvc_of sl s)" and "membership_of sl e s = Some l" and "L \<in> set l"
  shows "L \<in> heap_dom (aw_lobjs (srvc_of sl s))"
proof -
  let ?aw = "srvc_of sl s"
  obtain ae where ae: "heap_at (aw_eobjs ?aw) e = Some ae" "ae_membership ae = l"
    using assms(2) by (auto simp: membership_of_def)
  obtain t where m: "member_ok t (ent_things ?aw) (ent_rows ?aw)"
    using assms(1) unfolding aware_ok_def by (auto elim: aware_midE)
  have "ent_rows ?aw L \<noteq> None"
    using member_okD(4) [OF m things_at(1) [OF ae(1)], of L] ae(2) assms(3) by auto
  then show ?thesis using heap_at_dom [of "aw_lobjs ?aw" L] by (auto simp: ent_rows_def)
qed

context aware_service
begin

lemma keeps_function:
  assumes "\<And>s. srvc_of sl (exec_state m s) = g (srvc_of sl s)" and "\<And>aw. aware_ok aw \<Longrightarrow> aware_ok (g aw)"
  shows "keeps ok m"
  using assms by (simp add: keeps_def)

lemma keeps_same: "(\<And>s. srvc_of sl (exec_state m s) = srvc_of sl s) \<Longrightarrow> keeps ok m"
  by (simp add: keeps_def)

lemma keeps_reads [keeps_intros]:
  "keeps ok (list_deref sl L)" "keeps ok (table_deref t)" "keeps ok (aware_find sl i)" "keeps ok (list_handler sl code L)"
  "keeps ok (send_add env c ids)" "keeps ok (send_rem env c ids)" "keeps ok (send_attrib_list env sl)" "keeps ok aware_live"
  by (rule keeps_same, simp add: state list_handler_def)+

lemma keeps_channel_set [keeps_intros]: "keeps ok (srvc_modify sl (\<lambda>aw. aw\<lparr>aw_channel := c\<rparr>))"
  by (rule keeps_srvc_modify) (simp add: aware_ok_def aware_mid_def lists_ok_def ents_used_def atts_used_def cong: option.case_cong)

lemma keeps_on_aware [keeps_intros]:
  "keeps ok (do { handler \<leftarrow> list_handler sl code L;
     optionally (Option.bind handler (\<lambda>h. map_option (\<lambda>on_aware. on_aware L idb) (alh_on_aware h))) })"
proof -
  have "keeps ok (optionally (Option.bind (map_option (ac_handler code) n) (\<lambda>h. map_option (\<lambda>on_aware. on_aware L idb) (alh_on_aware h))))" for n
    using handlers unfolding aware_code_keeps_def optionally_def by (cases n) (auto intro: keeps_return split: option.split)
  then show ?thesis
    unfolding list_handler_def State_Monad.bind_assoc State_Monad.bind_left_identity by (intro keeps_intros)
qed

lemma keeps_on_attrib [keeps_intros]:
  "keeps ok (do { handler \<leftarrow> list_handler sl code L;
     case Option.bind handler alh_on_attrib of None \<Rightarrow> State_Monad.return ()
     | Some on_attrib \<Rightarrow> do { al \<leftarrow> list_deref sl L; t \<leftarrow> table_deref (al_attribs al);
         if map_of t k = None then State_Monad.return () else on_attrib L idb old } })"
proof -
  have "keeps ok (case Option.bind (map_option (ac_handler code) n) alh_on_attrib of None \<Rightarrow> State_Monad.return ()
      | Some on_attrib \<Rightarrow> do { al \<leftarrow> list_deref sl L; t \<leftarrow> table_deref (al_attribs al);
          if map_of t k = None then State_Monad.return () else on_attrib L idb old })" for n
    using handlers by (cases n) (auto simp: aware_code_keeps_def intro!: keeps_intros split: option.split)
  then show ?thesis
    unfolding list_handler_def State_Monad.bind_assoc State_Monad.bind_left_identity by (intro keeps_bind keeps_reads)
qed

lemma keeps_status [keeps_intros]: "keeps ok (status_recv sl code idb)"
proof -
  have w: "keeps ok (walk (membership_of sl e) (\<lambda>L. do { handler \<leftarrow> list_handler sl code L;
      optionally (Option.bind handler (\<lambda>h. map_option (\<lambda>on_aware. on_aware L idb) (alh_on_aware h))) }))" for e
    by (rule keeps_walk_each [OF keeps_on_aware]) simp
  show ?thesis
    unfolding keeps_def
  proof (intro allI impI)
    fix s
    assume s: "ok s"
    show "ok (exec_state (status_recv sl code idb) s)"
    proof (cases "ent_find (srvc_of sl s) (sn_id idb)")
      case None
      with s show ?thesis by (simp add: status_recv_def find_run)
    next
      case (Some e)
      let ?f = "\<lambda>ae. ae\<lparr>ae_aware := mwAwareSnapshot_clone (mwAwareSnapshot_clear (ae_aware ae)) idb\<rparr>"
      have "aware_mid (srvc_of sl s)" using s by (simp add: aware_ok_def)
      then obtain ae where "heap_at (aw_eobjs (srvc_of sl s)) e = Some ae" "sn_id (ae_aware ae) = sn_id idb"
        using ent_find_ok [OF _ Some] by blast
      then have "ok (exec_state (ent_update sl e ?f) s)"
        unfolding state_changes by (intro ent_change_ok [OF s]) (simp add: clone_snapshot_id)
      from keepsD [OF w this] Some show ?thesis
        by (simp add: status_recv_def find_run split_def)
    qed
  qed
qed

lemma keeps_attrib [keeps_intros]: "keeps ok (attrib_recv sl code idb a)"
proof -
  have ent: "keeps ok (ent_update sl e (\<lambda>ae. ae\<lparr>ae_attribs := g ae\<rparr>))" for e g
    by (rule keeps_function [OF state_changes(1)]) (rule ent_change_ok, simp_all)
  show ?thesis
    unfolding attrib_recv_def Let_def by (intro keeps_bind keeps_option keeps_return keeps_reads ent keeps_walk_each [OF keeps_on_attrib]) simp
qed

lemma keeps_group [keeps_intros]: "keeps ok (group_member_recv env sl idb)"
proof -
  have "keeps ok (walk (membership_of sl e) (\<lambda>m. do { mwAwareList_addAware env sl m [sn_id idb]; State_Monad.return () }))" for e
    by (rule keeps_walk) (simp_all add: split_def addAware_state membership_live add_ent_ok)
  then show ?thesis
    unfolding group_member_recv_def by (intro keeps_intros)
qed

lemma keeps_snapshots [keeps_intros]: "keeps ok (recv_snapshots env sl code junk n b)"
  by (induction n arbitrary: b) (auto simp: split_def Let_def intro!: keeps_intros)

lemma keeps_recv: "keeps ok (aware_recv env sl code c t data)"
proof -
  have f: "keeps ok fault" by (simp add: keeps_def fault_def)
  show ?thesis
    unfolding aware_recv_def recv_SNAPSHOT_def recv_UPDATE_def recv_OPT_GOT_SET_def recv_OPT_GOT_UNSET_def Let_def split_def
    by (intro keeps_intros env_keepsU [OF env] f)
qed

lemmas E = srvc_calls srvc.keeps_channel [OF env] srvc.keeps_negotiation [OF env] keeps_service_calls [OF env]
  srvc.keeps_service [OF env] env_keepsU [OF env]

lemma keeps_accept: "keeps ok (aware_recv_accept env sl code c ma)"
  unfolding aware_recv_accept_def by (intro keeps_intros E)

lemma keeps_destroy: "keeps ok (aware_recv_destroy env sl c md)"
  unfolding aware_recv_destroy_def by (intro keeps_intros E)

lemma keeps_start: "keeps ok (aware_start env sl)"
  unfolding aware_start_def make_blist_def by (intro keeps_intros E)

lemma keeps_stop: "keeps ok (aware_stop env sl)"
  unfolding aware_stop_def by (intro keeps_intros E)

lemma env_state: "env_keeps ok (aware_install_state sl env)"
  using env keeps_start keeps_stop unfolding env_keeps_def aware_install_state_def by simp

lemma env_messages:
  "env_keeps ok (env\<lparr>e_recv_accept := (e_recv_accept env)(mwService_AWARE \<mapsto> aware_recv_accept env sl code),
     e_recv_destroy := (e_recv_destroy env)(mwService_AWARE \<mapsto> aware_recv_destroy env sl),
     e_recv := (e_recv env)(mwService_AWARE \<mapsto> aware_recv env sl code)\<rparr>)"
  using env keeps_accept keeps_destroy keeps_recv unfolding env_keeps_def by simp

end

end
