(* ===== verification/Aware_Lists.thy ===== *)
theory Aware_Lists
  imports Srvc_Aware
begin

text \<open>
  The life of the lists of the awareness service: lists that are made and freed,
  sequences of calls of the client and messages of the server, and the end of the service.
\<close>

section \<open>Making and freeing a list\<close>

lemma new_list_ok:
  assumes "aware_ok aw" and "table_rows (al_entries x) = []" and "table_rows (al_attribs x) = []"
  shows "aware_ok (aw\<lparr>aw_lobjs := heap_add x (aw_lobjs aw), aw_lists := hp_next (aw_lobjs aw) # aw_lists aw\<rparr>)"
proof -
  let ?aw = "aw\<lparr>aw_lobjs := heap_add x (aw_lobjs aw), aw_lists := hp_next (aw_lobjs aw) # aw_lists aw\<rparr>"
  have objs: "objs_ok (aw_lobjs aw)" using assms(1) unfolding aware_ok_def by (auto elim: aware_midE)
  have new: "hp_next (aw_lobjs aw) \<notin> heap_dom (aw_lobjs aw)"
    using heap_next_None [OF objs] heap_at_dom by blast
  have "aware_mid ?aw" using mid_new_list [OF _ assms(2,3)] assms(1) by (simp add: aware_ok_def)
  moreover have "lists_ok ?aw" using assms(1) new by (auto simp: aware_ok_def lists_ok_def)
  moreover have "ents_used ?aw" "atts_used ?aw"
    using assms(1) by (simp_all add: aware_ok_def ents_used_def atts_used_def ent_things_def att_things_def)
  ultimately show ?thesis by (simp add: aware_ok_def)
qed

text \<open>What happens to the service before \<open>mwAwareList_free\<close> gives up what the list has.\<close>

definition unlist :: "'c aware_code \<Rightarrow> addr \<Rightarrow> mwServiceAware \<Rightarrow> mwServiceAware" where
  "unlist code L aw = (let aw' = aw\<lparr>aw_lists := removeAll L (aw_lists aw)\<rparr>
     in case Option.bind (map_option (ac_handler code) (al_handler (lst_at aw L))) alh_clear of
          None \<Rightarrow> aw' | Some _ \<Rightarrow> list_change L (\<lambda>al. al\<lparr>al_handler := None\<rparr>) aw')"

lemma unlist_ok:
  assumes "aware_ok aw" and "L \<in> heap_dom (aw_lobjs aw)"
  shows "aware_mid (unlist code L aw)" "ents_used (unlist code L aw)" "aw_lists (unlist code L aw) = removeAll L (aw_lists aw)"
    "heap_dom (aw_lobjs (unlist code L aw)) = heap_dom (aw_lobjs aw)"
proof -
  let ?aw = "aw\<lparr>aw_lists := removeAll L (aw_lists aw)\<rparr>"
  obtain al where al: "heap_at (aw_lobjs aw) L = Some al" using assms(2) heap_at_dom by (metis option.exhaust)
  have mid: "aware_mid ?aw" "ents_used ?aw"
    using assms(1) by (simp_all add: aware_ok_def aware_mid_def ents_used_def cong: option.case_cong)
  have ch: "aware_mid (list_change L (\<lambda>al. al\<lparr>al_handler := None\<rparr>) ?aw)"
    using mid_lst [OF mid(1), of L al "al\<lparr>al_handler := None\<rparr>"] al by (simp add: list_change_def)
  have us: "ents_used (list_change L (\<lambda>al. al\<lparr>al_handler := None\<rparr>) ?aw)"
    using mid(2) al by (simp add: list_change_def ents_used_def)
  have ls: "aw_lists (list_change L f ?aw) = removeAll L (aw_lists aw)"
    "heap_dom (aw_lobjs (list_change L f ?aw)) = heap_dom (aw_lobjs aw)" for f
    using lists_same_change(1) [of ?aw L f] by (simp_all add: lists_same_def)
  show "aware_mid (unlist code L aw)" "ents_used (unlist code L aw)" "aw_lists (unlist code L aw) = removeAll L (aw_lists aw)"
    "heap_dom (aw_lobjs (unlist code L aw)) = heap_dom (aw_lobjs aw)"
    by (auto simp: unlist_def Let_def mid ch us ls split: option.split)
qed

context aware_service
begin

lemma new_state: "srvc_of sl (exec_state (mwAwareList_new sl h) s)
    = (let aw = srvc_of sl s in aw\<lparr>aw_lobjs := heap_add (mwAwareList_zero\<lparr>al_handler := Some h\<rparr>) (aw_lobjs aw),
         aw_lists := hp_next (aw_lobjs aw) # aw_lists aw\<rparr>)"
  by (simp add: mwAwareList_new_def run_new Let_def)

lemma keeps_new: "keeps ok (mwAwareList_new sl h)"
  using new_list_ok [of _ "mwAwareList_zero\<lparr>al_handler := Some h\<rparr>"] by (simp add: keeps_def new_state Let_def mwAwareList_zero_def)

lemma free_state: "srvc_of sl (exec_state (mwAwareList_free env sl code L) s) = free_list env code L (unlist code L (srvc_of sl s))"
proof -
  have clear: "srvc_of sl (exec_state (f L) t) = srvc_of sl t" if "alh_clear (ac_handler code n) = Some f" for n f t
    using keepsD [OF clear [OF that] refl] .
  show ?thesis
    by (auto simp: mwAwareList_free_def list_handler_def unlist_def free_list_def Let_def state clear free_heap
        removeAll_state unwatchAll_state bind_eq_Some_conv split: option.split)
qed

lemma free_ok:
  assumes "aware_ok aw" and "L \<in> heap_dom (aw_lobjs aw)"
  shows "aware_ok (free_list env code L (unlist code L aw))"
proof (rule free_list_ok [OF unlist_ok(1,2) [OF assms]])
  have l: "distinct (aw_lists aw)" "set (aw_lists aw) = heap_dom (aw_lobjs aw)"
    using assms(1) by (simp_all add: aware_ok_def lists_ok_def)
  show "distinct (aw_lists (unlist code L aw))"
    using l(1) by (simp add: unlist_ok(3) [OF assms] distinct_removeAll)
  show "set (aw_lists (unlist code L aw)) = heap_dom (aw_lobjs (unlist code L aw)) - {L}"
    using l(2) by (simp add: unlist_ok(3,4) [OF assms])
qed (simp_all add: unlist_ok(4) [OF assms] assms(2) order)

end

section \<open>The end of the service\<close>

text \<open>Once it has no list, the service has no entry and no watched attribute.\<close>

lemma no_lists:
  assumes "aware_ok aw" and "aw_lists aw = []"
  shows "aw_entries aw = Some []" "aw_attribs aw = Some []"
    "heap_dom (aw_eobjs aw) = {}" "heap_dom (aw_aobjs aw) = {}" "heap_dom (aw_lobjs aw) = {}"
proof -
  have used: "ents_used aw" "atts_used aw" and dom: "heap_dom (aw_lobjs aw) = {}"
    using assms by (simp_all add: aware_ok_def lists_ok_def)
  obtain t u where A: "aw_entries aw = Some t" "member_ok t (ent_things aw) (ent_rows aw)"
    "aw_attribs aw = Some u" "member_ok u (att_things aw) (att_rows aw)"
    using assms(1) unfolding aware_ok_def by (auto elim: aware_midE)
  have rows: "ent_rows aw L = None" "att_rows aw L = None" for L
    using dom by (simp_all add: ent_rows_def att_rows_def)
  have e: "ent_things aw e = None" for e
  proof (cases "ent_things aw e")
    case (Some x)
    then obtain k m where x: "ent_things aw e = Some (k, m)" by (cases x) auto
    then have "m \<noteq> []" using used(1) by (simp add: ents_used_def)
    then obtain L where "L \<in> set m" by (cases m) auto
    with member_okD(4) [OF A(2) x] rows(1) show ?thesis by simp
  qed
  have a: "att_things aw a = None" for a
  proof (cases "att_things aw a")
    case (Some x)
    then obtain k m where x: "att_things aw a = Some (k, m)" by (cases x) auto
    then have "m \<noteq> []" using used(2) by (simp add: atts_used_def)
    then obtain L where "L \<in> set m" by (cases m) auto
    with member_okD(4) [OF A(4) x] rows(2) show ?thesis by simp
  qed
  have "t = []" using member_okD(2) [OF A(2)] e by (cases t) force+
  moreover have "u = []" using member_okD(2) [OF A(4)] a by (cases u) force+
  ultimately show "aw_entries aw = Some []" "aw_attribs aw = Some []" using A by simp_all
  show "heap_dom (aw_eobjs aw) = {}" using e heap_at_dom [of "aw_eobjs aw"] by (force simp: ent_things_def)
  show "heap_dom (aw_aobjs aw) = {}" using a heap_at_dom [of "aw_aobjs aw"] by (force simp: att_things_def)
  show "heap_dom (aw_lobjs aw) = {}" by (rule dom)
qed

lemma unlist_lists: "aw_lists (unlist code L aw) = removeAll L (aw_lists aw)"
  using lists_same_change(1) [of "aw\<lparr>aw_lists := removeAll L (aw_lists aw)\<rparr>" L]
  by (simp add: unlist_def Let_def lists_same_def split: option.split)

lemma free_list_lists: "aw_lists (free_list env code L aw) = aw_lists aw"
  using lists_same_ops(5) [of _ L] lists_same_ops(6) [of aw L] by (simp add: free_list_def Let_def lists_same_def)

context aware_service
begin

lemma clear_empties:
  assumes "ok s" and "t = srvc_of sl (exec_state (aware_clear env sl code) s)"
  shows "aw_lists t = []" "heap_dom (aw_eobjs t) = {}" "heap_dom (aw_aobjs t) = {}" "heap_dom (aw_lobjs t) = {}"
    "aw_entries t = None" "aw_attribs t = None"
proof -
  let ?m = "do { l \<leftarrow> srvc_get sl aw_lists; mwAwareList_free env sl code (hd l) }"
  let ?w = "exec_state (while_do (\<lambda>s. aw_lists (srvc_of sl s) \<noteq> []) ?m) s"
  have step: "ok (exec_state ?m u) \<and> length (aw_lists (srvc_of sl (exec_state ?m u))) < length (aw_lists (srvc_of sl u))"
    if u: "ok u" "aw_lists (srvc_of sl u) \<noteq> []" for u
  proof -
    have "hd (aw_lists (srvc_of sl u)) \<in> heap_dom (aw_lobjs (srvc_of sl u))"
      using u hd_in_set [OF u(2)] by (simp only: aware_ok_def lists_ok_def)
    from free_ok [OF u(1) this] length_removeAll_less [of "hd (aw_lists (srvc_of sl u))", OF hd_in_set [OF u(2)]] show ?thesis
      by (simp add: free_state free_list_lists unlist_lists)
  qed
  have w: "ok ?w" "aw_lists (srvc_of sl ?w) = []"
    using while_do_empties [where P = ok and l = "\<lambda>s. aw_lists (srvc_of sl s)" and m = ?m, OF step assms(1)] by simp_all
  note none = no_lists [OF w]
  show "aw_lists t = []" "heap_dom (aw_eobjs t) = {}" "heap_dom (aw_aobjs t) = {}" "heap_dom (aw_lobjs t) = {}"
    "aw_entries t = None" "aw_attribs t = None"
    using none w(2) unfolding assms(2) by (simp_all add: aware_clear_def split_def)
qed

end

section \<open>Calls\<close>

text \<open>The calls of the client on its lists, the messages of the connection, and the stop of the service.\<close>

datatype aware_call =
    Aware_new nat
  | Aware_add addr "mwAwareIdBlock list"
  | Aware_remove addr "mwAwareIdBlock list"
  | Aware_removeAll addr
  | Aware_watch addr "guint32 list"
  | Aware_watchArray addr "guint32 list option"
  | Aware_unwatch addr "guint32 list"
  | Aware_unwatchArray addr "guint32 list option"
  | Aware_unwatchAll addr
  | Aware_free addr
  | Aware_setStatus mwAwareIdBlock mwUserStatus
  | Aware_setAttribute guint32 mwOpaque
  | Aware_unsetAttribute guint32
  | Aware_stop
  | Aware_message bytes

fun aware_call_list :: "aware_call \<Rightarrow> addr option" where
  "aware_call_list (Aware_add L _) = Some L"
| "aware_call_list (Aware_remove L _) = Some L"
| "aware_call_list (Aware_removeAll L) = Some L"
| "aware_call_list (Aware_watch L _) = Some L"
| "aware_call_list (Aware_watchArray L _) = Some L"
| "aware_call_list (Aware_unwatch L _) = Some L"
| "aware_call_list (Aware_unwatchArray L _) = Some L"
| "aware_call_list (Aware_unwatchAll L) = Some L"
| "aware_call_list (Aware_free L) = Some L"
| "aware_call_list _ = None"

fun aware_call_run :: "'c env \<Rightarrow> 'c aware_slot \<Rightarrow> 'c aware_code \<Rightarrow> aware_call \<Rightarrow> ('c, unit) M" where
  "aware_call_run env sl code (Aware_new h) = do { mwAwareList_new sl h; State_Monad.return () }"
| "aware_call_run env sl code (Aware_add L ids) = do { mwAwareList_addAware env sl L ids; State_Monad.return () }"
| "aware_call_run env sl code (Aware_remove L ids) = do { mwAwareList_removeAware env sl code L ids; State_Monad.return () }"
| "aware_call_run env sl code (Aware_removeAll L) = do { mwAwareList_removeAllAware env sl code L; State_Monad.return () }"
| "aware_call_run env sl code (Aware_watch L ks) = do { mwAwareList_watchAttributes env sl L ks; State_Monad.return () }"
| "aware_call_run env sl code (Aware_watchArray L ks) = do { mwAwareList_watchAttributeArray env sl L ks; State_Monad.return () }"
| "aware_call_run env sl code (Aware_unwatch L ks) = do { mwAwareList_unwatchAttributes env sl L ks; State_Monad.return () }"
| "aware_call_run env sl code (Aware_unwatchArray L ks) = do { mwAwareList_unwatchAttributeArray env sl L ks; State_Monad.return () }"
| "aware_call_run env sl code (Aware_unwatchAll L) = do { mwAwareList_unwatchAllAttributes env sl L; State_Monad.return () }"
| "aware_call_run env sl code (Aware_free L) = mwAwareList_free env sl code L"
| "aware_call_run env sl code (Aware_setStatus user stat) = mwServiceAware_setStatus sl code user stat"
| "aware_call_run env sl code (Aware_setAttribute k d) = do { mwServiceAware_setAttribute env sl k d; State_Monad.return () }"
| "aware_call_run env sl code (Aware_unsetAttribute k) = do { mwServiceAware_unsetAttribute env sl k; State_Monad.return () }"
| "aware_call_run env sl code Aware_stop = mwService_stop env mwService_AWARE"
| "aware_call_run env sl code (Aware_message b) = session_process env b"

text \<open>The states after calls in any order, each on a list that has not been freed.\<close>

inductive aware_reach :: "'c env \<Rightarrow> 'c aware_slot \<Rightarrow> 'c aware_code \<Rightarrow> 'c mwSession \<Rightarrow> 'c mwSession \<Rightarrow> bool"
  for env sl code s where
    here: "aware_reach env sl code s s"
  | call: "aware_reach env sl code s t \<Longrightarrow> (\<And>L. aware_call_list c = Some L \<Longrightarrow> L \<in> heap_dom (aw_lobjs (srvc_of sl t)))
      \<Longrightarrow> aware_reach env sl code s (exec_state (aware_call_run env sl code c) t)"

context aware_service
begin

lemma watch_array_state: "srvc_of sl (exec_state (watch_array sl L k) s) = srvc_of sl s"
proof -
  have "while_option (\<lambda>_. True) c s = None" for c :: "'a mwSession \<Rightarrow> 'a mwSession"
    by (cases "while_option (\<lambda>_. True) c s") (auto dest: while_option_stop)
  moreover have "while_option (\<lambda>_. False) c s = Some s" for c :: "'a mwSession \<Rightarrow> 'a mwSession"
    by (subst while_option_unfold) simp
  ultimately show ?thesis
    by (cases "k = 0") (simp_all add: watch_array_def run_while_do)
qed

lemma ok_call:
  assumes "ok s" and "\<And>L. aware_call_list c = Some L \<Longrightarrow> L \<in> heap_dom (aw_lobjs (srvc_of sl s))"
  shows "ok (exec_state (aware_call_run env sl code c) s)"
proof -
  have mid: "aware_mid (srvc_of sl s)" "ents_used (srvc_of sl s)" "atts_used (srvc_of sl s)"
    using assms(1) by (simp_all add: aware_ok_def)
  have coll: "aware_ok (collect_atts env (srvc_of sl s))"
    using collect_atts_ok [OF assms(1) _ mid(1,2) order(1)] by simp
  have send: "srvc_of sl (exec_state (srvc_send env ch t d) s) = srvc_of sl s" for ch t d
    by (simp add: srvc_send_def split: option.split)
  show ?thesis
  proof (cases c)
    case (Aware_remove L ids)
    with leave_some_mid [OF assms(2)] mid show ?thesis
      by (auto simp: removeAware_state split_def intro!: collect_ents_ok [OF assms(1)] order)
  next
    case (Aware_removeAll L)
    with leave_mid(3) [OF mid(1) assms(2)] leave_used(2) [OF mid(3)] lists_same_ops(5) show ?thesis
      by (auto simp: removeAll_state split_def intro!: collect_ents_ok [OF assms(1)] order)
  next
    case (Aware_unwatch L ks)
    with leave_some_mid [OF assms(2)] mid show ?thesis
      by (auto simp: watch_state split_def intro!: collect_atts_ok [OF assms(1)] order)
  next
    case (Aware_unwatchAll L)
    with leave_mid(4) [OF mid(1) assms(2)] leave_used(4) [OF mid(2)] lists_same_ops(6) show ?thesis
      by (auto simp: unwatchAll_state split_def intro!: collect_atts_ok [OF assms(1)] order)
  next
    case (Aware_free L)
    with free_ok [OF assms(1,2)] show ?thesis by (simp add: free_state)
  next
    case (Aware_new h)
    with keepsD [OF keeps_new assms(1)] show ?thesis by (simp add: split_def)
  next
    case Aware_stop
    with keepsD [OF srvc.keeps_service(2) [OF env] assms(1)] show ?thesis by simp
  next
    case (Aware_message b)
    with keepsD [OF srvc.keeps_process [OF env] assms(1)] show ?thesis by simp
  next
    case (Aware_setStatus u st)
    with keepsD [OF keeps_status assms(1)] show ?thesis by (simp add: mwServiceAware_setStatus_def)
  next
    case (Aware_setAttribute k d)
    with assms(1) show ?thesis by (simp add: split_def mwServiceAware_setAttribute_def send)
  next
    case (Aware_unsetAttribute k)
    with assms(1) show ?thesis by (simp add: split_def mwServiceAware_unsetAttribute_def send)
  next
    case (Aware_watchArray L ks)
    with assms(1) show ?thesis by (cases ks) (simp_all add: split_def mwAwareList_watchAttributeArray_def watch_array_state)
  next
    case (Aware_unwatchArray L ks)
    with assms(1) coll show ?thesis
      by (cases ks) (simp_all add: split_def mwAwareList_unwatchAttributeArray_def watch_array_state remove_unused_attrib_state)
  next
    case (Aware_add L ids)
    with add_ents_ok [OF assms(1,2)] show ?thesis by (simp add: split_def addAware_state)
  next
    case (Aware_watch L ks)
    with add_atts_ok [OF assms(1,2)] show ?thesis by (simp add: split_def watch_state)
  qed
qed

lemma ok_reach: "aware_reach env sl code s t \<Longrightarrow> ok s \<Longrightarrow> ok t"
  proof (induction rule: aware_reach.induct)
  case (call t c)
  show ?case by (rule ok_call [OF call.IH [OF call.prems] call.hyps(2)])
qed

end

lemma aware_service_env:
  assumes "aware_service sl env code" and "env_keeps (\<lambda>s. aware_ok (srvc_of sl s)) env'"
    and "e_io_write env' = e_io_write env" and "e_order env' = e_order env"
  shows "aware_service sl env' code"
  using assms by (simp add: aware_service_def aware_service_axioms_def)

lemma aware_service_install:
  assumes "aware_service sl env code"
  shows "aware_service sl (aware_install sl code env) code"
proof -
  have s: "aware_service sl (aware_install_state sl env) code"
    by (rule aware_service_env [OF assms aware_service.env_state [OF assms]]) (simp_all add: aware_install_state_def)
  have "env_keeps (\<lambda>s. aware_ok (srvc_of sl s)) (aware_install sl code env)"
    using aware_service.env_messages [OF s] by (simp add: aware_install_def Let_def)
  then show ?thesis
    by (rule aware_service_env [OF s]) (simp_all add: aware_install_def Let_def)
qed


section \<open>A client that records\<close>

datatype aware_event =
    Ev_aware addr mwAwareSnapshot
  | Ev_attrib addr mwAwareIdBlock mwAwareAttribute
  | Ev_clear addr

record aware_client =
  awc_aware :: mwServiceAware
  awc_wire :: "bytes list"
  awc_log :: "aware_event list"

definition awc_slot :: "aware_client aware_slot" where
  "awc_slot = \<lparr>sl_get = awc_aware, sl_put = (\<lambda>x c. c\<lparr>awc_aware := x\<rparr>)\<rparr>"

definition awc_env :: "aware_client env" where
  "awc_env = plain_env (\<lambda>b c. c\<lparr>awc_wire := awc_wire c @ [b]\<rparr>)"

definition awc_record :: "aware_event \<Rightarrow> (aware_client, unit) M" where
  "awc_record ev = modify (\<lambda>s. s\<lparr>ss_client := (ss_client s)\<lparr>awc_log := awc_log (ss_client s) @ [ev]\<rparr>\<rparr>)"

definition awc_code :: "aware_client aware_code" where
  "awc_code = \<lparr>
     ac_handler = (\<lambda>n. \<lparr>alh_on_aware = Some (\<lambda>L i. awc_record (Ev_aware L i)),
       alh_on_attrib = Some (\<lambda>L i a. awc_record (Ev_attrib L i a)), alh_clear = Some (\<lambda>L. awc_record (Ev_clear L))\<rparr>),
     ac_order = (\<lambda>is. is)\<rparr>"

definition awc_start :: "aware_client mwSession" where
  "awc_start = mwSession_zero \<lparr>awc_aware = mwServiceAware_new, awc_wire = [], awc_log = []\<rparr>"

lemma awc_of [simp]: "srvc_of awc_slot s = awc_aware (ss_client s)"
  by (simp add: srvc_of_def awc_slot_def)

lemma awc_set [simp]: "srvc_set awc_slot x s = s\<lparr>ss_client := (ss_client s)\<lparr>awc_aware := x\<rparr>\<rparr>"
  by (simp add: srvc_set_def awc_slot_def)

interpretation awc: aware_service awc_slot awc_env awc_code
proof
  show "env_keeps (\<lambda>s. aware_ok (srvc_of awc_slot s)) awc_env"
    unfolding awc_env_def by (rule plain_env_keeps) (simp add: awc_slot_def)
qed (auto simp: awc_slot_def awc_code_def awc_env_def plain_env_def awc_record_def aware_code_keeps_def srvc_of_def keeps_def)

definition awc_user :: mwAwareIdBlock where
  "awc_user = \<lparr>ab_type = 2, ab_user = Some [65], ab_community = None\<rparr>"


section \<open>Reports of the server\<close>

text \<open>The lists that are told of a user, and the snapshot of the user that is kept.\<close>

definition told :: "mwServiceAware \<Rightarrow> mwAwareIdBlock \<Rightarrow> addr list" where
  "told aw i = (case ent_find aw i of None \<Rightarrow> [] | Some e \<Rightarrow>
     (case heap_at (aw_eobjs aw) e of None \<Rightarrow> [] | Some ae \<Rightarrow> ae_membership ae))"

definition known :: "mwServiceAware \<Rightarrow> mwAwareIdBlock \<Rightarrow> mwAwareSnapshot option" where
  "known aw i = Option.bind (ent_find aw i) (\<lambda>e. map_option ae_aware (heap_at (aw_eobjs aw) e))"

definition set_status :: "mwAwareSnapshot \<Rightarrow> mwServiceAware \<Rightarrow> mwServiceAware" where
  "set_status x aw = (case ent_find aw (sn_id x) of None \<Rightarrow> aw
   | Some e \<Rightarrow> ent_change e (\<lambda>ae. ae\<lparr>ae_aware := mwAwareSnapshot_clone (mwAwareSnapshot_clear (ae_aware ae)) x\<rparr>) aw)"

definition all_handled :: "mwServiceAware \<Rightarrow> bool" where
  "all_handled aw \<longleftrightarrow> (\<forall>L al. heap_at (aw_lobjs aw) L = Some al \<longrightarrow> al_handler al \<noteq> None)"

lemma told_lists:
  assumes "aware_ok aw"
  shows "distinct (told aw i)"
    and "L \<in> set (told aw i) \<longleftrightarrow> map_of (table_rows (al_entries (lst_at aw L))) i \<noteq> None"
proof -
  obtain t where t: "aw_entries aw = Some t" "member_ok t (ent_things aw) (ent_rows aw)"
    using assms unfolding aware_ok_def by (auto elim: aware_midE)
  have told: "told aw i = m" if "ent_things aw e = Some (i, m)" for e m
    using that member_ok_find(1) [OF t(2), of i e] by (auto simp: told_def ent_find_def t(1) ent_things_def)
  have none: "told aw i = []" if "\<nexists>e m. ent_things aw e = Some (i, m)"
    using that member_ok_find(1) [OF t(2), of i] by (simp add: told_def ent_find_def t(1) split: option.split)
  show "distinct (told aw i)"
    using told none member_okD(3) [OF t(2)] by (metis distinct.simps(1))
  have row: "map_of (table_rows (al_entries (lst_at aw L))) i = Some e \<longleftrightarrow> (\<exists>rows. ent_rows aw L = Some rows \<and> (i, e) \<in> set rows)" for e
    using member_ok_find(2) [OF t(2), of L _ i e]
    by (cases "heap_at (aw_lobjs aw) L") (auto simp: lst_at_def ent_rows_def mwAwareList_zero_def)
  show "L \<in> set (told aw i) \<longleftrightarrow> map_of (table_rows (al_entries (lst_at aw L))) i \<noteq> None"
  proof (cases "\<exists>e m. ent_things aw e = Some (i, m)")
    case True
    then obtain e m where e: "ent_things aw e = Some (i, m)" by blast
    have "e' = e" if "ent_things aw e' = Some (i, m')" for e' m'
      using member_ok_find(1) [OF t(2), of i] e that by (metis option.inject)
    then have "map_of (table_rows (al_entries (lst_at aw L))) i = Some e' \<Longrightarrow> e' = e" for e'
      using row member_okD(6) [OF t(2)] by meson
    then have "map_of (table_rows (al_entries (lst_at aw L))) i \<noteq> None \<longleftrightarrow> map_of (table_rows (al_entries (lst_at aw L))) i = Some e"
      by fastforce
    with row member_okD(4) [OF t(2) e] told [OF e] show ?thesis by simp
  next
    case False
    then have "map_of (table_rows (al_entries (lst_at aw L))) i \<noteq> Some e" for e
      using row member_okD(6) [OF t(2)] by meson
    then have "map_of (table_rows (al_entries (lst_at aw L))) i = None" by fastforce
    with none False show ?thesis by simp
  qed
qed

lemma set_status_same:
  assumes "aware_ok aw"
  shows "aware_ok (set_status x aw)" "told (set_status x aw) = told aw" "aw_lobjs (set_status x aw) = aw_lobjs aw"
    "aw_channel (set_status x aw) = aw_channel aw" "ent_find (set_status x aw) = ent_find aw"
    "known (set_status x aw) i = (if i = sn_id x \<and> known aw i \<noteq> None
       then Some (mwAwareSnapshot_clone mwAwareSnapshot_zero x) else known aw i)"
proof -
  have mid: "aware_mid aw" using assms by (simp add: aware_ok_def)
  have id: "sn_id (ae_aware ae) = sn_id x" if "ent_find aw (sn_id x) = Some e" "heap_at (aw_eobjs aw) e = Some ae" for e ae
    by (rule ent_find_ok [OF mid that(1)]) (simp add: that(2))
  show "aware_ok (set_status x aw)"
    using assms id by (auto simp: set_status_def clone_snapshot_id intro!: ent_change_ok split: option.split)
  show find: "ent_find (set_status x aw) = ent_find aw"
    by (auto simp: set_status_def ent_change_def ent_find_def fun_eq_iff split: option.split)
  show "told (set_status x aw) = told aw"
    unfolding fun_eq_iff told_def find by (auto simp: set_status_def ent_change_def split: option.split)
  show "aw_lobjs (set_status x aw) = aw_lobjs aw" "aw_channel (set_status x aw) = aw_channel aw"
    by (auto simp: set_status_def ent_change_def split: option.split)
  have inj: "i = sn_id x" if "ent_find aw i = Some e" "ent_find aw (sn_id x) = Some e" for e
    by (rule ent_find_ok [OF mid that(1)], rule ent_find_ok [OF mid that(2)]) simp
  have alive: "\<exists>ae. heap_at (aw_eobjs aw) e = Some ae" if "ent_find aw i = Some e" for i e
    using ent_find_ok [OF mid that] by blast
  show "known (set_status x aw) i = (if i = sn_id x \<and> known aw i \<noteq> None
       then Some (mwAwareSnapshot_clone mwAwareSnapshot_zero x) else known aw i)"
  proof (cases "ent_find aw (sn_id x)")
    case None
    then show ?thesis by (auto simp: set_status_def known_def)
  next
    case (Some e)
    then obtain ae where ae: "heap_at (aw_eobjs aw) e = Some ae" using alive by blast
    have aw: "set_status x aw = aw_ent e (ae\<lparr>ae_aware := mwAwareSnapshot_clone mwAwareSnapshot_zero x\<rparr>) aw"
      using Some ae by (simp add: set_status_def ent_change_def mwAwareSnapshot_clear_def)
    show ?thesis
    proof (cases "i = sn_id x")
      case True
      with Some ae show ?thesis unfolding known_def find by (simp add: aw)
    next
      case False
      with inj Some have "ent_find aw i \<noteq> Some e" by blast
      with False show ?thesis unfolding known_def find by (auto simp: aw bind_eq_Some_conv split: option.split Option.bind_split)
    qed
  qed
qed

text \<open>A walk that only records.\<close>

definition awc_add :: "aware_event list \<Rightarrow> aware_client mwSession \<Rightarrow> aware_client mwSession" where
  "awc_add evs s = s\<lparr>ss_client := (ss_client s)\<lparr>awc_log := awc_log (ss_client s) @ evs\<rparr>\<rparr>"

lemma awc_add_simps [simp]:
  "awc_aware (ss_client (awc_add evs s)) = awc_aware (ss_client s)" "awc_log (ss_client (awc_add evs s)) = awc_log (ss_client s) @ evs"
  "awc_add xs (awc_add ys s) = awc_add (ys @ xs) s" "awc_add [] s = s"
  by (simp_all add: awc_add_def)

lemma awc_walk:
  assumes "membership_of awc_slot e s = Some l" and "distinct l"
    and "\<And>L u. L \<in> set l \<Longrightarrow> aw_lobjs (awc_aware (ss_client u)) = aw_lobjs (awc_aware (ss_client s)) \<Longrightarrow> exec_state (f L) u = awc_add (ev L) u"
  shows "exec_state (walk (membership_of awc_slot e) f) s = awc_add (concat (map ev l)) s"
proof -
  let ?Q = "\<lambda>u. aw_lobjs (awc_aware (ss_client u)) = aw_lobjs (awc_aware (ss_client s))"
  have each: "exec_state (for_each f m) u = awc_add (concat (map ev m)) u" if "set m \<subseteq> set l" "?Q u" for m u
    using that by (induction m arbitrary: u) (simp_all add: assms(3) split_def)
  have "exec_state (walk (membership_of awc_slot e) f) s = exec_state (for_each f l) s"
    by (rule walk_for_each [where Q = ?Q]) (use assms in \<open>simp_all add: membership_of_def\<close>)
  with each show ?thesis by simp
qed

lemma told_live:
  assumes "aware_ok aw" and "all_handled aw" and "L \<in> set (told aw i)"
  obtains n al where "heap_at (aw_lobjs aw) L = Some al" "al_handler al = Some n" "lst_at aw L = al"
proof -
  have "heap_at (aw_lobjs aw) L \<noteq> None"
    using told_lists(2) [OF assms(1), of L i] assms(3)
    by (cases "heap_at (aw_lobjs aw) L") (auto simp: lst_at_def mwAwareList_zero_def)
  with assms(2) that show ?thesis by (auto simp: all_handled_def lst_at_def)
qed

lemma awc_status:
  assumes "aware_ok (awc_aware (ss_client s))" and "all_handled (awc_aware (ss_client s))"
  shows "exec_state (status_recv awc_slot awc_code x) s = awc_add (map (\<lambda>L. Ev_aware L x) (told (awc_aware (ss_client s)) (sn_id x)))
      (srvc_set awc_slot (set_status x (awc_aware (ss_client s))) s)"
proof (cases "ent_find (awc_aware (ss_client s)) (sn_id x)")
  case None
  then show ?thesis by (simp add: status_recv_def awc.find_run set_status_def told_def)
next
  case (Some e)
  let ?aw = "awc_aware (ss_client s)"
  let ?f = "\<lambda>L. do { handler \<leftarrow> list_handler awc_slot awc_code L;
      optionally (Option.bind handler (\<lambda>h. map_option (\<lambda>on_aware. on_aware L x) (alh_on_aware h))) }"
  let ?g = "\<lambda>ae. ae\<lparr>ae_aware := mwAwareSnapshot_clone (mwAwareSnapshot_clear (ae_aware ae)) x\<rparr>"
  let ?t = "srvc_set awc_slot (set_status x ?aw) s"
  have "aware_mid ?aw" using assms(1) by (simp add: aware_ok_def)
  then obtain ae where ae: "heap_at (aw_eobjs ?aw) e = Some ae" by (rule ent_find_ok [OF _ Some])
  have told: "told ?aw (sn_id x) = ae_membership ae" using Some ae by (simp add: told_def)
  have upd: "run_state (ent_update awc_slot e ?g) s = ((), ?t)"
    using awc.run_ent(2) [of s e ae ?g] ae Some by (simp add: set_status_def ent_change_def)
  have m: "membership_of awc_slot e ?t = Some (ae_membership ae)"
    using ae Some by (simp add: membership_of_def set_status_def ent_change_def)
  have one: "exec_state (?f L) u = awc_add [Ev_aware L x] u"
    if u: "L \<in> set (ae_membership ae)" "aw_lobjs (awc_aware (ss_client u)) = aw_lobjs (awc_aware (ss_client ?t))" for L u
  proof -
    obtain n al where "heap_at (aw_lobjs ?aw) L = Some al" "al_handler al = Some n"
      using u(1) by (auto simp: told intro: told_live [OF assms, of L "sn_id x"])
    then show ?thesis
      using awc.run_lst(1) [of u L al] u(2)
      by (simp add: set_status_same(3) [OF assms(1)] list_handler_def awc_code_def awc_record_def awc_add_def optionally_def)
  qed
  have "exec_state (walk (membership_of awc_slot e) ?f) ?t = awc_add (concat (map (\<lambda>L. [Ev_aware L x]) (ae_membership ae))) ?t"
    by (rule awc_walk [OF m _ one]) (use told_lists(1) [OF assms(1), of "sn_id x"] told in simp_all)
  then show ?thesis
    using upd Some by (simp add: status_recv_def awc.find_run split_def told)
qed

text \<open>
  The message with which the server reports: each snapshot with the offset of the end of its
  block, here one that skips nothing, and of no group.
\<close>

definition snapshots_wire :: "(guint32 \<times> mwAwareSnapshot) list \<Rightarrow> bytes" where
  "snapshots_wire xs = MW32_PUT (of_nat (length xs)) @ concat (map (\<lambda>(eob, x). mwAwareSnapshot_wire eob x) xs)"

definition snapshot_plain :: "guint32 \<times> mwAwareSnapshot \<Rightarrow> bool" where
  "snapshot_plain ex = (case ex of (eob, x) \<Rightarrow> mwAwareSnapshot_valid x \<and> string_norm (sn_group x) = None
     \<and> unat eob \<le> length (mwAwareSnapshot_wire eob x))"

abbreviation reported :: "(guint32 \<times> mwAwareSnapshot) list \<Rightarrow> mwAwareSnapshot list" where
  "reported xs \<equiv> map (\<lambda>(eob, x). mwAwareSnapshot_norm x) xs"

lemma clone_norm:
  assumes "string_norm (sn_group x) = None"
  shows "mwAwareSnapshot_clone mwAwareSnapshot_zero (mwAwareSnapshot_norm x) = mwAwareSnapshot_norm x"
  using assms
  by (cases x; cases "sn_id x"; cases "sn_status x")
    (simp add: mwAwareSnapshot_clone_def mwAwareSnapshot_norm_def mwAwareSnapshot_zero_def mwAwareIdBlock_clone_def
      mwAwareIdBlock_norm_def mwAwareIdBlock_zero_def mwUserStatus_clone_def mwUserStatus_norm_def mwUserStatus_zero_def Let_def)

lemma all_handled_lobjs: "aw_lobjs aw' = aw_lobjs aw \<Longrightarrow> all_handled aw' = all_handled aw"
  by (simp add: all_handled_def)

lemma awc_snapshots:
  assumes "list_all snapshot_plain xs" and "aware_ok (awc_aware (ss_client s))" and "all_handled (awc_aware (ss_client s))"
  shows "exec_state (recv_snapshots awc_env awc_slot awc_code junk (length xs)
      (gbuf True pre (concat (map (\<lambda>(eob, x). mwAwareSnapshot_wire eob x) xs)))) s
    = awc_add (concat (map (\<lambda>x. map (\<lambda>L. Ev_aware L x) (told (awc_aware (ss_client s)) (sn_id x))) (reported xs)))
        (srvc_set awc_slot (fold set_status (reported xs) (awc_aware (ss_client s))) s)"
  using assms
proof (induction xs arbitrary: pre s)
  case (Cons ex xs)
  obtain eob x where ex: "ex = (eob, x)" by (cases ex)
  have x: "mwAwareSnapshot_valid x" "sn_group (mwAwareSnapshot_norm x) = None" "unat eob - (length pre + length (mwAwareSnapshot_wire eob x)) = 0"
    using Cons.prems(1) by (simp_all add: ex snapshot_plain_def mwAwareSnapshot_norm_def)
  let ?aw = "awc_aware (ss_client s)" let ?y = "mwAwareSnapshot_norm x"
  note same = set_status_same [OF Cons.prems(2), of ?y]
  show ?case
    using mwAwareSnapshot_get_wire [OF x(1), of junk True pre eob] x(2,3) Cons.prems
      Cons.IH [of "exec_state (status_recv awc_slot awc_code ?y) s"] same(1) all_handled_lobjs [OF same(3)]
    by (simp add: ex split_def Let_def awc_status same(2) awc_add_def)
qed simp

lemma known_fold:
  assumes "aware_ok aw" and "list_all snapshot_plain xs"
  shows "known (fold set_status (reported xs) aw) i
    = (case find (\<lambda>x. sn_id x = i) (rev (reported xs)) of None \<Rightarrow> known aw i | Some x \<Rightarrow> if known aw i = None then None else Some x)"
  using assms
proof (induction xs rule: rev_induct)
  case (snoc ex xs)
  obtain eob x where ex: "ex = (eob, x)" by (cases ex)
  have ok: "aware_ok (fold set_status (reported xs) aw)"
    using snoc.prems(1) by (induction xs arbitrary: aw) (simp_all add: set_status_same(1))
  have "string_norm (sn_group x) = None" using snoc.prems(2) by (simp add: ex snapshot_plain_def)
  with snoc ok show ?case
    by (auto simp: ex set_status_same(6) clone_norm split: option.split)
qed simp

lemma awc_getText:
  assumes "aware_ok (awc_aware (ss_client s))"
  shows "eval_state (mwServiceAware_getText awc_slot i) s
    = Option.bind (known (awc_aware (ss_client s)) i) (\<lambda>x. us_desc (sn_status x))"
proof (cases "ent_find (awc_aware (ss_client s)) i")
  case None
  then show ?thesis by (simp add: mwServiceAware_getText_def awc.find_run known_def)
next
  case (Some e)
  have "aware_mid (awc_aware (ss_client s))" using assms by (simp add: aware_ok_def)
  then obtain ae where "heap_at (aw_eobjs (awc_aware (ss_client s))) e = Some ae" by (rule ent_find_ok [OF _ Some])
  with awc.run_ent(1) [of s e ae] Some show ?thesis
    by (simp add: mwServiceAware_getText_def awc.find_run known_def)
qed


definition awc_snap :: mwAwareSnapshot where
  "awc_snap = mwAwareSnapshot_zero\<lparr>sn_id := awc_user, sn_online := True,
     sn_status := \<lparr>us_status = 0x20, us_time = 0, us_desc = Some [72, 105]\<rparr>\<rparr>"

definition awc_listening :: "aware_client mwSession" where
  "awc_listening = awc_start\<lparr>ss_client := (ss_client awc_start)\<lparr>awc_aware := mwServiceAware_new\<lparr>
     aw_entries := Some [(awc_user, 1)], aw_attribs := Some [(9, 1)], aw_lists := [1], aw_channel := Some 5,
     aw_eobjs := \<lparr>hp_objs = [(1, aware_entry_zero\<lparr>ae_aware := mwAwareSnapshot_zero\<lparr>sn_id := awc_user\<rparr>, ae_membership := [1]\<rparr>)], hp_next = 2\<rparr>,
     aw_aobjs := \<lparr>hp_objs = [(1, \<lparr>at_key = 9, at_membership = [1]\<rparr>)], hp_next = 2\<rparr>,
     aw_lobjs := \<lparr>hp_objs = [(1, mwAwareList_zero\<lparr>al_entries := Table [(awc_user, 1)], al_attribs := Table [(9, 1)],
       al_handler := Some 0\<rparr>)], hp_next = 2\<rparr>\<rparr>\<rparr>\<rparr>"

lemma awc_listening_ok:
  "aware_ok (awc_aware (ss_client awc_listening))" "all_handled (awc_aware (ss_client awc_listening))"
  "aw_channel (awc_aware (ss_client awc_listening)) = Some 5" "awc_log (ss_client awc_listening) = []"
  "told (awc_aware (ss_client awc_listening)) awc_user = [1]"
  "lst_at (awc_aware (ss_client awc_listening)) 1 = \<lparr>al_entries = Table [(awc_user, 1)], al_attribs = Table [(9, 1)], al_handler = Some 0\<rparr>"
  by (auto simp: awc_listening_def awc_start_def mwSession_zero_def mwServiceAware_new_def aware_ok_def aware_mid_def lists_ok_def
      ents_used_def atts_used_def member_ok_def ent_things_def ent_rows_def att_things_def att_rows_def all_handled_def
      aware_entry_zero_def mwAwareList_zero_def told_def lst_at_def ent_find_def objs_ok_def split: if_splits)


section \<open>Attributes\<close>

text \<open>An attribute as the receiver stores it, and what its readers make of it.\<close>

abbreviation stored :: "guint32 \<Rightarrow> mwOpaque \<Rightarrow> mwAwareAttribute" where
  "stored k d \<equiv> \<lparr>aa_key = k, aa_data = opaque_of (opaque_bytes d)\<rparr>"

lemma attribute_bytes:
  "opaque_bytes (attribute_boolean v) = [0, of_bool v]" "opaque_bytes (attribute_integer n) = MW32_PUT n"
  "opaque_bytes (attribute_string str) = string_wire str"
  "opaque_ok d \<Longrightarrow> opaque_bytes (attribute_payload k d)
    = MW32_PUT 0 @ MW32_PUT (of_nat (op_len d)) @ MW32_PUT 0 @ MW32_PUT k @ opaque_wire (opaque_bytes d)"
proof -
  have "writes (do { gboolean_put False; gboolean_put v }) ([of_bool False] @ [of_bool v])"
    by (intro writer_intros)
  from put_opaque_writes(1) [OF this] show "opaque_bytes (attribute_boolean v) = [0, of_bool v]"
    by (simp add: attribute_boolean_def del: of_bool_eq_1_iff)
  show "opaque_bytes (attribute_integer n) = MW32_PUT n"
    unfolding attribute_integer_def by (rule put_opaque_writes) (intro writer_intros)
  show "opaque_bytes (attribute_string str) = string_wire str"
    unfolding attribute_string_def by (rule put_opaque_writes) (intro writer_intros)
  show "opaque_bytes (attribute_payload k d)
    = MW32_PUT 0 @ MW32_PUT (of_nat (op_len d)) @ MW32_PUT 0 @ MW32_PUT k @ opaque_wire (opaque_bytes d)" if "opaque_ok d"
    unfolding attribute_payload_def by (rule put_opaque_writes) (intro writer_intros that)
qed

lemma attribute_values:
  "mwAwareAttribute_asBoolean j (Some (stored k (attribute_boolean v))) = v"
  "mwAwareAttribute_asBoolean j (Some (stored k (attribute_integer n))) \<longleftrightarrow> n \<noteq> 0"
  "mwAwareAttribute_asInteger (Some (stored k (attribute_boolean v))) = of_bool v"
  "mwAwareAttribute_asInteger (Some (stored k (attribute_integer n))) = n"
  "string_valid str \<Longrightarrow> mwAwareAttribute_asString (Some (stored k (attribute_string str))) = string_norm str"
proof -
  have b: "eval_state (guint16_get 0) (gbuf True [] [0, of_bool v]) = of_bool v"
    using guint16_get_wire [of 0 True "[]" "of_bool v" "[]"] by (cases v) (simp_all add: MW16_PUT_def)
  have i: "eval_state (guint32_get 0) (gbuf True [] (MW32_PUT n)) = n"
    using guint32_get_wire [of 0 True "[]" n "[]"] by simp
  note S = mwAwareAttribute_asBoolean_def mwAwareAttribute_asInteger_def mwAwareAttribute_asString_def attribute_bytes
    mwGetBuffer_wrap_gbuf Let_def
  show "mwAwareAttribute_asBoolean j (Some (stored k (attribute_boolean v))) = v"
    "mwAwareAttribute_asInteger (Some (stored k (attribute_boolean v))) = of_bool v"
    using b by (cases v; simp add: S)+
  show "mwAwareAttribute_asBoolean j (Some (stored k (attribute_integer n))) \<longleftrightarrow> n \<noteq> 0"
    "mwAwareAttribute_asInteger (Some (stored k (attribute_integer n))) = n"
    by (simp_all add: S i)
  show "mwAwareAttribute_asString (Some (stored k (attribute_string str))) = string_norm str" if "string_valid str"
    using mwString_get_wire [OF that, of True "[]" "[]"] by (simp add: S)
qed

definition set_attrib :: "mwAwareIdBlock \<Rightarrow> mwAwareAttribute \<Rightarrow> mwServiceAware \<Rightarrow> mwServiceAware" where
  "set_attrib i a aw = (case ent_find aw i of None \<Rightarrow> aw
   | Some e \<Rightarrow> ent_change e (\<lambda>ae. ae\<lparr>ae_attribs := AList.update (aa_key a) a (ae_attribs ae)\<rparr>) aw)"

text \<open>The lists that are told of an attribute of a user: those that watch it.\<close>

definition told_attrib :: "mwServiceAware \<Rightarrow> mwAwareIdBlock \<Rightarrow> guint32 \<Rightarrow> addr list" where
  "told_attrib aw i k = filter (\<lambda>L. map_of (table_rows (al_attribs (lst_at aw L))) k \<noteq> None) (told aw i)"

lemma awc_attrib:
  assumes "aware_ok (awc_aware (ss_client s))" and "all_handled (awc_aware (ss_client s))"
    and "\<And>L. L \<in> set (told (awc_aware (ss_client s)) i) \<Longrightarrow> al_attribs (lst_at (awc_aware (ss_client s)) L) \<noteq> Freed_table"
  shows "exec_state (attrib_recv awc_slot awc_code i \<lparr>aa_key = k, aa_data = opaque_of bs\<rparr>) s
    = (let a = \<lparr>aa_key = k, aa_data = opaque_of bs\<rparr>
       in awc_add (map (\<lambda>L. Ev_attrib L i a) (told_attrib (awc_aware (ss_client s)) i k))
            (srvc_set awc_slot (set_attrib i a (awc_aware (ss_client s))) s))"
proof (cases "ent_find (awc_aware (ss_client s)) i")
  case None
  then show ?thesis by (simp add: attrib_recv_def awc.find_run set_attrib_def told_attrib_def told_def Let_def)
next
  case (Some e)
  let ?a = "\<lparr>aa_key = k, aa_data = opaque_of bs\<rparr>"
  let ?aw = "awc_aware (ss_client s)"
  let ?f = "\<lambda>L. do { handler \<leftarrow> list_handler awc_slot awc_code L;
     case Option.bind handler alh_on_attrib of None \<Rightarrow> State_Monad.return ()
     | Some on_attrib \<Rightarrow> do { al \<leftarrow> list_deref awc_slot L; t \<leftarrow> table_deref (al_attribs al);
         if map_of t k = None then State_Monad.return () else on_attrib L i ?a } }"
  let ?g = "\<lambda>ae. ae\<lparr>ae_attribs := AList.update k ?a (ae_attribs ae)\<rparr>"
  let ?t = "srvc_set awc_slot (set_attrib i ?a ?aw) s"
  let ?ev = "\<lambda>L. if map_of (table_rows (al_attribs (lst_at ?aw L))) k = None then [] else [Ev_attrib L i ?a]"
  have "aware_mid ?aw" using assms(1) by (simp add: aware_ok_def)
  then obtain ae where ae: "heap_at (aw_eobjs ?aw) e = Some ae" by (rule ent_find_ok [OF _ Some])
  have told: "told ?aw i = ae_membership ae" using Some ae by (simp add: told_def)
  have upd: "run_state (ent_update awc_slot e ?g) s = ((), ?t)"
    using awc.run_ent(2) [of s e ae ?g] ae Some by (simp add: set_attrib_def ent_change_def)
  have m: "membership_of awc_slot e ?t = Some (ae_membership ae)" "aw_lobjs (awc_aware (ss_client ?t)) = aw_lobjs ?aw"
    using ae Some by (simp_all add: membership_of_def set_attrib_def ent_change_def)
  have one: "exec_state (?f L) u = awc_add (?ev L) u"
    if u: "L \<in> set (ae_membership ae)" "aw_lobjs (awc_aware (ss_client u)) = aw_lobjs (awc_aware (ss_client ?t))" for L u
  proof -
    obtain n al where al: "heap_at (aw_lobjs ?aw) L = Some al" "al_handler al = Some n" "lst_at ?aw L = al"
      using u(1) by (auto simp: told intro: told_live [OF assms(1,2), of L i])
    have "al_attribs al \<noteq> Freed_table" using assms(3) [of L] u(1) al(3) told by simp
    then have tab: "table_deref (al_attribs al) = State_Monad.return (table_rows (al_attribs al))"
      by (cases "al_attribs al") (simp_all add: table_deref_def)
    show ?thesis
      using awc.run_lst(1) [of u L al] u(2) al m(2)
      by (simp add: list_handler_def awc_code_def awc_record_def awc_add_def tab)
  qed
  have ev: "concat (map ?ev l) = map (\<lambda>L. Ev_attrib L i ?a) (filter (\<lambda>L. map_of (table_rows (al_attribs (lst_at ?aw L))) k \<noteq> None) l)" for l
    by (induction l) auto
  have "exec_state (walk (membership_of awc_slot e) ?f) ?t = awc_add (concat (map ?ev (ae_membership ae))) ?t"
    by (rule awc_walk [OF m(1) _ one]) (use told_lists(1) [OF assms(1), of i] told in simp_all)
  then show ?thesis
    using upd Some unfolding attrib_recv_def Let_def mwAwareAttribute.simps mwOpaque_clone_eq [OF opaque_ok_of] opaque_bytes_of
    by (simp add: awc.find_run split_def told told_attrib_def ev)
qed

lemma awc_getAttribute:
  assumes "aware_ok aw" and "t = awc_add evs (srvc_set awc_slot (set_attrib i a aw) s)"
    and "aa_key a \<noteq> 0" and "told aw i \<noteq> []"
  shows "eval_state (mwServiceAware_getAttribute awc_slot i (aa_key a)) t = Some a"
proof -
  have "aware_mid aw" using assms(1) by (simp add: aware_ok_def)
  from assms(4) obtain e where e: "ent_find aw i = Some e" by (cases "ent_find aw i") (simp_all add: told_def)
  then obtain ae where ae: "heap_at (aw_eobjs aw) e = Some ae" using assms(4) by (cases "heap_at (aw_eobjs aw) e") (simp_all add: told_def)
  have aw: "srvc_of awc_slot t = aw_ent e (ae\<lparr>ae_attribs := AList.update (aa_key a) a (ae_attribs ae)\<rparr>) aw"
    using e ae by (simp add: assms(2) set_attrib_def ent_change_def)
  then have "ent_find (srvc_of awc_slot t) i = Some e" using e by (simp add: ent_find_def)
  moreover have "run_state (ent_deref awc_slot e) t = (ae\<lparr>ae_attribs := AList.update (aa_key a) a (ae_attribs ae)\<rparr>, t)"
    by (rule awc.run_ent(1)) (use aw in simp)
  ultimately show ?thesis
    using assms(3) by (simp add: mwServiceAware_getAttribute_def awc.find_run update_conv')
qed

text \<open>
  Claim C11: an attribute that one client sets reaches the lists of another. The server passes
  on what \<open>mwServiceAware_setAttribute\<close> renders, behind a counter and the identity of the user:
  the attribute function is called with the key and the data for exactly the lists that have the
  user and watch the key, \<open>mwServiceAware_getAttribute\<close> returns it, and the readers
  of its value give the boolean, integer or text that was set.
\<close>

theorem attributes_reach_lists:
  assumes "aw = awc_aware (ss_client s)" and "aware_ok aw" and "all_handled aw" and "aw_channel aw = Some c"
    and "\<forall>L \<in> set (told aw i). al_attribs (lst_at aw L) \<noteq> Freed_table"
    and "mwAwareIdBlock_valid i" and "mwAwareIdBlock_norm i = i" and "opaque_valid d" and "k \<noteq> 0" and "told aw i \<noteq> []"
    and "t = exec_state (aware_recv awc_env awc_slot awc_code c (ucast msg_OPT_GOT_SET)
      (opaque_of (MW32_PUT n @ mwAwareIdBlock_wire i @ opaque_bytes (attribute_payload k d)))) s"
    and "a = eval_state (mwServiceAware_getAttribute awc_slot i k) t"
  shows "a = Some (stored k d) \<and> awc_log (ss_client t) = awc_log (ss_client s) @ map (\<lambda>L. Ev_attrib L i (stored k d)) (told_attrib aw i k)
    \<and> (d = attribute_boolean v \<longrightarrow> mwAwareAttribute_asBoolean j a = v)
    \<and> (d = attribute_integer m \<longrightarrow> mwAwareAttribute_asInteger a = m \<and> mwAwareAttribute_asBoolean j a = (m \<noteq> 0))
    \<and> (d = attribute_string str \<and> string_valid str \<longrightarrow> mwAwareAttribute_asString a = string_norm str)"
proof -
  have ok: "opaque_ok d" and len: "op_len d < 2 ^ 32" "length (opaque_bytes d) < 2 ^ 32"
    using assms(8) by (simp_all add: opaque_valid_def)
  have nz: "(of_nat (op_len d) :: guint32) = 0 \<longleftrightarrow> opaque_bytes d = []"
    unfolding unat_eq_0 [symmetric] length_0_conv [symmetric] using len(1) length_opaque_bytes [OF ok] by (simp add: unat_of_nat32)
  have empty: "\<lparr>op_len = 0, op_data = None\<rparr> = opaque_of []" by (simp add: opaque_of_def)
  have t: "t = awc_add (map (\<lambda>L. Ev_attrib L i (stored k d)) (told_attrib aw i k)) (srvc_set awc_slot (set_attrib i (stored k d) aw) s)"
    unfolding assms(11) using assms(2-4) awc_attrib [of s i k "opaque_bytes d"] assms(5)
      mwAwareIdBlock_get_wire [OF assms(6), unfolded mwAwareIdBlock_zero_def assms(7)] mwOpaque_get_wire [OF len(2), of True _ "[]"]
    by (cases "opaque_bytes d = []") (simp_all add: assms(1) aware_recv_def recv_OPT_GOT_SET_def msg_OPT_GOT_SET_def msg_AWARE_SNAPSHOT_def msg_AWARE_UPDATE_def
        mwGetBuffer_wrap_gbuf awc_env_def guint32_get_wire attribute_bytes(4) [OF ok] nz split_def Let_def empty)
  have a: "a = Some (stored k d)"
    unfolding assms(12) using awc_getAttribute [OF assms(2) t _ assms(10)] assms(9) by simp
  show ?thesis
    using a attribute_values by (auto simp: t)
qed

theorem attributes_reach_lists_witness:
  "eval_state (mwServiceAware_getAttribute awc_slot awc_user 9) (exec_state (aware_recv awc_env awc_slot awc_code 5
       (ucast msg_OPT_GOT_SET) (opaque_of (MW32_PUT 0 @ mwAwareIdBlock_wire awc_user
         @ opaque_bytes (attribute_payload 9 (attribute_integer 77))))) awc_listening) = Some (stored 9 (attribute_integer 77))
   \<and> awc_log (ss_client (exec_state (aware_recv awc_env awc_slot awc_code 5 (ucast msg_OPT_GOT_SET)
       (opaque_of (MW32_PUT 0 @ mwAwareIdBlock_wire awc_user @ opaque_bytes (attribute_payload 9 (attribute_integer 77))))) awc_listening))
     = [Ev_attrib 1 awc_user (stored 9 (attribute_integer 77))]
   \<and> mwAwareAttribute_asInteger (Some (stored 9 (attribute_integer 77))) = 77"
proof -
  let ?aw = "awc_aware (ss_client awc_listening)"
  note ok = awc_listening_ok
  have d: "opaque_valid (attribute_integer 77)"
  proof -
    have "opaque_ok (attribute_integer 77)"
      unfolding attribute_integer_def by (rule put_opaque_writes) (rule writes_guint32)
    with length_opaque_bytes [OF this] show ?thesis by (simp add: opaque_valid_def attribute_bytes)
  qed
  have user: "mwAwareIdBlock_valid awc_user" "mwAwareIdBlock_norm awc_user = awc_user"
    by (simp_all add: awc_user_def mwAwareIdBlock_valid_def mwAwareIdBlock_norm_def string_valid_def cstr_ok_def string_norm_def)
  have k: "(9 :: guint32) \<noteq> 0" "told ?aw awc_user \<noteq> []" "told_attrib ?aw awc_user 9 = [1]"
    "\<forall>L \<in> set (told ?aw awc_user). al_attribs (lst_at ?aw L) \<noteq> Freed_table"
    by (simp_all add: told_attrib_def ok(5,6) del: One_nat_def)
  have "mwAwareAttribute_asInteger (Some (stored 9 (attribute_integer 77))) = 77" by (rule attribute_values(4))
  with attributes_reach_lists [OF refl ok(1-3) k(4) user d k(1,2) refl refl] k(3) ok(4) show ?thesis
    by (simp del: One_nat_def)
qed

end
