(* ===== verification/C_Text.thy ===== *)
theory C_Text
  imports Prelude
begin

text \<open>
  What the text formats of the library use of the C library: the characters
  \<open>isspace\<close> accepts, \<open>%u\<close> of \<open>printf\<close>, the conversions of \<open>sscanf\<close>, \<open>strstr\<close> and
  \<open>strrchr\<close>, all on strings without their final NUL. The lemmas say when scanning is the
  inverse of printing.
\<close>

section \<open>Characters\<close>

definition ascii :: "string \<Rightarrow> bytes" where
  "ascii s = map of_char s"

text \<open>\<open>isspace\<close> of the C locale: blank and the control characters from tab to carriage return.\<close>

definition c_isspace :: "guchar \<Rightarrow> bool" where
  "c_isspace c \<longleftrightarrow> c = 0x20 \<or> (0x09 \<le> c \<and> c \<le> 0x0D)"

definition c_isdigit :: "guchar \<Rightarrow> bool" where
  "c_isdigit c \<longleftrightarrow> 0x30 \<le> c \<and> c \<le> 0x39"

section \<open>Numbers\<close>

text \<open>\<open>%u\<close> of \<open>printf\<close>.\<close>

function print_nat :: "nat \<Rightarrow> bytes" where
  "print_nat n = (if n < 10 then [0x30 + of_nat n] else print_nat (n div 10) @ [0x30 + of_nat (n mod 10)])"
  by auto

termination
  by (relation "measure (\<lambda>n. n)") auto

declare print_nat.simps [simp del]

definition print_uint :: "guint32 \<Rightarrow> bytes" where
  "print_uint v = print_nat (unat v)"

text \<open>The value of a string of decimal digits, from the left.\<close>

definition decimal :: "bytes \<Rightarrow> nat" where
  "decimal ds = foldl (\<lambda>n c. 10 * n + unat (c - 0x30)) 0 ds"

text \<open>
  \<open>%u\<close> of \<open>sscanf\<close> converts with \<open>strtoul\<close>, which saturates at the 64 bit maximum, and
  stores the low 32 bits; a minus sign negates.
\<close>

definition scan_value :: "bool \<Rightarrow> nat \<Rightarrow> guint32" where
  "scan_value neg n =
     (if 2 ^ 64 \<le> n then of_nat (2 ^ 64 - 1) else if neg then - of_nat n else of_nat n)"

section \<open>Scanning\<close>

text \<open>
  The directives of a format: a literal character, white space (any amount of it, none
  included), and the conversions \<open>%s\<close>, \<open>%c\<close> and \<open>%u\<close>.
\<close>

datatype directive = Lit guchar | Space | Scan_s | Scan_c | Scan_u

datatype scanned = Got_s bytes | Got_c guchar | Got_u guint32

text \<open>
  The values \<open>sscanf\<close> assigns before it fails or the format ends; their number is its
  return value.
\<close>

fun sscanf :: "directive list \<Rightarrow> bytes \<Rightarrow> scanned list" where
  "sscanf [] s = []"
| "sscanf (Lit c # fs) s =
     (case s of [] \<Rightarrow> [] | x # s' \<Rightarrow> if x = c then sscanf fs s' else [])"
| "sscanf (Space # fs) s = sscanf fs (dropWhile c_isspace s)"
| "sscanf (Scan_s # fs) s =
     (let t = dropWhile c_isspace s
      in if t = [] then []
         else Got_s (takeWhile (\<lambda>c. \<not> c_isspace c) t) # sscanf fs (dropWhile (\<lambda>c. \<not> c_isspace c) t))"
| "sscanf (Scan_c # fs) s =
     (case s of [] \<Rightarrow> [] | x # s' \<Rightarrow> Got_c x # sscanf fs s')"
| "sscanf (Scan_u # fs) s =
     (let t = dropWhile c_isspace s;
          neg = (t \<noteq> [] \<and> hd t = 0x2D);
          d = (if t \<noteq> [] \<and> (hd t = 0x2D \<or> hd t = 0x2B) then tl t else t);
          ds = takeWhile c_isdigit d
      in if ds = [] then []
         else Got_u (scan_value neg (decimal ds)) # sscanf fs (dropWhile c_isdigit d))"

text \<open>\<open>strstr\<close> and \<open>strrchr\<close>, with the index of the match for the pointer to it.\<close>

fun strstr :: "bytes \<Rightarrow> bytes \<Rightarrow> nat option" where
  "strstr [] needle = (if needle = [] then Some 0 else None)"
| "strstr (c # s) needle =
     (if take (length needle) (c # s) = needle then Some 0 else map_option Suc (strstr s needle))"

fun strrchr :: "bytes \<Rightarrow> guchar \<Rightarrow> nat option" where
  "strrchr [] c = None"
| "strrchr (x # s) c =
     (case strrchr s c of Some i \<Rightarrow> Some (Suc i) | None \<Rightarrow> if x = c then Some 0 else None)"

section \<open>Lemmas\<close>

lemma print_nat_step: "10 \<le> n \<Longrightarrow> print_nat n = print_nat (n div 10) @ [0x30 + of_nat (n mod 10)]"
  by (subst print_nat.simps) simp

lemma digit_char:
  assumes "k < 10"
  shows "c_isdigit (0x30 + of_nat k)" "unat ((0x30 + of_nat k) - (0x30 :: guchar)) = k"
  using assms by (auto simp: c_isdigit_def word_le_nat_alt unat_word_ariths unat_of_nat)

lemma decimal_snoc: "decimal (ds @ [c]) = 10 * decimal ds + unat (c - 0x30)"
  by (simp add: decimal_def)

lemma print_nat_digits: "\<forall>c \<in> set (print_nat n). c_isdigit c"
proof (induction n rule: print_nat.induct)
  case (1 n)
  then show ?case
    by (subst print_nat.simps) (auto intro!: digit_char(1))
qed

lemma print_nat_nonempty: "print_nat n \<noteq> []"
  by (subst print_nat.simps) simp

lemma decimal_print_nat: "decimal (print_nat n) = n"
proof (induction n rule: print_nat.induct)
  case (1 n)
  show ?case
  proof (cases "n < 10")
    case True
    then show ?thesis
      using digit_char(2) [of n] by (subst print_nat.simps) (simp add: decimal_def)
  next
    case False
    then show ?thesis
      using 1 digit_char(2) [of "n mod 10"] by (simp add: print_nat_step decimal_snoc)
  qed
qed

lemma c_isdigit_other: "c_isdigit c \<Longrightarrow> \<not> c_isspace c" "c_isdigit c \<Longrightarrow> c \<noteq> 0x2D" "c_isdigit c \<Longrightarrow> c \<noteq> 0x2B"
  by (auto simp: c_isdigit_def c_isspace_def word_le_nat_alt)

text \<open>Scanning a printed number gives it back, whatever non-digit follows it.\<close>

lemma sscanf_print_uint:
  assumes "rest = [] \<or> \<not> c_isdigit (hd rest)"
  shows "sscanf (Scan_u # fs) (print_uint v @ rest) = Got_u v # sscanf fs rest"
proof -
  let ?p = "print_uint v"
  obtain c t where p: "?p = c # t"
    using print_nat_nonempty [of "unat v"] by (auto simp: print_uint_def neq_Nil_conv)
  have dig: "\<forall>x \<in> set ?p. c_isdigit x"
    unfolding print_uint_def by (rule print_nat_digits)
  then have c: "\<not> c_isspace c" "c \<noteq> 0x2D" "c \<noteq> 0x2B"
    using c_isdigit_other [of c] by (auto simp: p)
  have "takeWhile c_isdigit (?p @ rest) = ?p" "dropWhile c_isdigit (?p @ rest) = rest"
    using dig assms by (auto simp: takeWhile_append dropWhile_append takeWhile_eq_Nil_iff dropWhile_eq_self_iff)
  moreover have "scan_value False (decimal ?p) = v"
    using unsigned_less [of v, where ?'a = nat] by (simp add: print_uint_def decimal_print_nat scan_value_def)
  moreover have "dropWhile c_isspace (?p @ rest) = ?p @ rest"
    using c by (simp add: p)
  ultimately show ?thesis
    using c by (simp add: Let_def p)
qed

text \<open>Scanning a word.\<close>

lemma sscanf_word:
  assumes "w \<noteq> []" "\<forall>c \<in> set w. \<not> c_isspace c" "rest = [] \<or> c_isspace (hd rest)"
  shows "sscanf (Scan_s # fs) (w @ rest) = Got_s w # sscanf fs rest"
proof -
  have "dropWhile c_isspace (w @ rest) = w @ rest"
    using assms(1, 2) by (cases w) auto
  moreover have "takeWhile (\<lambda>c. \<not> c_isspace c) (w @ rest) = w" "dropWhile (\<lambda>c. \<not> c_isspace c) (w @ rest) = rest"
    using assms by (auto simp: takeWhile_append dropWhile_append takeWhile_eq_Nil_iff dropWhile_eq_self_iff)
  ultimately show ?thesis
    using assms(1) by (simp add: Let_def)
qed

text \<open>A scanned word is no longer than what was scanned.\<close>

lemma sscanf_length: "Got_s w \<in> set (sscanf fs s) \<Longrightarrow> length w \<le> length s"
proof (induction fs s rule: sscanf.induct)
  case (4 fs s)
  let ?t = "dropWhile c_isspace s"
  have "length (takeWhile (\<lambda>c. \<not> c_isspace c) ?t) \<le> length s" "length (dropWhile (\<lambda>c. \<not> c_isspace c) ?t) \<le> length s"
    using length_takeWhile_le [of _ ?t] length_dropWhile_le [of _ ?t] length_dropWhile_le [of c_isspace s] le_trans by blast+
  then show ?case
    using 4 by (auto simp: Let_def split: if_splits)
next
  case (3 fs s)
  then show ?case
    using length_dropWhile_le [of c_isspace s] by force
next
  case (6 fs s)
  define t where "t = dropWhile c_isspace s"
  define d where "d = (if t \<noteq> [] \<and> (hd t = 0x2D \<or> hd t = 0x2B) then tl t else t)"
  have "length d \<le> length s"
    using length_dropWhile_le [of c_isspace s] by (auto simp: d_def t_def)
  then have "length (dropWhile c_isdigit d) \<le> length s"
    using length_dropWhile_le [of c_isdigit d] by simp
  then show ?case
    using 6(1) [OF t_def _ d_def] 6(2) by (fastforce simp: Let_def simp flip: t_def d_def split: if_splits)
qed (auto split: list.splits if_splits)

lemma strrchr_last:
  assumes "c \<notin> set b"
  shows "strrchr (a @ c # b) c = Some (length a)"
proof -
  have "strrchr b c = None"
    using assms by (induction b) auto
  then show ?thesis
    by (induction a) auto
qed

text \<open>Two colons are found behind a text that has none of its own and a character that is no colon.\<close>

lemma strstr_colons:
  assumes "strstr a [c, c] = None" "t \<noteq> c"
  shows "strstr (a @ t # c # c # b) [c, c] = Some (Suc (length a))"
  using assms
proof (induction a)
  case Nil
  then show ?case by simp
next
  case (Cons x a)
  show ?case
  proof (cases a)
    case Nil
    then show ?thesis
      using Cons by simp
  next
    case (Cons y a')
    then show ?thesis
      using Cons.IH Cons.prems by (auto split: if_splits)
  qed
qed

end
