(* ===== verification/Srvc_Conf.thy ===== *)
theory Srvc_Conf
  imports Service_Heap C_Text
begin

text \<open>
  The conferencing service, \<^verbatim>\<open>src/src/srvc_conf.c\<close>: conferences of several users, each over
  a channel of its own, with a table of the members the server has announced. Conferences live
  in a heap next to the list of the service. The handler of the client is an argument; it is
  given copies of what the code passes as pointers into a conference.
\<close>

section \<open>State\<close>

definition mwService_CONFERENCE :: guint32 where "mwService_CONFERENCE = 0x80000010"
definition CONF_PROTOCOL_TYPE :: guint32 where "CONF_PROTOCOL_TYPE = 0x00000010"
definition CONF_PROTOCOL_VER :: guint32 where "CONF_PROTOCOL_VER = 0x00000002"
definition conf_WELCOME :: guint32 where "conf_WELCOME = 0x0000"
definition conf_INVITE :: guint32 where "conf_INVITE = 0x0001"
definition conf_JOIN :: guint32 where "conf_JOIN = 0x0002"
definition conf_PART :: guint32 where "conf_PART = 0x0003"
definition conf_MESSAGE :: guint32 where "conf_MESSAGE = 0x0004"

datatype mwConferenceState =
    mwConference_NEW | mwConference_PENDING | mwConference_INVITED | mwConference_OPEN
  | mwConference_CLOSING | mwConference_ERROR | mwConference_UNKNOWN

record mwConference =
  cf_state :: mwConferenceState
  cf_channel :: "guint32 option"
  cf_name :: cstr
  cf_title :: cstr
  cf_owner :: mwLoginInfo
  cf_members :: "(guint16 \<times> mwLoginInfo) list"

record mwServiceConference =
  cf_handler :: bool
  cf_objs :: "mwConference heap"
  cf_confs :: "addr list"

record 'c mwConferenceHandler =
  cfh_invited :: "(addr \<Rightarrow> mwLoginInfo \<Rightarrow> cstr \<Rightarrow> ('c, unit) M) option"
  cfh_opened :: "(addr \<Rightarrow> mwLoginInfo list \<Rightarrow> ('c, unit) M) option"
  cfh_closed :: "(addr \<Rightarrow> guint32 \<Rightarrow> ('c, unit) M) option"
  cfh_joined :: "(addr \<Rightarrow> mwLoginInfo \<Rightarrow> ('c, unit) M) option"
  cfh_parted :: "(addr \<Rightarrow> mwLoginInfo \<Rightarrow> ('c, unit) M) option"
  cfh_text :: "(addr \<Rightarrow> mwLoginInfo \<Rightarrow> bytes \<Rightarrow> ('c, unit) M) option"
  cfh_typing :: "(addr \<Rightarrow> mwLoginInfo \<Rightarrow> bool \<Rightarrow> ('c, unit) M) option"
  cfh_clear :: "('c, unit) M option"

type_synonym 'c conf_slot = "('c, mwServiceConference) slot"

definition cf_heap :: "'c conf_slot \<Rightarrow> ('c, mwConference heap) slot" where
  "cf_heap sl = part sl cf_objs cf_objs_update"

definition mwConference_zero :: mwConference where
  "mwConference_zero = \<lparr>cf_state = mwConference_NEW, cf_channel = None, cf_name = None, cf_title = None,
     cf_owner = mwLoginInfo_zero, cf_members = []\<rparr>"

definition conf_deref :: "'c conf_slot \<Rightarrow> addr \<Rightarrow> ('c, mwConference) M" where
  "conf_deref sl = heap_deref (cf_heap sl) mwConference_zero"

definition conf_update :: "'c conf_slot \<Rightarrow> addr \<Rightarrow> (mwConference \<Rightarrow> mwConference) \<Rightarrow> ('c, unit) M" where
  "conf_update sl = heap_update (cf_heap sl)"

text \<open>A function of the handler, which is followed without a check.\<close>

definition conf_call :: "'c conf_slot \<Rightarrow> ('c, unit) M option \<Rightarrow> ('c, unit) M" where
  "conf_call sl f = do {
     handler \<leftarrow> srvc_get sl cf_handler;
     if handler then optionally f else fault
   }"

section \<open>Conferences\<close>

definition conf_new :: "'c conf_slot \<Rightarrow> ('c, addr) M" where
  "conf_new sl = do {
     conf \<leftarrow> heap_new (cf_heap sl) mwConference_zero;
     srvc_modify sl (\<lambda>cf. cf\<lparr>cf_confs := conf # cf_confs cf\<rparr>);
     State_Monad.return conf
   }"

definition conf_free :: "'c conf_slot \<Rightarrow> addr \<Rightarrow> ('c, unit) M" where
  "conf_free sl conf = do {
     conf_deref sl conf;
     srvc_modify sl (\<lambda>cf. cf\<lparr>cf_confs := removeAll conf (cf_confs cf)\<rparr>);
     heap_free (cf_heap sl) conf
   }"

fun conf_find_in :: "'c conf_slot \<Rightarrow> guint32 \<Rightarrow> addr list \<Rightarrow> ('c, addr option) M" where
  "conf_find_in sl chan [] = State_Monad.return None"
| "conf_find_in sl chan (a # l) = do {
     c \<leftarrow> conf_deref sl a;
     if cf_channel c = Some chan then State_Monad.return (Some a) else conf_find_in sl chan l
   }"

definition conf_find :: "'c conf_slot \<Rightarrow> guint32 \<Rightarrow> ('c, addr option) M" where
  "conf_find sl chan = do { l \<leftarrow> srvc_get sl cf_confs; conf_find_in sl chan l }"

definition conf_state :: "'c conf_slot \<Rightarrow> addr \<Rightarrow> mwConferenceState \<Rightarrow> ('c, unit) M" where
  "conf_state sl conf state = do {
     c \<leftarrow> conf_deref sl conf;
     if cf_state c = state then State_Monad.return () else conf_update sl conf (\<lambda>c. c\<lparr>cf_state := state\<rparr>)
   }"

definition mwConference_destroy :: "'c env \<Rightarrow> 'c conf_slot \<Rightarrow> addr \<Rightarrow> guint32 \<Rightarrow> cstr \<Rightarrow> ('c, gint) M" where
  "mwConference_destroy env sl conf reason text = do {
     c \<leftarrow> conf_deref sl conf;
     srvc_modify sl (\<lambda>cf. cf\<lparr>cf_confs := removeAll conf (cf_confs cf)\<rparr>);
     ret \<leftarrow> (case cf_channel c of
         None \<Rightarrow> State_Monad.return 0
       | Some chan \<Rightarrow> mwChannel_destroy env chan reason (Some (case text of
             Some (x # xs) \<Rightarrow> \<lparr>op_len = length (x # xs), op_data = Some (x # xs @ [0])\<rparr>
           | _ \<Rightarrow> \<lparr>op_len = 0, op_data = None\<rparr>)));
     conf_free sl conf;
     State_Monad.return ret
   }"

section \<open>Channels\<close>

text \<open>
  The reader of an invitation. The first local is uninitialised and not used.
\<close>

definition conf_invite_get :: "(mwGetBuffer, cstr \<times> cstr \<times> mwLoginInfo \<times> cstr) state" where
  "conf_invite_get = do {
     guint32_get 0;
     name \<leftarrow> mwString_get;
     title \<leftarrow> mwString_get;
     guint32_get 0;
     owner \<leftarrow> mwLoginInfo_get mwLoginInfo_zero;
     guint32_get 0;
     invite \<leftarrow> mwString_get;
     State_Monad.return (name, title, owner, invite)
   }"

definition conf_recv_channelCreate ::
  "'c env \<Rightarrow> 'c conf_slot \<Rightarrow> 'c mwConferenceHandler \<Rightarrow> guint32 \<Rightarrow> mwMsgChannelCreate \<Rightarrow> ('c, unit) M" where
  "conf_recv_channelCreate env sl h chan msg = do {
     conf \<leftarrow> conf_new sl;
     let ((name, title, owner, invite), b) = run_state conf_invite_get (mwGetBuffer_wrap (Some (cc_addtl msg)));
     conf_update sl conf (\<lambda>c. c\<lparr>cf_channel := Some chan, cf_name := name, cf_title := title, cf_owner := owner\<rparr>);
     if gb_error b then do { mwConference_destroy env sl conf ERR_FAILURE None; State_Monad.return () }
     else do {
       conf_state sl conf mwConference_INVITED;
       conf_call sl (map_option (\<lambda>on_invited. on_invited conf owner invite) (cfh_invited h))
     }
   }"

definition conf_recv_channelAccept :: "guint32 \<Rightarrow> mwMsgChannelAccept \<Rightarrow> ('c, unit) M" where
  "conf_recv_channelAccept chan msg = State_Monad.return ()"

text \<open>The client may destroy the conference in \<open>conf_closed\<close>, which then happens twice.\<close>

definition conf_recv_channelDestroy ::
  "'c env \<Rightarrow> 'c conf_slot \<Rightarrow> 'c mwConferenceHandler \<Rightarrow> guint32 \<Rightarrow> mwMsgChannelDestroy \<Rightarrow> ('c, unit) M" where
  "conf_recv_channelDestroy env sl h chan msg = do {
     conf \<leftarrow> conf_find sl chan;
     case conf of
       None \<Rightarrow> State_Monad.return ()
     | Some conf \<Rightarrow> do {
         conf_update sl conf (\<lambda>c. c\<lparr>cf_channel := None\<rparr>);
         conf_state sl conf (if cd_reason msg \<noteq> 0 then mwConference_ERROR else mwConference_CLOSING);
         conf_call sl (map_option (\<lambda>conf_closed. conf_closed conf (cd_reason msg)) (cfh_closed h));
         mwConference_destroy env sl conf ERR_SUCCESS None;
         State_Monad.return ()
       }
   }"

section \<open>Messages\<close>

text \<open>
  The members of a welcome message, up to the first that cannot be read; the local \<open>member_id\<close>
  is uninitialised, but then it is not used.
\<close>

fun welcome_members :: "nat \<Rightarrow> (mwGetBuffer, (guint16 \<times> mwLoginInfo) list) state" where
  "welcome_members 0 = State_Monad.return []"
| "welcome_members (Suc count) = do {
     member_id \<leftarrow> guint16_get 0;
     member \<leftarrow> mwLoginInfo_get mwLoginInfo_zero;
     b \<leftarrow> State_Monad.get;
     if gb_error b then State_Monad.return []
     else do { l \<leftarrow> welcome_members count; State_Monad.return ((member_id, member) # l) }
   }"

definition MEMBER_ADD :: "'c conf_slot \<Rightarrow> addr \<Rightarrow> guint16 \<Rightarrow> mwLoginInfo \<Rightarrow> ('c, unit) M" where
  "MEMBER_ADD sl conf i member = conf_update sl conf (\<lambda>c. c\<lparr>cf_members := AList.update i member (cf_members c)\<rparr>)"

definition MEMBER_REM :: "'c conf_slot \<Rightarrow> addr \<Rightarrow> guint16 \<Rightarrow> ('c, unit) M" where
  "MEMBER_REM sl conf i = conf_update sl conf (\<lambda>c. c\<lparr>cf_members := AList.delete i (cf_members c)\<rparr>)"

definition MEMBER_FIND :: "'c conf_slot \<Rightarrow> addr \<Rightarrow> guint16 \<Rightarrow> ('c, mwLoginInfo option) M" where
  "MEMBER_FIND sl conf i = do { c \<leftarrow> conf_deref sl conf; State_Monad.return (map_of (cf_members c) i) }"

text \<open>
  Adding a second member with the same number frees the first one, which the list for the client
  still has.
\<close>

definition WELCOME_recv :: "'c env \<Rightarrow> 'c conf_slot \<Rightarrow> 'c mwConferenceHandler \<Rightarrow> addr \<Rightarrow> mwGetBuffer \<Rightarrow> ('c, unit) M" where
  "WELCOME_recv env sl h conf b = (
     let ((name, title, count), b) = run_state (do {
           name \<leftarrow> mwString_get;
           title \<leftarrow> mwString_get;
           guint16_get 0;
           guint32_get 0;
           count \<leftarrow> guint32_get 0;
           State_Monad.return (name, title, count) }) b
     in do {
       conf_update sl conf (\<lambda>c. c\<lparr>cf_name := name, cf_title := title\<rparr>);
       if gb_error b then do { mwConference_destroy env sl conf ERR_FAILURE None; State_Monad.return () }
       else do {
         let l = eval_state (welcome_members (unat count)) b;
         for_each (\<lambda>(i, member). MEMBER_ADD sl conf i member) l;
         conf_state sl conf mwConference_OPEN;
         (if distinct (map fst l) then State_Monad.return () else fault);
         conf_call sl (map_option (\<lambda>conf_opened. conf_opened conf (map snd l)) (cfh_opened h))
       }
     })"

definition JOIN_recv :: "'c conf_slot \<Rightarrow> 'c mwConferenceHandler \<Rightarrow> addr \<Rightarrow> mwGetBuffer \<Rightarrow> ('c, unit) M" where
  "JOIN_recv sl h conf b = do {
     c \<leftarrow> conf_deref sl conf;
     if cf_state c = mwConference_PENDING then State_Monad.return ()
     else let ((m_id, m), b) = run_state (do {
                m_id \<leftarrow> guint16_get 0;
                m \<leftarrow> mwLoginInfo_get mwLoginInfo_zero;
                State_Monad.return (m_id, m) }) b
          in if gb_error b then State_Monad.return ()
             else do {
               MEMBER_ADD sl conf m_id m;
               conf_call sl (map_option (\<lambda>on_peer_joined. on_peer_joined conf m) (cfh_joined h))
             }
   }"

text \<open>The conference is read again after the client is told.\<close>

definition PART_recv :: "'c conf_slot \<Rightarrow> 'c mwConferenceHandler \<Rightarrow> addr \<Rightarrow> mwGetBuffer \<Rightarrow> ('c, unit) M" where
  "PART_recv sl h conf b = (
     let (i, b) = run_state (guint16_get 0) b
     in if gb_error b then State_Monad.return ()
        else do {
          m \<leftarrow> MEMBER_FIND sl conf i;
          case m of
            None \<Rightarrow> State_Monad.return ()
          | Some m \<Rightarrow> do {
              conf_call sl (map_option (\<lambda>on_peer_parted. on_peer_parted conf m) (cfh_parted h));
              MEMBER_REM sl conf i
            }
        })"

definition conf_text_recv :: "'c conf_slot \<Rightarrow> 'c mwConferenceHandler \<Rightarrow> addr \<Rightarrow> mwLoginInfo \<Rightarrow> mwGetBuffer \<Rightarrow> ('c, unit) M" where
  "conf_text_recv sl h conf m b = (
     let (text, b) = run_state mwString_get b
     in if gb_error b then State_Monad.return ()
        else case text of
          None \<Rightarrow> State_Monad.return ()
        | Some text \<Rightarrow> conf_call sl (map_option (\<lambda>on_text. on_text conf m text) (cfh_text h)))"

definition conf_data_recv :: "'c conf_slot \<Rightarrow> 'c mwConferenceHandler \<Rightarrow> addr \<Rightarrow> mwLoginInfo \<Rightarrow> mwGetBuffer \<Rightarrow> ('c, unit) M" where
  "conf_data_recv sl h conf m b = (
     let ((type, subtype), b) = run_state (do {
           type \<leftarrow> guint32_get 0;
           subtype \<leftarrow> guint32_get 0;
           State_Monad.return (type, subtype) }) b
     in if gb_error b then State_Monad.return ()
        else if type \<noteq> 1 then State_Monad.return ()
        else conf_call sl (map_option (\<lambda>on_typing. on_typing conf m (subtype = 0)) (cfh_typing h)))"

definition MESSAGE_recv :: "'c conf_slot \<Rightarrow> 'c mwConferenceHandler \<Rightarrow> addr \<Rightarrow> mwGetBuffer \<Rightarrow> ('c, unit) M" where
  "MESSAGE_recv sl h conf b =
     (if gb_rem b = 0 then State_Monad.return ()
      else let ((i, type), b) = run_state (do {
                 i \<leftarrow> guint16_get 0;
                 guint32_get 0;
                 type \<leftarrow> guint32_get 0;
                 State_Monad.return (i, type) }) b
           in if gb_error b then State_Monad.return ()
              else do {
                m \<leftarrow> MEMBER_FIND sl conf i;
                case m of
                  None \<Rightarrow> State_Monad.return ()
                | Some m \<Rightarrow>
                    if type = 1 then conf_text_recv sl h conf m b
                    else if type = 2 then conf_data_recv sl h conf m b
                    else State_Monad.return ()
              })"

definition conf_recv ::
  "'c env \<Rightarrow> 'c conf_slot \<Rightarrow> 'c mwConferenceHandler \<Rightarrow> guint32 \<Rightarrow> guint16 \<Rightarrow> mwOpaque \<Rightarrow> ('c, unit) M" where
  "conf_recv env sl h chan type data = do {
     conf \<leftarrow> conf_find sl chan;
     case conf of
       None \<Rightarrow> State_Monad.return ()
     | Some conf \<Rightarrow>
         let b = mwGetBuffer_wrap (Some data); type = ucast type
         in if type = conf_WELCOME then WELCOME_recv env sl h conf b
            else if type = conf_JOIN then JOIN_recv sl h conf b
            else if type = conf_PART then PART_recv sl h conf b
            else if type = conf_MESSAGE then MESSAGE_recv sl h conf b
            else State_Monad.return ()
   }"

section \<open>The service\<close>

text \<open>The loops over \<open>srvc->confs\<close>.\<close>

definition conf_each :: "'c conf_slot \<Rightarrow> (addr \<Rightarrow> ('c, unit) M) \<Rightarrow> ('c, unit) M" where
  "conf_each sl f = while_do (\<lambda>s. cf_confs (srvc_of sl s) \<noteq> []) (do { l \<leftarrow> srvc_get sl cf_confs; f (hd l) })"

definition conf_clear :: "'c conf_slot \<Rightarrow> 'c mwConferenceHandler \<Rightarrow> ('c, unit) M" where
  "conf_clear sl h = do {
     conf_each sl (conf_free sl);
     handler \<leftarrow> srvc_get sl cf_handler;
     (if handler then optionally (cfh_clear h) else State_Monad.return ());
     srvc_modify sl (\<lambda>cf. cf\<lparr>cf_handler := False\<rparr>)
   }"

definition conf_start :: "('c, unit) M" where
  "conf_start = mwService_started mwService_CONFERENCE"

definition conf_stop :: "'c env \<Rightarrow> 'c conf_slot \<Rightarrow> ('c, unit) M" where
  "conf_stop env sl = do {
     conf_each sl (\<lambda>conf. do { mwConference_destroy env sl conf ERR_SUCCESS None; State_Monad.return () });
     mwService_stopped mwService_CONFERENCE
   }"

definition mwServiceConference_new :: mwServiceConference where
  "mwServiceConference_new = \<lparr>cf_handler = True, cf_objs = heap_empty, cf_confs = []\<rparr>"

definition conf_install :: "'c conf_slot \<Rightarrow> 'c mwConferenceHandler \<Rightarrow> 'c env \<Rightarrow> 'c env" where
  "conf_install sl h env = env\<lparr>
     e_start := (e_start env)(mwService_CONFERENCE \<mapsto> conf_start),
     e_stop := (e_stop env)(mwService_CONFERENCE \<mapsto> conf_stop env sl),
     e_recv_create := (e_recv_create env)(mwService_CONFERENCE \<mapsto> conf_recv_channelCreate env sl h),
     e_recv_accept := (e_recv_accept env)(mwService_CONFERENCE \<mapsto> conf_recv_channelAccept),
     e_recv_destroy := (e_recv_destroy env)(mwService_CONFERENCE \<mapsto> conf_recv_channelDestroy env sl h),
     e_recv := (e_recv env)(mwService_CONFERENCE \<mapsto> conf_recv env sl h)\<rparr>"

section \<open>Operations of the client\<close>

definition mwConference_new :: "'c conf_slot \<Rightarrow> cstr \<Rightarrow> ('c, addr) M" where
  "mwConference_new sl title = do {
     conf \<leftarrow> conf_new sl;
     conf_update sl conf (\<lambda>c. c\<lparr>cf_title := title\<rparr>);
     State_Monad.return conf
   }"

definition mwConference_getName :: "'c conf_slot \<Rightarrow> addr \<Rightarrow> ('c, cstr) M" where
  "mwConference_getName sl conf = do { c \<leftarrow> conf_deref sl conf; State_Monad.return (cf_name c) }"

definition mwConference_getTitle :: "'c conf_slot \<Rightarrow> addr \<Rightarrow> ('c, cstr) M" where
  "mwConference_getTitle sl conf = do { c \<leftarrow> conf_deref sl conf; State_Monad.return (cf_title c) }"

text \<open>The members in the order of the hash table.\<close>

definition mwConference_getMembers :: "'c env \<Rightarrow> 'c conf_slot \<Rightarrow> addr \<Rightarrow> ('c, mwLoginInfo list) M" where
  "mwConference_getMembers env sl conf = do {
     c \<leftarrow> conf_deref sl conf;
     State_Monad.return (List.map_filter (\<lambda>k. map_of (cf_members c) (ucast k)) (e_order env (map (\<lambda>(i, m). ucast i) (cf_members c))))
   }"

definition mwServiceConference_getConferences :: "'c conf_slot \<Rightarrow> ('c, addr list) M" where
  "mwServiceConference_getConferences sl = srvc_get sl cf_confs"

text \<open>
  The generated name, \<open>\"%s(%08x,%04x)\"\<close> with the time and a number of 16 bits. The function
  \<open>rand\<close> of the C library is an argument.
\<close>

definition hex_digit :: "guint32 \<Rightarrow> guchar" where
  "hex_digit n = (if n < 10 then 48 + ucast n else 87 + ucast n)"

definition hex_digits :: "nat \<Rightarrow> guint32 \<Rightarrow> bytes" where
  "hex_digits k v = map (\<lambda>i. hex_digit (drop_bit (4 * i) v AND 0xf)) (rev [0..<k])"

definition conf_generate_name :: "'c env \<Rightarrow> ('c, guint32) M \<Rightarrow> bytes \<Rightarrow> ('c, bytes) M" where
  "conf_generate_name env rand user = do {
     rand;
     x \<leftarrow> rand;
     y \<leftarrow> rand;
     let a = push_bit 8 (x AND 0xff) OR (y AND 0xff);
     b \<leftarrow> e_time env;
     State_Monad.return (user @ [40] @ hex_digits 8 (of_nat b) @ [44] @ hex_digits 4 a @ [41])
   }"

definition conf_create_payload :: "cstr \<Rightarrow> cstr \<Rightarrow> mwOpaque" where
  "conf_create_payload name title = put_opaque (do { mwString_put name; mwString_put title; guint32_put 0 })"

definition mwConference_open :: "'c env \<Rightarrow> 'c conf_slot \<Rightarrow> ('c, guint32) M \<Rightarrow> addr \<Rightarrow> ('c, gint) M" where
  "mwConference_open env sl rand conf = do {
     c \<leftarrow> conf_deref sl conf;
     if cf_state c \<noteq> mwConference_NEW \<or> cf_channel c \<noteq> None then State_Monad.return (- 1)
     else do {
       (if cf_name c = None then do {
          user \<leftarrow> property_str ''session.auth.user'';
          name \<leftarrow> conf_generate_name env rand (case user of Some u \<Rightarrow> u | None \<Rightarrow> ascii ''meanwhile'');
          conf_update sl conf (\<lambda>c. c\<lparr>cf_name := Some name\<rparr>)
        } else State_Monad.return ());
       chan \<leftarrow> mwChannel_newOutgoing;
       c \<leftarrow> conf_deref sl conf;
       ret \<leftarrow> (case chan of
           None \<Rightarrow> State_Monad.return (- 1)
         | Some chan \<Rightarrow> do {
             mwChannel_setService chan (service_of mwService_CONFERENCE);
             mwChannel_setProtoType chan CONF_PROTOCOL_TYPE;
             mwChannel_setProtoVer chan CONF_PROTOCOL_VER;
             mwChannel_setAddtlCreate chan (conf_create_payload (cf_name c) (cf_title c));
             mwChannel_create env chan
           });
       (if ret \<noteq> 0 then conf_state sl conf mwConference_ERROR
        else do {
          conf_state sl conf mwConference_PENDING;
          conf_update sl conf (\<lambda>c. c\<lparr>cf_channel := chan\<rparr>)
        });
       State_Monad.return ret
     }
   }"

definition mwConference_accept :: "'c env \<Rightarrow> 'c conf_slot \<Rightarrow> addr \<Rightarrow> ('c, gint) M" where
  "mwConference_accept env sl conf = do {
     c \<leftarrow> conf_deref sl conf;
     if cf_state c \<noteq> mwConference_INVITED then State_Monad.return (- 1)
     else case cf_channel c of
       None \<Rightarrow> State_Monad.return (- 1)
     | Some chan \<Rightarrow> do {
         ret \<leftarrow> mwChannel_accept env chan;
         if ret = 0 then mwChannel_sendEncrypted env chan conf_JOIN \<lparr>op_len = 0, op_data = None\<rparr> False
         else State_Monad.return ret
       }
   }"

definition conf_invite_payload :: "mwIdBlock \<Rightarrow> cstr \<Rightarrow> mwOpaque" where
  "conf_invite_payload who text = put_opaque (do {
     mwIdBlock_put who;
     guint16_put 0;
     guint32_put 0;
     mwString_put text;
     mwString_put (ib_user who)
   })"

definition mwConference_invite :: "'c env \<Rightarrow> 'c conf_slot \<Rightarrow> addr \<Rightarrow> mwIdBlock \<Rightarrow> cstr \<Rightarrow> ('c, gint) M" where
  "mwConference_invite env sl conf who text = do {
     c \<leftarrow> conf_deref sl conf;
     case cf_channel c of
       None \<Rightarrow> State_Monad.return (- 1)
     | Some chan \<Rightarrow> mwChannel_sendEncrypted env chan conf_INVITE (conf_invite_payload who text) False
   }"

definition conf_text_payload :: "cstr \<Rightarrow> mwOpaque" where
  "conf_text_payload text = put_opaque (do { guint32_put 1; mwString_put text })"

definition mwConference_sendText :: "'c env \<Rightarrow> 'c conf_slot \<Rightarrow> addr \<Rightarrow> cstr \<Rightarrow> ('c, gint) M" where
  "mwConference_sendText env sl conf text = do {
     c \<leftarrow> conf_deref sl conf;
     case cf_channel c of
       None \<Rightarrow> State_Monad.return (- 1)
     | Some chan \<Rightarrow> mwChannel_sendEncrypted env chan conf_MESSAGE (conf_text_payload text) False
   }"

definition conf_typing_payload :: "bool \<Rightarrow> mwOpaque" where
  "conf_typing_payload typing = put_opaque (do {
     guint32_put 2;
     guint32_put 1;
     guint32_put (of_bool (\<not> typing));
     mwOpaque_put None
   })"

definition mwConference_sendTyping :: "'c env \<Rightarrow> 'c conf_slot \<Rightarrow> addr \<Rightarrow> bool \<Rightarrow> ('c, gint) M" where
  "mwConference_sendTyping env sl conf typing = do {
     c \<leftarrow> conf_deref sl conf;
     case cf_channel c of
       None \<Rightarrow> State_Monad.return (- 1)
     | Some chan \<Rightarrow>
         if cf_state c \<noteq> mwConference_OPEN then State_Monad.return (- 1)
         else mwChannel_sendEncrypted env chan conf_MESSAGE (conf_typing_payload typing) False
   }"

section \<open>What the service keeps\<close>

text \<open>The list of the service has every conference that lives, and each of them once.\<close>

definition cf_ok :: "mwServiceConference \<Rightarrow> bool" where
  "cf_ok cf \<longleftrightarrow> objs_ok (cf_objs cf) \<and> distinct (cf_confs cf) \<and> set (cf_confs cf) = heap_dom (cf_objs cf)"

text \<open>A conference leaves the list and the heap.\<close>

definition conf_gone :: "addr \<Rightarrow> mwServiceConference \<Rightarrow> mwServiceConference" where
  "conf_gone a cf = cf\<lparr>cf_confs := removeAll a (cf_confs cf),
     cf_objs := (cf_objs cf)\<lparr>hp_objs := AList.delete a (hp_objs (cf_objs cf))\<rparr>\<rparr>"

interpretation cf_objs: record_field cf_objs cf_objs_update
  by unfold_locales simp_all

lemma cf_ok_new: "cf_ok mwServiceConference_new"
  by (simp add: cf_ok_def mwServiceConference_new_def)

lemma cf_ok_gone: "cf_ok cf \<Longrightarrow> cf_ok (conf_gone a cf)"
  by (auto simp: cf_ok_def conf_gone_def objs_ok_delete distinct_removeAll)

locale conf_slot = service_slot sl for sl :: "'c conf_slot"
begin

abbreviation ok :: "'c mwSession \<Rightarrow> bool" where
  "ok \<equiv> \<lambda>s. cf_ok (srvc_of sl s)"

lemma run_conf:
  assumes "heap_at (cf_objs (srvc_of sl s)) a = Some c"
  shows "run_state (conf_deref sl a) s = (c, s)"
    "run_state (conf_update sl a f) s = ((), srvc_set sl ((srvc_of sl s)\<lparr>cf_objs := heap_set a (f c) (cf_objs (srvc_of sl s))\<rparr>) s)"
  using assms by (simp_all add: conf_deref_def conf_update_def run_heap_deref run_heap_update cf_heap_def)

lemma keeps_conf_deref [keeps_intros]: "keeps (\<lambda>s. Q (srvc_of sl s)) (conf_deref sl a)"
  unfolding conf_deref_def by (rule keeps_heap_deref)

lemma keeps_conf_update [keeps_intros]: "keeps ok (conf_update sl a f)"
  by (auto simp: keeps_def conf_update_def cf_heap_def run_heap_update cf_ok_def objs_ok_set split: option.split)

lemma keeps_conf_new [keeps_intros]: "keeps ok (conf_new sl)"
  using objs_ok_new heap_new_fresh
  by (auto simp: keeps_def conf_new_def cf_heap_def run_heap_new cf_ok_def split_def Let_def)

lemma conf_free_state: "srvc_of sl (exec_state (conf_free sl a) s) = conf_gone a (srvc_of sl s)"
  by (auto simp: conf_free_def conf_gone_def conf_deref_def cf_heap_def run_heap_deref run_heap_free
      delete_id map_of_eq_None_iff split: option.split)

lemma keeps_conf_free [keeps_intros]: "keeps ok (conf_free sl a)"
  by (simp add: keeps_def conf_free_state cf_ok_gone)

lemma keeps_find [keeps_intros]: "keeps ok (conf_find sl chan)"
proof -
  have "keeps ok (conf_find_in sl chan l)" for l
    by (induction l) (simp_all add: keeps_return keeps_bind keeps_conf_deref keeps_if)
  then show ?thesis unfolding conf_find_def by (intro keeps_intros)
qed

lemma keeps_state [keeps_intros]: "keeps ok (conf_state sl a st)"
  unfolding conf_state_def by (intro keeps_intros)

lemma keeps_members [keeps_intros]:
  "keeps ok (MEMBER_ADD sl a i m)" "keeps ok (MEMBER_REM sl a i)" "keeps ok (MEMBER_FIND sl a i)"
  unfolding MEMBER_ADD_def MEMBER_REM_def MEMBER_FIND_def by (intro keeps_intros)+

end

text \<open>
  The functions of the client keep it, too, and the writes of the connection leave the service
  alone: one happens while a conference is neither in the list nor freed.
\<close>

definition conf_handler_keeps :: "('c mwSession \<Rightarrow> bool) \<Rightarrow> 'c mwConferenceHandler \<Rightarrow> bool" where
  "conf_handler_keeps P h \<longleftrightarrow> (\<forall>f a o' i. cfh_invited h = Some f \<longrightarrow> keeps P (f a o' i))
     \<and> (\<forall>f a l. cfh_opened h = Some f \<longrightarrow> keeps P (f a l)) \<and> (\<forall>f a r. cfh_closed h = Some f \<longrightarrow> keeps P (f a r))
     \<and> (\<forall>f a m. cfh_joined h = Some f \<longrightarrow> keeps P (f a m)) \<and> (\<forall>f a m. cfh_parted h = Some f \<longrightarrow> keeps P (f a m))
     \<and> (\<forall>f a m t. cfh_text h = Some f \<longrightarrow> keeps P (f a m t)) \<and> (\<forall>f a m t. cfh_typing h = Some f \<longrightarrow> keeps P (f a m t))
     \<and> (\<forall>f. cfh_clear h = Some f \<longrightarrow> keeps P f)"

locale conf_service = conf_slot +
  fixes env :: "'a env" and h :: "'a mwConferenceHandler" and rand :: "('a, guint32) M"
  assumes env: "env_keeps ok env" and handler: "conf_handler_keeps ok h" and rand: "keeps ok rand"
    and wr: "keeps (\<lambda>s. srvc_of sl s = x) (e_io_write env b)"
begin

lemmas E = srvc_calls srvc.keeps_channel [OF env] srvc.keeps_negotiation [OF env] keeps_service_calls [OF env]
  srvc.keeps_service [OF env] env_keepsU [OF env]

lemma destroy_state: "srvc_of sl (exec_state (mwConference_destroy env sl a r text) s) = conf_gone a (srvc_of sl s)"
proof -
  have chan: "srvc_of sl (exec_state (mwChannel_destroy env c r i) t) = srvc_of sl t" for c i t
    using keepsD [OF keeps_channel_write(2) [of "\<lambda>x. x = srvc_of sl t", OF wr]] by simp
  have deref: "srvc_of sl (exec_state (conf_deref sl a) t) = srvc_of sl t" for t
    using keepsD [OF keeps_conf_deref [of "\<lambda>x. x = srvc_of sl t"]] by simp
  have gone: "conf_gone a (cf\<lparr>cf_confs := removeAll a (cf_confs cf)\<rparr>) = conf_gone a cf" for cf
    by (simp add: conf_gone_def)
  show ?thesis
    by (simp add: mwConference_destroy_def split_def conf_free_state chan deref gone split: option.split)
qed

lemma keeps_destroy_conf [keeps_intros]: "keeps ok (mwConference_destroy env sl a r text)"
  by (simp add: keeps_def destroy_state cf_ok_gone)

lemma keeps_call [keeps_intros]: "(\<And>m. f = Some m \<Longrightarrow> keeps ok m) \<Longrightarrow> keeps ok (conf_call sl f)"
  unfolding conf_call_def by (intro keeps_intros E keeps_optionally)

lemma keeps_create: "keeps ok (conf_recv_channelCreate env sl h c mc)"
  unfolding conf_recv_channelCreate_def Let_def split_def
  by (intro keeps_intros E) (use handler in \<open>auto simp: conf_handler_keeps_def\<close>)

lemma keeps_destroy: "keeps ok (conf_recv_channelDestroy env sl h c md)"
  unfolding conf_recv_channelDestroy_def
  by (intro keeps_intros E) (use handler in \<open>auto simp: conf_handler_keeps_def\<close>)

lemma keeps_recv: "keeps ok (conf_recv env sl h c t data)"
  unfolding conf_recv_def WELCOME_recv_def JOIN_recv_def PART_recv_def MESSAGE_recv_def conf_text_recv_def conf_data_recv_def Let_def split_def
  by (intro keeps_intros keeps_for_each E) (use handler in \<open>auto simp: conf_handler_keeps_def\<close>)

lemma keeps_each: "(\<And>a. keeps ok (f a)) \<Longrightarrow> keeps ok (conf_each sl f)"
  unfolding conf_each_def by (intro keeps_while_do keeps_intros keeps_fields)

lemma keeps_stop: "keeps ok (conf_stop env sl)"
  unfolding conf_stop_def by (intro keeps_intros keeps_each E)

lemma keeps_clear: "keeps ok (conf_clear sl h)"
proof -
  have "keeps ok (optionally (cfh_clear h))" using handler by (auto simp: conf_handler_keeps_def optionally_def keeps_return split: option.split)
  moreover have "keeps ok (srvc_modify sl (\<lambda>cf. cf\<lparr>cf_handler := False\<rparr>))" by (rule keeps_srvc_modify) (simp add: cf_ok_def)
  ultimately show ?thesis unfolding conf_clear_def by (intro keeps_intros keeps_each E)
qed

lemma keeps_open: "keeps ok (mwConference_open env sl rand a)"
  unfolding mwConference_open_def conf_generate_name_def Let_def by (intro keeps_intros E rand)

lemma keeps_accept: "keeps ok (mwConference_accept env sl a)"
  unfolding mwConference_accept_def by (intro keeps_intros E)

lemma keeps_sends:
  "keeps ok (mwConference_invite env sl a w text)" "keeps ok (mwConference_sendText env sl a text)"
  "keeps ok (mwConference_sendTyping env sl a typing)"
  unfolding mwConference_invite_def mwConference_sendText_def mwConference_sendTyping_def by (intro keeps_intros E)+

lemma keeps_new: "keeps ok (mwConference_new sl title)"
  unfolding mwConference_new_def by (intro keeps_intros)

lemma env_install: "env_keeps ok (conf_install sl h env)"
  using env keeps_create keeps_destroy keeps_recv keeps_stop srvc.keeps_service_state
  unfolding env_keeps_def conf_install_def conf_start_def conf_recv_channelAccept_def by (simp add: keeps_return)

lemma stop_empties:
  "cf_confs (srvc_of sl (exec_state (conf_stop env sl) s)) = []"
proof -
  let ?m = "do { l \<leftarrow> srvc_get sl cf_confs; do { mwConference_destroy env sl (hd l) ERR_SUCCESS None; State_Monad.return () } }"
  have less: "length (cf_confs (srvc_of sl (exec_state ?m t))) < length (cf_confs (srvc_of sl t))"
    if "cf_confs (srvc_of sl t) \<noteq> []" for t
    using that length_removeAll_less [of "hd (cf_confs (srvc_of sl t))"] by (simp add: split_def destroy_state conf_gone_def)
  have "cf_confs (srvc_of sl (exec_state (conf_each sl (\<lambda>conf. do { mwConference_destroy env sl conf ERR_SUCCESS None; State_Monad.return () })) s)) = []"
    unfolding conf_each_def
    using while_do_empties [where P = "\<lambda>_. True" and l = "\<lambda>s. cf_confs (srvc_of sl s)" and m = ?m] less by blast
  with keepsD [OF srvc.keeps_service_state(4) [of "\<lambda>cf. cf_confs cf = []"]] show ?thesis
    by (simp add: conf_stop_def split_def)
qed

end

section \<open>Calls and messages\<close>

datatype conf_client_call =
    Conf_new cstr
  | Conf_open addr
  | Conf_destroy addr guint32 cstr
  | Conf_accept addr
  | Conf_invite addr mwIdBlock cstr
  | Conf_text addr cstr
  | Conf_typing addr bool
  | Conf_stop
  | Conf_bytes bytes

fun conf_call_run :: "'c env \<Rightarrow> 'c conf_slot \<Rightarrow> ('c, guint32) M \<Rightarrow> conf_client_call \<Rightarrow> ('c, unit) M" where
  "conf_call_run env sl rand (Conf_new title) = do { mwConference_new sl title; State_Monad.return () }"
| "conf_call_run env sl rand (Conf_open a) = do { mwConference_open env sl rand a; State_Monad.return () }"
| "conf_call_run env sl rand (Conf_destroy a r text) = do { mwConference_destroy env sl a r text; State_Monad.return () }"
| "conf_call_run env sl rand (Conf_accept a) = do { mwConference_accept env sl a; State_Monad.return () }"
| "conf_call_run env sl rand (Conf_invite a who text) = do { mwConference_invite env sl a who text; State_Monad.return () }"
| "conf_call_run env sl rand (Conf_text a text) = do { mwConference_sendText env sl a text; State_Monad.return () }"
| "conf_call_run env sl rand (Conf_typing a t) = do { mwConference_sendTyping env sl a t; State_Monad.return () }"
| "conf_call_run env sl rand Conf_stop = mwService_stop env mwService_CONFERENCE"
| "conf_call_run env sl rand (Conf_bytes b) = session_process env b"

context conf_service
begin

lemma keeps_client: "keeps ok (conf_call_run env sl rand call)"
  by (cases call)
    (simp_all add: keeps_bind keeps_return keeps_new keeps_open keeps_destroy_conf keeps_accept keeps_sends
      srvc.keeps_service [OF env] srvc.keeps_process [OF env])

lemma conf_service_install: "conf_service sl (conf_install sl h env) h rand"
  using env_install handler rand wr conf_slot_axioms
  by (simp add: conf_service_def conf_service_axioms_def conf_install_def)

end

text \<open>
  Claim C13: whatever sequence of calls of the client and messages of the connection, and whatever
  the client's functions do that keeps the same property, the conferences the service lists
  are exactly those that live, each once; stopping the service ends and frees all of them.
\<close>

theorem conferences_consistent:
  assumes "service_slot sl" and "cf_ok (srvc_of sl s)"
    and "env_keeps (\<lambda>s. cf_ok (srvc_of sl s)) env" and "conf_handler_keeps (\<lambda>s. cf_ok (srvc_of sl s)) h"
    and "keeps (\<lambda>s. cf_ok (srvc_of sl s)) rand" and "\<forall>b x. keeps (\<lambda>s. srvc_of sl s = x) (e_io_write env b)"
    and "t = exec_state (for_each (conf_call_run (conf_install sl h env) sl rand) calls) s"
    and "u = exec_state (conf_stop (conf_install sl h env) sl) t"
  shows "cf_ok (srvc_of sl t) \<and> cf_confs (srvc_of sl u) = [] \<and> heap_dom (cf_objs (srvc_of sl u)) = {}"
proof -
  have "conf_service sl env h rand"
    using assms(1,3-6) by (simp add: conf_service_def conf_service_axioms_def conf_slot_def)
  then have serv: "conf_service sl (conf_install sl h env) h rand"
    by (rule conf_service.conf_service_install)
  have "keeps (\<lambda>s. cf_ok (srvc_of sl s)) (for_each (conf_call_run (conf_install sl h env) sl rand) calls)"
    by (intro keeps_for_each conf_service.keeps_client [OF serv])
  then have t: "cf_ok (srvc_of sl t)" unfolding assms(7) by (rule keepsD) (rule assms(2))
  from keepsD [OF conf_service.keeps_stop [OF serv] t] conf_service.stop_empties [OF serv, of t] t show ?thesis
    unfolding assms(8) by (simp add: cf_ok_def)
qed

section \<open>A client that records\<close>

datatype conf_event =
    Cf_invited addr mwLoginInfo cstr
  | Cf_opened addr "mwLoginInfo list"
  | Cf_closed addr guint32
  | Cf_joined addr mwLoginInfo
  | Cf_parted addr mwLoginInfo
  | Cf_text addr mwLoginInfo bytes
  | Cf_typing addr mwLoginInfo bool

record conf_client =
  cfc_conf :: mwServiceConference
  cfc_wire :: "bytes list"
  cfc_log :: "conf_event list"

definition cfc_slot :: "conf_client conf_slot" where
  "cfc_slot = \<lparr>sl_get = cfc_conf, sl_put = (\<lambda>x c. c\<lparr>cfc_conf := x\<rparr>)\<rparr>"

definition cfc_env :: "conf_client env" where
  "cfc_env = plain_env (\<lambda>b c. c\<lparr>cfc_wire := cfc_wire c @ [b]\<rparr>)"

definition cfc_record :: "conf_event \<Rightarrow> (conf_client, unit) M" where
  "cfc_record ev = modify (\<lambda>s. s\<lparr>ss_client := (ss_client s)\<lparr>cfc_log := cfc_log (ss_client s) @ [ev]\<rparr>\<rparr>)"

definition cfc_handler :: "conf_client mwConferenceHandler" where
  "cfc_handler = \<lparr>
     cfh_invited = Some (\<lambda>a o' i. cfc_record (Cf_invited a o' i)),
     cfh_opened = Some (\<lambda>a l. cfc_record (Cf_opened a l)),
     cfh_closed = Some (\<lambda>a r. cfc_record (Cf_closed a r)),
     cfh_joined = Some (\<lambda>a m. cfc_record (Cf_joined a m)),
     cfh_parted = Some (\<lambda>a m. cfc_record (Cf_parted a m)),
     cfh_text = Some (\<lambda>a m t. cfc_record (Cf_text a m t)),
     cfh_typing = Some (\<lambda>a m t. cfc_record (Cf_typing a m t)),
     cfh_clear = None\<rparr>"

lemma cfc_of [simp]: "srvc_of cfc_slot s = cfc_conf (ss_client s)"
  by (simp add: srvc_of_def cfc_slot_def)

lemma cfc_set [simp]: "srvc_set cfc_slot x s = s\<lparr>ss_client := (ss_client s)\<lparr>cfc_conf := x\<rparr>\<rparr>"
  by (simp add: srvc_set_def cfc_slot_def)

interpretation cfc: conf_service cfc_slot cfc_env cfc_handler "State_Monad.return 5"
proof
  show "env_keeps (\<lambda>s. cf_ok (srvc_of cfc_slot s)) cfc_env"
    unfolding cfc_env_def by (rule plain_env_keeps) (simp add: cfc_slot_def)
qed (auto simp: cfc_slot_def cfc_handler_def cfc_env_def plain_env_def cfc_record_def conf_handler_keeps_def srvc_of_def keeps_def)

definition cfc_start :: "conf_client mwSession" where
  "cfc_start = (mwSession_zero \<lparr>cfc_conf = mwServiceConference_new, cfc_wire = [], cfc_log = []\<rparr>)
     \<lparr>ss_services := [(mwService_CONFERENCE, service_of mwService_CONFERENCE)]\<rparr>"

theorem conferences_consistent_witness:
  "cf_ok (srvc_of cfc_slot cfc_start)
   \<and> cf_confs (srvc_of cfc_slot (exec_state (conf_stop (conf_install cfc_slot cfc_handler cfc_env) cfc_slot)
       (exec_state (for_each (conf_call_run (conf_install cfc_slot cfc_handler cfc_env) cfc_slot (State_Monad.return 5))
         [Conf_new (Some [65]), Conf_open 1, Conf_bytes [1, 2, 3]]) cfc_start))) = []"
proof -
  have start: "cf_ok (srvc_of cfc_slot cfc_start)"
    using cf_ok_new by (simp add: cfc_start_def mwSession_zero_def)
  have wr: "\<forall>b x. keeps (\<lambda>s. srvc_of cfc_slot s = x) (e_io_write cfc_env b)"
    using cfc.wr by blast
  show ?thesis
    using conferences_consistent [OF cfc.service_slot_axioms start cfc.env cfc.handler cfc.rand wr refl refl] start by blast
qed

end
