(* ===== verification/Conf_Roster.thy ===== *)
theory Conf_Roster
  imports Srvc_Conf
begin

text \<open>
  What a conference shows its client: the messages of the server against an abstract room, a
  state and a map from numbers to members.
\<close>

section \<open>The messages of the server\<close>

datatype conf_server_msg =
    Srv_welcome cstr cstr "(guint16 \<times> mwLoginInfo) list"
  | Srv_join guint16 mwLoginInfo
  | Srv_part guint16
  | Srv_text guint16 guint32 bytes
  | Srv_typing guint16 guint32 bool

fun conf_msg_type :: "conf_server_msg \<Rightarrow> guint16" where
  "conf_msg_type (Srv_welcome _ _ _) = ucast conf_WELCOME"
| "conf_msg_type (Srv_join _ _) = ucast conf_JOIN"
| "conf_msg_type (Srv_part _) = ucast conf_PART"
| "conf_msg_type _ = ucast conf_MESSAGE"

text \<open>
  Texts and typing notices are what \<open>mwConference_sendText\<close> and \<open>mwConference_sendTyping\<close>
  of a member render, behind the number of the member and a number nobody reads.
\<close>

fun conf_msg_wire :: "conf_server_msg \<Rightarrow> bytes" where
  "conf_msg_wire (Srv_welcome name title ms) = string_wire name @ string_wire title @ MW16_PUT 0 @ MW32_PUT 0
     @ MW32_PUT (of_nat (length ms)) @ concat (map (\<lambda>(i, m). MW16_PUT i @ mwLoginInfo_wire m) ms)"
| "conf_msg_wire (Srv_join i m) = MW16_PUT i @ mwLoginInfo_wire m"
| "conf_msg_wire (Srv_part i) = MW16_PUT i"
| "conf_msg_wire (Srv_text i n text) = MW16_PUT i @ MW32_PUT n @ opaque_bytes (conf_text_payload (Some text))"
| "conf_msg_wire (Srv_typing i n typing) = MW16_PUT i @ MW32_PUT n @ opaque_bytes (conf_typing_payload typing)"

fun conf_msg_valid :: "conf_server_msg \<Rightarrow> bool" where
  "conf_msg_valid (Srv_welcome name title ms) \<longleftrightarrow> string_valid name \<and> string_valid title \<and> length ms < 2 ^ 32
     \<and> distinct (map fst ms) \<and> list_all (\<lambda>(i, m). mwLoginInfo_valid m) ms"
| "conf_msg_valid (Srv_join i m) \<longleftrightarrow> mwLoginInfo_valid m"
| "conf_msg_valid (Srv_part i) \<longleftrightarrow> True"
| "conf_msg_valid (Srv_text i n text) \<longleftrightarrow> string_valid (Some text)"
| "conf_msg_valid (Srv_typing i n typing) \<longleftrightarrow> True"

section \<open>The room\<close>

type_synonym room = "mwConferenceState \<times> (guint16 \<rightharpoonup> mwLoginInfo)"

fun room_step :: "addr \<Rightarrow> conf_server_msg \<Rightarrow> room \<Rightarrow> room \<times> conf_event list" where
  "room_step a (Srv_welcome name title ms) (st, r) =
     (let ms = map (\<lambda>(i, m). (i, mwLoginInfo_norm m)) ms in ((mwConference_OPEN, r ++ map_of ms), [Cf_opened a (map snd ms)]))"
| "room_step a (Srv_join i m) (st, r) =
     (if st = mwConference_PENDING then ((st, r), [])
      else ((st, r(i \<mapsto> mwLoginInfo_norm m)), [Cf_joined a (mwLoginInfo_norm m)]))"
| "room_step a (Srv_part i) (st, r) = (case r i of None \<Rightarrow> ((st, r), []) | Some m \<Rightarrow> ((st, r(i := None)), [Cf_parted a m]))"
| "room_step a (Srv_text i n text) (st, r) = ((st, r), case r i of None \<Rightarrow> [] | Some m \<Rightarrow> if text = [] then [] else [Cf_text a m text])"
| "room_step a (Srv_typing i n typing) (st, r) = ((st, r), case r i of None \<Rightarrow> [] | Some m \<Rightarrow> [Cf_typing a m typing])"

fun room_run :: "addr \<Rightarrow> conf_server_msg list \<Rightarrow> room \<Rightarrow> room \<times> conf_event list" where
  "room_run a [] r = (r, [])"
| "room_run a (x # xs) r = (let (r, e) = room_step a x r; (r, es) = room_run a xs r in (r, e @ es))"

definition room_of :: "mwConference \<Rightarrow> room" where
  "room_of c = (cf_state c, map_of (cf_members c))"

section \<open>The conference of a channel\<close>

definition conf_at :: "guint32 \<Rightarrow> addr \<Rightarrow> mwConference \<Rightarrow> mwServiceConference \<Rightarrow> bool" where
  "conf_at chan a c cf \<longleftrightarrow> cf_ok cf \<and> cf_handler cf \<and> heap_at (cf_objs cf) a = Some c \<and> cf_channel c = Some chan
     \<and> (\<forall>b d. heap_at (cf_objs cf) b = Some d \<longrightarrow> cf_channel d = Some chan \<longrightarrow> b = a)"

definition cfc_put :: "addr \<Rightarrow> mwConference \<Rightarrow> conf_event list \<Rightarrow> conf_client mwSession \<Rightarrow> conf_client mwSession" where
  "cfc_put a c evs s = s\<lparr>ss_client := (ss_client s)\<lparr>
     cfc_conf := (cfc_conf (ss_client s))\<lparr>cf_objs := heap_set a c (cf_objs (cfc_conf (ss_client s)))\<rparr>,
     cfc_log := cfc_log (ss_client s) @ evs\<rparr>\<rparr>"

lemma cfc_put_put [simp]: "cfc_put a c evs (cfc_put a c' evs' s) = cfc_put a c (evs' @ evs) s"
  by (simp add: cfc_put_def)

lemma cfc_put_log [simp]: "cfc_log (ss_client (cfc_put a c evs s)) = cfc_log (ss_client s) @ evs"
  by (simp add: cfc_put_def)

lemma conf_at_put:
  assumes "conf_at chan a c (cfc_conf (ss_client s))" and "cf_channel c' = cf_channel c"
  shows "conf_at chan a c' (cfc_conf (ss_client (cfc_put a c' evs s)))"
  using assms by (auto simp: conf_at_def cfc_put_def cf_ok_def objs_ok_set)

lemma cfc_put_same:
  assumes "conf_at chan a c (cfc_conf (ss_client s))"
  shows "cfc_put a c evs s = s\<lparr>ss_client := (ss_client s)\<lparr>cfc_log := cfc_log (ss_client s) @ evs\<rparr>\<rparr>"
  using assms heap_set_same [of "cf_objs (cfc_conf (ss_client s))" a c] by (simp add: conf_at_def cfc_put_def)

lemma cfc_conf_run:
  assumes "conf_at chan a c (cfc_conf (ss_client s))"
  shows "run_state (conf_deref cfc_slot a) s = (c, s)" "run_state (conf_update cfc_slot a f) s = ((), cfc_put a (f c) [] s)"
  using assms cfc.run_conf(1) [of s a c] cfc.run_conf(2) [of s a c f] by (simp_all add: conf_at_def cfc_put_def)

lemma cfc_call:
  assumes "conf_at chan a c (cfc_conf (ss_client s))"
  shows "run_state (conf_call cfc_slot (Some (cfc_record ev))) s = ((), cfc_put a c [ev] s)"
  using assms by (simp add: cfc_put_same [OF assms] conf_call_def conf_at_def cfc_record_def optionally_def)

lemma cfc_find:
  assumes "conf_at chan a c (cfc_conf (ss_client s))"
  shows "run_state (conf_find cfc_slot chan) s = (Some a, s)"
proof -
  let ?cf = "cfc_conf (ss_client s)"
  have here: "heap_at (cf_objs ?cf) a = Some c" "cf_channel c = Some chan"
    and only: "heap_at (cf_objs ?cf) b = Some d \<Longrightarrow> cf_channel d = Some chan \<Longrightarrow> b = a" for b d
    using assms unfolding conf_at_def by blast+
  have "run_state (conf_find_in cfc_slot chan l) s = (if a \<in> set l then Some a else None, s)"
    if "set l \<subseteq> heap_dom (cf_objs ?cf)" for l
    using that
  proof (induction l)
    case (Cons b l)
    then obtain d where d: "heap_at (cf_objs ?cf) b = Some d"
      by (metis heap_at_dom list.set_intros(1) option.exhaust subsetD)
    have "cf_channel d = Some chan \<longleftrightarrow> b = a"
      using only [OF d] here d by (cases "b = a") auto
    moreover have "run_state (conf_deref cfc_slot b) s = (d, s)" by (rule cfc.run_conf(1)) (simp add: d)
    ultimately show ?case using Cons by simp
  qed simp
  moreover have "set (cf_confs ?cf) = heap_dom (cf_objs ?cf)" "a \<in> heap_dom (cf_objs ?cf)"
    using assms by (simp_all add: conf_at_def cf_ok_def) (metis heap_at_dom option.distinct(1))
  ultimately show ?thesis by (simp add: conf_find_def)
qed

section \<open>Each message\<close>

lemma conf_payload_bytes:
  "opaque_bytes (conf_text_payload text) = MW32_PUT 1 @ string_wire text"
  "opaque_bytes (conf_typing_payload typing) = MW32_PUT 2 @ MW32_PUT 1 @ MW32_PUT (of_bool (\<not> typing)) @ opaque_wire []"
proof -
  show "opaque_bytes (conf_text_payload text) = MW32_PUT 1 @ string_wire text"
    unfolding conf_text_payload_def by (rule put_opaque_writes) (intro writer_intros)
  show "opaque_bytes (conf_typing_payload typing) = MW32_PUT 2 @ MW32_PUT 1 @ MW32_PUT (of_bool (\<not> typing)) @ opaque_wire []"
    unfolding conf_typing_payload_def by (rule put_opaque_writes) (intro writer_intros)
qed

lemma welcome_members_wire:
  "list_all (\<lambda>(i, m). mwLoginInfo_valid m) ms \<Longrightarrow> eval_state (welcome_members (length ms))
      (gbuf w pre (concat (map (\<lambda>(i, m). MW16_PUT i @ mwLoginInfo_wire m) ms)))
    = map (\<lambda>(i, m). (i, mwLoginInfo_norm m)) ms"
proof (induction ms arbitrary: pre)
  case (Cons x ms)
  obtain i m where x: "x = (i, m)" by (cases x)
  have m: "mwLoginInfo_valid m" using Cons.prems by (simp add: x)
  show ?case
    using Cons.prems Cons.IH by (simp add: x guint16_get_wire mwLoginInfo_get_wire [OF m] split_def)
qed simp

lemma cfc_add_all:
  assumes "conf_at chan a c (cfc_conf (ss_client s))"
  shows "exec_state (for_each (\<lambda>(i, m). MEMBER_ADD cfc_slot a i m) ms) s
    = cfc_put a (c\<lparr>cf_members := fold (\<lambda>(i, m). AList.update i m) ms (cf_members c)\<rparr>) [] s"
  using assms
proof (induction ms arbitrary: c s)
  case Nil
  then show ?case by (simp add: cfc_put_same)
next
  case (Cons x ms)
  let ?c = "c\<lparr>cf_members := AList.update (fst x) (snd x) (cf_members c)\<rparr>"
  have "conf_at chan a ?c (cfc_conf (ss_client (cfc_put a ?c [] s)))" by (rule conf_at_put [OF Cons.prems]) simp
  from Cons.IH [OF this] show ?case
    by (simp add: split_def MEMBER_ADD_def cfc_conf_run(2) [OF Cons.prems])
qed

lemma map_of_add_all: "map_of (fold (\<lambda>(i, m). AList.update i m) ms al) = map_of al ++ map_of (rev ms)"
  by (induction ms arbitrary: al) (auto simp: update_conv' map_add_def fun_eq_iff split: option.split)

lemma map_of_rev: "distinct (map fst ms) \<Longrightarrow> map_of (rev ms) = map_of ms"
  by (subst map_of_inject_set) (simp_all add: rev_map [symmetric])

lemma cfc_message:
  assumes "conf_at chan a c (cfc_conf (ss_client s))" and "conf_msg_valid x" and "room_step a x (room_of c) = (r, evs)"
  obtains c' where "exec_state (conf_recv cfc_env cfc_slot cfc_handler chan (conf_msg_type x) (opaque_of (conf_msg_wire x))) s = cfc_put a c' evs s"
    "room_of c' = r" "cf_channel c' = cf_channel c"
proof (cases x)
  case (Srv_part i)
  show ?thesis
  proof (cases "map_of (cf_members c) i")
    case None
    with assms Srv_part that [of c] show ?thesis
      using guint16_get_wire [of 0 True "[]" i "[]"]
      by (simp add: conf_recv_def cfc_find [OF assms(1)] conf_WELCOME_def conf_JOIN_def conf_PART_def mwGetBuffer_wrap_gbuf
          PART_recv_def MEMBER_FIND_def cfc_conf_run(1) [OF assms(1)] room_of_def cfc_put_same [OF assms(1)])
  next
    case (Some m)
    note put = conf_at_put [OF assms(1) refl, of "[Cf_parted a m]"]
    from Some assms Srv_part that [of "c\<lparr>cf_members := AList.delete i (cf_members c)\<rparr>"] show ?thesis
      using guint16_get_wire [of 0 True "[]" i "[]"]
      by (auto simp: conf_recv_def cfc_find [OF assms(1)] conf_WELCOME_def conf_JOIN_def conf_PART_def mwGetBuffer_wrap_gbuf
          PART_recv_def MEMBER_FIND_def MEMBER_REM_def cfc_conf_run(1) [OF assms(1)] room_of_def cfc_handler_def
          cfc_call [OF assms(1)] cfc_conf_run(2) [OF put] delete_conv')
  qed
next
  case (Srv_join i m)
  show ?thesis
  proof (cases "cf_state c = mwConference_PENDING")
    case True
    with assms Srv_join that [of c] show ?thesis
      by (simp add: conf_recv_def cfc_find [OF assms(1)] conf_WELCOME_def conf_JOIN_def
          JOIN_recv_def cfc_conf_run(1) [OF assms(1)] room_of_def cfc_put_same [OF assms(1)])
  next
    case False
    let ?c = "c\<lparr>cf_members := AList.update i (mwLoginInfo_norm m) (cf_members c)\<rparr>"
    have put: "conf_at chan a ?c (cfc_conf (ss_client (cfc_put a ?c [] s)))" by (rule conf_at_put [OF assms(1)]) simp
    have m: "mwLoginInfo_valid m" using assms(2) Srv_join by simp
    from False assms Srv_join that [of ?c] show ?thesis
      using mwLoginInfo_get_wire [OF m, of True _ "[]"]
      by (simp add: conf_recv_def cfc_find [OF assms(1)] conf_WELCOME_def conf_JOIN_def mwGetBuffer_wrap_gbuf guint16_get_wire
          JOIN_recv_def MEMBER_ADD_def cfc_conf_run [OF assms(1)] room_of_def cfc_handler_def cfc_call [OF put] update_conv')
  qed
next
  case (Srv_text i n str)
  have v: "string_valid (Some str)" using assms(2) Srv_text by simp
  have put: "cfc_put a c [] s = s" by (simp add: cfc_put_same [OF assms(1)])
  from assms Srv_text that [of c] show ?thesis
    using mwString_get_wire [OF v, of True _ "[]"]
    by (auto simp: conf_recv_def cfc_find [OF assms(1)] conf_WELCOME_def conf_JOIN_def conf_PART_def conf_MESSAGE_def mwGetBuffer_wrap_gbuf
        guint16_get_wire guint32_get_wire MESSAGE_recv_def MEMBER_FIND_def cfc_conf_run [OF assms(1)] room_of_def cfc_handler_def
        conf_text_recv_def conf_payload_bytes string_norm_def cfc_call [OF assms(1)] put split: option.splits if_splits)
next
  case (Srv_typing i n typing)
  have put: "cfc_put a c [] s = s" by (simp add: cfc_put_same [OF assms(1)])
  from assms Srv_typing that [of c] show ?thesis
    by (auto simp: conf_recv_def cfc_find [OF assms(1)] conf_WELCOME_def conf_JOIN_def conf_PART_def conf_MESSAGE_def mwGetBuffer_wrap_gbuf
        guint16_get_wire guint32_get_wire MESSAGE_recv_def MEMBER_FIND_def cfc_conf_run [OF assms(1)] room_of_def cfc_handler_def
        conf_data_recv_def conf_payload_bytes cfc_call [OF assms(1)] put split: option.splits if_splits)
next
  case (Srv_welcome name title ms)
  define ns where "ns = map (\<lambda>(i, m). (i, mwLoginInfo_norm m)) ms"
  let ?c0 = "c\<lparr>cf_name := string_norm name, cf_title := string_norm title\<rparr>"
  let ?c1 = "?c0\<lparr>cf_members := fold (\<lambda>(i, m). AList.update i m) ns (cf_members c)\<rparr>"
  let ?c2 = "?c1\<lparr>cf_state := mwConference_OPEN\<rparr>"
  have v: "string_valid name" "string_valid title" "list_all (\<lambda>(i, m). mwLoginInfo_valid m) ms" "distinct (map fst ms)"
    and k: "unat (of_nat (length ms) :: guint32) = length ms"
    using assms(2) by (simp_all add: Srv_welcome unat_of_nat)
  have fst: "map fst ns = map fst ms" by (simp add: ns_def split_def)
  have c0: "conf_at chan a ?c0 (cfc_conf (ss_client (cfc_put a ?c0 [] s)))" by (rule conf_at_put [OF assms(1)]) simp
  have c1: "conf_at chan a ?c1 (cfc_conf (ss_client (cfc_put a ?c1 [] s)))" by (rule conf_at_put [OF assms(1)]) simp
  have c2: "conf_at chan a ?c2 (cfc_conf (ss_client (cfc_put a ?c2 [] s)))" by (rule conf_at_put [OF assms(1)]) simp
  have add: "run_state (for_each (\<lambda>(i, m). MEMBER_ADD cfc_slot a i m) ns) (cfc_put a ?c0 [] s) = ((), cfc_put a ?c1 [] s)"
    using cfc_add_all [OF c0, of ns] by (simp add: prod_eq_iff)
  have st: "run_state (conf_state cfc_slot a mwConference_OPEN) (cfc_put a ?c1 [] s) = ((), cfc_put a ?c2 [] s)"
  proof (cases "cf_state c = mwConference_OPEN")
    case True
    then have same: "?c2 = ?c1" by (cases c) simp
    show ?thesis unfolding same using True by (simp add: conf_state_def cfc_conf_run [OF c1])
  qed (simp add: conf_state_def cfc_conf_run [OF c1])
  have call: "run_state (conf_call cfc_slot (Some (cfc_record ev))) (cfc_put a ?c2 [] s) = ((), cfc_put a ?c2 [ev] s)" for ev
    using cfc_call [OF c2, of ev] by simp
  have room: "room_of ?c2 = (mwConference_OPEN, map_of (cf_members c) ++ map_of ns)"
    unfolding room_of_def using map_of_rev [of ns, unfolded fst, OF v(4)] by (simp add: map_of_add_all)
  have run: "exec_state (conf_recv cfc_env cfc_slot cfc_handler chan (conf_msg_type x) (opaque_of (conf_msg_wire x))) s
      = cfc_put a ?c2 [Cf_opened a (map snd ns)] s"
    using v(4) fst welcome_members_wire [OF v(3)]
    by (simp add: Srv_welcome conf_recv_def cfc_find [OF assms(1)] conf_WELCOME_def mwGetBuffer_wrap_gbuf WELCOME_recv_def
        mwString_get_wire v(1,2) guint16_get_wire guint32_get_wire k cfc_conf_run(2) [OF assms(1)] Let_def ns_def [symmetric] add st call cfc_handler_def)
  show ?thesis
    using that [of ?c2] run room assms(3) by (auto simp: Srv_welcome room_of_def Let_def ns_def)
qed

section \<open>All messages\<close>

abbreviation cfc_recv :: "guint32 \<Rightarrow> conf_server_msg \<Rightarrow> (conf_client, unit) M" where
  "cfc_recv chan x \<equiv> conf_recv cfc_env cfc_slot cfc_handler chan (conf_msg_type x) (opaque_of (conf_msg_wire x))"

lemma cfc_messages:
  "conf_at chan a c (cfc_conf (ss_client s)) \<Longrightarrow> list_all conf_msg_valid xs \<Longrightarrow> room_run a xs (room_of c) = (r, evs)
    \<Longrightarrow> \<exists>c'. exec_state (for_each (cfc_recv chan) xs) s = cfc_put a c' evs s \<and> room_of c' = r \<and> cf_channel c' = cf_channel c"
proof (induction xs arbitrary: c s r evs)
  case Nil
  have "exec_state (for_each (cfc_recv chan) []) s = cfc_put a c evs s" "room_of c = r"
    using Nil by (simp_all add: cfc_put_same [OF Nil(1)])
  then show ?case by blast
next
  case (Cons x xs)
  obtain r1 e1 where step: "room_step a x (room_of c) = (r1, e1)" by fastforce
  obtain r2 e2 where rest: "room_run a xs r1 = (r2, e2)" by fastforce
  have out: "r = r2" "evs = e1 @ e2" using Cons.prems(3) by (simp_all add: step rest)
  have "conf_msg_valid x" using Cons.prems(2) by simp
  from cfc_message [OF Cons.prems(1) this step] obtain c1 where c1:
    "exec_state (cfc_recv chan x) s = cfc_put a c1 e1 s" "room_of c1 = r1" "cf_channel c1 = cf_channel c" .
  have "\<exists>c'. exec_state (for_each (cfc_recv chan) xs) (cfc_put a c1 e1 s) = cfc_put a c' e2 (cfc_put a c1 e1 s)
      \<and> room_of c' = r2 \<and> cf_channel c' = cf_channel c1"
    by (rule Cons.IH [OF conf_at_put [OF Cons.prems(1) c1(3)]]) (use Cons.prems(2) rest c1(2) in simp_all)
  then show ?case using c1 by (simp add: split_def out)
qed

text \<open>
  Claim C12: a conference shows its client the room the server keeps. Whatever welcome, join and part
  messages, texts and typing notices come on its channel, in any order, the functions of the
  client are called exactly as the abstract room says: the members of a welcome and those
  who join later are known, one who parts is not known any more, joins before the welcome of a
  conference of one's own are ignored, and what a member sends with \<open>mwConference_sendText\<close>
  or \<open>mwConference_sendTyping\<close> arrives as the words of that member; messages of
  others are dropped. Nothing is written, no other conference changes and nothing faults.
\<close>

theorem conference_refines_room:
  assumes "conf_at chan a c (cfc_conf (ss_client s))" and "list_all conf_msg_valid xs"
    and "room_run a xs (room_of c) = (r, evs)" and "t = exec_state (for_each (cfc_recv chan) xs) s"
  shows "\<exists>c'. conf_at chan a c' (cfc_conf (ss_client t)) \<and> room_of c' = r
    \<and> cfc_log (ss_client t) = cfc_log (ss_client s) @ evs \<and> cfc_wire (ss_client t) = cfc_wire (ss_client s)
    \<and> ss_fault t = ss_fault s \<and> (b \<noteq> a \<longrightarrow> heap_at (cf_objs (cfc_conf (ss_client t))) b = heap_at (cf_objs (cfc_conf (ss_client s))) b)"
proof -
  obtain c' where c': "t = cfc_put a c' evs s" "room_of c' = r" "cf_channel c' = cf_channel c"
    using cfc_messages [OF assms(1-3)] assms(4) by blast
  have "conf_at chan a c' (cfc_conf (ss_client t))"
    unfolding c'(1) by (rule conf_at_put [OF assms(1) c'(3)])
  with c' show ?thesis by (auto simp: cfc_put_def)
qed

definition cfc_person :: mwLoginInfo where
  "cfc_person = mwLoginInfo_zero\<lparr>li_login_id := Some [65], li_user_id := Some [66], li_user_name := Some [67]\<rparr>"

definition cfc_room :: mwConference where
  "cfc_room = mwConference_zero\<lparr>cf_state := mwConference_PENDING, cf_channel := Some 9\<rparr>"

definition cfc_waiting :: "conf_client mwSession" where
  "cfc_waiting = mwSession_zero \<lparr>cfc_conf = \<lparr>cf_handler = True, cf_objs = \<lparr>hp_objs = [(1, cfc_room)], hp_next = 2\<rparr>, cf_confs = [1]\<rparr>,
     cfc_wire = [], cfc_log = []\<rparr>"

theorem conference_refines_room_witness:
  "conf_at 9 1 cfc_room (cfc_conf (ss_client cfc_waiting))
   \<and> cfc_log (ss_client (exec_state (for_each (cfc_recv 9) [Srv_join 4 cfc_person, Srv_welcome None None [(4, cfc_person)],
        Srv_text 4 0 [72, 105], Srv_part 4, Srv_text 4 0 [72, 105]]) cfc_waiting))
     = [Cf_opened 1 [cfc_person], Cf_text 1 cfc_person [72, 105], Cf_parted 1 cfc_person]"
proof -
  let ?xs = "[Srv_join 4 cfc_person, Srv_welcome None None [(4, cfc_person)], Srv_text 4 0 [72, 105], Srv_part 4, Srv_text 4 0 [72, 105]]"
  have at: "conf_at 9 1 cfc_room (cfc_conf (ss_client cfc_waiting))"
    by (simp add: conf_at_def cfc_waiting_def mwSession_zero_def cf_ok_def objs_ok_def cfc_room_def split: if_splits)
  have p: "mwLoginInfo_valid cfc_person" "mwLoginInfo_norm cfc_person = cfc_person"
    by (simp_all add: cfc_person_def mwLoginInfo_zero_def mwLoginInfo_valid_def mwLoginInfo_norm_def string_valid_def cstr_ok_def string_norm_def)
  have v: "list_all conf_msg_valid ?xs"
    by (simp add: p string_valid_def cstr_ok_def)
  have r: "room_run 1 ?xs (room_of cfc_room) = ((mwConference_OPEN, Map.empty), [Cf_opened 1 [cfc_person], Cf_text 1 cfc_person [72, 105], Cf_parted 1 cfc_person])"
    by (simp add: room_of_def cfc_room_def mwConference_zero_def p Let_def del: One_nat_def)
  have l: "cfc_log (ss_client cfc_waiting) = []" by (simp add: cfc_waiting_def mwSession_zero_def)
  show ?thesis
    using conference_refines_room [OF at v r refl] at l by auto
qed

end
