(* ===== verification/Srvc_Store.thy ===== *)
theory Srvc_Store
  imports Service_Heap
begin

text \<open>
  The storage service, \<^verbatim>\<open>src/src/srvc_store.c\<close>: values that the server keeps for the user.
  A request is allocated, appended to the list of pending requests, sent when the service
  has a channel, and freed with its answer. Requests live in a heap; the functions that the
  client attaches to a request are numbers, and the code behind them is an argument.
\<close>

section \<open>Values\<close>

definition mwService_STORAGE :: guint32 where "mwService_STORAGE = 0x00000018"
definition STORE_PROTOCOL_TYPE :: guint32 where "STORE_PROTOCOL_TYPE = 0x00000025"
definition STORE_PROTOCOL_VER :: guint32 where "STORE_PROTOCOL_VER = 0x00000001"

record mwStorageUnit =
  su_key :: guint32
  su_data :: mwOpaque

definition mwStorageUnit_new :: "guint32 \<Rightarrow> mwStorageUnit" where
  "mwStorageUnit_new key = \<lparr>su_key = key, su_data = opaque_of []\<rparr>"

definition mwStorageUnit_newOpaque :: "guint32 \<Rightarrow> mwOpaque option \<Rightarrow> mwStorageUnit" where
  "mwStorageUnit_newOpaque key data =
     (case data of None \<Rightarrow> mwStorageUnit_new key
      | Some d \<Rightarrow> \<lparr>su_key = key, su_data = mwOpaque_clone (Some d)\<rparr>)"

definition mwStorageUnit_newInteger :: "guint32 \<Rightarrow> guint32 \<Rightarrow> mwStorageUnit" where
  "mwStorageUnit_newInteger key val = \<lparr>su_key = key, su_data = put_opaque (guint32_put val)\<rparr>"

definition mwStorageUnit_newBoolean :: "guint32 \<Rightarrow> gint \<Rightarrow> mwStorageUnit" where
  "mwStorageUnit_newBoolean key val = mwStorageUnit_newInteger key (ucast val)"

definition mwStorageUnit_newString :: "guint32 \<Rightarrow> cstr \<Rightarrow> mwStorageUnit" where
  "mwStorageUnit_newString key str = \<lparr>su_key = key, su_data = put_opaque (mwString_put str)\<rparr>"

definition mwStorageUnit_getKey :: "mwStorageUnit \<Rightarrow> guint32" where
  "mwStorageUnit_getKey item = su_key item"

text \<open>The local \<open>v\<close> is only used when the get buffer is not in error.\<close>

definition mwStorageUnit_asInteger :: "mwStorageUnit \<Rightarrow> guint32 \<Rightarrow> guint32" where
  "mwStorageUnit_asInteger item val =
     (let (v, b) = run_state (guint32_get 0) (mwGetBuffer_wrap (Some (su_data item)))
      in if gb_error b then val else v)"

definition mwStorageUnit_asBoolean :: "mwStorageUnit \<Rightarrow> gint \<Rightarrow> bool" where
  "mwStorageUnit_asBoolean item val = (mwStorageUnit_asInteger item (ucast val) \<noteq> 0)"

definition mwStorageUnit_asString :: "mwStorageUnit \<Rightarrow> cstr" where
  "mwStorageUnit_asString item = eval_state mwString_get (mwGetBuffer_wrap (Some (su_data item)))"

definition mwStorageUnit_asOpaque :: "mwStorageUnit \<Rightarrow> mwOpaque" where
  "mwStorageUnit_asOpaque item = su_data item"

section \<open>Requests\<close>

datatype storage_action = action_load | action_loaded | action_save | action_saved

fun action_code :: "storage_action \<Rightarrow> guint32" where
  "action_code action_load = 0x0004"
| "action_code action_loaded = 0x0005"
| "action_code action_save = 0x0006"
| "action_code action_saved = 0x0007"

record mwStorageReq =
  rq_id :: guint32
  rq_result_code :: guint32
  rq_action :: storage_action
  rq_item :: mwStorageUnit
  rq_cb :: "nat option"
  rq_data :: "nat option"
  rq_data_free :: "nat option"

record mwServiceStorage =
  so_reqs :: "mwStorageReq heap"
  so_pending :: "addr list"
  so_channel :: "guint32 option"
  so_id_counter :: guint32

text \<open>The code of the client behind the functions of a request.\<close>

record 'c store_code =
  sc_cb :: "nat \<Rightarrow> guint32 \<Rightarrow> mwStorageUnit \<Rightarrow> nat option \<Rightarrow> ('c, unit) M"
  sc_data_free :: "nat \<Rightarrow> nat option \<Rightarrow> ('c, unit) M"

type_synonym 'c store_slot = "('c, mwServiceStorage) slot"

definition so_heap :: "'c store_slot \<Rightarrow> ('c, mwStorageReq heap) slot" where
  "so_heap sl = part sl so_reqs so_reqs_update"

definition mwStorageReq_zero :: mwStorageReq where
  "mwStorageReq_zero = \<lparr>rq_id = 0, rq_result_code = 0, rq_action = action_load, rq_item = mwStorageUnit_new 0,
     rq_cb = None, rq_data = None, rq_data_free = None\<rparr>"

definition req_deref :: "'c store_slot \<Rightarrow> addr \<Rightarrow> ('c, mwStorageReq) M" where
  "req_deref sl = heap_deref (so_heap sl) mwStorageReq_zero"

definition req_update :: "'c store_slot \<Rightarrow> addr \<Rightarrow> (mwStorageReq \<Rightarrow> mwStorageReq) \<Rightarrow> ('c, unit) M" where
  "req_update sl = heap_update (so_heap sl)"

text \<open>\<open>count\<close> is an uninitialised local; what it holds when its reading fails is the argument.\<close>

definition request_get :: "guint32 \<Rightarrow> mwStorageReq \<Rightarrow> (mwGetBuffer, mwStorageReq) state" where
  "request_get junk req = do {
     err \<leftarrow> State (\<lambda>b. (gb_error b, b));
     if err then State_Monad.return req
     else do {
       guint32_get 0;
       code \<leftarrow> guint32_get (rq_result_code req);
       let req = req\<lparr>rq_result_code := code\<rparr>;
       if rq_action req = action_loaded then do {
         count \<leftarrow> guint32_get junk;
         if 0 < count then do {
           guint32_get 0;
           key \<leftarrow> guint32_get (su_key (rq_item req));
           data \<leftarrow> mwOpaque_get;
           State_Monad.return (req\<lparr>rq_item := \<lparr>su_key = key, su_data = data\<rparr>\<rparr>)
         } else State_Monad.return req
       } else State_Monad.return req
     }
   }"

definition request_put :: "mwStorageReq \<Rightarrow> (mwPutBuffer, unit) state" where
  "request_put req = do {
     guint32_put (rq_id req);
     guint32_put 1;
     if rq_action req = action_save then do {
       guint32_put (20 + of_nat (op_len (su_data (rq_item req))));
       guint32_put (su_key (rq_item req));
       mwOpaque_put (Some (su_data (rq_item req)))
     } else guint32_put (su_key (rq_item req))
   }"

fun action_sent :: "storage_action \<Rightarrow> storage_action" where
  "action_sent action_save = action_saved"
| "action_sent action_load = action_loaded"
| "action_sent a = a"

definition request_send :: "'c env \<Rightarrow> 'c store_slot \<Rightarrow> guint32 option \<Rightarrow> addr \<Rightarrow> ('c, gint) M" where
  "request_send env sl chan req = do {
     r \<leftarrow> req_deref sl req;
     ret \<leftarrow> srvc_send env chan (action_code (rq_action r)) (put_opaque (request_put r));
     (if ret = 0 then req_update sl req (\<lambda>r. r\<lparr>rq_action := action_sent (rq_action r)\<rparr>) else State_Monad.return ());
     State_Monad.return ret
   }"

fun request_find_in :: "'c store_slot \<Rightarrow> guint32 \<Rightarrow> addr list \<Rightarrow> ('c, addr option) M" where
  "request_find_in sl i [] = State_Monad.return None"
| "request_find_in sl i (a # l) = do {
     r \<leftarrow> req_deref sl a;
     if rq_id r = i then State_Monad.return (Some a) else request_find_in sl i l
   }"

definition request_find :: "'c store_slot \<Rightarrow> guint32 \<Rightarrow> ('c, addr option) M" where
  "request_find sl i = do { l \<leftarrow> srvc_get sl so_pending; request_find_in sl i l }"

definition request_trigger :: "'c store_slot \<Rightarrow> 'c store_code \<Rightarrow> addr \<Rightarrow> ('c, unit) M" where
  "request_trigger sl code req = do {
     r \<leftarrow> req_deref sl req;
     case rq_cb r of
       None \<Rightarrow> State_Monad.return ()
     | Some cb \<Rightarrow> sc_cb code cb (rq_result_code r) (rq_item r) (rq_data r)
   }"

definition request_free :: "'c store_slot \<Rightarrow> 'c store_code \<Rightarrow> addr \<Rightarrow> ('c, unit) M" where
  "request_free sl code req = do {
     r \<leftarrow> req_deref sl req;
     (case rq_data_free r of
        None \<Rightarrow> State_Monad.return ()
      | Some data_free \<Rightarrow> do {
          sc_data_free code data_free (rq_data r);
          req_update sl req (\<lambda>r. r\<lparr>rq_data := None, rq_data_free := None\<rparr>)
        });
     heap_free (so_heap sl) req
   }"

definition request_remove :: "'c store_slot \<Rightarrow> 'c store_code \<Rightarrow> addr \<Rightarrow> ('c, unit) M" where
  "request_remove sl code req = do {
     srvc_modify sl (\<lambda>so. so\<lparr>so_pending := removeAll req (so_pending so)\<rparr>);
     request_free sl code req
   }"

section \<open>The service\<close>

definition store_make_channel :: "'c env \<Rightarrow> ('c, guint32 option) M" where
  "store_make_channel env = make_service_channel env mwService_STORAGE STORE_PROTOCOL_TYPE STORE_PROTOCOL_VER"

definition store_start :: "'c env \<Rightarrow> 'c store_slot \<Rightarrow> ('c, unit) M" where
  "store_start env sl = do {
     chan \<leftarrow> store_make_channel env;
     case chan of
       Some _ \<Rightarrow> srvc_modify sl (\<lambda>so. so\<lparr>so_channel := chan\<rparr>)
     | None \<Rightarrow> mwService_stopped mwService_STORAGE
   }"

text \<open>
  The loop over the pending requests; the functions that free the client's data do not
  issue requests, so it runs over the list as it is.
\<close>

definition store_free_pending :: "'c store_slot \<Rightarrow> 'c store_code \<Rightarrow> ('c, unit) M" where
  "store_free_pending sl code = do {
     l \<leftarrow> srvc_get sl so_pending;
     for_each (request_free sl code) l;
     srvc_modify sl (\<lambda>so. so\<lparr>so_pending := [], so_id_counter := 0\<rparr>)
   }"

definition store_stop :: "'c env \<Rightarrow> 'c store_slot \<Rightarrow> 'c store_code \<Rightarrow> ('c, unit) M" where
  "store_stop env sl code = do {
     chan \<leftarrow> srvc_get sl so_channel;
     (case chan of
        None \<Rightarrow> State_Monad.return ()
      | Some chan \<Rightarrow> do {
          mwChannel_destroy env chan ERR_SUCCESS None;
          srvc_modify sl (\<lambda>so. so\<lparr>so_channel := None\<rparr>)
        });
     store_free_pending sl code;
     mwService_stopped mwService_STORAGE
   }"

definition store_recv_channelAccept :: "'c env \<Rightarrow> 'c store_slot \<Rightarrow> guint32 \<Rightarrow> mwMsgChannelAccept \<Rightarrow> ('c, unit) M" where
  "store_recv_channelAccept env sl chan msg = do {
     channel \<leftarrow> srvc_get sl so_channel;
     if Some chan \<noteq> channel then State_Monad.return ()
     else do {
       l \<leftarrow> srvc_get sl so_pending;
       for_each (\<lambda>req. do {
         r \<leftarrow> req_deref sl req;
         if rq_action r = action_save \<or> rq_action r = action_load
         then do { request_send env sl (Some chan) req; State_Monad.return () }
         else State_Monad.return ()
       }) l;
       mwService_started mwService_STORAGE
     }
   }"

definition store_recv_channelDestroy :: "'c env \<Rightarrow> 'c store_slot \<Rightarrow> guint32 \<Rightarrow> mwMsgChannelDestroy \<Rightarrow> ('c, unit) M" where
  "store_recv_channelDestroy env sl chan msg = do {
     srvc_modify sl (\<lambda>so. so\<lparr>so_channel := None\<rparr>);
     mwService_stop env mwService_STORAGE;
     mwSession_senseService env mwService_STORAGE
   }"

definition store_recv ::
  "'c env \<Rightarrow> 'c store_slot \<Rightarrow> 'c store_code \<Rightarrow> guint32 \<Rightarrow> guint16 \<Rightarrow> mwOpaque \<Rightarrow> ('c, unit) M" where
  "store_recv env sl code chan type data = do {
     channel \<leftarrow> srvc_get sl so_channel;
     if Some chan \<noteq> channel then State_Monad.return ()
     else do {
       let b = mwGetBuffer_wrap (Some data);
       req \<leftarrow> request_find sl (guint32_peek b);
       case req of
         None \<Rightarrow> State_Monad.return ()
       | Some req \<Rightarrow> do {
           r \<leftarrow> req_deref sl req;
           if action_code (rq_action r) \<noteq> ucast type then State_Monad.return ()
           else do {
             junk \<leftarrow> e_junk env;
             let (r', b) = run_state (request_get (jk_count junk) r) b;
             req_update sl req (\<lambda>_. r');
             (if gb_error b then State_Monad.return () else request_trigger sl code req);
             request_remove sl code req
           }
         }
     }
   }"

definition store_clear :: "'c store_slot \<Rightarrow> 'c store_code \<Rightarrow> ('c, unit) M" where
  "store_clear sl code = store_free_pending sl code"

definition mwServiceStorage_new :: mwServiceStorage where
  "mwServiceStorage_new = \<lparr>so_reqs = heap_empty, so_pending = [], so_channel = None, so_id_counter = 0\<rparr>"

text \<open>
  The functions that \<open>mwServiceStorage_new\<close> enters into its \<open>struct mwService\<close>. Those for
  messages call \<open>mwService_stop\<close>, and through it the function that stops this service.
\<close>

definition store_install_state :: "'c store_slot \<Rightarrow> 'c store_code \<Rightarrow> 'c env \<Rightarrow> 'c env" where
  "store_install_state sl code env = env\<lparr>e_start := (e_start env)(mwService_STORAGE \<mapsto> store_start env sl),
     e_stop := (e_stop env)(mwService_STORAGE \<mapsto> store_stop env sl code)\<rparr>"

definition store_install :: "'c store_slot \<Rightarrow> 'c store_code \<Rightarrow> 'c env \<Rightarrow> 'c env" where
  "store_install sl code env0 =
     (let env = store_install_state sl code env0
      in env\<lparr>e_recv_accept := (e_recv_accept env)(mwService_STORAGE \<mapsto> store_recv_channelAccept env sl),
             e_recv_destroy := (e_recv_destroy env)(mwService_STORAGE \<mapsto> store_recv_channelDestroy env sl),
             e_recv := (e_recv env)(mwService_STORAGE \<mapsto> store_recv env sl code)\<rparr>)"

definition request_new ::
  "'c store_slot \<Rightarrow> mwStorageUnit \<Rightarrow> nat option \<Rightarrow> nat option \<Rightarrow> nat option \<Rightarrow> storage_action \<Rightarrow> ('c, addr) M" where
  "request_new sl item cb data df action = do {
     srvc_modify sl (\<lambda>so. so\<lparr>so_id_counter := so_id_counter so + 1\<rparr>);
     i \<leftarrow> srvc_get sl so_id_counter;
     heap_new (so_heap sl) \<lparr>rq_id = i, rq_result_code = 0, rq_action = action, rq_item = item,
       rq_cb = cb, rq_data = data, rq_data_free = df\<rparr>
   }"

definition storage_request ::
  "'c env \<Rightarrow> 'c store_slot \<Rightarrow> mwStorageUnit \<Rightarrow> nat option \<Rightarrow> nat option \<Rightarrow> nat option \<Rightarrow> storage_action \<Rightarrow> ('c, unit) M" where
  "storage_request env sl item cb data d_free action = do {
     req \<leftarrow> request_new sl item cb data d_free action;
     srvc_modify sl (\<lambda>so. so\<lparr>so_pending := so_pending so @ [req]\<rparr>);
     started \<leftarrow> MW_SERVICE_IS_STARTED mwService_STORAGE;
     if started then do {
       chan \<leftarrow> srvc_get sl so_channel;
       request_send env sl chan req;
       State_Monad.return ()
     } else State_Monad.return ()
   }"

definition mwServiceStorage_load ::
  "'c env \<Rightarrow> 'c store_slot \<Rightarrow> mwStorageUnit \<Rightarrow> nat option \<Rightarrow> nat option \<Rightarrow> nat option \<Rightarrow> ('c, unit) M" where
  "mwServiceStorage_load env sl item cb data d_free = storage_request env sl item cb data d_free action_load"

definition mwServiceStorage_save ::
  "'c env \<Rightarrow> 'c store_slot \<Rightarrow> mwStorageUnit \<Rightarrow> nat option \<Rightarrow> nat option \<Rightarrow> nat option \<Rightarrow> ('c, unit) M" where
  "mwServiceStorage_save env sl item cb data d_free = storage_request env sl item cb data d_free action_save"

section \<open>Values come back\<close>

lemma wrap_put_opaque: "writes m bs \<Longrightarrow> mwGetBuffer_wrap (Some (put_opaque m)) = gbuf True [] bs"
  using put_opaque_writes [of m bs] by (simp add: mwGetBuffer_wrap_gbuf)

lemma asInteger_newInteger: "mwStorageUnit_asInteger (mwStorageUnit_newInteger key v) d = v"
  using guint32_get_wire [of 0 True "[]" v "[]"]
  by (simp add: mwStorageUnit_asInteger_def mwStorageUnit_newInteger_def wrap_put_opaque [OF writes_guint32] gbuf_def)



section \<open>What the service keeps\<close>

text \<open>The requests that are allocated are the pending ones, each once.\<close>

definition store_ok :: "mwServiceStorage \<Rightarrow> bool" where
  "store_ok so \<longleftrightarrow> objs_ok (so_reqs so) \<and> distinct (so_pending so) \<and> set (so_pending so) = heap_dom (so_reqs so)"

interpretation so_reqs: record_field so_reqs so_reqs_update
  by unfold_locales simp_all

lemma so_heap_simps [simp]:
  "srvc_of (so_heap sl) s = so_reqs (srvc_of sl s)"
  "srvc_set (so_heap sl) x s = srvc_set sl ((srvc_of sl s)\<lparr>so_reqs := x\<rparr>) s"
  by (simp_all add: so_heap_def)

abbreviation drop_req :: "addr \<Rightarrow> mwStorageReq heap \<Rightarrow> mwStorageReq heap" where
  "drop_req a h \<equiv> h\<lparr>hp_objs := AList.delete a (hp_objs h)\<rparr>"

lemma store_ok_remove:
  "store_ok so \<Longrightarrow> store_ok (so\<lparr>so_pending := removeAll a (so_pending so), so_reqs := drop_req a (so_reqs so)\<rparr>)"
  by (simp add: store_ok_def objs_ok_delete distinct_removeAll)

locale store_slot = service_slot sl for sl :: "'c store_slot"
begin

abbreviation ok :: "'c mwSession \<Rightarrow> bool" where
  "ok \<equiv> \<lambda>s. store_ok (srvc_of sl s)"

lemma keeps_req_deref [keeps_intros]: "keeps (\<lambda>s. Q (srvc_of sl s)) (req_deref sl a)"
  unfolding req_deref_def by (rule keeps_heap_deref)

lemma keeps_req_update [keeps_intros]: "keeps ok (req_update sl a f)"
  by (auto simp: keeps_def req_update_def run_heap_update store_ok_def objs_ok_set split: option.split)

lemma keeps_find [keeps_intros]: "keeps ok (request_find sl i)"
proof -
  have "keeps ok (request_find_in sl i l)" for l
    by (induction l) (simp_all add: keeps_return keeps_bind keeps_req_deref)
  then show ?thesis unfolding request_find_def by (intro keeps_intros)
qed

lemma keeps_request_new [keeps_intros]:
  "keeps ok (do { req \<leftarrow> request_new sl item cb d df act; srvc_modify sl (\<lambda>so. so\<lparr>so_pending := so_pending so @ [req]\<rparr>) })"
  using objs_ok_new heap_new_fresh
  by (auto simp: keeps_def request_new_def run_heap_new store_ok_def split_def Let_def)

end

text \<open>
  The functions of the client keep the invariant, and those that free its data do not touch
  the service at all.
\<close>

locale store_service = store_slot +
  fixes env :: "'a env" and code :: "'a store_code"
  assumes env: "env_keeps ok env"
    and cb: "keeps ok (sc_cb code n r i d)"
    and df: "keeps (\<lambda>s. srvc_of sl s = x) (sc_data_free code n d)"
begin

lemma same_df [simp]: "srvc_of sl (exec_state (sc_data_free code n d) s) = srvc_of sl s"
  using keepsD [OF df refl] .

lemma request_free_state:
  "srvc_of sl (exec_state (request_free sl code a) s) = (srvc_of sl s)\<lparr>so_reqs := drop_req a (so_reqs (srvc_of sl s))\<rparr>"
proof (cases "heap_at (so_reqs (srvc_of sl s)) a")
  case None
  then have "AList.delete a (hp_objs (so_reqs (srvc_of sl s))) = hp_objs (so_reqs (srvc_of sl s))"
    by (simp add: map_of_eq_None_iff delete_id)
  with None show ?thesis
    by (simp add: request_free_def req_deref_def run_heap_deref run_heap_free mwStorageReq_zero_def)
next
  case (Some r)
  then show ?thesis
    by (simp add: request_free_def req_deref_def req_update_def run_heap_deref run_heap_update run_heap_free split_def
        heap_set_def split: option.split)
qed

lemma keeps_remove [keeps_intros]: "keeps ok (request_remove sl code a)"
  unfolding keeps_def request_remove_def
  using store_ok_remove [of _ a] by (simp add: split_def request_free_state)

lemma free_all_state:
  "srvc_of sl (exec_state (for_each (request_free sl code) l) s)
   = (srvc_of sl s)\<lparr>so_reqs := fold drop_req l (so_reqs (srvc_of sl s))\<rparr>"
  by (induction l arbitrary: s) (simp_all add: split_def request_free_state)

lemma drop_all_dom: "heap_dom (fold drop_req l h) = heap_dom h - set l"
  by (induction l arbitrary: h) auto

lemma drop_all_ok: "objs_ok h \<Longrightarrow> objs_ok (fold drop_req l h)"
  by (induction l arbitrary: h) (auto intro: objs_ok_delete)

lemma keeps_free_pending [keeps_intros]: "keeps ok (store_free_pending sl code)"
  by (auto simp: keeps_def store_free_pending_def split_def free_all_state store_ok_def drop_all_ok drop_all_dom)

lemmas E = srvc_calls srvc.keeps_channel [OF env] srvc.keeps_negotiation [OF env] keeps_service_calls [OF env]
  srvc.keeps_service [OF env] env_keepsU [OF env]

lemma keeps_channel_set [keeps_intros]: "keeps ok (srvc_modify sl (\<lambda>so. so\<lparr>so_channel := c\<rparr>))"
  by (rule keeps_srvc_modify) (simp add: store_ok_def)

lemma keeps_request_send [keeps_intros]: "keeps ok (request_send env sl c a)"
  unfolding request_send_def by (intro keeps_intros E)

lemma keeps_trigger [keeps_intros]: "keeps ok (request_trigger sl code a)"
  unfolding request_trigger_def by (intro keeps_intros cb)

lemma keeps_start: "keeps ok (store_start env sl)"
  unfolding store_start_def store_make_channel_def by (intro keeps_intros E)

lemma keeps_stop: "keeps ok (store_stop env sl code)"
  unfolding store_stop_def by (intro keeps_intros E)

lemma keeps_accept: "keeps ok (store_recv_channelAccept env sl c m)"
  unfolding store_recv_channelAccept_def by (intro keeps_intros E)

lemma keeps_destroy: "keeps ok (store_recv_channelDestroy env sl c md)"
  unfolding store_recv_channelDestroy_def by (intro keeps_intros E)

lemma keeps_recv: "keeps ok (store_recv env sl code c t data)"
  unfolding store_recv_def Let_def by (intro keeps_intros E)

lemma keeps_request: "keeps ok (storage_request env sl item cb' d dfn act)"
  unfolding storage_request_def by (rule keeps_bind2 [OF keeps_request_new], intro keeps_intros E)

end

context store_service
begin

lemma env_state: "env_keeps ok (store_install_state sl code env)"
  using env keeps_start keeps_stop unfolding env_keeps_def store_install_state_def by simp

lemma env_messages:
  "env_keeps ok (env\<lparr>e_recv_accept := (e_recv_accept env)(mwService_STORAGE \<mapsto> store_recv_channelAccept env sl),
     e_recv_destroy := (e_recv_destroy env)(mwService_STORAGE \<mapsto> store_recv_channelDestroy env sl),
     e_recv := (e_recv env)(mwService_STORAGE \<mapsto> store_recv env sl code)\<rparr>)"
  using env keeps_accept keeps_destroy keeps_recv unfolding env_keeps_def by simp

end

lemma store_service_env: "store_service sl env code \<Longrightarrow> env_keeps (\<lambda>s. store_ok (srvc_of sl s)) env' \<Longrightarrow> store_service sl env' code"
  by (simp add: store_service_def store_service_axioms_def)

lemma store_service_install:
  assumes "store_service sl env code"
  shows "store_service sl (store_install sl code env) code"
  using store_service.env_messages [OF store_service_env [OF assms store_service.env_state [OF assms]]]
    store_service_env [OF assms]
  by (simp add: store_install_def Let_def)

section \<open>Answers\<close>

text \<open>An answer of the server to a request that was sent, and the request it makes of it.\<close>

definition answer_wire :: "mwStorageReq \<Rightarrow> guint32 \<Rightarrow> guint32 \<Rightarrow> bytes \<Rightarrow> bytes" where
  "answer_wire r result key bs = MW32_PUT (rq_id r) @ MW32_PUT result
     @ (if rq_action r = action_loaded then MW32_PUT 1 @ MW32_PUT 0 @ MW32_PUT key @ opaque_wire bs else [])"

definition answered :: "mwStorageReq \<Rightarrow> guint32 \<Rightarrow> guint32 \<Rightarrow> bytes \<Rightarrow> mwStorageReq" where
  "answered r result key bs = (let r' = r\<lparr>rq_result_code := result\<rparr>
     in if rq_action r = action_loaded then r'\<lparr>rq_item := \<lparr>su_key = key, su_data = opaque_of bs\<rparr>\<rparr> else r')"

lemma request_get_answer:
  assumes "length bs < 2 ^ 32"
  shows "run_state (request_get j r) (gbuf w [] (answer_wire r result key bs))
    = (answered r result key bs, gbuf w (answer_wire r result key bs) [])"
proof -
  note S = guint32_get_wire mwOpaque_get_wire [OF assms, of w _ "[]", simplified]
  have e: "gb_error (gbuf w p q) = False" for p q by (simp add: gbuf_def)
  show ?thesis
    using guint32_get_wire [of "rq_result_code r" w "MW32_PUT (rq_id r)" result "[]"]
    by (simp add: request_get_def answer_wire_def answered_def S e Let_def)
qed

lemma peek_answer: "guint32_peek (mwGetBuffer_wrap (Some (opaque_of (answer_wire r result key bs)))) = rq_id r"
proof -
  have "MW32_GET (MW32_PUT v @ x) = v" for v x
    using MW32_GET_PUT [of v] by (simp add: MW32_GET_def MW32_PUT_def nth_append)
  then show ?thesis
    by (simp add: mwGetBuffer_wrap_gbuf guint32_peek_def gbuf_def answer_wire_def)
qed

text \<open>A client that records the calls of its functions.\<close>

record store_client =
  stc_store :: mwServiceStorage
  stc_wire :: "bytes list"
  stc_log :: "(nat \<times> guint32 \<times> mwStorageUnit \<times> nat option) list"
  stc_freed :: "(nat \<times> nat option) list"

definition stc_slot :: "store_client store_slot" where
  "stc_slot = \<lparr>sl_get = stc_store, sl_put = (\<lambda>x c. c\<lparr>stc_store := x\<rparr>)\<rparr>"

definition stc_env :: "store_client env" where
  "stc_env = plain_env (\<lambda>b c. c\<lparr>stc_wire := stc_wire c @ [b]\<rparr>)"

definition stc_code :: "store_client store_code" where
  "stc_code = \<lparr>
     sc_cb = (\<lambda>n result item d. modify (\<lambda>s. s\<lparr>ss_client := (ss_client s)\<lparr>stc_log := stc_log (ss_client s) @ [(n, result, item, d)]\<rparr>\<rparr>)),
     sc_data_free = (\<lambda>n d. modify (\<lambda>s. s\<lparr>ss_client := (ss_client s)\<lparr>stc_freed := stc_freed (ss_client s) @ [(n, d)]\<rparr>\<rparr>))\<rparr>"

interpretation stc: store_service stc_slot stc_env stc_code
proof
  show "env_keeps (\<lambda>s. store_ok (srvc_of stc_slot s)) stc_env"
    unfolding stc_env_def by (rule plain_env_keeps) (simp add: stc_slot_def)
qed (auto simp: stc_slot_def stc_code_def srvc_of_def keeps_def)

lemma stc_of [simp]: "srvc_of stc_slot s = stc_store (ss_client s)"
  by (simp add: srvc_of_def stc_slot_def)

lemma stc_set [simp]: "srvc_set stc_slot x s = s\<lparr>ss_client := (ss_client s)\<lparr>stc_store := x\<rparr>\<rparr>"
  by (simp add: srvc_set_def stc_slot_def)

abbreviation stc_req :: "store_client mwSession \<Rightarrow> addr \<Rightarrow> mwStorageReq option" where
  "stc_req s a \<equiv> heap_at (so_reqs (stc_store (ss_client s))) a"

text \<open>What the log gets for an answered request.\<close>

definition answer_call :: "mwStorageReq \<Rightarrow> (nat \<times> guint32 \<times> mwStorageUnit \<times> nat option) list" where
  "answer_call r = (case rq_cb r of None \<Rightarrow> [] | Some cb \<Rightarrow> [(cb, rq_result_code r, rq_item r, rq_data r)])"

definition answer_free :: "mwStorageReq \<Rightarrow> (nat \<times> nat option) list" where
  "answer_free r = (case rq_data_free r of None \<Rightarrow> [] | Some df \<Rightarrow> [(df, rq_data r)])"

definition ids_distinct :: "mwServiceStorage \<Rightarrow> bool" where
  "ids_distinct so \<longleftrightarrow> (\<forall>a b r q. heap_at (so_reqs so) a = Some r \<longrightarrow> heap_at (so_reqs so) b = Some q
     \<longrightarrow> rq_id r = rq_id q \<longrightarrow> a = b)"

lemma find_answered:
  assumes "store_ok (stc_store (ss_client s))" and "ids_distinct (stc_store (ss_client s))" and "stc_req s a = Some r"
  shows "run_state (request_find stc_slot (rq_id r)) s = (Some a, s)"
proof -
  have all: "set l \<subseteq> heap_dom (so_reqs (stc_store (ss_client s))) \<Longrightarrow> a \<in> set l
      \<Longrightarrow> run_state (request_find_in stc_slot (rq_id r) l) s = (Some a, s)" for l
  proof (induction l)
    case (Cons b l)
    obtain q where q: "stc_req s b = Some q"
      using Cons.prems(1) heap_at_dom [of "so_reqs (stc_store (ss_client s))" b] by fastforce
    show ?case
    proof (cases "rq_id q = rq_id r")
      case True
      with q assms(2,3) have "b = a" by (auto simp: ids_distinct_def)
      with True q show ?thesis by (simp add: req_deref_def run_heap_deref)
    next
      case False
      with q assms(3) have "b \<noteq> a" by auto
      with Cons False q show ?thesis by (simp add: req_deref_def run_heap_deref)
    qed
  qed simp
  have "a \<in> heap_dom (so_reqs (stc_store (ss_client s)))"
    using assms(3) heap_at_dom [of "so_reqs (stc_store (ss_client s))" a] by auto
  with all [of "so_pending (stc_store (ss_client s))"] assms(1) show ?thesis
    by (simp add: request_find_def store_ok_def)
qed

lemma recv_answer:
  assumes "store_ok (stc_store (ss_client s))" and "ids_distinct (stc_store (ss_client s))" and "stc_req s a = Some r"
    and "so_channel (stc_store (ss_client s)) = Some c" and "length bs < 2 ^ 32"
  shows "exec_state (store_recv stc_env stc_slot stc_code c (ucast (action_code (rq_action r)))
        (opaque_of (answer_wire r result key bs))) s
    = s\<lparr>ss_client := \<lparr>
        stc_store = (stc_store (ss_client s))\<lparr>so_pending := removeAll a (so_pending (stc_store (ss_client s))),
          so_reqs := drop_req a (so_reqs (stc_store (ss_client s)))\<rparr>,
        stc_wire = stc_wire (ss_client s),
        stc_log = stc_log (ss_client s) @ answer_call (answered r result key bs),
        stc_freed = stc_freed (ss_client s) @ answer_free r\<rparr>\<rparr>"
proof -
  let ?w = "answer_wire r result key bs"
  let ?r = "answered r result key bs"
  have act: "ucast (ucast (action_code (rq_action r)) :: guint16) = action_code (rq_action r)"
    by (cases "rq_action r") simp_all
  have junk: "run_state (e_junk stc_env) t = (\<lparr>jk_head = mwMessageHead_zero, jk_ack = 0, jk_skip = 0, jk_count = 0\<rparr>, t)" for t
    by (simp add: stc_env_def)
  have get: "run_state (request_get j r) (mwGetBuffer_wrap (Some (opaque_of ?w))) = (?r, gbuf True ?w [])" for j
    using request_get_answer [OF assms(5), of j r True result key] by (simp add: mwGetBuffer_wrap_gbuf)
  have r': "rq_cb ?r = rq_cb r" "rq_data ?r = rq_data r" "rq_data_free ?r = rq_data_free r"
    by (simp_all add: answered_def Let_def)
  have err: "gb_error (gbuf True ?w []) = False" by (simp add: gbuf_def)
  show ?thesis
    using assms(3,4) find_answered [OF assms(1-3)]
    by (cases "rq_cb r"; cases "rq_data_free r"; cases "ss_client s")
      (simp_all add: store_recv_def peek_answer act junk get err req_deref_def req_update_def run_heap_deref run_heap_update
        request_trigger_def request_remove_def request_free_def run_heap_free answer_call_def answer_free_def r' stc_code_def
        heap_set_def split_def Let_def)
qed

type_synonym storage_answer = "addr \<times> guint32 \<times> guint32 \<times> bytes"

definition recv_storage_answer :: "store_client mwSession \<Rightarrow> guint32 \<Rightarrow> storage_answer \<Rightarrow> (store_client, unit) M" where
  "recv_storage_answer s c = (\<lambda>(a, result, key, bs). let r = the (stc_req s a)
     in store_recv stc_env stc_slot stc_code c (ucast (action_code (rq_action r))) (opaque_of (answer_wire r result key bs)))"

lemma answers_state:
  assumes "store_ok (stc_store (ss_client s))" and "ids_distinct (stc_store (ss_client s))"
    and "so_channel (stc_store (ss_client s)) = Some c" and "distinct (map fst as)"
    and "\<forall>x \<in> set as. fst x \<in> set (so_pending (stc_store (ss_client s))) \<and> length (snd (snd (snd x))) < 2 ^ 32"
    and "\<forall>x \<in> set as. stc_req s0 (fst x) = stc_req s (fst x)"
    and "t = exec_state (for_each (recv_storage_answer s0 c) as) s"
  shows "store_ok (stc_store (ss_client t))
    \<and> so_pending (stc_store (ss_client t)) = filter (\<lambda>a. a \<notin> fst ` set as) (so_pending (stc_store (ss_client s)))
    \<and> stc_log (ss_client t) = stc_log (ss_client s)
        @ concat (map (\<lambda>(a, result, key, bs). answer_call (answered (the (stc_req s0 a)) result key bs)) as)
    \<and> stc_freed (ss_client t) = stc_freed (ss_client s) @ concat (map (\<lambda>x. answer_free (the (stc_req s0 (fst x)))) as)
    \<and> ss_fault t = ss_fault s"
  using assms
proof (induction as arbitrary: s)
  case (Cons x as)
  obtain a result key bs where x: "x = (a, result, key, bs)" by (cases x)
  let ?so = "stc_store (ss_client s)"
  have a: "a \<in> set (so_pending ?so)" "length bs < 2 ^ 32"
    using Cons.prems(5) x by auto
  then obtain r where r: "stc_req s a = Some r"
    using Cons.prems(1) heap_at_dom [of "so_reqs ?so" a] by (auto simp: store_ok_def)
  with Cons.prems(6) x have r0: "stc_req s0 a = Some r" by simp
  define u where "u = exec_state (recv_storage_answer s0 c x) s"
  have u: "u = s\<lparr>ss_client := \<lparr>
      stc_store = ?so\<lparr>so_pending := removeAll a (so_pending ?so), so_reqs := drop_req a (so_reqs ?so)\<rparr>,
      stc_wire = stc_wire (ss_client s),
      stc_log = stc_log (ss_client s) @ answer_call (answered r result key bs),
      stc_freed = stc_freed (ss_client s) @ answer_free r\<rparr>\<rparr>"
    unfolding u_def using recv_answer [OF Cons.prems(1,2) r Cons.prems(3) a(2)]
    by (simp add: recv_storage_answer_def x r0)
  have other: "heap_at (drop_req a (so_reqs ?so)) b = heap_at (so_reqs ?so) b" if "b \<noteq> a" for b
    using that by (simp add: delete_conv')
  have "store_ok (stc_store (ss_client u))" "ids_distinct (stc_store (ss_client u))"
    using store_ok_remove [OF Cons.prems(1), of a] Cons.prems(2)
    by (simp_all add: u ids_distinct_def delete_conv')
  moreover have "\<forall>y \<in> set as. fst y \<noteq> a" using Cons.prems(4) x by (auto simp: image_iff)
  ultimately have IH: "store_ok (stc_store (ss_client t))
    \<and> so_pending (stc_store (ss_client t)) = filter (\<lambda>a. a \<notin> fst ` set as) (so_pending (stc_store (ss_client u)))
    \<and> stc_log (ss_client t) = stc_log (ss_client u)
        @ concat (map (\<lambda>(a, result, key, bs). answer_call (answered (the (stc_req s0 a)) result key bs)) as)
    \<and> stc_freed (ss_client t) = stc_freed (ss_client u) @ concat (map (\<lambda>x. answer_free (the (stc_req s0 (fst x)))) as)
    \<and> ss_fault t = ss_fault u"
    using Cons.prems(3-7) by (intro Cons.IH) (auto simp: u_def [symmetric] split_def, auto simp: u other)
  have "filter (\<lambda>a. a \<notin> fst ` set as) (removeAll a l) = filter (\<lambda>b. b \<notin> fst ` set (x # as)) l" for l
    by (induction l) (auto simp: x)
  with IH show ?case by (simp add: u r0 x)
qed simp

text \<open>Requests get distinct identifiers until the counter wraps around.\<close>

definition ids_ok :: "mwServiceStorage \<Rightarrow> bool" where
  "ids_ok so \<longleftrightarrow> ids_distinct so \<and> (\<forall>a r. heap_at (so_reqs so) a = Some r \<longrightarrow> rq_id r \<le> so_id_counter so)"

lemma ids_ok_set:
  assumes "ids_ok so" and "heap_at (so_reqs so) a = Some r" and "rq_id r' = rq_id r"
  shows "ids_ok (so\<lparr>so_reqs := heap_set a r' (so_reqs so)\<rparr>)"
proof -
  have "rq_id (the (heap_at (heap_set a r' (so_reqs so)) b)) = rq_id (the (heap_at (so_reqs so) b))" for b
    using assms(2,3) by simp
  with assms show ?thesis
    unfolding ids_ok_def ids_distinct_def by (auto split: if_splits)
qed

lemma ids_ok_new:
  assumes "ids_ok so" and "so_id_counter so \<noteq> - 1" and "rq_id r = so_id_counter so + 1"
  shows "ids_ok (so\<lparr>so_id_counter := so_id_counter so + 1, so_reqs := h\<lparr>hp_objs := (a, r) # hp_objs (so_reqs so), hp_next := n\<rparr>,
    so_pending := l\<rparr>)"
proof -
  have less: "so_id_counter so < so_id_counter so + 1"
    using assms(2) by (simp add: inc_less_eq_self_iff_eq flip: not_le)
  have old: "rq_id q < so_id_counter so + 1" if "heap_at (so_reqs so) b = Some q" for b q
    using assms(1) less that unfolding ids_ok_def by (meson order.strict_trans1)
  then show ?thesis
    using assms(1,3) by (fastforce simp: ids_ok_def ids_distinct_def split: if_splits)
qed

lemma stc_request_ids:
  assumes "ids_ok (stc_store (ss_client s))" and "so_id_counter (stc_store (ss_client s)) \<noteq> - 1"
  shows "ids_ok (stc_store (ss_client (exec_state (storage_request stc_env stc_slot item cb d df act) s)))"
proof -
  let ?P = "\<lambda>s. ids_ok (srvc_of stc_slot s)"
  have env: "env_keeps ?P stc_env"
    unfolding stc_env_def by (rule plain_env_keeps) (simp add: stc_slot_def)
  have upd: "keeps ?P (req_update stc_slot a (\<lambda>r. r\<lparr>rq_action := action_sent (rq_action r)\<rparr>))" for a
    by (auto simp: keeps_def req_update_def run_heap_update ids_ok_set split: option.split)
  note E = srvc_calls keeps_service_calls [OF env] stc.keeps_req_deref upd
  have send: "keeps ?P (do { started \<leftarrow> MW_SERVICE_IS_STARTED mwService_STORAGE;
      if started then do { chan \<leftarrow> srvc_get stc_slot so_channel; request_send stc_env stc_slot chan req; State_Monad.return () }
      else State_Monad.return () })" for req
    unfolding request_send_def by (intro keeps_intros E)
  obtain req t where t: "run_state (do { req \<leftarrow> request_new stc_slot item cb d df act;
      srvc_modify stc_slot (\<lambda>so. so\<lparr>so_pending := so_pending so @ [req]\<rparr>); State_Monad.return req }) s = (req, t)" by fastforce
  have "?P t"
    using t ids_ok_new [OF assms] by (auto simp: request_new_def run_heap_new Let_def)
  moreover have "exec_state (storage_request stc_env stc_slot item cb d df act) s
      = exec_state (do { started \<leftarrow> MW_SERVICE_IS_STARTED mwService_STORAGE;
      if started then do { chan \<leftarrow> srvc_get stc_slot so_channel; request_send stc_env stc_slot chan req; State_Monad.return () }
      else State_Monad.return () }) t"
    using t by (auto simp: storage_request_def split_def)
  ultimately show ?thesis using keepsD [OF send] by simp
qed

lemma stc_request_counter:
  "so_id_counter (stc_store (ss_client (exec_state (storage_request stc_env stc_slot item cb d df act) s)))
     = so_id_counter (stc_store (ss_client s)) + 1
   \<and> so_channel (stc_store (ss_client (exec_state (storage_request stc_env stc_slot item cb d df act) s)))
     = so_channel (stc_store (ss_client s))"
proof -
  let ?Q = "\<lambda>x so. so_id_counter so = fst x \<and> so_channel so = snd x"
  let ?send = "\<lambda>req. do { started \<leftarrow> MW_SERVICE_IS_STARTED mwService_STORAGE;
      if started then do { chan \<leftarrow> srvc_get stc_slot so_channel; request_send stc_env stc_slot chan req; State_Monad.return () }
      else State_Monad.return () }"
  have send: "keeps (\<lambda>s. ?Q x (srvc_of stc_slot s)) (?send req)" for x req
  proof -
    have env: "env_keeps (\<lambda>s. ?Q x (srvc_of stc_slot s)) stc_env"
      unfolding stc_env_def by (rule plain_env_keeps) (simp add: stc_slot_def)
    have upd: "keeps (\<lambda>s. ?Q x (srvc_of stc_slot s)) (req_update stc_slot a f)" for a f
      by (auto simp: keeps_def req_update_def run_heap_update split: option.split)
    show ?thesis
      unfolding request_send_def by (intro keeps_intros srvc_calls keeps_service_calls [OF env] stc.keeps_req_deref upd)
  qed
  show ?thesis
    using keepsD [OF send [of "(so_id_counter (stc_store (ss_client s)) + 1, so_channel (stc_store (ss_client s)))"]]
    by (simp add: storage_request_def request_new_def run_heap_new split_def Let_def)
qed

type_synonym storage_call = "mwStorageUnit \<times> nat option \<times> nat option \<times> nat option \<times> storage_action"

definition issue_requests :: "storage_call list \<Rightarrow> (store_client, unit) M" where
  "issue_requests = for_each (\<lambda>(item, cb, d, df, act). storage_request stc_env stc_slot item cb d df act)"

lemma issue_requests_state:
  assumes "store_ok (stc_store (ss_client s))" and "ids_ok (stc_store (ss_client s))"
    and "unat (so_id_counter (stc_store (ss_client s))) + length calls < 2 ^ 32"
  shows "store_ok (stc_store (ss_client (exec_state (issue_requests calls) s)))
    \<and> ids_ok (stc_store (ss_client (exec_state (issue_requests calls) s)))
    \<and> so_channel (stc_store (ss_client (exec_state (issue_requests calls) s))) = so_channel (stc_store (ss_client s))"
  using assms
proof (induction calls arbitrary: s)
  case (Cons x calls)
  obtain item cb d df act where x: "x = (item, cb, d, df, act)" by (cases x)
  let ?t = "exec_state (storage_request stc_env stc_slot item cb d df act) s"
  let ?n = "so_id_counter (stc_store (ss_client s))"
  have "unat (- 1 :: guint32) = 2 ^ 32 - 1" by (simp add: unsigned_minus_1_eq_mask mask_eq_exp_minus_1)
  then have n: "?n \<noteq> - 1" using Cons.prems(3) by auto
  have "unat (?n + 1) = unat ?n + 1"
    using Cons.prems(3) by (simp add: unat_word_ariths)
  then have "unat (so_id_counter (stc_store (ss_client ?t))) + length calls < 2 ^ 32"
    using Cons.prems(3) stc_request_counter [of item cb d df act s] by simp
  moreover have "store_ok (stc_store (ss_client ?t))"
    using keepsD [OF stc.keeps_request, of s item cb d df act] Cons.prems(1) by simp
  ultimately show ?case
    using Cons.IH [of ?t] stc_request_ids [OF Cons.prems(2) n] stc_request_counter [of item cb d df act s]
    by (simp add: issue_requests_def x split_def)
qed (simp add: issue_requests_def)

text \<open>
  Claim C14: every storage request is answered once. However many requests the client makes (up
  to the width of the identifiers), and in whatever order the server answers
  them, each answer calls the function of the request it belongs to, with the result, the key and the
  bytes of the answer and the client's own data, once and in the order of the answers; that data is freed
  once after it; the requests not answered yet stay pending in their order; and no freed memory is used.
\<close>

theorem storage_answered_once:
  assumes "store_ok (stc_store (ss_client s0))" and "ids_ok (stc_store (ss_client s0))"
    and "unat (so_id_counter (stc_store (ss_client s0))) + length calls < 2 ^ 32"
    and "so_channel (stc_store (ss_client s0)) = Some c"
    and "s = exec_state (issue_requests calls) s0"
    and "distinct (map fst as)"
    and "\<forall>x \<in> set as. fst x \<in> set (so_pending (stc_store (ss_client s))) \<and> length (snd (snd (snd x))) < 2 ^ 32"
    and "\<forall>x \<in> set as. rq_action (the (stc_req s (fst x))) \<in> {action_loaded, action_saved}"
    and "t = exec_state (for_each (recv_storage_answer s c) as) s"
  shows "stc_log (ss_client t) = stc_log (ss_client s)
      @ concat (map (\<lambda>(a, result, key, bs). answer_call (answered (the (stc_req s a)) result key bs)) as)
    \<and> stc_freed (ss_client t) = stc_freed (ss_client s) @ concat (map (\<lambda>x. answer_free (the (stc_req s (fst x)))) as)
    \<and> so_pending (stc_store (ss_client t)) = filter (\<lambda>a. a \<notin> fst ` set as) (so_pending (stc_store (ss_client s)))
    \<and> store_ok (stc_store (ss_client t)) \<and> ss_fault t = ss_fault s"
proof -
  have "store_ok (stc_store (ss_client s))" "ids_distinct (stc_store (ss_client s))" "so_channel (stc_store (ss_client s)) = Some c"
    using issue_requests_state [OF assms(1-3)] assms(4,5) by (simp_all add: ids_ok_def)
  from answers_state [OF this assms(6,7) _ assms(9)] show ?thesis by simp
qed

definition stc_start :: "store_client mwSession" where
  "stc_start = (mwSession_zero \<lparr>stc_store = mwServiceStorage_new\<lparr>so_channel := Some 1\<rparr>, stc_wire = [], stc_log = [], stc_freed = []\<rparr>)
     \<lparr>ss_channels := [(1, mwChannel_zero\<lparr>ch_state := mwChannel_OPEN, ch_id := 1, ch_service := mwService_STORAGE\<rparr>)],
      ss_services := [(mwService_STORAGE, \<lparr>sv_type = mwService_STORAGE, sv_state = mwServiceState_STARTED\<rparr>)]\<rparr>"

definition stc_example_calls :: "storage_call list" where
  "stc_example_calls = [(mwStorageUnit_new 6, Some 1, Some 10, None, action_load), (mwStorageUnit_newInteger 7 5, Some 2, None, Some 3, action_save)]"

lemma stc_example:
  fixes s defines "s \<equiv> exec_state (issue_requests stc_example_calls) stc_start"
  shows "so_pending (stc_store (ss_client s)) = [1, 2]" "stc_log (ss_client s) = []"
    "stc_req s 1 = Some \<lparr>rq_id = 1, rq_result_code = 0, rq_action = action_loaded, rq_item = mwStorageUnit_new 6,
       rq_cb = Some 1, rq_data = Some 10, rq_data_free = None\<rparr>"
    "stc_req s 2 = Some \<lparr>rq_id = 2, rq_result_code = 0, rq_action = action_saved, rq_item = mwStorageUnit_newInteger 7 5,
       rq_cb = Some 2, rq_data = None, rq_data_free = Some 3\<rparr>"
  by (simp_all add: s_def issue_requests_def stc_example_calls_def storage_request_def request_new_def run_heap_new
      MW_SERVICE_IS_STARTED_def mwService_getState_def mwSession_getService_def request_send_def req_deref_def req_update_def
      run_heap_deref run_heap_update srvc_send_def mwChannel_send_def mwChannel_sendEncrypted_def channel_send_def
      chan_deref_def writes_to_send [OF plain_env_writes] stc_env_def heap_set_def
      stc_start_def mwSession_zero_def mwServiceStorage_new_def heap_empty_def mwChannel_zero_def Let_def)

theorem storage_answered_once_witness:
  "store_ok (stc_store (ss_client stc_start)) \<and> ids_ok (stc_store (ss_client stc_start))
   \<and> stc_log (ss_client (exec_state (for_each (recv_storage_answer (exec_state (issue_requests stc_example_calls) stc_start) 1)
        [(2, 0, 0, []), (1, 0, 6, [72])]) (exec_state (issue_requests stc_example_calls) stc_start)))
     = [(2, 0, mwStorageUnit_newInteger 7 5, None), (1, 0, \<lparr>su_key = 6, su_data = opaque_of [72]\<rparr>, Some 10)]"
proof -
  have start: "store_ok (stc_store (ss_client stc_start))" "ids_ok (stc_store (ss_client stc_start))"
    "unat (so_id_counter (stc_store (ss_client stc_start))) + length stc_example_calls < 2 ^ 32"
    "so_channel (stc_store (ss_client stc_start)) = Some 1"
    by (simp_all add: stc_start_def mwSession_zero_def mwServiceStorage_new_def store_ok_def ids_ok_def ids_distinct_def
        stc_example_calls_def)
  let ?as = "[(2, 0, 0, []), (1, 0, 6, [72])] :: storage_answer list"
  let ?s = "exec_state (issue_requests stc_example_calls) stc_start"
  have as: "distinct (map fst ?as)"
    "\<forall>x \<in> set ?as. fst x \<in> set (so_pending (stc_store (ss_client ?s))) \<and> length (snd (snd (snd x))) < 2 ^ 32"
    "\<forall>x \<in> set ?as. rq_action (the (stc_req ?s (fst x))) \<in> {action_loaded, action_saved}"
    by (simp_all add: stc_example del: One_nat_def)
  from storage_answered_once [OF start refl as refl]
  have "stc_log (ss_client (exec_state (for_each (recv_storage_answer ?s 1) ?as) ?s))
      = [(2, 0, mwStorageUnit_newInteger 7 5, None), (1, 0, \<lparr>su_key = 6, su_data = opaque_of [72]\<rparr>, Some 10)]"
    by (simp add: stc_example answer_call_def answered_def del: One_nat_def for_each.simps)
  with start show ?thesis by (intro conjI)
qed

end
