(* ===== verification/Srvc_Resolve.thy ===== *)
theory Srvc_Resolve
  imports Service_Heap
begin

text \<open>
  The resolve service, \<^verbatim>\<open>src/src/srvc_resolve.c\<close>: names are turned into identities by searches
  on the server. The searches are a hash table by their number, which exists while the service
  runs (\<open>None\<close> is the \<open>NULL\<close> before); the calls of GLib on a missing table do nothing but
  log. The code behind the functions of a search is an argument, and the order in which a
  table is destroyed is that of the environment.
\<close>

section \<open>State\<close>

definition mwService_RESOLVE :: guint32 where "mwService_RESOLVE = 0x00000015"
definition RESOLVE_PROTOCOL_TYPE :: guint32 where "RESOLVE_PROTOCOL_TYPE = 0x00000015"
definition RESOLVE_PROTOCOL_VER :: guint32 where "RESOLVE_PROTOCOL_VER = 0x00000000"
definition RESOLVE_ACTION :: guint32 where "RESOLVE_ACTION = 0x02"
definition SEARCH_ERROR :: guint32 where "SEARCH_ERROR = 0x00"

record mwResolveMatch =
  rm_id :: cstr
  rm_name :: cstr
  rm_desc :: cstr
  rm_type :: guint32

record mwResolveResult =
  rr_code :: guint32
  rr_name :: cstr
  rr_matches :: "mwResolveMatch list"

record mw_search =
  se_id :: guint32
  se_handler :: nat
  se_data :: "nat option"
  se_cleanup :: "nat option"

record mwServiceResolve =
  rv_channel :: "guint32 option"
  rv_searches :: "(guint32 \<times> mw_search) list option"
  rv_counter :: guint32

record 'c resolve_code =
  rc_handler :: "nat \<Rightarrow> guint32 \<Rightarrow> guint32 \<Rightarrow> mwResolveResult list \<Rightarrow> nat option \<Rightarrow> ('c, unit) M"
  rc_cleanup :: "nat \<Rightarrow> nat option \<Rightarrow> ('c, unit) M"

type_synonym 'c resolve_slot = "('c, mwServiceResolve) slot"

section \<open>Searches\<close>

text \<open>The loop that takes the next number which is not \<open>SEARCH_ERROR\<close>, with the counter after it.\<close>

function next_search_id :: "guint32 \<Rightarrow> guint32 \<times> guint32" where
  "next_search_id counter =
     (if counter = SEARCH_ERROR then next_search_id (counter + 1) else (counter, counter + 1))"
  by auto
termination
  by (relation "measure (\<lambda>c. if c = SEARCH_ERROR then 1 else 0)") (auto simp: SEARCH_ERROR_def)

definition search_new :: "'c resolve_slot \<Rightarrow> nat \<Rightarrow> nat option \<Rightarrow> nat option \<Rightarrow> ('c, mw_search) M" where
  "search_new sl handler data cleanup = do {
     counter \<leftarrow> srvc_get sl rv_counter;
     let (i, counter) = next_search_id counter;
     srvc_modify sl (\<lambda>rv. rv\<lparr>rv_counter := counter\<rparr>);
     State_Monad.return \<lparr>se_id = i, se_handler = handler, se_data = data, se_cleanup = cleanup\<rparr>
   }"

definition search_free :: "'c resolve_code \<Rightarrow> mw_search \<Rightarrow> ('c, unit) M" where
  "search_free code search =
     (case se_cleanup search of None \<Rightarrow> State_Monad.return () | Some cleanup \<Rightarrow> rc_cleanup code cleanup (se_data search))"

text \<open>The functions of GLib on the table, whose values are freed by \<open>search_free\<close>.\<close>

definition searches_lookup :: "'c resolve_slot \<Rightarrow> guint32 \<Rightarrow> ('c, mw_search option) M" where
  "searches_lookup sl i = srvc_get sl (\<lambda>rv. case rv_searches rv of None \<Rightarrow> None | Some t \<Rightarrow> map_of t i)"

definition searches_remove :: "'c resolve_slot \<Rightarrow> 'c resolve_code \<Rightarrow> guint32 \<Rightarrow> ('c, unit) M" where
  "searches_remove sl code i = do {
     search \<leftarrow> searches_lookup sl i;
     case search of
       None \<Rightarrow> State_Monad.return ()
     | Some search \<Rightarrow> do {
         srvc_modify sl (\<lambda>rv. rv\<lparr>rv_searches := map_option (AList.delete i) (rv_searches rv)\<rparr>);
         search_free code search
       }
   }"

definition searches_insert :: "'c resolve_slot \<Rightarrow> 'c resolve_code \<Rightarrow> mw_search \<Rightarrow> ('c, unit) M" where
  "searches_insert sl code search = do {
     old \<leftarrow> searches_lookup sl (se_id search);
     srvc_modify sl (\<lambda>rv. rv\<lparr>rv_searches := map_option (AList.update (se_id search) search) (rv_searches rv)\<rparr>);
     case old of None \<Rightarrow> State_Monad.return () | Some old \<Rightarrow> search_free code old
   }"

definition searches_destroy :: "'c env \<Rightarrow> 'c resolve_slot \<Rightarrow> 'c resolve_code \<Rightarrow> ('c, unit) M" where
  "searches_destroy env sl code = do {
     t \<leftarrow> srvc_get sl rv_searches;
     case t of
       None \<Rightarrow> State_Monad.return ()
     | Some t \<Rightarrow> do {
         srvc_modify sl (\<lambda>rv. rv\<lparr>rv_searches := Some []\<rparr>);
         for_each (\<lambda>i. case map_of t i of None \<Rightarrow> State_Monad.return () | Some search \<Rightarrow> search_free code search)
           (e_order env (map fst t))
       }
   }"

section \<open>The service\<close>

definition resolve_make_channel :: "'c env \<Rightarrow> ('c, guint32 option) M" where
  "resolve_make_channel env = make_service_channel env mwService_RESOLVE RESOLVE_PROTOCOL_TYPE RESOLVE_PROTOCOL_VER"

definition resolve_start :: "'c env \<Rightarrow> 'c resolve_slot \<Rightarrow> ('c, unit) M" where
  "resolve_start env sl = do {
     chan \<leftarrow> resolve_make_channel env;
     case chan of
       None \<Rightarrow> mwService_stopped mwService_RESOLVE
     | Some _ \<Rightarrow> do {
         srvc_modify sl (\<lambda>rv. rv\<lparr>rv_channel := chan\<rparr>);
         srvc_modify sl (\<lambda>rv. rv\<lparr>rv_searches := Some []\<rparr>)
       }
   }"

definition resolve_stop :: "'c env \<Rightarrow> 'c resolve_slot \<Rightarrow> 'c resolve_code \<Rightarrow> ('c, unit) M" where
  "resolve_stop env sl code = do {
     chan \<leftarrow> srvc_get sl rv_channel;
     (case chan of
        None \<Rightarrow> State_Monad.return ()
      | Some chan \<Rightarrow> do {
          mwChannel_destroy env chan ERR_SUCCESS None;
          srvc_modify sl (\<lambda>rv. rv\<lparr>rv_channel := None\<rparr>)
        });
     searches_destroy env sl code;
     srvc_modify sl (\<lambda>rv. rv\<lparr>rv_searches := None\<rparr>);
     mwService_stopped mwService_RESOLVE
   }"

definition resolve_clear :: "'c env \<Rightarrow> 'c resolve_slot \<Rightarrow> 'c resolve_code \<Rightarrow> ('c, unit) M" where
  "resolve_clear env sl code = do {
     t \<leftarrow> srvc_get sl rv_searches;
     if t = None then State_Monad.return ()
     else do {
       searches_destroy env sl code;
       srvc_modify sl (\<lambda>rv. rv\<lparr>rv_searches := None\<rparr>)
     }
   }"

definition resolve_recv_create :: "'c env \<Rightarrow> guint32 \<Rightarrow> mwMsgChannelCreate \<Rightarrow> ('c, unit) M" where
  "resolve_recv_create env chan msg = do { mwChannel_destroy env chan ERR_FAILURE None; State_Monad.return () }"

definition resolve_recv_accept :: "'c resolve_slot \<Rightarrow> guint32 \<Rightarrow> mwMsgChannelAccept \<Rightarrow> ('c, unit) M" where
  "resolve_recv_accept sl chan msg = do {
     channel \<leftarrow> srvc_get sl rv_channel;
     if Some chan \<noteq> channel then State_Monad.return () else mwService_started mwService_RESOLVE
   }"

definition resolve_recv_destroy :: "'c env \<Rightarrow> 'c resolve_slot \<Rightarrow> guint32 \<Rightarrow> mwMsgChannelDestroy \<Rightarrow> ('c, unit) M" where
  "resolve_recv_destroy env sl chan msg = do {
     channel \<leftarrow> srvc_get sl rv_channel;
     if Some chan \<noteq> channel then State_Monad.return ()
     else do {
       srvc_modify sl (\<lambda>rv. rv\<lparr>rv_channel := None\<rparr>);
       mwService_stop env mwService_RESOLVE;
       mwSession_senseService env mwService_RESOLVE
     }
   }"

fun load_matches :: "nat \<Rightarrow> (mwGetBuffer, mwResolveMatch list) state" where
  "load_matches 0 = State_Monad.return []"
| "load_matches (Suc count) = do {
     i \<leftarrow> mwString_get;
     name \<leftarrow> mwString_get;
     desc \<leftarrow> mwString_get;
     type \<leftarrow> guint32_get 0;
     ms \<leftarrow> load_matches count;
     State_Monad.return (\<lparr>rm_id = i, rm_name = name, rm_desc = desc, rm_type = type\<rparr> # ms)
   }"

text \<open>The local \<open>matches\<close> is uninitialised; what it holds when its reading fails is the argument.\<close>

fun load_results :: "guint32 \<Rightarrow> nat \<Rightarrow> (mwGetBuffer, mwResolveResult list) state" where
  "load_results junk 0 = State_Monad.return []"
| "load_results junk (Suc count) = do {
     guint32_get 0;
     code \<leftarrow> guint32_get 0;
     name \<leftarrow> mwString_get;
     matches \<leftarrow> guint32_get junk;
     ms \<leftarrow> load_matches (unat matches);
     rs \<leftarrow> load_results junk count;
     State_Monad.return (\<lparr>rr_code = code, rr_name = name, rr_matches = ms\<rparr> # rs)
   }"

text \<open>The locals are only used when all four were read.\<close>

definition resolve_head :: "(mwGetBuffer, guint32 \<times> guint32 \<times> guint32) state" where
  "resolve_head = do {
     guint32_get 0;
     i \<leftarrow> guint32_get 0;
     result \<leftarrow> guint32_get 0;
     count \<leftarrow> guint32_get 0;
     State_Monad.return (i, result, count)
   }"

definition resolve_recv ::
  "'c env \<Rightarrow> 'c resolve_slot \<Rightarrow> 'c resolve_code \<Rightarrow> guint32 \<Rightarrow> guint16 \<Rightarrow> mwOpaque \<Rightarrow> ('c, unit) M" where
  "resolve_recv env sl code chan type data = do {
     channel \<leftarrow> srvc_get sl rv_channel;
     if Some chan \<noteq> channel \<or> ucast type \<noteq> RESOLVE_ACTION then State_Monad.return ()
     else do {
       let ((i, result, count), b) = run_state resolve_head (mwGetBuffer_wrap (Some data));
       if gb_error b then State_Monad.return ()
       else do {
         search \<leftarrow> searches_lookup sl i;
         case search of
           None \<Rightarrow> State_Monad.return ()
         | Some search \<Rightarrow> do {
             junk \<leftarrow> e_junk env;
             let (results, b) = run_state (load_results (jk_count junk) (unat count)) b;
             (if gb_error b then State_Monad.return ()
              else rc_handler code (se_handler search) i result results (se_data search));
             searches_remove sl code i
           }
       }
     }
   }"

definition mwServiceResolve_new :: mwServiceResolve where
  "mwServiceResolve_new = \<lparr>rv_channel = None, rv_searches = None, rv_counter = 0\<rparr>"

definition resolve_install_state :: "'c resolve_slot \<Rightarrow> 'c resolve_code \<Rightarrow> 'c env \<Rightarrow> 'c env" where
  "resolve_install_state sl code env = env\<lparr>e_start := (e_start env)(mwService_RESOLVE \<mapsto> resolve_start env sl),
     e_stop := (e_stop env)(mwService_RESOLVE \<mapsto> resolve_stop env sl code)\<rparr>"

definition resolve_install :: "'c resolve_slot \<Rightarrow> 'c resolve_code \<Rightarrow> 'c env \<Rightarrow> 'c env" where
  "resolve_install sl code env0 =
     (let env = resolve_install_state sl code env0
      in env\<lparr>e_recv_create := (e_recv_create env)(mwService_RESOLVE \<mapsto> resolve_recv_create env),
             e_recv_accept := (e_recv_accept env)(mwService_RESOLVE \<mapsto> resolve_recv_accept sl),
             e_recv_destroy := (e_recv_destroy env)(mwService_RESOLVE \<mapsto> resolve_recv_destroy env sl),
             e_recv := (e_recv env)(mwService_RESOLVE \<mapsto> resolve_recv env sl code)\<rparr>)"

fun put_queries :: "cstr list \<Rightarrow> (mwPutBuffer, unit) state" where
  "put_queries [] = State_Monad.return ()"
| "put_queries (q # qs) = do { mwString_put q; put_queries qs }"

definition mwServiceResolve_resolve ::
  "'c env \<Rightarrow> 'c resolve_slot \<Rightarrow> 'c resolve_code \<Rightarrow> cstr list \<Rightarrow> guint32 \<Rightarrow> nat option \<Rightarrow> nat option \<Rightarrow> nat option
   \<Rightarrow> ('c, guint32) M" where
  "mwServiceResolve_resolve env sl code queries flags handler data cleanup =
     (case handler of
        None \<Rightarrow> State_Monad.return SEARCH_ERROR
      | Some handler \<Rightarrow>
          if queries = [] then State_Monad.return SEARCH_ERROR
          else do {
            search \<leftarrow> search_new sl handler data cleanup;
            chan \<leftarrow> srvc_get sl rv_channel;
            ret \<leftarrow> srvc_send env chan RESOLVE_ACTION (put_opaque (do {
              guint32_put 0;
              guint32_put (se_id search);
              guint32_put (of_nat (length queries));
              put_queries queries;
              guint32_put flags
            }));
            if ret \<noteq> 0 then do { search_free code search; State_Monad.return SEARCH_ERROR }
            else do { searches_insert sl code search; State_Monad.return (se_id search) }
          })"

definition mwServiceResolve_cancelResolve :: "'c resolve_slot \<Rightarrow> 'c resolve_code \<Rightarrow> guint32 \<Rightarrow> ('c, unit) M" where
  "mwServiceResolve_cancelResolve sl code i = searches_remove sl code i"

section \<open>What the service keeps\<close>

text \<open>Every search is in the table once, under its own number, which is never \<open>SEARCH_ERROR\<close>.\<close>

definition resolve_ok :: "mwServiceResolve \<Rightarrow> bool" where
  "resolve_ok rv \<longleftrightarrow> (case rv_searches rv of None \<Rightarrow> True
     | Some t \<Rightarrow> distinct (map fst t) \<and> (\<forall>(k, se) \<in> set t. se_id se = k \<and> k \<noteq> SEARCH_ERROR))"

lemma next_search_id_error: "fst (next_search_id c) \<noteq> SEARCH_ERROR"
  by (induction c rule: next_search_id.induct) simp

locale resolve_slot = service_slot sl for sl :: "'c resolve_slot"
begin

abbreviation ok :: "'c mwSession \<Rightarrow> bool" where
  "ok \<equiv> \<lambda>s. resolve_ok (srvc_of sl s)"

lemma keeps_set [keeps_intros]:
  "keeps ok (srvc_modify sl (\<lambda>rv. rv\<lparr>rv_channel := c\<rparr>))" "keeps ok (srvc_modify sl (\<lambda>rv. rv\<lparr>rv_counter := n\<rparr>))"
  "keeps ok (srvc_modify sl (\<lambda>rv. rv\<lparr>rv_searches := None\<rparr>))" "keeps ok (srvc_modify sl (\<lambda>rv. rv\<lparr>rv_searches := Some []\<rparr>))"
  by (rule keeps_srvc_modify; simp add: resolve_ok_def)+

lemma keeps_delete [keeps_intros]:
  "keeps ok (srvc_modify sl (\<lambda>rv. rv\<lparr>rv_searches := map_option (AList.delete i) (rv_searches rv)\<rparr>))"
  by (rule keeps_srvc_modify) (auto simp: resolve_ok_def distinct_delete dest!: in_delete split: option.splits)

lemma keeps_insert:
  "se_id se \<noteq> SEARCH_ERROR
   \<Longrightarrow> keeps ok (srvc_modify sl (\<lambda>rv. rv\<lparr>rv_searches := map_option (AList.update (se_id se) se) (rv_searches rv)\<rparr>))"
  by (rule keeps_srvc_modify) (auto simp: resolve_ok_def distinct_update dest!: in_update split: option.splits)

lemma keeps_lookup [keeps_intros]: "keeps ok (searches_lookup sl i)"
  unfolding searches_lookup_def by (intro keeps_intros)

end

locale resolve_service = resolve_slot +
  fixes env :: "'a env" and code :: "'a resolve_code"
  assumes env: "env_keeps ok env"
    and handler: "keeps ok (rc_handler code n i r rs d)" and cleanup: "keeps ok (rc_cleanup code n d)"
begin

lemmas E = srvc_calls srvc.keeps_channel [OF env] srvc.keeps_negotiation [OF env] keeps_service_calls [OF env]
  srvc.keeps_service [OF env] env_keepsU [OF env]

lemma keeps_search_free [keeps_intros]: "keeps ok (search_free code se)"
  unfolding search_free_def by (intro keeps_intros cleanup)

lemma keeps_remove [keeps_intros]: "keeps ok (searches_remove sl code i)"
  unfolding searches_remove_def by (intro keeps_intros)

lemma keeps_destroy_table [keeps_intros]: "keeps ok (searches_destroy env sl code)"
  unfolding searches_destroy_def by (intro keeps_intros)

lemma keeps_start: "keeps ok (resolve_start env sl)"
  unfolding resolve_start_def resolve_make_channel_def by (intro keeps_intros E)

lemma keeps_stop: "keeps ok (resolve_stop env sl code)"
  unfolding resolve_stop_def by (intro keeps_intros E)

lemma keeps_create: "keeps ok (resolve_recv_create env c mc)"
  unfolding resolve_recv_create_def by (intro keeps_intros E)

lemma keeps_accept: "keeps ok (resolve_recv_accept sl c ma)"
  unfolding resolve_recv_accept_def by (intro keeps_intros E)

lemma keeps_destroy: "keeps ok (resolve_recv_destroy env sl c md)"
  unfolding resolve_recv_destroy_def by (intro keeps_intros E)

lemma keeps_recv: "keeps ok (resolve_recv env sl code c t data)"
  unfolding resolve_recv_def Let_def split_def by (intro keeps_intros E handler)

lemma keeps_resolve: "keeps ok (mwServiceResolve_resolve env sl code qs flags h d cl)"
proof -
  have "keeps ok (searches_insert sl code se)" if "se_id se \<noteq> SEARCH_ERROR" for se
    unfolding searches_insert_def by (intro keeps_intros keeps_insert that)
  then show ?thesis
    unfolding mwServiceResolve_resolve_def search_new_def Let_def split_def State_Monad.bind_assoc State_Monad.bind_left_identity
    by (intro keeps_intros E) (simp_all add: next_search_id_error)
qed

lemma keeps_cancel: "keeps ok (mwServiceResolve_cancelResolve sl code i)"
  unfolding mwServiceResolve_cancelResolve_def by (intro keeps_intros)

lemma env_state: "env_keeps ok (resolve_install_state sl code env)"
  using env keeps_start keeps_stop unfolding env_keeps_def resolve_install_state_def by simp

lemma env_messages:
  "env_keeps ok (env\<lparr>e_recv_create := (e_recv_create env)(mwService_RESOLVE \<mapsto> resolve_recv_create env),
     e_recv_accept := (e_recv_accept env)(mwService_RESOLVE \<mapsto> resolve_recv_accept sl),
     e_recv_destroy := (e_recv_destroy env)(mwService_RESOLVE \<mapsto> resolve_recv_destroy env sl),
     e_recv := (e_recv env)(mwService_RESOLVE \<mapsto> resolve_recv env sl code)\<rparr>)"
  using env keeps_create keeps_accept keeps_destroy keeps_recv unfolding env_keeps_def by simp

end

lemma resolve_service_env:
  "resolve_service sl env code \<Longrightarrow> env_keeps (\<lambda>s. resolve_ok (srvc_of sl s)) env' \<Longrightarrow> resolve_service sl env' code"
  by (simp add: resolve_service_def resolve_service_axioms_def)

lemma resolve_service_install:
  assumes "resolve_service sl env code"
  shows "resolve_service sl (resolve_install sl code env) code"
  using resolve_service.env_messages [OF resolve_service_env [OF assms resolve_service.env_state [OF assms]]]
    resolve_service_env [OF assms]
  by (simp add: resolve_install_def Let_def)

section \<open>Replies\<close>

definition match_wire :: "mwResolveMatch \<Rightarrow> bytes" where
  "match_wire m = string_wire (rm_id m) @ string_wire (rm_name m) @ string_wire (rm_desc m) @ MW32_PUT (rm_type m)"

definition match_valid :: "mwResolveMatch \<Rightarrow> bool" where
  "match_valid m \<longleftrightarrow> string_valid (rm_id m) \<and> string_valid (rm_name m) \<and> string_valid (rm_desc m)"

definition match_norm :: "mwResolveMatch \<Rightarrow> mwResolveMatch" where
  "match_norm m = m\<lparr>rm_id := string_norm (rm_id m), rm_name := string_norm (rm_name m), rm_desc := string_norm (rm_desc m)\<rparr>"

definition result_wire :: "mwResolveResult \<Rightarrow> bytes" where
  "result_wire r = MW32_PUT 0 @ MW32_PUT (rr_code r) @ string_wire (rr_name r) @ MW32_PUT (of_nat (length (rr_matches r)))
     @ concat (map match_wire (rr_matches r))"

definition result_valid :: "mwResolveResult \<Rightarrow> bool" where
  "result_valid r \<longleftrightarrow> string_valid (rr_name r) \<and> length (rr_matches r) < 2 ^ 32 \<and> list_all match_valid (rr_matches r)"

definition result_norm :: "mwResolveResult \<Rightarrow> mwResolveResult" where
  "result_norm r = r\<lparr>rr_name := string_norm (rr_name r), rr_matches := map match_norm (rr_matches r)\<rparr>"

definition reply_wire :: "guint32 \<Rightarrow> guint32 \<Rightarrow> mwResolveResult list \<Rightarrow> bytes" where
  "reply_wire i result rs = MW32_PUT 0 @ MW32_PUT i @ MW32_PUT result @ MW32_PUT (of_nat (length rs)) @ concat (map result_wire rs)"

lemma load_matches_wire:
  "list_all match_valid ms \<Longrightarrow> run_state (load_matches (length ms)) (gbuf w pre (concat (map match_wire ms) @ post))
    = (map match_norm ms, gbuf w (pre @ concat (map match_wire ms)) post)"
proof (induction ms arbitrary: pre)
  case (Cons m ms)
  then show ?case
    by (simp add: match_wire_def match_valid_def match_norm_def mwString_get_wire guint32_get_wire)
qed simp

lemma load_results_wire:
  "list_all result_valid rs \<Longrightarrow> run_state (load_results junk (length rs)) (gbuf w pre (concat (map result_wire rs) @ post))
    = (map result_norm rs, gbuf w (pre @ concat (map result_wire rs)) post)"
proof (induction rs arbitrary: pre)
  case (Cons r rs)
  then have r: "string_valid (rr_name r)" "list_all match_valid (rr_matches r)" "length (rr_matches r) < 2 ^ 32"
    by (simp_all add: result_valid_def)
  have n: "unat (of_nat (length (rr_matches r)) :: guint32) = length (rr_matches r)"
    using r(3) by (simp add: unat_of_nat)
  show ?case
    using Cons r
    by (simp add: result_wire_def result_norm_def mwString_get_wire guint32_get_wire n load_matches_wire)
qed simp

lemma reader_load [reader_intros]: "reader (load_matches n)" "reader (load_results junk n)"
proof -
  show m: "reader (load_matches n)" for n
    by (induction n) (auto intro!: reader_intros)
  show "reader (load_results junk n)"
    by (induction n) (auto intro!: reader_intros m)
qed

text \<open>A client that records the calls of its functions.\<close>

record resolve_client =
  rvc_resolve :: mwServiceResolve
  rvc_wire :: "bytes list"
  rvc_log :: "(nat \<times> guint32 \<times> guint32 \<times> mwResolveResult list \<times> nat option) list"
  rvc_freed :: "(nat \<times> nat option) list"

definition rvc_slot :: "resolve_client resolve_slot" where
  "rvc_slot = \<lparr>sl_get = rvc_resolve, sl_put = (\<lambda>x c. c\<lparr>rvc_resolve := x\<rparr>)\<rparr>"

definition rvc_env :: "resolve_client env" where
  "rvc_env = plain_env (\<lambda>b c. c\<lparr>rvc_wire := rvc_wire c @ [b]\<rparr>)"

definition rvc_code :: "resolve_client resolve_code" where
  "rvc_code = \<lparr>
     rc_handler = (\<lambda>n i r rs d. modify (\<lambda>s. s\<lparr>ss_client := (ss_client s)\<lparr>rvc_log := rvc_log (ss_client s) @ [(n, i, r, rs, d)]\<rparr>\<rparr>)),
     rc_cleanup = (\<lambda>n d. modify (\<lambda>s. s\<lparr>ss_client := (ss_client s)\<lparr>rvc_freed := rvc_freed (ss_client s) @ [(n, d)]\<rparr>\<rparr>))\<rparr>"

interpretation rvc: resolve_service rvc_slot rvc_env rvc_code
proof
  show "env_keeps (\<lambda>s. resolve_ok (srvc_of rvc_slot s)) rvc_env"
    unfolding rvc_env_def by (rule plain_env_keeps) (simp add: rvc_slot_def)
qed (auto simp: rvc_slot_def rvc_code_def srvc_of_def keeps_def)

lemma rvc_of [simp]: "srvc_of rvc_slot s = rvc_resolve (ss_client s)"
  by (simp add: srvc_of_def rvc_slot_def)

lemma rvc_set [simp]: "srvc_set rvc_slot x s = s\<lparr>ss_client := (ss_client s)\<lparr>rvc_resolve := x\<rparr>\<rparr>"
  by (simp add: srvc_set_def rvc_slot_def)

definition search_freed :: "mw_search \<Rightarrow> (nat \<times> nat option) list" where
  "search_freed se = (case se_cleanup se of None \<Rightarrow> [] | Some cl \<Rightarrow> [(cl, se_data se)])"

abbreviation rvc_recv :: "guint32 \<Rightarrow> bytes \<Rightarrow> (resolve_client, unit) M" where
  "rvc_recv c bs \<equiv> resolve_recv rvc_env rvc_slot rvc_code c 2 (opaque_of bs)"

lemma recv_reply:
  assumes "rv_channel (rvc_resolve (ss_client s)) = Some c" and "rv_searches (rvc_resolve (ss_client s)) = Some t"
    and "run_state resolve_head (gbuf True [] bs) = ((i, result, count), b1)"
    and "run_state (load_results 0 (unat count)) b1 = (rs, b2)"
  shows "gb_error b1 \<or> map_of t i = None \<Longrightarrow> exec_state (rvc_recv c bs) s = s"
    and "\<not> gb_error b1 \<Longrightarrow> map_of t i = Some se \<Longrightarrow> exec_state (rvc_recv c bs) s = s\<lparr>ss_client := \<lparr>
        rvc_resolve = (rvc_resolve (ss_client s))\<lparr>rv_searches := Some (AList.delete i t)\<rparr>,
        rvc_wire = rvc_wire (ss_client s),
        rvc_log = rvc_log (ss_client s) @ (if gb_error b2 then [] else [(se_handler se, i, result, rs, se_data se)]),
        rvc_freed = rvc_freed (ss_client s) @ search_freed se\<rparr>\<rparr>"
proof -
  have junk: "run_state (e_junk rvc_env) u = (\<lparr>jk_head = mwMessageHead_zero, jk_ack = 0, jk_skip = 0, jk_count = 0\<rparr>, u)" for u
    by (simp add: rvc_env_def)
  note S = resolve_recv_def RESOLVE_ACTION_def mwGetBuffer_wrap_gbuf searches_lookup_def split_def Let_def
  show "gb_error b1 \<or> map_of t i = None \<Longrightarrow> exec_state (rvc_recv c bs) s = s"
    using assms by (auto simp: S)
  show "exec_state (rvc_recv c bs) s = s\<lparr>ss_client := \<lparr>
        rvc_resolve = (rvc_resolve (ss_client s))\<lparr>rv_searches := Some (AList.delete i t)\<rparr>,
        rvc_wire = rvc_wire (ss_client s),
        rvc_log = rvc_log (ss_client s) @ (if gb_error b2 then [] else [(se_handler se, i, result, rs, se_data se)]),
        rvc_freed = rvc_freed (ss_client s) @ search_freed se\<rparr>\<rparr>"
    if "\<not> gb_error b1" and "map_of t i = Some se"
    using assms that
    by (cases "se_cleanup se"; cases "gb_error b2"; cases "ss_client s")
      (simp_all add: S junk searches_remove_def search_free_def search_freed_def rvc_code_def)
qed

lemma resolve_head_wire:
  "run_state resolve_head (gbuf w pre (MW32_PUT 0 @ MW32_PUT i @ MW32_PUT result @ MW32_PUT count @ post))
    = ((i, result, count), gbuf w (pre @ MW32_PUT 0 @ MW32_PUT i @ MW32_PUT result @ MW32_PUT count) post)"
  by (simp add: resolve_head_def guint32_get_wire)

lemma resolve_head_short:
  assumes "n < 16"
  shows "gb_error (exec_state resolve_head (gbuf w [] (take n (reply_wire i result rs))))"
proof -
  let ?h = "MW32_PUT 0 @ MW32_PUT i @ MW32_PUT result @ MW32_PUT (of_nat (length rs))"
  have "reader resolve_head" unfolding resolve_head_def by (intro reader_intros)
  moreover have "run_state resolve_head (gbuf w [] ?h) = ((i, result, of_nat (length rs)), gbuf w ([] @ ?h) [])"
    using resolve_head_wire [of w "[]" i result "of_nat (length rs)" "[]"] by simp
  moreover have "take n (reply_wire i result rs) = take n ?h"
    using assms by (simp add: reply_wire_def)
  ultimately show ?thesis using reader_truncated [of resolve_head w "[]" ?h _ n] assms by auto
qed

text \<open>
  Claim C15: a search is answered once. A reply of the server for a search in the table calls
  the handler of that search with the number, the code and all the results and matches of the
  reply, removes the search and cleans up its data once, and the same reply again has no
  effect. A reply that is cut short never calls a handler: cut within its first sixteen
  bytes it is ignored, cut later it ends the search.
\<close>

theorem resolve_answered_once:
  assumes "rv_channel (rvc_resolve (ss_client s)) = Some c" and "rv_searches (rvc_resolve (ss_client s)) = Some t"
    and "map_of t i = Some se" and "list_all result_valid rs" and "length rs < 2 ^ 32"
    and "u = exec_state (rvc_recv c (reply_wire i result rs)) s"
    and "v = exec_state (rvc_recv c (take n (reply_wire i result rs))) s" and "n < length (reply_wire i result rs)"
  shows "rvc_log (ss_client u) = rvc_log (ss_client s) @ [(se_handler se, i, result, map result_norm rs, se_data se)]
    \<and> rvc_freed (ss_client u) = rvc_freed (ss_client s) @ search_freed se
    \<and> rv_searches (rvc_resolve (ss_client u)) = Some (AList.delete i t)
    \<and> exec_state (rvc_recv c (reply_wire i result rs)) u = u
    \<and> (if n < 16 then v = s else rvc_log (ss_client v) = rvc_log (ss_client s)
         \<and> rvc_freed (ss_client v) = rvc_freed (ss_client s) @ search_freed se
         \<and> rv_searches (rvc_resolve (ss_client v)) = Some (AList.delete i t))"
proof -
  let ?h = "MW32_PUT 0 @ MW32_PUT i @ MW32_PUT result @ MW32_PUT (of_nat (length rs))"
  let ?b = "concat (map result_wire rs)"
  have k: "unat (of_nat (length rs) :: guint32) = length rs" using assms(5) by (simp add: unat_of_nat)
  have head: "run_state resolve_head (gbuf True [] (?h @ x)) = ((i, result, of_nat (length rs)), gbuf True ?h x)" for x
    using resolve_head_wire [of True "[]" i result "of_nat (length rs)" x] by simp
  have w: "reply_wire i result rs = ?h @ ?b" by (simp add: reply_wire_def)
  have load: "run_state (load_results 0 (unat (of_nat (length rs) :: guint32))) (gbuf True ?h ?b)
      = (map result_norm rs, gbuf True (?h @ ?b) [])"
    unfolding k using load_results_wire [OF assms(4), of 0 True ?h "[]"] by simp
  note full = recv_reply(2) [OF assms(1,2) head load _ assms(3)]
  have u: "rv_channel (rvc_resolve (ss_client u)) = Some c" "rv_searches (rvc_resolve (ss_client u)) = Some (AList.delete i t)"
    unfolding assms(6) w using full assms(1) by simp_all
  have again: "exec_state (rvc_recv c (reply_wire i result rs)) u = u"
    unfolding w by (rule recv_reply(1) [OF u head load]) (simp add: delete_conv')
  have short: "v = s" if "n < 16"
  proof -
    obtain j r k b1 where h: "run_state resolve_head (gbuf True [] (take n (reply_wire i result rs))) = ((j, r, k), b1)"
      by (metis prod.exhaust)
    obtain x y where l: "run_state (load_results 0 (unat k)) b1 = (x, y)" by fastforce
    have "gb_error b1" using resolve_head_short [OF that, of True i result rs] h by simp
    with recv_reply(1) [OF assms(1,2) h l] show ?thesis unfolding assms(7) by simp
  qed
  have long: "rvc_log (ss_client v) = rvc_log (ss_client s) \<and> rvc_freed (ss_client v) = rvc_freed (ss_client s) @ search_freed se
         \<and> rv_searches (rvc_resolve (ss_client v)) = Some (AList.delete i t)" if "16 \<le> n"
  proof -
    have cut: "take n (reply_wire i result rs) = ?h @ take (n - 16) ?b" using that by (simp add: w)
    obtain x y where l: "run_state (load_results 0 (unat (of_nat (length rs) :: guint32))) (gbuf True ?h (take (n - 16) ?b)) = (x, y)"
      by fastforce
    have "gb_error y"
      using reader_truncated [OF reader_load(2) load, of "n - 16"] l assms(8) that by (simp add: w)
    with recv_reply(2) [OF assms(1,2) head l _ assms(3)] show ?thesis
      unfolding assms(7) cut by simp
  qed
  show ?thesis
    using full u again short long unfolding assms(6) w by simp
qed

definition rvc_start :: "resolve_client mwSession" where
  "rvc_start = mwSession_zero \<lparr>rvc_resolve = \<lparr>rv_channel = Some 1,
     rv_searches = Some [(5, \<lparr>se_id = 5, se_handler = 2, se_data = Some 8, se_cleanup = Some 9\<rparr>)], rv_counter = 6\<rparr>,
     rvc_wire = [], rvc_log = [], rvc_freed = []\<rparr>"

definition rvc_example :: "mwResolveResult list" where
  "rvc_example = [\<lparr>rr_code = 0, rr_name = Some [65],
     rr_matches = [\<lparr>rm_id = Some [66], rm_name = Some [67], rm_desc = None, rm_type = 1\<rparr>]\<rparr>]"

theorem resolve_answered_once_witness:
  "list_all result_valid rvc_example
   \<and> rvc_log (ss_client (exec_state (rvc_recv 1 (reply_wire 5 0 rvc_example)) rvc_start)) = [(2, 5, 0, rvc_example, Some 8)]
   \<and> rvc_freed (ss_client (exec_state (rvc_recv 1 (take 20 (reply_wire 5 0 rvc_example))) rvc_start)) = [(9, Some 8)]"
proof -
  let ?se = "\<lparr>se_id = 5, se_handler = 2, se_data = Some 8, se_cleanup = Some 9\<rparr>"
  have s: "rv_channel (rvc_resolve (ss_client rvc_start)) = Some 1"
    "rv_searches (rvc_resolve (ss_client rvc_start)) = Some [(5, ?se)]" "map_of [(5, ?se)] 5 = Some ?se"
    "rvc_log (ss_client rvc_start) = []" "rvc_freed (ss_client rvc_start) = []"
    by (simp_all add: rvc_start_def mwSession_zero_def)
  have v: "list_all result_valid rvc_example"
    by (simp add: rvc_example_def result_valid_def match_valid_def string_valid_def cstr_ok_def)
  have n: "map result_norm rvc_example = rvc_example"
    by (simp add: rvc_example_def result_norm_def match_norm_def string_norm_def)
  have k: "length rvc_example < 2 ^ 32" "20 < length (reply_wire 5 0 rvc_example)"
    by (simp_all add: rvc_example_def reply_wire_def result_wire_def match_wire_def string_wire_def)
  from resolve_answered_once [OF s(1-3) v k(1) refl refl k(2)] v show ?thesis
    by (simp add: s(4,5) n search_freed_def)
qed

end
