(* ===== verification/Mpi_Digits.thy ===== *)
theory Mpi_Digits
  imports Prelude
begin

text \<open>
  The number representation of the multiple precision library \<^verbatim>\<open>src/src/mpi/mpi.c\<close> and the
  operations that work on one number in place: memory management, shifts, single digit
  arithmetic and comparison.

  A number is an array of 16 bit digits, the lowest first, of which \<open>mp_used\<close> are in use; the
  length of \<open>mp_dp\<close> is \<open>ALLOC\<close>. The digits above \<open>mp_used\<close> are zero at all times
  (\<open>mp_ok\<close>), which the code relies on when it pads a number. A result \<open>None\<close> stands for
  undefined behaviour of the C code: an access outside of the allocated digits, or a loop
  that does not end. Memory allocation is taken to succeed, so \<open>MP_MEM\<close> does not occur, and
  arguments are not NULL (\<open>ARGCHK\<close> asserts it). The default precision is the one the library
  starts with; nothing in the client changes it.
\<close>

type_synonym mw_mp_digit = guint16
type_synonym mw_mp_word = guint32
type_synonym mw_mp_size = gsize
type_synonym mw_mp_err = int

abbreviation MP_OKAY :: mw_mp_err where "MP_OKAY \<equiv> 0"
abbreviation MP_RANGE :: mw_mp_err where "MP_RANGE \<equiv> -3"
abbreviation MP_UNDEF :: mw_mp_err where "MP_UNDEF \<equiv> -5"
abbreviation MP_LT :: int where "MP_LT \<equiv> -1"
abbreviation MP_EQ :: int where "MP_EQ \<equiv> 0"
abbreviation MP_GT :: int where "MP_GT \<equiv> 1"
abbreviation MP_DEFPREC :: mw_mp_size where "MP_DEFPREC \<equiv> 32"
abbreviation DIGIT_BIT :: nat where "DIGIT_BIT \<equiv> 16"
abbreviation RADIX :: nat where "RADIX \<equiv> 65536"

definition CARRYOUT :: "mw_mp_word \<Rightarrow> mw_mp_word" where
  "CARRYOUT w = drop_bit 16 w"

definition ACCUM :: "mw_mp_word \<Rightarrow> mw_mp_digit" where
  "ACCUM w = ucast (w AND 0xFFFF)"

record mw_mp_int =
  mp_neg :: bool
  mp_used :: mw_mp_size
  mp_dp :: "mw_mp_digit list"

abbreviation ALLOC :: "mw_mp_int \<Rightarrow> mw_mp_size" where
  "ALLOC a \<equiv> length (mp_dp a)"

abbreviation DIGIT :: "mw_mp_int \<Rightarrow> nat \<Rightarrow> mw_mp_digit" where
  "DIGIT a n \<equiv> mp_dp a ! n"

subsection \<open>Memory\<close>

definition mw_mp_init_size :: "mw_mp_size \<Rightarrow> mw_mp_int" where
  "mw_mp_init_size prec = \<lparr>mp_neg = False, mp_used = 1, mp_dp = replicate prec 0\<rparr>"

definition mw_mp_init :: mw_mp_int where
  "mw_mp_init = mw_mp_init_size MP_DEFPREC"

definition mw_mp_init_copy :: "mw_mp_int \<Rightarrow> mw_mp_int" where
  "mw_mp_init_copy src = \<lparr>mp_neg = mp_neg src, mp_used = mp_used src, mp_dp = take (mp_used src) (mp_dp src)\<rparr>"

definition mw_mp_copy :: "mw_mp_int \<Rightarrow> mw_mp_int \<Rightarrow> mw_mp_int" where
  "mw_mp_copy src dst =
     \<lparr>mp_neg = mp_neg src, mp_used = mp_used src,
      mp_dp = (if mp_used src \<le> ALLOC dst
               then take (mp_used src) (mp_dp src) @ replicate (ALLOC dst - mp_used src) 0
               else take (mp_used src) (mp_dp src))\<rparr>"

definition mw_mp_zero :: "mw_mp_int \<Rightarrow> mw_mp_int" where
  "mw_mp_zero a = a\<lparr>mp_dp := replicate (ALLOC a) 0, mp_used := 1, mp_neg := False\<rparr>"

definition mw_mp_set :: "mw_mp_int \<Rightarrow> mw_mp_digit \<Rightarrow> mw_mp_int" where
  "mw_mp_set a d = (mw_mp_zero a)\<lparr>mp_dp := (mp_dp (mw_mp_zero a))[0 := d]\<rparr>"

definition s_mw_mp_grow :: "mw_mp_int \<Rightarrow> mw_mp_size \<Rightarrow> mw_mp_int" where
  "s_mw_mp_grow a n =
     (if ALLOC a < n
      then let n' = (n + (MP_DEFPREC - 1)) div MP_DEFPREC * MP_DEFPREC
           in a\<lparr>mp_dp := take (mp_used a) (mp_dp a) @ replicate (n' - mp_used a) 0\<rparr>
      else a)"

definition s_mw_mp_pad :: "mw_mp_int \<Rightarrow> mw_mp_size \<Rightarrow> mw_mp_int" where
  "s_mw_mp_pad a n =
     (if mp_used a < n
      then (if ALLOC a < n then s_mw_mp_grow a n else a)\<lparr>mp_used := n\<rparr>
      else a)"

fun clamp_used :: "mw_mp_digit list \<Rightarrow> mw_mp_size \<Rightarrow> mw_mp_size" where
  "clamp_used dp du = (if 1 < du \<and> dp ! (du - 1) = 0 then clamp_used dp (du - 1) else du)"

declare clamp_used.simps [simp del]

definition s_mw_mp_clamp :: "mw_mp_int \<Rightarrow> mw_mp_int" where
  "s_mw_mp_clamp a =
     (let du = clamp_used (mp_dp a) (mp_used a)
      in a\<lparr>mp_neg := (if du = 1 \<and> DIGIT a 0 = 0 then False else mp_neg a), mp_used := du\<rparr>)"

subsection \<open>Shifts\<close>

definition s_mw_mp_lshd :: "mw_mp_int \<Rightarrow> mw_mp_size \<Rightarrow> mw_mp_int" where
  "s_mw_mp_lshd a p =
     (if p = 0 then a
      else let a' = s_mw_mp_pad a (mp_used a + p)
           in a'\<lparr>mp_dp := replicate p 0 @ take (mp_used a' - p) (mp_dp a') @ drop (mp_used a') (mp_dp a')\<rparr>)"

definition s_mw_mp_rshd :: "mw_mp_int \<Rightarrow> mw_mp_size \<Rightarrow> mw_mp_int" where
  "s_mw_mp_rshd a p =
     (if p = 0 then a
      else if mp_used a \<le> p
      then a\<lparr>mp_dp := replicate (ALLOC a) 0, mp_used := 1, mp_neg := False\<rparr>
      else s_mw_mp_clamp
        (a\<lparr>mp_dp := drop p (take (mp_used a) (mp_dp a)) @ replicate p 0 @ drop (mp_used a) (mp_dp a)\<rparr>))"

fun mul_2d_loop :: "nat \<Rightarrow> mw_mp_digit \<Rightarrow> mw_mp_digit list \<Rightarrow> mw_mp_digit list \<times> mw_mp_digit" where
  "mul_2d_loop d save [] = ([], save)"
| "mul_2d_loop d save (x # xs) =
     (let next = drop_bit (DIGIT_BIT - d) x AND (push_bit d 1 - 1);
          (ys, save') = mul_2d_loop d next xs
      in ((push_bit d x OR save) # ys, save'))"

definition s_mw_mp_mul_2d :: "mw_mp_int \<Rightarrow> mw_mp_digit \<Rightarrow> mw_mp_int" where
  "s_mw_mp_mul_2d a d0 =
     (let a1 = s_mw_mp_lshd a (unat d0 div DIGIT_BIT);
          used = mp_used a1;
          d = unat d0 mod DIGIT_BIT;
          mask = push_bit d 1 - 1;
          a2 = (if drop_bit (DIGIT_BIT - d) (DIGIT a1 (used - 1)) AND mask \<noteq> 0
                then s_mw_mp_grow a1 (used + 1) else a1);
          (ys, save) = mul_2d_loop d 0 (take used (mp_dp a2));
          a3 = a2\<lparr>mp_dp := ys @ drop used (mp_dp a2)\<rparr>
      in s_mw_mp_clamp
           (if save \<noteq> 0 then a3\<lparr>mp_dp := (mp_dp a3)[used := save], mp_used := used + 1\<rparr> else a3))"

fun div_2d_loop :: "nat \<Rightarrow> mw_mp_digit list \<Rightarrow> mw_mp_digit list \<times> mw_mp_digit" where
  "div_2d_loop d [] = ([], 0)"
| "div_2d_loop d (x # xs) =
     (let (ys, save) = div_2d_loop d xs
      in ((drop_bit d x OR push_bit (DIGIT_BIT - d) save) # ys, x AND (push_bit d 1 - 1)))"

definition s_mw_mp_div_2d :: "mw_mp_int \<Rightarrow> mw_mp_digit \<Rightarrow> mw_mp_int" where
  "s_mw_mp_div_2d a d0 =
     (let a1 = s_mw_mp_rshd a (unat d0 div DIGIT_BIT);
          d = unat d0 mod DIGIT_BIT;
          (ys, save) = div_2d_loop d (take (mp_used a1) (mp_dp a1))
      in s_mw_mp_clamp (a1\<lparr>mp_dp := ys @ drop (mp_used a1) (mp_dp a1)\<rparr>))"

definition s_mw_mp_div_2 :: "mw_mp_int \<Rightarrow> mw_mp_int" where
  "s_mw_mp_div_2 a = s_mw_mp_div_2d a 1"

fun mul_2_loop :: "mw_mp_digit \<Rightarrow> mw_mp_digit list \<Rightarrow> mw_mp_digit list \<times> mw_mp_digit" where
  "mul_2_loop kin [] = ([], kin)"
| "mul_2_loop kin (x # xs) =
     (let kout = drop_bit (DIGIT_BIT - 1) x AND 1;
          (ys, kin') = mul_2_loop kout xs
      in ((push_bit 1 x OR kin) # ys, kin'))"

definition s_mw_mp_mul_2 :: "mw_mp_int \<Rightarrow> mw_mp_int" where
  "s_mw_mp_mul_2 a =
     (let (ys, kin) = mul_2_loop 0 (take (mp_used a) (mp_dp a));
          a1 = a\<lparr>mp_dp := ys @ drop (mp_used a) (mp_dp a)\<rparr>
      in if kin \<noteq> 0
         then let a2 = (if ALLOC a1 \<le> mp_used a1 then s_mw_mp_grow a1 (ALLOC a1 + 1) else a1)
              in a2\<lparr>mp_dp := (mp_dp a2)[mp_used a := kin], mp_used := mp_used a + 1\<rparr>
         else a1)"

definition s_mw_mp_mod_2d :: "mw_mp_int \<Rightarrow> mw_mp_digit \<Rightarrow> mw_mp_int" where
  "s_mw_mp_mod_2d a d =
     (let ndig = unat d div DIGIT_BIT; nbit = unat d mod DIGIT_BIT
      in if mp_used a \<le> ndig then a
         else s_mw_mp_clamp
           (a\<lparr>mp_dp := take ndig (mp_dp a) @ (DIGIT a ndig AND (push_bit nbit 1 - 1))
                # replicate (mp_used a - Suc ndig) 0 @ drop (mp_used a) (mp_dp a)\<rparr>))"

subsection \<open>Digits\<close>

fun carry_digits :: "mw_mp_word \<Rightarrow> mw_mp_digit list \<Rightarrow> mw_mp_digit list \<times> mw_mp_word" where
  "carry_digits k [] = ([], k)"
| "carry_digits k (x # xs) =
     (if k = 0 then (x # xs, k)
      else let w = ucast x + k; (ys, k') = carry_digits (CARRYOUT w) xs
           in (ACCUM w # ys, k'))"

definition s_mw_mp_add_d :: "mw_mp_int \<Rightarrow> mw_mp_digit \<Rightarrow> mw_mp_int" where
  "s_mw_mp_add_d a d =
     (let w = ucast (DIGIT a 0) + ucast d;
          (ys, k) = carry_digits (CARRYOUT w) (drop 1 (take (mp_used a) (mp_dp a)));
          a1 = a\<lparr>mp_dp := ACCUM w # ys @ drop (mp_used a) (mp_dp a)\<rparr>
      in if k \<noteq> 0
         then let a2 = s_mw_mp_pad a1 (mp_used a1 + 1)
              in a2\<lparr>mp_dp := (mp_dp a2)[mp_used a := ucast k]\<rparr>
         else a1)"

fun borrow_digits :: "mw_mp_word \<Rightarrow> mw_mp_digit list \<Rightarrow> mw_mp_digit list \<times> mw_mp_word" where
  "borrow_digits b [] = ([], b)"
| "borrow_digits b (x # xs) =
     (if b = 0 then (x # xs, b)
      else let w = (65536 + ucast x) - b;
               (ys, b') = borrow_digits (if CARRYOUT w \<noteq> 0 then 0 else 1) xs
           in (ACCUM w # ys, b'))"

definition s_mw_mp_sub_d :: "mw_mp_int \<Rightarrow> mw_mp_digit \<Rightarrow> mw_mp_err \<times> mw_mp_int" where
  "s_mw_mp_sub_d a d =
     (let w = (65536 + ucast (DIGIT a 0)) - ucast d;
          (ys, b) = borrow_digits (if CARRYOUT w \<noteq> 0 then 0 else 1) (drop 1 (take (mp_used a) (mp_dp a)));
          a1 = s_mw_mp_clamp (a\<lparr>mp_dp := ACCUM w # ys @ drop (mp_used a) (mp_dp a)\<rparr>)
      in (if b \<noteq> 0 then MP_RANGE else MP_OKAY, a1))"

subsection \<open>Comparison\<close>

text \<open>The digits of both numbers, the highest first.\<close>

fun cmp_digits :: "mw_mp_digit list \<Rightarrow> mw_mp_digit list \<Rightarrow> int" where
  "cmp_digits (x # xs) (y # ys) =
     (if x > y then MP_GT else if x < y then MP_LT else cmp_digits xs ys)"
| "cmp_digits _ _ = MP_EQ"

definition s_mw_mp_cmp :: "mw_mp_int \<Rightarrow> mw_mp_int \<Rightarrow> int" where
  "s_mw_mp_cmp a b =
     (if mp_used a > mp_used b then MP_GT
      else if mp_used a < mp_used b then MP_LT
      else cmp_digits (rev (take (mp_used a) (mp_dp a))) (rev (take (mp_used a) (mp_dp b))))"

definition s_mw_mp_cmw_mp_d :: "mw_mp_int \<Rightarrow> mw_mp_digit \<Rightarrow> int" where
  "s_mw_mp_cmw_mp_d a d =
     (if mp_used a > 1 then MP_GT
      else if DIGIT a 0 < d then MP_LT
      else if DIGIT a 0 > d then MP_GT
      else MP_EQ)"

definition mw_mp_cmw_mp_z :: "mw_mp_int \<Rightarrow> int" where
  "mw_mp_cmw_mp_z a =
     (if mp_neg a then MP_LT
      else if mp_used a = 1 \<and> DIGIT a 0 = 0 then MP_EQ
      else MP_GT)"

definition mw_mp_cmw_mp_d :: "mw_mp_int \<Rightarrow> mw_mp_digit \<Rightarrow> int" where
  "mw_mp_cmw_mp_d a d = (if mp_neg a then MP_LT else s_mw_mp_cmw_mp_d a d)"

definition mw_mp_cmp :: "mw_mp_int \<Rightarrow> mw_mp_int \<Rightarrow> int" where
  "mw_mp_cmp a b =
     (if mp_neg a = mp_neg b
      then let mag = s_mw_mp_cmp a b
           in if mag = MP_EQ then MP_EQ else if \<not> mp_neg a then mag else - mag
      else if \<not> mp_neg a then MP_GT else MP_LT)"

definition mw_mp_isodd :: "mw_mp_int \<Rightarrow> bool" where
  "mw_mp_isodd a \<longleftrightarrow> DIGIT a 0 AND 1 \<noteq> 0"

definition mw_mp_iseven :: "mw_mp_int \<Rightarrow> bool" where
  "mw_mp_iseven a \<longleftrightarrow> \<not> mw_mp_isodd a"

section \<open>The values of digit lists\<close>

primrec digits_val :: "mw_mp_digit list \<Rightarrow> nat" where
  "digits_val [] = 0"
| "digits_val (d # ds) = unat d + RADIX * digits_val ds"

lemma digits_val_append: "digits_val (xs @ ys) = digits_val xs + RADIX ^ length xs * digits_val ys"
  by (induction xs) (simp_all add: algebra_simps)

lemma digits_val_zeros [simp]: "digits_val (replicate n 0) = 0"
  by (induction n) simp_all

lemma digits_val_append_zeros [simp]: "digits_val (xs @ replicate n 0) = digits_val xs"
  by (simp add: digits_val_append)

lemma digit_less [simp]: "unat (d :: mw_mp_digit) < RADIX"
  using unsigned_less [of d] by simp

lemma digit_le [simp]: "unat (d :: mw_mp_digit) \<le> 65535"
  using digit_less [of d] by linarith

lemma digits_val_less: "digits_val ds < RADIX ^ length ds"
proof (induction ds)
  case Nil
  then show ?case by simp
next
  case (Cons d ds)
  have "unat d + RADIX * digits_val ds < RADIX * Suc (digits_val ds)"
    using digit_less [of d] by simp
  also have "\<dots> \<le> RADIX * RADIX ^ length ds"
    using Cons.IH by (intro mult_le_mono2) simp
  finally show ?case by simp
qed

lemma digits_val_less_power: "length ds \<le> n \<Longrightarrow> digits_val ds < RADIX ^ n"
  by (rule less_le_trans [OF digits_val_less]) (rule power_increasing, simp_all)

lemma digits_val_split: "digits_val ds = digits_val (take n ds) + RADIX ^ min n (length ds) * digits_val (drop n ds)"
  using digits_val_append [of "take n ds" "drop n ds"] by (simp add: min.commute)

lemma digits_val_take: "digits_val (take n ds) = digits_val ds mod RADIX ^ n"
proof (cases "n \<le> length ds")
  case True
  have "digits_val ds = digits_val (take n ds) + RADIX ^ n * digits_val (drop n ds)"
    using digits_val_split [of ds n] True by simp
  then show ?thesis
    using digits_val_less [of "take n ds"] True by simp
next
  case False
  have "digits_val ds < RADIX ^ n"
    using False by (simp add: digits_val_less_power)
  then show ?thesis
    using False by simp
qed

lemma digits_val_drop: "digits_val (drop n ds) = digits_val ds div RADIX ^ n"
proof (cases "n \<le> length ds")
  case True
  have "digits_val ds = digits_val (take n ds) + RADIX ^ n * digits_val (drop n ds)"
    using digits_val_split [of ds n] True by simp
  moreover have "digits_val (take n ds) < RADIX ^ n"
    using digits_val_less [of "take n ds"] True by simp
  ultimately show ?thesis by simp
next
  case False
  have "digits_val ds < RADIX ^ n"
    using False by (simp add: digits_val_less_power)
  then show ?thesis
    using False by simp
qed

lemma digits_val_update:
  "n < length ds \<Longrightarrow> digits_val (ds[n := d]) + RADIX ^ n * unat (ds ! n) = digits_val ds + RADIX ^ n * unat d"
proof (induction ds arbitrary: n)
  case (Cons x ds)
  then show ?case
  proof (cases n)
    case (Suc m)
    have "digits_val (ds[m := d]) + RADIX ^ m * unat (ds ! m) = digits_val ds + RADIX ^ m * unat d"
      using Cons.IH [of m] Cons.prems Suc by simp
    then have "RADIX * (digits_val (ds[m := d]) + RADIX ^ m * unat (ds ! m)) = RADIX * (digits_val ds + RADIX ^ m * unat d)"
      by (rule arg_cong)
    then show ?thesis
      by (simp only: Suc list_update_code digits_val.simps nth_Cons_Suc power_Suc distrib_left mult.assoc)
  qed simp
qed simp

lemma digits_val_eq_0: "digits_val ds = 0 \<longleftrightarrow> (\<forall>d \<in> set ds. d = 0)"
  by (induction ds) (auto simp: unat_eq_zero)

lemma digits_val_snoc_ge:
  assumes "d \<noteq> 0"
  shows "RADIX ^ length ds \<le> digits_val (ds @ [d])"
proof -
  have "RADIX ^ length ds \<le> RADIX ^ length ds * unat d"
    using assms by (simp add: unat_gt_0 Suc_le_eq)
  then have "RADIX ^ length ds \<le> digits_val ds + RADIX ^ length ds * unat d"
    by (rule trans_le_add2)
  then show ?thesis
    by (simp add: digits_val_append)
qed

subsection \<open>Digit arithmetic\<close>

lemma unat_ACCUM: "unat (ACCUM w) = unat w mod RADIX"
proof -
  have "(0xFFFF :: mw_mp_word) = mask 16"
    by (simp add: mask_eq_exp_minus_1)
  then have "w AND 0xFFFF = take_bit 16 w"
    by (simp add: take_bit_eq_mask)
  then show ?thesis
    by (simp add: ACCUM_def unsigned_ucast_eq unsigned_take_bit_eq) (simp add: take_bit_eq_mod)
qed

lemma unat_CARRYOUT: "unat (CARRYOUT w) = unat w div RADIX"
  by (simp add: CARRYOUT_def drop_bit_eq_div unat_div)

lemma CARRYOUT_less [simp]: "unat (CARRYOUT w) < RADIX"
  unfolding unat_CARRYOUT by (rule less_mult_imp_div_less) (use unsigned_less [of w] in simp)

lemma word_split: "unat (ACCUM w) + RADIX * unat (CARRYOUT w) = unat w"
  by (simp add: unat_ACCUM unat_CARRYOUT)

lemma CARRYOUT_eq_0: "CARRYOUT w = 0 \<longleftrightarrow> unat w < RADIX"
  by (simp add: unat_eq_zero [symmetric] unat_CARRYOUT div_eq_0_iff)

lemma unat_word_of_digit [simp]: "unat (ucast (d :: mw_mp_digit) :: mw_mp_word) = unat d"
  by (simp add: unsigned_ucast_eq) (simp add: take_bit_nat_eq_self_iff order.strict_trans [OF digit_less])

lemma unat_digit_of_word: "unat (k :: mw_mp_word) < RADIX \<Longrightarrow> unat (ucast k :: mw_mp_digit) = unat k"
  by (simp add: unsigned_ucast_eq take_bit_nat_eq_self_iff)

lemma unat_plus_word: "unat (x :: mw_mp_word) + unat y < 2 ^ 32 \<Longrightarrow> unat (x + y) = unat x + unat y"
  by (simp add: unat_word_ariths)

lemma unat_digit_plus:
  assumes "unat k < RADIX"
  shows "unat (ucast (x :: mw_mp_digit) + k :: mw_mp_word) = unat x + unat k"
proof -
  have "unat x + unat k < 4294967296"
    using digit_less [of x] assms by linarith
  then show ?thesis
    by (simp add: unat_plus_word)
qed

lemma unat_times_digits:
  "unat (ucast (x :: mw_mp_digit) * ucast (y :: mw_mp_digit) :: mw_mp_word) = unat x * unat y"
proof -
  have "unat x * unat y \<le> 65535 * 65535"
    by (intro mult_mono) simp_all
  then show ?thesis
    by (simp add: unat_word_ariths)
qed

section \<open>The invariant of numbers\<close>

definition mp_ok :: "mw_mp_int \<Rightarrow> bool" where
  "mp_ok a \<longleftrightarrow> 1 \<le> mp_used a \<and> mp_used a \<le> ALLOC a \<and> list_all (\<lambda>d. d = 0) (drop (mp_used a) (mp_dp a))"

definition mp_clamped :: "mw_mp_int \<Rightarrow> bool" where
  "mp_clamped a \<longleftrightarrow> mp_used a = 1 \<or> DIGIT a (mp_used a - 1) \<noteq> 0"

definition mp_val :: "mw_mp_int \<Rightarrow> nat" where
  "mp_val a = digits_val (mp_dp a)"

definition mp_num :: "mw_mp_int \<Rightarrow> int" where
  "mp_num a = (if mp_neg a then - int (mp_val a) else int (mp_val a))"

text \<open>
  The form every public operation leaves its results in: no leading zeroes, and zero is not
  negative.
\<close>

definition mp_wf :: "mw_mp_int \<Rightarrow> bool" where
  "mp_wf a \<longleftrightarrow> mp_ok a \<and> mp_clamped a \<and> (mp_neg a \<longrightarrow> mp_val a \<noteq> 0)"

lemma all_zero_replicate: "list_all (\<lambda>d. d = 0) ds \<Longrightarrow> ds = replicate (length ds) 0"
  by (induction ds) simp_all

lemma mp_okD:
  assumes "mp_ok a"
  shows "1 \<le> mp_used a" "mp_used a \<le> ALLOC a"
    "mp_dp a = take (mp_used a) (mp_dp a) @ replicate (ALLOC a - mp_used a) 0"
proof -
  show "1 \<le> mp_used a" "mp_used a \<le> ALLOC a"
    using assms by (simp_all add: mp_ok_def)
  have "drop (mp_used a) (mp_dp a) = replicate (ALLOC a - mp_used a) 0"
    using assms all_zero_replicate [of "drop (mp_used a) (mp_dp a)"] by (simp add: mp_ok_def)
  then show "mp_dp a = take (mp_used a) (mp_dp a) @ replicate (ALLOC a - mp_used a) 0"
    by (metis append_take_drop_id)
qed

lemma mp_ok_drop: "mp_ok a \<Longrightarrow> drop (mp_used a) (mp_dp a) = replicate (ALLOC a - mp_used a) 0"
  using all_zero_replicate [of "drop (mp_used a) (mp_dp a)"] by (simp add: mp_ok_def)

lemma mp_okI:
  assumes "mp_dp a = ds @ replicate n 0" "length ds = mp_used a" "1 \<le> mp_used a"
  shows "mp_ok a"
  using assms by (simp add: mp_ok_def list_all_iff)

lemma mp_val_digits: "mp_ok a \<Longrightarrow> mp_val a = digits_val (take (mp_used a) (mp_dp a))"
  by (metis digits_val_append_zeros mp_okD(3) mp_val_def)

lemma mp_val_less: "mp_ok a \<Longrightarrow> mp_val a < RADIX ^ mp_used a"
  by (simp add: mp_val_digits digits_val_less_power)

lemma mp_val_less_power: "mp_ok a \<Longrightarrow> mp_used a \<le> n \<Longrightarrow> mp_val a < RADIX ^ n"
  by (simp add: mp_val_digits digits_val_less_power)

lemma mp_val_ge:
  assumes "mp_ok a" "mp_clamped a" "1 < mp_used a"
  shows "RADIX ^ (mp_used a - 1) \<le> mp_val a"
proof -
  obtain n where n: "mp_used a = Suc n"
    using assms(3) by (cases "mp_used a") simp_all
  have "n < ALLOC a"
    using mp_okD(2) [OF assms(1)] n by simp
  then have "take (mp_used a) (mp_dp a) = take n (mp_dp a) @ [DIGIT a n]"
    by (simp add: n take_Suc_conv_app_nth)
  moreover have "DIGIT a n \<noteq> 0"
    using assms(2, 3) by (simp add: mp_clamped_def n)
  ultimately show ?thesis
    using digits_val_snoc_ge [of "DIGIT a n" "take n (mp_dp a)"] \<open>n < ALLOC a\<close>
    by (simp add: mp_val_digits [OF assms(1)] n)
qed

lemma mp_val_one_digit: "mp_ok a \<Longrightarrow> mp_used a = 1 \<Longrightarrow> mp_val a = unat (DIGIT a 0)"
  by (cases "mp_dp a") (simp_all add: mp_val_digits mp_ok_def)

lemma mp_val_eq_0: "mp_ok a \<Longrightarrow> mp_clamped a \<Longrightarrow> mp_val a = 0 \<longleftrightarrow> mp_used a = 1 \<and> DIGIT a 0 = 0"
proof (cases "mp_used a = 1")
  case False
  assume "mp_ok a" "mp_clamped a"
  then have "RADIX ^ (mp_used a - 1) \<le> mp_val a"
    using mp_okD(1) [OF \<open>mp_ok a\<close>] False by (intro mp_val_ge) simp_all
  moreover have "0 < RADIX ^ (mp_used a - 1)" by simp
  ultimately show ?thesis
    using False by linarith
qed (simp add: mp_val_one_digit unat_eq_zero)

lemma mp_clampedI:
  assumes "mp_ok a" "1 < mp_used a \<Longrightarrow> RADIX ^ (mp_used a - 1) \<le> mp_val a"
  shows "mp_clamped a"
proof (rule ccontr)
  assume "\<not> mp_clamped a"
  then have top: "1 < mp_used a" "DIGIT a (mp_used a - 1) = 0"
    using mp_okD(1) [OF assms(1)] by (simp_all add: mp_clamped_def)
  have "take (mp_used a) (mp_dp a) = take (mp_used a - 1) (mp_dp a) @ [0]"
    using top mp_okD(2) [OF assms(1)] take_Suc_conv_app_nth [of "mp_used a - 1" "mp_dp a"] by simp
  then have "mp_val a < RADIX ^ (mp_used a - 1)"
    using mp_val_digits [OF assms(1)] by (simp add: digits_val_append digits_val_less_power)
  then show False
    using assms(2) [OF top(1)] by simp
qed

lemma mp_used_le_iff:
  assumes "mp_ok a" "mp_clamped a" "1 \<le> n"
  shows "mp_used a \<le> n \<longleftrightarrow> mp_val a < RADIX ^ n"
proof
  assume "mp_used a \<le> n"
  then show "mp_val a < RADIX ^ n"
    using mp_val_less [OF assms(1)] power_increasing [of "mp_used a" n RADIX] by (simp add: less_le_trans)
next
  assume less: "mp_val a < RADIX ^ n"
  show "mp_used a \<le> n"
  proof (rule ccontr)
    assume "\<not> mp_used a \<le> n"
    then have "RADIX ^ n \<le> RADIX ^ (mp_used a - 1)" "1 < mp_used a"
      using assms(3) by (simp_all add: power_increasing)
    then show False
      using mp_val_ge [OF assms(1, 2)] less by linarith
  qed
qed

lemma mp_wfD: "mp_wf a \<Longrightarrow> mp_ok a" "mp_wf a \<Longrightarrow> mp_clamped a" "mp_wf a \<Longrightarrow> mp_neg a \<Longrightarrow> 0 < mp_val a"
  by (simp_all add: mp_wf_def)

lemma mp_num_val: "mp_val a = nat \<bar>mp_num a\<bar>"
  by (simp add: mp_num_def)

lemma mp_num_pos [simp]: "\<not> mp_neg a \<Longrightarrow> mp_num a = int (mp_val a)"
  by (simp add: mp_num_def)

subsection \<open>Memory\<close>

lemma mw_mp_init_size_ok [simp]:
  assumes "0 < n"
  shows "mp_wf (mw_mp_init_size n)" "mp_val (mw_mp_init_size n) = 0"
  using assms by (simp_all add: mw_mp_init_size_def mp_wf_def mp_ok_def mp_clamped_def mp_val_def list_all_iff)

lemma mw_mp_init_size_sel [simp]:
  "mp_neg (mw_mp_init_size n) = False" "mp_used (mw_mp_init_size n) = 1" "ALLOC (mw_mp_init_size n) = n"
  by (simp_all add: mw_mp_init_size_def)

lemma mw_mp_init_ok [simp]: "mp_wf mw_mp_init" "mp_val mw_mp_init = 0" "mp_neg mw_mp_init = False"
  by (simp_all add: mw_mp_init_def)

lemma copied:
  assumes "mp_ok a"
  shows "mp_ok \<lparr>mp_neg = s, mp_used = mp_used a, mp_dp = take (mp_used a) (mp_dp a) @ replicate n 0\<rparr>"
    and "mp_val \<lparr>mp_neg = s, mp_used = mp_used a, mp_dp = take (mp_used a) (mp_dp a) @ replicate n 0\<rparr> = mp_val a"
    and "mp_clamped \<lparr>mp_neg = s, mp_used = mp_used a, mp_dp = take (mp_used a) (mp_dp a) @ replicate n 0\<rparr> \<longleftrightarrow> mp_clamped a"
proof -
  have used: "1 \<le> mp_used a" "mp_used a \<le> ALLOC a"
    by (rule mp_okD [OF assms])+
  show "mp_ok \<lparr>mp_neg = s, mp_used = mp_used a, mp_dp = take (mp_used a) (mp_dp a) @ replicate n 0\<rparr>"
    using used by (intro mp_okI [of _ "take (mp_used a) (mp_dp a)" n]) simp_all
  show "mp_val \<lparr>mp_neg = s, mp_used = mp_used a, mp_dp = take (mp_used a) (mp_dp a) @ replicate n 0\<rparr> = mp_val a"
    by (simp add: mp_val_digits [OF assms]) (simp add: mp_val_def)
  show "mp_clamped \<lparr>mp_neg = s, mp_used = mp_used a, mp_dp = take (mp_used a) (mp_dp a) @ replicate n 0\<rparr> \<longleftrightarrow> mp_clamped a"
    using used by (simp add: mp_clamped_def nth_append)
qed

lemma mw_mp_copy_alt:
  "mw_mp_copy a b = \<lparr>mp_neg = mp_neg a, mp_used = mp_used a,
     mp_dp = take (mp_used a) (mp_dp a) @ replicate (ALLOC b - mp_used a) 0\<rparr>"
  by (simp add: mw_mp_copy_def)

lemma mw_mp_init_copy_alt:
  "mw_mp_init_copy a = \<lparr>mp_neg = mp_neg a, mp_used = mp_used a, mp_dp = take (mp_used a) (mp_dp a) @ replicate 0 0\<rparr>"
  by (simp add: mw_mp_init_copy_def)

lemma mw_mp_copy_ok [simp]:
  assumes "mp_ok a"
  shows "mp_ok (mw_mp_copy a b)" "mp_val (mw_mp_copy a b) = mp_val a" "mp_clamped (mw_mp_copy a b) = mp_clamped a"
  unfolding mw_mp_copy_alt by (rule copied [OF assms])+

lemma mw_mp_init_copy_ok [simp]:
  assumes "mp_ok a"
  shows "mp_ok (mw_mp_init_copy a)" "mp_val (mw_mp_init_copy a) = mp_val a" "mp_clamped (mw_mp_init_copy a) = mp_clamped a"
  unfolding mw_mp_init_copy_alt by (rule copied [OF assms])+

lemma copy_sel [simp]:
  "mp_neg (mw_mp_copy a b) = mp_neg a" "mp_used (mw_mp_copy a b) = mp_used a"
  "mp_neg (mw_mp_init_copy a) = mp_neg a" "mp_used (mw_mp_init_copy a) = mp_used a"
  by (simp_all add: mw_mp_copy_def mw_mp_init_copy_def)

lemma copy_wf [simp]: "mp_wf a \<Longrightarrow> mp_wf (mw_mp_copy a b)" "mp_wf a \<Longrightarrow> mp_wf (mw_mp_init_copy a)"
  by (simp_all add: mp_wf_def)

lemma copy_num [simp]:
  "mp_ok a \<Longrightarrow> mp_num (mw_mp_copy a b) = mp_num a" "mp_ok a \<Longrightarrow> mp_num (mw_mp_init_copy a) = mp_num a"
  by (simp_all add: mp_num_def)

text \<open>Copying a number onto itself is skipped by the code; it would not change the number.\<close>

lemma mw_mp_copy_same: "mp_ok a \<Longrightarrow> mw_mp_copy a a = a"
  using mp_okD(3) [of a] by (simp add: mw_mp_copy_alt)

lemma mw_mp_zero_ok [simp]:
  assumes "mp_ok a"
  shows "mp_wf (mw_mp_zero a)" "mp_val (mw_mp_zero a) = 0" "mp_neg (mw_mp_zero a) = False"
  using mp_okD(1, 2) [OF assms]
  by (simp_all add: mw_mp_zero_def mp_wf_def mp_ok_def mp_clamped_def mp_val_def list_all_iff)

lemma mw_mp_set_ok [simp]:
  assumes "mp_ok a"
  shows "mp_wf (mw_mp_set a d)" "mp_val (mw_mp_set a d) = unat d" "mp_neg (mw_mp_set a d) = False"
proof -
  obtain n where n: "ALLOC a = Suc n"
    using mp_okD(1, 2) [OF assms] by (cases "ALLOC a") simp_all
  show "mp_wf (mw_mp_set a d)" "mp_val (mw_mp_set a d) = unat d" "mp_neg (mw_mp_set a d) = False"
    by (simp_all add: mw_mp_set_def mw_mp_zero_def n mp_wf_def mp_ok_def mp_clamped_def mp_val_def list_all_iff)
qed

lemma block_round: "n \<le> (n + (MP_DEFPREC - 1)) div MP_DEFPREC * MP_DEFPREC"
  by simp

lemma s_mw_mp_grow_alt:
  assumes "mp_ok a"
  obtains k where "s_mw_mp_grow a n = a\<lparr>mp_dp := take (mp_used a) (mp_dp a) @ replicate k 0\<rparr>" "n \<le> mp_used a + k"
proof (cases "ALLOC a < n")
  case True
  define n' where "n' = (n + (MP_DEFPREC - 1)) div MP_DEFPREC * MP_DEFPREC"
  have "n \<le> n'"
    unfolding n'_def by (rule block_round)
  moreover have "s_mw_mp_grow a n = a\<lparr>mp_dp := take (mp_used a) (mp_dp a) @ replicate (n' - mp_used a) 0\<rparr>"
    using True by (simp add: s_mw_mp_grow_def n'_def Let_def)
  ultimately show ?thesis
    using that [of "n' - mp_used a"] mp_okD(2) [OF assms] True by simp
next
  case False
  have "s_mw_mp_grow a n = a\<lparr>mp_dp := mp_dp a\<rparr>"
    using False by (simp add: s_mw_mp_grow_def)
  then have "s_mw_mp_grow a n = a\<lparr>mp_dp := take (mp_used a) (mp_dp a) @ replicate (ALLOC a - mp_used a) 0\<rparr>"
    using mp_okD(3) [OF assms] by metis
  then show ?thesis
    using that [of "ALLOC a - mp_used a"] False mp_okD(2) [OF assms] by simp
qed

lemma s_mw_mp_grow_ok:
  assumes "mp_ok a"
  shows "mp_ok (s_mw_mp_grow a n)" "mp_val (s_mw_mp_grow a n) = mp_val a"
    "mp_neg (s_mw_mp_grow a n) = mp_neg a" "mp_used (s_mw_mp_grow a n) = mp_used a" "n \<le> ALLOC (s_mw_mp_grow a n)"
    "take (mp_used a) (mp_dp (s_mw_mp_grow a n)) = take (mp_used a) (mp_dp a)"
proof -
  obtain k where k: "s_mw_mp_grow a n = a\<lparr>mp_dp := take (mp_used a) (mp_dp a) @ replicate k 0\<rparr>" "n \<le> mp_used a + k"
    using s_mw_mp_grow_alt [OF assms] by metis
  have used: "1 \<le> mp_used a" "mp_used a \<le> ALLOC a"
    by (rule mp_okD [OF assms])+
  show "mp_ok (s_mw_mp_grow a n)"
    using used by (intro mp_okI [of _ "take (mp_used a) (mp_dp a)" k]) (simp_all add: k(1))
  show "mp_val (s_mw_mp_grow a n) = mp_val a"
    by (simp add: mp_val_digits [OF assms] k(1)) (simp add: mp_val_def)
  show "n \<le> ALLOC (s_mw_mp_grow a n)"
    using used k(2) by (simp add: k(1))
qed (use assms in \<open>simp_all add: s_mw_mp_grow_def Let_def mp_okD(2)\<close>)

lemma s_mw_mp_pad_ok:
  assumes "mp_ok a"
  shows "mp_ok (s_mw_mp_pad a n)" "mp_val (s_mw_mp_pad a n) = mp_val a"
    "mp_neg (s_mw_mp_pad a n) = mp_neg a" "mp_used (s_mw_mp_pad a n) = max n (mp_used a)"
    "take (mp_used a) (mp_dp (s_mw_mp_pad a n)) = take (mp_used a) (mp_dp a)"
proof -
  define b where "b = (if ALLOC a < n then s_mw_mp_grow a n else a)"
  have b: "mp_ok b" "mp_val b = mp_val a" "mp_used b = mp_used a" "n \<le> ALLOC b"
    using assms by (auto simp: b_def s_mw_mp_grow_ok)
  have pad: "s_mw_mp_pad a n = (if mp_used a < n then b\<lparr>mp_used := n\<rparr> else a)"
    by (simp add: s_mw_mp_pad_def b_def)
  have "list_all (\<lambda>d. d = 0) (drop n (mp_dp b))" if "mp_used a < n"
    using b(1, 3) that set_drop_subset_set_drop [of "mp_used a" n "mp_dp b"] by (auto simp: mp_ok_def list_all_iff)
  then show "mp_ok (s_mw_mp_pad a n)"
    using assms b(4) by (auto simp: pad mp_ok_def)
  show "mp_val (s_mw_mp_pad a n) = mp_val a"
    using b(2) by (simp add: pad mp_val_def)
  show "mp_neg (s_mw_mp_pad a n) = mp_neg a" "mp_used (s_mw_mp_pad a n) = max n (mp_used a)"
    "take (mp_used a) (mp_dp (s_mw_mp_pad a n)) = take (mp_used a) (mp_dp a)"
    using assms by (simp_all add: pad b_def s_mw_mp_grow_ok max_def)
qed

lemma clamp_used_bounds:
  assumes "1 \<le> du"
  shows "1 \<le> clamp_used dp du \<and> clamp_used dp du \<le> du
    \<and> (clamp_used dp du = 1 \<or> dp ! (clamp_used dp du - 1) \<noteq> 0)
    \<and> (\<forall>i. clamp_used dp du \<le> i \<and> i < du \<longrightarrow> dp ! i = 0)"
  using assms
proof (induction dp du rule: clamp_used.induct)
  case (1 dp du)
  show ?case
  proof (cases "1 < du \<and> dp ! (du - 1) = 0")
    case True
    define n where "n = clamp_used dp (du - 1)"
    have IH: "1 \<le> n \<and> n \<le> du - 1 \<and> (n = 1 \<or> dp ! (n - 1) \<noteq> 0) \<and> (\<forall>i. n \<le> i \<and> i < du - 1 \<longrightarrow> dp ! i = 0)"
      unfolding n_def by (rule 1(1) [OF True]) (use True in linarith)
    have "dp ! i = 0" if "n \<le> i" "i < du" for i
      using IH that True by (cases "i = du - 1") auto
    moreover have "clamp_used dp du = n"
      unfolding n_def using True by (subst clamp_used.simps) simp
    ultimately show ?thesis
      using IH by auto
  next
    case False
    then have "clamp_used dp du = du"
      by (subst clamp_used.simps) auto
    then show ?thesis
      using False 1(2) by auto
  qed
qed

lemma s_mw_mp_clamp_ok:
  assumes "mp_ok a"
  shows "mp_wf (s_mw_mp_clamp a)" "mp_val (s_mw_mp_clamp a) = mp_val a"
    "mp_neg (s_mw_mp_clamp a) \<longleftrightarrow> mp_neg a \<and> 0 < mp_val a" "mp_dp (s_mw_mp_clamp a) = mp_dp a"
proof -
  define du where "du = clamp_used (mp_dp a) (mp_used a)"
  have du: "1 \<le> du" "du \<le> mp_used a" "du = 1 \<or> DIGIT a (du - 1) \<noteq> 0"
    "\<And>i. du \<le> i \<Longrightarrow> i < mp_used a \<Longrightarrow> DIGIT a i = 0"
    using clamp_used_bounds [of "mp_used a" "mp_dp a"] mp_okD(1) [OF assms] by (auto simp: du_def)
  have zero: "DIGIT a i = 0" if "du \<le> i" "i < ALLOC a" for i
  proof (cases "i < mp_used a")
    case False
    then show ?thesis
      using assms that nth_mem [of "i - mp_used a" "drop (mp_used a) (mp_dp a)"] by (simp add: mp_ok_def list_all_iff)
  qed (use that du(4) in blast)
  have "list_all (\<lambda>d. d = 0) (drop du (mp_dp a))"
    using zero by (auto simp: list_all_iff in_set_conv_nth)
  then have ok: "mp_ok (s_mw_mp_clamp a)"
    using du(1, 2) mp_okD(2) [OF assms] by (simp add: mp_ok_def s_mw_mp_clamp_def Let_def du_def)
  have clamped: "mp_clamped (s_mw_mp_clamp a)"
    using du(3) by (simp add: mp_clamped_def s_mw_mp_clamp_def Let_def du_def)
  show val: "mp_val (s_mw_mp_clamp a) = mp_val a"
    by (simp add: mp_val_def s_mw_mp_clamp_def Let_def)
  have used: "mp_used (s_mw_mp_clamp a) = du"
    by (simp add: s_mw_mp_clamp_def Let_def du_def)
  show neg: "mp_neg (s_mw_mp_clamp a) \<longleftrightarrow> mp_neg a \<and> 0 < mp_val a"
    using mp_val_eq_0 [OF ok clamped] val used by (auto simp: s_mw_mp_clamp_def Let_def du_def)
  show "mp_wf (s_mw_mp_clamp a)"
    using ok clamped neg val by (simp add: mp_wf_def)
  show "mp_dp (s_mw_mp_clamp a) = mp_dp a"
    by (simp add: s_mw_mp_clamp_def Let_def)
qed

lemma s_mw_mp_clamp_num: "mp_ok a \<Longrightarrow> mp_num (s_mw_mp_clamp a) = mp_num a"
  by (simp add: mp_num_def s_mw_mp_clamp_ok)

subsection \<open>Shifts by digits\<close>

lemma s_mw_mp_lshd_ok:
  assumes "mp_ok a"
  shows "mp_ok (s_mw_mp_lshd a p)" "mp_val (s_mw_mp_lshd a p) = mp_val a * RADIX ^ p"
    "mp_neg (s_mw_mp_lshd a p) = mp_neg a" "mp_used (s_mw_mp_lshd a p) = mp_used a + p"
    "0 < p \<Longrightarrow> DIGIT (s_mw_mp_lshd a p) 0 = 0"
proof -
  define b where "b = s_mw_mp_pad a (mp_used a + p)"
  have b: "mp_ok b" "mp_neg b = mp_neg a" "mp_used b = mp_used a + p"
    "take (mp_used a) (mp_dp b) = take (mp_used a) (mp_dp a)"
    using s_mw_mp_pad_ok [OF assms, of "mp_used a + p"] by (simp_all add: b_def)
  define r where "r = replicate p 0 @ take (mp_used a) (mp_dp a)"
  have len: "length r = mp_used a + p"
    using mp_okD(2) [OF assms] by (simp add: r_def)
  have lshd: "s_mw_mp_lshd a p = b\<lparr>mp_dp := r @ replicate (ALLOC b - mp_used b) 0\<rparr>"
  proof (cases "p = 0")
    case True
    have "a = a\<lparr>mp_dp := take (mp_used a) (mp_dp a) @ replicate (ALLOC a - mp_used a) 0\<rparr>"
      using mp_okD(3) [OF assms] by simp
    then show ?thesis
      using True by (simp add: s_mw_mp_lshd_def b_def r_def s_mw_mp_pad_def)
  next
    case False
    then show ?thesis
      using b(3, 4) mp_ok_drop [OF b(1)] by (simp add: s_mw_mp_lshd_def r_def Let_def flip: b_def)
  qed
  show "mp_ok (s_mw_mp_lshd a p)"
    using mp_okD(1) [OF assms] by (intro mp_okI [of _ r]) (simp_all add: lshd len b(3))
  show "mp_val (s_mw_mp_lshd a p) = mp_val a * RADIX ^ p"
    by (simp add: mp_val_digits [OF assms] lshd) (simp add: mp_val_def r_def digits_val_append)
  show "mp_neg (s_mw_mp_lshd a p) = mp_neg a" "mp_used (s_mw_mp_lshd a p) = mp_used a + p"
    using b(2, 3) by (simp_all add: lshd)
  show "DIGIT (s_mw_mp_lshd a p) 0 = 0" if "0 < p"
    using that by (simp add: lshd r_def nth_append)
qed

lemma s_mw_mp_rshd_ok:
  assumes "mp_ok a"
  shows "mp_ok (s_mw_mp_rshd a p)" "mp_val (s_mw_mp_rshd a p) = mp_val a div RADIX ^ p"
    "mp_clamped a \<Longrightarrow> mp_clamped (s_mw_mp_rshd a p)"
    "0 < p \<Longrightarrow> mp_wf (s_mw_mp_rshd a p)"
    "\<not> mp_neg a \<Longrightarrow> \<not> mp_neg (s_mw_mp_rshd a p)"
proof -
  have used: "1 \<le> mp_used a" "mp_used a \<le> ALLOC a"
    by (rule mp_okD [OF assms])+
  consider "p = 0" | "0 < p" "mp_used a \<le> p" | "0 < p" "p < mp_used a" by linarith
  then have "mp_ok (s_mw_mp_rshd a p) \<and> mp_val (s_mw_mp_rshd a p) = mp_val a div RADIX ^ p
    \<and> (mp_clamped a \<longrightarrow> mp_clamped (s_mw_mp_rshd a p)) \<and> (0 < p \<longrightarrow> mp_wf (s_mw_mp_rshd a p))
    \<and> (\<not> mp_neg a \<longrightarrow> \<not> mp_neg (s_mw_mp_rshd a p))"
  proof cases
    case 1
    then show ?thesis using assms by (simp add: s_mw_mp_rshd_def)
  next
    case 2
    have "mp_val a < RADIX ^ p"
      by (rule mp_val_less_power [OF assms 2(2)])
    then have "mp_val a div RADIX ^ p = 0" by simp
    moreover have "s_mw_mp_rshd a p = mw_mp_zero a"
      using 2 by (simp add: s_mw_mp_rshd_def mw_mp_zero_def)
    ultimately show ?thesis
      using mw_mp_zero_ok [OF assms] by (simp add: mp_wf_def)
  next
    case 3
    define b where "b = a\<lparr>mp_dp := drop p (take (mp_used a) (mp_dp a)) @ replicate p 0 @ drop (mp_used a) (mp_dp a)\<rparr>"
    have dp: "mp_dp b = (drop p (take (mp_used a) (mp_dp a)) @ replicate p 0) @ replicate (ALLOC a - mp_used a) 0"
      by (simp add: b_def mp_ok_drop [OF assms])
    have "mp_ok b"
      using used 3 by (intro mp_okI [OF dp]) (simp_all add: b_def)
    moreover have "mp_val b = mp_val a div RADIX ^ p"
      by (simp add: mp_val_digits [OF assms]) (simp only: mp_val_def dp digits_val_append_zeros digits_val_drop)
    moreover have "s_mw_mp_rshd a p = s_mw_mp_clamp b"
      using 3 by (simp add: s_mw_mp_rshd_def b_def)
    ultimately show ?thesis
      using s_mw_mp_clamp_ok [of b] by (auto simp: mp_wf_def b_def)
  qed
  then show "mp_ok (s_mw_mp_rshd a p)" "mp_val (s_mw_mp_rshd a p) = mp_val a div RADIX ^ p"
    "mp_clamped a \<Longrightarrow> mp_clamped (s_mw_mp_rshd a p)" "0 < p \<Longrightarrow> mp_wf (s_mw_mp_rshd a p)"
    "\<not> mp_neg a \<Longrightarrow> \<not> mp_neg (s_mw_mp_rshd a p)"
    by blast+
qed

subsection \<open>Shifts by bits\<close>

lemma word_mask: "(push_bit d 1 - 1 :: mw_mp_digit) = mask d"
  by (simp add: mask_eq_exp_minus_1 push_bit_eq_mult)

lemma digit_and_mask: "unat ((x :: mw_mp_digit) AND (push_bit d 1 - 1)) = unat x mod 2 ^ d"
  unfolding word_mask
  by (simp add: unsigned_take_bit_eq flip: take_bit_eq_mask) (simp add: take_bit_eq_mod)

lemma unat_drop_digit: "unat (drop_bit d (x :: mw_mp_digit)) = unat x div 2 ^ d"
  unfolding unsigned_drop_bit_eq by (simp add: drop_bit_eq_div take_bit_nat_eq_self)

lemma digit_high_bits:
  assumes "d \<le> 16"
  shows "unat (drop_bit (DIGIT_BIT - d) (x :: mw_mp_digit) AND (push_bit d 1 - 1)) = unat x div 2 ^ (16 - d)"
proof -
  have "2 ^ d * 2 ^ (16 - d) = (RADIX :: nat)"
    using assms by (simp flip: power_add)
  then have "unat x div 2 ^ (16 - d) < 2 ^ d"
    using digit_less [of x] by (simp add: less_mult_imp_div_less)
  then show ?thesis
    unfolding digit_and_mask unat_drop_digit by (rule mod_less)
qed

lemma unat_push_or:
  assumes "d \<le> 16" "unat (s :: mw_mp_digit) < 2 ^ d"
  shows "unat (push_bit d (x :: mw_mp_digit) OR s) = unat x * 2 ^ d mod RADIX + unat s"
proof -
  have s: "\<not> bit s n" if "d \<le> n" for n
  proof -
    have "(2 :: nat) ^ d \<le> 2 ^ n"
      using that by simp
    then have "unat s div 2 ^ n = 0"
      using assms(2) by (intro div_less) linarith
    then have "\<not> bit (unat s) n"
      by (simp add: bit_iff_odd)
    then show ?thesis
      by (simp add: bit_unsigned_iff)
  qed
  have or: "push_bit d x OR s = push_bit d x + s"
    by (rule disjunctive_add [symmetric]) (auto simp: bit_simps s)
  have p: "unat (push_bit d x) = unat x * 2 ^ d mod RADIX"
    unfolding unsigned_push_bit_eq by (simp add: push_bit_eq_mult take_bit_eq_mod)
  have "unat x * 2 ^ d mod RADIX = 2 ^ d * (unat x mod 2 ^ (16 - d))"
    using mult_mod_right [of "2 ^ d" "unat x" "2 ^ (16 - d)"] assms(1) by (simp add: mult.commute flip: power_add)
  also have "\<dots> + unat s < 2 ^ d * Suc (unat x mod 2 ^ (16 - d))"
    using assms(2) by simp
  also have "\<dots> \<le> 2 ^ d * 2 ^ (16 - d)"
    by (rule mult_le_mono2) (simp add: Suc_le_eq)
  also have "\<dots> = RADIX"
    using assms(1) by (simp flip: power_add)
  finally show ?thesis
    by (simp add: or unat_word_ariths p)
qed

lemma shift_digit_split:
  assumes "d \<le> 16"
  shows "x * 2 ^ d mod RADIX + RADIX * (x div 2 ^ (16 - d)) = x * 2 ^ d"
proof -
  have "(2 :: nat) ^ d * 2 ^ (16 - d) = RADIX"
    using assms by (simp flip: power_add)
  then have "x * 2 ^ d div RADIX = x div 2 ^ (16 - d)"
    by (metis div_mult_mult1 mult.commute power_not_zero zero_neq_numeral)
  then show ?thesis
    using mod_mult_div_eq [of "x * 2 ^ d" RADIX] by simp
qed

lemma mul_2d_loop_val:
  assumes "d < 16" "unat save < 2 ^ d" "mul_2d_loop d save xs = (ys, save')"
  shows "length ys = length xs \<and> unat save' < 2 ^ d
    \<and> digits_val ys + RADIX ^ length xs * unat save' = digits_val xs * 2 ^ d + unat save"
  using assms(2, 3)
proof (induction xs arbitrary: save ys)
  case (Cons x xs)
  define carry where "carry = drop_bit (DIGIT_BIT - d) x AND (push_bit d 1 - 1 :: mw_mp_digit)"
  obtain zs where zs: "mul_2d_loop d carry xs = (zs, save')" "ys = (push_bit d x OR save) # zs"
    using Cons.prems(2) by (auto simp: Let_def carry_def split: prod.splits)
  have carry: "unat carry = unat x div 2 ^ (16 - d)"
    unfolding carry_def by (rule digit_high_bits) (use assms(1) in simp)
  moreover have "(2 :: nat) ^ d * 2 ^ (16 - d) = RADIX"
    using assms(1) by (simp flip: power_add)
  ultimately have "unat carry < 2 ^ d"
    using digit_less [of x] by (simp add: less_mult_imp_div_less)
  then have IH: "length zs = length xs" "unat save' < 2 ^ d"
    "digits_val zs + RADIX ^ length xs * unat save' = digits_val xs * 2 ^ d + unat carry"
    using Cons.IH [OF _ zs(1)] by simp_all
  have head: "unat (push_bit d x OR save) + RADIX * unat carry = unat x * 2 ^ d + unat save"
    using unat_push_or [of d save x] shift_digit_split [of d "unat x"] assms(1) Cons.prems(1) carry by simp
  have "digits_val ys + RADIX ^ length (x # xs) * unat save'
      = unat (push_bit d x OR save) + RADIX * (digits_val zs + RADIX ^ length xs * unat save')"
    by (simp add: zs(2) algebra_simps)
  also have "\<dots> = unat x * 2 ^ d + unat save + RADIX * (digits_val xs * 2 ^ d)"
    unfolding IH(3) using head by (simp add: distrib_left)
  finally show ?case
    using IH zs(2) by (simp add: algebra_simps)
qed simp

lemma mul_2_loop_eq: "mul_2_loop k xs = mul_2d_loop 1 k xs"
  by (induction xs arbitrary: k) (simp_all add: Let_def)

lemma div_2d_loop_val:
  assumes "d < 16" "div_2d_loop d xs = (ys, save)"
  shows "length ys = length xs \<and> digits_val ys = digits_val xs div 2 ^ d \<and> unat save = digits_val xs mod 2 ^ d"
  using assms(2)
proof (induction xs arbitrary: ys save)
  case (Cons x xs)
  obtain zs s where zs: "div_2d_loop d xs = (zs, s)" "ys = (drop_bit d x OR push_bit (DIGIT_BIT - d) s) # zs"
    "save = x AND (push_bit d 1 - 1)"
    using Cons.prems by (auto split: prod.splits)
  have IH: "length zs = length xs" "digits_val zs = digits_val xs div 2 ^ d" "unat s = digits_val xs mod 2 ^ d"
    using Cons.IH [OF zs(1)] by simp_all
  have B: "(2 :: nat) ^ d * 2 ^ (16 - d) = RADIX"
    using assms(1) by (simp flip: power_add)
  have "unat (drop_bit d x) < 2 ^ (16 - d)"
    using digit_less [of x] B by (simp only: unat_drop_digit) (metis less_mult_imp_div_less mult.commute)
  moreover have "unat s * 2 ^ (16 - d) < RADIX"
    using IH(3) B mult_less_mono1 [of "unat s" "2 ^ d" "2 ^ (16 - d)"] by simp
  ultimately have head: "unat (drop_bit d x OR push_bit (DIGIT_BIT - d) s) = unat x div 2 ^ d + 2 ^ (16 - d) * unat s"
    using unat_push_or [of "16 - d" "drop_bit d x" s] unat_drop_digit [of d x] by (simp only: or.commute) simp
  have V: "digits_val xs = 2 ^ d * (digits_val xs div 2 ^ d) + unat s"
    using IH(3) by simp
  have split: "digits_val (x # xs) = unat x + 2 ^ d * (2 ^ (16 - d) * digits_val xs)"
    using B by (simp flip: mult.assoc)
  have "digits_val (x # xs) div 2 ^ d = unat x div 2 ^ d + 2 ^ (16 - d) * digits_val xs"
    unfolding split by simp
  also have "\<dots> = unat x div 2 ^ d + 2 ^ (16 - d) * unat s + RADIX * (digits_val xs div 2 ^ d)"
    by (subst V) (simp only: distrib_left flip: mult.assoc B, simp add: algebra_simps)
  finally have "digits_val ys = digits_val (x # xs) div 2 ^ d"
    by (simp add: zs(2) head IH(2))
  moreover have "unat save = digits_val (x # xs) mod 2 ^ d"
    unfolding zs(3) digit_and_mask split by simp
  ultimately show ?case
    using IH(1) zs(2) by simp
qed simp

lemma mul_2d_loop_save:
  "xs \<noteq> [] \<Longrightarrow> snd (mul_2d_loop d save xs) = drop_bit (DIGIT_BIT - d) (last xs) AND (push_bit d 1 - 1)"
  by (induction d save xs rule: mul_2d_loop.induct) (auto simp: Let_def split: prod.splits)

lemma last_digit:
  assumes "mp_ok a"
  shows "take (mp_used a) (mp_dp a) \<noteq> []" "last (take (mp_used a) (mp_dp a)) = DIGIT a (mp_used a - 1)"
proof -
  show ne: "take (mp_used a) (mp_dp a) \<noteq> []"
    using mp_okD(1, 2) [OF assms] by auto
  show "last (take (mp_used a) (mp_dp a)) = DIGIT a (mp_used a - 1)"
    using mp_okD(1, 2) [OF assms] last_conv_nth [OF ne] by (simp add: min_absorb2)
qed

text \<open>Storing new digits over the used ones, possibly one more.\<close>

lemma store_digits:
  assumes "mp_ok a" "length ys = mp_used a"
  shows "mp_ok (a\<lparr>mp_dp := ys @ drop (mp_used a) (mp_dp a)\<rparr>)"
    "mp_val (a\<lparr>mp_dp := ys @ drop (mp_used a) (mp_dp a)\<rparr>) = digits_val ys"
  using assms mp_okD(1) [OF assms(1)] mp_ok_drop [OF assms(1)]
  by (auto intro: mp_okI simp: mp_val_def)

lemma store_digits_carry:
  fixes k :: mw_mp_digit
  assumes "mp_ok a" "length ys = mp_used a" "mp_used a < ALLOC a"
  defines "b \<equiv> a\<lparr>mp_dp := (ys @ drop (mp_used a) (mp_dp a))[mp_used a := k], mp_used := mp_used a + 1\<rparr>"
  shows "mp_ok b" "mp_val b = digits_val ys + RADIX ^ mp_used a * unat k"
proof -
  obtain n where n: "ALLOC a - mp_used a = Suc n"
    using assms(3) by (cases "ALLOC a - mp_used a") simp_all
  have dp: "mp_dp b = (ys @ [k]) @ replicate n 0"
    using mp_ok_drop [OF assms(1)] assms(2) n by (simp add: b_def list_update_append)
  show "mp_ok b"
    using assms(2) by (intro mp_okI [OF dp]) (simp_all add: b_def)
  show "mp_val b = digits_val ys + RADIX ^ mp_used a * unat k"
    unfolding mp_val_def dp digits_val_append_zeros by (simp add: digits_val_append assms(2))
qed

lemma store_digits_pad:
  assumes "mp_ok a" "length ys = mp_used a"
  defines "b \<equiv> s_mw_mp_pad (a\<lparr>mp_dp := ys @ drop (mp_used a) (mp_dp a)\<rparr>) (mp_used a + 1)"
  shows "mp_ok (b\<lparr>mp_dp := (mp_dp b)[mp_used a := k]\<rparr>)"
    "mp_val (b\<lparr>mp_dp := (mp_dp b)[mp_used a := k]\<rparr>) = digits_val ys + RADIX ^ mp_used a * unat k"
    "mp_used b = mp_used a + 1" "mp_neg b = mp_neg a"
proof -
  define c where "c = a\<lparr>mp_dp := ys @ drop (mp_used a) (mp_dp a)\<rparr>"
  have c: "mp_ok c" "mp_used c = mp_used a" "take (mp_used a) (mp_dp c) = ys" "mp_neg c = mp_neg a"
    using store_digits(1) [OF assms(1, 2)] assms(2) by (simp_all add: c_def)
  have b: "mp_ok b" "mp_used b = mp_used a + 1" "mp_neg b = mp_neg a" "take (mp_used a) (mp_dp b) = ys"
    "mp_val b = digits_val ys"
    using s_mw_mp_pad_ok [OF c(1), of "mp_used a + 1"] c mp_val_digits [OF c(1)]
    unfolding b_def c_def [symmetric] by (simp_all add: max_def)
  have less: "mp_used a < ALLOC b"
    using mp_okD(2) [OF b(1)] b(2) by simp
  have "take (mp_used b) (mp_dp b) = ys @ [DIGIT b (mp_used a)]"
    using less b(2, 4) by (simp add: take_Suc_conv_app_nth)
  then have "digits_val ys = digits_val ys + RADIX ^ mp_used a * unat (DIGIT b (mp_used a))"
    using mp_val_digits [OF b(1)] b(5) assms(2) by (simp add: digits_val_append)
  then have zero: "unat (DIGIT b (mp_used a)) = 0" by simp
  then show "mp_val (b\<lparr>mp_dp := (mp_dp b)[mp_used a := k]\<rparr>) = digits_val ys + RADIX ^ mp_used a * unat k"
    using digits_val_update [OF less, of k] b(5) by (simp add: mp_val_def)
  show "mp_ok (b\<lparr>mp_dp := (mp_dp b)[mp_used a := k]\<rparr>)"
    using b(1, 2) by (simp add: mp_ok_def)
qed (use s_mw_mp_pad_ok(3, 4) [OF store_digits(1) [OF assms(1, 2)], of "mp_used a + 1"] in \<open>simp_all add: b_def max_def\<close>)

lemma two_power_digit: "(2 :: nat) ^ n = RADIX ^ (n div 16) * 2 ^ (n mod 16)"
proof -
  have "(2 :: nat) ^ (16 * (n div 16) + n mod 16) = RADIX ^ (n div 16) * 2 ^ (n mod 16)"
    unfolding power_add power_mult by simp
  then show ?thesis
    by (simp only: mult_div_mod_eq)
qed

lemma s_mw_mp_mul_2d_ok:
  assumes "mp_ok a"
  shows "mp_wf (s_mw_mp_mul_2d a d)" "mp_val (s_mw_mp_mul_2d a d) = mp_val a * 2 ^ unat d"
    "mp_neg (s_mw_mp_mul_2d a d) \<longleftrightarrow> mp_neg a \<and> 0 < mp_val a"
proof -
  define a1 where "a1 = s_mw_mp_lshd a (unat d div DIGIT_BIT)"
  define b where "b = unat d mod DIGIT_BIT"
  define a2 where "a2 = (if drop_bit (DIGIT_BIT - b) (DIGIT a1 (mp_used a1 - 1)) AND (push_bit b 1 - 1) \<noteq> 0
    then s_mw_mp_grow a1 (mp_used a1 + 1) else a1)"
  obtain ys save where ys: "mul_2d_loop b 0 (take (mp_used a1) (mp_dp a2)) = (ys, save)"
    by fastforce
  have a1: "mp_ok a1" "mp_val a1 = mp_val a * RADIX ^ (unat d div 16)" "mp_neg a1 = mp_neg a"
    using s_mw_mp_lshd_ok [OF assms] by (simp_all add: a1_def)
  have a2: "mp_ok a2" "mp_used a2 = mp_used a1" "mp_neg a2 = mp_neg a" "mp_val a2 = mp_val a1"
    "take (mp_used a1) (mp_dp a2) = take (mp_used a1) (mp_dp a1)"
    using a1 s_mw_mp_grow_ok [OF a1(1)] by (simp_all add: a2_def)
  have "b < 16" by (simp add: b_def)
  then have v: "length ys = mp_used a2" "digits_val ys + RADIX ^ mp_used a2 * unat save = mp_val a2 * 2 ^ b"
    using mul_2d_loop_val [OF _ _ ys] mp_val_digits [OF a2(1)] mp_okD(2) [OF a2(1)] a2(2) by (simp_all add: min_absorb2)
  have save: "save = drop_bit (DIGIT_BIT - b) (DIGIT a1 (mp_used a1 - 1)) AND (push_bit b 1 - 1)"
    using mul_2d_loop_save [OF last_digit(1) [OF a1(1)], of b 0] ys a2(5) last_digit(2) [OF a1(1)] by simp
  define a3 where "a3 = (if save \<noteq> 0
    then a2\<lparr>mp_dp := (ys @ drop (mp_used a2) (mp_dp a2))[mp_used a2 := save], mp_used := mp_used a2 + 1\<rparr>
    else a2\<lparr>mp_dp := ys @ drop (mp_used a2) (mp_dp a2)\<rparr>)"
  have "mp_used a2 < ALLOC a2" if "save \<noteq> 0"
    using that s_mw_mp_grow_ok(5) [OF a1(1), of "mp_used a1 + 1"] a2(2) by (simp add: a2_def save)
  then have a3: "mp_ok a3 \<and> mp_val a3 = mp_val a2 * 2 ^ b"
    using store_digits [OF a2(1) v(1)] store_digits_carry [OF a2(1) v(1)] v(2) by (auto simp: a3_def)
  have val: "mp_val a3 = mp_val a * 2 ^ unat d"
    using a3 a2(4) a1(2) two_power_digit [of "unat d"] by (simp add: b_def)
  have "s_mw_mp_mul_2d a d = s_mw_mp_clamp a3"
    unfolding s_mw_mp_mul_2d_def Let_def
    by (simp only: ys b_def [symmetric] a1_def [symmetric] a2_def [symmetric] prod.case)
       (simp add: a3_def a2(2))
  moreover have "mp_neg a3 = mp_neg a"
    by (simp add: a3_def a2(3))
  ultimately show "mp_wf (s_mw_mp_mul_2d a d)" "mp_val (s_mw_mp_mul_2d a d) = mp_val a * 2 ^ unat d"
    "mp_neg (s_mw_mp_mul_2d a d) \<longleftrightarrow> mp_neg a \<and> 0 < mp_val a"
    using s_mw_mp_clamp_ok [of a3] conjunct1 [OF a3] val by simp_all
qed

lemma s_mw_mp_div_2d_ok:
  assumes "mp_ok a"
  shows "mp_wf (s_mw_mp_div_2d a d)" "mp_val (s_mw_mp_div_2d a d) = mp_val a div 2 ^ unat d"
    "\<not> mp_neg a \<Longrightarrow> \<not> mp_neg (s_mw_mp_div_2d a d)"
proof -
  define a1 where "a1 = s_mw_mp_rshd a (unat d div DIGIT_BIT)"
  define b where "b = unat d mod DIGIT_BIT"
  obtain ys save where ys: "div_2d_loop b (take (mp_used a1) (mp_dp a1)) = (ys, save)"
    by fastforce
  have a1: "mp_ok a1" "mp_val a1 = mp_val a div RADIX ^ (unat d div 16)" "\<not> mp_neg a \<Longrightarrow> \<not> mp_neg a1"
    using s_mw_mp_rshd_ok [OF assms] by (simp_all add: a1_def)
  have "b < 16" by (simp add: b_def)
  then have v: "length ys = mp_used a1" "digits_val ys = mp_val a1 div 2 ^ b"
    using div_2d_loop_val [OF _ ys] mp_val_digits [OF a1(1)] mp_okD(2) [OF a1(1)] by (simp_all add: min_absorb2)
  define a2 where "a2 = a1\<lparr>mp_dp := ys @ drop (mp_used a1) (mp_dp a1)\<rparr>"
  have "digits_val ys = mp_val a div 2 ^ unat d"
    using v(2) a1(2) two_power_digit [of "unat d"] by (simp add: b_def div_mult2_eq)
  then have a2: "mp_ok a2" "mp_val a2 = mp_val a div 2 ^ unat d"
    unfolding a2_def using store_digits [OF a1(1) v(1)] by simp_all
  moreover have "s_mw_mp_div_2d a d = s_mw_mp_clamp a2"
    unfolding s_mw_mp_div_2d_def Let_def
    by (simp only: ys b_def [symmetric] a1_def [symmetric] prod.case) (simp add: a2_def)
  ultimately show "mp_wf (s_mw_mp_div_2d a d)" "mp_val (s_mw_mp_div_2d a d) = mp_val a div 2 ^ unat d"
    "\<not> mp_neg a \<Longrightarrow> \<not> mp_neg (s_mw_mp_div_2d a d)"
    using s_mw_mp_clamp_ok [of a2] a1(3) by (auto simp: a2_def)
qed

lemma s_mw_mp_div_2_ok:
  assumes "mp_ok a"
  shows "mp_wf (s_mw_mp_div_2 a)" "mp_val (s_mw_mp_div_2 a) = mp_val a div 2"
  using s_mw_mp_div_2d_ok [OF assms, of 1] by (simp_all add: s_mw_mp_div_2_def)

lemma s_mw_mp_mul_2_ok:
  assumes "mp_ok a"
  shows "mp_ok (s_mw_mp_mul_2 a)" "mp_val (s_mw_mp_mul_2 a) = 2 * mp_val a" "mp_neg (s_mw_mp_mul_2 a) = mp_neg a"
proof -
  obtain ys k where ys: "mul_2d_loop 1 0 (take (mp_used a) (mp_dp a)) = (ys, k)"
    by fastforce
  have v: "length ys = mp_used a" "digits_val ys + RADIX ^ mp_used a * unat k = 2 * mp_val a"
    using mul_2d_loop_val [OF _ _ ys] mp_val_digits [OF assms] mp_okD(2) [OF assms] by (simp_all add: min_absorb2)
  define a1 where "a1 = a\<lparr>mp_dp := ys @ drop (mp_used a) (mp_dp a)\<rparr>"
  have a1: "mp_ok a1" "mp_val a1 = digits_val ys" "mp_used a1 = mp_used a" "mp_neg a1 = mp_neg a"
    "take (mp_used a1) (mp_dp a1) = ys"
    using store_digits [OF assms v(1)] v(1) by (simp_all add: a1_def)
  define a2 where "a2 = (if ALLOC a1 \<le> mp_used a1 then s_mw_mp_grow a1 (ALLOC a1 + 1) else a1)"
  have a2: "mp_ok a2" "mp_used a2 = mp_used a" "mp_neg a2 = mp_neg a" "take (mp_used a2) (mp_dp a2) = ys"
    using a1 s_mw_mp_grow_ok [OF a1(1), of "ALLOC a1 + 1"] by (simp_all add: a2_def)
  have "mp_used a2 < ALLOC a2"
    using s_mw_mp_grow_ok(5) [OF a1(1), of "ALLOC a1 + 1"] a1(3) a2(2) mp_okD(2) [OF a1(1)] by (auto simp: a2_def)
  then have carry: "mp_ok (a2\<lparr>mp_dp := (mp_dp a2)[mp_used a := k], mp_used := mp_used a + 1\<rparr>)"
    "mp_val (a2\<lparr>mp_dp := (mp_dp a2)[mp_used a := k], mp_used := mp_used a + 1\<rparr>) = 2 * mp_val a"
    using store_digits_carry [OF a2(1), of ys k] v a2(2, 4) append_take_drop_id [of "mp_used a2" "mp_dp a2"] by simp_all
  have mul: "s_mw_mp_mul_2 a = (if k \<noteq> 0 then a2\<lparr>mp_dp := (mp_dp a2)[mp_used a := k], mp_used := mp_used a + 1\<rparr> else a1)"
    by (simp add: s_mw_mp_mul_2_def mul_2_loop_eq ys [unfolded One_nat_def] Let_def a1_def a2_def)
  show "mp_ok (s_mw_mp_mul_2 a)" "mp_val (s_mw_mp_mul_2 a) = 2 * mp_val a" "mp_neg (s_mw_mp_mul_2 a) = mp_neg a"
    using carry a1 a2(3) v(2) by (auto simp: mul)
qed

lemma mod_power_split: "(v :: nat) mod (m * n) = v mod m + m * (v div m mod n)"
  by (simp add: mod_mult2_eq)

lemma s_mw_mp_mod_2d_ok:
  assumes "mp_ok a"
  shows "mp_ok (s_mw_mp_mod_2d a d)" "mp_val (s_mw_mp_mod_2d a d) = mp_val a mod 2 ^ unat d"
    "mp_wf a \<Longrightarrow> mp_wf (s_mw_mp_mod_2d a d)" "\<not> mp_neg a \<Longrightarrow> \<not> mp_neg (s_mw_mp_mod_2d a d)"
proof -
  define n where "n = unat d div 16"
  define b where "b = unat d mod 16"
  have pow: "(2 :: nat) ^ unat d = RADIX ^ n * 2 ^ b"
    by (simp add: n_def b_def flip: two_power_digit)
  have "mp_ok (s_mw_mp_mod_2d a d) \<and> mp_val (s_mw_mp_mod_2d a d) = mp_val a mod 2 ^ unat d
    \<and> (mp_wf a \<longrightarrow> mp_wf (s_mw_mp_mod_2d a d)) \<and> (\<not> mp_neg a \<longrightarrow> \<not> mp_neg (s_mw_mp_mod_2d a d))"
  proof (cases "mp_used a \<le> n")
    case True
    then have "mp_val a < RADIX ^ n"
      by (rule mp_val_less_power [OF assms])
    also have "\<dots> \<le> 2 ^ unat d"
      unfolding pow by simp
    finally have "mp_val a mod 2 ^ unat d = mp_val a" by simp
    then show ?thesis
      using True assms by (simp add: s_mw_mp_mod_2d_def n_def Let_def)
  next
    case False
    define ys where "ys = take n (mp_dp a) @ (DIGIT a n AND (push_bit b 1 - 1)) # replicate (mp_used a - Suc n) 0"
    define c where "c = a\<lparr>mp_dp := ys @ drop (mp_used a) (mp_dp a)\<rparr>"
    have n: "n < ALLOC a" "length ys = mp_used a"
      using False mp_okD(2) [OF assms] by (simp_all add: ys_def)
    have "digits_val ys = digits_val (take n (mp_dp a)) + RADIX ^ n * (unat (DIGIT a n) mod 2 ^ b)"
      using n(1) by (simp add: ys_def digits_val_append digit_and_mask del: push_bit_of_1)
    moreover have "mp_val a div RADIX ^ n = digits_val (DIGIT a n # drop (Suc n) (mp_dp a))"
      using n(1) by (simp add: mp_val_def Cons_nth_drop_Suc flip: digits_val_drop)
    moreover have "(unat (DIGIT a n) + RADIX * v) mod 2 ^ b = unat (DIGIT a n) mod 2 ^ b" for v
    proof -
      have "RADIX = 2 ^ b * 2 ^ (16 - b)"
        unfolding b_def by (simp flip: power_add)
      then show ?thesis
        by (metis mod_mult_self2 mult.assoc)
    qed
    ultimately have "digits_val ys = mp_val a mod 2 ^ unat d"
      by (simp add: pow mod_power_split digits_val_take mp_val_def)
    then have c: "mp_ok c" "mp_val c = mp_val a mod 2 ^ unat d"
      using store_digits [OF assms n(2)] by (simp_all add: c_def)
    have "s_mw_mp_mod_2d a d = s_mw_mp_clamp c"
      using False by (simp add: s_mw_mp_mod_2d_def c_def ys_def n_def b_def Let_def)
    then show ?thesis
      using s_mw_mp_clamp_ok [OF c(1)] c(2) by (simp add: mp_wf_def c_def)
  qed
  then show "mp_ok (s_mw_mp_mod_2d a d)" "mp_val (s_mw_mp_mod_2d a d) = mp_val a mod 2 ^ unat d"
    "mp_wf a \<Longrightarrow> mp_wf (s_mw_mp_mod_2d a d)" "\<not> mp_neg a \<Longrightarrow> \<not> mp_neg (s_mw_mp_mod_2d a d)"
    by blast+
qed

subsection \<open>Single digits\<close>

lemma carry_digits_val:
  assumes "carry_digits k xs = (ys, k')" "unat k < RADIX"
  shows "length ys = length xs \<and> unat k' < RADIX \<and> digits_val ys + RADIX ^ length xs * unat k' = digits_val xs + unat k"
  using assms
proof (induction k xs arbitrary: ys rule: carry_digits.induct)
  case (2 k x xs)
  show ?case
  proof (cases "k = 0")
    case False
    define w where "w = ucast x + k"
    obtain zs where zs: "carry_digits (CARRYOUT w) xs = (zs, k')" "ys = ACCUM w # zs"
      using 2(2) False by (auto simp: Let_def w_def split: prod.splits)
    have w: "unat w = unat x + unat k"
      unfolding w_def by (rule unat_digit_plus [OF 2(3)])
    have IH: "length zs = length xs" "unat k' < RADIX"
      "digits_val zs + RADIX ^ length xs * unat k' = digits_val xs + unat (CARRYOUT w)"
      using 2(1) [OF False w_def zs(1)] by simp_all
    have "digits_val ys + RADIX ^ length (x # xs) * unat k'
        = unat (ACCUM w) + RADIX * (digits_val zs + RADIX ^ length xs * unat k')"
      by (simp add: zs(2) algebra_simps)
    also have "\<dots> = digits_val (x # xs) + unat k"
      unfolding IH(3) using word_split [of w] w by (simp add: algebra_simps)
    finally show ?thesis
      using IH zs(2) by simp
  qed (use 2 in auto)
qed simp

lemma head_digit:
  assumes "mp_ok a"
  obtains x xs where "take (mp_used a) (mp_dp a) = x # xs" "DIGIT a 0 = x" "length (x # xs) = mp_used a"
proof (cases "take (mp_used a) (mp_dp a)")
  case (Cons x xs)
  then show ?thesis
    using that [of x xs] mp_okD(1, 2) [OF assms] nth_take [of 0 "mp_used a" "mp_dp a"]
    by (metis length_take list.size(4) min_absorb2 nth_Cons_0 One_nat_def Suc_le_lessD)
qed (use last_digit(1) [OF assms] in simp)

lemma s_mw_mp_add_d_ok:
  assumes "mp_ok a"
  shows "mp_ok (s_mw_mp_add_d a d)" "mp_val (s_mw_mp_add_d a d) = mp_val a + unat d"
    "mp_neg (s_mw_mp_add_d a d) = mp_neg a" "mp_clamped a \<Longrightarrow> mp_clamped (s_mw_mp_add_d a d)"
proof -
  obtain x xs where x: "take (mp_used a) (mp_dp a) = x # xs" "DIGIT a 0 = x" "length (x # xs) = mp_used a"
    by (rule head_digit [OF assms])
  define w where "w = ucast x + (ucast d :: mw_mp_word)"
  obtain ys k where ys: "carry_digits (CARRYOUT w) xs = (ys, k)" by fastforce
  have w: "unat w = unat x + unat d"
    unfolding w_def by (simp add: unat_digit_plus)
  have v: "length (ACCUM w # ys) = mp_used a" "unat k < RADIX"
    "digits_val (ACCUM w # ys) + RADIX ^ mp_used a * unat k = mp_val a + unat d"
  proof -
    have c: "length ys = length xs" "unat k < RADIX" "digits_val ys + RADIX ^ length xs * unat k = digits_val xs + unat (CARRYOUT w)"
      using carry_digits_val [OF ys] by simp_all
    then show "length (ACCUM w # ys) = mp_used a" "unat k < RADIX"
      using x(3) by simp_all
    have "digits_val (ACCUM w # ys) + RADIX ^ mp_used a * unat k
        = unat (ACCUM w) + RADIX * (digits_val ys + RADIX ^ length xs * unat k)"
      unfolding x(3) [symmetric] by (simp add: algebra_simps)
    also have "\<dots> = mp_val a + unat d"
      unfolding c(3) using word_split [of w] w x(1) by (simp add: mp_val_digits [OF assms] algebra_simps)
    finally show "digits_val (ACCUM w # ys) + RADIX ^ mp_used a * unat k = mp_val a + unat d" .
  qed
  define a1 where "a1 = a\<lparr>mp_dp := (ACCUM w # ys) @ drop (mp_used a) (mp_dp a)\<rparr>"
  define a2 where "a2 = s_mw_mp_pad a1 (mp_used a + 1)"
  have add: "s_mw_mp_add_d a d = (if k \<noteq> 0 then a2\<lparr>mp_dp := (mp_dp a2)[mp_used a := ucast k]\<rparr> else a1)"
    using x(1) by (simp add: s_mw_mp_add_d_def Let_def x(2) a1_def a2_def ys flip: w_def)
  have pad: "mp_ok (a2\<lparr>mp_dp := (mp_dp a2)[mp_used a := ucast k]\<rparr>)"
    "mp_val (a2\<lparr>mp_dp := (mp_dp a2)[mp_used a := ucast k]\<rparr>) = mp_val a + unat d" "mp_used a2 = mp_used a + 1" "mp_neg a2 = mp_neg a"
    using store_digits_pad(1, 2) [OF assms v(1), of "ucast k"] store_digits_pad(3, 4) [OF assms v(1)] v(3) unat_digit_of_word [OF v(2)]
    unfolding a1_def a2_def by simp_all
  show val: "mp_val (s_mw_mp_add_d a d) = mp_val a + unat d"
    and "mp_neg (s_mw_mp_add_d a d) = mp_neg a"
    using pad store_digits [OF assms v(1)] v(3) by (auto simp: add a1_def)
  show ok: "mp_ok (s_mw_mp_add_d a d)"
    using pad store_digits [OF assms v(1)] by (auto simp: add a1_def)
  show "mp_clamped (s_mw_mp_add_d a d)" if "mp_clamped a"
  proof (rule mp_clampedI [OF ok])
    assume used: "1 < mp_used (s_mw_mp_add_d a d)"
    have "RADIX ^ mp_used a \<le> mp_val a + unat d" if "k \<noteq> 0"
      unfolding v(3) [symmetric] by (rule trans_le_add2) (use that in \<open>simp add: unat_gt_0 Suc_le_eq\<close>)
    then show "RADIX ^ (mp_used (s_mw_mp_add_d a d) - 1) \<le> mp_val (s_mw_mp_add_d a d)"
      unfolding val using used mp_val_ge [OF assms that] pad(3) by (auto simp: add a1_def)
  qed
qed

text \<open>One step of a subtraction: the digit, and whether it borrows.\<close>

lemma borrow_digit:
  fixes x :: mw_mp_digit and b :: mw_mp_word
  assumes "unat b \<le> RADIX"
  defines "w \<equiv> (65536 + ucast x) - b"
  shows "unat (ACCUM w) + unat b = unat x + RADIX * (if CARRYOUT w \<noteq> 0 then 0 else 1)"
proof -
  have "unat (65536 + ucast x :: mw_mp_word) = RADIX + unat x"
  proof -
    have "RADIX + unat x < 4294967296"
      using digit_less [of x] by linarith
    then show ?thesis
      by (subst unat_plus_word) simp_all
  qed
  moreover have "b \<le> 65536 + ucast x"
    using calculation assms(1) by (simp add: word_le_nat_alt)
  ultimately have w: "unat w = RADIX + unat x - unat b"
    unfolding w_def by (simp add: unat_sub)
  show ?thesis
  proof (cases "CARRYOUT w = 0")
    case True
    then show ?thesis
      using w assms(1) word_split [of w] by simp
  next
    case False
    then have "RADIX \<le> unat w"
      by (simp add: CARRYOUT_eq_0)
    moreover have "unat w < 2 * RADIX"
      using w digit_less [of x] by linarith
    ultimately have "unat (ACCUM w) = unat w - RADIX"
      by (simp add: unat_ACCUM le_mod_geq)
    then show ?thesis
      using w False assms(1) \<open>RADIX \<le> unat w\<close> by simp
  qed
qed

lemma borrow_digits_val:
  assumes "borrow_digits b xs = (ys, b')" "unat b \<le> 1"
  shows "length ys = length xs \<and> unat b' \<le> 1 \<and> digits_val ys + unat b = digits_val xs + RADIX ^ length xs * unat b'"
  using assms
proof (induction b xs arbitrary: ys rule: borrow_digits.induct)
  case (2 b x xs)
  show ?case
  proof (cases "b = 0")
    case False
    define w where "w = (65536 + ucast x) - b"
    define c :: mw_mp_word where "c = (if CARRYOUT w \<noteq> 0 then 0 else 1)"
    obtain zs where zs: "borrow_digits c xs = (zs, b')" "ys = ACCUM w # zs"
      using 2(2) False by (auto simp: Let_def w_def c_def split: prod.splits)
    have IH: "length zs = length xs" "unat b' \<le> 1" "digits_val zs + unat c = digits_val xs + RADIX ^ length xs * unat b'"
      using 2(1) [OF False w_def zs(1) [unfolded c_def]] by (simp_all add: c_def)
    have head: "unat (ACCUM w) + unat b = unat x + RADIX * unat c"
      using borrow_digit [of b x] 2(3) by (simp add: w_def c_def)
    have "digits_val ys + unat b = unat x + RADIX * (digits_val zs + unat c)"
      using head by (simp add: zs(2) algebra_simps)
    also have "\<dots> = digits_val (x # xs) + RADIX ^ length (x # xs) * unat b'"
      unfolding IH(3) by (simp add: algebra_simps)
    finally show ?thesis
      using IH zs(2) by simp
  qed (use 2 in auto)
qed simp

text \<open>A difference that fits has no borrow left.\<close>

lemma no_borrow:
  assumes "(r :: nat) + v = u + m * b" "r < m" "v \<le> u"
  shows "b = 0 \<and> r = u - v"
proof (cases b)
  case (Suc n)
  have "m \<le> m * b"
    using Suc by simp
  then have "u + m \<le> u + m * b" by simp
  then show ?thesis
    using assms by linarith
qed (use assms in simp)

lemma s_mw_mp_sub_d_ok:
  assumes "mp_ok a" "unat d \<le> mp_val a" "s_mw_mp_sub_d a d = (res, c)"
  shows "res = MP_OKAY" "mp_wf c" "mp_val c = mp_val a - unat d" "mp_neg c \<longleftrightarrow> mp_neg a \<and> 0 < mp_val c"
proof -
  obtain x xs where x: "take (mp_used a) (mp_dp a) = x # xs" "DIGIT a 0 = x" "length (x # xs) = mp_used a"
    by (rule head_digit [OF assms(1)])
  define w where "w = (65536 + ucast x) - (ucast d :: mw_mp_word)"
  define k :: mw_mp_word where "k = (if CARRYOUT w \<noteq> 0 then 0 else 1)"
  obtain ys b where ys: "borrow_digits k xs = (ys, b)" by fastforce
  have c: "length ys = length xs" "digits_val ys + unat k = digits_val xs + RADIX ^ length xs * unat b"
    using borrow_digits_val [OF ys] by (simp_all add: k_def)
  have len: "length (ACCUM w # ys) = mp_used a"
    using c(1) x(3) by simp
  have head: "unat (ACCUM w) + unat d = unat x + RADIX * unat k"
    using borrow_digit [of "ucast d" x] by (simp add: w_def k_def less_imp_le)
  have "digits_val (ACCUM w # ys) + unat d = unat x + RADIX * (digits_val ys + unat k)"
    using head by (simp add: algebra_simps)
  also have "\<dots> = mp_val a + RADIX ^ mp_used a * unat b"
  proof -
    have "RADIX ^ mp_used a = RADIX * RADIX ^ length xs"
      unfolding x(3) [symmetric] by simp
    then show ?thesis
      unfolding c(2) mp_val_digits [OF assms(1)] x(1) by (simp add: algebra_simps)
  qed
  finally have "unat b = 0 \<and> digits_val (ACCUM w # ys) = mp_val a - unat d"
    using assms(2) digits_val_less [of "ACCUM w # ys"] by (intro no_borrow [of _ "unat d" _ "RADIX ^ mp_used a"]) (simp_all only: len)
  moreover define e where "e = a\<lparr>mp_dp := (ACCUM w # ys) @ drop (mp_used a) (mp_dp a)\<rparr>"
  ultimately have e: "mp_ok e" "mp_val e = mp_val a - unat d" "b = 0"
    using store_digits [OF assms(1) len] by (simp_all add: unat_eq_zero)
  have "(res, c) = (if b \<noteq> 0 then MP_RANGE else MP_OKAY, s_mw_mp_clamp e)"
    unfolding assms(3) [symmetric] using x(1) ys
    by (simp add: s_mw_mp_sub_d_def Let_def x(2) e_def flip: w_def k_def)
  then show "res = MP_OKAY" "mp_wf c" "mp_val c = mp_val a - unat d" "mp_neg c \<longleftrightarrow> mp_neg a \<and> 0 < mp_val c"
    using e s_mw_mp_clamp_ok [OF e(1)] by (simp_all add: e_def)
qed

subsection \<open>Comparisons\<close>

lemma sgn_diff: "sgn (int a - int b) = (if b < a then MP_GT else if a < b then MP_LT else MP_EQ)"
  by simp

lemma cmp_digits_val:
  "length xs = length ys \<Longrightarrow> cmp_digits xs ys = sgn (int (digits_val (rev xs)) - int (digits_val (rev ys)))"
proof (induction xs ys rule: list_induct2)
  case (Cons x xs y ys)
  define m where "m = RADIX ^ length xs"
  have less: "digits_val (rev xs) < m" "digits_val (rev ys) < m"
    using digits_val_less [of "rev xs"] digits_val_less [of "rev ys"] Cons.hyps by (simp_all add: m_def)
  have lead: "u + m * unat p < v + m * unat q" if "unat p < unat q" "u < m" for u v and p q :: mw_mp_digit
  proof -
    have "u + m * unat p < m * Suc (unat p)"
      using that(2) by simp
    also have "\<dots> \<le> m * unat q"
      using that(1) by (intro mult_le_mono2) simp
    finally show ?thesis by simp
  qed
  have vals: "digits_val (rev (x # xs)) = digits_val (rev xs) + m * unat x"
    "digits_val (rev (y # ys)) = digits_val (rev ys) + m * unat y"
    using Cons.hyps by (simp_all add: digits_val_append m_def)
  consider "unat x < unat y" | "unat y < unat x" | "x = y"
    by (metis linorder_neqE_nat word_unat_eq_iff)
  then show ?case
    unfolding vals sgn_diff cmp_digits.simps word_less_nat_alt
    using Cons.IH [unfolded sgn_diff] lead [of x y "digits_val (rev xs)" "digits_val (rev ys)"]
      lead [of y x "digits_val (rev ys)" "digits_val (rev xs)"] less
    by cases auto
qed simp

lemma s_mw_mp_cmp_val:
  assumes "mp_ok a" "mp_clamped a" "mp_ok b" "mp_clamped b"
  shows "s_mw_mp_cmp a b = sgn (int (mp_val a) - int (mp_val b))"
proof -
  have bigger: "mp_val v < mp_val u" if "mp_ok u" "mp_clamped u" "mp_ok v" "mp_used v < mp_used u" for u v
  proof -
    have "mp_val v < RADIX ^ (mp_used u - 1)"
      using that by (intro mp_val_less_power) simp_all
    also have "\<dots> \<le> mp_val u"
      using that mp_okD(1) [OF that(3)] by (intro mp_val_ge) simp_all
    finally show ?thesis .
  qed
  show ?thesis
  proof (cases "mp_used a = mp_used b")
    case True
    then show ?thesis
      using cmp_digits_val [of "rev (take (mp_used a) (mp_dp a))" "rev (take (mp_used a) (mp_dp b))"]
        mp_okD(2) [OF assms(1)] mp_okD(2) [OF assms(3)]
      by (simp add: s_mw_mp_cmp_def mp_val_digits assms)
  next
    case False
    then show ?thesis
      using bigger [OF assms(1, 2, 3)] bigger [OF assms(3, 4, 1)] by (auto simp: s_mw_mp_cmp_def)
  qed
qed

lemma s_mw_mp_cmp_d_val:
  assumes "mp_ok a" "mp_clamped a"
  shows "s_mw_mp_cmw_mp_d a d = sgn (int (mp_val a) - int (unat d))"
proof (cases "mp_used a = 1")
  case True
  then show ?thesis
    using mp_val_one_digit [OF assms(1) True]
    by (simp only: s_mw_mp_cmw_mp_d_def word_less_nat_alt sgn_diff) simp
next
  case False
  then have used: "1 < mp_used a"
    using mp_okD(1) [OF assms(1)] by simp
  have "unat d < RADIX ^ 1" by simp
  also have "\<dots> \<le> RADIX ^ (mp_used a - 1)"
    using used by (intro power_increasing) simp_all
  also have "\<dots> \<le> mp_val a"
    by (rule mp_val_ge [OF assms used])
  finally show ?thesis
    using used unfolding s_mw_mp_cmw_mp_d_def sgn_diff by simp
qed

lemma mw_mp_cmp_z_val: "mp_wf a \<Longrightarrow> mw_mp_cmw_mp_z a = sgn (mp_num a)"
  using mp_val_eq_0 [of a] by (auto simp: mw_mp_cmw_mp_z_def mp_num_def mp_wf_def)

lemma mw_mp_cmp_d_val: "mp_wf a \<Longrightarrow> mw_mp_cmw_mp_d a d = sgn (mp_num a - int (unat d))"
  by (auto simp: mw_mp_cmw_mp_d_def mp_num_def s_mw_mp_cmp_d_val mp_wf_def sgn_if simp del: of_nat_unat)

lemma mw_mp_cmp_val: "mp_wf a \<Longrightarrow> mp_wf b \<Longrightarrow> mw_mp_cmp a b = sgn (mp_num a - mp_num b)"
  by (auto simp: mw_mp_cmp_def mp_num_def s_mw_mp_cmp_val mp_wf_def Let_def sgn_if)

lemma mw_mp_isodd_val:
  assumes "mp_ok a"
  shows "mw_mp_isodd a \<longleftrightarrow> odd (mp_val a)"
proof -
  obtain x xs where x: "take (mp_used a) (mp_dp a) = x # xs" "DIGIT a 0 = x"
    by (rule head_digit [OF assms])
  have "x AND 1 \<noteq> 0 \<longleftrightarrow> odd (unat x)"
    using digit_and_mask [of x 1] by (simp add: odd_iff_mod_2_eq_one flip: unat_eq_zero)
  also have "\<dots> \<longleftrightarrow> odd (mp_val a)"
    by (simp add: mp_val_digits [OF assms] x(1))
  finally show ?thesis
    by (simp add: mw_mp_isodd_def x(2))
qed

end
