(* ===== verification/Mpi_Arith.thy ===== *)
theory Mpi_Arith
  imports Mpi_Digits "HOL-Library.Monad_Syntax"
begin

text \<open>
  The magnitude arithmetic of \<^verbatim>\<open>src/src/mpi/mpi.c\<close>: addition, subtraction, multiplication,
  squaring and division on digit arrays, each with the lemma that it computes the operation
  on natural numbers. The loops of the code that run over digits are recursions over the
  digits; \<open>None\<close> is an access outside of the allocated digits or a loop that does not end.
\<close>

section \<open>Definitions\<close>

subsection \<open>Addition and subtraction\<close>

text \<open>
  The digits of \<open>a\<close> (padded to at least as many as those of \<open>b\<close>) and of \<open>b\<close>; once \<open>b\<close> is
  exhausted the carry is propagated.
\<close>

fun add_digits :: "mw_mp_word \<Rightarrow> mw_mp_digit list \<Rightarrow> mw_mp_digit list \<Rightarrow> mw_mp_digit list \<times> mw_mp_word" where
  "add_digits w pa [] = carry_digits w pa"
| "add_digits w [] (y # pb) = ([], w)"
| "add_digits w (x # pa) (y # pb) =
     (let w1 = w + (ucast x + ucast y); (zs, w2) = add_digits (CARRYOUT w1) pa pb
      in (ACCUM w1 # zs, w2))"

definition s_mw_mp_add :: "mw_mp_int \<Rightarrow> mw_mp_int \<Rightarrow> mw_mp_int" where
  "s_mw_mp_add a b =
     (let a1 = (if mp_used a < mp_used b then s_mw_mp_pad a (mp_used b) else a);
          (ys, w) = add_digits 0 (take (mp_used a1) (mp_dp a1)) (take (mp_used b) (mp_dp b));
          a2 = a1\<lparr>mp_dp := ys @ drop (mp_used a1) (mp_dp a1)\<rparr>
      in if w \<noteq> 0
         then let a3 = s_mw_mp_pad a2 (mp_used a1 + 1)
              in a3\<lparr>mp_dp := (mp_dp a3)[mp_used a1 := ucast w]\<rparr>
         else a2)"

fun sub_digits :: "mw_mp_word \<Rightarrow> mw_mp_digit list \<Rightarrow> mw_mp_digit list \<Rightarrow> (mw_mp_digit list \<times> mw_mp_word) option" where
  "sub_digits w pa [] = Some ([], w)"
| "sub_digits w [] (y # pb) = None"
| "sub_digits w (x # pa) (y # pb) =
     (let w1 = (65536 + ucast x) - w - ucast y
      in do { (zs, w2) \<leftarrow> sub_digits (if CARRYOUT w1 \<noteq> 0 then 0 else 1) pa pb;
              Some (ACCUM w1 # zs, w2) })"

fun borrow_all :: "mw_mp_word \<Rightarrow> mw_mp_digit list \<Rightarrow> mw_mp_digit list \<times> mw_mp_word" where
  "borrow_all w [] = ([], w)"
| "borrow_all w (x # pa) =
     (let w1 = 65536 + ucast x - w;
          (zs, w2) = borrow_all (if CARRYOUT w1 \<noteq> 0 then 0 else 1) pa
      in (ACCUM w1 # zs, w2))"

definition s_mw_mp_sub :: "mw_mp_int \<Rightarrow> mw_mp_int \<Rightarrow> (mw_mp_err \<times> mw_mp_int) option" where
  "s_mw_mp_sub a b =
     do { (ys, w) \<leftarrow> sub_digits 0 (mp_dp a) (take (mp_used b) (mp_dp b));
          let n = mp_used a - mp_used b;
          let rest = drop (mp_used b) (mp_dp a);
          let (zs, w1) = borrow_all w (take n rest);
          let a1 = s_mw_mp_clamp (a\<lparr>mp_dp := ys @ zs @ drop n rest\<rparr>);
          Some (if w1 \<noteq> 0 then MP_RANGE else MP_OKAY, a1) }"

subsection \<open>Multiplication\<close>

text \<open>
  One row of the product, written over the digits of the result from the position of the
  digit \<open>b\<close> on. The result has room for all digits, the last equation is not reached.
\<close>

fun mul_row :: "mw_mp_digit \<Rightarrow> mw_mp_word \<Rightarrow> mw_mp_digit list \<Rightarrow> mw_mp_digit list \<Rightarrow> mw_mp_digit list" where
  "mul_row b k (x # pa) (t # pt) =
     (let w = ucast b * ucast x + k + ucast t in ACCUM w # mul_row b (CARRYOUT w) pa pt)"
| "mul_row b k [] (t # pt) = ucast k # pt"
| "mul_row b k pa [] = []"

fun mul_loop :: "mw_mp_digit list \<Rightarrow> mw_mp_digit list \<Rightarrow> mw_mp_digit list \<Rightarrow> mw_mp_digit list" where
  "mul_loop pa [] pt = pt"
| "mul_loop pa (b # pb) pt =
     (let pt' = (if b = 0 then pt else mul_row b 0 pa pt) in hd pt' # mul_loop pa pb (tl pt'))"

definition s_mw_mp_mul :: "mw_mp_int \<Rightarrow> mw_mp_int \<Rightarrow> mw_mp_int" where
  "s_mw_mp_mul a b =
     s_mw_mp_clamp \<lparr>mp_neg = False, mp_used = mp_used a + mp_used b,
       mp_dp = mul_loop (take (mp_used a) (mp_dp a)) (take (mp_used b) (mp_dp b))
                 (replicate (mp_used a + mp_used b) 0)\<rparr>"

fun mul_d_loop :: "mw_mp_digit \<Rightarrow> mw_mp_word \<Rightarrow> mw_mp_digit list \<Rightarrow> mw_mp_digit list \<times> mw_mp_word" where
  "mul_d_loop d k [] = ([], k)"
| "mul_d_loop d k (x # xs) =
     (let w = ucast x * ucast d + k; (ys, k') = mul_d_loop d (CARRYOUT w) xs in (ACCUM w # ys, k'))"

definition s_mw_mp_mul_d :: "mw_mp_int \<Rightarrow> mw_mp_digit \<Rightarrow> mw_mp_int option" where
  "s_mw_mp_mul_d a d =
     (let max = mp_used a;
          w = ucast (DIGIT a (max - 1)) * ucast d;
          a1 = (if CARRYOUT w \<noteq> 0 then s_mw_mp_pad a (max + 1) else a);
          (ys, k) = mul_d_loop d 0 (take max (mp_dp a1));
          a2 = a1\<lparr>mp_dp := ys @ drop max (mp_dp a1)\<rparr>
      in if k \<noteq> 0
         then if max < ALLOC a2
              then Some (s_mw_mp_clamp (a2\<lparr>mp_dp := (mp_dp a2)[max := ucast k], mp_used := max + 1\<rparr>))
              else None
         else Some (s_mw_mp_clamp a2))"

subsection \<open>Squaring\<close>

fun sqr_cascade :: "mw_mp_word \<Rightarrow> mw_mp_digit list \<Rightarrow> mw_mp_digit list option" where
  "sqr_cascade k [] = (if k = 0 then Some [] else None)"
| "sqr_cascade k (t # pt) =
     (if k = 0 then Some (t # pt)
      else let k1 = ucast t + 1 in do { pt' \<leftarrow> sqr_cascade (CARRYOUT k1) pt; Some (ACCUM k1 # pt') })"

fun sqr_row :: "mw_mp_digit \<Rightarrow> mw_mp_word \<Rightarrow> mw_mp_digit list \<Rightarrow> mw_mp_digit list \<Rightarrow> mw_mp_digit list option" where
  "sqr_row a k (y # pa2) (t # pt) =
     (let w0 = ucast a * ucast y;
          u0 = drop_bit 31 w0 AND 1;
          w1 = w0 * 2;
          v = ucast t + k;
          u = u0 OR (if 0xFFFFFFFF - v < w1 then 1 else 0);
          w = w1 + v
      in do { pt' \<leftarrow> sqr_row a (CARRYOUT w OR push_bit 16 u) pa2 pt; Some (ACCUM w # pt') })"
| "sqr_row a k [] (t # pt) =
     (let k1 = ucast t + k in do { pt' \<leftarrow> sqr_cascade (CARRYOUT k1) pt; Some (ACCUM k1 # pt') })"
| "sqr_row a k pa2 [] = None"

text \<open>
  The rows of the square, each on the digits of the result from position \<open>2 * ix\<close> on; the
  first two of them are final after the row.
\<close>

fun sqr_loop :: "mw_mp_digit list \<Rightarrow> mw_mp_digit list \<Rightarrow> mw_mp_digit list option" where
  "sqr_loop [] pt = Some pt"
| "sqr_loop (a # pa) pt =
     do { pt' \<leftarrow> (if a = 0 then Some pt
                   else let w = ucast (hd pt) + ucast a * ucast a
                        in do { pt'' \<leftarrow> sqr_row a (CARRYOUT w) pa (tl pt); Some (ACCUM w # pt'') });
          rest \<leftarrow> sqr_loop pa (drop 2 pt');
          Some (take 2 pt' @ rest) }"

definition s_mw_mp_sqr :: "mw_mp_int \<Rightarrow> mw_mp_int option" where
  "s_mw_mp_sqr a =
     do { pt \<leftarrow> sqr_loop (take (mp_used a) (mp_dp a)) (replicate (2 * mp_used a) 0);
          Some (s_mw_mp_clamp \<lparr>mp_neg = False, mp_used = 2 * mp_used a, mp_dp = pt\<rparr>) }"

subsection \<open>Powers of two\<close>

function halve :: "mw_mp_digit \<Rightarrow> nat \<Rightarrow> mw_mp_digit \<times> nat" where
  "halve d extra = (if d \<noteq> 0 \<and> d AND 1 = 0 then halve (drop_bit 1 d) (Suc extra) else (d, extra))"
  by pat_completeness auto
termination
  by (relation "measure (\<lambda>(d, _). unat d)") (simp_all add: unat_drop_digit unat_gt_0 del: drop_bit_Suc)

declare halve.simps [simp del]

definition s_mw_mp_ispow2 :: "mw_mp_int \<Rightarrow> int" where
  "s_mw_mp_ispow2 v =
     (let uv = mp_used v; (d, extra) = halve (DIGIT v (uv - 1)) 0
      in if d = 1
         then if list_all (\<lambda>x. x = 0) (take (uv - 1) (mp_dp v))
              then int ((uv - 1) * DIGIT_BIT + extra) else -1
         else -1)"

definition s_mw_mp_2expt :: "mw_mp_int \<Rightarrow> mw_mp_digit \<Rightarrow> mw_mp_int" where
  "s_mw_mp_2expt a k =
     (let dig = unat k div DIGIT_BIT; bit = unat k mod DIGIT_BIT;
          a1 = s_mw_mp_pad (mw_mp_zero a) (dig + 1)
      in a1\<lparr>mp_dp := (mp_dp a1)[dig := DIGIT a1 dig OR push_bit bit 1]\<rparr>)"

subsection \<open>Division\<close>

fun div_d_loop :: "mw_mp_digit \<Rightarrow> mw_mp_digit list \<Rightarrow> mw_mp_digit list \<times> mw_mp_word" where
  "div_d_loop d [] = ([], 0)"
| "div_d_loop d (x # xs) =
     (let (qs, w0) = div_d_loop d xs;
          w = push_bit 16 w0 OR ucast x
      in if ucast d \<le> w then (ucast (w div ucast d) # qs, w mod ucast d) else (0 # qs, w))"

definition s_mw_mp_div_d :: "mw_mp_int \<Rightarrow> mw_mp_digit \<Rightarrow> mw_mp_err \<times> mw_mp_int \<times> mw_mp_digit" where
  "s_mw_mp_div_d a d =
     (if d = 0 then (MP_RANGE, a, 0)
      else let (qs, w) = div_d_loop d (take (mp_used a) (mp_dp a))
           in (MP_OKAY, s_mw_mp_clamp \<lparr>mp_neg = False, mp_used = mp_used a, mp_dp = qs\<rparr>, ucast w))"

text \<open>The loop of \<open>s_mw_mp_norm\<close>; it does not end on a leading digit of zero.\<close>

partial_function (option) norm_loop :: "mw_mp_digit \<Rightarrow> mw_mp_digit \<Rightarrow> mw_mp_digit option" where
  "norm_loop t d = (if t < 0x8000 then norm_loop (push_bit 1 t) (d + 1) else Some d)"

definition s_mw_mp_norm :: "mw_mp_int \<Rightarrow> mw_mp_int \<Rightarrow> (mw_mp_digit \<times> mw_mp_int \<times> mw_mp_int) option" where
  "s_mw_mp_norm a b =
     do { d \<leftarrow> norm_loop (DIGIT b (mp_used b - 1)) 0;
          Some (if d \<noteq> 0 then (d, s_mw_mp_mul_2d a d, s_mw_mp_mul_2d b d) else (d, a, b)) }"

text \<open>
  The inner loop of \<open>s_mw_mp_div\<close>: digits of the dividend, the highest first, are moved to the
  remainder until it is not below the divisor.
\<close>

fun div_find :: "mw_mp_int \<Rightarrow> mw_mp_int \<Rightarrow> mw_mp_int \<Rightarrow> mw_mp_digit list \<Rightarrow> mw_mp_int \<times> mw_mp_int \<times> mw_mp_digit list" where
  "div_find b rem quot [] = (rem, quot, [])"
| "div_find b rem quot (x # rest) =
     (if s_mw_mp_cmp rem b < 0
      then let rem1 = s_mw_mp_lshd rem 1; quot1 = s_mw_mp_lshd quot 1;
               rem2 = s_mw_mp_clamp (rem1\<lparr>mp_dp := (mp_dp rem1)[0 := x]\<rparr>)
           in div_find b rem2 quot1 rest
      else (rem, quot, x # rest))"

definition div_guess :: "mw_mp_int \<Rightarrow> mw_mp_int \<Rightarrow> mw_mp_word" where
  "div_guess rem b =
     (let top = ucast (DIGIT b (mp_used b - 1)) :: mw_mp_word;
          q0 = ucast (DIGIT rem (mp_used rem - 1)) :: mw_mp_word;
          q1 = (if q0 \<le> top \<and> 1 < mp_used rem
                then push_bit 16 q0 OR ucast (DIGIT rem (mp_used rem - 2)) else q0);
          q2 = q1 div top
      in if 65536 \<le> q2 then 65535 else q2)"

partial_function (option) div_back :: "mw_mp_int \<Rightarrow> mw_mp_int \<Rightarrow> mw_mp_word \<Rightarrow> mw_mp_int \<Rightarrow> (mw_mp_word \<times> mw_mp_int) option" where
  "div_back b rem q t =
     (if s_mw_mp_cmp t rem > 0
      then do { (res, t') \<leftarrow> s_mw_mp_sub t b; div_back b rem (q - 1) t' }
      else Some (q, t))"

partial_function (option) div_loop ::
    "mw_mp_int \<Rightarrow> mw_mp_int \<Rightarrow> mw_mp_int \<Rightarrow> mw_mp_int \<Rightarrow> mw_mp_digit list \<Rightarrow> (mw_mp_err \<times> mw_mp_int \<times> mw_mp_int) option" where
  "div_loop b quot rem t rest =
     (if rest = [] then Some (MP_OKAY, quot, rem)
      else let (rem1, quot1, rest1) = div_find b rem quot rest
           in if s_mw_mp_cmp rem1 b < 0 then Some (MP_OKAY, quot1, rem1)
              else let q = div_guess rem1 b; t1 = mw_mp_copy b t
                   in do { t2 \<leftarrow> s_mw_mp_mul_d t1 (ucast q);
                           (q', t3) \<leftarrow> div_back b rem1 q t2;
                           (res, rem2) \<leftarrow> s_mw_mp_sub rem1 t3;
                           if res \<noteq> MP_OKAY then Some (res, quot1, rem2)
                           else div_loop b (quot1\<lparr>mp_dp := (mp_dp quot1)[0 := ucast q']\<rparr>) rem2 t3 rest1 })"

definition s_mw_mp_div :: "mw_mp_int \<Rightarrow> mw_mp_int \<Rightarrow> (mw_mp_err \<times> mw_mp_int \<times> mw_mp_int) option" where
  "s_mw_mp_div a b =
     (if mw_mp_cmw_mp_z b = 0 then Some (MP_RANGE, a, b)
      else let ix = s_mw_mp_ispow2 b
           in if 0 \<le> ix
              then Some (MP_OKAY, s_mw_mp_div_2d a (of_int ix), s_mw_mp_mod_2d (mw_mp_copy a b) (of_int ix))
              else do { (d, a1, b1) \<leftarrow> s_mw_mp_norm a b;
                        (res, quot, rem) \<leftarrow>
                          div_loop b1 (mw_mp_init_size (mp_used a)) (mw_mp_init_size (mp_used a))
                            (mw_mp_init_size (mp_used a)) (rev (take (mp_used a1) (mp_dp a1)));
                        if res \<noteq> MP_OKAY then Some (res, a1, b1)
                        else Some (MP_OKAY, s_mw_mp_clamp quot,
                                   s_mw_mp_clamp (if d \<noteq> 0 then s_mw_mp_div_2d rem d else rem)) })"

section \<open>Addition and subtraction\<close>

lemma add_digits_val:
  assumes "add_digits w pa pb = (ys, w')" "unat w < RADIX" "length pb \<le> length pa"
  shows "length ys = length pa \<and> unat w' < RADIX
    \<and> digits_val ys + RADIX ^ length pa * unat w' = digits_val pa + digits_val pb + unat w"
  using assms
proof (induction w pa pb arbitrary: ys rule: add_digits.induct)
  case (1 w pa)
  then show ?case
    using carry_digits_val [of w pa ys w'] by simp
next
  case (3 w x pa y pb)
  define w1 where "w1 = w + (ucast x + ucast y)"
  obtain zs where zs: "add_digits (CARRYOUT w1) pa pb = (zs, w')" "ys = ACCUM w1 # zs"
    using 3(2) by (auto simp: Let_def w1_def split: prod.splits)
  have "unat x + unat y + unat w < 4294967296"
    using digit_less [of x] digit_less [of y] 3(3) by linarith
  then have w1: "unat w1 = unat x + unat y + unat w"
    unfolding w1_def by (simp add: unat_plus_word unat_digit_plus add.commute)
  have IH: "length zs = length pa" "unat w' < RADIX"
    "digits_val zs + RADIX ^ length pa * unat w' = digits_val pa + digits_val pb + unat (CARRYOUT w1)"
    using 3(1) [OF w1_def zs(1)] 3(4) by simp_all
  have "digits_val ys + RADIX ^ length (x # pa) * unat w'
      = unat (ACCUM w1) + RADIX * (digits_val zs + RADIX ^ length pa * unat w')"
    by (simp add: zs(2) algebra_simps)
  also have "\<dots> = digits_val (x # pa) + digits_val (y # pb) + unat w"
    unfolding IH(3) using word_split [of w1] w1 by (simp add: algebra_simps)
  finally show ?case
    using IH zs(2) by simp
qed simp

text \<open>The leading digit of a sum of clamped numbers is not zero.\<close>

lemma s_mw_mp_add_ok:
  assumes "mp_ok a" "mp_ok b"
  shows "mp_ok (s_mw_mp_add a b)" "mp_val (s_mw_mp_add a b) = mp_val a + mp_val b"
    "mp_neg (s_mw_mp_add a b) = mp_neg a"
    "mp_clamped a \<Longrightarrow> mp_clamped b \<Longrightarrow> mp_clamped (s_mw_mp_add a b)"
proof -
  define a1 where "a1 = (if mp_used a < mp_used b then s_mw_mp_pad a (mp_used b) else a)"
  have a1: "mp_ok a1" "mp_val a1 = mp_val a" "mp_neg a1 = mp_neg a" "mp_used a1 = max (mp_used a) (mp_used b)"
    using assms(1) s_mw_mp_pad_ok [OF assms(1), of "mp_used b"] by (auto simp: a1_def)
  obtain ys w where ys: "add_digits 0 (take (mp_used a1) (mp_dp a1)) (take (mp_used b) (mp_dp b)) = (ys, w)"
    by fastforce
  have len: "length ys = mp_used a1" "unat w < RADIX"
    and v: "digits_val ys + RADIX ^ mp_used a1 * unat w = mp_val a + mp_val b"
    using add_digits_val [OF ys] mp_val_digits [OF a1(1)] mp_val_digits [OF assms(2)] a1(2, 4)
      mp_okD(2) [OF a1(1)] mp_okD(2) [OF assms(2)] by simp_all
  define a2 where "a2 = a1\<lparr>mp_dp := ys @ drop (mp_used a1) (mp_dp a1)\<rparr>"
  define a3 where "a3 = s_mw_mp_pad a2 (mp_used a1 + 1)"
  have add: "s_mw_mp_add a b = (if w \<noteq> 0 then a3\<lparr>mp_dp := (mp_dp a3)[mp_used a1 := ucast w]\<rparr> else a2)"
    unfolding s_mw_mp_add_def Let_def a1_def [symmetric] ys by (simp add: a3_def a2_def)
  have a3: "mp_ok (a3\<lparr>mp_dp := (mp_dp a3)[mp_used a1 := ucast w]\<rparr>)"
    "mp_val (a3\<lparr>mp_dp := (mp_dp a3)[mp_used a1 := ucast w]\<rparr>) = mp_val a + mp_val b"
    "mp_used a3 = mp_used a1 + 1" "mp_neg a3 = mp_neg a"
    using store_digits_pad(1, 2) [OF a1(1) len(1), of "ucast w"] store_digits_pad(3, 4) [OF a1(1) len(1)]
      v unat_digit_of_word [OF len(2)] a1(3) unfolding a2_def a3_def by simp_all
  show val: "mp_val (s_mw_mp_add a b) = mp_val a + mp_val b"
    and ok: "mp_ok (s_mw_mp_add a b)" and "mp_neg (s_mw_mp_add a b) = mp_neg a"
    using a3 store_digits [OF a1(1) len(1)] v a1(3) by (auto simp: add a2_def)
  show "mp_clamped (s_mw_mp_add a b)" if "mp_clamped a" "mp_clamped b"
  proof (rule mp_clampedI [OF ok])
    assume used: "1 < mp_used (s_mw_mp_add a b)"
    have "RADIX ^ mp_used a1 \<le> mp_val a + mp_val b" if "w \<noteq> 0"
      unfolding v [symmetric] by (rule trans_le_add2) (use that in \<open>simp add: unat_gt_0 Suc_le_eq\<close>)
    moreover have "RADIX ^ (mp_used a1 - 1) \<le> mp_val a + mp_val b" if "1 < mp_used a1"
      using that a1(4) mp_val_ge [OF assms(1) \<open>mp_clamped a\<close>] mp_val_ge [OF assms(2) \<open>mp_clamped b\<close>]
      by (auto simp: max_def split: if_splits)
    ultimately show "RADIX ^ (mp_used (s_mw_mp_add a b) - 1) \<le> mp_val (s_mw_mp_add a b)"
      unfolding val using used a3(3) by (auto simp: add a2_def)
  qed
qed

lemma borrow_all_eq: "unat w \<le> 1 \<Longrightarrow> borrow_all w xs = borrow_digits w xs"
proof (induction w xs rule: borrow_all.induct)
  case (2 w x pa)
  show ?case
  proof (cases "w = 0")
    case True
    have "unat (65536 + ucast x :: mw_mp_word) = RADIX + unat x"
      using borrow_digit [of 0 x] by (subst unat_plus_word) (simp_all, use digit_less [of x] in linarith)
    then have w: "unat (ACCUM (65536 + ucast x)) = unat x" "CARRYOUT (65536 + ucast x) \<noteq> 0"
      by (simp_all add: unat_ACCUM CARRYOUT_eq_0)
    then have "ACCUM (65536 + ucast x) = x"
      by (simp add: word_unat_eq_iff)
    moreover have "borrow_all 0 pa = (pa, 0)"
      using 2(1) [OF refl] w True by simp (cases pa; simp)
    ultimately show ?thesis
      using w True by (simp add: Let_def)
  next
    case False
    then show ?thesis
      using 2 by (simp add: Let_def)
  qed
qed simp

lemma sub_digits_val:
  assumes "length pb \<le> length pa" "unat w \<le> 1"
  shows "\<exists>ys w'. sub_digits w pa pb = Some (ys, w') \<and> length ys = length pb \<and> unat w' \<le> 1
    \<and> digits_val ys + digits_val pb + unat w = digits_val (take (length pb) pa) + RADIX ^ length pb * unat w'"
  using assms
proof (induction w pa pb rule: sub_digits.induct)
  case (3 w x pa y pb)
  define w1 where "w1 = (65536 + ucast x) - w - ucast y"
  define c :: mw_mp_word where "c = (if CARRYOUT w1 \<noteq> 0 then 0 else 1)"
  obtain zs w' where IH: "sub_digits c pa pb = Some (zs, w')" "length zs = length pb" "unat w' \<le> 1"
    "digits_val zs + digits_val pb + unat c = digits_val (take (length pb) pa) + RADIX ^ length pb * unat w'"
  proof -
    have "unat c \<le> 1"
      by (simp add: c_def)
    then show thesis
      using 3(1) [OF w1_def, folded c_def] 3(2) that by fastforce
  qed
  have wy: "unat (w + ucast y) = unat w + unat y"
    using 3(3) by (subst add.commute, subst unat_digit_plus) simp_all
  have "unat (ACCUM w1) + unat (w + ucast y) = unat x + RADIX * unat c"
    using borrow_digit [of "w + ucast y" x] 3(3) digit_less [of y] wy
    by (simp add: w1_def c_def diff_diff_eq del: digit_less)
  then have head: "unat (ACCUM w1) + unat w + unat y = unat x + RADIX * unat c"
    using wy by simp
  have "digits_val (ACCUM w1 # zs) + digits_val (y # pb) + unat w
      = unat x + RADIX * (digits_val zs + digits_val pb + unat c)"
    using head by (simp add: algebra_simps)
  also have "\<dots> = digits_val (take (length (y # pb)) (x # pa)) + RADIX ^ length (y # pb) * unat w'"
    unfolding IH(4) by (simp add: algebra_simps)
  moreover have "sub_digits w (x # pa) (y # pb) = Some (ACCUM w1 # zs, w')"
    using IH(1) by (simp add: Let_def w1_def c_def)
  ultimately show ?case
    using IH(2, 3) by simp
qed simp_all


lemma s_mw_mp_sub_ok:
  assumes "mp_ok a" "mp_ok b" "mp_used b \<le> mp_used a" "mp_val b \<le> mp_val a"
  obtains c where "s_mw_mp_sub a b = Some (MP_OKAY, c)" "mp_wf c" "mp_val c = mp_val a - mp_val b"
    "mp_neg c \<longleftrightarrow> mp_neg a \<and> 0 < mp_val c"
proof -
  define pb where "pb = take (mp_used b) (mp_dp b)"
  define pa where "pa = take (mp_used b) (mp_dp a)"
  define n where "n = mp_used a - mp_used b"
  define rest where "rest = take n (drop (mp_used b) (mp_dp a))"
  have used: "mp_used a \<le> ALLOC a" "mp_used b \<le> ALLOC b" "1 \<le> mp_used a"
    using mp_okD assms(1, 2) by blast+
  have pb: "length pb = mp_used b" "digits_val pb = mp_val b" "length pa = mp_used b" "length rest = n"
    using used assms(3) by (simp_all add: pb_def pa_def rest_def n_def mp_val_digits [OF assms(2)])
  obtain ys w where ys: "sub_digits 0 (mp_dp a) pb = Some (ys, w)" "length ys = mp_used b" "unat w \<le> 1"
    "digits_val ys + mp_val b = digits_val pa + RADIX ^ mp_used b * unat w"
    using sub_digits_val [of pb "mp_dp a" 0] used assms(3) pb by (auto simp: pa_def)
  obtain zs w1 where zs: "borrow_digits w rest = (zs, w1)" by fastforce
  have z: "length zs = n" "digits_val zs + unat w = digits_val rest + RADIX ^ n * unat w1"
    using borrow_digits_val [OF zs ys(3)] pb(4) by simp_all
  have split: "take (mp_used a) (mp_dp a) = pa @ rest"
    unfolding pa_def rest_def n_def using assms(3) by (metis le_add_diff_inverse take_add)
  have "digits_val (ys @ zs) + mp_val b = digits_val pa + RADIX ^ mp_used b * (digits_val zs + unat w)"
    using ys(2, 4) by (simp add: digits_val_append algebra_simps)
  also have "\<dots> = mp_val a + RADIX ^ mp_used a * unat w1"
  proof -
    have "RADIX ^ mp_used a = RADIX ^ mp_used b * RADIX ^ n"
      using assms(3) by (simp add: n_def flip: power_add)
    then show ?thesis
      unfolding z(2) mp_val_digits [OF assms(1)] split using pb(3) by (simp add: digits_val_append algebra_simps)
  qed
  finally have "unat w1 = 0 \<and> digits_val (ys @ zs) = mp_val a - mp_val b"
    using digits_val_less [of "ys @ zs"] assms(3, 4) ys(2) z(1)
    by (intro no_borrow [of _ "mp_val b" _ "RADIX ^ mp_used a"]) (simp_all add: n_def)
  moreover define e where "e = a\<lparr>mp_dp := (ys @ zs) @ drop (mp_used a) (mp_dp a)\<rparr>"
  ultimately have e: "mp_ok e" "mp_val e = mp_val a - mp_val b" "w1 = 0"
    using store_digits [OF assms(1), of "ys @ zs"] ys(2) z(1) assms(3) by (simp_all add: unat_eq_zero n_def)
  have "s_mw_mp_sub a b = Some (MP_OKAY, s_mw_mp_clamp e)"
    using ys(1, 3) zs e(3) assms(3)
    by (simp add: s_mw_mp_sub_def Let_def e_def borrow_all_eq flip: pb_def n_def rest_def) (simp add: n_def)
  then show thesis
    using that [of "s_mw_mp_clamp e"] s_mw_mp_clamp_ok [OF e(1)] e(2) by (simp add: e_def)
qed

lemma used_mono:
  assumes "mp_ok a" "mp_ok b" "mp_clamped b" "mp_val b \<le> mp_val a"
  shows "mp_used b \<le> mp_used a"
  using mp_used_le_iff [OF assms(2, 3) mp_okD(1) [OF assms(1)]] mp_val_less [OF assms(1)] assms(4) by simp

lemma s_mw_mp_sub_wf:
  assumes "mp_ok a" "mp_ok b" "mp_clamped b" "mp_val b \<le> mp_val a"
  obtains c where "s_mw_mp_sub a b = Some (MP_OKAY, c)" "mp_wf c" "mp_val c = mp_val a - mp_val b"
    "mp_neg c \<longleftrightarrow> mp_neg a \<and> 0 < mp_val c"
  by (rule s_mw_mp_sub_ok [OF assms(1, 2) used_mono [OF assms] assms(4)])

section \<open>Multiplication\<close>

lemma unat_mul_add:
  assumes "unat k < RADIX"
  shows "unat (ucast (x :: mw_mp_digit) * ucast (y :: mw_mp_digit) + (k :: mw_mp_word)) = unat x * unat y + unat k"
    "unat (ucast (x :: mw_mp_digit) * ucast (y :: mw_mp_digit) + k + ucast (t :: mw_mp_digit)) = unat x * unat y + unat k + unat t"
proof -
  have "unat x * unat y \<le> 65535 * 65535"
    by (intro mult_mono) simp_all
  then have bound: "unat x * unat y + unat k + unat t < 4294967296"
    using assms digit_less [of t] by linarith
  then show one: "unat (ucast x * ucast y + k) = unat x * unat y + unat k"
    by (simp add: unat_plus_word unat_times_digits)
  show "unat (ucast x * ucast y + k + ucast t) = unat x * unat y + unat k + unat t"
    using bound by (simp add: unat_plus_word unat_times_digits)
qed

lemma mul_row_val:
  assumes "length pa < length pt" "drop (length pa) pt = replicate n 0" "unat k < RADIX"
  shows "length (mul_row b k pa pt) = length pt
    \<and> digits_val (mul_row b k pa pt) = digits_val pt + unat b * digits_val pa + unat k
    \<and> drop (Suc (length pa)) (mul_row b k pa pt) = replicate (n - 1) 0"
  using assms
proof (induction b k pa pt rule: mul_row.induct)
  case (1 b k x pa t pt)
  define w where "w = ucast b * ucast x + k + (ucast t :: mw_mp_word)"
  have w: "unat w = unat b * unat x + unat k + unat t"
    unfolding w_def by (rule unat_mul_add(2) [OF 1(4)])
  have IH: "length (mul_row b (CARRYOUT w) pa pt) = length pt"
    "digits_val (mul_row b (CARRYOUT w) pa pt) = digits_val pt + unat b * digits_val pa + unat (CARRYOUT w)"
    "drop (Suc (length pa)) (mul_row b (CARRYOUT w) pa pt) = replicate (n - 1) 0"
    using 1(1) [OF w_def] 1(2, 3) by simp_all
  have row: "mul_row b k (x # pa) (t # pt) = ACCUM w # mul_row b (CARRYOUT w) pa pt"
    by (simp add: Let_def w_def)
  have "digits_val (mul_row b k (x # pa) (t # pt)) = digits_val (t # pt) + unat b * digits_val (x # pa) + unat k"
    unfolding row using IH(2) word_split [of w] w by (simp add: algebra_simps)
  then show ?case
    unfolding row using IH by simp
next
  case (2 b k t pt)
  then have "t = 0" "pt = replicate (n - 1) 0"
    by (cases n, simp_all)+
  then show ?case
    using 2(3) by (simp add: unat_digit_of_word)
qed simp

lemma mul_loop_val:
  assumes "length pt = length pa + length pb" "drop (length pa) pt = replicate (length pb) 0"
  shows "length (mul_loop pa pb pt) = length pt
    \<and> digits_val (mul_loop pa pb pt) = digits_val pt + digits_val pa * digits_val pb"
  using assms
proof (induction pa pb pt rule: mul_loop.induct)
  case (2 pa b pb pt)
  define pt' where "pt' = (if b = 0 then pt else mul_row b 0 pa pt)"
  have row: "length pt' = length pt" "digits_val pt' = digits_val pt + unat b * digits_val pa"
    "drop (Suc (length pa)) pt' = replicate (length pb) 0"
  proof (atomize (full), cases "b = 0")
    case True
    have "drop 1 (drop (length pa) pt) = replicate (length pb) 0"
      unfolding 2(3) by simp
    then show "length pt' = length pt \<and> digits_val pt' = digits_val pt + unat b * digits_val pa
        \<and> drop (Suc (length pa)) pt' = replicate (length pb) 0"
      using True by (simp add: pt'_def)
  qed (use mul_row_val [of pa pt "length (b # pb)" 0 b] 2(2, 3) in \<open>simp add: pt'_def\<close>)
  obtain t ts where t: "pt' = t # ts"
    using row(1) 2(2) by (cases pt') simp_all
  have IH: "length (mul_loop pa pb ts) = length ts"
    "digits_val (mul_loop pa pb ts) = digits_val ts + digits_val pa * digits_val pb"
    using 2(1) [OF pt'_def] row(1, 3) 2(2) t by simp_all
  have loop: "mul_loop pa (b # pb) pt = t # mul_loop pa pb ts"
    using t by (simp add: Let_def flip: pt'_def)
  have "digits_val (mul_loop pa (b # pb) pt) = digits_val pt' + RADIX * (digits_val pa * digits_val pb)"
    unfolding loop by (simp add: IH(2) t algebra_simps)
  then show ?case
    using loop IH(1) row(1, 2) t by (simp add: algebra_simps)
qed simp

lemma s_mw_mp_mul_ok:
  assumes "mp_ok a" "mp_ok b"
  shows "mp_wf (s_mw_mp_mul a b)" "mp_val (s_mw_mp_mul a b) = mp_val a * mp_val b" "\<not> mp_neg (s_mw_mp_mul a b)"
proof -
  define r where "r = mul_loop (take (mp_used a) (mp_dp a)) (take (mp_used b) (mp_dp b)) (replicate (mp_used a + mp_used b) 0)"
  have used: "mp_used a \<le> ALLOC a" "mp_used b \<le> ALLOC b" "1 \<le> mp_used a"
    using mp_okD assms by blast+
  have r: "length r = mp_used a + mp_used b" "digits_val r = mp_val a * mp_val b"
    using mul_loop_val [of "replicate (mp_used a + mp_used b) 0" "take (mp_used a) (mp_dp a)" "take (mp_used b) (mp_dp b)"]
      used by (simp_all add: r_def mp_val_digits assms)
  define c where "c = \<lparr>mp_neg = False, mp_used = mp_used a + mp_used b, mp_dp = r\<rparr>"
  have "mp_ok c" "mp_val c = mp_val a * mp_val b"
    using r used(3) by (auto intro: mp_okI [of _ r 0] simp: c_def mp_val_def)
  moreover have "s_mw_mp_mul a b = s_mw_mp_clamp c"
    by (simp add: s_mw_mp_mul_def c_def r_def)
  ultimately show "mp_wf (s_mw_mp_mul a b)" "mp_val (s_mw_mp_mul a b) = mp_val a * mp_val b" "\<not> mp_neg (s_mw_mp_mul a b)"
    using s_mw_mp_clamp_ok [of c] by (simp_all add: c_def)
qed

lemma mul_d_loop_val:
  assumes "mul_d_loop d k xs = (ys, k')" "unat k < RADIX"
  shows "length ys = length xs \<and> unat k' < RADIX
    \<and> digits_val ys + RADIX ^ length xs * unat k' = digits_val xs * unat d + unat k"
  using assms
proof (induction xs arbitrary: k ys)
  case (Cons x xs)
  define w where "w = ucast x * ucast d + k"
  obtain zs where zs: "mul_d_loop d (CARRYOUT w) xs = (zs, k')" "ys = ACCUM w # zs"
    using Cons.prems(1) by (auto simp: Let_def w_def split: prod.splits)
  have w: "unat w = unat x * unat d + unat k"
    unfolding w_def by (rule unat_mul_add(1) [OF Cons.prems(2)])
  have IH: "length zs = length xs" "unat k' < RADIX"
    "digits_val zs + RADIX ^ length xs * unat k' = digits_val xs * unat d + unat (CARRYOUT w)"
    using Cons.IH [OF zs(1)] by simp_all
  have "digits_val ys + RADIX ^ length (x # xs) * unat k'
      = unat (ACCUM w) + RADIX * (digits_val zs + RADIX ^ length xs * unat k')"
    by (simp add: zs(2) algebra_simps)
  also have "\<dots> = digits_val (x # xs) * unat d + unat k"
    unfolding IH(3) using word_split [of w] w by (simp add: algebra_simps)
  finally show ?case
    using IH zs(2) by simp
qed simp

text \<open>
  \<open>s_mw_mp_mul_d\<close> provides for another digit only if the product of the leading digit needs one,
  whatever is carried into it. It is safe if there is room anyway, and it is safe for the
  normalised divisors of \<open>s_mw_mp_div\<close>.
\<close>

lemma s_mw_mp_mul_d_ok:
  assumes "mp_ok a" "mp_used a < ALLOC a \<or> unat d \<le> 1 \<or> 0x8000 \<le> DIGIT a (mp_used a - 1)"
  obtains c where "s_mw_mp_mul_d a d = Some c" "mp_wf c" "mp_val c = mp_val a * unat d"
    "mp_neg c \<longleftrightarrow> mp_neg a \<and> 0 < mp_val c"
proof -
  define top where "top = DIGIT a (mp_used a - 1)"
  define a1 where "a1 = (if CARRYOUT (ucast top * ucast d) \<noteq> 0 then s_mw_mp_pad a (mp_used a + 1) else a)"
  have a1: "mp_ok a1" "take (mp_used a) (mp_dp a1) = take (mp_used a) (mp_dp a)" "mp_neg a1 = mp_neg a" "mp_val a1 = mp_val a"
    "mp_used a \<le> mp_used a1" "CARRYOUT (ucast top * ucast d) \<noteq> 0 \<Longrightarrow> mp_used a1 = mp_used a + 1" "mp_used a \<le> ALLOC a1"
    "CARRYOUT (ucast top * ucast d) = 0 \<Longrightarrow> a1 = a"
    using assms(1) s_mw_mp_pad_ok [OF assms(1), of "mp_used a + 1"] mp_okD(2) [OF assms(1)]
      mp_okD(2) [OF s_mw_mp_pad_ok(1) [OF assms(1), of "mp_used a + 1"]] by (auto simp: a1_def)
  obtain ys k where ys: "mul_d_loop d 0 (take (mp_used a) (mp_dp a1)) = (ys, k)" by fastforce
  have v: "length ys = mp_used a" "unat k < RADIX" "digits_val ys + RADIX ^ mp_used a * unat k = mp_val a * unat d"
    using mul_d_loop_val [OF ys] a1(2) mp_val_digits [OF assms(1)] mp_okD(2) [OF assms(1)] by simp_all
  define b where "b = a1\<lparr>mp_used := mp_used a\<rparr>"
  have "digits_val (drop (mp_used a) (mp_dp a1)) = 0"
    using a1(2, 4) mp_val_digits [OF assms(1)] digits_val_split [of "mp_dp a1" "mp_used a"]
    by (simp add: mp_val_def)
  then have zeros: "drop (mp_used a) (mp_dp a1) = replicate (ALLOC a1 - mp_used a) 0"
    using all_zero_replicate [of "drop (mp_used a) (mp_dp a1)"] by (simp add: digits_val_eq_0 list_all_iff)
  then have b: "mp_ok b" "mp_used b = mp_used a"
    using a1(7) mp_okD(1) [OF assms(1)] by (simp_all add: b_def mp_ok_def list_all_iff)
  have small: "k = 0" if "unat d \<le> 1"
  proof (rule ccontr)
    assume "k \<noteq> 0"
    then have "RADIX ^ mp_used a \<le> RADIX ^ mp_used a * unat k"
      by (simp add: unat_gt_0 Suc_le_eq)
    also have "\<dots> \<le> mp_val a * unat d"
      unfolding v(3) [symmetric] by simp
    also have "\<dots> \<le> mp_val a * 1"
      using that by (rule mult_le_mono2)
    finally show False
      using mp_val_less [OF assms(1)] by simp
  qed
  have room: "mp_used a < ALLOC a1" if "k \<noteq> 0"
  proof (cases "CARRYOUT (ucast top * ucast d) = 0")
    case True
    then have "unat top * unat d < RADIX"
      by (simp add: CARRYOUT_eq_0 unat_times_digits)
    moreover have "0x8000 * 2 \<le> unat top * unat d" if "0x8000 \<le> top" "\<not> unat d \<le> 1"
      using that by (intro mult_le_mono) (simp_all add: word_le_nat_alt)
    ultimately show ?thesis
      using assms(2) small \<open>k \<noteq> 0\<close> a1(8) [OF True] by (auto simp: top_def)
  qed (use a1(6) mp_okD(2) [OF a1(1)] in simp)
  define e where "e = (if k \<noteq> 0
    then b\<lparr>mp_dp := (ys @ drop (mp_used a) (mp_dp b))[mp_used a := ucast k], mp_used := mp_used a + 1\<rparr>
    else a1\<lparr>mp_dp := ys @ drop (mp_used a) (mp_dp a1)\<rparr>)"
  have "mp_ok e \<and> mp_val e = mp_val a * unat d"
  proof (cases "k = 0")
    case True
    then show ?thesis
      using v(1, 3) zeros a1(1, 5, 7) by (auto simp: e_def mp_ok_def mp_val_def list_all_iff drop_replicate)
  next
    case False
    then show ?thesis
      using store_digits_carry [OF b(1), of ys "ucast k"] b(2) v room unat_digit_of_word [OF v(2)] by (simp add: e_def b_def)
  qed
  then have e: "mp_ok e" "mp_val e = mp_val a * unat d" "mp_neg e = mp_neg a"
    using a1(3) by (simp_all add: e_def b_def)
  have "s_mw_mp_mul_d a d = Some (s_mw_mp_clamp e)"
    unfolding s_mw_mp_mul_d_def Let_def top_def [symmetric] a1_def [symmetric] ys
    using room v(1) a1(7) by (simp add: e_def b_def)
  then show thesis
    using that s_mw_mp_clamp_ok [OF e(1)] e by simp
qed

section \<open>Squaring\<close>

lemma word_join:
  assumes "unat (x :: mw_mp_word) < RADIX" "unat u < RADIX"
  shows "unat (push_bit 16 u OR x) = RADIX * unat u + unat x" "unat (x OR push_bit 16 u) = RADIX * unat u + unat x"
proof -
  have x: "\<not> bit x n" if "16 \<le> n" for n
  proof -
    have "(2 :: nat) ^ 16 \<le> 2 ^ n"
      using that by (intro power_increasing) simp_all
    then have "unat x < 2 ^ n"
      using assms(1) by simp
    then have "\<not> bit (unat x) n"
      by (simp add: bit_iff_odd)
    then show ?thesis
      by (simp add: bit_unsigned_iff)
  qed
  have or: "push_bit 16 u OR x = push_bit 16 u + x"
    by (rule disjunctive_add [symmetric]) (auto simp: bit_simps x)
  have u: "unat (push_bit 16 u) = RADIX * unat u"
    unfolding unsigned_push_bit_eq using assms(2) by (simp add: push_bit_eq_mult take_bit_nat_eq_self)
  have "RADIX * unat u + unat x < 4294967296"
    using assms by linarith
  then show "unat (push_bit 16 u OR x) = RADIX * unat u + unat x"
    unfolding or by (simp add: unat_plus_word u)
  then show "unat (x OR push_bit 16 u) = RADIX * unat u + unat x"
    by (simp only: or.commute)
qed

text \<open>
  The sum of one inner step of the squaring needs 33 bits: the 32 bits of \<open>w\<close> and the overflow
  \<open>u\<close> that the code notes before it happens.
\<close>

definition sqr_u :: "mw_mp_word \<Rightarrow> mw_mp_word \<Rightarrow> mw_mp_word" where
  "sqr_u w0 v = (drop_bit 31 w0 AND 1) OR (if 0xFFFFFFFF - v < w0 * 2 then 1 else 0)"

lemma sqr_overflow:
  assumes "2 * unat w0 + unat v < 2 ^ 33" "unat v < 2 ^ 31"
  shows "unat (w0 * 2 + v) + 2 ^ 32 * unat (sqr_u w0 v) = 2 * unat w0 + unat v" "unat (sqr_u w0 v) \<le> 1"
proof -
  have lt: "unat w0 < 4294967296"
    using unsigned_less [of w0] by simp
  have w1: "unat (w0 * 2) = (if unat w0 < 2147483648 then 2 * unat w0 else 2 * unat w0 - 4294967296)"
    using lt by (auto simp: unat_word_ariths le_mod_geq)
  have "drop_bit 31 w0 AND 1 = (if unat w0 < 2147483648 then 0 else 1)"
  proof -
    have "unat (drop_bit 31 w0) = unat w0 div 2147483648"
      by (simp add: drop_bit_eq_div unat_div)
    also have "\<dots> = (if unat w0 < 2147483648 then 0 else 1)"
      using lt by (auto simp: div_if)
    finally have "drop_bit 31 w0 = (if unat w0 < 2147483648 then 0 else 1)"
      by (auto simp: word_unat_eq_iff)
    then show ?thesis by simp
  qed
  moreover have "0xFFFFFFFF - v < w0 * 2 \<longleftrightarrow> 4294967296 \<le> unat (w0 * 2) + unat v"
  proof -
    have "unat (0xFFFFFFFF - v) = 4294967295 - unat v"
      using assms(2) by (subst unat_sub) (simp_all add: word_le_nat_alt)
    then show ?thesis
      unfolding word_less_nat_alt using assms(2) by auto
  qed
  ultimately have u: "unat (sqr_u w0 v) = (if unat w0 < 2147483648 \<and> unat (w0 * 2) + unat v < 4294967296 then 0 else 1)"
    by (auto simp: sqr_u_def)
  show "unat (sqr_u w0 v) \<le> 1"
    by (simp add: u)
  have sum: "unat (w0 * 2 + v) = (unat (w0 * 2) + unat v) mod 4294967296"
    by (simp add: unat_word_ariths(1))
  show "unat (w0 * 2 + v) + 2 ^ 32 * unat (sqr_u w0 v) = 2 * unat w0 + unat v"
    unfolding sum u using w1 assms lt by (auto simp: le_mod_geq)
qed

lemma sqr_step:
  fixes a y t :: mw_mp_digit and k :: mw_mp_word
  assumes "unat k \<le> 131070"
  defines "w0 \<equiv> ucast a * ucast y" and "v \<equiv> ucast t + k"
  defines "k' \<equiv> CARRYOUT (w0 * 2 + v) OR push_bit 16 (sqr_u w0 v)"
  shows "unat (ACCUM (w0 * 2 + v)) + RADIX * unat k' = 2 * unat a * unat y + unat t + unat k" "unat k' \<le> 131070"
proof -
  have "unat a * unat y \<le> 65535 * 65535"
    by (intro mult_mono) simp_all
  then have p: "unat w0 \<le> 4294836225" "unat w0 = unat a * unat y"
    by (simp_all add: w0_def unat_times_digits)
  have "unat t + unat k < 4294967296"
    using assms(1) digit_less [of t] by linarith
  then have v: "unat v = unat t + unat k"
    unfolding v_def by (simp add: unat_plus_word)
  have total: "2 * unat w0 + unat v \<le> 8589869055"
    using v p(1) assms(1) digit_le [of t] by linarith
  have sum: "unat (w0 * 2 + v) + 2 ^ 32 * unat (sqr_u w0 v) = 2 * unat w0 + unat v" "unat (sqr_u w0 v) \<le> 1"
    using sqr_overflow [of w0 v] total v assms(1) digit_le [of t] by (simp_all del: digit_le)
  have k': "unat k' = RADIX * unat (sqr_u w0 v) + unat (CARRYOUT (w0 * 2 + v))"
    unfolding k'_def by (rule word_join(2)) (use sum(2) in simp_all)
  have "unat (ACCUM (w0 * 2 + v)) + RADIX * unat k' = 2 * unat w0 + unat v"
    unfolding k' using word_split [of "w0 * 2 + v"] sum(1) by (simp add: algebra_simps)
  then show "unat (ACCUM (w0 * 2 + v)) + RADIX * unat k' = 2 * unat a * unat y + unat t + unat k"
    by (simp add: p(2) v)
  have "RADIX * unat k' \<le> 8589869055"
    using \<open>unat (ACCUM (w0 * 2 + v)) + RADIX * unat k' = 2 * unat w0 + unat v\<close> total by linarith
  then show "unat k' \<le> 131070" by linarith
qed

lemma sqr_cascade_val:
  assumes "digits_val pt + unat k < RADIX ^ length pt" "unat k \<le> 1"
  shows "\<exists>r. sqr_cascade k pt = Some r \<and> length r = length pt \<and> digits_val r = digits_val pt + unat k"
  using assms
proof (induction k pt rule: sqr_cascade.induct)
  case (2 k t pt)
  show ?case
  proof (cases "k = 0")
    case False
    then have k: "unat k = 1"
      using 2(3) unat_gt_0 [of k] by simp
    define k1 :: mw_mp_word where "k1 = ucast t + 1"
    have k1: "unat k1 = unat t + 1"
      unfolding k1_def by (simp add: unat_digit_plus)
    have c: "unat (CARRYOUT k1) \<le> 1"
    proof -
      have "unat k1 \<le> RADIX"
        unfolding k1 using digit_less [of t] by linarith
      then show ?thesis
        using div_le_mono [of "unat k1" RADIX RADIX] by (simp add: unat_CARRYOUT)
    qed
    have "RADIX * (digits_val pt + unat (CARRYOUT k1)) \<le> digits_val (t # pt) + unat k"
      using word_split [of k1] k1 k by simp
    also have "\<dots> < RADIX * RADIX ^ length pt"
      using 2(2) by simp
    finally have "digits_val pt + unat (CARRYOUT k1) < RADIX ^ length pt" by simp
    then obtain r where r: "sqr_cascade (CARRYOUT k1) pt = Some r" "length r = length pt"
      "digits_val r = digits_val pt + unat (CARRYOUT k1)"
      using 2(1) [OF False k1_def] c by blast
    then show ?thesis
      using False word_split [of k1] k1 k by (auto simp: Let_def k1_def algebra_simps)
  qed simp
qed (simp add: unat_eq_zero)


lemma sqr_row_val:
  assumes "unat k \<le> 131070" "length pa < length pt"
    "digits_val pt + 2 * unat a * digits_val pa + unat k < 2 * RADIX ^ Suc (length pa)"
    "digits_val pt + 2 * unat a * digits_val pa + unat k < RADIX ^ length pt"
  shows "\<exists>r. sqr_row a k pa pt = Some r \<and> length r = length pt
    \<and> digits_val r = digits_val pt + 2 * unat a * digits_val pa + unat k"
  using assms
proof (induction a k pa pt rule: sqr_row.induct)
  case (1 a k y pa t pt)
  define w0 :: mw_mp_word where "w0 = ucast a * ucast y"
  define v where "v = ucast t + k"
  define w where "w = w0 * 2 + v"
  define k' where "k' = CARRYOUT w OR push_bit 16 (sqr_u w0 v)"
  have step: "unat (ACCUM w) + RADIX * unat k' = 2 * unat a * unat y + unat t + unat k" "unat k' \<le> 131070"
    unfolding k'_def w_def w0_def v_def by (rule sqr_step [OF 1(2)])+
  have row: "sqr_row a k (y # pa) (t # pt) = do { pt' \<leftarrow> sqr_row a k' pa pt; Some (ACCUM w # pt') }"
    by (simp add: Let_def k'_def w_def w0_def v_def sqr_u_def)
  have total: "digits_val (t # pt) + 2 * unat a * digits_val (y # pa) + unat k
      = unat (ACCUM w) + RADIX * (digits_val pt + 2 * unat a * digits_val pa + unat k')"
    using step(1) by (simp add: algebra_simps)
  have "RADIX * (digits_val pt + 2 * unat a * digits_val pa + unat k') < RADIX * (2 * RADIX ^ Suc (length pa))"
    using 1(4) unfolding total by simp
  moreover have "RADIX * (digits_val pt + 2 * unat a * digits_val pa + unat k') < RADIX * RADIX ^ length pt"
    using 1(5) unfolding total by simp
  ultimately obtain r where r: "sqr_row a k' pa pt = Some r" "length r = length pt"
    "digits_val r = digits_val pt + 2 * unat a * digits_val pa + unat k'"
    using 1(1) [OF w0_def refl refl v_def refl refl, folded sqr_u_def w_def k'_def] 1(3) step(2)
    by (fastforce simp: sqr_u_def w_def k'_def)
  then show ?case
    unfolding total row using r by simp
next
  case (2 a k t pt)
  define k1 where "k1 = ucast t + k"
  have "unat t + unat k < 4294967296"
    using 2(1) digit_less [of t] by linarith
  then have k1: "unat k1 = unat t + unat k"
    unfolding k1_def by (simp add: unat_plus_word)
  have total: "digits_val (t # pt) + unat k = unat (ACCUM k1) + RADIX * (digits_val pt + unat (CARRYOUT k1))"
    using word_split [of k1] k1 by simp
  have "RADIX * (digits_val pt + unat (CARRYOUT k1)) < RADIX * 2"
    using 2(3) total by simp
  then have c: "unat (CARRYOUT k1) \<le> 1" by simp
  have "RADIX * (digits_val pt + unat (CARRYOUT k1)) < RADIX * RADIX ^ length pt"
    using 2(4) total by simp
  then obtain r where r: "sqr_cascade (CARRYOUT k1) pt = Some r" "length r = length pt"
    "digits_val r = digits_val pt + unat (CARRYOUT k1)"
    using sqr_cascade_val [OF _ c, of pt] by auto
  then show ?case
    using total by (auto simp: Let_def k1_def)
qed simp

text \<open>
  The rows of the square stay small enough that the carry out of a row is at most one, which is
  all the cascade adds, and that it ends within the digits of the result.
\<close>

lemma sqr_row_bound:
  assumes "a < (B :: nat)" "V \<le> 2 * (a + B * A)"
  shows "V + a * a + 2 * a * (B * A) < B * B * (2 * A + 1)"
proof -
  have "V + a * a + 2 * a * (B * A) < (a + 1) * (a + 1) + 2 * (B * A) * (a + 1)"
    using assms(2) by (simp add: algebra_simps)
  also have "\<dots> \<le> B * B + 2 * (B * A) * B"
    using assms(1) by (intro add_mono mult_le_mono) simp_all
  also have "\<dots> = B * B * (2 * A + 1)"
    by (simp add: algebra_simps)
  finally show ?thesis .
qed

lemma odd_below_square: "A < (M :: nat) \<Longrightarrow> 2 * A + 1 \<le> M * M"
proof -
  assume "A < M"
  then obtain d where "M = A + 1 + d"
    using less_imp_Suc_add by fastforce
  then show ?thesis
    by (simp add: algebra_simps)
qed

lemma sqr_loop_row:
  assumes "length pt = 2 * Suc (length pa)" "digits_val pt \<le> 2 * digits_val (a # pa)"
  shows "\<exists>pt'. (if a = 0 then Some pt
      else let w = ucast (hd pt) + ucast a * ucast a
           in do { pt'' \<leftarrow> sqr_row a (CARRYOUT w) pa (tl pt); Some (ACCUM w # pt'') }) = Some pt'
    \<and> length pt' = length pt \<and> digits_val pt' = digits_val pt + unat a * unat a + 2 * unat a * (RADIX * digits_val pa)
    \<and> digits_val pt' < RADIX * RADIX * (2 * digits_val pa + 1)"
proof -
  define n where "n = length pa"
  define A where "A = digits_val pa"
  define V' where "V' = digits_val pt + unat a * unat a + 2 * unat a * (RADIX * A)"
  have V': "V' < RADIX * RADIX * (2 * A + 1)"
    unfolding V'_def by (rule sqr_row_bound) (use assms(2) in \<open>simp_all add: A_def\<close>)
  have A: "A < RADIX ^ n"
    using digits_val_less [of pa] by (simp add: A_def n_def)
  have "RADIX * RADIX * (2 * A + 1) \<le> RADIX * RADIX * (2 * RADIX ^ n)"
    using A by (intro mult_le_mono2) simp
  then have b1: "V' < RADIX * (2 * RADIX ^ Suc n)"
    using V' by simp
  have "RADIX * RADIX * (2 * A + 1) \<le> RADIX * RADIX * (RADIX ^ n * RADIX ^ n)"
    by (rule mult_le_mono2) (rule odd_below_square [OF A])
  also have "\<dots> = RADIX * RADIX ^ (2 * n + 1)"
    by (simp add: mult_2 power_add)
  finally have b2: "V' < RADIX * RADIX ^ (2 * n + 1)"
    using V' by simp
  obtain t ts where t: "pt = t # ts" "length ts = 2 * n + 1"
    using assms(1) by (cases pt) (simp_all add: n_def)
  define w :: mw_mp_word where "w = ucast t + ucast a * ucast a"
  have w: "unat w = unat t + unat a * unat a"
    unfolding w_def using unat_mul_add(1) [of "ucast t" a a] by (simp add: add.commute)
  have split: "V' = unat (ACCUM w) + RADIX * (digits_val ts + 2 * unat a * A + unat (CARRYOUT w))"
    using word_split [of w] w t(1) by (simp add: V'_def algebra_simps)
  have k: "unat (CARRYOUT w) \<le> 131070"
    using CARRYOUT_less [of w] by linarith
  have "RADIX * (digits_val ts + 2 * unat a * A + unat (CARRYOUT w)) < RADIX * (2 * RADIX ^ Suc n)"
    using b1 unfolding split by simp
  moreover have "RADIX * (digits_val ts + 2 * unat a * A + unat (CARRYOUT w)) < RADIX * RADIX ^ length ts"
    using b2 unfolding split t(2) by simp
  ultimately obtain r where r: "sqr_row a (CARRYOUT w) pa ts = Some r" "length r = length ts"
    "digits_val r = digits_val ts + 2 * unat a * A + unat (CARRYOUT w)"
    using sqr_row_val [OF k, of pa ts a] t(2) by (auto simp: n_def A_def)
  show ?thesis
  proof (cases "a = 0")
    case True
    then show ?thesis
      using V' by (simp add: V'_def A_def)
  next
    case False
    have "digits_val (ACCUM w # r) = V'"
      unfolding split by (simp add: r(3))
    then show ?thesis
      using False r(1, 2) V' t(1) by (simp add: Let_def w_def V'_def A_def)
  qed
qed

lemma sqr_loop_val:
  assumes "length pt = 2 * length pa" "digits_val pt \<le> 2 * digits_val pa"
  shows "\<exists>r. sqr_loop pa pt = Some r \<and> length r = length pt
    \<and> digits_val r = digits_val pt + digits_val pa * digits_val pa"
  using assms
proof (induction pa pt rule: sqr_loop.induct)
  case (2 a pa pt)
  define A where "A = digits_val pa"
  obtain pt' where pt': "(if a = 0 then Some pt
      else let w = ucast (hd pt) + ucast a * ucast a
           in do { pt'' \<leftarrow> sqr_row a (CARRYOUT w) pa (tl pt); Some (ACCUM w # pt'') }) = Some pt'"
    "length pt' = length pt" "digits_val pt' = digits_val pt + unat a * unat a + 2 * unat a * (RADIX * A)"
    "digits_val pt' < RADIX * RADIX * (2 * A + 1)"
    using sqr_loop_row [of pt pa a] 2(2, 3) unfolding A_def by auto
  have "digits_val (drop 2 pt') < 2 * A + 1"
    unfolding digits_val_drop using pt'(4) by (intro less_mult_imp_div_less) (simp add: power2_eq_square mult.commute)
  then obtain r where r: "sqr_loop pa (drop 2 pt') = Some r" "length r = length (drop 2 pt')"
    "digits_val r = digits_val (drop 2 pt') + A * A"
    using 2(1) [of pt'] 2(2) pt'(1, 2) by (fastforce simp: A_def)
  have "digits_val (take 2 pt' @ r) = digits_val pt' + RADIX * RADIX * (A * A)"
    using digits_val_split [of pt' 2] r(3) pt'(2) 2(2)
    by (simp add: digits_val_append min_absorb1 power2_eq_square algebra_simps)
  then have "digits_val (take 2 pt' @ r) = digits_val pt + digits_val (a # pa) * digits_val (a # pa)"
    unfolding pt'(3) by (simp add: A_def algebra_simps)
  moreover have "sqr_loop (a # pa) pt = Some (take 2 pt' @ r)"
    using pt'(1) r(1) by simp
  moreover have "length (take 2 pt' @ r) = length pt"
    using r(2) pt'(2) 2(2) by simp
  ultimately show ?case by blast
qed simp

lemma s_mw_mp_sqr_ok:
  assumes "mp_ok a"
  obtains c where "s_mw_mp_sqr a = Some c" "mp_wf c" "mp_val c = mp_val a * mp_val a" "\<not> mp_neg c"
proof -
  have used: "mp_used a \<le> ALLOC a" "1 \<le> mp_used a"
    using mp_okD assms by blast+
  obtain r where r: "sqr_loop (take (mp_used a) (mp_dp a)) (replicate (2 * mp_used a) 0) = Some r"
    "length r = 2 * mp_used a" "digits_val r = mp_val a * mp_val a"
    using sqr_loop_val [of "replicate (2 * mp_used a) 0" "take (mp_used a) (mp_dp a)"] used
    by (auto simp: mp_val_digits [OF assms])
  define c where "c = \<lparr>mp_neg = False, mp_used = 2 * mp_used a, mp_dp = r\<rparr>"
  have "mp_ok c" "mp_val c = mp_val a * mp_val a"
    using r used(2) by (auto intro: mp_okI [of _ r 0] simp: c_def mp_val_def)
  then show thesis
    using that [of "s_mw_mp_clamp c"] s_mw_mp_clamp_ok [of c] r(1) by (simp add: s_mw_mp_sqr_def c_def)
qed

lemma digits_val_inj: "length xs = length ys \<Longrightarrow> digits_val xs = digits_val ys \<Longrightarrow> xs = ys"
proof (induction xs ys rule: list_induct2)
  case (Cons x xs y ys)
  have "unat x = digits_val (x # xs) mod RADIX" "unat y = digits_val (y # ys) mod RADIX"
    using digit_less [of x] digit_less [of y] by simp_all
  then have "unat x = unat y"
    by (simp only: Cons.prems)
  then show ?case
    using Cons by (simp add: word_unat_eq_iff)
qed simp

text \<open>
  The squaring routine, with its explicit overflow detection in the doubled products
  and its cascading carry, never leaves its result array and returns digit for digit the number
  that the general multiplication returns.
\<close>

theorem s_mw_mp_sqr_eq_mul: "mp_ok a \<Longrightarrow> s_mw_mp_sqr a = Some (s_mw_mp_mul a a)"
proof -
  assume a: "mp_ok a"
  define pa where "pa = take (mp_used a) (mp_dp a)"
  define z :: "mw_mp_digit list" where "z = replicate (2 * mp_used a) 0"
  have pa: "length pa = mp_used a"
    using mp_okD(2) [OF a] by (simp add: pa_def)
  obtain r where r: "sqr_loop pa z = Some r" "length r = 2 * mp_used a" "digits_val r = digits_val pa * digits_val pa"
    using sqr_loop_val [of z pa] pa by (auto simp: z_def)
  have "length (mul_loop pa pa z) = length r" "digits_val (mul_loop pa pa z) = digits_val r"
    using mul_loop_val [of z pa pa] pa r(2, 3) by (simp_all add: z_def)
  then have "mul_loop pa pa z = r"
    by (rule digits_val_inj)
  then show ?thesis
    using r(1) by (simp add: s_mw_mp_sqr_def s_mw_mp_mul_def z_def pa_def flip: mult_2)
qed

theorem s_mw_mp_sqr_eq_mul_witness:
  "s_mw_mp_sqr \<lparr>mp_neg = False, mp_used = 2, mp_dp = [0xFFFF, 0xFFFF]\<rparr>
   = Some (s_mw_mp_mul \<lparr>mp_neg = False, mp_used = 2, mp_dp = [0xFFFF, 0xFFFF]\<rparr>
                       \<lparr>mp_neg = False, mp_used = 2, mp_dp = [0xFFFF, 0xFFFF]\<rparr>)"
  by (rule s_mw_mp_sqr_eq_mul) (simp add: mp_ok_def)

section \<open>Powers of two\<close>

lemma halve_val: "halve d e = (d', e') \<Longrightarrow> unat d = unat d' * 2 ^ (e' - e) \<and> e \<le> e'"
proof (induction d e rule: halve.induct)
  case (1 d e)
  show ?case
  proof (cases "d \<noteq> 0 \<and> d AND 1 = 0")
    case True
    have "even (unat d)"
      using True digit_and_mask [of d 1] by (auto simp: even_iff_mod_2_eq_zero)
    then have "unat d = 2 * unat (drop_bit 1 d)"
      by (simp only: unat_drop_digit) simp
    moreover have "halve (drop_bit 1 d) (Suc e) = (d', e')"
      using 1(2) True by (subst (asm) halve.simps) simp
    then have "unat (drop_bit 1 d) = unat d' * 2 ^ (e' - Suc e) \<and> Suc e \<le> e'"
      using 1(1) [OF True] by simp
    ultimately show ?thesis
      by (simp add: mult.left_commute flip: power_Suc) (simp add: Suc_diff_Suc)
  next
    case False
    then show ?thesis
      using 1(2) by (subst (asm) halve.simps) auto
  qed
qed

lemma s_mw_mp_ispow2_val:
  assumes "mp_ok v" "0 \<le> s_mw_mp_ispow2 v"
  shows "mp_val v = 2 ^ nat (s_mw_mp_ispow2 v)"
proof -
  define n where "n = mp_used v - 1"
  obtain d e where h: "halve (DIGIT v n) 0 = (d, e)" by fastforce
  have pow: "d = 1" "list_all (\<lambda>x. x = 0) (take n (mp_dp v))" "s_mw_mp_ispow2 v = int (n * 16 + e)"
    using assms(2) h by (auto simp: s_mw_mp_ispow2_def Let_def n_def split: if_splits)
  have n: "mp_used v = Suc n" "n < ALLOC v"
    using mp_okD(1, 2) [OF assms(1)] by (simp_all add: n_def)
  have "take n (mp_dp v) = replicate n 0"
    using all_zero_replicate [OF pow(2)] n(2) by simp
  then have "mp_val v = RADIX ^ n * unat (DIGIT v n)"
    using n by (simp add: mp_val_digits [OF assms(1)] take_Suc_conv_app_nth digits_val_append)
  also have "\<dots> = 2 ^ (n * 16 + e)"
  proof -
    have "RADIX ^ n = (2 :: nat) ^ (16 * n)"
      unfolding power_mult by simp
    then show ?thesis
      using halve_val [OF h] pow(1) by (simp add: power_add mult.commute)
  qed
  finally show ?thesis
    using pow(3) by (simp add: nat_add_distrib nat_mult_distrib)
qed

lemma s_mw_mp_2expt_ok:
  assumes "mp_ok a"
  shows "mp_ok (s_mw_mp_2expt a k)" "mp_val (s_mw_mp_2expt a k) = 2 ^ unat k" "\<not> mp_neg (s_mw_mp_2expt a k)"
    "mp_clamped (s_mw_mp_2expt a k)"
proof -
  define n where "n = unat k div 16"
  define b where "b = unat k mod 16"
  define a1 where "a1 = s_mw_mp_pad (mw_mp_zero a) (n + 1)"
  have zero: "mp_ok (mw_mp_zero a)" "mp_used (mw_mp_zero a) = 1"
    using mw_mp_zero_ok(1) [OF assms] by (simp_all add: mp_wf_def mw_mp_zero_def)
  have a1: "mp_ok a1" "mp_val a1 = 0" "mp_used a1 = n + 1" "\<not> mp_neg a1"
    using s_mw_mp_pad_ok [OF zero(1), of "n + 1"] mw_mp_zero_ok [OF assms] zero(2) by (simp_all add: a1_def)
  have n: "n < ALLOC a1"
    using mp_okD(2) [OF a1(1)] a1(3) by simp
  have d: "DIGIT a1 n = 0"
    using a1(2) n digits_val_eq_0 [of "mp_dp a1"] by (simp add: mp_val_def)
  have p: "unat (push_bit b 1 :: mw_mp_digit) = 2 ^ b"
    unfolding unsigned_push_bit_eq by (simp add: push_bit_eq_mult take_bit_nat_eq_self b_def)
  have eq: "s_mw_mp_2expt a k = a1\<lparr>mp_dp := (mp_dp a1)[n := push_bit b 1]\<rparr>"
    using d by (simp add: s_mw_mp_2expt_def Let_def n_def b_def a1_def)
  show val: "mp_val (s_mw_mp_2expt a k) = 2 ^ unat k"
    using digits_val_update [OF n, of "push_bit b 1"] d p a1(2) two_power_digit [of "unat k"]
    by (simp add: eq mp_val_def n_def b_def del: push_bit_of_1)
  show ok: "mp_ok (s_mw_mp_2expt a k)" and "\<not> mp_neg (s_mw_mp_2expt a k)"
    using a1 by (simp_all add: eq mp_ok_def)
  show "mp_clamped (s_mw_mp_2expt a k)"
    using n p a1(3) by (simp add: mp_clamped_def eq unat_eq_zero [symmetric] del: push_bit_of_1)
qed

section \<open>Division\<close>

subsection \<open>Normalisation\<close>

lemma digit_at: "i < ALLOC a \<Longrightarrow> unat (DIGIT a i) = mp_val a div RADIX ^ i mod RADIX"
  by (simp add: mp_val_def Cons_nth_drop_Suc [symmetric] flip: digits_val_drop)

lemma top_digit:
  assumes "mp_ok a"
  shows "unat (DIGIT a (mp_used a - 1)) = mp_val a div RADIX ^ (mp_used a - 1)"
    and "1 < mp_used a \<Longrightarrow> unat (DIGIT a (mp_used a - 1)) * RADIX + unat (DIGIT a (mp_used a - 2)) = mp_val a div RADIX ^ (mp_used a - 2)"
proof -
  have used: "1 \<le> mp_used a" "mp_used a \<le> ALLOC a"
    by (rule mp_okD [OF assms])+
  have "mp_val a < RADIX * RADIX ^ (mp_used a - 1)"
    using mp_val_less [OF assms] used(1) by (metis Suc_diff_1 Suc_le_lessD One_nat_def power_Suc)
  then have "mp_val a div RADIX ^ (mp_used a - 1) < RADIX"
    by (rule less_mult_imp_div_less)
  then show top: "unat (DIGIT a (mp_used a - 1)) = mp_val a div RADIX ^ (mp_used a - 1)"
    using digit_at [of "mp_used a - 1" a] used by simp
  show "unat (DIGIT a (mp_used a - 1)) * RADIX + unat (DIGIT a (mp_used a - 2)) = mp_val a div RADIX ^ (mp_used a - 2)"
    if "1 < mp_used a"
  proof -
    have "RADIX ^ (mp_used a - 1) = RADIX ^ (mp_used a - 2) * RADIX"
      using that by (metis Suc_1 Suc_diff_Suc power_Suc2 One_nat_def)
    then have "mp_val a div RADIX ^ (mp_used a - 1) = mp_val a div RADIX ^ (mp_used a - 2) div RADIX"
      by (simp only: div_mult2_eq)
    moreover have "unat (DIGIT a (mp_used a - 2)) = mp_val a div RADIX ^ (mp_used a - 2) mod RADIX"
      using used by (intro digit_at) simp
    ultimately show ?thesis
      unfolding top by (simp only: div_mult_mod_eq)
  qed
qed

lemma norm_loop_val:
  assumes "0 < unat t"
  shows "\<exists>k. norm_loop t d = Some (d + of_nat k) \<and> k < 16 \<and> 0x8000 \<le> unat t * 2 ^ k \<and> unat t * 2 ^ k < RADIX"
  using assms
proof (induction "RADIX - unat t" arbitrary: t d rule: less_induct)
  case less
  show ?case
  proof (cases "t < 0x8000")
    case True
    then have t: "unat t < 0x8000"
      by (simp add: word_less_nat_alt)
    have t2: "unat (push_bit 1 t) = 2 * unat t"
      unfolding unsigned_push_bit_eq using t by (simp add: push_bit_eq_mult take_bit_nat_eq_self)
    then obtain k where k: "norm_loop (push_bit 1 t) (d + 1) = Some (d + 1 + of_nat k)" "k < 16"
      "0x8000 \<le> 2 * unat t * 2 ^ k" "2 * unat t * 2 ^ k < RADIX"
      using less(1) [of "push_bit 1 t" "d + 1"] less(2) t by fastforce
    have "k < 15"
    proof (rule ccontr)
      assume "\<not> k < 15"
      then have "k = 15" using k(2) by simp
      then show False using k(4) less(2) by simp
    qed
    moreover have "norm_loop t d = Some (d + of_nat (Suc k))"
      using True k(1) by (subst norm_loop.simps) (simp add: algebra_simps)
    ultimately show ?thesis
      using k by (intro exI [of _ "Suc k"]) simp
  next
    case False
    then have "0x8000 \<le> unat t"
      by (simp add: word_less_nat_alt not_less)
    then show ?thesis
      using False digit_less [of t] by (intro exI [of _ 0]) (subst norm_loop.simps, simp)
  qed
qed

text \<open>What a divisor is after normalisation.\<close>

definition mp_divisor :: "mw_mp_int \<Rightarrow> bool" where
  "mp_divisor b \<longleftrightarrow> mp_ok b \<and> mp_clamped b \<and> 0x8000 \<le> DIGIT b (mp_used b - 1)"

lemma shifted_divisor:
  assumes "mp_ok b" "mp_ok c" "mp_clamped c" "mp_val c = mp_val b * 2 ^ k" "k < 16"
    "0x8000 \<le> unat (DIGIT b (mp_used b - 1)) * 2 ^ k" "unat (DIGIT b (mp_used b - 1)) * 2 ^ k < RADIX"
  shows "mp_divisor c"
proof -
  define u where "u = mp_used b - 1"
  define t where "t = mp_val b div RADIX ^ u"
  have t: "0x8000 \<le> t * 2 ^ k" "t * 2 ^ k < RADIX"
    using assms(6, 7) top_digit(1) [OF assms(1)] by (simp_all add: t_def u_def)
  have "(2 :: nat) ^ k * 2 ^ (16 - k) = RADIX"
    using assms(5) by (simp flip: power_add)
  then have "2 ^ k * t < 2 ^ k * 2 ^ (16 - k)"
    using t(2) by (simp add: mult.commute)
  then have "2 ^ k * Suc t \<le> 2 ^ k * 2 ^ (16 - k)"
    by (intro mult_le_mono2) simp
  then have t1: "Suc t * 2 ^ k \<le> RADIX"
    using \<open>2 ^ k * 2 ^ (16 - k) = RADIX\<close> by (simp add: mult.commute)
  have "t * RADIX ^ u \<le> mp_val b"
    unfolding t_def by (rule div_times_less_eq_dividend)
  then have "t * 2 ^ k * RADIX ^ u \<le> mp_val c"
    unfolding assms(4) by (metis mult.assoc mult.commute mult_le_mono1)
  then have lower: "0x8000 * RADIX ^ u \<le> mp_val c"
    using mult_le_mono1 [OF t(1), of "RADIX ^ u"] by (rule order_trans [rotated])
  have "mp_val b < Suc t * RADIX ^ u"
    unfolding t_def using dividend_less_div_times [of "RADIX ^ u" "mp_val b"] by simp
  then have "mp_val c < Suc t * RADIX ^ u * 2 ^ k"
    unfolding assms(4) by simp
  also have "\<dots> = Suc t * 2 ^ k * RADIX ^ u"
    by (simp only: mult.assoc mult.commute [of "RADIX ^ u"])
  also have "\<dots> \<le> RADIX * RADIX ^ u"
    using t1 by (rule mult_le_mono1)
  finally have upper: "mp_val c < RADIX ^ (u + 1)" by simp
  have "mp_used c \<le> u + 1"
    using mp_used_le_iff [OF assms(2, 3)] upper by simp
  moreover have "\<not> mp_used c \<le> u"
  proof
    assume "mp_used c \<le> u"
    then have "mp_val c < RADIX ^ u"
      by (rule mp_val_less_power [OF assms(2)])
    moreover have "1 * RADIX ^ u \<le> 0x8000 * RADIX ^ u"
      by (rule mult_le_mono1) simp
    ultimately show False
      using lower by simp
  qed
  ultimately have used: "mp_used c - 1 = u" by simp
  have "0x8000 \<le> mp_val c div RADIX ^ u"
    using div_le_mono [OF lower, of "RADIX ^ u"] by simp
  then have "0x8000 \<le> DIGIT c (mp_used c - 1)"
    unfolding word_le_nat_alt using top_digit(1) [OF assms(2)] used by simp
  then show ?thesis
    using assms(2, 3) by (simp add: mp_divisor_def)
qed

lemma s_mw_mp_norm_ok:
  assumes "mp_ok a" "mp_clamped a" "mp_ok b" "mp_clamped b" "0 < mp_val b"
  obtains d a1 b1 where "s_mw_mp_norm a b = Some (d, a1, b1)" "mp_ok a1" "mp_divisor b1"
    "mp_val a1 = mp_val a * 2 ^ unat d" "mp_val b1 = mp_val b * 2 ^ unat d"
proof -
  define t where "t = DIGIT b (mp_used b - 1)"
  have "0 < unat t"
  proof (cases "mp_used b = 1")
    case True
    then show ?thesis
      using assms(5) mp_val_one_digit [OF assms(3)] by (simp add: t_def)
  next
    case False
    then have "t \<noteq> 0"
      using assms(4) by (simp add: mp_clamped_def t_def)
    then show ?thesis
      by (simp add: unat_gt_0)
  qed
  then obtain k where k: "norm_loop t 0 = Some (of_nat k)" "k < 16" "0x8000 \<le> unat t * 2 ^ k" "unat t * 2 ^ k < RADIX"
    using norm_loop_val [of t 0] by auto
  define d where "d = (of_nat k :: mw_mp_digit)"
  have d: "unat d = k"
    using k(2) by (simp add: d_def unsigned_of_nat take_bit_nat_eq_self)
  define a1 where "a1 = (if d \<noteq> 0 then s_mw_mp_mul_2d a d else a)"
  define b1 where "b1 = (if d \<noteq> 0 then s_mw_mp_mul_2d b d else b)"
  have a1: "mp_ok a1" "mp_val a1 = mp_val a * 2 ^ unat d"
    using assms(1) s_mw_mp_mul_2d_ok [OF assms(1)] by (auto simp: a1_def mp_wf_def)
  have b1: "mp_ok b1" "mp_clamped b1" "mp_val b1 = mp_val b * 2 ^ unat d"
    using assms(3, 4) s_mw_mp_mul_2d_ok [OF assms(3)] by (auto simp: b1_def mp_wf_def)
  have "mp_divisor b1"
    using shifted_divisor [OF assms(3) b1 [unfolded d] k(2)] k(3, 4) by (simp add: t_def)
  moreover have "s_mw_mp_norm a b = Some (d, a1, b1)"
    using k(1) [unfolded t_def] by (simp add: s_mw_mp_norm_def a1_def b1_def d_def)
  ultimately show thesis
    using that a1 b1 by blast
qed

subsection \<open>Quotient digits\<close>

lemma cmp_less: "mp_ok a \<Longrightarrow> mp_clamped a \<Longrightarrow> mp_ok b \<Longrightarrow> mp_clamped b \<Longrightarrow> s_mw_mp_cmp a b < 0 \<longleftrightarrow> mp_val a < mp_val b"
  unfolding s_mw_mp_cmp_val sgn_diff by auto

lemma cmp_greater: "mp_ok a \<Longrightarrow> mp_clamped a \<Longrightarrow> mp_ok b \<Longrightarrow> mp_clamped b \<Longrightarrow> s_mw_mp_cmp a b > 0 \<longleftrightarrow> mp_val b < mp_val a"
  unfolding s_mw_mp_cmp_val sgn_diff by auto

lemma set_low_digit:
  assumes "mp_ok a" "DIGIT a 0 = 0"
  shows "mp_ok (a\<lparr>mp_dp := (mp_dp a)[0 := x]\<rparr>)" "mp_val (a\<lparr>mp_dp := (mp_dp a)[0 := x]\<rparr>) = mp_val a + unat x"
proof -
  have "0 < ALLOC a"
    using mp_okD(1, 2) [OF assms(1)] by linarith
  then show "mp_val (a\<lparr>mp_dp := (mp_dp a)[0 := x]\<rparr>) = mp_val a + unat x"
    using digits_val_update [of 0 "mp_dp a" x] assms(2) by (simp add: mp_val_def)
  show "mp_ok (a\<lparr>mp_dp := (mp_dp a)[0 := x]\<rparr>)"
    using assms(1) by (simp add: mp_ok_def drop_update_cancel)
qed

lemma digits_val_rev_Cons: "digits_val (rev (x # xs)) = digits_val (rev xs) + RADIX ^ length xs * unat x"
  by (simp add: digits_val_append)

lemma div_find_val:
  assumes "mp_ok b" "mp_clamped b" "mp_wf rem" "mp_ok quot" "div_find b rem quot rest = (rem', quot', rest')"
    "mp_val rem < mp_val b * RADIX"
  shows "mp_wf rem' \<and> mp_ok quot' \<and> length rest' \<le> length rest
    \<and> mp_val rem' < mp_val b * RADIX \<and> (mp_val b \<le> mp_val rem' \<or> rest' = [])
    \<and> mp_val quot' = mp_val quot * RADIX ^ (length rest - length rest')
    \<and> mp_val rem' * RADIX ^ length rest' + digits_val (rev rest') = mp_val rem * RADIX ^ length rest + digits_val (rev rest)
    \<and> (mp_val rem < mp_val b \<and> rest \<noteq> [] \<longrightarrow> length rest' < length rest)
    \<and> (length rest' < length rest \<longrightarrow> DIGIT quot' 0 = 0)
    \<and> (length rest' = length rest \<longrightarrow> quot' = quot)"
  using assms(3 - 6)
proof (induction rest arbitrary: rem quot)
  case (Cons x rest)
  show ?case
  proof (cases "mp_val rem < mp_val b")
    case False
    then have "div_find b rem quot (x # rest) = (rem, quot, x # rest)"
      using cmp_less [OF mp_wfD(1, 2) [OF Cons.prems(1)] assms(1, 2)] by simp
    then show ?thesis
      using Cons.prems False by auto
  next
    case True
    define rem1 where "rem1 = s_mw_mp_lshd rem 1"
    define rem2 where "rem2 = s_mw_mp_clamp (rem1\<lparr>mp_dp := (mp_dp rem1)[0 := x]\<rparr>)"
    define quot1 where "quot1 = s_mw_mp_lshd quot 1"
    have rem1: "mp_ok rem1" "mp_val rem1 = mp_val rem * RADIX" "DIGIT rem1 0 = 0"
      using s_mw_mp_lshd_ok [OF mp_wfD(1) [OF Cons.prems(1)], of 1] by (simp_all add: rem1_def)
    have rem2: "mp_wf rem2" "mp_val rem2 = mp_val rem * RADIX + unat x"
      using s_mw_mp_clamp_ok [OF set_low_digit(1) [OF rem1(1, 3)]] set_low_digit(2) [OF rem1(1, 3)] rem1(2)
      by (simp_all add: rem2_def)
    have quot1: "mp_ok quot1" "mp_val quot1 = mp_val quot * RADIX" "DIGIT quot1 0 = 0"
      using s_mw_mp_lshd_ok [OF Cons.prems(2), of 1] by (simp_all add: quot1_def)
    have find: "div_find b rem2 quot1 rest = (rem', quot', rest')"
      using Cons.prems(3) True cmp_less [OF mp_wfD(1, 2) [OF Cons.prems(1)] assms(1, 2)]
      by (simp add: Let_def rem1_def rem2_def quot1_def)
    have "mp_val rem2 < mp_val b * RADIX"
      using True digit_less [of x] unfolding rem2(2) by linarith
    note IH = Cons.IH [OF rem2(1) quot1(1) find this]
    have eq: "mp_val rem2 * RADIX ^ length rest + digits_val (rev rest)
        = mp_val rem * RADIX ^ length (x # rest) + digits_val (rev (x # rest))"
      unfolding rem2(2) digits_val_rev_Cons by (simp add: algebra_simps)
    have low: "DIGIT quot' 0 = 0"
      using IH quot1(3) by (cases "length rest' < length rest") auto
    have "mp_val quot1 * RADIX ^ (length rest - length rest') = mp_val quot * RADIX ^ (length (x # rest) - length rest')"
      unfolding quot1(2) using IH by (simp add: Suc_diff_le)
    then show ?thesis
      using IH low unfolding eq by (auto simp del: rev.simps)
  qed
qed auto

text \<open>The guess for a quotient digit is never too small.\<close>

lemma div_guess_val:
  assumes "mp_divisor b" "mp_wf rem" "mp_val b \<le> mp_val rem" "mp_val rem < mp_val b * RADIX"
  shows "mp_val rem div mp_val b \<le> unat (div_guess rem b)" "unat (div_guess rem b) < RADIX"
proof -
  define u where "u = mp_used b - 1"
  define top where "top = DIGIT b u"
  define q0 where "q0 = DIGIT rem (mp_used rem - 1)"
  define q1 :: mw_mp_word where "q1 = (if ucast q0 \<le> (ucast top :: mw_mp_word) \<and> 1 < mp_used rem
    then push_bit 16 (ucast q0) OR ucast (DIGIT rem (mp_used rem - 2)) else ucast q0)"
  have b: "mp_ok b" "mp_clamped b" and rem: "mp_ok rem" "mp_clamped rem"
    using assms(1, 2) by (simp_all add: mp_divisor_def mp_wf_def)
  have used: "mp_used b = Suc u"
    using mp_okD(1) [OF b(1)] by (simp add: u_def)
  have top: "unat top = mp_val b div RADIX ^ u" "0 < unat top"
    using top_digit(1) [OF b(1)] assms(1) by (simp_all add: top_def u_def mp_divisor_def word_le_nat_alt)
  have "unat top * RADIX ^ u \<le> mp_val b"
    unfolding top(1) by (rule div_times_less_eq_dividend)
  then have "mp_val rem div mp_val b \<le> mp_val rem div (RADIX ^ u * unat top)"
    using top(2) by (intro div_le_mono2) (simp_all add: mult.commute)
  then have goal: "mp_val rem div mp_val b \<le> mp_val rem div RADIX ^ u div unat top"
    by (simp add: div_mult2_eq)
  have ge: "mp_used b \<le> mp_used rem"
    by (rule used_mono [OF rem(1) b assms(3)])
  have "mp_val rem < RADIX ^ mp_used b * RADIX"
    using assms(4) mp_val_less [OF b(1)] by linarith
  then have le: "mp_used rem \<le> Suc (mp_used b)"
    using mp_used_le_iff [OF rem, of "Suc (mp_used b)"] by (simp add: mult.commute)
  have two: "unat (push_bit 16 (ucast q0) OR ucast d :: mw_mp_word) = unat q0 * RADIX + unat d" for d :: mw_mp_digit
    by (subst word_join(1)) simp_all
  have q1: "mp_val rem div RADIX ^ u \<le> unat q1"
  proof (cases "mp_used rem = mp_used b")
    case True
    then have "mp_val rem div RADIX ^ u = unat q0"
      using top_digit(1) [OF rem(1)] by (simp add: q0_def u_def)
    then show ?thesis
      using two by (simp add: q1_def)
  next
    case False
    then have n: "mp_used rem = Suc (Suc u)"
      using ge le used by simp
    have "unat q0 = mp_val rem div RADIX ^ Suc u"
      using top_digit(1) [OF rem(1)] n by (simp add: q0_def)
    also have "\<dots> \<le> mp_val b * RADIX div RADIX ^ Suc u"
      using assms(4) by (intro div_le_mono) simp
    also have "\<dots> = unat top"
      unfolding top(1) by (simp add: mult.commute)
    finally have "ucast q0 \<le> (ucast top :: mw_mp_word)"
      by (simp add: word_le_nat_alt)
    then have "unat q1 = mp_val rem div RADIX ^ u"
      using two top_digit(2) [OF rem(1)] n by (simp add: q1_def q0_def)
    then show ?thesis by simp
  qed
  then have "mp_val rem div mp_val b \<le> unat q1 div unat top"
    using goal div_le_mono [OF q1, of "unat top"] by linarith
  moreover have "unat (q1 div ucast top) = unat q1 div unat top"
    by (simp add: unat_div)
  moreover have "mp_val rem div mp_val b < RADIX"
    using assms(4) by (intro less_mult_imp_div_less) (simp add: mult.commute)
  moreover have "div_guess rem b = (if 65536 \<le> q1 div ucast top then 65535 else q1 div ucast top)"
    by (simp add: div_guess_def Let_def q1_def q0_def top_def u_def)
  ultimately show "mp_val rem div mp_val b \<le> unat (div_guess rem b)" "unat (div_guess rem b) < RADIX"
    by (auto simp: word_le_nat_alt)
qed

lemma div_back_val:
  assumes "mp_ok b" "mp_clamped b" "0 < mp_val b" "mp_wf rem" "mp_wf t" "mp_val t = mp_val b * unat q" "mp_val rem div mp_val b \<le> unat q"
  shows "\<exists>q' t'. div_back b rem q t = Some (q', t') \<and> unat q' = mp_val rem div mp_val b \<and> mp_wf t' \<and> mp_val t' = mp_val b * unat q'"
  using assms(5 - 7)
proof (induction "unat q" arbitrary: q t rule: less_induct)
  case less
  have cmp: "s_mw_mp_cmp t rem > 0 \<longleftrightarrow> mp_val rem < mp_val t"
    using less(2) assms(4) by (simp add: cmp_greater mp_wf_def)
  show ?case
  proof (cases "mp_val rem < mp_val t")
    case True
    then have less_q: "mp_val rem div mp_val b < unat q"
      using less(3) by (simp add: less_mult_imp_div_less mult.commute)
    then have "mp_val b \<le> mp_val t"
      unfolding less(3) by simp
    then obtain t' where t': "s_mw_mp_sub t b = Some (MP_OKAY, t')" "mp_wf t'" "mp_val t' = mp_val t - mp_val b"
      using s_mw_mp_sub_wf [OF mp_wfD(1) [OF less(2)] assms(1, 2)] by blast
    have q: "unat (q - 1) = unat q - 1"
      using less_q by (simp add: unat_sub word_le_nat_alt)
    then have "mp_val t' = mp_val b * unat (q - 1)"
      using t'(3) less(3) by (simp add: diff_mult_distrib2)
    then have "\<exists>q' t''. div_back b rem (q - 1) t' = Some (q', t'') \<and> unat q' = mp_val rem div mp_val b
        \<and> mp_wf t'' \<and> mp_val t'' = mp_val b * unat q'"
      using less(1) [of "q - 1" t'] t'(2) q less_q by simp
    then show ?thesis
      using True cmp t'(1) by (subst div_back.simps) simp
  next
    case False
    then have "mp_val b * unat q \<le> mp_val rem"
      using less(3) by simp
    then have "unat q \<le> mp_val rem div mp_val b"
      using assms(3) by (simp add: less_eq_div_iff_mult_less_eq mult.commute)
    then show ?thesis
      using False cmp less(2 - 4) by (subst div_back.simps) simp
  qed
qed

text \<open>One round of the division loop.\<close>

lemma div_round:
  assumes "mp_divisor b" "mp_wf rem1" "mp_ok t" "mp_val b \<le> mp_val rem1" "mp_val rem1 < mp_val b * RADIX"
    "rest \<noteq> []" "div_find b rem quot rest = (rem1, quot1, rest1)"
  obtains q :: mw_mp_word and rem2 t3 where "div_loop b quot rem t rest
      = div_loop b (quot1\<lparr>mp_dp := (mp_dp quot1)[0 := ucast q]\<rparr>) rem2 t3 rest1"
    "mp_wf rem2" "mp_val rem2 = mp_val rem1 mod mp_val b" "mp_ok t3"
    "unat q = mp_val rem1 div mp_val b" "unat q < RADIX"
proof -
  have b: "mp_ok b" "mp_clamped b" "0 < mp_val b"
    using assms(1, 5) by (auto simp: mp_divisor_def)
  define q0 where "q0 = div_guess rem1 b"
  have q0: "mp_val rem1 div mp_val b \<le> unat q0" "unat q0 < RADIX"
    using div_guess_val [OF assms(1, 2, 4, 5)] by (simp_all add: q0_def)
  define t1 where "t1 = mw_mp_copy b t"
  have t1: "mp_ok t1" "mp_val t1 = mp_val b" "0x8000 \<le> DIGIT t1 (mp_used t1 - 1)"
  proof -
    show "mp_ok t1" "mp_val t1 = mp_val b"
      using b(1) by (simp_all add: t1_def)
    have "DIGIT t1 (mp_used t1 - 1) = DIGIT b (mp_used b - 1)"
      using mp_okD(1, 2) [OF b(1)] by (simp add: t1_def mw_mp_copy_alt nth_append)
    then show "0x8000 \<le> DIGIT t1 (mp_used t1 - 1)"
      using assms(1) by (simp add: mp_divisor_def)
  qed
  obtain t2 where t2: "s_mw_mp_mul_d t1 (ucast q0) = Some t2" "mp_wf t2" "mp_val t2 = mp_val b * unat q0"
    using s_mw_mp_mul_d_ok [OF t1(1), of "ucast q0"] t1(2, 3) unat_digit_of_word [OF q0(2)] by auto
  obtain q t3 where q: "div_back b rem1 q0 t2 = Some (q, t3)" "unat q = mp_val rem1 div mp_val b" "mp_wf t3"
    "mp_val t3 = mp_val b * unat q"
    using div_back_val [OF b assms(2) t2(2, 3) q0(1)] by blast
  have "mp_val t3 \<le> mp_val rem1"
    unfolding q(4, 2) by (rule times_div_less_eq_dividend)
  then obtain rem2 where rem2: "s_mw_mp_sub rem1 t3 = Some (MP_OKAY, rem2)" "mp_wf rem2" "mp_val rem2 = mp_val rem1 - mp_val t3"
    using s_mw_mp_sub_wf [OF mp_wfD(1) [OF assms(2)] mp_wfD(1, 2) [OF q(3)]] by blast
  have "\<not> s_mw_mp_cmp rem1 b < 0"
    using cmp_less [OF mp_wfD(1, 2) [OF assms(2)] b(1, 2)] assms(4) by simp
  then have "div_loop b quot rem t rest = div_loop b (quot1\<lparr>mp_dp := (mp_dp quot1)[0 := ucast q]\<rparr>) rem2 t3 rest1"
    using assms(6, 7) t2(1) q(1) rem2(1)
    by (subst div_loop.simps) (simp add: Let_def flip: q0_def t1_def)
  moreover have "mp_val rem2 = mp_val rem1 mod mp_val b"
    unfolding rem2(3) q(4, 2) by (simp add: minus_mult_div_eq_mod)
  moreover have "unat q < RADIX"
    unfolding q(2) using q0 by linarith
  ultimately show thesis
    using that rem2(2) mp_wfD(1) [OF q(3)] q(2) by blast
qed

text \<open>The division loop: what is left of the dividend is divided into the quotient and the remainder.\<close>

lemma div_loop_val:
  assumes "mp_divisor b" "mp_wf rem" "mp_ok quot" "mp_ok t" "mp_val rem < mp_val b"
  shows "\<exists>quot' rem'. div_loop b quot rem t rest = Some (MP_OKAY, quot', rem') \<and> mp_ok quot' \<and> mp_wf rem'
    \<and> mp_val rem' < mp_val b
    \<and> mp_val quot' * mp_val b + mp_val rem'
      = (mp_val quot * mp_val b + mp_val rem) * RADIX ^ length rest + digits_val (rev rest)"
  using assms(2 - 5)
proof (induction "length rest" arbitrary: quot rem t rest rule: less_induct)
  case less
  have b: "mp_ok b" "mp_clamped b"
    using assms(1) by (simp_all add: mp_divisor_def)
  show ?case
  proof (cases "rest = []")
    case True
    then show ?thesis
      using less by (subst div_loop.simps) simp
  next
    case False
    obtain rem1 quot1 rest1 where find: "div_find b rem quot rest = (rem1, quot1, rest1)"
      by (metis prod_cases3)
    define j where "j = length rest - length rest1"
    have f: "mp_wf rem1" "mp_ok quot1" "length rest1 < length rest" "mp_val rem1 < mp_val b * RADIX"
      "mp_val b \<le> mp_val rem1 \<or> rest1 = []" "mp_val quot1 = mp_val quot * RADIX ^ j" "DIGIT quot1 0 = 0"
      "mp_val rem1 * RADIX ^ length rest1 + digits_val (rev rest1) = mp_val rem * RADIX ^ length rest + digits_val (rev rest)"
      using div_find_val [OF b less(2, 3) find] less(5) False by (auto simp: j_def)
    have total: "(mp_val quot1 * mp_val b + mp_val rem1) * RADIX ^ length rest1 + digits_val (rev rest1)
        = (mp_val quot * mp_val b + mp_val rem) * RADIX ^ length rest + digits_val (rev rest)"
    proof -
      have "RADIX ^ length rest = RADIX ^ j * RADIX ^ length rest1"
        using f(3) by (simp add: j_def flip: power_add)
      then have "mp_val quot1 * mp_val b * RADIX ^ length rest1 = mp_val quot * mp_val b * RADIX ^ length rest"
        unfolding f(6) by (simp add: algebra_simps)
      then show ?thesis
        using f(8) by (simp only: distrib_right add.assoc)
    qed
    show ?thesis
    proof (cases "mp_val rem1 < mp_val b")
      case True
      then have "rest1 = []" "s_mw_mp_cmp rem1 b < 0"
        using f(1, 5) b by (auto simp: cmp_less mp_wf_def)
      then show ?thesis
        using True False find f total by (subst div_loop.simps) simp
    next
      case False
      then have ge: "mp_val b \<le> mp_val rem1" by simp
      obtain q :: mw_mp_word and rem2 t3 where step: "div_loop b quot rem t rest
          = div_loop b (quot1\<lparr>mp_dp := (mp_dp quot1)[0 := ucast q]\<rparr>) rem2 t3 rest1"
        "mp_wf rem2" "mp_val rem2 = mp_val rem1 mod mp_val b" "mp_ok t3" "unat q = mp_val rem1 div mp_val b" "unat q < RADIX"
        by (rule div_round [OF assms(1) f(1) less(4) ge f(4) \<open>rest \<noteq> []\<close> find])
      define quot2 where "quot2 = quot1\<lparr>mp_dp := (mp_dp quot1)[0 := ucast q]\<rparr>"
      have quot2: "mp_ok quot2" "mp_val quot2 = mp_val quot1 + unat q"
        using set_low_digit [OF f(2, 7), of "ucast q"] unat_digit_of_word [OF step(6)] by (simp_all add: quot2_def)
      have "mp_val rem2 < mp_val b"
        using step(3) less(5) by simp
      moreover have "mp_val quot2 * mp_val b + mp_val rem2 = mp_val quot1 * mp_val b + mp_val rem1"
        unfolding quot2(2) step(3, 5) by (simp add: distrib_right)
      ultimately show ?thesis
        using less(1) [OF f(3) step(2) quot2(1) step(4)] step(1) total by (simp add: quot2_def)
    qed
  qed
qed

lemma quotient_unique:
  assumes "(q :: nat) * b + r = v" "r < b"
  shows "q = v div b \<and> r = v mod b"
  using assms by auto

lemma s_mw_mp_ispow2_less:
  assumes "mp_ok v" "mp_used v \<le> n" "0 \<le> s_mw_mp_ispow2 v"
  shows "nat (s_mw_mp_ispow2 v) < 16 * n"
proof -
  have "RADIX ^ n = (2 :: nat) ^ (16 * n)"
    unfolding power_mult by simp
  then have "(2 :: nat) ^ nat (s_mw_mp_ispow2 v) < 2 ^ (16 * n)"
    using mp_val_less_power [OF assms(1, 2)] s_mw_mp_ispow2_val [OF assms(1, 3)] by metis
  then show ?thesis
    by (rule power_less_imp_less_exp [rotated]) simp
qed

lemma s_mw_mp_div_ok:
  assumes "mp_wf a" "mp_wf b" "0 < mp_val b" "mp_used b \<le> 4096"
  obtains q r where "s_mw_mp_div a b = Some (MP_OKAY, q, r)" "mp_ok q" "mp_clamped q" "mp_ok r" "mp_clamped r"
    "mp_val q = mp_val a div mp_val b" "mp_val r = mp_val a mod mp_val b"
proof -
  note wf = mp_wfD(1, 2) [OF assms(1)] mp_wfD(1, 2) [OF assms(2)]
  have nz: "mw_mp_cmw_mp_z b \<noteq> 0"
    using assms(2, 3) by (simp add: mw_mp_cmp_z_val sgn_if) (simp add: mp_num_def split: if_splits)
  show thesis
  proof (cases "0 \<le> s_mw_mp_ispow2 b")
    case True
    define ix where "ix = nat (s_mw_mp_ispow2 b)"
    have ix: "mp_val b = 2 ^ ix" "ix < 65536" "s_mw_mp_ispow2 b = int ix"
      using s_mw_mp_ispow2_val [OF wf(3) True] s_mw_mp_ispow2_less [OF wf(3) assms(4) True] True by (simp_all add: ix_def)
    have u: "unat (of_int (s_mw_mp_ispow2 b) :: mw_mp_digit) = ix"
      using ix(2) by (simp add: ix(3) unsigned_of_nat take_bit_nat_eq_self)
    have "s_mw_mp_div a b = Some (MP_OKAY, s_mw_mp_div_2d a (of_int (s_mw_mp_ispow2 b)),
        s_mw_mp_mod_2d (mw_mp_copy a b) (of_int (s_mw_mp_ispow2 b)))"
      using nz True by (simp add: s_mw_mp_div_def Let_def)
    then show thesis
      by (rule that) (use s_mw_mp_div_2d_ok [OF wf(1), of "of_int (s_mw_mp_ispow2 b)"]
        s_mw_mp_mod_2d_ok [of "mw_mp_copy a b" "of_int (s_mw_mp_ispow2 b)"] wf ix(1) u assms(1) in \<open>simp_all add: mp_wf_def\<close>)
  next
    case False
    obtain d a1 b1 where n: "s_mw_mp_norm a b = Some (d, a1, b1)" "mp_ok a1" "mp_divisor b1"
      "mp_val a1 = mp_val a * 2 ^ unat d" "mp_val b1 = mp_val b * 2 ^ unat d"
      by (rule s_mw_mp_norm_ok [OF wf assms(3)])
    define z where "z = mw_mp_init_size (mp_used a)"
    have z: "mp_wf z" "mp_val z = 0"
      using mp_okD(1) [OF wf(1)] by (simp_all add: z_def)
    have "mp_val z < mp_val b1"
      using z(2) n(5) assms(3) by simp
    then obtain quot rem where l: "div_loop b1 z z z (rev (take (mp_used a1) (mp_dp a1))) = Some (MP_OKAY, quot, rem)"
      "mp_ok quot" "mp_wf rem" "mp_val rem < mp_val b1" "mp_val quot * mp_val b1 + mp_val rem = mp_val a1"
      using div_loop_val [OF n(3) z(1), of z z "rev (take (mp_used a1) (mp_dp a1))"] z
      by (auto simp: mp_wf_def mp_val_digits [OF n(2)])
    define rem' where "rem' = (if d \<noteq> 0 then s_mw_mp_div_2d rem d else rem)"
    have q: "mp_val quot = mp_val a div mp_val b" "mp_val rem = (mp_val a mod mp_val b) * 2 ^ unat d"
      using quotient_unique [OF l(5, 4)] unfolding n(4, 5) by (simp_all flip: mult_mod_left)
    have rem': "mp_ok rem'" "mp_val rem' = mp_val a mod mp_val b"
      using s_mw_mp_div_2d_ok [OF mp_wfD(1) [OF l(3)], of d] l(3) q(2) by (auto simp: rem'_def mp_wf_def)
    have "s_mw_mp_div a b = Some (MP_OKAY, s_mw_mp_clamp quot, s_mw_mp_clamp rem')"
      using nz False n(1) l(1) by (simp add: s_mw_mp_div_def Let_def rem'_def flip: z_def)
    then show thesis
      by (rule that) (use s_mw_mp_clamp_ok [OF l(2)] s_mw_mp_clamp_ok [OF rem'(1)] q(1) rem'(2) in \<open>simp_all add: mp_wf_def\<close>)
  qed
qed

subsection \<open>Division by a digit\<close>

lemma div_d_loop_val:
  assumes "d \<noteq> 0" "div_d_loop d xs = (qs, w)"
  shows "length qs = length xs \<and> digits_val qs = digits_val xs div unat d \<and> unat w = digits_val xs mod unat d"
  using assms(2)
proof (induction xs arbitrary: qs w)
  case (Cons x xs)
  obtain qs0 w0 where rest: "div_d_loop d xs = (qs0, w0)" by fastforce
  have IH: "length qs0 = length xs" "digits_val qs0 = digits_val xs div unat d" "unat w0 = digits_val xs mod unat d"
    using Cons.IH [OF rest] by simp_all
  have d: "0 < unat d"
    using assms(1) by (simp add: unat_gt_0)
  then have w0: "unat w0 < unat d"
    unfolding IH(3) by simp
  define w1 where "w1 = push_bit 16 w0 OR (ucast x :: mw_mp_word)"
  have w1: "unat w1 = RADIX * unat w0 + unat x"
    unfolding w1_def by (rule trans [OF word_join(1)]) (use less_trans [OF w0 digit_less] in simp_all)
  have "RADIX * unat w0 + unat x < RADIX * unat d"
    using w0 digit_less [of x] by linarith
  then have small: "unat w1 div unat d < RADIX"
    unfolding w1 by (simp add: less_mult_imp_div_less mult.commute)
  have eq: "(qs, w) = (ucast (w1 div ucast d) # qs0, w1 mod ucast d)"
  proof (cases "ucast d \<le> w1")
    case False
    then have "unat (w1 div ucast d) = 0" "unat (w1 mod ucast d) = unat w1"
      by (simp_all add: unat_div unat_mod not_le word_less_nat_alt)
    then have "w1 div ucast d = 0" "w1 mod ucast d = w1"
      by (simp_all add: word_unat_eq_iff)
    then show ?thesis
      using Cons.prems rest False by (simp add: Let_def flip: w1_def)
  qed (use Cons.prems rest in \<open>simp add: Let_def flip: w1_def\<close>)
  have "unat (ucast (w1 div ucast d) :: mw_mp_digit) = unat w1 div unat d"
    using small by (simp add: unat_digit_of_word unat_div)
  moreover have "digits_val (x # xs) = unat w1 + unat d * (RADIX * (digits_val xs div unat d))"
  proof -
    have "RADIX * digits_val xs = RADIX * (digits_val xs mod unat d + unat d * (digits_val xs div unat d))"
      by (simp only: mod_mult_div_eq)
    then show ?thesis
      unfolding w1 IH(3) by (simp only: digits_val.simps distrib_left mult.left_commute [of "unat d"])
  qed
  ultimately show ?case
    using eq IH d by (simp add: unat_mod)
qed simp

lemma s_mw_mp_div_d_ok:
  assumes "mp_ok a" "d \<noteq> 0"
  obtains q r where "s_mw_mp_div_d a d = (MP_OKAY, q, r)" "mp_wf q" "\<not> mp_neg q"
    "mp_val q = mp_val a div unat d" "unat r = mp_val a mod unat d"
proof -
  obtain qs w where qs: "div_d_loop d (take (mp_used a) (mp_dp a)) = (qs, w)" by fastforce
  have v: "length qs = mp_used a" "digits_val qs = mp_val a div unat d" "unat w = mp_val a mod unat d"
    using div_d_loop_val [OF assms(2) qs] mp_okD(2) [OF assms(1)] by (simp_all add: mp_val_digits [OF assms(1)])
  define c where "c = \<lparr>mp_neg = False, mp_used = mp_used a, mp_dp = qs\<rparr>"
  have c: "mp_ok c" "mp_val c = mp_val a div unat d"
    using v mp_okD(1) [OF assms(1)] by (auto intro: mp_okI [of _ qs 0] simp: c_def mp_val_def)
  have "unat w < RADIX"
    unfolding v(3) by (rule less_trans [OF mod_less_divisor digit_less]) (simp add: unat_gt_0 assms(2))
  moreover have "s_mw_mp_div_d a d = (MP_OKAY, s_mw_mp_clamp c, ucast w)"
    using assms(2) qs by (simp add: s_mw_mp_div_d_def c_def)
  ultimately show thesis
    using that s_mw_mp_clamp_ok [OF c(1)] c(2) v(3) by (simp add: unat_digit_of_word c_def)
qed

end
