(* ===== verification/Mpi.thy ===== *)
theory Mpi
  imports Mpi_Arith
begin

text \<open>
  The public functions of \<^verbatim>\<open>src/src/mpi/mpi.c\<close>: signed arithmetic, division with remainder,
  modular arithmetic with Barrett reduction, exponentiation and the conversion to and from
  bytes. Results are \<open>mp_result\<close>: \<open>None\<close> is undefined behaviour as in the theory on the
  magnitudes, \<open>Inl\<close> an error code (what the outputs hold then is not specified), \<open>Inr\<close> the
  output. An output argument that already holds a number is an argument of the
  definition, since its memory is reused.
\<close>

type_synonym 'a mp_result = "(mw_mp_err + 'a) option"

definition mp_okay :: "'a \<Rightarrow> 'a mp_result" where
  "mp_okay x = Some (Inr x)"

definition mp_fail :: "mw_mp_err \<Rightarrow> 'a mp_result" where
  "mp_fail e = Some (Inl e)"

definition mp_bind :: "'a mp_result \<Rightarrow> ('a \<Rightarrow> 'b mp_result) \<Rightarrow> 'b mp_result" where
  "mp_bind m f = do { r \<leftarrow> m; case r of Inl e \<Rightarrow> Some (Inl e) | Inr x \<Rightarrow> f x }"

definition mp_check :: "(mw_mp_err \<times> 'a) option \<Rightarrow> 'a mp_result" where
  "mp_check m = do { (res, x) \<leftarrow> m; Some (if res \<noteq> MP_OKAY then Inl res else Inr x) }"

lemma mp_bind_simps [simp]:
  "mp_bind (mp_okay x) f = f x" "mp_bind (mp_fail e) f = mp_fail e" "mp_bind None f = None"
  by (simp_all add: mp_bind_def mp_okay_def mp_fail_def)

lemma mp_okay_inject [simp]: "mp_okay x = mp_okay y \<longleftrightarrow> x = y"
  by (simp add: mp_okay_def)

lemma mp_check_simps [simp]:
  "mp_check (Some (MP_OKAY, x)) = mp_okay x" "res \<noteq> MP_OKAY \<Longrightarrow> mp_check (Some (res, x)) = mp_fail res"
  by (simp_all add: mp_check_def mp_okay_def mp_fail_def)

lemma mp_bind_mono [partial_function_mono]:
  assumes "mono_option B" "\<And>y. mono_option (\<lambda>f. C y f)"
  shows "mono_option (\<lambda>f. mp_bind (B f) (\<lambda>y. C y f))"
proof -
  have "mono_option (\<lambda>f. case r of Inl e \<Rightarrow> Some (Inl e) | Inr x \<Rightarrow> C x f)" for r
    by (cases r) (simp_all add: assms(2) option.const_mono)
  then show ?thesis
    unfolding mp_bind_def by (intro bind_mono assms(1))
qed

section \<open>Signed arithmetic\<close>

text \<open>Where a sum, difference or product goes: over one of the arguments, or elsewhere.\<close>

datatype mp_out = Out_a | Out_b | Out mw_mp_int

definition mp_out_target :: "mw_mp_int \<Rightarrow> mw_mp_int \<Rightarrow> mp_out \<Rightarrow> mw_mp_int" where
  "mp_out_target a b out = (case out of Out_a \<Rightarrow> a | Out_b \<Rightarrow> b | Out c \<Rightarrow> c)"

definition mp_fix_zero :: "mw_mp_int \<Rightarrow> mw_mp_int" where
  "mp_fix_zero c = (if mp_used c = 1 \<and> DIGIT c 0 = 0 then c\<lparr>mp_neg := False\<rparr> else c)"

definition mw_mp_add :: "mw_mp_int \<Rightarrow> mw_mp_int \<Rightarrow> mp_out \<Rightarrow> mw_mp_int mp_result" where
  "mw_mp_add a b out =
     (if mp_neg a = mp_neg b
      then mp_okay (mp_fix_zero
             (case out of
                Out_b \<Rightarrow> s_mw_mp_add b a
              | Out_a \<Rightarrow> s_mw_mp_add a b
              | Out c \<Rightarrow> s_mw_mp_add (mw_mp_copy a c) b))
      else let cmp = s_mw_mp_cmp a b
      in if cmp > 0
         then mp_bind (mp_check
                (case out of
                   Out_b \<Rightarrow> s_mw_mp_sub (mw_mp_init_copy a) b
                 | Out_a \<Rightarrow> s_mw_mp_sub a b
                 | Out c \<Rightarrow> s_mw_mp_sub (mw_mp_copy a c) b))
              (\<lambda>c. mp_okay (mp_fix_zero c))
         else if cmp = 0 then mp_okay (mw_mp_zero (mp_out_target a b out))
         else mp_bind (mp_check
                (case out of
                   Out_a \<Rightarrow> s_mw_mp_sub (mw_mp_init_copy b) a
                 | Out_b \<Rightarrow> s_mw_mp_sub b a
                 | Out c \<Rightarrow> s_mw_mp_sub (mw_mp_copy b c) a))
              (\<lambda>c. mp_okay (mp_fix_zero c)))"

definition mw_mp_sub :: "mw_mp_int \<Rightarrow> mw_mp_int \<Rightarrow> mp_out \<Rightarrow> mw_mp_int mp_result" where
  "mw_mp_sub a b out =
     (if mp_neg a \<noteq> mp_neg b
      then mp_okay (mp_fix_zero
             (case out of
                Out_a \<Rightarrow> s_mw_mp_add a b
              | Out_b \<Rightarrow> (s_mw_mp_add b a)\<lparr>mp_neg := mp_neg a\<rparr>
              | Out c \<Rightarrow> (s_mw_mp_add (mw_mp_copy b c) a)\<lparr>mp_neg := mp_neg a\<rparr>))
      else let cmp = s_mw_mp_cmp a b
      in if cmp > 0
         then mp_bind (mp_check
                (case out of
                   Out_b \<Rightarrow> s_mw_mp_sub (mw_mp_init_copy a) b
                 | Out_a \<Rightarrow> s_mw_mp_sub a b
                 | Out c \<Rightarrow> s_mw_mp_sub (mw_mp_copy a c) b))
              (\<lambda>c. mp_okay (mp_fix_zero c))
         else if cmp = 0 then mp_okay (mw_mp_zero (mp_out_target a b out))
         else mp_bind (mp_check
                (case out of
                   Out_a \<Rightarrow> s_mw_mp_sub (mw_mp_init_copy b) a
                 | Out_b \<Rightarrow> s_mw_mp_sub b a
                 | Out c \<Rightarrow> s_mw_mp_sub (mw_mp_copy b c) a))
              (\<lambda>c. mp_okay (mp_fix_zero (c\<lparr>mp_neg := \<not> mp_neg b\<rparr>))))"

definition mw_mp_mul :: "mw_mp_int \<Rightarrow> mw_mp_int \<Rightarrow> mp_out \<Rightarrow> mw_mp_int" where
  "mw_mp_mul a b out =
     (let sgn = (mp_neg a \<noteq> mp_neg b);
          c = (case out of
                 Out_b \<Rightarrow> s_mw_mp_mul b a
               | Out_a \<Rightarrow> s_mw_mp_mul a b
               | Out c \<Rightarrow> s_mw_mp_mul (mw_mp_copy a c) b)
      in if \<not> sgn \<or> s_mw_mp_cmw_mp_d c 0 = MP_EQ then c\<lparr>mp_neg := False\<rparr> else c\<lparr>mp_neg := sgn\<rparr>)"

definition mw_mp_abs :: "mw_mp_int \<Rightarrow> mw_mp_int \<Rightarrow> mw_mp_int" where
  "mw_mp_abs a b = (mw_mp_copy a b)\<lparr>mp_neg := False\<rparr>"

definition mw_mp_neg :: "mw_mp_int \<Rightarrow> mw_mp_int \<Rightarrow> mw_mp_int" where
  "mw_mp_neg a b =
     (let c = mw_mp_copy a b
      in if s_mw_mp_cmw_mp_d c 0 = MP_EQ then c\<lparr>mp_neg := False\<rparr> else c\<lparr>mp_neg := \<not> mp_neg c\<rparr>)"

definition mw_mp_sqr :: "mw_mp_int \<Rightarrow> mw_mp_int \<Rightarrow> mw_mp_int mp_result" where
  "mw_mp_sqr a b = do { c \<leftarrow> s_mw_mp_sqr (mw_mp_copy a b); mp_okay (c\<lparr>mp_neg := False\<rparr>) }"

definition mw_mp_add_d :: "mw_mp_int \<Rightarrow> mw_mp_digit \<Rightarrow> mw_mp_int \<Rightarrow> mw_mp_int mp_result" where
  "mw_mp_add_d a d b =
     (let c = mw_mp_copy a b
      in if \<not> mp_neg c then mp_okay (s_mw_mp_add_d c d)
         else if s_mw_mp_cmw_mp_d c d \<ge> 0 then mp_check (Some (s_mw_mp_sub_d c d))
         else mp_okay (c\<lparr>mp_neg := False, mp_dp := (mp_dp c)[0 := d - DIGIT c 0]\<rparr>))"

definition mw_mp_sub_d :: "mw_mp_int \<Rightarrow> mw_mp_digit \<Rightarrow> mw_mp_int \<Rightarrow> mw_mp_int mp_result" where
  "mw_mp_sub_d a d b =
     (let c = mw_mp_copy a b
      in mp_bind
           (if mp_neg c then mp_okay (s_mw_mp_add_d c d)
            else if s_mw_mp_cmw_mp_d c d \<ge> 0 then mp_check (Some (s_mw_mp_sub_d c d))
            else let n = mw_mp_neg c c in mp_okay (n\<lparr>mp_neg := True, mp_dp := (mp_dp n)[0 := d - DIGIT n 0]\<rparr>))
           (\<lambda>e. mp_okay (if s_mw_mp_cmw_mp_d e 0 = 0 then e\<lparr>mp_neg := False\<rparr> else e)))"

definition mw_mp_mul_d :: "mw_mp_int \<Rightarrow> mw_mp_digit \<Rightarrow> mw_mp_int \<Rightarrow> mw_mp_int mp_result" where
  "mw_mp_mul_d a d b =
     (if d = 0 then mp_okay (mw_mp_zero b)
      else do { c \<leftarrow> s_mw_mp_mul_d (mw_mp_copy a b) d; mp_okay c })"

section \<open>Division and remainders\<close>

definition mw_mp_div :: "mw_mp_int \<Rightarrow> mw_mp_int \<Rightarrow> mw_mp_int option \<Rightarrow> mw_mp_int option
    \<Rightarrow> (mw_mp_int option \<times> mw_mp_int option) mp_result" where
  "mw_mp_div a b q r =
     (if mw_mp_cmw_mp_z b = MP_EQ then mp_fail MP_RANGE
      else let cmp = s_mw_mp_cmp a b
      in if cmp < 0 then mp_okay (map_option mw_mp_zero q, map_option (mw_mp_copy a) r)
         else if cmp = 0
         then mp_okay (map_option (\<lambda>q. let q1 = mw_mp_set q 1
                                        in if mp_neg a \<noteq> mp_neg b then q1\<lparr>mp_neg := True\<rparr> else q1) q,
                       map_option mw_mp_zero r)
         else do { (res, qtmp, rtmp) \<leftarrow> s_mw_mp_div (mw_mp_init_copy a) (mw_mp_init_copy b);
                   if res \<noteq> MP_OKAY then mp_fail res
                   else let rt = rtmp\<lparr>mp_neg := mp_neg a\<rparr>;
                            qt = qtmp\<lparr>mp_neg := (mp_neg a \<noteq> mp_neg b)\<rparr>;
                            qt' = (if s_mw_mp_cmw_mp_d qt 0 = MP_EQ then qt\<lparr>mp_neg := False\<rparr> else qt);
                            rt' = (if s_mw_mp_cmw_mp_d rt 0 = MP_EQ then rt\<lparr>mp_neg := False\<rparr> else rt)
                        in mp_okay (map_option (\<lambda>_. qt') q, map_option (\<lambda>_. rt') r) })"

definition mw_mp_mod :: "mw_mp_int \<Rightarrow> mw_mp_int \<Rightarrow> mw_mp_int \<Rightarrow> mw_mp_int mp_result" where
  "mw_mp_mod a m c =
     (if mp_neg m then mp_fail MP_RANGE
      else let mag = s_mw_mp_cmp a m
      in if mag > 0
         then mp_bind (mw_mp_div a m None (Some c))
                (\<lambda>(_, r). case r of
                    None \<Rightarrow> mp_okay c
                  | Some c1 \<Rightarrow> if mp_neg c1 then mw_mp_add c1 m Out_a else mp_okay c1)
         else if mag < 0
         then let c1 = mw_mp_copy a c
              in if mw_mp_cmw_mp_z a < 0 then mw_mp_add c1 m Out_a else mp_okay c1
         else mp_okay (mw_mp_zero c))"

definition mw_mp_addmod :: "mw_mp_int \<Rightarrow> mw_mp_int \<Rightarrow> mw_mp_int \<Rightarrow> mw_mp_int \<Rightarrow> mw_mp_int mp_result" where
  "mw_mp_addmod a b m c = mp_bind (mw_mp_add a b (Out c)) (\<lambda>c1. mw_mp_mod c1 m c1)"

definition mw_mp_submod :: "mw_mp_int \<Rightarrow> mw_mp_int \<Rightarrow> mw_mp_int \<Rightarrow> mw_mp_int \<Rightarrow> mw_mp_int mp_result" where
  "mw_mp_submod a b m c = mp_bind (mw_mp_sub a b (Out c)) (\<lambda>c1. mw_mp_mod c1 m c1)"

definition mw_mp_mulmod :: "mw_mp_int \<Rightarrow> mw_mp_int \<Rightarrow> mw_mp_int \<Rightarrow> mw_mp_int \<Rightarrow> mw_mp_int mp_result" where
  "mw_mp_mulmod a b m c = (let c1 = mw_mp_mul a b (Out c) in mw_mp_mod c1 m c1)"

definition mw_mp_sqrmod :: "mw_mp_int \<Rightarrow> mw_mp_int \<Rightarrow> mw_mp_int \<Rightarrow> mw_mp_int mp_result" where
  "mw_mp_sqrmod a m c = mp_bind (mw_mp_sqr a c) (\<lambda>c1. mw_mp_mod c1 m c1)"

section \<open>Modular exponentiation\<close>

partial_function (option) reduce_back :: "mw_mp_int \<Rightarrow> mw_mp_int \<Rightarrow> mw_mp_int mp_result" where
  "reduce_back m x =
     (if mw_mp_cmp x m \<ge> 0
      then mp_bind (mp_check (s_mw_mp_sub x m)) (\<lambda>x'. reduce_back m x')
      else mp_okay x)"

definition s_mw_mp_reduce :: "mw_mp_int \<Rightarrow> mw_mp_int \<Rightarrow> mw_mp_int \<Rightarrow> mw_mp_int mp_result" where
  "s_mw_mp_reduce x m mu =
     (let um = mp_used m;
          q1 = s_mw_mp_rshd (mw_mp_init_copy x) (um - 1);
          q2 = s_mw_mp_mul q1 mu;
          q3 = s_mw_mp_rshd q2 (um + 1);
          x1 = s_mw_mp_mod_2d x (of_nat (DIGIT_BIT * (um + 1)));
          q4 = s_mw_mp_mod_2d (s_mw_mp_mul q3 m) (of_nat (DIGIT_BIT * (um + 1)))
      in mp_bind (mw_mp_sub x1 q4 Out_a)
           (\<lambda>x2. mp_bind
              (if mw_mp_cmw_mp_z x2 < 0
               then mw_mp_add x2 (s_mw_mp_lshd (mw_mp_set q4 1) (um + 1)) Out_a
               else mp_okay x2)
              (reduce_back m)))"

definition exptmod_step :: "mw_mp_int \<Rightarrow> mw_mp_int \<Rightarrow> mw_mp_digit \<Rightarrow> mw_mp_int \<Rightarrow> mw_mp_int
    \<Rightarrow> (mw_mp_int \<times> mw_mp_int) mp_result" where
  "exptmod_step m mu d s x =
     mp_bind (if d AND 1 \<noteq> 0 then s_mw_mp_reduce (s_mw_mp_mul s x) m mu else mp_okay s)
       (\<lambda>s'. do { y \<leftarrow> s_mw_mp_sqr x; mp_bind (s_mw_mp_reduce y m mu) (\<lambda>x'. mp_okay (s', x')) })"

text \<open>The bits of a digit that is not the highest: all of them.\<close>

fun exptmod_bits :: "mw_mp_int \<Rightarrow> mw_mp_int \<Rightarrow> nat \<Rightarrow> mw_mp_digit \<Rightarrow> mw_mp_int \<Rightarrow> mw_mp_int
    \<Rightarrow> (mw_mp_int \<times> mw_mp_int) mp_result" where
  "exptmod_bits m mu 0 d s x = mp_okay (s, x)"
| "exptmod_bits m mu (Suc n) d s x =
     mp_bind (exptmod_step m mu d s x) (\<lambda>(s', x'). exptmod_bits m mu n (drop_bit 1 d) s' x')"

fun exptmod_digits :: "mw_mp_int \<Rightarrow> mw_mp_int \<Rightarrow> mw_mp_digit list \<Rightarrow> mw_mp_int \<Rightarrow> mw_mp_int
    \<Rightarrow> (mw_mp_int \<times> mw_mp_int) mp_result" where
  "exptmod_digits m mu [] s x = mp_okay (s, x)"
| "exptmod_digits m mu (d # ds) s x =
     mp_bind (exptmod_bits m mu DIGIT_BIT d s x) (\<lambda>(s', x'). exptmod_digits m mu ds s' x')"

text \<open>The highest digit: up to its highest bit.\<close>

partial_function (option) exptmod_last :: "mw_mp_int \<Rightarrow> mw_mp_int \<Rightarrow> mw_mp_digit \<Rightarrow> mw_mp_int \<Rightarrow> mw_mp_int
    \<Rightarrow> (mw_mp_int \<times> mw_mp_int) mp_result" where
  "exptmod_last m mu d s x =
     (if d \<noteq> 0
      then mp_bind (exptmod_step m mu d s x) (\<lambda>y. exptmod_last m mu (drop_bit 1 d) (fst y) (snd y))
      else mp_okay (s, x))"

definition mw_mp_exptmod :: "mw_mp_int \<Rightarrow> mw_mp_int \<Rightarrow> mw_mp_int \<Rightarrow> mw_mp_int mp_result" where
  "mw_mp_exptmod a b m =
     (if mw_mp_cmw_mp_z b < 0 \<or> mw_mp_cmw_mp_z m \<le> 0 then mp_fail MP_RANGE
      else let x = mw_mp_init_copy a in
        mp_bind (mw_mp_mod x m x) (\<lambda>x.
          let s = mw_mp_set mw_mp_init 1;
              mu = s_mw_mp_lshd (s_mw_mp_add_d mw_mp_init 1) (2 * mp_used m);
              db = take (mp_used b) (mp_dp b)
          in mp_bind (mw_mp_div mu m (Some mu) None) (\<lambda>(q, _).
            case q of None \<Rightarrow> None
            | Some mu' \<Rightarrow>
              mp_bind (exptmod_digits m mu' (butlast db) s x) (\<lambda>(s, x).
                mp_bind (exptmod_last m mu' (last db) s x) (\<lambda>(s, x). mp_okay s)))))"

section \<open>Bytes\<close>

fun read_bin_loop :: "mw_mp_int \<Rightarrow> bytes \<Rightarrow> mw_mp_int mp_result" where
  "read_bin_loop mp [] = mp_okay mp"
| "read_bin_loop mp (c # str) =
     (let mp1 = s_mw_mp_mul_2d mp 8 in mp_bind (mw_mp_add_d mp1 (ucast c) mp1) (\<lambda>mp2. read_bin_loop mp2 str))"

text \<open>An empty string fails the assertion on the arguments, which ends the program.\<close>

definition mw_mp_read_unsigned_bin :: "mw_mp_int \<Rightarrow> bytes \<Rightarrow> mw_mp_int mp_result" where
  "mw_mp_read_unsigned_bin mp str = (if str = [] then None else read_bin_loop (mw_mp_zero mp) str)"

definition mw_mp_read_signed_bin :: "mw_mp_int \<Rightarrow> bytes \<Rightarrow> mw_mp_int mp_result" where
  "mw_mp_read_signed_bin mp str =
     (if str = [] then None
      else mp_bind (mw_mp_read_unsigned_bin mp (tl str)) (\<lambda>mp1. mp_okay (mp1\<lparr>mp_neg := hd str \<noteq> 0\<rparr>)))"

text \<open>The bytes of a digit, the lowest first: both of them, or those up to the highest that is set.\<close>

fun digit_bytes :: "nat \<Rightarrow> mw_mp_digit \<Rightarrow> bytes" where
  "digit_bytes 0 d = []"
| "digit_bytes (Suc n) d = ucast (d AND 255) # digit_bytes n (drop_bit 8 d)"

function top_bytes :: "mw_mp_digit \<Rightarrow> bytes" where
  "top_bytes d = (if d \<noteq> 0 then ucast (d AND 255) # top_bytes (drop_bit 8 d) else [])"
  by pat_completeness auto
termination
  by (relation "measure unat") (simp_all only: unat_drop_digit in_measure wf_measure, simp add: unat_gt_0)

declare top_bytes.simps [simp del]

definition mw_mp_to_unsigned_bin :: "mw_mp_int \<Rightarrow> bytes" where
  "mw_mp_to_unsigned_bin mp =
     (if mp_used mp = 1 \<and> DIGIT mp 0 = 0 then [0]
      else rev (concat (map (digit_bytes 2) (take (mp_used mp - 1) (mp_dp mp)))
                @ top_bytes (DIGIT mp (mp_used mp - 1))))"

definition mw_mp_to_signed_bin :: "mw_mp_int \<Rightarrow> bytes" where
  "mw_mp_to_signed_bin mp = of_bool (mp_neg mp) # mw_mp_to_unsigned_bin mp"

definition mw_mp_unsigned_bin_size :: "mw_mp_int \<Rightarrow> nat" where
  "mw_mp_unsigned_bin_size mp =
     (if mp_used mp = 1 \<and> DIGIT mp 0 = 0 then 1
      else (mp_used mp - 1) * 2 + length (top_bytes (DIGIT mp (mp_used mp - 1))))"

definition mw_mp_signed_bin_size :: "mw_mp_int \<Rightarrow> nat" where
  "mw_mp_signed_bin_size mp = mw_mp_unsigned_bin_size mp + 1"

text \<open>\<open>mw_mp_set_int\<close> on a platform with eight byte longs.\<close>

definition mw_mp_set_int :: "mw_mp_int \<Rightarrow> int \<Rightarrow> mw_mp_int" where
  "mw_mp_set_int mp z =
     (let v = (of_int \<bar>z\<bar> :: 64 word)
      in if z = 0 then mw_mp_zero mp
         else let mp1 = foldl (\<lambda>mp ix. s_mw_mp_add_d (s_mw_mp_mul_2d mp 8) (ucast (drop_bit (ix * 8) v AND 255)))
                          (mw_mp_zero mp) [7, 6, 5, 4, 3, 2, 1, 0]
              in if z < 0 then mp1\<lparr>mp_neg := True\<rparr> else mp1)"

section \<open>Signed arithmetic is exact\<close>

lemma mp_fix_zero_ok:
  assumes "mp_ok c" "mp_clamped c"
  shows "mp_wf (mp_fix_zero c)" "mp_num (mp_fix_zero c) = mp_num c" "mp_val (mp_fix_zero c) = mp_val c"
proof -
  have v: "mp_val (mp_fix_zero c) = mp_val c" "mp_used (mp_fix_zero c) = mp_used c" "mp_dp (mp_fix_zero c) = mp_dp c"
    by (simp_all add: mp_fix_zero_def mp_val_def)
  then show "mp_val (mp_fix_zero c) = mp_val c" by blast
  show "mp_wf (mp_fix_zero c)"
    using assms v mp_val_eq_0 [OF assms] by (simp add: mp_wf_def mp_ok_def mp_clamped_def) (auto simp: mp_fix_zero_def)
  show "mp_num (mp_fix_zero c) = mp_num c"
    using mp_val_eq_0 [OF assms] v(1) by (auto simp: mp_num_def) (auto simp: mp_fix_zero_def)
qed

lemma mp_neg_update [simp]:
  "mp_ok (c\<lparr>mp_neg := s\<rparr>) = mp_ok c" "mp_clamped (c\<lparr>mp_neg := s\<rparr>) = mp_clamped c" "mp_val (c\<lparr>mp_neg := s\<rparr>) = mp_val c"
  by (simp_all add: mp_ok_def mp_clamped_def mp_val_def)

lemma mw_mp_zero_num: "mp_ok a \<Longrightarrow> mp_num (mw_mp_zero a) = 0"
  by (simp add: mp_num_def)

lemma sub_case:
  assumes "mp_wf a" "mp_wf b" "mp_val b < mp_val a"
  shows "\<exists>c. mp_check (case out of Out_b \<Rightarrow> s_mw_mp_sub (mw_mp_init_copy a) b | Out_a \<Rightarrow> s_mw_mp_sub a b
      | Out c \<Rightarrow> s_mw_mp_sub (mw_mp_copy a c) b) = mp_okay c
    \<and> mp_wf c \<and> mp_val c = mp_val a - mp_val b \<and> mp_neg c = mp_neg a"
proof -
  have sub: "\<exists>c. s_mw_mp_sub a' b = Some (MP_OKAY, c) \<and> mp_wf c \<and> mp_val c = mp_val a - mp_val b \<and> mp_neg c = mp_neg a"
    if "mp_ok a'" "mp_val a' = mp_val a" "mp_neg a' = mp_neg a" for a'
    using s_mw_mp_sub_wf [OF that(1) mp_wfD(1, 2) [OF assms(2)]] assms(3) that by (metis less_imp_le zero_less_diff)
  show ?thesis
  proof (cases out)
    case (Out c)
    then show ?thesis
      using sub [of "mw_mp_copy a c"] mp_wfD(1) [OF assms(1)] by auto
  qed (use sub [of a] sub [of "mw_mp_init_copy a"] mp_wfD(1) [OF assms(1)] in auto)
qed

lemma sub_case':
  assumes "mp_wf a" "mp_wf b" "mp_val a < mp_val b"
  shows "\<exists>c. mp_check (case out of Out_a \<Rightarrow> s_mw_mp_sub (mw_mp_init_copy b) a | Out_b \<Rightarrow> s_mw_mp_sub b a
      | Out c \<Rightarrow> s_mw_mp_sub (mw_mp_copy b c) a) = mp_okay c
    \<and> mp_wf c \<and> mp_val c = mp_val b - mp_val a \<and> mp_neg c = mp_neg b"
  using sub_case [OF assms(2, 1, 3), of "case out of Out_a \<Rightarrow> Out_b | Out_b \<Rightarrow> Out_a | Out c \<Rightarrow> Out c"]
  by (cases out) simp_all

lemma cmp_cases:
  assumes "mp_wf a" "mp_wf b"
  shows "s_mw_mp_cmp a b > 0 \<longleftrightarrow> mp_val b < mp_val a" "s_mw_mp_cmp a b = 0 \<longleftrightarrow> mp_val a = mp_val b"
    "s_mw_mp_cmp a b < 0 \<longleftrightarrow> mp_val a < mp_val b"
  using assms unfolding mp_wf_def by (auto simp: s_mw_mp_cmp_val sgn_if)

definition mp_out_ok :: "mp_out \<Rightarrow> bool" where
  "mp_out_ok out = (case out of Out c \<Rightarrow> mp_ok c | _ \<Rightarrow> True)"

lemma mp_out_target_ok: "mp_wf a \<Longrightarrow> mp_wf b \<Longrightarrow> mp_out_ok out \<Longrightarrow> mp_ok (mp_out_target a b out)"
  by (cases out) (simp_all add: mp_out_target_def mp_out_ok_def mp_wf_def)

lemma mw_mp_add_num:
  assumes "mp_wf a" "mp_wf b" "mp_out_ok out"
  obtains c where "mw_mp_add a b out = mp_okay c" "mp_wf c" "mp_num c = mp_num a + mp_num b"
proof (cases "mp_neg a = mp_neg b")
  case True
  define c where "c = (case out of Out_b \<Rightarrow> s_mw_mp_add b a | Out_a \<Rightarrow> s_mw_mp_add a b | Out c \<Rightarrow> s_mw_mp_add (mw_mp_copy a c) b)"
  note wf = mp_wfD(1, 2) [OF assms(1)] mp_wfD(1, 2) [OF assms(2)]
  have c: "mp_ok c" "mp_clamped c" "mp_val c = mp_val a + mp_val b" "mp_neg c = mp_neg a"
    using s_mw_mp_add_ok wf True by (cases out; simp add: c_def)+
  have "mw_mp_add a b out = mp_okay (mp_fix_zero c)"
    using True by (simp add: mw_mp_add_def c_def)
  then show ?thesis
    using that mp_fix_zero_ok [OF c(1, 2)] c(3, 4) True by (simp add: mp_num_def)
next
  case signs: False
  note cmp = cmp_cases [OF assms(1, 2)]
  consider "mp_val b < mp_val a" | "mp_val a = mp_val b" | "mp_val a < mp_val b" by linarith
  then show ?thesis
  proof cases
    case 1
    obtain c where c: "mp_check (case out of Out_b \<Rightarrow> s_mw_mp_sub (mw_mp_init_copy a) b | Out_a \<Rightarrow> s_mw_mp_sub a b
        | Out c \<Rightarrow> s_mw_mp_sub (mw_mp_copy a c) b) = mp_okay c" "mp_wf c" "mp_val c = mp_val a - mp_val b" "mp_neg c = mp_neg a"
      using sub_case [OF assms(1, 2) 1, of out] by blast
    have "mw_mp_add a b out = mp_okay (mp_fix_zero c)"
      using c(1) signs cmp(1) 1 by (simp add: mw_mp_add_def Let_def)
    then show ?thesis
      using that mp_fix_zero_ok [OF mp_wfD(1, 2) [OF c(2)]] c(3, 4) 1 signs by (auto simp: mp_num_def)
  next
    case 2
    then have "mw_mp_add a b out = mp_okay (mw_mp_zero (mp_out_target a b out))"
      using signs cmp by (simp add: mw_mp_add_def Let_def)
    then show ?thesis
      using that mp_out_target_ok [OF assms] 2 signs by (auto simp: mp_num_def)
  next
    case 3
    obtain c where c: "mp_check (case out of Out_a \<Rightarrow> s_mw_mp_sub (mw_mp_init_copy b) a | Out_b \<Rightarrow> s_mw_mp_sub b a
        | Out c \<Rightarrow> s_mw_mp_sub (mw_mp_copy b c) a) = mp_okay c" "mp_wf c" "mp_val c = mp_val b - mp_val a" "mp_neg c = mp_neg b"
      using sub_case' [OF assms(1, 2) 3, of out] by blast
    have "mw_mp_add a b out = mp_okay (mp_fix_zero c)"
      using c(1) signs cmp 3 by (simp add: mw_mp_add_def Let_def)
    then show ?thesis
      using that mp_fix_zero_ok [OF mp_wfD(1, 2) [OF c(2)]] c(3, 4) 3 signs by (auto simp: mp_num_def)
  qed
qed

lemma mw_mp_sub_num:
  assumes "mp_wf a" "mp_wf b" "mp_out_ok out"
  obtains c where "mw_mp_sub a b out = mp_okay c" "mp_wf c" "mp_num c = mp_num a - mp_num b"
proof (cases "mp_neg a = mp_neg b")
  case False
  define c where "c = (case out of Out_a \<Rightarrow> s_mw_mp_add a b | Out_b \<Rightarrow> (s_mw_mp_add b a)\<lparr>mp_neg := mp_neg a\<rparr>
    | Out c \<Rightarrow> (s_mw_mp_add (mw_mp_copy b c) a)\<lparr>mp_neg := mp_neg a\<rparr>)"
  note wf = mp_wfD(1, 2) [OF assms(1)] mp_wfD(1, 2) [OF assms(2)]
  have c: "mp_ok c" "mp_clamped c" "mp_val c = mp_val a + mp_val b" "mp_neg c = mp_neg a"
    using s_mw_mp_add_ok wf by (cases out; simp add: c_def)+
  have "mw_mp_sub a b out = mp_okay (mp_fix_zero c)"
    using False by (simp add: mw_mp_sub_def c_def)
  then show ?thesis
    using that mp_fix_zero_ok [OF c(1, 2)] c(3, 4) False by (auto simp: mp_num_def)
next
  case signs: True
  note cmp = cmp_cases [OF assms(1, 2)]
  consider "mp_val b < mp_val a" | "mp_val a = mp_val b" | "mp_val a < mp_val b" by linarith
  then show ?thesis
  proof cases
    case 1
    obtain c where c: "mp_check (case out of Out_b \<Rightarrow> s_mw_mp_sub (mw_mp_init_copy a) b | Out_a \<Rightarrow> s_mw_mp_sub a b
        | Out c \<Rightarrow> s_mw_mp_sub (mw_mp_copy a c) b) = mp_okay c" "mp_wf c" "mp_val c = mp_val a - mp_val b" "mp_neg c = mp_neg a"
      using sub_case [OF assms(1, 2) 1, of out] by blast
    have "mw_mp_sub a b out = mp_okay (mp_fix_zero c)"
      using c(1) signs cmp(1) 1 by (simp add: mw_mp_sub_def Let_def)
    then show ?thesis
      using that mp_fix_zero_ok [OF mp_wfD(1, 2) [OF c(2)]] c(3, 4) 1 signs by (auto simp: mp_num_def)
  next
    case 2
    then have "mw_mp_sub a b out = mp_okay (mw_mp_zero (mp_out_target a b out))"
      using signs cmp by (simp add: mw_mp_sub_def Let_def)
    then show ?thesis
      using that mp_out_target_ok [OF assms] 2 signs by (auto simp: mp_num_def)
  next
    case 3
    obtain c where c: "mp_check (case out of Out_a \<Rightarrow> s_mw_mp_sub (mw_mp_init_copy b) a | Out_b \<Rightarrow> s_mw_mp_sub b a
        | Out c \<Rightarrow> s_mw_mp_sub (mw_mp_copy b c) a) = mp_okay c" "mp_wf c" "mp_val c = mp_val b - mp_val a"
      using sub_case' [OF assms(1, 2) 3, of out] by blast
    have "mw_mp_sub a b out = mp_okay (mp_fix_zero (c\<lparr>mp_neg := \<not> mp_neg b\<rparr>))"
      using c(1) signs cmp 3 by (simp add: mw_mp_sub_def Let_def)
    then show ?thesis
      using that mp_fix_zero_ok [of "c\<lparr>mp_neg := \<not> mp_neg b\<rparr>"] mp_wfD(1, 2) [OF c(2)] c(3) 3 signs by (auto simp: mp_num_def)
  qed
qed

lemma mw_mp_mul_num:
  assumes "mp_wf a" "mp_wf b"
  shows "mp_wf (mw_mp_mul a b out)" "mp_num (mw_mp_mul a b out) = mp_num a * mp_num b"
proof -
  note wf = mp_wfD(1, 2) [OF assms(1)] mp_wfD(1, 2) [OF assms(2)]
  define c where "c = (case out of Out_b \<Rightarrow> s_mw_mp_mul b a | Out_a \<Rightarrow> s_mw_mp_mul a b | Out c \<Rightarrow> s_mw_mp_mul (mw_mp_copy a c) b)"
  have c: "mp_wf c" "mp_val c = mp_val a * mp_val b"
    using s_mw_mp_mul_ok wf by (cases out; simp add: c_def)+
  have zero: "s_mw_mp_cmw_mp_d c 0 = MP_EQ \<longleftrightarrow> mp_val c = 0"
    using c(1) by (simp add: s_mw_mp_cmp_d_val mp_wf_def sgn_if)
  have mul: "mw_mp_mul a b out = c\<lparr>mp_neg := mp_neg a \<noteq> mp_neg b \<and> mp_val c \<noteq> 0\<rparr>"
    using zero by (cases "mp_neg a"; cases "mp_neg b"; cases "mp_val c = 0") (simp_all add: mw_mp_mul_def Let_def flip: c_def)
  show "mp_wf (mw_mp_mul a b out)"
    unfolding mul using c(1) by (simp add: mp_wf_def)
  show "mp_num (mw_mp_mul a b out) = mp_num a * mp_num b"
    unfolding mul using c(2) by (auto simp: mp_num_def)
qed

section \<open>Division\<close>

text \<open>
  The quotient is rounded towards zero and the remainder has the sign of the dividend, as for
  the operators of C.
\<close>

definition tdiv :: "int \<Rightarrow> int \<Rightarrow> int" where
  "tdiv a b = sgn a * sgn b * (\<bar>a\<bar> div \<bar>b\<bar>)"

definition tmod :: "int \<Rightarrow> int \<Rightarrow> int" where
  "tmod a b = sgn a * (\<bar>a\<bar> mod \<bar>b\<bar>)"

lemma sgn_times: "0 \<le> r \<Longrightarrow> \<bar>sgn (a :: int) * r\<bar> \<le> r \<and> (sgn a * r = 0 \<or> sgn (sgn a * r) = sgn a)"
  by (cases "a < 0"; cases "a = 0"; cases "r = 0") (simp_all add: sgn_if)

lemma mp_num_sgn: "mp_wf a \<Longrightarrow> sgn (mp_num a) = (if mp_neg a then -1 else if mp_val a = 0 then 0 else 1)"
  by (auto simp: mp_num_def mp_wf_def)

lemma mp_num_abs: "\<bar>mp_num a\<bar> = int (mp_val a)"
  by (simp add: mp_num_def)

lemma zero_sign:
  assumes "mp_ok c" "mp_clamped c"
  defines "d \<equiv> (if s_mw_mp_cmw_mp_d c 0 = MP_EQ then c\<lparr>mp_neg := False\<rparr> else c)"
  shows "mp_wf d" "mp_num d = mp_num c"
  using assms(1, 2) by (auto simp: d_def mp_wf_def mp_num_def s_mw_mp_cmp_d_val sgn_if)

lemma mw_mp_div_num:
  assumes "mp_wf a" "mp_wf b" "0 < mp_val b" "mp_used b \<le> 4096"
    "\<And>c. q = Some c \<Longrightarrow> mp_ok c" "\<And>c. r = Some c \<Longrightarrow> mp_ok c"
  shows "\<exists>q' r'. mw_mp_div a b q r = mp_okay (map_option (\<lambda>_. q') q, map_option (\<lambda>_. r') r)
    \<and> (q \<noteq> None \<longrightarrow> mp_wf q' \<and> mp_num q' = tdiv (mp_num a) (mp_num b))
    \<and> (r \<noteq> None \<longrightarrow> mp_wf r' \<and> mp_num r' = tmod (mp_num a) (mp_num b))"
proof -
  have nz: "mw_mp_cmw_mp_z b \<noteq> MP_EQ"
    using assms(2, 3) by (simp add: mw_mp_cmp_z_val mp_num_sgn sgn_if) (auto simp: mp_num_def)
  note cmp = cmp_cases [OF assms(1, 2)]
  note num = tdiv_def tmod_def mp_num_abs mp_num_sgn [OF assms(1)] mp_num_sgn [OF assms(2)]
  consider "mp_val a < mp_val b" | "mp_val a = mp_val b" | "mp_val b < mp_val a" by linarith
  then show ?thesis
  proof cases
    case 1
    define q' where "q' = (case q of None \<Rightarrow> a | Some c \<Rightarrow> mw_mp_zero c)"
    define r' where "r' = (case r of None \<Rightarrow> a | Some c \<Rightarrow> mw_mp_copy a c)"
    have "mw_mp_div a b q r = mp_okay (map_option (\<lambda>_. q') q, map_option (\<lambda>_. r') r)"
      using 1 cmp nz by (cases q; cases r) (simp_all add: mw_mp_div_def Let_def q'_def r'_def)
    moreover have "q \<noteq> None \<longrightarrow> mp_wf q' \<and> mp_num q' = tdiv (mp_num a) (mp_num b)"
      using assms(5) 1 by (cases q) (auto simp: q'_def num)
    moreover have "r \<noteq> None \<longrightarrow> mp_wf r' \<and> mp_num r' = tmod (mp_num a) (mp_num b)"
      using assms(1) 1 by (cases r) (auto simp: r'_def num mp_wfD, auto simp: mp_num_def)
    ultimately show ?thesis by blast
  next
    case 2
    define q' where "q' = (case q of None \<Rightarrow> a
      | Some c \<Rightarrow> if mp_neg a \<noteq> mp_neg b then (mw_mp_set c 1)\<lparr>mp_neg := True\<rparr> else mw_mp_set c 1)"
    define r' where "r' = (case r of None \<Rightarrow> a | Some c \<Rightarrow> mw_mp_zero c)"
    have "mw_mp_div a b q r = mp_okay (map_option (\<lambda>_. q') q, map_option (\<lambda>_. r') r)"
      using 2 cmp nz by (cases q; cases r) (simp_all add: mw_mp_div_def Let_def q'_def r'_def)
    moreover have "q \<noteq> None \<longrightarrow> mp_wf q' \<and> mp_num q' = tdiv (mp_num a) (mp_num b)"
      using assms(3, 5) 2 mw_mp_set_ok by (cases q) (auto simp: q'_def num mp_wf_def mp_num_def)
    moreover have "r \<noteq> None \<longrightarrow> mp_wf r' \<and> mp_num r' = tmod (mp_num a) (mp_num b)"
      using assms(6) 2 by (cases r) (auto simp: r'_def num)
    ultimately show ?thesis by blast
  next
    case 3
    obtain qt rt where d: "s_mw_mp_div (mw_mp_init_copy a) (mw_mp_init_copy b) = Some (MP_OKAY, qt, rt)"
      "mp_ok qt" "mp_clamped qt" "mp_ok rt" "mp_clamped rt"
      "mp_val qt = mp_val a div mp_val b" "mp_val rt = mp_val a mod mp_val b"
    proof (rule s_mw_mp_div_ok)
      show "mp_wf (mw_mp_init_copy a)" "mp_wf (mw_mp_init_copy b)" "0 < mp_val (mw_mp_init_copy b)"
        "mp_used (mw_mp_init_copy b) \<le> 4096"
        using assms(1 - 4) by (simp_all add: mp_wfD)
    qed (use that assms(1, 2) in \<open>simp add: mp_wfD\<close>)
    define qs where "qs = qt\<lparr>mp_neg := (mp_neg a \<noteq> mp_neg b)\<rparr>"
    define rs where "rs = rt\<lparr>mp_neg := mp_neg a\<rparr>"
    define q' where "q' = (if s_mw_mp_cmw_mp_d qs 0 = MP_EQ then qs\<lparr>mp_neg := False\<rparr> else qs)"
    define r' where "r' = (if s_mw_mp_cmw_mp_d rs 0 = MP_EQ then rs\<lparr>mp_neg := False\<rparr> else rs)"
    have div: "mw_mp_div a b q r = mp_okay (map_option (\<lambda>_. q') q, map_option (\<lambda>_. r') r)"
      unfolding mw_mp_div_def Let_def q'_def r'_def qs_def rs_def using 3 cmp nz d(1) by simp
    have q': "mp_wf q'" "mp_num q' = mp_num qs"
      unfolding q'_def by (rule zero_sign; use d in \<open>simp add: qs_def\<close>)+
    have r': "mp_wf r'" "mp_num r' = mp_num rs"
      unfolding r'_def by (rule zero_sign; use d in \<open>simp add: rs_def\<close>)+
    have "mp_num qs = tdiv (mp_num a) (mp_num b)"
      using 3 d(6) assms(3) by (simp add: num) (simp add: qs_def mp_num_def zdiv_int)
    moreover have "mp_num rs = tmod (mp_num a) (mp_num b)"
      using 3 d(7) by (simp add: num) (simp add: rs_def mp_num_def zmod_int)
    ultimately show ?thesis
      using div q' r' by auto
  qed
qed

lemma mw_mp_mod_num:
  assumes "mp_wf a" "mp_wf m" "0 < mp_num m" "mp_used m \<le> 4096" "mp_ok c"
  obtains r where "mw_mp_mod a m c = mp_okay r" "mp_wf r" "mp_num r = mp_num a mod mp_num m"
proof -
  define M where "M = int (mp_val m)"
  have m: "\<not> mp_neg m" "mp_num m = M" "0 < M" "0 < mp_val m"
    using assms(2, 3) by (auto simp: mp_num_def M_def split: if_splits)
  note cmp = cmp_cases [OF assms(1, 2)]
  consider "mp_val m < mp_val a" | "mp_val a = mp_val m" | "mp_val a < mp_val m" by linarith
  then show thesis
  proof cases
    case 1
    obtain r where r: "mw_mp_div a m None (Some c) = mp_okay (None, Some r)" "mp_wf r" "mp_num r = tmod (mp_num a) M"
      using mw_mp_div_num [OF assms(1, 2) m(4) assms(4), of None "Some c"] assms(5) m(2) by auto
    have tmod: "tmod (mp_num a) M = (if mp_neg a then - (int (mp_val a) mod M) else int (mp_val a) mod M)"
      using m(3) 1 by (simp add: tmod_def mp_num_abs mp_num_sgn [OF assms(1)])
    show thesis
    proof (cases "mp_neg r")
      case False
      have "0 \<le> tmod (mp_num a) M"
        using False r(3) by (simp add: mp_num_def split: if_splits)
      then have "mp_neg a \<Longrightarrow> int (mp_val a) mod M = 0"
        using tmod pos_mod_sign [OF m(3), of "int (mp_val a)"] by simp
      then have "mp_num r = mp_num a mod M"
        unfolding r(3) tmod by (auto simp: mp_num_def zmod_zminus1_eq_if)
      then show thesis
        using that r False 1 m cmp by (simp add: mw_mp_mod_def Let_def)
    next
      case True
      obtain s where s: "mw_mp_add r m Out_a = mp_okay s" "mp_wf s" "mp_num s = mp_num r + M"
        using mw_mp_add_num [OF r(2) assms(2), of Out_a] m(2) by (auto simp: mp_out_ok_def)
      have "mp_num r < 0"
        using True r(2) by (simp add: mp_num_def mp_wf_def)
      then have "mp_neg a" "int (mp_val a) mod M \<noteq> 0"
        using r(3) tmod pos_mod_sign [OF m(3), of "int (mp_val a)"] by (simp_all split: if_splits)
      then have "mp_num s = mp_num a mod M"
        unfolding s(3) r(3) tmod by (simp add: mp_num_def zmod_zminus1_eq_if)
      then show thesis
        using that s r(1) True 1 m cmp by (simp add: mw_mp_mod_def Let_def)
    qed
  next
    case 2
    then have "mp_num a mod M = 0"
      by (auto simp: mp_num_def M_def)
    then show thesis
      using that 2 m cmp assms(5) by (simp add: mw_mp_mod_def Let_def)
  next
    case 3
    define c1 where "c1 = mw_mp_copy a c"
    have c1: "mp_wf c1" "mp_num c1 = mp_num a"
      using assms(1) by (simp_all add: c1_def mp_wfD)
    have z: "mw_mp_cmw_mp_z a < 0 \<longleftrightarrow> mp_num a < 0"
      by (simp add: mw_mp_cmp_z_val [OF assms(1)])
    have M: "- M < mp_num a" "mp_num a < M"
      using 3 by (auto simp: mp_num_def M_def)
    show thesis
    proof (cases "mp_num a < 0")
      case True
      obtain s where s: "mw_mp_add c1 m Out_a = mp_okay s" "mp_wf s" "mp_num s = mp_num a + M"
        using mw_mp_add_num [OF c1(1) assms(2), of Out_a] c1(2) m(2) by (auto simp: mp_out_ok_def)
      have "(mp_num a + M) mod M = mp_num a + M"
        using True M by (intro mod_pos_pos_trivial) simp_all
      then show thesis
        using that s True 3 m cmp z by (simp add: mw_mp_mod_def Let_def c1_def)
    next
      case False
      then show thesis
        using that c1 3 m cmp z M by (simp add: mw_mp_mod_def Let_def c1_def)
    qed
  qed
qed

section \<open>Barrett reduction\<close>

lemma barrett_upper:
  assumes "(M :: nat) * \<mu> \<le> P * R" "q1 * P \<le> x" "q3 * R \<le> q1 * \<mu>" "0 < P" "0 < R"
  shows "q3 * M \<le> x"
proof -
  have "q3 * M * (P * R) = q3 * R * (M * P)"
    by (simp add: algebra_simps)
  also have "\<dots> \<le> q1 * \<mu> * (M * P)"
    by (rule mult_le_mono1 [OF assms(3)])
  also have "\<dots> = M * \<mu> * (q1 * P)"
    by (simp add: algebra_simps)
  also have "\<dots> \<le> P * R * x"
    by (rule mult_le_mono [OF assms(1, 2)])
  finally have "q3 * M * (P * R) \<le> x * (P * R)"
    by (simp add: mult.commute)
  then show ?thesis
    using assms(4, 5) by simp
qed

lemma barrett_lower:
  assumes "P * R < (M :: nat) * Suc \<mu>" "x < Suc q1 * P" "q1 * \<mu> < Suc q3 * R" "P \<le> M" "q1 * P < P * R" "0 < P" "0 < R"
  shows "x < (q3 + 3) * M"
proof -
  have pos: "0 < P * R"
    using assms(6, 7) by simp
  have "x * (P * R) < Suc q1 * P * (P * R)"
    by (rule mult_less_mono1 [OF assms(2) pos])
  also have "\<dots> = q1 * P * (P * R) + P * (P * R)"
    by (simp add: algebra_simps)
  also have "\<dots> \<le> q1 * P * (M * Suc \<mu>) + M * (P * R)"
    by (intro add_mono mult_le_mono2 mult_le_mono1 assms(4) less_imp_le [OF assms(1)])
  also have "\<dots> = M * P * (q1 * \<mu>) + M * (q1 * P) + M * (P * R)"
    by (simp add: algebra_simps)
  also have "\<dots> \<le> M * P * (Suc q3 * R) + M * (P * R) + M * (P * R)"
    by (intro add_mono mult_le_mono2 order_refl less_imp_le [OF assms(3)] less_imp_le [OF assms(5)])
  also have "\<dots> = (q3 + 3) * M * (P * R)"
    by (simp add: algebra_simps)
  finally show ?thesis
    using pos by simp
qed

text \<open>The estimate of the quotient is at most two too small.\<close>

lemma barrett:
  assumes "0 < k" "RADIX ^ (k - 1) \<le> M" "M < RADIX ^ k" "x < RADIX ^ (2 * k)"
  defines "q3 \<equiv> x div RADIX ^ (k - 1) * (RADIX ^ (2 * k) div M) div RADIX ^ (k + 1)"
  shows "q3 * M \<le> x" "x - q3 * M < 3 * M"
proof -
  define P where "P = RADIX ^ (k - 1)"
  define R where "R = RADIX ^ (k + 1)"
  define \<mu> where "\<mu> = RADIX ^ (2 * k) div M"
  define q1 where "q1 = x div P"
  have PR: "RADIX ^ (2 * k) = P * R"
    unfolding P_def R_def power_add [symmetric] using assms(1) by simp
  have pos: "0 < P" "0 < R" "0 < M"
    using assms(2) by (simp_all add: P_def R_def) (metis gr0I not_less zero_less_numeral zero_less_power)
  have q3: "q3 = q1 * \<mu> div R"
    by (simp add: q3_def q1_def P_def R_def \<mu>_def)
  have up: "M * \<mu> \<le> P * R" "q1 * P \<le> x" "q3 * R \<le> q1 * \<mu>"
    unfolding \<mu>_def PR q3 q1_def by (rule times_div_less_eq_dividend div_times_less_eq_dividend)+
  then show le: "q3 * M \<le> x"
    using barrett_upper pos by blast
  have "x < (q3 + 3) * M"
  proof (rule barrett_lower)
    show "P * R < M * Suc \<mu>"
      unfolding \<mu>_def PR using dividend_less_times_div [OF pos(3), of "P * R"] by simp
    show "x < Suc q1 * P"
      unfolding q1_def using dividend_less_div_times [OF pos(1), of x] by simp
    show "q1 * \<mu> < Suc q3 * R"
      unfolding q3 using dividend_less_div_times [OF pos(2), of "q1 * \<mu>"] by simp
    show "P \<le> M" "0 < P" "0 < R"
      using assms(2) pos by (simp_all add: P_def)
    show "q1 * P < P * R"
      by (rule le_less_trans [OF up(2)]) (use assms(4) PR in simp)
  qed
  then show "x - q3 * M < 3 * M"
    using le by (simp add: algebra_simps)
qed

lemma reduce_back_val:
  assumes "mp_wf m" "\<not> mp_neg m" "0 < mp_val m" "mp_wf x" "\<not> mp_neg x"
  shows "\<exists>r. reduce_back m x = mp_okay r \<and> mp_wf r \<and> \<not> mp_neg r \<and> mp_val r = mp_val x mod mp_val m"
  using assms(4, 5)
proof (induction "mp_val x" arbitrary: x rule: less_induct)
  case less
  have cmp: "mw_mp_cmp x m \<ge> 0 \<longleftrightarrow> mp_val m \<le> mp_val x"
    using less(2, 3) assms(1, 2) by (simp add: mw_mp_cmp_val sgn_if)
  show ?case
  proof (cases "mp_val m \<le> mp_val x")
    case True
    then obtain x' where x': "s_mw_mp_sub x m = Some (MP_OKAY, x')" "mp_wf x'" "mp_val x' = mp_val x - mp_val m" "\<not> mp_neg x'"
      using s_mw_mp_sub_wf [OF mp_wfD(1) [OF less(2)] mp_wfD(1, 2) [OF assms(1)]] less(3) by metis
    then show ?thesis
      using less(1) [of x'] True assms(3) cmp by (subst reduce_back.simps) (simp add: le_mod_geq)
  next
    case False
    then show ?thesis
      using cmp less(2, 3) by (subst reduce_back.simps) auto
  qed
qed

lemma mod_difference:
  assumes "(y :: nat) \<le> x" "x - y < R"
  shows "(if int (x mod R) - int (y mod R) < 0 then int (x mod R) - int (y mod R) + int R
    else int (x mod R) - int (y mod R)) = int (x - y)"
proof -
  define d where "d = int (x mod R) - int (y mod R)"
  have "d mod int R = (int x - int y) mod int R"
    unfolding d_def zmod_int by (rule mod_diff_eq)
  also have "\<dots> = int (x - y)"
    using assms by (simp add: of_nat_diff)
  finally have m: "d mod int R = int (x - y)" .
  have R: "0 < R"
    using assms(2) by simp
  then have d: "- int R < d" "d < int R"
    using mod_less_divisor [OF R, of x] mod_less_divisor [OF R, of y] unfolding d_def by linarith+
  show ?thesis
    unfolding d_def [symmetric]
  proof (cases "d < 0")
    case True
    have "(d + int R) mod int R = d + int R"
      using d True by (intro mod_pos_pos_trivial) simp_all
    then show "(if d < 0 then d + int R else d) = int (x - y)"
      using m True by simp
  next
    case False
    then show "(if d < 0 then d + int R else d) = int (x - y)"
      using m d by simp
  qed
qed

lemma one_shifted:
  assumes "mp_ok q"
  shows "mp_wf (s_mw_mp_lshd (mw_mp_set q 1) n)" "mp_num (s_mw_mp_lshd (mw_mp_set q 1) n) = int (RADIX ^ n)"
proof -
  note set = mw_mp_set_ok [OF assms, of 1]
  have l: "mp_ok (s_mw_mp_lshd (mw_mp_set q 1) n)" "mp_val (s_mw_mp_lshd (mw_mp_set q 1) n) = RADIX ^ n"
    "\<not> mp_neg (s_mw_mp_lshd (mw_mp_set q 1) n)" "mp_used (s_mw_mp_lshd (mw_mp_set q 1) n) = n + 1"
    using s_mw_mp_lshd_ok [OF mp_wfD(1) [OF set(1)], of n] set by (simp_all add: mw_mp_set_def mw_mp_zero_def)
  moreover have "mp_clamped (s_mw_mp_lshd (mw_mp_set q 1) n)"
    by (rule mp_clampedI [OF l(1)]) (simp add: l)
  ultimately show "mp_wf (s_mw_mp_lshd (mw_mp_set q 1) n)" "mp_num (s_mw_mp_lshd (mw_mp_set q 1) n) = int (RADIX ^ n)"
    by (simp_all add: mp_wf_def)
qed

lemma barrett_estimate:
  assumes m: "mp_wf m" "0 < mp_val m"
    and mu: "mp_ok mu" "mp_val mu = RADIX ^ (2 * mp_used m) div mp_val m"
    and x: "mp_ok x" "mp_val x < RADIX ^ (2 * mp_used m)"
  defines "q3 \<equiv> s_mw_mp_rshd (s_mw_mp_mul (s_mw_mp_rshd (mw_mp_init_copy x) (mp_used m - 1)) mu) (mp_used m + 1)"
  shows "mp_ok q3" "mp_val q3 * mp_val m \<le> mp_val x" "mp_val x - mp_val q3 * mp_val m < 3 * mp_val m"
proof -
  define k where "k = mp_used m"
  have mk: "mp_ok m" "mp_clamped m" "0 < k"
    using mp_wfD(1, 2) [OF m(1)] mp_okD(1) [of m] by (simp_all add: k_def)
  have M: "RADIX ^ (k - 1) \<le> mp_val m" "mp_val m < RADIX ^ k"
    using mp_val_ge [OF mk(1, 2)] mp_val_less [OF mk(1)] m(2) mk(3) by (cases "k = 1"; simp add: k_def)+
  have q1: "mp_ok (s_mw_mp_rshd (mw_mp_init_copy x) (k - 1))"
    "mp_val (s_mw_mp_rshd (mw_mp_init_copy x) (k - 1)) = mp_val x div RADIX ^ (k - 1)"
    using s_mw_mp_rshd_ok(1, 2) [of "mw_mp_init_copy x" "k - 1"] x(1) by simp_all
  note q2 = s_mw_mp_mul_ok [OF q1(1) mu(1)]
  have q3: "mp_val q3 = mp_val x div RADIX ^ (k - 1) * (RADIX ^ (2 * k) div mp_val m) div RADIX ^ (k + 1)"
    unfolding q3_def using s_mw_mp_rshd_ok(2) [OF mp_wfD(1) [OF q2(1)], of "k + 1"] q2(2) q1(2) mu(2) by (simp add: k_def)
  show "mp_ok q3"
    unfolding q3_def using s_mw_mp_rshd_ok(1) [OF mp_wfD(1) [OF q2(1)], of "k + 1"] by (simp add: k_def)
  show "mp_val q3 * mp_val m \<le> mp_val x" "mp_val x - mp_val q3 * mp_val m < 3 * mp_val m"
    unfolding q3 by (rule barrett [OF mk(3) M], use x(2) in \<open>simp add: k_def\<close>)+
qed

lemma s_mw_mp_reduce_val:
  assumes m: "mp_wf m" "\<not> mp_neg m" "0 < mp_val m" "mp_used m < 4095"
    and mu: "mp_ok mu" "mp_val mu = RADIX ^ (2 * mp_used m) div mp_val m"
    and x: "mp_wf x" "\<not> mp_neg x" "mp_val x < RADIX ^ (2 * mp_used m)"
  shows "\<exists>r. s_mw_mp_reduce x m mu = mp_okay r \<and> mp_wf r \<and> \<not> mp_neg r \<and> mp_val r = mp_val x mod mp_val m"
proof -
  define R where "R = RADIX ^ (mp_used m + 1)"
  define d where "d = (of_nat (DIGIT_BIT * (mp_used m + 1)) :: mw_mp_digit)"
  have "unat d = 16 * (mp_used m + 1)"
    using m(4) by (simp add: d_def unsigned_of_nat take_bit_nat_eq_self del: of_nat_mult of_nat_add)
  then have d: "(2 :: nat) ^ unat d = R"
    unfolding R_def by (simp only: power_mult) simp
  define q3 where "q3 = s_mw_mp_rshd (s_mw_mp_mul (s_mw_mp_rshd (mw_mp_init_copy x) (mp_used m - 1)) mu) (mp_used m + 1)"
  define y where "y = mp_val q3 * mp_val m"
  have q3: "mp_ok q3" "y \<le> mp_val x" "mp_val x - y < 3 * mp_val m"
    using barrett_estimate [OF m(1, 3) mu mp_wfD(1) [OF x(1)] x(3)] by (simp_all add: q3_def y_def)
  define x1 where "x1 = s_mw_mp_mod_2d x d"
  define q4 where "q4 = s_mw_mp_mod_2d (s_mw_mp_mul q3 m) d"
  note mul = s_mw_mp_mul_ok [OF q3(1) mp_wfD(1) [OF m(1)]]
  have x1: "mp_wf x1" "mp_num x1 = int (mp_val x mod R)"
    using s_mw_mp_mod_2d_ok [OF mp_wfD(1) [OF x(1)], of d] x(1, 2) d by (simp_all add: x1_def)
  have q4: "mp_wf q4" "mp_num q4 = int (y mod R)"
    using s_mw_mp_mod_2d_ok [OF mp_wfD(1) [OF mul(1)], of d] mul d by (simp_all add: q4_def y_def)
  obtain x2 where x2: "mw_mp_sub x1 q4 Out_a = mp_okay x2" "mp_wf x2" "mp_num x2 = int (mp_val x mod R) - int (y mod R)"
    by (rule mw_mp_sub_num [OF x1(1) q4(1), of Out_a]) (simp_all add: mp_out_ok_def x1(2) q4(2))
  define p where "p = s_mw_mp_lshd (mw_mp_set q4 1) (mp_used m + 1)"
  have p: "mp_wf p" "mp_num p = int R"
    unfolding p_def R_def by (rule one_shifted [OF mp_wfD(1) [OF q4(1)]])+
  obtain z where z: "mw_mp_add x2 p Out_a = mp_okay z" "mp_wf z" "mp_num z = mp_num x2 + int R"
    by (rule mw_mp_add_num [OF x2(2) p(1), of Out_a]) (simp_all add: mp_out_ok_def p(2))
  define x3 where "x3 = (if mp_num x2 < 0 then z else x2)"
  have "3 * mp_val m < R"
    using mp_val_less [OF mp_wfD(1) [OF m(1)]] by (simp add: R_def)
  then have "mp_num x3 = int (mp_val x - y)"
    using mod_difference [OF q3(2), of R] q3(3) z(3) x2(3) by (auto simp: x3_def split: if_splits)
  moreover have x3: "mp_wf x3"
    using z(2) x2(2) by (simp add: x3_def)
  ultimately have x3': "\<not> mp_neg x3" "mp_val x3 = mp_val x - y"
    by (auto simp: mp_num_def mp_wf_def split: if_splits)
  have "s_mw_mp_reduce x m mu = reduce_back m x3"
    unfolding s_mw_mp_reduce_def Let_def d_def [symmetric] q3_def [symmetric] x1_def [symmetric]
      q4_def [symmetric] p_def [symmetric] using x2(1) z(1) mw_mp_cmp_z_val [OF x2(2)] by (simp add: x3_def)
  moreover have "(mp_val x - y) mod mp_val m = mp_val x mod mp_val m"
    using q3(2) unfolding y_def by (metis le_add_diff_inverse2 mod_mult_self1 mult.commute)
  ultimately show ?thesis
    using reduce_back_val [OF m(1 - 3) x3 x3'(1)] x3'(2) by simp
qed

section \<open>Modular exponentiation\<close>

text \<open>
  The numbers of the exponentiation between two steps: \<open>x\<close> is reduced, \<open>s\<close> is or is still one.
\<close>

definition expt_modulus :: "mw_mp_int \<Rightarrow> mw_mp_int \<Rightarrow> bool" where
  "expt_modulus m mu \<longleftrightarrow> mp_wf m \<and> \<not> mp_neg m \<and> 0 < mp_val m \<and> mp_used m < 4095
     \<and> mp_ok mu \<and> mp_val mu = RADIX ^ (2 * mp_used m) div mp_val m"

definition expt_state :: "mw_mp_int \<Rightarrow> mw_mp_int \<Rightarrow> mw_mp_int \<Rightarrow> bool" where
  "expt_state m s x \<longleftrightarrow> mp_wf s \<and> \<not> mp_neg s \<and> mp_val s < RADIX ^ mp_used m
     \<and> mp_wf x \<and> \<not> mp_neg x \<and> mp_val x < mp_val m"

lemma reduce_product:
  assumes "expt_modulus m mu" "mp_wf y" "\<not> mp_neg y" "mp_val y = u * v" "u < RADIX ^ mp_used m" "v < mp_val m"
  obtains r where "s_mw_mp_reduce y m mu = mp_okay r" "mp_wf r" "\<not> mp_neg r" "mp_val r = u * v mod mp_val m"
proof -
  have "v < RADIX ^ mp_used m"
    using assms(1, 6) mp_val_less [of m] by (simp add: expt_modulus_def mp_wf_def)
  then have "u * v < RADIX ^ mp_used m * RADIX ^ mp_used m"
    using assms(5) by (intro mult_strict_mono') simp_all
  then have "mp_val y < RADIX ^ (2 * mp_used m)"
    using assms(4) by (simp add: mult_2 power_add)
  then show thesis
    using that s_mw_mp_reduce_val [of m mu y] assms(1 - 4) unfolding expt_modulus_def by metis
qed

lemma exptmod_step_val:
  assumes "expt_modulus m mu" "expt_state m s x"
  obtains s' x' where "exptmod_step m mu d s x = mp_okay (s', x')" "expt_state m s' x'"
    "mp_val s' mod mp_val m = mp_val s * mp_val x ^ (unat d mod 2) mod mp_val m"
    "mp_val x' = mp_val x ^ 2 mod mp_val m" "odd (unat d) \<Longrightarrow> mp_val s' < mp_val m" "even (unat d) \<Longrightarrow> s' = s"
proof -
  note st = assms(2) [unfolded expt_state_def]
  have m: "0 < mp_val m" "mp_val m < RADIX ^ mp_used m"
    using assms(1) mp_val_less [of m] by (simp_all add: expt_modulus_def mp_wf_def)
  have mul: "mp_wf (s_mw_mp_mul s x)" "\<not> mp_neg (s_mw_mp_mul s x)" "mp_val (s_mw_mp_mul s x) = mp_val s * mp_val x"
    using s_mw_mp_mul_ok [of s x] st by (simp_all add: mp_wf_def)
  obtain r where r: "s_mw_mp_reduce (s_mw_mp_mul s x) m mu = mp_okay r" "mp_wf r" "\<not> mp_neg r"
    "mp_val r = mp_val s * mp_val x mod mp_val m"
    by (rule reduce_product [OF assms(1) mul]) (use st in simp_all)
  obtain y where y: "s_mw_mp_sqr x = Some y" "mp_wf y" "mp_val y = mp_val x * mp_val x" "\<not> mp_neg y"
    using s_mw_mp_sqr_ok [of x] st by (auto simp: mp_wf_def)
  obtain x' where x': "s_mw_mp_reduce y m mu = mp_okay x'" "mp_wf x'" "\<not> mp_neg x'" "mp_val x' = mp_val x * mp_val x mod mp_val m"
    by (rule reduce_product [OF assms(1) y(2, 4, 3)]) (use st m in simp_all)
  define s' where "s' = (if odd (unat d) then r else s)"
  have bit: "d AND 1 \<noteq> 0 \<longleftrightarrow> odd (unat d)"
    using digit_and_mask [of d 1] by (simp add: odd_iff_mod_2_eq_one flip: unat_eq_zero)
  have "exptmod_step m mu d s x = mp_okay (s', x')"
    using r(1) y(1) x'(1) bit by (simp add: exptmod_step_def s'_def)
  moreover have "expt_state m s' x'"
    using st r x' m less_trans [of "mp_val r" "mp_val m" "RADIX ^ mp_used m"] by (auto simp: expt_state_def s'_def)
  moreover have "mp_val s' mod mp_val m = mp_val s * mp_val x ^ (unat d mod 2) mod mp_val m"
    by (cases "odd (unat d)") (simp_all add: s'_def r(4) odd_iff_mod_2_eq_one even_iff_mod_2_eq_zero)
  ultimately show thesis
    using that x'(4) r(4) m(1) by (auto simp: s'_def power2_eq_square)
qed

lemma square_power_mod: "((x :: nat) ^ 2 mod m) ^ n mod m = x ^ (2 * n) mod m"
  by (simp add: power_mod power_mult)

lemma exptmod_combine:
  assumes "s' mod m = s * x ^ (d mod 2) mod (m :: nat)" "x' = x ^ 2 mod m" "s'' mod m = s' * x' ^ e mod m"
  shows "s'' mod m = s * x ^ (d mod 2 + 2 * e) mod m"
proof -
  have "s'' mod m = (s' mod m) * (x' ^ e mod m) mod m"
    using assms(3) by (simp add: mod_mult_eq)
  also have "\<dots> = (s * x ^ (d mod 2) mod m) * (x ^ (2 * e) mod m) mod m"
    unfolding assms(1, 2) square_power_mod ..
  finally show ?thesis
    by (simp add: mod_mult_eq power_add mult.assoc)
qed

lemma exptmod_bits_val:
  assumes "expt_modulus m mu" "expt_state m s x"
  shows "\<exists>s' x'. exptmod_bits m mu n d s x = mp_okay (s', x') \<and> expt_state m s' x'
    \<and> mp_val s' mod mp_val m = mp_val s * mp_val x ^ (unat d mod 2 ^ n) mod mp_val m
    \<and> mp_val x' = mp_val x ^ 2 ^ n mod mp_val m \<and> (mp_val s' < mp_val m \<or> unat d mod 2 ^ n = 0 \<and> s' = s)"
  using assms(2)
proof (induction n arbitrary: d s x)
  case 0
  then show ?case
    by (auto simp: expt_state_def)
next
  case (Suc n)
  obtain s1 x1 where st: "exptmod_step m mu d s x = mp_okay (s1, x1)" "expt_state m s1 x1"
    "mp_val s1 mod mp_val m = mp_val s * mp_val x ^ (unat d mod 2) mod mp_val m" "mp_val x1 = mp_val x ^ 2 mod mp_val m"
    "odd (unat d) \<Longrightarrow> mp_val s1 < mp_val m" "even (unat d) \<Longrightarrow> s1 = s"
    by (rule exptmod_step_val [OF assms(1) Suc.prems, of d]) blast
  define e where "e = unat d div 2 mod 2 ^ n"
  have e: "unat (drop_bit 1 d) mod 2 ^ n = e" "unat d mod 2 ^ Suc n = unat d mod 2 + 2 * e"
  proof -
    show "unat (drop_bit 1 d) mod 2 ^ n = e"
      unfolding unat_drop_digit e_def by (simp only: power_one_right)
    show "unat d mod 2 ^ Suc n = unat d mod 2 + 2 * e"
      unfolding power_Suc e_def mod_mult2_eq by (rule add.commute)
  qed
  obtain s2 x2 where r: "exptmod_bits m mu n (drop_bit 1 d) s1 x1 = mp_okay (s2, x2)" "expt_state m s2 x2"
    "mp_val s2 mod mp_val m = mp_val s1 * mp_val x1 ^ e mod mp_val m" "mp_val x2 = mp_val x1 ^ 2 ^ n mod mp_val m"
    "mp_val s2 < mp_val m \<or> e = 0 \<and> s2 = s1"
    using Suc.IH [OF st(2), of "drop_bit 1 d"] unfolding e(1) by blast
  have "mp_val s2 mod mp_val m = mp_val s * mp_val x ^ (unat d mod 2 ^ Suc n) mod mp_val m"
    unfolding e(2) by (rule exptmod_combine [OF st(3, 4) r(3)])
  moreover have "mp_val x2 = mp_val x ^ 2 ^ Suc n mod mp_val m"
    unfolding r(4) st(4) square_power_mod by simp
  moreover have "mp_val s2 < mp_val m \<or> unat d mod 2 ^ Suc n = 0 \<and> s2 = s"
    using r(5) st(5, 6) unfolding e(2) by (cases "even (unat d)") auto
  ultimately show ?case
    using st(1) r(1, 2) by simp
qed

lemma exptmod_digits_val:
  assumes "expt_modulus m mu" "expt_state m s x"
  shows "\<exists>s' x'. exptmod_digits m mu ds s x = mp_okay (s', x') \<and> expt_state m s' x'
    \<and> mp_val s' mod mp_val m = mp_val s * mp_val x ^ digits_val ds mod mp_val m
    \<and> mp_val x' = mp_val x ^ RADIX ^ length ds mod mp_val m \<and> (mp_val s' < mp_val m \<or> digits_val ds = 0 \<and> s' = s)"
  using assms(2)
proof (induction ds arbitrary: s x)
  case Nil
  then show ?case
    by (auto simp: expt_state_def)
next
  case (Cons d ds)
  obtain s1 x1 where st: "exptmod_bits m mu 16 d s x = mp_okay (s1, x1)" "expt_state m s1 x1"
    "mp_val s1 mod mp_val m = mp_val s * mp_val x ^ unat d mod mp_val m" "mp_val x1 = mp_val x ^ RADIX mod mp_val m"
    "mp_val s1 < mp_val m \<or> unat d = 0 \<and> s1 = s"
    using exptmod_bits_val [OF assms(1) Cons.prems, of 16 d] by auto
  obtain s2 x2 where r: "exptmod_digits m mu ds s1 x1 = mp_okay (s2, x2)" "expt_state m s2 x2"
    "mp_val s2 mod mp_val m = mp_val s1 * mp_val x1 ^ digits_val ds mod mp_val m"
    "mp_val x2 = mp_val x1 ^ RADIX ^ length ds mod mp_val m" "mp_val s2 < mp_val m \<or> digits_val ds = 0 \<and> s2 = s1"
    using Cons.IH [OF st(2)] by blast
  have "mp_val s2 mod mp_val m = (mp_val s1 mod mp_val m) * (mp_val x1 ^ digits_val ds mod mp_val m) mod mp_val m"
    unfolding r(3) by (simp add: mod_mult_eq)
  also have "\<dots> = mp_val s * mp_val x ^ digits_val (d # ds) mod mp_val m"
    unfolding st(3, 4) by (simp add: power_mod mod_mult_eq power_add mult.assoc flip: power_mult)
  finally show ?case
    using st r by (auto simp: power_mod simp flip: power_mult)
qed

lemma exptmod_last_val:
  assumes "expt_modulus m mu" "expt_state m s x"
  shows "\<exists>s' x'. exptmod_last m mu d s x = mp_okay (s', x') \<and> expt_state m s' x'
    \<and> mp_val s' mod mp_val m = mp_val s * mp_val x ^ unat d mod mp_val m \<and> (mp_val s' < mp_val m \<or> unat d = 0 \<and> s' = s)"
  using assms(2)
proof (induction "unat d" arbitrary: d s x rule: less_induct)
  case less
  show ?case
  proof (cases "d = 0")
    case True
    then show ?thesis
      using less(2) by (subst exptmod_last.simps) auto
  next
    case False
    obtain s1 x1 where st: "exptmod_step m mu d s x = mp_okay (s1, x1)" "expt_state m s1 x1"
      "mp_val s1 mod mp_val m = mp_val s * mp_val x ^ (unat d mod 2) mod mp_val m" "mp_val x1 = mp_val x ^ 2 mod mp_val m"
      "odd (unat d) \<Longrightarrow> mp_val s1 < mp_val m" "even (unat d) \<Longrightarrow> s1 = s"
      by (rule exptmod_step_val [OF assms(1) less(2), of d]) blast
    define e where "e = unat d div 2"
    have e: "unat (drop_bit 1 d) = e" "e < unat d" "unat d = unat d mod 2 + 2 * e"
      using False unfolding unat_drop_digit e_def by (simp_all add: unat_gt_0)
    obtain s2 x2 where r: "exptmod_last m mu (drop_bit 1 d) s1 x1 = mp_okay (s2, x2)" "expt_state m s2 x2"
      "mp_val s2 mod mp_val m = mp_val s1 * mp_val x1 ^ e mod mp_val m" "mp_val s2 < mp_val m \<or> e = 0 \<and> s2 = s1"
      using less(1) [OF _ st(2), of "drop_bit 1 d"] e(1, 2) by auto
    have "mp_val s2 mod mp_val m = mp_val s * mp_val x ^ unat d mod mp_val m"
      using exptmod_combine [OF st(3, 4) r(3)] e(3) by simp
    moreover have "mp_val s2 < mp_val m \<or> unat d = 0 \<and> s2 = s"
      using r(4) st(5) e(3) False by (cases "even (unat d)") (auto simp: unat_eq_zero)
    moreover have "exptmod_last m mu d s x = mp_okay (s2, x2)"
      using False st(1) r(1) by (subst exptmod_last.simps) simp
    ultimately show ?thesis
      using r(2) by blast
  qed
qed

lemma exptmod_mu:
  assumes "mp_wf m" "\<not> mp_neg m" "0 < mp_val m" "mp_used m < 4095"
  defines "mu \<equiv> s_mw_mp_lshd (s_mw_mp_add_d mw_mp_init 1) (2 * mp_used m)"
  obtains mu' where "mw_mp_div mu m (Some mu) None = mp_okay (Some mu', None)" "expt_modulus m mu'"
proof -
  have one: "mp_ok (s_mw_mp_add_d mw_mp_init 1)" "mp_val (s_mw_mp_add_d mw_mp_init 1) = 1" "\<not> mp_neg (s_mw_mp_add_d mw_mp_init 1)"
    using s_mw_mp_add_d_ok [of mw_mp_init 1] mp_wfD(1) [OF mw_mp_init_ok(1)] by simp_all
  have used: "mp_used (s_mw_mp_add_d mw_mp_init 1) = 1"
    by (simp add: s_mw_mp_add_d_def mw_mp_init_def mw_mp_init_size_def Let_def CARRYOUT_def)
  note l = s_mw_mp_lshd_ok [OF one(1), of "2 * mp_used m", folded mu_def]
  have mu: "mp_ok mu" "mp_val mu = RADIX ^ (2 * mp_used m)" "\<not> mp_neg mu"
    using l one by simp_all
  have "mp_clamped mu"
    by (rule mp_clampedI [OF mu(1)]) (simp add: mu l used)
  then have wf: "mp_wf mu"
    using mu by (simp add: mp_wf_def)
  obtain mu' where d: "mw_mp_div mu m (Some mu) None = mp_okay (Some mu', None)" "mp_wf mu'" "mp_num mu' = tdiv (mp_num mu) (mp_num m)"
    using mw_mp_div_num [OF wf assms(1, 3), of "Some mu" None] assms(4) mu(1) by auto
  have "0 < RADIX ^ (2 * mp_used m)" by simp
  then have "tdiv (mp_num mu) (mp_num m) = int (RADIX ^ (2 * mp_used m) div mp_val m)"
    using mu(2, 3) assms(2, 3) by (simp add: tdiv_def zdiv_int)
  then have "mp_val mu' = RADIX ^ (2 * mp_used m) div mp_val m"
    unfolding mp_num_val d(3) by simp
  then show thesis
    using that d(1, 2) assms(1 - 4) by (simp add: expt_modulus_def mp_wf_def)
qed

text \<open>The two loops over the bits of the exponent together.\<close>

lemma exptmod_loops:
  assumes "expt_modulus m mu" "expt_state m s x" "mp_val s = 1" "db \<noteq> []"
  obtains s1 x1 s2 x2 where "exptmod_digits m mu (butlast db) s x = mp_okay (s1, x1)"
    "exptmod_last m mu (last db) s1 x1 = mp_okay (s2, x2)" "mp_wf s2" "\<not> mp_neg s2"
    "mp_val s2 mod mp_val m = mp_val x ^ digits_val db mod mp_val m"
    "mp_val s2 < mp_val m \<or> digits_val db = 0 \<and> s2 = s"
proof -
  define lo where "lo = butlast db"
  obtain s1 x1 where l: "exptmod_digits m mu lo s x = mp_okay (s1, x1)" "expt_state m s1 x1"
    "mp_val s1 mod mp_val m = mp_val x ^ digits_val lo mod mp_val m"
    "mp_val x1 = mp_val x ^ RADIX ^ length lo mod mp_val m" "mp_val s1 < mp_val m \<or> digits_val lo = 0 \<and> s1 = s"
    using exptmod_digits_val [OF assms(1, 2), of lo] assms(3) by auto
  obtain s2 x2 where h: "exptmod_last m mu (last db) s1 x1 = mp_okay (s2, x2)" "expt_state m s2 x2"
    "mp_val s2 mod mp_val m = mp_val s1 * mp_val x1 ^ unat (last db) mod mp_val m"
    "mp_val s2 < mp_val m \<or> unat (last db) = 0 \<and> s2 = s1"
    using exptmod_last_val [OF assms(1) l(2), of "last db"] by blast
  have "db = lo @ [last db]"
    using assms(4) by (simp add: lo_def)
  then have db: "digits_val db = digits_val lo + RADIX ^ length lo * unat (last db)"
    by (metis digits_val_append digits_val.simps mult_0_right add_0_right)
  have "mp_val s2 mod mp_val m = (mp_val s1 mod mp_val m) * (mp_val x1 ^ unat (last db) mod mp_val m) mod mp_val m"
    unfolding h(3) by (simp add: mod_mult_eq)
  also have "\<dots> = mp_val x ^ digits_val db mod mp_val m"
    unfolding l(3, 4) db by (simp add: power_mod mod_mult_eq power_add flip: power_mult)
  finally have "mp_val s2 mod mp_val m = mp_val x ^ digits_val db mod mp_val m" .
  moreover have "mp_val s2 < mp_val m \<or> digits_val db = 0 \<and> s2 = s"
    using l(5) h(4) db by auto
  ultimately show thesis
    using that l(1) h(1, 2) by (simp add: lo_def expt_state_def)
qed

lemma mw_mp_exptmod_num:
  assumes "mp_wf a" "mp_wf b" "mp_wf m" "0 \<le> mp_num b" "0 < mp_num m" "mp_used m < 4095"
    "0 < mp_num b \<or> 1 < mp_num m"
  shows "\<exists>c. mw_mp_exptmod a b m = Some (Inr c) \<and> mp_wf c
    \<and> mp_num c = mp_num a ^ nat (mp_num b) mod mp_num m"
proof -
  have m: "\<not> mp_neg m" "0 < mp_val m" "mp_num m = int (mp_val m)" "mp_ok m"
    using assms(3, 5) by (auto simp: mp_num_def mp_wf_def split: if_splits)
  have b: "mp_num b = int (mp_val b)" "mp_ok b"
    using assms(2, 4) by (auto simp: mp_num_def mp_wf_def split: if_splits)
  obtain x where x: "mw_mp_mod (mw_mp_init_copy a) m (mw_mp_init_copy a) = mp_okay x" "mp_wf x" "mp_num x = mp_num a mod mp_num m"
    using mw_mp_mod_num [of "mw_mp_init_copy a" m "mw_mp_init_copy a"] assms(1, 3, 5, 6) by (auto simp: mp_wfD)
  obtain mu where mu: "mw_mp_div (s_mw_mp_lshd (s_mw_mp_add_d mw_mp_init 1) (2 * mp_used m)) m
      (Some (s_mw_mp_lshd (s_mw_mp_add_d mw_mp_init 1) (2 * mp_used m))) None = mp_okay (Some mu, None)" "expt_modulus m mu"
    by (rule exptmod_mu [OF assms(3) m(1, 2) assms(6)])
  define s where "s = mw_mp_set mw_mp_init 1"
  have s: "mp_wf s" "mp_val s = 1" "\<not> mp_neg s"
    using mw_mp_set_ok [OF mp_wfD(1) [OF mw_mp_init_ok(1)], of 1] by (simp_all add: s_def)
  have xv: "0 \<le> mp_num x" "mp_num x < mp_num m"
    unfolding x(3) using assms(5) by simp_all
  have "1 < RADIX ^ mp_used m"
    using mp_okD(1) [OF m(4)] by (intro one_less_power) simp_all
  then have st: "expt_state m s x"
    using s x(2) xv m(3) by (auto simp: expt_state_def mp_num_def mp_wf_def split: if_splits)
  define db where "db = take (mp_used b) (mp_dp b)"
  have db: "db \<noteq> []" "digits_val db = mp_val b"
    using last_digit(1) [OF b(2)] mp_val_digits [OF b(2)] by (simp_all add: db_def)
  obtain s1 x1 s2 x2 where l: "exptmod_digits m mu (butlast db) s x = mp_okay (s1, x1)"
    "exptmod_last m mu (last db) s1 x1 = mp_okay (s2, x2)" "mp_wf s2" "\<not> mp_neg s2"
    "mp_val s2 mod mp_val m = mp_val x ^ mp_val b mod mp_val m" "mp_val s2 < mp_val m \<or> mp_val b = 0 \<and> s2 = s"
    using exptmod_loops [OF mu(2) st s(2) db(1)] db(2) by metis
  have "mp_val s2 < mp_val m"
    using l(6) assms(7) s(2) b(1) m(3) by auto
  then have "mp_num s2 = mp_num x ^ mp_val b mod mp_num m"
    using l(4, 5) xv(1) m(3) by (simp add: mp_num_def zmod_int of_nat_power split: if_splits)
  also have "\<dots> = mp_num a ^ nat (mp_num b) mod mp_num m"
    unfolding x(3) by (simp add: power_mod b(1))
  finally have "mp_num s2 = mp_num a ^ nat (mp_num b) mod mp_num m" .
  moreover have "mw_mp_exptmod a b m = mp_okay s2"
    using x(1) mu(1) l(1, 2) assms(4, 5) unfolding mw_mp_exptmod_def Let_def db_def [symmetric] s_def [symmetric]
    by (simp add: mw_mp_cmp_z_val [OF assms(2)] mw_mp_cmp_z_val [OF assms(3)])
  ultimately show ?thesis
    using l(3) by (simp add: mp_okay_def)
qed

text \<open>
  Claim C33: modular exponentiation is correct. For every base, every exponent that is not
  negative and every positive modulus of fewer than 4095 digits (65520 bits) \<open>mw_mp_exptmod\<close>
  returns, without an error and without leaving an array, the power reduced to the
  modulus; the exponent zero needs a modulus above one, since the result is then one without a
  reduction. This covers the digit-wise division of the precomputation with its guessed quotient
  digits, squaring, multiplication and Barrett reduction.
\<close>

theorem mw_mp_exptmod_correct:
  assumes "mp_wf a" "mp_wf b" "mp_wf m" "0 \<le> mp_num b" "0 < mp_num m" "mp_used m < 4095"
    "0 < mp_num b \<or> 1 < mp_num m"
  shows "\<exists>c. mw_mp_exptmod a b m = Some (Inr c) \<and> mp_wf c
    \<and> mp_num c = mp_num a ^ nat (mp_num b) mod mp_num m"
  by (rule mw_mp_exptmod_num [OF assms])

theorem mw_mp_exptmod_correct_witness:
  "\<exists>c. mw_mp_exptmod \<lparr>mp_neg = True, mp_used = 1, mp_dp = [5]\<rparr> \<lparr>mp_neg = False, mp_used = 1, mp_dp = [11]\<rparr>
          \<lparr>mp_neg = False, mp_used = 2, mp_dp = [0xFFFF, 0x7FFF]\<rparr> = Some (Inr c) \<and> mp_wf c
    \<and> mp_num c = (- 5) ^ 11 mod 2147483647"
  using mw_mp_exptmod_correct [of "\<lparr>mp_neg = True, mp_used = 1, mp_dp = [5]\<rparr>"
      "\<lparr>mp_neg = False, mp_used = 1, mp_dp = [11]\<rparr>" "\<lparr>mp_neg = False, mp_used = 2, mp_dp = [0xFFFF, 0x7FFF]\<rparr>"]
  by (simp add: mp_wf_def mp_ok_def mp_clamped_def mp_num_def mp_val_def)



section \<open>Bytes\<close>

lemma mw_mp_add_d_nonneg:
  assumes "mp_wf a" "\<not> mp_neg a"
  obtains c where "mw_mp_add_d a d a = mp_okay c" "mp_wf c" "\<not> mp_neg c" "mp_val c = mp_val a + unat d"
proof -
  have "mw_mp_add_d a d a = mp_okay (s_mw_mp_add_d a d)"
    using assms by (simp add: mw_mp_add_d_def Let_def mw_mp_copy_same mp_wfD)
  then show thesis
    using that s_mw_mp_add_d_ok [OF mp_wfD(1) [OF assms(1)], of d] mp_wfD(2) [OF assms(1)] assms(2) by (simp add: mp_wf_def)
qed

lemma unat_digit_of_byte: "unat (ucast (c :: guchar) :: mw_mp_digit) = unat c"
proof -
  have "unat c < 256"
    using unsigned_less [of c] by simp
  then show ?thesis
    by (simp add: unsigned_ucast_eq take_bit_nat_eq_self_iff)
qed

lemma read_bin_loop_val:
  assumes "mp_wf mp" "\<not> mp_neg mp"
  shows "\<exists>c. read_bin_loop mp str = mp_okay c \<and> mp_wf c \<and> \<not> mp_neg c
    \<and> mp_val c = foldl (\<lambda>v b. v * 256 + unat b) (mp_val mp) str"
  using assms
proof (induction str arbitrary: mp)
  case (Cons b str)
  define mp1 where "mp1 = s_mw_mp_mul_2d mp 8"
  have mp1: "mp_wf mp1" "\<not> mp_neg mp1" "mp_val mp1 = mp_val mp * 256"
    using s_mw_mp_mul_2d_ok [OF mp_wfD(1) [OF Cons.prems(1)], of 8] Cons.prems(2) by (simp_all add: mp1_def)
  obtain mp2 where mp2: "mw_mp_add_d mp1 (ucast b) mp1 = mp_okay mp2" "mp_wf mp2" "\<not> mp_neg mp2"
    "mp_val mp2 = mp_val mp * 256 + unat b"
    by (rule mw_mp_add_d_nonneg [OF mp1(1, 2), of "ucast b"]) (simp add: mp1(3) unat_digit_of_byte)
  show ?case
    using Cons.IH [OF mp2(2, 3)] mp2(1, 4) by (simp add: Let_def flip: mp1_def)
qed simp

primrec bytes_val :: "bytes \<Rightarrow> nat" where
  "bytes_val [] = 0"
| "bytes_val (b # bs) = unat b + 256 * bytes_val bs"

lemma bytes_val_append: "bytes_val (xs @ ys) = bytes_val xs + 256 ^ length xs * bytes_val ys"
  by (induction xs) (simp_all add: algebra_simps)

lemma low_byte: "unat (ucast d :: guchar) = unat (d :: mw_mp_digit) mod 256"
  by (simp add: unsigned_ucast_eq) (simp add: take_bit_eq_mod)

lemma digit_bytes_val: "length (digit_bytes n d) = n \<and> bytes_val (digit_bytes n d) = unat d mod 256 ^ n"
proof (induction n arbitrary: d)
  case (Suc n)
  have "unat d mod 256 ^ Suc n = unat d mod 256 + 256 * (unat d div 256 mod 256 ^ n)"
    by (simp add: mod_mult2_eq)
  then show ?case
    using Suc [of "drop_bit 8 d"] by (simp add: low_byte unat_drop_digit del: power_Suc)
qed simp

lemma top_bytes_val: "bytes_val (top_bytes d) = unat d \<and> (top_bytes d = [] \<or> last (top_bytes d) \<noteq> 0)"
proof (induction d rule: top_bytes.induct)
  case (1 d)
  show ?case
  proof (cases "d = 0")
    case False
    have IH: "bytes_val (top_bytes (drop_bit 8 d)) = unat d div 256" "top_bytes (drop_bit 8 d) = [] \<or> last (top_bytes (drop_bit 8 d)) \<noteq> 0"
      using 1 [OF False] by (simp_all add: unat_drop_digit)
    have "(ucast d :: guchar) \<noteq> 0" if "top_bytes (drop_bit 8 d) = []"
      using IH(1) that False low_byte [of d] by (auto simp: word_unat_eq_iff)
    then show ?thesis
      using False IH by (subst (1 2 3) top_bytes.simps) (auto simp: low_byte)
  qed (simp add: top_bytes.simps [of 0])
qed

lemma concat_bytes_val: "bytes_val (concat (map (digit_bytes 2) ds)) = digits_val ds \<and> length (concat (map (digit_bytes 2) ds)) = 2 * length ds"
proof (induction ds)
  case (Cons d ds)
  then show ?case
    using digit_bytes_val [of 2 d] digit_less [of d] by (simp add: bytes_val_append del: digit_bytes.simps digit_less)
qed simp

end
