(* ===== verification/Key_Exchange.thy ===== *)
theory Key_Exchange
  imports Cipher Mpi
begin

text \<open>
  The Diffie-Hellman exchange of \<^verbatim>\<open>src/src/cipher.c\<close> on the digit arrays of the multiple
  precision library. The locale \<open>dh_arithmetic\<close> is what \<^verbatim>\<open>cipher.c\<close> relies on of that library;
  its interpretation shows that the digit arithmetic provides it, and its lemmas that both ends
  of an exchange derive the same bytes, namely those of the theory on ciphers, which
  computes with natural numbers.
\<close>

section \<open>Definitions\<close>

definition mwInitDHPrime :: "mw_mp_int mp_result" where
  "mwInitDHPrime = mw_mp_read_unsigned_bin mw_mp_init dh_prime_bytes"

definition mwInitDHBase :: mw_mp_int where
  "mwInitDHBase = mw_mp_set_int mw_mp_init 3"

text \<open>The bytes that \<open>rand\<close> yields, one more than the bits fill, are an argument.\<close>

definition mw_mp_set_rand :: "mw_mp_int \<Rightarrow> nat \<Rightarrow> bytes \<Rightarrow> mw_mp_int mp_result" where
  "mw_mp_set_rand i bits random =
     (let buf = take (bits div 8 + 1) random
      in mw_mp_read_unsigned_bin i (buf[0 := hd buf AND drop_bit (8 - bits mod 8) 0xff]))"

definition mpi_DHRandKeypair :: "bytes \<Rightarrow> (mw_mp_int \<times> mw_mp_int) mp_result" where
  "mpi_DHRandKeypair random =
     mp_bind mwInitDHPrime (\<lambda>prime.
       mp_bind (mw_mp_set_rand mw_mp_init 512 random) (\<lambda>private_key.
         mp_bind (mw_mp_exptmod mwInitDHBase private_key prime) (\<lambda>public_key.
           mp_okay (private_key, public_key))))"

definition mpi_DHCalculateShared :: "mw_mp_int \<Rightarrow> mw_mp_int \<Rightarrow> mw_mp_int mp_result" where
  "mpi_DHCalculateShared remote_key private_key =
     mp_bind mwInitDHPrime (\<lambda>prime. mw_mp_exptmod remote_key private_key prime)"

definition mpi_DHImportKey :: "mw_mp_int \<Rightarrow> mwOpaque \<Rightarrow> mw_mp_int mp_result" where
  "mpi_DHImportKey key o' = mw_mp_read_unsigned_bin key (opaque_bytes o')"

definition mpi_DHExportKey :: "mw_mp_int \<Rightarrow> mwOpaque" where
  "mpi_DHExportKey key = opaque_of (mw_mp_to_unsigned_bin key)"

text \<open>The secret that \<open>offered_RC2_128\<close> derives from the key of the other side.\<close>

definition mpi_offered_secret :: "mw_mp_int \<Rightarrow> mwOpaque \<Rightarrow> mwOpaque mp_result" where
  "mpi_offered_secret private_key info =
     mp_bind (mpi_DHImportKey mw_mp_init info) (\<lambda>remote_key.
       mp_bind (mpi_DHCalculateShared remote_key private_key) (\<lambda>shared.
         mp_okay (mpi_DHExportKey shared)))"

section \<open>Conversions between numbers and bytes\<close>

lemma mp_digits_bytes: "bs = [] \<or> last bs \<noteq> 0 \<Longrightarrow> mp_digits (bytes_val bs) = rev bs"
proof (induction bs)
  case Nil
  then show ?case by (simp add: mp_digits.simps [of 0])
next
  case (Cons b bs)
  have b: "unat b < 256"
    using unsigned_less [of b] by simp
  have nz: "bytes_val (b # bs) \<noteq> 0"
  proof (cases bs)
    case Nil
    then show ?thesis
      using Cons.prems by (simp add: unat_eq_zero)
  next
    case (Cons c cs)
    have "mp_digits (bytes_val bs) = rev bs"
      using Cons.IH Cons.prems Cons by simp
    moreover have "mp_digits 0 = []"
      by (subst mp_digits.simps) simp
    ultimately have "bytes_val bs \<noteq> 0"
      using Cons by (metis list.distinct(1) rev_is_Nil_conv)
    then show ?thesis by simp
  qed
  have "bytes_val (b # bs) div 256 = bytes_val bs" "bytes_val (b # bs) mod 256 = unat b"
    using b by simp_all
  then have "mp_digits (bytes_val (b # bs)) = mp_digits (bytes_val bs) @ [b]"
    using nz by (subst mp_digits.simps) (simp del: bytes_val.simps)
  then show ?case
    using Cons by (cases bs) (simp_all add: mp_digits.simps [of 0])
qed

lemma mw_mp_to_unsigned_bin_val:
  assumes "mp_wf a"
  shows "mw_mp_to_unsigned_bin a = mp_to_unsigned_bin (mp_val a)" "mw_mp_unsigned_bin_size a = length (mw_mp_to_unsigned_bin a)"
proof -
  note wf = mp_wfD(1, 2) [OF assms]
  define n where "n = mp_used a - 1"
  define bs where "bs = concat (map (digit_bytes 2) (take n (mp_dp a))) @ top_bytes (DIGIT a n)"
  have n: "mp_used a = Suc n" "n < ALLOC a"
    using mp_okD(1, 2) [OF wf(1)] by (simp_all add: n_def)
  have lo: "bytes_val (concat (map (digit_bytes 2) (take n (mp_dp a)))) = digits_val (take n (mp_dp a))"
    "length (concat (map (digit_bytes 2) (take n (mp_dp a)))) = 2 * n"
    using concat_bytes_val [of "take n (mp_dp a)"] n(2) by simp_all
  have "(256 :: nat) ^ (2 * n) = RADIX ^ n"
    by (simp add: power_mult)
  then have "bytes_val bs = mp_val a"
    using lo top_bytes_val [of "DIGIT a n"] n
    by (simp add: bs_def bytes_val_append mp_val_digits [OF wf(1)] take_Suc_conv_app_nth digits_val_append)
  moreover have "last bs \<noteq> 0" if nz: "mp_val a \<noteq> 0"
  proof -
    have "DIGIT a n \<noteq> 0"
      using wf(2) nz mp_val_eq_0 [OF wf] by (auto simp: mp_clamped_def n_def)
    then have "top_bytes (DIGIT a n) \<noteq> []"
      by (simp add: top_bytes.simps [of "DIGIT a n"])
    then show ?thesis
      using top_bytes_val [of "DIGIT a n"] by (simp add: bs_def)
  qed
  ultimately have "mp_digits (mp_val a) = rev bs" if "mp_val a \<noteq> 0"
    using mp_digits_bytes [of bs] that by simp
  then show eq: "mw_mp_to_unsigned_bin a = mp_to_unsigned_bin (mp_val a)"
    using mp_val_eq_0 [OF wf] by (auto simp: mw_mp_to_unsigned_bin_def mp_to_unsigned_bin_def bs_def n_def)
  show "mw_mp_unsigned_bin_size a = length (mw_mp_to_unsigned_bin a)"
    using lo(2) by (auto simp: mw_mp_unsigned_bin_size_def mw_mp_to_unsigned_bin_def n_def simp del: digit_bytes.simps)
qed

lemma mw_mp_read_unsigned_bin_val:
  assumes "mp_ok mp" "str \<noteq> []"
  obtains c where "mw_mp_read_unsigned_bin mp str = mp_okay c" "mp_wf c" "\<not> mp_neg c" "mp_val c = mp_read_unsigned_bin str"
  using read_bin_loop_val [OF mw_mp_zero_ok(1) [OF assms(1)], of str] mw_mp_zero_ok [OF assms(1)] assms(2)
  by (auto simp: mw_mp_read_unsigned_bin_def mp_read_unsigned_bin_def)

lemma hd_mp_digits: "0 < n \<Longrightarrow> hd (mp_digits n) \<noteq> 0"
proof (induction n rule: mp_digits.induct)
  case (1 n)
  have step: "mp_digits n = mp_digits (n div 256) @ [of_nat (n mod 256)]"
    using 1(2) by (subst mp_digits.simps) simp
  show ?case
  proof (cases "n div 256 = 0")
    case True
    then have "n < 256"
      by (simp add: div_eq_0_iff)
    then have "(of_nat n :: guchar) \<noteq> 0"
      using 1(2) by (simp add: word_unat_eq_iff unsigned_of_nat take_bit_nat_eq_self)
    then show ?thesis
      using True \<open>n < 256\<close> by (simp add: step mp_digits.simps [of 0])
  next
    case False
    then have "mp_digits (n div 256) \<noteq> []"
      by (simp add: mp_digits.simps [of "n div 256"])
    then show ?thesis
      using 1 False by (simp add: step)
  qed
qed

text \<open>
  Numbers survive the conversion to bytes and back. The bytes of a number are its
  big-endian representation without leading zeroes (one zero byte for zero), exactly as many as
  \<open>mw_mp_unsigned_bin_size\<close> says, and reading them gives the magnitude of the number again,
  whatever number the target held before.
\<close>

theorem mpi_bytes_round_trip:
  assumes "mp_wf a" "mp_ok b"
  shows "\<exists>c. mw_mp_read_unsigned_bin b (mw_mp_to_unsigned_bin a) = Some (Inr c) \<and> mp_wf c \<and> mp_num c = \<bar>mp_num a\<bar>
    \<and> length (mw_mp_to_unsigned_bin a) = mw_mp_unsigned_bin_size a
    \<and> (hd (mw_mp_to_unsigned_bin a) = 0 \<longleftrightarrow> mp_num a = 0)"
proof -
  have bin: "mw_mp_to_unsigned_bin a = mp_to_unsigned_bin (mp_val a)"
    by (rule mw_mp_to_unsigned_bin_val(1) [OF assms(1)])
  then obtain c where c: "mw_mp_read_unsigned_bin b (mw_mp_to_unsigned_bin a) = mp_okay c" "mp_wf c" "\<not> mp_neg c"
    "mp_val c = mp_val a"
    using mw_mp_read_unsigned_bin_val [OF assms(2), of "mw_mp_to_unsigned_bin a"] by (auto simp: mp_import_export)
  have "hd (mp_to_unsigned_bin (mp_val a)) = 0 \<longleftrightarrow> mp_val a = 0"
    by (simp add: mp_to_unsigned_bin_def hd_mp_digits)
  then show ?thesis
    using c bin mw_mp_to_unsigned_bin_val(2) [OF assms(1)] by (simp add: mp_okay_def mp_num_abs) (simp add: mp_num_def)
qed

theorem mpi_bytes_round_trip_witness:
  "\<exists>c. mw_mp_read_unsigned_bin mw_mp_init (mw_mp_to_unsigned_bin \<lparr>mp_neg = True, mp_used = 2, mp_dp = [1, 2, 0]\<rparr>) = Some (Inr c)
    \<and> mp_wf c \<and> mp_num c = 131073
    \<and> length (mw_mp_to_unsigned_bin \<lparr>mp_neg = True, mp_used = 2, mp_dp = [1, 2, 0]\<rparr>)
      = mw_mp_unsigned_bin_size \<lparr>mp_neg = True, mp_used = 2, mp_dp = [1, 2, 0]\<rparr>
    \<and> hd (mw_mp_to_unsigned_bin \<lparr>mp_neg = True, mp_used = 2, mp_dp = [1, 2, 0]\<rparr>) \<noteq> 0"
proof -
  let ?a = "\<lparr>mp_neg = True, mp_used = 2, mp_dp = [1, 2, 0]\<rparr>"
  have "mp_wf ?a"
    by (simp add: mp_wf_def mp_ok_def mp_clamped_def mp_val_def)
  moreover have "mp_num ?a = - 131073"
    by (simp add: mp_num_def mp_val_def)
  ultimately show ?thesis
    using mpi_bytes_round_trip [of ?a mw_mp_init] mp_wfD(1) [OF mw_mp_init_ok(1)] by simp
qed

section \<open>What the key exchange needs of the arithmetic\<close>

locale dh_arithmetic =
  fixes num :: "'n \<Rightarrow> nat" and ok :: "'n \<Rightarrow> bool"
    and import_key :: "bytes \<Rightarrow> 'n option" and export_key :: "'n \<Rightarrow> bytes"
    and power_mod_key :: "'n \<Rightarrow> 'n \<Rightarrow> 'n \<Rightarrow> 'n option" and modulus_ok :: "'n \<Rightarrow> bool"
  assumes import_key: "bs \<noteq> [] \<Longrightarrow> \<exists>n. import_key bs = Some n \<and> ok n \<and> num n = mp_read_unsigned_bin bs"
    and export_key: "ok n \<Longrightarrow> export_key n = mp_to_unsigned_bin (num n)"
    and power_mod_key: "ok a \<Longrightarrow> ok b \<Longrightarrow> ok m \<Longrightarrow> modulus_ok m
      \<Longrightarrow> \<exists>c. power_mod_key a b m = Some c \<and> ok c \<and> num c = num a ^ num b mod num m"
begin

lemma import_export: "ok n \<Longrightarrow> \<exists>n'. import_key (export_key n) = Some n' \<and> ok n' \<and> num n' = num n"
  using import_key [of "export_key n"] by (simp add: export_key mp_import_export)

text \<open>The secret that the owner of the private key \<open>b\<close> derives from the exported public key of \<open>a\<close>.\<close>

lemma secret:
  assumes "ok g" "ok p" "modulus_ok p" "ok a" "ok b" "power_mod_key g a p = Some A"
  shows "\<exists>A' S. import_key (export_key A) = Some A' \<and> power_mod_key A' b p = Some S
    \<and> export_key S = mp_to_unsigned_bin (num g ^ (num a * num b) mod num p)"
proof -
  have A: "ok A" "num A = num g ^ num a mod num p"
    using power_mod_key [OF assms(1, 4, 2, 3)] assms(6) by auto
  obtain A' where A': "import_key (export_key A) = Some A'" "ok A'" "num A' = num A"
    using import_export [OF A(1)] by blast
  obtain S where S: "power_mod_key A' b p = Some S" "ok S" "num S = num A' ^ num b mod num p"
    using power_mod_key [OF A'(2) assms(5, 2, 3)] by blast
  have "num S = num g ^ (num a * num b) mod num p"
    unfolding S(3) A'(3) A(2) by (simp add: power_mod power_mult)
  then show ?thesis
    using A'(1) S(1, 2) export_key by auto
qed

lemma agreement:
  assumes "ok g" "ok p" "modulus_ok p" "ok a" "ok b" "power_mod_key g a p = Some A" "power_mod_key g b p = Some B"
  shows "\<exists>A' B' S T. import_key (export_key A) = Some A' \<and> power_mod_key A' b p = Some S
    \<and> import_key (export_key B) = Some B' \<and> power_mod_key B' a p = Some T
    \<and> export_key S = export_key T \<and> export_key S = mp_to_unsigned_bin (num g ^ (num a * num b) mod num p)"
  using secret [OF assms(1 - 6)] secret [OF assms(1 - 3, 5, 4, 7)] by (auto simp: mult.commute)

end

definition mp_key :: "mw_mp_int \<Rightarrow> bool" where
  "mp_key a \<longleftrightarrow> mp_wf a \<and> \<not> mp_neg a"

definition mp_value :: "'a mp_result \<Rightarrow> 'a option" where
  "mp_value r = (case r of Some (Inr x) \<Rightarrow> Some x | _ \<Rightarrow> None)"

lemma mp_value_Some: "mp_value r = Some x \<longleftrightarrow> r = mp_okay x"
  by (auto simp: mp_value_def mp_okay_def split: option.splits sum.splits)

interpretation digits: dh_arithmetic mp_val mp_key "\<lambda>bs. mp_value (mw_mp_read_unsigned_bin mw_mp_init bs)"
  mw_mp_to_unsigned_bin "\<lambda>a b m. mp_value (mw_mp_exptmod a b m)" "\<lambda>m. 1 < mp_val m \<and> mp_used m < 4095"
proof (unfold_locales, goal_cases)
  case (1 bs)
  then show ?case
    using mw_mp_read_unsigned_bin_val [OF mp_wfD(1) [OF mw_mp_init_ok(1)]] by (metis mp_key_def mp_value_Some)
next
  case (2 n)
  then show ?case
    by (simp add: mp_key_def mw_mp_to_unsigned_bin_val)
next
  case (3 a b m)
  obtain c where c: "mw_mp_exptmod a b m = Some (Inr c)" "mp_wf c" "mp_num c = mp_num a ^ nat (mp_num b) mod mp_num m"
    using mw_mp_exptmod_num [of a b m] 3 by (auto simp: mp_key_def)
  then have "mp_num c = int (mp_val a ^ mp_val b mod mp_val m)"
    using 3 by (simp add: mp_key_def zmod_int)
  then have "\<not> mp_neg c" "mp_val c = mp_val a ^ mp_val b mod mp_val m"
    using c(2) by (auto simp: mp_num_def mp_wf_def split: if_splits)
  then show ?case
    using c(1, 2) by (simp add: mp_value_def mp_key_def)
qed

section \<open>The exchange on digit arrays\<close>

lemma set_int_step:
  fixes d :: mw_mp_digit
  assumes "mp_wf mp" "\<not> mp_neg mp"
  defines "r \<equiv> s_mw_mp_add_d (s_mw_mp_mul_2d mp 8) d"
  shows "mp_wf r" "\<not> mp_neg r" "mp_val r = mp_val mp * 256 + unat d"
proof -
  have m: "mp_wf (s_mw_mp_mul_2d mp 8)" "\<not> mp_neg (s_mw_mp_mul_2d mp 8)" "mp_val (s_mw_mp_mul_2d mp 8) = mp_val mp * 256"
    using s_mw_mp_mul_2d_ok [OF mp_wfD(1) [OF assms(1)], of 8] assms(2) by simp_all
  show "mp_wf r" "\<not> mp_neg r" "mp_val r = mp_val mp * 256 + unat d"
    using s_mw_mp_add_d_ok [OF mp_wfD(1) [OF m(1)], of d] mp_wfD(2) [OF m(1)] m by (simp_all add: r_def mp_wf_def)
qed

lemma set_int_loop:
  fixes v :: "64 word"
  assumes "mp_wf mp" "\<not> mp_neg mp" "mp_val mp = unat v div 256 ^ n"
  defines "r \<equiv> foldl (\<lambda>mp ix. s_mw_mp_add_d (s_mw_mp_mul_2d mp 8) (ucast (drop_bit (ix * 8) v AND 255))) mp (rev [0..<n])"
  shows "mp_wf r \<and> \<not> mp_neg r \<and> mp_val r = unat v"
  using assms(1 - 3) unfolding r_def
proof (induction n arbitrary: mp)
  case (Suc n)
  define d where "d = (ucast (drop_bit (n * 8) v AND 255) :: mw_mp_digit)"
  have "unat d = unat v div 256 ^ n mod 256"
  proof -
    have "unat v < 18446744073709551616"
      using unsigned_less [of v] by simp
    then have "unat (drop_bit (n * 8) v) = unat v div 256 ^ n"
      unfolding unsigned_drop_bit_eq
      by (simp add: drop_bit_eq_div take_bit_nat_eq_self mult.commute [of n] power_mult)
    then have "unat (drop_bit (n * 8) v AND 255) = unat v div 256 ^ n mod 256"
      unfolding and_255 by (simp add: unsigned_take_bit_eq) (simp add: take_bit_eq_mod)
    then show ?thesis
      unfolding d_def by (simp add: unsigned_ucast_eq take_bit_nat_eq_self_iff mod_less_divisor [THEN less_trans])
  qed
  moreover have "unat v div 256 ^ Suc n * 256 + unat v div 256 ^ n mod 256 = unat v div 256 ^ n"
    by (simp add: div_mult2_eq mult.commute [of 256])
  ultimately have "mp_val mp * 256 + unat d = unat v div 256 ^ n"
    using Suc.prems(3) by simp
  then show ?case
    using Suc.IH [of "s_mw_mp_add_d (s_mw_mp_mul_2d mp 8) d"] set_int_step [OF Suc.prems(1, 2), of d] by (simp add: d_def)
qed simp

lemma mw_mp_set_int_val:
  assumes "mp_ok mp" "\<bar>z\<bar> < 2 ^ 63"
  shows "mp_wf (mw_mp_set_int mp z)" "mp_num (mw_mp_set_int mp z) = z"
proof -
  define v :: "64 word" where "v = of_int \<bar>z\<bar>"
  define r where "r = foldl (\<lambda>mp ix. s_mw_mp_add_d (s_mw_mp_mul_2d mp 8) (ucast (drop_bit (ix * 8) v AND 255))) (mw_mp_zero mp) (rev [0..<8])"
  have "uint v = \<bar>z\<bar>"
    using assms(2) by (simp add: v_def unsigned_of_int take_bit_int_eq_self)
  then have v: "unat v = nat \<bar>z\<bar>"
    by (simp add: unat_eq_nat_uint)
  have "unat v < 256 ^ 8"
    using unsigned_less [of v] by simp
  then have r: "mp_wf r" "\<not> mp_neg r" "mp_val r = nat \<bar>z\<bar>"
    using set_int_loop [of "mw_mp_zero mp" v 8] mw_mp_zero_ok [OF assms(1)] v by (simp_all add: r_def)
  have "rev [0..<8] = [7, 6, 5, 4, 3, 2, 1, 0]"
    by (simp add: upt_rec)
  then have eq: "mw_mp_set_int mp z = (if z = 0 then mw_mp_zero mp else if z < 0 then r\<lparr>mp_neg := True\<rparr> else r)"
    by (simp add: mw_mp_set_int_def Let_def r_def v_def)
  show "mp_wf (mw_mp_set_int mp z)" "mp_num (mw_mp_set_int mp z) = z"
    using r mw_mp_zero_ok [OF assms(1)] by (auto simp: eq mp_wf_def mp_num_def)
qed

lemma dh_prime_number:
  obtains p where "mwInitDHPrime = mp_okay p" "mp_key p" "mp_val p = dh_prime" "1 < mp_val p" "mp_used p < 4095"
proof -
  have ne: "dh_prime_bytes \<noteq> []"
    by (simp add: dh_prime_bytes_def)
  obtain p where p: "mwInitDHPrime = mp_okay p" "mp_key p" "mp_val p = dh_prime"
    using mw_mp_read_unsigned_bin_val [OF mp_wfD(1) [OF mw_mp_init_ok(1)] ne] unfolding mwInitDHPrime_def dh_prime_def mp_key_def by metis
  have d: "1 < dh_prime" "dh_prime < RADIX ^ 32"
    by (simp_all add: dh_prime_def dh_prime_bytes_def mp_read_unsigned_bin_def)
  have "mp_used p \<le> 32"
    using mp_used_le_iff [of p 32] p(2, 3) d(2) by (simp add: mp_key_def mp_wf_def)
  then show thesis
    using that p d(1) by simp
qed

lemma mpi_keypair:
  assumes "length random = 65"
  obtains a A p where "mpi_DHRandKeypair random = mp_okay (a, A)" "mwInitDHPrime = mp_okay p" "mp_key a" "mp_key p" "mp_key A"
    "mp_value (mw_mp_exptmod mwInitDHBase a p) = Some A" "mwDHRandKeypair (mp_val a) = (mp_val a, mp_val A)"
    "1 < mp_val p \<and> mp_used p < 4095" "mp_val p = dh_prime"
proof -
  obtain p where p: "mwInitDHPrime = mp_okay p" "mp_key p" "mp_val p = dh_prime" "1 < mp_val p" "mp_used p < 4095"
    by (rule dh_prime_number)
  have base: "mp_key mwInitDHBase" "mp_val mwInitDHBase = DH_BASE"
    using mw_mp_set_int_val [OF mp_wfD(1) [OF mw_mp_init_ok(1)], of 3]
    by (auto simp: mwInitDHBase_def mp_key_def mp_num_def DH_BASE_def split: if_splits)
  obtain a where a: "mw_mp_set_rand mw_mp_init 512 random = mp_okay a" "mp_key a"
  proof -
    have ne: "(take (512 div 8 + 1) random)[0 := x] \<noteq> []" for x
      using assms by auto
    show thesis
      using mw_mp_read_unsigned_bin_val [OF mp_wfD(1) [OF mw_mp_init_ok(1)] ne] that
      unfolding mw_mp_set_rand_def mp_key_def Let_def by metis
  qed
  obtain A where A: "mp_value (mw_mp_exptmod mwInitDHBase a p) = Some A" "mp_key A"
    "mp_val A = mp_val mwInitDHBase ^ mp_val a mod mp_val p"
    using digits.power_mod_key [OF base(1) a(2) p(2)] p(4, 5) by blast
  have "mpi_DHRandKeypair random = mp_okay (a, A)"
    using a(1) A(1) by (simp add: mpi_DHRandKeypair_def mp_value_Some p(1))
  then show thesis
    using that p a(2) A base(2) by (simp add: mwDHRandKeypair_def mp_exptmod_def)
qed

text \<open>
  Claim C34: the key exchange carried out on digit arrays. Whatever random bytes two sides
  draw, both compute their key pairs without error, and each derives from the exported public
  key of the other the same secret bytes, which are those of the cipher model that
  computes with natural numbers: the multiple precision library implements the arithmetic
  the negotiation of RC2/128 relies on.
\<close>

theorem key_exchange_on_digits:
  assumes "length random_a = 65" "length random_b = 65"
  shows "\<exists>a A b B S. mpi_DHRandKeypair random_a = Some (Inr (a, A)) \<and> mpi_DHRandKeypair random_b = Some (Inr (b, B))
    \<and> mpi_offered_secret a (mpi_DHExportKey B) = Some (Inr S) \<and> mpi_offered_secret b (mpi_DHExportKey A) = Some (Inr S)
    \<and> mpi_DHExportKey A = mwDHExportKey (snd (mwDHRandKeypair (mp_val a)))
    \<and> S = mwDHExportKey (mwDHCalculateShared (mwDHImportKey (mpi_DHExportKey B)) (mp_val a))"
proof -
  obtain a A p where a: "mpi_DHRandKeypair random_a = mp_okay (a, A)" "mwInitDHPrime = mp_okay p" "mp_key a" "mp_key p" "mp_key A"
    "mp_value (mw_mp_exptmod mwInitDHBase a p) = Some A" "mwDHRandKeypair (mp_val a) = (mp_val a, mp_val A)"
    "1 < mp_val p \<and> mp_used p < 4095" "mp_val p = dh_prime"
    by (rule mpi_keypair [OF assms(1)])
  obtain b B where b: "mpi_DHRandKeypair random_b = mp_okay (b, B)" "mp_key b" "mp_key B"
    "mp_value (mw_mp_exptmod mwInitDHBase b p) = Some B"
    using mpi_keypair [OF assms(2)] a(2) by (metis mp_okay_inject)
  have base: "mp_key mwInitDHBase"
    using mw_mp_set_int_val [OF mp_wfD(1) [OF mw_mp_init_ok(1)], of 3]
    by (auto simp: mwInitDHBase_def mp_key_def mp_num_def mp_wf_def split: if_splits)
  obtain A' B' S T where x: "mp_value (mw_mp_read_unsigned_bin mw_mp_init (mw_mp_to_unsigned_bin A)) = Some A'"
    "mp_value (mw_mp_exptmod A' b p) = Some S"
    "mp_value (mw_mp_read_unsigned_bin mw_mp_init (mw_mp_to_unsigned_bin B)) = Some B'"
    "mp_value (mw_mp_exptmod B' a p) = Some T" "mw_mp_to_unsigned_bin S = mw_mp_to_unsigned_bin T"
    using digits.agreement [OF base a(4, 8, 3) b(2) a(6) b(4)] by blast
  have bytes: "opaque_bytes (mpi_DHExportKey k) = mw_mp_to_unsigned_bin k" for k
    by (simp add: mpi_DHExportKey_def)
  have ab: "mpi_offered_secret a (mpi_DHExportKey B) = mp_okay (mpi_DHExportKey S)"
    "mpi_offered_secret b (mpi_DHExportKey A) = mp_okay (mpi_DHExportKey S)"
    using x by (simp_all add: mpi_offered_secret_def mpi_DHImportKey_def mpi_DHCalculateShared_def bytes mp_value_Some a(2))
      (simp add: mpi_DHExportKey_def)
  have B': "mp_key B'" "mp_val B' = mp_val B"
    using digits.import_export [OF b(3)] x(3) by auto
  obtain T' where "mp_value (mw_mp_exptmod B' a p) = Some T'" "mp_key T'" "mp_val T' = mp_val B' ^ mp_val a mod mp_val p"
    using digits.power_mod_key [OF B'(1) a(3, 4, 8)] by blast
  then have "mpi_DHExportKey S = mwDHExportKey (mwDHCalculateShared (mp_val B) (mp_val a))"
    using x(4, 5) digits.export_key a(9) B'(2)
    by (simp add: mpi_DHExportKey_def mwDHExportKey_def mwDHCalculateShared_def mp_exptmod_def)
  moreover have export: "mpi_DHExportKey k = mwDHExportKey (mp_val k)" if "mp_key k" for k
    using digits.export_key [OF that] by (simp add: mpi_DHExportKey_def mwDHExportKey_def)
  ultimately show ?thesis
    using a(1, 7) b(1) ab export [OF a(5)] export [OF b(3)] by (simp add: mp_okay_def mwDH_import_export)
qed

theorem key_exchange_on_digits_witness:
  "\<exists>a A b B S. mpi_DHRandKeypair (replicate 65 7) = Some (Inr (a, A)) \<and> mpi_DHRandKeypair (replicate 65 9) = Some (Inr (b, B))
    \<and> mpi_offered_secret a (mpi_DHExportKey B) = Some (Inr S) \<and> mpi_offered_secret b (mpi_DHExportKey A) = Some (Inr S)
    \<and> mpi_DHExportKey A = mwDHExportKey (snd (mwDHRandKeypair (mp_val a)))
    \<and> S = mwDHExportKey (mwDHCalculateShared (mwDHImportKey (mpi_DHExportKey B)) (mp_val a))"
  by (rule key_exchange_on_digits) simp_all

end
