(* ===== verification/Mpi_Extra.thy ===== *)
theory Mpi_Extra
  imports Mpi
begin

text \<open>
  Further public functions of \<^verbatim>\<open>src/src/mpi/mpi.c\<close> that the client does not call itself:
  shifts, division by a digit, powers and comparisons. Where a function does not do what its
  comment says, the lemma states what it does; the deviations are at the end.
\<close>

definition mw_mp_mul_2 :: "mw_mp_int \<Rightarrow> mw_mp_int \<Rightarrow> mw_mp_int" where
  "mw_mp_mul_2 a c = s_mw_mp_mul_2 (mw_mp_copy a c)"

definition mw_mp_div_2 :: "mw_mp_int \<Rightarrow> mw_mp_int \<Rightarrow> mw_mp_int" where
  "mw_mp_div_2 a c = s_mw_mp_div_2 (mw_mp_copy a c)"

definition mw_mp_mul_2d :: "mw_mp_int \<Rightarrow> mw_mp_digit \<Rightarrow> mw_mp_int \<Rightarrow> mw_mp_int" where
  "mw_mp_mul_2d a d c = (let c1 = mw_mp_copy a c in if d = 0 then c1 else s_mw_mp_mul_2d c1 d)"

definition mw_mp_div_2d :: "mw_mp_int \<Rightarrow> mw_mp_digit \<Rightarrow> mw_mp_int option \<Rightarrow> mw_mp_int option
    \<Rightarrow> mw_mp_int option \<times> mw_mp_int option" where
  "mw_mp_div_2d a d q r =
     (map_option (\<lambda>q. s_mw_mp_div_2d (mw_mp_copy a q) d) q, map_option (\<lambda>r. s_mw_mp_mod_2d (mw_mp_copy a r) d) r)"

definition mw_mp_2expt :: "mw_mp_int \<Rightarrow> mw_mp_digit \<Rightarrow> mw_mp_int" where
  "mw_mp_2expt a k = s_mw_mp_2expt a k"

definition mw_mp_cmw_mp_mag :: "mw_mp_int \<Rightarrow> mw_mp_int \<Rightarrow> int" where
  "mw_mp_cmw_mp_mag a b = s_mw_mp_cmp a b"

definition mw_mp_cmw_mp_int :: "mw_mp_int \<Rightarrow> int \<Rightarrow> int" where
  "mw_mp_cmw_mp_int a z = mw_mp_cmp a (mw_mp_set_int mw_mp_init z)"

fun count_digit :: "nat \<Rightarrow> mw_mp_digit \<Rightarrow> nat" where
  "count_digit 0 d = 0"
| "count_digit (Suc n) d = (if d \<noteq> 0 then Suc (count_digit n (drop_bit 1 d)) else 0)"

definition mw_mp_count_bits :: "mw_mp_int \<Rightarrow> nat" where
  "mw_mp_count_bits mp = DIGIT_BIT * (mp_used mp - 1) + count_digit DIGIT_BIT (DIGIT mp (mp_used mp - 1))"

text \<open>The loop of \<open>s_mw_mp_ispow2d\<close>; it does not end on zero, which its caller rules out.\<close>

partial_function (option) ispow2d_loop :: "mw_mp_digit \<Rightarrow> int \<Rightarrow> (mw_mp_digit \<times> int) option" where
  "ispow2d_loop d pow = (if d AND 1 = 0 then ispow2d_loop (drop_bit 1 d) (pow + 1) else Some (d, pow))"

definition s_mw_mp_ispow2d :: "mw_mp_digit \<Rightarrow> int option" where
  "s_mw_mp_ispow2d d = do { (d', pow) \<leftarrow> ispow2d_loop d 0; Some (if d' = 1 then pow else -1) }"

definition mw_mp_div_d :: "mw_mp_int \<Rightarrow> mw_mp_digit \<Rightarrow> mw_mp_int option \<Rightarrow> (mw_mp_int option \<times> mw_mp_digit) mp_result" where
  "mw_mp_div_d a d q =
     (if d = 0 then mp_fail MP_RANGE
      else do { pow \<leftarrow> s_mw_mp_ispow2d d;
                if pow \<ge> 0
                then mp_okay (map_option (\<lambda>q. s_mw_mp_div_2d (mw_mp_copy a q) (of_int pow)) q,
                              DIGIT a 0 AND (push_bit (nat pow) 1 - 1))
                else let (res, q1, r) = s_mw_mp_div_d (case q of None \<Rightarrow> mw_mp_init_copy a | Some q \<Rightarrow> mw_mp_copy a q) d;
                         q2 = (if s_mw_mp_cmw_mp_d q1 0 = MP_EQ then q1\<lparr>mp_neg := False\<rparr> else q1)
                     in if res \<noteq> MP_OKAY then mp_fail res else mp_okay (map_option (\<lambda>_. q2) q, r) })"

definition mw_mp_mod_d :: "mw_mp_int \<Rightarrow> mw_mp_digit \<Rightarrow> mw_mp_digit mp_result" where
  "mw_mp_mod_d a d =
     (if s_mw_mp_cmw_mp_d a d > 0 then mp_bind (mw_mp_div_d a d None) (\<lambda>(_, r). mp_okay r)
      else if mp_neg a then mp_okay (d - DIGIT a 0) else mp_okay (DIGIT a 0))"

subsection \<open>Powers\<close>

definition expt_step :: "mw_mp_digit \<Rightarrow> mw_mp_int \<Rightarrow> mw_mp_int \<Rightarrow> (mw_mp_int \<times> mw_mp_int) option" where
  "expt_step d s x = do { x' \<leftarrow> s_mw_mp_sqr x; Some (if d AND 1 \<noteq> 0 then s_mw_mp_mul s x else s, x') }"

partial_function (option) expt_while :: "mw_mp_digit \<Rightarrow> mw_mp_int \<Rightarrow> mw_mp_int \<Rightarrow> (mw_mp_int \<times> mw_mp_int) option" where
  "expt_while d s x =
     (if d \<noteq> 0 then do { y \<leftarrow> expt_step d s x; expt_while (drop_bit 1 d) (fst y) (snd y) } else Some (s, x))"

fun expt_bits :: "nat \<Rightarrow> mw_mp_digit \<Rightarrow> mw_mp_int \<Rightarrow> mw_mp_int \<Rightarrow> (mw_mp_int \<times> mw_mp_int) option" where
  "expt_bits 0 d s x = Some (s, x)"
| "expt_bits (Suc n) d s x = do { (s', x') \<leftarrow> expt_step d s x; expt_bits n (drop_bit 1 d) s' x' }"

fun expt_digits :: "mw_mp_digit list \<Rightarrow> mw_mp_int \<Rightarrow> mw_mp_int \<Rightarrow> (mw_mp_int \<times> mw_mp_int) option" where
  "expt_digits [] s x = Some (s, x)"
| "expt_digits (d # ds) s x = do { (s', x') \<leftarrow> expt_bits DIGIT_BIT d s x; expt_digits ds s' x' }"

definition mw_mp_expt_d :: "mw_mp_int \<Rightarrow> mw_mp_digit \<Rightarrow> mw_mp_int option" where
  "mw_mp_expt_d a d =
     (let s = mw_mp_init\<lparr>mp_dp := (mp_dp mw_mp_init)[0 := 1]\<rparr>;
          cs = (if d mod 2 = 1 then mp_neg a else False)
      in do { (s', _) \<leftarrow> expt_while d s (mw_mp_init_copy a); Some (s'\<lparr>mp_neg := cs\<rparr>) })"

definition mw_mp_expt :: "mw_mp_int \<Rightarrow> mw_mp_int \<Rightarrow> mw_mp_int \<Rightarrow> mw_mp_int mp_result" where
  "mw_mp_expt a b c =
     (if mw_mp_cmw_mp_z b < 0 then mp_fail MP_RANGE
      else let db = take (mp_used b) (mp_dp b)
      in do { (s, x) \<leftarrow> expt_digits (butlast db) (mw_mp_set mw_mp_init 1) (mw_mp_init_copy a);
              (s, x) \<leftarrow> expt_while (last db) s x;
              mp_okay (mw_mp_copy (if mw_mp_iseven b then s\<lparr>mp_neg := mp_neg a\<rparr> else s) c) })"

section \<open>Shifts and comparisons\<close>

lemma shifts_num:
  assumes "mp_wf a" "mp_ok c"
  shows "mp_num (mw_mp_mul_2 a c) = 2 * mp_num a" "mp_num (mw_mp_mul_2d a d c) = mp_num a * 2 ^ unat d"
    "mp_val (mw_mp_div_2 a c) = mp_val a div 2"
    "mw_mp_div_2d a d (Some q) (Some r) = (Some q', Some r') \<Longrightarrow> mp_val a = mp_val q' * 2 ^ unat d + mp_val r' \<and> mp_val r' < 2 ^ unat d"
proof -
  have c: "mp_ok (mw_mp_copy a c)"
    using assms by (simp add: mp_wfD)
  show "mp_num (mw_mp_mul_2 a c) = 2 * mp_num a"
    using s_mw_mp_mul_2_ok [OF c] assms(1) by (simp add: mw_mp_mul_2_def mp_num_def mp_wfD)
  show "mp_num (mw_mp_mul_2d a d c) = mp_num a * 2 ^ unat d"
    using s_mw_mp_mul_2d_ok [OF c, of d] c assms(1)
    by (auto simp: mw_mp_mul_2d_def Let_def mp_num_def mp_wfD)
  show "mp_val (mw_mp_div_2 a c) = mp_val a div 2"
    using s_mw_mp_div_2_ok [OF c] assms(1) by (simp add: mw_mp_div_2_def mp_wfD)
  assume "mw_mp_div_2d a d (Some q) (Some r) = (Some q', Some r')"
  then have "q' = s_mw_mp_div_2d (mw_mp_copy a q) d" "r' = s_mw_mp_mod_2d (mw_mp_copy a r) d"
    by (simp_all add: mw_mp_div_2d_def)
  then show "mp_val a = mp_val q' * 2 ^ unat d + mp_val r' \<and> mp_val r' < 2 ^ unat d"
    using s_mw_mp_div_2d_ok(2) [of "mw_mp_copy a q" d] s_mw_mp_mod_2d_ok(2) [of "mw_mp_copy a r" d] assms(1)
      div_mult_mod_eq [of "mp_val a" "2 ^ unat d"] by (simp add: mp_wfD)
qed

lemma count_digit_zero [simp]: "count_digit n 0 = 0"
  by (cases n) simp_all

lemma count_digit_val: "unat d < 2 ^ n \<Longrightarrow> unat d < 2 ^ count_digit n d \<and> (0 < unat d \<longrightarrow> 2 ^ (count_digit n d - 1) \<le> unat d)"
proof (induction n arbitrary: d)
  case (Suc n)
  have half: "unat (drop_bit 1 d) = unat d div 2"
    unfolding unat_drop_digit by simp
  then have IH: "unat d div 2 < 2 ^ count_digit n (drop_bit 1 d)"
    "0 < unat d div 2 \<Longrightarrow> 2 ^ (count_digit n (drop_bit 1 d) - 1) \<le> unat d div 2"
    using Suc.IH [of "drop_bit 1 d"] Suc.prems by (simp_all add: less_mult_imp_div_less mult.commute)
  show ?case
  proof (cases "d = 0 \<or> unat d div 2 = 0")
    case True
    then have "drop_bit 1 d = 0"
      using half by (auto simp: word_unat_eq_iff)
    moreover have "unat d < 2"
      using True by (auto simp: div_eq_0_iff)
    ultimately show ?thesis
      by (auto simp: unat_gt_0 Suc_le_eq)
  next
    case False
    then obtain k where k: "count_digit n (drop_bit 1 d) = Suc k"
      using IH(1) by (cases "count_digit n (drop_bit 1 d)") auto
    then show ?thesis
      using IH False by auto
  qed
qed simp

lemma mw_mp_count_bits_val:
  assumes "mp_wf a" "0 < mp_val a"
  shows "2 ^ (mw_mp_count_bits a - 1) \<le> mp_val a" "mp_val a < 2 ^ mw_mp_count_bits a"
proof -
  note wf = mp_wfD(1, 2) [OF assms(1)]
  define n where "n = mp_used a - 1"
  define t where "t = DIGIT a n"
  define k where "k = count_digit 16 t"
  have top: "unat t = mp_val a div RADIX ^ n"
    using top_digit(1) [OF wf(1)] by (simp add: t_def n_def)
  have "t \<noteq> 0"
    using wf(2) assms(2) mp_val_eq_0 [OF wf] by (auto simp: mp_clamped_def t_def n_def)
  then have k: "2 ^ (k - 1) \<le> unat t" "unat t < 2 ^ k"
    using count_digit_val [of t 16] by (simp_all add: k_def unat_gt_0)
  have "0 < k"
    using k(2) \<open>t \<noteq> 0\<close> by (cases k) (simp_all add: unat_eq_zero)
  have bits: "mw_mp_count_bits a = 16 * n + k"
    by (simp add: mw_mp_count_bits_def n_def t_def k_def)
  have P: "RADIX ^ n = (2 :: nat) ^ (16 * n)"
    unfolding power_mult by simp
  have "2 ^ (16 * n) * 2 ^ (k - 1) \<le> 2 ^ (16 * n) * unat t"
    by (rule mult_le_mono2 [OF k(1)])
  also have "\<dots> \<le> mp_val a"
    unfolding top P by (rule times_div_less_eq_dividend)
  finally show "2 ^ (mw_mp_count_bits a - 1) \<le> mp_val a"
    using \<open>0 < k\<close> by (simp add: bits flip: power_add)
  have "mp_val a < 2 ^ (16 * n) * Suc (unat t)"
    unfolding top P using dividend_less_times_div [of "2 ^ (16 * n)" "mp_val a"] by simp
  also have "\<dots> \<le> 2 ^ (16 * n) * 2 ^ k"
    using k(2) by (intro mult_le_mono2) simp
  finally show "mp_val a < 2 ^ mw_mp_count_bits a"
    by (simp add: bits power_add)
qed

section \<open>Powers\<close>

lemma expt_step_val:
  assumes "mp_ok s" "\<not> mp_neg s" "mp_ok x"
  obtains s' x' where "expt_step d s x = Some (s', x')" "mp_ok s'" "\<not> mp_neg s'" "mp_ok x'"
    "mp_val s' = mp_val s * mp_val x ^ (unat d mod 2)" "mp_val x' = mp_val x ^ 2"
proof -
  obtain x' where x': "s_mw_mp_sqr x = Some x'" "mp_wf x'" "mp_val x' = mp_val x * mp_val x"
    by (rule s_mw_mp_sqr_ok [OF assms(3)])
  have bit: "d AND 1 \<noteq> 0 \<longleftrightarrow> odd (unat d)"
    using digit_and_mask [of d 1] by (simp add: odd_iff_mod_2_eq_one flip: unat_eq_zero)
  show thesis
    using that [of "if odd (unat d) then s_mw_mp_mul s x else s" x'] x' s_mw_mp_mul_ok [OF assms(1, 3)] assms bit
    by (cases "odd (unat d)") (simp_all add: expt_step_def mp_wf_def power2_eq_square odd_iff_mod_2_eq_one even_iff_mod_2_eq_zero)
qed

lemma expt_while_val:
  assumes "mp_ok s" "\<not> mp_neg s" "mp_ok x"
  shows "\<exists>s' x'. expt_while d s x = Some (s', x') \<and> mp_ok s' \<and> \<not> mp_neg s' \<and> mp_val s' = mp_val s * mp_val x ^ unat d"
  using assms
proof (induction "unat d" arbitrary: d s x rule: less_induct)
  case less
  show ?case
  proof (cases "d = 0")
    case True
    then show ?thesis
      using less(2 - 4) by (subst expt_while.simps) simp
  next
    case False
    obtain s1 x1 where st: "expt_step d s x = Some (s1, x1)" "mp_ok s1" "\<not> mp_neg s1" "mp_ok x1"
      "mp_val s1 = mp_val s * mp_val x ^ (unat d mod 2)" "mp_val x1 = mp_val x ^ 2"
      by (rule expt_step_val [OF less(2 - 4), of d])
    have half: "unat (drop_bit 1 d) = unat d div 2" "unat d div 2 < unat d"
      using False by (simp_all add: unat_drop_digit [of 1 d, simplified] unat_gt_0 del: drop_bit_Suc)
    obtain s2 x2 where r: "expt_while (drop_bit 1 d) s1 x1 = Some (s2, x2)" "mp_ok s2" "\<not> mp_neg s2"
      "mp_val s2 = mp_val s1 * mp_val x1 ^ (unat d div 2)"
      using less(1) [of "drop_bit 1 d" s1 x1] half st(2 - 4) by auto
    have "mp_val s2 = mp_val s * mp_val x ^ (unat d mod 2 + 2 * (unat d div 2))"
      unfolding r(4) st(5, 6) by (simp only: power_add power_mult mult.assoc)
    then have "mp_val s2 = mp_val s * mp_val x ^ unat d"
      by simp
    then show ?thesis
      using False st(1) r(1 - 3) by (subst expt_while.simps) simp
  qed
qed

lemma expt_bits_val:
  assumes "mp_ok s" "\<not> mp_neg s" "mp_ok x"
  shows "\<exists>s' x'. expt_bits n d s x = Some (s', x') \<and> mp_ok s' \<and> \<not> mp_neg s' \<and> mp_ok x'
    \<and> mp_val s' = mp_val s * mp_val x ^ (unat d mod 2 ^ n) \<and> mp_val x' = mp_val x ^ 2 ^ n"
  using assms
proof (induction n arbitrary: d s x)
  case (Suc n)
  obtain s1 x1 where st: "expt_step d s x = Some (s1, x1)" "mp_ok s1" "\<not> mp_neg s1" "mp_ok x1"
    "mp_val s1 = mp_val s * mp_val x ^ (unat d mod 2)" "mp_val x1 = mp_val x ^ 2"
    by (rule expt_step_val [OF Suc.prems, of d])
  have half: "unat (drop_bit 1 d) = unat d div 2"
    unfolding unat_drop_digit by simp
  obtain s2 x2 where r: "expt_bits n (drop_bit 1 d) s1 x1 = Some (s2, x2)" "mp_ok s2" "\<not> mp_neg s2" "mp_ok x2"
    "mp_val s2 = mp_val s1 * mp_val x1 ^ (unat d div 2 mod 2 ^ n)" "mp_val x2 = mp_val x1 ^ 2 ^ n"
    using Suc.IH [OF st(2 - 4), of "drop_bit 1 d"] unfolding half by auto
  have "unat d mod 2 ^ Suc n = unat d mod 2 + 2 * (unat d div 2 mod 2 ^ n)"
    unfolding power_Suc mod_mult2_eq by (rule add.commute)
  then have "mp_val s2 = mp_val s * mp_val x ^ (unat d mod 2 ^ Suc n)"
    unfolding r(5) st(5, 6) by (simp only: power_add power_mult mult.assoc)
  moreover have "mp_val x2 = mp_val x ^ 2 ^ Suc n"
    unfolding r(6) st(6) by (simp add: power_mult)
  ultimately show ?case
    using st(1) r(1 - 4) by simp
qed simp

lemma expt_digits_val:
  assumes "mp_ok s" "\<not> mp_neg s" "mp_ok x"
  shows "\<exists>s' x'. expt_digits ds s x = Some (s', x') \<and> mp_ok s' \<and> \<not> mp_neg s' \<and> mp_ok x'
    \<and> mp_val s' = mp_val s * mp_val x ^ digits_val ds \<and> mp_val x' = mp_val x ^ RADIX ^ length ds"
  using assms
proof (induction ds arbitrary: s x)
  case (Cons d ds)
  obtain s1 x1 where st: "expt_bits 16 d s x = Some (s1, x1)" "mp_ok s1" "\<not> mp_neg s1" "mp_ok x1"
    "mp_val s1 = mp_val s * mp_val x ^ unat d" "mp_val x1 = mp_val x ^ RADIX"
    using expt_bits_val [OF Cons.prems, of 16 d] by auto
  obtain s2 x2 where r: "expt_digits ds s1 x1 = Some (s2, x2)" "mp_ok s2" "\<not> mp_neg s2" "mp_ok x2"
    "mp_val s2 = mp_val s1 * mp_val x1 ^ digits_val ds" "mp_val x2 = mp_val x1 ^ RADIX ^ length ds"
    using Cons.IH [OF st(2 - 4)] by auto
  have "mp_val s2 = mp_val s * mp_val x ^ digits_val (d # ds)" "mp_val x2 = mp_val x ^ RADIX ^ length (d # ds)"
    unfolding r(5, 6) st(5, 6) by (simp_all add: power_add mult.assoc flip: power_mult)
  then show ?case
    using st(1) r(1 - 4) by simp
qed simp

lemma mw_mp_init_low: "DIGIT mw_mp_init 0 = 0" "\<not> mp_neg mw_mp_init"
  by (simp_all add: mw_mp_init_def mw_mp_init_size_def)

lemma mw_mp_expt_d_num:
  assumes "mp_wf a"
  obtains c where "mw_mp_expt_d a d = Some c" "mp_num c = mp_num a ^ unat d"
proof -
  define s where "s = mw_mp_init\<lparr>mp_dp := (mp_dp mw_mp_init)[0 := 1]\<rparr>"
  have s: "mp_ok s" "mp_val s = 1" "\<not> mp_neg s"
    using set_low_digit [OF mp_wfD(1) [OF mw_mp_init_ok(1)], of 1] mw_mp_init_ok by (simp_all add: s_def mw_mp_init_low)
  obtain s' x' where r: "expt_while d s (mw_mp_init_copy a) = Some (s', x')" "mp_val s' = mp_val a ^ unat d"
    using expt_while_val [OF s(1, 3), of "mw_mp_init_copy a" d] s(2) assms by (auto simp: mp_wfD)
  have odd: "d mod 2 = 1 \<longleftrightarrow> odd (unat d)"
    by (simp add: word_unat_eq_iff unat_mod odd_iff_mod_2_eq_one)
  show thesis
    using that [of "s'\<lparr>mp_neg := if d mod 2 = 1 then mp_neg a else False\<rparr>"] r odd
    by (auto simp: mw_mp_expt_d_def Let_def mp_num_def power_minus_odd power_minus_even simp flip: s_def)
qed

text \<open>
  The power with a big exponent has the right magnitude, but the sign of the base is used for
  the even exponents instead of the odd ones.
\<close>

lemma mw_mp_expt_num:
  assumes "mp_wf a" "mp_wf b" "0 \<le> mp_num b"
  obtains r where "mw_mp_expt a b c = mp_okay r" "mp_val r = mp_val a ^ mp_val b" "mp_neg r \<longleftrightarrow> mp_neg a \<and> even (mp_val b)"
proof -
  define s where "s = mw_mp_set mw_mp_init 1"
  define db where "db = take (mp_used b) (mp_dp b)"
  note b = mp_wfD(1) [OF assms(2)]
  have s: "mp_ok s" "mp_val s = 1" "\<not> mp_neg s"
    using mw_mp_set_ok [OF mp_wfD(1) [OF mw_mp_init_ok(1)], of 1] by (simp_all add: s_def mp_wfD)
  have "db = butlast db @ [last db]"
    using last_digit(1) [OF b] by (simp add: db_def)
  then have db: "mp_val b = digits_val (butlast db) + RADIX ^ length (butlast db) * unat (last db)"
    unfolding mp_val_digits [OF b] db_def [symmetric] by (metis digits_val_append digits_val.simps mult_0_right add_0_right)
  obtain s1 x1 where l: "expt_digits (butlast db) s (mw_mp_init_copy a) = Some (s1, x1)" "mp_ok s1" "\<not> mp_neg s1" "mp_ok x1"
    "mp_val s1 = mp_val a ^ digits_val (butlast db)" "mp_val x1 = mp_val a ^ RADIX ^ length (butlast db)"
    using expt_digits_val [OF s(1, 3), of "mw_mp_init_copy a" "butlast db"] s(2) assms(1) by (auto simp: mp_wfD)
  obtain s2 x2 where h: "expt_while (last db) s1 x1 = Some (s2, x2)" "mp_ok s2" "\<not> mp_neg s2"
    "mp_val s2 = mp_val s1 * mp_val x1 ^ unat (last db)"
    using expt_while_val [OF l(2 - 4), of "last db"] by blast
  have v: "mp_val s2 = mp_val a ^ mp_val b"
    unfolding h(4) l(5, 6) db by (simp add: power_add power_mult)
  have "mw_mp_expt a b c = mp_okay (mw_mp_copy (if mw_mp_iseven b then s2\<lparr>mp_neg := mp_neg a\<rparr> else s2) c)"
    using l(1) h(1) assms(2, 3) by (simp add: mw_mp_expt_def Let_def mw_mp_cmp_z_val flip: db_def s_def)
  then show thesis
    using that v h(2, 3) mw_mp_isodd_val [OF b] by (simp add: mw_mp_iseven_def)
qed

section \<open>Deviations\<close>

text \<open>
  \<open>s_mw_mp_mul_d\<close> stores a carry past the end of the digits when the product of the leading
  digit alone fits but the carry into it does not.
\<close>

lemma mw_mp_mul_d_overrun:
  "mw_mp_mul_d \<lparr>mp_neg = False, mp_used = 2, mp_dp = [0xFFFF, 1]\<rparr> 0xFFFF \<lparr>mp_neg = False, mp_used = 1, mp_dp = [0, 0]\<rparr> = None"
  by (simp add: mw_mp_mul_d_def s_mw_mp_mul_d_def mw_mp_copy_def CARRYOUT_def ACCUM_def Let_def)

text \<open>\<open>mw_mp_expt\<close> computes \<open>(-2)\<close> to the power of three as eight.\<close>

lemma mw_mp_expt_wrong_sign:
  "\<exists>r. mw_mp_expt \<lparr>mp_neg = True, mp_used = 1, mp_dp = [2]\<rparr> \<lparr>mp_neg = False, mp_used = 1, mp_dp = [3]\<rparr> mw_mp_init = mp_okay r
    \<and> mp_num r = 8"
proof -
  let ?a = "\<lparr>mp_neg = True, mp_used = 1, mp_dp = [2]\<rparr>" and ?b = "\<lparr>mp_neg = False, mp_used = 1, mp_dp = [3]\<rparr>"
  have wf: "mp_wf ?a" "mp_wf ?b" "0 \<le> mp_num ?b" "mp_val ?a = 2" "mp_val ?b = 3"
    by (simp_all add: mp_wf_def mp_ok_def mp_clamped_def mp_val_def mp_num_def)
  obtain r where "mw_mp_expt ?a ?b mw_mp_init = mp_okay r" "mp_val r = mp_val ?a ^ mp_val ?b"
    "mp_neg r \<longleftrightarrow> mp_neg ?a \<and> even (mp_val ?b)"
    by (rule mw_mp_expt_num [OF wf(1 - 3)])
  then show ?thesis
    unfolding wf(4, 5) by (intro exI [of _ r]) (simp add: mp_num_def)
qed

text \<open>Division by a digit that is no power of two loses the sign of the dividend: minus seven by three is two.\<close>

lemma mw_mp_div_d_wrong_sign:
  "(case s_mw_mp_div_d \<lparr>mp_neg = True, mp_used = 1, mp_dp = [7]\<rparr> 3 of (res, q, r) \<Rightarrow> mp_num q) = 2"
  by (simp add: s_mw_mp_div_d_def s_mw_mp_clamp_def clamp_used.simps mp_num_def mp_val_def Let_def)

text \<open>The remainder by an equal digit is that digit and not zero.\<close>

lemma mw_mp_mod_d_not_reduced: "mw_mp_mod_d \<lparr>mp_neg = False, mp_used = 1, mp_dp = [5]\<rparr> 5 = mp_okay 5"
  by (simp add: mw_mp_mod_d_def s_mw_mp_cmw_mp_d_def)

end
