(* ===== verification/St_List.thy ===== *)
theory St_List
  imports Common C_Text
begin

text \<open>
  The contact lists of \<^verbatim>\<open>src/src/st_list.c\<close>: a list owns groups, a group owns users, and each
  object points back to its owner. Objects live on a heap, one map from addresses per
  \<open>struct\<close>; a function that follows a pointer to a freed object, or that accesses memory
  outside a block, has the value \<open>None\<close>. The second half of the file prints a list to text
  and reads it back.

  The \<open>name\<close> of a group is never NULL, since both functions that create a group give it
  one. \<open>g_ascii_isspace\<close> is GLib's and an argument (\<open>sp\<close>).
\<close>

section \<open>Structures\<close>

datatype mwSametimeGroupType = mwSametimeGroup_NORMAL | mwSametimeGroup_DYNAMIC | mwSametimeGroup_UNKNOWN

datatype mwSametimeUserType = mwSametimeUser_NORMAL | mwSametimeUser_EXTERNAL | mwSametimeUser_UNKNOWN

record mwSametimeList =
  sl_major :: guint32
  sl_minor :: guint32
  sl_micro :: guint32
  sl_groups :: "addr list"

record mwSametimeGroup =
  gr_list :: addr
  gr_type :: mwSametimeGroupType
  gr_name :: bytes
  gr_alias :: cstr
  gr_open :: bool
  gr_users :: "addr list"

record mwSametimeUser =
  us_group :: addr
  us_type :: mwSametimeUserType
  us_id :: mwIdBlock
  us_name :: cstr
  us_alias :: cstr

text \<open>
  The heap. Addresses are handed out in order and not used again, so that a pointer to a
  freed object is always recognised.
\<close>

record st_heap =
  h_lists :: "addr \<rightharpoonup> mwSametimeList"
  h_groups :: "addr \<rightharpoonup> mwSametimeGroup"
  h_users :: "addr \<rightharpoonup> mwSametimeUser"
  h_next :: addr

definition st_heap_empty :: st_heap where
  "st_heap_empty = \<lparr>h_lists = Map.empty, h_groups = Map.empty, h_users = Map.empty, h_next = 0\<rparr>"

definition set_list :: "addr \<Rightarrow> mwSametimeList \<Rightarrow> st_heap \<Rightarrow> st_heap" where
  "set_list a L h = h\<lparr>h_lists := (h_lists h)(a \<mapsto> L)\<rparr>"

definition set_group :: "addr \<Rightarrow> mwSametimeGroup \<Rightarrow> st_heap \<Rightarrow> st_heap" where
  "set_group a G h = h\<lparr>h_groups := (h_groups h)(a \<mapsto> G)\<rparr>"

definition set_user :: "addr \<Rightarrow> mwSametimeUser \<Rightarrow> st_heap \<Rightarrow> st_heap" where
  "set_user a U h = h\<lparr>h_users := (h_users h)(a \<mapsto> U)\<rparr>"

text \<open>\<open>g_new0\<close>\<close>

definition new_addr :: "st_heap \<Rightarrow> addr \<times> st_heap" where
  "new_addr h = (h_next h, h\<lparr>h_next := Suc (h_next h)\<rparr>)"

section \<open>Lists\<close>

definition ST_LIST_MAJOR :: guint32 where "ST_LIST_MAJOR = 3"
definition ST_LIST_MINOR :: guint32 where "ST_LIST_MINOR = 1"
definition ST_LIST_MICRO :: guint32 where "ST_LIST_MICRO = 3"

definition mwSametimeList_new :: "st_heap \<Rightarrow> addr \<times> st_heap" where
  "mwSametimeList_new h =
     (let (l, h) = new_addr h
      in (l, set_list l \<lparr>sl_major = ST_LIST_MAJOR, sl_minor = ST_LIST_MINOR, sl_micro = ST_LIST_MICRO,
                         sl_groups = []\<rparr> h))"

definition mwSametimeList_setMajor :: "addr \<Rightarrow> guint32 \<Rightarrow> st_heap \<Rightarrow> st_heap option" where
  "mwSametimeList_setMajor l v h = do { L \<leftarrow> h_lists h l; Some (set_list l (L\<lparr>sl_major := v\<rparr>) h) }"

definition mwSametimeList_getMajor :: "addr \<Rightarrow> st_heap \<Rightarrow> guint32 option" where
  "mwSametimeList_getMajor l h = do { L \<leftarrow> h_lists h l; Some (sl_major L) }"

definition mwSametimeList_setMinor :: "addr \<Rightarrow> guint32 \<Rightarrow> st_heap \<Rightarrow> st_heap option" where
  "mwSametimeList_setMinor l v h = do { L \<leftarrow> h_lists h l; Some (set_list l (L\<lparr>sl_minor := v\<rparr>) h) }"

definition mwSametimeList_getMinor :: "addr \<Rightarrow> st_heap \<Rightarrow> guint32 option" where
  "mwSametimeList_getMinor l h = do { L \<leftarrow> h_lists h l; Some (sl_minor L) }"

definition mwSametimeList_setMicro :: "addr \<Rightarrow> guint32 \<Rightarrow> st_heap \<Rightarrow> st_heap option" where
  "mwSametimeList_setMicro l v h = do { L \<leftarrow> h_lists h l; Some (set_list l (L\<lparr>sl_micro := v\<rparr>) h) }"

definition mwSametimeList_getMicro :: "addr \<Rightarrow> st_heap \<Rightarrow> guint32 option" where
  "mwSametimeList_getMicro l h = do { L \<leftarrow> h_lists h l; Some (sl_micro L) }"

definition mwSametimeList_getGroups :: "addr \<Rightarrow> st_heap \<Rightarrow> addr list option" where
  "mwSametimeList_getGroups l h = do { L \<leftarrow> h_lists h l; Some (sl_groups L) }"

fun find_group :: "st_heap \<Rightarrow> bytes \<Rightarrow> addr list \<Rightarrow> addr option option" where
  "find_group h name [] = Some None"
| "find_group h name (g # gs) =
     do { G \<leftarrow> h_groups h g; if gr_name G = name then Some (Some g) else find_group h name gs }"

definition mwSametimeList_findGroup :: "addr \<Rightarrow> cstr \<Rightarrow> st_heap \<Rightarrow> addr option option" where
  "mwSametimeList_findGroup l name h =
     (case name of
        None \<Rightarrow> Some None
      | Some n \<Rightarrow> if n = [] then Some None else do { L \<leftarrow> h_lists h l; find_group h n (sl_groups L) })"

section \<open>Groups\<close>

definition mwSametimeGroup_new :: "addr \<Rightarrow> mwSametimeGroupType \<Rightarrow> cstr \<Rightarrow> st_heap \<Rightarrow> (addr option \<times> st_heap) option" where
  "mwSametimeGroup_new list type name h =
     (case name of
        None \<Rightarrow> Some (None, h)
      | Some n \<Rightarrow>
          if n = [] then Some (None, h)
          else do {
            let (g, h) = new_addr h;
            let h = set_group g \<lparr>gr_list = list, gr_type = type, gr_name = n, gr_alias = None,
                                 gr_open = False, gr_users = []\<rparr> h;
            L \<leftarrow> h_lists h list;
            Some (Some g, set_list list (L\<lparr>sl_groups := sl_groups L @ [g]\<rparr>) h)
          })"

definition mwSametimeGroup_getType :: "addr \<Rightarrow> st_heap \<Rightarrow> mwSametimeGroupType option" where
  "mwSametimeGroup_getType g h = do { G \<leftarrow> h_groups h g; Some (gr_type G) }"

definition mwSametimeGroup_getName :: "addr \<Rightarrow> st_heap \<Rightarrow> bytes option" where
  "mwSametimeGroup_getName g h = do { G \<leftarrow> h_groups h g; Some (gr_name G) }"

definition mwSametimeGroup_setAlias :: "addr \<Rightarrow> cstr \<Rightarrow> st_heap \<Rightarrow> st_heap option" where
  "mwSametimeGroup_setAlias g alias h = do { G \<leftarrow> h_groups h g; Some (set_group g (G\<lparr>gr_alias := alias\<rparr>) h) }"

definition mwSametimeGroup_getAlias :: "addr \<Rightarrow> st_heap \<Rightarrow> cstr option" where
  "mwSametimeGroup_getAlias g h = do { G \<leftarrow> h_groups h g; Some (gr_alias G) }"

definition mwSametimeGroup_setOpen :: "addr \<Rightarrow> bool \<Rightarrow> st_heap \<Rightarrow> st_heap option" where
  "mwSametimeGroup_setOpen g v h = do { G \<leftarrow> h_groups h g; Some (set_group g (G\<lparr>gr_open := v\<rparr>) h) }"

definition mwSametimeGroup_isOpen :: "addr \<Rightarrow> st_heap \<Rightarrow> bool option" where
  "mwSametimeGroup_isOpen g h = do { G \<leftarrow> h_groups h g; Some (gr_open G) }"

definition mwSametimeGroup_getList :: "addr \<Rightarrow> st_heap \<Rightarrow> addr option" where
  "mwSametimeGroup_getList g h = do { G \<leftarrow> h_groups h g; Some (gr_list G) }"

definition mwSametimeGroup_getUsers :: "addr \<Rightarrow> st_heap \<Rightarrow> addr list option" where
  "mwSametimeGroup_getUsers g h = do { G \<leftarrow> h_groups h g; Some (gr_users G) }"

fun find_user :: "st_heap \<Rightarrow> mwIdBlock \<Rightarrow> addr list \<Rightarrow> addr option option" where
  "find_user h user [] = Some None"
| "find_user h user (u # us) =
     do { U \<leftarrow> h_users h u; if mwIdBlock_equal (Some user) (Some (us_id U)) then Some (Some u) else find_user h user us }"

definition mwSametimeGroup_findUser :: "addr \<Rightarrow> mwIdBlock \<Rightarrow> st_heap \<Rightarrow> addr option option" where
  "mwSametimeGroup_findUser g user h = do { G \<leftarrow> h_groups h g; find_user h user (gr_users G) }"

section \<open>Users\<close>

definition mwSametimeUser_new :: "addr \<Rightarrow> mwSametimeUserType \<Rightarrow> mwIdBlock \<Rightarrow> st_heap \<Rightarrow> (addr \<times> st_heap) option" where
  "mwSametimeUser_new g type id' h = do {
     let (u, h) = new_addr h;
     let h = set_user u \<lparr>us_group = g, us_type = type, us_id = mwIdBlock_clone mwIdBlock_zero id',
                         us_name = None, us_alias = None\<rparr> h;
     G \<leftarrow> h_groups h g;
     Some (u, set_group g (G\<lparr>gr_users := gr_users G @ [u]\<rparr>) h)
   }"

definition mwSametimeUser_getGroup :: "addr \<Rightarrow> st_heap \<Rightarrow> addr option" where
  "mwSametimeUser_getGroup u h = do { U \<leftarrow> h_users h u; Some (us_group U) }"

definition mwSametimeUser_getType :: "addr \<Rightarrow> st_heap \<Rightarrow> mwSametimeUserType option" where
  "mwSametimeUser_getType u h = do { U \<leftarrow> h_users h u; Some (us_type U) }"

definition mwSametimeUser_getUser :: "addr \<Rightarrow> st_heap \<Rightarrow> cstr option" where
  "mwSametimeUser_getUser u h = do { U \<leftarrow> h_users h u; Some (ib_user (us_id U)) }"

definition mwSametimeUser_getCommunity :: "addr \<Rightarrow> st_heap \<Rightarrow> cstr option" where
  "mwSametimeUser_getCommunity u h = do { U \<leftarrow> h_users h u; Some (ib_community (us_id U)) }"

definition mwSametimeUser_setShortName :: "addr \<Rightarrow> cstr \<Rightarrow> st_heap \<Rightarrow> st_heap option" where
  "mwSametimeUser_setShortName u name h = do { U \<leftarrow> h_users h u; Some (set_user u (U\<lparr>us_name := name\<rparr>) h) }"

definition mwSametimeUser_getShortName :: "addr \<Rightarrow> st_heap \<Rightarrow> cstr option" where
  "mwSametimeUser_getShortName u h = do { U \<leftarrow> h_users h u; Some (us_name U) }"

definition mwSametimeUser_setAlias :: "addr \<Rightarrow> cstr \<Rightarrow> st_heap \<Rightarrow> st_heap option" where
  "mwSametimeUser_setAlias u alias h = do { U \<leftarrow> h_users h u; Some (set_user u (U\<lparr>us_alias := alias\<rparr>) h) }"

definition mwSametimeUser_getAlias :: "addr \<Rightarrow> st_heap \<Rightarrow> cstr option" where
  "mwSametimeUser_getAlias u h = do { U \<leftarrow> h_users h u; Some (us_alias U) }"

section \<open>Freeing\<close>

definition user_free :: "addr \<Rightarrow> st_heap \<Rightarrow> st_heap option" where
  "user_free u h = do {
     U \<leftarrow> h_users h u;
     G \<leftarrow> h_groups h (us_group U);
     let h = set_group (us_group U) (G\<lparr>gr_users := remove1 u (gr_users G)\<rparr>) h;
     Some (h\<lparr>h_users := (h_users h)(u := None)\<rparr>)
   }"

definition mwSametimeUser_free :: "addr \<Rightarrow> st_heap \<Rightarrow> st_heap option" where
  "mwSametimeUser_free u h = user_free u h"

text \<open>\<open>while(g->users) mwSametimeUser_free(g->users->data);\<close>\<close>

partial_function (option) free_users :: "addr \<Rightarrow> st_heap \<Rightarrow> st_heap option" where
  "free_users g h = Option.bind (h_groups h g) (\<lambda>G.
     case gr_users G of
       [] \<Rightarrow> Some h
     | u # _ \<Rightarrow> Option.bind (mwSametimeUser_free u h) (free_users g))"

definition group_free :: "addr \<Rightarrow> st_heap \<Rightarrow> st_heap option" where
  "group_free g h = do {
     G \<leftarrow> h_groups h g;
     L \<leftarrow> h_lists h (gr_list G);
     let h = set_list (gr_list G) (L\<lparr>sl_groups := remove1 g (sl_groups L)\<rparr>) h;
     h \<leftarrow> free_users g h;
     Some (h\<lparr>h_groups := (h_groups h)(g := None)\<rparr>)
   }"

definition mwSametimeGroup_free :: "addr \<Rightarrow> st_heap \<Rightarrow> st_heap option" where
  "mwSametimeGroup_free g h = group_free g h"

text \<open>\<open>while(l->groups) mwSametimeGroup_free(l->groups->data);\<close>\<close>

partial_function (option) free_groups :: "addr \<Rightarrow> st_heap \<Rightarrow> st_heap option" where
  "free_groups l h = Option.bind (h_lists h l) (\<lambda>L.
     case sl_groups L of
       [] \<Rightarrow> Some h
     | g # _ \<Rightarrow> Option.bind (mwSametimeGroup_free g h) (free_groups l))"

definition list_free :: "addr \<Rightarrow> st_heap \<Rightarrow> st_heap option" where
  "list_free l h = do {
     h \<leftarrow> free_groups l h;
     Some (h\<lparr>h_lists := (h_lists h)(l := None)\<rparr>)
   }"

definition mwSametimeList_free :: "addr \<Rightarrow> st_heap \<Rightarrow> st_heap option" where
  "mwSametimeList_free l h = list_free l h"

section \<open>Printing\<close>

definition str_replace :: "cstr \<Rightarrow> guchar \<Rightarrow> guchar \<Rightarrow> cstr" where
  "str_replace str from to = map_option (map (\<lambda>c. if c = from then to else c)) str"

definition user_type_to_char :: "mwSametimeUserType \<Rightarrow> guchar" where
  "user_type_to_char type =
     (case type of
        mwSametimeUser_NORMAL \<Rightarrow> of_char (CHR ''1'')
      | mwSametimeUser_EXTERNAL \<Rightarrow> of_char (CHR ''2'')
      | mwSametimeUser_UNKNOWN \<Rightarrow> of_char (CHR ''9''))"

definition user_char_to_type :: "guchar \<Rightarrow> mwSametimeUserType" where
  "user_char_to_type type =
     (if type = of_char (CHR ''1'') then mwSametimeUser_NORMAL
      else if type = of_char (CHR ''2'') then mwSametimeUser_EXTERNAL
      else mwSametimeUser_UNKNOWN)"

text \<open>A user without an ID would be printed through a NULL pointer.\<close>

definition user_put :: "bytes \<Rightarrow> mwSametimeUser \<Rightarrow> bytes option" where
  "user_put str u = do {
     let id' = str_replace (ib_user (us_id u)) 0x20 0x3B;
     let name = str_replace (us_name u) 0x20 0x3B;
     let alias = str_replace (us_alias u) 0x20 0x3B;
     let type = user_type_to_char (us_type u);
     let (name, alias) = (if name = None \<and> alias \<noteq> None then (alias, None) else (name, alias));
     i \<leftarrow> id';
     Some (str @ ascii ''U '' @ i @ [type] @ ascii '':: '' @ (case name of None \<Rightarrow> [] | Some n \<Rightarrow> n) @ ascii '',''
           @ (case alias of None \<Rightarrow> [] | Some a \<Rightarrow> a) @ [0x0D, 0x0A])
   }"

definition group_type_to_char :: "mwSametimeGroupType \<Rightarrow> guchar" where
  "group_type_to_char type =
     (case type of
        mwSametimeGroup_NORMAL \<Rightarrow> of_char (CHR ''2'')
      | mwSametimeGroup_DYNAMIC \<Rightarrow> of_char (CHR ''3'')
      | mwSametimeGroup_UNKNOWN \<Rightarrow> of_char (CHR ''9''))"

definition group_char_to_type :: "guchar \<Rightarrow> mwSametimeGroupType" where
  "group_char_to_type type =
     (if type = of_char (CHR ''2'') then mwSametimeGroup_NORMAL
      else if type = of_char (CHR ''3'') then mwSametimeGroup_DYNAMIC
      else mwSametimeGroup_UNKNOWN)"

fun put_users :: "st_heap \<Rightarrow> bytes \<Rightarrow> addr list \<Rightarrow> bytes option" where
  "put_users h str [] = Some str"
| "put_users h str (u # us) = do { U \<leftarrow> h_users h u; str \<leftarrow> user_put str U; put_users h str us }"

definition group_put :: "st_heap \<Rightarrow> bytes \<Rightarrow> mwSametimeGroup \<Rightarrow> bytes option" where
  "group_put h str g = do {
     name \<leftarrow> str_replace (Some (gr_name g)) 0x20 0x3B;
     alias \<leftarrow> str_replace (case gr_alias g of Some a \<Rightarrow> Some a | None \<Rightarrow> Some (gr_name g)) 0x20 0x3B;
     let type = group_type_to_char (gr_type g);
     let str = str @ ascii ''G '' @ name @ [type] @ ascii '' '' @ alias @ ascii '' ''
               @ (if gr_open g then ascii ''O'' else ascii ''C'') @ [0x0D, 0x0A];
     put_users h str (gr_users g)
   }"

fun put_groups :: "st_heap \<Rightarrow> bytes \<Rightarrow> addr list \<Rightarrow> bytes option" where
  "put_groups h str [] = Some str"
| "put_groups h str (g # gs) = do { G \<leftarrow> h_groups h g; str \<leftarrow> group_put h str G; put_groups h str gs }"

definition list_store :: "addr \<Rightarrow> st_heap \<Rightarrow> bytes option" where
  "list_store l h = do {
     L \<leftarrow> h_lists h l;
     put_groups h (ascii ''Version='' @ print_uint (sl_major L) @ ascii ''.'' @ print_uint (sl_minor L)
                   @ ascii ''.'' @ print_uint (sl_micro L) @ [0x0D, 0x0A]) (sl_groups L)
   }"

definition mwSametimeList_store :: "addr \<Rightarrow> st_heap \<Rightarrow> bytes option" where
  "mwSametimeList_store l h = list_store l h"

definition mwSametimeList_put :: "addr \<Rightarrow> st_heap \<Rightarrow> mwPutBuffer \<Rightarrow> mwPutBuffer option" where
  "mwSametimeList_put l h b = do {
     str \<leftarrow> list_store l h;
     let len = (of_nat (length str) :: guint16);
     Some (exec_state (do { guint16_put len; mwPutBuffer_write (take (unat len) str) }) b)
   }"

section \<open>Reading\<close>

definition get_version :: "bytes \<Rightarrow> addr \<Rightarrow> st_heap \<Rightarrow> st_heap option" where
  "get_version line l h = do {
     let vs = sscanf (map Lit (ascii ''Version='') @ [Scan_u, Lit 0x2E, Scan_u, Lit 0x2E, Scan_u, Space]) line;
     let major = (case vs of Got_u v # _ \<Rightarrow> v | _ \<Rightarrow> 0);
     let minor = (case vs of _ # Got_u v # _ \<Rightarrow> v | _ \<Rightarrow> 0);
     let micro = (case vs of _ # _ # Got_u v # _ \<Rightarrow> v | _ \<Rightarrow> 0);
     L \<leftarrow> h_lists h l;
     Some (set_list l (L\<lparr>sl_major := major, sl_minor := minor, sl_micro := micro\<rparr>) h)
   }"

text \<open>A word that \<open>sscanf\<close> stores in a zeroed block of \<open>n\<close> bytes has to leave room for its NUL.\<close>

definition block_string :: "nat \<Rightarrow> bytes \<Rightarrow> bytes option" where
  "block_string n s = (if length s < n then Some s else None)"

definition get_group :: "bytes \<Rightarrow> addr \<Rightarrow> st_heap \<Rightarrow> (addr \<times> st_heap) option" where
  "get_group line l h = do {
     let vs = sscanf [Lit 0x47, Space, Scan_s, Space, Scan_s, Space, Scan_c, Space] line;
     name \<leftarrow> block_string (length line) (case vs of Got_s n # _ \<Rightarrow> n | _ \<Rightarrow> []);
     alias \<leftarrow> block_string (length line) (case vs of _ # Got_s a # _ \<Rightarrow> a | _ \<Rightarrow> []);
     let open' = (case vs of _ # _ # Got_c c # _ \<Rightarrow> c | _ \<Rightarrow> of_char (CHR ''O''));
     name \<leftarrow> str_replace (Some name) 0x3B 0x20;
     alias \<leftarrow> str_replace (Some alias) 0x3B 0x20;
     let (type, name) = (if name \<noteq> [] then (last name, butlast name) else (of_char (CHR ''2''), name));
     let (g, h) = new_addr h;
     let h = set_group g \<lparr>gr_list = l, gr_type = group_char_to_type type, gr_name = name,
                          gr_alias = Some alias, gr_open = (open' = of_char (CHR ''O'')), gr_users = []\<rparr> h;
     L \<leftarrow> h_lists h l;
     Some (g, set_list l (L\<lparr>sl_groups := sl_groups L @ [g]\<rparr>) h)
   }"

text \<open>
  The character before the first \<open>::\<close> is taken for the type and overwritten. When the ID
  starts with \<open>::\<close> that character is in front of the block.
\<close>

definition split_type :: "bytes \<Rightarrow> (bytes \<times> guchar) option" where
  "split_type user =
     (case strstr user (ascii ''::'') of
        None \<Rightarrow> Some (user, of_char (CHR ''1''))
      | Some 0 \<Rightarrow> None
      | Some (Suc i) \<Rightarrow> Some (take i user, user ! i))"

definition split_name :: "bytes \<Rightarrow> bytes \<times> cstr" where
  "split_name name =
     (case strrchr name (of_char (CHR '','')) of
        None \<Rightarrow> (name, None)
      | Some i \<Rightarrow> (take i name, if drop (Suc i) name \<noteq> [] then Some (drop (Suc i) name) else None))"

definition get_user :: "bytes \<Rightarrow> addr option \<Rightarrow> st_heap \<Rightarrow> st_heap option" where
  "get_user line g h = do {
     let vs = sscanf [Lit 0x55, Space, Scan_s, Space, Scan_s] line;
     user \<leftarrow> block_string (length line) (case vs of Got_s n # _ \<Rightarrow> n | _ \<Rightarrow> []);
     name \<leftarrow> block_string (length line) (case vs of _ # Got_s a # _ \<Rightarrow> a | _ \<Rightarrow> []);
     user \<leftarrow> str_replace (Some user) 0x3B 0x20;
     name \<leftarrow> str_replace (Some name) 0x3B 0x20;
     (user, type) \<leftarrow> (if user \<noteq> [] then split_type user else Some (user, of_char (CHR ''1'')));
     let (name, alias) = (if name \<noteq> [] then split_name name else (name, None));
     g \<leftarrow> g;
     let (u, h) = new_addr h;
     let h = set_user u \<lparr>us_group = g, us_type = user_char_to_type type,
                         us_id = \<lparr>ib_user = Some user, ib_community = None\<rparr>,
                         us_name = Some name, us_alias = alias\<rparr> h;
     G \<leftarrow> h_groups h g;
     Some (set_group g (G\<lparr>gr_users := gr_users G @ [u]\<rparr>) h)
   }"

definition line_end :: "guchar \<Rightarrow> bool" where
  "line_end c \<longleftrightarrow> c = 0x0A \<or> c = 0x0D"

text \<open>The next line and the rest of the string behind its first line end.\<close>

definition fetch_line :: "(guchar \<Rightarrow> bool) \<Rightarrow> bytes \<Rightarrow> (bytes \<times> bytes) option" where
  "fetch_line sp str =
     (case dropWhile sp str of
        [] \<Rightarrow> None
      | c # t \<Rightarrow> Some (c # takeWhile (\<lambda>c. \<not> line_end c) t, drop 1 (dropWhile (\<lambda>c. \<not> line_end c) t)))"

text \<open>One turn of the loop of \<open>list_get\<close>, with the group that is current after it.\<close>

definition list_line :: "addr \<Rightarrow> bytes \<Rightarrow> addr option \<Rightarrow> st_heap \<Rightarrow> (addr option \<times> st_heap) option" where
  "list_line l line g h =
     (if hd line = of_char (CHR ''V'') then do { h \<leftarrow> get_version line l h; Some (g, h) }
      else if hd line = of_char (CHR ''G'') then do { (g, h) \<leftarrow> get_group line l h; Some (Some g, h) }
      else if hd line = of_char (CHR ''U'') then do { h \<leftarrow> get_user line g h; Some (g, h) }
      else Some (g, h))"

lemma fetch_line_shorter:
  assumes "fetch_line sp s = Some (line, rest)"
  shows "length rest < length s"
proof -
  obtain c t where ct: "dropWhile sp s = c # t" "rest = drop 1 (dropWhile (\<lambda>c. \<not> line_end c) t)"
    using assms by (auto simp: fetch_line_def split: list.splits)
  have "length (c # t) \<le> length s"
    using length_dropWhile_le [of sp s] by (simp add: ct(1))
  moreover have "length rest \<le> length t"
    using length_dropWhile_le [of "\<lambda>c. \<not> line_end c" t] by (simp add: ct(2))
  ultimately show ?thesis
    by simp
qed

function list_get :: "(guchar \<Rightarrow> bool) \<Rightarrow> addr \<Rightarrow> bytes \<Rightarrow> addr option \<Rightarrow> st_heap \<Rightarrow> st_heap option" where
  "list_get sp l s g h =
     (case fetch_line sp s of
        None \<Rightarrow> Some h
      | Some (line, rest) \<Rightarrow>
          (case list_line l line g h of
             None \<Rightarrow> None
           | Some (g, h) \<Rightarrow> list_get sp l rest g h))"
  by auto

termination
  by (relation "measure (\<lambda>(sp, l, s, g, h). length s)") (auto simp: fetch_line_shorter)

declare list_get.simps [simp del]

definition mwSametimeList_load :: "(guchar \<Rightarrow> bool) \<Rightarrow> bytes \<Rightarrow> st_heap \<Rightarrow> (addr \<times> st_heap) option" where
  "mwSametimeList_load sp data h = do {
     let (l, h) = mwSametimeList_new h;
     h \<leftarrow> list_get sp l data None h;
     Some (l, h)
   }"

definition mwSametimeList_get :: "(guchar \<Rightarrow> bool) \<Rightarrow> addr \<Rightarrow> st_heap \<Rightarrow> mwGetBuffer \<Rightarrow> (st_heap \<times> mwGetBuffer) option" where
  "mwSametimeList_get sp l h b = do {
     let (str, b) = run_state mwString_get b;
     h \<leftarrow> (case str of None \<Rightarrow> Some h | Some s \<Rightarrow> list_get sp l s None h);
     Some (h, b)
   }"

end
