(* ===== verification/St_List_Heap.thy ===== *)
theory St_List_Heap
  imports St_List
begin

text \<open>
  Ownership in contact lists. Lists own groups and groups own users in the same way, stated
  once as \<open>owned\<close>: an owner holds each of its children once and every child points back to
  it. Every function of \<^verbatim>\<open>src/src/st_list.c\<close> keeps both relations, no function follows
  a pointer to a freed object when it is called on live ones, and freeing a list frees exactly
  what belongs to it.
\<close>

section \<open>Ownership\<close>

definition owned :: "('p \<Rightarrow> addr list) \<Rightarrow> ('c \<Rightarrow> addr) \<Rightarrow> (addr \<rightharpoonup> 'p) \<Rightarrow> (addr \<rightharpoonup> 'c) \<Rightarrow> bool" where
  "owned kids owner ps cs \<longleftrightarrow>
     (\<forall>p P. ps p = Some P \<longrightarrow> distinct (kids P) \<and> (\<forall>c \<in> set (kids P). \<exists>C. cs c = Some C \<and> owner C = p))
     \<and> (\<forall>c C. cs c = Some C \<longrightarrow> (\<exists>P. ps (owner C) = Some P \<and> c \<in> set (kids P)))"

lemma ownedI:
  assumes "\<And>p P. ps p = Some P \<Longrightarrow> distinct (kids P)"
    and "\<And>p P c. ps p = Some P \<Longrightarrow> c \<in> set (kids P) \<Longrightarrow> \<exists>C. cs c = Some C \<and> owner C = p"
    and "\<And>c C. cs c = Some C \<Longrightarrow> \<exists>P. ps (owner C) = Some P \<and> c \<in> set (kids P)"
  shows "owned kids owner ps cs"
  using assms unfolding owned_def by blast

lemma owned_distinct: "owned kids owner ps cs \<Longrightarrow> ps p = Some P \<Longrightarrow> distinct (kids P)"
  unfolding owned_def by blast

lemma owned_child:
  assumes "owned kids owner ps cs" "ps p = Some P" "c \<in> set (kids P)"
  obtains C where "cs c = Some C" "owner C = p"
  using assms unfolding owned_def by blast

lemma owned_owner:
  assumes "owned kids owner ps cs" "cs c = Some C"
  obtains P where "ps (owner C) = Some P" "c \<in> set (kids P)"
  using assms unfolding owned_def by blast

text \<open>The children of an owner are those that point to it.\<close>

lemma owned_iff:
  assumes "owned kids owner ps cs" "ps p = Some P"
  shows "c \<in> set (kids P) \<longleftrightarrow> (\<exists>C. cs c = Some C \<and> owner C = p)"
  using assms by (metis owned_child owned_owner option.inject)

lemma owned_add:
  assumes "owned kids owner ps cs" "cs c = None" "ps p = Some P" "owner C = p" "kids P' = kids P @ [c]"
  shows "owned kids owner (ps(p \<mapsto> P')) (cs(c \<mapsto> C))"
proof (rule ownedI)
  have fresh: "c \<notin> set (kids Q)" if "ps q = Some Q" for q Q
    using owned_iff [OF assms(1) that, of c] assms(2) by simp
  fix q Q
  assume Q: "(ps(p \<mapsto> P')) q = Some Q"
  show "distinct (kids Q)"
    using Q assms(3, 5) fresh owned_distinct [OF assms(1)] by (auto split: if_splits)
  fix d
  assume d: "d \<in> set (kids Q)"
  show "\<exists>D. (cs(c \<mapsto> C)) d = Some D \<and> owner D = q"
  proof (cases "q = p \<and> d = c")
    case True
    then show ?thesis
      using assms(4) by simp
  next
    case False
    then obtain Q' where "ps q = Some Q'" "d \<in> set (kids Q')"
      using Q d assms(3, 5) by (auto split: if_splits)
    then show ?thesis
      using owned_iff [OF assms(1), of q Q' d] fresh by auto
  qed
next
  fix d D
  assume "(cs(c \<mapsto> C)) d = Some D"
  then consider "d = c" "D = C" | "cs d = Some D"
    by (cases "d = c") simp_all
  then show "\<exists>Q. (ps(p \<mapsto> P')) (owner D) = Some Q \<and> d \<in> set (kids Q)"
  proof cases
    case 2
    then obtain Q where "ps (owner D) = Some Q" "d \<in> set (kids Q)"
      by (rule owned_owner [OF assms(1)])
    then show ?thesis
      using assms(3, 5) by auto
  qed (simp add: assms)
qed

lemma owned_remove:
  assumes "owned kids owner ps cs" "cs c = Some C" "ps (owner C) = Some P" "kids P' = remove1 c (kids P)"
  shows "owned kids owner (ps(owner C \<mapsto> P')) (cs(c := None))"
proof (rule ownedI)
  fix p Q
  assume Q: "(ps(owner C \<mapsto> P')) p = Some Q"
  show "distinct (kids Q)"
    using Q assms(3, 4) owned_distinct [OF assms(1)] by (auto split: if_splits)
  fix d
  assume d: "d \<in> set (kids Q)"
  have "d \<noteq> c"
    using Q d assms owned_distinct [OF assms(1, 3)] owned_iff [OF assms(1)] by (auto split: if_splits)
  moreover have "\<exists>D. cs d = Some D \<and> owner D = p"
    using Q d assms(3, 4) owned_iff [OF assms(1)] by (fastforce split: if_splits dest: notin_set_remove1 in_set_remove1)
  ultimately show "\<exists>D. (cs(c := None)) d = Some D \<and> owner D = p"
    by simp
next
  fix d D
  assume D: "(cs(c := None)) d = Some D"
  then obtain Q where "ps (owner D) = Some Q" "d \<in> set (kids Q)"
    using owned_owner [OF assms(1), of d D] by (auto split: if_splits)
  then show "\<exists>P. (ps(owner C \<mapsto> P')) (owner D) = Some P \<and> d \<in> set (kids P)"
    using D assms(3, 4) by (auto split: if_splits)
qed

lemma owned_parent:
  assumes "owned kids owner ps cs" "ps p = Some P" "kids P' = kids P"
  shows "owned kids owner (ps(p \<mapsto> P')) cs"
proof (rule ownedI)
  fix c C
  assume "cs c = Some C"
  then show "\<exists>Q. (ps(p \<mapsto> P')) (owner C) = Some Q \<and> c \<in> set (kids Q)"
    using owned_owner [OF assms(1), of c C] assms(2, 3) by (metis fun_upd_apply option.inject)
qed (use assms owned_distinct [OF assms(1)] owned_iff [OF assms(1)] in \<open>auto split: if_splits\<close>)

lemma owned_kid:
  assumes "owned kids owner ps cs" "cs c = Some C" "owner C' = owner C"
  shows "owned kids owner ps (cs(c \<mapsto> C'))"
  using assms unfolding owned_def by (auto split: if_splits) (metis option.inject)+

lemma owned_new:
  assumes "owned kids owner ps cs" "ps p = None" "kids P = []"
  shows "owned kids owner (ps(p \<mapsto> P)) cs"
  using assms unfolding owned_def by (auto split: if_splits) (metis option.distinct(1))

lemma owned_free:
  assumes "owned kids owner ps cs" "ps p = Some P" "kids P = []"
  shows "owned kids owner (ps(p := None)) cs"
  using assms unfolding owned_def by (auto split: if_splits) fastforce

lemma owned_empty: "owned kids owner Map.empty Map.empty"
  by (simp add: owned_def)

section \<open>The invariant\<close>

definition heap_ok :: "st_heap \<Rightarrow> bool" where
  "heap_ok h \<longleftrightarrow> owned sl_groups gr_list (h_lists h) (h_groups h) \<and> owned gr_users us_group (h_groups h) (h_users h)
     \<and> (\<forall>a. h_next h \<le> a \<longrightarrow> h_lists h a = None \<and> h_groups h a = None \<and> h_users h a = None)"

lemmas heap_defs = set_list_def set_group_def set_user_def new_addr_def

lemma heap_okI:
  assumes "owned sl_groups gr_list (h_lists h) (h_groups h)" "owned gr_users us_group (h_groups h) (h_users h)"
    "\<And>a. h_next h \<le> a \<Longrightarrow> h_lists h a = None \<and> h_groups h a = None \<and> h_users h a = None"
  shows "heap_ok h"
  using assms by (simp add: heap_ok_def)

lemma heap_okD:
  assumes "heap_ok h"
  shows "owned sl_groups gr_list (h_lists h) (h_groups h)" "owned gr_users us_group (h_groups h) (h_users h)"
    "h_next h \<le> a \<Longrightarrow> h_lists h a = None" "h_next h \<le> a \<Longrightarrow> h_groups h a = None" "h_next h \<le> a \<Longrightarrow> h_users h a = None"
  using assms by (simp_all add: heap_ok_def)

lemma heap_ok_empty: "heap_ok st_heap_empty"
  by (simp add: heap_ok_def st_heap_empty_def owned_empty)

lemma live_below_next:
  assumes "heap_ok h"
  shows "h_lists h a = Some L \<Longrightarrow> a < h_next h" "h_groups h a = Some G \<Longrightarrow> a < h_next h" "h_users h a = Some U \<Longrightarrow> a < h_next h"
  using heap_okD(3 - 5) [OF assms, of a] by (metis not_le option.distinct(1))+

text \<open>Changing the payload of an object.\<close>

lemma heap_ok_set_list:
  assumes "heap_ok h" "h_lists h l = Some L" "sl_groups L' = sl_groups L"
  shows "heap_ok (set_list l L' h)"
  using heap_okD [OF assms(1)] live_below_next(1) [OF assms(1, 2)] owned_parent [OF heap_okD(1) [OF assms(1)] assms(2, 3)]
  by (intro heap_okI) (auto simp: set_list_def)

lemma heap_ok_set_group:
  assumes "heap_ok h" "h_groups h g = Some G" "gr_users G' = gr_users G" "gr_list G' = gr_list G"
  shows "heap_ok (set_group g G' h)"
  using heap_okD [OF assms(1)] live_below_next(2) [OF assms(1, 2)] owned_parent [OF heap_okD(2) [OF assms(1)] assms(2, 3)]
    owned_kid [OF heap_okD(1) [OF assms(1)] assms(2, 4)]
  by (intro heap_okI) (auto simp: set_group_def)

lemma heap_ok_set_user:
  assumes "heap_ok h" "h_users h u = Some U" "us_group U' = us_group U"
  shows "heap_ok (set_user u U' h)"
  using heap_okD [OF assms(1)] live_below_next(3) [OF assms(1, 2)] owned_kid [OF heap_okD(2) [OF assms(1)] assms(2, 3)]
  by (intro heap_okI) (auto simp: set_user_def)

text \<open>Linking a new object to its owner.\<close>

lemma heap_ok_add_group:
  assumes "heap_ok h" "h_lists h l = Some L" "gr_list G = l" "gr_users G = []"
  shows "heap_ok (set_list l (L\<lparr>sl_groups := sl_groups L @ [h_next h]\<rparr>)
    (set_group (h_next h) G (h\<lparr>h_next := Suc (h_next h)\<rparr>)))"
  using heap_okD [OF assms(1)] live_below_next(1) [OF assms(1, 2)]
    owned_add [OF heap_okD(1) [OF assms(1)] _ assms(2, 3), of "h_next h"] owned_new [OF heap_okD(2) [OF assms(1)] _ assms(4), of "h_next h"]
  by (intro heap_okI) (auto simp: set_group_def set_list_def)

lemma heap_ok_add_user:
  assumes "heap_ok h" "h_groups h g = Some G" "us_group U = g"
  shows "heap_ok (set_group g (G\<lparr>gr_users := gr_users G @ [h_next h]\<rparr>)
    (set_user (h_next h) U (h\<lparr>h_next := Suc (h_next h)\<rparr>)))"
  using heap_okD [OF assms(1)] live_below_next(2) [OF assms(1, 2)]
    owned_add [OF heap_okD(2) [OF assms(1)] _ assms(2, 3), of "h_next h"]
    owned_kid [OF heap_okD(1) [OF assms(1)] assms(2), of "G\<lparr>gr_users := gr_users G @ [h_next h]\<rparr>"]
  by (intro heap_okI) (auto simp: set_group_def set_user_def)

section \<open>Freeing\<close>

lemma user_free_run:
  assumes "h_users h u = Some U" "h_groups h (us_group U) = Some G"
  shows "mwSametimeUser_free u h = Some (h\<lparr>h_groups := (h_groups h)(us_group U \<mapsto> G\<lparr>gr_users := remove1 u (gr_users G)\<rparr>),
    h_users := (h_users h)(u := None)\<rparr>)"
  using assms by (simp add: mwSametimeUser_free_def user_free_def set_group_def)

lemma user_free_ok:
  assumes "heap_ok h" "h_users h u = Some U"
  obtains h' where "mwSametimeUser_free u h = Some h'" "heap_ok h'"
proof -
  obtain G where G: "h_groups h (us_group U) = Some G" "u \<in> set (gr_users G)"
    by (rule owned_owner [OF heap_okD(2) [OF assms(1)] assms(2)])
  let ?G = "G\<lparr>gr_users := remove1 u (gr_users G)\<rparr>"
  have "heap_ok (h\<lparr>h_groups := (h_groups h)(us_group U \<mapsto> ?G), h_users := (h_users h)(u := None)\<rparr>)"
    using heap_okD [OF assms(1)] live_below_next(2) [OF assms(1) G(1)] owned_kid [OF heap_okD(1) [OF assms(1)] G(1), of ?G]
      owned_remove [OF heap_okD(2) [OF assms(1)] assms(2) G(1), of ?G]
    by (intro heap_okI) auto
  then show thesis
    using that user_free_run [OF assms(2) G(1)] by blast
qed

text \<open>The loop over the users of a group ends and has freed just these.\<close>

lemma free_users_run:
  assumes "h_groups h g = Some G" "distinct (gr_users G)" "\<And>u. u \<in> set (gr_users G) \<Longrightarrow> \<exists>U. h_users h u = Some U \<and> us_group U = g"
  shows "free_users g h = Some (h\<lparr>h_groups := (h_groups h)(g \<mapsto> G\<lparr>gr_users := []\<rparr>), h_users := (h_users h) |` (- set (gr_users G))\<rparr>)"
  using assms
proof (induction "gr_users G" arbitrary: h G)
  case Nil
  have "G\<lparr>gr_users := []\<rparr> = G"
    using Nil(1) by (cases G) simp
  then have "h\<lparr>h_groups := (h_groups h)(g \<mapsto> G\<lparr>gr_users := []\<rparr>), h_users := h_users h |` UNIV\<rparr> = h"
    using Nil(2) by (cases h) (simp add: fun_upd_idem restrict_map_def)
  then show ?case
    using Nil(1, 2) by (subst free_users.simps) (simp flip: Nil(1))
next
  case (Cons u us)
  obtain U where U: "h_users h u = Some U" "us_group U = g"
    using Cons.prems(3) [of u] by (auto simp flip: Cons.hyps(2))
  let ?G = "G\<lparr>gr_users := us\<rparr>"
  let ?h = "h\<lparr>h_groups := (h_groups h)(g \<mapsto> ?G), h_users := (h_users h)(u := None)\<rparr>"
  have d: "distinct us" "u \<notin> set us" "set (gr_users G) = insert u (set us)"
    using Cons.prems(2) by (auto simp flip: Cons.hyps(2))
  have "mwSametimeUser_free u h = Some ?h"
    using user_free_run [OF U(1), of G] U(2) Cons.prems(1) by (simp flip: Cons.hyps(2))
  moreover have "free_users g ?h = Some (?h\<lparr>h_groups := (h_groups ?h)(g \<mapsto> ?G\<lparr>gr_users := []\<rparr>), h_users := (h_users ?h) |` (- set us)\<rparr>)"
    using Cons.hyps(1) [of ?G ?h] Cons.prems(3) d by (force simp: fun_upd_apply)
  moreover have "(h_users ?h) |` (- set us) = (h_users h) |` (- set (gr_users G))"
    unfolding d(3) by (auto simp: restrict_map_def fun_eq_iff)
  ultimately show ?case
    using Cons.prems(1) by (subst free_users.simps) (simp flip: Cons.hyps(2))
qed

lemma group_free_run:
  assumes "heap_ok h" "h_groups h g = Some G" "h_lists h (gr_list G) = Some L"
  shows "mwSametimeGroup_free g h = Some (h\<lparr>h_lists := (h_lists h)(gr_list G \<mapsto> L\<lparr>sl_groups := remove1 g (sl_groups L)\<rparr>),
    h_groups := (h_groups h)(g := None), h_users := (h_users h) |` (- set (gr_users G))\<rparr>)"
proof -
  note o2 = heap_okD(2) [OF assms(1)]
  have "free_users g (set_list (gr_list G) (L\<lparr>sl_groups := remove1 g (sl_groups L)\<rparr>) h) = Some ((set_list (gr_list G) (L\<lparr>sl_groups := remove1 g (sl_groups L)\<rparr>) h)
      \<lparr>h_groups := (h_groups h)(g \<mapsto> G\<lparr>gr_users := []\<rparr>), h_users := (h_users h) |` (- set (gr_users G))\<rparr>)"
    using free_users_run [of "set_list (gr_list G) (L\<lparr>sl_groups := remove1 g (sl_groups L)\<rparr>) h" g G] assms(2)
      owned_distinct [OF o2 assms(2)] owned_iff [OF o2 assms(2)]
    by (simp add: set_list_def)
  then show ?thesis
    using assms(2, 3) by (simp add: mwSametimeGroup_free_def group_free_def) (simp add: set_list_def)
qed

lemma owned_restrict:
  assumes "owned kids owner ps cs" "ps p = Some P"
  shows "owned kids owner (ps(p := None)) (cs |` (- set (kids P)))"
proof (rule ownedI)
  fix q Q
  assume Q: "(ps(p := None)) q = Some Q"
  show "distinct (kids Q)"
    using Q owned_distinct [OF assms(1)] by (auto split: if_splits)
  fix c
  assume "c \<in> set (kids Q)"
  then obtain C where "cs c = Some C" "owner C = q"
    using Q owned_child [OF assms(1), of q Q c] by (auto split: if_splits)
  then show "\<exists>C. (cs |` (- set (kids P))) c = Some C \<and> owner C = q"
    using Q owned_iff [OF assms] by (auto split: if_splits)
next
  fix c C
  assume C: "(cs |` (- set (kids P))) c = Some C"
  then have "cs c = Some C" "c \<notin> set (kids P)"
    by (simp_all add: restrict_map_def split: if_splits)
  then show "\<exists>P. (ps(p := None)) (owner C) = Some P \<and> c \<in> set (kids P)"
    using owned_iff [OF assms, of c] owned_owner [OF assms(1), of c C] by (metis fun_upd_apply)
qed

lemma group_free_ok:
  assumes "heap_ok h" "h_groups h g = Some G"
  obtains h' where "mwSametimeGroup_free g h = Some h'" "heap_ok h'"
proof -
  obtain L where L: "h_lists h (gr_list G) = Some L" "g \<in> set (sl_groups L)"
    by (rule owned_owner [OF heap_okD(1) [OF assms(1)] assms(2)])
  let ?L = "L\<lparr>sl_groups := remove1 g (sl_groups L)\<rparr>"
  have "heap_ok (h\<lparr>h_lists := (h_lists h)(gr_list G \<mapsto> ?L), h_groups := (h_groups h)(g := None), h_users := (h_users h) |` (- set (gr_users G))\<rparr>)"
    using heap_okD [OF assms(1)] live_below_next(1) [OF assms(1) L(1)] owned_restrict [OF heap_okD(2) [OF assms(1)] assms(2)]
      owned_remove [OF heap_okD(1) [OF assms(1)] assms(2) L(1), of ?L]
    by (intro heap_okI) (auto simp: restrict_map_def)
  then show thesis
    using that group_free_run [OF assms(1, 2) L(1)] by blast
qed

text \<open>The loop over the groups of a list.\<close>

lemma free_groups_run:
  assumes "heap_ok h" "h_lists h l = Some L"
  shows "\<exists>h'. free_groups l h = Some h' \<and> heap_ok h' \<and> h_lists h' = (h_lists h)(l \<mapsto> L\<lparr>sl_groups := []\<rparr>)
    \<and> h_groups h' = h_groups h |` (- set (sl_groups L))
    \<and> h_users h' = h_users h |` {u. \<forall>U. h_users h u = Some U \<longrightarrow> us_group U \<notin> set (sl_groups L)}"
  using assms
proof (induction "sl_groups L" arbitrary: h L)
  case Nil
  have "L\<lparr>sl_groups := []\<rparr> = L"
    using Nil(1) by (cases L) simp
  then show ?case
    using Nil by (subst free_groups.simps) (auto simp: fun_upd_idem restrict_map_def simp flip: Nil(1))
next
  case (Cons g gs)
  obtain G where G: "h_groups h g = Some G" "gr_list G = l"
    by (rule owned_child [OF heap_okD(1) [OF Cons.prems(1)] Cons.prems(2), of g]) (auto simp flip: Cons.hyps(2))
  let ?L = "L\<lparr>sl_groups := gs\<rparr>"
  have d: "set (sl_groups L) = insert g (set gs)" "remove1 g (sl_groups L) = gs"
    by (simp_all flip: Cons.hyps(2))
  obtain h1 where h1: "mwSametimeGroup_free g h = Some h1" "heap_ok h1"
    by (rule group_free_ok [OF Cons.prems(1) G(1)])
  have h1_eq: "h1 = h\<lparr>h_lists := (h_lists h)(l \<mapsto> ?L), h_groups := (h_groups h)(g := None), h_users := (h_users h) |` (- set (gr_users G))\<rparr>"
    using group_free_run [OF Cons.prems(1) G(1), of L] h1(1) G(2) Cons.prems(2) d(2) by simp
  have users: "u \<in> set (gr_users G) \<longleftrightarrow> (\<exists>U. h_users h u = Some U \<and> us_group U = g)" for u
    by (rule owned_iff [OF heap_okD(2) [OF Cons.prems(1)] G(1)])
  obtain h2 where h2: "free_groups l h1 = Some h2" "heap_ok h2" "h_lists h2 = (h_lists h1)(l \<mapsto> ?L\<lparr>sl_groups := []\<rparr>)"
    "h_groups h2 = h_groups h1 |` (- set gs)"
    "h_users h2 = h_users h1 |` {u. \<forall>U. h_users h1 u = Some U \<longrightarrow> us_group U \<notin> set gs}"
    using Cons.hyps(1) [of ?L h1] h1(2) by (auto simp: h1_eq)
  have "h_groups h2 = h_groups h |` (- set (sl_groups L))"
    unfolding h2(4) d(1) by (auto simp: h1_eq restrict_map_def fun_eq_iff)
  moreover have "h_users h2 = h_users h |` {u. \<forall>U. h_users h u = Some U \<longrightarrow> us_group U \<notin> set (sl_groups L)}"
    unfolding h2(5) d(1) using users by (auto simp: h1_eq restrict_map_def fun_eq_iff)
  ultimately show ?case
    using Cons.prems(2) h1(1) h2(1 - 3) by (subst free_groups.simps) (simp add: h1_eq flip: Cons.hyps(2))
qed

lemma list_free_run:
  assumes "heap_ok h" "h_lists h l = Some L"
  obtains h' where "mwSametimeList_free l h = Some h'" "heap_ok h'" "h_lists h' = (h_lists h)(l := None)"
    "h_groups h' = h_groups h |` (- set (sl_groups L))"
    "h_users h' = h_users h |` {u. \<forall>U. h_users h u = Some U \<longrightarrow> us_group U \<notin> set (sl_groups L)}"
proof -
  obtain h1 where h1: "free_groups l h = Some h1" "heap_ok h1" "h_lists h1 = (h_lists h)(l \<mapsto> L\<lparr>sl_groups := []\<rparr>)"
    "h_groups h1 = h_groups h |` (- set (sl_groups L))"
    "h_users h1 = h_users h |` {u. \<forall>U. h_users h u = Some U \<longrightarrow> us_group U \<notin> set (sl_groups L)}"
    using free_groups_run [OF assms] by blast
  let ?h = "h1\<lparr>h_lists := (h_lists h1)(l := None)\<rparr>"
  have "h_lists h1 l = Some (L\<lparr>sl_groups := []\<rparr>)"
    by (simp add: h1(3))
  then have "heap_ok ?h"
    using heap_okD [OF h1(2)] owned_free [OF heap_okD(1) [OF h1(2)], of l "L\<lparr>sl_groups := []\<rparr>"]
    by (intro heap_okI) simp_all
  then show thesis
    using that [of ?h] h1 by (simp add: mwSametimeList_free_def list_free_def)
qed

section \<open>Reading lines\<close>

text \<open>A word behind a literal fits the block of the length of the line.\<close>

lemma word_fits:
  assumes "line \<noteq> []"
  shows "block_string (length line) (case sscanf (Lit c # fs) line of Got_s n # _ \<Rightarrow> n | _ \<Rightarrow> [])
      = Some (case sscanf (Lit c # fs) line of Got_s n # _ \<Rightarrow> n | _ \<Rightarrow> [])"
    "block_string (length line) (case sscanf (Lit c # fs) line of _ # Got_s a # _ \<Rightarrow> a | _ \<Rightarrow> [])
      = Some (case sscanf (Lit c # fs) line of _ # Got_s a # _ \<Rightarrow> a | _ \<Rightarrow> [])"
proof -
  obtain x t where line: "line = x # t"
    using assms by (cases line) auto
  have "length w < length line" if "Got_s w \<in> set (sscanf (Lit c # fs) line)" for w
    using that sscanf_length [of w fs t] by (auto simp: line split: if_splits)
  then show "block_string (length line) (case sscanf (Lit c # fs) line of Got_s n # _ \<Rightarrow> n | _ \<Rightarrow> [])
      = Some (case sscanf (Lit c # fs) line of Got_s n # _ \<Rightarrow> n | _ \<Rightarrow> [])"
    "block_string (length line) (case sscanf (Lit c # fs) line of _ # Got_s a # _ \<Rightarrow> a | _ \<Rightarrow> [])
      = Some (case sscanf (Lit c # fs) line of _ # Got_s a # _ \<Rightarrow> a | _ \<Rightarrow> [])"
    using assms by (auto simp: block_string_def simp del: sscanf.simps split: list.splits scanned.splits)
qed

lemma fetch_line_nonempty: "fetch_line sp s = Some (line, rest) \<Longrightarrow> line \<noteq> []"
  by (auto simp: fetch_line_def split: list.splits)

text \<open>A group line always adds a group; a user line adds a user or faults.\<close>

lemma get_group_run:
  assumes "line \<noteq> []" "h_lists h l = Some L"
  obtains G where "get_group line l h = Some (h_next h, set_list l (L\<lparr>sl_groups := sl_groups L @ [h_next h]\<rparr>)
    (set_group (h_next h) G (h\<lparr>h_next := Suc (h_next h)\<rparr>)))" "gr_list G = l" "gr_users G = []"
  using that assms(2)
  by (simp add: get_group_def word_fits [OF assms(1)] str_replace_def new_addr_def set_group_def Let_def split_def del: sscanf.simps)

lemma get_user_run:
  assumes "get_user line (Some g) h = Some h'" "h_groups h g = Some G"
  obtains U where "h' = set_group g (G\<lparr>gr_users := gr_users G @ [h_next h]\<rparr>) (set_user (h_next h) U (h\<lparr>h_next := Suc (h_next h)\<rparr>))"
    "us_group U = g"
proof -
  obtain U where "get_user line (Some g) h = Option.bind (h_groups h g) (\<lambda>G. Some (set_group g (G\<lparr>gr_users := gr_users G @ [h_next h]\<rparr>)
      (set_user (h_next h) U (h\<lparr>h_next := Suc (h_next h)\<rparr>))))" "us_group U = g"
    using assms(1) unfolding get_user_def Let_def
    by (auto simp: new_addr_def set_user_def split_def str_replace_def bind_eq_Some_conv simp del: sscanf.simps)
  then show thesis
    using that assms by simp
qed

lemma get_user_no_group: "get_user line None h = None"
  by (simp add: get_user_def Let_def split_def str_replace_def bind_eq_None_conv del: sscanf.simps)

text \<open>A line keeps the invariant, the list alive, and the current group alive.\<close>

definition list_env :: "addr \<Rightarrow> addr option \<Rightarrow> st_heap \<Rightarrow> bool" where
  "list_env l g h \<longleftrightarrow> heap_ok h \<and> h_lists h l \<noteq> None \<and> (case g of None \<Rightarrow> True | Some g \<Rightarrow> h_groups h g \<noteq> None)"

lemma list_line_cases:
  assumes "list_line l line g h = Some (g', h')"
  shows "get_version line l h = Some h' \<and> g' = g \<or> (\<exists>a. get_group line l h = Some (a, h') \<and> g' = Some a)
    \<or> get_user line g h = Some h' \<and> g' = g \<or> g' = g \<and> h' = h"
  using assms unfolding list_line_def
  by (cases "get_version line l h"; cases "get_group line l h"; cases "get_user line g h") (auto split: if_splits)

lemma list_line_ok:
  assumes "list_line l line g h = Some (g', h')" "list_env l g h" "line \<noteq> []"
  shows "list_env l g' h'"
proof -
  obtain L where L: "heap_ok h" "h_lists h l = Some L"
    using assms(2) by (auto simp: list_env_def)
  consider (version) "get_version line l h = Some h'" "g' = g"
    | (group) a where "get_group line l h = Some (a, h')" "g' = Some a"
    | (user) "get_user line g h = Some h'" "g' = g"
    | (other) "g' = g" "h' = h"
    using list_line_cases [OF assms(1)] by blast
  then show ?thesis
  proof cases
    case version
    then obtain L' where "h' = set_list l L' h" "sl_groups L' = sl_groups L"
      using L(2) by (auto simp: get_version_def Let_def simp del: sscanf.simps)
    then show ?thesis
      using version(2) assms(2) heap_ok_set_list [OF L] by (auto simp: list_env_def set_list_def split: option.splits)
  next
    case group
    obtain G where "get_group line l h = Some (h_next h, set_list l (L\<lparr>sl_groups := sl_groups L @ [h_next h]\<rparr>)
        (set_group (h_next h) G (h\<lparr>h_next := Suc (h_next h)\<rparr>)))" "gr_list G = l" "gr_users G = []"
      by (rule get_group_run [OF assms(3) L(2)])
    then show ?thesis
      using group heap_ok_add_group [OF L, of G] by (auto simp: list_env_def set_list_def set_group_def)
  next
    case user
    then obtain a where a: "g = Some a"
      by (cases g) (auto simp: get_user_no_group)
    then obtain G where G: "h_groups h a = Some G"
      using assms(2) by (auto simp: list_env_def)
    obtain U where "h' = set_group a (G\<lparr>gr_users := gr_users G @ [h_next h]\<rparr>) (set_user (h_next h) U (h\<lparr>h_next := Suc (h_next h)\<rparr>))"
      "us_group U = a"
      by (rule get_user_run [OF user(1) [unfolded a] G])
    then show ?thesis
      using user(2) a heap_ok_add_user [OF L(1) G, of U] L(2) by (auto simp: list_env_def set_user_def set_group_def)
  next
    case other
    then show ?thesis
      using assms(2) by simp
  qed
qed

lemma list_get_ok:
  assumes "list_get sp l s g h = Some h'" "list_env l g h"
  shows "heap_ok h' \<and> h_lists h' l \<noteq> None"
  using assms
proof (induction sp l s g h rule: list_get.induct)
  case (1 sp l s g h)
  show ?case
  proof (cases "fetch_line sp s")
    case None
    then show ?thesis
      using 1(2, 3) by (simp add: list_get.simps [of sp l s] list_env_def)
  next
    case (Some lr)
    obtain line rest where lr: "lr = (line, rest)"
      by (cases lr)
    obtain g1 h1 where st: "list_line l line g h = Some (g1, h1)" "list_get sp l rest g1 h1 = Some h'"
      using 1(2) Some lr by (auto simp: list_get.simps [of sp l s] split: option.splits)
    then show ?thesis
      using 1(1) [OF Some lr [symmetric] st(1) refl st(2)] list_line_ok [OF st(1) 1(3) fetch_line_nonempty] Some lr by blast
  qed
qed

section \<open>All calls\<close>

text \<open>The functions of the interface that change the heap, on live objects as their documentation asks for.\<close>

inductive st_call :: "(guchar \<Rightarrow> bool) \<Rightarrow> st_heap \<Rightarrow> st_heap \<Rightarrow> bool" for sp where
  List_new: "st_call sp h (snd (mwSametimeList_new h))"
| List_setMajor: "mwSametimeList_setMajor l v h = Some h' \<Longrightarrow> st_call sp h h'"
| List_setMinor: "mwSametimeList_setMinor l v h = Some h' \<Longrightarrow> st_call sp h h'"
| List_setMicro: "mwSametimeList_setMicro l v h = Some h' \<Longrightarrow> st_call sp h h'"
| List_free: "mwSametimeList_free l h = Some h' \<Longrightarrow> st_call sp h h'"
| List_load: "mwSametimeList_load sp s h = Some (l, h') \<Longrightarrow> st_call sp h h'"
| List_get: "mwSametimeList_get sp l h b = Some (h', b') \<Longrightarrow> h_lists h l \<noteq> None \<Longrightarrow> st_call sp h h'"
| Group_new: "mwSametimeGroup_new l gt name h = Some (g, h') \<Longrightarrow> st_call sp h h'"
| Group_setAlias: "mwSametimeGroup_setAlias g alias h = Some h' \<Longrightarrow> st_call sp h h'"
| Group_setOpen: "mwSametimeGroup_setOpen g v h = Some h' \<Longrightarrow> st_call sp h h'"
| Group_free: "mwSametimeGroup_free g h = Some h' \<Longrightarrow> st_call sp h h'"
| User_new: "mwSametimeUser_new g ut idb h = Some (u, h') \<Longrightarrow> st_call sp h h'"
| User_setShortName: "mwSametimeUser_setShortName u name h = Some h' \<Longrightarrow> st_call sp h h'"
| User_setAlias: "mwSametimeUser_setAlias u alias h = Some h' \<Longrightarrow> st_call sp h h'"
| User_free: "mwSametimeUser_free u h = Some h' \<Longrightarrow> st_call sp h h'"

lemma list_new_ok:
  assumes "heap_ok h"
  shows "heap_ok (snd (mwSametimeList_new h))" "h_lists (snd (mwSametimeList_new h)) (fst (mwSametimeList_new h)) \<noteq> None"
proof -
  have "heap_ok (h\<lparr>h_next := Suc (h_next h), h_lists := (h_lists h)(h_next h \<mapsto> L)\<rparr>)" if "sl_groups L = []" for L
    using heap_okD [OF assms] owned_new [OF heap_okD(1) [OF assms] _ that, of "h_next h"]
    by (intro heap_okI) auto
  then show "heap_ok (snd (mwSametimeList_new h))" "h_lists (snd (mwSametimeList_new h)) (fst (mwSametimeList_new h)) \<noteq> None"
    by (simp_all add: mwSametimeList_new_def heap_defs)
qed

lemma list_load_ok:
  assumes "heap_ok h" "mwSametimeList_load sp s h = Some (l, h')"
  shows "heap_ok h'"
  using assms list_get_ok [of sp "fst (mwSametimeList_new h)" s None "snd (mwSametimeList_new h)" h'] list_new_ok [OF assms(1)]
  by (auto simp: mwSametimeList_load_def Let_def split_def list_env_def bind_eq_Some_conv)

lemma list_get_call_ok:
  assumes "heap_ok h" "mwSametimeList_get sp l h b = Some (h', b')" "h_lists h l \<noteq> None"
  shows "heap_ok h'"
  using assms list_get_ok [of sp l _ None h h']
  by (auto simp: mwSametimeList_get_def Let_def split_def list_env_def bind_eq_Some_conv split: option.splits)

lemma group_new_ok:
  assumes "heap_ok h" "mwSametimeGroup_new l gt name h = Some (g, h')"
  shows "heap_ok h'"
  using assms heap_ok_add_group [OF assms(1), of l]
  by (auto simp: mwSametimeGroup_new_def bind_eq_Some_conv new_addr_def set_group_def split: option.splits if_splits)

lemma user_new_ok:
  assumes "heap_ok h" "mwSametimeUser_new g ut idb h = Some (u, h')"
  shows "heap_ok h'"
  using assms heap_ok_add_user [OF assms(1), of g]
  by (auto simp: mwSametimeUser_new_def bind_eq_Some_conv new_addr_def set_user_def)

text \<open>What the freeing functions need is there: they only return on live objects.\<close>

lemma frees_live:
  "mwSametimeUser_free u h = Some h' \<Longrightarrow> \<exists>U. h_users h u = Some U"
  "mwSametimeGroup_free g h = Some h' \<Longrightarrow> \<exists>G. h_groups h g = Some G"
  "mwSametimeList_free l h = Some h' \<Longrightarrow> \<exists>L. h_lists h l = Some L"
proof -
  show "mwSametimeUser_free u h = Some h' \<Longrightarrow> \<exists>U. h_users h u = Some U"
    "mwSametimeGroup_free g h = Some h' \<Longrightarrow> \<exists>G. h_groups h g = Some G"
    by (auto simp: mwSametimeUser_free_def user_free_def mwSametimeGroup_free_def group_free_def bind_eq_Some_conv)
  show "mwSametimeList_free l h = Some h' \<Longrightarrow> \<exists>L. h_lists h l = Some L"
    by (auto simp: mwSametimeList_free_def list_free_def bind_eq_Some_conv free_groups.simps [of l h])
qed

lemma frees_ok:
  assumes "heap_ok h"
  shows "mwSametimeUser_free u h = Some h' \<Longrightarrow> heap_ok h'" "mwSametimeGroup_free g h = Some h' \<Longrightarrow> heap_ok h'"
    "mwSametimeList_free l h = Some h' \<Longrightarrow> heap_ok h'"
proof -
  assume r: "mwSametimeUser_free u h = Some h'"
  obtain U where "h_users h u = Some U"
    using frees_live(1) [OF r] by blast
  then obtain h2 where "mwSametimeUser_free u h = Some h2" "heap_ok h2"
    by (rule user_free_ok [OF assms])
  then show "heap_ok h'"
    using r by simp
next
  assume r: "mwSametimeGroup_free g h = Some h'"
  obtain G where "h_groups h g = Some G"
    using frees_live(2) [OF r] by blast
  then obtain h2 where "mwSametimeGroup_free g h = Some h2" "heap_ok h2"
    by (rule group_free_ok [OF assms])
  then show "heap_ok h'"
    using r by simp
next
  assume r: "mwSametimeList_free l h = Some h'"
  obtain L where "h_lists h l = Some L"
    using frees_live(3) [OF r] by blast
  then obtain h2 where "mwSametimeList_free l h = Some h2" "heap_ok h2"
    by (rule list_free_run [OF assms])
  then show "heap_ok h'"
    using r by simp
qed

lemmas setter_defs = mwSametimeList_setMajor_def mwSametimeList_setMinor_def mwSametimeList_setMicro_def
  mwSametimeGroup_setAlias_def mwSametimeGroup_setOpen_def mwSametimeUser_setShortName_def mwSametimeUser_setAlias_def

lemma st_call_ok:
  assumes "st_call sp h h'" "heap_ok h"
  shows "heap_ok h'"
  using assms
proof cases
  case List_new
  then show ?thesis
    using list_new_ok(1) [OF assms(2)] by simp
next
  case List_load
  then show ?thesis
    by (rule list_load_ok [OF assms(2)])
next
  case List_get
  then show ?thesis
    by (rule list_get_call_ok [OF assms(2)])
next
  case Group_new
  then show ?thesis
    by (rule group_new_ok [OF assms(2)])
next
  case User_new
  then show ?thesis
    by (rule user_new_ok [OF assms(2)])
next
  case List_free
  then show ?thesis
    by (rule frees_ok(3) [OF assms(2)])
next
  case Group_free
  then show ?thesis
    by (rule frees_ok(2) [OF assms(2)])
next
  case User_free
  then show ?thesis
    by (rule frees_ok(1) [OF assms(2)])
qed (auto simp: setter_defs bind_eq_Some_conv assms(2) intro: heap_ok_set_list heap_ok_set_group heap_ok_set_user)

lemma st_calls_ok: "(st_call sp)\<^sup>*\<^sup>* h h' \<Longrightarrow> heap_ok h \<Longrightarrow> heap_ok h'"
  by (induction rule: rtranclp_induct) (auto intro: st_call_ok)

text \<open>
  Claim C28. After any sequence of calls from an empty heap, every group is in the list it
  points to, exactly once, and every user in its group, and the other way round; and then
  freeing a live user, group or list returns, touching live memory only.
\<close>

theorem st_list_ownership:
  assumes "(st_call sp)\<^sup>*\<^sup>* st_heap_empty h"
  shows "(\<forall>l L. h_lists h l = Some L \<longrightarrow> distinct (sl_groups L)
      \<and> (\<forall>g. g \<in> set (sl_groups L) \<longleftrightarrow> (\<exists>G. h_groups h g = Some G \<and> gr_list G = l))
      \<and> mwSametimeList_free l h \<noteq> None)
    \<and> (\<forall>g G. h_groups h g = Some G \<longrightarrow> h_lists h (gr_list G) \<noteq> None \<and> distinct (gr_users G)
      \<and> (\<forall>u. u \<in> set (gr_users G) \<longleftrightarrow> (\<exists>U. h_users h u = Some U \<and> us_group U = g))
      \<and> mwSametimeGroup_free g h \<noteq> None)
    \<and> (\<forall>u U. h_users h u = Some U \<longrightarrow> h_groups h (us_group U) \<noteq> None \<and> mwSametimeUser_free u h \<noteq> None)"
proof -
  have ok: "heap_ok h"
    by (rule st_calls_ok [OF assms heap_ok_empty])
  note o1 = heap_okD(1) [OF ok] and o2 = heap_okD(2) [OF ok]
  have "mwSametimeList_free l h \<noteq> None" if "h_lists h l = Some L" for l L
    by (rule list_free_run [OF ok that]) simp
  moreover have "h_lists h (gr_list G) \<noteq> None \<and> mwSametimeGroup_free g h \<noteq> None" if "h_groups h g = Some G" for g G
    by (rule owned_owner [OF o1 that], rule group_free_ok [OF ok that]) simp
  moreover have "h_groups h (us_group U) \<noteq> None \<and> mwSametimeUser_free u h \<noteq> None" if "h_users h u = Some U" for u U
    by (rule owned_owner [OF o2 that], rule user_free_ok [OF ok that]) simp
  ultimately show ?thesis
    using owned_distinct [OF o1] owned_iff [OF o1] owned_distinct [OF o2] owned_iff [OF o2] by auto
qed

text \<open>A list with a group with a user, built by three calls.\<close>

definition example_list :: st_heap where
  "example_list = snd (mwSametimeList_new st_heap_empty)"

definition example_group :: st_heap where
  "example_group = snd (the (mwSametimeGroup_new 0 mwSametimeGroup_NORMAL (Some (ascii ''Work'')) example_list))"

definition example_user :: st_heap where
  "example_user = snd (the (mwSametimeUser_new 1 mwSametimeUser_NORMAL
     \<lparr>ib_user = Some (ascii ''joe''), ib_community = None\<rparr> example_group))"

lemmas example_list_defs = example_list_def mwSametimeList_new_def st_heap_empty_def heap_defs
lemmas example_group_defs = example_group_def mwSametimeGroup_new_def ascii_def
lemmas example_user_defs = example_user_def mwSametimeUser_new_def

lemma example_user_calls: "(st_call sp)\<^sup>*\<^sup>* st_heap_empty example_user"
proof -
  have "st_call sp st_heap_empty example_list"
    unfolding example_list_def by (rule List_new)
  moreover have "mwSametimeGroup_new 0 mwSametimeGroup_NORMAL (Some (ascii ''Work'')) example_list = Some (Some 1, example_group)"
    by (simp add: example_list_defs example_group_defs)
  then have "st_call sp example_list example_group"
    by (rule Group_new)
  moreover have "mwSametimeUser_new 1 mwSametimeUser_NORMAL \<lparr>ib_user = Some (ascii ''joe''), ib_community = None\<rparr> example_group
      = Some (2, example_user)"
    by (simp add: example_list_defs example_group_defs example_user_defs)
  then have "st_call sp example_group example_user"
    by (rule User_new)
  ultimately show ?thesis
    by (meson converse_rtranclp_into_rtranclp rtranclp.rtrancl_refl)
qed

lemma example_user_objects:
  "\<exists>L G U. h_lists example_user 0 = Some L \<and> sl_groups L = [1] \<and> h_groups example_user 1 = Some G \<and> gr_users G = [2]
    \<and> h_users example_user 2 = Some U"
  by (simp add: example_list_defs example_group_defs example_user_defs)

lemma st_list_ownership_witness:
  "\<exists>L. h_lists example_user 0 = Some L \<and> sl_groups L = [1] \<and> mwSametimeList_free 0 example_user \<noteq> None
    \<and> mwSametimeGroup_free 1 example_user \<noteq> None \<and> mwSametimeUser_free 2 example_user \<noteq> None"
  using st_list_ownership [OF example_user_calls [of c_isspace]] example_user_objects by blast

text \<open>
  Freeing a list returns; it frees the list, the groups that point to it and the users
  that point to these groups, leaves every other object as it is, and keeps the ownership
  consistent.
\<close>

theorem mwSametimeList_free_frees:
  assumes "(st_call sp)\<^sup>*\<^sup>* st_heap_empty h" and "h_lists h l = Some L"
  shows "\<exists>h'. mwSametimeList_free l h = Some h' \<and> heap_ok h' \<and> h_lists h' = (h_lists h)(l := None)
    \<and> (\<forall>g. h_groups h' g = Option.bind (h_groups h g) (\<lambda>G. if gr_list G = l then None else Some G))
    \<and> (\<forall>u. h_users h' u = Option.bind (h_users h u) (\<lambda>U.
          Option.bind (h_groups h (us_group U)) (\<lambda>G. if gr_list G = l then None else Some U)))"
proof -
  have ok: "heap_ok h"
    by (rule st_calls_ok [OF assms(1) heap_ok_empty])
  obtain h' where h': "mwSametimeList_free l h = Some h'" "heap_ok h'" "h_lists h' = (h_lists h)(l := None)"
    "h_groups h' = h_groups h |` (- set (sl_groups L))"
    "h_users h' = h_users h |` {u. \<forall>U. h_users h u = Some U \<longrightarrow> us_group U \<notin> set (sl_groups L)}"
    by (rule list_free_run [OF ok assms(2)])
  note groups = owned_iff [OF heap_okD(1) [OF ok] assms(2)]
  have "h_groups h' g = Option.bind (h_groups h g) (\<lambda>G. if gr_list G = l then None else Some G)" for g
    unfolding h'(4) by (cases "h_groups h g") (auto simp: restrict_map_def groups)
  moreover have "h_users h' u = Option.bind (h_users h u) (\<lambda>U.
      Option.bind (h_groups h (us_group U)) (\<lambda>G. if gr_list G = l then None else Some U))" for u
  proof (cases "h_users h u")
    case (Some U)
    obtain G where "h_groups h (us_group U) = Some G"
      by (rule owned_owner [OF heap_okD(2) [OF ok] Some])
    then show ?thesis
      unfolding h'(5) by (simp add: Some restrict_map_def groups)
  qed (simp add: h'(5) restrict_map_def)
  ultimately show ?thesis
    using h'(1 - 3) by blast
qed

lemma mwSametimeList_free_frees_witness:
  "\<exists>h'. mwSametimeList_free 0 example_user = Some h' \<and> h_lists h' 0 = None \<and> h_groups h' 1 = None \<and> h_users h' 2 = None"
proof -
  obtain L where L: "h_lists example_user 0 = Some L"
    using example_user_objects by blast
  obtain h' where h': "mwSametimeList_free 0 example_user = Some h'" "h_lists h' = (h_lists example_user)(0 := None)"
    "\<forall>g. h_groups h' g = Option.bind (h_groups example_user g) (\<lambda>G. if gr_list G = 0 then None else Some G)"
    "\<forall>u. h_users h' u = Option.bind (h_users example_user u) (\<lambda>U.
          Option.bind (h_groups example_user (us_group U)) (\<lambda>G. if gr_list G = 0 then None else Some U))"
    using mwSametimeList_free_frees [OF example_user_calls [of c_isspace] L] by blast
  have "h_groups h' 1 = None" "h_users h' 2 = None"
    unfolding h'(3) [rule_format] h'(4) [rule_format]
    by (simp_all add: example_list_defs example_group_defs example_user_defs)
  then show ?thesis
    using h'(1, 2) by simp
qed

end
