(* ===== verification/St_List_Text.thy ===== *)
theory St_List_Text
  imports St_List_Heap
begin

text \<open>
  The text of contact lists: what \<open>list_store\<close> prints is read back by \<open>list_get\<close>. The
  contents of a list are the tree of its groups and users; printing depends on the tree
  only, and reading a line extends the tree.
\<close>

section \<open>The contents of a list\<close>

datatype st_user = St_User mwSametimeUserType mwIdBlock cstr cstr

datatype st_group = St_Group mwSametimeGroupType bytes cstr bool "st_user list"

datatype st_tree = St_Tree guint32 guint32 guint32 "st_group list"

definition tree_user :: "st_heap \<Rightarrow> addr \<Rightarrow> st_user option" where
  "tree_user h u = map_option (\<lambda>U. St_User (us_type U) (us_id U) (us_name U) (us_alias U)) (h_users h u)"

definition tree_group :: "st_heap \<Rightarrow> addr \<Rightarrow> st_group option" where
  "tree_group h g = do {
     G \<leftarrow> h_groups h g;
     us \<leftarrow> those (map (tree_user h) (gr_users G));
     Some (St_Group (gr_type G) (gr_name G) (gr_alias G) (gr_open G) us)
   }"

definition tree_list :: "st_heap \<Rightarrow> addr \<Rightarrow> st_tree option" where
  "tree_list h l = do {
     L \<leftarrow> h_lists h l;
     gs \<leftarrow> those (map (tree_group h) (sl_groups L));
     Some (St_Tree (sl_major L) (sl_minor L) (sl_micro L) gs)
   }"

text \<open>
  Text that survives: no semicolon, since a semicolon stands for a blank, and no white space
  but blanks. An ID has no \<open>::\<close>, an alias no comma (unless it takes the place of a missing
  name), and a group a name to show.
\<close>

definition plain :: "bytes \<Rightarrow> bool" where
  "plain s \<longleftrightarrow> (\<forall>c \<in> set s. c \<noteq> 0 \<and> c \<noteq> 0x3B \<and> (c_isspace c \<longrightarrow> c = 0x20))"

fun user_storable :: "st_user \<Rightarrow> bool" where
  "user_storable (St_User ut i name alias) \<longleftrightarrow>
     (case ib_user i of None \<Rightarrow> False | Some u \<Rightarrow> plain u \<and> strstr u [0x3A, 0x3A] = None)
     \<and> (case name of None \<Rightarrow> True | Some n \<Rightarrow> plain n)
     \<and> (case alias of None \<Rightarrow> True | Some a \<Rightarrow> plain a \<and> (name = None \<or> 0x2C \<notin> set a))"

fun group_storable :: "st_group \<Rightarrow> bool" where
  "group_storable (St_Group gt name alias op us) \<longleftrightarrow>
     plain name \<and> (case alias of None \<Rightarrow> name \<noteq> [] | Some a \<Rightarrow> plain a \<and> a \<noteq> []) \<and> list_all user_storable us"

fun tree_storable :: "st_tree \<Rightarrow> bool" where
  "tree_storable (St_Tree a b c gs) \<longleftrightarrow> list_all group_storable gs"

text \<open>
  What is read back: the community of a user is not stored, a missing name is the alias or
  empty, an empty alias is missing, and the alias of a group defaults to its name.
\<close>

fun user_norm :: "st_user \<Rightarrow> st_user" where
  "user_norm (St_User ut i name alias) =
     St_User ut \<lparr>ib_user = ib_user i, ib_community = None\<rparr>
       (Some (case name of Some n \<Rightarrow> n | None \<Rightarrow> (case alias of Some a \<Rightarrow> a | None \<Rightarrow> [])))
       (if name = None \<or> alias = Some [] then None else alias)"

fun group_norm :: "st_group \<Rightarrow> st_group" where
  "group_norm (St_Group gt name alias op us) =
     St_Group gt name (Some (case alias of Some a \<Rightarrow> a | None \<Rightarrow> name)) op (map user_norm us)"

fun tree_norm :: "st_tree \<Rightarrow> st_tree" where
  "tree_norm (St_Tree a b c gs) = St_Tree a b c (map group_norm gs)"

text \<open>The lines of a list.\<close>

abbreviation semicolons :: "bytes \<Rightarrow> bytes" where
  "semicolons \<equiv> map (\<lambda>c. if c = 0x20 then 0x3B else c)"

abbreviation blanks :: "bytes \<Rightarrow> bytes" where
  "blanks \<equiv> map (\<lambda>c. if c = 0x3B then 0x20 else c)"

fun user_words :: "st_user \<Rightarrow> bytes \<times> bytes" where
  "user_words (St_User ut i name alias) =
     (semicolons (case ib_user i of Some u \<Rightarrow> u | None \<Rightarrow> []) @ [user_type_to_char ut] @ [0x3A, 0x3A],
      semicolons (case name of Some n \<Rightarrow> n | None \<Rightarrow> (case alias of Some a \<Rightarrow> a | None \<Rightarrow> [])) @ [0x2C]
      @ semicolons (if name = None then [] else (case alias of Some a \<Rightarrow> a | None \<Rightarrow> [])))"

definition user_line :: "st_user \<Rightarrow> bytes" where
  "user_line u = 0x55 # 0x20 # fst (user_words u) @ 0x20 # snd (user_words u)"

fun group_line :: "st_group \<Rightarrow> bytes" where
  "group_line (St_Group gt name alias op us) =
     0x47 # 0x20 # (semicolons name @ [group_type_to_char gt]) @ 0x20 # semicolons (case alias of Some a \<Rightarrow> a | None \<Rightarrow> name)
     @ [0x20, if op then 0x4F else 0x43]"

fun group_users :: "st_group \<Rightarrow> st_user list" where
  "group_users (St_Group gt name alias op us) = us"

definition eol :: "bytes \<Rightarrow> bytes" where
  "eol line = line @ [0x0D, 0x0A]"

definition group_text :: "st_group \<Rightarrow> bytes" where
  "group_text g = eol (group_line g) @ concat (map (\<lambda>u. eol (user_line u)) (group_users g))"

definition version_line :: "guint32 \<Rightarrow> guint32 \<Rightarrow> guint32 \<Rightarrow> bytes" where
  "version_line a b c = ascii ''Version='' @ print_uint a @ 0x2E # print_uint b @ 0x2E # print_uint c"

fun tree_text :: "st_tree \<Rightarrow> bytes" where
  "tree_text (St_Tree a b c gs) = eol (version_line a b c) @ concat (map group_text gs)"

section \<open>Printing depends on the contents\<close>

lemma those_map: "those (map f xs) = Some ys \<longleftrightarrow> list_all2 (\<lambda>x y. f x = Some y) xs ys"
proof (induction xs arbitrary: ys)
  case (Cons x xs)
  then show ?case
    by (cases "f x"; cases ys) (auto simp: bind_eq_Some_conv)
qed auto

lemma ascii_lits:
  "ascii ''U '' = [0x55, 0x20]" "ascii ''G '' = [0x47, 0x20]" "ascii '':: '' = [0x3A, 0x3A, 0x20]" "ascii '','' = [0x2C]"
  "ascii '' '' = [0x20]" "ascii ''.'' = [0x2E]" "ascii ''O'' = [0x4F]" "ascii ''C'' = [0x43]" "ascii ''::'' = [0x3A, 0x3A]"
  "ascii ''Version='' = [0x56, 0x65, 0x72, 0x73, 0x69, 0x6F, 0x6E, 0x3D]"
  by (simp_all add: ascii_def)

lemma user_put_text:
  assumes "tree_user h u = Some t" "user_storable t"
  obtains U where "h_users h u = Some U" "user_put str U = Some (str @ eol (user_line t))"
proof -
  obtain U where U: "h_users h u = Some U" "t = St_User (us_type U) (us_id U) (us_name U) (us_alias U)"
    using assms(1) by (auto simp: tree_user_def)
  obtain i where "ib_user (us_id U) = Some i"
    using assms(2) by (auto simp: U(2) split: option.splits)
  then show thesis
    using that [OF U(1)]
    by (cases "us_name U"; cases "us_alias U") (simp_all add: user_put_def str_replace_def U(2) user_line_def eol_def ascii_lits)
qed

lemma put_users_text:
  assumes "list_all2 (\<lambda>u t. tree_user h u = Some t) us ts" "list_all user_storable ts"
  shows "put_users h str us = Some (str @ concat (map (\<lambda>u. eol (user_line u)) ts))"
  using assms
proof (induction arbitrary: str rule: list_all2_induct)
  case (Cons u us t ts)
  obtain U where "h_users h u = Some U" "user_put str U = Some (str @ eol (user_line t))"
    by (rule user_put_text [OF Cons(1)]) (use Cons.prems in simp)
  then show ?case
    using Cons by simp
qed simp

lemma group_put_text:
  assumes "tree_group h g = Some t" "group_storable t"
  obtains G where "h_groups h g = Some G" "group_put h str G = Some (str @ group_text t)"
proof -
  obtain G us where G: "h_groups h g = Some G" "list_all2 (\<lambda>u t. tree_user h u = Some t) (gr_users G) us"
    "t = St_Group (gr_type G) (gr_name G) (gr_alias G) (gr_open G) us"
    using assms(1) by (auto simp: tree_group_def bind_eq_Some_conv those_map)
  have us: "list_all user_storable us"
    using assms(2) by (simp add: G(3))
  show thesis
    using that [OF G(1)] put_users_text [OF G(2) us]
    by (cases "gr_alias G") (simp_all add: group_put_def str_replace_def G(3) group_text_def eol_def ascii_lits Let_def)
qed

lemma put_groups_text:
  assumes "list_all2 (\<lambda>g t. tree_group h g = Some t) gs ts" "list_all group_storable ts"
  shows "put_groups h str gs = Some (str @ concat (map group_text ts))"
  using assms
proof (induction arbitrary: str rule: list_all2_induct)
  case (Cons g gs t ts)
  obtain G where "h_groups h g = Some G" "group_put h str G = Some (str @ group_text t)"
    by (rule group_put_text [OF Cons(1)]) (use Cons.prems in simp)
  then show ?case
    using Cons by simp
qed simp

lemma list_store_text:
  assumes "tree_list h l = Some t" "tree_storable t"
  shows "list_store l h = Some (tree_text t)"
proof -
  obtain L gs where L: "h_lists h l = Some L" "list_all2 (\<lambda>g t. tree_group h g = Some t) (sl_groups L) gs"
    "t = St_Tree (sl_major L) (sl_minor L) (sl_micro L) gs"
    using assms(1) by (auto simp: tree_list_def bind_eq_Some_conv those_map)
  have gs: "list_all group_storable gs"
    using assms(2) by (simp add: L(3))
  show ?thesis
    using put_groups_text [OF L(2) gs] by (simp add: list_store_def L(1, 3) eol_def version_line_def ascii_lits)
qed

section \<open>Reading lines\<close>

lemma blanks_semicolons [simp]: "plain s \<Longrightarrow> blanks (semicolons s) = s"
  by (induction s) (auto simp: plain_def)

lemma semicolons_no_space:
  assumes "plain s" "c \<in> set (semicolons s)"
  shows "\<not> c_isspace c \<and> c \<noteq> 0"
proof -
  obtain d where d: "d \<in> set s" "c = (if d = 0x20 then 0x3B else d)"
    using assms(2) unfolding set_map by (rule imageE)
  have "\<not> c_isspace 0x3B"
    by (simp add: c_isspace_def)
  then show ?thesis
    using d assms(1) by (cases "d = 0x20") (auto simp: plain_def)
qed

text \<open>A word is a nonempty text without white space.\<close>

definition word_text :: "bytes \<Rightarrow> bool" where
  "word_text w \<longleftrightarrow> w \<noteq> [] \<and> (\<forall>c \<in> set w. \<not> c_isspace c \<and> c \<noteq> 0)"

lemma isspace_lits [simp]:
  "c_isspace 0x20" "\<not> c_isspace 0x3A" "\<not> c_isspace 0x2C" "\<not> c_isspace 0x55" "\<not> c_isspace 0x47" "\<not> c_isspace 0x4F" "\<not> c_isspace 0x43"
  "\<not> c_isspace (user_type_to_char ut)" "\<not> c_isspace (group_type_to_char gt)"
  by (simp_all add: c_isspace_def user_type_to_char_def group_type_to_char_def
      split: mwSametimeUserType.split mwSametimeGroupType.split)

lemma type_chars [simp]:
  "user_type_to_char ut \<noteq> 0" "group_type_to_char gt \<noteq> 0" "user_type_to_char ut \<noteq> 0x3A" "user_type_to_char ut \<noteq> 0x3B"
  "group_type_to_char gt \<noteq> 0x3B" "user_char_to_type (user_type_to_char ut) = ut" "group_char_to_type (group_type_to_char gt) = gt"
  by (simp_all add: user_type_to_char_def group_type_to_char_def user_char_to_type_def group_char_to_type_def
      split: mwSametimeUserType.split mwSametimeGroupType.split)

lemma sscanf_two_words:
  assumes "word_text v" "word_text w" "rest = [] \<or> c_isspace (hd rest)"
  shows "sscanf (Lit c # Space # Scan_s # Space # Scan_s # fs) (c # 0x20 # v @ 0x20 # w @ rest)
    = Got_s v # Got_s w # sscanf fs rest"
proof -
  have "dropWhile c_isspace (v @ x) = v @ x" "dropWhile c_isspace (w @ x) = w @ x" for x
    using assms(1, 2) by (auto simp: word_text_def neq_Nil_conv)
  moreover have "sscanf (Scan_s # Space # Scan_s # fs) (v @ 0x20 # w @ rest) = Got_s v # sscanf (Space # Scan_s # fs) (0x20 # w @ rest)"
    using assms(1) by (intro sscanf_word) (auto simp: word_text_def)
  moreover have "sscanf (Scan_s # fs) (w @ rest) = Got_s w # sscanf fs rest"
    using assms(2, 3) by (intro sscanf_word) (auto simp: word_text_def)
  ultimately show ?thesis
    by (simp del: sscanf.simps(4))
qed

lemma user_words_text: "user_storable u \<Longrightarrow> word_text (fst (user_words u)) \<and> word_text (snd (user_words u))"
  by (cases u) (auto simp: word_text_def dest: semicolons_no_space simp del: set_map split: option.splits)

lemma user_line_scan:
  assumes "user_storable u"
  shows "sscanf [Lit 0x55, Space, Scan_s, Space, Scan_s] (user_line u) = [Got_s (fst (user_words u)), Got_s (snd (user_words u))]"
  using sscanf_two_words [where v = "fst (user_words u)" and w = "snd (user_words u)" and rest = "[]" and c = "0x55" and fs = "[]"]
    user_words_text [OF assms]
  by (simp add: user_line_def del: sscanf.simps) simp

lemma user_words_split:
  assumes "user_storable (St_User ut i name alias)"
  shows "\<exists>v. ib_user i = Some v \<and> blanks (fst (user_words (St_User ut i name alias))) \<noteq> []
      \<and> split_type (blanks (fst (user_words (St_User ut i name alias)))) = Some (v, user_type_to_char ut)"
    and "\<exists>n. blanks (snd (user_words (St_User ut i name alias))) \<noteq> []
      \<and> split_name (blanks (snd (user_words (St_User ut i name alias)))) = (n, if name = None \<or> alias = Some [] then None else alias)
      \<and> Some n = (case name of Some n \<Rightarrow> Some n | None \<Rightarrow> (case alias of Some a \<Rightarrow> Some a | None \<Rightarrow> Some []))"
proof -
  obtain v where v: "ib_user i = Some v" "plain v" "strstr v [0x3A, 0x3A] = None"
    using assms by (auto split: option.splits)
  then show "\<exists>v. ib_user i = Some v \<and> blanks (fst (user_words (St_User ut i name alias))) \<noteq> []
      \<and> split_type (blanks (fst (user_words (St_User ut i name alias)))) = Some (v, user_type_to_char ut)"
    using strstr_colons [OF v(3), of "user_type_to_char ut" "[]"]
    by (simp add: split_type_def ascii_lits nth_append del: map_map)
  show "\<exists>n. blanks (snd (user_words (St_User ut i name alias))) \<noteq> []
      \<and> split_name (blanks (snd (user_words (St_User ut i name alias)))) = (n, if name = None \<or> alias = Some [] then None else alias)
      \<and> Some n = (case name of Some n \<Rightarrow> Some n | None \<Rightarrow> (case alias of Some a \<Rightarrow> Some a | None \<Rightarrow> Some []))"
    using assms strrchr_last [of "0x2C"]
    by (cases name; cases "alias") (simp_all add: split_name_def del: map_map)
qed

text \<open>The effect of a user line.\<close>

lemma get_user_line:
  assumes "user_storable u" "h_groups h g = Some G"
  obtains U where "get_user (user_line u) (Some g) h = Some (set_group g (G\<lparr>gr_users := gr_users G @ [h_next h]\<rparr>)
      (set_user (h_next h) U (h\<lparr>h_next := Suc (h_next h)\<rparr>)))"
    "us_group U = g" "St_User (us_type U) (us_id U) (us_name U) (us_alias U) = user_norm u"
proof -
  obtain ut i name nick where u: "u = St_User ut i name nick"
    by (cases u)
  obtain v where v: "ib_user i = Some v" "blanks (fst (user_words u)) \<noteq> []" "split_type (blanks (fst (user_words u))) = Some (v, user_type_to_char ut)"
    using user_words_split(1) assms(1) unfolding u by blast
  obtain n where n: "blanks (snd (user_words u)) \<noteq> []" "split_name (blanks (snd (user_words u))) = (n, if name = None \<or> nick = Some [] then None else nick)"
    "Some n = (case name of Some n \<Rightarrow> Some n | None \<Rightarrow> (case nick of Some a \<Rightarrow> Some a | None \<Rightarrow> Some []))"
    using user_words_split(2) assms(1) unfolding u by blast
  have fit: "block_string (length (user_line u)) (fst (user_words u)) = Some (fst (user_words u))"
    "block_string (length (user_line u)) (snd (user_words u)) = Some (snd (user_words u))"
    by (simp_all add: block_string_def user_line_def)
  let ?U = "\<lparr>us_group = g, us_type = ut, us_id = \<lparr>ib_user = Some v, ib_community = None\<rparr>, us_name = Some n,
    us_alias = (if name = None \<or> nick = Some [] then None else nick)\<rparr>"
  have "get_user (user_line u) (Some g) h = Some (set_group g (G\<lparr>gr_users := gr_users G @ [h_next h]\<rparr>)
      (set_user (h_next h) ?U (h\<lparr>h_next := Suc (h_next h)\<rparr>)))"
    using assms(2) v(2, 3) n(1, 2)
    by (simp add: get_user_def user_line_scan [OF assms(1)] fit str_replace_def new_addr_def Let_def set_user_def del: sscanf.simps)
  then show thesis
    using that [of ?U] v(1) n(3) by (auto simp: u split: option.splits)
qed

text \<open>The effect of a group line.\<close>

fun no_users :: "st_group \<Rightarrow> st_group" where
  "no_users (St_Group gt name alias op us) = St_Group gt name alias op []"

lemma group_line_scan:
  fixes name nick :: bytes and gt :: mwSametimeGroupType
  assumes "plain name" "plain nick" "nick \<noteq> []" "\<not> c_isspace c"
  defines "v \<equiv> semicolons name @ [group_type_to_char gt]"
  shows "sscanf [Lit 0x47, Space, Scan_s, Space, Scan_s, Space, Scan_c, Space] (0x47 # 0x20 # v @ 0x20 # semicolons nick @ [0x20, c])
    = [Got_s v, Got_s (semicolons nick), Got_c c]"
proof -
  have "word_text v" "word_text (semicolons nick)"
    using assms(1 - 3) by (auto simp: word_text_def v_def dest: semicolons_no_space simp del: set_map)
  then show ?thesis
    using sscanf_two_words [where v = v and w = "semicolons nick" and rest = "[0x20, c]" and c = "0x47" and fs = "[Space, Scan_c, Space]"] assms(4)
    by (simp del: sscanf.simps(2, 4))
qed

lemma get_group_line:
  assumes "group_storable t" "h_lists h l = Some L"
  obtains G where "get_group (group_line t) l h = Some (h_next h, set_list l (L\<lparr>sl_groups := sl_groups L @ [h_next h]\<rparr>)
      (set_group (h_next h) G (h\<lparr>h_next := Suc (h_next h)\<rparr>)))"
    "gr_list G = l" "gr_users G = []" "St_Group (gr_type G) (gr_name G) (gr_alias G) (gr_open G) [] = group_norm (no_users t)"
proof -
  obtain gt name nick op us where t: "t = St_Group gt name nick op us"
    by (cases t)
  define a where "a = (case nick of Some a \<Rightarrow> a | None \<Rightarrow> name)"
  define v where "v = semicolons name @ [group_type_to_char gt]"
  define c where "c = (if op then 0x4F else 0x43 :: guchar)"
  have pl: "plain name" "plain a" "a \<noteq> []"
    using assms(1) by (auto simp: t a_def split: option.splits)
  have line: "group_line t = 0x47 # 0x20 # v @ 0x20 # semicolons a @ [0x20, c]"
    by (simp add: t v_def a_def c_def)
  have scan: "sscanf [Lit 0x47, Space, Scan_s, Space, Scan_s, Space, Scan_c, Space] (group_line t)
      = [Got_s v, Got_s (semicolons a), Got_c c]"
    unfolding line v_def by (rule group_line_scan [OF pl]) (simp add: c_def)
  have fit: "block_string (length (group_line t)) v = Some v"
    "block_string (length (group_line t)) (semicolons a) = Some (semicolons a)"
    by (simp_all add: block_string_def line)
  have v: "blanks v = name @ [group_type_to_char gt]" "blanks (semicolons a) = a" "v \<noteq> []"
    using pl by (simp_all add: v_def del: map_map)
  let ?G = "\<lparr>gr_list = l, gr_type = gt, gr_name = name, gr_alias = Some a, gr_open = op, gr_users = []\<rparr>"
  have "get_group (group_line t) l h = Some (h_next h, set_list l (L\<lparr>sl_groups := sl_groups L @ [h_next h]\<rparr>)
      (set_group (h_next h) ?G (h\<lparr>h_next := Suc (h_next h)\<rparr>)))"
    using assms(2)
    by (simp add: get_group_def scan fit str_replace_def v new_addr_def Let_def set_group_def c_def del: sscanf.simps map_map)
  then show thesis
    using that [of ?G] by (simp add: t a_def)
qed

lemma get_version_line:
  assumes "h_lists h l = Some L"
  shows "get_version (version_line a b c) l h = Some (set_list l (L\<lparr>sl_major := a, sl_minor := b, sl_micro := c\<rparr>) h)"
proof -
  have lits: "sscanf (map Lit s @ fs) (s @ r) = sscanf fs r" for s fs r
    by (induction s) simp_all
  have nd: "\<not> c_isdigit 0x2E"
    by (simp add: c_isdigit_def)
  have "sscanf (map Lit (ascii ''Version='') @ [Scan_u, Lit 0x2E, Scan_u, Lit 0x2E, Scan_u, Space]) (version_line a b c) = [Got_u a, Got_u b, Got_u c]"
    unfolding version_line_def lits
    using sscanf_print_uint [of "0x2E # print_uint b @ 0x2E # print_uint c" "[Lit 0x2E, Scan_u, Lit 0x2E, Scan_u, Space]" a]
      sscanf_print_uint [of "0x2E # print_uint c" "[Lit 0x2E, Scan_u, Space]" b] sscanf_print_uint [of "[]" "[Space]" c] nd
    by (simp del: sscanf.simps(6))
  then show ?thesis
    using assms by (simp add: get_version_def del: sscanf.simps)
qed

text \<open>The loop takes one line at a time.\<close>

definition space_ok :: "(guchar \<Rightarrow> bool) \<Rightarrow> bool" where
  "space_ok sp \<longleftrightarrow> sp 0x0A \<and> sp 0x0D \<and> \<not> sp 0x56 \<and> \<not> sp 0x47 \<and> \<not> sp 0x55"

definition line_text :: "bytes \<Rightarrow> bool" where
  "line_text line \<longleftrightarrow> (\<exists>c t. line = c # t \<and> c \<in> {0x56, 0x47, 0x55}) \<and> (\<forall>c \<in> set line. \<not> line_end c \<and> c \<noteq> 0)"

lemma list_get_eol:
  assumes "space_ok sp" "line_text line"
  shows "list_get sp l (eol line @ rest) g h = Option.bind (list_line l line g h) (\<lambda>(g, h). list_get sp l rest g h)"
proof -
  obtain c t where line: "line = c # t" "\<not> sp c" "\<forall>x \<in> set t. \<not> line_end x"
    using assms by (auto simp: line_text_def space_ok_def)
  have "takeWhile (\<lambda>c. \<not> line_end c) (t @ 0x0D # x) = t" "dropWhile (\<lambda>c. \<not> line_end c) (t @ 0x0D # x) = 0x0D # x" for x
    using line(3) by (auto simp: takeWhile_append dropWhile_append line_end_def)
  then have fetch: "fetch_line sp (eol line @ rest) = Some (line, 0x0A # rest)"
    using line(1, 2) by (simp add: fetch_line_def eol_def)
  have "fetch_line sp (0x0A # rest) = fetch_line sp rest"
    using assms(1) by (simp add: fetch_line_def space_ok_def)
  then have "list_get sp l (0x0A # rest) g h = list_get sp l rest g h" for g h
    by (simp add: list_get.simps [of sp l "0x0A # rest"] list_get.simps [of sp l rest])
  then show ?thesis
    unfolding list_get.simps [of sp l "eol line @ rest"] fetch by (auto split: option.splits)
qed

lemma line_end_space: "line_end c \<Longrightarrow> c_isspace c"
  by (auto simp: line_end_def c_isspace_def)

lemma line_end_blank [simp]: "\<not> line_end 0x20"
  by (simp add: line_end_def)

lemma user_line_text: "user_storable u \<Longrightarrow> line_text (user_line u)"
  using user_words_text [of u] by (auto simp: line_text_def user_line_def word_text_def dest: line_end_space)

lemma group_line_text: "group_storable t \<Longrightarrow> line_text (group_line t)"
  by (cases t) (auto simp: line_text_def dest: semicolons_no_space line_end_space simp del: set_map split: option.splits if_splits)

lemma version_line_text: "line_text (version_line a b c)"
proof -
  have dig: "c_isdigit x \<Longrightarrow> \<not> line_end x \<and> x \<noteq> 0" for x
    using c_isdigit_other(1) [of x] line_end_space [of x] by (auto simp: c_isdigit_def)
  then show ?thesis
    using print_nat_digits by (auto simp: line_text_def version_line_def ascii_lits print_uint_def line_end_def)
qed

section \<open>Reading extends the contents\<close>

text \<open>
  The state between two lines: the list has the contents \<open>t\<close>, and the current group is the
  last one.
\<close>

definition reading :: "st_heap \<Rightarrow> addr \<Rightarrow> addr option \<Rightarrow> st_tree \<Rightarrow> bool" where
  "reading h l g t \<longleftrightarrow> heap_ok h \<and> tree_list h l = Some t
     \<and> (\<exists>L. h_lists h l = Some L \<and> (case g of None \<Rightarrow> sl_groups L = [] | Some a \<Rightarrow> sl_groups L \<noteq> [] \<and> last (sl_groups L) = a))"

lemma tree_listD:
  assumes "tree_list h l = Some (St_Tree a b c ts)" "h_lists h l = Some L"
  shows "sl_major L = a" "sl_minor L = b" "sl_micro L = c" "list_all2 (\<lambda>g t. tree_group h g = Some t) (sl_groups L) ts"
  using assms by (auto simp: tree_list_def bind_eq_Some_conv those_map)

lemma tree_group_cong:
  assumes "h_groups h' g = h_groups h g" "\<And>G u. h_groups h g = Some G \<Longrightarrow> u \<in> set (gr_users G) \<Longrightarrow> h_users h' u = h_users h u"
  shows "tree_group h' g = tree_group h g"
proof (cases "h_groups h g")
  case (Some G)
  then have "map (tree_user h') (gr_users G) = map (tree_user h) (gr_users G)"
    using assms(2) by (auto simp: tree_user_def)
  then show ?thesis
    using assms(1) Some by (simp add: tree_group_def del: map_eq_conv)
qed (simp add: tree_group_def assms(1))

lemma live_user:
  assumes "heap_ok h" "h_groups h g = Some G" "u \<in> set (gr_users G)"
  shows "u < h_next h"
  using owned_child [OF heap_okD(2) [OF assms(1)] assms(2, 3)] live_below_next(3) [OF assms(1)] by blast

lemma live_group:
  assumes "heap_ok h" "h_lists h l = Some L" "g \<in> set (sl_groups L)"
  shows "g < h_next h"
  using owned_child [OF heap_okD(1) [OF assms(1)] assms(2, 3)] live_below_next(2) [OF assms(1)] by blast

lemma tree_add_group:
  fixes h :: st_heap and L :: mwSametimeList and G :: mwSametimeGroup and l :: addr
  assumes "heap_ok h" "h_lists h l = Some L" "tree_list h l = Some (St_Tree a b c ts)" "gr_users G = []"
  defines "h' \<equiv> set_list l (L\<lparr>sl_groups := sl_groups L @ [h_next h]\<rparr>) (set_group (h_next h) G (h\<lparr>h_next := Suc (h_next h)\<rparr>))"
  shows "tree_list h' l = Some (St_Tree a b c (ts @ [St_Group (gr_type G) (gr_name G) (gr_alias G) (gr_open G) []]))"
proof -
  note L = tree_listD [OF assms(3, 2)]
  have "tree_group h' g = tree_group h g" if "g \<in> set (sl_groups L)" for g
    using live_group [OF assms(1, 2) that] by (intro tree_group_cong) (simp_all add: h'_def set_list_def set_group_def)
  then have "list_all2 (\<lambda>g t. tree_group h' g = Some t) (sl_groups L) ts"
    using L(4) by (auto simp: list_all2_conv_all_nth)
  moreover have "tree_group h' (h_next h) = Some (St_Group (gr_type G) (gr_name G) (gr_alias G) (gr_open G) [])"
    by (simp add: tree_group_def h'_def set_list_def set_group_def assms(4))
  ultimately have "list_all2 (\<lambda>g t. tree_group h' g = Some t) (sl_groups L @ [h_next h])
      (ts @ [St_Group (gr_type G) (gr_name G) (gr_alias G) (gr_open G) []])"
    by (intro list_all2_appendI) simp_all
  moreover have "h_lists h' l = Some (L\<lparr>sl_groups := sl_groups L @ [h_next h]\<rparr>)"
    by (simp add: h'_def set_list_def)
  ultimately show ?thesis
    using L(1 - 3) unfolding tree_list_def bind_eq_Some_conv by (fastforce simp: those_map simp del: map_append)
qed

lemma tree_add_user:
  fixes h :: st_heap and G :: mwSametimeGroup and U :: mwSametimeUser and g :: addr
  assumes "heap_ok h" "h_lists h l = Some L" "sl_groups L = as @ [g]" "h_groups h g = Some G"
    "tree_list h l = Some (St_Tree a b c (ts @ [St_Group gt n al op us]))"
  defines "h' \<equiv> set_group g (G\<lparr>gr_users := gr_users G @ [h_next h]\<rparr>) (set_user (h_next h) U (h\<lparr>h_next := Suc (h_next h)\<rparr>))"
  shows "tree_list h' l = Some (St_Tree a b c (ts @ [St_Group gt n al op (us @ [St_User (us_type U) (us_id U) (us_name U) (us_alias U)])]))"
proof -
  note L = tree_listD [OF assms(5, 2)]
  have old: "h_users h' u = h_users h u" if "h_groups h x = Some X" "u \<in> set (gr_users X)" for x X u
    using live_user [OF assms(1) that] by (simp add: h'_def set_group_def set_user_def)
  have "g \<notin> set as"
    using owned_distinct [OF heap_okD(1) [OF assms(1)] assms(2)] by (simp add: assms(3))
  then have "tree_group h' x = tree_group h x" if "x \<in> set as" for x
    using that old by (intro tree_group_cong) (auto simp: h'_def set_group_def set_user_def)
  moreover have all: "list_all2 (\<lambda>g t. tree_group h g = Some t) as ts" "tree_group h g = Some (St_Group gt n al op us)"
    using L(4) by (simp_all add: assms(3) list_all2_append2 list_all2_Cons2) (auto simp: list_all2_append1 list_all2_Cons1)
  ultimately have 1: "list_all2 (\<lambda>g t. tree_group h' g = Some t) as ts"
    by (auto simp: list_all2_conv_all_nth)
  have "map (tree_user h') (gr_users G) = map (tree_user h) (gr_users G)"
    using old [OF assms(4)] by (auto simp: tree_user_def)
  moreover have us: "list_all2 (\<lambda>u t. tree_user h u = Some t) (gr_users G) us"
    and G: "gr_type G = gt" "gr_name G = n" "gr_alias G = al" "gr_open G = op"
    using all(2) by (auto simp: tree_group_def assms(4) bind_eq_Some_conv those_map)
  ultimately have "list_all2 (\<lambda>u t. tree_user h' u = Some t) (gr_users G) us"
    by (auto simp: list_all2_conv_all_nth)
  moreover have "tree_user h' (h_next h) = Some (St_User (us_type U) (us_id U) (us_name U) (us_alias U))"
    by (simp add: tree_user_def h'_def set_group_def set_user_def)
  ultimately have "those (map (tree_user h') (gr_users G @ [h_next h])) = Some (us @ [St_User (us_type U) (us_id U) (us_name U) (us_alias U)])"
    unfolding those_map by (intro list_all2_appendI) simp_all
  then have "tree_group h' g = Some (St_Group gt n al op (us @ [St_User (us_type U) (us_id U) (us_name U) (us_alias U)]))"
    using G by (simp add: tree_group_def h'_def set_group_def del: map_append)
  then have "those (map (tree_group h') (sl_groups L))
      = Some (ts @ [St_Group gt n al op (us @ [St_User (us_type U) (us_id U) (us_name U) (us_alias U)])])"
    unfolding those_map assms(3) using 1 by (intro list_all2_appendI) simp_all
  then show ?thesis
    using L(1 - 3) assms(2) by (simp add: tree_list_def h'_def set_group_def set_user_def del: map_append)
qed

lemma read_user:
  assumes "reading h l (Some g) (St_Tree a b c (ts @ [St_Group gt n al op us]))" "user_storable u"
  obtains h' where "list_line l (user_line u) (Some g) h = Some (Some g, h')"
    "reading h' l (Some g) (St_Tree a b c (ts @ [St_Group gt n al op (us @ [user_norm u])]))"
proof -
  obtain L where L: "heap_ok h" "h_lists h l = Some L" "sl_groups L = butlast (sl_groups L) @ [g]"
    "tree_list h l = Some (St_Tree a b c (ts @ [St_Group gt n al op us]))" "g \<in> set (sl_groups L)"
    using assms(1) by (auto simp: reading_def)
  obtain G where G: "h_groups h g = Some G"
    using owned_child [OF heap_okD(1) [OF L(1)] L(2, 5)] by blast
  obtain U where U: "get_user (user_line u) (Some g) h = Some (set_group g (G\<lparr>gr_users := gr_users G @ [h_next h]\<rparr>)
      (set_user (h_next h) U (h\<lparr>h_next := Suc (h_next h)\<rparr>)))" "us_group U = g"
    "St_User (us_type U) (us_id U) (us_name U) (us_alias U) = user_norm u"
    by (rule get_user_line [OF assms(2) G])
  let ?h = "set_group g (G\<lparr>gr_users := gr_users G @ [h_next h]\<rparr>) (set_user (h_next h) U (h\<lparr>h_next := Suc (h_next h)\<rparr>))"
  have "list_line l (user_line u) (Some g) h = Some (Some g, ?h)"
    using U(1) by (simp add: list_line_def user_line_def)
  moreover have "reading ?h l (Some g) (St_Tree a b c (ts @ [St_Group gt n al op (us @ [user_norm u])]))"
    using heap_ok_add_user [OF L(1) G U(2)] tree_add_user [OF L(1, 2, 3) G L(4), of U] L(2, 3, 5)
    by (auto simp: reading_def U(3) set_group_def set_user_def) (metis last_snoc)
  ultimately show thesis
    by (rule that)
qed

lemma read_users:
  assumes "space_ok sp" "reading h l (Some g) (St_Tree a b c (ts @ [St_Group gt n al op us]))" "list_all user_storable vs"
  shows "\<exists>h'. list_get sp l (concat (map (\<lambda>u. eol (user_line u)) vs) @ rest) (Some g) h = list_get sp l rest (Some g) h'
    \<and> reading h' l (Some g) (St_Tree a b c (ts @ [St_Group gt n al op (us @ map user_norm vs)]))"
  using assms(2, 3)
proof (induction vs arbitrary: h us)
  case (Cons u vs)
  obtain h1 where h1: "list_line l (user_line u) (Some g) h = Some (Some g, h1)"
    "reading h1 l (Some g) (St_Tree a b c (ts @ [St_Group gt n al op (us @ [user_norm u])]))"
    by (rule read_user [OF Cons.prems(1), of u]) (use Cons.prems(2) in simp)
  obtain h2 where "list_get sp l (concat (map (\<lambda>u. eol (user_line u)) vs) @ rest) (Some g) h1 = list_get sp l rest (Some g) h2"
    "reading h2 l (Some g) (St_Tree a b c (ts @ [St_Group gt n al op ((us @ [user_norm u]) @ map user_norm vs)]))"
    using Cons.IH [OF h1(2)] Cons.prems(2) by auto
  then show ?case
    using h1(1) list_get_eol [OF assms(1) user_line_text, of u l "concat (map (\<lambda>u. eol (user_line u)) vs) @ rest" "Some g" h] Cons.prems(2)
    by (intro exI [of _ h2]) simp
qed auto

lemma read_group:
  assumes "space_ok sp" "reading h l g (St_Tree a b c ts)" "group_storable t"
  shows "\<exists>g' h'. list_get sp l (group_text t @ rest) g h = list_get sp l rest (Some g') h'
    \<and> reading h' l (Some g') (St_Tree a b c (ts @ [group_norm t]))"
proof -
  obtain gt name nick op us where t: "t = St_Group gt name nick op us"
    by (cases t)
  define al where "al = Some (case nick of Some a \<Rightarrow> a | None \<Rightarrow> name)"
  obtain L where L: "heap_ok h" "h_lists h l = Some L" "tree_list h l = Some (St_Tree a b c ts)"
    using assms(2) by (auto simp: reading_def)
  obtain G where G: "get_group (group_line t) l h = Some (h_next h, set_list l (L\<lparr>sl_groups := sl_groups L @ [h_next h]\<rparr>)
      (set_group (h_next h) G (h\<lparr>h_next := Suc (h_next h)\<rparr>)))" "gr_list G = l" "gr_users G = []"
    "St_Group (gr_type G) (gr_name G) (gr_alias G) (gr_open G) [] = group_norm (no_users t)"
    by (rule get_group_line [OF assms(3) L(2)])
  let ?h = "set_list l (L\<lparr>sl_groups := sl_groups L @ [h_next h]\<rparr>) (set_group (h_next h) G (h\<lparr>h_next := Suc (h_next h)\<rparr>))"
  have "reading ?h l (Some (h_next h)) (St_Tree a b c (ts @ [St_Group gt name al op []]))"
    using heap_ok_add_group [OF L(1, 2) G(2, 3)] tree_add_group [OF L G(3)] G(4)
    by (auto simp: reading_def set_list_def t al_def)
  then obtain h' where h': "list_get sp l (concat (map (\<lambda>u. eol (user_line u)) us) @ rest) (Some (h_next h)) ?h = list_get sp l rest (Some (h_next h)) h'"
    "reading h' l (Some (h_next h)) (St_Tree a b c (ts @ [St_Group gt name al op ([] @ map user_norm us)]))"
    using read_users [OF assms(1), of ?h l "h_next h" a b c ts gt name al op "[]" us rest] assms(3) by (auto simp: t)
  have "list_line l (group_line t) g h = Some (Some (h_next h), ?h)"
    using G(1) by (simp add: list_line_def t)
  then have "list_get sp l (group_text t @ rest) g h = list_get sp l rest (Some (h_next h)) h'"
    using list_get_eol [OF assms(1) group_line_text [OF assms(3)], of l "concat (map (\<lambda>u. eol (user_line u)) us) @ rest" g h] h'(1)
    by (simp add: group_text_def t del: group_line.simps)
  then show ?thesis
    using h'(2) by (auto simp: t al_def)
qed

lemma read_groups:
  assumes "space_ok sp" "reading h l g (St_Tree a b c ts)" "list_all group_storable gs"
  shows "\<exists>h' g'. list_get sp l (concat (map group_text gs)) g h = Some h' \<and> reading h' l g' (St_Tree a b c (ts @ map group_norm gs))"
  using assms(2, 3)
proof (induction gs arbitrary: h g ts)
  case Nil
  have "list_get sp l [] g h = Some h"
    by (subst list_get.simps) (simp add: fetch_line_def)
  then show ?case
    using Nil by auto
next
  case (Cons t gs)
  obtain g1 h1 where h1: "list_get sp l (group_text t @ concat (map group_text gs)) g h = list_get sp l (concat (map group_text gs)) (Some g1) h1"
    "reading h1 l (Some g1) (St_Tree a b c (ts @ [group_norm t]))"
    using read_group [OF assms(1) Cons.prems(1), of t "concat (map group_text gs)"] Cons.prems(2) by auto
  then show ?case
    using Cons.IH [OF h1(2)] Cons.prems(2) by simp
qed

text \<open>Reading the text of a list into a new one.\<close>

lemma read_tree:
  assumes "space_ok sp" "reading h l None (St_Tree x y z [])" "tree_storable t"
  shows "\<exists>h' g'. list_get sp l (tree_text t) None h = Some h' \<and> reading h' l g' (tree_norm t)"
proof -
  obtain a b c gs where t: "t = St_Tree a b c gs"
    by (cases t)
  obtain L where L: "heap_ok h" "h_lists h l = Some L" "sl_groups L = []"
    using assms(2) by (auto simp: reading_def)
  let ?h = "set_list l (L\<lparr>sl_major := a, sl_minor := b, sl_micro := c\<rparr>) h"
  have "reading ?h l None (St_Tree a b c [])"
    using heap_ok_set_list [OF L(1, 2)] L(3) by (simp add: reading_def set_list_def tree_list_def)
  moreover have "list_line l (version_line a b c) None h = Some (None, ?h)"
    using get_version_line [OF L(2), of a b c] by (simp add: list_line_def version_line_def ascii_lits)
  ultimately show ?thesis
    using list_get_eol [OF assms(1) version_line_text, of l a b c "concat (map group_text gs)" None h]
      read_groups [OF assms(1), of ?h l None a b c "[]" gs] assms(3)
    by (simp add: t)
qed

lemma new_list_reading:
  assumes "heap_ok h"
  shows "reading (snd (mwSametimeList_new h)) (fst (mwSametimeList_new h)) None (St_Tree ST_LIST_MAJOR ST_LIST_MINOR ST_LIST_MICRO [])"
  using list_new_ok(1) [OF assms] by (simp add: reading_def tree_list_def mwSametimeList_new_def heap_defs)

section \<open>Properties\<close>

lemma eol_no_nul: "0 \<in> set (eol line) \<longleftrightarrow> 0 \<in> set line"
  by (simp add: eol_def)

lemma tree_text_no_nul:
  assumes "tree_storable t"
  shows "0 \<notin> set (tree_text t)"
proof -
  have line: "line_text x \<Longrightarrow> 0 \<notin> set (eol x)" for x
    by (auto simp: line_text_def eol_no_nul)
  have "0 \<notin> set (group_text g)" if "group_storable g" for g
    using that line [OF group_line_text [OF that]] line [OF user_line_text]
    by (cases g) (auto simp: group_text_def list_all_iff simp del: group_line.simps)
  then show ?thesis
    using assms line [OF version_line_text] by (cases t) (auto simp: list_all_iff)
qed

lemma tree_text_nonempty: "tree_text t \<noteq> []"
  by (cases t) (simp add: eol_def)

text \<open>The writer writes the text as a string of the protocol as long as the length fits its 16 bits.\<close>

lemma list_put_writes:
  assumes "tree_list h l = Some t" "tree_storable t" "length (tree_text t) < 2 ^ 16"
  obtains b' where "mwSametimeList_put l h b = Some b'" "b' = exec_state (mwString_put (Some (tree_text t))) b"
proof -
  have len: "unat (of_nat (length (tree_text t)) :: guint16) = length (tree_text t)"
    using assms(3) by (simp add: unat_of_nat16)
  show thesis
    using that list_store_text [OF assms(1, 2)]
    by (simp add: mwSametimeList_put_def Let_def len mwString_put_def mwPutBuffer_write_def tree_text_nonempty)
qed

text \<open>
  Claim C29. A contact list that is written to a buffer and read from it into a new list has the
  contents it had, up to what the format cannot express; the same holds for the text form,
  and reading returns on it.
\<close>

theorem st_list_round_trip:
  assumes "(st_call sp)\<^sup>*\<^sup>* st_heap_empty h" and "tree_list h l = Some t" and "tree_storable t"
    and "length (tree_text t) < 2 ^ 16" and "space_ok sp"
  shows "\<exists>s l' h' b h'' b'. mwSametimeList_store l h = Some s
    \<and> mwSametimeList_load sp s h = Some (l', h') \<and> tree_list h' l' = Some (tree_norm t)
    \<and> mwSametimeList_put l h mwPutBuffer_new = Some b
    \<and> mwSametimeList_get sp (fst (mwSametimeList_new h)) (snd (mwSametimeList_new h))
        (mwGetBuffer_wrap (Some (mwPutBuffer_finalize b))) = Some (h'', b')
    \<and> \<not> gb_error b' \<and> tree_list h'' (fst (mwSametimeList_new h)) = Some (tree_norm t)"
proof -
  let ?l = "fst (mwSametimeList_new h)" and ?h = "snd (mwSametimeList_new h)"
  have ok: "heap_ok h"
    by (rule st_calls_ok [OF assms(1) heap_ok_empty])
  obtain h' where h': "list_get sp ?l (tree_text t) None ?h = Some h'" "tree_list h' ?l = Some (tree_norm t)"
    using read_tree [OF assms(5) new_list_reading [OF ok] assms(3)] by (auto simp: reading_def)
  obtain b where b: "mwSametimeList_put l h mwPutBuffer_new = Some b" "b = exec_state (mwString_put (Some (tree_text t))) mwPutBuffer_new"
    using list_put_writes [OF assms(2 - 4), of mwPutBuffer_new] by blast
  have valid: "string_valid (Some (tree_text t))"
    using tree_text_no_nul [OF assms(3)] assms(4) by (simp add: string_valid_def)
  have "run_state mwString_get (mwGetBuffer_wrap (Some (mwPutBuffer_finalize b)))
      = (Some (tree_text t), gbuf True (string_wire (Some (tree_text t))) [])"
    using mwString.round_trip [OF valid] tree_text_nonempty [of t] by (simp add: b(2) string_norm_def)
  then have "mwSametimeList_get sp ?l ?h (mwGetBuffer_wrap (Some (mwPutBuffer_finalize b)))
      = Some (h', gbuf True (string_wire (Some (tree_text t))) [])"
    using h'(1) by (simp add: mwSametimeList_get_def)
  moreover have "mwSametimeList_load sp (tree_text t) h = Some (?l, h')"
    using h'(1) by (simp add: mwSametimeList_load_def split_def Let_def)
  ultimately show ?thesis
    using b(1) h'(2) list_store_text [OF assms(2, 3)] by (fastforce simp: mwSametimeList_store_def)
qed

text \<open>Where reading a line goes wrong.\<close>

lemma split_type_faults: "split_type w = None \<longleftrightarrow> (\<exists>v. w = 0x3A # 0x3A # v)"
proof -
  have "strstr w [0x3A, 0x3A] = Some 0 \<longleftrightarrow> (\<exists>v. w = 0x3A # 0x3A # v)"
  proof (cases w)
    case (Cons x t)
    then show ?thesis
      by (cases t) auto
  qed simp
  then show ?thesis
    by (auto simp: split_type_def ascii_lits split: option.splits nat.splits)
qed

lemma blanks_colons: "(\<exists>v. blanks w = 0x3A # 0x3A # v) \<longleftrightarrow> (\<exists>v. w = 0x3A # 0x3A # v)"
proof (cases w)
  case (Cons x t)
  then show ?thesis
    by (cases t) auto
qed simp

lemma get_user_faults:
  assumes "line \<noteq> []" "h_groups h g \<noteq> None"
  shows "get_user line (Some g) h = None \<longleftrightarrow> (\<exists>w vs. sscanf [Lit 0x55, Space, Scan_s, Space, Scan_s] line = Got_s (0x3A # 0x3A # w) # vs)"
proof -
  let ?vs = "sscanf [Lit 0x55, Space, Scan_s, Space, Scan_s] line"
  define w where "w = (case ?vs of Got_s n # _ \<Rightarrow> n | _ \<Rightarrow> [])"
  define n where "n = (case ?vs of _ # Got_s a # _ \<Rightarrow> a | _ \<Rightarrow> [])"
  have fit: "block_string (length line) w = Some w" "block_string (length line) n = Some n"
    unfolding w_def n_def by (rule word_fits [OF assms(1)])+
  have "get_user line (Some g) h = None \<longleftrightarrow> blanks w \<noteq> [] \<and> split_type (blanks w) = None"
    using assms(2) unfolding get_user_def Let_def w_def [symmetric] n_def [symmetric] fit
    by (cases "split_type (blanks w)")
      (auto simp: str_replace_def new_addr_def set_user_def split_def simp del: map_map)
  also have "\<dots> \<longleftrightarrow> (\<exists>v. blanks w = 0x3A # 0x3A # v)"
    unfolding split_type_faults by auto
  also have "\<dots> \<longleftrightarrow> (\<exists>v. w = 0x3A # 0x3A # v)"
    by (rule blanks_colons)
  also have "\<dots> \<longleftrightarrow> (\<exists>v vs. ?vs = Got_s (0x3A # 0x3A # v) # vs)"
    by (auto simp: w_def simp del: sscanf.simps split: list.splits scanned.splits)
  finally show ?thesis .
qed

text \<open>
  Claim C30. On live objects reading a line returns, without leaving the blocks allocated for its
  words, except in two cases: a user line before the first group line, where the code goes
  through the NULL pointer of the missing group, and a user line whose ID starts with two
  colons, where it cuts the ID in front of its block.
\<close>

theorem st_list_line_faults:
  assumes "list_env l g h" and "line \<noteq> []"
  shows "list_line l line g h = None \<longleftrightarrow>
    hd line = 0x55 \<and> (g = None \<or> (\<exists>w vs. sscanf [Lit 0x55, Space, Scan_s, Space, Scan_s] line = Got_s (0x3A # 0x3A # w) # vs))"
proof -
  obtain L where L: "h_lists h l = Some L"
    using assms(1) by (auto simp: list_env_def)
  have "get_version line l h \<noteq> None"
    using L by (simp add: get_version_def Let_def del: sscanf.simps)
  moreover have "get_group line l h \<noteq> None"
    by (rule get_group_run [OF assms(2) L]) simp
  moreover have "get_user line g h = None \<longleftrightarrow>
      (g = None \<or> (\<exists>w vs. sscanf [Lit 0x55, Space, Scan_s, Space, Scan_s] line = Got_s (0x3A # 0x3A # w) # vs))"
    using get_user_faults [OF assms(2)] get_user_no_group assms(1) by (cases g) (auto simp: list_env_def simp del: sscanf.simps)
  ultimately show ?thesis
    by (auto simp: list_line_def simp del: sscanf.simps)
qed

lemma example_env: "list_env 0 (Some 1) example_user"
  using st_calls_ok [OF example_user_calls heap_ok_empty] example_user_objects by (auto simp: list_env_def)

lemma st_list_line_faults_witness:
  "list_line 0 (ascii ''U :: x,'') (Some 1) example_user = None \<and> list_line 0 (ascii ''U joe1:: Joe,'') (Some 1) example_user \<noteq> None"
  using st_list_line_faults [OF example_env, of "ascii ''U :: x,''"] st_list_line_faults [OF example_env, of "ascii ''U joe1:: Joe,''"]
  by (simp add: ascii_def c_isspace_def)

lemma example_tree:
  "tree_list example_user 0 = Some (St_Tree 3 1 3 [St_Group mwSametimeGroup_NORMAL (ascii ''Work'') None False
     [St_User mwSametimeUser_NORMAL \<lparr>ib_user = Some (ascii ''joe''), ib_community = None\<rparr> None None]])"
  by (simp add: tree_list_def tree_group_def tree_user_def example_list_defs example_group_defs example_user_defs
      ST_LIST_MAJOR_def ST_LIST_MINOR_def ST_LIST_MICRO_def mwIdBlock_clone_def mwIdBlock_zero_def)

lemma st_list_round_trip_witness:
  "\<exists>s l' h'. mwSametimeList_store 0 example_user = Some s \<and> mwSametimeList_load c_isspace s example_user = Some (l', h')
    \<and> tree_list h' l' = Some (St_Tree 3 1 3 [St_Group mwSametimeGroup_NORMAL (ascii ''Work'') (Some (ascii ''Work'')) False
        [St_User mwSametimeUser_NORMAL \<lparr>ib_user = Some (ascii ''joe''), ib_community = None\<rparr> (Some []) None]])"
proof -
  let ?t = "St_Tree 3 1 3 [St_Group mwSametimeGroup_NORMAL (ascii ''Work'') None False
     [St_User mwSametimeUser_NORMAL \<lparr>ib_user = Some (ascii ''joe''), ib_community = None\<rparr> None None]]"
  have "tree_storable ?t"
    by (simp add: ascii_def plain_def c_isspace_def)
  moreover have "length (tree_text ?t) < 2 ^ 16"
    by (simp add: eol_def version_line_def group_text_def user_line_def ascii_def print_uint_def print_nat.simps)
  moreover have "space_ok c_isspace"
    by (simp add: space_ok_def c_isspace_def)
  ultimately show ?thesis
    using st_list_round_trip [OF example_user_calls example_tree, of c_isspace] by auto
qed

end
