(* ===== verification/Spec2Isabelle.thy ===== *)
theory Spec2Isabelle
  imports FT_Delivery IM_Delivery Aware_Lists Conf_Roster Srvc_Store Srvc_Resolve Key_Exchange Mpi_Extra St_List_Text
begin

text \<open>
  Meanwhile is a client library for the Lotus Sametime instant messaging protocol, written
  in C on top of GLib. This development models its protocol engine and proves it correct.

  \<^bold>\<open>The program.\<close> A client owns a \<^emph>\<open>session\<close> (\<^verbatim>\<open>src/src/session.c\<close>). Bytes of the
  connection enter through \<open>mwSession_recv\<close>, which cuts them into messages; a message is
  parsed (\<^verbatim>\<open>src/src/message.c\<close>, on the buffers and types of \<^verbatim>\<open>src/src/common.c\<close>) and handed
  to the session itself (handshake, login) or to one of its \<^emph>\<open>channels\<close>
  (\<^verbatim>\<open>src/src/channel.c\<close>). A channel negotiates a \<^emph>\<open>cipher\<close> (\<^verbatim>\<open>src/src/cipher.c\<close>, on the
  big numbers of \<^verbatim>\<open>src/src/mpi/mpi.c\<close>), decrypts, and delivers to a \<^emph>\<open>service\<close>
  (\<^verbatim>\<open>src/src/service.c\<close>), the client code. In the other direction a service sends on a
  channel, which encrypts, or queues while it is not open, and the session renders the
  message and writes it out.

  \<^bold>\<open>The theories\<close>, in the order they build on each other:

  \<^item> \<open>Prelude\<close>: scalar types as words of their width, the collections of facts, and lemmas on
    words, lists and the state monad.
  \<^item> \<open>Buffers\<close>: \<open>struct mwPutBuffer\<close> and \<open>struct mwGetBuffer\<close> with their blocks, cursors and
    error flag; integers, booleans, strings and opaques on the wire. Its locales
    \<open>tail_codec\<close> and \<open>codec\<close> are the contract of a writer and a reader; they give round trips,
    locality, and detection of truncated input to every interpretation.
  \<^item> \<open>Common\<close>: the compound types of \<^verbatim>\<open>common.c\<close>, each an interpretation of \<open>codec\<close>.
  \<^item> \<open>Messages\<close>, \<open>Message_Dispatch\<close>: the head and the body of every message, and
    \<open>mwMessage_new\<close>, \<open>mwMessage_get\<close>, \<open>mwMessage_put\<close>. What the C readers leave in
    uninitialised locals is an argument (\<open>mwJunk\<close>), and that nothing depends on it is a theorem.
  \<^item> \<open>RC2\<close>: key expansion and block functions with their overflowing 32 bit ints, chaining
    and padding, against RFC 2268. \<open>Cipher\<close>: the RC2/40 and RC2/128 ciphers, their instances
    and the negotiation; the locale \<open>cipher_link\<close> is what two ends of a channel rely on.
  \<^item> \<open>Session_State\<close>, \<open>Session_Core\<close>, \<open>Service\<close>, \<open>Channel\<close>, \<open>Session\<close>: the state record of a
    session with its tables of channels, services and ciphers, and one definition per
    function over a state monad. The client (its callbacks, the I/O handler and the handlers
    of its services) is the record \<open>env\<close> of arbitrary computations over the session state.
  \<^item> \<open>Framing\<close>: \<open>mwSession_recv\<close> and the input buffer, against the specification
    \<open>split_stream\<close> of the framing of a byte stream.
  \<^item> \<open>Invariants\<close>, \<open>Lifecycle\<close>: the locales \<open>channel_invariant\<close> and \<open>session_invariant\<close> carry a
    predicate of the state through every function from what the client promises; they are
    interpreted on the tables, on the services and on the state of the session. From them
    come the state machine of the session and the invariants of all sequences of calls.
  \<^item> \<open>Mpi_Digits\<close>, \<open>Mpi_Arith\<close>, \<open>Mpi\<close>, \<open>Mpi_Extra\<close>: the multiple precision library on arrays of
    16 bit digits with explicit allocation, 32 bit intermediate words, in place updates and
    aliased results (\<open>mp_out\<close>). Writing a digit outside the array, and a loop that
    does not end, are the value \<open>None\<close>; the theorems show results.
  \<^item> \<open>Key_Exchange\<close>: the Diffie-Hellman functions of \<^verbatim>\<open>cipher.c\<close> over the digit arrays; the
    locale \<open>dh_arithmetic\<close> relates them to the integers that \<open>Cipher\<close> computes with.
  \<^item> \<open>C_Text\<close>, \<open>St_List\<close>, \<open>St_List_Heap\<close>, \<open>St_List_Text\<close>: the contact lists of
    \<^verbatim>\<open>src/src/st_list.c\<close> on a heap with owner pointers, \<open>sscanf\<close> and \<open>printf\<close> as far as
    they are used, the ownership invariant and the round trip through text.
  \<^item> this theory: two sessions and the connection between them.

  \<^bold>\<open>What is shown.\<close> Round trips of all wire formats and messages, with detection of
  truncated input and independence of uninitialised memory; that \<open>mwSession_recv\<close> returns on
  every input and processes exactly the messages of the stream, however it is cut; that the
  block functions are RC2 and that both ends of a negotiation decrypt what the other sends;
  that the big number routines compute what they should, up to the modular power by Barrett
  reduction, and so the key exchange; that channel identifiers are fresh, tables
  consistent, state changes on the edges of the state machine, logins complete, and that
  stopping stops every service; and, in this theory, that the composition of all of it
  delivers the data a service sends on a channel to the service at the other end.
  Deviations of the code from its documentation are stated as lemmas where they concern a
  modelled function.

  \<^bold>\<open>Bounds and termination.\<close> Recursions follow the data or a measure. Loops of C that may
  not end are \<open>partial_function (option)\<close>, and the theorems about them state that they return.
  The one use of fuel is the search for a channel identifier, bounded by the number of
  open channels plus one, which some identifier has to miss. Sizes are natural numbers
  where the C type is \<open>gsize\<close>, and the 32 bit fields of the protocol are words with wrap
  around written out; lengths of messages are assumed below \<open>2 ^ 31\<close> where the first bit of
  the length field would be taken for a keep-alive.

  \<^bold>\<open>Not modelled.\<close> Allocation failure of GLib, which ends the process; client data
  pointers and their destructors; reference counts; logging; the parts of
  the number library that nothing in the program calls (greatest common divisors, modular
  inverses, square roots, radix conversion).
  The services on top of channels (\<^verbatim>\<open>srvc_*.c\<close>) are not modelled yet.
  The sample programs are loops around sockets.
\<close>

section \<open>Messages across a connection\<close>

text \<open>
  C2: what one end sends the other end handles. Whatever messages and keep-alives one
  end writes, and however the connection cuts their bytes into pieces, the receiving
  session returns from every piece and has then handled exactly these messages, in
  order, each as its reader yields it, with nothing left in its buffer.
\<close>

theorem connection_delivers:
  assumes "env_nobuf env" and "framing_ok s []" and "\<forall>m. Some m \<in> set items \<longrightarrow> sendable m"
    and "concat pieces = connection_bytes items"
  shows "mwSession_recv_all env pieces s = Some (exec_state (for_each (\<lambda>m. do {
      e_junk env; session_dispatch env (mwMessage_norm m) }) (List.map_filter (\<lambda>i. i) items)) s)"
proof -
  let ?msgs = "List.map_filter (\<lambda>i. i) items"
  have "\<forall>m \<in> set ?msgs. sendable m"
    using assms(3) by (auto simp: List.map_filter_def)
  note process = process_sendable [OF this]
  obtain t where t: "mwSession_recv env (concat pieces) s = Some t" "framing_ok t []"
    "buf_free t = exec_state (for_each (\<lambda>m. do { e_junk env; session_dispatch env (mwMessage_norm m) }) ?msgs) (buf_free s)"
    using mwSession_recv_splits [OF assms(1,2), of "connection_bytes items"] split_connection [OF assms(3)]
    by (auto simp: assms(4) process)
  then show ?thesis
    using mwSession_recv_all_concat [OF assms(1,2), of pieces] assms(2) by simp
qed

theorem connection_delivers_witness:
  "env_nobuf log_env \<and> framing_ok (mwSession_zero []) []
   \<and> sendable example_create
   \<and> concat (map (\<lambda>b. [b]) (connection_bytes [None, Some example_create])) = connection_bytes [None, Some example_create]
   \<and> mwSession_recv_all log_env (map (\<lambda>b. [b]) (connection_bytes [None, Some example_create])) (mwSession_zero [])
     = Some (exec_state (for_each (\<lambda>m. do { e_junk log_env; session_dispatch log_env (mwMessage_norm m) })
         (List.map_filter (\<lambda>i. i) [None, Some example_create])) (mwSession_zero []))"
proof -
  have send: "\<forall>m. Some m \<in> set [None, Some example_create] \<longrightarrow> sendable m"
    using example_create_sendable by simp
  have pieces: "concat (map (\<lambda>b. [b]) (connection_bytes [None, Some example_create])) = connection_bytes [None, Some example_create]"
    by simp
  show ?thesis
    using connection_delivers [OF log_env_nobuf framing_ok_zero send pieces] log_env_nobuf framing_ok_zero
      example_create_sendable pieces by (intro conjI)
qed

section \<open>Data across a channel\<close>

text \<open>
  C1: data across a channel, from \<open>mwChannel_send\<close> at one end to the service's \<open>recv\<close>
  at the other. With the cipher instances of the two open channels in sync (or no
  cipher at either end), sending an opaque writes bytes which the other session,
  receiving them in any pieces, turns into one call of its service's function with
  the same type and the same bytes, decrypted; and the instances are in sync again.
\<close>

theorem channel_delivers:
  assumes "map_of (ss_channels s) c = Some ch" and "ch_state ch = mwChannel_OPEN" and "ch_id ch = c"
    and "\<And>ci. ch_cipher ch = Some ci \<Longrightarrow> map_of (ss_ciphers s) (instance_type ci) = Some cipher"
    and "map_of (ss_channels r) c = Some ch'" and "ch_state ch' = mwChannel_OPEN"
    and "map_of (ss_services r) (ch_service ch') = Some sv" and "e_recv env (sv_type sv) = Some recv"
    and "env_nobuf env" and "framing_ok r []" and "client_only (e_junk env)"
    and "in_sync cipher (ch_cipher ch) (ch_cipher ch')" and "opaque_ok data" and "op_len data < 2 ^ 30"
    and "s' = exec_state (mwChannel_send log_env c type data) s"
  shows "\<exists>wire out r1 ch1 ch1'. ss_client s' = ss_client s @ [wire]
    \<and> (\<forall>pieces. concat pieces = wire \<longrightarrow>
         mwSession_recv_all env pieces r = Some (exec_state (recv c (ucast type) out) r1))
    \<and> opaque_bytes out = opaque_bytes data
    \<and> map_of (ss_channels s') c = Some ch1 \<and> map_of (ss_channels r1) c = Some ch1'
    \<and> in_sync cipher (ch_cipher ch1) (ch_cipher ch1')"
proof -
  obtain ci m where msg: "channel_message cipher ch type data = (ci, m)" by fastforce
  note send = channel_message_sendable(1) [OF assms(13,14,12) msg]
  obtain b out where step: "exec_state (do { e_junk env; session_dispatch env (mwMessage_norm (ChannelSend m)) }) r
      = exec_state (recv c (ucast type) out) (chan_received c ch' b (exec_state (e_junk env) r))"
      "opaque_bytes out = opaque_bytes data" "in_sync cipher ci b"
    using channel_step [OF assms(5,6,3,7,8,11-14) msg] by blast
  let ?wire = "opaque_bytes (mwSession_render (ChannelSend m))"
  have "mwSession_recv_all env pieces r
      = Some (exec_state (recv c (ucast type) out) (chan_received c ch' b (exec_state (e_junk env) r)))"
    if "concat pieces = ?wire" for pieces
    using recv_messages [OF assms(9,10), of "[ChannelSend m]" pieces] that send step(1) by simp
  moreover have "ss_client s' = ss_client s @ [?wire]" "map_of (ss_channels s') c = Some (ch\<lparr>ch_cipher := ci\<rparr>)"
    using mwChannel_send_run [OF assms(1,2,4) msg log_env_writes] assms(15) by simp_all
  moreover have "\<exists>ch1'. map_of (ss_channels (chan_received c ch' b (exec_state (e_junk env) r))) c = Some ch1'
      \<and> ch_cipher ch1' = b"
    by (simp add: chan_received_def)
  ultimately show ?thesis using step(2,3) by fastforce
qed

definition example_instance :: mwCipherInstance_RC2_40 where
  "example_instance = \<lparr>i40_incoming_key = zero_key, i40_outgoing_iv = mwIV_init, i40_incoming_iv = mwIV_init\<rparr>"

definition example_cipher :: mwCipher where
  "example_cipher = RC2_40 \<lparr>c40_session_key = zero_key, c40_ready = True\<rparr>"

definition example_open :: mwChannel where
  "example_open = mwChannel_zero\<lparr>ch_state := mwChannel_OPEN, ch_id := 1, ch_service := 0x1000,
     ch_cipher := Some (Inst_RC2_40 example_instance)\<rparr>"

definition example_end :: "bytes list mwSession" where
  "example_end = (mwSession_zero [])\<lparr>ss_channels := [(1, example_open)], ss_ciphers := [(0, example_cipher)],
     ss_services := [(0x1000, \<lparr>sv_type = 0x1000, sv_state = mwServiceState_STARTED\<rparr>)]\<rparr>"

definition example_recv :: "guint32 \<Rightarrow> guint16 \<Rightarrow> mwOpaque \<Rightarrow> (bytes list, unit) M" where
  "example_recv c t d = modify (\<lambda>s. s\<lparr>ss_client := ss_client s @ [opaque_bytes d]\<rparr>)"

definition recv_env :: "bytes list env" where
  "recv_env = log_env\<lparr>e_recv := \<lambda>_. Some example_recv\<rparr>"

lemma recv_env_ok: "env_nobuf recv_env" "client_only (e_junk recv_env)" "e_recv recv_env v = Some example_recv"
proof -
  have "nobuf (example_recv c t d)" for c t d
    unfolding example_recv_def by (rule nobuf_modify) (simp add: buf_free_def)
  then show "env_nobuf recv_env"
    using log_env_nobuf by (auto simp: env_nobuf_def recv_env_def)
  show "client_only (e_junk recv_env)" "e_recv recv_env v = Some example_recv"
    by (simp_all add: recv_env_def log_env_def)
qed

lemma example_end_ok:
  "map_of (ss_channels example_end) 1 = Some example_open" "ch_state example_open = mwChannel_OPEN" "ch_id example_open = 1"
  "ch_cipher example_open = Some ci \<Longrightarrow> map_of (ss_ciphers example_end) (instance_type ci) = Some example_cipher"
  "map_of (ss_services example_end) (ch_service example_open) = Some \<lparr>sv_type = 0x1000, sv_state = mwServiceState_STARTED\<rparr>"
  "framing_ok example_end []" "in_sync example_cipher (ch_cipher example_open) (ch_cipher example_open)"
  by (auto simp: example_end_def example_open_def example_cipher_def example_instance_def sync_RC2_40_def buf_free_def
      mwSession_zero_def)

theorem channel_delivers_witness:
  "\<exists>wire out r1 ch1 ch1'. ss_client (exec_state (mwChannel_send log_env 1 7 (opaque_of [1, 2])) example_end)
      = ss_client example_end @ [wire]
    \<and> mwSession_recv_all recv_env (map (\<lambda>b. [b]) wire) example_end
        = Some (exec_state (example_recv 1 (ucast (7 :: guint32)) out) r1)
    \<and> opaque_bytes out = opaque_bytes (opaque_of [1, 2])
    \<and> map_of (ss_channels (exec_state (mwChannel_send log_env 1 7 (opaque_of [1, 2])) example_end)) 1 = Some ch1
    \<and> map_of (ss_channels r1) 1 = Some ch1' \<and> in_sync example_cipher (ch_cipher ch1) (ch_cipher ch1')"
proof -
  have data: "opaque_ok (opaque_of [1, 2])" "op_len (opaque_of [1, 2]) < 2 ^ 30" by simp_all
  have wire: "concat (map (\<lambda>b. [b]) bs) = bs" for bs :: bytes by simp
  show ?thesis
    using channel_delivers [OF example_end_ok(1-4,1,2,5) recv_env_ok(3,1) example_end_ok(6) recv_env_ok(2)
        example_end_ok(7) data refl, of 7] wire by blast
qed

end
